(* ===== verification/Prelude.thy ===== *)
theory Prelude
  imports Main "HOL-Library.Word"
begin

text \<open>
  Shared vocabulary of the development: the C integer types of
  \<^verbatim>\<open>include/common/basic_types.h\<close> (32-bit ARM), the error codes of
  \<^verbatim>\<open>include/common/error_types.h\<close>, the collections of rewrite rules the components
  register their facts in, and generic lemmas on lists, options and words.
\<close>

unbundle bit_operations_syntax

section \<open>Types\<close>

text \<open>
  \<^verbatim>\<open>unsigned long\<close> and \<^verbatim>\<open>unsigned int\<close> are both 32 bits wide on the target
  (ARMv7), so \<^verbatim>\<open>kutype_t\<close>, \<^verbatim>\<open>kuaddr_t\<close>, \<^verbatim>\<open>kusize_t\<close> and \<^verbatim>\<open>kuint32_t\<close> share one
  type.  Signed return codes are \<open>int\<close>.
\<close>

type_synonym kuint8_t = "8 word"
type_synonym kuint16_t = "16 word"
type_synonym kuint32_t = "32 word"
type_synonym kuint64_t = "64 word"
type_synonym kuaddr_t = "32 word"
type_synonym kutime_t = "32 word"

section \<open>Error codes\<close>

abbreviation ER_NORMAL :: int where "ER_NORMAL \<equiv> 0"
abbreviation ER_ERROR :: int where "ER_ERROR \<equiv> 1"
abbreviation ER_PERMIT :: int where "ER_PERMIT \<equiv> 3"
abbreviation ER_NOMEM :: int where "ER_NOMEM \<equiv> 4"
abbreviation ER_UNVALID :: int where "ER_UNVALID \<equiv> 5"
abbreviation ER_EMPTY :: int where "ER_EMPTY \<equiv> 6"
abbreviation ER_NULLPTR :: int where "ER_NULLPTR \<equiv> 7"
abbreviation ER_FAULT :: int where "ER_FAULT \<equiv> 9"
abbreviation ER_MORE :: int where "ER_MORE \<equiv> 10"
abbreviation ER_EXISTED :: int where "ER_EXISTED \<equiv> 12"
abbreviation ER_NOTFOUND :: int where "ER_NOTFOUND \<equiv> 13"
abbreviation ER_USED :: int where "ER_USED \<equiv> 14"
abbreviation ER_LOCKED :: int where "ER_LOCKED \<equiv> 15"
abbreviation ER_FORBID :: int where "ER_FORBID \<equiv> 16"
abbreviation ER_NSUPPORT :: int where "ER_NSUPPORT \<equiv> 18"
abbreviation ER_IOERR :: int where "ER_IOERR \<equiv> 17"
abbreviation ER_FAILD :: int where "ER_FAILD \<equiv> 20"
abbreviation ER_NODEV :: int where "ER_NODEV \<equiv> 22"
abbreviation ER_BUSY :: int where "ER_BUSY \<equiv> 23"
abbreviation ER_CHECKERR :: int where "ER_CHECKERR \<equiv> 24"

section \<open>Generic lemmas\<close>

lemma find_Some_split:
  assumes "find P xs = Some x"
  obtains ys zs where "xs = ys @ x # zs" "P x" "\<forall>y \<in> set ys. \<not> P y"
proof -
  from assms obtain i where i: "i < length xs" "P (xs ! i)" "x = xs ! i"
    "\<forall>j<i. \<not> P (xs ! j)"
    by (auto simp: find_Some_iff)
  have "xs = take i xs @ x # drop (Suc i) xs"
    using i by (simp add: id_take_nth_drop)
  moreover have "\<forall>y \<in> set (take i xs). \<not> P y"
    using i by (auto simp: in_set_conv_nth)
  ultimately show thesis using i that by blast
qed

lemma nth_append_last [simp]: "(xs @ [x]) ! length xs = x"
  by simp

lemma bind_Some_iff:
  "Option.bind m f = Some r \<longleftrightarrow> (\<exists>x. m = Some x \<and> f x = Some r)"
  by (cases m) auto

lemma unat_add_small:
  fixes a b :: kuint32_t
  assumes "unat a + unat b < 2 ^ 32"
  shows "unat (a + b) = unat a + unat b"
  using assms by (simp add: unat_word_ariths)

lemma unat_mult_small: "unat (a :: kuint32_t) * unat b < 2 ^ 32 \<Longrightarrow> unat (a * b) = unat a * unat b"
  by (simp add: unat_word_ariths)

lemma unat_of_nat_small: "k < 2 ^ 32 \<Longrightarrow> unat (of_nat k :: kuint32_t) = k"
  by (simp add: unat_of_nat take_bit_nat_eq_self)

lemma sint_32:
  fixes w :: kuint32_t
  shows "sint w = (if uint w < 2 ^ 31 then uint w else uint w - 2 ^ 32)"
proof -
  have r: "0 \<le> uint w" "uint w < 2 ^ 32" using uint_lt2p [of w] by auto
  have e: "sint w = (uint w + 2 ^ 31) mod 2 ^ 32 - 2 ^ 31"
    by (simp add: sint_uint signed_take_bit_eq_take_bit_shift take_bit_eq_mod)
  show ?thesis
  proof (cases "uint w < 2 ^ 31")
    case True
    then have "(uint w + 2 ^ 31) mod 2 ^ 32 = uint w + 2 ^ 31" using r by simp
    with e True show ?thesis by simp
  next
    case False
    have "(uint w + 2 ^ 31) mod 2 ^ 32 = (uint w + 2 ^ 31 - 2 ^ 32) mod 2 ^ 32"
      by (rule minus_mod_self2 [symmetric])
    also have "\<dots> = uint w + 2 ^ 31 - 2 ^ 32" using r False by (intro mod_pos_pos_trivial) auto
    finally show ?thesis using e False by simp
  qed
qed

lemma sint_small: "uint (w :: kuint32_t) < 2 ^ 31 \<Longrightarrow> sint w = uint w"
  by (simp add: sint_32)

lemma sint_of_nat_small: "i < 2 ^ 31 \<Longrightarrow> sint (of_nat i :: kuint32_t) = int i"
proof -
  assume i: "i < 2 ^ 31"
  have "uint (of_nat i :: kuint32_t) = int i" using i by (simp add: uint_word_of_int_eq unsigned_of_nat take_bit_nat_eq_self_iff take_bit_nat_eq_self)
  moreover have "int i < 2 ^ 31" using i by simp
  ultimately show ?thesis using sint_small [of "of_nat i"] by simp
qed

lemma find_append: "find P (xs @ ys) = (case find P xs of None \<Rightarrow> find P ys | Some x \<Rightarrow> Some x)"
  by (induction xs) auto

lemma find_cong_mem: "(\<And>x. x \<in> set xs \<Longrightarrow> P x = Q x) \<Longrightarrow> find P xs = find Q xs"
  by (induction xs) auto

end
