(* ===== verification/Generic_Ops.thy ===== *)
theory Generic_Ops
  imports Prelude "HOL-Library.Signed_Division"
begin

text \<open>
  \<^verbatim>\<open>common/generic/generic.c\<close>, the arithmetic helpers of \<^verbatim>\<open>include/common/generic.h\<close> and
  the error-pointer encoding of \<^verbatim>\<open>include/common/error_types.h\<close>.  The software division
  loops do not terminate for a zero divisor; \<open>None\<close> is that outcome (and, in the number
  printers, an access outside the local array).
\<close>

section \<open>Error pointers\<close>

definition IS_ERR :: "kuaddr_t \<Rightarrow> bool" where
  "IS_ERR ptr \<longleftrightarrow> ptr \<ge> - (push_bit 10 4)"

definition ERR_PTR :: "int \<Rightarrow> kuaddr_t" where
  "ERR_PTR code = word_of_int code"

definition PTR_ERR :: "kuaddr_t \<Rightarrow> int" where
  "PTR_ERR ptr = (if ptr \<noteq> 0 then sint ptr else - ER_NOMEM)"

definition isValid :: "kuaddr_t \<Rightarrow> bool" where
  "isValid ptr \<longleftrightarrow> ptr \<noteq> 0 \<and> \<not> IS_ERR ptr"

section \<open>Alignment and bit tricks\<close>

definition isPower2 :: "kuint32_t \<Rightarrow> bool" where
  "isPower2 number \<longleftrightarrow> number \<noteq> 0 \<and> number AND (number - 1) = 0"

definition mrt_align :: "kuint32_t \<Rightarrow> kuint32_t \<Rightarrow> kuint32_t" where
  "mrt_align x msk = (x + (msk - 1)) AND NOT (msk - 1)"

definition mrt_ralign :: "kuint32_t \<Rightarrow> kuint32_t \<Rightarrow> kuint32_t" where
  "mrt_ralign x msk = x AND NOT (msk - 1)"

fun reverse_bit_loop :: "nat \<Rightarrow> kuint8_t \<Rightarrow> kuint8_t \<Rightarrow> kuint8_t" where
  "reverse_bit_loop 0 result val = result"
| "reverse_bit_loop (Suc i) result val =
     reverse_bit_loop i (push_bit 1 result OR (val AND 1)) (drop_bit 1 val)"

definition api_reverse_bit :: "kuint8_t \<Rightarrow> kuint8_t" where
  "api_reverse_bit val = reverse_bit_loop 8 0 val"

section \<open>Software division\<close>

partial_function (option) udiv_loop ::
  "kuint32_t \<Rightarrow> kuint32_t \<Rightarrow> kuint32_t \<Rightarrow> kuint32_t option" where
  "udiv_loop divied dv count =
     (if divied \<ge> dv then udiv_loop (divied - dv) dv (count + 1) else Some count)"

definition udiv_integer :: "kuint32_t \<Rightarrow> kuint32_t \<Rightarrow> kuint32_t option" where
  "udiv_integer divied dv = udiv_loop divied dv 0"

partial_function (option) udiv_remainder ::
  "kuint32_t \<Rightarrow> kuint32_t \<Rightarrow> kuint32_t option" where
  "udiv_remainder divied dv =
     (if divied \<ge> dv then udiv_remainder (divied - dv) dv else Some divied)"

definition mrt_abs :: "kuint32_t \<Rightarrow> kuint32_t" where
  "mrt_abs a = (if a <s 0 then - a else a)"

partial_function (option) sdiv_loop ::
  "kuint32_t \<Rightarrow> kuint32_t \<Rightarrow> kuint32_t \<Rightarrow> kuint32_t option" where
  "sdiv_loop number1 number2 count =
     (if number2 \<le>s number1 then sdiv_loop (number1 - number2) number2 (count + 1)
      else Some count)"

definition sdiv_integer :: "kuint32_t \<Rightarrow> kuint32_t \<Rightarrow> kuint32_t option" where
  "sdiv_integer divied dv =
     (case sdiv_loop (mrt_abs divied) (mrt_abs dv) 0 of
        None \<Rightarrow> None
      | Some count \<Rightarrow> Some (if (divied XOR dv) <s 0 then - count else count))"

section \<open>Number printers\<close>

text \<open>
  The local array \<^verbatim>\<open>temp\<close> has \<open>cap\<close> cells.  \<^verbatim>\<open>count\<close> is declared without an initial value in
  the source, so it is a parameter here; cells never written hold the arbitrary contents
  of \<open>temp\<close>.
\<close>

definition hex_digit :: "bool \<Rightarrow> kuint32_t \<Rightarrow> kuint8_t" where
  "hex_digit mode result =
     (if result \<ge> 10 then ucast result - 10 + (if mode then 65 else 97) else ucast result + 48)"

partial_function (option) dec_digits ::
  "nat \<Rightarrow> kuint32_t \<Rightarrow> (kuint32_t \<Rightarrow> kuint8_t) \<Rightarrow> kuint32_t \<Rightarrow> (nat \<Rightarrow> kuint8_t) \<Rightarrow> nat \<Rightarrow>
     ((nat \<Rightarrow> kuint8_t) \<times> nat) option" where
  "dec_digits cap base digit number temp count =
     Option.bind (udiv_remainder number base) (\<lambda>result.
     Option.bind (udiv_integer number base) (\<lambda>number.
     if cap \<le> count then None
     else (let temp = temp(count := digit result); count = Suc count
           in if number \<noteq> 0 then dec_digits cap base digit number temp count
              else Some (temp, count))))"

definition dec_to_hex ::
  "(nat \<Rightarrow> kuint8_t) \<Rightarrow> nat \<Rightarrow> kuint32_t \<Rightarrow> bool \<Rightarrow> (kuint8_t list \<times> nat) option" where
  "dec_to_hex temp count number mode =
     Option.bind (dec_digits 12 16 (hex_digit mode) number temp count) (\<lambda>(temp, count).
       Some ([48, if mode then 88 else 120] @ map (\<lambda>idx. temp (count - idx - 1)) [0..<count],
             count + 2))"

definition dec_to_binary ::
  "(nat \<Rightarrow> kuint8_t) \<Rightarrow> nat \<Rightarrow> kuint32_t \<Rightarrow> (kuint8_t list \<times> nat) option" where
  "dec_to_binary temp count number =
     Option.bind (dec_digits 36 2 (\<lambda>result. ucast result + 48) number temp count)
       (\<lambda>(temp, count).
       Some ([48, 98] @ map (\<lambda>idx. temp (count - idx - 1)) [0..<count], count + 2))"

section \<open>Correctness of the division loops\<close>

lemma word_div_step:
  fixes n d :: "'a::len word"
  assumes "d \<le> n" "d \<noteq> 0"
  shows "n div d = (n - d) div d + 1"
proof -
  have d: "0 < unat d" using assms(2) unat_gt_0 by blast
  have le: "unat d \<le> unat n" using assms(1) by (simp add: word_le_nat_alt)
  have "n div d = of_nat (unat n div unat d)"
    by (simp add: word_arith_nat_div)
  also have "unat n div unat d = Suc ((unat n - unat d) div unat d)"
    using le d by (simp add: le_div_geq)
  also have "of_nat (Suc ((unat n - unat d) div unat d)) = (n - d) div d + 1"
    using assms(1) by (simp add: word_arith_nat_div [of "n - d"] unat_sub)
  finally show ?thesis .
qed

lemma word_mod_step:
  fixes n d :: "'a::len word"
  assumes "d \<le> n"
  shows "n mod d = (n - d) mod d"
  using assms
  by (simp add: word_arith_nat_mod word_le_nat_alt unat_sub le_mod_geq)

lemma word_sub_less:
  fixes n d :: "'a::len word"
  assumes "d \<le> n" "d \<noteq> 0"
  shows "unat (n - d) < unat n"
  using assms unat_gt_0 [of d] by (simp add: word_le_nat_alt unat_sub)

lemma udiv_loop_correct: "d \<noteq> 0 \<Longrightarrow> udiv_loop n d c = Some (c + n div d)"
proof (induction n arbitrary: c rule: measure_induct_rule [of unat])
  case (less n)
  show ?case
  proof (cases "d \<le> n")
    case True
    then have "udiv_loop (n - d) d (c + 1) = Some (c + 1 + (n - d) div d)"
      using less word_sub_less by blast
    with True less.prems show ?thesis
      by (subst udiv_loop.simps) (simp add: word_div_step)
  next
    case False
    then have "n < d" by simp
    then show ?thesis
      by (subst udiv_loop.simps) (simp add: False div_word_less)
  qed
qed

lemma udiv_loop_returns: "udiv_loop n d c = Some r \<Longrightarrow> d \<noteq> 0"
proof (rule udiv_loop.raw_induct [where P = "\<lambda>n d c r. d \<noteq> 0"])
  fix f :: "kuint32_t \<Rightarrow> kuint32_t \<Rightarrow> kuint32_t \<Rightarrow> kuint32_t option" and n d c r
  assume IH: "\<And>n d c r. f n d c = Some r \<Longrightarrow> d \<noteq> 0"
    and eq: "(if d \<le> n then f (n - d) d (c + 1) else Some c) = Some r"
  show "d \<noteq> 0"
    using IH eq by (cases "d \<le> n") (auto simp: not_le)
qed

lemma udiv_integer_eq: "udiv_integer n d = (if d = 0 then None else Some (n div d))"
  using udiv_loop_returns [of n 0 0] udiv_loop_correct [of d n 0]
  by (cases "udiv_loop n 0 0") (auto simp: udiv_integer_def)

lemma udiv_remainder_correct: "d \<noteq> 0 \<Longrightarrow> udiv_remainder n d = Some (n mod d)"
proof (induction n rule: measure_induct_rule [of unat])
  case (less n)
  show ?case
  proof (cases "d \<le> n")
    case True
    then have "udiv_remainder (n - d) d = Some ((n - d) mod d)"
      using less word_sub_less by blast
    with True show ?thesis
      by (subst udiv_remainder.simps) (simp add: word_mod_step)
  next
    case False
    then have "n < d" by simp
    then show ?thesis
      by (subst udiv_remainder.simps) (simp add: False mod_word_less)
  qed
qed


text \<open>Two's complement reading of a 32-bit word.\<close>

lemma sint_nonneg_uint: "0 \<le> sint w \<Longrightarrow> uint (w :: kuint32_t) = sint w"
  using uint_lt2p [of w] by (auto simp: sint_32 split: if_splits)

lemma sint_uminus_32:
  fixes w :: kuint32_t
  assumes "sint w \<noteq> - (2 ^ 31)"
  shows "sint (- w) = - sint w"
proof -
  have "uint (- w) = (- uint w) mod 2 ^ 32"
    by (simp add: uint_word_ariths)
  moreover have "0 \<le> uint w" "uint w < 2 ^ 32" using uint_lt2p [of w] by auto
  moreover have "(- uint w) mod 2 ^ 32 = (if uint w = 0 then 0 else 2 ^ 32 - uint w)"
    using calculation by (simp add: zmod_zminus1_eq_if)
  ultimately show ?thesis
    using assms by (auto simp: sint_32 split: if_splits)
qed

lemma sint_mrt_abs:
  "sint a \<noteq> - (2 ^ 31) \<Longrightarrow> sint (mrt_abs a) = \<bar>sint a\<bar>"
  by (simp add: mrt_abs_def word_sless_alt sint_uminus_32)

lemma sdiv_loop_correct:
  assumes "0 \<le> sint n" "0 < sint d"
  shows "sdiv_loop n d c = Some (c + n div d)"
  using assms(1)
proof (induction n arbitrary: c rule: measure_induct_rule [of unat])
  case (less n)
  have u: "uint d = sint d" "uint n = sint n"
    using assms less.prems by (auto intro: sint_nonneg_uint)
  have d: "d \<noteq> 0" using assms(2) by auto
  have le: "d \<le>s n \<longleftrightarrow> d \<le> n" using u by (simp add: word_sle_eq word_le_def)
  show ?case
  proof (cases "d \<le> n")
    case True
    have "uint (n - d) = sint n - sint d"
      using True u by (simp add: uint_sub_lem [THEN iffD1] word_le_def)
    moreover have "sint n < 2 ^ 31" using sint_lt [of n] by simp
    ultimately have "sint (n - d) = sint n - sint d"
      using assms(2) by (intro sint_small [THEN trans]) auto
    then have "0 \<le> sint (n - d)" using True u by (simp add: word_le_def)
    then have "sdiv_loop (n - d) d (c + 1) = Some (c + 1 + (n - d) div d)"
      using less.IH word_sub_less [OF True d] by blast
    with True d show ?thesis
      by (subst sdiv_loop.simps) (simp add: le word_div_step)
  next
    case False
    then have "n < d" by simp
    then show ?thesis
      by (subst sdiv_loop.simps) (simp add: le False div_word_less)
  qed
qed

lemma xor_sign: "(a XOR b) <s 0 \<longleftrightarrow> (sint a < 0) \<noteq> (sint (b :: kuint32_t) < 0)"
  using bit_last_iff [of "a XOR b"] bit_last_iff [of a] bit_last_iff [of b]
  by (simp add: word_sless_alt bit_xor_iff)

lemma sdiv_integer_eq:
  assumes "sint a \<noteq> - (2 ^ 31)" "sint b \<noteq> - (2 ^ 31)" "b \<noteq> 0"
  shows "\<exists>r. sdiv_integer a b = Some r \<and> sint r = sint a sdiv sint b"
proof -
  let ?n = "mrt_abs a" and ?d = "mrt_abs b"
  have sb: "sint b \<noteq> 0" using assms(3) signed_eq_0_iff by blast
  have ab: "sint ?n = \<bar>sint a\<bar>" "sint ?d = \<bar>sint b\<bar>" using assms sint_mrt_abs by auto
  then have ub: "uint ?n = \<bar>sint a\<bar>" "uint ?d = \<bar>sint b\<bar>" by (auto simp: sint_nonneg_uint)
  have loop: "sdiv_loop ?n ?d 0 = Some (?n div ?d)"
    using ab sb sdiv_loop_correct [of ?n ?d 0] by simp
  have q: "uint (?n div ?d) = \<bar>sint a\<bar> div \<bar>sint b\<bar>" by (simp add: uint_div ub)
  have "\<bar>sint a\<bar> div \<bar>sint b\<bar> \<le> \<bar>sint a\<bar>"
    using sb zdiv_mono2 [of "\<bar>sint a\<bar>" 1 "\<bar>sint b\<bar>"] by simp
  moreover have "\<bar>sint a\<bar> < 2 ^ 31"
    using sint_lt [of ?n] ab by simp
  ultimately have sq: "sint (?n div ?d) = \<bar>sint a\<bar> div \<bar>sint b\<bar>"
    using q by (subst sint_small) auto
  moreover have nm: "sint (?n div ?d) \<noteq> - (2 ^ 31)"
    using sq pos_imp_zdiv_nonneg_iff [of "\<bar>sint b\<bar>" "\<bar>sint a\<bar>"] sb by auto
  ultimately show ?thesis
    using loop sb sint_uminus_32 [OF nm]
    by (cases "sint a = 0")
       (auto simp: sdiv_integer_def xor_sign signed_divide_int_def sgn_if split: if_splits)
qed


section \<open>Correctness of the number printers\<close>

text \<open>The digits of a number, least significant first, and the number they denote.\<close>

fun ndigits :: "nat \<Rightarrow> nat \<Rightarrow> nat list" where
  "ndigits b n = (if b \<le> 1 \<or> n < b then [n] else n mod b # ndigits b (n div b))"

declare ndigits.simps [simp del]

fun horner :: "nat \<Rightarrow> nat list \<Rightarrow> nat" where
  "horner b [] = 0"
| "horner b (d # ds) = d + b * horner b ds"

lemma ndigits_induct:
  assumes "1 < (b :: nat)" and "\<And>n. (b \<le> n \<Longrightarrow> P (n div b)) \<Longrightarrow> P n"
  shows "P n"
proof (induction n rule: less_induct)
  case (less n)
  show ?case
  proof (rule assms(2))
    assume "b \<le> n"
    then have "n div b < n" using assms(1) by (intro div_less_dividend) auto
    then show "P (n div b)" by (rule less)
  qed
qed

lemma ndigits_step:
  "1 < b \<Longrightarrow> ndigits b n = (if n < b then [n] else n mod b # ndigits b (n div b))"
  by (subst ndigits.simps) simp

lemma horner_ndigits:
  assumes "1 < b"
  shows "horner b (ndigits b n) = n"
proof (induction n rule: ndigits_induct [OF assms])
  case (1 n)
  then show ?case by (simp add: ndigits_step [OF assms, of n])
qed

lemma ndigits_less:
  assumes "1 < b"
  shows "d \<in> set (ndigits b n) \<Longrightarrow> d < b"
proof (induction n rule: ndigits_induct [OF assms])
  case (1 n)
  then show ?case using assms by (auto simp: ndigits_step [OF assms, of n] split: if_splits)
qed

lemma length_ndigits: "1 < b \<Longrightarrow> n < b ^ Suc k \<Longrightarrow> length (ndigits b n) \<le> Suc k"
proof (induction k arbitrary: n)
  case 0
  then show ?case by (simp add: ndigits_step)
next
  case (Suc k)
  then have "n div b < b ^ Suc k" by (simp add: less_mult_imp_div_less mult.commute)
  then have "length (ndigits b (n div b)) \<le> Suc k" using Suc by blast
  then show ?case using Suc.prems by (subst ndigits_step) auto
qed

lemma dec_digits_step:
  assumes "b \<noteq> 0"
  shows "dec_digits cap b digit n temp c =
     (if cap \<le> c then None
      else if n div b \<noteq> 0
      then dec_digits cap b digit (n div b) (temp(c := digit (n mod b))) (Suc c)
      else Some (temp(c := digit (n mod b)), Suc c))"
  by (subst dec_digits.simps)
     (simp add: udiv_remainder_correct [OF assms] udiv_integer_eq assms Let_def)

lemma dec_digits_correct:
  fixes b :: kuint32_t
  assumes "1 < unat b"
  shows "c + length (ndigits (unat b) (unat n)) \<le> cap \<Longrightarrow>
     dec_digits cap b digit n temp c =
       Some (\<lambda>i. if c \<le> i \<and> i < c + length (ndigits (unat b) (unat n))
                  then digit (of_nat (ndigits (unat b) (unat n) ! (i - c))) else temp i,
             c + length (ndigits (unat b) (unat n)))"
proof (induction n arbitrary: c temp rule: measure_induct_rule [of unat])
  case (less n)
  have b: "b \<noteq> 0" using assms by auto
  have um: "n mod b = of_nat (unat n mod unat b)" and ud: "unat (n div b) = unat n div unat b"
    by (simp_all add: unat_div word_arith_nat_mod)
  show ?case
  proof (cases "unat n < unat b")
    case True
    then have "n div b = 0" and "n mod b = n"
      by (simp_all add: div_word_less mod_word_less word_less_nat_alt)
    moreover have nd: "ndigits (unat b) (unat n) = [unat n]"
      by (subst ndigits_step [OF assms]) (simp add: True)
    ultimately have "dec_digits cap b digit n temp c = Some (temp(c := digit n), Suc c)"
      using less.prems by (subst dec_digits_step [OF b]) simp
    moreover have "temp(c := digit n) =
        (\<lambda>i. if c \<le> i \<and> i < c + length [unat n] then digit (of_nat ([unat n] ! (i - c))) else temp i)"
      by (rule ext) auto
    ultimately show ?thesis unfolding nd by simp
  next
    case False
    let ?ds = "ndigits (unat b) (unat n div unat b)"
    have nd: "ndigits (unat b) (unat n) = (unat n mod unat b) # ?ds"
      using False by (simp add: ndigits_step [OF assms, of "unat n"])
    have "0 < unat n div unat b" using False assms by (simp add: div_greater_zero_iff)
    then have nz: "n div b \<noteq> 0" using ud by (metis less_irrefl unat_0)
    have "0 < unat n" using False assms by simp
    then have lt: "unat (n div b) < unat n" using ud assms by (simp add: div_less_dividend)
    have "dec_digits cap b digit (n div b) (temp(c := digit (n mod b))) (Suc c) =
       Some (\<lambda>i. if Suc c \<le> i \<and> i < Suc c + length ?ds
                  then digit (of_nat (?ds ! (i - Suc c))) else (temp(c := digit (n mod b))) i,
             Suc c + length ?ds)"
      by (rule less.IH [OF lt, of "Suc c" "temp(c := digit (n mod b))", unfolded ud])
         (use less.prems nd in simp)
    moreover have "\<not> cap \<le> c" using less.prems nd by simp
    ultimately show ?thesis
      by (auto simp: dec_digits_step [OF b, of cap digit n] nd nz fun_eq_iff um nth_Cons' Suc_le_eq)
  qed
qed

lemma dec_digits_string:
  fixes b :: kuint32_t
  assumes "1 < unat b" and "length (ndigits (unat b) (unat n)) \<le> cap"
  shows "\<exists>temp'. dec_digits cap b digit n temp 0 = Some (temp', length (ndigits (unat b) (unat n)))
     \<and> map (\<lambda>i. temp' (length (ndigits (unat b) (unat n)) - i - 1)) [0..<length (ndigits (unat b) (unat n))]
       = map (\<lambda>d. digit (of_nat d)) (rev (ndigits (unat b) (unat n)))"
proof -
  let ?ds = "ndigits (unat b) (unat n)"
  define t where "t = (\<lambda>i. if i < length ?ds then digit (of_nat (?ds ! i)) else temp i)"
  have "dec_digits cap b digit n temp 0 = Some (t, length ?ds)"
    using dec_digits_correct [OF assms(1), of 0 n cap digit temp] assms(2)
    by (simp add: t_def cong: if_cong)
  moreover have "map (\<lambda>i. t (length ?ds - i - 1)) [0..<length ?ds]
      = map (\<lambda>d. digit (of_nat d)) (rev ?ds)"
    by (rule nth_equalityI) (auto simp: rev_nth t_def)
  ultimately show ?thesis by blast
qed

text \<open>Reading a printed number back.\<close>

definition unhex :: "kuint8_t \<Rightarrow> nat" where
  "unhex c = (if c \<ge> 97 then unat c - 87 else if c \<ge> 65 then unat c - 55 else unat c - 48)"

definition parse_digits :: "nat \<Rightarrow> kuint8_t list \<Rightarrow> nat" where
  "parse_digits b s = foldl (\<lambda>a c. a * b + unhex c) 0 s"

lemma foldl_horner: "foldl (\<lambda>a d. a * b + d) 0 (rev ds) = horner b ds"
  by (induction ds) (auto simp: mult.commute)

lemma unhex_hex_digit:
  assumes "d < 16"
  shows "unhex (hex_digit mode (of_nat d)) = d"
proof -
  have "d \<in> set [0..<16]" using assms by simp
  then show ?thesis
    by (simp add: upt_rec) (elim disjE; simp add: unhex_def hex_digit_def word_le_nat_alt)
qed

lemma foldl_map_cong:
  "(\<And>x. x \<in> set xs \<Longrightarrow> g (f x) = x) \<Longrightarrow>
     foldl (\<lambda>a c. a * b + g c) n (map f xs) = foldl (\<lambda>a d. a * b + d) n xs"
  by (induction xs arbitrary: n) auto

lemma parse_print:
  assumes "1 < b" and "\<And>d. d < b \<Longrightarrow> unhex (f d) = d"
  shows "parse_digits b (map f (rev (ndigits b n))) = n"
proof -
  have "parse_digits b (map f (rev (ndigits b n))) = foldl (\<lambda>a d. a * b + d) 0 (rev (ndigits b n))"
    unfolding parse_digits_def
    using assms ndigits_less [OF assms(1)] by (intro foldl_map_cong) auto
  then show ?thesis using horner_ndigits [OF assms(1)] by (simp add: foldl_horner)
qed

text \<open>The round trip shared by the two printers.\<close>

lemma print_round_trip:
  fixes n b :: kuint32_t
  assumes b: "1 < unat b" and "2 ^ 32 \<le> unat b ^ Suc k" "Suc k \<le> cap"
    and "\<And>d. d < unat b \<Longrightarrow> unhex (digit (of_nat d)) = d"
  shows "\<exists>temp' len. dec_digits cap b digit n temp 0 = Some (temp', len) \<and> len \<le> Suc k \<and>
     parse_digits (unat b) (map (\<lambda>i. temp' (len - i - 1)) [0..<len]) = unat n"
proof -
  let ?ds = "ndigits (unat b) (unat n)"
  have "unat n < unat b ^ Suc k" using assms(2) unsigned_less [of n, where 'a = nat] by simp
  from length_ndigits [OF b this] have len: "length ?ds \<le> Suc k" .
  then have "length ?ds \<le> cap" using assms(3) by simp
  from dec_digits_string [OF b this, of digit temp] len parse_print [OF b assms(4)]
  show ?thesis by auto
qed

section \<open>Alignment\<close>

lemma unat_mrt_ralign:
  assumes "n < 32"
  shows "unat (mrt_ralign x (2 ^ n)) = unat x div 2 ^ n * 2 ^ n"
proof -
  have "mrt_ralign x (2 ^ n) = push_bit n (drop_bit n x)"
    by (rule bit_word_eqI) (auto simp: mrt_ralign_def bit_simps simp flip: mask_eq_exp_minus_1)
  also have "\<dots> = x - take_bit n x" using bits_ident [of n x] by (metis add_diff_cancel_right')
  finally have r: "mrt_ralign x (2 ^ n) = x - take_bit n x" .
  have t: "unat (take_bit n x) = unat x mod 2 ^ n" by (subst unsigned_take_bit_eq) (simp add: take_bit_eq_mod)
  then have "take_bit n x \<le> x" by (simp add: word_le_nat_alt)
  then show ?thesis using r t by (simp add: unat_sub minus_mod_eq_div_mult)
qed

lemma unat_mrt_align:
  assumes "n < 32" "unat x + 2 ^ n - 1 < 2 ^ 32"
  shows "unat (mrt_align x (2 ^ n)) = (unat x + 2 ^ n - 1) div 2 ^ n * 2 ^ n"
proof -
  have e: "unat (2 ^ n :: kuint32_t) = 2 ^ n"
  proof -
    have "(2 ^ n :: nat) < 2 ^ 32" using assms(1) by (intro power_strict_increasing) simp_all
    then have "unat (of_nat (2 ^ n) :: kuint32_t) = 2 ^ n" by (subst unat_of_nat) simp
    then show ?thesis by simp
  qed
  have "unat (2 ^ n - 1 :: kuint32_t) = 2 ^ n - 1"
    using e by (subst unat_sub) (auto simp: word_le_nat_alt)
  then have "unat (x + (2 ^ n - 1)) = unat x + 2 ^ n - 1"
    using assms(2) unat_add_lem [of x "2 ^ n - 1"] by simp
  moreover have "mrt_align x (2 ^ n) = mrt_ralign (x + (2 ^ n - 1)) (2 ^ n)"
    by (simp add: mrt_align_def mrt_ralign_def)
  ultimately show ?thesis using unat_mrt_ralign [OF assms(1), of "x + (2 ^ n - 1)"] by simp
qed
section \<open>Properties\<close>

text \<open>The software division by repeated subtraction returns for every non-zero divisor, and
  returns the exact quotient and remainder; for a zero divisor it never returns.\<close>

lemma udiv_integer_exact:
  "udiv_integer n d = (if d = 0 then None else Some (n div d)) \<and>
   (d = 0 \<or> udiv_remainder n d = Some (n mod d))"
  using udiv_integer_eq [of n d] udiv_remainder_correct [of d n] by blast

text \<open>The signed software division returns the quotient truncated towards zero for every
  non-zero divisor, the most negative integer excluded.\<close>

lemma sdiv_integer_truncates:
  assumes "sint a \<noteq> - (2 ^ 31)" and "sint b \<noteq> - (2 ^ 31)" and "b \<noteq> 0"
  shows "\<exists>r. sdiv_integer a b = Some r \<and> sint r = sint a sdiv sint b"
  using sdiv_integer_eq [OF assms] .

lemma sdiv_integer_truncates_witness:
  "\<exists>r. sdiv_integer (- 7) 2 = Some r \<and> sint r = - 3"
proof -
  have "sint (- 7 :: kuint32_t) = - 7" by simp
  then show ?thesis
    using sdiv_integer_truncates [of "- 7" 2] by (simp add: signed_divide_int_def)
qed

text \<open>With its counter starting at zero, \<^verbatim>\<open>dec_to_hex\<close> prints every 32-bit number without
  leaving its local array: the prefix, then at most eight digits that read back as the number;
  the returned length is that of the text.\<close>

lemma dec_to_hex_roundtrip:
  "\<exists>s. dec_to_hex temp 0 n mode = Some ([48, if mode then 88 else 120] @ s, length s + 2) \<and>
       length s \<le> 8 \<and> parse_digits 16 s = unat n"
proof -
  have "\<exists>temp' len. dec_digits 12 16 (hex_digit mode) n temp 0 = Some (temp', len) \<and> len \<le> Suc 7 \<and>
     parse_digits (unat (16 :: kuint32_t)) (map (\<lambda>i. temp' (len - i - 1)) [0..<len]) = unat n"
    by (rule print_round_trip) (simp_all add: unhex_hex_digit)
  then show ?thesis by (auto simp: dec_to_hex_def)
qed

text \<open>With its counter starting at zero, \<^verbatim>\<open>dec_to_binary\<close> prints every 32-bit number without
  leaving its local array, as at most 32 binary digits that read back as the number.\<close>

lemma dec_to_binary_roundtrip:
  "\<exists>s. dec_to_binary temp 0 n = Some ([48, 98] @ s, length s + 2) \<and>
       length s \<le> 32 \<and> parse_digits 2 s = unat n"
proof -
  have "\<exists>temp' len. dec_digits 36 2 (\<lambda>result. ucast result + 48) n temp 0 = Some (temp', len) \<and>
     len \<le> Suc 31 \<and>
     parse_digits (unat (2 :: kuint32_t)) (map (\<lambda>i. temp' (len - i - 1)) [0..<len]) = unat n"
  proof (rule print_round_trip)
    fix d assume "d < unat (2 :: kuint32_t)"
    then have "d = 0 \<or> d = 1" by auto
    then show "unhex (ucast (of_nat d :: kuint32_t) + 48) = d"
      by (auto simp: unhex_def word_le_nat_alt)
  qed simp_all
  then show ?thesis by (auto simp: dec_to_binary_def)
qed

text \<open>The error-pointer encoding: an error code between 1 and 4096 travels through a pointer
  unchanged, such a pointer is recognised as an error and is never valid.\<close>

lemma err_ptr_roundtrip:
  assumes "1 \<le> e" and "e \<le> 4096"
  shows "IS_ERR (ERR_PTR (- e)) \<and> PTR_ERR (ERR_PTR (- e)) = - e \<and> \<not> isValid (ERR_PTR (- e))"
proof -
  have u: "uint (word_of_int (- e) :: kuint32_t) = 2 ^ 32 - e"
  proof -
    have "(- e) mod 2 ^ 32 = (- e + 2 ^ 32) mod (2 ^ 32 :: int)" by simp
    also have "\<dots> = - e + 2 ^ 32" using assms by (intro mod_pos_pos_trivial) auto
    finally show ?thesis by (simp only: uint_word_of_int) simp
  qed
  have err: "IS_ERR (ERR_PTR (- e))"
    unfolding IS_ERR_def ERR_PTR_def word_le_def u using assms by simp
  have nz: "(word_of_int (- e) :: kuint32_t) \<noteq> 0"
  proof
    assume "(word_of_int (- e) :: kuint32_t) = 0"
    with u have "2 ^ 32 - e = uint (0 :: kuint32_t)" by metis
    then show False using assms by simp
  qed
  have s: "sint (word_of_int (- e) :: kuint32_t) = - e"
    unfolding sint_32 u using assms by simp
  show ?thesis using err nz s unfolding PTR_ERR_def ERR_PTR_def isValid_def by presburger
qed

lemma err_ptr_roundtrip_witness:
  "IS_ERR (ERR_PTR (- ER_NOMEM)) \<and> PTR_ERR (ERR_PTR (- ER_NOMEM)) = - 4"
  using err_ptr_roundtrip [of ER_NOMEM] by simp

end
