(* ===== verification/Locks.thy ===== *)
theory Locks
  imports Generic_Ops
begin

text \<open>
  Atomic counters (\<^verbatim>\<open>include/common/atomic_types.h\<close>), spin locks (\<^verbatim>\<open>kernel/spinlock.c\<close>),
  mutexes (\<^verbatim>\<open>kernel/mutex.c\<close>) and semaphores (\<^verbatim>\<open>kernel/semaphore.c\<close>).

  The exclusive-load/store loops of the atomics are one step each.  The part of the CPU the
  locks touch is a record: the status register and the preemption counter of
  \<^verbatim>\<open>include/kernel/kernel.h\<close>.  A spin lock that is found taken spins for ever on the one core
  of the target, which is the outcome \<open>None\<close>.  The blocking operations of mutexes and
  semaphores give the processor away while they wait; one pass of their loop either blocks
  or takes the lock, and the last section runs several threads against one mutex.
\<close>

section \<open>Atomics\<close>

record atomic =
  counter :: kuint32_t

definition ATOMIC_SET :: "kuint32_t \<Rightarrow> atomic \<Rightarrow> atomic" where
  "ATOMIC_SET v a = a\<lparr>counter := v\<rparr>"

definition atomic_add :: "kuint32_t \<Rightarrow> atomic \<Rightarrow> atomic" where
  "atomic_add i a = a\<lparr>counter := counter a + i\<rparr>"

definition atomic_sub :: "kuint32_t \<Rightarrow> atomic \<Rightarrow> atomic" where
  "atomic_sub i a = a\<lparr>counter := counter a - i\<rparr>"

definition atomic_mul :: "kuint32_t \<Rightarrow> atomic \<Rightarrow> atomic" where
  "atomic_mul i a = a\<lparr>counter := counter a * i\<rparr>"

partial_function (option) atomic_udiv_loop ::
  "kuint32_t \<Rightarrow> atomic \<Rightarrow> atomic \<Rightarrow> atomic option" where
  "atomic_udiv_loop i a temp =
     (if counter a \<ge> i then atomic_udiv_loop i (atomic_sub i a) (atomic_add 1 temp)
      else Some (a\<lparr>counter := counter temp\<rparr>))"

definition atomic_udiv :: "kuint32_t \<Rightarrow> atomic \<Rightarrow> atomic option" where
  "atomic_udiv i a = atomic_udiv_loop i a \<lparr>counter = 0\<rparr>"

definition atomic_inc :: "atomic \<Rightarrow> atomic" where
  "atomic_inc a = atomic_add 1 a"

definition atomic_dec :: "atomic \<Rightarrow> atomic" where
  "atomic_dec a = atomic_sub 1 a"

text \<open>Shifting by a register uses its low byte, so a bit number of 32 or more gives no bit.\<close>

definition atomic_set_bit :: "nat \<Rightarrow> kuint32_t \<Rightarrow> kuint32_t" where
  "atomic_set_bit nr w = w OR push_bit (nr mod 256) 1"

definition atomic_clear_bit :: "nat \<Rightarrow> kuint32_t \<Rightarrow> kuint32_t" where
  "atomic_clear_bit nr w = w AND NOT (push_bit (nr mod 256) 1)"

definition atomic_is_bitset :: "nat \<Rightarrow> kuint32_t \<Rightarrow> bool" where
  "atomic_is_bitset nr w \<longleftrightarrow> w AND push_bit (nr mod 256) 1 \<noteq> 0"

section \<open>The CPU state behind the locks\<close>

record cpu =
  cpsr :: kuint32_t
  g_sched_preempt_cnt :: kuint32_t

definition CPSR_BIT_I :: kuint32_t where
  "CPSR_BIT_I = push_bit 7 1"

definition mrt_disable_cpu_irq :: "cpu \<Rightarrow> cpu" where
  "mrt_disable_cpu_irq c = c\<lparr>cpsr := cpsr c OR CPSR_BIT_I\<rparr>"

definition mrt_enable_cpu_irq :: "cpu \<Rightarrow> cpu" where
  "mrt_enable_cpu_irq c = c\<lparr>cpsr := cpsr c AND NOT CPSR_BIT_I\<rparr>"

definition mrt_preempt_disable :: "cpu \<Rightarrow> cpu" where
  "mrt_preempt_disable c = c\<lparr>g_sched_preempt_cnt := g_sched_preempt_cnt c + 1\<rparr>"

definition mrt_preempt_enable :: "cpu \<Rightarrow> cpu" where
  "mrt_preempt_enable c =
     c\<lparr>g_sched_preempt_cnt :=
         (if g_sched_preempt_cnt c \<noteq> 0 then g_sched_preempt_cnt c - 1 else g_sched_preempt_cnt c)\<rparr>"

definition irqs_enabled :: "cpu \<Rightarrow> bool" where
  "irqs_enabled c \<longleftrightarrow> \<not> bit (cpsr c) 7"

section \<open>Spin locks\<close>

record spin_lock =
  sgrt_atc :: atomic
  flag :: kuint32_t

definition SPIN_LOCK_INIT :: spin_lock where
  "SPIN_LOCK_INIT = \<lparr>sgrt_atc = \<lparr>counter = 0\<rparr>, flag = 0\<rparr>"

definition spin_is_locked :: "spin_lock \<Rightarrow> bool" where
  "spin_is_locked l \<longleftrightarrow> counter (sgrt_atc l) \<noteq> 0"

definition spin_lock_init :: "spin_lock \<Rightarrow> spin_lock" where
  "spin_lock_init l = l\<lparr>sgrt_atc := ATOMIC_SET 0 (sgrt_atc l)\<rparr>"

definition spin_lock_acquire :: "spin_lock \<Rightarrow> cpu \<Rightarrow> (spin_lock \<times> cpu) option" where
  "spin_lock_acquire l c =
     (if spin_is_locked l then None
      else Some (l\<lparr>sgrt_atc := atomic_inc (sgrt_atc l)\<rparr>, mrt_preempt_disable c))"

definition spin_unlock :: "spin_lock \<Rightarrow> cpu \<Rightarrow> spin_lock \<times> cpu" where
  "spin_unlock l c =
     (if \<not> spin_is_locked l then (l, c)
      else (l\<lparr>sgrt_atc := atomic_dec (sgrt_atc l)\<rparr>, mrt_preempt_enable c))"

definition spin_try_lock :: "spin_lock \<Rightarrow> cpu \<Rightarrow> int \<times> spin_lock \<times> cpu" where
  "spin_try_lock l c =
     (if spin_is_locked l then (- ER_LOCKED, l, c)
      else (ER_NORMAL, l\<lparr>sgrt_atc := atomic_inc (sgrt_atc l)\<rparr>, mrt_preempt_disable c))"

definition spin_lock_irq :: "spin_lock \<Rightarrow> cpu \<Rightarrow> (spin_lock \<times> cpu) option" where
  "spin_lock_irq l c =
     (case spin_lock_acquire l c of
        None \<Rightarrow> None
      | Some (l, c) \<Rightarrow> Some (l, mrt_disable_cpu_irq c))"

definition spin_try_lock_irq :: "spin_lock \<Rightarrow> cpu \<Rightarrow> int \<times> spin_lock \<times> cpu" where
  "spin_try_lock_irq l c =
     (let (r, l, c) = spin_try_lock l c
      in if r \<noteq> 0 then (- ER_LOCKED, l, c) else (ER_NORMAL, l, mrt_disable_cpu_irq c))"

definition spin_unlock_irq :: "spin_lock \<Rightarrow> cpu \<Rightarrow> spin_lock \<times> cpu" where
  "spin_unlock_irq l c =
     (if \<not> spin_is_locked l then (l, c)
      else let (l, c) = spin_unlock l c in (l, mrt_enable_cpu_irq c))"

definition spin_lock_irqsave :: "spin_lock \<Rightarrow> cpu \<Rightarrow> (spin_lock \<times> cpu) option" where
  "spin_lock_irqsave l c =
     (case spin_lock_acquire l c of
        None \<Rightarrow> None
      | Some (l, c) \<Rightarrow> Some (l\<lparr>flag := cpsr c\<rparr>, mrt_disable_cpu_irq c))"

definition spin_try_lock_irqsave :: "spin_lock \<Rightarrow> cpu \<Rightarrow> int \<times> spin_lock \<times> cpu" where
  "spin_try_lock_irqsave l c =
     (let (r, l, c) = spin_try_lock l c
      in if r \<noteq> 0 then (- ER_LOCKED, l, c)
         else (ER_NORMAL, l\<lparr>flag := cpsr c AND CPSR_BIT_I\<rparr>, mrt_disable_cpu_irq c))"

definition spin_unlock_irqrestore :: "spin_lock \<Rightarrow> cpu \<Rightarrow> spin_lock \<times> cpu" where
  "spin_unlock_irqrestore l c =
     (if \<not> spin_is_locked l then (l, c)
      else let (l, c) = spin_unlock l c;
               c = (if flag l AND CPSR_BIT_I \<noteq> 0 then mrt_enable_cpu_irq c else c)
           in (l\<lparr>flag := 0\<rparr>, c))"

section \<open>Mutexes and semaphores\<close>

text \<open>
  \<open>current\<close> is whether a thread is running (\<^verbatim>\<open>mrt_current\<close> is not null).  The result of one
  pass through a blocking operation is \<open>None\<close> when it has to wait.
\<close>

record mutex_lock =
  mx_atc :: atomic

record semaphore =
  sm_atc :: atomic

definition mutex_is_locked :: "mutex_lock \<Rightarrow> bool" where
  "mutex_is_locked l \<longleftrightarrow> counter (mx_atc l) \<noteq> 0"

definition mutex_init :: "mutex_lock \<Rightarrow> mutex_lock" where
  "mutex_init l = l\<lparr>mx_atc := ATOMIC_SET 0 (mx_atc l)\<rparr>"

definition mutex_lock_try_once :: "bool \<Rightarrow> mutex_lock \<Rightarrow> mutex_lock option" where
  "mutex_lock_try_once current l =
     (if \<not> current then Some l
      else if mutex_is_locked l then None
      else Some (l\<lparr>mx_atc := atomic_inc (mx_atc l)\<rparr>))"

definition mutex_try_lock :: "bool \<Rightarrow> mutex_lock \<Rightarrow> int \<times> mutex_lock" where
  "mutex_try_lock current l =
     (if \<not> current then (- ER_FORBID, l)
      else if mutex_is_locked l then (- ER_BUSY, l)
      else (ER_NORMAL, l\<lparr>mx_atc := atomic_inc (mx_atc l)\<rparr>))"

definition mutex_unlock :: "bool \<Rightarrow> mutex_lock \<Rightarrow> mutex_lock" where
  "mutex_unlock current l =
     (if \<not> current \<or> \<not> mutex_is_locked l then l
      else l\<lparr>mx_atc := atomic_dec (mx_atc l)\<rparr>)"

definition sema_is_locked :: "semaphore \<Rightarrow> bool" where
  "sema_is_locked s \<longleftrightarrow> 0 = counter (sm_atc s)"

definition sema_init :: "kuint32_t \<Rightarrow> semaphore \<Rightarrow> semaphore" where
  "sema_init v s = s\<lparr>sm_atc := ATOMIC_SET v (sm_atc s)\<rparr>"

definition sema_down_try_once :: "bool \<Rightarrow> semaphore \<Rightarrow> semaphore option" where
  "sema_down_try_once current s =
     (if \<not> current then Some s
      else if sema_is_locked s then None
      else Some (s\<lparr>sm_atc := atomic_dec (sm_atc s)\<rparr>))"

definition sema_down_try_lock :: "bool \<Rightarrow> semaphore \<Rightarrow> int \<times> semaphore" where
  "sema_down_try_lock current s =
     (if \<not> current then (- ER_FORBID, s)
      else if sema_is_locked s then (- ER_BUSY, s)
      else (ER_NORMAL, s\<lparr>sm_atc := atomic_dec (sm_atc s)\<rparr>))"

definition sema_up :: "bool \<Rightarrow> semaphore \<Rightarrow> semaphore" where
  "sema_up current s =
     (if \<not> current \<or> \<not> sema_is_locked s then s
      else s\<lparr>sm_atc := atomic_inc (sm_atc s)\<rparr>)"

lemmas spin_defs =
  spin_lock_acquire_def spin_unlock_def spin_try_lock_def spin_lock_irq_def
  spin_try_lock_irq_def spin_unlock_irq_def spin_lock_irqsave_def spin_try_lock_irqsave_def
  spin_unlock_irqrestore_def spin_is_locked_def spin_lock_init_def

lemmas atomic_defs =
  ATOMIC_SET_def atomic_add_def atomic_sub_def atomic_mul_def atomic_inc_def atomic_dec_def

lemmas cpu_defs =
  mrt_disable_cpu_irq_def mrt_enable_cpu_irq_def mrt_preempt_disable_def mrt_preempt_enable_def

section \<open>Facts about the atomics\<close>

lemma atomic_udiv_loop_correct:
  assumes "i \<noteq> 0"
  shows "atomic_udiv_loop i a t = Some (a\<lparr>counter := counter t + counter a div i\<rparr>)"
proof (induction a arbitrary: t rule: measure_induct_rule [of "\<lambda>a. unat (counter a)"])
  case (less a)
  show ?case
  proof (cases "i \<le> counter a")
    case True
    then have "unat (counter (atomic_sub i a)) < unat (counter a)"
      using word_sub_less [OF True assms] by (simp add: atomic_sub_def)
    from less [OF this, of "atomic_add 1 t"] True show ?thesis
      by (subst atomic_udiv_loop.simps)
         (simp add: atomic_sub_def atomic_add_def word_div_step [OF True assms])
  next
    case False
    then have "counter a < i" by simp
    then show ?thesis
      by (subst atomic_udiv_loop.simps) (simp add: False div_word_less)
  qed
qed

lemma CPSR_BIT_I_exp: "CPSR_BIT_I = 2 ^ 7"
  by (simp add: CPSR_BIT_I_def)

lemma bit_CPSR_I [simp]: "bit CPSR_BIT_I n \<longleftrightarrow> n = 7"
  by (simp only: CPSR_BIT_I_exp bit_exp_iff) auto

lemma and_CPSR_I: "w AND CPSR_BIT_I \<noteq> 0 \<longleftrightarrow> bit w 7"
  by (simp only: CPSR_BIT_I_exp and_exp_eq_0_iff_not_bit) simp

lemma irqs_enabled_simps [simp]:
  "\<not> irqs_enabled (mrt_disable_cpu_irq c)"
  "irqs_enabled (mrt_enable_cpu_irq c)"
  "irqs_enabled (mrt_preempt_disable c) = irqs_enabled c"
  "irqs_enabled (mrt_preempt_enable c) = irqs_enabled c"
  by (simp_all add: irqs_enabled_def cpu_defs bit_or_iff bit_and_iff bit_not_iff)

section \<open>The contract of a try-lock\<close>

text \<open>
  What the users of a lock rely on: an attempt on a free lock is granted and makes it held, an
  attempt on a held lock fails and changes nothing, and a release after a grant frees the
  lock.
\<close>

locale try_lock =
  fixes held :: "'s \<Rightarrow> bool" and attempt :: "'s \<Rightarrow> int \<times> 's" and release :: "'s \<Rightarrow> 's"
  assumes attempt_free: "\<not> held s \<Longrightarrow> \<exists>t. attempt s = (ER_NORMAL, t) \<and> held t"
    and attempt_held: "held s \<Longrightarrow> fst (attempt s) \<noteq> ER_NORMAL \<and> snd (attempt s) = s"
    and release_frees: "\<not> held s \<Longrightarrow> attempt s = (ER_NORMAL, t) \<Longrightarrow> \<not> held (release t)"
begin

text \<open>The number of grants in \<open>n\<close> attempts in a row, and the lock after them.\<close>

primrec attempts :: "nat \<Rightarrow> 's \<Rightarrow> nat \<times> 's" where
  "attempts 0 s = (0, s)"
| "attempts (Suc n) s =
     (let (r, t) = attempt s; (k, u) = attempts n t in ((if r = ER_NORMAL then 1 else 0) + k, u))"

lemma granted_held: "attempt s = (ER_NORMAL, t) \<Longrightarrow> held t"
  using attempt_free [of s] attempt_held [of s] by auto

lemma granted_free: "attempt s = (ER_NORMAL, t) \<Longrightarrow> \<not> held s"
  using attempt_held [of s] by auto

lemma attempts_held: "held s \<Longrightarrow> attempts n s = (0, s)"
proof (induction n)
  case (Suc n)
  obtain r where "attempt s = (r, s)" "r \<noteq> ER_NORMAL"
    using attempt_held [OF Suc.prems] by (cases "attempt s") auto
  with Suc show ?case by simp
qed simp

lemma regrant: "attempt s = (ER_NORMAL, t) \<Longrightarrow> fst (attempt (release t)) = ER_NORMAL"
  using release_frees [OF granted_free] attempt_free [of "release t"] by fastforce

end

interpretation mtx: try_lock mutex_is_locked "mutex_try_lock True" "mutex_unlock True"
  by unfold_locales
     (auto simp: mutex_try_lock_def mutex_unlock_def mutex_is_locked_def atomic_defs split: if_splits)

interpretation spn: try_lock "\<lambda>(l, c). spin_is_locked l" "\<lambda>(l, c). spin_try_lock l c"
  "\<lambda>(l, c). spin_unlock l c"
  by unfold_locales
     (auto simp: spin_try_lock_def spin_unlock_def spin_is_locked_def atomic_defs split: if_splits)

section \<open>Several threads and one mutex\<close>

text \<open>
  A thread is outside, between the test of \<^verbatim>\<open>mutex_is_locked\<close> and the increment, or inside its
  critical section.  \<open>atomic_take\<close> is the pass through \<^verbatim>\<open>mutex_lock\<close> without a context switch
  in the middle (cooperative scheduling); \<open>test\<close> and \<open>take\<close> are its two halves, between which
  a preemptive kernel may switch.
\<close>

datatype mutex_pc = Outside | Tested | Inside

record mutex_sys =
  the_mutex :: mutex_lock
  mpc :: "nat \<Rightarrow> mutex_pc"

definition mutex_sys_init :: mutex_sys where
  "mutex_sys_init = \<lparr>the_mutex = \<lparr>mx_atc = \<lparr>counter = 0\<rparr>\<rparr>, mpc = (\<lambda>_. Outside)\<rparr>"

inductive coop_step :: "mutex_sys \<Rightarrow> mutex_sys \<Rightarrow> bool" where
  atomic_take: "mpc s i = Outside \<Longrightarrow> mutex_lock_try_once True (the_mutex s) = Some m \<Longrightarrow>
     coop_step s (s\<lparr>the_mutex := m, mpc := (mpc s)(i := Inside)\<rparr>)"
| leave: "mpc s i = Inside \<Longrightarrow>
     coop_step s (s\<lparr>the_mutex := mutex_unlock True (the_mutex s), mpc := (mpc s)(i := Outside)\<rparr>)"

inductive preempt_step :: "mutex_sys \<Rightarrow> mutex_sys \<Rightarrow> bool" where
  test: "mpc s i = Outside \<Longrightarrow> \<not> mutex_is_locked (the_mutex s) \<Longrightarrow>
     preempt_step s (s\<lparr>mpc := (mpc s)(i := Tested)\<rparr>)"
| take: "mpc s i = Tested \<Longrightarrow>
     preempt_step s (s\<lparr>the_mutex := (the_mutex s)\<lparr>mx_atc := atomic_inc (mx_atc (the_mutex s))\<rparr>,
                        mpc := (mpc s)(i := Inside)\<rparr>)"
| preempt_leave: "mpc s i = Inside \<Longrightarrow>
     preempt_step s (s\<lparr>the_mutex := mutex_unlock True (the_mutex s), mpc := (mpc s)(i := Outside)\<rparr>)"

definition coop_inv :: "mutex_sys \<Rightarrow> bool" where
  "coop_inv s \<longleftrightarrow>
     (counter (mx_atc (the_mutex s)) = 0 \<and> (\<forall>i. mpc s i \<noteq> Inside)) \<or>
     (counter (mx_atc (the_mutex s)) = 1 \<and> (\<exists>i. \<forall>j. mpc s j = Inside \<longleftrightarrow> j = i))"

lemma coop_inv_init: "coop_inv mutex_sys_init"
  by (simp add: coop_inv_def mutex_sys_init_def)

lemma coop_step_inv:
  assumes "coop_step s t" "coop_inv s"
  shows "coop_inv t"
  using assms(1)
proof cases
  case (atomic_take i m)
  then have "counter (mx_atc (the_mutex s)) = 0" "counter (mx_atc m) = 1"
    by (auto simp: mutex_lock_try_once_def mutex_is_locked_def atomic_defs split: if_splits)
  with atomic_take assms(2) show ?thesis by (auto simp: coop_inv_def)
next
  case (leave i)
  with assms(2) show ?thesis
    by (auto simp: coop_inv_def mutex_unlock_def mutex_is_locked_def atomic_defs)
qed

lemma coop_reachable_inv: "coop_step\<^sup>*\<^sup>* mutex_sys_init s \<Longrightarrow> coop_inv s"
  by (induction rule: rtranclp_induct) (auto intro: coop_inv_init coop_step_inv)

section \<open>Properties\<close>

text \<open>C24: Under cooperative scheduling (no context switch between the test and the increment
  of \<^verbatim>\<open>mutex_lock\<close>) two threads are never inside the critical section of one mutex.\<close>

theorem mutex_coop_exclusion:
  assumes "coop_step\<^sup>*\<^sup>* mutex_sys_init s" and "mpc s i = Inside" and "mpc s j = Inside"
  shows "i = j"
  using coop_reachable_inv [OF assms(1)] assms(2,3) by (auto simp: coop_inv_def)

theorem mutex_coop_exclusion_witness:
  "\<exists>s. coop_step\<^sup>*\<^sup>* mutex_sys_init s \<and> mpc s 3 = Inside \<and>
       (\<forall>j. (mpc s j = Inside) = (j = 3))"
proof -
  let ?m = "\<lparr>mx_atc = \<lparr>counter = 1\<rparr>\<rparr> :: mutex_lock"
  let ?s = "mutex_sys_init\<lparr>the_mutex := ?m, mpc := (mpc mutex_sys_init)(3 := Inside)\<rparr>"
  have r: "coop_step\<^sup>*\<^sup>* mutex_sys_init ?s"
    by (rule r_into_rtranclp, rule coop_step.atomic_take)
       (simp_all add: mutex_sys_init_def mutex_lock_try_once_def mutex_is_locked_def atomic_defs)
  have i: "mpc ?s 3 = Inside" by simp
  have "\<forall>j. (mpc ?s j = Inside) = (j = 3)"
    using mutex_coop_exclusion [OF r _ i] i by blast
  with r i show ?thesis by blast
qed

text \<open>With a context switch possible between the test and the increment, two threads can
  be inside the critical section at the same time: \<^verbatim>\<open>mutex_lock\<close> is not safe under the
  preemptive configuration.\<close>

lemma mutex_preempt_race:
  "\<exists>s. preempt_step\<^sup>*\<^sup>* mutex_sys_init s \<and> mpc s 0 = Inside \<and> mpc s 1 = Inside"
proof -
  let ?i = mutex_sys_init
  let ?a = "?i\<lparr>mpc := (mpc ?i)(0 := Tested)\<rparr>"
  let ?b = "?a\<lparr>mpc := (mpc ?a)(1 := Tested)\<rparr>"
  let ?inc = "\<lambda>s. (the_mutex s)\<lparr>mx_atc := atomic_inc (mx_atc (the_mutex s))\<rparr>"
  let ?c = "?b\<lparr>the_mutex := ?inc ?b, mpc := (mpc ?b)(0 := Inside)\<rparr>"
  let ?d = "?c\<lparr>the_mutex := ?inc ?c, mpc := (mpc ?c)(1 := Inside)\<rparr>"
  have "preempt_step ?i ?a"
    by (rule test) (simp_all add: mutex_sys_init_def mutex_is_locked_def)
  moreover have "preempt_step ?a ?b"
    by (rule test) (simp_all add: mutex_sys_init_def mutex_is_locked_def)
  moreover have "preempt_step ?b ?c" by (rule take) simp
  moreover have "preempt_step ?c ?d" by (rule take) simp
  ultimately have "preempt_step\<^sup>*\<^sup>* ?i ?d"
    by (meson converse_rtranclp_into_rtranclp rtranclp.rtrancl_refl)
  then show ?thesis by (intro exI [of _ ?d]) simp
qed

text \<open>Taking a free spin lock with \<^verbatim>\<open>spin_lock_irqsave\<close> and giving it back with
  \<^verbatim>\<open>spin_unlock_irqrestore\<close> frees the lock, balances the preemption counter, and leaves
  interrupts enabled exactly when they were \<^emph>\<open>disabled\<close> before: the saved state is restored
  inverted.\<close>

lemma spin_irqsave_restore_inverts:
  assumes "\<not> spin_is_locked l"
  shows "\<exists>l1 c1 l2 c2. spin_lock_irqsave l c = Some (l1, c1) \<and> spin_is_locked l1 \<and>
     \<not> irqs_enabled c1 \<and> spin_unlock_irqrestore l1 c1 = (l2, c2) \<and> \<not> spin_is_locked l2 \<and>
     (irqs_enabled c2 = (\<not> irqs_enabled c)) \<and>
     (g_sched_preempt_cnt c + 1 \<noteq> 0 \<longrightarrow> g_sched_preempt_cnt c2 = g_sched_preempt_cnt c)"
proof -
  let ?l1 = "l\<lparr>sgrt_atc := atomic_inc (sgrt_atc l), flag := cpsr c\<rparr>"
  let ?c1 = "mrt_disable_cpu_irq (mrt_preempt_disable c)"
  have lock: "spin_lock_irqsave l c = Some (?l1, ?c1)"
    using assms by (simp add: spin_lock_irqsave_def spin_lock_acquire_def mrt_preempt_disable_def)
  have locked: "spin_is_locked ?l1" using assms by (simp add: spin_is_locked_def atomic_defs)
  let ?l2 = "fst (spin_unlock_irqrestore ?l1 ?c1)" and ?c2 = "snd (spin_unlock_irqrestore ?l1 ?c1)"
  have free: "\<not> spin_is_locked ?l2"
    using assms by (simp add: spin_unlock_irqrestore_def spin_unlock_def spin_is_locked_def atomic_defs)
  have irq: "irqs_enabled ?c2 = (\<not> irqs_enabled c)"
    using locked by (simp add: spin_unlock_irqrestore_def spin_unlock_def and_CPSR_I)
      (simp add: irqs_enabled_def cpu_defs bit_or_iff)
  have cnt: "g_sched_preempt_cnt c + 1 \<noteq> 0 \<longrightarrow> g_sched_preempt_cnt ?c2 = g_sched_preempt_cnt c"
    using locked by (simp add: spin_unlock_irqrestore_def spin_unlock_def cpu_defs)
  show ?thesis
    using lock locked free irq cnt
    by (intro exI [of _ ?l1] exI [of _ ?c1] exI [of _ ?l2] exI [of _ ?c2]) simp
qed

lemma spin_irqsave_restore_inverts_witness:
  "\<exists>l1 c1 l2 c2. spin_lock_irqsave SPIN_LOCK_INIT \<lparr>cpsr = 16, g_sched_preempt_cnt = 0\<rparr> = Some (l1, c1) \<and>
     spin_unlock_irqrestore l1 c1 = (l2, c2) \<and>
     irqs_enabled \<lparr>cpsr = 16, g_sched_preempt_cnt = 0\<rparr> \<and> \<not> irqs_enabled c2"
proof -
  let ?c = "\<lparr>cpsr = 16, g_sched_preempt_cnt = 0\<rparr> :: cpu"
  have f: "\<not> spin_is_locked SPIN_LOCK_INIT" by (simp add: spin_is_locked_def SPIN_LOCK_INIT_def)
  have e: "irqs_enabled ?c" by (simp add: irqs_enabled_def)
  show ?thesis using spin_irqsave_restore_inverts [OF f, of ?c] e by blast
qed

text \<open>A semaphore is taken exactly when its count is positive, each pass that takes it
  lowers the count by one without wrapping, and \<^verbatim>\<open>sema_up\<close> only has an effect on an
  exhausted semaphore: it raises the count to at least one and a second increment in a row is
  lost.\<close>

lemma sema_up_down:
  "(case sema_down_try_once True s of
      None \<Rightarrow> counter (sm_atc s) = 0
    | Some t \<Rightarrow> unat (counter (sm_atc t)) + 1 = unat (counter (sm_atc s))) \<and>
   unat (counter (sm_atc (sema_up True s))) = max 1 (unat (counter (sm_atc s))) \<and>
   sema_up True (sema_up True s) = sema_up True s"
proof -
  let ?n = "counter (sm_atc s)"
  have u: "0 < unat ?n" if "?n \<noteq> 0" using that by (simp add: unat_gt_0)
  have "unat (?n - 1) + 1 = unat ?n" if "?n \<noteq> 0" using that u by (simp add: unat_minus_one)
  then show ?thesis
    using u by (auto simp: sema_down_try_once_def sema_up_def sema_is_locked_def atomic_defs)
qed

text \<open>Whoever is granted a mutex by \<^verbatim>\<open>mutex_try_lock\<close> keeps it: until \<^verbatim>\<open>mutex_unlock\<close> any
  number of further attempts fail and leave the mutex unchanged, and after the unlock the next
  attempt is granted.\<close>

lemma mutex_try_lock_exclusive:
  assumes "mutex_try_lock True l = (ER_NORMAL, l')"
  shows "try_lock.attempts (mutex_try_lock True) n l' = (0, l') \<and>
         fst (mutex_try_lock True (mutex_unlock True l')) = ER_NORMAL"
  using mtx.attempts_held [OF mtx.granted_held [OF assms]] mtx.regrant [OF assms] by simp

lemma mutex_try_lock_exclusive_witness:
  "mutex_try_lock True \<lparr>mx_atc = \<lparr>counter = 0\<rparr>\<rparr> = (ER_NORMAL, \<lparr>mx_atc = \<lparr>counter = 1\<rparr>\<rparr>) \<and>
   try_lock.attempts (mutex_try_lock True) 5 \<lparr>mx_atc = \<lparr>counter = 1\<rparr>\<rparr> = (0, \<lparr>mx_atc = \<lparr>counter = 1\<rparr>\<rparr>)"
proof -
  have t: "mutex_try_lock True \<lparr>mx_atc = \<lparr>counter = 0\<rparr>\<rparr> = (ER_NORMAL, \<lparr>mx_atc = \<lparr>counter = 1\<rparr>\<rparr>)"
    by (simp add: mutex_try_lock_def mutex_is_locked_def atomic_defs)
  then show ?thesis using mutex_try_lock_exclusive [OF t, of 5] by blast
qed

end
