(* ===== verification/List_Head.thy ===== *)
theory List_Head
  imports Prelude
begin

text \<open>
  The circular doubly linked lists of \<^verbatim>\<open>include/common/list_types.h\<close>.

  A \<^verbatim>\<open>struct list_head\<close> is identified by its address, of an arbitrary type \<open>'a\<close>; the
  memory holding all of them is the record \<open>list_heap\<close> with one function per field.
  \<open>dlist h head xs\<close> states that in \<open>h\<close> the list with head \<open>head\<close> links exactly the nodes
  \<open>xs\<close>, in that order, in both directions.  Each operation of the header is translated
  assignment by assignment and shown to refine the obvious operation on \<open>xs\<close>; walks over
  a list may loop for ever on a corrupted list, so they return an option.
\<close>

section \<open>Memory and operations\<close>

record 'a list_heap =
  sprt_prev :: "'a \<Rightarrow> 'a"
  sprt_next :: "'a \<Rightarrow> 'a"

definition set_next :: "'a \<Rightarrow> 'a \<Rightarrow> 'a list_heap \<Rightarrow> 'a list_heap" where
  "set_next a b h = h\<lparr>sprt_next := (sprt_next h)(a := b)\<rparr>"

definition set_prev :: "'a \<Rightarrow> 'a \<Rightarrow> 'a list_heap \<Rightarrow> 'a list_heap" where
  "set_prev a b h = h\<lparr>sprt_prev := (sprt_prev h)(a := b)\<rparr>"

lemma set_next_sel [simp]:
  "sprt_next (set_next a b h) = (sprt_next h)(a := b)"
  "sprt_prev (set_next a b h) = sprt_prev h"
  by (simp_all add: set_next_def)

lemma set_prev_sel [simp]:
  "sprt_prev (set_prev a b h) = (sprt_prev h)(a := b)"
  "sprt_next (set_prev a b h) = sprt_next h"
  by (simp_all add: set_prev_def)

definition mrt_list_head_empty :: "'a list_heap \<Rightarrow> 'a \<Rightarrow> bool" where
  "mrt_list_head_empty h l \<longleftrightarrow> sprt_prev h l = l \<and> sprt_next h l = l"

definition init_list_head :: "'a \<Rightarrow> 'a list_heap \<Rightarrow> 'a list_heap" where
  "init_list_head l h = set_prev l l (set_next l l h)"

definition list_head_add_head :: "'a \<Rightarrow> 'a \<Rightarrow> 'a list_heap \<Rightarrow> 'a list_heap" where
  "list_head_add_head head l h =
     (let ptr_next = sprt_next h head;
          h = set_prev l head h;
          h = set_next head l h;
          h = set_next l ptr_next h
      in set_prev ptr_next l h)"

definition list_head_add_tail :: "'a \<Rightarrow> 'a \<Rightarrow> 'a list_heap \<Rightarrow> 'a list_heap" where
  "list_head_add_tail head l h =
     (let ptr_prev = sprt_prev h head;
          h = set_prev l ptr_prev h;
          h = set_next ptr_prev l h;
          h = set_next l head h
      in set_prev head l h)"

definition list_head_del_head :: "'a \<Rightarrow> 'a list_heap \<Rightarrow> 'a list_heap" where
  "list_head_del_head head h =
     (let ptr_next = sprt_next h (sprt_next h head);
          h = set_next head ptr_next h
      in set_prev ptr_next head h)"

definition list_head_del_tail :: "'a \<Rightarrow> 'a list_heap \<Rightarrow> 'a list_heap" where
  "list_head_del_tail head h =
     (let ptr_prev = sprt_prev h (sprt_prev h head);
          h = set_prev head ptr_prev h
      in set_next ptr_prev head h)"

definition list_head_del :: "'a \<Rightarrow> 'a list_heap \<Rightarrow> 'a list_heap" where
  "list_head_del l h =
     (let ptr_prev = sprt_prev h l;
          ptr_next = sprt_next h l;
          h = set_next ptr_prev ptr_next h
      in set_prev ptr_next ptr_prev h)"

text \<open>The two-way search of \<^verbatim>\<open>list_head_for_each\<close>, one call per loop iteration.\<close>

partial_function (option) for_each_loop ::
  "'a list_heap \<Rightarrow> 'a \<Rightarrow> 'a \<Rightarrow> 'a \<Rightarrow> 'a \<Rightarrow> int option" where
  "for_each_loop h head l right left =
     (if right \<noteq> head \<and> left \<noteq> head
      then (if left = l \<or> right = l then Some ER_NORMAL
            else if left = right then Some (- ER_ERROR)
            else for_each_loop h head l (sprt_next h right) (sprt_prev h left))
      else Some (- ER_ERROR))"

definition list_head_for_each :: "'a \<Rightarrow> 'a \<Rightarrow> 'a list_heap \<Rightarrow> int option" where
  "list_head_for_each head l h = for_each_loop h head l (sprt_next h head) (sprt_prev h head)"

definition list_head_del_safe :: "'a \<Rightarrow> 'a \<Rightarrow> 'a list_heap \<Rightarrow> 'a list_heap option" where
  "list_head_del_safe head l h =
     (let ptr_prev = sprt_prev h l; ptr_next = sprt_next h l
      in case list_head_for_each head l h of
           None \<Rightarrow> None
         | Some r \<Rightarrow>
             Some (if r = 0 then set_prev ptr_next ptr_prev (set_next ptr_prev ptr_next h)
                   else h))"

text \<open>
  \<open>foreach_next h head P\<close> is a \<^verbatim>\<open>foreach_list_next_entry\<close> loop that leaves at the first node
  satisfying \<open>P\<close>: \<open>Some (Some n)\<close> when it finds \<open>n\<close>, \<open>Some None\<close> when it comes back to the
  head, \<open>None\<close> when it never comes back.  \<open>foreach_prev\<close> walks backwards.
\<close>

partial_function (option) walk_next ::
  "'a list_heap \<Rightarrow> 'a \<Rightarrow> ('a \<Rightarrow> bool) \<Rightarrow> 'a \<Rightarrow> 'a option option" where
  "walk_next h head Q pos =
     (if pos = head then Some None
      else if Q pos then Some (Some pos)
      else walk_next h head Q (sprt_next h pos))"

partial_function (option) walk_prev ::
  "'a list_heap \<Rightarrow> 'a \<Rightarrow> ('a \<Rightarrow> bool) \<Rightarrow> 'a \<Rightarrow> 'a option option" where
  "walk_prev h head Q pos =
     (if pos = head then Some None
      else if Q pos then Some (Some pos)
      else walk_prev h head Q (sprt_prev h pos))"

definition foreach_next :: "'a list_heap \<Rightarrow> 'a \<Rightarrow> ('a \<Rightarrow> bool) \<Rightarrow> 'a option option" where
  "foreach_next h head P = walk_next h head P (sprt_next h head)"

definition foreach_prev :: "'a list_heap \<Rightarrow> 'a \<Rightarrow> ('a \<Rightarrow> bool) \<Rightarrow> 'a option option" where
  "foreach_prev h head P = walk_prev h head P (sprt_prev h head)"

text \<open>The nodes a complete forward walk visits, in order.\<close>

partial_function (option) collect_next ::
  "'a list_heap \<Rightarrow> 'a \<Rightarrow> 'a \<Rightarrow> 'a list option" where
  "collect_next h head pos =
     (if pos = head then Some []
      else Option.bind (collect_next h head (sprt_next h pos)) (\<lambda>xs. Some (pos # xs)))"

definition list_nodes :: "'a list_heap \<Rightarrow> 'a \<Rightarrow> 'a list option" where
  "list_nodes h head = collect_next h head (sprt_next h head)"

section \<open>The represented list\<close>

fun linked :: "'a list_heap \<Rightarrow> 'a \<Rightarrow> 'a list \<Rightarrow> 'a \<Rightarrow> bool" where
  "linked h a [] b = (sprt_next h a = b \<and> sprt_prev h b = a)"
| "linked h a (x # xs) b = (sprt_next h a = x \<and> sprt_prev h x = a \<and> linked h x xs b)"

definition dlist :: "'a list_heap \<Rightarrow> 'a \<Rightarrow> 'a list \<Rightarrow> bool" where
  "dlist h head xs \<longleftrightarrow> distinct (head # xs) \<and> linked h head xs head"

lemma linked_append:
  "linked h a (xs @ x # ys) b \<longleftrightarrow> linked h a xs x \<and> linked h x ys b"
  by (induction xs arbitrary: a) auto

text \<open>Writing the \<open>next\<close> field of a node only matters to the segment that starts there, the
  \<open>prev\<close> field only to the segment that ends there.\<close>

lemma linked_set_next [simp]:
  "n \<noteq> a \<Longrightarrow> n \<notin> set xs \<Longrightarrow> linked (set_next n v h) a xs b = linked h a xs b"
  by (induction xs arbitrary: a) auto

lemma linked_set_prev [simp]:
  "n \<noteq> b \<Longrightarrow> n \<notin> set xs \<Longrightarrow> linked (set_prev n v h) a xs b = linked h a xs b"
  by (induction xs arbitrary: a) auto

lemma linked_set_next_at [simp]:
  "n \<notin> set xs \<Longrightarrow> xs = x # xs' \<Longrightarrow>
     linked (set_next n v h) n xs b \<longleftrightarrow> v = x \<and> sprt_prev h x = n \<and> linked h x xs' b"
  by auto

lemma linked_cong:
  "(\<And>n. n \<in> insert a (set xs) \<Longrightarrow> sprt_next h' n = sprt_next h n) \<Longrightarrow>
   (\<And>n. n \<in> insert b (set xs) \<Longrightarrow> sprt_prev h' n = sprt_prev h n) \<Longrightarrow>
   linked h' a xs b = linked h a xs b"
  by (induction xs arbitrary: a) auto

lemma dlist_frame:
  assumes "\<And>n. n \<in> insert head (set xs) \<Longrightarrow> sprt_next h' n = sprt_next h n"
    and "\<And>n. n \<in> insert head (set xs) \<Longrightarrow> sprt_prev h' n = sprt_prev h n"
  shows "dlist h' head xs = dlist h head xs"
  unfolding dlist_def using linked_cong [of head xs h' h head] assms by auto

lemma linked_next: "linked h a xs b \<Longrightarrow> sprt_next h a = (case xs of [] \<Rightarrow> b | x # _ \<Rightarrow> x)"
  by (cases xs) auto

lemma linked_prev: "linked h a xs b \<Longrightarrow> sprt_prev h b = (if xs = [] then a else last xs)"
  by (induction xs arbitrary: a) auto

lemma linked_nth:
  "linked h a xs b \<Longrightarrow> i \<le> length xs \<Longrightarrow>
     sprt_next h ((a # xs) ! i) = (xs @ [b]) ! i \<and> sprt_prev h ((xs @ [b]) ! i) = (a # xs) ! i"
proof (induction xs arbitrary: a i)
  case Nil
  then show ?case by simp
next
  case (Cons x xs)
  show ?case
  proof (cases i)
    case 0
    with Cons.prems show ?thesis by simp
  next
    case (Suc j)
    with Cons.prems Cons.IH [of x j] show ?thesis by simp
  qed
qed

lemma dlist_distinct: "dlist h head xs \<Longrightarrow> distinct xs \<and> head \<notin> set xs"
  by (simp add: dlist_def)

lemma dlist_empty [simp]: "dlist h head [] \<longleftrightarrow> mrt_list_head_empty h head"
  by (auto simp: dlist_def mrt_list_head_empty_def)

lemma dlist_is_empty: "dlist h head xs \<Longrightarrow> mrt_list_head_empty h head \<longleftrightarrow> xs = []"
  by (cases xs) (auto simp: dlist_def mrt_list_head_empty_def)

lemma dlist_next: "dlist h head (x # xs) \<Longrightarrow> sprt_next h head = x"
  by (simp add: dlist_def)

lemma dlist_prev: "dlist h head xs \<Longrightarrow> sprt_prev h head = (if xs = [] then head else last xs)"
  using linked_prev by (fastforce simp: dlist_def)


lemma dlist_nth_next:
  assumes "dlist h head xs" and "i \<le> length xs"
  shows "sprt_next h ((head # xs) ! i) = (xs @ [head]) ! i"
  using assms linked_nth unfolding dlist_def by fastforce

lemma dlist_nth_prev:
  assumes "dlist h head xs" and "i \<le> length xs"
  shows "sprt_prev h ((xs @ [head]) ! i) = (head # xs) ! i"
  using assms linked_nth unfolding dlist_def by fastforce

section \<open>Every operation refines its list counterpart\<close>

lemma dlist_init_list_head [simp]: "dlist (init_list_head l h) l []"
  by (simp add: init_list_head_def mrt_list_head_empty_def)

text \<open>Insertion behind an arbitrary node of the ring: the head, or a member.\<close>

lemma linked_add_head:
  assumes "linked h a xs b" and "distinct (a # xs)" and "n \<noteq> a" "n \<noteq> b" "n \<notin> set xs" "b \<notin> set xs"
  shows "linked (list_head_add_head a n h) a (n # xs) b"
proof (cases xs)
  case Nil
  with assms show ?thesis
    by (auto simp: list_head_add_head_def Let_def)
next
  case (Cons y ys)
  with assms show ?thesis
    by (auto simp: list_head_add_head_def Let_def)
qed

lemma list_head_add_head_frame:
  "m \<noteq> a \<Longrightarrow> m \<noteq> n \<Longrightarrow> sprt_next (list_head_add_head a n h) m = sprt_next h m"
  "m \<noteq> n \<Longrightarrow> m \<noteq> sprt_next h a \<Longrightarrow> sprt_prev (list_head_add_head a n h) m = sprt_prev h m"
  by (auto simp: list_head_add_head_def Let_def)

lemma dlist_add_head:
  assumes "dlist h head xs" and "n \<notin> set (head # xs)"
  shows "dlist (list_head_add_head head n h) head (n # xs)"
  using assms linked_add_head [of h head xs head n] by (auto simp: dlist_def)

text \<open>Rotating the ring: a list seen from one of its members.\<close>

lemma dlist_rotate:
  "dlist h head (xs @ a # ys) \<longleftrightarrow> dlist h a (ys @ head # xs)"
  by (auto simp: dlist_def linked_append)

lemma dlist_add_behind:
  assumes "dlist h head (xs @ a # ys)" and "n \<notin> set (head # xs @ a # ys)"
  shows "dlist (list_head_add_head a n h) head (xs @ a # n # ys)"
proof -
  have "dlist h a (ys @ head # xs)"
    using assms(1) dlist_rotate by fast
  then have "dlist (list_head_add_head a n h) a ((n # ys) @ head # xs)"
    using assms(2) dlist_add_head [of h a "ys @ head # xs" n] by auto
  then show ?thesis using dlist_rotate by fast
qed

lemma dlist_add_tail:
  assumes "dlist h head xs" and "n \<notin> set (head # xs)"
  shows "dlist (list_head_add_tail head n h) head (xs @ [n])"
proof (cases xs rule: rev_cases)
  case Nil
  with assms show ?thesis
    by (auto simp: dlist_def list_head_add_tail_def Let_def mrt_list_head_empty_def)
next
  case (snoc ys y)
  have p: "sprt_prev h head = y"
    using assms(1) snoc dlist_prev by fastforce
  have "list_head_add_tail head n h = list_head_add_head y n h"
    using assms snoc p by (auto simp: list_head_add_tail_def list_head_add_head_def Let_def
        dlist_def linked_append set_next_def set_prev_def)
  moreover have "dlist (list_head_add_head y n h) head (ys @ y # n # [])"
    using assms snoc by (intro dlist_add_behind) auto
  ultimately show ?thesis using snoc by simp
qed

lemma dlist_add_before:
  assumes "dlist h head (xs @ a # ys)" and "n \<notin> set (head # xs @ a # ys)"
  shows "dlist (list_head_add_tail a n h) head (xs @ n # a # ys)"
proof -
  have "dlist h a (ys @ head # xs)"
    using assms(1) dlist_rotate by fast
  then have "dlist (list_head_add_tail a n h) a (ys @ head # (xs @ [n]))"
    using assms(2) dlist_add_tail [of h a "ys @ head # xs" n] by auto
  then have "dlist (list_head_add_tail a n h) head ((xs @ [n]) @ a # ys)"
    using dlist_rotate by fast
  then show ?thesis by simp
qed

lemma dlist_del:
  assumes "dlist h head (xs @ n # ys)"
  shows "dlist (list_head_del n h) head (xs @ ys)"
proof -
  let ?p = "sprt_prev h n" and ?s = "sprt_next h n"
  have l: "linked h head xs n" "linked h n ys head" "distinct (head # xs @ n # ys)"
    using assms by (auto simp: dlist_def linked_append)
  have del: "list_head_del n h = set_prev ?s ?p (set_next ?p ?s h)"
    by (simp add: list_head_del_def Let_def)
  show ?thesis
  proof (cases ys)
    case Nil
    then have s: "?s = head" using l by simp
    show ?thesis
    proof (cases xs rule: rev_cases)
      case Nil
      with \<open>ys = []\<close> l s show ?thesis
        by (auto simp: del dlist_def mrt_list_head_empty_def)
    next
      case (snoc us u)
      with \<open>ys = []\<close> l s show ?thesis
        by (auto simp: del dlist_def linked_append)
    qed
  next
    case (Cons v vs)
    then have s: "?s = v" using l by simp
    show ?thesis
    proof (cases xs rule: rev_cases)
      case Nil
      with Cons l s show ?thesis
        by (auto simp: del dlist_def)
    next
      case (snoc us u)
      with Cons l s show ?thesis
        by (auto simp: del dlist_def linked_append)
    qed
  qed
qed

lemma list_head_del_frame:
  "m \<noteq> sprt_prev h n \<Longrightarrow> sprt_next (list_head_del n h) m = sprt_next h m"
  "m \<noteq> sprt_next h n \<Longrightarrow> sprt_prev (list_head_del n h) m = sprt_prev h m"
  by (auto simp: list_head_del_def Let_def)

lemma dlist_del_head:
  assumes "dlist h head (x # xs)"
  shows "dlist (list_head_del_head head h) head xs"
proof -
  have "sprt_next h head = x" "sprt_prev h x = head"
    using assms by (auto simp: dlist_def)
  then have "list_head_del_head head h = list_head_del x h"
    by (simp add: list_head_del_head_def list_head_del_def Let_def)
  then show ?thesis using dlist_del [of h head "[]" x xs] assms by simp
qed

text \<open>Given a member instead of the head, \<^verbatim>\<open>list_head_del_tail\<close> unlinks the member before it.\<close>

lemma dlist_del_tail_member:
  assumes "dlist h head (xs @ p # n # ys)"
  shows "dlist (list_head_del_tail n h) head (xs @ n # ys)"
proof -
  have "sprt_prev h n = p" "sprt_next h p = n" using assms by (simp_all add: dlist_def linked_append)
  then have "list_head_del_tail n h = list_head_del p h" by (simp add: list_head_del_tail_def list_head_del_def Let_def)
  then show ?thesis using dlist_del [OF assms] by simp
qed

lemma dlist_del_tail:
  assumes "dlist h head (xs @ [x])"
  shows "dlist (list_head_del_tail head h) head xs"
proof -
  have p: "sprt_prev h head = x" "sprt_next h x = head"
    using assms by (auto simp: dlist_def linked_append)
  have "list_head_del_tail head h = list_head_del x h"
    using p by (simp add: list_head_del_tail_def list_head_del_def Let_def set_next_def set_prev_def)
  then show ?thesis using dlist_del [of h head xs x "[]"] assms by simp
qed


section \<open>Searching and walking\<close>

lemma for_each_loop_dlist:
  assumes d: "dlist h head xs" and "i \<le> length xs"
    and "\<forall>j<i. xs ! j \<noteq> l \<and> xs ! (length xs - 1 - j) \<noteq> l"
  shows "for_each_loop h head l ((xs @ [head]) ! i) ((head # xs) ! (length xs - i)) =
           Some (if l \<in> set xs then ER_NORMAL else - ER_ERROR)"
  using assms(2,3)
proof (induction "length xs - i" arbitrary: i)
  case 0
  then have "i = length xs" by simp
  with 0 have "l \<notin> set xs" by (auto simp: in_set_conv_nth)
  with \<open>i = length xs\<close> show ?case by (simp add: for_each_loop.simps)
next
  case (Suc k)
  let ?n = "length xs"
  have i: "i < ?n" using Suc.hyps(2) by simp
  then have r: "(xs @ [head]) ! i = xs ! i" by (simp add: nth_append)
  have le: "(head # xs) ! (?n - i) = xs ! (?n - 1 - i)" using i by (simp add: nth_Cons')
  have nh: "xs ! i \<noteq> head" "xs ! (?n - 1 - i) \<noteq> head"
    using dlist_distinct [OF d] i nth_mem [of "?n - 1 - i" xs] nth_mem [of i xs] by auto
  have nx: "sprt_next h (xs ! i) = (xs @ [head]) ! Suc i"
    using dlist_nth_next [OF d, of "Suc i"] i by simp
  have pv: "sprt_prev h (xs ! (?n - 1 - i)) = (head # xs) ! (?n - Suc i)"
    using dlist_nth_prev [OF d, of "?n - 1 - i"] i by (simp add: nth_append split: if_splits)
  consider (hit) "xs ! i = l \<or> xs ! (?n - 1 - i) = l"
    | (meet) "xs ! i \<noteq> l" "xs ! (?n - 1 - i) \<noteq> l" "xs ! (?n - 1 - i) = xs ! i"
    | (go) "xs ! i \<noteq> l" "xs ! (?n - 1 - i) \<noteq> l" "xs ! (?n - 1 - i) \<noteq> xs ! i"
    by blast
  then show ?case
  proof cases
    case hit
    moreover have "l \<in> set xs" using hit i nth_mem [of "?n - 1 - i" xs] nth_mem [of i xs] by auto
    ultimately show ?thesis
      unfolding r le by (subst for_each_loop.simps) (use nh in auto)
  next
    case meet
    then have eq: "?n - 1 - i = i"
      using dlist_distinct [OF d] i nth_eq_iff_index_eq [of xs "?n - 1 - i" i] by simp
    have "l \<notin> set xs"
    proof
      assume "l \<in> set xs"
      then obtain j where j: "j < ?n" "xs ! j = l" by (auto simp: in_set_conv_nth)
      consider "j < i" | "j = i" | "?n - 1 - j < i" using eq j by linarith
      then show False
      proof cases
        case 3
        then have "xs ! (?n - 1 - (?n - 1 - j)) \<noteq> l" using Suc.prems(2) by blast
        then show False using j by simp
      qed (use Suc.prems(2) j meet in auto)
    qed
    then show ?thesis
      unfolding r le by (subst for_each_loop.simps) (use meet nh in simp)
  next
    case go
    have "for_each_loop h head l ((xs @ [head]) ! Suc i) ((head # xs) ! (?n - Suc i)) =
            Some (if l \<in> set xs then ER_NORMAL else - ER_ERROR)"
      using Suc i go by (intro Suc.hyps(1)) (auto simp: less_Suc_eq)
    then show ?thesis
      unfolding r le by (subst for_each_loop.simps) (use go nh nx pv in simp)
  qed
qed

lemma list_head_for_each_dlist:
  assumes "dlist h head xs"
  shows "list_head_for_each head l h = Some (if l \<in> set xs then ER_NORMAL else - ER_ERROR)"
proof -
  have "sprt_next h head = (xs @ [head]) ! 0" "sprt_prev h head = (head # xs) ! (length xs - 0)"
    using dlist_nth_next [OF assms, of 0] dlist_nth_prev [OF assms, of "length xs"] by auto
  then show ?thesis
    using for_each_loop_dlist [OF assms, of 0 l] by (simp add: list_head_for_each_def)
qed

lemma list_head_del_safe_dlist:
  assumes "dlist h head xs"
  shows "list_head_del_safe head n h = Some (if n \<in> set xs then list_head_del n h else h)"
  using list_head_for_each_dlist [OF assms, of n]
  by (simp add: list_head_del_safe_def list_head_del_def Let_def)

lemma walk_next_linked:
  "linked h a (x # xs) head \<Longrightarrow> head \<notin> set (x # xs) \<Longrightarrow> walk_next h head P x = Some (find P (x # xs))"
proof (induction xs arbitrary: a x)
  case Nil
  then show ?case by (simp add: walk_next.simps)
next
  case (Cons y ys)
  then have "walk_next h head P y = Some (find P (y # ys))" by auto
  with Cons.prems show ?case by (auto simp: walk_next.simps [of h head P x])
qed

lemma foreach_next_dlist:
  assumes "dlist h head xs"
  shows "foreach_next h head P = Some (find P xs)"
proof (cases xs)
  case Nil
  with assms show ?thesis by (simp add: foreach_next_def mrt_list_head_empty_def walk_next.simps)
next
  case (Cons y ys)
  with assms walk_next_linked [of h head y ys head P] show ?thesis
    by (simp add: foreach_next_def dlist_def)
qed

lemma walk_prev_linked:
  "linked h head (xs @ [x]) b \<Longrightarrow> head \<notin> set (xs @ [x]) \<Longrightarrow>
     walk_prev h head P x = Some (find P (rev (xs @ [x])))"
proof (induction xs arbitrary: b x rule: rev_induct)
  case Nil
  then show ?case by (simp add: walk_prev.simps)
next
  case (snoc y ys)
  then have l: "linked h head (ys @ [y]) x" and p: "sprt_prev h x = y"
    by (auto simp: linked_append)
  have "walk_prev h head P y = Some (find P (rev (ys @ [y])))"
    using snoc.IH [OF l] snoc.prems by simp
  with snoc.prems p show ?case by (auto simp: walk_prev.simps [of h head P x])
qed

lemma foreach_prev_dlist:
  assumes "dlist h head xs"
  shows "foreach_prev h head P = Some (find P (rev xs))"
proof (cases xs rule: rev_cases)
  case Nil
  with assms show ?thesis by (simp add: foreach_prev_def mrt_list_head_empty_def walk_prev.simps)
next
  case (snoc ys y)
  with assms walk_prev_linked [of h head ys y head P] dlist_prev [OF assms] show ?thesis
    by (simp add: foreach_prev_def dlist_def)
qed

lemma collect_next_linked:
  "linked h a xs head \<Longrightarrow> head \<notin> set xs \<Longrightarrow> collect_next h head (sprt_next h a) = Some xs"
proof (induction xs arbitrary: a)
  case Nil
  then show ?case by (simp add: collect_next.simps)
next
  case (Cons x xs)
  then have "collect_next h head (sprt_next h x) = Some xs" by simp
  with Cons.prems show ?case by (auto simp: collect_next.simps [of h head x])
qed

lemma list_nodes_dlist: "dlist h head xs \<Longrightarrow> list_nodes h head = Some xs"
  using collect_next_linked [of h head xs head] by (simp add: list_nodes_def dlist_def)

section \<open>Disjoint lists do not interfere\<close>

lemma dlist_next_in:
  assumes "dlist h head xs" and "a \<in> set (head # xs)"
  shows "sprt_next h a \<in> set (head # xs)"
proof -
  from assms(2) obtain i where "i \<le> length xs" "a = (head # xs) ! i"
    by (metis in_set_conv_nth length_Cons less_Suc_eq_le)
  with dlist_nth_next [OF assms(1)] nth_mem [of i "xs @ [head]"] show ?thesis by force
qed

lemma dlist_prev_in:
  assumes "dlist h head xs" and "a \<in> set (head # xs)"
  shows "sprt_prev h a \<in> set (head # xs)"
proof -
  have "a \<in> set (xs @ [head])" using assms(2) by auto
  then obtain i where "i \<le> length xs" "a = (xs @ [head]) ! i"
    by (metis in_set_conv_nth length_append_singleton less_Suc_eq_le)
  with dlist_nth_prev [OF assms(1)] nth_mem [of i "head # xs"] show ?thesis by force
qed

lemma dlist_other_add_head:
  assumes "dlist h head xs" "a \<in> set (head # xs)" "dlist h head' ys"
    and "set (head # xs) \<inter> set (head' # ys) = {}" "n \<notin> set (head' # ys)"
  shows "dlist (list_head_add_head a n h) head' ys"
proof -
  have "sprt_next h a \<in> set (head # xs)" using dlist_next_in assms by metis
  then have "dlist (list_head_add_head a n h) head' ys = dlist h head' ys"
    using assms by (intro dlist_frame list_head_add_head_frame) auto
  then show ?thesis using assms by simp
qed

lemma dlist_other_add_tail:
  assumes "dlist h head xs" "a \<in> set (head # xs)" "dlist h head' ys"
    and "set (head # xs) \<inter> set (head' # ys) = {}" "n \<notin> set (head' # ys)"
  shows "dlist (list_head_add_tail a n h) head' ys"
proof -
  have "sprt_prev h a \<in> set (head # xs)" using dlist_prev_in assms by metis
  then have "dlist (list_head_add_tail a n h) head' ys = dlist h head' ys"
    using assms by (intro dlist_frame) (auto simp: list_head_add_tail_def Let_def)
  then show ?thesis using assms by simp
qed

lemma dlist_other_del:
  assumes "dlist h head xs" "n \<in> set (head # xs)" "dlist h head' ys"
    and "set (head # xs) \<inter> set (head' # ys) = {}"
  shows "dlist (list_head_del n h) head' ys"
proof -
  have "sprt_next h n \<in> set (head # xs)" "sprt_prev h n \<in> set (head # xs)"
    using dlist_next_in dlist_prev_in assms by metis+
  then have "dlist (list_head_del n h) head' ys = dlist h head' ys"
    using assms by (intro dlist_frame list_head_del_frame) auto
  then show ?thesis using assms by simp
qed

lemma dlist_other_init:
  assumes "dlist h head ys" "n \<notin> set (head # ys)"
  shows "dlist (init_list_head n h) head ys"
proof -
  have "dlist (init_list_head n h) head ys = dlist h head ys"
    using assms by (intro dlist_frame) (auto simp: init_list_head_def)
  then show ?thesis using assms by simp
qed

lemma dlist_unique: "dlist h head xs \<Longrightarrow> dlist h head ys \<Longrightarrow> xs = ys"
  using list_nodes_dlist [of h head xs] list_nodes_dlist [of h head ys] by simp

lemmas dlist_ops =
  dlist_init_list_head dlist_add_head dlist_add_tail dlist_add_behind dlist_add_before
  dlist_del dlist_del_head dlist_del_tail

lemmas dlist_others =
  dlist_other_add_head dlist_other_add_tail dlist_other_del dlist_other_init

end
