(* ===== verification/Kernel_Time.thy ===== *)
theory Kernel_Time
  imports List_Head Generic_Ops
begin

text \<open>
  \<^verbatim>\<open>include/common/time.h\<close> and \<^verbatim>\<open>common/generic/time.c\<close>: the tick counter, the conversions
  between ticks and units of time (\<^verbatim>\<open>CONFIG_HZ\<close> is 100), the busy waits and the global list of
  software timers.

  A timer is known by the address of its \<^verbatim>\<open>struct timer_list\<close>; its \<^verbatim>\<open>sgrt_link\<close> is the list node
  \<open>TimerLink\<close> of that address.  The record \<open>ktime\<close> holds the globals of \<^verbatim>\<open>time.c\<close> and is
  extended by the scheduler.  What a timeout function does is a parameter of
  \<open>do_timer_event\<close>.
\<close>

section \<open>State\<close>

datatype timer_node = TimerHead | TimerLink kuaddr_t

record time_spec =
  tv_sec :: kutime_t
  tv_nsec :: kutime_t

record timer_list =
  expires :: kutime_t
  timer_entry :: kuaddr_t
  timer_data :: kuint32_t

record ktime =
  jiffies :: kutime_t
  jiffies_out :: kutime_t
  g_simple_delay_timer :: kuint32_t
  g_simple_timeout_cnt :: kuint32_t
  g_delay_timer_counter :: kutime_t
  timer_links :: "timer_node list_heap"
  timers :: "kuaddr_t \<Rightarrow> timer_list"

section \<open>Ticks and units\<close>

abbreviation (input) TICK_HZ :: kuint32_t where "TICK_HZ \<equiv> 100"

definition get_time_counter :: "'s ktime_scheme \<Rightarrow> 's ktime_scheme" where
  "get_time_counter s =
     (let s = s\<lparr>jiffies := (if jiffies s \<ge> - 1 then 0 else jiffies s + 1)\<rparr>
      in s\<lparr>jiffies_out := (if jiffies s \<noteq> 0 then jiffies_out s else jiffies_out s + 1)\<rparr>)"

definition jiffies_to_secs :: "kutime_t \<Rightarrow> kuint32_t" where
  "jiffies_to_secs j = j div TICK_HZ"

definition jiffies_to_msecs :: "kutime_t \<Rightarrow> kuint32_t" where
  "jiffies_to_msecs j = (j div TICK_HZ) * 1000"

definition jiffies_to_usecs :: "kutime_t \<Rightarrow> kuint32_t" where
  "jiffies_to_usecs j = (j div TICK_HZ) * 1000 * 1000"

text \<open>The product is computed at 32 bits and only then widened.\<close>

definition jiffies_to_nsecs :: "kutime_t \<Rightarrow> kuint64_t" where
  "jiffies_to_nsecs j = ucast ((j div TICK_HZ) * 1000 * 1000 * 1000)"

definition secs_to_jiffies :: "kuint32_t \<Rightarrow> kutime_t" where
  "secs_to_jiffies s = s * TICK_HZ"

definition msecs_to_jiffies :: "kuint32_t \<Rightarrow> kutime_t" where
  "msecs_to_jiffies m = (m * TICK_HZ) div 1000"

definition usecs_to_jiffies :: "kuint32_t \<Rightarrow> kutime_t" where
  "usecs_to_jiffies u = (u * TICK_HZ) div 1000 div 1000"

definition nsecs_to_jiffies :: "kuint64_t \<Rightarrow> kutime_t" where
  "nsecs_to_jiffies n = ucast ((n * 100) div 1000 div 1000 div 1000)"

definition time_spec_to_msecs :: "time_spec \<Rightarrow> kutime_t" where
  "time_spec_to_msecs t = tv_sec t * 1000 + tv_nsec t div 1000 div 1000"

definition msecs_to_time_spec :: "kuint32_t \<Rightarrow> time_spec" where
  "msecs_to_time_spec m =
     (let sec = m div 1000 in \<lparr>tv_sec = sec, tv_nsec = (m - sec * 1000) * 1000 * 1000\<rparr>)"

definition mrt_is_timespec_empty :: "time_spec \<Rightarrow> bool" where
  "mrt_is_timespec_empty t \<longleftrightarrow> tv_sec t = 0 \<and> tv_nsec t = 0"

definition mrt_time_after :: "kutime_t \<Rightarrow> kutime_t \<Rightarrow> bool" where
  "mrt_time_after a b \<longleftrightarrow> a > b"

section \<open>The free-running delay counter and the busy waits\<close>

definition simple_delay_timer_initial :: "'s ktime_scheme \<Rightarrow> 's ktime_scheme" where
  "simple_delay_timer_initial s =
     s\<lparr>g_simple_delay_timer := 0, g_simple_timeout_cnt := 0, g_delay_timer_counter := 0\<rparr>"

definition simple_delay_timer_runs :: "'s ktime_scheme \<Rightarrow> 's ktime_scheme" where
  "simple_delay_timer_runs s =
     (let old = g_simple_delay_timer s;
          s = s\<lparr>g_simple_delay_timer := old + 1\<rparr>;
          s = (if old \<ge> 0x00ffffff
               then s\<lparr>g_simple_delay_timer := 0,
                      g_simple_timeout_cnt :=
                        (if g_simple_timeout_cnt s \<ge> 255 then 0 else g_simple_timeout_cnt s + 1)\<rparr>
               else s)
      in s\<lparr>g_delay_timer_counter :=
             (push_bit 24 (g_simple_timeout_cnt s) AND NOT 0x00ffffff) + g_simple_delay_timer s\<rparr>)"

text \<open>The delay loops, as the number of \<^verbatim>\<open>nop\<close> instructions they execute.\<close>

partial_function (option) delay_cnt :: "kuint32_t \<Rightarrow> nat option" where
  "delay_cnt n =
     (if n = 0 then Some 0 else Option.bind (delay_cnt (n - 1)) (\<lambda>k. Some (Suc k)))"

partial_function (option) delay_times :: "kuint32_t \<Rightarrow> kuint32_t \<Rightarrow> nat option" where
  "delay_times per n =
     (if n = 0 then Some 0
      else Option.bind (delay_cnt per) (\<lambda>k.
           Option.bind (delay_times per (n - 1)) (\<lambda>m. Some (k + m))))"

definition delay_s :: "kuint32_t \<Rightarrow> nat option" where
  "delay_s n_s = delay_times (0x7ff * 1000) n_s"

definition delay_ms :: "kuint32_t \<Rightarrow> nat option" where
  "delay_ms n_ms = delay_times 0x7ff n_ms"

definition delay_us :: "kuint32_t \<Rightarrow> nat option" where
  "delay_us n_us = delay_times (0x7ff div 1000) n_us"

text \<open>A busy wait on the tick counter; every round of the loop sees one more tick.\<close>

partial_function (option) wait_loop :: "kutime_t \<Rightarrow> 's ktime_scheme \<Rightarrow> 's ktime_scheme option" where
  "wait_loop count s =
     (if mrt_time_after count (jiffies s) then wait_loop count (get_time_counter s) else Some s)"

definition wait_secs :: "kuint32_t \<Rightarrow> 's ktime_scheme \<Rightarrow> 's ktime_scheme option" where
  "wait_secs seconds s = wait_loop (jiffies s + secs_to_jiffies seconds) s"

definition wait_msecs :: "kuint32_t \<Rightarrow> 's ktime_scheme \<Rightarrow> 's ktime_scheme option" where
  "wait_msecs milseconds s = wait_loop (jiffies s + msecs_to_jiffies milseconds) s"

definition wait_usecs :: "kuint32_t \<Rightarrow> 's ktime_scheme \<Rightarrow> 's ktime_scheme option" where
  "wait_usecs useconds s = wait_loop (jiffies s + usecs_to_jiffies useconds) s"

section \<open>Software timers\<close>

definition setup_timer :: "kuaddr_t \<Rightarrow> kuaddr_t \<Rightarrow> kuint32_t \<Rightarrow> 's ktime_scheme \<Rightarrow> 's ktime_scheme" where
  "setup_timer t fn d s =
     (if \<not> isValid t then s
      else s\<lparr>timer_links := init_list_head (TimerLink t) (timer_links s),
             timers := (timers s)(t := (timers s t)\<lparr>timer_entry := fn, timer_data := d\<rparr>)\<rparr>)"

definition add_timer :: "kuaddr_t \<Rightarrow> 's ktime_scheme \<Rightarrow> 's ktime_scheme" where
  "add_timer t s =
     (if \<not> isValid t then s
      else s\<lparr>timer_links := list_head_add_tail TimerHead (TimerLink t) (timer_links s)\<rparr>)"

definition del_timer :: "kuaddr_t \<Rightarrow> 's ktime_scheme \<Rightarrow> 's ktime_scheme option" where
  "del_timer t s =
     (if \<not> isValid t then Some s
      else case list_head_del_safe TimerHead (TimerLink t) (timer_links s) of
             None \<Rightarrow> None
           | Some h \<Rightarrow> Some (s\<lparr>timer_links := h\<rparr>))"

definition find_timer :: "kuaddr_t \<Rightarrow> 's ktime_scheme \<Rightarrow> bool option" where
  "find_timer t s =
     (case foreach_next (timer_links s) TimerHead (\<lambda>n. n = TimerLink t) of
        None \<Rightarrow> None
      | Some r \<Rightarrow> Some (r \<noteq> None))"

definition mod_timer :: "kuaddr_t \<Rightarrow> kutime_t \<Rightarrow> 's ktime_scheme \<Rightarrow> 's ktime_scheme option" where
  "mod_timer t e s =
     (if \<not> isValid t then Some s
      else let s = s\<lparr>timers := (timers s)(t := (timers s t)\<lparr>expires := e\<rparr>)\<rparr>
           in case find_timer t s of
                None \<Rightarrow> None
              | Some found \<Rightarrow> Some (if found then s else add_timer t s))"

text \<open>One timer of the walk of \<^verbatim>\<open>do_timer_event\<close>; the next node is read after the timeout
  function has returned.\<close>

definition timer_fire ::
  "(kuaddr_t \<Rightarrow> kuint32_t \<Rightarrow> 's ktime_scheme \<Rightarrow> 's ktime_scheme option) \<Rightarrow>
     kuaddr_t \<Rightarrow> 's ktime_scheme \<Rightarrow> 's ktime_scheme option" where
  "timer_fire call t s =
     (let tm = timers s t
      in if expires tm = 0 then Some s
         else if mrt_time_after (jiffies s) (expires tm)
         then (if timer_entry tm \<noteq> 0 then call (timer_entry tm) (timer_data tm) s else Some s)
         else Some s)"

partial_function (option) timer_walk ::
  "(kuaddr_t \<Rightarrow> kuint32_t \<Rightarrow> 's ktime_scheme \<Rightarrow> 's ktime_scheme option) \<Rightarrow>
     timer_node \<Rightarrow> 's ktime_scheme \<Rightarrow> 's ktime_scheme option" where
  "timer_walk call pos s =
     (case pos of
        TimerHead \<Rightarrow> Some s
      | TimerLink t \<Rightarrow>
          Option.bind (timer_fire call t s) (\<lambda>s.
            timer_walk call (sprt_next (timer_links s) pos) s))"

definition do_timer_event ::
  "(kuaddr_t \<Rightarrow> kuint32_t \<Rightarrow> 's ktime_scheme \<Rightarrow> 's ktime_scheme option) \<Rightarrow>
     's ktime_scheme \<Rightarrow> 's ktime_scheme option" where
  "do_timer_event call s = timer_walk call (sprt_next (timer_links s) TimerHead) s"

section \<open>The timer list\<close>

definition timer_ring :: "'s ktime_scheme \<Rightarrow> kuaddr_t list \<Rightarrow> bool" where
  "timer_ring s ts \<longleftrightarrow> dlist (timer_links s) TimerHead (map TimerLink ts)"

lemma timer_ring_distinct: "timer_ring s ts \<Longrightarrow> distinct ts"
  by (auto simp: timer_ring_def dlist_def distinct_map)

lemma find_TimerLink: "find (\<lambda>n. n = TimerLink t) (map TimerLink ts) \<noteq> None \<longleftrightarrow> t \<in> set ts"
  by (auto simp: find_None_iff)

lemma find_timer_ring: "timer_ring s ts \<Longrightarrow> find_timer t s = Some (t \<in> set ts)"
  using find_TimerLink [of t ts]
  by (auto simp: find_timer_def timer_ring_def foreach_next_dlist)

lemma add_timer_ring:
  assumes "timer_ring s ts" "t \<notin> set ts" "isValid t"
  shows "timer_ring (add_timer t s) (ts @ [t])"
  using assms dlist_add_tail [of "timer_links s" TimerHead "map TimerLink ts" "TimerLink t"]
  by (auto simp: timer_ring_def add_timer_def)

lemma del_timer_ring:
  assumes "timer_ring s ts" "isValid t"
  shows "\<exists>s'. del_timer t s = Some s' \<and> timer_ring s' (removeAll t ts) \<and> timers s' = timers s"
proof (cases "t \<in> set ts")
  case True
  then obtain us vs where ts: "ts = us @ t # vs" by (auto simp: in_set_conv_decomp)
  with timer_ring_distinct [OF assms(1)] have "removeAll t ts = us @ vs" by auto
  with ts dlist_del [of "timer_links s" TimerHead "map TimerLink us" "TimerLink t" "map TimerLink vs"] assms
  show ?thesis
    by (auto simp: del_timer_def timer_ring_def list_head_del_safe_dlist)
next
  case False
  then have "TimerLink t \<notin> set (map TimerLink ts)" by auto
  with False assms show ?thesis
    by (auto simp: del_timer_def timer_ring_def list_head_del_safe_dlist)
qed

lemma mod_timer_ring:
  assumes "timer_ring s ts" "isValid t"
  shows "\<exists>s'. mod_timer t e s = Some s' \<and>
     timer_ring s' (if t \<in> set ts then ts else ts @ [t]) \<and>
     timers s' = (timers s)(t := (timers s t)\<lparr>expires := e\<rparr>) \<and> jiffies s' = jiffies s"
proof -
  let ?s = "s\<lparr>timers := (timers s)(t := (timers s t)\<lparr>expires := e\<rparr>)\<rparr>"
  have r: "timer_ring ?s ts" using assms(1) by (simp add: timer_ring_def)
  show ?thesis
  proof (cases "t \<in> set ts")
    case True
    then show ?thesis using find_timer_ring [OF r, of t] assms r by (simp add: mod_timer_def)
  next
    case False
    with add_timer_ring [OF r False assms(2)] find_timer_ring [OF r, of t] assms(2)
    show ?thesis by (simp add: mod_timer_def) (simp add: add_timer_def)
  qed
qed

text \<open>The walk, for timeout functions that return and leave the timer list and clock alone.\<close>

definition timer_due :: "'s ktime_scheme \<Rightarrow> kuaddr_t \<Rightarrow> bool" where
  "timer_due s t \<longleftrightarrow>
     expires (timers s t) \<noteq> 0 \<and> expires (timers s t) < jiffies s \<and> timer_entry (timers s t) \<noteq> 0"

definition benign :: "(kuaddr_t \<Rightarrow> kuint32_t \<Rightarrow> 's ktime_scheme \<Rightarrow> 's ktime_scheme) \<Rightarrow> bool" where
  "benign f \<longleftrightarrow> (\<forall>e d s. timer_links (f e d s) = timer_links s \<and> timers (f e d s) = timers s \<and>
                          jiffies (f e d s) = jiffies s)"

lemma benignD [simp]:
  "benign f \<Longrightarrow> timer_links (f e d s) = timer_links s"
  "benign f \<Longrightarrow> timers (f e d s) = timers s"
  "benign f \<Longrightarrow> jiffies (f e d s) = jiffies s"
  by (simp_all add: benign_def)

definition run_timer ::
  "(kuaddr_t \<Rightarrow> kuint32_t \<Rightarrow> 's ktime_scheme \<Rightarrow> 's ktime_scheme) \<Rightarrow>
     kuaddr_t \<Rightarrow> 's ktime_scheme \<Rightarrow> 's ktime_scheme" where
  "run_timer f t s =
     (if timer_due s t then f (timer_entry (timers s t)) (timer_data (timers s t)) s else s)"

lemma run_timer_frame [simp]:
  "benign f \<Longrightarrow> timer_links (run_timer f t s) = timer_links s"
  "benign f \<Longrightarrow> timers (run_timer f t s) = timers s"
  "benign f \<Longrightarrow> jiffies (run_timer f t s) = jiffies s"
  by (simp_all add: run_timer_def)

lemma timer_fire_run: "timer_fire (\<lambda>e d s. Some (f e d s)) t s = Some (run_timer f t s)"
  by (simp add: timer_fire_def run_timer_def timer_due_def mrt_time_after_def Let_def)

lemma timer_walk_fold:
  assumes "benign f"
  shows "linked (timer_links s) a (map TimerLink ts) TimerHead \<Longrightarrow>
     timer_walk (\<lambda>e d s. Some (f e d s)) (sprt_next (timer_links s) a) s = Some (fold (run_timer f) ts s)"
proof (induction ts arbitrary: a s)
  case Nil
  then show ?case by (simp add: timer_walk.simps)
next
  case (Cons t ts)
  then have n: "sprt_next (timer_links s) a = TimerLink t" by simp
  have "linked (timer_links (run_timer f t s)) (TimerLink t) (map TimerLink ts) TimerHead"
    using Cons.prems assms by simp
  from Cons.IH [OF this] n show ?case
    by (simp add: timer_walk.simps [of _ "TimerLink t"] timer_fire_run)
qed

section \<open>Waiting\<close>

lemma wait_loop_returns:
  "\<exists>s'. wait_loop count s = Some s' \<and> jiffies s' = max count (jiffies s) \<and>
        jiffies_out s' = jiffies_out s"
proof (induction "unat (count - jiffies s)" arbitrary: s rule: less_induct)
  case less
  show ?case
  proof (cases "jiffies s < count")
    case True
    let ?s = "get_time_counter s"
    have nm: "jiffies s \<noteq> - 1" using True by (metis word_n1_ge leD)
    then have up: "\<not> jiffies s \<ge> - 1" by (metis word_n1_ge order_antisym_conv)
    have nz: "jiffies s + 1 \<noteq> 0" using nm by (metis add_eq_0_iff2)
    have j: "jiffies ?s = jiffies s + 1" "jiffies_out ?s = jiffies_out s"
      using up nz by (simp_all add: get_time_counter_def Let_def)
    have le: "jiffies s + 1 \<le> count" using True by (simp add: inc_le)
    have "unat (count - jiffies ?s) < unat (count - jiffies s)"
      using True j le unatSuc [of "jiffies s"] nz unat_sub [OF less_imp_le [OF True]]
      by (simp add: unat_sub word_less_nat_alt add.commute)
    from less [OF this] j le True show ?thesis
      by (subst wait_loop.simps) (auto simp: mrt_time_after_def max_def)
  next
    case False
    then show ?thesis
      by (subst wait_loop.simps) (auto simp: mrt_time_after_def max_def)
  qed
qed

lemma unat_div_word: "unat (a div b) = unat a div unat (b :: 'a::len word)"
  by (simp add: unat_div)

lemma msecs_to_jiffies_exact:
  assumes "unat m \<le> 42949672"
  shows "unat (msecs_to_jiffies m) = unat m div 10"
proof -
  have "unat (m * 100) = unat m * 100"
    using assms by (subst unat_mult_lem [THEN iffD1]) auto
  then show ?thesis by (simp add: msecs_to_jiffies_def unat_div)
qed

section \<open>Properties\<close>

text \<open>Converting milliseconds to a \<^verbatim>\<open>time_spec\<close> and back loses nothing, for every 32-bit
  number of milliseconds, and the nanoseconds part is always below one second.\<close>

lemma time_spec_roundtrip:
  "time_spec_to_msecs (msecs_to_time_spec m) = m \<and> tv_nsec (msecs_to_time_spec m) < 1000000000"
proof -
  let ?r = "m mod 1000"
  have r: "unat ?r < 1000" by (simp add: unat_mod)
  then have n: "unat (?r * 1000000) = unat ?r * 1000000"
    using unat_mult_lem [of ?r 1000000] by simp
  have "unat (?r * 1000000 div 1000 div 1000) = unat ?r" by (simp add: unat_div n)
  then have d: "?r * 1000000 div 1000 div 1000 = ?r" by (simp add: word_unat_eq_iff)
  have s: "tv_nsec (msecs_to_time_spec m) = ?r * 1000000"
    by (simp only: msecs_to_time_spec_def Let_def minus_div_mult_eq_mod time_spec.simps) simp
  have "time_spec_to_msecs (msecs_to_time_spec m) = m div 1000 * 1000 + ?r"
    using d s by (simp add: time_spec_to_msecs_def) (simp add: msecs_to_time_spec_def Let_def)
  moreover have "?r * 1000000 < 1000000000" using n r by (simp add: word_less_nat_alt)
  ultimately show ?thesis using s div_mult_mod_eq [of m 1000] by metis
qed

text \<open>A busy wait of \<^verbatim>\<open>wait_msecs\<close> always returns; below 42949673 ms, and while the target
  does not pass the end of the tick counter, it returns exactly when a tenth of the milliseconds
  has gone by in ticks of 10 ms.\<close>

lemma wait_msecs_exact:
  assumes "unat m \<le> 42949672" and "unat (jiffies s) + unat m div 10 < 2 ^ 32"
  shows "\<exists>s'. wait_msecs m s = Some s' \<and> unat (jiffies s') = unat (jiffies s) + unat m div 10"
proof -
  let ?c = "jiffies s + msecs_to_jiffies m"
  have c: "unat ?c = unat (jiffies s) + unat m div 10"
    using assms unat_add_lem [of "jiffies s" "msecs_to_jiffies m"]
    by (simp add: msecs_to_jiffies_exact)
  then have "jiffies s \<le> ?c" by (simp add: word_le_nat_alt)
  then have "max ?c (jiffies s) = ?c" by (rule max_absorb1)
  with c wait_loop_returns [of ?c s] show ?thesis by (auto simp: wait_msecs_def)
qed

lemma wait_msecs_exact_witness:
  "\<exists>s'. wait_msecs 250
      \<lparr>jiffies = 86399999, jiffies_out = 0, g_simple_delay_timer = 0, g_simple_timeout_cnt = 0,
       g_delay_timer_counter = 0, timer_links = \<lparr>sprt_prev = id, sprt_next = id\<rparr>,
       timers = (\<lambda>_. \<lparr>expires = 0, timer_entry = 0, timer_data = 0\<rparr>)\<rparr> = Some s' \<and>
     unat (jiffies s') = 86400024"
  using wait_msecs_exact [of 250
      "\<lparr>jiffies = 86399999, jiffies_out = 0, g_simple_delay_timer = 0, g_simple_timeout_cnt = 0,
       g_delay_timer_counter = 0, timer_links = \<lparr>sprt_prev = id, sprt_next = id\<rparr>,
       timers = (\<lambda>_. \<lparr>expires = 0, timer_entry = 0, timer_data = 0\<rparr>)\<rparr>"]
  by simp

text \<open>Re-arming a timer keeps the global list well formed, with the timer on it exactly once
  and the others in their places, and deleting it afterwards takes exactly that timer off.\<close>

lemma mod_del_timer_ring:
  assumes "timer_ring s ts" and "isValid t"
  shows "\<exists>s1 s2. mod_timer t e s = Some s1 \<and> del_timer t s1 = Some s2 \<and>
     timer_ring s1 (if t \<in> set ts then ts else ts @ [t]) \<and>
     expires (timers s1 t) = e \<and> (\<forall>u. u \<noteq> t \<longrightarrow> timers s1 u = timers s u) \<and>
     find_timer t s1 = Some True \<and>
     timer_ring s2 (removeAll t ts) \<and> find_timer t s2 = Some False"
proof -
  obtain s1 where s1: "mod_timer t e s = Some s1"
      "timer_ring s1 (if t \<in> set ts then ts else ts @ [t])"
      "timers s1 = (timers s)(t := (timers s t)\<lparr>expires := e\<rparr>)"
    using mod_timer_ring [OF assms] by blast
  obtain s2 where s2: "del_timer t s1 = Some s2"
      "timer_ring s2 (removeAll t (if t \<in> set ts then ts else ts @ [t]))"
    using del_timer_ring [OF s1(2) assms(2)] by blast
  have r: "timer_ring s2 (removeAll t ts)" using s2(2) by (simp split: if_splits)
  have f: "find_timer t s1 = Some True" using find_timer_ring [OF s1(2), of t] by simp
  have g: "find_timer t s2 = Some False" using find_timer_ring [OF r, of t] by simp
  have x: "expires (timers s1 t) = e" "\<forall>u. u \<noteq> t \<longrightarrow> timers s1 u = timers s u"
    using s1(3) by simp_all
  show ?thesis using s1(1,2) s2(1) r f g x by blast
qed

lemma mod_del_timer_ring_witness:
  "\<exists>s s1 s2. timer_ring (s :: ktime) [] \<and> mod_timer 4096 7 s = Some s1 \<and> timer_ring s1 [4096] \<and>
     del_timer 4096 s1 = Some s2 \<and> timer_ring s2 []"
proof -
  let ?s = "\<lparr>jiffies = 0, jiffies_out = 0, g_simple_delay_timer = 0, g_simple_timeout_cnt = 0,
       g_delay_timer_counter = 0, timer_links = \<lparr>sprt_prev = id, sprt_next = id\<rparr>,
       timers = (\<lambda>_. \<lparr>expires = 0, timer_entry = 0, timer_data = 0\<rparr>)\<rparr> :: ktime"
  have r: "timer_ring ?s []" by (simp add: timer_ring_def mrt_list_head_empty_def)
  have v: "isValid 4096" by (simp add: isValid_def IS_ERR_def)
  from mod_del_timer_ring [OF r v, of 7] r show ?thesis by auto
qed



end
