(* ===== verification/Sched.thy ===== *)
theory Sched
  imports Locks Kernel_Time "HOL-Library.Monad_Syntax"
begin

text \<open>
  The scheduler: \<^verbatim>\<open>kernel/sched.c\<close>, the thread structure and signal helpers of
  \<^verbatim>\<open>include/kernel/sched.h\<close> and the attribute helpers of \<^verbatim>\<open>include/kernel/thread.h\<close>.

  Threads and attributes are known by their addresses, 0 being the null pointer.  The list
  nodes are the heads of the ready, suspend and sleep lists and the \<^verbatim>\<open>sgrt_link\<close> of every thread.
  The record \<open>sched\<close> extends the clock with the scheduler table, the static variables of
  \<^verbatim>\<open>sched.c\<close> and the memory of threads and attributes.  Operations return an option: \<open>None\<close> is a
  walk or a lock that never ends, a null dereference or an access outside \<^verbatim>\<open>sprt_tid_array\<close>.
  The model is of the shipped configuration, \<^verbatim>\<open>CONFIG_ROLL_POLL\<close> off: lists sorted by priority.

  The switch of register contexts is assembler; its effect on this state is to reload the time
  slice of the new thread and to record that the first switch has happened.
\<close>

section \<open>State\<close>

datatype sched_node = ReadyHead | SuspendHead | SleepHead | Link kuaddr_t

abbreviation (input) NR_THREAD_NONE :: kuint32_t where "NR_THREAD_NONE \<equiv> 0"
abbreviation (input) NR_THREAD_RUNNING :: kuint32_t where "NR_THREAD_RUNNING \<equiv> 1"
abbreviation (input) NR_THREAD_READY :: kuint32_t where "NR_THREAD_READY \<equiv> 2"
abbreviation (input) NR_THREAD_SUSPEND :: kuint32_t where "NR_THREAD_SUSPEND \<equiv> 3"
abbreviation (input) NR_THREAD_SLEEP :: kuint32_t where "NR_THREAD_SLEEP \<equiv> 4"
abbreviation (input) NR_THREAD_STATUS_MAX :: kuint32_t where "NR_THREAD_STATUS_MAX \<equiv> 5"

abbreviation (input) NR_THREAD_SIG_NORMAL :: nat where "NR_THREAD_SIG_NORMAL \<equiv> 5"
abbreviation (input) NR_THREAD_SIG_WAKEUP :: nat where "NR_THREAD_SIG_WAKEUP \<equiv> 6"
abbreviation (input) NR_THREAD_SIG_KILL :: nat where "NR_THREAD_SIG_KILL \<equiv> 7"
abbreviation (input) NR_THREAD_SIG_INTR :: nat where "NR_THREAD_SIG_INTR \<equiv> 8"

abbreviation (input) REAL_THREAD_TID_IDLE :: kuint32_t where "REAL_THREAD_TID_IDLE \<equiv> 0"
abbreviation (input) REAL_THREAD_MAX_NUM :: nat where "REAL_THREAD_MAX_NUM \<equiv> 128"

record real_thread_attr =
  detachstate :: kuint32_t
  schedpolicy :: kuint32_t
  inheritsched :: kuint32_t
  sched_priority :: kuint32_t
  sched_curpriority :: kuint32_t
  mrt_sched_init_budget :: time_spec
  ptr_stack_start :: kuaddr_t
  stack_addr :: kuint32_t
  stacksize :: kuint32_t

record real_thread =
  name :: string
  rt_tid :: kuint32_t
  status :: kuint32_t
  to_status :: kuint32_t
  start_routine :: kuaddr_t
  sprt_attr :: kuaddr_t
  ptr_args :: kuaddr_t
  rt_expires :: kutime_t
  flags :: kuint32_t
  rt_lock :: spin_lock

record sched = ktime +
  links :: "sched_node list_heap"
  threads :: "kuaddr_t \<Rightarrow> real_thread"
  attrs :: "kuaddr_t \<Rightarrow> real_thread_attr"
  cnt_out :: kuint32_t
  sched_cnt :: kuint32_t
  sprt_work :: kuaddr_t
  sprt_tid_array :: "nat \<Rightarrow> kuaddr_t"
  sched_lock :: spin_lock
  the_cpu :: cpu
  thread_schedule_ref :: kuint32_t

text \<open>The addresses a scheduling context is made of.\<close>

datatype context_addr = NullAddr | AddrScheduleRef | AddrStartRoutine kuaddr_t
  | AddrPtrArgs kuaddr_t | AddrStack kuaddr_t

record scheduler_context =
  ctx_entry :: context_addr
  ctx_args :: context_addr
  ctx_first :: context_addr
  next_sp :: context_addr
  prev_sp :: context_addr

definition upd_thread :: "kuaddr_t \<Rightarrow> (real_thread \<Rightarrow> real_thread) \<Rightarrow> 's sched_scheme \<Rightarrow> 's sched_scheme" where
  "upd_thread p f s = s\<lparr>threads := (threads s)(p := f (threads s p))\<rparr>"

definition upd_links :: "(sched_node list_heap \<Rightarrow> sched_node list_heap) \<Rightarrow> 's sched_scheme \<Rightarrow> 's sched_scheme" where
  "upd_links f s = s\<lparr>links := f (links s)\<rparr>"

text \<open>The scheduler lock, and the lock of a thread.\<close>

definition sched_lock_irqsave :: "'s sched_scheme \<Rightarrow> 's sched_scheme option" where
  "sched_lock_irqsave s =
     (case spin_lock_irqsave (sched_lock s) (the_cpu s) of
        None \<Rightarrow> None
      | Some (l, c) \<Rightarrow> Some (s\<lparr>sched_lock := l, the_cpu := c\<rparr>))"

definition sched_unlock_irqrestore :: "'s sched_scheme \<Rightarrow> 's sched_scheme" where
  "sched_unlock_irqrestore s =
     (let (l, c) = spin_unlock_irqrestore (sched_lock s) (the_cpu s)
      in s\<lparr>sched_lock := l, the_cpu := c\<rparr>)"

definition thread_lock_irqsave :: "kuaddr_t \<Rightarrow> 's sched_scheme \<Rightarrow> 's sched_scheme option" where
  "thread_lock_irqsave p s =
     (case spin_lock_irqsave (rt_lock (threads s p)) (the_cpu s) of
        None \<Rightarrow> None
      | Some (l, c) \<Rightarrow> Some (upd_thread p (\<lambda>t. t\<lparr>rt_lock := l\<rparr>) (s\<lparr>the_cpu := c\<rparr>)))"

definition thread_unlock_irqrestore :: "kuaddr_t \<Rightarrow> 's sched_scheme \<Rightarrow> 's sched_scheme" where
  "thread_unlock_irqrestore p s =
     (let (l, c) = spin_unlock_irqrestore (rt_lock (threads s p)) (the_cpu s)
      in upd_thread p (\<lambda>t. t\<lparr>rt_lock := l\<rparr>) (s\<lparr>the_cpu := c\<rparr>))"

section \<open>The thread table\<close>

definition SCHED_THREAD_HANDLER :: "kuint32_t \<Rightarrow> 's sched_scheme \<Rightarrow> kuaddr_t option" where
  "SCHED_THREAD_HANDLER tid s =
     (if unat tid < REAL_THREAD_MAX_NUM then Some (sprt_tid_array s (unat tid)) else None)"

text \<open>A handler that is dereferenced.\<close>

definition thread_of :: "kuint32_t \<Rightarrow> 's sched_scheme \<Rightarrow> kuaddr_t option" where
  "thread_of tid s =
     (case SCHED_THREAD_HANDLER tid s of
        None \<Rightarrow> None
      | Some p \<Rightarrow> if p = 0 then None else Some p)"

definition get_current_thread :: "'s sched_scheme \<Rightarrow> kuaddr_t" where
  "get_current_thread s = sprt_work s"

definition get_thread_handle :: "kuint32_t \<Rightarrow> 's sched_scheme \<Rightarrow> kuaddr_t option" where
  "get_thread_handle tid s = SCHED_THREAD_HANDLER tid s"

text \<open>The running thread, dereferenced.\<close>

definition running_thread :: "'s sched_scheme \<Rightarrow> kuaddr_t option" where
  "running_thread s = (if sprt_work s = 0 then None else Some (sprt_work s))"

definition SET_THREAD_STATUS :: "kuint32_t \<Rightarrow> kuint32_t \<Rightarrow> 's sched_scheme \<Rightarrow> 's sched_scheme option" where
  "SET_THREAD_STATUS tid v s =
     (if v < NR_THREAD_STATUS_MAX
      then do { p \<leftarrow> thread_of tid s; Some (upd_thread p (\<lambda>t. t\<lparr>to_status := v\<rparr>) s) }
      else Some s)"

definition SYNC_THREAD_STATUS :: "kuint32_t \<Rightarrow> kuint32_t \<Rightarrow> 's sched_scheme \<Rightarrow> 's sched_scheme option" where
  "SYNC_THREAD_STATUS tid v s =
     (if v < NR_THREAD_STATUS_MAX
      then do { p \<leftarrow> thread_of tid s;
                Some (upd_thread p (\<lambda>t. t\<lparr>status := v, to_status := NR_THREAD_NONE\<rparr>) s) }
      else Some s)"

definition GET_THREAD_STATUS :: "kuint32_t \<Rightarrow> 's sched_scheme \<Rightarrow> kuint32_t option" where
  "GET_THREAD_STATUS tid s = do { p \<leftarrow> thread_of tid s; Some (status (threads s p)) }"

text \<open>\<open>nm\<close> is the text at the pointer, or \<open>None\<close> for a null pointer.\<close>

definition real_thread_set_name :: "string option \<Rightarrow> 's sched_scheme \<Rightarrow> 's sched_scheme option" where
  "real_thread_set_name nm s =
     (case nm of
        None \<Rightarrow> Some s
      | Some n \<Rightarrow>
          if n = [] then Some s
          else do { p \<leftarrow> running_thread s;
                    Some (upd_thread p (\<lambda>t. t\<lparr>name := take 31 n\<rparr>) s) })"

definition real_thread_set_state :: "kuaddr_t \<Rightarrow> kuint32_t \<Rightarrow> 's sched_scheme \<Rightarrow> 's sched_scheme option" where
  "real_thread_set_state p state s = SET_THREAD_STATUS (rt_tid (threads s p)) state s"

text \<open>The search for a free thread number; \<open>k\<close> is how many numbers are left to try.\<close>

fun unused_tid_loop :: "nat \<Rightarrow> kuint32_t \<Rightarrow> 's sched_scheme \<Rightarrow> int option" where
  "unused_tid_loop 0 i s = Some (- ER_MORE)"
| "unused_tid_loop (Suc k) i s =
     do { p \<leftarrow> SCHED_THREAD_HANDLER i s;
          if p = 0 then Some (sint i) else unused_tid_loop k (i + 1) s }"

definition get_unused_tid_from_scheduler ::
  "kuint32_t \<Rightarrow> kuint32_t \<Rightarrow> 's sched_scheme \<Rightarrow> (int \<times> 's sched_scheme) option" where
  "get_unused_tid_from_scheduler i_start count s =
     do { s \<leftarrow> sched_lock_irqsave s;
          r \<leftarrow> unused_tid_loop (unat (i_start + count) - unat i_start) i_start s;
          Some (r, sched_unlock_irqrestore s) }"

definition scheduler_record :: "'s sched_scheme \<Rightarrow> 's sched_scheme" where
  "scheduler_record s =
     (let old = sched_cnt s; s = s\<lparr>sched_cnt := old + 1\<rparr>
      in if old \<ge> - 1 then s\<lparr>sched_cnt := 0, cnt_out := cnt_out s + 1\<rparr> else s)"

definition scheduler_stats_get :: "'s sched_scheme \<Rightarrow> (kuint64_t \<times> 's sched_scheme) option" where
  "scheduler_stats_get s =
     do { s \<leftarrow> sched_lock_irqsave s;
          let sum = ucast ((- 1) * cnt_out s + sched_cnt s);
          Some (sum, sched_unlock_irqrestore s) }"

definition is_ready_thread_empty :: "'s sched_scheme \<Rightarrow> bool" where
  "is_ready_thread_empty s = mrt_list_head_empty (links s) ReadyHead"

definition is_suspend_thread_empty :: "'s sched_scheme \<Rightarrow> bool" where
  "is_suspend_thread_empty s = mrt_list_head_empty (links s) SuspendHead"

definition is_sleep_thread_empty :: "'s sched_scheme \<Rightarrow> bool" where
  "is_sleep_thread_empty s = mrt_list_head_empty (links s) SleepHead"

text \<open>The thread a node is embedded in; another list's head is embedded in none.\<close>

definition node_thread :: "sched_node \<Rightarrow> kuaddr_t option" where
  "node_thread n = (case n of Link p \<Rightarrow> Some p | _ \<Rightarrow> None)"

definition first_entry :: "sched_node \<Rightarrow> 's sched_scheme \<Rightarrow> kuaddr_t option" where
  "first_entry head s =
     (if mrt_list_head_empty (links s) head then Some 0
      else node_thread (sprt_next (links s) head))"

definition get_first_ready_thread :: "'s sched_scheme \<Rightarrow> kuaddr_t option" where
  "get_first_ready_thread s = first_entry ReadyHead s"

definition get_first_suspend_thread :: "'s sched_scheme \<Rightarrow> kuaddr_t option" where
  "get_first_suspend_thread s = first_entry SuspendHead s"

definition get_first_sleep_thread :: "'s sched_scheme \<Rightarrow> kuaddr_t option" where
  "get_first_sleep_thread s = first_entry SleepHead s"

section \<open>Moving threads between lists\<close>

definition real_thread_get_priority :: "kuaddr_t \<Rightarrow> 's sched_scheme \<Rightarrow> kuint32_t" where
  "real_thread_get_priority a s = sched_curpriority (attrs s a)"

definition THREAD_IS_LOW_PRIO :: "kuint32_t \<Rightarrow> kuint32_t \<Rightarrow> bool" where
  "THREAD_IS_LOW_PRIO prio prio2 \<longleftrightarrow> prio2 \<le> prio"

definition thread_prio :: "kuaddr_t \<Rightarrow> 's sched_scheme \<Rightarrow> kuint32_t" where
  "thread_prio p s = real_thread_get_priority (sprt_attr (threads s p)) s"

definition find_thread_from_scheduler ::
  "kuint32_t \<Rightarrow> sched_node \<Rightarrow> 's sched_scheme \<Rightarrow> int option" where
  "find_thread_from_scheduler tid head s =
     do { p \<leftarrow> SCHED_THREAD_HANDLER tid s;
          r \<leftarrow> foreach_next (links s) head (\<lambda>n. n = Link p);
          Some (if r \<noteq> None then sint tid else - ER_NOTFOUND) }"

definition schedule_add_status_list ::
  "kuaddr_t \<Rightarrow> sched_node \<Rightarrow> 's sched_scheme \<Rightarrow> (int \<times> 's sched_scheme) option" where
  "schedule_add_status_list p head s =
     (if p = 0 then Some (- ER_FAULT, s)
      else let iPriority = thread_prio p s in
        if mrt_list_head_empty (links s) head
        then Some (ER_NORMAL, upd_links (list_head_add_head head (Link p)) s)
        else do {
          r \<leftarrow> find_thread_from_scheduler (rt_tid (threads s p)) head s;
          if 0 \<le> r then Some (ER_NORMAL, s)
          else do {
            any \<leftarrow> foreach_prev (links s) head (\<lambda>n. case n of
                 Link q \<Rightarrow> THREAD_IS_LOW_PRIO iPriority (thread_prio q s) | _ \<Rightarrow> True);
            case any of
              None \<Rightarrow> Some (ER_NORMAL, upd_links (list_head_add_head head (Link p)) s)
            | Some n \<Rightarrow> do { q \<leftarrow> node_thread n;
                            Some (ER_NORMAL, upd_links (list_head_add_head (Link q) (Link p)) s) } } })"

definition schedule_del_status_list ::
  "kuaddr_t \<Rightarrow> sched_node \<Rightarrow> 's sched_scheme \<Rightarrow> 's sched_scheme option" where
  "schedule_del_status_list p head s =
     (if p = 0 then Some s
      else do { h \<leftarrow> list_head_del_safe head (Link p) (links s);
                Some (upd_links (init_list_head (Link p)) (s\<lparr>links := h\<rparr>)) })"

text \<open>The three pairs of add and detach functions differ in the status and the list only; \<open>st\<close> and
  \<open>head\<close> are theirs.\<close>

definition schedule_add_list ::
  "kuint32_t \<Rightarrow> sched_node \<Rightarrow> kuint32_t \<Rightarrow> 's sched_scheme \<Rightarrow> (int \<times> 's sched_scheme) option" where
  "schedule_add_list st head tid s =
     do { p \<leftarrow> SCHED_THREAD_HANDLER tid s;
          if p = 0 then Some (- ER_FAULT, s)
          else if st = status (threads s p) then Some (- ER_UNVALID, s)
          else schedule_add_status_list p head s }"

definition schedule_detach_list ::
  "kuint32_t \<Rightarrow> sched_node \<Rightarrow> kuint32_t \<Rightarrow> 's sched_scheme \<Rightarrow> (int \<times> 's sched_scheme) option" where
  "schedule_detach_list st head tid s =
     do { p \<leftarrow> SCHED_THREAD_HANDLER tid s;
          if p = 0 then Some (- ER_FAULT, s)
          else if st \<noteq> status (threads s p) then Some (- ER_UNVALID, s)
          else do { s \<leftarrow> schedule_del_status_list p head s; Some (ER_NORMAL, s) } }"

definition schedule_add_ready_list :: "kuint32_t \<Rightarrow> 's sched_scheme \<Rightarrow> (int \<times> 's sched_scheme) option" where
  "schedule_add_ready_list = schedule_add_list NR_THREAD_READY ReadyHead"

definition schedule_detach_ready_list :: "kuint32_t \<Rightarrow> 's sched_scheme \<Rightarrow> (int \<times> 's sched_scheme) option" where
  "schedule_detach_ready_list = schedule_detach_list NR_THREAD_READY ReadyHead"

definition schedule_add_suspend_list :: "kuint32_t \<Rightarrow> 's sched_scheme \<Rightarrow> (int \<times> 's sched_scheme) option" where
  "schedule_add_suspend_list = schedule_add_list NR_THREAD_SUSPEND SuspendHead"

definition schedule_detach_suspend_list :: "kuint32_t \<Rightarrow> 's sched_scheme \<Rightarrow> (int \<times> 's sched_scheme) option" where
  "schedule_detach_suspend_list = schedule_detach_list NR_THREAD_SUSPEND SuspendHead"

definition schedule_add_sleep_list :: "kuint32_t \<Rightarrow> 's sched_scheme \<Rightarrow> (int \<times> 's sched_scheme) option" where
  "schedule_add_sleep_list = schedule_add_list NR_THREAD_SLEEP SleepHead"

definition schedule_detach_sleep_list :: "kuint32_t \<Rightarrow> 's sched_scheme \<Rightarrow> (int \<times> 's sched_scheme) option" where
  "schedule_detach_sleep_list = schedule_detach_list NR_THREAD_SLEEP SleepHead"

definition schedule_despoil_work_role :: "kuint32_t \<Rightarrow> 's sched_scheme \<Rightarrow> (int \<times> 's sched_scheme) option" where
  "schedule_despoil_work_role tid s =
     do { p \<leftarrow> SCHED_THREAD_HANDLER tid s;
          if p = 0 then Some (- ER_FAULT, s)
          else if NR_THREAD_READY \<noteq> status (threads s p) then Some (- ER_UNVALID, s)
          else let running = sprt_work s in
            if running \<noteq> 0
            then do { (retval, s) \<leftarrow> schedule_add_ready_list (rt_tid (threads s running)) s;
                      if retval < 0 then Some (retval, s)
                      else do { s \<leftarrow> SYNC_THREAD_STATUS (rt_tid (threads s running)) NR_THREAD_READY s;
                                Some (ER_NORMAL, s\<lparr>sprt_work := p\<rparr>) } }
            else Some (ER_NORMAL, s\<lparr>sprt_work := p\<rparr>) }"

definition schedule_reinstall_work_role :: "kuint32_t \<Rightarrow> 's sched_scheme \<Rightarrow> (int \<times> 's sched_scheme) option" where
  "schedule_reinstall_work_role tid s =
     do { r \<leftarrow> running_thread s;
          if tid \<noteq> rt_tid (threads s r) then Some (- ER_UNVALID, s)
          else if mrt_list_head_empty (links s) ReadyHead then Some (- ER_FAULT, s)
          else do {
            p \<leftarrow> first_entry ReadyHead s;
            if p \<noteq> 0
            then do { (_, s) \<leftarrow> schedule_detach_ready_list (rt_tid (threads s p)) s;
                      s \<leftarrow> SYNC_THREAD_STATUS (rt_tid (threads s p)) NR_THREAD_RUNNING (s\<lparr>sprt_work := p\<rparr>);
                      Some (ER_NORMAL, s) }
            else Some (- ER_FAILD, s) } }"

text \<open>\<^verbatim>\<open>schedule_thread_switch\<close>: the two switches on the old and the new status, and its two exits.\<close>

definition switch_leave :: "kuint32_t \<Rightarrow> kuint32_t \<Rightarrow> 's sched_scheme \<Rightarrow> (int \<times> 's sched_scheme) option" where
  "switch_leave src tid s =
     (if src = NR_THREAD_RUNNING then schedule_reinstall_work_role tid s
      else if src = NR_THREAD_READY
      then do { (_, s) \<leftarrow> schedule_detach_ready_list tid s; Some (ER_NORMAL, s) }
      else if src = NR_THREAD_SUSPEND
      then do { (_, s) \<leftarrow> schedule_detach_suspend_list tid s; Some (ER_NORMAL, s) }
      else if src = NR_THREAD_SLEEP
      then do { (_, s) \<leftarrow> schedule_detach_sleep_list tid s; Some (ER_NORMAL, s) }
      else Some (ER_NORMAL, s))"

definition switch_enter :: "kuint32_t \<Rightarrow> kuint32_t \<Rightarrow> 's sched_scheme \<Rightarrow> (int \<times> 's sched_scheme) option" where
  "switch_enter dst tid s =
     (if dst = NR_THREAD_RUNNING then schedule_despoil_work_role tid s
      else if dst = NR_THREAD_READY then schedule_add_ready_list tid s
      else if dst = NR_THREAD_SUSPEND then schedule_add_suspend_list tid s
      else if dst = NR_THREAD_SLEEP then schedule_add_sleep_list tid s
      else Some (- ER_ERROR, s))"

definition switch_fail :: "kuint32_t \<Rightarrow> kuint32_t \<Rightarrow> 's sched_scheme \<Rightarrow> (int \<times> 's sched_scheme) option" where
  "switch_fail src tid s = do { s \<leftarrow> SYNC_THREAD_STATUS tid src s; Some (- ER_UNVALID, s) }"

definition switch_finish :: "kuint32_t \<Rightarrow> kuint32_t \<Rightarrow> 's sched_scheme \<Rightarrow> (int \<times> 's sched_scheme) option" where
  "switch_finish dst tid s =
     do { (retval, s) \<leftarrow> switch_enter dst tid s;
          if retval < 0 then Some (retval, s)
          else if sprt_work s = 0 then Some (retval, s)
          else do { s \<leftarrow> SYNC_THREAD_STATUS tid dst s; Some (ER_NORMAL, s) } }"

definition schedule_thread_switch :: "kuint32_t \<Rightarrow> 's sched_scheme \<Rightarrow> (int \<times> 's sched_scheme) option" where
  "schedule_thread_switch tid s =
     do { p \<leftarrow> thread_of tid s;
          let src = status (threads s p);
          let dst = to_status (threads s p);
          if src = dst \<or> dst \<ge> NR_THREAD_STATUS_MAX then switch_fail src tid s
          else if tid = REAL_THREAD_TID_IDLE \<and> dst \<noteq> NR_THREAD_RUNNING \<and> dst \<noteq> NR_THREAD_READY
          then switch_fail src tid s
          else do {
            (r, s) \<leftarrow> switch_leave src tid s;
            if r \<noteq> 0 then switch_fail src tid s else switch_finish dst tid s } }"

section \<open>Registration and scheduling\<close>

definition decimal :: "kuint32_t \<Rightarrow> string" where
  "decimal n = map (\<lambda>d. char_of (48 + d)) (rev (ndigits 10 (unat n)))"

definition register_new_thread ::
  "kuaddr_t \<Rightarrow> kuint32_t \<Rightarrow> 's sched_scheme \<Rightarrow> (int \<times> 's sched_scheme) option" where
  "register_new_thread p tid s =
     do { handler \<leftarrow> SCHED_THREAD_HANDLER tid s;
          if handler \<noteq> 0 then Some (- ER_UNVALID, s)
          else if stack_addr (attrs s (sprt_attr (threads s p))) = 0 then Some (- ER_NOMEM, s)
          else do {
            s \<leftarrow> sched_lock_irqsave s;
            let s = s\<lparr>sprt_tid_array := (sprt_tid_array s)(unat tid := p)\<rparr>;
            let s = upd_links (init_list_head (Link p)) s;
            let s = upd_thread p (\<lambda>t. t\<lparr>rt_lock := spin_lock_init (rt_lock t),
                                        name := ''thread-'' @ decimal tid @ [CHR 0x0A]\<rparr>) s;
            (retval, s) \<leftarrow> schedule_add_ready_list tid s;
            if retval < 0
            then Some (retval, sched_unlock_irqrestore
                         (s\<lparr>sprt_tid_array := (sprt_tid_array s)(unat tid := 0)\<rparr>))
            else do { s \<leftarrow> SYNC_THREAD_STATUS tid NR_THREAD_READY s;
                      Some (ER_NORMAL, sched_unlock_irqrestore s) } } }"

definition real_thread_get_sched_msecs :: "kuaddr_t \<Rightarrow> 's sched_scheme \<Rightarrow> kuint32_t" where
  "real_thread_get_sched_msecs a s = time_spec_to_msecs (mrt_sched_init_budget (attrs s a))"

definition real_thread_init_before :: "'s sched_scheme \<Rightarrow> 's sched_scheme option" where
  "real_thread_init_before s =
     do { p \<leftarrow> running_thread s;
          let milseconds = real_thread_get_sched_msecs (sprt_attr (threads s p)) s;
          Some (upd_thread p (\<lambda>t. t\<lparr>rt_expires := jiffies s + msecs_to_jiffies milseconds\<rparr>) s) }"

text \<open>The choice of the thread \<^verbatim>\<open>sprt_prev\<close> to be switched: the running one, or at the very first
  call the first ready one; 0 when there is none.\<close>

definition schedule_prev :: "'s sched_scheme \<Rightarrow> (kuaddr_t \<times> 's sched_scheme) option" where
  "schedule_prev s =
     (if sprt_work s \<noteq> 0 then Some (sprt_work s, s)
      else if thread_schedule_ref s \<noteq> 0 then Some (0, s)
      else do { p \<leftarrow> first_entry ReadyHead s;
                if p = 0 then Some (0, s)
                else do { s \<leftarrow> SET_THREAD_STATUS (rt_tid (threads s p)) NR_THREAD_RUNNING s; Some (p, s) } })"

definition schedule_thread_pick :: "'s sched_scheme \<Rightarrow> (scheduler_context option \<times> 's sched_scheme) option" where
  "schedule_thread_pick s =
     (if mrt_list_head_empty (links s) ReadyHead then Some (None, s)
      else do {
        (prev, s) \<leftarrow> schedule_prev s;
        if prev = 0 then Some (None, s)
        else do {
          s \<leftarrow> (if to_status (threads s prev) = 0
               then SET_THREAD_STATUS (rt_tid (threads s prev)) NR_THREAD_READY s else Some s);
          (retval, s) \<leftarrow> schedule_thread_switch (rt_tid (threads s prev)) s;
          let p = sprt_work s;
          if retval < 0 \<or> p = 0 then Some (None, s)
          else Some (Some \<lparr>ctx_entry = AddrStartRoutine p, ctx_args = AddrPtrArgs p,
                           ctx_first = AddrScheduleRef,
                           next_sp = AddrStack (sprt_attr (threads s p)),
                           prev_sp = (if thread_schedule_ref s \<noteq> 0
                                      then AddrStack (sprt_attr (threads s prev)) else NullAddr)\<rparr>,
                     scheduler_record s) } })"

definition context_switch :: "'s sched_scheme \<Rightarrow> 's sched_scheme option" where
  "context_switch s =
     do { s \<leftarrow> real_thread_init_before s;
          Some (if thread_schedule_ref s = 0 then s\<lparr>thread_schedule_ref := 1\<rparr> else s) }"

definition schedule_thread :: "'s sched_scheme \<Rightarrow> 's sched_scheme option" where
  "schedule_thread s =
     do { s \<leftarrow> sched_lock_irqsave s;
          (ctx, s) \<leftarrow> schedule_thread_pick s;
          case ctx of
            None \<Rightarrow> Some (sched_unlock_irqrestore s)
          | Some _ \<Rightarrow> context_switch (sched_unlock_irqrestore s) }"

definition schedule_self_suspend :: "'s sched_scheme \<Rightarrow> 's sched_scheme option" where
  "schedule_self_suspend s =
     do { s \<leftarrow> sched_lock_irqsave s;
          p \<leftarrow> running_thread s;
          s \<leftarrow> SET_THREAD_STATUS (rt_tid (threads s p)) NR_THREAD_SUSPEND s;
          schedule_thread (sched_unlock_irqrestore s) }"

definition schedule_thread_suspend :: "kuint32_t \<Rightarrow> 's sched_scheme \<Rightarrow> (int \<times> 's sched_scheme) option" where
  "schedule_thread_suspend tid s =
     do { p \<leftarrow> running_thread s;
          if tid = rt_tid (threads s p)
          then do { s \<leftarrow> schedule_self_suspend s; Some (ER_NORMAL, s) }
          else do {
            s \<leftarrow> sched_lock_irqsave s;
            s \<leftarrow> SET_THREAD_STATUS tid NR_THREAD_SUSPEND s;
            (retval, s) \<leftarrow> schedule_thread_switch tid s;
            Some (retval, sched_unlock_irqrestore s) } }"

definition schedule_thread_wakeup :: "kuint32_t \<Rightarrow> 's sched_scheme \<Rightarrow> (int \<times> 's sched_scheme) option" where
  "schedule_thread_wakeup tid s =
     do { st \<leftarrow> GET_THREAD_STATUS tid s;
          if NR_THREAD_SUSPEND \<noteq> st then Some (- ER_UNVALID, s)
          else do { s \<leftarrow> SET_THREAD_STATUS tid NR_THREAD_READY s;
                    schedule_thread_switch tid s } }"

section \<open>Signals\<close>

definition mrt_thread_is_flags :: "nat \<Rightarrow> kuaddr_t \<Rightarrow> 's sched_scheme \<Rightarrow> bool" where
  "mrt_thread_is_flags signal p s \<longleftrightarrow> flags (threads s p) AND push_bit signal 1 \<noteq> 0"

definition mrt_thread_set_flags :: "nat \<Rightarrow> kuaddr_t \<Rightarrow> 's sched_scheme \<Rightarrow> 's sched_scheme" where
  "mrt_thread_set_flags signal p = upd_thread p (\<lambda>t. t\<lparr>flags := flags t OR push_bit signal 1\<rparr>)"

definition mrt_thread_clr_flags :: "nat \<Rightarrow> kuaddr_t \<Rightarrow> 's sched_scheme \<Rightarrow> 's sched_scheme" where
  "mrt_thread_clr_flags signal p = upd_thread p (\<lambda>t. t\<lparr>flags := flags t AND NOT (push_bit signal 1)\<rparr>)"

definition real_thread_state_pending :: "kuaddr_t \<Rightarrow> 's sched_scheme \<Rightarrow> (bool \<times> 's sched_scheme) option" where
  "real_thread_state_pending p s =
     do { s \<leftarrow> thread_lock_irqsave p s;
          let is_wakeup = mrt_thread_is_flags NR_THREAD_SIG_WAKEUP p s;
          let is_killed = mrt_thread_is_flags NR_THREAD_SIG_KILL p s;
          let s = mrt_thread_clr_flags NR_THREAD_SIG_WAKEUP p s;
          let s = mrt_thread_clr_flags NR_THREAD_SIG_KILL p s;
          Some (is_wakeup \<or> is_killed, thread_unlock_irqrestore p s) }"

definition real_thread_state_signal ::
  "kuaddr_t \<Rightarrow> nat \<Rightarrow> bool \<Rightarrow> 's sched_scheme \<Rightarrow> 's sched_scheme option" where
  "real_thread_state_signal p state mode s =
     do { s \<leftarrow> thread_lock_irqsave p s;
          let s = (if mode then mrt_thread_set_flags state p s else mrt_thread_clr_flags state p s);
          Some (thread_unlock_irqrestore p s) }"

end
