(* ===== verification/Prio_Queue.thy ===== *)
theory Prio_Queue
  imports Prelude "HOL-Library.Multiset"
begin

text \<open>
  The interface of the kernel's priority-sorted lists: enqueueing an element that is not in the
  list puts it behind the last one whose key is not larger.  What follows for any implementation
  is proved here once: enqueueing a sequence sorts it, and elements of one key stay in their
  order of arrival.
\<close>

section \<open>Insertion by priority\<close>

text \<open>Insert behind the last element whose key is not larger, as the kernel's sorted lists do.\<close>

definition prio_insert :: "('a \<Rightarrow> 'k::linorder) \<Rightarrow> 'a \<Rightarrow> 'a list \<Rightarrow> 'a list" where
  "prio_insert key x xs =
     takeWhile (\<lambda>y. key y \<le> key x) xs @ x # dropWhile (\<lambda>y. key y \<le> key x) xs"

lemma mset_prio_insert [simp]: "mset (prio_insert key x xs) = add_mset x (mset xs)"
  unfolding prio_insert_def
  by (metis mset.simps(2) mset_append takeWhile_dropWhile_id union_mset_add_mset_right)

lemma set_prio_insert [simp]: "set (prio_insert key x xs) = insert x (set xs)"
  by (metis mset_prio_insert set_mset_add_mset_insert set_mset_mset)

lemma length_prio_insert [simp]: "length (prio_insert key x xs) = Suc (length xs)"
  by (metis mset_prio_insert size_add_mset size_mset)

lemma distinct_prio_insert [simp]:
  "distinct (prio_insert key x xs) \<longleftrightarrow> x \<notin> set xs \<and> distinct xs"
  by (metis mset_prio_insert mset.simps(2) mset_eq_imp_distinct_iff distinct.simps(2))

lemma prio_insert_cong:
  "(\<And>y. y \<in> insert x (set xs) \<Longrightarrow> key y = key' y) \<Longrightarrow> prio_insert key x xs = prio_insert key' x xs"
  unfolding prio_insert_def by (metis (no_types, lifting) dropWhile_cong insertCI takeWhile_cong)

lemma sorted_takeWhile_dropWhile:
  fixes k :: "'k::linorder"
  assumes "sorted (map key xs)"
  shows "\<forall>y \<in> set (dropWhile (\<lambda>y. key y \<le> k) xs). k < key y"
  using assms by (induction xs) auto

lemma prio_insert_Cons:
  "prio_insert key x [] = [x]"
  "prio_insert key x (y # ys) = (if key y \<le> key x then y # prio_insert key x ys else x # y # ys)"
  by (simp_all add: prio_insert_def)

lemma sorted_prio_insert:
  "sorted (map key xs) \<Longrightarrow> sorted (map key (prio_insert key x xs))"
proof (induction xs)
  case (Cons y ys)
  then show ?case by (auto simp: prio_insert_Cons)
qed (simp add: prio_insert_Cons)

lemma find_append_case:
  "find P (xs @ ys) = (case find P xs of None \<Rightarrow> find P ys | Some x \<Rightarrow> Some x)"
  by (induction xs) auto

lemma find_rev_sorted:
  fixes k :: "'k::linorder"
  assumes "sorted (map key xs)"
  shows "find (\<lambda>y. key y \<le> k) (rev xs) =
     (let t = takeWhile (\<lambda>y. key y \<le> k) xs in if t = [] then None else Some (last t))"
proof -
  let ?P = "\<lambda>y. key y \<le> k"
  let ?t = "takeWhile ?P xs" and ?d = "dropWhile ?P xs"
  have "find ?P (rev ?d) = None"
    using sorted_takeWhile_dropWhile [OF assms, of k] by (auto simp: find_None_iff)
  moreover have "find ?P (rev (?t @ ?d)) = (case find ?P (rev ?d) of None \<Rightarrow> find ?P (rev ?t) | r \<Rightarrow> r)"
    by (simp only: rev_append find_append_case)
  moreover have "find ?P (rev ?t) = (if ?t = [] then None else Some (last ?t))"
  proof (cases ?t rule: rev_cases)
    case (snoc ys y)
    moreover have "?P y" using snoc by (metis set_takeWhileD in_set_conv_decomp)
    ultimately show ?thesis by simp
  qed simp
  ultimately show ?thesis by (simp add: Let_def)
qed

text \<open>Inserting one element after the other is a stable sort.\<close>

lemma filter_prio_insert:
  assumes "sorted (map key xs)"
  shows "filter (\<lambda>y. key y = k) (prio_insert key x xs) =
     filter (\<lambda>y. key y = k) xs @ (if key x = k then [x] else [])"
proof -
  let ?t = "takeWhile (\<lambda>y. key y \<le> key x) xs" and ?d = "dropWhile (\<lambda>y. key y \<le> key x) xs"
  have "filter (\<lambda>y. key y = k) xs = filter (\<lambda>y. key y = k) (?t @ ?d)" by simp
  moreover have "key x = k \<Longrightarrow> filter (\<lambda>y. key y = k) ?d = []"
    using sorted_takeWhile_dropWhile [OF assms, of "key x"] by (auto simp: filter_empty_conv)
  ultimately show ?thesis
    by (auto simp: prio_insert_def simp del: takeWhile_dropWhile_id)
qed

lemma fold_prio_insert:
  "sorted (map key ys) \<Longrightarrow>
     mset (fold (prio_insert key) xs ys) = mset (ys @ xs) \<and>
     sorted (map key (fold (prio_insert key) xs ys)) \<and>
     filter (\<lambda>y. key y = k) (fold (prio_insert key) xs ys) = filter (\<lambda>y. key y = k) (ys @ xs)"
  by (induction xs arbitrary: ys) (auto simp: sorted_prio_insert filter_prio_insert)

lemma fold_prio_insert_sort_key: "fold (prio_insert key) xs [] = sort_key key xs"
proof (rule properties_for_sort_key [symmetric])
  have f: "filter (\<lambda>y. key y = k) (fold (prio_insert key) xs []) = filter (\<lambda>y. key y = k) xs" for k
    using fold_prio_insert [of key "[]" xs k] by simp
  show "mset (fold (prio_insert key) xs []) = mset xs"
    and "sorted (map key (fold (prio_insert key) xs []))"
    using fold_prio_insert [of key "[]" xs] by simp_all
  fix k
  show "filter (\<lambda>x. key k = key x) (fold (prio_insert key) xs []) = filter (\<lambda>x. key k = key x) xs"
    using f [of "key k"] by (simp add: eq_commute [of "key k"])
qed

section \<open>The interface\<close>

locale prio_queue =
  fixes U :: "'e set"
    and key :: "'e \<Rightarrow> 'k::linorder"
    and is_queue :: "'h \<Rightarrow> 'e list \<Rightarrow> bool"
    and enqueue :: "'e \<Rightarrow> 'h \<Rightarrow> 'h option"
  assumes enqueue_law:
    "is_queue h xs \<Longrightarrow> sorted (map key xs) \<Longrightarrow> x \<in> U \<Longrightarrow> x \<notin> set xs \<Longrightarrow>
       \<exists>h'. enqueue x h = Some h' \<and> is_queue h' (prio_insert key x xs)"
begin

primrec enqueue_all :: "'e list \<Rightarrow> 'h \<Rightarrow> 'h option" where
  "enqueue_all [] h = Some h"
| "enqueue_all (x # xs) h = Option.bind (enqueue x h) (enqueue_all xs)"

lemma enqueue_all_from:
  "is_queue h ys \<Longrightarrow> sorted (map key ys) \<Longrightarrow> set xs \<subseteq> U \<Longrightarrow> distinct (ys @ xs) \<Longrightarrow>
     \<exists>h'. enqueue_all xs h = Some h' \<and> is_queue h' (fold (prio_insert key) xs ys)"
proof (induction xs arbitrary: h ys)
  case (Cons x xs)
  then obtain h1 where h1: "enqueue x h = Some h1" "is_queue h1 (prio_insert key x ys)"
    using enqueue_law [of h ys x] by auto
  have "\<exists>h'. enqueue_all xs h1 = Some h' \<and> is_queue h' (fold (prio_insert key) xs (prio_insert key x ys))"
    using Cons.prems by (intro Cons.IH h1(2) sorted_prio_insert) auto
  with h1 show ?case by auto
qed simp

lemma enqueue_all_sorts:
  assumes "is_queue h []" "set xs \<subseteq> U" "distinct xs"
  shows "\<exists>h'. enqueue_all xs h = Some h' \<and> is_queue h' (sort_key key xs)"
  using enqueue_all_from [of h "[]" xs] assms by (simp add: fold_prio_insert_sort_key)

end

end
