(* ===== verification/Sched_Inv.thy ===== *)
theory Sched_Inv
  imports Sched Prio_Queue
begin

text \<open>
  The scheduler's invariant and its abstract specification.  A well-formed state represents a
  running thread and two lists, ready and suspended, both sorted by priority; every operation
  of \<^verbatim>\<open>sched.c\<close> is shown to act on the linked lists, status words and thread table the way its
  counterpart acts on the lists, never to hang and never to lose a thread.
\<close>

section \<open>Frame rules\<close>

lemma upd_thread_sel [simp]:
  "threads (upd_thread p f s) = (threads s)(p := f (threads s p))"
  "attrs (upd_thread p f s) = attrs s"
  "links (upd_thread p f s) = links s"
  "sprt_work (upd_thread p f s) = sprt_work s"
  "sprt_tid_array (upd_thread p f s) = sprt_tid_array s"
  "sched_lock (upd_thread p f s) = sched_lock s"
  "the_cpu (upd_thread p f s) = the_cpu s"
  "thread_schedule_ref (upd_thread p f s) = thread_schedule_ref s"
  "jiffies (upd_thread p f s) = jiffies s"
  by (simp_all add: upd_thread_def)

lemma upd_links_sel [simp]:
  "threads (upd_links g s) = threads s"
  "attrs (upd_links g s) = attrs s"
  "links (upd_links g s) = g (links s)"
  "sprt_work (upd_links g s) = sprt_work s"
  "sprt_tid_array (upd_links g s) = sprt_tid_array s"
  "sched_lock (upd_links g s) = sched_lock s"
  "the_cpu (upd_links g s) = the_cpu s"
  "thread_schedule_ref (upd_links g s) = thread_schedule_ref s"
  "jiffies (upd_links g s) = jiffies s"
  by (simp_all add: upd_links_def)

lemma Link_in [simp]: "Link p \<in> Link ` A \<longleftrightarrow> p \<in> A" by auto

lemma distinct_map_Link [simp]: "distinct (map Link xs) = distinct xs"
  by (simp add: distinct_map inj_on_def)

section \<open>One list at a time\<close>

text \<open>The thread table knows the thread under its own number.\<close>

definition registered :: "'s sched_scheme \<Rightarrow> kuaddr_t \<Rightarrow> bool" where
  "registered s p \<longleftrightarrow> p \<noteq> 0 \<and> unat (rt_tid (threads s p)) < REAL_THREAD_MAX_NUM \<and>
     sprt_tid_array s (unat (rt_tid (threads s p))) = p"

lemma registered_handler:
  "registered s p \<Longrightarrow> SCHED_THREAD_HANDLER (rt_tid (threads s p)) s = Some p"
  "registered s p \<Longrightarrow> thread_of (rt_tid (threads s p)) s = Some p"
  by (simp_all add: registered_def SCHED_THREAD_HANDLER_def thread_of_def)

text \<open>\<open>queue_at s head xs\<close>: the list with this head links exactly the threads \<open>xs\<close>, by priority.\<close>

definition queue_at :: "'s sched_scheme \<Rightarrow> sched_node \<Rightarrow> kuaddr_t list \<Rightarrow> bool" where
  "queue_at s head xs \<longleftrightarrow> dlist (links s) head (map Link xs) \<and> sorted (map (\<lambda>p. thread_prio p s) xs)"

lemma queue_at_distinct: "queue_at s head xs \<Longrightarrow> distinct xs \<and> head \<notin> Link ` set xs"
  by (auto simp: queue_at_def dlist_def)

lemma queue_at_empty: "queue_at s head xs \<Longrightarrow> mrt_list_head_empty (links s) head \<longleftrightarrow> xs = []"
  by (auto simp: queue_at_def dlist_is_empty)

lemma queue_at_first:
  "queue_at s head xs \<Longrightarrow> first_entry head s = Some (case xs of [] \<Rightarrow> 0 | p # _ \<Rightarrow> p)"
  by (cases xs) (auto simp: first_entry_def queue_at_empty node_thread_def queue_at_def dlist_next
      dlist_is_empty split: list.splits)

lemma thread_prio_cong [simp]:
  "thread_prio p (upd_links g s) = thread_prio p s"
  "thread_prio p (s\<lparr>links := h\<rparr>) = thread_prio p s"
  "thread_prio p (s\<lparr>sprt_work := w\<rparr>) = thread_prio p s"
  by (simp_all add: thread_prio_def real_thread_get_priority_def)

lemma sint_tid_nonneg: "unat w < 128 \<Longrightarrow> 0 \<le> sint (w :: kuint32_t)"
proof -
  assume "unat w < 128"
  then have "uint w < 128" unfolding uint_nat by linarith
  then show ?thesis by (simp only: sint_32) simp
qed

lemma find_Link: "find (\<lambda>n. n = Link p) (map Link xs) = (if p \<in> set xs then Some (Link p) else None)"
  by (induction xs) auto

lemma find_map_Link: "find P (map Link xs) = map_option Link (find (\<lambda>q. P (Link q)) xs)"
  by (induction xs) auto

lemma find_thread_queue:
  assumes "queue_at s head xs" "registered s p"
  shows "find_thread_from_scheduler (rt_tid (threads s p)) head s =
     Some (if p \<in> set xs then sint (rt_tid (threads s p)) else - ER_NOTFOUND)"
proof -
  have "dlist (links s) head (map Link xs)" using assms(1) by (simp add: queue_at_def)
  from foreach_next_dlist [OF this] show ?thesis
    using assms(2) by (simp add: find_thread_from_scheduler_def registered_handler find_Link)
qed

lemma add_status_list_queue:
  assumes q: "queue_at s head xs" and p: "registered s p" "p \<notin> set xs" "head \<noteq> Link p"
  shows "\<exists>a. a \<in> set (head # map Link xs) \<and>
     schedule_add_status_list p head s = Some (ER_NORMAL, upd_links (list_head_add_head a (Link p)) s) \<and>
     queue_at (upd_links (list_head_add_head a (Link p)) s) head (prio_insert (\<lambda>p. thread_prio p s) p xs)"
proof -
  let ?key = "\<lambda>p. thread_prio p s"
  let ?t = "takeWhile (\<lambda>y. ?key y \<le> ?key p) xs" and ?d = "dropWhile (\<lambda>y. ?key y \<le> ?key p) xs"
  have d: "dlist (links s) head (map Link xs)" and srt: "sorted (map ?key xs)"
    using q by (simp_all add: queue_at_def)
  have new: "Link p \<notin> set (head # map Link xs)" using p by auto
  have p0: "p \<noteq> 0" using p(1) by (simp add: registered_def)
  have srt': "sorted (map ?key (prio_insert ?key p xs))" by (rule sorted_prio_insert [OF srt])
  have walk: "foreach_prev (links s) head (\<lambda>n. case n of Link q \<Rightarrow> THREAD_IS_LOW_PRIO (?key p) (?key q) | _ \<Rightarrow> True)
      = Some (if ?t = [] then None else Some (Link (last ?t)))"
    using find_rev_sorted [OF srt, of "?key p"]
    by (simp add: foreach_prev_dlist [OF d] rev_map find_map_Link THREAD_IS_LOW_PRIO_def Let_def)
  show ?thesis
  proof (cases "?t = []")
    case True
    have ins: "prio_insert ?key p xs = p # xs"
      using True takeWhile_dropWhile_id [of "\<lambda>y. ?key y \<le> ?key p" xs] by (simp add: prio_insert_def)
    have "dlist (list_head_add_head head (Link p) (links s)) head (map Link (p # xs))"
      using dlist_add_head [OF d new] by simp
    moreover have "schedule_add_status_list p head s =
        Some (ER_NORMAL, upd_links (list_head_add_head head (Link p)) s)"
      using walk True p find_thread_queue [OF q p(1)] p0
      by (simp add: schedule_add_status_list_def Let_def)
    ultimately show ?thesis
      using ins srt' by (intro exI [of _ head]) (simp add: queue_at_def)
  next
    case False
    let ?a = "last ?t"
    have split: "xs = butlast ?t @ ?a # ?d"
      using append_butlast_last_id [OF False] takeWhile_dropWhile_id [of "\<lambda>y. ?key y \<le> ?key p" xs]
      by (metis append.assoc append_Cons append_Nil)
    have ne: "xs \<noteq> []" using False by auto
    have "dlist (list_head_add_head (Link ?a) (Link p) (links s)) head
        (map Link (butlast ?t) @ Link ?a # Link p # map Link ?d)"
    proof (rule dlist_add_behind)
      have "map Link xs = map Link (butlast ?t) @ Link ?a # map Link ?d"
        using arg_cong [OF split, of "map Link"] by simp
      then show "dlist (links s) head (map Link (butlast ?t) @ Link ?a # map Link ?d)"
        and "Link p \<notin> set (head # map Link (butlast ?t) @ Link ?a # map Link ?d)"
        using d new by simp_all
    qed
    have "dlist (list_head_add_head (Link ?a) (Link p) (links s)) head (map Link (prio_insert ?key p xs))"
    proof -
      have "prio_insert ?key p xs = (butlast ?t @ [?a]) @ p # ?d"
        unfolding prio_insert_def by (simp only: append_butlast_last_id [OF False])
      then have "map Link (prio_insert ?key p xs) = map Link (butlast ?t) @ Link ?a # Link p # map Link ?d"
        by simp
      with \<open>dlist _ _ (map Link (butlast ?t) @ _)\<close> show ?thesis by simp
    qed
    moreover have "schedule_add_status_list p head s =
        Some (ER_NORMAL, upd_links (list_head_add_head (Link ?a) (Link p)) s)"
      using walk False p find_thread_queue [OF q p(1)] p0 ne queue_at_empty [OF q]
      by (simp add: schedule_add_status_list_def Let_def node_thread_def)
    moreover have "?a \<in> set xs" using split by (metis in_set_conv_decomp)
    ultimately show ?thesis
      using srt' by (intro exI [of _ "Link ?a"]) (simp add: queue_at_def)
  qed
qed

lemma del_status_list_queue:
  assumes q: "queue_at s head xs" and p: "p \<in> set xs" "p \<noteq> 0"
  shows "schedule_del_status_list p head s =
       Some (upd_links (\<lambda>h. init_list_head (Link p) (list_head_del (Link p) h)) s) \<and>
     queue_at (upd_links (\<lambda>h. init_list_head (Link p) (list_head_del (Link p) h)) s) head (remove1 p xs)"
proof -
  obtain us vs where xs: "xs = us @ p # vs" "p \<notin> set us"
    using split_list_first [OF p(1)] by blast
  have d: "dlist (links s) head (map Link us @ Link p # map Link vs)"
    using q xs by (simp add: queue_at_def)
  have r: "remove1 p xs = us @ vs" using xs by (simp add: remove1_append)
  have nin: "Link p \<notin> set (head # map Link us @ map Link vs)"
    using d by (auto simp: dlist_def)
  have "dlist (init_list_head (Link p) (list_head_del (Link p) (links s))) head (map Link (us @ vs))"
    using dlist_other_init [OF dlist_del [OF d] nin] by simp
  moreover have "sorted (map (\<lambda>p. thread_prio p s) (us @ vs))"
    using q xs by (auto simp: queue_at_def sorted_append)
  moreover have "list_head_del_safe head (Link p) (links s) = Some (list_head_del (Link p) (links s))"
    using list_head_del_safe_dlist [OF d, of "Link p"] by simp
  ultimately show ?thesis
    using p by (simp add: schedule_del_status_list_def r queue_at_def) (simp add: upd_links_def)
qed

section \<open>Two lists side by side\<close>

definition is_head :: "sched_node \<Rightarrow> bool" where
  "is_head n \<longleftrightarrow> node_thread n = None"

lemma is_head_simps [simp]:
  "is_head ReadyHead" "is_head SuspendHead" "is_head SleepHead" "\<not> is_head (Link p)"
  by (simp_all add: is_head_def node_thread_def)

text \<open>Two lists without a common thread.  The sleep list is not one of them: its head still has the
  links its static initialiser gave it.\<close>

definition two_queues ::
  "'s sched_scheme \<Rightarrow> sched_node \<Rightarrow> kuaddr_t list \<Rightarrow> sched_node \<Rightarrow> kuaddr_t list \<Rightarrow> bool" where
  "two_queues s head xs head' ys \<longleftrightarrow>
     queue_at s head xs \<and> queue_at s head' ys \<and> is_head head \<and> is_head head' \<and> head \<noteq> head' \<and>
     set xs \<inter> set ys = {} \<and>
     head \<noteq> SleepHead \<and> head' \<noteq> SleepHead \<and> sprt_next (links s) SleepHead = ReadyHead"

lemma two_queues_disjoint:
  "two_queues s head xs head' ys \<Longrightarrow> set (head # map Link xs) \<inter> set (head' # map Link ys) = {}"
  by (auto simp: two_queues_def)

lemma two_queues_sym: "two_queues s head xs head' ys = two_queues s head' ys head xs"
  by (auto simp: two_queues_def)

lemma add_status_list_two:
  assumes t: "two_queues s head xs head' ys" and p: "registered s p" "p \<notin> set xs" "p \<notin> set ys"
  shows "\<exists>g. schedule_add_status_list p head s = Some (ER_NORMAL, upd_links g s) \<and>
     two_queues (upd_links g s) head (prio_insert (\<lambda>p. thread_prio p s) p xs) head' ys"
proof -
  have q: "queue_at s head xs" "queue_at s head' ys" "is_head head" "is_head head'"
    using t by (auto simp: two_queues_def)
  have "head \<noteq> Link p" "head' \<noteq> Link p" using q by auto
  from add_status_list_queue [OF q(1) p(1,2) this(1)] obtain a
    where a: "a \<in> set (head # map Link xs)"
      "schedule_add_status_list p head s = Some (ER_NORMAL, upd_links (list_head_add_head a (Link p)) s)"
      "queue_at (upd_links (list_head_add_head a (Link p)) s) head (prio_insert (\<lambda>p. thread_prio p s) p xs)"
    by blast
  have "Link p \<notin> set (head' # map Link ys)" using p \<open>head' \<noteq> Link p\<close> by auto
  moreover have "dlist (links s) head (map Link xs)" "dlist (links s) head' (map Link ys)"
    using q by (simp_all add: queue_at_def)
  ultimately have "dlist (list_head_add_head a (Link p) (links s)) head' (map Link ys)"
    using a(1) two_queues_disjoint [OF t] dlist_other_add_head by metis
  then have "queue_at (upd_links (list_head_add_head a (Link p)) s) head' ys"
    using q(2) by (simp add: queue_at_def)
  moreover have "sprt_next (list_head_add_head a (Link p) (links s)) SleepHead = sprt_next (links s) SleepHead"
    using a(1) t by (intro list_head_add_head_frame) (auto simp: two_queues_def)
  ultimately show ?thesis
    using a t p by (intro exI [of _ "list_head_add_head a (Link p)"]) (auto simp: two_queues_def)
qed

lemma del_status_list_two:
  assumes t: "two_queues s head xs head' ys" and p: "p \<in> set xs" "p \<noteq> 0"
  shows "\<exists>g. schedule_del_status_list p head s = Some (upd_links g s) \<and>
     two_queues (upd_links g s) head (remove1 p xs) head' ys"
proof -
  let ?g = "\<lambda>h. init_list_head (Link p) (list_head_del (Link p) h)"
  have q: "queue_at s head xs" "queue_at s head' ys" "is_head head" "is_head head'"
    using t by (auto simp: two_queues_def)
  have l: "dlist (links s) head (map Link xs)" "dlist (links s) head' (map Link ys)"
    using q by (simp_all add: queue_at_def)
  have "Link p \<in> set (head # map Link xs)" using p by simp
  then have "dlist (list_head_del (Link p) (links s)) head' (map Link ys)"
    using l two_queues_disjoint [OF t] dlist_other_del by metis
  moreover have "Link p \<notin> set (head' # map Link ys)"
    using p t by (auto simp: two_queues_def)
  ultimately have "dlist (?g (links s)) head' (map Link ys)" by (rule dlist_other_init)
  then have "queue_at (upd_links ?g s) head' ys" using q(2) by (simp add: queue_at_def)
  moreover have "sprt_next (?g (links s)) SleepHead = sprt_next (links s) SleepHead"
  proof -
    have "sprt_prev (links s) (Link p) \<in> set (head # map Link xs)"
      by (rule dlist_prev_in [OF l(1)]) (use p in simp)
    then have "SleepHead \<noteq> sprt_prev (links s) (Link p)" using t by (auto simp: two_queues_def)
    then show ?thesis by (simp add: init_list_head_def list_head_del_frame)
  qed
  moreover have "set (remove1 p xs) \<subseteq> set xs" by (rule set_remove1_subset)
  ultimately show ?thesis
    using del_status_list_queue [OF q(1) p] t
    by (intro exI [of _ ?g]) (auto simp: two_queues_def)
qed

section \<open>The represented state\<close>

text \<open>
  \<open>sched_core s r rs ss\<close>: thread \<open>r\<close> is running (0 for none), \<open>rs\<close> are ready and \<open>ss\<close> suspended;
  the status words say so, the thread table knows every one of these threads under its own
  number and knows no others, and the idle thread is never suspended.
\<close>

definition live :: "kuaddr_t \<Rightarrow> kuaddr_t list \<Rightarrow> kuaddr_t list \<Rightarrow> kuaddr_t set" where
  "live r rs ss = ({r} - {0}) \<union> set rs \<union> set ss"

definition sched_core :: "'s sched_scheme \<Rightarrow> kuaddr_t \<Rightarrow> kuaddr_t list \<Rightarrow> kuaddr_t list \<Rightarrow> bool" where
  "sched_core s r rs ss \<longleftrightarrow>
     two_queues s ReadyHead rs SuspendHead ss \<and> sprt_work s = r \<and>
     r \<notin> set rs \<and> r \<notin> set ss \<and>
     (\<forall>p \<in> set rs. status (threads s p) = NR_THREAD_READY) \<and>
     (\<forall>p \<in> set ss. status (threads s p) = NR_THREAD_SUSPEND \<and> rt_tid (threads s p) \<noteq> REAL_THREAD_TID_IDLE) \<and>
     (r \<noteq> 0 \<longrightarrow> status (threads s r) = NR_THREAD_RUNNING) \<and>
     (\<forall>p \<in> live r rs ss. registered s p) \<and>
     (\<forall>t < REAL_THREAD_MAX_NUM. sprt_tid_array s t \<noteq> 0 \<longrightarrow>
        sprt_tid_array s t \<in> live r rs ss \<and> unat (rt_tid (threads s (sprt_tid_array s t))) = t)"

text \<open>What the switching functions leave alone.\<close>

definition only_status :: "'s sched_scheme \<Rightarrow> 's sched_scheme \<Rightarrow> bool" where
  "only_status s s' \<longleftrightarrow>
     (\<exists>h T w. s' = s\<lparr>links := h, threads := T, sprt_work := w\<rparr>) \<and>
     (\<forall>q. \<exists>a b. threads s' q = (threads s q)\<lparr>status := a, to_status := b\<rparr>)"

lemma only_status_refl [simp]: "only_status s s"
proof -
  have "threads s q = (threads s q)\<lparr>status := status (threads s q), to_status := to_status (threads s q)\<rparr>" for q
    by simp
  moreover have "s = s\<lparr>links := links s, threads := threads s, sprt_work := sprt_work s\<rparr>" by simp
  ultimately show ?thesis unfolding only_status_def by blast
qed

lemma only_status_trans [trans]:
  assumes "only_status s t" "only_status t u"
  shows "only_status s u"
proof -
  have "\<exists>h T w. u = s\<lparr>links := h, threads := T, sprt_work := w\<rparr>"
  proof -
    obtain h T w where u: "u = t\<lparr>links := h, threads := T, sprt_work := w\<rparr>"
      using assms(2) unfolding only_status_def by blast
    obtain h' T' w' where t: "t = s\<lparr>links := h', threads := T', sprt_work := w'\<rparr>"
      using assms(1) unfolding only_status_def by blast
    have "u = s\<lparr>links := h, threads := T, sprt_work := w\<rparr>" unfolding u t by simp
    then show ?thesis by blast
  qed
  moreover have "\<exists>a b. threads u q = (threads s q)\<lparr>status := a, to_status := b\<rparr>" for q
  proof -
    obtain a b where "threads t q = (threads s q)\<lparr>status := a, to_status := b\<rparr>"
      using assms(1) unfolding only_status_def by blast
    moreover obtain c d where "threads u q = (threads t q)\<lparr>status := c, to_status := d\<rparr>"
      using assms(2) unfolding only_status_def by blast
    ultimately have "threads u q = (threads s q)\<lparr>status := c, to_status := d\<rparr>" by simp
    then show ?thesis by blast
  qed
  ultimately show ?thesis unfolding only_status_def by blast
qed

lemma only_status_sel:
  assumes "only_status s s'"
  shows "attrs s' = attrs s" "sprt_tid_array s' = sprt_tid_array s" "sched_lock s' = sched_lock s"
    "the_cpu s' = the_cpu s" "thread_schedule_ref s' = thread_schedule_ref s" "jiffies s' = jiffies s"
    "rt_tid (threads s' q) = rt_tid (threads s q)" "sprt_attr (threads s' q) = sprt_attr (threads s q)"
    "thread_prio q s' = thread_prio q s" "registered s' q = registered s q"
    "timer_links s' = timer_links s" "timers s' = timers s"
proof -
  obtain h T w where s': "s' = s\<lparr>links := h, threads := T, sprt_work := w\<rparr>"
    using assms unfolding only_status_def by blast
  obtain a b where t: "threads s' q = (threads s q)\<lparr>status := a, to_status := b\<rparr>"
    using assms unfolding only_status_def by blast
  show f: "attrs s' = attrs s" "sprt_tid_array s' = sprt_tid_array s" "sched_lock s' = sched_lock s"
    "the_cpu s' = the_cpu s" "thread_schedule_ref s' = thread_schedule_ref s" "jiffies s' = jiffies s"
    "timer_links s' = timer_links s" "timers s' = timers s"
    using s' by simp_all
  show g: "rt_tid (threads s' q) = rt_tid (threads s q)" "sprt_attr (threads s' q) = sprt_attr (threads s q)"
    using t by simp_all
  show "thread_prio q s' = thread_prio q s" "registered s' q = registered s q"
    using f g by (simp_all add: thread_prio_def real_thread_get_priority_def registered_def)
qed

lemma only_status_upd [simp]:
  "only_status s (upd_links g s)"
  "only_status s (s\<lparr>sprt_work := w\<rparr>)"
proof -
  have t: "threads s q = (threads s q)\<lparr>status := status (threads s q), to_status := to_status (threads s q)\<rparr>" for q
    by simp
  have "upd_links g s = s\<lparr>links := g (links s), threads := threads s, sprt_work := sprt_work s\<rparr>"
    by (simp add: upd_links_def)
  then show "only_status s (upd_links g s)" using t unfolding only_status_def upd_links_sel by blast
  have "s\<lparr>sprt_work := w\<rparr> = s\<lparr>links := links s, threads := threads s, sprt_work := w\<rparr>" by simp
  moreover have "threads (s\<lparr>sprt_work := w\<rparr>) = threads s" by simp
  ultimately show "only_status s (s\<lparr>sprt_work := w\<rparr>)" using t unfolding only_status_def by metis
qed

lemma only_status_upd_thread:
  assumes "\<And>t. \<exists>a b. f t = t\<lparr>status := a, to_status := b\<rparr>"
  shows "only_status s (upd_thread p f s)"
proof -
  have "\<exists>a b. threads (upd_thread p f s) q = (threads s q)\<lparr>status := a, to_status := b\<rparr>" for q
  proof (cases "q = p")
    case False
    have "threads s q = (threads s q)\<lparr>status := status (threads s q), to_status := to_status (threads s q)\<rparr>"
      by simp
    with False show ?thesis by (metis upd_thread_sel(1) fun_upd_other)
  qed (use assms [of "threads s p"] in simp)
  moreover have "upd_thread p f s =
      s\<lparr>links := links s, threads := (threads s)(p := f (threads s p)), sprt_work := sprt_work s\<rparr>"
    by (simp add: upd_thread_def)
  ultimately show ?thesis unfolding only_status_def by blast
qed

section \<open>Steps of a switch\<close>

lemma sync_status:
  "registered s p \<Longrightarrow> v < NR_THREAD_STATUS_MAX \<Longrightarrow> rt_tid (threads s p) = k \<Longrightarrow>
     SYNC_THREAD_STATUS k v s = Some (upd_thread p (\<lambda>t. t\<lparr>status := v, to_status := NR_THREAD_NONE\<rparr>) s)"
  by (auto simp: SYNC_THREAD_STATUS_def registered_handler)

lemma set_status:
  "registered s p \<Longrightarrow> v < NR_THREAD_STATUS_MAX \<Longrightarrow> rt_tid (threads s p) = k \<Longrightarrow>
     SET_THREAD_STATUS k v s = Some (upd_thread p (\<lambda>t. t\<lparr>to_status := v\<rparr>) s)"
  by (auto simp: SET_THREAD_STATUS_def registered_handler)

lemma only_status_sync [simp]:
  "only_status s (upd_thread p (\<lambda>t. t\<lparr>status := v, to_status := w\<rparr>) s)"
  by (rule only_status_upd_thread) blast

lemma only_status_set [simp]: "only_status s (upd_thread p (\<lambda>t. t\<lparr>to_status := w\<rparr>) s)"
proof (rule only_status_upd_thread)
  fix t :: real_thread
  have "t\<lparr>to_status := w\<rparr> = t\<lparr>status := status t, to_status := w\<rparr>" by simp
  then show "\<exists>a b. t\<lparr>to_status := w\<rparr> = t\<lparr>status := a, to_status := b\<rparr>" by blast
qed

lemma queue_at_cong:
  assumes "only_status s s'" "links s' = links s"
  shows "queue_at s' head xs = queue_at s head xs"
  using only_status_sel(9) [OF assms(1)] assms(2) by (simp add: queue_at_def)

lemma two_queues_cong:
  assumes "only_status s s'" "links s' = links s"
  shows "two_queues s' head xs head' ys = two_queues s head xs head' ys"
  unfolding two_queues_def queue_at_cong [OF assms] assms(2) ..

lemma add_list_step:
  assumes t: "two_queues s head xs head' ys"
    and p: "registered s p" "rt_tid (threads s p) = k" "p \<notin> set xs" "p \<notin> set ys" "status (threads s p) \<noteq> st"
  shows "\<exists>g. schedule_add_list st head k s = Some (ER_NORMAL, upd_links g s) \<and>
     two_queues (upd_links g s) head (prio_insert (\<lambda>p. thread_prio p s) p xs) head' ys"
proof -
  have "schedule_add_list st head k s = schedule_add_status_list p head s"
    using p registered_handler(1) [OF p(1)] by (auto simp: schedule_add_list_def registered_def)
  with add_status_list_two [OF t p(1,3,4)] show ?thesis by simp
qed

lemma detach_list_step:
  assumes t: "two_queues s head xs head' ys"
    and p: "registered s p" "rt_tid (threads s p) = k" "p \<in> set xs" "status (threads s p) = st"
  shows "\<exists>g. schedule_detach_list st head k s = Some (ER_NORMAL, upd_links g s) \<and>
     two_queues (upd_links g s) head (remove1 p xs) head' ys"
proof -
  have p0: "p \<noteq> 0" using p by (simp add: registered_def)
  obtain g where g: "schedule_del_status_list p head s = Some (upd_links g s)"
      "two_queues (upd_links g s) head (remove1 p xs) head' ys"
    using del_status_list_two [OF t p(3) p0] by blast
  have "schedule_detach_list st head k s = Some (ER_NORMAL, upd_links g s)"
    using p p0 g registered_handler(1) [OF p(1)] by (auto simp: schedule_detach_list_def)
  with g show ?thesis by blast
qed

lemma coreD:
  assumes "sched_core s r rs ss"
  shows "two_queues s ReadyHead rs SuspendHead ss" "sprt_work s = r" "r \<notin> set rs" "r \<notin> set ss"
    "p \<in> set rs \<Longrightarrow> status (threads s p) = NR_THREAD_READY"
    "p \<in> set ss \<Longrightarrow> status (threads s p) = NR_THREAD_SUSPEND"
    "p \<in> set ss \<Longrightarrow> rt_tid (threads s p) \<noteq> REAL_THREAD_TID_IDLE"
    "r \<noteq> 0 \<Longrightarrow> status (threads s r) = NR_THREAD_RUNNING"
    "p \<in> live r rs ss \<Longrightarrow> registered s p"
    "p \<in> set rs \<Longrightarrow> registered s p" "p \<in> set ss \<Longrightarrow> registered s p" "r \<noteq> 0 \<Longrightarrow> registered s r"
    "distinct rs" "distinct ss" "p \<in> set rs \<Longrightarrow> p \<notin> set ss"
    "mrt_list_head_empty (links s) ReadyHead \<longleftrightarrow> rs = []"
    "first_entry ReadyHead s = Some (case rs of [] \<Rightarrow> 0 | p # _ \<Rightarrow> p)"
  using assms queue_at_distinct [of s ReadyHead rs] queue_at_distinct [of s SuspendHead ss]
    queue_at_empty [of s ReadyHead rs] queue_at_first [of s ReadyHead rs]
  by (auto simp: sched_core_def two_queues_def live_def)

lemma sched_coreI:
  assumes c: "sched_core s r rs ss" and f: "only_status s s'"
    and t: "two_queues s' ReadyHead rs' SuspendHead ss'" and w: "sprt_work s' = r'"
    and l: "live r' rs' ss' = live r rs ss"
    and r': "r' \<notin> set rs'" "r' \<notin> set ss'" "r' \<noteq> 0 \<Longrightarrow> status (threads s' r') = NR_THREAD_RUNNING"
    and rs': "\<And>p. p \<in> set rs' \<Longrightarrow> status (threads s' p) = NR_THREAD_READY"
    and ss': "\<And>p. p \<in> set ss' \<Longrightarrow> status (threads s' p) = NR_THREAD_SUSPEND"
      "\<And>p. p \<in> set ss' \<Longrightarrow> rt_tid (threads s p) \<noteq> REAL_THREAD_TID_IDLE"
  shows "sched_core s' r' rs' ss'"
  using assms only_status_sel [OF f] unfolding sched_core_def by simp

lemma sched_core_upd:
  assumes c: "sched_core s r rs ss" and f: "only_status s s'"
    and "links s' = links s" "sprt_work s' = sprt_work s"
    and "\<And>q. q \<in> live r rs ss \<Longrightarrow> status (threads s' q) = status (threads s q)"
  shows "sched_core s' r rs ss"
proof (rule sched_coreI [OF c f])
  show "two_queues s' ReadyHead rs SuspendHead ss"
    using two_queues_cong [OF f assms(3)] coreD(1) [OF c] by simp
qed (use assms coreD [OF c] in \<open>auto simp: live_def\<close>)

lemma reinstall_step:
  assumes c: "sched_core s r (q # rs) ss" and r: "r \<noteq> 0"
  shows "\<exists>g. schedule_reinstall_work_role (rt_tid (threads s r)) s =
       Some (ER_NORMAL, upd_thread q (\<lambda>t. t\<lparr>status := NR_THREAD_RUNNING, to_status := NR_THREAD_NONE\<rparr>)
                          ((upd_links g s)\<lparr>sprt_work := q\<rparr>)) \<and>
     two_queues (upd_links g s) ReadyHead rs SuspendHead ss"
proof -
  have q: "registered s q" "q \<noteq> 0" "status (threads s q) = NR_THREAD_READY"
    using coreD(10) [OF c, of q] coreD(5) [OF c, of q] by (auto simp: registered_def)
  obtain g where g: "schedule_detach_list NR_THREAD_READY ReadyHead (rt_tid (threads s q)) s =
        Some (ER_NORMAL, upd_links g s)" "two_queues (upd_links g s) ReadyHead rs SuspendHead ss"
    using detach_list_step [OF coreD(1) [OF c] q(1) refl _ q(3)] by auto
  have "registered ((upd_links g s)\<lparr>sprt_work := q\<rparr>) q"
    using q(1) by (simp add: registered_def)
  from sync_status [OF this, of NR_THREAD_RUNNING "rt_tid (threads s q)"]
  have "SYNC_THREAD_STATUS (rt_tid (threads s q)) NR_THREAD_RUNNING ((upd_links g s)\<lparr>sprt_work := q\<rparr>) =
      Some (upd_thread q (\<lambda>t. t\<lparr>status := NR_THREAD_RUNNING, to_status := NR_THREAD_NONE\<rparr>)
              ((upd_links g s)\<lparr>sprt_work := q\<rparr>))"
    by simp
  then have "schedule_reinstall_work_role (rt_tid (threads s r)) s =
      Some (ER_NORMAL, upd_thread q (\<lambda>t. t\<lparr>status := NR_THREAD_RUNNING, to_status := NR_THREAD_NONE\<rparr>)
              ((upd_links g s)\<lparr>sprt_work := q\<rparr>))"
    using r q g(1) coreD(2,16,17) [OF c]
    by (simp add: schedule_reinstall_work_role_def running_thread_def schedule_detach_ready_list_def)
  with g(2) show ?thesis by blast
qed

text \<open>After the switch of \<open>p\<close> no target status is left over.\<close>

definition clears :: "kuaddr_t \<Rightarrow> 's sched_scheme \<Rightarrow> 's sched_scheme \<Rightarrow> bool" where
  "clears p s s' \<longleftrightarrow> to_status (threads s' p) = NR_THREAD_NONE \<and>
     (\<forall>q. to_status (threads s' q) = NR_THREAD_NONE \<or> to_status (threads s' q) = to_status (threads s q))"

definition switched ::
  "(int \<times> 's sched_scheme) option \<Rightarrow> int \<Rightarrow> kuaddr_t \<Rightarrow> 's sched_scheme \<Rightarrow>
     kuaddr_t \<Rightarrow> kuaddr_t list \<Rightarrow> kuaddr_t list \<Rightarrow> bool" where
  "switched res code p s r rs ss \<longleftrightarrow>
     (\<exists>s'. res = Some (code, s') \<and> sched_core s' r rs ss \<and> only_status s s' \<and> clears p s s')"

lemma switch_fail_step:
  assumes c: "sched_core s r rs ss" and p: "p \<in> live r rs ss"
  shows "switched (switch_fail (status (threads s p)) (rt_tid (threads s p)) s) (- ER_UNVALID) p s r rs ss"
proof -
  let ?v = "status (threads s p)"
  let ?s = "upd_thread p (\<lambda>t. t\<lparr>status := ?v, to_status := NR_THREAD_NONE\<rparr>) s"
  have v: "?v < NR_THREAD_STATUS_MAX"
    using p coreD(5,6,8) [OF c] by (auto simp: live_def)
  have "SYNC_THREAD_STATUS (rt_tid (threads s p)) ?v s = Some ?s"
    by (rule sync_status [OF coreD(9) [OF c p] v refl])
  moreover have "sched_core ?s r rs ss" by (rule sched_core_upd [OF c]) auto
  ultimately show ?thesis by (simp add: switched_def switch_fail_def clears_def)
qed

lemma switch_start:
  assumes "registered s p" "rt_tid (threads s p) = k"
    and "status (threads s p) \<noteq> to_status (threads s p)" "to_status (threads s p) < NR_THREAD_STATUS_MAX"
    and "k = REAL_THREAD_TID_IDLE \<Longrightarrow>
      to_status (threads s p) = NR_THREAD_RUNNING \<or> to_status (threads s p) = NR_THREAD_READY"
    and "switch_leave (status (threads s p)) k s = Some (ER_NORMAL, s1)"
  shows "schedule_thread_switch k s = switch_finish (to_status (threads s p)) k s1"
  using assms registered_handler(2) [OF assms(1)] by (auto simp: schedule_thread_switch_def Let_def)

text \<open>The end of a successful switch: the new status is written and the represented state is
  the one the lists give.\<close>

lemma switch_end:
  assumes c: "sched_core s r rs ss" and f: "only_status s s2"
    and p: "p \<in> live r rs ss" "rt_tid (threads s p) = k" and dst: "dst < NR_THREAD_STATUS_MAX"
    and e: "switch_enter dst k s1 = Some (ER_NORMAL, s2)" and w: "sprt_work s2 = r'" "r' \<noteq> 0"
    and t: "two_queues s2 ReadyHead rs' SuspendHead ss'" and l: "live r' rs' ss' = live r rs ss"
    and st: "\<And>q. q \<noteq> p \<Longrightarrow> q \<in> set rs' \<Longrightarrow> status (threads s2 q) = NR_THREAD_READY"
      "\<And>q. q \<noteq> p \<Longrightarrow> q \<in> set ss' \<Longrightarrow> status (threads s2 q) = NR_THREAD_SUSPEND"
      "r' \<noteq> p \<Longrightarrow> status (threads s2 r') = NR_THREAD_RUNNING"
    and mine: "p \<in> set rs' \<Longrightarrow> dst = NR_THREAD_READY" "p \<in> set ss' \<Longrightarrow> dst = NR_THREAD_SUSPEND"
      "p = r' \<Longrightarrow> dst = NR_THREAD_RUNNING"
    and r': "r' \<notin> set rs'" "r' \<notin> set ss'"
    and idle: "\<And>q. q \<in> set ss' \<Longrightarrow> rt_tid (threads s q) \<noteq> REAL_THREAD_TID_IDLE"
    and cl: "\<And>q. to_status (threads s2 q) = NR_THREAD_NONE \<or> to_status (threads s2 q) = to_status (threads s q)"
  shows "switched (switch_finish dst k s1) ER_NORMAL p s r' rs' ss'"
proof -
  let ?s = "upd_thread p (\<lambda>t. t\<lparr>status := dst, to_status := NR_THREAD_NONE\<rparr>) s2"
  have reg: "registered s2 p" "rt_tid (threads s2 p) = k"
    using only_status_sel(7,10) [OF f] coreD(9) [OF c p(1)] p(2) by simp_all
  have "switch_finish dst k s1 = Some (ER_NORMAL, ?s)"
    using e w sync_status [OF reg(1) dst reg(2)] by (simp add: switch_finish_def)
  moreover have f': "only_status s ?s" using only_status_trans [OF f only_status_sync] .
  moreover have "sched_core ?s r' rs' ss'"
  proof (rule sched_coreI [OF c f' _ _ l])
    show "two_queues ?s ReadyHead rs' SuspendHead ss'"
      using t by (subst two_queues_cong [OF only_status_sync]) simp_all
  qed (use w st mine r' idle in auto)
  moreover have "clears p s ?s" using cl by (simp add: clears_def)
  ultimately show ?thesis by (auto simp: switched_def)
qed

text \<open>The running thread leaves: the first ready thread takes over.\<close>

lemma switch_running:
  assumes c: "sched_core s r (q # rs) ss" and r: "r \<noteq> 0"
    and dst: "to_status (threads s r) = dst"
      "dst = NR_THREAD_READY \<and> rs' = prio_insert (\<lambda>p. thread_prio p s) r rs \<and> ss' = ss \<or>
       dst = NR_THREAD_SUSPEND \<and> rs' = rs \<and> ss' = prio_insert (\<lambda>p. thread_prio p s) r ss \<and>
       rt_tid (threads s r) \<noteq> REAL_THREAD_TID_IDLE"
  shows "switched (schedule_thread_switch (rt_tid (threads s r)) s) ER_NORMAL r s q rs' ss'"
proof -
  let ?k = "rt_tid (threads s r)"
  let ?run = "\<lambda>t::real_thread. t\<lparr>status := NR_THREAD_RUNNING, to_status := NR_THREAD_NONE\<rparr>"
  have reg: "registered s r" "registered s q" "status (threads s r) = NR_THREAD_RUNNING"
    using coreD(8,12) [OF c r] coreD(10) [OF c, of q] by auto
  have q0: "q \<noteq> 0" using reg by (simp add: registered_def)
  have rq: "r \<noteq> q" "r \<notin> set rs" "r \<notin> set ss" "q \<notin> set rs" "q \<notin> set ss"
    using coreD(3,4,13) [OF c] coreD(15) [OF c, of q] by auto
  obtain g where g: "schedule_reinstall_work_role ?k s = Some (ER_NORMAL, upd_thread q ?run ((upd_links g s)\<lparr>sprt_work := q\<rparr>))"
      "two_queues (upd_links g s) ReadyHead rs SuspendHead ss"
    using reinstall_step [OF c r] by blast
  define s1 where "s1 = upd_thread q ?run ((upd_links g s)\<lparr>sprt_work := q\<rparr>)"
  have f0: "only_status (upd_links g s) s1" unfolding s1_def
    by (rule only_status_trans [OF only_status_upd(2) only_status_sync])
  then have f1: "only_status s s1" using only_status_trans [OF only_status_upd(1)] by blast
  have t1: "two_queues s1 ReadyHead rs SuspendHead ss" "two_queues s1 SuspendHead ss ReadyHead rs"
  proof -
    show "two_queues s1 ReadyHead rs SuspendHead ss"
      using g(2) two_queues_cong [OF f0] by (simp add: s1_def)
    then show "two_queues s1 SuspendHead ss ReadyHead rs" using two_queues_sym by blast
  qed
  have reg1: "registered s1 r" "rt_tid (threads s1 r) = ?k"
    using only_status_sel(7,10) [OF f1] reg by simp_all
  have prio1: "(\<lambda>p. thread_prio p s1) = (\<lambda>p. thread_prio p s)"
    using only_status_sel(9) [OF f1] by blast
  have st1: "status (threads s1 r) = NR_THREAD_RUNNING" using reg(3) rq by (simp add: s1_def)
  have "switch_leave (status (threads s r)) ?k s = Some (ER_NORMAL, s1)"
    using g(1) reg(3) by (simp add: switch_leave_def s1_def)
  then have start: "schedule_thread_switch ?k s = switch_finish dst ?k s1"
    using switch_start [OF reg(1) refl] dst reg(3) by auto
  have "\<exists>g'. switch_enter dst ?k s1 = Some (ER_NORMAL, upd_links g' s1) \<and>
      two_queues (upd_links g' s1) ReadyHead rs' SuspendHead ss'"
    using dst(2)
  proof (elim disjE conjE)
    assume d: "dst = NR_THREAD_READY" "rs' = prio_insert (\<lambda>p. thread_prio p s) r rs" "ss' = ss"
    show ?thesis using add_list_step [OF t1(1) reg1 rq(2,3), of NR_THREAD_READY] st1 d prio1
      by (simp add: switch_enter_def schedule_add_ready_list_def)
  next
    assume d: "dst = NR_THREAD_SUSPEND" "rs' = rs" "ss' = prio_insert (\<lambda>p. thread_prio p s) r ss"
    show ?thesis using add_list_step [OF t1(2) reg1 rq(3,2), of NR_THREAD_SUSPEND] st1 d prio1
      by (simp add: switch_enter_def schedule_add_suspend_list_def two_queues_sym [of _ ReadyHead])
  qed
  then obtain g' where g': "switch_enter dst ?k s1 = Some (ER_NORMAL, upd_links g' s1)"
      "two_queues (upd_links g' s1) ReadyHead rs' SuspendHead ss'" by blast
  show ?thesis unfolding start
  proof (rule switch_end [OF c _ _ refl _ g'(1) _ q0 g'(2)])
    show "only_status s (upd_links g' s1)" using only_status_trans [OF f1] by simp
  qed (use dst(2) r q0 rq coreD [OF c] in \<open>auto simp: live_def s1_def\<close>)
qed

text \<open>A ready or suspended thread leaves its list.\<close>

lemma leave_ready:
  assumes c: "sched_core s r rs ss" and p: "p \<in> set rs"
  shows "\<exists>g. switch_leave NR_THREAD_READY (rt_tid (threads s p)) s = Some (ER_NORMAL, upd_links g s) \<and>
     two_queues (upd_links g s) ReadyHead (remove1 p rs) SuspendHead ss"
  using detach_list_step [OF coreD(1) [OF c] coreD(10) [OF c p] refl p coreD(5) [OF c p]]
  by (auto simp: switch_leave_def schedule_detach_ready_list_def)

lemma leave_suspend:
  assumes c: "sched_core s r rs ss" and p: "p \<in> set ss"
  shows "\<exists>g. switch_leave NR_THREAD_SUSPEND (rt_tid (threads s p)) s = Some (ER_NORMAL, upd_links g s) \<and>
     two_queues (upd_links g s) ReadyHead rs SuspendHead (remove1 p ss)"
proof -
  have t: "two_queues s SuspendHead ss ReadyHead rs" using coreD(1) [OF c] two_queues_sym by blast
  show ?thesis
    using detach_list_step [OF t coreD(11) [OF c p] refl p coreD(6) [OF c p]]
    by (auto simp: switch_leave_def schedule_detach_suspend_list_def two_queues_sym [of _ ReadyHead])
qed

text \<open>A ready thread is suspended by another thread.\<close>

lemma switch_ready_suspend:
  assumes c: "sched_core s r rs ss" and r: "r \<noteq> 0" and p: "p \<in> set rs"
    and dst: "to_status (threads s p) = NR_THREAD_SUSPEND" "rt_tid (threads s p) \<noteq> REAL_THREAD_TID_IDLE"
  shows "switched (schedule_thread_switch (rt_tid (threads s p)) s) ER_NORMAL p s r
     (remove1 p rs) (prio_insert (\<lambda>p. thread_prio p s) p ss)"
proof -
  let ?k = "rt_tid (threads s p)"
  have reg: "registered s p" "status (threads s p) = NR_THREAD_READY" "p \<notin> set ss" "p \<noteq> r"
    using coreD(3) [OF c] coreD(5,10,15) [OF c p] p by auto
  obtain g where g: "switch_leave NR_THREAD_READY ?k s = Some (ER_NORMAL, upd_links g s)"
      "two_queues (upd_links g s) ReadyHead (remove1 p rs) SuspendHead ss"
    using leave_ready [OF c p] by blast
  let ?s1 = "upd_links g s"
  have t: "two_queues ?s1 SuspendHead ss ReadyHead (remove1 p rs)" using g(2) two_queues_sym by blast
  have out: "p \<notin> set (remove1 p rs)" using coreD(13) [OF c] by simp
  have "registered ?s1 p" using reg by (simp add: registered_def)
  from add_list_step [OF t this _ reg(3) out, of ?k NR_THREAD_SUSPEND] reg(2)
  obtain g' where g': "switch_enter NR_THREAD_SUSPEND ?k ?s1 = Some (ER_NORMAL, upd_links g' ?s1)"
      "two_queues (upd_links g' ?s1) ReadyHead (remove1 p rs) SuspendHead (prio_insert (\<lambda>p. thread_prio p s) p ss)"
    by (auto simp: switch_enter_def schedule_add_suspend_list_def two_queues_sym [of _ ReadyHead])
  have start: "schedule_thread_switch ?k s = switch_finish NR_THREAD_SUSPEND ?k ?s1"
    using switch_start [OF reg(1) refl, of ?s1] g(1) reg(2) dst by simp
  have sub: "set (remove1 p rs) = set rs - {p}" using coreD(13) [OF c] by simp
  show ?thesis unfolding start
  proof (rule switch_end [OF c _ _ refl _ g'(1) _ r g'(2)])
    show "only_status s (upd_links g' ?s1)" using only_status_trans [OF only_status_upd(1) only_status_upd(1)] .
  qed (use p r reg sub dst coreD [OF c] in \<open>auto simp: live_def\<close>)
qed

text \<open>A suspended thread is woken up.\<close>

lemma switch_suspend_ready:
  assumes c: "sched_core s r rs ss" and r: "r \<noteq> 0" and p: "p \<in> set ss"
    and dst: "to_status (threads s p) = NR_THREAD_READY"
  shows "switched (schedule_thread_switch (rt_tid (threads s p)) s) ER_NORMAL p s r
     (prio_insert (\<lambda>p. thread_prio p s) p rs) (remove1 p ss)"
proof -
  let ?k = "rt_tid (threads s p)"
  have reg: "registered s p" "status (threads s p) = NR_THREAD_SUSPEND" "p \<notin> set rs" "p \<noteq> r"
    using coreD(4) [OF c] coreD(6,11) [OF c p] coreD(15) [OF c, of p] p by auto
  obtain g where g: "switch_leave NR_THREAD_SUSPEND ?k s = Some (ER_NORMAL, upd_links g s)"
      "two_queues (upd_links g s) ReadyHead rs SuspendHead (remove1 p ss)"
    using leave_suspend [OF c p] by blast
  let ?s1 = "upd_links g s"
  have out: "p \<notin> set (remove1 p ss)" using coreD(14) [OF c] by simp
  have "registered ?s1 p" using reg by (simp add: registered_def)
  from add_list_step [OF g(2) this _ reg(3) out, of ?k NR_THREAD_READY] reg(2)
  obtain g' where g': "switch_enter NR_THREAD_READY ?k ?s1 = Some (ER_NORMAL, upd_links g' ?s1)"
      "two_queues (upd_links g' ?s1) ReadyHead (prio_insert (\<lambda>p. thread_prio p s) p rs) SuspendHead (remove1 p ss)"
    by (auto simp: switch_enter_def schedule_add_ready_list_def)
  have start: "schedule_thread_switch ?k s = switch_finish NR_THREAD_READY ?k ?s1"
    using switch_start [OF reg(1) refl, of ?s1] g(1) reg(2) dst by simp
  have sub: "set (remove1 p ss) = set ss - {p}" using coreD(14) [OF c] by simp
  show ?thesis unfolding start
  proof (rule switch_end [OF c _ _ refl _ g'(1) _ r g'(2)])
    show "only_status s (upd_links g' ?s1)" using only_status_trans [OF only_status_upd(1) only_status_upd(1)] .
  qed (use p r reg sub dst coreD [OF c] in \<open>auto simp: live_def\<close>)
qed

text \<open>A ready thread becomes the running one, and the running one, if any, ready.\<close>

lemma enter_running:
  assumes t: "two_queues s ReadyHead rs SuspendHead ss"
    and p: "registered s p" "rt_tid (threads s p) = k" "status (threads s p) = NR_THREAD_READY"
    and r: "sprt_work s = r" "r \<noteq> p" "r \<notin> set rs" "r \<notin> set ss"
      "r \<noteq> 0 \<Longrightarrow> registered s r \<and> status (threads s r) = NR_THREAD_RUNNING"
  shows "\<exists>s2. switch_enter NR_THREAD_RUNNING k s = Some (ER_NORMAL, s2) \<and> sprt_work s2 = p \<and>
     only_status s s2 \<and>
     two_queues s2 ReadyHead (if r = 0 then rs else prio_insert (\<lambda>p. thread_prio p s) r rs) SuspendHead ss \<and>
     threads s2 = (if r = 0 then threads s
                   else (threads s)(r := (threads s r)\<lparr>status := NR_THREAD_READY, to_status := NR_THREAD_NONE\<rparr>))"
proof (cases "r = 0")
  case True
  have "two_queues (s\<lparr>sprt_work := p\<rparr>) ReadyHead rs SuspendHead ss"
    using t by (subst two_queues_cong [OF only_status_upd(2)]) simp_all
  then show ?thesis
    using True p r(1) registered_handler(1) [OF p(1)]
    by (intro exI [of _ "s\<lparr>sprt_work := p\<rparr>"])
       (auto simp: switch_enter_def schedule_despoil_work_role_def registered_def Let_def)
next
  case False
  let ?kr = "rt_tid (threads s r)"
  have reg: "registered s r" "status (threads s r) = NR_THREAD_RUNNING" using False r(5) by auto
  obtain g where g: "schedule_add_list NR_THREAD_READY ReadyHead ?kr s = Some (ER_NORMAL, upd_links g s)"
      "two_queues (upd_links g s) ReadyHead (prio_insert (\<lambda>p. thread_prio p s) r rs) SuspendHead ss"
    using add_list_step [OF t reg(1) refl r(3,4), of NR_THREAD_READY] reg(2) by auto
  let ?s2 = "upd_thread r (\<lambda>t. t\<lparr>status := NR_THREAD_READY, to_status := NR_THREAD_NONE\<rparr>) (upd_links g s)"
  have "registered (upd_links g s) r" using reg(1) by (simp add: registered_def)
  from sync_status [OF this, of NR_THREAD_READY ?kr]
  have sync: "SYNC_THREAD_STATUS ?kr NR_THREAD_READY (upd_links g s) = Some ?s2" by simp
  have "switch_enter NR_THREAD_RUNNING k s = Some (ER_NORMAL, ?s2\<lparr>sprt_work := p\<rparr>)"
    using False p r(1) g(1) sync registered_handler(1) [OF p(1)]
    by (auto simp: switch_enter_def schedule_despoil_work_role_def schedule_add_ready_list_def registered_def Let_def)
  moreover have "only_status s (?s2\<lparr>sprt_work := p\<rparr>)"
    using only_status_trans [OF only_status_trans [OF only_status_upd(1) only_status_sync] only_status_upd(2)] .
  moreover have "two_queues (?s2\<lparr>sprt_work := p\<rparr>) ReadyHead (prio_insert (\<lambda>p. thread_prio p s) r rs) SuspendHead ss"
    using g(2) by (subst two_queues_cong [OF only_status_trans [OF only_status_sync only_status_upd(2)]]) simp_all
  ultimately show ?thesis using False by auto
qed

lemma switch_ready_running:
  assumes c: "sched_core s r rs ss" and p: "p \<in> set rs"
    and dst: "to_status (threads s p) = NR_THREAD_RUNNING"
  shows "switched (schedule_thread_switch (rt_tid (threads s p)) s) ER_NORMAL p s p
     (if r = 0 then remove1 p rs else prio_insert (\<lambda>p. thread_prio p s) r (remove1 p rs)) ss"
proof -
  let ?k = "rt_tid (threads s p)"
  have reg: "registered s p" "status (threads s p) = NR_THREAD_READY" "p \<notin> set ss" "p \<noteq> r" "p \<noteq> 0"
    using coreD(3) [OF c] coreD(5,10,15) [OF c p] p by (auto simp: registered_def)
  obtain g where g: "switch_leave NR_THREAD_READY ?k s = Some (ER_NORMAL, upd_links g s)"
      "two_queues (upd_links g s) ReadyHead (remove1 p rs) SuspendHead ss"
    using leave_ready [OF c p] by blast
  let ?s1 = "upd_links g s"
  have sub: "set (remove1 p rs) = set rs - {p}" using coreD(13) [OF c] by simp
  obtain s2 where s2: "switch_enter NR_THREAD_RUNNING ?k ?s1 = Some (ER_NORMAL, s2)" "sprt_work s2 = p"
      "only_status ?s1 s2"
      "two_queues s2 ReadyHead (if r = 0 then remove1 p rs else prio_insert (\<lambda>p. thread_prio p s) r (remove1 p rs)) SuspendHead ss"
      "threads s2 = (if r = 0 then threads s
                   else (threads s)(r := (threads s r)\<lparr>status := NR_THREAD_READY, to_status := NR_THREAD_NONE\<rparr>))"
  proof -
    have reg1: "registered ?s1 q = registered s q" for q by (simp add: registered_def)
    show thesis
      using enter_running [OF g(2), of p ?k r, unfolded upd_links_sel thread_prio_cong reg1]
        reg(1,2,4) sub coreD(2,3,4,8,12) [OF c] that by blast
  qed
  have start: "schedule_thread_switch ?k s = switch_finish NR_THREAD_RUNNING ?k ?s1"
    using switch_start [OF reg(1) refl, of ?s1] g(1) reg(2) dst by simp
  show ?thesis unfolding start
  proof (rule switch_end [OF c _ _ refl _ s2(1,2) reg(5) s2(4)])
    show "only_status s s2" using only_status_trans [OF only_status_upd(1) s2(3)] .
  qed (use p reg sub dst coreD [OF c] s2(5) in \<open>auto simp: live_def split: if_splits\<close>)
qed

section \<open>The specification of a switch\<close>

text \<open>The switch of thread \<open>p\<close> to status \<open>dst\<close> on the represented state; \<open>None\<close> for the moves that are
  refused without effect.\<close>

definition abs_switch ::
  "(kuaddr_t \<Rightarrow> kuint32_t) \<Rightarrow> kuaddr_t \<Rightarrow> bool \<Rightarrow> kuint32_t \<Rightarrow> kuaddr_t \<Rightarrow> kuaddr_t list \<Rightarrow> kuaddr_t list \<Rightarrow>
     (kuaddr_t \<times> kuaddr_t list \<times> kuaddr_t list) option" where
  "abs_switch key p idle dst r rs ss =
     (if idle \<and> dst = NR_THREAD_SUSPEND then None
      else if p = r then
        (if dst = NR_THREAD_RUNNING then None
         else case rs of
            [] \<Rightarrow> None
          | q # rs' \<Rightarrow> Some (if dst = NR_THREAD_READY then (q, prio_insert key r rs', ss)
                            else (q, rs', prio_insert key r ss)))
      else if p \<in> set rs then
        (if dst = NR_THREAD_READY then None
         else if dst = NR_THREAD_RUNNING
         then Some (p, if r = 0 then remove1 p rs else prio_insert key r (remove1 p rs), ss)
         else Some (r, remove1 p rs, prio_insert key p ss))
      else if dst = NR_THREAD_SUSPEND then None
      else Some (r, prio_insert key p rs, remove1 p ss))"

lemma switch_refused:
  assumes c: "sched_core s r rs ss" and p: "p \<in> live r rs ss"
    and n: "status (threads s p) = to_status (threads s p) \<or>
      rt_tid (threads s p) = REAL_THREAD_TID_IDLE \<and> to_status (threads s p) = NR_THREAD_SUSPEND \<or>
      p = r \<and> rs = [] \<and> to_status (threads s p) < NR_THREAD_STATUS_MAX"
  shows "switched (schedule_thread_switch (rt_tid (threads s p)) s) (- ER_UNVALID) p s r rs ss"
proof -
  have reg: "registered s p" by (rule coreD(9) [OF c p])
  have f: "switched (switch_fail (status (threads s p)) (rt_tid (threads s p)) s) (- ER_UNVALID) p s r rs ss"
    by (rule switch_fail_step [OF c p])
  have "schedule_reinstall_work_role (rt_tid (threads s r)) s = Some (- ER_FAULT, s)" if "rs = []" "p = r"
  proof -
    have "r \<noteq> 0" using p that reg by (auto simp: registered_def)
    then show ?thesis using coreD(2,16) [OF c] that
      by (auto simp: schedule_reinstall_work_role_def running_thread_def)
  qed
  moreover have "p = r \<Longrightarrow> status (threads s p) = NR_THREAD_RUNNING"
    using coreD(8) [OF c] reg by (auto simp: registered_def)
  ultimately have "schedule_thread_switch (rt_tid (threads s p)) s =
      switch_fail (status (threads s p)) (rt_tid (threads s p)) s"
    using n registered_handler(2) [OF reg]
    by (auto simp: schedule_thread_switch_def Let_def switch_leave_def)
  with f show ?thesis by simp
qed

lemma switch_refines:
  assumes c: "sched_core s r rs ss" and p: "p \<in> live r rs ss" and k: "rt_tid (threads s p) = k"
    and dst: "to_status (threads s p) = dst"
      "dst = NR_THREAD_RUNNING \<or> dst = NR_THREAD_READY \<or> dst = NR_THREAD_SUSPEND"
    and legal: "p \<in> set ss \<Longrightarrow> dst \<noteq> NR_THREAD_RUNNING"
    and run: "r = 0 \<Longrightarrow> p \<in> set rs \<and> dst = NR_THREAD_RUNNING"
  shows "case abs_switch (\<lambda>p. thread_prio p s) p (k = REAL_THREAD_TID_IDLE) dst r rs ss of
       None \<Rightarrow> switched (schedule_thread_switch k s) (- ER_UNVALID) p s r rs ss
     | Some (r', rs', ss') \<Rightarrow> switched (schedule_thread_switch k s) ER_NORMAL p s r' rs' ss'"
proof (cases "k = REAL_THREAD_TID_IDLE \<and> dst = NR_THREAD_SUSPEND")
  case True
  then show ?thesis using switch_refused [OF c p] k dst by (simp add: abs_switch_def)
next
  case ni: False
  consider (run) "p = r" | (ready) "p \<noteq> r" "p \<in> set rs" | (susp) "p \<noteq> r" "p \<notin> set rs" "p \<in> set ss"
    using p by (auto simp: live_def)
  then show ?thesis
  proof cases
    case run
    have r: "r \<noteq> 0" using run p coreD(9) [OF c p] by (auto simp: registered_def)
    have st: "status (threads s p) = NR_THREAD_RUNNING" using coreD(8) [OF c r] run by simp
    show ?thesis
    proof (cases "dst = NR_THREAD_RUNNING \<or> rs = []")
      case True
      then show ?thesis using switch_refused [OF c p] run k dst st ni
        by (auto simp: abs_switch_def)
    next
      case False
      then obtain q rs' where rs: "rs = q # rs'" by (cases rs) auto
      have "dst = NR_THREAD_READY \<or> dst = NR_THREAD_SUSPEND \<and> k \<noteq> REAL_THREAD_TID_IDLE"
        using False dst ni by auto
      then show ?thesis
        using switch_running [OF c [unfolded rs] r] dst(1) run k rs by (auto simp: abs_switch_def)
    qed
  next
    case ready
    have st: "status (threads s p) = NR_THREAD_READY" by (rule coreD(5) [OF c ready(2)])
    consider "dst = NR_THREAD_READY" | "dst = NR_THREAD_RUNNING" | "dst = NR_THREAD_SUSPEND"
      using dst(2) by blast
    then show ?thesis
    proof cases
      case 1
      then show ?thesis using switch_refused [OF c p] st k dst ready by (simp add: abs_switch_def)
    next
      case 2
      then show ?thesis using switch_ready_running [OF c ready(2)] k dst ready by (simp add: abs_switch_def)
    next
      case 3
      moreover from 3 have "r \<noteq> 0" using run by auto
      ultimately show ?thesis
        using switch_ready_suspend [OF c _ ready(2)] k dst ready ni by (simp add: abs_switch_def)
    qed
  next
    case susp
    have st: "status (threads s p) = NR_THREAD_SUSPEND" by (rule coreD(6) [OF c susp(3)])
    have r: "r \<noteq> 0" using run susp by auto
    consider "dst = NR_THREAD_SUSPEND" | "dst = NR_THREAD_READY" using dst(2) legal susp by blast
    then show ?thesis
    proof cases
      case 1
      then show ?thesis using switch_refused [OF c p] st k dst susp by (auto simp: abs_switch_def)
    next
      case 2
      then show ?thesis using switch_suspend_ready [OF c r susp(3)] k dst susp by (simp add: abs_switch_def)
    qed
  qed
qed

end
