(* ===== verification/Sched_Ops.thy ===== *)
theory Sched_Ops
  imports Sched_Inv
begin

text \<open>
  The interface functions of the scheduler under its invariant: scheduling, suspending, waking up
  and registering threads, each with the locking it does, as steps of a transition system whose
  reachable states all satisfy the invariant.
\<close>

section \<open>The invariant between calls\<close>

definition tidy :: "'s sched_scheme \<Rightarrow> kuaddr_t \<Rightarrow> kuaddr_t list \<Rightarrow> kuaddr_t list \<Rightarrow> bool" where
  "tidy s r rs ss \<longleftrightarrow>
     (\<forall>p \<in> live r rs ss. p \<noteq> r \<longrightarrow> to_status (threads s p) = NR_THREAD_NONE) \<and>
     (r \<noteq> 0 \<longrightarrow> to_status (threads s r) = NR_THREAD_NONE \<or> to_status (threads s r) = NR_THREAD_SUSPEND) \<and>
     (r = 0 \<longrightarrow> ss = [] \<and> thread_schedule_ref s = 0)"

definition sched_ok :: "'s sched_scheme \<Rightarrow> kuaddr_t \<Rightarrow> kuaddr_t list \<Rightarrow> kuaddr_t list \<Rightarrow> bool" where
  "sched_ok s r rs ss \<longleftrightarrow> sched_core s r rs ss \<and> tidy s r rs ss \<and> \<not> spin_is_locked (sched_lock s)"

text \<open>States that agree on everything the invariant looks at, the lock apart.\<close>

definition same_sched :: "'s sched_scheme \<Rightarrow> 's sched_scheme \<Rightarrow> bool" where
  "same_sched s s' \<longleftrightarrow> links s' = links s \<and> threads s' = threads s \<and> attrs s' = attrs s \<and>
     sprt_work s' = sprt_work s \<and> sprt_tid_array s' = sprt_tid_array s \<and>
     thread_schedule_ref s' = thread_schedule_ref s \<and> jiffies s' = jiffies s"

lemma same_schedD [simp]:
  assumes "same_sched s s'"
  shows "thread_prio p s' = thread_prio p s" "registered s' p = registered s p"
    "queue_at s' head xs = queue_at s head xs"
    "sched_core s' r rs ss = sched_core s r rs ss" "tidy s' r rs ss = tidy s r rs ss"
proof -
  note f = assms [unfolded same_sched_def]
  show 1: "thread_prio p s' = thread_prio p s" for p
    using f by (simp add: thread_prio_def real_thread_get_priority_def)
  show 2: "registered s' p = registered s p" for p using f by (simp add: registered_def)
  show 3: "queue_at s' head xs = queue_at s head xs" for head xs using f 1 by (simp add: queue_at_def)
  show "sched_core s' r rs ss = sched_core s r rs ss"
    using f 2 3 by (simp add: sched_core_def two_queues_def)
  show "tidy s' r rs ss = tidy s r rs ss" using f by (simp add: tidy_def)
qed

lemma same_sched_refl [simp]: "same_sched s s"
  by (simp add: same_sched_def)

lemma same_sched_trans: "same_sched s t \<Longrightarrow> same_sched t u \<Longrightarrow> same_sched s u"
  by (simp add: same_sched_def)

lemma same_sched_unlock [simp]: "same_sched s (sched_unlock_irqrestore s)"
  by (simp add: same_sched_def sched_unlock_irqrestore_def split: prod.splits)

lemma same_sched_record [simp]: "same_sched s (scheduler_record s)"
  by (simp add: same_sched_def scheduler_record_def Let_def)

lemma sched_lock_record [simp]: "sched_lock (scheduler_record s) = sched_lock s"
  by (simp add: scheduler_record_def Let_def)

lemma attrs_record [simp]: "attrs (scheduler_record s) = attrs s"
  by (simp add: scheduler_record_def Let_def)

lemmas record_simps [simp] = same_schedD [OF same_sched_record]
lemmas unlock_simps [simp] = same_schedD [OF same_sched_unlock]

lemma lock_step:
  assumes "\<not> spin_is_locked (sched_lock s)"
  shows "\<exists>s1. sched_lock_irqsave s = Some s1 \<and> same_sched s s1 \<and> counter (sgrt_atc (sched_lock s1)) = 1"
  using assms
  by (auto simp: sched_lock_irqsave_def spin_lock_irqsave_def spin_lock_acquire_def spin_is_locked_def
      same_sched_def atomic_defs)

lemma unlock_step:
  assumes "counter (sgrt_atc (sched_lock s)) = 1"
  shows "\<not> spin_is_locked (sched_lock (sched_unlock_irqrestore s))"
  using assms
  by (simp add: sched_unlock_irqrestore_def spin_unlock_irqrestore_def spin_unlock_def spin_is_locked_def
      atomic_defs)

lemma tidy_after:
  assumes "tidy s r rs ss" "switched res code p s0 r' rs' ss'" "res = Some (x, s')"
    and "\<And>q. q \<noteq> p \<Longrightarrow> to_status (threads s0 q) = to_status (threads s q)"
    and "live r' rs' ss' = live r rs ss" "r' \<noteq> 0" "p = r \<or> r' = r \<or> r = 0"
    and "0 \<notin> live r rs ss"
  shows "tidy s' r' rs' ss'"
proof -
  have cl: "to_status (threads s' p) = NR_THREAD_NONE"
    "\<And>q. to_status (threads s' q) = NR_THREAD_NONE \<or> to_status (threads s' q) = to_status (threads s0 q)"
    using assms(2,3) by (auto simp: switched_def clears_def)
  have z: "to_status (threads s' q) = NR_THREAD_NONE" if "q \<in> live r' rs' ss'" "q \<noteq> r" for q
    using that assms(1,4,5) cl by (metis tidy_def)
  show ?thesis
    unfolding tidy_def
  proof (intro conjI ballI impI)
    fix q assume q: "q \<in> live r' rs' ss'" "q \<noteq> r'"
    show "to_status (threads s' q) = NR_THREAD_NONE"
    proof (cases "q = r")
      case True
      have "r \<noteq> 0" using q True assms(5,8) by metis
      then show ?thesis using q True assms(7) cl(1) by auto
    qed (use z q in blast)
  next
    assume "r' \<noteq> 0"
    have l: "r' \<in> live r' rs' ss'" using \<open>r' \<noteq> 0\<close> by (simp add: live_def)
    show "to_status (threads s' r') = NR_THREAD_NONE \<or> to_status (threads s' r') = NR_THREAD_SUSPEND"
    proof (cases "r' = r")
      case True
      then show ?thesis using assms(1,4,6) cl by (metis tidy_def)
    qed (use z l in blast)
  qed (use assms(6) in auto)
qed

lemma core_zero: "sched_core s r rs ss \<Longrightarrow> 0 \<notin> live r rs ss"
  using coreD(9) [of s r rs ss 0] by (auto simp: registered_def)

text \<open>Announcing a target status does not disturb the represented state.\<close>

lemma set_core:
  assumes c: "sched_core s r rs ss" and p: "p \<in> live r rs ss" "rt_tid (threads s p) = k"
    and v: "v < NR_THREAD_STATUS_MAX"
  shows "SET_THREAD_STATUS k v s = Some (upd_thread p (\<lambda>t. t\<lparr>to_status := v\<rparr>) s) \<and>
     sched_core (upd_thread p (\<lambda>t. t\<lparr>to_status := v\<rparr>) s) r rs ss"
proof
  show "SET_THREAD_STATUS k v s = Some (upd_thread p (\<lambda>t. t\<lparr>to_status := v\<rparr>) s)"
    by (rule set_status [OF coreD(9) [OF c p(1)] v p(2)])
  show "sched_core (upd_thread p (\<lambda>t. t\<lparr>to_status := v\<rparr>) s) r rs ss"
    by (rule sched_core_upd [OF c only_status_set]) auto
qed

section \<open>Choosing the next thread\<close>

text \<open>What \<^verbatim>\<open>__schedule_thread\<close> does to the represented state.  \<open>susp\<close>: the running thread has asked to
  be suspended; \<open>idle\<close>: it is the idle thread.\<close>

definition abs_schedule ::
  "(kuaddr_t \<Rightarrow> kuint32_t) \<Rightarrow> bool \<Rightarrow> bool \<Rightarrow> kuaddr_t \<Rightarrow> kuaddr_t list \<Rightarrow> kuaddr_t list \<Rightarrow>
     kuaddr_t \<times> kuaddr_t list \<times> kuaddr_t list" where
  "abs_schedule key susp idle r rs ss =
     (case rs of
        [] \<Rightarrow> (r, rs, ss)
      | q # rs' \<Rightarrow>
          if r = 0 then (q, rs', ss)
          else if \<not> susp then (q, prio_insert key r rs', ss)
          else if idle then (r, rs, ss)
          else (q, rs', prio_insert key r ss))"

lemma abs_schedule_live:
  "abs_schedule key susp idle r rs ss = (r', rs', ss') \<Longrightarrow> live r' rs' ss' = live r rs ss \<or> 0 \<in> set rs"
  by (auto simp: abs_schedule_def live_def split: list.splits if_splits)

text \<open>The outcome of a pick: the new represented state, whether a context to switch to came out,
  and what stays as it was.\<close>

definition picked :: "'s sched_scheme \<Rightarrow> (scheduler_context option \<times> 's sched_scheme) option \<Rightarrow> bool \<Rightarrow>
    kuaddr_t \<Rightarrow> kuaddr_t list \<Rightarrow> kuaddr_t list \<Rightarrow> bool" where
  "picked s res moved r rs ss \<longleftrightarrow>
     (\<exists>ctx s'. res = Some (ctx, s') \<and> (ctx \<noteq> None) = moved \<and> sched_core s' r rs ss \<and> tidy s' r rs ss \<and>
        sched_lock s' = sched_lock s \<and> attrs s' = attrs s)"

lemma pick_switch:
  assumes c: "sched_core s r rs ss" "tidy s r rs ss" and p: "p \<in> live r rs ss" "p = r \<or> r = 0"
    and prev: "schedule_prev s = Some (p, s1)" and ne: "rs \<noteq> []" "p \<noteq> 0"
    and s1: "s1 = s \<or> s1 = upd_thread p (\<lambda>t. t\<lparr>to_status := NR_THREAD_RUNNING\<rparr>) s"
    and s2: "(if to_status (threads s1 p) = 0
               then SET_THREAD_STATUS (rt_tid (threads s1 p)) NR_THREAD_READY s1 else Some s1) =
             Some (upd_thread p (\<lambda>t. t\<lparr>to_status := v\<rparr>) s)"
    and sw: "switched (schedule_thread_switch (rt_tid (threads s p)) (upd_thread p (\<lambda>t. t\<lparr>to_status := v\<rparr>) s))
               e p (upd_thread p (\<lambda>t. t\<lparr>to_status := v\<rparr>) s) r' rs' ss'"
    and live: "live r' rs' ss' = live r rs ss" "r' \<noteq> 0" and e: "e \<noteq> 0 \<Longrightarrow> e < 0"
  shows "picked s (schedule_thread_pick s) (e = 0) r' rs' ss'"
proof -
  let ?s2 = "upd_thread p (\<lambda>t. t\<lparr>to_status := v\<rparr>) s"
  from sw obtain s3 where s3: "schedule_thread_switch (rt_tid (threads s p)) ?s2 = Some (e, s3)"
      "sched_core s3 r' rs' ss'" "only_status ?s2 s3"
    by (auto simp: switched_def)
  have w: "sprt_work s3 = r'" by (rule coreD(2) [OF s3(2)])
  have "p = r \<or> r' = r \<or> r = 0" using p(2) by blast
  from tidy_after [OF c(2) sw s3(1) _ live this core_zero [OF c(1)]]
  have t: "tidy s3 r' rs' ss'" by simp
  have same: "sched_lock s3 = sched_lock s" "attrs s3 = attrs s"
    using only_status_sel(1,3) [OF s3(3)] by simp_all
  have "\<exists>ctx s'. schedule_thread_pick s = Some (ctx, s') \<and> (ctx \<noteq> None) = (e = 0) \<and>
      (s' = s3 \<or> s' = scheduler_record s3)"
    using prev s2 s3(1) ne(2) e w live(2) coreD(16) [OF c(1)] ne(1)
    by (auto simp: schedule_thread_pick_def Let_def)
  then show ?thesis
    using s3(2) t same by (auto simp: picked_def)
qed

lemma upd_thread_id: "to_status (threads s p) = v \<Longrightarrow> upd_thread p (\<lambda>t. t\<lparr>to_status := v\<rparr>) s = s"
  by (auto simp: upd_thread_def)

lemma thread_prio_set [simp]:
  "thread_prio q (upd_thread p (\<lambda>t. t\<lparr>to_status := v\<rparr>) s) = thread_prio q s"
  using only_status_sel(9) [OF only_status_set] by blast

lemma pick_first:
  assumes c: "sched_core s 0 (q # rs) ss" "tidy s 0 (q # rs) ss"
  shows "picked s (schedule_thread_pick s) True q rs ss"
proof -
  let ?s1 = "upd_thread q (\<lambda>t. t\<lparr>to_status := NR_THREAD_RUNNING\<rparr>) s"
  have q: "q \<in> live 0 (q # rs) ss" "q \<noteq> 0" using core_zero [OF c(1)] by (auto simp: live_def)
  have set: "SET_THREAD_STATUS (rt_tid (threads s q)) NR_THREAD_RUNNING s = Some ?s1"
      "sched_core ?s1 0 (q # rs) ss"
    using set_core [OF c(1) q(1) refl, of NR_THREAD_RUNNING] by auto
  have w: "sprt_work s = 0" "thread_schedule_ref s = 0"
    using coreD(2) [OF c(1)] c(2) by (auto simp: tidy_def)
  have prev: "schedule_prev s = Some (q, ?s1)"
    using w q(2) coreD(17) [OF c(1)] set(1) by (simp add: schedule_prev_def)
  have "switched (schedule_thread_switch (rt_tid (threads ?s1 q)) ?s1) ER_NORMAL q ?s1 q
     (if (0 :: kuaddr_t) = 0 then remove1 q (q # rs) else prio_insert (\<lambda>p. thread_prio p ?s1) 0 (remove1 q (q # rs))) ss"
    by (rule switch_ready_running [OF set(2)]) simp_all
  then have sw: "switched (schedule_thread_switch (rt_tid (threads s q)) ?s1) ER_NORMAL q ?s1 q rs ss" by simp
  have "picked s (schedule_thread_pick s) (ER_NORMAL = 0) q rs ss"
    by (rule pick_switch [OF c q(1) _ prev _ q(2) _ _ sw])
       (use q(2) in \<open>auto simp: live_def\<close>)
  then show ?thesis by simp
qed

lemma pick_running:
  assumes c: "sched_core s r (q # rs) ss" "tidy s r (q # rs) ss" and r: "r \<noteq> 0"
    and a: "abs_schedule (\<lambda>p. thread_prio p s) (to_status (threads s r) = NR_THREAD_SUSPEND)
        (rt_tid (threads s r) = REAL_THREAD_TID_IDLE) r (q # rs) ss = (r', rs', ss')"
  shows "picked s (schedule_thread_pick s) (r' \<noteq> r) r' rs' ss'"
proof -
  let ?k = "rt_tid (threads s r)"
  define v :: kuint32_t where "v = (if to_status (threads s r) = 0 then NR_THREAD_READY else NR_THREAD_SUSPEND)"
  let ?s1 = "upd_thread r (\<lambda>t. t\<lparr>to_status := v\<rparr>) s"
  have l: "r \<in> live r (q # rs) ss" using r by (simp add: live_def)
  have q0: "q \<noteq> 0" "r \<noteq> q" using core_zero [OF c(1)] coreD(3) [OF c(1)] by (auto simp: live_def)
  have to: "to_status (threads s r) = 0 \<or> to_status (threads s r) = NR_THREAD_SUSPEND"
    using c(2) r by (simp add: tidy_def)
  have prev: "schedule_prev s = Some (r, s)" using r coreD(2) [OF c(1)] by (simp add: schedule_prev_def)
  have v2: "(if to_status (threads s r) = 0 then SET_THREAD_STATUS ?k NR_THREAD_READY s else Some s) = Some ?s1"
  proof (cases "to_status (threads s r) = 0")
    case True
    then show ?thesis using set_core [OF c(1) l refl, of NR_THREAD_READY] by (simp add: v_def)
  next
    case False
    then show ?thesis using to by (simp add: v_def upd_thread_id)
  qed
  have c1: "sched_core ?s1 r (q # rs) ss"
    using set_core [OF c(1) l refl, of v] by (auto simp: v_def split: if_splits)
  have k1: "rt_tid (threads ?s1 r) = ?k" "to_status (threads ?s1 r) = v" by simp_all
  have live': "live r' rs' ss' = live r (q # rs) ss"
    using abs_schedule_live [OF a] core_zero [OF c(1)] by (auto simp: live_def)
  have "\<exists>e. switched (schedule_thread_switch ?k ?s1) e r ?s1 r' rs' ss' \<and> (e \<noteq> 0 \<longrightarrow> e < 0) \<and> (e = 0) = (r' \<noteq> r)"
  proof (cases "v = NR_THREAD_SUSPEND \<and> ?k = REAL_THREAD_TID_IDLE")
    case True
    then have "(r', rs', ss') = (r, q # rs, ss)"
      using a to by (auto simp: abs_schedule_def v_def r split: if_splits)
    then show ?thesis
      using switch_refused [OF c1 l] True k1 by (intro exI [of _ "- ER_UNVALID"]) simp
  next
    case False
    have "v = NR_THREAD_READY \<and> rs' = prio_insert (\<lambda>p. thread_prio p s) r rs \<and> ss' = ss \<and> r' = q \<or>
          v = NR_THREAD_SUSPEND \<and> rs' = rs \<and> ss' = prio_insert (\<lambda>p. thread_prio p s) r ss \<and> r' = q \<and> ?k \<noteq> 0"
      using a to False r by (auto simp: abs_schedule_def v_def split: if_splits)
    then show ?thesis
      using switch_running [OF c1 r k1(2), of rs' ss'] q0 by (intro exI [of _ ER_NORMAL]) auto
  qed
  then obtain e where e: "switched (schedule_thread_switch ?k ?s1) e r ?s1 r' rs' ss'"
      "e \<noteq> 0 \<longrightarrow> e < 0" "(e = 0) = (r' \<noteq> r)" by blast
  have r'0: "r' \<noteq> 0" using a r q0 by (auto simp: abs_schedule_def split: if_splits)
  have "picked s (schedule_thread_pick s) (e = 0) r' rs' ss'"
    by (rule pick_switch [OF c l _ prev _ r _ v2 e(1) live' r'0]) (use e(2) in auto)
  then show ?thesis by (simp only: e(3))
qed

lemma pick_step:
  assumes c: "sched_core s r rs ss" "tidy s r rs ss"
    and a: "abs_schedule (\<lambda>p. thread_prio p s) (to_status (threads s r) = NR_THREAD_SUSPEND)
        (rt_tid (threads s r) = REAL_THREAD_TID_IDLE) r rs ss = (r', rs', ss')"
  shows "picked s (schedule_thread_pick s) (r' \<noteq> r) r' rs' ss'"
proof (cases rs)
  case Nil
  then have "(r', rs', ss') = (r, rs, ss)" using a by (simp add: abs_schedule_def)
  then show ?thesis
    using Nil c coreD(16) [OF c(1)] by (simp add: picked_def schedule_thread_pick_def)
next
  case (Cons q rs0)
  have "q \<noteq> 0" using core_zero [OF c(1)] Cons by (auto simp: live_def)
  show ?thesis
  proof (cases "r = 0")
    case True
    then have "r' = q" "rs' = rs0" "ss' = ss" using a Cons by (auto simp: abs_schedule_def)
    then show ?thesis using pick_first [of s q rs0 ss] c True Cons \<open>q \<noteq> 0\<close> by simp
  next
    case False
    show ?thesis by (rule pick_running [OF _ _ False]) (use c a Cons in simp_all)
  qed
qed

section \<open>The interface functions\<close>

lemma sched_core_cong:
  assumes "links s' = links s" "attrs s' = attrs s" "sprt_work s' = sprt_work s"
    "sprt_tid_array s' = sprt_tid_array s"
    and "\<And>q. status (threads s' q) = status (threads s q)" "\<And>q. rt_tid (threads s' q) = rt_tid (threads s q)"
      "\<And>q. sprt_attr (threads s' q) = sprt_attr (threads s q)"
  shows "sched_core s' r rs ss = sched_core s r rs ss"
  using assms
  by (simp add: sched_core_def two_queues_def queue_at_def thread_prio_def real_thread_get_priority_def
      registered_def)

lemma context_switch_ok:
  assumes c: "sched_core s r rs ss" "tidy s r rs ss" "r \<noteq> 0"
  shows "\<exists>s'. context_switch s = Some s' \<and> sched_core s' r rs ss \<and> tidy s' r rs ss \<and>
     sched_lock s' = sched_lock s \<and> attrs s' = attrs s \<and>
     rt_expires (threads s' r) = jiffies s + msecs_to_jiffies (real_thread_get_sched_msecs (sprt_attr (threads s r)) s)"
proof -
  let ?e = "jiffies s + msecs_to_jiffies (real_thread_get_sched_msecs (sprt_attr (threads s r)) s)"
  let ?s1 = "upd_thread r (\<lambda>t. t\<lparr>rt_expires := ?e\<rparr>) s"
  let ?s2 = "if thread_schedule_ref ?s1 = 0 then ?s1\<lparr>thread_schedule_ref := 1\<rparr> else ?s1"
  have "context_switch s = Some ?s2"
    using coreD(2) [OF c(1)] c(3)
    by (simp add: context_switch_def real_thread_init_before_def running_thread_def Let_def)
  moreover have "sched_core ?s2 r rs ss = sched_core s r rs ss" by (rule sched_core_cong) simp_all
  moreover have "tidy ?s2 r rs ss" using c by (auto simp: tidy_def)
  ultimately show ?thesis using c by simp
qed

lemma schedule_thread_ok:
  assumes ok: "sched_ok s r rs ss"
    and a: "abs_schedule (\<lambda>p. thread_prio p s) (to_status (threads s r) = NR_THREAD_SUSPEND)
        (rt_tid (threads s r) = REAL_THREAD_TID_IDLE) r rs ss = (r', rs', ss')"
  shows "\<exists>s'. schedule_thread s = Some s' \<and> sched_ok s' r' rs' ss'"
proof -
  have c: "sched_core s r rs ss" "tidy s r rs ss" "\<not> spin_is_locked (sched_lock s)"
    using ok by (simp_all add: sched_ok_def)
  obtain s1 where s1: "sched_lock_irqsave s = Some s1" "same_sched s s1" "counter (sgrt_atc (sched_lock s1)) = 1"
    using lock_step [OF c(3)] by blast
  have th: "threads s1 = threads s" using s1(2) by (simp add: same_sched_def)
  have "picked s1 (schedule_thread_pick s1) (r' \<noteq> r) r' rs' ss'"
    by (rule pick_step [of s1 r rs ss]) (use c s1(2) a th in simp_all)
  then obtain ctx s2 where s2: "schedule_thread_pick s1 = Some (ctx, s2)" "(ctx \<noteq> None) = (r' \<noteq> r)"
      "sched_core s2 r' rs' ss'" "tidy s2 r' rs' ss'" "sched_lock s2 = sched_lock s1"
    by (auto simp: picked_def)
  let ?s3 = "sched_unlock_irqrestore s2"
  have ok3: "sched_core ?s3 r' rs' ss'" "tidy ?s3 r' rs' ss'" "\<not> spin_is_locked (sched_lock ?s3)"
    using s2 s1(3) unlock_step [of s2] by simp_all
  show ?thesis
  proof (cases ctx)
    case None
    then show ?thesis using s1 s2 ok3 by (simp add: schedule_thread_def sched_ok_def)
  next
    case (Some x)
    have "r' \<noteq> 0"
    proof
      assume "r' = 0"
      then have "r \<noteq> 0" using s2(2) Some by auto
      then show False using a \<open>r' = 0\<close> core_zero [OF c(1)]
        by (auto simp: abs_schedule_def live_def split: list.splits if_splits)
    qed
    from context_switch_ok [OF ok3(1,2) this] obtain s4
      where "context_switch ?s3 = Some s4" "sched_core s4 r' rs' ss'" "tidy s4 r' rs' ss'"
        "sched_lock s4 = sched_lock ?s3" by blast
    then show ?thesis using s1 s2 ok3 Some by (simp add: schedule_thread_def sched_ok_def)
  qed
qed

text \<open>Suspending oneself: the request is recorded, then the scheduler runs.\<close>

lemma self_suspend_ok:
  assumes ok: "sched_ok s r rs ss" and r: "r \<noteq> 0"
    and a: "abs_schedule (\<lambda>p. thread_prio p s) True
        (rt_tid (threads s r) = REAL_THREAD_TID_IDLE) r rs ss = (r', rs', ss')"
  shows "\<exists>s'. schedule_self_suspend s = Some s' \<and> sched_ok s' r' rs' ss'"
proof -
  have c: "sched_core s r rs ss" "tidy s r rs ss" "\<not> spin_is_locked (sched_lock s)"
    using ok by (simp_all add: sched_ok_def)
  obtain s1 where s1: "sched_lock_irqsave s = Some s1" "same_sched s s1" "counter (sgrt_atc (sched_lock s1)) = 1"
    using lock_step [OF c(3)] by blast
  have c1: "sched_core s1 r rs ss" "tidy s1 r rs ss" using c s1(2) by simp_all
  have th: "threads s1 = threads s" using s1(2) by (simp add: same_sched_def)
  have l: "r \<in> live r rs ss" using r by (simp add: live_def)
  let ?s2 = "upd_thread r (\<lambda>t. t\<lparr>to_status := NR_THREAD_SUSPEND\<rparr>) s1"
  let ?s3 = "sched_unlock_irqrestore ?s2"
  have s2: "SET_THREAD_STATUS (rt_tid (threads s1 r)) NR_THREAD_SUSPEND s1 = Some ?s2" "sched_core ?s2 r rs ss"
    using set_core [OF c1(1) l refl, of NR_THREAD_SUSPEND] by auto
  have "tidy ?s2 r rs ss" using c1(2) r by (auto simp: tidy_def)
  then have ok3: "sched_ok ?s3 r rs ss"
    using s2 s1(3) unlock_step [of ?s2] by (simp add: sched_ok_def)
  have th3: "threads ?s3 = threads ?s2"
    using same_sched_unlock [of ?s2] by (simp only: same_sched_def)
  have "\<exists>s'. schedule_thread ?s3 = Some s' \<and> sched_ok s' r' rs' ss'"
    by (rule schedule_thread_ok [OF ok3]) (use a th th3 s1(2) in simp)
  then show ?thesis
    using s1(1) s2(1) coreD(2) [OF c1(1)] r by (simp add: schedule_self_suspend_def running_thread_def)
qed

text \<open>The outcome of an operation that returns a code and leaves the invariant.\<close>

definition results :: "(int \<times> 's sched_scheme) option \<Rightarrow> int \<Rightarrow> kuaddr_t \<Rightarrow> kuaddr_t list \<Rightarrow> kuaddr_t list \<Rightarrow> bool" where
  "results res code r rs ss \<longleftrightarrow> (\<exists>s'. res = Some (code, s') \<and> sched_ok s' r rs ss)"

lemma abs_switch_live:
  assumes "abs_switch key p idle dst r rs ss = Some (r', rs', ss')" "p \<in> live r rs ss" "0 \<notin> live r rs ss"
    "distinct rs" "distinct ss"
  shows "live r' rs' ss' = live r rs ss"
  using assms by (auto simp: abs_switch_def live_def split: if_splits list.splits)

lemma set_switch_ok:
  assumes c: "sched_core s r rs ss" "tidy s r rs ss" and r: "r \<noteq> 0"
    and p: "p \<in> live r rs ss" "p \<noteq> r" "rt_tid (threads s p) = k"
    and dst: "dst = NR_THREAD_READY \<or> dst = NR_THREAD_SUSPEND"
    and set: "SET_THREAD_STATUS k dst s = Some s1"
  shows "\<exists>s'. case abs_switch (\<lambda>p. thread_prio p s) p (k = REAL_THREAD_TID_IDLE) dst r rs ss of
       None \<Rightarrow> schedule_thread_switch k s1 = Some (- ER_UNVALID, s') \<and> sched_core s' r rs ss \<and>
         tidy s' r rs ss \<and> sched_lock s' = sched_lock s
     | Some (r', rs', ss') \<Rightarrow> r' = r \<and> schedule_thread_switch k s1 = Some (ER_NORMAL, s') \<and>
         sched_core s' r rs' ss' \<and> tidy s' r rs' ss' \<and> sched_lock s' = sched_lock s"
proof -
  let ?a = "abs_switch (\<lambda>p. thread_prio p s) p (k = REAL_THREAD_TID_IDLE) dst r rs ss"
  have d5: "dst < NR_THREAD_STATUS_MAX" using dst by auto
  have s1: "s1 = upd_thread p (\<lambda>t. t\<lparr>to_status := dst\<rparr>) s" "sched_core s1 r rs ss"
    using set_core [OF c(1) p(1,3) d5] set by auto
  have lk: "sched_lock s1 = sched_lock s" by (simp add: s1)
  have to: "to_status (threads s1 q) = to_status (threads s q)" if "q \<noteq> p" for q using that by (simp add: s1)
  have k1: "rt_tid (threads s1 p) = k" "to_status (threads s1 p) = dst" using p(3) by (simp_all add: s1)
  have "case abs_switch (\<lambda>p. thread_prio p s1) p (k = REAL_THREAD_TID_IDLE) dst r rs ss of
       None \<Rightarrow> switched (schedule_thread_switch k s1) (- ER_UNVALID) p s1 r rs ss
     | Some (r', rs', ss') \<Rightarrow> switched (schedule_thread_switch k s1) ER_NORMAL p s1 r' rs' ss'"
    by (rule switch_refines [OF s1(2) p(1) k1]) (use dst r in auto)
  then have sw: "case ?a of None \<Rightarrow> switched (schedule_thread_switch k s1) (- ER_UNVALID) p s1 r rs ss
     | Some (r', rs', ss') \<Rightarrow> switched (schedule_thread_switch k s1) ER_NORMAL p s1 r' rs' ss'"
    by (simp add: s1(1))
  have fin: "\<exists>s'. schedule_thread_switch k s1 = Some (e, s') \<and> sched_core s' r rs' ss' \<and> tidy s' r rs' ss' \<and>
      sched_lock s' = sched_lock s"
    if "switched (schedule_thread_switch k s1) e p s1 r rs' ss'" "live r rs' ss' = live r rs ss" for e rs' ss'
  proof -
    from that(1) obtain s' where s': "schedule_thread_switch k s1 = Some (e, s')" "sched_core s' r rs' ss'" "only_status s1 s'"
      by (auto simp: switched_def)
    have "tidy s' r rs' ss'"
      by (rule tidy_after [OF c(2) that(1) s'(1) to that(2) r _ core_zero [OF c(1)]]) simp_all
    with s' only_status_sel(3) [OF s'(3)] lk show ?thesis by auto
  qed
  show ?thesis
  proof (cases ?a)
    case None
    then show ?thesis using sw fin [of "- ER_UNVALID" rs ss] by simp
  next
    case (Some t)
    obtain r' rs' ss' where t: "t = (r', rs', ss')" by (cases t)
    have "r' = r" using Some t dst p(2) by (auto simp: abs_switch_def split: if_splits)
    moreover have "live r rs' ss' = live r rs ss"
      using abs_switch_live [OF Some [unfolded t] p(1) core_zero [OF c(1)] coreD(13,14) [OF c(1)]] \<open>r' = r\<close> by simp
    ultimately show ?thesis using sw fin [of ER_NORMAL rs' ss'] Some t by simp
  qed
qed

lemma suspend_other_ok:
  assumes ok: "sched_ok s r rs ss" and r: "r \<noteq> 0" and p: "p \<in> live r rs ss" "p \<noteq> r" "rt_tid (threads s p) = k"
  shows "if p \<in> set rs \<and> k \<noteq> REAL_THREAD_TID_IDLE
     then results (schedule_thread_suspend k s) ER_NORMAL r (remove1 p rs) (prio_insert (\<lambda>p. thread_prio p s) p ss)
     else results (schedule_thread_suspend k s) (- ER_UNVALID) r rs ss"
proof -
  have c: "sched_core s r rs ss" "tidy s r rs ss" "\<not> spin_is_locked (sched_lock s)"
    using ok by (simp_all add: sched_ok_def)
  obtain s1 where s1: "sched_lock_irqsave s = Some s1" "same_sched s s1" "counter (sgrt_atc (sched_lock s1)) = 1"
    using lock_step [OF c(3)] by blast
  have c1: "sched_core s1 r rs ss" "tidy s1 r rs ss" using c s1(2) by simp_all
  have k1: "rt_tid (threads s1 p) = k" using s1(2) p(3) by (simp add: same_sched_def)
  let ?s2 = "upd_thread p (\<lambda>t. t\<lparr>to_status := NR_THREAD_SUSPEND\<rparr>) s1"
  have set: "SET_THREAD_STATUS k NR_THREAD_SUSPEND s1 = Some ?s2"
    using set_core [OF c1(1) p(1) k1, of NR_THREAD_SUSPEND] by simp
  have nr: "k \<noteq> rt_tid (threads s r)"
    using coreD(9) [OF c(1) p(1)] coreD(12) [OF c(1) r] p by (auto simp: registered_def)
  have fin: "results (schedule_thread_suspend k s) e r rs' ss'"
    if "schedule_thread_switch k ?s2 = Some (e, s')" "sched_core s' r rs' ss'" "tidy s' r rs' ss'"
      "sched_lock s' = sched_lock s1" for e rs' ss' s'
    using that s1(1,3) set nr r coreD(2) [OF c(1)] unlock_step [of s']
    by (simp add: schedule_thread_suspend_def results_def running_thread_def sched_ok_def)
  from set_switch_ok [OF c1 r p(1,2) k1 _ set] obtain s' where
    "case abs_switch (\<lambda>p. thread_prio p s1) p (k = REAL_THREAD_TID_IDLE) NR_THREAD_SUSPEND r rs ss of
       None \<Rightarrow> schedule_thread_switch k ?s2 = Some (- ER_UNVALID, s') \<and> sched_core s' r rs ss \<and>
         tidy s' r rs ss \<and> sched_lock s' = sched_lock s1
     | Some (r', rs', ss') \<Rightarrow> r' = r \<and> schedule_thread_switch k ?s2 = Some (ER_NORMAL, s') \<and>
         sched_core s' r rs' ss' \<and> tidy s' r rs' ss' \<and> sched_lock s' = sched_lock s1" by blast
  then show ?thesis
    using fin p(2) s1(2) by (auto simp: abs_switch_def split: if_splits)
qed

lemma wakeup_ok:
  assumes ok: "sched_ok s r rs ss" and r: "r \<noteq> 0" and p: "p \<in> live r rs ss" "rt_tid (threads s p) = k"
  shows "if p \<in> set ss
     then results (schedule_thread_wakeup k s) ER_NORMAL r (prio_insert (\<lambda>p. thread_prio p s) p rs) (remove1 p ss)
     else schedule_thread_wakeup k s = Some (- ER_UNVALID, s)"
proof -
  have c: "sched_core s r rs ss" "tidy s r rs ss" using ok by (simp_all add: sched_ok_def)
  have st: "GET_THREAD_STATUS k s = Some (status (threads s p))"
    using registered_handler(2) [OF coreD(9) [OF c(1) p(1)]] p(2) by (simp add: GET_THREAD_STATUS_def)
  show ?thesis
  proof (cases "p \<in> set ss")
    case True
    have n: "p \<noteq> r" "p \<notin> set rs" using True coreD(4) [OF c(1)] coreD(15) [OF c(1), of p] by auto
    let ?s1 = "upd_thread p (\<lambda>t. t\<lparr>to_status := NR_THREAD_READY\<rparr>) s"
    have set: "SET_THREAD_STATUS k NR_THREAD_READY s = Some ?s1"
      using set_core [OF c(1) p, of NR_THREAD_READY] by simp
    show ?thesis
      using set_switch_ok [OF c r p(1) n(1) p(2) _ set] n True st set ok coreD(6) [OF c(1) True]
      by (auto simp: abs_switch_def schedule_thread_wakeup_def results_def sched_ok_def)
  next
    case False
    then have "status (threads s p) \<noteq> NR_THREAD_SUSPEND"
      using p(1) coreD(5,8) [OF c(1)] by (auto simp: live_def)
    with False st show ?thesis by (simp add: schedule_thread_wakeup_def)
  qed
qed

section \<open>Registering a thread\<close>

text \<open>A thread structure that is not in the table yet, with a free number and a stack.\<close>

definition fresh_thread :: "'s sched_scheme \<Rightarrow> kuaddr_t \<Rightarrow> bool" where
  "fresh_thread s p \<longleftrightarrow> p \<noteq> 0 \<and> unat (rt_tid (threads s p)) < REAL_THREAD_MAX_NUM \<and>
     sprt_tid_array s (unat (rt_tid (threads s p))) = 0 \<and>
     status (threads s p) = NR_THREAD_NONE \<and> stack_addr (attrs s (sprt_attr (threads s p))) \<noteq> 0"

lemma fresh_not_live:
  assumes "sched_core s r rs ss" "fresh_thread s p"
  shows "p \<notin> live r rs ss"
  using coreD(9) [OF assms(1), of p] assms(2) by (auto simp: registered_def fresh_thread_def)

text \<open>The state in which the new thread is entered into the table but not yet into a list.\<close>

definition enter_table :: "kuaddr_t \<Rightarrow> 's sched_scheme \<Rightarrow> 's sched_scheme" where
  "enter_table p s =
     upd_thread p (\<lambda>t. t\<lparr>rt_lock := spin_lock_init (rt_lock t),
                        name := ''thread-'' @ decimal (rt_tid (threads s p)) @ [CHR 0x0A]\<rparr>)
       (upd_links (init_list_head (Link p))
          (s\<lparr>sprt_tid_array := (sprt_tid_array s)(unat (rt_tid (threads s p)) := p)\<rparr>))"

lemma enter_table_thread [simp]:
  "rt_tid (threads (enter_table p s) q) = rt_tid (threads s q)"
  "status (threads (enter_table p s) q) = status (threads s q)"
  "to_status (threads (enter_table p s) q) = to_status (threads s q)"
  "sprt_attr (threads (enter_table p s) q) = sprt_attr (threads s q)"
  "attrs (enter_table p s) = attrs s" "sprt_work (enter_table p s) = sprt_work s"
  "sched_lock (enter_table p s) = sched_lock s"
  "thread_schedule_ref (enter_table p s) = thread_schedule_ref s"
  "thread_prio q (enter_table p s) = thread_prio q s"
  by (simp_all add: enter_table_def thread_prio_def real_thread_get_priority_def)

lemma enter_table_core:
  assumes c: "sched_core s r rs ss" and p: "fresh_thread s p"
  shows "two_queues (enter_table p s) ReadyHead rs SuspendHead ss"
    and "q \<in> live r rs ss \<Longrightarrow> registered (enter_table p s) q"
    and "registered (enter_table p s) p"
    and "t < REAL_THREAD_MAX_NUM \<Longrightarrow> sprt_tid_array (enter_table p s) t \<noteq> 0 \<Longrightarrow>
      sprt_tid_array (enter_table p s) t \<in> insert p (live r rs ss) \<and>
      unat (rt_tid (threads s (sprt_tid_array (enter_table p s) t))) = t"
proof -
  have n: "p \<notin> set rs" "p \<notin> set ss" using fresh_not_live [OF c p] by (auto simp: live_def)
  have q: "queue_at (enter_table p s) head xs" if "queue_at s head xs" "is_head head" "p \<notin> set xs" for head xs
  proof -
    have "Link p \<notin> set (head # map Link xs)" using that by auto
    moreover have "dlist (links s) head (map Link xs)" using that by (simp add: queue_at_def)
    ultimately have "dlist (init_list_head (Link p) (links s)) head (map Link xs)"
      using dlist_other_init by metis
    then show ?thesis using that by (simp add: queue_at_def) (simp add: enter_table_def)
  qed
  have "sprt_next (links (enter_table p s)) SleepHead = sprt_next (links s) SleepHead"
    by (simp add: enter_table_def init_list_head_def)
  then show "two_queues (enter_table p s) ReadyHead rs SuspendHead ss"
    using coreD(1) [OF c] q n by (auto simp: two_queues_def)
  show "registered (enter_table p s) q" if "q \<in> live r rs ss"
    using coreD(9) [OF c that] p by (auto simp: registered_def fresh_thread_def enter_table_def)
  show "registered (enter_table p s) p"
    using p by (auto simp: registered_def fresh_thread_def enter_table_def)
  show "sprt_tid_array (enter_table p s) t \<in> insert p (live r rs ss) \<and>
      unat (rt_tid (threads s (sprt_tid_array (enter_table p s) t))) = t"
    if "t < REAL_THREAD_MAX_NUM" "sprt_tid_array (enter_table p s) t \<noteq> 0"
    using that c by (auto simp: enter_table_def sched_core_def)
qed

lemma register_ok:
  assumes ok: "sched_ok s r rs ss" and p: "fresh_thread s p" and k: "rt_tid (threads s p) = k"
  shows "results (register_new_thread p k s) ER_NORMAL r (prio_insert (\<lambda>p. thread_prio p s) p rs) ss"
proof -
  let ?rs = "prio_insert (\<lambda>p. thread_prio p s) p rs"
  have c: "sched_core s r rs ss" "tidy s r rs ss" "\<not> spin_is_locked (sched_lock s)"
    using ok by (simp_all add: sched_ok_def)
  obtain s1 where s1: "sched_lock_irqsave s = Some s1" "same_sched s s1" "counter (sgrt_atc (sched_lock s1)) = 1"
    using lock_step [OF c(3)] by blast
  have c1: "sched_core s1 r rs ss" "tidy s1 r rs ss" using c s1(2) by simp_all
  have p1: "fresh_thread s1 p" using p s1(2) by (simp add: fresh_thread_def same_sched_def)
  have k1: "rt_tid (threads s1 p) = k" using k s1(2) by (simp add: same_sched_def)
  let ?s2 = "enter_table p s1"
  note e = enter_table_core [OF c1(1) p1]
  have n: "p \<notin> set rs" "p \<notin> set ss" "p \<noteq> 0" "p \<noteq> r"
    using fresh_not_live [OF c1(1) p1] p1 by (auto simp: live_def fresh_thread_def)
  have st: "status (threads ?s2 p) \<noteq> NR_THREAD_READY" using p1 by (simp add: fresh_thread_def)
  obtain g where g: "schedule_add_list NR_THREAD_READY ReadyHead k ?s2 = Some (ER_NORMAL, upd_links g ?s2)"
      "two_queues (upd_links g ?s2) ReadyHead ?rs SuspendHead ss"
    using add_list_step [OF e(1,3) _ n(1,2) st, of k] k1 s1(2) by auto
  let ?s3 = "upd_thread p (\<lambda>t. t\<lparr>status := NR_THREAD_READY, to_status := NR_THREAD_NONE\<rparr>) (upd_links g ?s2)"
  have reg: "registered (upd_links g ?s2) q = registered ?s2 q" "registered ?s3 q = registered ?s2 q" for q
    by (simp_all add: registered_def)
  have sync: "SYNC_THREAD_STATUS k NR_THREAD_READY (upd_links g ?s2) = Some ?s3"
    using sync_status [of "upd_links g ?s2" p NR_THREAD_READY k] e(3) reg k1 by simp
  have "register_new_thread p k s = Some (ER_NORMAL, sched_unlock_irqrestore ?s3)"
    using p k k1 s1 g(1) sync
    by (simp add: register_new_thread_def SCHED_THREAD_HANDLER_def fresh_thread_def Let_def enter_table_def
        schedule_add_ready_list_def same_sched_def)
  moreover have "sched_core ?s3 r ?rs ss"
  proof -
    have t: "two_queues ?s3 ReadyHead ?rs SuspendHead ss"
      using g(2) by (subst two_queues_cong [OF only_status_sync]) simp_all
    have l: "live r ?rs ss = insert p (live r rs ss)" by (auto simp: live_def)
    have tab: "\<forall>t < REAL_THREAD_MAX_NUM. sprt_tid_array ?s3 t \<noteq> 0 \<longrightarrow>
        sprt_tid_array ?s3 t \<in> insert p (live r rs ss) \<and>
        unat (rt_tid (threads ?s3 (sprt_tid_array ?s3 t))) = t"
    proof (intro allI impI)
      fix t :: nat assume "t < REAL_THREAD_MAX_NUM" "sprt_tid_array ?s3 t \<noteq> 0"
      from e(4) [OF this(1)] this(2)
      show "sprt_tid_array ?s3 t \<in> insert p (live r rs ss) \<and>
        unat (rt_tid (threads ?s3 (sprt_tid_array ?s3 t))) = t"
        by (cases "sprt_tid_array ?s2 t = p") auto
    qed
    show ?thesis
      unfolding sched_core_def l using t tab e(2,3) reg n coreD [OF c1(1)] by auto
  qed
  moreover have "tidy ?s3 r ?rs ss" using c1(2) n by (auto simp: tidy_def live_def)
  ultimately show ?thesis
    using s1(3) unlock_step [of ?s3] by (simp add: results_def sched_ok_def)
qed

end
