(* ===== verification/Sched_Props.thy ===== *)
theory Sched_Props
  imports Sched_Ops
begin

text \<open>
  The scheduler as a transition system, from the statically initialised tables of \<^verbatim>\<open>sched.c\<close>, and
  the scheduler's main properties.
\<close>

section \<open>The initial state\<close>

definition zero_thread :: real_thread where
  "zero_thread = \<lparr>name = [], rt_tid = 0, status = 0, to_status = 0, start_routine = 0, sprt_attr = 0,
     ptr_args = 0, rt_expires = 0, flags = 0, rt_lock = SPIN_LOCK_INIT\<rparr>"

definition zero_attr :: real_thread_attr where
  "zero_attr = \<lparr>detachstate = 0, schedpolicy = 0, inheritsched = 0, sched_priority = 0,
     sched_curpriority = 0, mrt_sched_init_budget = \<lparr>tv_sec = 0, tv_nsec = 0\<rparr>,
     ptr_stack_start = 0, stack_addr = 0, stacksize = 0\<rparr>"

text \<open>The static initialiser of \<^verbatim>\<open>sgrt_real_thread_Tabs\<close>; the head of the sleep list is given the
  address of the ready list.\<close>

definition init_link :: "sched_node \<Rightarrow> sched_node" where
  "init_link n = (case n of SleepHead \<Rightarrow> ReadyHead | _ \<Rightarrow> n)"

definition sched_init :: sched where
  "sched_init = \<lparr>jiffies = 86399999, jiffies_out = 0, g_simple_delay_timer = 0, g_simple_timeout_cnt = 0,
     g_delay_timer_counter = 0, timer_links = \<lparr>sprt_prev = id, sprt_next = id\<rparr>,
     timers = (\<lambda>_. \<lparr>expires = 0, timer_entry = 0, timer_data = 0\<rparr>),
     links = \<lparr>sprt_prev = init_link, sprt_next = init_link\<rparr>,
     threads = (\<lambda>_. zero_thread), attrs = (\<lambda>_. zero_attr), cnt_out = 0, sched_cnt = 0,
     sprt_work = 0, sprt_tid_array = (\<lambda>_. 0), sched_lock = SPIN_LOCK_INIT,
     the_cpu = \<lparr>cpsr = 19, g_sched_preempt_cnt = 0\<rparr>, thread_schedule_ref = 0\<rparr>"

lemma sched_init_ok: "sched_ok sched_init 0 [] []"
  by (simp add: sched_ok_def sched_core_def tidy_def two_queues_def queue_at_def live_def sched_init_def
      mrt_list_head_empty_def init_link_def spin_is_locked_def SPIN_LOCK_INIT_def)

section \<open>Steps\<close>

text \<open>
  The calls of the scheduler's interface, the preemption path of the interrupt return (which
  enters \<^verbatim>\<open>__schedule_thread\<close> without the lock), the ticks of the clock, and the preparation of
  memory for a new thread: a structure no table entry points to and an attribute no registered
  thread uses.
\<close>

inductive sched_step :: "'s sched_scheme \<Rightarrow> 's sched_scheme \<Rightarrow> bool" where
  yield: "schedule_thread s = Some s' \<Longrightarrow> sched_step s s'"
| preempt: "schedule_thread_pick s = Some (Some ctx, t) \<Longrightarrow> context_switch t = Some s' \<Longrightarrow> sched_step s s'"
| self_suspend: "schedule_self_suspend s = Some s' \<Longrightarrow> sched_step s s'"
| suspend: "schedule_thread_suspend k s = Some (e, s') \<Longrightarrow> sched_step s s'"
| wakeup: "sprt_work s \<noteq> 0 \<Longrightarrow> schedule_thread_wakeup k s = Some (e, s') \<Longrightarrow> sched_step s s'"
| register: "fresh_thread s p \<Longrightarrow> register_new_thread p (rt_tid (threads s p)) s = Some (e, s') \<Longrightarrow>
     sched_step s s'"
| tick: "sched_step s (s\<lparr>jiffies := j\<rparr>)"
| prepare: "\<forall>t < REAL_THREAD_MAX_NUM. sprt_tid_array s t \<noteq> 0 \<longrightarrow>
       sprt_tid_array s t \<noteq> p \<and> sprt_attr (threads s (sprt_tid_array s t)) \<noteq> a \<Longrightarrow>
     sched_step s (s\<lparr>threads := (threads s)(p := th), attrs := (attrs s)(a := at)\<rparr>)"

inductive_cases sched_stepE: "sched_step s t"

lemma core_table:
  assumes "sched_core s r rs ss" "q \<in> live r rs ss"
  shows "\<exists>t < REAL_THREAD_MAX_NUM. sprt_tid_array s t = q \<and> q \<noteq> 0"
  using coreD(9) [OF assms] by (auto simp: registered_def)

lemma core_numbered:
  assumes c: "sched_core s r rs ss" and k: "thread_of k s = Some p"
  shows "p \<in> live r rs ss \<and> rt_tid (threads s p) = k"
proof -
  have "unat k < REAL_THREAD_MAX_NUM" "sprt_tid_array s (unat k) = p" "p \<noteq> 0"
    using k by (auto simp: thread_of_def SCHED_THREAD_HANDLER_def split: if_splits)
  then have "p \<in> live r rs ss" "unat (rt_tid (threads s p)) = unat k"
    using c unfolding sched_core_def by auto
  then show ?thesis by (simp add: word_unat_eq_iff)
qed

lemma same_sched_lock: "sched_lock_irqsave s = Some s1 \<Longrightarrow> same_sched s s1"
  by (auto simp: sched_lock_irqsave_def same_sched_def split: option.splits)

lemma thread_of_cong: "sprt_tid_array s' = sprt_tid_array s \<Longrightarrow> thread_of k s' = thread_of k s"
  by (simp add: thread_of_def SCHED_THREAD_HANDLER_def)

lemma self_suspend_running:
  assumes "schedule_self_suspend s = Some s'"
  shows "sprt_work s \<noteq> 0"
proof -
  obtain s1 p where "sched_lock_irqsave s = Some s1" "running_thread s1 = Some p"
    using assms by (auto simp: schedule_self_suspend_def bind_Some_iff)
  then show ?thesis using same_sched_lock [of s s1]
    by (auto simp: running_thread_def same_sched_def split: if_splits)
qed

lemma suspend_numbered:
  assumes "schedule_thread_suspend k s = Some x"
  shows "sprt_work s \<noteq> 0 \<and> (k = rt_tid (threads s (sprt_work s)) \<or> (\<exists>p. thread_of k s = Some p))"
proof -
  have w: "running_thread s = Some (sprt_work s)" "sprt_work s \<noteq> 0"
    using assms by (auto simp: schedule_thread_suspend_def running_thread_def split: if_splits)
  show ?thesis
  proof (cases "k = rt_tid (threads s (sprt_work s))")
    case False
    then obtain s1 s2 where "sched_lock_irqsave s = Some s1" "SET_THREAD_STATUS k NR_THREAD_SUSPEND s1 = Some s2"
      using assms w by (auto simp: schedule_thread_suspend_def bind_Some_iff)
    then have "\<exists>p. thread_of k s1 = Some p" "same_sched s s1"
      by (auto simp: SET_THREAD_STATUS_def bind_Some_iff same_sched_lock)
    then show ?thesis using w(2) thread_of_cong [of s1 s k] by (simp add: same_sched_def)
  qed (use w in blast)
qed

lemma prepare_ok:
  assumes ok: "sched_ok s r rs ss"
    and n: "\<forall>t < REAL_THREAD_MAX_NUM. sprt_tid_array s t \<noteq> 0 \<longrightarrow>
       sprt_tid_array s t \<noteq> p \<and> sprt_attr (threads s (sprt_tid_array s t)) \<noteq> a"
  shows "sched_ok (s\<lparr>threads := (threads s)(p := th), attrs := (attrs s)(a := at)\<rparr>) r rs ss"
proof -
  let ?s = "s\<lparr>threads := (threads s)(p := th), attrs := (attrs s)(a := at)\<rparr>"
  have c: "sched_core s r rs ss" using ok by (simp add: sched_ok_def)
  have l: "q \<noteq> p \<and> sprt_attr (threads s q) \<noteq> a" if "q \<in> live r rs ss" for q
    using core_table [OF c that] n by blast
  have pr: "thread_prio q ?s = thread_prio q s" if "q \<in> live r rs ss" for q
    using l [OF that] by (simp add: thread_prio_def real_thread_get_priority_def)
  have m: "map (\<lambda>q. thread_prio q ?s) rs = map (\<lambda>q. thread_prio q s) rs"
      "map (\<lambda>q. thread_prio q ?s) ss = map (\<lambda>q. thread_prio q s) ss"
    by (rule map_cong [OF refl], rule pr, simp add: live_def)+
  have q: "queue_at ?s ReadyHead rs" "queue_at ?s SuspendHead ss"
    using coreD(1) [OF c] unfolding two_queues_def queue_at_def m by simp_all
  have th: "threads ?s q = threads s q" if "q \<in> live r rs ss" for q
    using l [OF that] by simp
  have reg: "registered ?s q" if "q \<in> live r rs ss" for q
    using th [OF that] coreD(9) [OF c that] by (simp add: registered_def)
  have st: "\<forall>q \<in> set rs. status (threads ?s q) = NR_THREAD_READY"
      "\<forall>q \<in> set ss. status (threads ?s q) = NR_THREAD_SUSPEND \<and> rt_tid (threads ?s q) \<noteq> REAL_THREAD_TID_IDLE"
      "r \<noteq> 0 \<longrightarrow> status (threads ?s r) = NR_THREAD_RUNNING"
    using th coreD(5,6,7,8) [OF c] by (simp_all only: live_def) auto
  have "sched_core ?s r rs ss"
    unfolding sched_core_def
  proof (intro conjI st)
    show "two_queues ?s ReadyHead rs SuspendHead ss"
      using q coreD(1) [OF c] by (simp add: two_queues_def)
    show "\<forall>t<REAL_THREAD_MAX_NUM. sprt_tid_array ?s t \<noteq> 0 \<longrightarrow>
        sprt_tid_array ?s t \<in> live r rs ss \<and> unat (rt_tid (threads ?s (sprt_tid_array ?s t))) = t"
      using c n by (simp add: sched_core_def)
  qed (use reg coreD(2,3,4) [OF c] in auto)
  moreover have "tidy ?s r rs ss" using ok l by (auto simp: sched_ok_def tidy_def live_def)
  ultimately show ?thesis using ok by (simp add: sched_ok_def)
qed

lemma sched_step_ok:
  assumes step: "sched_step s s'" and ok: "\<exists>r rs ss. sched_ok s r rs ss"
  shows "\<exists>r rs ss. sched_ok s' r rs ss"
proof -
  from ok obtain r rs ss where ok: "sched_ok s r rs ss" by blast
  then have c: "sched_core s r rs ss" and t: "tidy s r rs ss" by (simp_all add: sched_ok_def)
  have w: "sprt_work s = r" by (rule coreD(2) [OF c])
  from step show ?thesis
  proof cases
    case yield
    obtain r' rs' ss' where "abs_schedule (\<lambda>p. thread_prio p s) (to_status (threads s r) = NR_THREAD_SUSPEND)
        (rt_tid (threads s r) = REAL_THREAD_TID_IDLE) r rs ss = (r', rs', ss')" by (metis prod_cases3)
    from schedule_thread_ok [OF ok this] yield show ?thesis by auto
  next
    case (preempt ctx u)
    obtain r' rs' ss' where a: "abs_schedule (\<lambda>p. thread_prio p s) (to_status (threads s r) = NR_THREAD_SUSPEND)
        (rt_tid (threads s r) = REAL_THREAD_TID_IDLE) r rs ss = (r', rs', ss')" by (metis prod_cases3)
    have u: "sched_core u r' rs' ss'" "tidy u r' rs' ss'" "sched_lock u = sched_lock s"
      using pick_step [OF c t a] preempt(1) by (auto simp: picked_def)
    have "r' \<noteq> 0" using preempt(2) coreD(2) [OF u(1)]
      by (auto simp: context_switch_def real_thread_init_before_def running_thread_def)
    from context_switch_ok [OF u(1,2) this] preempt(2) u(3) ok show ?thesis
      by (auto simp: sched_ok_def)
  next
    case self_suspend
    have r: "r \<noteq> 0" using self_suspend_running [OF self_suspend] w by simp
    obtain r' rs' ss' where "abs_schedule (\<lambda>p. thread_prio p s) True
        (rt_tid (threads s r) = REAL_THREAD_TID_IDLE) r rs ss = (r', rs', ss')" by (metis prod_cases3)
    from self_suspend_ok [OF ok r this] self_suspend show ?thesis by auto
  next
    case (suspend k e)
    have r: "r \<noteq> 0" using suspend_numbered [OF suspend] w by simp
    show ?thesis
    proof (cases "k = rt_tid (threads s r)")
      case True
      obtain r' rs' ss' where "abs_schedule (\<lambda>p. thread_prio p s) True
        (rt_tid (threads s r) = REAL_THREAD_TID_IDLE) r rs ss = (r', rs', ss')" by (metis prod_cases3)
      from self_suspend_ok [OF ok r this] suspend True w r have "sched_ok s' r' rs' ss'"
        by (auto simp: schedule_thread_suspend_def running_thread_def)
      then show ?thesis by blast
    next
      case False
      then obtain p where p: "p \<in> live r rs ss" "rt_tid (threads s p) = k" "p \<noteq> r"
        using suspend_numbered [OF suspend] w core_numbered [OF c] by auto
      from suspend_other_ok [OF ok r p(1,3,2)] suspend show ?thesis
        by (auto simp: results_def split: if_splits)
    qed
  next
    case (wakeup k e)
    obtain p where "thread_of k s = Some p"
      using wakeup(2) by (auto simp: schedule_thread_wakeup_def GET_THREAD_STATUS_def bind_Some_iff)
    with core_numbered [OF c] wakeup_ok [OF ok, of p k] wakeup w ok show ?thesis
      by (auto simp: results_def split: if_splits)
  next
    case (register p e)
    with register_ok [OF ok register(1) refl] show ?thesis by (auto simp: results_def)
  next
    case (tick j)
    have "sched_core s' r rs ss = sched_core s r rs ss" unfolding tick by (rule sched_core_cong) simp_all
    then show ?thesis using ok tick by (auto simp: sched_ok_def tidy_def)
  next
    case (prepare p a th at)
    then show ?thesis using prepare_ok [OF ok] by blast
  qed
qed

lemma sched_reachable_ok: "sched_step\<^sup>*\<^sup>* sched_init s \<Longrightarrow> \<exists>r rs ss. sched_ok s r rs ss"
proof (induction rule: rtranclp_induct)
  case base
  then show ?case using sched_init_ok by blast
next
  case (step t u)
  then show ?case using sched_step_ok by blast
qed

section \<open>The ready list as a priority queue\<close>

definition ready_queue ::
  "kuaddr_t set \<Rightarrow> (kuaddr_t \<Rightarrow> kuint32_t) \<Rightarrow> 's sched_scheme \<Rightarrow> kuaddr_t list \<Rightarrow> bool" where
  "ready_queue U K s xs \<longleftrightarrow> queue_at s ReadyHead xs \<and> set xs \<subseteq> U \<and>
     (\<forall>p \<in> U. registered s p \<and> thread_prio p s = K p)"

definition make_ready :: "kuaddr_t \<Rightarrow> 's sched_scheme \<Rightarrow> 's sched_scheme option" where
  "make_ready p s = map_option snd (schedule_add_status_list p ReadyHead s)"

interpretation rq: prio_queue U K "ready_queue U K" make_ready for U K
proof unfold_locales
  fix s :: "'s sched_scheme" and xs x
  assume q: "ready_queue U K s xs" and x: "x \<in> U" "x \<notin> set xs"
  have "queue_at s ReadyHead xs" "registered s x" using q x by (auto simp: ready_queue_def)
  from add_status_list_queue [OF this x(2)] obtain a where
    a: "schedule_add_status_list x ReadyHead s = Some (ER_NORMAL, upd_links (list_head_add_head a (Link x)) s)"
      "queue_at (upd_links (list_head_add_head a (Link x)) s) ReadyHead (prio_insert (\<lambda>p. thread_prio p s) x xs)"
    by auto
  moreover have "prio_insert (\<lambda>p. thread_prio p s) x xs = prio_insert K x xs"
    using q x by (intro prio_insert_cong) (auto simp: ready_queue_def)
  moreover have "registered (upd_links g s) p = registered s p" for g p by (simp add: registered_def)
  ultimately show "\<exists>h'. make_ready x s = Some h' \<and> ready_queue U K h' (prio_insert K x xs)"
    using q x by (auto simp: make_ready_def ready_queue_def)
qed

section \<open>The sleep list\<close>

text \<open>A walk from the head of the sleep list enters the ring of another list and never leaves it.\<close>

lemma walk_next_trapped:
  assumes "\<And>n. n \<in> R \<Longrightarrow> n \<noteq> head \<and> \<not> P n \<and> sprt_next h n \<in> R" and "pos \<in> R"
  shows "walk_next h head P pos = None"
proof -
  have "walk_next h' head' P' pos = Some r \<Longrightarrow> h' = h \<longrightarrow> head' = head \<longrightarrow> P' = P \<longrightarrow> pos \<notin> R"
    for h' head' P' pos r
  proof (rule walk_next.raw_induct [where P = "\<lambda>h' head' P' pos r. h' = h \<longrightarrow> head' = head \<longrightarrow> P' = P \<longrightarrow> pos \<notin> R"])
    fix f h' head' P' pos r
    assume IH: "\<And>h' head' P' pos r. f h' head' P' pos = Some r \<Longrightarrow> h' = h \<longrightarrow> head' = head \<longrightarrow> P' = P \<longrightarrow> pos \<notin> R"
      and eq: "(if pos = head' then Some None else if P' pos then Some (Some pos)
                else f h' head' P' (sprt_next h' pos)) = Some r"
    show "h' = h \<longrightarrow> head' = head \<longrightarrow> P' = P \<longrightarrow> pos \<notin> R"
      using eq IH [of h head P "sprt_next h pos" r] assms(1) [of pos] by (auto split: if_splits)
  qed
  then show ?thesis using assms(2) by (cases "walk_next h head P pos") auto
qed

lemma sleep_find_hangs:
  assumes t: "two_queues s ReadyHead rs SuspendHead ss" and p: "p \<notin> set rs"
  shows "foreach_next (links s) SleepHead (\<lambda>n. n = Link p) = None"
proof -
  have d: "dlist (links s) ReadyHead (map Link rs)" "sprt_next (links s) SleepHead = ReadyHead"
    using t by (auto simp: two_queues_def queue_at_def)
  show ?thesis
    unfolding foreach_next_def d(2)
    by (rule walk_next_trapped [where R = "set (ReadyHead # map Link rs)"])
       (use dlist_next_in [OF d(1)] p in auto)
qed

lemma sleep_add_hangs:
  assumes t: "two_queues s ReadyHead rs SuspendHead ss" and p: "registered s p" "p \<notin> set rs"
    and k: "rt_tid (threads s p) = k" "status (threads s p) \<noteq> NR_THREAD_SLEEP"
  shows "schedule_add_sleep_list k s = None"
proof -
  have "\<not> mrt_list_head_empty (links s) SleepHead"
    using t by (auto simp: two_queues_def mrt_list_head_empty_def)
  then show ?thesis
    using p k registered_handler(1) [OF p(1)] sleep_find_hangs [OF t p(2)]
    by (auto simp: schedule_add_sleep_list_def schedule_add_list_def schedule_add_status_list_def
        find_thread_from_scheduler_def registered_def Let_def)
qed

section \<open>Finding a free thread number\<close>

lemma unused_tid_loop_spec:
  "unat i + n \<le> REAL_THREAD_MAX_NUM \<Longrightarrow>
     unused_tid_loop n i s =
       Some (case find (\<lambda>t. sprt_tid_array s t = 0) [unat i ..< unat i + n] of
               None \<Rightarrow> - ER_MORE | Some t \<Rightarrow> int t)"
proof (induction n arbitrary: i)
  case (Suc n)
  have i: "unat i < REAL_THREAD_MAX_NUM" using Suc.prems by simp
  have nx: "unat (i + 1) = Suc (unat i)"
    using i unat_add_lem [of i 1] by simp
  have "sint i = int (unat i)"
  proof -
    have "uint i < 128" using i unfolding uint_nat by linarith
    then have "sint i = uint i" by (simp only: sint_32) simp
    then show ?thesis by simp
  qed
  moreover have "unused_tid_loop n (i + 1) s =
       Some (case find (\<lambda>t. sprt_tid_array s t = 0) [Suc (unat i) ..< Suc (unat i) + n] of
               None \<Rightarrow> - ER_MORE | Some t \<Rightarrow> int t)"
    using Suc.IH [of "i + 1"] Suc.prems nx by (simp del: upt_Suc)
  moreover have "[unat i ..< unat i + Suc n] = unat i # [Suc (unat i) ..< Suc (unat i) + n]"
    by (simp add: upt_conv_Cons del: upt_Suc)
  ultimately show ?case
    using i by (simp add: SCHED_THREAD_HANDLER_def del: upt_Suc)
qed simp

section \<open>A concrete state\<close>

text \<open>Thread 32 runs, the idle thread is ready and thread 33 is suspended.\<close>

definition demo_thread :: "kuaddr_t \<Rightarrow> real_thread" where
  "demo_thread p = zero_thread\<lparr>rt_tid := (if p = 4096 then 0 else if p = 8192 then 32 else 33),
     status := (if p = 4096 then NR_THREAD_READY else if p = 8192 then NR_THREAD_RUNNING else NR_THREAD_SUSPEND),
     sprt_attr := p\<rparr>"

definition demo_attr :: "kuaddr_t \<Rightarrow> real_thread_attr" where
  "demo_attr p = zero_attr\<lparr>sched_curpriority := (if p = 4096 then 98 else 80), stack_addr := 65536,
     mrt_sched_init_budget := \<lparr>tv_sec = 0, tv_nsec = 40000000\<rparr>\<rparr>"

definition demo :: sched where
  "demo = sched_init\<lparr>
     links := list_head_add_head ReadyHead (Link 4096)
                (list_head_add_head SuspendHead (Link 12288) (links sched_init)),
     threads := demo_thread, attrs := demo_attr, sprt_work := 8192, thread_schedule_ref := 1,
     sprt_tid_array := (\<lambda>_. 0)(0 := 4096, 32 := 8192, 33 := 12288)\<rparr>"

lemma demo_sel [simp]:
  "threads demo = demo_thread" "attrs demo = demo_attr" "sprt_work demo = 8192"
  "thread_schedule_ref demo = 1" "sched_lock demo = SPIN_LOCK_INIT"
  "sprt_tid_array demo = (\<lambda>_. 0)(0 := 4096, 32 := 8192, 33 := 12288)"
  by (simp_all add: demo_def sched_init_def)

lemma demo_queues: "two_queues demo ReadyHead [4096] SuspendHead [12288]"
  by (simp add: two_queues_def queue_at_def dlist_def)
     (simp add: demo_def sched_init_def init_link_def list_head_add_head_def Let_def)

lemma demo_ok: "sched_ok demo 8192 [4096] [12288]"
proof -
  have "sched_core demo 8192 [4096] [12288]"
    using demo_queues
    by (simp add: sched_core_def live_def registered_def demo_thread_def zero_thread_def)
  moreover have "tidy demo 8192 [4096] [12288]"
    by (simp add: tidy_def live_def demo_thread_def zero_thread_def)
  ultimately show ?thesis by (simp add: sched_ok_def spin_is_locked_def SPIN_LOCK_INIT_def)
qed

lemma demo_prio: "thread_prio p demo = (if p = 4096 then 98 else 80)"
  by (simp add: thread_prio_def real_thread_get_priority_def demo_thread_def demo_attr_def)

lemma demo_tid: "rt_tid (demo_thread p) = (if p = 4096 then 0 else if p = 8192 then 32 else 33)"
  "to_status (demo_thread p) = 0"
  by (simp_all add: demo_thread_def zero_thread_def)

text \<open>The boot sequence: the first thread is prepared, registered and scheduled.\<close>

lemma booted: "\<exists>s. sched_step\<^sup>*\<^sup>* sched_init s \<and> sched_ok s 4096 [] []"
proof -
  let ?s1 = "sched_init\<lparr>threads := (threads sched_init)(4096 := zero_thread\<lparr>sprt_attr := 8192\<rparr>),
     attrs := (attrs sched_init)(8192 := zero_attr\<lparr>stack_addr := 65536\<rparr>)\<rparr>"
  have n: "\<forall>t < REAL_THREAD_MAX_NUM. sprt_tid_array sched_init t \<noteq> 0 \<longrightarrow>
       sprt_tid_array sched_init t \<noteq> 4096 \<and> sprt_attr (threads sched_init (sprt_tid_array sched_init t)) \<noteq> 8192"
    by (simp add: sched_init_def)
  have st1: "sched_step sched_init ?s1" by (rule sched_step.prepare [OF n])
  have ok1: "sched_ok ?s1 0 [] []" by (rule prepare_ok [OF sched_init_ok n])
  have f: "fresh_thread ?s1 4096"
    by (simp add: fresh_thread_def sched_init_def zero_thread_def)
  obtain s2 where s2: "register_new_thread 4096 (rt_tid (threads ?s1 4096)) ?s1 = Some (ER_NORMAL, s2)"
      "sched_ok s2 0 [4096] []"
    using register_ok [OF ok1 f refl] by (auto simp: results_def prio_insert_Cons)
  obtain s3 where s3: "schedule_thread s2 = Some s3" "sched_ok s3 4096 [] []"
    using schedule_thread_ok [OF s2(2)] by (auto simp: abs_schedule_def)
  have "sched_step\<^sup>*\<^sup>* sched_init s3"
    using st1 sched_step.register [OF f s2(1)] sched_step.yield [OF s3(1)]
    by (meson rtranclp.rtrancl_into_rtrancl rtranclp.rtrancl_refl)
  with s3(2) show ?thesis by blast
qed

section \<open>Properties\<close>

text \<open>C1: In every state the scheduler can reach, the two lists are intact doubly linked rings sorted by
  priority, and every thread of the table is in exactly one place, the one its status word names:
  running, linked once into the ready list, or linked once into the suspend list.\<close>

theorem sched_reachable_wellformed:
  assumes "sched_step\<^sup>*\<^sup>* sched_init s"
  shows "\<exists>rs ss. list_nodes (links s) ReadyHead = Some (map Link rs) \<and>
     list_nodes (links s) SuspendHead = Some (map Link ss) \<and>
     sorted (map (\<lambda>p. thread_prio p s) rs) \<and> sorted (map (\<lambda>p. thread_prio p s) ss) \<and>
     distinct (sprt_work s # rs @ ss) \<and>
     (\<forall>t < 128. \<forall>p. sprt_tid_array s t = p \<and> p \<noteq> 0 \<longrightarrow>
        unat (rt_tid (threads s p)) = t \<and>
        (p = sprt_work s \<and> status (threads s p) = NR_THREAD_RUNNING \<or>
         p \<in> set rs \<and> status (threads s p) = NR_THREAD_READY \<or>
         p \<in> set ss \<and> status (threads s p) = NR_THREAD_SUSPEND))"
proof -
  obtain r rs ss where c: "sched_core s r rs ss"
    using sched_reachable_ok [OF assms] by (auto simp: sched_ok_def)
  have q: "queue_at s ReadyHead rs" "queue_at s SuspendHead ss"
    using coreD(1) [OF c] by (auto simp: two_queues_def)
  then have l: "list_nodes (links s) ReadyHead = Some (map Link rs)"
      "list_nodes (links s) SuspendHead = Some (map Link ss)"
      "sorted (map (\<lambda>p. thread_prio p s) rs)" "sorted (map (\<lambda>p. thread_prio p s) ss)"
    by (simp_all add: queue_at_def list_nodes_dlist)
  have d: "distinct (sprt_work s # rs @ ss)"
    using coreD(2,3,4,13,14,15) [OF c] by auto
  have t: "unat (rt_tid (threads s p)) = t \<and>
        (p = sprt_work s \<and> status (threads s p) = NR_THREAD_RUNNING \<or>
         p \<in> set rs \<and> status (threads s p) = NR_THREAD_READY \<or>
         p \<in> set ss \<and> status (threads s p) = NR_THREAD_SUSPEND)"
    if "t < 128" "sprt_tid_array s t = p" "p \<noteq> 0" for t p
  proof -
    have "p \<in> live r rs ss" "unat (rt_tid (threads s p)) = t"
      using c that unfolding sched_core_def by auto
    then show ?thesis using coreD(2,5,6,8) [OF c] by (auto simp: live_def)
  qed
  show ?thesis using l d t by blast
qed

theorem sched_reachable_wellformed_witness:
  "\<exists>s. sched_step\<^sup>*\<^sup>* sched_init s \<and> sprt_work s = 4096 \<and>
     (\<exists>rs. list_nodes (links s) ReadyHead = Some (map Link rs) \<and> distinct (4096 # rs))"
proof -
  obtain s where r: "sched_step\<^sup>*\<^sup>* sched_init s" "sched_ok s 4096 [] []" using booted by blast
  then have w: "sprt_work s = 4096" by (simp add: sched_ok_def sched_core_def)
  show ?thesis using sched_reachable_wellformed [OF r(1)] r(1) w by auto
qed

text \<open>C2: One call of \<^verbatim>\<open>schedule_thread\<close> in a well-formed state returns and does to the represented state
  exactly what its specification says: the head of the sorted ready list runs next, and the
  thread that ran goes back into the ready list behind its equals, or into the suspend list when
  it asked for that.  The invariant holds again and the scheduler lock is free.\<close>

theorem schedule_thread_refines:
  assumes "sched_ok s r rs ss"
    and "abs_schedule (\<lambda>p. thread_prio p s) (to_status (threads s r) = NR_THREAD_SUSPEND)
        (rt_tid (threads s r) = REAL_THREAD_TID_IDLE) r rs ss = (r', rs', ss')"
  shows "\<exists>s'. schedule_thread s = Some s' \<and> sched_ok s' r' rs' ss' \<and> sprt_work s' = r'"
  using schedule_thread_ok [OF assms] coreD(2) by (auto simp: sched_ok_def)

theorem schedule_thread_refines_witness:
  "\<exists>s'. schedule_thread demo = Some s' \<and> sched_ok s' 4096 [8192] [12288] \<and> sprt_work s' = 4096"
  using schedule_thread_refines [OF demo_ok, of 4096 "[8192]" "[12288]"]
  by (simp add: abs_schedule_def demo_tid prio_insert_Cons)

text \<open>C4: In every reachable state in which a thread runs, the scheduler's calls on threads of the table
  return: no walk is endless, no null pointer is followed and the lock is not waited for.\<close>

theorem sched_calls_return:
  assumes "sched_step\<^sup>*\<^sup>* sched_init s" and "sprt_work s \<noteq> 0" and "thread_of k s = Some p"
  shows "schedule_thread s \<noteq> None \<and> schedule_self_suspend s \<noteq> None \<and>
     schedule_thread_suspend k s \<noteq> None \<and> schedule_thread_wakeup k s \<noteq> None"
proof -
  obtain r rs ss where ok: "sched_ok s r rs ss" using sched_reachable_ok [OF assms(1)] by blast
  then have c: "sched_core s r rs ss" by (simp add: sched_ok_def)
  have r: "r \<noteq> 0" "sprt_work s = r" using assms(2) coreD(2) [OF c] by auto
  have p: "p \<in> live r rs ss" "rt_tid (threads s p) = k" using core_numbered [OF c assms(3)] by auto
  have a: "schedule_thread s \<noteq> None"
  proof -
    obtain r' rs' ss' where "abs_schedule (\<lambda>p. thread_prio p s) (to_status (threads s r) = NR_THREAD_SUSPEND)
        (rt_tid (threads s r) = REAL_THREAD_TID_IDLE) r rs ss = (r', rs', ss')" by (metis prod_cases3)
    from schedule_thread_ok [OF ok this] show ?thesis by auto
  qed
  have b: "schedule_self_suspend s \<noteq> None"
  proof -
    obtain r' rs' ss' where "abs_schedule (\<lambda>p. thread_prio p s) True
        (rt_tid (threads s r) = REAL_THREAD_TID_IDLE) r rs ss = (r', rs', ss')" by (metis prod_cases3)
    from self_suspend_ok [OF ok r(1) this] show ?thesis by auto
  qed
  have "schedule_thread_suspend k s \<noteq> None"
  proof (cases "p = r")
    case True
    then show ?thesis using b p(2) r
      by (auto simp: schedule_thread_suspend_def running_thread_def)
  next
    case False
    from suspend_other_ok [OF ok r(1) p(1) False p(2)] show ?thesis
      by (auto simp: results_def split: if_splits)
  qed
  moreover have "schedule_thread_wakeup k s \<noteq> None"
    using wakeup_ok [OF ok r(1) p] by (auto simp: results_def split: if_splits)
  ultimately show ?thesis using a b by blast
qed

theorem sched_calls_return_witness:
  "\<exists>s. sched_step\<^sup>*\<^sup>* sched_init s \<and> sprt_work s = 4096 \<and> schedule_thread s \<noteq> None \<and>
     schedule_thread_suspend (rt_tid (threads s 4096)) s \<noteq> None"
proof -
  obtain s where r: "sched_step\<^sup>*\<^sup>* sched_init s" "sched_ok s 4096 [] []" using booted by blast
  then have c: "sched_core s 4096 [] []" by (simp add: sched_ok_def)
  have t: "thread_of (rt_tid (threads s 4096)) s = Some 4096"
    by (rule registered_handler(2), rule coreD(9) [OF c]) (simp add: live_def)
  have w: "sprt_work s = 4096" "sprt_work s \<noteq> 0" using coreD(2) [OF c] by simp_all
  show ?thesis using sched_calls_return [OF r(1) w(2) t] r(1) w(1) by blast
qed



text \<open>Waking up a suspended thread moves it from the suspend list into the ready list behind the
  threads of its priority; waking up a ready thread is refused without effect, and suspending
  it moves it the other way, unless it is the idle thread, which stays ready.\<close>

lemma suspend_wakeup_moves:
  assumes "sched_ok s r rs ss" and "r \<noteq> 0" and "p \<in> set ss" and "rt_tid (threads s p) = k"
    and "q \<in> set rs" and "rt_tid (threads s q) = j"
  shows "(\<exists>s'. schedule_thread_wakeup k s = Some (ER_NORMAL, s') \<and>
        sched_ok s' r (prio_insert (\<lambda>p. thread_prio p s) p rs) (remove1 p ss)) \<and>
     schedule_thread_wakeup j s = Some (- ER_UNVALID, s) \<and>
     (\<exists>s'. if j = REAL_THREAD_TID_IDLE
        then schedule_thread_suspend j s = Some (- ER_UNVALID, s') \<and> sched_ok s' r rs ss
        else schedule_thread_suspend j s = Some (ER_NORMAL, s') \<and>
          sched_ok s' r (remove1 q rs) (prio_insert (\<lambda>p. thread_prio p s) q ss))"
proof -
  have c: "sched_core s r rs ss" using assms(1) by (simp add: sched_ok_def)
  have l: "p \<in> live r rs ss" "q \<in> live r rs ss" using assms by (auto simp: live_def)
  have q: "q \<notin> set ss" "q \<noteq> r" using coreD(15) [OF c assms(5)] coreD(3) [OF c] assms(5) by auto
  show ?thesis
    using wakeup_ok [OF assms(1,2) l(2) assms(6)] wakeup_ok [OF assms(1,2) l(1) assms(4)]
      suspend_other_ok [OF assms(1,2) l(2) q(2) assms(6)] q assms(3,5)
    by (cases "j = REAL_THREAD_TID_IDLE") (auto simp: results_def)
qed

lemma suspend_wakeup_moves_witness:
  "(\<exists>s'. schedule_thread_wakeup 33 demo = Some (ER_NORMAL, s') \<and> sched_ok s' 8192 [12288, 4096] []) \<and>
   schedule_thread_wakeup 0 demo = Some (- ER_UNVALID, demo) \<and>
   (\<exists>s'. schedule_thread_suspend 0 demo = Some (- ER_UNVALID, s'))"
  using suspend_wakeup_moves [OF demo_ok, of 12288 33 4096 0]
  by (auto simp: demo_tid prio_insert_Cons demo_prio)

text \<open>Registering a prepared thread under its free number returns success, enters it into the thread
  table and puts it into the ready list behind the threads of its priority.\<close>

lemma register_new_thread_ready:
  assumes "sched_ok s r rs ss" and "fresh_thread s p" and "rt_tid (threads s p) = k"
  shows "\<exists>s'. register_new_thread p k s = Some (ER_NORMAL, s') \<and>
     sched_ok s' r (prio_insert (\<lambda>p. thread_prio p s) p rs) ss \<and> thread_of (rt_tid (threads s' p)) s' = Some p"
proof -
  obtain s' where s': "register_new_thread p k s = Some (ER_NORMAL, s')"
      "sched_ok s' r (prio_insert (\<lambda>p. thread_prio p s) p rs) ss"
    using register_ok [OF assms] by (auto simp: results_def)
  then have c: "sched_core s' r (prio_insert (\<lambda>p. thread_prio p s) p rs) ss" by (simp add: sched_ok_def)
  have "registered s' p" by (rule coreD(10) [OF c]) simp
  with s' registered_handler(2) show ?thesis by blast
qed

lemma register_new_thread_ready_witness:
  "\<exists>s'. register_new_thread 16384 33
       (demo\<lparr>sprt_tid_array := (sprt_tid_array demo)(33 := 0),
             threads := (threads demo)(16384 := zero_thread\<lparr>rt_tid := 33, sprt_attr := 16384\<rparr>),
             links := list_head_add_head ReadyHead (Link 4096) (links sched_init)\<rparr>) =
     Some (ER_NORMAL, s') \<and> sched_ok s' 8192 [16384, 4096] []"
proof -
  let ?s = "demo\<lparr>sprt_tid_array := (sprt_tid_array demo)(33 := 0),
             threads := (threads demo)(16384 := zero_thread\<lparr>rt_tid := 33, sprt_attr := 16384\<rparr>),
             links := list_head_add_head ReadyHead (Link 4096) (links sched_init)\<rparr>"
  have q: "two_queues ?s ReadyHead [4096] SuspendHead []"
    by (simp add: two_queues_def queue_at_def dlist_def mrt_list_head_empty_def)
       (simp add: sched_init_def init_link_def list_head_add_head_def Let_def)
  have "sched_core ?s 8192 [4096] []"
    using q by (simp add: sched_core_def live_def registered_def demo_thread_def zero_thread_def)
  moreover have "tidy ?s 8192 [4096] []" by (simp add: tidy_def live_def demo_thread_def zero_thread_def)
  ultimately have ok: "sched_ok ?s 8192 [4096] []"
    by (simp add: sched_ok_def spin_is_locked_def SPIN_LOCK_INIT_def)
  have f: "fresh_thread ?s 16384" by (simp add: fresh_thread_def zero_thread_def demo_attr_def)
  have pr: "thread_prio 16384 ?s = 80" "thread_prio 4096 ?s = 98"
    by (simp_all add: thread_prio_def real_thread_get_priority_def demo_thread_def demo_attr_def)
  show ?thesis using register_new_thread_ready [OF ok f, of 33] pr by (auto simp: prio_insert_Cons)
qed



text \<open>\<^verbatim>\<open>get_unused_tid_from_scheduler\<close> returns the smallest free number of its range, or \<^verbatim>\<open>-ER_MORE\<close> when
  every number of the range is taken, and leaves the table and the lock as they were.\<close>

lemma unused_tid_smallest:
  assumes "\<not> spin_is_locked (sched_lock s)" and "unat i + unat n \<le> 128"
  shows "\<exists>s'. get_unused_tid_from_scheduler i n s =
       Some (case find (\<lambda>t. sprt_tid_array s t = 0) [unat i ..< unat i + unat n] of
               None \<Rightarrow> - ER_MORE | Some t \<Rightarrow> int t, s') \<and>
     same_sched s s' \<and> \<not> spin_is_locked (sched_lock s')"
proof -
  obtain s1 where s1: "sched_lock_irqsave s = Some s1" "same_sched s s1" "counter (sgrt_atc (sched_lock s1)) = 1"
    using lock_step [OF assms(1)] by blast
  have n: "unat (i + n) - unat i = unat n" using assms(2) unat_add_lem [of i n] by simp
  have a: "sprt_tid_array s1 = sprt_tid_array s" using s1(2) by (simp add: same_sched_def)
  have "same_sched s (sched_unlock_irqrestore s1)" using same_sched_trans [OF s1(2)] by simp
  then show ?thesis
    using s1(1) n a unused_tid_loop_spec [of i "unat n" s1] assms(2) unlock_step [OF s1(3)]
    by (simp add: get_unused_tid_from_scheduler_def)
qed

lemma unused_tid_smallest_witness:
  "\<exists>s'. get_unused_tid_from_scheduler 32 96 demo = Some (34, s')"
proof -
  have l: "\<not> spin_is_locked (sched_lock demo)" by (simp add: spin_is_locked_def SPIN_LOCK_INIT_def)
  have "[unat (32 :: kuint32_t) ..< unat (32 :: kuint32_t) + unat (96 :: kuint32_t)] = 32 # 33 # 34 # [35 ..< 128]"
    by (simp add: upt_rec [of 32] upt_rec [of 33] upt_rec [of 34])
  then show ?thesis using unused_tid_smallest [OF l, of 32 96] by auto
qed

text \<open>The sleep list cannot be used: its head is initialised with the address of the ready list, so
  switching a ready thread to the sleep status searches for ever.\<close>

lemma switch_to_sleep_hangs:
  assumes "sched_core s r rs ss" and "p \<in> set rs" and "rt_tid (threads s p) = k"
    and "k \<noteq> REAL_THREAD_TID_IDLE" and "to_status (threads s p) = NR_THREAD_SLEEP"
  shows "schedule_thread_switch k s = None"
proof -
  have reg: "registered s p" "status (threads s p) = NR_THREAD_READY"
    using coreD(5,10) [OF assms(1,2)] by simp_all
  obtain g where g: "switch_leave NR_THREAD_READY k s = Some (ER_NORMAL, upd_links g s)"
      "two_queues (upd_links g s) ReadyHead (remove1 p rs) SuspendHead ss"
    using leave_ready [OF assms(1,2)] assms(3) by auto
  have n: "p \<notin> set (remove1 p rs)" using coreD(13) [OF assms(1)] by simp
  have "registered (upd_links g s) p" using reg(1) by (simp add: registered_def)
  from sleep_add_hangs [OF g(2) this n, of k] have "switch_enter NR_THREAD_SLEEP k (upd_links g s) = None"
    using reg(2) assms(3) by (simp add: switch_enter_def)
  moreover have "schedule_thread_switch k s = switch_finish NR_THREAD_SLEEP k (upd_links g s)"
    using switch_start [OF reg(1) assms(3), of "upd_links g s"] g(1) reg(2) assms(4,5) by simp
  ultimately show ?thesis by (simp add: switch_finish_def)
qed

text \<open>A state in which the idle thread runs and thread 32 is ready.\<close>

definition demo_idle :: sched where
  "demo_idle = demo\<lparr>links := list_head_add_head ReadyHead (Link 8192)
                (list_head_add_head SuspendHead (Link 12288) (links sched_init)), sprt_work := 4096,
     threads := demo_thread(4096 := (demo_thread 4096)\<lparr>status := NR_THREAD_RUNNING\<rparr>,
                            8192 := (demo_thread 8192)\<lparr>status := NR_THREAD_READY\<rparr>)\<rparr>"

lemma demo_idle_ok: "sched_ok demo_idle 4096 [8192] [12288]"
proof -
  have q: "two_queues demo_idle ReadyHead [8192] SuspendHead [12288]"
    by (simp add: two_queues_def queue_at_def dlist_def)
       (simp add: demo_idle_def demo_def sched_init_def init_link_def list_head_add_head_def Let_def)
  have "sched_core demo_idle 4096 [8192] [12288]"
    using q by (simp add: sched_core_def)
       (simp add: demo_idle_def live_def registered_def demo_thread_def zero_thread_def)
  moreover have "tidy demo_idle 4096 [8192] [12288]"
    by (simp add: demo_idle_def tidy_def live_def demo_thread_def zero_thread_def)
  ultimately show ?thesis
    by (simp add: sched_ok_def) (simp add: demo_idle_def spin_is_locked_def SPIN_LOCK_INIT_def)
qed

lemma demo_idle_set:
  "sched_core (upd_thread p (\<lambda>t. t\<lparr>to_status := v\<rparr>) demo_idle) 4096 [8192] [12288]"
  by (rule sched_core_upd [OF _ only_status_set]) (use demo_idle_ok in \<open>auto simp: sched_ok_def\<close>)

lemma switch_to_sleep_hangs_witness:
  "schedule_thread_switch 32 (upd_thread 8192 (\<lambda>t. t\<lparr>to_status := NR_THREAD_SLEEP\<rparr>) demo_idle) = None"
  using switch_to_sleep_hangs [OF demo_idle_set, of 8192 8192 NR_THREAD_SLEEP 32]
  by (simp add: demo_idle_def demo_tid)

text \<open>Switching a suspended thread straight to the running status fails after the thread has been
  taken off the suspend list: it is in no list any more while its status still says suspended,
  although the table still knows it.\<close>

lemma switch_suspend_running_loses:
  assumes "sched_core s r rs ss" and "p \<in> set ss" and "rt_tid (threads s p) = k"
    and "to_status (threads s p) = NR_THREAD_RUNNING"
  shows "\<exists>s'. schedule_thread_switch k s = Some (- ER_UNVALID, s') \<and>
     list_nodes (links s') ReadyHead = Some (map Link rs) \<and>
     list_nodes (links s') SuspendHead = Some (map Link (remove1 p ss)) \<and> p \<notin> set (remove1 p ss) \<and>
     sprt_work s' = r \<and> r \<noteq> p \<and> p \<notin> set rs \<and>
     status (threads s' p) = NR_THREAD_SUSPEND \<and> thread_of k s' = Some p"
proof -
  have reg: "registered s p" "status (threads s p) = NR_THREAD_SUSPEND" "k \<noteq> REAL_THREAD_TID_IDLE"
    using coreD(6,7,11) [OF assms(1,2)] assms(3) by simp_all
  obtain g where g: "switch_leave NR_THREAD_SUSPEND k s = Some (ER_NORMAL, upd_links g s)"
      "two_queues (upd_links g s) ReadyHead rs SuspendHead (remove1 p ss)"
    using leave_suspend [OF assms(1,2)] assms(3) by auto
  let ?s = "upd_links g s"
  have h: "SCHED_THREAD_HANDLER k ?s = Some p" "thread_of k ?s = Some p" "p \<noteq> 0"
    using registered_handler [of ?s p] reg(1) assms(3) by (auto simp: registered_def)
  have "switch_enter NR_THREAD_RUNNING k ?s = Some (- ER_UNVALID, ?s)"
    using h reg(2) by (simp add: switch_enter_def schedule_despoil_work_role_def)
  then have "schedule_thread_switch k s = Some (- ER_UNVALID, ?s)"
    using switch_start [OF reg(1) assms(3), of ?s] g(1) reg assms(4) by (simp add: switch_finish_def)
  moreover have "list_nodes (links ?s) ReadyHead = Some (map Link rs)"
      "list_nodes (links ?s) SuspendHead = Some (map Link (remove1 p ss))"
    using g(2) by (simp_all only: two_queues_def queue_at_def list_nodes_dlist)
  moreover have "p \<notin> set (remove1 p ss)" "r \<noteq> p" "p \<notin> set rs" "sprt_work ?s = r"
    using coreD(2,4,14) [OF assms(1)] coreD(15) [OF assms(1), of p] assms(2) by auto
  ultimately show ?thesis using h reg by auto
qed

lemma switch_suspend_running_loses_witness:
  "\<exists>s'. schedule_thread_switch 33 (upd_thread 12288 (\<lambda>t. t\<lparr>to_status := NR_THREAD_RUNNING\<rparr>) demo_idle) =
       Some (- ER_UNVALID, s') \<and>
     list_nodes (links s') ReadyHead = Some [Link 8192] \<and> list_nodes (links s') SuspendHead = Some []"
  using switch_suspend_running_loses [OF demo_idle_set, of 12288 12288 NR_THREAD_RUNNING 33]
  by (auto simp: demo_idle_def demo_tid)

end
