(* ===== verification/Kthread.thy ===== *)
theory Kthread
  imports Sched_Props
begin

text \<open>
  Thread creation (\<^verbatim>\<open>kernel/thread.c\<close> and the attribute setters of \<^verbatim>\<open>include/kernel/thread.h\<close>) and the
  kernel's own threads (\<^verbatim>\<open>kernel/kthread/\<close>: idle, base, init and worker thread).

  The memory pool is a parameter: the addresses \<^verbatim>\<open>kzalloc\<close> will hand out, as a list in the state, and the
  addresses given back, in the order of the calls of \<^verbatim>\<open>kfree\<close>.  The register frame
  \<^verbatim>\<open>real_thread_set_stack\<close> clears inside the new stack is not part of the state.
\<close>

section \<open>State\<close>

record kheap = sched +
  alloc_next :: "kuaddr_t list"
  freed :: "kuaddr_t list"
  g_asm_sched_flag :: bool

definition kzalloc :: "'s kheap_scheme \<Rightarrow> kuaddr_t \<times> 's kheap_scheme" where
  "kzalloc s = (case alloc_next s of [] \<Rightarrow> (0, s) | a # as \<Rightarrow> (a, s\<lparr>alloc_next := as\<rparr>))"

definition kfree :: "kuaddr_t \<Rightarrow> 's kheap_scheme \<Rightarrow> 's kheap_scheme" where
  "kfree p s = s\<lparr>freed := freed s @ [p]\<rparr>"

definition upd_attr :: "kuaddr_t \<Rightarrow> (real_thread_attr \<Rightarrow> real_thread_attr) \<Rightarrow> 's sched_scheme \<Rightarrow> 's sched_scheme" where
  "upd_attr a f s = s\<lparr>attrs := (attrs s)(a := f (attrs s a))\<rparr>"

section \<open>Attributes\<close>

definition REAL_THREAD_STACK_MIN :: kuint32_t where
  "REAL_THREAD_STACK_MIN = mrt_align 1024 4"

definition REAL_THREAD_STACK_DEFAULT :: kuint32_t where
  "REAL_THREAD_STACK_DEFAULT = mrt_align 2056 4"

abbreviation (input) REAL_THREAD_PROTY_DEFAULT :: kuint32_t where "REAL_THREAD_PROTY_DEFAULT \<equiv> 80"
abbreviation (input) REAL_THREAD_PROTY_IDLE :: kuint32_t where "REAL_THREAD_PROTY_IDLE \<equiv> 98"
abbreviation (input) REAL_THREAD_PROTY_KERNEL :: kuint32_t where "REAL_THREAD_PROTY_KERNEL \<equiv> 0"
abbreviation (input) REAL_THREAD_TIME_DEFUALT :: kuint32_t where "REAL_THREAD_TIME_DEFUALT \<equiv> 40"

definition real_thread_set_priority :: "kuint32_t \<Rightarrow> real_thread_attr \<Rightarrow> real_thread_attr" where
  "real_thread_set_priority priority a =
     (let p = (if THREAD_IS_LOW_PRIO priority 0 then priority else 0)
      in a\<lparr>sched_priority := p, sched_curpriority := p\<rparr>)"

definition real_thread_set_time_slice :: "kuint32_t \<Rightarrow> real_thread_attr \<Rightarrow> real_thread_attr" where
  "real_thread_set_time_slice mseconds a = a\<lparr>mrt_sched_init_budget := msecs_to_time_spec mseconds\<rparr>"

definition real_thread_attr_setstacksize :: "kuint32_t \<Rightarrow> real_thread_attr \<Rightarrow> real_thread_attr" where
  "real_thread_attr_setstacksize sz a =
     a\<lparr>stacksize := (if sz \<ge> REAL_THREAD_STACK_MIN then sz else REAL_THREAD_STACK_MIN)\<rparr>"

definition real_thread_attr_setdetachstate :: "kuint32_t \<Rightarrow> real_thread_attr \<Rightarrow> real_thread_attr" where
  "real_thread_attr_setdetachstate state a = a\<lparr>detachstate := state\<rparr>"

definition real_thread_attr_setinheritsched :: "kuint32_t \<Rightarrow> real_thread_attr \<Rightarrow> real_thread_attr" where
  "real_thread_attr_setinheritsched sched a = a\<lparr>inheritsched := sched\<rparr>"

definition real_thread_attr_setschedpolicy :: "kuint32_t \<Rightarrow> real_thread_attr \<Rightarrow> real_thread_attr" where
  "real_thread_attr_setschedpolicy policy a = a\<lparr>schedpolicy := policy\<rparr>"

text \<open>The register frame is 18 words.\<close>

definition frame_size :: kuint32_t where
  "frame_size = 72"

definition real_thread_set_stack ::
  "kuaddr_t \<Rightarrow> kuaddr_t \<Rightarrow> kuint32_t \<Rightarrow> real_thread_attr \<Rightarrow> kuaddr_t \<times> real_thread_attr" where
  "real_thread_set_stack ptr_dync ptr_stack sz a =
     (if \<not> isValid ptr_stack \<or> sz < REAL_THREAD_STACK_MIN then (0, a)
      else if ptr_dync \<noteq> 0 \<and> ptr_dync \<noteq> ptr_stack then (0, a)
      else let a = a\<lparr>ptr_stack_start := ptr_dync\<rparr>;
               a = a\<lparr>stack_addr := ptr_stack + sz\<rparr>;
               a = a\<lparr>stack_addr := mrt_ralign (stack_addr a - 16) 8\<rparr>;
               a = a\<lparr>stack_addr := stack_addr a - frame_size\<rparr>;
               a = a\<lparr>stack_addr := mrt_ralign (stack_addr a) 8\<rparr>;
               a = a\<lparr>stacksize := sz\<rparr>
           in (stack_addr a, a))"

definition real_thread_attr_init :: "kuaddr_t \<Rightarrow> 's kheap_scheme \<Rightarrow> kuaddr_t \<times> 's kheap_scheme" where
  "real_thread_attr_init a s =
     (let s = upd_attr a (\<lambda>_. zero_attr\<lparr>detachstate := 0, inheritsched := 0, schedpolicy := 1\<rparr>) s;
          (ptr_stack, s) = kzalloc s
      in if \<not> isValid ptr_stack then (0, s)
         else let s = upd_attr a (\<lambda>t. snd (real_thread_set_stack ptr_stack ptr_stack REAL_THREAD_STACK_DEFAULT t)) s;
                  s = upd_attr a (real_thread_set_priority REAL_THREAD_PROTY_DEFAULT) s;
                  s = upd_attr a (real_thread_set_time_slice REAL_THREAD_TIME_DEFUALT) s
              in (stack_addr (attrs s a), s))"

definition real_thread_attr_revise :: "kuaddr_t \<Rightarrow> 's kheap_scheme \<Rightarrow> kuaddr_t \<times> 's kheap_scheme" where
  "real_thread_attr_revise a s =
     (if a = 0 then (0, s)
      else let s = (if sched_priority (attrs s a) = 0
                    then upd_attr a (real_thread_set_priority REAL_THREAD_PROTY_DEFAULT) s else s);
               s = (if mrt_is_timespec_empty (mrt_sched_init_budget (attrs s a))
                    then upd_attr a (real_thread_set_time_slice REAL_THREAD_TIME_DEFUALT) s else s)
           in if stack_addr (attrs s a) = 0
              then let (ptr_stack, s) = kzalloc s
                   in if \<not> isValid ptr_stack then (0, s)
                      else let s = upd_attr a (\<lambda>t. snd (real_thread_set_stack ptr_stack ptr_stack REAL_THREAD_STACK_DEFAULT t)) s
                           in (stack_addr (attrs s a), s)
              else (stack_addr (attrs s a), s))"

definition real_thread_attr_destroy :: "kuaddr_t \<Rightarrow> 's kheap_scheme \<Rightarrow> 's kheap_scheme" where
  "real_thread_attr_destroy a s =
     (if a = 0 then s
      else let s = (if ptr_stack_start (attrs s a) \<noteq> 0 then kfree (ptr_stack_start (attrs s a)) s else s)
           in upd_attr a (\<lambda>_. zero_attr) s)"

section \<open>Creation\<close>

text \<open>The error exits \<^verbatim>\<open>fail2\<close>, \<^verbatim>\<open>fail3\<close> and \<^verbatim>\<open>fail4\<close>; \<open>arg\<close> is the attribute the caller passed, \<open>a\<close> the one in
  use.\<close>

definition create_fail2 :: "kuaddr_t \<Rightarrow> kuaddr_t \<Rightarrow> 's kheap_scheme \<Rightarrow> 's kheap_scheme" where
  "create_fail2 arg a s = (if \<not> isValid arg then kfree a s else s)"

definition create_fail3 :: "kuaddr_t \<Rightarrow> kuaddr_t \<Rightarrow> 's kheap_scheme \<Rightarrow> 's kheap_scheme" where
  "create_fail3 arg a s = create_fail2 arg a (real_thread_attr_destroy a s)"

definition create_fail4 :: "kuaddr_t \<Rightarrow> kuaddr_t \<Rightarrow> kuaddr_t \<Rightarrow> 's kheap_scheme \<Rightarrow> 's kheap_scheme" where
  "create_fail4 p arg a s = create_fail3 arg a (kfree p s)"

text \<open>The range of thread numbers to search; \<open>base\<close> is converted to unsigned for the comparison.\<close>

definition tid_range :: "bool \<Rightarrow> int \<Rightarrow> kuint32_t \<times> kuint32_t" where
  "tid_range user base =
     (let (i_start, n) = (if user then (32, 96) else (0, 32));
          b = word_of_int base
      in if b \<ge> i_start \<and> b < i_start + n then (b, 1) else (i_start, n))"

text \<open>From the checked attribute on: allocate the thread, fill it in and register it.\<close>

definition create_thread ::
  "kuint32_t \<Rightarrow> kuaddr_t \<Rightarrow> kuaddr_t \<Rightarrow> kuaddr_t \<Rightarrow> kuaddr_t \<Rightarrow> 's kheap_scheme \<Rightarrow>
     (int \<times> kuint32_t option \<times> 's kheap_scheme) option" where
  "create_thread tid arg a fn args s =
     (let (p, s) = kzalloc s
      in if \<not> isValid p then Some (- ER_FAULT, None, create_fail3 arg a s)
         else let s = upd_thread p (\<lambda>_. zero_thread\<lparr>rt_tid := tid, sprt_attr := a, start_routine := fn,
                                                     ptr_args := args\<rparr>) s
              in do { (retval, s) \<leftarrow> register_new_thread p tid s;
                      if retval < 0 then Some (- ER_FAULT, None, create_fail4 p arg a s)
                      else Some (ER_NORMAL, Some tid, s) })"

definition create_checked ::
  "kuint32_t \<Rightarrow> kuaddr_t \<Rightarrow> kuaddr_t \<Rightarrow> kuaddr_t \<Rightarrow> kuaddr_t \<Rightarrow> 's kheap_scheme \<Rightarrow>
     (int \<times> kuint32_t option \<times> 's kheap_scheme) option" where
  "create_checked tid arg a fn args s =
     (let (r, s) = real_thread_attr_revise a s
      in if r = 0 then Some (- ER_FAULT, None, create_fail3 arg a s)
         else create_thread tid arg a fn args s)"

text \<open>\<^verbatim>\<open>__real_thread_create\<close>; the result carries the number written through \<^verbatim>\<open>ptr_id\<close>.\<close>

definition real_thread_create_base ::
  "int \<Rightarrow> kuaddr_t \<Rightarrow> kuaddr_t \<Rightarrow> kuaddr_t \<Rightarrow> bool \<Rightarrow> 's kheap_scheme \<Rightarrow>
     (int \<times> kuint32_t option \<times> 's kheap_scheme) option" where
  "real_thread_create_base base arg fn args user s =
     (let (i_start, n) = tid_range user base
      in do { (t, s) \<leftarrow> get_unused_tid_from_scheduler i_start n s;
              if t < 0 then Some (- ER_FAULT, None, s)
              else let tid = word_of_int t in
                if arg = 0
                then let (a, s) = kzalloc s
                     in if \<not> isValid a then Some (- ER_FAULT, None, s)
                        else let (r, s) = real_thread_attr_init a (upd_attr a (\<lambda>_. zero_attr) s)
                             in if r = 0 then Some (- ER_FAULT, None, create_fail2 arg a s)
                                else create_checked tid arg a fn args s
                else create_checked tid arg arg fn args s })"

definition kernel_thread_create_base ::
  "int \<Rightarrow> kuaddr_t \<Rightarrow> kuaddr_t \<Rightarrow> kuaddr_t \<Rightarrow> 's kheap_scheme \<Rightarrow> (int \<times> kuint32_t option \<times> 's kheap_scheme) option" where
  "kernel_thread_create_base base attr fn args s = real_thread_create_base base attr fn args False s"

definition real_user_thread_create_base ::
  "int \<Rightarrow> kuaddr_t \<Rightarrow> kuaddr_t \<Rightarrow> kuaddr_t \<Rightarrow> 's kheap_scheme \<Rightarrow> (int \<times> kuint32_t option \<times> 's kheap_scheme) option" where
  "real_user_thread_create_base base attr fn args s = real_thread_create_base base attr fn args True s"

definition kernel_thread_create ::
  "kuaddr_t \<Rightarrow> kuaddr_t \<Rightarrow> kuaddr_t \<Rightarrow> 's kheap_scheme \<Rightarrow> (int \<times> kuint32_t option \<times> 's kheap_scheme) option" where
  "kernel_thread_create attr fn args s = kernel_thread_create_base (- 1) attr fn args s"

definition real_thread_create ::
  "kuaddr_t \<Rightarrow> kuaddr_t \<Rightarrow> kuaddr_t \<Rightarrow> 's kheap_scheme \<Rightarrow> (int \<times> kuint32_t option \<times> 's kheap_scheme) option" where
  "real_thread_create attr fn args s = real_user_thread_create_base (- 1) attr fn args s"

definition kernel_thread_idle_create ::
  "kuaddr_t \<Rightarrow> kuaddr_t \<Rightarrow> kuaddr_t \<Rightarrow> 's kheap_scheme \<Rightarrow> (int \<times> kuint32_t option \<times> 's kheap_scheme) option" where
  "kernel_thread_idle_create attr fn args s = kernel_thread_create_base 0 attr fn args s"

definition kernel_thread_base_create ::
  "kuaddr_t \<Rightarrow> kuaddr_t \<Rightarrow> kuaddr_t \<Rightarrow> 's kheap_scheme \<Rightarrow> (int \<times> kuint32_t option \<times> 's kheap_scheme) option" where
  "kernel_thread_base_create attr fn args s = kernel_thread_create_base 1 attr fn args s"

definition kernel_thread_init_create ::
  "kuaddr_t \<Rightarrow> kuaddr_t \<Rightarrow> kuaddr_t \<Rightarrow> 's kheap_scheme \<Rightarrow> (int \<times> kuint32_t option \<times> 's kheap_scheme) option" where
  "kernel_thread_init_create attr fn args s = kernel_thread_create_base 2 attr fn args s"

section \<open>The kernel's own threads\<close>

text \<open>The four start functions fill a static attribute and differ in the stack, the priority and the creation
  call; the addresses of the attribute, the stack and the entry are parameters.\<close>

definition setup_static_attr :: "kuaddr_t \<Rightarrow> kuaddr_t \<Rightarrow> kuint32_t \<Rightarrow> kuint32_t \<Rightarrow> 's kheap_scheme \<Rightarrow> 's kheap_scheme" where
  "setup_static_attr a stack sz prio s =
     (let s = upd_attr a (\<lambda>t. t\<lparr>detachstate := 0, inheritsched := 0, schedpolicy := 1\<rparr>) s;
          s = upd_attr a (\<lambda>t. snd (real_thread_set_stack 0 stack sz t)) s;
          s = upd_attr a (real_thread_set_priority prio) s
      in upd_attr a (real_thread_set_time_slice REAL_THREAD_TIME_DEFUALT) s)"

definition rest_init ::
  "kuaddr_t \<Rightarrow> kuaddr_t \<Rightarrow> kuint32_t \<Rightarrow> kuaddr_t \<Rightarrow> 's kheap_scheme \<Rightarrow> (int \<times> kuint32_t option \<times> 's kheap_scheme) option" where
  "rest_init attr stack sz entry s =
     kernel_thread_idle_create attr entry 0 (setup_static_attr attr stack sz REAL_THREAD_PROTY_IDLE s)"

definition kthread_init ::
  "kuaddr_t \<Rightarrow> kuaddr_t \<Rightarrow> kuint32_t \<Rightarrow> kuaddr_t \<Rightarrow> 's kheap_scheme \<Rightarrow> (int \<times> kuint32_t option \<times> 's kheap_scheme) option" where
  "kthread_init attr stack sz entry s =
     kernel_thread_base_create attr entry 0 (setup_static_attr attr stack sz REAL_THREAD_PROTY_KERNEL s)"

definition init_proc_init ::
  "kuaddr_t \<Rightarrow> kuaddr_t \<Rightarrow> kuint32_t \<Rightarrow> kuaddr_t \<Rightarrow> 's kheap_scheme \<Rightarrow> (int \<times> kuint32_t option \<times> 's kheap_scheme) option" where
  "init_proc_init attr stack sz entry s =
     kernel_thread_init_create attr entry 0 (setup_static_attr attr stack sz (REAL_THREAD_PROTY_KERNEL + 1) s)"

definition kworker_init ::
  "kuaddr_t \<Rightarrow> kuaddr_t \<Rightarrow> kuint32_t \<Rightarrow> kuaddr_t \<Rightarrow> 's kheap_scheme \<Rightarrow> (int \<times> kuint32_t option \<times> 's kheap_scheme) option" where
  "kworker_init attr stack sz entry s =
     kernel_thread_create attr entry 0 (setup_static_attr attr stack sz (REAL_THREAD_PROTY_KERNEL + 1) s)"

text \<open>One round of the idle loop in the configuration without \<^verbatim>\<open>CONFIG_PREEMPT\<close> (with it the loop is empty): look at the head of the ready list and give the processor away when there is
  a thread.\<close>

definition rest_entry_round :: "'s sched_scheme \<Rightarrow> 's sched_scheme option" where
  "rest_entry_round s =
     do { ready \<leftarrow> get_first_ready_thread s;
          if ready = 0 \<or> ready = get_current_thread s then Some s else schedule_thread s }"

text \<open>The preemption timer: asks for a reschedule when the time slice of the running thread is used up and a
  thread of at least its priority is ready; re-arms itself 20 ms later.\<close>

definition kthread_schedule_timeout :: "kuaddr_t \<Rightarrow> 's kheap_scheme \<Rightarrow> 's kheap_scheme option" where
  "kthread_schedule_timeout tim s =
     do { work \<leftarrow> running_thread s;
          s \<leftarrow> (if mrt_time_after (rt_expires (threads s work)) (jiffies s) then Some s
               else let s = upd_thread work (\<lambda>t. t\<lparr>rt_expires := (if - 1 - jiffies s \<le> 20 then 0 else jiffies s)\<rparr>) s
                    in do { ready \<leftarrow> get_first_ready_thread s;
                            if ready = 0 then Some s
                            else if THREAD_IS_LOW_PRIO (thread_prio work s) (thread_prio ready s)
                            then Some (s\<lparr>g_asm_sched_flag := True\<rparr>) else Some s });
          mod_timer tim (jiffies s + msecs_to_jiffies 20) s }"

section \<open>Stacks\<close>

lemma stack_sizes [simp]: "REAL_THREAD_STACK_MIN = 1024" "REAL_THREAD_STACK_DEFAULT = 2056"
  by (simp_all add: REAL_THREAD_STACK_MIN_def REAL_THREAD_STACK_DEFAULT_def mrt_align_def)

lemma unat_ralign8: "unat (mrt_ralign x 8) = unat x div 8 * 8"
  using unat_mrt_ralign [of 3 x] by simp

lemma set_stack_bounds:
  assumes v: "isValid p" "1024 \<le> unat sz" "unat p + unat sz < 2 ^ 32" and d: "dync = 0 \<or> dync = p"
  shows "\<exists>top. real_thread_set_stack dync p sz a =
       (top, a\<lparr>ptr_stack_start := dync, stack_addr := top, stacksize := sz\<rparr>) \<and>
     8 dvd unat top \<and> unat p + unat sz - 128 \<le> unat top \<and> unat top + 72 \<le> unat p + unat sz"
proof -
  let ?t1 = "mrt_ralign (p + sz - 16) 8"
  let ?t2 = "mrt_ralign (?t1 - frame_size) 8"
  have s0: "unat (p + sz) = unat p + unat sz" using v(3) unat_add_lem [of p sz] by simp
  have "16 \<le> p + sz" using s0 v(2) by (simp add: word_le_nat_alt)
  then have s1: "unat (p + sz - 16) = unat p + unat sz - 16" using s0 by (simp add: unat_sub)
  then have t1: "unat ?t1 = (unat p + unat sz - 16) div 8 * 8" by (simp add: unat_ralign8)
  have "frame_size \<le> ?t1" using t1 v(2) by (simp add: word_le_nat_alt frame_size_def)
  then have s2: "unat (?t1 - frame_size) = unat ?t1 - 72" by (simp add: unat_sub frame_size_def)
  have t2: "unat ?t2 = (unat ?t1 - 72) div 8 * 8" using s2 by (simp add: unat_ralign8)
  have "\<not> sz < 1024" using v(2) by (simp add: word_less_nat_alt)
  then have "real_thread_set_stack dync p sz a =
      (?t2, a\<lparr>ptr_stack_start := dync, stack_addr := ?t2, stacksize := sz\<rparr>)"
    using v(1) d by (auto simp: real_thread_set_stack_def Let_def)
  moreover have "8 dvd unat ?t2" unfolding t2 by simp
  moreover have "unat p + unat sz - 128 \<le> unat ?t2" "unat ?t2 + 72 \<le> unat p + unat sz"
    using t1 t2 v(2) by linarith+
  ultimately show ?thesis by blast
qed

lemma valid_bound: "isValid p \<Longrightarrow> 0 < unat p \<and> unat p < 2 ^ 32 - 4096"
proof -
  assume v: "isValid p"
  have "p < - 4096" using v by (simp add: isValid_def IS_ERR_def not_le)
  then have "unat p < unat (- 4096 :: kuint32_t)" by (simp add: word_less_nat_alt)
  then show ?thesis using v by (simp add: isValid_def unat_gt_0)
qed

lemma default_stack:
  assumes "isValid p"
  shows "\<exists>top. top \<noteq> 0 \<and> real_thread_set_stack p p REAL_THREAD_STACK_DEFAULT a =
     (top, a\<lparr>ptr_stack_start := p, stack_addr := top, stacksize := 2056\<rparr>)"
proof -
  have "unat p + unat (2056 :: kuint32_t) < 2 ^ 32" using valid_bound [OF assms] by simp
  from set_stack_bounds [OF assms _ this, of p a] obtain top where
    t: "real_thread_set_stack p p 2056 a = (top, a\<lparr>ptr_stack_start := p, stack_addr := top, stacksize := 2056\<rparr>)"
      "unat p + 2056 - 128 \<le> unat top" by auto
  then have "0 < unat top" by linarith
  then have "top \<noteq> 0" by auto
  with t(1) show ?thesis by auto
qed

section \<open>What creation allocates and frees\<close>

definition keeps_heap :: "'s kheap_scheme \<Rightarrow> 's kheap_scheme \<Rightarrow> bool" where
  "keeps_heap s s' \<longleftrightarrow> attrs s' = attrs s \<and> alloc_next s' = alloc_next s \<and> freed s' = freed s"

lemma upd_heap_sel [simp]:
  "attrs (upd_attr a f s) = (attrs s)(a := f (attrs s a))"
  "alloc_next (upd_attr a f s) = alloc_next s" "freed (upd_attr a f s) = freed s"
  "alloc_next (upd_thread p g s) = alloc_next s" "freed (upd_thread p g s) = freed s"
  "alloc_next (upd_links h s) = alloc_next s" "freed (upd_links h s) = freed s"
  "attrs (kfree p s) = attrs s" "alloc_next (kfree p s) = alloc_next s" "freed (kfree p s) = freed s @ [p]"
  by (simp_all add: upd_attr_def upd_thread_def upd_links_def kfree_def)

lemma add_list_links:
  "schedule_add_list st head k s = Some (e, s') \<Longrightarrow> \<exists>g. s' = upd_links g s \<or> s' = s"
  by (auto simp: schedule_add_list_def schedule_add_status_list_def bind_Some_iff Let_def
      split: if_splits option.splits)

lemma lock_keeps: "sched_lock_irqsave s = Some s' \<Longrightarrow> keeps_heap s s'"
  by (auto simp: sched_lock_irqsave_def keeps_heap_def split: option.splits)

lemma unlock_keeps: "keeps_heap s (sched_unlock_irqrestore s)"
  by (simp add: sched_unlock_irqrestore_def keeps_heap_def split: prod.splits)

lemma sync_keeps: "SYNC_THREAD_STATUS k v s = Some s' \<Longrightarrow> keeps_heap s s'"
  by (auto simp: SYNC_THREAD_STATUS_def bind_Some_iff keeps_heap_def split: if_splits)

lemma keeps_trans [trans]: "keeps_heap s t \<Longrightarrow> keeps_heap t u \<Longrightarrow> keeps_heap s u"
  by (simp add: keeps_heap_def)

definition enter_state :: "kuaddr_t \<Rightarrow> kuint32_t \<Rightarrow> 's sched_scheme \<Rightarrow> 's sched_scheme" where
  "enter_state p k s =
     upd_thread p (\<lambda>t. t\<lparr>rt_lock := spin_lock_init (rt_lock t), name := ''thread-'' @ decimal k @ [CHR 0x0A]\<rparr>)
       (upd_links (init_list_head (Link p)) (s\<lparr>sprt_tid_array := (sprt_tid_array s)(unat k := p)\<rparr>))"

lemma register_unfold:
  "register_new_thread p k s =
     do { handler \<leftarrow> SCHED_THREAD_HANDLER k s;
          if handler \<noteq> 0 then Some (- ER_UNVALID, s)
          else if stack_addr (attrs s (sprt_attr (threads s p))) = 0 then Some (- ER_NOMEM, s)
          else do {
            s1 \<leftarrow> sched_lock_irqsave s;
            (r, s3) \<leftarrow> schedule_add_ready_list k (enter_state p k s1);
            if r < 0 then Some (r, sched_unlock_irqrestore (s3\<lparr>sprt_tid_array := (sprt_tid_array s3)(unat k := 0)\<rparr>))
            else do { s4 \<leftarrow> SYNC_THREAD_STATUS k NR_THREAD_READY s3; Some (ER_NORMAL, sched_unlock_irqrestore s4) } } }"
  unfolding register_new_thread_def enter_state_def Let_def ..

lemma register_keeps:
  assumes "register_new_thread p k s = Some (e, s')"
  shows "keeps_heap s s'"
proof (cases "s' = s")
  case False
  with assms obtain s1 r s3 where s1: "sched_lock_irqsave s = Some s1"
      "schedule_add_ready_list k (enter_state p k s1) = Some (r, s3)"
      "s' = sched_unlock_irqrestore (s3\<lparr>sprt_tid_array := (sprt_tid_array s3)(unat k := 0)\<rparr>) \<or>
       (\<exists>s4. SYNC_THREAD_STATUS k NR_THREAD_READY s3 = Some s4 \<and> s' = sched_unlock_irqrestore s4)"
    unfolding register_unfold by (auto simp: bind_Some_iff split: if_splits)
  have "keeps_heap s1 (enter_state p k s1)" by (simp add: keeps_heap_def enter_state_def)
  moreover have "keeps_heap (enter_state p k s1) s3"
    using add_list_links [OF s1(2) [unfolded schedule_add_ready_list_def]] by (auto simp: keeps_heap_def)
  ultimately have "keeps_heap s s3" using lock_keeps [OF s1(1)] keeps_trans by blast
  moreover have "keeps_heap s3 s'" using s1(3)
  proof
    assume "s' = sched_unlock_irqrestore (s3\<lparr>sprt_tid_array := (sprt_tid_array s3)(unat k := 0)\<rparr>)"
    then show ?thesis using unlock_keeps [of "s3\<lparr>sprt_tid_array := (sprt_tid_array s3)(unat k := 0)\<rparr>"]
      by (simp add: keeps_heap_def)
  next
    assume "\<exists>s4. SYNC_THREAD_STATUS k NR_THREAD_READY s3 = Some s4 \<and> s' = sched_unlock_irqrestore s4"
    then show ?thesis using sync_keeps unlock_keeps keeps_trans by blast
  qed
  ultimately show ?thesis by (rule keeps_trans)
qed (simp add: keeps_heap_def)

lemma unused_tid_keeps:
  assumes "get_unused_tid_from_scheduler i n s = Some (t, s')"
  shows "keeps_heap s s'"
proof -
  obtain s1 where "sched_lock_irqsave s = Some s1" "s' = sched_unlock_irqrestore s1"
    using assms by (auto simp: get_unused_tid_from_scheduler_def bind_Some_iff)
  then show ?thesis using lock_keeps unlock_keeps keeps_trans by metis
qed

lemma kzalloc_cases:
  "kzalloc s = (a, s') \<Longrightarrow> \<exists>n. s' = s\<lparr>alloc_next := drop n (alloc_next s)\<rparr> \<and>
     filter isValid (take n (alloc_next s)) = (if isValid a then [a] else [])"
proof (cases "alloc_next s")
  case Nil
  assume "kzalloc s = (a, s')"
  with Nil show ?thesis by (intro exI [of _ 0]) (auto simp: kzalloc_def isValid_def)
next
  case (Cons b bs)
  assume "kzalloc s = (a, s')"
  with Cons show ?thesis by (intro exI [of _ 1]) (auto simp: kzalloc_def)
qed

text \<open>A failure after the attribute \<open>a\<close> with the dynamic stack \<open>stk\<close> is complete.\<close>

lemma create_thread_failure:
  assumes r: "create_thread t 0 a fn args s = Some (e, i, s')" and e: "e \<noteq> 0"
    and a: "a \<noteq> 0" "ptr_stack_start (attrs s a) = stk" "stk \<noteq> 0"
  shows "\<exists>n. alloc_next s' = drop n (alloc_next s) \<and>
     freed s' = freed s @ rev (filter isValid (take n (alloc_next s))) @ [stk, a]"
proof -
  obtain p s1 where p: "kzalloc s = (p, s1)" by (cases "kzalloc s")
  obtain n where n: "s1 = s\<lparr>alloc_next := drop n (alloc_next s)\<rparr>"
      "filter isValid (take n (alloc_next s)) = (if isValid p then [p] else [])"
    using kzalloc_cases [OF p] by blast
  have nv: "\<not> isValid 0" by (simp add: isValid_def)
  show ?thesis
  proof (cases "isValid p")
    case False
    then have "s' = create_fail3 0 a s1" using r p by (auto simp: create_thread_def)
    then show ?thesis
      using n False a nv by (intro exI [of _ n])
        (simp add: create_fail3_def create_fail2_def real_thread_attr_destroy_def Let_def)
  next
    case True
    let ?s2 = "upd_thread p (\<lambda>_. zero_thread\<lparr>rt_tid := t, sprt_attr := a, start_routine := fn, ptr_args := args\<rparr>) s1"
    obtain s3 c where s3: "register_new_thread p t ?s2 = Some (c, s3)" "s' = create_fail4 p 0 a s3"
      using r p True e by (auto simp: create_thread_def bind_Some_iff Let_def split: if_splits)
    have "keeps_heap ?s2 s3" by (rule register_keeps [OF s3(1)])
    then show ?thesis
      using n True a nv s3(2) by (intro exI [of _ n])
        (simp add: keeps_heap_def create_fail4_def create_fail3_def create_fail2_def real_thread_attr_destroy_def Let_def)
  qed
qed

text \<open>A default attribute is complete, so the check that follows its initialisation changes nothing.\<close>

definition full_attr :: "kuaddr_t \<Rightarrow> kuaddr_t \<Rightarrow> 's sched_scheme \<Rightarrow> bool" where
  "full_attr a stk s \<longleftrightarrow> ptr_stack_start (attrs s a) = stk \<and> stack_addr (attrs s a) \<noteq> 0 \<and>
     sched_priority (attrs s a) = 80 \<and> sched_curpriority (attrs s a) = 80 \<and>
     mrt_sched_init_budget (attrs s a) = \<lparr>tv_sec = 0, tv_nsec = 40000000\<rparr>"

lemma slice_40: "msecs_to_time_spec 40 = \<lparr>tv_sec = 0, tv_nsec = 40000000\<rparr>"
  by (simp add: msecs_to_time_spec_def)

lemma revise_full:
  "full_attr a stk s \<Longrightarrow> a \<noteq> 0 \<Longrightarrow> real_thread_attr_revise a s = (stack_addr (attrs s a), s)"
  by (simp add: real_thread_attr_revise_def full_attr_def mrt_is_timespec_empty_def)

lemma attr_init_good:
  assumes al: "alloc_next s = stk # as" and v: "isValid stk"
  shows "\<exists>at top. real_thread_attr_init a s = (top, s\<lparr>alloc_next := as, attrs := (attrs s)(a := at)\<rparr>) \<and> top \<noteq> 0 \<and>
     full_attr a stk (s\<lparr>alloc_next := as, attrs := (attrs s)(a := at)\<rparr>)"
proof -
  let ?z = "zero_attr\<lparr>detachstate := 0, inheritsched := 0, schedpolicy := 1\<rparr>"
  let ?s0 = "upd_attr a (\<lambda>_. ?z) s"
  have k: "kzalloc ?s0 = (stk, ?s0\<lparr>alloc_next := as\<rparr>)" using al by (simp add: kzalloc_def)
  obtain top where top: "top \<noteq> 0"
      "real_thread_set_stack stk stk REAL_THREAD_STACK_DEFAULT ?z = (top, ?z\<lparr>ptr_stack_start := stk, stack_addr := top, stacksize := 2056\<rparr>)"
    using default_stack [OF v] by blast
  let ?at = "real_thread_set_time_slice 40 (real_thread_set_priority 80
        (?z\<lparr>ptr_stack_start := stk, stack_addr := top, stacksize := 2056\<rparr>))"
  have at: "ptr_stack_start ?at = stk" "stack_addr ?at = top" "sched_priority ?at = 80"
      "sched_curpriority ?at = 80" "mrt_sched_init_budget ?at = \<lparr>tv_sec = 0, tv_nsec = 40000000\<rparr>"
    by (simp_all add: real_thread_set_priority_def real_thread_set_time_slice_def THREAD_IS_LOW_PRIO_def slice_40)
  let ?s' = "s\<lparr>alloc_next := as, attrs := (attrs s)(a := ?at)\<rparr>"
  have "real_thread_attr_init a s = (top, ?s')"
    using k v top at by (simp add: real_thread_attr_init_def Let_def) (simp add: upd_attr_def)
  then show ?thesis using top at by (auto simp: full_attr_def)
qed

lemma attr_init_step:
  assumes r: "real_thread_attr_init a s = (r, s')"
  shows "\<exists>n stk. alloc_next s' = drop n (alloc_next s) \<and> freed s' = freed s \<and>
     filter isValid (take n (alloc_next s)) = (if r = 0 then [] else [stk]) \<and>
     (r \<noteq> 0 \<longrightarrow> isValid stk \<and> full_attr a stk s')"
proof (cases "\<exists>stk as. alloc_next s = stk # as \<and> isValid stk")
  case True
  then obtain stk as where al: "alloc_next s = stk # as" "isValid stk" by blast
  from attr_init_good [OF al, of a] r show ?thesis
    by (intro exI [of _ 1] exI [of _ stk]) (auto simp: al)
next
  case False
  let ?s0 = "upd_attr a (\<lambda>_. zero_attr\<lparr>detachstate := 0, inheritsched := 0, schedpolicy := 1\<rparr>) s"
  obtain stk s1 where k: "kzalloc ?s0 = (stk, s1)" by (cases "kzalloc ?s0")
  obtain n where n: "s1 = ?s0\<lparr>alloc_next := drop n (alloc_next s)\<rparr>"
      "filter isValid (take n (alloc_next s)) = (if isValid stk then [stk] else [])"
    using kzalloc_cases [OF k] by auto
  have nv: "\<not> isValid stk" using False k by (auto simp: kzalloc_def isValid_def split: list.splits)
  then show ?thesis using r k n by (intro exI [of _ n]) (auto simp: real_thread_attr_init_def)
qed

lemma filter_take_drop:
  "filter P (take m xs) = us \<Longrightarrow> filter P (take n (drop m xs)) = vs \<Longrightarrow> filter P (take (m + n) xs) = us @ vs"
  by (simp add: take_add)

lemma create_base_failure:
  assumes r: "real_thread_create_base base 0 fn args user s = Some (e, i, s')" and e: "e \<noteq> 0"
  shows "\<exists>n. alloc_next s' = drop n (alloc_next s) \<and>
     freed s' = freed s @ rev (filter isValid (take n (alloc_next s)))"
proof -
  obtain i_start m where rg: "tid_range user base = (i_start, m)" by (cases "tid_range user base")
  obtain t s1 where s1: "get_unused_tid_from_scheduler i_start m s = Some (t, s1)"
    using r rg by (auto simp: real_thread_create_base_def bind_Some_iff)
  have k1: "keeps_heap s s1" by (rule unused_tid_keeps [OF s1])
  obtain a s2 where a: "kzalloc s1 = (a, s2)" by (cases "kzalloc s1")
  obtain n2 where n2: "s2 = s1\<lparr>alloc_next := drop n2 (alloc_next s1)\<rparr>"
      "filter isValid (take n2 (alloc_next s1)) = (if isValid a then [a] else [])"
    using kzalloc_cases [OF a] by blast
  consider "t < 0" | "\<not> t < 0" "\<not> isValid a" | "\<not> t < 0" "isValid a" by blast
  then show ?thesis
  proof cases
    case 1
    then show ?thesis using r rg s1 k1
      by (intro exI [of _ 0]) (auto simp: real_thread_create_base_def keeps_heap_def)
  next
    case 2
    then have "s' = s2" using r rg s1 a by (auto simp: real_thread_create_base_def Let_def)
    then show ?thesis using 2 n2 k1 by (intro exI [of _ n2]) (simp add: keeps_heap_def)
  next
    case 3
    then have a0: "a \<noteq> 0" by (auto simp: isValid_def)
    obtain q s3 where q: "real_thread_attr_init a (upd_attr a (\<lambda>_. zero_attr) s2) = (q, s3)"
      by (cases "real_thread_attr_init a (upd_attr a (\<lambda>_. zero_attr) s2)")
    obtain n3 stk where n3: "alloc_next s3 = drop n3 (alloc_next s2)" "freed s3 = freed s2"
        "filter isValid (take n3 (alloc_next s2)) = (if q = 0 then [] else [stk])"
        "q \<noteq> 0 \<longrightarrow> isValid stk \<and> full_attr a stk s3"
      using attr_init_step [OF q] by auto
    have sofar: "alloc_next s3 = drop (n2 + n3) (alloc_next s)" "freed s3 = freed s"
        "filter isValid (take (n2 + n3) (alloc_next s)) = a # (if q = 0 then [] else [stk])"
      using n2 n3 k1 3 filter_take_drop [of isValid n2 "alloc_next s" "[a]" n3]
      by (simp_all add: keeps_heap_def add.commute)
    show ?thesis
    proof (cases "q = 0")
      case True
      then have "s' = create_fail2 0 a s3"
        using r rg s1 a q 3 by (auto simp: real_thread_create_base_def Let_def)
      then show ?thesis using sofar True
        by (intro exI [of _ "n2 + n3"]) (simp add: create_fail2_def isValid_def)
    next
      case False
      have full: "full_attr a stk s3" "isValid stk" using False n3(4) by auto
      have "create_thread (word_of_int t) 0 a fn args s3 = Some (e, i, s')"
        using r rg s1 a q 3 False revise_full [OF full(1) a0] full(1)
        by (simp add: real_thread_create_base_def Let_def create_checked_def full_attr_def)
      from create_thread_failure [OF this e a0, of stk] obtain n4 where
        n4: "alloc_next s' = drop n4 (alloc_next s3)"
          "freed s' = freed s3 @ rev (filter isValid (take n4 (alloc_next s3))) @ [stk, a]"
        using full by (auto simp: full_attr_def isValid_def)
      have "filter isValid (take (n2 + n3 + n4) (alloc_next s)) = [a, stk] @ filter isValid (take n4 (alloc_next s3))"
        using filter_take_drop [OF sofar(3), of n4] sofar(1) False by simp
      then show ?thesis using n4 sofar(1,2)
        by (intro exI [of _ "n2 + n3 + n4"]) (simp add: add.commute)
    qed
  qed
qed

section \<open>Creation keeps the scheduler's invariant\<close>

text \<open>Addresses no registered thread or attribute occupies.\<close>

definition unused :: "kuaddr_t \<Rightarrow> kuaddr_t \<Rightarrow> 's sched_scheme \<Rightarrow> bool" where
  "unused p a s \<longleftrightarrow> (\<forall>t < REAL_THREAD_MAX_NUM. sprt_tid_array s t \<noteq> 0 \<longrightarrow>
     sprt_tid_array s t \<noteq> p \<and> sprt_attr (threads s (sprt_tid_array s t)) \<noteq> a)"

lemma sched_ok_same:
  assumes "same_sched s s'" "sched_lock s' = sched_lock s"
  shows "sched_ok s' r rs ss = sched_ok s r rs ss"
  using assms by (simp add: sched_ok_def)

lemma sched_ok_alloc [simp]: "sched_ok (s\<lparr>alloc_next := x\<rparr>) r rs ss = sched_ok s r rs ss"
  by (rule sched_ok_same) (simp_all add: same_sched_def)

lemma sched_ok_attr:
  assumes "sched_ok s r rs ss" "unused p a s"
  shows "sched_ok (s\<lparr>attrs := (attrs s)(a := at)\<rparr>) r rs ss"
  using prepare_ok [OF assms(1), of p a at "threads s p"] assms(2) by (simp add: unused_def)

lemma sched_ok_thread:
  assumes "sched_ok s r rs ss" "unused p a s"
  shows "sched_ok (upd_thread p (\<lambda>_. th) s) r rs ss"
  using prepare_ok [OF assms(1), of p a "attrs s a" th] assms(2) by (simp add: unused_def upd_thread_def)

lemma unused_same: "same_sched s s' \<Longrightarrow> unused p a s' = unused p a s"
  by (simp add: unused_def same_sched_def)

lemma create_thread_ok:
  assumes ok: "sched_ok s r rs ss" and u: "unused p a s" and al: "alloc_next s = p # as" "isValid p"
    and k: "unat k < 128" "sprt_tid_array s (unat k) = 0" and stk: "stack_addr (attrs s a) \<noteq> 0"
  shows "\<exists>s' rs'. create_thread k arg a fn args s = Some (ER_NORMAL, Some k, s') \<and> sched_ok s' r rs' ss \<and>
     set rs' = insert p (set rs)"
proof -
  let ?th = "zero_thread\<lparr>rt_tid := k, sprt_attr := a, start_routine := fn, ptr_args := args\<rparr>"
  let ?s1 = "s\<lparr>alloc_next := as\<rparr>"
  let ?s2 = "upd_thread p (\<lambda>_. ?th) ?s1"
  have "same_sched s ?s1" by (simp add: same_sched_def)
  then have u1: "unused p a ?s1" using u unused_same by blast
  have ok2: "sched_ok ?s2 r rs ss" by (rule sched_ok_thread [OF _ u1]) (use ok in simp)
  have p0: "p \<noteq> 0" using al(2) by (auto simp: isValid_def)
  have f: "fresh_thread ?s2 p"
    using p0 k stk by (simp add: fresh_thread_def) (simp add: zero_thread_def)
  have kk: "rt_tid (threads ?s2 p) = k" by simp
  obtain s' where s': "register_new_thread p k ?s2 = Some (ER_NORMAL, s')"
      "sched_ok s' r (prio_insert (\<lambda>p. thread_prio p ?s2) p rs) ss"
    using register_ok [OF ok2 f kk] by (auto simp: results_def)
  have "create_thread k arg a fn args s = Some (ER_NORMAL, Some k, s')"
    using al s'(1) by (simp add: create_thread_def kzalloc_def Let_def)
  with s'(2) show ?thesis by (metis set_prio_insert)
qed

lemma create_base_ok:
  assumes ok: "sched_ok s r rs ss" and u: "unused p a s" and v: "isValid a" "isValid stk" "isValid p"
    and al: "alloc_next s = a # stk # p # as" and rg: "tid_range user base = (i, n)" "unat i + unat n \<le> 128"
    and t: "find (\<lambda>t. sprt_tid_array s t = 0) [unat i ..< unat i + unat n] = Some t"
  shows "\<exists>s' rs'. real_thread_create_base base 0 fn args user s = Some (ER_NORMAL, Some (of_nat t), s') \<and>
     sched_ok s' r rs' ss \<and> set rs' = insert p (set rs)"
proof -
  have lk: "\<not> spin_is_locked (sched_lock s)" using ok by (simp add: sched_ok_def)
  obtain s1 where s1: "get_unused_tid_from_scheduler i n s = Some (int t, s1)" "same_sched s s1"
      "\<not> spin_is_locked (sched_lock s1)"
    using unused_tid_smallest [OF lk rg(2)] t by auto
  have ok1: "sched_ok s1 r rs ss" using ok s1 by (simp add: sched_ok_def)
  have u1: "unused p a s1" using u unused_same [OF s1(2)] by simp
  have a0: "a \<noteq> 0" using v(1) by (auto simp: isValid_def)
  have al1: "alloc_next s1 = a # stk # p # as" using unused_tid_keeps [OF s1(1)] al by (simp add: keeps_heap_def)
  let ?s2 = "upd_attr a (\<lambda>_. zero_attr) (s1\<lparr>alloc_next := stk # p # as\<rparr>)"
  obtain at top where q: "real_thread_attr_init a ?s2 = (top, ?s2\<lparr>alloc_next := p # as, attrs := (attrs ?s2)(a := at)\<rparr>)"
      "top \<noteq> 0" "full_attr a stk (?s2\<lparr>alloc_next := p # as, attrs := (attrs ?s2)(a := at)\<rparr>)"
    using attr_init_good [of ?s2 stk "p # as" a] v(2) by auto
  define s3 where "s3 = ?s2\<lparr>alloc_next := p # as, attrs := (attrs ?s2)(a := at)\<rparr>"
  have s3: "s3 = s1\<lparr>alloc_next := p # as, attrs := (attrs s1)(a := at)\<rparr>" by (simp add: s3_def upd_attr_def)
  have ok3: "sched_ok s3 r rs ss"
  proof -
    have "sched_ok (s1\<lparr>attrs := (attrs s1)(a := at)\<rparr>) r rs ss" by (rule sched_ok_attr [OF ok1 u1])
    moreover have "s3 = (s1\<lparr>attrs := (attrs s1)(a := at)\<rparr>)\<lparr>alloc_next := p # as\<rparr>" by (simp add: s3)
    ultimately show ?thesis by (simp only: sched_ok_alloc)
  qed
  have u3: "unused p a s3" using u1 by (simp add: unused_def s3)
  have st: "t \<in> set [unat i ..< unat i + unat n]" "sprt_tid_array s t = 0"
    using t by (auto simp: find_Some_iff intro: nth_mem)
  have ut: "unat (of_nat t :: kuint32_t) = t" using st(1) rg(2) by (simp add: unat_of_nat)
  have full: "full_attr a stk s3" using q(3) by (simp add: s3_def)
  have "\<exists>s' rs'. create_thread (of_nat t) 0 a fn args s3 = Some (ER_NORMAL, Some (of_nat t), s') \<and>
      sched_ok s' r rs' ss \<and> set rs' = insert p (set rs)"
  proof (rule create_thread_ok [OF ok3 u3 _ v(3)])
    show "sprt_tid_array s3 (unat (of_nat t :: kuint32_t)) = 0"
      unfolding ut using st(2) s1(2) by (simp add: s3 same_sched_def)
  qed (use st rg(2) ut full in \<open>auto simp: s3 full_attr_def\<close>)
  moreover have q1: "real_thread_attr_init a ?s2 = (top, s3)" unfolding s3_def by (rule q(1))
  moreover have "real_thread_create_base base 0 fn args user s = create_thread (of_nat t) 0 a fn args s3"
    using rg(1) s1(1) al1 v(1) q1 q(2) revise_full [OF full a0] full
    by (simp add: real_thread_create_base_def kzalloc_def Let_def create_checked_def full_attr_def)
  ultimately show ?thesis by simp
qed

section \<open>Properties\<close>


definition demo_heap :: "kuaddr_t list \<Rightarrow> kheap" where
  "demo_heap as = sched.extend demo_idle \<lparr>alloc_next = as, freed = [], g_asm_sched_flag = False\<rparr>"

lemma demo_heap_sel [simp]:
  "threads (demo_heap as) = threads demo_idle" "attrs (demo_heap as) = demo_attr"
  "alloc_next (demo_heap as) = as" "freed (demo_heap as) = []" "sched_lock (demo_heap as) = SPIN_LOCK_INIT"
  "sprt_tid_array (demo_heap as) = (\<lambda>_. 0)(0 := 4096, 32 := 8192, 33 := 12288)"
  "links (demo_heap as) = links demo_idle" "sprt_work (demo_heap as) = 4096"
  "thread_schedule_ref (demo_heap as) = 1" "jiffies (demo_heap as) = 86399999"
  "g_asm_sched_flag (demo_heap as) = False"
  "timer_links (demo_heap as) = \<lparr>sprt_prev = id, sprt_next = id\<rparr>"
  by (simp_all add: demo_heap_def demo_idle_def demo_def sched_init_def sched.defs)

lemma demo_heap_ok: "sched_ok (demo_heap as) 4096 [8192] [12288]"
proof -
  have i: "attrs demo_idle = demo_attr" "sprt_work demo_idle = 4096" "thread_schedule_ref demo_idle = 1"
    "sched_lock demo_idle = SPIN_LOCK_INIT"
    "sprt_tid_array demo_idle = (\<lambda>_. 0)(0 := 4096, 32 := 8192, 33 := 12288)"
    by (simp_all add: demo_idle_def)
  show ?thesis
    using demo_idle_ok
    by (simp add: sched_ok_def sched_core_def tidy_def two_queues_def queue_at_def thread_prio_def
        real_thread_get_priority_def registered_def i)
qed

lemma demo_heap_tid: "\<exists>s1. get_unused_tid_from_scheduler 32 96 (demo_heap as) = Some (34, s1) \<and> keeps_heap (demo_heap as) s1"
proof -
  have l: "\<not> spin_is_locked (sched_lock (demo_heap as))" by (simp add: spin_is_locked_def SPIN_LOCK_INIT_def)
  obtain s1 where s1: "sched_lock_irqsave (demo_heap as) = Some s1" "same_sched (demo_heap as) s1"
    using lock_step [OF l] by blast
  have a: "sprt_tid_array s1 = (\<lambda>_. 0)(0 := 4096, 32 := 8192, 33 := 12288)"
    using s1(2) by (simp add: same_sched_def)
  have "[32 ..< 128] = 32 # 33 # 34 # [35 ..< 128 :: nat]"
    by (simp add: upt_rec [of 32] upt_rec [of 33] upt_rec [of 34])
  then have "unused_tid_loop 96 32 s1 = Some 34"
    using unused_tid_loop_spec [of 32 96 s1] a by auto
  then show ?thesis
    using s1(1) lock_keeps [OF s1(1)] unlock_keeps [of s1] keeps_trans
    by (auto simp: get_unused_tid_from_scheduler_def)
qed




text \<open>C25: A stack of at least the minimum size that does not wrap around the address space is accepted: its top
  is 8-byte aligned, lies within 128 bytes of the end of the stack, and the register frame above it
  stays inside.\<close>

theorem stack_frame_inside:
  assumes "isValid p" and "1024 \<le> unat sz" and "unat p + unat sz < 2 ^ 32" and "dync = 0 \<or> dync = p"
  shows "\<exists>top. real_thread_set_stack dync p sz a =
       (top, a\<lparr>ptr_stack_start := dync, stack_addr := top, stacksize := sz\<rparr>) \<and>
     8 dvd unat top \<and> unat p + unat sz - 128 \<le> unat top \<and> unat top + 72 \<le> unat p + unat sz"
  using set_stack_bounds [OF assms] .

theorem stack_frame_inside_witness:
  "\<exists>top. fst (real_thread_set_stack 0 65536 2048 zero_attr) = top \<and> 8 dvd unat top \<and>
     67456 \<le> unat top \<and> unat top \<le> 67512"
proof -
  have v: "isValid 65536" by (simp add: isValid_def IS_ERR_def)
  show ?thesis using stack_frame_inside [OF v, of 2048 0 zero_attr] by auto
qed

text \<open>The highest priority, 0, is taken for a missing one: the attribute the kernel's base thread prepares with
  priority 0 is given the default priority 80 by \<^verbatim>\<open>real_thread_attr_revise\<close> before it is registered.\<close>

lemma revise_demotes_highest_priority:
  assumes "a \<noteq> 0" and "isValid stack" and "1024 \<le> unat sz" and "unat stack + unat sz < 2 ^ 32"
  shows "sched_curpriority (attrs (setup_static_attr a stack sz REAL_THREAD_PROTY_KERNEL s) a) = REAL_THREAD_PROTY_KERNEL \<and>
     (\<exists>top s'. real_thread_attr_revise a (setup_static_attr a stack sz REAL_THREAD_PROTY_KERNEL s) = (top, s') \<and> top \<noteq> 0 \<and>
        sched_curpriority (attrs s' a) = REAL_THREAD_PROTY_DEFAULT)"
proof -
  let ?z = "(attrs s a)\<lparr>detachstate := 0, inheritsched := 0, schedpolicy := 1\<rparr>"
  obtain top where top: "real_thread_set_stack 0 stack sz ?z = (top, ?z\<lparr>ptr_stack_start := 0, stack_addr := top, stacksize := sz\<rparr>)"
      "unat stack + unat sz - 128 \<le> unat top"
    using set_stack_bounds [OF assms(2-4), of 0 ?z] by auto
  have "0 < unat top" using top(2) assms(3) by linarith
  then have t0: "top \<noteq> 0" by auto
  let ?at = "real_thread_set_time_slice 40 (real_thread_set_priority 0 (?z\<lparr>ptr_stack_start := 0, stack_addr := top, stacksize := sz\<rparr>))"
  have at: "attrs (setup_static_attr a stack sz 0 s) a = ?at"
    using top(1) by (simp add: setup_static_attr_def Let_def)
  have f: "sched_priority ?at = 0" "sched_curpriority ?at = 0" "stack_addr ?at = top"
      "\<not> mrt_is_timespec_empty (mrt_sched_init_budget ?at)"
    by (simp_all add: real_thread_set_priority_def real_thread_set_time_slice_def THREAD_IS_LOW_PRIO_def slice_40
        mrt_is_timespec_empty_def)
  then show ?thesis
    using assms(1) t0 at
    by (simp add: real_thread_attr_revise_def Let_def real_thread_set_priority_def [of 80] THREAD_IS_LOW_PRIO_def)
qed

lemma revise_demotes_highest_priority_witness:
  "\<exists>top s'. real_thread_attr_revise 4096 (setup_static_attr 4096 65536 2048 0 (demo_heap [])) = (top, s') \<and>
     sched_curpriority (attrs s' 4096) = 80"
proof -
  have v: "isValid 65536" by (simp add: isValid_def IS_ERR_def)
  show ?thesis using revise_demotes_highest_priority [of 4096 65536 2048 "demo_heap []"] v by auto
qed

text \<open>The preemption timer keeps the scheduler's invariant, re-arms itself two ticks ahead, and asks for a
  reschedule exactly when the running thread has used up its time slice and the first ready thread
  has at least its priority.\<close>

lemma preempt_timer_decision:
  assumes "sched_ok s r rs ss" and "r \<noteq> 0" and "timer_ring s ts" and "isValid tim"
  shows "\<exists>s'. kthread_schedule_timeout tim s = Some s' \<and>
     g_asm_sched_flag s' = (g_asm_sched_flag s \<or>
       rt_expires (threads s r) \<le> jiffies s \<and> rs \<noteq> [] \<and> thread_prio (hd rs) s \<le> thread_prio r s) \<and>
     expires (timers s' tim) = jiffies s + 2 \<and> find_timer tim s' = Some True"
proof -
  have c: "sched_core s r rs ss" using assms(1) by (simp add: sched_ok_def)
  have w: "running_thread s = Some r" using coreD(2) [OF c] assms(2) by (simp add: running_thread_def)
  have two: "msecs_to_jiffies 20 = 2" by (simp add: msecs_to_jiffies_def)
  let ?u = "upd_thread r (\<lambda>t. t\<lparr>rt_expires := (if - 1 - jiffies s \<le> 20 then 0 else jiffies s)\<rparr>) s"
  let ?late = "rt_expires (threads s r) \<le> jiffies s"
  let ?ask = "?late \<and> rs \<noteq> [] \<and> thread_prio (hd rs) s \<le> thread_prio r s"
  define m where "m = (if ?ask then ?u\<lparr>g_asm_sched_flag := True\<rparr> else if ?late then ?u else s)"
  have first: "get_first_ready_thread ?u = Some (case rs of [] \<Rightarrow> 0 | p # _ \<Rightarrow> p)"
    using coreD(17) [OF c] by (simp only: get_first_ready_thread_def first_entry_def upd_thread_sel)
  have pr: "thread_prio q ?u = thread_prio q s" for q
    by (simp add: thread_prio_def real_thread_get_priority_def)
  have hd0: "rs \<noteq> [] \<Longrightarrow> hd rs \<noteq> 0" using core_zero [OF c] by (cases rs) (auto simp: live_def)
  have m: "kthread_schedule_timeout tim s = mod_timer tim (jiffies m + msecs_to_jiffies 20) m"
  proof (cases ?late)
    case False
    then have "mrt_time_after (rt_expires (threads s r)) (jiffies s)" by (simp add: mrt_time_after_def)
    then show ?thesis using w False by (simp add: kthread_schedule_timeout_def m_def)
  next
    case True
    then have late: "\<not> mrt_time_after (rt_expires (threads s r)) (jiffies s)" by (simp add: mrt_time_after_def)
    show ?thesis
    proof (cases rs)
      case Nil
      then show ?thesis using w first late True
        by (simp add: kthread_schedule_timeout_def m_def Let_def)
    next
      case (Cons q qs)
      then have "get_first_ready_thread ?u = Some q" "q \<noteq> 0" using first hd0 by simp_all
      then show ?thesis using w late True Cons
        by (simp add: kthread_schedule_timeout_def m_def Let_def pr THREAD_IS_LOW_PRIO_def)
    qed
  qed
  have f: "timer_links m = timer_links s" "jiffies m = jiffies s" "g_asm_sched_flag m = (g_asm_sched_flag s \<or> ?ask)"
    by (auto simp: m_def upd_thread_def)
  have r: "timer_ring m ts" using assms(3) f(1) by (simp add: timer_ring_def)
  obtain s' where s': "mod_timer tim (jiffies m + 2) m = Some s'"
      "timer_ring s' (if tim \<in> set ts then ts else ts @ [tim])" "expires (timers s' tim) = jiffies m + 2"
    using mod_timer_ring [OF r assms(4), of "jiffies m + 2"] by auto
  have "g_asm_sched_flag s' = g_asm_sched_flag m"
    using s'(1) by (auto simp: mod_timer_def add_timer_def Let_def split: if_splits option.splits)
  then show ?thesis using m s' f two find_timer_ring [OF s'(2), of tim] by auto
qed

lemma preempt_timer_decision_witness:
  "\<exists>s'. kthread_schedule_timeout 65536 (demo_heap []) = Some s' \<and> g_asm_sched_flag s'"
proof -
  have v: "isValid 65536" by (simp add: isValid_def IS_ERR_def)
  have r: "timer_ring (demo_heap []) []" by (simp add: timer_ring_def mrt_list_head_empty_def)
  have "rt_expires (threads (demo_heap []) 4096) \<le> jiffies (demo_heap [])"
    by (simp add: demo_idle_def demo_thread_def zero_thread_def)
  moreover have "thread_prio 8192 (demo_heap []) \<le> thread_prio 4096 (demo_heap [])"
    by (simp add: thread_prio_def real_thread_get_priority_def) (simp add: demo_idle_def demo_thread_def demo_attr_def)
  ultimately show ?thesis using preempt_timer_decision [OF demo_heap_ok _ r v] by auto
qed

end
