(* ===== verification/Wait_Sleep.thy ===== *)
theory Wait_Sleep
  imports Sched_Props
begin

text \<open>
  Wait queues (\<^verbatim>\<open>kernel/wait.c\<close>, \<^verbatim>\<open>include/kernel/wait.h\<close>) and sleeping (\<^verbatim>\<open>kernel/sleep.c\<close>).

  A function that gives the processor away is split where control leaves the thread: what it does
  before, and what it does when it is resumed.
\<close>

section \<open>Wait queues\<close>

datatype wq_node = WqHead kuaddr_t | WqLink kuaddr_t

record waitq = sched +
  wq_links :: "wq_node list_heap"
  wq_lock :: "kuaddr_t \<Rightarrow> spin_lock"
  wq_task :: "kuaddr_t \<Rightarrow> kuaddr_t"

definition wq_lock_irqsave :: "kuaddr_t \<Rightarrow> 's waitq_scheme \<Rightarrow> 's waitq_scheme option" where
  "wq_lock_irqsave q s =
     (case spin_lock_irqsave (wq_lock s q) (the_cpu s) of
        None \<Rightarrow> None
      | Some (l, c) \<Rightarrow> Some (s\<lparr>wq_lock := (wq_lock s)(q := l), the_cpu := c\<rparr>))"

definition wq_unlock_irqrestore :: "kuaddr_t \<Rightarrow> 's waitq_scheme \<Rightarrow> 's waitq_scheme" where
  "wq_unlock_irqrestore q s =
     (let (l, c) = spin_unlock_irqrestore (wq_lock s q) (the_cpu s)
      in s\<lparr>wq_lock := (wq_lock s)(q := l), the_cpu := c\<rparr>)"

definition init_waitqueue_head :: "kuaddr_t \<Rightarrow> 's waitq_scheme \<Rightarrow> 's waitq_scheme" where
  "init_waitqueue_head q s =
     s\<lparr>wq_lock := (wq_lock s)(q := spin_lock_init (wq_lock s q)),
       wq_links := init_list_head (WqHead q) (wq_links s)\<rparr>"

definition add_wait_queue :: "kuaddr_t \<Rightarrow> kuaddr_t \<Rightarrow> 's waitq_scheme \<Rightarrow> 's waitq_scheme option" where
  "add_wait_queue q w s =
     (if \<not> mrt_list_head_empty (wq_links s) (WqLink w) then Some s
      else do { s \<leftarrow> wq_lock_irqsave q s;
                let s = s\<lparr>wq_links := list_head_add_tail (WqHead q) (WqLink w) (wq_links s)\<rparr>;
                Some (wq_unlock_irqrestore q s) })"

definition remove_wait_queue :: "kuaddr_t \<Rightarrow> kuaddr_t \<Rightarrow> 's waitq_scheme \<Rightarrow> 's waitq_scheme option" where
  "remove_wait_queue q w s =
     do { s \<leftarrow> wq_lock_irqsave q s;
          let s = s\<lparr>wq_links := list_head_del (WqLink w) (wq_links s)\<rparr>;
          Some (wq_unlock_irqrestore q s) }"

definition wake_up_one :: "kuaddr_t \<Rightarrow> nat \<Rightarrow> 's waitq_scheme \<Rightarrow> 's waitq_scheme option" where
  "wake_up_one p state s =
     (if \<not> mrt_thread_is_flags state p s then Some s
      else real_thread_state_signal p NR_THREAD_SIG_WAKEUP True s)"

text \<open>The walk of \<^verbatim>\<open>wake_up_common\<close> with the macro's two cursors.\<close>

partial_function (option) wake_walk ::
  "kuaddr_t \<Rightarrow> nat \<Rightarrow> wq_node \<Rightarrow> wq_node \<Rightarrow> 's waitq_scheme \<Rightarrow> 's waitq_scheme option" where
  "wake_walk q state pos temp s =
     (if pos = WqHead q then Some s
      else case pos of
        WqHead _ \<Rightarrow> None
      | WqLink w \<Rightarrow>
          Option.bind (if wq_task s w \<noteq> 0 then wake_up_one (wq_task s w) state s else Some s) (\<lambda>s.
            wake_walk q state temp (sprt_next (wq_links s) temp) s))"

definition wake_up_common :: "kuaddr_t \<Rightarrow> nat \<Rightarrow> 's waitq_scheme \<Rightarrow> 's waitq_scheme option" where
  "wake_up_common q state s =
     (if mrt_list_head_empty (wq_links s) (WqHead q) then Some s
      else do { s \<leftarrow> wq_lock_irqsave q s;
                let pos = sprt_next (wq_links s) (WqHead q);
                s \<leftarrow> wake_walk q state pos (sprt_next (wq_links s) pos) s;
                Some (wq_unlock_irqrestore q s) })"

text \<open>\<^verbatim>\<open>__wait_event\<close> for a running thread: entering the queue, one round of its loop (\<open>Some True\<close> leaves the
  loop, \<open>Some False\<close> gives the processor away), and leaving the queue.  \<open>intr\<close> is the
  interruptible form.\<close>

definition wait_state :: "bool \<Rightarrow> nat" where
  "wait_state intr = (if intr then NR_THREAD_SIG_INTR else NR_THREAD_SIG_NORMAL)"

definition wait_event_enter :: "kuaddr_t \<Rightarrow> kuaddr_t \<Rightarrow> bool \<Rightarrow> 's waitq_scheme \<Rightarrow> 's waitq_scheme option" where
  "wait_event_enter q w intr s =
     do { let s = s\<lparr>wq_task := (wq_task s)(w := get_current_thread s)\<rparr>;
          let s = s\<lparr>wq_links := init_list_head (WqLink w) (wq_links s)\<rparr>;
          s \<leftarrow> add_wait_queue q w s;
          real_thread_state_signal (wq_task s w) (wait_state intr) True s }"

definition wait_event_round :: "kuaddr_t \<Rightarrow> bool \<Rightarrow> 's waitq_scheme \<Rightarrow> (bool \<times> 's waitq_scheme) option" where
  "wait_event_round w condition s =
     (if condition then Some (True, s)
      else if mrt_thread_is_flags NR_THREAD_SIG_INTR (wq_task s w) s
      then real_thread_state_pending (wq_task s w) s
      else Some (False, s))"

definition wait_event_leave :: "kuaddr_t \<Rightarrow> kuaddr_t \<Rightarrow> bool \<Rightarrow> 's waitq_scheme \<Rightarrow> 's waitq_scheme option" where
  "wait_event_leave q w intr s =
     do { s \<leftarrow> real_thread_state_signal (wq_task s w) (wait_state intr) False s;
          remove_wait_queue q w s }"

section \<open>Sleeping\<close>

definition real_thread_sleep_timeout :: "kuint32_t \<Rightarrow> 's sched_scheme \<Rightarrow> 's sched_scheme option" where
  "real_thread_sleep_timeout args s =
     (if spin_is_locked (sched_lock s) then Some s
      else if status (threads s args) = NR_THREAD_SUSPEND
      then do { (_, s) \<leftarrow> schedule_thread_wakeup (rt_tid (threads s args)) s; Some s }
      else Some s)"

text \<open>\<^verbatim>\<open>schedule_timeout\<close> up to and after the suspension; \<open>tm\<close> is the address of its local timer and \<open>fn\<close> that of
  the timeout function.\<close>

definition schedule_timeout_arm ::
  "kuaddr_t \<Rightarrow> kuaddr_t \<Rightarrow> kutime_t \<Rightarrow> 's sched_scheme \<Rightarrow> 's sched_scheme option" where
  "schedule_timeout_arm tm fn n s =
     do { let p = get_current_thread s;
          s \<leftarrow> (if n = 0 then schedule_thread s else Some s);
          s \<leftarrow> sched_lock_irqsave s;
          let s = sched_unlock_irqrestore (setup_timer tm fn p s);
          mod_timer tm n s }"

definition schedule_timeout_suspend ::
  "kuaddr_t \<Rightarrow> kuaddr_t \<Rightarrow> kutime_t \<Rightarrow> 's sched_scheme \<Rightarrow> 's sched_scheme option" where
  "schedule_timeout_suspend tm fn n s = Option.bind (schedule_timeout_arm tm fn n s) schedule_self_suspend"

definition schedule_timeout_resume :: "kuaddr_t \<Rightarrow> 's sched_scheme \<Rightarrow> 's sched_scheme option" where
  "schedule_timeout_resume tm s =
     do { s \<leftarrow> sched_lock_irqsave s;
          s \<leftarrow> del_timer tm s;
          Some (sched_unlock_irqrestore s) }"

text \<open>The three delays; \<open>None\<close> inside the result when the delay is already over and the thread goes on.\<close>

definition schedule_delay_until ::
  "kuaddr_t \<Rightarrow> kuaddr_t \<Rightarrow> kutime_t \<Rightarrow> 's sched_scheme \<Rightarrow> 's sched_scheme option" where
  "schedule_delay_until tm fn n s =
     (if mrt_time_after n (jiffies s) then schedule_timeout_suspend tm fn n s else Some s)"

definition schedule_delay :: "kuaddr_t \<Rightarrow> kuaddr_t \<Rightarrow> kuint32_t \<Rightarrow> 's sched_scheme \<Rightarrow> 's sched_scheme option" where
  "schedule_delay tm fn seconds s = schedule_delay_until tm fn (jiffies s + secs_to_jiffies seconds) s"

definition schedule_delay_ms :: "kuaddr_t \<Rightarrow> kuaddr_t \<Rightarrow> kuint32_t \<Rightarrow> 's sched_scheme \<Rightarrow> 's sched_scheme option" where
  "schedule_delay_ms tm fn milseconds s = schedule_delay_until tm fn (jiffies s + msecs_to_jiffies milseconds) s"

definition schedule_delay_us :: "kuaddr_t \<Rightarrow> kuaddr_t \<Rightarrow> kuint32_t \<Rightarrow> 's sched_scheme \<Rightarrow> 's sched_scheme option" where
  "schedule_delay_us tm fn useconds s = schedule_delay_until tm fn (jiffies s + usecs_to_jiffies useconds) s"

section \<open>Signals\<close>

text \<open>\<open>reflagged s s' G\<close>: all that differs are the flag words of threads, changed by \<open>G\<close>, and what the
  locks leave behind; every thread lock is as free as before.\<close>

definition reflagged ::
  "'s sched_scheme \<Rightarrow> 's sched_scheme \<Rightarrow> (kuaddr_t \<Rightarrow> kuint32_t \<Rightarrow> kuint32_t) \<Rightarrow> bool" where
  "reflagged s s' G \<longleftrightarrow>
     (\<exists>L c. s' = s\<lparr>threads := (\<lambda>p. (threads s p)\<lparr>flags := G p (flags (threads s p)), rt_lock := L p\<rparr>), the_cpu := c\<rparr> \<and>
        (\<forall>p. spin_is_locked (L p) \<longleftrightarrow> spin_is_locked (rt_lock (threads s p))))"

lemma reflagged_refl: "reflagged s s (\<lambda>_ f. f)"
  unfolding reflagged_def
  by (intro exI [of _ "\<lambda>p. rt_lock (threads s p)"] exI [of _ "the_cpu s"]) simp

lemma reflagged_trans:
  assumes "reflagged s s1 G" "reflagged s1 s2 G'"
  shows "reflagged s s2 (\<lambda>p f. G' p (G p f))"
proof -
  obtain L c where 1: "s1 = s\<lparr>threads := (\<lambda>p. (threads s p)\<lparr>flags := G p (flags (threads s p)), rt_lock := L p\<rparr>), the_cpu := c\<rparr>"
    "\<forall>p. spin_is_locked (L p) \<longleftrightarrow> spin_is_locked (rt_lock (threads s p))"
    using assms(1) by (auto simp: reflagged_def)
  obtain L' c' where 2: "s2 = s1\<lparr>threads := (\<lambda>p. (threads s1 p)\<lparr>flags := G' p (flags (threads s1 p)), rt_lock := L' p\<rparr>), the_cpu := c'\<rparr>"
    "\<forall>p. spin_is_locked (L' p) \<longleftrightarrow> spin_is_locked (rt_lock (threads s1 p))"
    using assms(2) by (auto simp: reflagged_def)
  show ?thesis
    unfolding reflagged_def using 1 2 by (intro exI [of _ L'] exI [of _ c']) simp
qed

lemma reflagged_cong:
  "reflagged s s' G \<Longrightarrow> (\<And>p. G p (flags (threads s p)) = H p (flags (threads s p))) \<Longrightarrow> reflagged s s' H"
  by (simp add: reflagged_def)

lemma reflaggedD:
  assumes "reflagged s s' G"
  shows "flags (threads s' p) = G p (flags (threads s p))"
    "spin_is_locked (rt_lock (threads s' p)) \<longleftrightarrow> spin_is_locked (rt_lock (threads s p))"
    "links s' = links s" "sprt_work s' = sprt_work s" "jiffies s' = jiffies s"
proof -
  obtain L c where s': "s' = s\<lparr>threads := (\<lambda>p. (threads s p)\<lparr>flags := G p (flags (threads s p)), rt_lock := L p\<rparr>), the_cpu := c\<rparr>"
    and L: "\<And>p. spin_is_locked (L p) \<longleftrightarrow> spin_is_locked (rt_lock (threads s p))"
    using assms unfolding reflagged_def by blast
  show "flags (threads s' p) = G p (flags (threads s p))"
    "spin_is_locked (rt_lock (threads s' p)) \<longleftrightarrow> spin_is_locked (rt_lock (threads s p))"
    "links s' = links s" "sprt_work s' = sprt_work s" "jiffies s' = jiffies s"
    using L by (simp_all add: s')
qed

lemma reflagged_waitq:
  fixes s :: "'s waitq_scheme"
  assumes "reflagged s s' G"
  shows "wq_links s' = wq_links s" "wq_lock s' = wq_lock s" "wq_task s' = wq_task s"
proof -
  obtain L c where s': "s' = s\<lparr>threads := (\<lambda>p. (threads s p)\<lparr>flags := G p (flags (threads s p)), rt_lock := L p\<rparr>), the_cpu := c\<rparr>"
    and L: "\<And>p. spin_is_locked (L p) \<longleftrightarrow> spin_is_locked (rt_lock (threads s p))"
    using assms unfolding reflagged_def by blast
  show "wq_links s' = wq_links s" "wq_lock s' = wq_lock s" "wq_task s' = wq_task s"
    using L by (simp_all add: s')
qed

lemma reflagged_is_flags:
  "reflagged s s' G \<Longrightarrow> mrt_thread_is_flags k p s' \<longleftrightarrow> G p (flags (threads s p)) AND push_bit k 1 \<noteq> 0"
  by (simp add: mrt_thread_is_flags_def reflaggedD)

lemmas thread_lock_defs =
  thread_lock_irqsave_def thread_unlock_irqrestore_def spin_lock_irqsave_def spin_lock_acquire_def
  spin_unlock_irqrestore_def spin_unlock_def spin_is_locked_def upd_thread_def atomic_defs

lemma reflaggedI:
  assumes "s' = s\<lparr>the_cpu := c, threads := (threads s)(p := (threads s p)\<lparr>flags := f, rt_lock := l\<rparr>)\<rparr>"
    "spin_is_locked l \<longleftrightarrow> spin_is_locked (rt_lock (threads s p))"
  shows "reflagged s s' (\<lambda>q g. if q = p then f else g)"
  unfolding reflagged_def using assms
  by (intro exI [of _ "\<lambda>q. if q = p then l else rt_lock (threads s q)"] exI [of _ c]) (auto intro!: sched.equality simp: fun_eq_iff)

lemma thread_lock_step:
  assumes "\<not> spin_is_locked (rt_lock (threads s p))"
  shows "\<exists>l c. thread_lock_irqsave p s =
       Some (s\<lparr>the_cpu := c, threads := (threads s)(p := (threads s p)\<lparr>rt_lock := l\<rparr>)\<rparr>) \<and> counter (sgrt_atc l) = 1"
  using assms
  by (intro exI [of _ "(rt_lock (threads s p))\<lparr>sgrt_atc := (sgrt_atc (rt_lock (threads s p)))\<lparr>counter := 1\<rparr>, flag := cpsr (the_cpu s)\<rparr>"]
      exI [of _ "mrt_disable_cpu_irq (mrt_preempt_disable (the_cpu s))"])
    (simp add: thread_lock_defs mrt_preempt_disable_def)

lemma thread_unlock_step:
  assumes "counter (sgrt_atc (rt_lock (threads s p))) = 1"
  shows "\<exists>l c. thread_unlock_irqrestore p s =
       s\<lparr>the_cpu := c, threads := (threads s)(p := (threads s p)\<lparr>rt_lock := l\<rparr>)\<rparr> \<and> \<not> spin_is_locked l"
proof -
  obtain l c where lc: "spin_unlock_irqrestore (rt_lock (threads s p)) (the_cpu s) = (l, c)" by fastforce
  with assms have "\<not> spin_is_locked l"
    by (auto simp: spin_unlock_irqrestore_def spin_unlock_def spin_is_locked_def atomic_defs)
  with lc show ?thesis
    by (intro exI [of _ l] exI [of _ c]) (simp add: thread_unlock_irqrestore_def upd_thread_def)
qed

lemma signal_step:
  assumes "\<not> spin_is_locked (rt_lock (threads s p))"
  shows "\<exists>s'. real_thread_state_signal p k m s = Some s' \<and>
     reflagged s s' (\<lambda>q f. if q = p then (if m then flags (threads s p) OR push_bit k 1
                                          else flags (threads s p) AND NOT (push_bit k 1)) else f)"
proof -
  let ?f = "if m then flags (threads s p) OR push_bit k 1 else flags (threads s p) AND NOT (push_bit k 1)"
  obtain l c where l: "thread_lock_irqsave p s =
       Some (s\<lparr>the_cpu := c, threads := (threads s)(p := (threads s p)\<lparr>rt_lock := l\<rparr>)\<rparr>)" "counter (sgrt_atc l) = 1"
    using thread_lock_step [OF assms] by blast
  let ?s = "s\<lparr>the_cpu := c, threads := (threads s)(p := (threads s p)\<lparr>rt_lock := l, flags := ?f\<rparr>)\<rparr>"
  obtain l' c' where "thread_unlock_irqrestore p ?s =
      ?s\<lparr>the_cpu := c', threads := (threads ?s)(p := (threads ?s p)\<lparr>rt_lock := l'\<rparr>)\<rparr>" "\<not> spin_is_locked l'"
    using thread_unlock_step [of ?s p] l(2) by auto
  moreover have "real_thread_state_signal p k m s = Some (thread_unlock_irqrestore p ?s)"
    by (simp add: real_thread_state_signal_def l(1) mrt_thread_set_flags_def mrt_thread_clr_flags_def upd_thread_def)
  ultimately show ?thesis
    using reflaggedI [where s = s and p = p and f = ?f and l = l' and c = c'] assms by simp
qed

lemma pending_step:
  assumes "\<not> spin_is_locked (rt_lock (threads s p))"
  shows "\<exists>s'. real_thread_state_pending p s =
       Some (mrt_thread_is_flags NR_THREAD_SIG_WAKEUP p s \<or> mrt_thread_is_flags NR_THREAD_SIG_KILL p s, s') \<and>
     reflagged s s' (\<lambda>q f. if q = p then flags (threads s p) AND NOT (push_bit NR_THREAD_SIG_WAKEUP 1)
                                AND NOT (push_bit NR_THREAD_SIG_KILL 1) else f)"
proof -
  let ?f = "flags (threads s p) AND NOT (push_bit NR_THREAD_SIG_WAKEUP 1) AND NOT (push_bit NR_THREAD_SIG_KILL 1)"
  obtain l c where l: "thread_lock_irqsave p s =
       Some (s\<lparr>the_cpu := c, threads := (threads s)(p := (threads s p)\<lparr>rt_lock := l\<rparr>)\<rparr>)" "counter (sgrt_atc l) = 1"
    using thread_lock_step [OF assms] by blast
  let ?s = "s\<lparr>the_cpu := c, threads := (threads s)(p := (threads s p)\<lparr>rt_lock := l, flags := ?f\<rparr>)\<rparr>"
  obtain l' c' where "thread_unlock_irqrestore p ?s =
      ?s\<lparr>the_cpu := c', threads := (threads ?s)(p := (threads ?s p)\<lparr>rt_lock := l'\<rparr>)\<rparr>" "\<not> spin_is_locked l'"
    using thread_unlock_step [of ?s p] l(2) by auto
  moreover have "real_thread_state_pending p s =
      Some (mrt_thread_is_flags NR_THREAD_SIG_WAKEUP p s \<or> mrt_thread_is_flags NR_THREAD_SIG_KILL p s,
        thread_unlock_irqrestore p ?s)"
    by (simp add: real_thread_state_pending_def l(1) mrt_thread_is_flags_def mrt_thread_clr_flags_def upd_thread_def
        and.assoc Let_def)
  ultimately show ?thesis
    using reflaggedI [where s = s and p = p and f = ?f and l = l' and c = c'] assms by simp
qed

section \<open>Waking up a queue\<close>

definition waits_on :: "'s waitq_scheme \<Rightarrow> kuaddr_t \<Rightarrow> kuaddr_t list \<Rightarrow> bool" where
  "waits_on s q ws \<longleftrightarrow> dlist (wq_links s) (WqHead q) (map WqLink ws) \<and> \<not> spin_is_locked (wq_lock s q)"

definition wake_flags :: "'s waitq_scheme \<Rightarrow> kuaddr_t list \<Rightarrow> nat \<Rightarrow> kuaddr_t \<Rightarrow> kuint32_t \<Rightarrow> kuint32_t" where
  "wake_flags s ws state p f =
     (if p \<noteq> 0 \<and> p \<in> wq_task s ` set ws \<and> f AND push_bit state 1 \<noteq> 0
      then f OR push_bit NR_THREAD_SIG_WAKEUP 1 else f)"

lemma or_keeps_flag: "f AND push_bit k 1 \<noteq> 0 \<Longrightarrow> (f OR g) AND push_bit k 1 \<noteq> (0 :: kuint32_t)"
  by (simp add: bit.conj_disj_distrib2 or_eq_0_iff)

lemma wake_one_step:
  assumes "p \<noteq> 0 \<Longrightarrow> \<not> spin_is_locked (rt_lock (threads s p))"
  shows "\<exists>s'. (if p \<noteq> 0 then wake_up_one p state s else Some s) = Some s' \<and>
     reflagged s s' (\<lambda>q f. if q = p \<and> p \<noteq> 0 \<and> f AND push_bit state 1 \<noteq> 0
                           then f OR push_bit NR_THREAD_SIG_WAKEUP 1 else f)"
proof (cases "p \<noteq> 0 \<and> mrt_thread_is_flags state p s")
  case True
  then obtain s' where s': "real_thread_state_signal p NR_THREAD_SIG_WAKEUP True s = Some s'"
    "reflagged s s' (\<lambda>q f. if q = p then flags (threads s p) OR push_bit NR_THREAD_SIG_WAKEUP 1 else f)"
    using signal_step [of s p NR_THREAD_SIG_WAKEUP True] assms by auto
  have "reflagged s s' (\<lambda>q f. if q = p \<and> p \<noteq> 0 \<and> f AND push_bit state 1 \<noteq> 0
                           then f OR push_bit NR_THREAD_SIG_WAKEUP 1 else f)"
    by (rule reflagged_cong [OF s'(2)]) (use True in \<open>simp add: mrt_thread_is_flags_def\<close>)
  with s' True show ?thesis by (auto simp: wake_up_one_def)
next
  case False
  have "reflagged s s (\<lambda>q f. if q = p \<and> p \<noteq> 0 \<and> f AND push_bit state 1 \<noteq> 0
                           then f OR push_bit NR_THREAD_SIG_WAKEUP 1 else f)"
    by (rule reflagged_cong [OF reflagged_refl]) (use False in \<open>auto simp: mrt_thread_is_flags_def\<close>)
  with False show ?thesis by (auto simp: wake_up_one_def)
qed

lemma wake_flags_Cons:
  "wake_flags s (w # ws) state p f =
     wake_flags s ws state p
       (if p = wq_task s w \<and> wq_task s w \<noteq> 0 \<and> f AND push_bit state 1 \<noteq> 0 then f OR push_bit NR_THREAD_SIG_WAKEUP 1 else f)"
  using or_keeps_flag [of f state] by (auto simp: wake_flags_def or.assoc simp del: push_bit_numeral push_bit_of_1)

lemma wake_walk_linked:
  fixes s :: "'s waitq_scheme"
  assumes "linked (wq_links s) a (map WqLink ws) (WqHead q)"
    and "\<And>w. w \<in> set ws \<Longrightarrow> wq_task s w \<noteq> 0 \<Longrightarrow> \<not> spin_is_locked (rt_lock (threads s (wq_task s w)))"
  shows "\<exists>s'. wake_walk q state (sprt_next (wq_links s) a) (sprt_next (wq_links s) (sprt_next (wq_links s) a)) s = Some s' \<and>
     reflagged s s' (wake_flags s ws state)"
  using assms
proof (induction ws arbitrary: s a)
  case Nil
  then have "sprt_next (wq_links s) a = WqHead q" by simp
  moreover have "reflagged s s (wake_flags s [] state)"
    by (rule reflagged_cong [OF reflagged_refl]) (simp add: wake_flags_def)
  ultimately show ?case by (auto simp: wake_walk.simps)
next
  case (Cons w ws)
  let ?p = "wq_task s w"
  obtain s1 where s1: "(if ?p \<noteq> 0 then wake_up_one ?p state s else Some s) = Some s1"
    "reflagged s s1 (\<lambda>q f. if q = ?p \<and> ?p \<noteq> 0 \<and> f AND push_bit state 1 \<noteq> 0
                           then f OR push_bit NR_THREAD_SIG_WAKEUP 1 else f)"
    using wake_one_step [of ?p s state] Cons.prems(2) [of w] by auto
  note eq = reflagged_waitq [OF s1(2)]
  obtain s2 where s2: "wake_walk q state (sprt_next (wq_links s1) (WqLink w))
      (sprt_next (wq_links s1) (sprt_next (wq_links s1) (WqLink w))) s1 = Some s2" "reflagged s1 s2 (wake_flags s1 ws state)"
    using Cons.IH [of s1 "WqLink w"] Cons.prems eq reflaggedD(2) [OF s1(2)] by auto
  have wf: "wake_flags s1 ws state = wake_flags s ws state" by (intro ext) (simp only: wake_flags_def eq)
  have "reflagged s s2 (wake_flags s (w # ws) state)"
    by (rule reflagged_cong [OF reflagged_trans [OF s1(2) s2(2)]]) (simp only: wake_flags_Cons wf)
  moreover have "sprt_next (wq_links s) a = WqLink w" using Cons.prems(1) by simp
  ultimately show ?case using s1(1) s2(1) eq by (subst wake_walk.simps) simp
qed

lemma wq_lock_step:
  assumes "\<not> spin_is_locked (wq_lock s q)"
  shows "\<exists>l c. wq_lock_irqsave q s = Some (s\<lparr>wq_lock := (wq_lock s)(q := l), the_cpu := c\<rparr>) \<and> counter (sgrt_atc l) = 1"
  using assms
  by (intro exI [of _ "(wq_lock s q)\<lparr>sgrt_atc := (sgrt_atc (wq_lock s q))\<lparr>counter := 1\<rparr>, flag := cpsr (the_cpu s)\<rparr>"]
      exI [of _ "mrt_disable_cpu_irq (mrt_preempt_disable (the_cpu s))"])
    (simp add: wq_lock_irqsave_def thread_lock_defs mrt_preempt_disable_def)

lemma wq_unlock_step:
  assumes "counter (sgrt_atc (wq_lock s q)) = 1"
  shows "\<exists>l c. wq_unlock_irqrestore q s = s\<lparr>wq_lock := (wq_lock s)(q := l), the_cpu := c\<rparr> \<and> \<not> spin_is_locked l"
proof -
  obtain l c where lc: "spin_unlock_irqrestore (wq_lock s q) (the_cpu s) = (l, c)" by fastforce
  with assms have "\<not> spin_is_locked l"
    by (auto simp: spin_unlock_irqrestore_def spin_unlock_def spin_is_locked_def atomic_defs)
  with lc show ?thesis by (intro exI [of _ l] exI [of _ c]) (simp add: wq_unlock_irqrestore_def)
qed

text \<open>What a step on a wait queue leaves alone, apart from flag words changed by \<open>G\<close>.\<close>

definition wq_step :: "'s waitq_scheme \<Rightarrow> 's waitq_scheme \<Rightarrow> (kuaddr_t \<Rightarrow> kuint32_t \<Rightarrow> kuint32_t) \<Rightarrow> bool" where
  "wq_step s s' G \<longleftrightarrow>
     (\<forall>p. flags (threads s' p) = G p (flags (threads s p)) \<and>
        (spin_is_locked (rt_lock (threads s' p)) \<longleftrightarrow> spin_is_locked (rt_lock (threads s p)))) \<and>
     wq_task s' = wq_task s \<and> sprt_work s' = sprt_work s \<and> links s' = links s"

lemma wq_step_reflagged:
  fixes s :: "'s waitq_scheme"
  assumes "reflagged s s' G"
  shows "wq_step s s' G" "waits_on s' q ws = waits_on s q ws"
  using reflaggedD [OF assms] reflagged_waitq [OF assms] by (simp_all add: wq_step_def waits_on_def)

lemma wq_step_trans: "wq_step s s1 G \<Longrightarrow> wq_step s1 s2 G' \<Longrightarrow> wq_step s s2 (\<lambda>p f. G' p (G p f))"
  by (simp add: wq_step_def)

lemma wake_up_common_step:
  fixes s :: "'s waitq_scheme"
  assumes "waits_on s q ws"
    and "\<And>w. w \<in> set ws \<Longrightarrow> wq_task s w \<noteq> 0 \<Longrightarrow> \<not> spin_is_locked (rt_lock (threads s (wq_task s w)))"
  shows "\<exists>s'. wake_up_common q state s = Some s' \<and> waits_on s' q ws \<and> wq_step s s' (wake_flags s ws state)"
proof (cases ws)
  case Nil
  with assms show ?thesis by (simp add: waits_on_def wake_up_common_def wq_step_def wake_flags_def)
next
  case (Cons w vs)
  then have ne: "\<not> mrt_list_head_empty (wq_links s) (WqHead q)"
    using assms(1) dlist_is_empty by (force simp: waits_on_def)
  obtain l c where l: "wq_lock_irqsave q s = Some (s\<lparr>wq_lock := (wq_lock s)(q := l), the_cpu := c\<rparr>)" "counter (sgrt_atc l) = 1"
    using wq_lock_step assms(1) by (fastforce simp: waits_on_def)
  let ?s1 = "s\<lparr>wq_lock := (wq_lock s)(q := l), the_cpu := c\<rparr>"
  obtain s2 where s2: "wake_walk q state (sprt_next (wq_links s) (WqHead q))
       (sprt_next (wq_links s) (sprt_next (wq_links s) (WqHead q))) ?s1 = Some s2" "reflagged ?s1 s2 (wake_flags ?s1 ws state)"
    using wake_walk_linked [of ?s1 "WqHead q" ws q state] assms by (auto simp: waits_on_def dlist_def)
  note r = reflaggedD [OF s2(2)] reflagged_waitq [OF s2(2)]
  obtain l' c' where u: "wq_unlock_irqrestore q s2 = s2\<lparr>wq_lock := (wq_lock s2)(q := l'), the_cpu := c'\<rparr>" "\<not> spin_is_locked l'"
    using wq_unlock_step [of s2 q] l(2) r by auto
  have "wake_up_common q state s = Some (wq_unlock_irqrestore q s2)"
    using ne l(1) s2(1) by (simp add: wake_up_common_def)
  moreover have "wake_flags ?s1 ws state = wake_flags s ws state" by (intro ext) (simp add: wake_flags_def)
  ultimately show ?thesis
    using assms(1) r u by (simp add: waits_on_def wq_step_def)
qed

lemma add_wait_queue_step:
  assumes "waits_on s q ws" "w \<notin> set ws" "mrt_list_head_empty (wq_links s) (WqLink w)"
  shows "\<exists>s'. add_wait_queue q w s = Some s' \<and> waits_on s' q (ws @ [w]) \<and> wq_step s s' (\<lambda>_ f. f)"
proof -
  obtain l c where l: "wq_lock_irqsave q s = Some (s\<lparr>wq_lock := (wq_lock s)(q := l), the_cpu := c\<rparr>)" "counter (sgrt_atc l) = 1"
    using wq_lock_step assms(1) by (fastforce simp: waits_on_def)
  let ?s1 = "s\<lparr>wq_lock := (wq_lock s)(q := l), the_cpu := c,
      wq_links := list_head_add_tail (WqHead q) (WqLink w) (wq_links s)\<rparr>"
  obtain l' c' where u: "wq_unlock_irqrestore q ?s1 = ?s1\<lparr>wq_lock := (wq_lock ?s1)(q := l'), the_cpu := c'\<rparr>" "\<not> spin_is_locked l'"
    using wq_unlock_step [of ?s1 q] l(2) by auto
  have "dlist (list_head_add_tail (WqHead q) (WqLink w) (wq_links s)) (WqHead q) (map WqLink (ws @ [w]))"
    using assms dlist_add_tail [of "wq_links s" "WqHead q" "map WqLink ws" "WqLink w"] by (auto simp: waits_on_def)
  moreover have "add_wait_queue q w s = Some (wq_unlock_irqrestore q ?s1)"
    using assms(3) l(1) by (simp add: add_wait_queue_def)
  ultimately show ?thesis using u by (simp add: waits_on_def wq_step_def)
qed

lemma remove_wait_queue_step:
  assumes "waits_on s q (us @ w # vs)"
  shows "\<exists>s'. remove_wait_queue q w s = Some s' \<and> waits_on s' q (us @ vs) \<and> wq_step s s' (\<lambda>_ f. f)"
proof -
  obtain l c where l: "wq_lock_irqsave q s = Some (s\<lparr>wq_lock := (wq_lock s)(q := l), the_cpu := c\<rparr>)" "counter (sgrt_atc l) = 1"
    using wq_lock_step assms(1) by (fastforce simp: waits_on_def)
  let ?s1 = "s\<lparr>wq_lock := (wq_lock s)(q := l), the_cpu := c, wq_links := list_head_del (WqLink w) (wq_links s)\<rparr>"
  obtain l' c' where u: "wq_unlock_irqrestore q ?s1 = ?s1\<lparr>wq_lock := (wq_lock ?s1)(q := l'), the_cpu := c'\<rparr>" "\<not> spin_is_locked l'"
    using wq_unlock_step [of ?s1 q] l(2) by auto
  have "dlist (list_head_del (WqLink w) (wq_links s)) (WqHead q) (map WqLink (us @ vs))"
    using assms dlist_del [of "wq_links s" "WqHead q" "map WqLink us" "WqLink w" "map WqLink vs"] by (auto simp: waits_on_def)
  moreover have "remove_wait_queue q w s = Some (wq_unlock_irqrestore q ?s1)"
    using l(1) by (simp add: remove_wait_queue_def)
  ultimately show ?thesis using u by (simp add: waits_on_def wq_step_def)
qed

section \<open>Waiting and being woken up\<close>

lemma is_flags_bit: "mrt_thread_is_flags k p s \<longleftrightarrow> bit (flags (threads s p)) k"
  unfolding mrt_thread_is_flags_def by (rule bit_iff_and_push_bit_not_eq_0 [symmetric])

lemma bit_set_flag: "k < 32 \<Longrightarrow> bit ((f :: kuint32_t) OR push_bit k 1) n \<longleftrightarrow> bit f n \<or> n = k"
  by (auto simp: bit_simps dest: bit_imp_le_length)

lemma bit_clr_flag: "k < 32 \<Longrightarrow> bit ((f :: kuint32_t) AND NOT (push_bit k 1)) n \<longleftrightarrow> bit f n \<and> n \<noteq> k"
  using bit_imp_le_length [of f n] by (auto simp: bit_simps)

lemma bit_wake_flags:
  "state < 32 \<Longrightarrow> bit (wake_flags s ws state p f) n \<longleftrightarrow>
     bit f n \<or> n = NR_THREAD_SIG_WAKEUP \<and> p \<noteq> 0 \<and> p \<in> wq_task s ` set ws \<and> bit f state"
  by (simp only: wake_flags_def bit_iff_and_push_bit_not_eq_0 [symmetric] bit_set_flag split: if_split) auto

lemma wq_step_signal:
  fixes s :: "'s waitq_scheme"
  assumes "\<not> spin_is_locked (rt_lock (threads s p))" "k < 32"
  shows "\<exists>s'. real_thread_state_signal p k m s = Some s' \<and>
     (\<forall>q ws. waits_on s' q ws = waits_on s q ws) \<and> (\<exists>G. wq_step s s' G) \<and>
     (\<forall>q n. bit (flags (threads s' q)) n \<longleftrightarrow> (if q = p \<and> n = k then m else bit (flags (threads s q)) n))"
proof -
  obtain s' where s': "real_thread_state_signal p k m s = Some s'"
    "reflagged s s' (\<lambda>q f. if q = p then (if m then flags (threads s p) OR push_bit k 1
                                          else flags (threads s p) AND NOT (push_bit k 1)) else f)"
    using signal_step [OF assms(1)] by blast
  have "bit (flags (threads s' q)) n \<longleftrightarrow> (if q = p \<and> n = k then m else bit (flags (threads s q)) n)" for q n
    unfolding reflaggedD(1) [OF s'(2)] using assms(2) bit_set_flag [OF assms(2)] bit_clr_flag [OF assms(2)] by auto
  with s' wq_step_reflagged [OF s'(2)] show ?thesis by blast
qed

lemma wq_step_pending:
  fixes s :: "'s waitq_scheme"
  assumes "\<not> spin_is_locked (rt_lock (threads s p))"
  shows "\<exists>s'. real_thread_state_pending p s =
       Some (bit (flags (threads s p)) NR_THREAD_SIG_WAKEUP \<or> bit (flags (threads s p)) NR_THREAD_SIG_KILL, s') \<and>
     (\<forall>q ws. waits_on s' q ws = waits_on s q ws) \<and> (\<exists>G. wq_step s s' G) \<and>
     (\<forall>q n. bit (flags (threads s' q)) n \<longleftrightarrow>
        bit (flags (threads s q)) n \<and> \<not> (q = p \<and> (n = NR_THREAD_SIG_WAKEUP \<or> n = NR_THREAD_SIG_KILL)))"
proof -
  obtain s' where s': "real_thread_state_pending p s =
       Some (mrt_thread_is_flags NR_THREAD_SIG_WAKEUP p s \<or> mrt_thread_is_flags NR_THREAD_SIG_KILL p s, s')"
    "reflagged s s' (\<lambda>q f. if q = p then flags (threads s p) AND NOT (push_bit NR_THREAD_SIG_WAKEUP 1)
                                AND NOT (push_bit NR_THREAD_SIG_KILL 1) else f)"
    using pending_step [OF assms(1)] by blast
  have "bit (flags (threads s' q)) n \<longleftrightarrow>
        bit (flags (threads s q)) n \<and> \<not> (q = p \<and> (n = NR_THREAD_SIG_WAKEUP \<or> n = NR_THREAD_SIG_KILL))" for q n
    unfolding reflaggedD(1) [OF s'(2)]
    using bit_clr_flag [of NR_THREAD_SIG_WAKEUP] bit_clr_flag [of NR_THREAD_SIG_KILL]
    by (auto simp: bit_simps simp del: push_bit_numeral push_bit_of_1)
  with s' wq_step_reflagged [OF s'(2)] show ?thesis by (auto simp: is_flags_bit)
qed

lemma wait_event_enter_step:
  fixes s :: "'s waitq_scheme"
  assumes "waits_on s q ws" "w \<notin> set ws" "\<And>p. \<not> spin_is_locked (rt_lock (threads s p))"
  shows "\<exists>s'. wait_event_enter q w intr s = Some s' \<and> waits_on s' q (ws @ [w]) \<and>
     wq_task s' = (wq_task s)(w := sprt_work s) \<and> sprt_work s' = sprt_work s \<and>
     (\<forall>p. \<not> spin_is_locked (rt_lock (threads s' p))) \<and>
     (\<forall>p n. bit (flags (threads s' p)) n \<longleftrightarrow> bit (flags (threads s p)) n \<or> p = sprt_work s \<and> n = wait_state intr)"
proof -
  let ?s1 = "s\<lparr>wq_task := (wq_task s)(w := sprt_work s), wq_links := init_list_head (WqLink w) (wq_links s)\<rparr>"
  have "waits_on ?s1 q ws" using assms(1,2) dlist_other_init [of "wq_links s" "WqHead q" "map WqLink ws" "WqLink w"]
    by (auto simp: waits_on_def)
  moreover have "mrt_list_head_empty (wq_links ?s1) (WqLink w)"
    using dlist_init_list_head [of "WqLink w" "wq_links s"] by simp
  ultimately obtain s2 where s2: "add_wait_queue q w ?s1 = Some s2" "waits_on s2 q (ws @ [w])" "wq_step ?s1 s2 (\<lambda>_ f. f)"
    using add_wait_queue_step [of ?s1 q ws w] assms(2) by blast
  have k: "wait_state intr < 32" by (simp add: wait_state_def)
  have u: "\<not> spin_is_locked (rt_lock (threads s2 (sprt_work s)))" using s2(3) assms(3) by (simp add: wq_step_def)
  obtain s3 where s3: "real_thread_state_signal (sprt_work s) (wait_state intr) True s2 = Some s3"
    "\<forall>q ws. waits_on s3 q ws = waits_on s2 q ws" "\<exists>G. wq_step s2 s3 G"
    "\<forall>q n. bit (flags (threads s3 q)) n \<longleftrightarrow> (if q = sprt_work s \<and> n = wait_state intr then True else bit (flags (threads s2 q)) n)"
    using wq_step_signal [OF u k, of True] by blast
  have "wait_event_enter q w intr s = Some s3"
    using s2 s3(1) by (simp add: wait_event_enter_def get_current_thread_def wq_step_def)
  with s2 s3 assms(3) show ?thesis by (auto simp: wq_step_def)
qed

lemma wait_event_leave_step:
  fixes s :: "'s waitq_scheme"
  assumes "waits_on s q (us @ w # vs)" "\<And>p. \<not> spin_is_locked (rt_lock (threads s p))"
  shows "\<exists>s'. wait_event_leave q w intr s = Some s' \<and> waits_on s' q (us @ vs) \<and>
     (\<forall>p. \<not> spin_is_locked (rt_lock (threads s' p))) \<and> wq_task s' = wq_task s \<and> sprt_work s' = sprt_work s \<and>
     (\<forall>p n. bit (flags (threads s' p)) n \<longleftrightarrow> bit (flags (threads s p)) n \<and> \<not> (p = wq_task s w \<and> n = wait_state intr))"
proof -
  have k: "wait_state intr < 32" by (simp add: wait_state_def)
  obtain s1 where s1: "real_thread_state_signal (wq_task s w) (wait_state intr) False s = Some s1"
    "\<forall>q ws. waits_on s1 q ws = waits_on s q ws" "\<exists>G. wq_step s s1 G"
    "\<forall>q n. bit (flags (threads s1 q)) n \<longleftrightarrow> (if q = wq_task s w \<and> n = wait_state intr then False else bit (flags (threads s q)) n)"
    using wq_step_signal [OF assms(2) k, of "wq_task s w" False] by blast
  obtain s2 where s2: "remove_wait_queue q w s1 = Some s2" "waits_on s2 q (us @ vs)" "wq_step s1 s2 (\<lambda>_ f. f)"
    using remove_wait_queue_step [of s1 q us w vs] s1(2) assms(1) by blast
  with s1 assms(2) show ?thesis by (auto simp: wait_event_leave_def wq_step_def)
qed

lemma wake_round:
  fixes s :: "'s waitq_scheme"
  assumes "\<And>p. \<not> spin_is_locked (rt_lock (threads s p))"
    and "bit (flags (threads s (wq_task s w))) NR_THREAD_SIG_INTR" "bit (flags (threads s (wq_task s w))) NR_THREAD_SIG_WAKEUP"
  shows "\<exists>s'. wait_event_round w False s = Some (True, s') \<and>
     (\<forall>q ws. waits_on s' q ws = waits_on s q ws) \<and> (\<forall>p. \<not> spin_is_locked (rt_lock (threads s' p))) \<and>
     wq_task s' = wq_task s \<and> sprt_work s' = sprt_work s \<and>
     (\<forall>q n. bit (flags (threads s' q)) n \<longleftrightarrow>
        bit (flags (threads s q)) n \<and> \<not> (q = wq_task s w \<and> (n = NR_THREAD_SIG_WAKEUP \<or> n = NR_THREAD_SIG_KILL)))"
proof -
  obtain s' where s': "real_thread_state_pending (wq_task s w) s = Some (True, s')"
    "\<forall>q ws. waits_on s' q ws = waits_on s q ws" "\<exists>G. wq_step s s' G"
    "\<forall>q n. bit (flags (threads s' q)) n \<longleftrightarrow>
        bit (flags (threads s q)) n \<and> \<not> (q = wq_task s w \<and> (n = NR_THREAD_SIG_WAKEUP \<or> n = NR_THREAD_SIG_KILL))"
    using wq_step_pending [OF assms(1), of "wq_task s w"] assms(3) by auto
  have "wait_event_round w False s = Some (True, s')"
    using s'(1) assms(2) by (simp add: wait_event_round_def is_flags_bit)
  with s' assms(1) show ?thesis by (auto simp: wq_step_def)
qed

text \<open>The steps of one wait that is ended by a wake-up: entering the queue in a mode, a wake-up for that
  mode, and what the woken thread sees.\<close>

lemma enter_wake:
  fixes s :: "'s waitq_scheme"
  assumes q: "waits_on s q ws" "w \<notin> set ws" and r: "sprt_work s \<noteq> 0"
    and l: "\<And>p. \<not> spin_is_locked (rt_lock (threads s p))"
  shows "\<exists>s1 s2. wait_event_enter q w intr s = Some s1 \<and> wake_up_common q (wait_state intr) s1 = Some s2 \<and>
     waits_on s2 q (ws @ [w]) \<and> wq_task s2 w = sprt_work s \<and> sprt_work s2 = sprt_work s \<and>
     (\<forall>p. \<not> spin_is_locked (rt_lock (threads s2 p))) \<and>
     bit (flags (threads s2 (sprt_work s))) (wait_state intr) \<and>
     bit (flags (threads s2 (sprt_work s))) NR_THREAD_SIG_WAKEUP"
proof -
  obtain s1 where s1: "wait_event_enter q w intr s = Some s1" "waits_on s1 q (ws @ [w])"
    "wq_task s1 = (wq_task s)(w := sprt_work s)" "sprt_work s1 = sprt_work s"
    "\<forall>p. \<not> spin_is_locked (rt_lock (threads s1 p))"
    "\<forall>p n. bit (flags (threads s1 p)) n \<longleftrightarrow> bit (flags (threads s p)) n \<or> p = sprt_work s \<and> n = wait_state intr"
    using wait_event_enter_step [OF q l, of intr] by blast
  obtain s2 where s2: "wake_up_common q (wait_state intr) s1 = Some s2" "waits_on s2 q (ws @ [w])"
    "wq_step s1 s2 (wake_flags s1 (ws @ [w]) (wait_state intr))"
    using wake_up_common_step [OF s1(2), of "wait_state intr"] s1(5) by blast
  have "wait_state intr < 32" by (simp add: wait_state_def)
  then have "bit (flags (threads s2 p)) n \<longleftrightarrow> bit (flags (threads s1 p)) n \<or> n = NR_THREAD_SIG_WAKEUP \<and> p \<noteq> 0 \<and>
      p \<in> wq_task s1 ` set (ws @ [w]) \<and> bit (flags (threads s1 p)) (wait_state intr)" for p n
    using s2(3) by (simp add: wq_step_def bit_wake_flags)
  with s1 s2 r show ?thesis by (auto simp: wq_step_def)
qed

section \<open>Properties of wait queues\<close>

text \<open>Waking up a wait queue returns, leaves the queue as it was, and raises the wake-up signal of
  exactly the queued threads that carry the signal bit asked for; no other flag of any thread changes.\<close>

lemma wake_up_marks_waiters:
  fixes s :: "'s waitq_scheme"
  assumes "waits_on s q ws" and "state < 32"
    and "\<forall>w \<in> set ws. wq_task s w \<noteq> 0 \<longrightarrow> \<not> spin_is_locked (rt_lock (threads s (wq_task s w)))"
  shows "\<exists>s'. wake_up_common q state s = Some s' \<and> waits_on s' q ws \<and>
     (\<forall>p n. bit (flags (threads s' p)) n \<longleftrightarrow> bit (flags (threads s p)) n \<or>
        n = NR_THREAD_SIG_WAKEUP \<and> p \<noteq> 0 \<and> p \<in> wq_task s ` set ws \<and> bit (flags (threads s p)) state)"
proof -
  obtain s' where "wake_up_common q state s = Some s'" "waits_on s' q ws" "wq_step s s' (wake_flags s ws state)"
    using wake_up_common_step [OF assms(1), of state] assms(3) by blast
  with assms(2) show ?thesis by (auto simp: wq_step_def bit_wake_flags)
qed

definition demo_waitq :: waitq where
  "demo_waitq = sched.extend demo
     \<lparr>wq_links = \<lparr>sprt_prev = \<lambda>n. n, sprt_next = \<lambda>n. n\<rparr>, wq_lock = \<lambda>_. SPIN_LOCK_INIT, wq_task = \<lambda>_. 0\<rparr>"

lemma demo_waitq_ok:
  "waits_on demo_waitq q []" "\<not> spin_is_locked (rt_lock (threads demo_waitq p))" "sprt_work demo_waitq = 8192"
  by (simp_all add: demo_waitq_def waits_on_def mrt_list_head_empty_def spin_is_locked_def SPIN_LOCK_INIT_def
      sched.extend_def demo_def demo_thread_def zero_thread_def)

lemma wake_up_marks_waiters_witness:
  "\<exists>s s'. waits_on s 64 [96] \<and> wake_up_common 64 NR_THREAD_SIG_INTR (s :: waitq) = Some s' \<and> waits_on s' 64 [96] \<and>
     bit (flags (threads s' 8192)) NR_THREAD_SIG_WAKEUP"
proof -
  obtain s :: waitq where s: "waits_on s 64 [96]" "wq_task s 96 = 8192" "\<forall>p. \<not> spin_is_locked (rt_lock (threads s p))"
    "bit (flags (threads s 8192)) NR_THREAD_SIG_INTR"
    using wait_event_enter_step [OF demo_waitq_ok(1) _ demo_waitq_ok(2), of 96 64 True] demo_waitq_ok(3)
    by (auto simp: wait_state_def)
  show ?thesis using wake_up_marks_waiters [OF s(1), of NR_THREAD_SIG_INTR] s by auto
qed

text \<open>C20: No wake-up is lost: when a running thread has entered a queue interruptibly and the queue is then
  woken up, its next check leaves the wait although its condition does not hold, and leaving takes it out of the
  queue again and clears the two signals.\<close>

theorem interruptible_wakeup_ends_wait:
  fixes s :: "'s waitq_scheme"
  assumes "waits_on s q ws" and "w \<notin> set ws" and "sprt_work s \<noteq> 0"
    and "\<forall>p. \<not> spin_is_locked (rt_lock (threads s p))"
  shows "\<exists>s1 s2 s3 s4. wait_event_enter q w True s = Some s1 \<and>
     wake_up_common q NR_THREAD_SIG_INTR s1 = Some s2 \<and>
     wait_event_round w False s2 = Some (True, s3) \<and>
     wait_event_leave q w True s3 = Some s4 \<and> waits_on s4 q ws \<and>
     \<not> mrt_thread_is_flags NR_THREAD_SIG_WAKEUP (sprt_work s) s4 \<and>
     \<not> mrt_thread_is_flags NR_THREAD_SIG_INTR (sprt_work s) s4"
proof -
  obtain s1 s2 where s2: "wait_event_enter q w True s = Some s1" "wake_up_common q NR_THREAD_SIG_INTR s1 = Some s2"
     "waits_on s2 q (ws @ [w])" "wq_task s2 w = sprt_work s" "\<And>p. \<not> spin_is_locked (rt_lock (threads s2 p))"
     "bit (flags (threads s2 (sprt_work s))) NR_THREAD_SIG_INTR" "bit (flags (threads s2 (sprt_work s))) NR_THREAD_SIG_WAKEUP"
    using enter_wake [OF assms(1-3), of True] assms(4) by (auto simp: wait_state_def)
  obtain s3 where s3: "wait_event_round w False s2 = Some (True, s3)" "\<forall>q ws. waits_on s3 q ws = waits_on s2 q ws"
     "\<And>p. \<not> spin_is_locked (rt_lock (threads s3 p))" "wq_task s3 = wq_task s2"
     "\<forall>q n. bit (flags (threads s3 q)) n \<longleftrightarrow>
        bit (flags (threads s2 q)) n \<and> \<not> (q = wq_task s2 w \<and> (n = NR_THREAD_SIG_WAKEUP \<or> n = NR_THREAD_SIG_KILL))"
    using wake_round [of s2 w] s2 by auto
  obtain s4 where "wait_event_leave q w True s3 = Some s4" "waits_on s4 q (ws @ [])"
     "\<forall>p n. bit (flags (threads s4 p)) n \<longleftrightarrow> bit (flags (threads s3 p)) n \<and> \<not> (p = wq_task s3 w \<and> n = wait_state True)"
    using wait_event_leave_step [of s3 q ws w "[]" True] s3 s2(3) by auto
  with s2 s3 show ?thesis by (auto simp: is_flags_bit wait_state_def)
qed

theorem interruptible_wakeup_ends_wait_witness:
  "\<exists>s1 s2 s3 s4. wait_event_enter 64 96 True demo_waitq = Some s1 \<and>
     wake_up_common 64 NR_THREAD_SIG_INTR s1 = Some s2 \<and> wait_event_round 96 False s2 = Some (True, s3) \<and>
     wait_event_leave 64 96 True s3 = Some s4 \<and> waits_on s4 64 [] \<and> \<not> mrt_thread_is_flags NR_THREAD_SIG_WAKEUP 8192 s4"
  using interruptible_wakeup_ends_wait [OF demo_waitq_ok(1), of 96 64] demo_waitq_ok by auto

text \<open>The wake-up signal of an uninterruptible wait outlives it: after such a wait has been woken up and has
  ended because its condition holds, the next interruptible wait of the same thread returns at its first check,
  although nobody has woken it up and its condition does not hold.\<close>

lemma stale_wakeup_ends_next_wait:
  fixes s :: "'s waitq_scheme"
  assumes "waits_on s q ws" and "w \<notin> set ws" and "sprt_work s \<noteq> 0"
    and "\<forall>p. \<not> spin_is_locked (rt_lock (threads s p))"
  shows "\<exists>s1 s2 s3 s4 s5. wait_event_enter q w False s = Some s1 \<and>
     wake_up_common q NR_THREAD_SIG_NORMAL s1 = Some s2 \<and>
     wait_event_round w True s2 = Some (True, s2) \<and>
     wait_event_leave q w False s2 = Some s3 \<and>
     wait_event_enter q w True s3 = Some s4 \<and> wait_event_round w False s4 = Some (True, s5)"
proof -
  obtain s1 s2 where s2: "wait_event_enter q w False s = Some s1" "wake_up_common q NR_THREAD_SIG_NORMAL s1 = Some s2"
     "waits_on s2 q (ws @ [w])" "wq_task s2 w = sprt_work s" "sprt_work s2 = sprt_work s"
     "\<And>p. \<not> spin_is_locked (rt_lock (threads s2 p))" "bit (flags (threads s2 (sprt_work s))) NR_THREAD_SIG_WAKEUP"
    using enter_wake [OF assms(1-3), of False] assms(4) by (auto simp: wait_state_def)
  obtain s3 where s3: "wait_event_leave q w False s2 = Some s3" "waits_on s3 q (ws @ [])"
     "\<And>p. \<not> spin_is_locked (rt_lock (threads s3 p))" "sprt_work s3 = sprt_work s2"
     "\<forall>p n. bit (flags (threads s3 p)) n \<longleftrightarrow> bit (flags (threads s2 p)) n \<and> \<not> (p = wq_task s2 w \<and> n = wait_state False)"
    using wait_event_leave_step [of s2 q ws w "[]" False] s2 by auto
  obtain s4 where s4: "wait_event_enter q w True s3 = Some s4" "wq_task s4 = (wq_task s3)(w := sprt_work s3)"
     "\<And>p. \<not> spin_is_locked (rt_lock (threads s4 p))"
     "\<forall>p n. bit (flags (threads s4 p)) n \<longleftrightarrow> bit (flags (threads s3 p)) n \<or> p = sprt_work s3 \<and> n = wait_state True"
    using wait_event_enter_step [of s3 q ws w True] s3 assms(2) by auto
  obtain s5 where "wait_event_round w False s4 = Some (True, s5)"
    using wake_round [of s4 w] s2 s3 s4 by (auto simp: wait_state_def)
  moreover have "wait_event_round w True s2 = Some (True, s2)" by (simp add: wait_event_round_def)
  ultimately show ?thesis using s2 s3 s4 by blast
qed

lemma stale_wakeup_ends_next_wait_witness:
  "\<exists>s1 s2 s3 s4 s5. wait_event_enter 64 96 False demo_waitq = Some s1 \<and>
     wake_up_common 64 NR_THREAD_SIG_NORMAL s1 = Some s2 \<and> wait_event_leave 64 96 False s2 = Some s3 \<and>
     wait_event_enter 64 96 True s3 = Some s4 \<and> wait_event_round 96 False s4 = Some (True, s5)"
  using stale_wakeup_ends_next_wait [OF demo_waitq_ok(1), of 96 64] demo_waitq_ok by auto

section \<open>Properties of sleeping\<close>

lemma setup_timer_frame:
  "links (setup_timer tm fn d s) = links s" "threads (setup_timer tm fn d s) = threads s"
  "attrs (setup_timer tm fn d s) = attrs s" "sprt_work (setup_timer tm fn d s) = sprt_work s"
  "sprt_tid_array (setup_timer tm fn d s) = sprt_tid_array s"
  "thread_schedule_ref (setup_timer tm fn d s) = thread_schedule_ref s"
  "jiffies (setup_timer tm fn d s) = jiffies s" "sched_lock (setup_timer tm fn d s) = sched_lock s"
  by (simp_all add: setup_timer_def)

lemma mod_timer_frame:
  assumes "mod_timer tm n s = Some s'"
  shows "same_sched s s'" "sched_lock s' = sched_lock s"
  using assms
  by (auto simp: mod_timer_def add_timer_def same_sched_def Let_def split: if_splits option.splits)

lemma setup_timer_ring:
  assumes "timer_ring s ts" "tm \<notin> set ts"
  shows "timer_ring (setup_timer tm fn d s) ts"
proof -
  have "dlist (init_list_head (TimerLink tm) (timer_links s)) TimerHead (map TimerLink ts)"
    using assms by (intro dlist_other_init) (auto simp: timer_ring_def)
  with assms(1) show ?thesis by (simp add: setup_timer_def timer_ring_def)
qed

lemma timeout_arm_step:
  assumes "sched_ok s r rs ss" "r \<noteq> 0" "timer_ring s ts" "tm \<notin> set ts" "isValid tm" "n \<noteq> 0"
  shows "\<exists>s'. schedule_timeout_arm tm fn n s = Some s' \<and> sched_ok s' r rs ss \<and> same_sched s s' \<and>
     timer_ring s' (ts @ [tm]) \<and> expires (timers s' tm) = n \<and> timer_entry (timers s' tm) = fn \<and> timer_data (timers s' tm) = r"
proof -
  have c: "sched_core s r rs ss" "tidy s r rs ss" "\<not> spin_is_locked (sched_lock s)"
    using assms(1) by (simp_all add: sched_ok_def)
  have w: "sprt_work s = r" using c(1) by (simp add: sched_core_def)
  obtain s1 where s1: "sched_lock_irqsave s = Some s1" "same_sched s s1" "counter (sgrt_atc (sched_lock s1)) = 1"
    using lock_step [OF c(3)] by blast
  have t1: "timer_links s1 = timer_links s" "timers s1 = timers s"
    using s1(1) by (auto simp: sched_lock_irqsave_def split: option.splits)
  let ?s2 = "setup_timer tm fn r s1" and ?s3 = "sched_unlock_irqrestore (setup_timer tm fn r s1)"
  have r1: "timer_ring s1 ts" using assms(3) t1 by (simp add: timer_ring_def)
  have t3: "timer_links ?s3 = timer_links ?s2" "timers ?s3 = timers ?s2"
    by (simp_all add: sched_unlock_irqrestore_def split: prod.splits)
  have r3: "timer_ring ?s3 ts" using setup_timer_ring [OF r1 assms(4), of fn r] t3 by (simp add: timer_ring_def)
  have ss: "same_sched s ?s2" using s1(2) by (simp add: same_sched_def setup_timer_frame)
  have s3: "same_sched s ?s3" using same_sched_trans [OF ss same_sched_unlock] .
  have ul: "\<not> spin_is_locked (sched_lock ?s3)"
    using unlock_step [of ?s2] s1(3) by (simp add: setup_timer_frame)
  obtain s4 where s4: "mod_timer tm n ?s3 = Some s4" "timer_ring s4 (ts @ [tm])"
      "timers s4 = (timers ?s3)(tm := (timers ?s3 tm)\<lparr>expires := n\<rparr>)"
    using mod_timer_ring [OF r3 assms(5), of n] assms(4) by auto
  have f: "same_sched s s4" using same_sched_trans [OF s3 mod_timer_frame(1) [OF s4(1)]] .
  moreover have "sched_ok s4 r rs ss"
    using c f ul mod_timer_frame(2) [OF s4(1)] by (simp add: sched_ok_def)
  moreover have "schedule_timeout_arm tm fn n s = Some s4"
    using s1(1) s4(1) w assms(6) by (simp add: schedule_timeout_arm_def get_current_thread_def)
  ultimately show ?thesis using s4 assms(5) t3 by (simp add: setup_timer_def)
qed

text \<open>A thread that goes to sleep arms its timer for the time it asked for and is then suspended: the timer
  is in the timer list with the thread as its datum, and after the suspension the first ready thread runs and
  the sleeper is in the suspend list, the scheduler being well-formed.\<close>

lemma schedule_timeout_arms_and_suspends:
  assumes "sched_ok s r (q # rs) ss" and "r \<noteq> 0" and "rt_tid (threads s r) \<noteq> REAL_THREAD_TID_IDLE"
    and "timer_ring s ts" and "tm \<notin> set ts" and "isValid tm" and "n \<noteq> 0"
  shows "\<exists>s1 s2. schedule_timeout_arm tm fn n s = Some s1 \<and> timer_ring s1 (ts @ [tm]) \<and>
     expires (timers s1 tm) = n \<and> timer_entry (timers s1 tm) = fn \<and> timer_data (timers s1 tm) = r \<and>
     schedule_timeout_suspend tm fn n s = Some s2 \<and>
     sched_ok s2 q rs (prio_insert (\<lambda>p. thread_prio p s) r ss)"
proof -
  obtain s1 where s1: "schedule_timeout_arm tm fn n s = Some s1" "sched_ok s1 r (q # rs) ss" "same_sched s s1"
     "timer_ring s1 (ts @ [tm])" "expires (timers s1 tm) = n" "timer_entry (timers s1 tm) = fn" "timer_data (timers s1 tm) = r"
    using timeout_arm_step [OF assms(1,2,4-7)] by blast
  have "threads s1 = threads s" using s1(3) by (simp add: same_sched_def)
  then have "abs_schedule (\<lambda>p. thread_prio p s1) True (rt_tid (threads s1 r) = REAL_THREAD_TID_IDLE) r (q # rs) ss
      = (q, rs, prio_insert (\<lambda>p. thread_prio p s) r ss)"
    using assms(2,3) s1(3) by (simp add: abs_schedule_def)
  from self_suspend_ok [OF s1(2) assms(2) this] s1 show ?thesis
    by (auto simp: schedule_timeout_suspend_def)
qed

lemma schedule_timeout_arms_and_suspends_witness:
  "\<exists>s2. schedule_timeout_suspend 64 128 5 demo = Some s2 \<and> sched_ok s2 4096 [] [12288, 8192]"
proof -
  have "timer_ring demo []"
    by (simp add: timer_ring_def mrt_list_head_empty_def demo_def sched_init_def)
  from schedule_timeout_arms_and_suspends [OF demo_ok _ _ this, of 64 5 128]
  show ?thesis by (auto simp: isValid_def IS_ERR_def demo_tid prio_insert_Cons demo_prio)
qed

text \<open>When the timer of a sleeper fires and the scheduler lock is free, the timeout function moves the sleeper
  from the suspend list into the ready list behind the threads of its priority; for a thread that is not
  suspended it does nothing.\<close>

lemma sleep_timeout_readies:
  assumes "sched_ok s r rs ss" and "r \<noteq> 0" and "p \<in> live r rs ss"
  shows "\<exists>s'. real_thread_sleep_timeout p s = Some s' \<and>
     (if p \<in> set ss then sched_ok s' r (prio_insert (\<lambda>p. thread_prio p s) p rs) (remove1 p ss) else s' = s)"
proof -
  have c: "sched_core s r rs ss" "\<not> spin_is_locked (sched_lock s)" using assms(1) by (simp_all add: sched_ok_def)
  show ?thesis
  proof (cases "p \<in> set ss")
    case True
    then show ?thesis
      using wakeup_ok [OF assms refl] coreD(6) [OF c(1)] c(2)
      by (auto simp: results_def real_thread_sleep_timeout_def)
  next
    case False
    then have "status (threads s p) \<noteq> NR_THREAD_SUSPEND"
      using assms(3) coreD(5,8) [OF c(1)] by (auto simp: live_def)
    with False c(2) show ?thesis by (simp add: real_thread_sleep_timeout_def)
  qed
qed

lemma sleep_timeout_readies_witness:
  "\<exists>s'. real_thread_sleep_timeout 12288 demo = Some s' \<and> sched_ok s' 8192 [12288, 4096] []"
  using sleep_timeout_readies [OF demo_ok, of 12288] by (auto simp: live_def prio_insert_Cons demo_prio)

end
