(* ===== verification/Api_String.thy ===== *)
theory Api_String
  imports Generic_Ops "HOL-Library.Monad_Syntax"
begin

text \<open>
  Strings and formatted output: \<^verbatim>\<open>common/generic/api_string.c\<close>.

  A pointer argument is the list of bytes from where it points to the end of its object, and source
  and destination are different objects; an access behind the end of an object is \<open>None\<close>.  The output buffer of the
  formatter is the list of characters written so far, whose length is what its callers have to provide for.
  Variable arguments are a list of typed values; fetching one of another type is \<open>None\<close>.
\<close>

section \<open>Copying and comparing\<close>

type_synonym bytes = "kuint8_t list"

definition put :: "bytes \<Rightarrow> nat \<Rightarrow> kuint8_t \<Rightarrow> bytes option" where
  "put d i c = (if i < length d then Some (d[i := c]) else None)"

fun get_string_lenth :: "bytes \<Rightarrow> nat option" where
  "get_string_lenth [] = None"
| "get_string_lenth (c # cs) = (if c = 0 then Some 0 else map_option Suc (get_string_lenth cs))"

fun split_loop :: "bytes \<Rightarrow> nat \<Rightarrow> bytes \<Rightarrow> bytes option" where
  "split_loop d i [] = None"
| "split_loop d i (c # cs) = (if c = 0 then Some d else do { d \<leftarrow> put d i c; split_loop d (Suc i) cs })"

definition do_string_split :: "bytes \<Rightarrow> nat \<Rightarrow> bytes \<Rightarrow> bytes option" where
  "do_string_split d off src = split_loop d off src"

fun copy_loop :: "bytes \<Rightarrow> nat \<Rightarrow> bytes \<Rightarrow> bytes option" where
  "copy_loop d i (c # c' # cs) =
     do { d \<leftarrow> put d i c; if c' \<noteq> 0 then copy_loop d (Suc i) (c' # cs) else Some d }"
| "copy_loop d i _ = None"

definition do_string_copy :: "bytes \<Rightarrow> bytes \<Rightarrow> bytes option" where
  "do_string_copy d src = copy_loop d 0 src"

fun n_copy_loop :: "bytes \<Rightarrow> nat \<Rightarrow> bytes \<Rightarrow> nat \<Rightarrow> bytes option" where
  "n_copy_loop d i [] sz = None"
| "n_copy_loop d i (c # cs) sz =
     (if c \<noteq> 0 \<and> sz \<noteq> 0 then do { d \<leftarrow> put d i c; n_copy_loop d (Suc i) cs (sz - 1) } else Some d)"

definition do_string_n_copy :: "bytes \<Rightarrow> bytes \<Rightarrow> nat \<Rightarrow> bytes option" where
  "do_string_n_copy d src sz = n_copy_loop d 0 src sz"

text \<open>Once \<^verbatim>\<open>size\<close> has reached zero the loop writes the terminator and ends.\<close>

fun n_copy_safe_loop :: "bytes \<Rightarrow> nat \<Rightarrow> bytes \<Rightarrow> nat \<Rightarrow> bytes option" where
  "n_copy_safe_loop d i [] sz = None"
| "n_copy_safe_loop d i (c # cs) sz =
     (if c \<noteq> 0 \<and> sz \<noteq> 0
      then if sz - 1 \<noteq> 0 then do { d \<leftarrow> put d i c; n_copy_safe_loop d (Suc i) cs (sz - 1) }
           else put d i 0
      else Some d)"

definition do_string_n_copy_safe :: "bytes \<Rightarrow> bytes \<Rightarrow> nat \<Rightarrow> (nat \<times> bytes) option" where
  "do_string_n_copy_safe d src sz =
     do { lenth \<leftarrow> get_string_lenth src;
          d \<leftarrow> n_copy_safe_loop d 0 src sz;
          Some (lenth, d) }"

fun do_string_compare :: "bytes \<Rightarrow> bytes \<Rightarrow> bool option" where
  "do_string_compare (b # bs) (c # cs) =
     (if b \<noteq> c then Some True
      else case cs of [] \<Rightarrow> None | c' # _ \<Rightarrow> if c' \<noteq> 0 then do_string_compare bs cs else Some False)"
| "do_string_compare _ _ = None"

fun n_compare_loop :: "bytes \<Rightarrow> bytes \<Rightarrow> nat \<Rightarrow> bool option" where
  "n_compare_loop (b # bs) (c # cs) sz =
     (if b \<noteq> c then Some True
      else case cs of [] \<Rightarrow> None
           | c' # _ \<Rightarrow> if c' \<noteq> 0 \<and> sz - 1 \<noteq> 0 then n_compare_loop bs cs (sz - 1) else Some False)"
| "n_compare_loop _ _ sz = None"

definition do_string_n_compare :: "bytes \<Rightarrow> bytes \<Rightarrow> nat \<Rightarrow> bool option" where
  "do_string_n_compare d src sz = (if sz = 0 then Some True else n_compare_loop d src sz)"

fun seek_char_in_string :: "bytes \<Rightarrow> kuint8_t \<Rightarrow> bytes option option" where
  "seek_char_in_string [] ch = None"
| "seek_char_in_string (c # cs) ch =
     (if c = 0 then Some None else if ch = c then Some (Some (c # cs)) else seek_char_in_string cs ch)"

text \<open>The comparisons of the C library, which the rest of the code calls: up to the terminators, and of at most \<open>n\<close> characters.\<close>

definition cstr :: "bytes \<Rightarrow> bytes" where
  "cstr bs = takeWhile (\<lambda>c. c \<noteq> 0) bs"

definition strncmp_eq :: "bytes \<Rightarrow> bytes \<Rightarrow> nat \<Rightarrow> bool" where
  "strncmp_eq a b n \<longleftrightarrow> take n (cstr a @ [0]) = take n (cstr b @ [0])"

section \<open>Numbers\<close>

function reverse_loop :: "bytes \<Rightarrow> nat \<Rightarrow> nat \<Rightarrow> bytes" where
  "reverse_loop b h t = (if h < t then reverse_loop (b[h := b ! t, t := b ! h]) (Suc h) (t - 1) else b)"
  by auto
termination by (relation "measure (\<lambda>(b, h, t). t)") auto

definition do_string_reverse :: "bytes \<Rightarrow> nat \<Rightarrow> bytes option" where
  "do_string_reverse b sz =
     do { n \<leftarrow> (if sz \<noteq> 0 then Some sz else get_string_lenth b);
          if n \<le> 1 then Some b
          else if length b < n then None
          else Some (reverse_loop b 0 (n - 1)) }"

function get_integrater_lenth :: "kuint64_t \<Rightarrow> nat" where
  "get_integrater_lenth num = (let num = num div 10 in if num \<noteq> 0 then Suc (get_integrater_lenth num) else 1)"
  by auto

lemma unat_div_10: "unat (num div 10) = unat (num :: kuint64_t) div 10"
  by (simp add: unat_div_distrib)

lemma div_10_less: "num div 10 \<noteq> 0 \<Longrightarrow> unat (num div 10) < unat (num :: kuint64_t)"
  using unat_eq_zero [of "num div 10"] by (auto simp: unat_div_10)

termination get_integrater_lenth
  by (relation "measure unat") (auto dest: div_10_less)

text \<open>The digits in the order \<^verbatim>\<open>convert_number_to_string\<close> writes them, lowest first.\<close>

function number_digits :: "kuint64_t \<Rightarrow> bytes" where
  "number_digits value =
     (let num = value div 10
      in (ucast (value - (push_bit 1 num + push_bit 3 num)) + 48) # (if num \<noteq> 0 then number_digits num else []))"
  by auto
termination by (relation "measure unat") (auto dest: div_10_less)

declare number_digits.simps [simp del] get_integrater_lenth.simps [simp del] reverse_loop.simps [simp del]

definition convert_number_to_string :: "kuint64_t \<Rightarrow> (bytes \<times> nat) option" where
  "convert_number_to_string value =
     (let ds = number_digits value; lenth = length ds
      in do { s \<leftarrow> do_string_reverse ds lenth; Some (s, lenth) })"

section \<open>Formatted output\<close>

datatype va = VaInt kuint32_t | VaLong kuint64_t | VaStr bytes

record fmt_out =
  ft_out :: bytes
  ft_len :: nat
  ft_level :: bytes

definition emit :: "bool \<Rightarrow> bytes \<Rightarrow> nat \<Rightarrow> fmt_out \<Rightarrow> fmt_out" where
  "emit valid chunk n st = st\<lparr>ft_out := (if valid then ft_out st @ chunk else ft_out st), ft_len := ft_len st + n\<rparr>"

text \<open>The conversions that fetch one argument: the text, its length as the code computes it, and the remaining
  arguments.  \<open>temp\<close> and \<open>cnt\<close> are the uninitialised locals of the number printers.\<close>

definition fmt_item ::
  "(nat \<Rightarrow> kuint8_t) \<Rightarrow> nat \<Rightarrow> kuint8_t \<Rightarrow> va list \<Rightarrow> (bytes \<times> nat \<times> va list) option" where
  "fmt_item temp cnt ch args =
     (case args of
        VaInt v # as \<Rightarrow>
          if ch = 99 then Some ([ucast v + 32], 1, as)
          else if ch = 100 then do { (s, n) \<leftarrow> convert_number_to_string (ucast v); Some (s, n, as) }
          else if ch = 120 \<or> ch = 112 then do { (s, n) \<leftarrow> dec_to_hex temp cnt v False; Some (s, n, as) }
          else if ch = 98 then do { (s, n) \<leftarrow> dec_to_binary temp cnt v; Some (s, n, as) }
          else None
      | VaStr b # as \<Rightarrow>
          if ch = 115 then do { n \<leftarrow> get_string_lenth b; Some (take n b, n, as) } else None
      | _ \<Rightarrow> None)"

definition fmt_long :: "va list \<Rightarrow> (bytes \<times> nat \<times> va list) option" where
  "fmt_long args =
     (case args of VaLong v # as \<Rightarrow> do { (s, n) \<leftarrow> convert_number_to_string v; Some (s, n, as) } | _ \<Rightarrow> None)"

definition fetches_one :: "kuint8_t \<Rightarrow> bool" where
  "fetches_one ch \<longleftrightarrow> ch \<in> {99, 100, 115, 120, 112, 98}"

text \<open>One pass through the loop over the format, which ends with its terminator: \<open>Inr\<close> leaves the loop, \<open>Inl\<close> goes
  on behind what has been read.  The \<^verbatim>\<open>break\<close> of a conversion that does not fit only leaves the switch;
  \<^verbatim>\<open>i--\<close> has the character behind the percent sign read again.\<close>

definition fmt_step ::
  "bool \<Rightarrow> bool \<Rightarrow> (nat \<Rightarrow> kuint8_t) \<Rightarrow> nat \<Rightarrow> nat \<Rightarrow> kuint8_t \<Rightarrow> bytes \<Rightarrow> va list \<Rightarrow> fmt_out \<Rightarrow>
     ((bytes \<times> va list \<times> fmt_out) + fmt_out) option" where
  "fmt_step valid lvl temp cnt sz ch cs args st =
     (if ch = 0 then Some (Inr st)
      else if ch = 1
      then if cs = [] then None
           else Some (Inl (tl cs, args, if lvl then st\<lparr>ft_level := [1, hd cs]\<rparr> else st))
      else if ch \<noteq> 37
      then if ft_len st + 1 > sz then Some (Inr st)
           else Some (Inl (cs, args, emit valid [ch] 1 st))
      else if cs = [] then None
      else if fetches_one (hd cs)
      then case fmt_item temp cnt (hd cs) args of
             None \<Rightarrow> None
           | Some (chunk, n, args) \<Rightarrow>
               Some (Inl (tl cs, args, if ft_len st + n > sz then st else emit valid chunk n st))
      else if hd cs = 108 \<and> tl cs = [] then None
      else if hd cs = 108 \<and> hd (tl cs) = 100
      then case fmt_long args of
             None \<Rightarrow> None
           | Some (chunk, n, args) \<Rightarrow>
               if ft_len st + n > sz then Some (Inl (tl cs, args, st))
               else Some (Inl (tl (tl cs), args, emit valid chunk n st))
      else if ft_len st + 1 > sz then Some (Inl (tl cs, args, st))
      else Some (Inl (cs, args, emit valid [37] 1 st)))"

lemma fmt_step_shorter:
  "fmt_step valid lvl temp cnt sz ch cs args st = Some (Inl (cs', args', st')) \<Longrightarrow> length cs' \<le> length cs"
  by (auto simp: fmt_step_def split: if_splits option.splits)

function fmt_loop ::
  "bool \<Rightarrow> bool \<Rightarrow> (nat \<Rightarrow> kuint8_t) \<Rightarrow> nat \<Rightarrow> nat \<Rightarrow> bytes \<Rightarrow> va list \<Rightarrow> fmt_out \<Rightarrow> fmt_out option" where
  "fmt_loop valid lvl temp cnt sz [] args st = None"
| "fmt_loop valid lvl temp cnt sz (ch # cs) args st =
     (case fmt_step valid lvl temp cnt sz ch cs args st of
        None \<Rightarrow> None
      | Some (Inr st) \<Rightarrow> Some st
      | Some (Inl (cs, args, st)) \<Rightarrow> fmt_loop valid lvl temp cnt sz cs args st)"
  by pat_completeness auto
termination
  by (relation "measure (\<lambda>(_, _, _, _, _, fmt, _, _). length fmt)") (auto dest: fmt_step_shorter)

definition do_fmt_convert ::
  "bool \<Rightarrow> bool \<Rightarrow> (nat \<Rightarrow> kuint8_t) \<Rightarrow> nat \<Rightarrow> bytes \<Rightarrow> va list \<Rightarrow> nat \<Rightarrow> fmt_out option" where
  "do_fmt_convert valid lvl temp cnt fmt args sz =
     (if sz < 1 then Some \<lparr>ft_out = [], ft_len = 0, ft_level = []\<rparr>
      else do { st \<leftarrow> fmt_loop valid lvl temp cnt (sz - 1) fmt args \<lparr>ft_out = [], ft_len = 0, ft_level = []\<rparr>;
                Some (if valid then st\<lparr>ft_out := ft_out st @ [0]\<rparr> else st) })"

text \<open>\<open>lv_vasprintk\<close>: with \<open>got\<close> whether the memory pool has \<^verbatim>\<open>size + 1\<close> bytes, the result is the size it is
  asked for and the bytes written.\<close>

definition lv_vasprintk ::
  "bool \<Rightarrow> bool \<Rightarrow> (nat \<Rightarrow> kuint8_t) \<Rightarrow> nat \<Rightarrow> bytes \<Rightarrow> va list \<Rightarrow> (nat \<times> bytes \<times> bytes) option option" where
  "lv_vasprintk got lvl temp cnt fmt args =
     do { st \<leftarrow> do_fmt_convert False False temp cnt fmt args (2 ^ 32 - 1);
          let asked = ft_len st + 1;
          if \<not> got then Some None
          else do { st \<leftarrow> do_fmt_convert True lvl temp cnt fmt args asked;
                    Some (Some (asked, ft_out st, ft_level st)) } }"

definition vasprintk ::
  "bool \<Rightarrow> (nat \<Rightarrow> kuint8_t) \<Rightarrow> nat \<Rightarrow> bytes \<Rightarrow> va list \<Rightarrow> (nat \<times> bytes \<times> bytes) option option" where
  "vasprintk got temp cnt fmt args = lv_vasprintk got False temp cnt fmt args"

definition sprintk :: "(nat \<Rightarrow> kuint8_t) \<Rightarrow> nat \<Rightarrow> bytes \<Rightarrow> va list \<Rightarrow> (nat \<times> bytes) option" where
  "sprintk temp cnt fmt args =
     do { st \<leftarrow> do_fmt_convert True False temp cnt fmt args (2 ^ 32 - 1); Some (ft_len st, ft_out st) }"

section \<open>What the string functions compute\<close>

lemma get_string_lenth_terminated: "0 \<notin> set s \<Longrightarrow> get_string_lenth (s @ 0 # r) = Some (length s)"
  by (induction s) auto

lemma put_append: "length a = i \<Longrightarrow> put (a @ x # b) i c = Some (a @ c # b)"
  by (auto simp: put_def)

lemma n_copy_safe_loop_spec:
  assumes "0 \<notin> set s"
  shows "length a = i \<Longrightarrow> (if length s < sz then length s else sz) \<le> length d \<Longrightarrow>
     n_copy_safe_loop (a @ d) i (s @ 0 # r) sz =
       Some (a @ (if length s < sz then s @ drop (length s) d
                  else if sz = 0 then d else take (sz - 1) s @ 0 # drop sz d))"
  using assms
proof (induction s arbitrary: a d i sz)
  case (Cons c s)
  show ?case
  proof (cases "sz = 0")
    case False
    then obtain x d' where d: "d = x # d'" using Cons.prems by (cases d) (auto split: if_splits)
    then have "put (a @ d) i c = Some ((a @ [c]) @ d')" "put (a @ d) i 0 = Some (a @ 0 # d')"
      using Cons.prems(1) put_append by simp_all
    moreover have "sz - 1 \<noteq> 0 \<Longrightarrow> n_copy_safe_loop ((a @ [c]) @ d') (Suc i) (s @ 0 # r) (sz - 1) =
       Some ((a @ [c]) @ (if length s < sz - 1 then s @ drop (length s) d'
                  else if sz - 1 = 0 then d' else take (sz - 1 - 1) s @ 0 # drop (sz - 1) d'))"
      using Cons.prems d by (intro Cons.IH) (auto split: if_splits)
    ultimately show ?thesis
      using Cons.prems False d by (cases sz; cases "sz - 1") auto
  qed simp
qed (auto split: if_splits)

lemma do_string_compare_prefix:
  assumes "0 \<notin> set a" "0 \<notin> set b" "b \<noteq> []"
  shows "do_string_compare (a @ 0 # r) (b @ 0 # q) = Some (take (length b) a \<noteq> b)"
  using assms
proof (induction b arbitrary: a)
  case (Cons c b)
  then show ?case by (cases a; cases b) auto
qed simp

lemma reverse_loop_rev:
  "length a = h \<Longrightarrow> t = h + length m - 1 \<Longrightarrow> reverse_loop (a @ m @ b) h t = a @ rev m @ b"
proof (induction "length m" arbitrary: a m b h t rule: less_induct)
  case less
  show ?case
  proof (cases "length m \<le> 1")
    case True
    then have "m = [] \<or> (\<exists>x. m = [x])" by (cases m) auto
    with less.prems True show ?thesis by (subst reverse_loop.simps) auto
  next
    case False
    then obtain x m' y where m: "m = x # m' @ [y]"
      by (metis One_nat_def append_butlast_last_id length_Cons list.size(3) neq_Nil_conv not_less_eq_eq le_zero_eq le_SucI nat_le_linear)
    have t: "t = Suc (h + length m')" using less.prems m by simp
    have "(a @ m @ b)[h := (a @ m @ b) ! t, t := (a @ m @ b) ! h] = (a @ [y]) @ m' @ (x # b)"
      using less.prems(1) by (simp add: m t nth_append list_update_append)
    moreover have "reverse_loop ((a @ [y]) @ m' @ (x # b)) (Suc h) (t - 1) = (a @ [y]) @ rev m' @ (x # b)"
      using less.prems(1) m t by (intro less.hyps) auto
    ultimately show ?thesis using t by (subst reverse_loop.simps) (simp add: m)
  qed
qed

lemma do_string_reverse_all: "m \<noteq> [] \<Longrightarrow> do_string_reverse m (length m) = Some (rev m)"
  using reverse_loop_rev [of "[]" 0 "length m - 1" m "[]"]
  by (cases m rule: remdups_adj.cases) (auto simp: do_string_reverse_def)

lemma number_digits_ndigits:
  "number_digits v = map (\<lambda>d. of_nat d + 48) (ndigits 10 (unat v))"
proof (induction v rule: number_digits.induct)
  case (1 v)
  have m: "push_bit 1 (v div 10) + push_bit 3 (v div 10) = v div 10 * 10"
    by (simp add: push_bit_eq_mult)
  have e: "v - v div 10 * 10 = v mod 10" by (simp add: minus_div_mult_eq_mod)
  have u: "unat (v mod 10) = unat v mod 10" by (simp add: unat_mod)
  have d: "ucast (v - (push_bit 1 (v div 10) + push_bit 3 (v div 10))) + 48 = (of_nat (unat v mod 10) + 48 :: kuint8_t)"
    unfolding m e using u by (metis of_nat_unat)
  have z: "v div 10 = 0 \<longleftrightarrow> unat v < 10"
    using unat_eq_zero [of "v div 10"] by (auto simp: unat_div_10)
  show ?case
    using 1 d z by (subst number_digits.simps, subst ndigits_step) (simp_all add: Let_def unat_div_10)
qed

lemma convert_number_parse:
  "\<exists>s. convert_number_to_string v = Some (s, length s) \<and> parse_digits 10 s = unat v"
proof -
  let ?f = "\<lambda>d. of_nat d + 48 :: kuint8_t"
  have ne: "number_digits v \<noteq> []" by (subst number_digits.simps) (simp add: Let_def)
  have "unhex (?f d) = d" if "d < 10" for d
  proof -
    have "d \<in> set [0..<10]" using that by simp
    then show ?thesis by (simp add: upt_rec) (elim disjE; simp add: unhex_def word_le_nat_alt)
  qed
  then have "parse_digits 10 (map ?f (rev (ndigits 10 (unat v)))) = unat v" by (intro parse_print) auto
  with do_string_reverse_all [OF ne] show ?thesis
    by (simp add: convert_number_to_string_def number_digits_ndigits rev_map)
qed

lemma get_integrater_lenth_digits: "get_integrater_lenth v = length (number_digits v)"
proof (induction v rule: get_integrater_lenth.induct)
  case (1 v)
  then show ?case by (subst get_integrater_lenth.simps, subst number_digits.simps) (simp add: Let_def)
qed

text \<open>Every conversion reports the length of the text it produces.\<close>

lemma fmt_item_length: "fmt_item temp cnt ch args = Some (chunk, n, as) \<Longrightarrow> length chunk = n"
proof -
  have l: "get_string_lenth b = Some k \<Longrightarrow> k \<le> length b" for b k by (induction b arbitrary: k) (auto split: if_splits)
  have c: "convert_number_to_string v = Some (s, k) \<Longrightarrow> length s = k" for v s k
    using convert_number_parse [of v] by auto
  have h: "dec_to_hex temp cnt v m = Some (s, k) \<Longrightarrow> length s = k" "dec_to_binary temp cnt v = Some (s, k) \<Longrightarrow> length s = k" for v m s k
    by (auto simp: dec_to_hex_def dec_to_binary_def bind_eq_Some_conv)
  assume "fmt_item temp cnt ch args = Some (chunk, n, as)"
  then show ?thesis
    by (auto simp: fmt_item_def bind_eq_Some_conv split: list.splits va.splits if_splits dest: l c h)
qed

lemma fmt_long_length: "fmt_long args = Some (chunk, n, as) \<Longrightarrow> length chunk = n"
proof -
  have c: "convert_number_to_string v = Some (s, k) \<Longrightarrow> length s = k" for v s k
    using convert_number_parse [of v] by auto
  show "fmt_long args = Some (chunk, n, as) \<Longrightarrow> length chunk = n"
    by (auto simp: fmt_long_def bind_eq_Some_conv split: list.splits va.splits dest: c)
qed

lemma emit_sel [simp]:
  "ft_len (emit valid chunk n st) = ft_len st + n"
  "ft_out (emit valid chunk n st) = (if valid then ft_out st @ chunk else ft_out st)"
  by (simp_all add: emit_def)

text \<open>A pass either leaves the text alone or adds a piece that fits.\<close>

definition adds :: "bool \<Rightarrow> nat \<Rightarrow> fmt_out \<Rightarrow> fmt_out \<Rightarrow> bool" where
  "adds valid sz st st' \<longleftrightarrow>
     (ft_len st' = ft_len st \<and> ft_out st' = ft_out st) \<or>
     (\<exists>chunk. st' = emit valid chunk (length chunk) st \<and> ft_len st + length chunk \<le> sz)"

lemma addsI:
  "adds valid sz st st" "adds valid sz st (st\<lparr>ft_level := l\<rparr>)"
  "length chunk = n \<Longrightarrow> \<not> sz < ft_len st + n \<Longrightarrow> adds valid sz st (emit valid chunk n st)"
  by (auto simp: adds_def)

lemma adds_length:
  "adds valid sz st st' \<Longrightarrow> ft_len st \<le> ft_len st'"
  "adds True sz st st' \<Longrightarrow> length (ft_out st) = ft_len st \<Longrightarrow> ft_len st \<le> sz \<Longrightarrow> length (ft_out st') = ft_len st' \<and> ft_len st' \<le> sz"
  "adds valid sz st st' \<Longrightarrow> ft_len st \<le> sz \<Longrightarrow> ft_len st' \<le> sz"
  by (auto simp: adds_def)

lemma fmt_step_adds:
  assumes "fmt_step valid lvl temp cnt sz ch cs args st = Some (Inl (cs', args', st'))"
  shows "adds valid sz st st'"
proof -
  have one: "\<not> sz < Suc (ft_len st) \<Longrightarrow> adds valid sz st (emit valid [c] (Suc 0) st)" for c
    by (rule addsI(3)) auto
  show ?thesis
    using assms one
    by (auto simp: fmt_step_def addsI(1,2) intro: addsI(3) [OF fmt_item_length] addsI(3) [OF fmt_long_length]
        split: if_splits option.splits)
qed

lemma fmt_step_stop: "fmt_step valid lvl temp cnt sz ch cs args st = Some (Inr st') \<Longrightarrow> st' = st"
  by (auto simp: fmt_step_def split: if_splits option.splits)

lemma fmt_loop_mono: "fmt_loop valid lvl temp cnt sz fmt args st = Some st' \<Longrightarrow> ft_len st \<le> ft_len st'"
proof (induction valid lvl temp cnt sz fmt args st rule: fmt_loop.induct)
  case (2 valid lvl temp cnt sz ch cs args st)
  from "2.prems" show ?case
    using "2.IH" by (fastforce dest: adds_length(1) [OF fmt_step_adds] fmt_step_stop split: option.splits sum.splits prod.splits)
qed simp

text \<open>What has been written is as long as counted, and what is counted stays below the limit.\<close>

lemma fmt_loop_bounded:
  "fmt_loop valid lvl temp cnt sz fmt args st = Some st' \<Longrightarrow> valid \<Longrightarrow> length (ft_out st) = ft_len st \<Longrightarrow> ft_len st \<le> sz \<Longrightarrow>
     length (ft_out st') = ft_len st' \<and> ft_len st' \<le> sz"
proof (induction valid lvl temp cnt sz fmt args st rule: fmt_loop.induct)
  case (2 valid lvl temp cnt sz ch cs args st)
  show ?case
  proof (cases "fmt_step valid lvl temp cnt sz ch cs args st")
    case (Some r)
    show ?thesis
    proof (cases r)
      case (Inl x)
      then obtain cs' args' st1 where r: "r = Inl (cs', args', st1)" by (cases x) auto
      from adds_length(2) [of sz st st1] fmt_step_adds [OF Some [unfolded r]] "2.prems"
      have "length (ft_out st1) = ft_len st1" "ft_len st1 \<le> sz" by auto
      with "2.IH" [OF Some r refl refl] "2.prems" Some r show ?thesis by auto
    next
      case (Inr st1)
      with Some "2.prems" fmt_step_stop show ?thesis by fastforce
    qed
  qed (use "2.prems" in simp)
qed simp

lemma fmt_loop_limit:
  "fmt_loop valid lvl temp cnt sz fmt args st = Some st' \<Longrightarrow> ft_len st \<le> sz \<Longrightarrow> ft_len st' \<le> sz"
proof (induction valid lvl temp cnt sz fmt args st rule: fmt_loop.induct)
  case (2 valid lvl temp cnt sz ch cs args st)
  from "2.prems" show ?case
    using "2.IH" by (fastforce dest: adds_length(3) [OF fmt_step_adds] fmt_step_stop split: option.splits sum.splits prod.splits)
qed simp

text \<open>The measuring pass predicts the writing pass, for every limit that admits what was measured.\<close>

lemma fmt_step_sim:
  assumes "fmt_step False lvl temp cnt sz ch cs args st = Some (Inl (cs', args', st'))"
    and "ft_len st2 = ft_len st" "ft_len st' \<le> sz'" "sz' \<le> sz"
  shows "\<exists>st2'. fmt_step True lvl' temp cnt sz' ch cs args st2 = Some (Inl (cs', args', st2')) \<and> ft_len st2' = ft_len st'"
proof -
  let ?long = "hd cs = 108 \<and> hd (tl cs) = 100"
  consider "ch = 0 \<or> ch = 1 \<or> ch \<noteq> 37 \<or> cs = []" | "ch = 37" "cs \<noteq> []" "fetches_one (hd cs)"
    | "ch = 37" "cs \<noteq> []" "\<not> fetches_one (hd cs)" "?long" | "ch = 37" "cs \<noteq> []" "\<not> fetches_one (hd cs)" "\<not> ?long" by blast
  then show ?thesis
  proof cases
    case 1
    with assms show ?thesis by (auto simp: fmt_step_def split: if_splits)
  next
    case 2
    with assms show ?thesis
      by (cases "fmt_item temp cnt (hd cs) args") (auto simp: fmt_step_def)
  next
    case 3
    with assms show ?thesis
      by (cases "fmt_long args") (auto simp: fmt_step_def split: if_splits)
  next
    case 4
    with assms show ?thesis by (auto simp: fmt_step_def split: if_splits)
  qed
qed

lemma fmt_step_sim_stop:
  assumes "fmt_step False lvl temp cnt sz ch cs args st = Some (Inr st')" "ft_len st2 = ft_len st" "sz' \<le> sz"
  shows "fmt_step True lvl' temp cnt sz' ch cs args st2 = Some (Inr st2)"
proof -
  have "ch = 0 \<or> ch \<noteq> 1 \<and> ch \<noteq> 37 \<and> sz < ft_len st + 1"
    using assms(1) by (auto simp: fmt_step_def split: if_splits option.splits)
  with assms(2,3) show ?thesis by (auto simp: fmt_step_def)
qed

lemma fmt_loop_sim:
  "fmt_loop False lvl temp cnt sz fmt args st = Some st' \<Longrightarrow> ft_len st2 = ft_len st \<Longrightarrow> ft_len st' \<le> sz' \<Longrightarrow> sz' \<le> sz \<Longrightarrow>
     \<exists>st2'. fmt_loop True lvl' temp cnt sz' fmt args st2 = Some st2' \<and> ft_len st2' = ft_len st'"
proof (induction "length fmt" arbitrary: fmt args st st2 rule: less_induct)
  case less
  show ?case
  proof (cases fmt)
    case (Cons ch cs)
    note f = less.prems(1) [unfolded Cons fmt_loop.simps]
    then obtain r where r: "fmt_step False lvl temp cnt sz ch cs args st = Some r" by (auto split: option.splits)
    show ?thesis
    proof (cases r)
      case (Inl x)
      then obtain cs' args' st1 where x: "r = Inl (cs', args', st1)" by (cases x) auto
      with f r have l: "fmt_loop False lvl temp cnt sz cs' args' st1 = Some st'" by simp
      from fmt_loop_mono [OF l] less.prems have "ft_len st1 \<le> sz'" by simp
      from fmt_step_sim [OF r [unfolded x] less.prems(2) this less.prems(4)] obtain st2' where
        s: "fmt_step True lvl' temp cnt sz' ch cs args st2 = Some (Inl (cs', args', st2'))" "ft_len st2' = ft_len st1" by blast
      have "length cs' < length fmt" using fmt_step_shorter [OF s(1)] Cons by simp
      from less.hyps [OF this l s(2) less.prems(3,4)] s(1) Cons show ?thesis by simp
    next
      case (Inr st1)
      with r f fmt_step_stop [of False lvl temp cnt sz ch cs args st st1] have "st' = st" by simp
      with fmt_step_sim_stop [OF r [unfolded Inr] less.prems(2,4)] less.prems(2) Cons show ?thesis by simp
    qed
  qed (use less.prems in simp)
qed

section \<open>Properties\<close>

text \<open>The bounded copy \<^verbatim>\<open>kstrlcpy\<close> stays inside the \<open>sz\<close> bytes it is given and returns the length of the source.
  A source that does not fit is cut off after \<open>sz - 1\<close> characters and terminated; a source that fits is copied
  without a terminator, so that what follows in the destination becomes part of the string.\<close>

lemma string_n_copy_safe_exact:
  assumes "0 \<notin> set s" and "sz \<le> length d"
  shows "do_string_n_copy_safe d (s @ 0 # r) sz =
     Some (length s,
       if length s < sz then s @ drop (length s) d
       else if sz = 0 then d
       else take (sz - 1) s @ [0] @ drop sz d)"
  using n_copy_safe_loop_spec [OF assms(1), of "[]" 0 sz d r] assms
  by (auto simp: do_string_n_copy_safe_def get_string_lenth_terminated split: if_splits)

lemma string_n_copy_safe_exact_witness:
  "do_string_n_copy_safe [9, 9, 9, 9] [97, 98, 0] 4 = Some (2, [97, 98, 9, 9]) \<and>
   do_string_n_copy_safe [9, 9, 9, 9] [97, 98, 99, 0] 3 = Some (3, [97, 98, 0, 9])"
  using string_n_copy_safe_exact [of "[97, 98]" 4 "[9, 9, 9, 9]" "[]"]
    string_n_copy_safe_exact [of "[97, 98, 99]" 3 "[9, 9, 9, 9]" "[]"]
  by simp

text \<open>The string comparison \<^verbatim>\<open>kstrcmp\<close> is a prefix test: for a non-empty second string it reports equality exactly
  when the second string is a prefix of the first.\<close>

lemma string_compare_is_prefix_test:
  assumes "0 \<notin> set a" and "0 \<notin> set b" and "b \<noteq> []"
  shows "do_string_compare (a @ 0 # r) (b @ 0 # q) = Some False \<longleftrightarrow> (\<exists>c. a = b @ c)"
  using do_string_compare_prefix [OF assms] by auto (metis append_take_drop_id)

lemma string_compare_is_prefix_test_witness: "do_string_compare [97, 98, 99, 0] [97, 98, 0] = Some False"
  using string_compare_is_prefix_test [of "[97, 98, 99]" "[97, 98]" "[]" "[]"] by simp

text \<open>Text without conversions and level marks is copied as it is.\<close>

definition literal :: "bytes \<Rightarrow> bool" where
  "literal n \<longleftrightarrow> 0 \<notin> set n \<and> 1 \<notin> set n \<and> 37 \<notin> set n"

lemma fmt_loop_literal:
  assumes "literal n" and "ft_len st + length n \<le> sz"
  shows "fmt_loop valid lvl temp cnt sz (n @ [0]) args st =
     Some (st\<lparr>ft_out := (if valid then ft_out st @ n else ft_out st), ft_len := ft_len st + length n\<rparr>)"
  using assms
proof (induction n arbitrary: st)
  case Nil
  then show ?case by (simp add: fmt_step_def)
next
  case (Cons c n)
  have l: "literal n" "c \<noteq> 0" "c \<noteq> 1" "c \<noteq> 37" using Cons.prems(1) by (auto simp: literal_def)
  have "fmt_step valid lvl temp cnt sz c (n @ [0]) args st = Some (Inl (n @ [0], args, emit valid [c] 1 st))"
    using l Cons.prems(2) by (simp add: fmt_step_def)
  then show ?case using Cons.IH [OF l(1), of "emit valid [c] 1 st"] Cons.prems(2) by (simp add: emit_def)
qed

lemma vasprintk_literal:
  assumes "literal n" and "length n < 2 ^ 32 - 1"
  shows "vasprintk True temp cnt (n @ [0]) args = Some (Some (length n + 1, n @ [0], []))"
  using fmt_loop_literal [OF assms(1)] assms(2) by (simp add: vasprintk_def lv_vasprintk_def do_fmt_convert_def)

lemma lv_vasprintk_exact:
  assumes "do_fmt_convert False False temp cnt fmt args (2 ^ 32 - 1) = Some st"
  shows "\<exists>text lv. lv_vasprintk True lvl temp cnt fmt args = Some (Some (ft_len st + 1, text @ [0], lv)) \<and>
     length text = ft_len st \<and> lv_vasprintk False lvl temp cnt fmt args = Some None"
proof -
  let ?i = "\<lparr>ft_out = [], ft_len = 0, ft_level = []\<rparr>"
  have m: "fmt_loop False False temp cnt (2 ^ 32 - 2) fmt args ?i = Some st"
    using assms by (auto simp: do_fmt_convert_def bind_eq_Some_conv)
  show ?thesis
  proof (cases "ft_len st \<le> 2 ^ 32 - 2")
    case True
    obtain st2 where st2: "fmt_loop True lvl temp cnt (ft_len st) fmt args ?i = Some st2" "ft_len st2 = ft_len st"
      using fmt_loop_sim [OF m _ order_refl True, of ?i lvl] by auto
    have "length (ft_out st2) = ft_len st2" using fmt_loop_bounded [OF st2(1)] by simp
    with st2 assms show ?thesis by (simp add: lv_vasprintk_def do_fmt_convert_def)
  qed (use fmt_loop_limit [OF m] in simp)
qed


lemma fmt_example:
  "do_fmt_convert False False (\<lambda>_. 0) 0 [97, 37, 100, 37, 115, 37, 0] [VaInt 42, VaStr [98, 0]] (2 ^ 32 - 1) =
     Some \<lparr>ft_out = [], ft_len = 5, ft_level = []\<rparr>"
  by (simp add: do_fmt_convert_def fmt_step_def fmt_item_def fetches_one_def emit_def convert_number_to_string_def
      number_digits.simps do_string_reverse_def reverse_loop.simps)


end
