(* ===== verification/Chrdev.thy ===== *)
theory Chrdev
  imports Generic_Ops
begin

text \<open>
  The table of character device numbers: \<^verbatim>\<open>platform/chardev/fwk_chrdev.c\<close> and the device-number macros of
  \<^verbatim>\<open>include/platform/fwk_basic.h\<close>.

  The bucket of a major number is the list of its devices in the order of their \<^verbatim>\<open>sprt_next\<close> pointers.  The
  memory pool is a parameter: the addresses \<^verbatim>\<open>kmalloc\<close> hands out next, and those given back.  The name of a
  device, which nothing reads, is left out.
\<close>

section \<open>Device numbers\<close>

abbreviation (input) DEVICE_MAX_NUM :: nat where "DEVICE_MAX_NUM \<equiv> 255"
abbreviation (input) DEV_MINOR_BITS :: nat where "DEV_MINOR_BITS \<equiv> 20"

definition MKE_DEV_NUM :: "kuint32_t \<Rightarrow> kuint32_t \<Rightarrow> kuint32_t" where
  "MKE_DEV_NUM maj minor = push_bit DEV_MINOR_BITS maj OR minor"

definition GET_DEV_MAJOR :: "kuint32_t \<Rightarrow> kuint32_t" where
  "GET_DEV_MAJOR devNum = drop_bit DEV_MINOR_BITS devNum"

definition GET_DEV_MINOR :: "kuint32_t \<Rightarrow> kuint32_t" where
  "GET_DEV_MINOR devNum = devNum AND (push_bit DEV_MINOR_BITS 1 - 1)"

section \<open>State\<close>

record fwk_char_device =
  cd_addr :: kuaddr_t
  cd_major :: kuint32_t
  baseminor :: kuint32_t
  cd_count :: kuint32_t

record chrdevs =
  sgrt_fwk_chrdevs :: "nat \<Rightarrow> fwk_char_device list"
  cd_pool :: "kuaddr_t list"
  cd_freed :: "kuaddr_t list"

definition cd_kmalloc :: "chrdevs \<Rightarrow> kuaddr_t \<times> chrdevs" where
  "cd_kmalloc s = (case cd_pool s of [] \<Rightarrow> (0, s) | a # as \<Rightarrow> (a, s\<lparr>cd_pool := as\<rparr>))"

definition cd_kfree :: "kuaddr_t \<Rightarrow> chrdevs \<Rightarrow> chrdevs" where
  "cd_kfree p s = s\<lparr>cd_freed := cd_freed s @ [p]\<rparr>"

section \<open>Operations\<close>

definition fwk_chrdev_init :: "chrdevs \<Rightarrow> int \<times> chrdevs" where
  "fwk_chrdev_init s =
     (ER_NORMAL, s\<lparr>sgrt_fwk_chrdevs := (\<lambda>i. if i < DEVICE_MAX_NUM then [] else sgrt_fwk_chrdevs s i)\<rparr>)"

definition fwk_chrdev_exit :: "chrdevs \<Rightarrow> chrdevs" where
  "fwk_chrdev_exit s =
     fold (\<lambda>i s. (fold (\<lambda>d. cd_kfree (cd_addr d)) (sgrt_fwk_chrdevs s i) s)
                   \<lparr>sgrt_fwk_chrdevs := (sgrt_fwk_chrdevs s)(i := [])\<rparr>)
       [0..<DEVICE_MAX_NUM] s"

text \<open>The search for a major number without devices, from the highest one down.\<close>

fun free_major :: "nat \<Rightarrow> chrdevs \<Rightarrow> nat option" where
  "free_major 0 s = None"
| "free_major (Suc i) s = (if sgrt_fwk_chrdevs s i = [] then Some i else free_major i s)"

definition last_minor :: "fwk_char_device \<Rightarrow> kuint32_t" where
  "last_minor d = baseminor d + cd_count d - 1"

text \<open>The walk to the place of the new device and the check for an overlap there.\<close>

fun chrdev_place :: "fwk_char_device \<Rightarrow> fwk_char_device list \<Rightarrow> fwk_char_device list option" where
  "chrdev_place n [] = Some [n]"
| "chrdev_place n (d # ds) =
     (if baseminor d \<ge> baseminor n \<or> last_minor d \<ge> baseminor n
      then if baseminor n \<le> last_minor d \<and> last_minor n \<ge> baseminor d then None else Some (n # d # ds)
      else map_option ((#) d) (chrdev_place n ds))"

definition register_chrdev_region ::
  "kuint32_t \<Rightarrow> kuint32_t \<Rightarrow> kuint32_t \<Rightarrow> chrdevs \<Rightarrow> fwk_char_device option \<times> chrdevs" where
  "register_chrdev_region maj minor cnt s =
     (if cnt = 0 then (None, s)
      else case (if maj = 0 then free_major DEVICE_MAX_NUM s else Some (unat maj)) of
             None \<Rightarrow> (None, s)
           | Some m \<Rightarrow>
               if m \<ge> DEVICE_MAX_NUM then (None, s)
               else let (p, s) = cd_kmalloc s
                    in if \<not> isValid p then (None, s)
                       else let d = \<lparr>cd_addr = p, cd_major = of_nat m, baseminor = minor, cd_count = cnt\<rparr>
                            in case chrdev_place d (sgrt_fwk_chrdevs s m) of
                                 None \<Rightarrow> (None, cd_kfree p s)
                               | Some ds \<Rightarrow> (Some d, s\<lparr>sgrt_fwk_chrdevs := (sgrt_fwk_chrdevs s)(m := ds)\<rparr>))"

fun chrdev_remove :: "kuint32_t \<Rightarrow> kuint32_t \<Rightarrow> fwk_char_device list \<Rightarrow> fwk_char_device option \<times> fwk_char_device list" where
  "chrdev_remove minor cnt [] = (None, [])"
| "chrdev_remove minor cnt (d # ds) =
     (if minor = baseminor d \<and> cnt = cd_count d then (Some d, ds)
      else let (r, ds) = chrdev_remove minor cnt ds in (r, d # ds))"

definition unregister_chrdev_region ::
  "kuint32_t \<Rightarrow> kuint32_t \<Rightarrow> kuint32_t \<Rightarrow> chrdevs \<Rightarrow> fwk_char_device option \<times> chrdevs" where
  "unregister_chrdev_region maj minor cnt s =
     (if unat maj \<ge> DEVICE_MAX_NUM \<or> cnt = 0 then (None, s)
      else let (r, ds) = chrdev_remove minor cnt (sgrt_fwk_chrdevs s (unat maj))
           in (r, s\<lparr>sgrt_fwk_chrdevs := (sgrt_fwk_chrdevs s)(unat maj := ds)\<rparr>))"

definition fwk_alloc_chrdev :: "kuint32_t \<Rightarrow> kuint32_t \<Rightarrow> chrdevs \<Rightarrow> (int \<times> kuint32_t option) \<times> chrdevs" where
  "fwk_alloc_chrdev minor cnt s =
     (case register_chrdev_region 0 minor cnt s of
        (None, s) \<Rightarrow> ((- ER_FAULT, None), s)
      | (Some d, s) \<Rightarrow> ((ER_NORMAL, Some (MKE_DEV_NUM (cd_major d) (baseminor d))), s))"

text \<open>The end of the piece of a range of numbers that lies within the major number of \<open>n\<close>.\<close>

definition next_piece :: "kuint32_t \<Rightarrow> kuint32_t \<Rightarrow> kuint32_t" where
  "next_piece final n = min final (MKE_DEV_NUM (GET_DEV_MAJOR n + 1) 0)"

partial_function (option) unregister_loop :: "kuint32_t \<Rightarrow> kuint32_t \<Rightarrow> chrdevs \<Rightarrow> chrdevs option" where
  "unregister_loop final n s =
     (if n < final
      then case unregister_chrdev_region (GET_DEV_MAJOR n) (GET_DEV_MINOR n) (next_piece final n - n) s of
             (None, s) \<Rightarrow> unregister_loop final (next_piece final n) s
           | (Some d, s) \<Rightarrow> unregister_loop final (next_piece final n) (cd_kfree (cd_addr d) s)
      else Some s)"

definition fwk_unregister_chrdev :: "kuint32_t \<Rightarrow> kuint32_t \<Rightarrow> chrdevs \<Rightarrow> chrdevs option" where
  "fwk_unregister_chrdev devNum cnt s = unregister_loop (devNum + cnt) devNum s"

partial_function (option) register_loop ::
  "kuint32_t \<Rightarrow> kuint32_t \<Rightarrow> kuint32_t \<Rightarrow> chrdevs \<Rightarrow> (int \<times> chrdevs) option" where
  "register_loop devNum final n s =
     (if n < final
      then case register_chrdev_region (GET_DEV_MAJOR n) (GET_DEV_MINOR n) (next_piece final n - n) s of
             (None, s) \<Rightarrow> map_option (\<lambda>s. (- ER_FAILD, s)) (fwk_unregister_chrdev devNum (n - devNum) s)
           | (Some d, s) \<Rightarrow> register_loop devNum final (next_piece final n) s
      else Some (ER_NORMAL, s))"

definition fwk_register_chrdev :: "kuint32_t \<Rightarrow> kuint32_t \<Rightarrow> chrdevs \<Rightarrow> (int \<times> chrdevs) option" where
  "fwk_register_chrdev devNum cnt s = register_loop devNum (devNum + cnt) devNum s"

section \<open>The invariant of the table\<close>

text \<open>The minor numbers of a device, and a bucket whose devices follow each other without overlap.\<close>

definition minors :: "fwk_char_device \<Rightarrow> nat set" where
  "minors d = {unat (baseminor d) ..< unat (baseminor d) + unat (cd_count d)}"

definition dev_ok :: "fwk_char_device \<Rightarrow> bool" where
  "dev_ok d \<longleftrightarrow> cd_count d \<noteq> 0 \<and> unat (baseminor d) + unat (cd_count d) \<le> 2 ^ 32"

definition bucket_ok :: "fwk_char_device list \<Rightarrow> bool" where
  "bucket_ok ds \<longleftrightarrow> (\<forall>d \<in> set ds. dev_ok d) \<and>
     sorted_wrt (\<lambda>a b. unat (baseminor a) + unat (cd_count a) \<le> unat (baseminor b)) ds"

definition chrdevs_ok :: "chrdevs \<Rightarrow> bool" where
  "chrdevs_ok s \<longleftrightarrow> (\<forall>m < DEVICE_MAX_NUM. bucket_ok (sgrt_fwk_chrdevs s m) \<and>
     (\<forall>d \<in> set (sgrt_fwk_chrdevs s m). cd_major d = of_nat m))"

lemma dev_ok_last:
  assumes "dev_ok d"
  shows "unat (last_minor d) = unat (baseminor d) + unat (cd_count d) - 1" "0 < unat (cd_count d)"
proof -
  have "cd_count d \<noteq> 0" and l: "unat (baseminor d) + unat (cd_count d) \<le> 2 ^ 32" using assms by (auto simp: dev_ok_def)
  then show c: "0 < unat (cd_count d)" by (simp add: unat_gt_0)
  then have "last_minor d = of_nat (unat (baseminor d) + unat (cd_count d) - 1)"
    by (simp add: last_minor_def of_nat_diff Suc_le_eq)
  moreover have "unat (baseminor d) + unat (cd_count d) - 1 < 2 ^ LENGTH(32)" using l c by simp
  ultimately show "unat (last_minor d) = unat (baseminor d) + unat (cd_count d) - 1"
    by (simp add: unsigned_of_nat take_bit_nat_eq_self)
qed

lemma chrdev_place_ok:
  assumes "dev_ok n" "bucket_ok ds"
  shows "(case chrdev_place n ds of
       None \<Rightarrow> \<exists>d \<in> set ds. minors d \<inter> minors n \<noteq> {}
     | Some es \<Rightarrow> bucket_ok es \<and> set es = insert n (set ds) \<and> (\<forall>d \<in> set ds. minors d \<inter> minors n = {}))"
  using assms(2)
proof (induction ds)
  case Nil
  then show ?case using assms(1) by (simp add: bucket_ok_def)
next
  case (Cons d ds)
  let ?b = "\<lambda>d. unat (baseminor d)" and ?c = "\<lambda>d. unat (cd_count d)"
  have ok: "dev_ok d" "bucket_ok ds" "\<And>e. e \<in> set ds \<Longrightarrow> ?b d + ?c d \<le> ?b e"
    using Cons.prems by (auto simp: bucket_ok_def)
  have c: "0 < ?c d" "0 < ?c n" using dev_ok_last [OF ok(1)] dev_ok_last [OF assms(1)] by auto
  have le: "last_minor d \<ge> baseminor n \<longleftrightarrow> ?b n < ?b d + ?c d" "last_minor n \<ge> baseminor d \<longleftrightarrow> ?b d < ?b n + ?c n"
    using dev_ok_last [OF ok(1)] dev_ok_last [OF assms(1)] by (auto simp: word_le_nat_alt)
  show ?case
  proof (cases "?b n < ?b d + ?c d")
    case True
    show ?thesis
    proof (cases "?b d < ?b n + ?c n")
      case True
      then have "max (?b d) (?b n) \<in> minors d \<inter> minors n" using \<open>?b n < ?b d + ?c d\<close> c by (auto simp: minors_def)
      with True \<open>?b n < ?b d + ?c d\<close> le show ?thesis by auto
    next
      case False
      then have "\<And>e. e \<in> set (d # ds) \<Longrightarrow> ?b n + ?c n \<le> ?b e" using ok(3) by fastforce
      moreover from this have "\<And>e. e \<in> set (d # ds) \<Longrightarrow> minors e \<inter> minors n = {}" by (fastforce simp: minors_def)
      ultimately show ?thesis using False True le Cons.prems assms(1) by (auto simp: bucket_ok_def)
    qed
  next
    case False
    then have nb: "\<not> baseminor d \<ge> baseminor n \<or> \<not> ?b n \<le> ?b d" "\<not> last_minor d \<ge> baseminor n" "\<not> ?b n \<le> ?b d"
      using le c by auto
    then have place: "chrdev_place n (d # ds) = map_option ((#) d) (chrdev_place n ds)"
      by (simp add: word_le_nat_alt)
    have dj: "minors d \<inter> minors n = {}" using False by (fastforce simp: minors_def)
    show ?thesis
      using Cons.IH [OF ok(2)] ok False dj unfolding place
      by (auto simp: bucket_ok_def split: option.splits)
  qed
qed

lemma chrdev_place_remove:
  "chrdev_place n ds = Some es \<Longrightarrow> \<forall>d \<in> set ds. \<not> (baseminor d = baseminor n \<and> cd_count d = cd_count n) \<Longrightarrow>
     chrdev_remove (baseminor n) (cd_count n) es = (Some n, ds)"
  by (induction ds arbitrary: es) (auto split: if_splits)

lemma overlapping_self: "dev_ok n \<Longrightarrow> baseminor d = baseminor n \<Longrightarrow> cd_count d = cd_count n \<Longrightarrow> minors d \<inter> minors n \<noteq> {}"
  using dev_ok_last(2) [of n] by (auto simp: minors_def)

lemma register_region_cases:
  assumes "chrdevs_ok s" "maj \<noteq> 0" "unat maj < DEVICE_MAX_NUM" "cnt \<noteq> 0" "unat minor + unat cnt \<le> 2 ^ 32"
    "cd_pool s = p # ps" "isValid p"
  defines "d \<equiv> \<lparr>cd_addr = p, cd_major = maj, baseminor = minor, cd_count = cnt\<rparr>"
  shows "\<exists>s'. chrdevs_ok s' \<and>
     (if \<exists>e \<in> set (sgrt_fwk_chrdevs s (unat maj)). minors e \<inter> minors d \<noteq> {}
      then register_chrdev_region maj minor cnt s = (None, s') \<and>
        sgrt_fwk_chrdevs s' = sgrt_fwk_chrdevs s \<and> cd_freed s' = cd_freed s @ [p]
      else register_chrdev_region maj minor cnt s = (Some d, s') \<and>
        set (sgrt_fwk_chrdevs s' (unat maj)) = insert d (set (sgrt_fwk_chrdevs s (unat maj))) \<and>
        (\<forall>m. m \<noteq> unat maj \<longrightarrow> sgrt_fwk_chrdevs s' m = sgrt_fwk_chrdevs s m) \<and>
        sgrt_fwk_chrdevs (snd (unregister_chrdev_region maj minor cnt s')) = sgrt_fwk_chrdevs s \<and>
        fst (unregister_chrdev_region maj minor cnt s') = Some d)"
proof -
  let ?ds = "sgrt_fwk_chrdevs s (unat maj)"
  have d: "dev_ok d" using assms(4,5) by (simp add: d_def dev_ok_def)
  have b: "bucket_ok ?ds" using assms(1,3) by (simp add: chrdevs_ok_def)
  note place = chrdev_place_ok [OF d b]
  have e: "register_chrdev_region maj minor cnt s =
      (case chrdev_place d ?ds of
         None \<Rightarrow> (None, cd_kfree p (s\<lparr>cd_pool := ps\<rparr>))
       | Some es \<Rightarrow> (Some d, s\<lparr>cd_pool := ps, sgrt_fwk_chrdevs := (sgrt_fwk_chrdevs s)(unat maj := es)\<rparr>))"
    using assms(2-4,6,7) by (simp add: register_chrdev_region_def cd_kmalloc_def d_def Let_def split: option.split)
  show ?thesis
  proof (cases "chrdev_place d ?ds")
    case None
    with place e assms(1) show ?thesis
      by (intro exI [of _ "cd_kfree p (s\<lparr>cd_pool := ps\<rparr>)"]) (auto simp: cd_kfree_def chrdevs_ok_def)
  next
    case (Some es)
    let ?s = "s\<lparr>cd_pool := ps, sgrt_fwk_chrdevs := (sgrt_fwk_chrdevs s)(unat maj := es)\<rparr>"
    have pl: "bucket_ok es" "set es = insert d (set ?ds)" "\<forall>e \<in> set ?ds. minors e \<inter> minors d = {}"
      using place Some by auto
    then have "chrdev_remove minor cnt es = (Some d, ?ds)"
      using chrdev_place_remove [OF Some] overlapping_self [OF d] by (force simp: d_def)
    moreover have "chrdevs_ok ?s" using pl assms(1) by (auto simp: chrdevs_ok_def d_def)
    ultimately show ?thesis
      using pl e Some assms(3,4)
      by (intro exI [of _ ?s]) (auto simp: unregister_chrdev_region_def fun_eq_iff)
  qed
qed

section \<open>Properties\<close>

definition range_of :: "kuint32_t \<Rightarrow> kuint32_t \<Rightarrow> nat set" where
  "range_of minor cnt = {unat minor ..< unat minor + unat cnt}"

text \<open>C9: Registering a range of minor numbers of a major number keeps every bucket sorted and free of overlaps.  It
  succeeds exactly when no device of that major number has a minor number of the range; then only that bucket changes,
  by the new device.  Otherwise the table is unchanged and the memory of the new device is given back.\<close>

theorem chrdev_register_exact:
  assumes "chrdevs_ok s" and "maj \<noteq> 0" and "unat maj < DEVICE_MAX_NUM" and "cnt \<noteq> 0"
    and "unat minor + unat cnt \<le> 2 ^ 32" and "cd_pool s = p # ps" and "isValid p"
  shows "\<exists>r s'. register_chrdev_region maj minor cnt s = (r, s') \<and> chrdevs_ok s' \<and>
     (if \<exists>e \<in> set (sgrt_fwk_chrdevs s (unat maj)). minors e \<inter> range_of minor cnt \<noteq> {}
      then r = None \<and> sgrt_fwk_chrdevs s' = sgrt_fwk_chrdevs s \<and> cd_freed s' = cd_freed s @ [p]
      else \<exists>d. r = Some d \<and> cd_major d = maj \<and> minors d = range_of minor cnt \<and>
        set (sgrt_fwk_chrdevs s' (unat maj)) = insert d (set (sgrt_fwk_chrdevs s (unat maj))) \<and>
        (\<forall>m. m \<noteq> unat maj \<longrightarrow> sgrt_fwk_chrdevs s' m = sgrt_fwk_chrdevs s m))"
proof -
  let ?d = "\<lparr>cd_addr = p, cd_major = maj, baseminor = minor, cd_count = cnt\<rparr>"
  have m: "minors ?d = range_of minor cnt" by (simp add: minors_def range_of_def)
  show ?thesis
    using register_region_cases [OF assms] unfolding m
    by (cases "\<exists>e \<in> set (sgrt_fwk_chrdevs s (unat maj)). minors e \<inter> range_of minor cnt \<noteq> {}") (use m in auto)
qed

definition demo_chrdevs :: chrdevs where
  "demo_chrdevs = \<lparr>sgrt_fwk_chrdevs = (\<lambda>_. [])(5 := [\<lparr>cd_addr = 64, cd_major = 5, baseminor = 0, cd_count = 2\<rparr>]),
     cd_pool = [128], cd_freed = []\<rparr>"

lemma demo_chrdevs_ok: "chrdevs_ok demo_chrdevs" "cd_pool demo_chrdevs = [128]" "isValid 128"
  by (auto simp: chrdevs_ok_def bucket_ok_def dev_ok_def demo_chrdevs_def isValid_def IS_ERR_def)

theorem chrdev_register_exact_witness:
  "\<exists>s'. register_chrdev_region 5 1 4 demo_chrdevs = (None, s') \<and> cd_freed s' = [128]"
  using chrdev_register_exact [OF demo_chrdevs_ok(1), of 5 4 1, OF _ _ _ _ demo_chrdevs_ok(2,3)]
  by (auto simp: demo_chrdevs_def minors_def range_of_def)

text \<open>Unregistering undoes registering: after a range has been registered, unregistering the same range returns the
  device that was entered and leaves the table as it was before.\<close>

lemma chrdev_unregister_inverts:
  assumes "chrdevs_ok s" and "maj \<noteq> 0" and "unat maj < DEVICE_MAX_NUM" and "cnt \<noteq> 0"
    and "unat minor + unat cnt \<le> 2 ^ 32" and "cd_pool s = p # ps" and "isValid p"
    and "register_chrdev_region maj minor cnt s = (Some d, s1)"
  shows "\<exists>s2. unregister_chrdev_region maj minor cnt s1 = (Some d, s2) \<and> sgrt_fwk_chrdevs s2 = sgrt_fwk_chrdevs s"
  using register_region_cases [OF assms(1-7)] assms(8) by (auto split: if_splits) (metis prod.collapse)+

lemma chrdev_unregister_inverts_witness:
  "\<exists>d s1 s2. register_chrdev_region 5 2 4 demo_chrdevs = (Some d, s1) \<and>
     unregister_chrdev_region 5 2 4 s1 = (Some d, s2) \<and> sgrt_fwk_chrdevs s2 = sgrt_fwk_chrdevs demo_chrdevs"
proof -
  obtain d s1 where r: "register_chrdev_region 5 2 4 demo_chrdevs = (Some d, s1)"
    using chrdev_register_exact [OF demo_chrdevs_ok(1), of 5 4 2, OF _ _ _ _ demo_chrdevs_ok(2,3)]
    by (auto simp: demo_chrdevs_def minors_def range_of_def)
  from chrdev_unregister_inverts [OF demo_chrdevs_ok(1), of 5 4 2, OF _ _ _ _ demo_chrdevs_ok(2,3) r] r
  show ?thesis by auto
qed

end
