(* ===== verification/Kobj_Map.thy ===== *)
theory Kobj_Map
  imports Chrdev
begin

text \<open>
  The maps from device numbers to devices: \<^verbatim>\<open>platform/fwk_kobjmap.c\<close>, and the character devices entered into
  them, \<^verbatim>\<open>platform/chardev/fwk_cdev.c\<close>.

  A map is known by its address; its bucket of a major number is the list of its probes in the order of their \<^verbatim>\<open>sprt_next\<close>
  pointers.  The probes of one call of \<^verbatim>\<open>fwk_kobj_map\<close> are the elements of one allocated array, 16 bytes each.
\<close>

section \<open>State\<close>

record fwk_probes =
  pr_addr :: kuaddr_t
  pr_devNum :: kuint32_t
  pr_range :: kuint32_t
  pr_data :: kuaddr_t

record fwk_cdev =
  cdev_devNum :: kuint32_t
  cdev_count :: kuint32_t
  cdev_oprts :: kuaddr_t
  cdev_privData :: kuaddr_t

record kobj_maps =
  sprt_probes :: "kuaddr_t \<Rightarrow> nat \<Rightarrow> fwk_probes list"
  sprt_fwk_chrdev_map :: kuaddr_t
  sprt_fwk_blkdev_map :: kuaddr_t
  sprt_fwk_netdev_map :: kuaddr_t
  cdevs :: "kuaddr_t \<Rightarrow> fwk_cdev"
  km_pool :: "kuaddr_t list"
  km_freed :: "kuaddr_t list"

definition km_kzalloc :: "kobj_maps \<Rightarrow> kuaddr_t \<times> kobj_maps" where
  "km_kzalloc s = (case km_pool s of [] \<Rightarrow> (0, s) | a # as \<Rightarrow> (a, s\<lparr>km_pool := as\<rparr>))"

definition km_kfree :: "kuaddr_t \<Rightarrow> kobj_maps \<Rightarrow> kobj_maps" where
  "km_kfree p s = s\<lparr>km_freed := km_freed s @ [p]\<rparr>"

definition set_bucket :: "kuaddr_t \<Rightarrow> nat \<Rightarrow> fwk_probes list \<Rightarrow> kobj_maps \<Rightarrow> kobj_maps" where
  "set_bucket dmn i ds s = s\<lparr>sprt_probes := (sprt_probes s)(dmn := (sprt_probes s dmn)(i := ds))\<rparr>"

section \<open>Operations\<close>

definition clear_map :: "kuaddr_t \<Rightarrow> kobj_maps \<Rightarrow> kobj_maps" where
  "clear_map dmn s = s\<lparr>sprt_probes := (sprt_probes s)(dmn := (\<lambda>_. []))\<rparr>"

definition fwk_kobjmap_init :: "kobj_maps \<Rightarrow> int \<times> kobj_maps" where
  "fwk_kobjmap_init s =
     (let (c, s) = km_kzalloc s; s = s\<lparr>sprt_fwk_chrdev_map := c\<rparr>
      in if \<not> isValid c then (- ER_NOMEM, s)
         else let (b, s) = km_kzalloc s; s = s\<lparr>sprt_fwk_blkdev_map := b\<rparr>
              in if \<not> isValid b then (- ER_NOMEM, (km_kfree c s)\<lparr>sprt_fwk_chrdev_map := 0\<rparr>)
                 else let (n, s) = km_kzalloc s; s = s\<lparr>sprt_fwk_netdev_map := n\<rparr>
                      in if \<not> isValid n
                         then (- ER_NOMEM, (km_kfree c ((km_kfree b s)\<lparr>sprt_fwk_blkdev_map := 0\<rparr>))\<lparr>sprt_fwk_chrdev_map := 0\<rparr>)
                         else (ER_NORMAL, clear_map n (clear_map b (clear_map c s))))"

text \<open>Every probe of every bucket is freed on its own, then the map.\<close>

definition del_map :: "kuaddr_t \<Rightarrow> kobj_maps \<Rightarrow> kobj_maps" where
  "del_map dmn s =
     (let s = (if isValid dmn
               then fold (\<lambda>i s. set_bucket dmn i [] (fold (\<lambda>d. km_kfree (pr_addr d)) (sprt_probes s dmn i) s))
                      [0..<DEVICE_MAX_NUM] s
               else s)
      in km_kfree dmn s)"

definition fwk_kobjmap_del :: "kobj_maps \<Rightarrow> kobj_maps" where
  "fwk_kobjmap_del s =
     (let s = (del_map (sprt_fwk_chrdev_map s) s)\<lparr>sprt_fwk_chrdev_map := 0\<rparr>;
          s = (del_map (sprt_fwk_blkdev_map s) s)\<lparr>sprt_fwk_blkdev_map := 0\<rparr>
      in (del_map (sprt_fwk_netdev_map s) s)\<lparr>sprt_fwk_netdev_map := 0\<rparr>)"

text \<open>The first bucket of a range of numbers and the number of its buckets.\<close>

definition first_major :: "kuint32_t \<Rightarrow> kuint32_t" where
  "first_major devNum = min (of_nat DEVICE_MAX_NUM) (GET_DEV_MAJOR devNum)"

definition major_cnt :: "kuint32_t \<Rightarrow> kuint32_t \<Rightarrow> kuint32_t" where
  "major_cnt devNum rng =
     (let major = first_major devNum; majorCnt = GET_DEV_MAJOR (devNum + rng) - major + 1
      in if major + majorCnt > of_nat DEVICE_MAX_NUM then of_nat DEVICE_MAX_NUM - major else majorCnt)"

fun probe_insert :: "fwk_probes \<Rightarrow> fwk_probes list \<Rightarrow> fwk_probes list" where
  "probe_insert p [] = [p]"
| "probe_insert p (d # ds) = (if pr_range d < pr_range p then d # probe_insert p ds else p # d # ds)"

definition new_probe :: "kuaddr_t \<Rightarrow> kuint32_t \<Rightarrow> kuint32_t \<Rightarrow> kuaddr_t \<Rightarrow> nat \<Rightarrow> fwk_probes" where
  "new_probe p devNum rng data i = \<lparr>pr_addr = p + 16 * of_nat i, pr_devNum = devNum, pr_range = rng, pr_data = data\<rparr>"

definition fwk_kobj_map :: "kuaddr_t \<Rightarrow> kuint32_t \<Rightarrow> kuint32_t \<Rightarrow> kuaddr_t \<Rightarrow> kobj_maps \<Rightarrow> int \<times> kobj_maps" where
  "fwk_kobj_map dmn devNum rng data s =
     (if \<not> isValid dmn \<or> \<not> isValid data then (- ER_FAULT, s)
      else let (p, s) = km_kzalloc s
           in if \<not> isValid p then (- ER_NOMEM, s)
              else (ER_NORMAL,
                fold (\<lambda>i s. let index = (unat (first_major devNum) + i) mod DEVICE_MAX_NUM
                            in set_bucket dmn index (probe_insert (new_probe p devNum rng data i) (sprt_probes s dmn index)) s)
                  [0..<unat (major_cnt devNum rng)] s))"

fun probe_remove :: "kuint32_t \<Rightarrow> kuint32_t \<Rightarrow> fwk_probes list \<Rightarrow> fwk_probes option \<times> fwk_probes list" where
  "probe_remove devNum rng [] = (None, [])"
| "probe_remove devNum rng (d # ds) =
     (if pr_devNum d = devNum \<and> pr_range d = rng then (Some d, ds)
      else let (r, ds) = probe_remove devNum rng ds in (r, d # ds))"

definition fwk_kobj_unmap :: "kuaddr_t \<Rightarrow> kuint32_t \<Rightarrow> kuint32_t \<Rightarrow> kobj_maps \<Rightarrow> int \<times> kobj_maps" where
  "fwk_kobj_unmap dmn devNum rng s =
     (if \<not> isValid dmn then (- ER_FAULT, s)
      else let (rlt, s) =
             fold (\<lambda>i (rlt, s). let index = (unat (first_major devNum) + i) mod DEVICE_MAX_NUM;
                                    (r, ds) = probe_remove devNum rng (sprt_probes s dmn index)
                                in (case rlt of None \<Rightarrow> r | Some _ \<Rightarrow> rlt, set_bucket dmn index ds s))
               [0..<unat (major_cnt devNum rng)] (None, s)
           in (ER_NORMAL, case rlt of None \<Rightarrow> s | Some d \<Rightarrow> km_kfree (pr_addr d) s))"

definition covers :: "kuint32_t \<Rightarrow> fwk_probes \<Rightarrow> bool" where
  "covers devNum d \<longleftrightarrow> devNum \<ge> pr_devNum d \<and> devNum \<le> pr_devNum d + pr_range d - 1"

definition probe_for :: "kuaddr_t \<Rightarrow> kuint32_t \<Rightarrow> kobj_maps \<Rightarrow> fwk_probes option" where
  "probe_for dmn devNum s = find (covers devNum) (sprt_probes s dmn (unat (GET_DEV_MAJOR devNum) mod DEVICE_MAX_NUM))"

definition fwk_kobjmap_lookup :: "kuaddr_t \<Rightarrow> kuint32_t \<Rightarrow> kobj_maps \<Rightarrow> kuaddr_t" where
  "fwk_kobjmap_lookup dmn devNum s =
     (if \<not> isValid dmn then 0 else case probe_for dmn devNum s of None \<Rightarrow> 0 | Some d \<Rightarrow> pr_data d)"

section \<open>Character devices\<close>

definition fwk_cdev_init :: "kuaddr_t \<Rightarrow> kuaddr_t \<Rightarrow> kobj_maps \<Rightarrow> int \<times> kobj_maps" where
  "fwk_cdev_init c oprts s =
     (if \<not> isValid c then (- ER_NOMEM, s)
      else (ER_NORMAL, s\<lparr>cdevs := (cdevs s)(c := \<lparr>cdev_devNum = 0, cdev_count = 0, cdev_oprts = oprts, cdev_privData = 0\<rparr>)\<rparr>))"

definition fwk_cdev_alloc :: "kuaddr_t \<Rightarrow> kobj_maps \<Rightarrow> kuaddr_t \<times> kobj_maps" where
  "fwk_cdev_alloc oprts s =
     (let (c, s) = km_kzalloc s
      in if \<not> isValid c then (0, s)
         else let (r, s) = fwk_cdev_init c oprts s
              in if r \<noteq> 0 then (0, if isValid c then km_kfree c s else s) else (c, s))"

definition fwk_cdev_add :: "kuaddr_t \<Rightarrow> kuint32_t \<Rightarrow> kuint32_t \<Rightarrow> kobj_maps \<Rightarrow> int \<times> kobj_maps" where
  "fwk_cdev_add c devNum cnt s =
     (if \<not> isValid c then (- ER_NOMEM, s)
      else let s = s\<lparr>cdevs := (cdevs s)(c := (cdevs s c)\<lparr>cdev_devNum := devNum, cdev_count := cnt\<rparr>)\<rparr>
           in fwk_kobj_map (sprt_fwk_chrdev_map s) devNum cnt c s)"

definition fwk_cdev_del :: "kuaddr_t \<Rightarrow> kobj_maps \<Rightarrow> int \<times> kobj_maps" where
  "fwk_cdev_del c s =
     (if \<not> isValid c then (- ER_NOMEM, s)
      else (ER_NORMAL, snd (fwk_kobj_unmap (sprt_fwk_chrdev_map s) (cdev_devNum (cdevs s c)) (cdev_count (cdevs s c)) s)))"

section \<open>Buckets\<close>

lemma find_probe_insert:
  "\<not> P p \<Longrightarrow> find P (probe_insert p ds) = find P ds"
  "find P ds = None \<Longrightarrow> P p \<Longrightarrow> find P (probe_insert p ds) = Some p"
  by (induction ds) (auto split: if_splits)

lemma probe_remove_insert:
  "\<forall>d \<in> set ds. \<not> (pr_devNum d = pr_devNum p \<and> pr_range d = pr_range p) \<Longrightarrow>
     probe_remove (pr_devNum p) (pr_range p) (probe_insert p ds) = (Some p, ds)"
  by (induction ds) auto

lemma set_bucket_probes [simp]:
  "sprt_probes (set_bucket dmn i ds s) = (sprt_probes s)(dmn := (sprt_probes s dmn)(i := ds))"
  "km_freed (set_bucket dmn i ds s) = km_freed s" "km_pool (set_bucket dmn i ds s) = km_pool s"
  by (simp_all add: set_bucket_def)

lemma map_loop:
  assumes "m + n \<le> DEVICE_MAX_NUM"
  shows "sprt_probes (fold (\<lambda>i s. let index = (m + i) mod DEVICE_MAX_NUM
         in set_bucket dmn index (probe_insert (f i) (sprt_probes s dmn index)) s) [0..<n] s) =
     (sprt_probes s)(dmn := (\<lambda>b. if m \<le> b \<and> b < m + n then probe_insert (f (b - m)) (sprt_probes s dmn b)
                                 else sprt_probes s dmn b))"
    and "km_freed (fold (\<lambda>i s. let index = (m + i) mod DEVICE_MAX_NUM
         in set_bucket dmn index (probe_insert (f i) (sprt_probes s dmn index)) s) [0..<n] s) = km_freed s"
  using assms by (induction n) (auto simp: fun_eq_iff Let_def)

lemma unmap_loop:
  assumes "m + n \<le> DEVICE_MAX_NUM"
    and "\<And>b. m \<le> b \<Longrightarrow> b < m + n \<Longrightarrow> probe_remove devNum rng (sprt_probes s dmn b) = (Some (g b), ds b)"
  shows "\<exists>s'. fold (\<lambda>i (rlt, s). let index = (m + i) mod DEVICE_MAX_NUM;
                 (r, ds) = probe_remove devNum rng (sprt_probes s dmn index)
             in (case rlt of None \<Rightarrow> r | Some _ \<Rightarrow> rlt, set_bucket dmn index ds s)) [0..<n] (None, s) =
       (if n = 0 then None else Some (g m), s') \<and> km_freed s' = km_freed s \<and>
     sprt_probes s' = (sprt_probes s)(dmn := (\<lambda>b. if m \<le> b \<and> b < m + n then ds b else sprt_probes s dmn b))"
  using assms
proof (induction n)
  case (Suc n)
  have "m + n \<le> DEVICE_MAX_NUM" using Suc.prems(1) by simp
  moreover have "probe_remove devNum rng (sprt_probes s dmn b) = (Some (g b), ds b)" if "m \<le> b" "b < m + n" for b
    using Suc.prems(2) that by simp
  ultimately obtain s' where s': "fold (\<lambda>i (rlt, s). let index = (m + i) mod DEVICE_MAX_NUM;
                 (r, ds) = probe_remove devNum rng (sprt_probes s dmn index)
             in (case rlt of None \<Rightarrow> r | Some _ \<Rightarrow> rlt, set_bucket dmn index ds s)) [0..<n] (None, s) =
       (if n = 0 then None else Some (g m), s')" "km_freed s' = km_freed s"
     "sprt_probes s' = (sprt_probes s)(dmn := (\<lambda>b. if m \<le> b \<and> b < m + n then ds b else sprt_probes s dmn b))"
    using Suc.IH by blast
  have "(m + n) mod DEVICE_MAX_NUM = m + n" using Suc.prems(1) by simp
  then show ?case
    using s' Suc.prems(2) [of "m + n"]
    by (intro exI [of _ "set_bucket dmn (m + n) (ds (m + n)) s'"]) (auto simp: fun_eq_iff Let_def)
qed (auto simp: fun_eq_iff)

section \<open>Ranges of device numbers\<close>

lemma unat_GET_DEV_MAJOR: "unat (GET_DEV_MAJOR n) = unat n div 2 ^ DEV_MINOR_BITS"
  by (simp add: GET_DEV_MAJOR_def drop_bit_eq_div unat_div)

text \<open>A range of numbers that does not wrap and whose major numbers are all below the limit.\<close>

definition range_ok :: "kuint32_t \<Rightarrow> kuint32_t \<Rightarrow> bool" where
  "range_ok devNum rng \<longleftrightarrow> 0 < rng \<and> unat devNum + unat rng < DEVICE_MAX_NUM * 2 ^ DEV_MINOR_BITS"

definition numbers :: "kuint32_t \<Rightarrow> kuint32_t \<Rightarrow> kuint32_t set" where
  "numbers devNum rng = {k. unat devNum \<le> unat k \<and> unat k < unat devNum + unat rng}"

lemma range_ok_words:
  assumes "range_ok n r"
  shows "unat (n + r) = unat n + unat r" "unat (n + r - 1) = unat n + unat r - 1"
    "unat (first_major n) = unat n div 2 ^ DEV_MINOR_BITS"
    "unat (major_cnt n r) = (unat n + unat r) div 2 ^ DEV_MINOR_BITS - unat n div 2 ^ DEV_MINOR_BITS + 1"
    "unat (first_major n) + unat (major_cnt n r) \<le> DEVICE_MAX_NUM"
proof -
  have b: "unat n + unat r < 255 * 2 ^ 20" and r0: "0 < unat r"
    using assms by (auto simp: range_ok_def word_less_nat_alt)
  then show s: "unat (n + r) = unat n + unat r" by (subst unat_plus_if') auto
  show "unat (n + r - 1) = unat n + unat r - 1"
    using s r0 by (subst unat_sub) (auto simp: word_le_nat_alt)
  have d: "(unat n + unat r) div 2 ^ 20 < 255" "unat n div 2 ^ 20 \<le> (unat n + unat r) div 2 ^ 20"
    using b by (auto simp: less_mult_imp_div_less div_le_mono)
  have g: "unat (GET_DEV_MAJOR (n + r)) = (unat n + unat r) div 2 ^ 20" "unat (GET_DEV_MAJOR n) = unat n div 2 ^ 20"
    using s by (simp_all add: unat_GET_DEV_MAJOR)
  have f: "first_major n = GET_DEV_MAJOR n"
    using d g by (simp add: first_major_def min_def word_le_nat_alt)
  then show fm: "unat (first_major n) = unat n div 2 ^ DEV_MINOR_BITS" using g by simp
  let ?c = "GET_DEV_MAJOR (n + r) - first_major n + 1"
  have c: "unat ?c = (unat n + unat r) div 2 ^ 20 - unat n div 2 ^ 20 + 1"
    using g d f by (subst unat_plus_if') (auto simp: unat_sub word_le_nat_alt)
  have fc: "unat (first_major n + ?c) = (unat n + unat r) div 2 ^ 20 + 1"
    using c fm d by (subst unat_plus_if') auto
  then have "\<not> first_major n + ?c > of_nat DEVICE_MAX_NUM" using d by (simp add: word_less_nat_alt)
  then have m: "major_cnt n r = ?c" by (simp add: major_cnt_def Let_def)
  then show "unat (major_cnt n r) = (unat n + unat r) div 2 ^ DEV_MINOR_BITS - unat n div 2 ^ DEV_MINOR_BITS + 1"
    using c by simp
  then show "unat (first_major n) + unat (major_cnt n r) \<le> DEVICE_MAX_NUM" using fm d by simp
qed

lemma covers_numbers:
  assumes "range_ok n r"
  shows "covers k (new_probe p n r data i) \<longleftrightarrow> k \<in> numbers n r"
  using range_ok_words(2) [OF assms] assms
  by (auto simp: covers_def new_probe_def numbers_def word_le_nat_alt range_ok_def word_less_nat_alt)

lemma numbers_bucket:
  assumes "range_ok n r" "k \<in> numbers n r"
  shows "unat (first_major n) \<le> unat (GET_DEV_MAJOR k) mod DEVICE_MAX_NUM \<and>
     unat (GET_DEV_MAJOR k) mod DEVICE_MAX_NUM < unat (first_major n) + unat (major_cnt n r)"
proof -
  have k: "unat n \<le> unat k" "unat k < unat n + unat r" "unat n + unat r < 255 * 2 ^ 20"
    using assms by (auto simp: numbers_def range_ok_def)
  then have "unat n div 2 ^ 20 \<le> unat k div 2 ^ 20" "unat k div 2 ^ 20 \<le> (unat n + unat r) div 2 ^ 20" "unat k div 2 ^ 20 < 255"
    by (auto simp: div_le_mono less_mult_imp_div_less)
  with range_ok_words [OF assms(1)] show ?thesis by (simp add: unat_GET_DEV_MAJOR)
qed

lemma kobj_map_probes:
  assumes "range_ok n r" "isValid dmn" "isValid data" "km_pool s = p # ps" "isValid p"
  defines "m \<equiv> unat (first_major n)" and "c \<equiv> unat (major_cnt n r)"
  shows "\<exists>s'. fwk_kobj_map dmn n r data s = (ER_NORMAL, s') \<and> km_freed s' = km_freed s \<and>
     sprt_probes s' = (sprt_probes s)(dmn := (\<lambda>b. if m \<le> b \<and> b < m + c
         then probe_insert (new_probe p n r data (b - m)) (sprt_probes s dmn b) else sprt_probes s dmn b))"
proof -
  have "m + c \<le> DEVICE_MAX_NUM" using range_ok_words(5) [OF assms(1)] by (simp add: m_def c_def)
  from map_loop [OF this, of dmn "new_probe p n r data" "s\<lparr>km_pool := ps\<rparr>"] assms(2-5)
  show ?thesis by (simp add: fwk_kobj_map_def km_kzalloc_def m_def c_def fun_eq_iff)
qed

section \<open>Properties\<close>

text \<open>C8: After a device has been entered under a range of numbers none of which was taken, looking up any number of the
  range yields the device, every other number is found as before, and taking the range out again restores the map and
  gives the memory of its probes back.\<close>

theorem kobj_map_lookup_unmap:
  assumes "range_ok n r" and "isValid dmn" and "isValid data" and "km_pool s = p # ps" and "isValid p"
    and "\<forall>k \<in> numbers n r. probe_for dmn k s = None"
    and "\<forall>b. \<forall>d \<in> set (sprt_probes s dmn b). \<not> (pr_devNum d = n \<and> pr_range d = r)"
  shows "\<exists>s' s''. fwk_kobj_map dmn n r data s = (ER_NORMAL, s') \<and>
     (\<forall>k. fwk_kobjmap_lookup dmn k s' = (if k \<in> numbers n r then data else fwk_kobjmap_lookup dmn k s)) \<and>
     fwk_kobj_unmap dmn n r s' = (ER_NORMAL, s'') \<and> sprt_probes s'' = sprt_probes s \<and> km_freed s'' = km_freed s @ [p]"
proof -
  let ?m = "unat (first_major n)" and ?c = "unat (major_cnt n r)"
  let ?p = "\<lambda>b. new_probe p n r data (b - ?m)"
  obtain s' where s': "fwk_kobj_map dmn n r data s = (ER_NORMAL, s')" "km_freed s' = km_freed s"
    "sprt_probes s' = (sprt_probes s)(dmn := (\<lambda>b. if ?m \<le> b \<and> b < ?m + ?c
         then probe_insert (?p b) (sprt_probes s dmn b) else sprt_probes s dmn b))"
    using kobj_map_probes [OF assms(1-5)] by blast
  have "fwk_kobjmap_lookup dmn k s' = (if k \<in> numbers n r then data else fwk_kobjmap_lookup dmn k s)" for k
  proof (cases "k \<in> numbers n r")
    case True
    let ?b = "unat (GET_DEV_MAJOR k) mod DEVICE_MAX_NUM"
    have "find (covers k) (sprt_probes s dmn ?b) = None" using assms(6) True by (simp add: probe_for_def)
    then have "probe_for dmn k s' = Some (?p ?b)"
      using numbers_bucket [OF assms(1) True] True s'(3) covers_numbers [OF assms(1)]
      by (simp add: probe_for_def find_probe_insert(2))
    with True assms(2) show ?thesis by (simp add: fwk_kobjmap_lookup_def new_probe_def)
  next
    case False
    then have "probe_for dmn k s' = probe_for dmn k s"
      using s'(3) covers_numbers [OF assms(1)] by (simp add: probe_for_def find_probe_insert(1))
    with False show ?thesis by (simp add: fwk_kobjmap_lookup_def)
  qed
  moreover have "\<exists>s''. fwk_kobj_unmap dmn n r s' = (ER_NORMAL, s'') \<and> sprt_probes s'' = sprt_probes s \<and> km_freed s'' = km_freed s @ [p]"
  proof -
    have rm: "probe_remove n r (sprt_probes s' dmn b) = (Some (?p b), sprt_probes s dmn b)" if "?m \<le> b" "b < ?m + ?c" for b
      using probe_remove_insert [of "sprt_probes s dmn b" "?p b"] assms(7) s'(3) that by (simp add: new_probe_def)
    obtain s2 where s2: "fold (\<lambda>i (rlt, s). let index = (?m + i) mod DEVICE_MAX_NUM;
                 (x, ds) = probe_remove n r (sprt_probes s dmn index)
             in (case rlt of None \<Rightarrow> x | Some _ \<Rightarrow> rlt, set_bucket dmn index ds s)) [0..<?c] (None, s') =
       (if ?c = 0 then None else Some (?p ?m), s2)" "km_freed s2 = km_freed s'"
      "sprt_probes s2 = (sprt_probes s')(dmn := (\<lambda>b. if ?m \<le> b \<and> b < ?m + ?c then sprt_probes s dmn b else sprt_probes s' dmn b))"
      using unmap_loop [OF range_ok_words(5) [OF assms(1)] rm] by blast
    have "?c \<noteq> 0" using range_ok_words(4) [OF assms(1)] by simp
    then show ?thesis
      using s2 s' assms(2) by (simp add: fwk_kobj_unmap_def km_kfree_def new_probe_def fun_eq_iff)
  qed
  ultimately show ?thesis using s'(1) by blast
qed

definition demo_maps :: kobj_maps where
  "demo_maps = \<lparr>sprt_probes = (\<lambda>_ _. []), sprt_fwk_chrdev_map = 64, sprt_fwk_blkdev_map = 128, sprt_fwk_netdev_map = 192,
     cdevs = (\<lambda>_. \<lparr>cdev_devNum = 0, cdev_count = 0, cdev_oprts = 0, cdev_privData = 0\<rparr>), km_pool = [256], km_freed = []\<rparr>"

theorem kobj_map_lookup_unmap_witness:
  "\<exists>s'. fwk_kobj_map 64 (MKE_DEV_NUM 5 0) 2 512 demo_maps = (ER_NORMAL, s') \<and>
     fwk_kobjmap_lookup 64 (MKE_DEV_NUM 5 1) s' = 512 \<and> fwk_kobjmap_lookup 64 (MKE_DEV_NUM 5 2) s' = 0"
proof -
  have "range_ok (MKE_DEV_NUM 5 0) 2" "MKE_DEV_NUM 5 1 \<in> numbers (MKE_DEV_NUM 5 0) 2" "MKE_DEV_NUM 5 2 \<notin> numbers (MKE_DEV_NUM 5 0) 2"
    by (simp_all add: range_ok_def numbers_def MKE_DEV_NUM_def)
  with kobj_map_lookup_unmap [of "MKE_DEV_NUM 5 0" 2 64 512 demo_maps 256 "[]"] show ?thesis
    by (auto simp: demo_maps_def isValid_def IS_ERR_def probe_for_def fwk_kobjmap_lookup_def)
qed

end
