(* ===== verification/File_Table.thy ===== *)
theory File_Table
  imports Kobj_Map Locks "HOL-Library.Monad_Syntax"
begin

text \<open>
  Opening, closing and using device files: \<^verbatim>\<open>platform/fwk_fcntl.c\<close>, \<^verbatim>\<open>platform/fwk_fs.c\<close> and the inode operations of
  \<^verbatim>\<open>platform/fwk_inode.c\<close>, on top of the device-number maps.

  Parameters are the drivers, \<open>drv\<close>, a table from the address of a set of file operations to its callbacks, and the path lookup,
  \<open>find_path\<close>, from a name to the address of its inode.  Results are options: \<open>None\<close> is a null dereference, an access
  outside of an array or a mutex that is never released.
\<close>

section \<open>State\<close>

datatype file_oprts = OpNull | OpChr | OpBlk | OpNet | OpDrv kuaddr_t

record drv_ops =
  dr_open :: "(kuaddr_t \<Rightarrow> int) option"
  dr_write :: "(kuaddr_t \<Rightarrow> nat \<Rightarrow> int) option"
  dr_read :: "(kuaddr_t \<Rightarrow> nat \<Rightarrow> int) option"
  dr_ioctl :: "(kuaddr_t \<Rightarrow> kuint32_t \<Rightarrow> kuaddr_t \<Rightarrow> int) option"

record fwk_inode =
  r_dev :: kuint32_t
  i_foprts :: file_oprts
  i_cdev :: kuaddr_t

record fwk_file =
  f_mode :: kuint32_t
  f_inode :: kuaddr_t
  f_foprts :: file_oprts

record file_sys = kobj_maps +
  inodes :: "kuaddr_t \<Rightarrow> fwk_inode"
  files :: "kuaddr_t \<Rightarrow> fwk_file"
  max_fdarr :: int
  max_fds :: int
  max_fdset :: int
  ref_fdarr :: int
  fds :: "(kuaddr_t \<times> kuaddr_t list) option"
  fd_array :: "kuaddr_t list"
  sgrt_mutex :: mutex_lock
  fs_current :: bool

definition fs_lock :: "file_sys \<Rightarrow> file_sys option" where
  "fs_lock s = map_option (\<lambda>l. s\<lparr>sgrt_mutex := l\<rparr>) (mutex_lock_try_once (fs_current s) (sgrt_mutex s))"

definition fs_unlock :: "file_sys \<Rightarrow> file_sys" where
  "fs_unlock s = s\<lparr>sgrt_mutex := mutex_unlock (fs_current s) (sgrt_mutex s)\<rparr>"

definition fs_kzalloc :: "file_sys \<Rightarrow> kuaddr_t \<times> file_sys" where
  "fs_kzalloc s = (case km_pool s of [] \<Rightarrow> (0, s) | a # as \<Rightarrow> (a, s\<lparr>km_pool := as\<rparr>))"

definition fs_kfree :: "kuaddr_t \<Rightarrow> file_sys \<Rightarrow> file_sys" where
  "fs_kfree p s = s\<lparr>km_freed := km_freed s @ [p]\<rparr>"

section \<open>Inodes and files\<close>

definition fwk_inode_set_ops :: "kuaddr_t \<Rightarrow> kuint32_t \<Rightarrow> kuint32_t \<Rightarrow> file_sys \<Rightarrow> int \<times> file_sys" where
  "fwk_inode_set_ops ino type devNum s =
     (if ino = 0 then (- ER_NOMEM, s)
      else let i = (inodes s ino)\<lparr>r_dev := devNum\<rparr>;
               i = (if type = 1 then i\<lparr>i_foprts := OpChr\<rparr> else if type = 2 then i\<lparr>i_foprts := OpBlk\<rparr>
                    else if type = 3 then i\<lparr>i_foprts := OpNet\<rparr> else i)
           in (ER_NORMAL, s\<lparr>inodes := (inodes s)(ino := i)\<rparr>))"

definition call_driver_open :: "(kuaddr_t \<Rightarrow> drv_ops) \<Rightarrow> kuaddr_t \<Rightarrow> kuaddr_t \<Rightarrow> int option" where
  "call_driver_open drv a f =
     (if a = 0 then None else Some (case dr_open (drv a) of None \<Rightarrow> ER_NORMAL | Some g \<Rightarrow> g f))"

definition fwk_chrdev_open ::
  "(kuaddr_t \<Rightarrow> drv_ops) \<Rightarrow> kuaddr_t \<Rightarrow> kuaddr_t \<Rightarrow> file_sys \<Rightarrow> (int \<times> file_sys) option" where
  "fwk_chrdev_open drv ino f s =
     (let c = fwk_kobjmap_lookup (sprt_fwk_chrdev_map s) (r_dev (inodes s ino)) (kobj_maps.truncate s)
      in if \<not> isValid c then Some (- ER_UNVALID, s)
         else let s = s\<lparr>inodes := (inodes s)(ino := (inodes s ino)\<lparr>i_cdev := c\<rparr>)\<rparr>;
                  s = s\<lparr>files := (files s)(f := (files s f)\<lparr>f_foprts := OpDrv (cdev_oprts (cdevs s c))\<rparr>)\<rparr>
              in map_option (\<lambda>r. (r, s)) (call_driver_open drv (cdev_oprts (cdevs s c)) f))"

definition fwk_chrdev_close :: "kuaddr_t \<Rightarrow> file_sys \<Rightarrow> file_sys" where
  "fwk_chrdev_close ino s = s\<lparr>inodes := (inodes s)(ino := (inodes s ino)\<lparr>i_cdev := 0\<rparr>)\<rparr>"

text \<open>Calling the open and close functions of a set of file operations; those of the block and net devices do nothing, and
  closing in a driver does not touch this state.\<close>

definition call_open ::
  "(kuaddr_t \<Rightarrow> drv_ops) \<Rightarrow> file_oprts \<Rightarrow> kuaddr_t \<Rightarrow> kuaddr_t \<Rightarrow> file_sys \<Rightarrow> (int \<times> file_sys) option" where
  "call_open drv oprts ino f s =
     (case oprts of
        OpNull \<Rightarrow> None
      | OpChr \<Rightarrow> fwk_chrdev_open drv ino f s
      | OpBlk \<Rightarrow> Some (ER_NORMAL, s)
      | OpNet \<Rightarrow> Some (ER_NORMAL, s)
      | OpDrv a \<Rightarrow> map_option (\<lambda>r. (r, s)) (call_driver_open drv a f))"

definition call_close :: "file_oprts \<Rightarrow> kuaddr_t \<Rightarrow> file_sys \<Rightarrow> file_sys option" where
  "call_close oprts ino s =
     (case oprts of
        OpNull \<Rightarrow> None | OpChr \<Rightarrow> Some (fwk_chrdev_close ino s) | OpBlk \<Rightarrow> Some s | OpNet \<Rightarrow> Some s
      | OpDrv a \<Rightarrow> if a = 0 then None else Some s)"

definition fwk_inode_find :: "(string \<Rightarrow> kuaddr_t) \<Rightarrow> string \<Rightarrow> kuaddr_t" where
  "fwk_inode_find find_path nm = (if nm = [] then 0 else find_path nm)"

definition fwk_do_filp_open ::
  "(kuaddr_t \<Rightarrow> drv_ops) \<Rightarrow> (string \<Rightarrow> kuaddr_t) \<Rightarrow> string \<Rightarrow> kuint32_t \<Rightarrow> file_sys \<Rightarrow> (kuaddr_t \<times> file_sys) option" where
  "fwk_do_filp_open drv find_path nm mode s =
     (let ino = fwk_inode_find find_path nm
      in if \<not> isValid ino then Some (0, s)
         else let (f, s) = fs_kzalloc s
              in if \<not> isValid f then Some (0, s)
                 else let oprts = i_foprts (inodes s ino);
                          s = s\<lparr>files := (files s)(f := \<lparr>f_mode = mode, f_inode = ino, f_foprts = oprts\<rparr>)\<rparr>
                      in do { (r, s) \<leftarrow> call_open drv oprts ino f s;
                              if r \<noteq> 0 then Some (0, fs_kfree f s) else Some (f, s) })"

definition fwk_do_filp_close :: "kuaddr_t \<Rightarrow> file_sys \<Rightarrow> file_sys option" where
  "fwk_do_filp_close f s =
     (if \<not> isValid f then Some s
      else let ino = f_inode (files s f)
           in do { s \<leftarrow> call_close (f_foprts (files s f)) ino s;
                   s \<leftarrow> call_close (i_foprts (inodes s ino)) ino s;
                   Some (fs_kfree f s) })"

section \<open>File descriptors\<close>

abbreviation (input) FILE_DESC_NUM_MAX :: nat where "FILE_DESC_NUM_MAX \<equiv> 32"
abbreviation (input) FILE_DESC_EXP_NUM :: nat where "FILE_DESC_EXP_NUM \<equiv> 128"
abbreviation (input) DEVICE_MAJOR_BASE :: nat where "DEVICE_MAJOR_BASE \<equiv> 3"

definition FILE_DESC_OVER_BASE :: "int \<Rightarrow> bool" where
  "FILE_DESC_OVER_BASE fd \<longleftrightarrow> fd < int DEVICE_MAJOR_BASE"

definition fwk_get_fd_available :: "file_sys \<Rightarrow> int" where
  "fwk_get_fd_available s = (if ref_fdarr s < max_fdarr s then ref_fdarr s else - 1)"

definition fwk_fdtable_get :: "file_sys \<Rightarrow> file_sys" where
  "fwk_fdtable_get s = s\<lparr>ref_fdarr := (if ref_fdarr s < max_fdarr s then ref_fdarr s + 1 else max_fdarr s)\<rparr>"

definition fwk_fdtable_put :: "file_sys \<Rightarrow> file_sys" where
  "fwk_fdtable_put s =
     s\<lparr>ref_fdarr := (if ref_fdarr s > int DEVICE_MAJOR_BASE then ref_fdarr s - 1 else int DEVICE_MAJOR_BASE)\<rparr>"

text \<open>The static table before and after \<^verbatim>\<open>fwk_file_system_init\<close>; \<open>stdio\<close> are the addresses of the three standard files.\<close>

definition fwk_file_system_init :: "kuaddr_t list \<Rightarrow> file_sys \<Rightarrow> int \<times> file_sys" where
  "fwk_file_system_init stdio s =
     (let s = (if max_fds s = 0 then s\<lparr>max_fds := int (length (fd_array s))\<rparr> else s);
          s = s\<lparr>max_fdarr := min (max_fds s) (int (length (fd_array s)))\<rparr>
      in if max_fdarr s < int (length stdio) then (- ER_MORE, s)
         else (ER_NORMAL, s\<lparr>fd_array := stdio @ drop (length stdio) (fd_array s), max_fds := max_fdarr s,
                            ref_fdarr := int (length stdio),
                            max_fdset := (if length stdio > 0 then int (length stdio) - 1 else max_fdset s),
                            sgrt_mutex := mutex_init (sgrt_mutex s)\<rparr>))"

definition fwk_get_expand_fdtable :: "file_sys \<Rightarrow> int \<times> file_sys" where
  "fwk_get_expand_fdtable s =
     (let s = (if fds s \<noteq> None then s
               else let (p, s) = fs_kzalloc s
                    in if isValid p then s\<lparr>fds := Some (p, replicate FILE_DESC_EXP_NUM 0)\<rparr> else s)
      in case fds s of
           None \<Rightarrow> (- ER_ERROR, s)
         | Some (p, xs) \<Rightarrow>
             case find (\<lambda>i. xs ! i = 0) [0..<FILE_DESC_EXP_NUM] of
               None \<Rightarrow> (- ER_ERROR, s)
             | Some i \<Rightarrow>
                 let index = int i + max_fdarr s
                 in (index, s\<lparr>max_fdset := max (max_fdset s) index, max_fds := max_fdarr s + int FILE_DESC_EXP_NUM\<rparr>))"

definition fwk_put_expand_fdtable :: "int \<Rightarrow> file_sys \<Rightarrow> file_sys option" where
  "fwk_put_expand_fdtable fd s =
     (case fds s of
        None \<Rightarrow> Some s
      | Some (p, xs) \<Rightarrow>
          if fd < max_fdarr s then Some s
          else let index = nat (fd - max_fdarr s)
               in if length xs \<le> index then None
                  else let s = s\<lparr>fds := Some (p, xs[index := 0]),
                                 max_fdset := (if max_fdset s > fd then max_fdset s else fd - 1)\<rparr>
                       in if index = 0
                          then Some ((fs_kfree p s)\<lparr>fds := None, max_fds := max_fdarr s\<rparr>)
                          else Some s)"

fun fd_scan :: "kuaddr_t list \<Rightarrow> nat list \<Rightarrow> nat option option" where
  "fd_scan arr [] = Some None"
| "fd_scan arr (i # is) = (if length arr \<le> i then None else if arr ! i = 0 then Some (Some i) else fd_scan arr is)"

definition fwk_get_unused_fd_flags :: "file_sys \<Rightarrow> (int \<times> file_sys) option" where
  "fwk_get_unused_fd_flags s =
     (if fwk_get_fd_available s < 0
      then let (r, s) = fwk_get_expand_fdtable s in Some (r, fs_unlock s)
      else do { s \<leftarrow> fs_lock s;
                let index = (if max_fdset s + 1 < max_fdarr s then max_fdset s + 1 else - 1);
                if index \<ge> 0
                then Some (index, fs_unlock (fwk_fdtable_get (s\<lparr>max_fdset := max_fdset s + 1\<rparr>)))
                else do { r \<leftarrow> fd_scan (fd_array s) [0..<nat (max_fdset s)];
                          Some (case r of
                                  None \<Rightarrow> (- ER_MORE, fs_unlock s)
                                | Some i \<Rightarrow> (int i, fs_unlock (fwk_fdtable_get s))) } })"

definition fwk_put_used_fd_flags :: "int \<Rightarrow> file_sys \<Rightarrow> file_sys option" where
  "fwk_put_used_fd_flags fd s =
     (if FILE_DESC_OVER_BASE fd then Some s
      else if fd \<ge> max_fdarr s
      then do { s \<leftarrow> fs_lock s; s \<leftarrow> fwk_put_expand_fdtable fd s; Some (fs_unlock s) }
      else do { s \<leftarrow> fs_lock s;
                let s = s\<lparr>fd_array := (fd_array s)[nat fd := 0],
                          max_fdset := (if max_fdset s > fd then max_fdset s else fd - 1)\<rparr>;
                Some (fs_unlock (fwk_fdtable_put s)) })"

text \<open>The slot of a descriptor, read and written; \<open>None\<close> when the extension does not exist or is too short.\<close>

definition fd_slot :: "int \<Rightarrow> file_sys \<Rightarrow> kuaddr_t option" where
  "fd_slot fd s =
     (if fd \<ge> max_fdarr s
      then case fds s of None \<Rightarrow> None
           | Some (p, xs) \<Rightarrow> let i = nat (fd - max_fdarr s) in if i < length xs then Some (xs ! i) else None
      else if nat fd < length (fd_array s) then Some (fd_array s ! nat fd) else None)"

definition fd_store :: "int \<Rightarrow> kuaddr_t \<Rightarrow> file_sys \<Rightarrow> file_sys" where
  "fd_store fd f s =
     (if fd \<ge> max_fdarr s
      then s\<lparr>fds := map_option (\<lambda>(p, xs). (p, xs[nat (fd - max_fdarr s) := f])) (fds s)\<rparr>
      else s\<lparr>fd_array := (fd_array s)[nat fd := f]\<rparr>)"

definition fwk_fd_install :: "int \<Rightarrow> kuaddr_t \<Rightarrow> file_sys \<Rightarrow> (int \<times> file_sys) option" where
  "fwk_fd_install fd f s =
     (if FILE_DESC_OVER_BASE fd \<or> \<not> isValid f then Some (- ER_UNVALID, s)
      else do { old \<leftarrow> fd_slot fd s;
                if old \<noteq> 0 then Some (- ER_UNVALID, s)
                else do { s \<leftarrow> fs_lock s; Some (ER_NORMAL, fs_unlock (fd_store fd f s)) } })"

definition fwk_fd_to_file :: "int \<Rightarrow> file_sys \<Rightarrow> kuaddr_t option" where
  "fwk_fd_to_file fd s = (if FILE_DESC_OVER_BASE fd then Some 0 else fd_slot fd s)"

definition fwk_do_open ::
  "(kuaddr_t \<Rightarrow> drv_ops) \<Rightarrow> (string \<Rightarrow> kuaddr_t) \<Rightarrow> string \<Rightarrow> kuint32_t \<Rightarrow> file_sys \<Rightarrow> (int \<times> file_sys) option" where
  "fwk_do_open drv find_path dev mode s =
     do { (fd, s) \<leftarrow> fwk_get_unused_fd_flags s;
          if fd < 0 then Some (- ER_FAULT, s)
          else do { (f, s) \<leftarrow> fwk_do_filp_open drv find_path dev mode s;
                    if \<not> isValid f then do { s \<leftarrow> fwk_put_used_fd_flags fd s; Some (- ER_FAULT, s) }
                    else do { (r, s) \<leftarrow> fwk_fd_install fd f s;
                              if r \<noteq> 0
                              then do { s \<leftarrow> fwk_do_filp_close f s; s \<leftarrow> fwk_put_used_fd_flags fd s; Some (- ER_FAULT, s) }
                              else Some (fd, s) } } }"

definition fwk_do_close :: "int \<Rightarrow> file_sys \<Rightarrow> file_sys option" where
  "fwk_do_close fd s =
     do { f \<leftarrow> fwk_fd_to_file fd s;
          if \<not> isValid f then Some s
          else do { s \<leftarrow> fwk_do_filp_close f s; fwk_put_used_fd_flags fd s } }"

text \<open>The driver behind an open file.\<close>

definition file_driver :: "(kuaddr_t \<Rightarrow> drv_ops) \<Rightarrow> kuaddr_t \<Rightarrow> file_sys \<Rightarrow> drv_ops option" where
  "file_driver drv f s =
     (case f_foprts (files s f) of
        OpNull \<Rightarrow> None
      | OpDrv a \<Rightarrow> if a = 0 then None else Some (drv a)
      | _ \<Rightarrow> Some \<lparr>dr_open = None, dr_write = None, dr_read = None, dr_ioctl = None\<rparr>)"

abbreviation (input) O_RDONLY :: kuint32_t where "O_RDONLY \<equiv> 1"
abbreviation (input) O_WRONLY :: kuint32_t where "O_WRONLY \<equiv> 2"

definition fwk_do_write :: "(kuaddr_t \<Rightarrow> drv_ops) \<Rightarrow> int \<Rightarrow> nat \<Rightarrow> file_sys \<Rightarrow> int option" where
  "fwk_do_write drv fd sz s =
     (if fd < 0 then Some (- ER_ERROR)
      else do { f \<leftarrow> fwk_fd_to_file fd s;
                if \<not> isValid f then Some (- ER_ERROR)
                else if f_mode (files s f) AND O_WRONLY \<noteq> O_WRONLY then Some (- ER_FORBID)
                else do { d \<leftarrow> file_driver drv f s;
                          Some (case dr_write d of None \<Rightarrow> - ER_ERROR
                                | Some w \<Rightarrow> if w f sz = 0 then int sz else - ER_ERROR) } })"

definition fwk_do_read :: "(kuaddr_t \<Rightarrow> drv_ops) \<Rightarrow> int \<Rightarrow> nat \<Rightarrow> file_sys \<Rightarrow> int option" where
  "fwk_do_read drv fd sz s =
     (if fd < 0 then Some (- ER_ERROR)
      else do { f \<leftarrow> fwk_fd_to_file fd s;
                if \<not> isValid f then Some (- ER_ERROR)
                else if f_mode (files s f) AND O_RDONLY \<noteq> O_RDONLY then Some (- ER_FORBID)
                else do { d \<leftarrow> file_driver drv f s;
                          Some (case dr_read d of None \<Rightarrow> - ER_ERROR
                                | Some r \<Rightarrow> let v = r f sz in if v = 0 then int sz else if v > 0 then v else - ER_ERROR) } })"

definition fwk_do_ioctl :: "(kuaddr_t \<Rightarrow> drv_ops) \<Rightarrow> int \<Rightarrow> kuint32_t \<Rightarrow> kuaddr_t \<Rightarrow> file_sys \<Rightarrow> int option" where
  "fwk_do_ioctl drv fd request args s =
     (if fd < 0 then Some (- ER_ERROR)
      else do { f \<leftarrow> fwk_fd_to_file fd s;
                if \<not> isValid f then Some (- ER_ERROR)
                else do { d \<leftarrow> file_driver drv f s;
                          Some (case dr_ioctl d of None \<Rightarrow> - ER_ERROR
                                | Some c \<Rightarrow> if c f request args = 0 then ER_NORMAL else - ER_ERROR) } })"

section \<open>The invariant of the descriptor table\<close>

definition fd_ok :: "file_sys \<Rightarrow> bool" where
  "fd_ok s \<longleftrightarrow> length (fd_array s) = FILE_DESC_NUM_MAX \<and> max_fdarr s = int FILE_DESC_NUM_MAX \<and> 2 \<le> max_fdset s \<and>
     (\<forall>i < DEVICE_MAJOR_BASE. fd_array s ! i \<noteq> 0) \<and>
     (\<forall>i < FILE_DESC_NUM_MAX. max_fdset s < int i \<longrightarrow> fd_array s ! i = 0) \<and>
     ref_fdarr s = int (length (filter (\<lambda>f. f \<noteq> 0) (fd_array s))) \<and>
     \<not> mutex_is_locked (sgrt_mutex s) \<and> fs_current s"

lemma fs_lock_free:
  assumes "\<not> mutex_is_locked (sgrt_mutex s)" "fs_current s"
  shows "\<exists>l. fs_lock s = Some (s\<lparr>sgrt_mutex := l\<rparr>) \<and> counter (mx_atc l) = 1"
  using assms
  by (auto simp: fs_lock_def mutex_lock_try_once_def mutex_is_locked_def atomic_defs)

lemma fs_unlock_free:
  assumes "counter (mx_atc (sgrt_mutex s)) = 1" "fs_current s"
  shows "\<exists>l. fs_unlock s = s\<lparr>sgrt_mutex := l\<rparr> \<and> \<not> mutex_is_locked l"
proof (intro exI conjI)
  show "fs_unlock s = s\<lparr>sgrt_mutex := mutex_unlock (fs_current s) (sgrt_mutex s)\<rparr>" by (simp add: fs_unlock_def)
  show "\<not> mutex_is_locked (mutex_unlock (fs_current s) (sgrt_mutex s))"
    using assms by (simp add: mutex_unlock_def mutex_is_locked_def atomic_defs)
qed

lemma filter_update:
  assumes "i < length xs"
  shows "xs ! i = 0 \<Longrightarrow> f \<noteq> 0 \<Longrightarrow>
      length (filter (\<lambda>f. f \<noteq> 0) (xs[i := f])) = Suc (length (filter (\<lambda>f. f \<noteq> (0 :: kuaddr_t)) xs))"
    and "xs ! i \<noteq> 0 \<Longrightarrow> Suc (length (filter (\<lambda>f. f \<noteq> 0) (xs[i := 0]))) = length (filter (\<lambda>f. f \<noteq> (0 :: kuaddr_t)) xs)"
proof -
  have u: "xs[i := f] = take i xs @ f # drop (Suc i) xs" for f
    using assms by (rule upd_conv_take_nth_drop)
  have x: "length (filter P xs) = length (filter P (take i xs @ xs ! i # drop (Suc i) xs))" for P
    by (rule arg_cong [OF id_take_nth_drop [OF assms], of "\<lambda>xs. length (filter P xs)"])
  show "xs ! i = 0 \<Longrightarrow> f \<noteq> 0 \<Longrightarrow> length (filter (\<lambda>f. f \<noteq> 0) (xs[i := f])) = Suc (length (filter (\<lambda>f. f \<noteq> (0 :: kuaddr_t)) xs))" "xs ! i \<noteq> 0 \<Longrightarrow> Suc (length (filter (\<lambda>f. f \<noteq> 0) (xs[i := 0]))) = length (filter (\<lambda>f. f \<noteq> (0 :: kuaddr_t)) xs)"
    using x [of "\<lambda>f. f \<noteq> 0"] by (simp_all add: u)
qed

lemma filter_free:
  assumes "i < length xs" "xs ! i = (0 :: kuaddr_t)"
  shows "length (filter (\<lambda>f. f \<noteq> 0) xs) < length xs"
  using nth_mem [OF assms(1)] assms(2) by (intro length_filter_less [of 0]) auto

lemma fd_scan_finds:
  assumes "a \<le> j" "j < n" "j < length arr" "arr ! j = 0"
  shows "\<exists>i. i \<le> j \<and> arr ! i = 0 \<and> fd_scan arr [a..<n] = Some (Some i)"
  using assms
proof (induction "j - a" arbitrary: a)
  case 0
  then show ?case by (auto simp: upt_conv_Cons)
next
  case (Suc k)
  then have "\<exists>i. i \<le> j \<and> arr ! i = 0 \<and> fd_scan arr [Suc a..<n] = Some (Some i)" by (intro Suc.hyps) auto
  with Suc.prems Suc.hyps(2) show ?case by (auto simp: upt_conv_Cons)
qed

text \<open>A free descriptor is handed out.\<close>

lemma get_unused_fd:
  assumes ok: "fd_ok s" and free: "max_fdset s < 31 \<or> (\<exists>i < 32. int i < max_fdset s \<and> fd_array s ! i = 0)"
  shows "\<exists>i l M. fwk_get_unused_fd_flags s = Some (int i, s\<lparr>max_fdset := M, ref_fdarr := ref_fdarr s + 1, sgrt_mutex := l\<rparr>) \<and>
     3 \<le> i \<and> i < 32 \<and> fd_array s ! i = 0 \<and> int i \<le> M \<and> max_fdset s \<le> M \<and> \<not> mutex_is_locked l"
proof -
  have len: "length (fd_array s) = 32" "max_fdarr s = 32" "2 \<le> max_fdset s" and cur: "fs_current s" "\<not> mutex_is_locked (sgrt_mutex s)"
    and ref: "ref_fdarr s = int (length (filter (\<lambda>f. f \<noteq> 0) (fd_array s)))"
    and std: "\<And>i. i < 3 \<Longrightarrow> fd_array s ! i \<noteq> 0"
    and top: "\<And>i. i < 32 \<Longrightarrow> max_fdset s < int i \<Longrightarrow> fd_array s ! i = 0"
    using ok by (auto simp: fd_ok_def)
  obtain l where l: "fs_lock s = Some (s\<lparr>sgrt_mutex := l\<rparr>)" "counter (mx_atc l) = 1" using fs_lock_free cur by blast
  have unl: "\<exists>l'. fs_unlock (s\<lparr>sgrt_mutex := l, max_fdset := M, ref_fdarr := R\<rparr>) = s\<lparr>max_fdset := M, ref_fdarr := R, sgrt_mutex := l'\<rparr>
      \<and> \<not> mutex_is_locked l'" for M R
    using fs_unlock_free [of "s\<lparr>sgrt_mutex := l, max_fdset := M, ref_fdarr := R\<rparr>"] l(2) cur by auto
  have avail: "0 \<le> fwk_get_fd_available s \<and> ref_fdarr s < max_fdarr s" if "i < 32" "fd_array s ! i = 0" for i
    using filter_free [of i "fd_array s"] that len ref by (simp add: fwk_get_fd_available_def)
  show ?thesis
  proof (cases "max_fdset s < 31")
    case True
    let ?i = "nat (max_fdset s + 1)"
    have i: "?i < 32" "fd_array s ! ?i = 0" "3 \<le> ?i" "int ?i = max_fdset s + 1" using True len top [of ?i] by auto
    obtain l' where l': "fs_unlock (s\<lparr>sgrt_mutex := l, max_fdset := max_fdset s + 1, ref_fdarr := ref_fdarr s + 1\<rparr>) =
        s\<lparr>max_fdset := max_fdset s + 1, ref_fdarr := ref_fdarr s + 1, sgrt_mutex := l'\<rparr>" "\<not> mutex_is_locked l'"
      using unl by blast
    have "fwk_get_unused_fd_flags s = Some (int ?i, s\<lparr>max_fdset := max_fdset s + 1, ref_fdarr := ref_fdarr s + 1, sgrt_mutex := l'\<rparr>)"
      using avail [OF i(1,2)] l l' len True i(4) by (simp add: fwk_get_unused_fd_flags_def fwk_fdtable_get_def Let_def)
    with i l'(2) show ?thesis by (metis order_refl zle_add1_eq_le less_add_one order_less_imp_le)
  next
    case False
    then obtain j where j: "j < 32" "int j < max_fdset s" "fd_array s ! j = 0" using free by auto
    then obtain i where "i \<le> j" "fd_array s ! i = 0" "fd_scan (fd_array s) [0..<nat (max_fdset s)] = Some (Some i)"
      using fd_scan_finds [of 0 j "nat (max_fdset s)" "fd_array s"] len by (auto simp: zless_nat_eq_int_zless)
    with j have i: "int i < max_fdset s" "i < 32" "fd_array s ! i = 0"
        "fd_scan (fd_array s) [0..<nat (max_fdset s)] = Some (Some i)" by auto
    have "3 \<le> i" using std [of i] i(3) by (cases "i < 3") auto
    obtain l' where l': "fs_unlock (s\<lparr>sgrt_mutex := l, max_fdset := max_fdset s, ref_fdarr := ref_fdarr s + 1\<rparr>) =
        s\<lparr>max_fdset := max_fdset s, ref_fdarr := ref_fdarr s + 1, sgrt_mutex := l'\<rparr>" "\<not> mutex_is_locked l'"
      using unl by blast
    have "fwk_get_unused_fd_flags s = Some (int i, s\<lparr>max_fdset := max_fdset s, ref_fdarr := ref_fdarr s + 1, sgrt_mutex := l'\<rparr>)"
      using avail [OF i(2,3)] l l' len False i by (simp add: fwk_get_unused_fd_flags_def fwk_fdtable_get_def)
    with i l'(2) \<open>3 \<le> i\<close> show ?thesis by (metis order_refl order_less_imp_le)
  qed
qed

lemma put_used_fd:
  assumes ok: "fd_ok s" and i: "3 \<le> i" "i < 32" "fd_array s ! i \<noteq> 0"
  shows "\<exists>s'. fwk_put_used_fd_flags (int i) s = Some s' \<and> fd_ok s' \<and> fd_array s' = (fd_array s)[i := 0] \<and>
     fds s' = fds s \<and> km_freed s' = km_freed s \<and> max_fdset s' = (if max_fdset s > int i then max_fdset s else int i - 1)"
proof -
  define M where "M = (if max_fdset s > int i then max_fdset s else int i - 1)"
  have len: "length (fd_array s) = 32" "max_fdarr s = 32" "2 \<le> max_fdset s" and cur: "fs_current s" "\<not> mutex_is_locked (sgrt_mutex s)"
    and ref: "ref_fdarr s = int (length (filter (\<lambda>f. f \<noteq> 0) (fd_array s)))"
    and std: "\<And>i. i < 3 \<Longrightarrow> fd_array s ! i \<noteq> 0"
    and top: "\<And>i. i < 32 \<Longrightarrow> max_fdset s < int i \<Longrightarrow> fd_array s ! i = 0"
    using ok by (auto simp: fd_ok_def)
  obtain l where l: "fs_lock s = Some (s\<lparr>sgrt_mutex := l\<rparr>)" "counter (mx_atc l) = 1" using fs_lock_free cur by blast
  have cnt: "Suc (length (filter (\<lambda>f. f \<noteq> 0) ((fd_array s)[i := 0]))) = length (filter (\<lambda>f. f \<noteq> 0) (fd_array s))"
    using filter_update(2) [of i "fd_array s"] i len by simp
  have "3 \<le> length (filter (\<lambda>f. f \<noteq> 0) (take 3 ((fd_array s)[i := 0])))"
  proof -
    have "filter (\<lambda>f. f \<noteq> 0) (take 3 ((fd_array s)[i := 0])) = take 3 ((fd_array s)[i := 0])"
      using std i len by (auto simp: filter_id_conv in_set_conv_nth)
    then show ?thesis using len by simp
  qed
  also have "\<dots> \<le> length (filter (\<lambda>f. f \<noteq> 0) ((fd_array s)[i := 0]))"
    by (metis append_take_drop_id filter_append length_append le_add1)
  finally have ref3: "ref_fdarr s > 3" using cnt ref by simp
  let ?s = "s\<lparr>sgrt_mutex := l, fd_array := (fd_array s)[i := 0], max_fdset := M, ref_fdarr := ref_fdarr s - 1\<rparr>"
  obtain l' where l': "fs_unlock ?s = ?s\<lparr>sgrt_mutex := l'\<rparr>" "\<not> mutex_is_locked l'"
    using fs_unlock_free [of ?s] l(2) cur by auto
  have e: "fwk_put_used_fd_flags (int i) s = Some (?s\<lparr>sgrt_mutex := l'\<rparr>)"
    using l(1) l'(1) i len ref3
    by (cases "max_fdset s > int i") (simp_all add: fwk_put_used_fd_flags_def FILE_DESC_OVER_BASE_def fwk_fdtable_put_def M_def)
  have "fd_ok (?s\<lparr>sgrt_mutex := l'\<rparr>)"
    using ok l'(2) cnt i top len by (auto simp: fd_ok_def nth_list_update M_def split: if_splits)
  with e show ?thesis by (auto simp: M_def)
qed

lemma install_fd:
  assumes len: "length (fd_array s) = 32" "max_fdarr s = 32" and cur: "fs_current s" "\<not> mutex_is_locked (sgrt_mutex s)"
    and i: "3 \<le> i" "i < 32" "fd_array s ! i = 0" and f: "isValid f"
  shows "\<exists>l. fwk_fd_install (int i) f s = Some (ER_NORMAL, s\<lparr>fd_array := (fd_array s)[i := f], sgrt_mutex := l\<rparr>) \<and>
     \<not> mutex_is_locked l"
proof -
  obtain l where l: "fs_lock s = Some (s\<lparr>sgrt_mutex := l\<rparr>)" "counter (mx_atc l) = 1" using fs_lock_free cur by blast
  let ?s = "s\<lparr>sgrt_mutex := l, fd_array := (fd_array s)[i := f]\<rparr>"
  obtain l' where l': "fs_unlock ?s = ?s\<lparr>sgrt_mutex := l'\<rparr>" "\<not> mutex_is_locked l'"
    using fs_unlock_free [of ?s] l(2) cur by auto
  with l(1) i f len show ?thesis
    by (auto simp: fwk_fd_install_def FILE_DESC_OVER_BASE_def fd_slot_def fd_store_def)
qed

text \<open>The path of a character device and its driver.\<close>

definition chr_path :: "(kuaddr_t \<Rightarrow> drv_ops) \<Rightarrow> (string \<Rightarrow> kuaddr_t) \<Rightarrow> string \<Rightarrow> kuaddr_t \<Rightarrow> kuaddr_t \<Rightarrow> file_sys \<Rightarrow> bool" where
  "chr_path drv find_path dev ino a s \<longleftrightarrow>
     dev \<noteq> [] \<and> find_path dev = ino \<and> isValid ino \<and> i_foprts (inodes s ino) = OpChr \<and>
     (let c = fwk_kobjmap_lookup (sprt_fwk_chrdev_map s) (r_dev (inodes s ino)) (kobj_maps.truncate s)
      in isValid c \<and> cdev_oprts (cdevs s c) = a) \<and>
     a \<noteq> 0 \<and> (\<forall>g f. dr_open (drv a) = Some g \<longrightarrow> g f = 0)"

lemma filp_open_chr:
  assumes "chr_path drv find_path dev ino a s" "km_pool s = f # ps" "isValid f"
  shows "\<exists>i'. fwk_do_filp_open drv find_path dev mode s =
     Some (f, s\<lparr>km_pool := ps, files := (files s)(f := \<lparr>f_mode = mode, f_inode = ino, f_foprts = OpDrv a\<rparr>), inodes := i'\<rparr>) \<and>
     i_foprts (i' ino) = OpChr"
proof -
  let ?c = "fwk_kobjmap_lookup (sprt_fwk_chrdev_map s) (r_dev (inodes s ino)) (kobj_maps.truncate s)"
  have t: "kobj_maps.truncate (s\<lparr>km_pool := ps, files := fs\<rparr>) = (kobj_maps.truncate s)\<lparr>km_pool := ps\<rparr>" for fs
    by (simp add: kobj_maps.truncate_def)
  have k: "fwk_kobjmap_lookup d n (x\<lparr>km_pool := ps\<rparr>) = fwk_kobjmap_lookup d n x" for d n and x :: kobj_maps
    by (simp add: fwk_kobjmap_lookup_def probe_for_def)
  have "call_driver_open drv a f = Some ER_NORMAL"
    using assms(1) by (auto simp: chr_path_def call_driver_open_def split: option.splits)
  then show ?thesis
    using assms
    by (intro exI [of _ "(inodes s)(ino := (inodes s ino)\<lparr>i_cdev := ?c\<rparr>)"])
       (simp add: chr_path_def Let_def fwk_do_filp_open_def fwk_inode_find_def fs_kzalloc_def call_open_def
          fwk_chrdev_open_def t k)
qed

section \<open>Properties\<close>

lemma open_chr_device:
  assumes "fd_ok s" and "max_fdset s < 31 \<or> (\<exists>i < 32. int i < max_fdset s \<and> fd_array s ! i = 0)"
    and "chr_path drv find_path dev ino a s" and "km_pool s = f # ps" and "isValid f"
    and "mode AND O_WRONLY = O_WRONLY" and "dr_write (drv a) = Some w"
  shows "\<exists>i s' s''. fwk_do_open drv find_path dev mode s = Some (int i, s') \<and> 3 \<le> i \<and> i < 32 \<and> fd_ok s' \<and>
     fd_array s ! i = 0 \<and> fd_array s' = (fd_array s)[i := f] \<and>
     fwk_do_write drv (int i) n s' = Some (if w f n = 0 then int n else - ER_ERROR) \<and>
     fwk_do_close (int i) s' = Some s'' \<and> fd_ok s'' \<and> fd_array s'' = fd_array s \<and> km_freed s'' = km_freed s @ [f]"
proof -
  obtain i l M where g: "fwk_get_unused_fd_flags s = Some (int i, s\<lparr>max_fdset := M, ref_fdarr := ref_fdarr s + 1, sgrt_mutex := l\<rparr>)"
     "3 \<le> i" "i < 32" "fd_array s ! i = 0" "int i \<le> M" "max_fdset s \<le> M" "\<not> mutex_is_locked l"
    using get_unused_fd [OF assms(1,2)] by blast
  let ?s1 = "s\<lparr>max_fdset := M, ref_fdarr := ref_fdarr s + 1, sgrt_mutex := l\<rparr>"
  have "chr_path drv find_path dev ino a ?s1" using assms(3) by (simp add: chr_path_def kobj_maps.truncate_def)
  then obtain i' where o: "fwk_do_filp_open drv find_path dev mode ?s1 =
      Some (f, ?s1\<lparr>km_pool := ps, files := (files s)(f := \<lparr>f_mode = mode, f_inode = ino, f_foprts = OpDrv a\<rparr>), inodes := i'\<rparr>)"
     "i_foprts (i' ino) = OpChr"
    using filp_open_chr [of drv find_path dev ino a ?s1 f ps mode] assms(4,5) by auto
  let ?s2 = "?s1\<lparr>km_pool := ps, files := (files s)(f := \<lparr>f_mode = mode, f_inode = ino, f_foprts = OpDrv a\<rparr>), inodes := i'\<rparr>"
  have ok: "length (fd_array s) = 32" "max_fdarr s = 32" "fs_current s" using assms(1) by (auto simp: fd_ok_def)
  obtain l2 where l2: "fwk_fd_install (int i) f ?s2 = Some (ER_NORMAL, ?s2\<lparr>fd_array := (fd_array s)[i := f], sgrt_mutex := l2\<rparr>)"
     "\<not> mutex_is_locked l2"
    using install_fd [of ?s2 i f] ok g assms(5) by auto
  let ?s3 = "?s2\<lparr>fd_array := (fd_array s)[i := f], sgrt_mutex := l2\<rparr>"
  have f0: "f \<noteq> 0" using assms(5) by (simp add: isValid_def)
  have open3: "fwk_do_open drv find_path dev mode s = Some (int i, ?s3)"
    using g(1) o(1) l2(1) assms(5) by (simp add: fwk_do_open_def)
  have ok3: "fd_ok ?s3"
    using assms(1) filter_update(1) [of i "fd_array s" f] g f0 l2(2) by (auto simp: fd_ok_def nth_list_update)
  have fl: "fwk_fd_to_file (int i) ?s3 = Some f"
    using g ok by (simp add: fwk_fd_to_file_def FILE_DESC_OVER_BASE_def fd_slot_def)
  have wr: "fwk_do_write drv (int i) n ?s3 = Some (if w f n = 0 then int n else - ER_ERROR)"
    using fl assms(3,5-7) by (simp add: fwk_do_write_def file_driver_def chr_path_def)
  let ?s4 = "fs_kfree f (fwk_chrdev_close ino ?s3)"
  have close: "fwk_do_filp_close f ?s3 = Some ?s4"
    using assms(3,5) o(2) by (simp add: fwk_do_filp_close_def call_close_def chr_path_def)
  have ok4: "fd_ok ?s4" using ok3 by (simp add: fd_ok_def fs_kfree_def fwk_chrdev_close_def)
  have a4: "fd_array ?s4 = (fd_array s)[i := f]" "km_freed ?s4 = km_freed s @ [f]" by (simp_all add: fs_kfree_def fwk_chrdev_close_def)
  obtain s'' where s'': "fwk_put_used_fd_flags (int i) ?s4 = Some s''" "fd_ok s''" "fd_array s'' = (fd_array ?s4)[i := 0]" "km_freed s'' = km_freed ?s4"
    using put_used_fd [OF ok4 g(2,3)] a4 f0 g ok by auto
  have "fwk_do_close (int i) ?s3 = Some s''" using fl close s''(1) assms(5) by (simp add: fwk_do_close_def)
  moreover have "fd_array s'' = fd_array s" using s''(3) a4(1) g(4) by (metis list_update_id list_update_overwrite)
  moreover have "km_freed s'' = km_freed s @ [f]" "fd_array ?s3 = (fd_array s)[i := f]" using s''(4) a4(2) by simp_all
  ultimately show ?thesis using open3 ok3 wr g(2-4) s''(2) by blast
qed

text \<open>C5: Opening the path of a character device reaches its driver: with a free descriptor the call returns one that was
  unused, the other descriptors keep their files, the new file carries the operations of the device entered under the
  number of the inode, writing through the descriptor calls that driver, and closing it empties the descriptor again and gives
  the file back; the table stays well-formed.\<close>

theorem open_reaches_driver:
  assumes "fd_ok s" and "max_fdset s < 31 \<or> (\<exists>i < 32. int i < max_fdset s \<and> fd_array s ! i = 0)"
    and "chr_path drv find_path dev ino a s" and "km_pool s = f # ps" and "isValid f"
    and "mode AND O_WRONLY = O_WRONLY" and "dr_write (drv a) = Some w"
  shows "\<exists>i s' s''. fwk_do_open drv find_path dev mode s = Some (int i, s') \<and> 3 \<le> i \<and> i < 32 \<and> fd_ok s' \<and>
     fd_array s ! i = 0 \<and> fd_array s' = (fd_array s)[i := f] \<and>
     fwk_do_write drv (int i) n s' = Some (if w f n = 0 then int n else - ER_ERROR) \<and>
     fwk_do_close (int i) s' = Some s'' \<and> fd_ok s'' \<and> fd_array s'' = fd_array s \<and> km_freed s'' = km_freed s @ [f]"
  using assms by (rule open_chr_device)

definition demo_fs :: file_sys where
  "demo_fs = kobj_maps.extend (demo_maps\<lparr>sprt_probes := (\<lambda>_. (\<lambda>_. [])(5 := [new_probe 1024 (MKE_DEV_NUM 5 0) 1 512 0])),
       cdevs := (\<lambda>_. \<lparr>cdev_devNum = MKE_DEV_NUM 5 0, cdev_count = 1, cdev_oprts = 768, cdev_privData = 0\<rparr>)\<rparr>)
     \<lparr>inodes = (\<lambda>_. \<lparr>r_dev = MKE_DEV_NUM 5 0, i_foprts = OpChr, i_cdev = 0\<rparr>),
      files = (\<lambda>_. \<lparr>f_mode = 0, f_inode = 0, f_foprts = OpNull\<rparr>),
      max_fdarr = 32, max_fds = 32, max_fdset = 2, ref_fdarr = 3, fds = None,
      fd_array = [1, 2, 3] @ replicate 29 0, sgrt_mutex = \<lparr>mx_atc = \<lparr>counter = 0\<rparr>\<rparr>, fs_current = True\<rparr>"

definition demo_drv :: "kuaddr_t \<Rightarrow> drv_ops" where
  "demo_drv a = \<lparr>dr_open = None, dr_write = Some (\<lambda>_ _. 0), dr_read = None, dr_ioctl = None\<rparr>"

lemma demo_fs_ok: "fd_ok demo_fs"
  by (auto simp: fd_ok_def demo_fs_def kobj_maps.extend_def mutex_is_locked_def nth_append nth_Cons')

theorem open_reaches_driver_witness:
  "\<exists>i s'. fwk_do_open demo_drv (\<lambda>_. 640) ''dev'' 2 demo_fs = Some (int i, s') \<and> fd_ok s' \<and>
     fwk_do_write demo_drv (int i) 7 s' = Some 7"
proof -
  have p: "chr_path demo_drv (\<lambda>_. 640) ''dev'' 640 768 demo_fs"
    by (simp add: chr_path_def demo_drv_def demo_fs_def demo_maps_def kobj_maps.extend_def kobj_maps.truncate_def isValid_def IS_ERR_def
        fwk_kobjmap_lookup_def probe_for_def covers_def new_probe_def GET_DEV_MAJOR_def MKE_DEV_NUM_def)
  have "max_fdset demo_fs < 31" "km_pool demo_fs = [256]" "isValid 256" "dr_write (demo_drv 768) = Some (\<lambda>_ _. 0)"
    by (simp_all add: demo_fs_def demo_maps_def kobj_maps.extend_def isValid_def IS_ERR_def demo_drv_def)
  with open_reaches_driver [OF demo_fs_ok _ p, of 256 "[]" 2 "\<lambda>_ _. 0" 7] show ?thesis by auto
qed

text \<open>Giving back the first descriptor of the extension frees the whole extension: any other extended descriptor that
  is still open loses its file and using it dereferences the null pointer.\<close>

lemma closing_fd_32_drops_extension:
  assumes "fd_ok s" and "fds s = Some (p, xs)" and "length xs = FILE_DESC_EXP_NUM" and "j < FILE_DESC_EXP_NUM" and "xs ! j = f"
  shows "fd_slot (32 + int j) s = Some f \<and>
     (\<exists>s'. fwk_put_used_fd_flags 32 s = Some s' \<and> p \<in> set (km_freed s') \<and> fd_slot (32 + int j) s' = None)"
proof -
  have ok: "max_fdarr s = 32" "fs_current s" "\<not> mutex_is_locked (sgrt_mutex s)" using assms(1) by (auto simp: fd_ok_def)
  obtain l where l: "fs_lock s = Some (s\<lparr>sgrt_mutex := l\<rparr>)" using fs_lock_free ok by blast
  have neq: "xs \<noteq> []" using assms(3) by auto
  have "fd_slot (32 + int j) s = Some f" using assms ok by (simp add: fd_slot_def)
  moreover have "\<exists>s'. fwk_put_used_fd_flags 32 s = Some s' \<and> p \<in> set (km_freed s') \<and> fd_slot (32 + int j) s' = None"
    using l ok assms(2-4) neq
    by (simp add: fwk_put_used_fd_flags_def FILE_DESC_OVER_BASE_def fwk_put_expand_fdtable_def fs_kfree_def fs_unlock_def fd_slot_def)
  ultimately show ?thesis ..
qed

lemma closing_fd_32_drops_extension_witness:
  "\<exists>s s'. fd_ok s \<and> fd_slot 33 s = Some 640 \<and> fwk_put_used_fd_flags 32 s = Some s' \<and> fd_slot 33 s' = None"
proof -
  let ?s = "demo_fs\<lparr>fds := Some (2048, 576 # 640 # replicate 126 0)\<rparr>"
  have "fd_ok ?s" using demo_fs_ok by (simp add: fd_ok_def)
  with closing_fd_32_drops_extension [of ?s 2048 "576 # 640 # replicate 126 0" 1 640] show ?thesis by auto
qed

text \<open>A free descriptor can become unreachable: when all standard descriptors and the first extended one are in use and
  31 and then 32 are given back, descriptor 31 is free but asking for a descriptor fails.\<close>

lemma fd_31_unreachable:
  assumes "fd_ok s" and "\<forall>i < 32. fd_array s ! i \<noteq> 0" and "max_fdset s = 32" and "fds s = Some (p, xs)" and "xs \<noteq> []"
  shows "\<exists>s1 s2 s3. fwk_put_used_fd_flags 31 s = Some s1 \<and> fwk_put_used_fd_flags 32 s1 = Some s2 \<and>
     fd_slot 31 s2 = Some 0 \<and> fwk_get_unused_fd_flags s2 = Some (- ER_MORE, s3)"
proof -
  obtain s1 where s1: "fwk_put_used_fd_flags 31 s = Some s1" "fd_ok s1" "fd_array s1 = (fd_array s)[31 := 0]" "fds s1 = fds s" "max_fdset s1 = 32"
    using put_used_fd [OF assms(1), of 31] assms(2,3) by auto
  have ok: "max_fdarr s1 = 32" "fs_current s1" "\<not> mutex_is_locked (sgrt_mutex s1)" "length (fd_array s) = 32"
    using s1(2) assms(1) by (auto simp: fd_ok_def)
  obtain l where l: "fs_lock s1 = Some (s1\<lparr>sgrt_mutex := l\<rparr>)" "counter (mx_atc l) = 1" using fs_lock_free ok by blast
  let ?t = "s1\<lparr>sgrt_mutex := l, max_fdset := 31, km_freed := km_freed s1 @ [p], fds := None, max_fds := 32\<rparr>"
  obtain l' where l': "fs_unlock ?t = ?t\<lparr>sgrt_mutex := l'\<rparr>" "\<not> mutex_is_locked l'"
    using fs_unlock_free [of ?t] l(2) ok by auto
  let ?s2 = "?t\<lparr>sgrt_mutex := l'\<rparr>"
  have s2: "fwk_put_used_fd_flags 32 s1 = Some ?s2"
    using l(1) l'(1) ok s1(4,5) assms(4,5)
    by (simp add: fwk_put_used_fd_flags_def FILE_DESC_OVER_BASE_def fwk_put_expand_fdtable_def fs_kfree_def)
  have "fd_scan (fd_array s1) [0..<31] = Some None"
  proof -
    have "\<forall>i \<in> set is. i < 31 \<Longrightarrow> fd_scan (fd_array s1) is = Some None" for "is"
      using s1(3) assms(2) ok(4) by (induction "is") (auto simp: nth_list_update)
    then show ?thesis by simp
  qed
  moreover have "ref_fdarr s1 < 32"
    using filter_free [of 31 "fd_array s1"] s1(2,3) ok(4) by (auto simp: fd_ok_def)
  moreover obtain l2 where "fs_lock ?s2 = Some (?s2\<lparr>sgrt_mutex := l2\<rparr>)" using fs_lock_free [of ?s2] ok l'(2) by auto
  ultimately have "\<exists>s3. fwk_get_unused_fd_flags ?s2 = Some (- ER_MORE, s3)"
    using ok s1(2) by (simp add: fwk_get_unused_fd_flags_def fwk_get_fd_available_def fd_ok_def Let_def)
  moreover have "fd_slot 31 ?s2 = Some 0" using ok s1(3) by (simp add: fd_slot_def)
  ultimately show ?thesis using s1(1) s2 by blast
qed

lemma fd_31_unreachable_witness:
  "\<exists>s s1 s2 s3. fd_ok s \<and> fwk_put_used_fd_flags 31 s = Some s1 \<and> fwk_put_used_fd_flags 32 s1 = Some s2 \<and>
     fd_slot 31 s2 = Some 0 \<and> fwk_get_unused_fd_flags s2 = Some (- ER_MORE, s3)"
proof -
  let ?s = "demo_fs\<lparr>fd_array := replicate 32 512, ref_fdarr := 32, max_fdset := 32, fds := Some (2048, 576 # replicate 127 0)\<rparr>"
  have "fd_ok ?s" using demo_fs_ok by (simp add: fd_ok_def)
  with fd_31_unreachable [of ?s 2048 "576 # replicate 127 0"] show ?thesis by auto
qed

end
