(* ===== verification/Keyed_Store.thy ===== *)
theory Keyed_Store
  imports Prelude
begin

text \<open>
  The interface of a store that binds keys to objects and keeps the first binding of a key: what a lookup
  returns after an addition or a deletion.  Memory may run out; \<open>room n\<close> says that at least \<open>n\<close> additions of keys in \<open>K\<close> will find
  memory, and \<open>V\<close> are the objects that can be stored.  For any implementation, adding a sequence of fresh bindings makes every one of them found.
\<close>

locale keyed_store =
  fixes K :: "'k set"
    and V :: "'v set"
    and ok :: "'s \<Rightarrow> bool"
    and room :: "nat \<Rightarrow> 's \<Rightarrow> bool"
    and look_up :: "'s \<Rightarrow> 'k \<Rightarrow> 'v option"
    and add :: "'k \<Rightarrow> 'v \<Rightarrow> 's \<Rightarrow> 's"
    and del :: "'k \<Rightarrow> 's \<Rightarrow> 's"
  assumes add_ok: "ok s \<Longrightarrow> ok (add k v s)"
    and del_ok: "ok s \<Longrightarrow> ok (del k s)"
    and add_room: "ok s \<Longrightarrow> k \<in> K \<Longrightarrow> room (Suc n) s \<Longrightarrow> room n (add k v s)"
    and add_other: "ok s \<Longrightarrow> k' \<noteq> k \<Longrightarrow> look_up (add k v s) k' = look_up s k'"
    and add_bound: "ok s \<Longrightarrow> look_up s k = Some w \<Longrightarrow> add k v s = s"
    and add_new: "ok s \<Longrightarrow> k \<in> K \<Longrightarrow> room (Suc n) s \<Longrightarrow> look_up s k = None \<Longrightarrow> v \<in> V \<Longrightarrow> look_up (add k v s) k = Some v"
    and del_look_up: "ok s \<Longrightarrow> look_up (del k s) k' = (if k' = k then None else look_up s k')"
begin

definition add_all :: "('k \<times> 'v) list \<Rightarrow> 's \<Rightarrow> 's" where
  "add_all kvs = fold (\<lambda>(k, v). add k v) kvs"

lemma add_all_ok: "ok s \<Longrightarrow> ok (add_all kvs s)"
  by (induction kvs arbitrary: s) (auto simp: add_all_def add_ok)

lemma add_all_look_up:
  assumes "ok s" "room (length kvs) s" "distinct (map fst kvs)" "snd ` set kvs \<subseteq> V" "\<And>k. k \<in> fst ` set kvs \<Longrightarrow> look_up s k = None" "fst ` set kvs \<subseteq> K"
  shows "look_up (add_all kvs s) k = (case map_of kvs k of None \<Rightarrow> look_up s k | Some v \<Rightarrow> Some v)"
  using assms
proof (induction kvs arbitrary: s)
  case Nil
  then show ?case by (simp add: add_all_def)
next
  case (Cons kv kvs)
  obtain a v where kv: "kv = (a, v)" by (cases kv)
  have ok1: "ok (add a v s)" and room1: "room (length kvs) (add a v s)"
    using Cons.prems(1,2,6) add_ok add_room by (auto simp: kv)
  have new: "look_up (add a v s) b = None" if "b \<in> fst ` set kvs" for b
    using that Cons.prems(3,5) add_other [OF Cons.prems(1), of b a v] by (auto simp: kv)
  have "look_up (add_all kvs (add a v s)) k = (case map_of kvs k of None \<Rightarrow> look_up (add a v s) k | Some v \<Rightarrow> Some v)"
    using Cons.prems(3,4,6) new by (intro Cons.IH ok1 room1) (auto simp: kv)
  moreover have "look_up (add a v s) a = Some v"
    using add_new [of s a "length kvs" v] Cons.prems(1,2,4,5,6) by (simp add: kv)
  moreover have "map_of kvs a = None" using Cons.prems(3) by (auto simp: kv map_of_eq_None_iff)
  ultimately show ?case
    using add_other [OF Cons.prems(1), of k a v] by (auto simp: add_all_def kv split: option.splits)
qed

end

end
