(* ===== verification/Radix_Tree.thy ===== *)
theory Radix_Tree
  imports Generic_Ops Keyed_Store
begin

text \<open>
  The radix tree of \<^verbatim>\<open>common/generic/radix_tree.c\<close>, which the interrupt code uses to find the descriptor of an interrupt
  number.

  A node is a link (0 is null) and an array of eight branches; the parent pointer is the position in the tree.  The
  allocator is a parameter: whether each of the next allocations succeeds.
\<close>

section \<open>Numbers as paths\<close>

abbreviation (input) MAX_BRANCH :: nat where "MAX_BRANCH \<equiv> 3"

fun zeros_from :: "nat \<Rightarrow> kuint32_t \<Rightarrow> nat" where
  "zeros_from 0 number = 0"
| "zeros_from (Suc i) number = (if bit number i then 0 else Suc (zeros_from i number))"

definition radix_tree_numlen :: "kuint32_t \<Rightarrow> nat" where
  "radix_tree_numlen number =
     (let count = 32 - zeros_from 32 number
      in if count \<le> MAX_BRANCH then MAX_BRANCH
         else if isPower2 (of_nat MAX_BRANCH) then unat (mrt_align (of_nat count) (of_nat MAX_BRANCH))
         else let result = count mod MAX_BRANCH in if result \<noteq> 0 then count + MAX_BRANCH - result else count)"

definition radix_tree_advance :: "kuint32_t \<Rightarrow> kuint32_t" where
  "radix_tree_advance number = drop_bit MAX_BRANCH number"

definition get_radix_node_branch :: "kuint32_t \<Rightarrow> nat" where
  "get_radix_node_branch number = unat (number AND (push_bit MAX_BRANCH 1 - 1))"

section \<open>The tree\<close>

datatype radix_node = RNode (sprt_link: kuaddr_t) (sgrt_branches: "radix_node option list")

record radix_tree =
  sgrt_node :: radix_node
  rt_alloc :: "bool list"

definition fresh_node :: radix_node where
  "fresh_node = RNode 0 (replicate (2 ^ MAX_BRANCH) None)"

definition rt_allocate :: "bool list \<Rightarrow> bool \<times> bool list" where
  "rt_allocate al = (case al of [] \<Rightarrow> (False, []) | a # as \<Rightarrow> (a, as))"

function find_loop :: "radix_node \<Rightarrow> nat \<Rightarrow> nat \<Rightarrow> kuint32_t \<Rightarrow> radix_node option" where
  "find_loop node i lenth value =
     (if i \<ge> lenth then Some node
      else case sgrt_branches node ! get_radix_node_branch value of
             None \<Rightarrow> None
           | Some c \<Rightarrow> find_loop c (i + MAX_BRANCH) lenth (radix_tree_advance value))"
  by auto
termination by (relation "measure (\<lambda>(node, i, lenth, value). lenth - i)") auto

definition find_radix_node :: "radix_tree \<Rightarrow> kuint32_t \<Rightarrow> radix_node option" where
  "find_radix_node t number =
     (case find_loop (sgrt_node t) 0 (radix_tree_numlen number) number of
        None \<Rightarrow> None
      | Some n \<Rightarrow> if sprt_link n \<noteq> 0 then Some n else None)"

definition radix_tree_look_up :: "radix_tree \<Rightarrow> kuint32_t \<Rightarrow> kuaddr_t" where
  "radix_tree_look_up t number = (case find_radix_node t number of None \<Rightarrow> 0 | Some n \<Rightarrow> sprt_link n)"

text \<open>The loop of \<^verbatim>\<open>radix_tree_add\<close> below a node: the changed node and the remaining allocations.  A failed allocation ends
  the call and leaves the nodes made so far.\<close>

function add_loop :: "radix_node \<Rightarrow> nat \<Rightarrow> nat \<Rightarrow> kuint32_t \<Rightarrow> kuaddr_t \<Rightarrow> bool list \<Rightarrow> radix_node \<times> bool list" where
  "add_loop node i lenth value link al =
     (if i \<ge> lenth then (RNode link (sgrt_branches node), al)
      else let offset = get_radix_node_branch value; value = radix_tree_advance value
           in case sgrt_branches node ! offset of
                Some c \<Rightarrow>
                  let (c, al) = add_loop c (i + MAX_BRANCH) lenth value link al
                  in (RNode (sprt_link node) ((sgrt_branches node)[offset := Some c]), al)
              | None \<Rightarrow>
                  let (got, al) = rt_allocate al
                  in if \<not> got then (node, al)
                     else let (c, al) = add_loop fresh_node (i + MAX_BRANCH) lenth value link al
                          in (RNode (sprt_link node) ((sgrt_branches node)[offset := Some c]), al))"
  by auto
termination by (relation "measure (\<lambda>(node, i, lenth, value, link, al). lenth - i)") auto

definition radix_tree_add :: "kuint32_t \<Rightarrow> kuaddr_t \<Rightarrow> radix_tree \<Rightarrow> radix_tree" where
  "radix_tree_add number link t =
     (if link = 0 then t
      else if find_radix_node t number \<noteq> None then t
      else let (n, al) = add_loop (sgrt_node t) 0 (radix_tree_numlen number) number link (rt_alloc t)
           in t\<lparr>sgrt_node := n, rt_alloc := al\<rparr>)"

text \<open>Deleting: \<open>None\<close> when there is nothing to delete, otherwise the node, or \<open>None\<close> inside when \<^verbatim>\<open>__del_radix_node\<close> has found it
  without a link and without branches, freed it and gone on to its parent.\<close>

definition bare :: "radix_node \<Rightarrow> bool" where
  "bare n \<longleftrightarrow> sprt_link n = 0 \<and> (\<forall>b \<in> set (sgrt_branches n). b = None)"

definition prune :: "radix_node \<Rightarrow> radix_node option" where
  "prune n = (if bare n then None else Some n)"

function del_loop :: "radix_node \<Rightarrow> nat \<Rightarrow> nat \<Rightarrow> kuint32_t \<Rightarrow> radix_node option option" where
  "del_loop node i lenth value =
     (if i \<ge> lenth
      then if sprt_link node = 0 then None else Some (prune (RNode 0 (sgrt_branches node)))
      else let offset = get_radix_node_branch value
           in case sgrt_branches node ! offset of
                None \<Rightarrow> None
              | Some c \<Rightarrow>
                  case del_loop c (i + MAX_BRANCH) lenth (radix_tree_advance value) of
                    None \<Rightarrow> None
                  | Some (Some c) \<Rightarrow> Some (Some (RNode (sprt_link node) ((sgrt_branches node)[offset := Some c])))
                  | Some None \<Rightarrow> Some (prune (RNode (sprt_link node) ((sgrt_branches node)[offset := None]))))"
  by auto
termination by (relation "measure (\<lambda>(node, i, lenth, value). lenth - i)") auto

definition radix_tree_del :: "kuint32_t \<Rightarrow> radix_tree \<Rightarrow> radix_tree" where
  "radix_tree_del number t =
     (case del_loop (sgrt_node t) 0 (radix_tree_numlen number) number of
        None \<Rightarrow> t
      | Some None \<Rightarrow> t\<lparr>sgrt_node := fresh_node\<rparr>
      | Some (Some n) \<Rightarrow> t\<lparr>sgrt_node := n\<rparr>)"

declare find_loop.simps [simp del] add_loop.simps [simp del] del_loop.simps [simp del]

section \<open>Paths\<close>

function digits_from :: "nat \<Rightarrow> nat \<Rightarrow> kuint32_t \<Rightarrow> nat list" where
  "digits_from i lenth value =
     (if i \<ge> lenth then []
      else get_radix_node_branch value # digits_from (i + MAX_BRANCH) lenth (radix_tree_advance value))"
  by auto
termination by (relation "measure (\<lambda>(i, lenth, value). lenth - i)") auto

declare digits_from.simps [simp del]

definition radix_path :: "kuint32_t \<Rightarrow> nat list" where
  "radix_path number = digits_from 0 (radix_tree_numlen number) number"

lemma unat_branch: "get_radix_node_branch v = unat v mod 8"
proof -
  have "v AND (push_bit 3 1 - 1) = take_bit 3 v" by (simp add: take_bit_eq_mask mask_eq_exp_minus_1)
  then show ?thesis by (simp add: get_radix_node_branch_def take_bit_eq_mod unat_mod)
qed

lemma unat_advance: "unat (radix_tree_advance v) = unat v div 8"
  by (simp add: radix_tree_advance_def drop_bit_eq_div unat_div)

lemma digits_less: "d \<in> set (digits_from i n v) \<Longrightarrow> d < 8"
proof (induction i n v rule: digits_from.induct)
  case (1 i n v)
  then show ?case by (subst (asm) (2) digits_from.simps) (auto simp: unat_branch split: if_splits)
qed

lemma digits_from_step:
  "digits_from i (i + 3 * Suc k) v = get_radix_node_branch v # digits_from (i + 3) (i + 3 + 3 * k) (radix_tree_advance v)"
  "digits_from i i v = []"
  by (subst digits_from.simps, simp add: add.assoc)+

lemma horner_digits: "unat v < 8 ^ k \<Longrightarrow> horner 8 (digits_from i (i + 3 * k) v) = unat v"
proof (induction k arbitrary: i v)
  case (Suc k)
  then have "unat (radix_tree_advance v) < 8 ^ k" by (simp add: unat_advance less_mult_imp_div_less mult.commute)
  with Suc.IH show ?case unfolding digits_from_step by (simp add: unat_branch unat_advance)
qed (simp add: digits_from_step)

text \<open>The length of a number is a multiple of the branch width and long enough for the number.\<close>

lemma zeros_from_le: "zeros_from i number \<le> i"
  by (induction i) auto

lemma zeros_from_bits: "i - zeros_from i number \<le> j \<Longrightarrow> j < i \<Longrightarrow> \<not> bit number j"
  by (induction i) (auto simp: less_Suc_eq split: if_splits)

lemma number_below: "unat number < 2 ^ (32 - zeros_from 32 number)"
proof -
  let ?c = "32 - zeros_from 32 number"
  have "take_bit ?c number = number"
    using zeros_from_bits [of 32 number] by (intro bit_word_eqI) (auto simp: bit_take_bit_iff, meson not_le)
  then have "unat number = take_bit ?c (unat number)" by (metis unsigned_take_bit_eq)
  then show ?thesis by (metis take_bit_nat_less_exp)
qed

lemma numlen_multiple: "\<exists>k. radix_tree_numlen number = 3 * k \<and> 0 < k \<and> 32 - zeros_from 32 number \<le> 3 * k"
proof -
  define c where "c = 32 - zeros_from 32 number"
  have p: "\<not> isPower2 3" by (simp add: isPower2_def)
  have len: "radix_tree_numlen number = (if c \<le> 3 then 3 else if c mod 3 \<noteq> 0 then c + 3 - c mod 3 else c)"
    using p by (simp add: radix_tree_numlen_def c_def Let_def)
  have m: "c = 3 * (c div 3) + c mod 3" "c mod 3 < 3" by simp_all
  consider "c \<le> 3" | "c > 3" "c mod 3 = 0" | "c > 3" "c mod 3 \<noteq> 0" by linarith
  then have "\<exists>k. radix_tree_numlen number = 3 * k \<and> 0 < k \<and> c \<le> 3 * k"
  proof cases
    case 1
    then show ?thesis using len by (intro exI [of _ 1]) simp
  next
    case 2
    then show ?thesis using len m by (intro exI [of _ "c div 3"]) auto
  next
    case 3
    then have "radix_tree_numlen number = c + 3 - c mod 3" using len by simp
    moreover have "c + 3 - c mod 3 = 3 * (c div 3 + 1)" "c \<le> 3 * (c div 3 + 1)" by presburger+
    ultimately have "radix_tree_numlen number = 3 * (c div 3 + 1)" "c \<le> 3 * (c div 3 + 1)" by simp_all
    then show ?thesis by fastforce
  qed
  then show ?thesis by (simp add: c_def)
qed

lemma horner_radix_path: "horner 8 (radix_path number) = unat number"
proof -
  obtain k where k: "radix_tree_numlen number = 3 * k" "32 - zeros_from 32 number \<le> 3 * k" using numlen_multiple by blast
  have "unat number < 2 ^ (3 * k)"
    using number_below k(2) by (meson less_le_trans power_increasing one_le_numeral)
  then have "unat number < 8 ^ k" by (simp add: power_mult)
  with horner_digits [of number k 0] k(1) show ?thesis by (simp add: radix_path_def)
qed

lemma radix_path_inj: "radix_path m = radix_path n \<longleftrightarrow> m = n"
  by (metis horner_radix_path word_unat_eq_iff)

lemma radix_path_digits: "d \<in> set (radix_path n) \<Longrightarrow> d < 8"
  by (simp add: radix_path_def digits_less)

section \<open>Nodes and paths\<close>

inductive radix_wf :: "radix_node \<Rightarrow> bool" where
  "length bs = 8 \<Longrightarrow> (\<And>c. Some c \<in> set bs \<Longrightarrow> radix_wf c) \<Longrightarrow> radix_wf (RNode l bs)"

inductive_simps radix_wf_node: "radix_wf (RNode l bs)"

fun link_at :: "radix_node \<Rightarrow> nat list \<Rightarrow> kuaddr_t" where
  "link_at n [] = sprt_link n"
| "link_at n (d # ds) = (case sgrt_branches n ! d of None \<Rightarrow> 0 | Some c \<Rightarrow> link_at c ds)"

fun add_at :: "radix_node \<Rightarrow> nat list \<Rightarrow> kuaddr_t \<Rightarrow> bool list \<Rightarrow> radix_node \<times> bool list" where
  "add_at n [] link al = (RNode link (sgrt_branches n), al)"
| "add_at n (d # ds) link al =
     (case sgrt_branches n ! d of
        Some c \<Rightarrow> let (c, al) = add_at c ds link al in (RNode (sprt_link n) ((sgrt_branches n)[d := Some c]), al)
      | None \<Rightarrow>
          let (got, al) = rt_allocate al
          in if \<not> got then (n, al)
             else let (c, al) = add_at fresh_node ds link al in (RNode (sprt_link n) ((sgrt_branches n)[d := Some c]), al))"

fun del_at :: "radix_node \<Rightarrow> nat list \<Rightarrow> radix_node option option" where
  "del_at n [] = (if sprt_link n = 0 then None else Some (prune (RNode 0 (sgrt_branches n))))"
| "del_at n (d # ds) =
     (case sgrt_branches n ! d of
        None \<Rightarrow> None
      | Some c \<Rightarrow>
          case del_at c ds of
            None \<Rightarrow> None
          | Some (Some c) \<Rightarrow> Some (Some (RNode (sprt_link n) ((sgrt_branches n)[d := Some c])))
          | Some None \<Rightarrow> Some (prune (RNode (sprt_link n) ((sgrt_branches n)[d := None]))))"

lemma find_loop_path:
  "(case find_loop n i m v of None \<Rightarrow> 0 | Some x \<Rightarrow> sprt_link x) = link_at n (digits_from i m v)"
proof (induction n i m v rule: find_loop.induct)
  case (1 n i m v)
  then show ?case by (subst find_loop.simps, subst digits_from.simps) (simp split: option.split)
qed

lemma add_loop_path: "add_loop n i m v link al = add_at n (digits_from i m v) link al"
proof (induction n i m v link al rule: add_loop.induct)
  case (1 n i m v link al)
  then show ?case
    by (subst add_loop.simps, subst digits_from.simps) (simp add: Let_def split: option.split prod.split)
qed

lemma del_loop_path: "del_loop n i m v = del_at n (digits_from i m v)"
proof (induction n i m v rule: del_loop.induct)
  case (1 n i m v)
  then show ?case by (subst del_loop.simps, subst digits_from.simps) (simp add: Let_def split: option.split)
qed

lemmas loops_as_paths = find_loop_path add_loop_path del_loop_path

text \<open>Adding and deleting on paths.\<close>

definition is_path :: "nat list \<Rightarrow> bool" where
  "is_path p \<longleftrightarrow> (\<forall>d \<in> set p. d < 8)"

lemma is_path_Cons [simp]: "is_path [] \<longleftrightarrow> True" "is_path (d # p) \<longleftrightarrow> d < 8 \<and> is_path p"
  by (auto simp: is_path_def)

lemma radix_wf_branches:
  assumes "radix_wf n"
  shows "length (sgrt_branches n) = 8" "d < 8 \<Longrightarrow> sgrt_branches n ! d = Some c \<Longrightarrow> radix_wf c"
  using assms by (cases n; auto simp: radix_wf_node in_set_conv_nth)+

lemma radix_wf_link: "radix_wf n \<Longrightarrow> radix_wf (RNode l (sgrt_branches n))"
  by (cases n) (simp add: radix_wf_node)

lemma radix_wf_update:
  "radix_wf n \<Longrightarrow> (\<And>c. b = Some c \<Longrightarrow> radix_wf c) \<Longrightarrow> radix_wf (RNode l ((sgrt_branches n)[d := b]))"
  by (cases n) (auto simp: radix_wf_node dest: set_update_subset_insert [THEN subsetD])

lemma fresh_node_wf [simp]: "radix_wf fresh_node" "sgrt_branches fresh_node = replicate 8 None" "sprt_link fresh_node = 0"
  by (simp_all add: fresh_node_def radix_wf_node)

lemma bare_link_at:
  assumes "bare n" "radix_wf n" "is_path q"
  shows "link_at n q = 0"
proof (cases q)
  case (Cons d q')
  then have "sgrt_branches n ! d \<in> set (sgrt_branches n)" using assms radix_wf_branches(1) [OF assms(2)] by (intro nth_mem) simp
  then have "sgrt_branches n ! d = None" using assms(1) by (auto simp: bare_def)
  with Cons show ?thesis by simp
qed (use assms in \<open>simp add: bare_def\<close>)

lemma fresh_link_at [simp]: "is_path q \<Longrightarrow> link_at fresh_node q = 0"
  by (rule bare_link_at) (simp_all add: bare_def)

text \<open>The recursion of the additions, without the tuples.\<close>

lemma add_at_Cons:
  "add_at n (d # p) v al =
     (case sgrt_branches n ! d of
        Some c \<Rightarrow> (RNode (sprt_link n) ((sgrt_branches n)[d := Some (fst (add_at c p v al))]), snd (add_at c p v al))
      | None \<Rightarrow>
          if fst (rt_allocate al)
          then (RNode (sprt_link n) ((sgrt_branches n)[d := Some (fst (add_at fresh_node p v (snd (rt_allocate al))))]),
                snd (add_at fresh_node p v (snd (rt_allocate al))))
          else (n, snd (rt_allocate al)))"
  by (simp add: Let_def split_beta split: option.split)

declare add_at.simps(2) [simp del]

lemma add_at_wf: "radix_wf n \<Longrightarrow> is_path p \<Longrightarrow> radix_wf (fst (add_at n p v al))"
proof (induction p arbitrary: n al)
  case Nil
  then show ?case by (simp add: radix_wf_link)
next
  case (Cons d p)
  have up: "radix_wf (RNode (sprt_link n) ((sgrt_branches n)[d := Some (fst (add_at c p v al'))]))" if "radix_wf c" for c al'
    using Cons.prems Cons.IH [OF that, of al'] by (intro radix_wf_update) auto
  show ?case
    using Cons.prems up radix_wf_branches(2) [OF Cons.prems(1), of d]
    by (auto simp: add_at_Cons split: option.split)
qed

lemma add_at_other:
  "radix_wf n \<Longrightarrow> is_path p \<Longrightarrow> is_path q \<Longrightarrow> q \<noteq> p \<Longrightarrow> link_at (fst (add_at n p v al)) q = link_at n q"
proof (induction p arbitrary: n al q)
  case Nil
  then show ?case by (cases q) simp_all
next
  case (Cons d p)
  note wf = radix_wf_branches [OF Cons.prems(1)]
  show ?case
  proof (cases q)
    case Nil
    then show ?thesis by (simp add: add_at_Cons split: option.split)
  next
    case (Cons e q')
    have "link_at (fst (add_at c p v al')) q' = link_at c q'" if "e = d" "radix_wf c" for c al'
      using Cons.IH [OF that(2), of q' al'] Cons.prems Cons that by simp
    with Cons Cons.prems wf show ?thesis
      by (cases "e = d") (auto simp: add_at_Cons split: option.split)
  qed
qed

text \<open>With memory for every node of the path the binding is made, and no more than that is taken.\<close>

lemma add_at_new:
  "radix_wf n \<Longrightarrow> is_path p \<Longrightarrow> take (length p) al = replicate (length p) True \<Longrightarrow> link_at (fst (add_at n p v al)) p = v"
proof (induction p arbitrary: n al)
  case (Cons d p)
  note wf = radix_wf_branches [OF Cons.prems(1)]
  obtain as where al: "al = True # as" "take (length p) as = replicate (length p) True"
    using Cons.prems(3) by (cases al) auto
  have "take (length p) al = replicate (length p) True" using Cons.prems(3) al by (metis length_Cons replicate_Suc
      take_Suc_Cons min.absorb1 take_replicate take_take lessI less_or_eq_imp_le)
  then have "link_at (fst (add_at c p v al)) p = v" if "radix_wf c" for c using Cons.IH Cons.prems that by simp
  moreover have "link_at (fst (add_at fresh_node p v as)) p = v" using Cons.IH Cons.prems al by simp
  ultimately show ?case using Cons.prems wf al by (auto simp: add_at_Cons rt_allocate_def split: option.split)
qed simp

lemma add_at_alloc: "\<exists>k \<le> length p. snd (add_at n p v al) = drop k al"
proof (induction p arbitrary: n al)
  case (Cons d p)
  have a: "snd (rt_allocate al) = drop 1 al" by (cases al) (simp_all add: rt_allocate_def)
  obtain k where k: "k \<le> length p" "snd (add_at fresh_node p v (drop 1 al)) = drop k (drop 1 al)" using Cons.IH by blast
  show ?case
  proof (cases "sgrt_branches n ! d")
    case (Some c)
    obtain j where "j \<le> length p" "snd (add_at c p v al) = drop j al" using Cons.IH by blast
    with Some show ?thesis by (intro exI [of _ j]) (simp add: add_at_Cons)
  next
    case None
    show ?thesis
    proof (cases "fst (rt_allocate al)")
      case True
      then show ?thesis using None k a by (intro exI [of _ "Suc k"]) (simp add: add_at_Cons)
    next
      case False
      then show ?thesis using None a by (intro exI [of _ 1]) (simp add: add_at_Cons)
    qed
  qed
qed (simp add: exI [of _ 0])

text \<open>Deleting; \<open>kept r\<close> is the node that stands where a freed one was.\<close>

definition kept :: "radix_node option \<Rightarrow> radix_node" where
  "kept r = (case r of None \<Rightarrow> fresh_node | Some n \<Rightarrow> n)"

lemma kept_Some [simp]: "kept (Some n) = n"
  by (simp add: kept_def)

lemma kept_prune: "radix_wf n \<Longrightarrow> radix_wf (kept (prune n)) \<and> (\<forall>q. is_path q \<longrightarrow> link_at (kept (prune n)) q = link_at n q)"
  by (auto simp: kept_def prune_def bare_link_at)

lemma link_at_kept: "is_path q \<Longrightarrow> (case r of None \<Rightarrow> 0 | Some c \<Rightarrow> link_at c q) = link_at (kept r) q"
  by (simp add: kept_def split: option.split)

lemma del_at_cases:
  "radix_wf n \<Longrightarrow> is_path p \<Longrightarrow>
     (case del_at n p of
        None \<Rightarrow> link_at n p = 0
      | Some r \<Rightarrow> radix_wf (kept r) \<and> (\<forall>q. is_path q \<longrightarrow> link_at (kept r) q = (if q = p then 0 else link_at n q)))"
proof (induction p arbitrary: n)
  case Nil
  have "link_at (RNode 0 (sgrt_branches n)) q = (if q = [] then 0 else link_at n q)" for q by (cases q) simp_all
  then show ?case using kept_prune [OF radix_wf_link [OF Nil.prems(1)], of 0] by simp
next
  case (Cons d p)
  note wf = radix_wf_branches [OF Cons.prems(1)]
  show ?case
  proof (cases "sgrt_branches n ! d")
    case (Some c)
    have c: "radix_wf c" using wf(2) [of d] Some Cons.prems(2) by simp
    show ?thesis
    proof (cases "del_at c p")
      case None
      with Cons.IH [OF c] Cons.prems Some show ?thesis by simp
    next
      case del: (Some r)
      then have r: "radix_wf (kept r)" "\<And>q. is_path q \<Longrightarrow> link_at (kept r) q = (if q = p then 0 else link_at c q)"
        using Cons.IH [OF c] Cons.prems by auto
      let ?n = "RNode (sprt_link n) ((sgrt_branches n)[d := r])"
      have n: "radix_wf ?n" using r(1) by (intro radix_wf_update [OF Cons.prems(1)]) (simp add: kept_def)
      have l: "link_at ?n q = (if q = d # p then 0 else link_at n q)" if "is_path q" for q
        using that r(2) Some wf Cons.prems(2)
        by (cases q) (auto simp: link_at_kept nth_list_update)
      have "del_at n (d # p) = Some (case r of None \<Rightarrow> prune ?n | Some _ \<Rightarrow> Some ?n)"
        using Some del by (cases r) simp_all
      with n l kept_prune [OF n] show ?thesis by (cases r) (simp_all add: kept_def)
    qed
  qed (use Cons.prems in simp)
qed

section \<open>The tree as a store\<close>

definition radix_ok :: "radix_tree \<Rightarrow> bool" where
  "radix_ok t \<longleftrightarrow> radix_wf (sgrt_node t)"

text \<open>Eleven nodes are enough for any number.\<close>

definition radix_room :: "nat \<Rightarrow> radix_tree \<Rightarrow> bool" where
  "radix_room n t \<longleftrightarrow> take (11 * n) (rt_alloc t) = replicate (11 * n) True"

definition radix_map :: "radix_tree \<Rightarrow> kuint32_t \<Rightarrow> kuaddr_t option" where
  "radix_map t k = (let l = radix_tree_look_up t k in if l = 0 then None else Some l)"

lemma is_path_radix_path [simp]: "is_path (radix_path k)"
  by (simp add: is_path_def radix_path_digits)

lemma look_up_link: "radix_tree_look_up t k = link_at (sgrt_node t) (radix_path k)"
  using find_loop_path [of "sgrt_node t" 0 "radix_tree_numlen k" k]
  by (auto simp: radix_tree_look_up_def find_radix_node_def radix_path_def split: option.splits)

lemma find_radix_node_None: "find_radix_node t k = None \<longleftrightarrow> radix_tree_look_up t k = 0"
  by (auto simp: radix_tree_look_up_def find_radix_node_def split: option.splits)

lemma radix_tree_add_at:
  "radix_tree_add k v t =
     (if v = 0 \<or> radix_tree_look_up t k \<noteq> 0 then t
      else t\<lparr>sgrt_node := fst (add_at (sgrt_node t) (radix_path k) v (rt_alloc t)),
             rt_alloc := snd (add_at (sgrt_node t) (radix_path k) v (rt_alloc t))\<rparr>)"
  using find_radix_node_None [of t k]
  by (simp add: radix_tree_add_def add_loop_path radix_path_def split_beta)

lemma length_radix_path: "length (radix_path k) \<le> 11"
proof -
  have len: "length (digits_from i (i + 3 * n) v) = n" for i n v
    by (induction n arbitrary: i v) (simp_all only: digits_from_step mult_0_right add_0_right list.size)
  obtain n where n: "radix_tree_numlen k = 3 * n" using numlen_multiple by blast
  have "radix_tree_numlen k \<le> 34"
  proof -
    have "\<not> isPower2 3" by (simp add: isPower2_def)
    then show ?thesis
      using mod_less_eq_dividend [of "32 - zeros_from 32 k" 3] unfolding radix_tree_numlen_def Let_def by (auto split: if_splits)
  qed
  with n len [of 0 n k] show ?thesis by (simp add: radix_path_def)
qed

lemma radix_tree_add_laws:
  assumes "radix_ok t"
  shows "radix_ok (radix_tree_add k v t)"
    and "k' \<noteq> k \<Longrightarrow> radix_tree_look_up (radix_tree_add k v t) k' = radix_tree_look_up t k'"
    and "radix_tree_look_up t k \<noteq> 0 \<Longrightarrow> radix_tree_add k v t = t"
    and "radix_room (Suc n) t \<Longrightarrow> radix_tree_look_up t k = 0 \<Longrightarrow> radix_tree_look_up (radix_tree_add k v t) k = v"
    and "radix_room (Suc n) t \<Longrightarrow> radix_room n (radix_tree_add k v t)"
proof -
  note wf = assms [unfolded radix_ok_def]
  show "radix_ok (radix_tree_add k v t)"
    using wf add_at_wf [OF wf] by (simp add: radix_ok_def radix_tree_add_at)
  show "k' \<noteq> k \<Longrightarrow> radix_tree_look_up (radix_tree_add k v t) k' = radix_tree_look_up t k'"
    using add_at_other [OF wf, of "radix_path k" "radix_path k'"] radix_path_inj by (auto simp: radix_tree_add_at look_up_link)
  show "radix_tree_look_up t k \<noteq> 0 \<Longrightarrow> radix_tree_add k v t = t" by (simp add: radix_tree_add_at)
  have tk: "take m xs = replicate m True \<Longrightarrow> j \<le> m \<Longrightarrow> take j xs = replicate j True" for m j and xs :: "bool list"
    by (metis min.absorb1 take_replicate take_take)
  show "radix_room (Suc n) t \<Longrightarrow> radix_tree_look_up t k = 0 \<Longrightarrow> radix_tree_look_up (radix_tree_add k v t) k = v"
  proof -
    assume r: "radix_room (Suc n) t" "radix_tree_look_up t k = 0"
    have "take (length (radix_path k)) (rt_alloc t) = replicate (length (radix_path k)) True"
      using length_radix_path [of k] by (intro tk [OF r(1) [unfolded radix_room_def]]) simp
    with add_at_new [OF wf is_path_radix_path] r(2) show ?thesis by (auto simp: radix_tree_add_at look_up_link)
  qed
  show "radix_room (Suc n) t \<Longrightarrow> radix_room n (radix_tree_add k v t)"
  proof -
    assume r: "radix_room (Suc n) t"
    obtain j where j: "j \<le> length (radix_path k)" "snd (add_at (sgrt_node t) (radix_path k) v (rt_alloc t)) = drop j (rt_alloc t)"
      using add_at_alloc by blast
    have "take (11 * n) (drop i (rt_alloc t)) = replicate (11 * n) True" if "i \<le> 11" for i
    proof -
      have "take (i + 11 * n) (rt_alloc t) = replicate (i + 11 * n) True"
        using that by (intro tk [OF r [unfolded radix_room_def]]) simp
      moreover have "take (11 * n) (drop i (rt_alloc t)) = drop i (take (i + 11 * n) (rt_alloc t))"
        by (simp only: take_drop add.commute)
      ultimately show ?thesis by (simp only: drop_replicate add_diff_cancel_left')
    qed
    from this [of j] this [of 0] j length_radix_path [of k] show ?thesis by (simp add: radix_tree_add_at radix_room_def)
  qed
qed

lemma radix_tree_del_laws:
  assumes "radix_ok t"
  shows "radix_ok (radix_tree_del k t)"
    "radix_tree_look_up (radix_tree_del k t) k' = (if k' = k then 0 else radix_tree_look_up t k')"
proof -
  note wf = assms [unfolded radix_ok_def]
  have e: "radix_tree_del k t = (case del_at (sgrt_node t) (radix_path k) of None \<Rightarrow> t | Some r \<Rightarrow> t\<lparr>sgrt_node := kept r\<rparr>)"
    by (simp add: radix_tree_del_def del_loop_path radix_path_def kept_def split: option.split)
  note c = del_at_cases [OF wf is_path_radix_path, of k]
  show "radix_ok (radix_tree_del k t)" using c wf by (simp add: e radix_ok_def split: option.splits)
  show "radix_tree_look_up (radix_tree_del k t) k' = (if k' = k then 0 else radix_tree_look_up t k')"
    using c by (auto simp: e look_up_link radix_path_inj split: option.splits)
qed

interpretation radix: keyed_store UNIV "UNIV - {0}" radix_ok radix_room radix_map radix_tree_add radix_tree_del
proof unfold_locales
  fix t :: radix_tree and k k' :: kuint32_t and v w :: kuaddr_t and n
  assume ok: "radix_ok t"
  note laws = radix_tree_add_laws [OF ok]
  show "radix_ok (radix_tree_add k v t)" by (rule laws(1))
  show "radix_ok (radix_tree_del k t)" by (rule radix_tree_del_laws(1) [OF ok])
  show "radix_room (Suc n) t \<Longrightarrow> radix_room n (radix_tree_add k v t)" by (rule laws(5))
  show "k' \<noteq> k \<Longrightarrow> radix_map (radix_tree_add k v t) k' = radix_map t k'"
    using laws(2) [of k' k v] by (simp add: radix_map_def)
  show "radix_map t k = Some w \<Longrightarrow> radix_tree_add k v t = t"
    by (rule laws(3)) (auto simp: radix_map_def)
  show "radix_room (Suc n) t \<Longrightarrow> radix_map t k = None \<Longrightarrow> v \<in> UNIV - {0} \<Longrightarrow> radix_map (radix_tree_add k v t) k = Some v"
    using laws(4) [of n k v] by (auto simp: radix_map_def Let_def split: if_splits)
  show "radix_map (radix_tree_del k t) k' = (if k' = k then None else radix_map t k')"
    by (simp add: radix_map_def radix_tree_del_laws(2) [OF ok])
qed

section \<open>Properties\<close>

text \<open>C10: The radix tree is a map that keeps the first binding: adding leaves every other number alone and does nothing for a
  number that is bound; with memory for eleven nodes a fresh number is found afterwards under its link; deleting
  unbinds exactly the number; a running out of memory never disturbs another binding.\<close>

theorem radix_tree_is_map:
  assumes "radix_ok t" and "v \<noteq> 0"
  shows "radix_ok (radix_tree_add k v t) \<and> radix_ok (radix_tree_del k t) \<and>
     (k' \<noteq> k \<longrightarrow> radix_tree_look_up (radix_tree_add k v t) k' = radix_tree_look_up t k') \<and>
     (radix_tree_look_up t k \<noteq> 0 \<longrightarrow> radix_tree_look_up (radix_tree_add k v t) k = radix_tree_look_up t k) \<and>
     (radix_tree_look_up t k = 0 \<and> take 11 (rt_alloc t) = replicate 11 True \<longrightarrow>
        radix_tree_look_up (radix_tree_add k v t) k = v) \<and>
     radix_tree_look_up (radix_tree_del k t) k' = (if k' = k then 0 else radix_tree_look_up t k')"
proof -
  have "radix_room (Suc 0) t" if "take 11 (rt_alloc t) = replicate 11 True" using that by (simp only: radix_room_def mult_1_right One_nat_def [symmetric])
  then show ?thesis
    using radix_tree_add_laws(1-3) [OF assms(1), of k v] radix_tree_add_laws(2) [OF assms(1), of k' k v]
      radix_tree_add_laws(4) [OF assms(1), of 0 k v] radix_tree_del_laws [OF assms(1)] by auto
qed

definition demo_radix :: radix_tree where
  "demo_radix = \<lparr>sgrt_node = fresh_node, rt_alloc = replicate 22 True\<rparr>"

lemma demo_radix_ok: "radix_ok demo_radix" "radix_room 2 demo_radix" "radix_tree_look_up demo_radix k = 0"
  by (simp_all add: radix_ok_def radix_room_def look_up_link demo_radix_def)

theorem radix_tree_is_map_witness:
  "radix_tree_look_up (radix_tree_add 300 64 demo_radix) 300 = 64 \<and>
   radix_tree_look_up (radix_tree_add 300 64 demo_radix) 44 = 0"
  using radix_tree_is_map [OF demo_radix_ok(1), of 64 300 44] demo_radix_ok(3) by (simp add: demo_radix_def)

text \<open>Adding a sequence of fresh numbers with enough memory makes every one of them found under its own link, and leaves
  all other numbers as they were.\<close>

lemma radix_tree_add_all:
  assumes "radix_ok t" and "radix_room (length kvs) t" and "distinct (map fst kvs)" and "\<forall>(k, v) \<in> set kvs. v \<noteq> 0 \<and> radix_map t k = None"
  shows "radix_map (fold (\<lambda>(k, v). radix_tree_add k v) kvs t) k = (case map_of kvs k of None \<Rightarrow> radix_map t k | Some v \<Rightarrow> Some v)"
proof -
  have "snd ` set kvs \<subseteq> UNIV - {0}" "\<And>k. k \<in> fst ` set kvs \<Longrightarrow> radix_map t k = None" using assms(4) by auto
  from radix.add_all_look_up [OF assms(1-3) this subset_UNIV] show ?thesis by (simp add: radix.add_all_def)
qed

lemma radix_tree_add_all_witness:
  "radix_map (fold (\<lambda>(k, v). radix_tree_add k v) [(1, 64), (9, 96)] demo_radix) 9 = Some 96"
proof -
  have "radix_map demo_radix k = None" for k using demo_radix_ok(3) by (simp add: radix_map_def)
  with radix_tree_add_all [OF demo_radix_ok(1), of "[(1, 64), (9, 96)]" 9] demo_radix_ok(2) show ?thesis
    by (simp add: numeral_2_eq_2 [symmetric])
qed

end
