(* ===== verification/Mem_Simple.thy ===== *)
theory Mem_Simple
  imports Generic_Ops "HOL-Library.Monad_Syntax"
begin

text \<open>
  The memory allocator of \<^verbatim>\<open>common/mempool/mem_simple.c\<close> over a byte-addressed memory, with the block
  operations of \<^verbatim>\<open>include/common/mem_manage.h\<close>.  A pool is a chain of blocks laid end to end; each block
  starts with a header in the memory it manages, and the first part of a block is in use, the rest is spare.
\<close>

section \<open>Memory\<close>

type_synonym mem = "kuaddr_t \<Rightarrow> kuint8_t"

definition ld32 :: "mem \<Rightarrow> kuaddr_t \<Rightarrow> kuint32_t" where
  "ld32 m a = ucast (m a) OR push_bit 8 (ucast (m (a + 1))) OR push_bit 16 (ucast (m (a + 2))) OR push_bit 24 (ucast (m (a + 3)))"

definition st32 :: "kuaddr_t \<Rightarrow> kuint32_t \<Rightarrow> mem \<Rightarrow> mem" where
  "st32 a v m = m(a := ucast v, a + 1 := ucast (drop_bit 8 v), a + 2 := ucast (drop_bit 16 v), a + 3 := ucast (drop_bit 24 v))"

lemma unat_Suc_less:
  fixes a :: kuaddr_t
  assumes "a < e"
  shows "unat (a + 1) = Suc (unat a)"
proof -
  have "Suc (unat a) < 2 ^ 32" using assms unsigned_less [of e, where 'a = nat] by (simp add: word_less_nat_alt)
  then show ?thesis by (simp add: unat_word_ariths)
qed

text \<open>The loops of \<^verbatim>\<open>memory_set\<close>, \<^verbatim>\<open>memory_compare\<close> and \<^verbatim>\<open>memory_copy\<close> are written in assembler: they advance until the
  address reaches the end, one byte in each round.\<close>

function set_loop :: "kuaddr_t \<Rightarrow> kuaddr_t \<Rightarrow> kuint8_t \<Rightarrow> mem \<Rightarrow> mem" where
  "set_loop a e d m = (if a \<ge> e then m else set_loop (a + 1) e d (m(a := d)))"
  by auto
termination
  by (relation "measure (\<lambda>(a, e, d, m). unat e - unat a)") (auto simp: not_le unat_Suc_less word_less_nat_alt)

definition memory_set :: "kuaddr_t \<Rightarrow> kuint8_t \<Rightarrow> kuint32_t \<Rightarrow> mem \<Rightarrow> mem" where
  "memory_set dest data sz m = (if dest = 0 then m else set_loop dest (dest + sz) data m)"

definition memory_reset :: "kuaddr_t \<Rightarrow> kuint32_t \<Rightarrow> mem \<Rightarrow> mem" where
  "memory_reset dest sz m = memory_set dest 0 sz m"

function compare_loop :: "kuaddr_t \<Rightarrow> kuaddr_t \<Rightarrow> kuaddr_t \<Rightarrow> mem \<Rightarrow> kuint8_t" where
  "compare_loop s1 s2 e m = (if s2 \<ge> e then 0 else if m s1 \<noteq> m s2 then 1 else compare_loop (s1 + 1) (s2 + 1) e m)"
  by auto
termination
  by (relation "measure (\<lambda>(s1, s2, e, m). unat e - unat s2)") (auto simp: not_le unat_Suc_less word_less_nat_alt)

definition memory_compare :: "kuaddr_t \<Rightarrow> kuaddr_t \<Rightarrow> kuint32_t \<Rightarrow> mem \<Rightarrow> kuint8_t" where
  "memory_compare s1 s2 sz m = compare_loop s1 s2 (s2 + sz) m"

function copy_loop :: "kuaddr_t \<Rightarrow> kuaddr_t \<Rightarrow> kuaddr_t \<Rightarrow> mem \<Rightarrow> kuaddr_t \<times> mem" where
  "copy_loop s1 s2 e m = (if s2 \<ge> e then (s1, m) else copy_loop (s1 + 1) (s2 + 1) e (m(s1 := m s2)))"
  by auto
termination
  by (relation "measure (\<lambda>(s1, s2, e, m). unat e - unat s2)") (auto simp: not_le unat_Suc_less word_less_nat_alt)

definition memory_copy :: "kuaddr_t \<Rightarrow> kuaddr_t \<Rightarrow> kuint32_t \<Rightarrow> mem \<Rightarrow> kuaddr_t \<times> mem" where
  "memory_copy dest src sz m = (if dest = 0 \<or> src = 0 then (0, m) else copy_loop dest src (src + sz) m)"

section \<open>Blocks\<close>

definition MEMORY_POOL_MAGIC :: kuint32_t where "MEMORY_POOL_MAGIC = 0xdfa69fe3"

text \<open>\<^verbatim>\<open>struct mem_block\<close> has six words; \<open>blk m b\<close> is the structure at \<open>b\<close>, and each field has a writer.\<close>

record mem_block =
  mb_magic :: kuint32_t
  mb_base :: kuaddr_t
  mb_lenth :: kuint32_t
  mb_remain :: kuint32_t
  mb_prev :: kuaddr_t
  mb_next :: kuaddr_t

definition blk :: "mem \<Rightarrow> kuaddr_t \<Rightarrow> mem_block" where
  "blk m b = \<lparr>mb_magic = ld32 m b, mb_base = ld32 m (b + 4), mb_lenth = ld32 m (b + 8),
              mb_remain = ld32 m (b + 12), mb_prev = ld32 m (b + 16), mb_next = ld32 m (b + 20)\<rparr>"

definition set_magic :: "kuaddr_t \<Rightarrow> kuint32_t \<Rightarrow> mem \<Rightarrow> mem" where "set_magic b v m = st32 b v m"
definition set_base :: "kuaddr_t \<Rightarrow> kuaddr_t \<Rightarrow> mem \<Rightarrow> mem" where "set_base b v m = st32 (b + 4) v m"
definition set_lenth :: "kuaddr_t \<Rightarrow> kuint32_t \<Rightarrow> mem \<Rightarrow> mem" where "set_lenth b v m = st32 (b + 8) v m"
definition set_remain :: "kuaddr_t \<Rightarrow> kuint32_t \<Rightarrow> mem \<Rightarrow> mem" where "set_remain b v m = st32 (b + 12) v m"
definition set_prev :: "kuaddr_t \<Rightarrow> kuaddr_t \<Rightarrow> mem \<Rightarrow> mem" where "set_prev b v m = st32 (b + 16) v m"
definition set_next :: "kuaddr_t \<Rightarrow> kuaddr_t \<Rightarrow> mem \<Rightarrow> mem" where "set_next b v m = st32 (b + 20) v m"

definition MEM_BLOCK_HEADER_SIZE :: kuint32_t where "MEM_BLOCK_HEADER_SIZE = mrt_align 24 4"

definition IS_MEMORYPOOL_VALID :: "mem \<Rightarrow> kuaddr_t \<Rightarrow> bool" where
  "IS_MEMORYPOOL_VALID m b \<longleftrightarrow> mb_magic (blk m b) = MEMORY_POOL_MAGIC"

record mem_info =
  mi_base :: kuaddr_t
  mi_lenth :: kuint32_t
  sprt_mem :: kuaddr_t

record ram =
  ram_mem :: mem
  mem_infos :: "kuaddr_t \<Rightarrow> mem_info"

definition memory_simple_block_create :: "kuaddr_t \<Rightarrow> kuaddr_t \<Rightarrow> kuint32_t \<Rightarrow> 's ram_scheme \<Rightarrow> int \<times> 's ram_scheme" where
  "memory_simple_block_create i mem_addr sz s =
     (if \<not> isValid i \<or> sz \<le> MEM_BLOCK_HEADER_SIZE then (- ER_UNVALID, s)
      else if isValid (sprt_mem (mem_infos s i)) then (- ER_UNVALID, s)
      else let b = mrt_align mem_addr 4; l = sz - (b - mem_addr); m = ram_mem s;
               m = set_base b (b + MEM_BLOCK_HEADER_SIZE) m;
               m = set_lenth b l m;
               m = set_remain b l m;
               m = set_prev b 0 m;
               m = set_next b 0 m;
               m = set_magic b MEMORY_POOL_MAGIC m
           in (ER_NORMAL, s\<lparr>ram_mem := m,
                            mem_infos := (mem_infos s)(i := \<lparr>mi_base = b, mi_lenth = l, sprt_mem = b\<rparr>)\<rparr>))"

definition memory_simple_block_destroy :: "kuaddr_t \<Rightarrow> 's ram_scheme \<Rightarrow> 's ram_scheme" where
  "memory_simple_block_destroy i s =
     (if \<not> isValid i then s
      else s\<lparr>ram_mem := memory_reset (mi_base (mem_infos s i)) (mi_lenth (mem_infos s i)) (ram_mem s),
             mem_infos := (mem_infos s)(i := \<lparr>mi_base = 0, mi_lenth = 0, sprt_mem = 0\<rparr>)\<rparr>)"

text \<open>The search of \<^verbatim>\<open>alloc_spare_simple_memory\<close> for a block with enough spare memory; it ends at an invalid
  pointer when there is none.\<close>

partial_function (option) find_spare :: "mem \<Rightarrow> kuaddr_t \<Rightarrow> kuint32_t \<Rightarrow> kuaddr_t option" where
  "find_spare m b lenth =
     (if \<not> isValid b then Some b
      else if mb_remain (blk m b) \<ge> lenth then Some b
      else find_spare m (mb_next (blk m b)) lenth)"

definition take_spare :: "kuaddr_t \<Rightarrow> kuint32_t \<Rightarrow> mem \<Rightarrow> kuaddr_t \<times> mem" where
  "take_spare b lenth m =
     (let offset = mb_lenth (blk m b) - mb_remain (blk m b);
          p = mb_base (blk m b) + offset
      in if mb_lenth (blk m b) \<noteq> mb_remain (blk m b)
         then let n = p - MEM_BLOCK_HEADER_SIZE;
                  m = set_base n p m;
                  m = set_lenth n (mb_remain (blk m b)) m;
                  m = set_remain n (mb_remain (blk m b) - lenth) m;
                  m = set_prev n b m;
                  m = set_next n (mb_next (blk m b)) m;
                  m = set_magic n MEMORY_POOL_MAGIC m;
                  m = set_lenth b offset m;
                  m = set_remain b (mb_remain (blk m b) - mb_lenth (blk m n)) m;
                  m = set_next b n m
              in (p, m)
         else (p, set_remain b (mb_remain (blk m b) - lenth) m))"

definition alloc_spare_simple_memory :: "kuaddr_t \<Rightarrow> kuint32_t \<Rightarrow> mem \<Rightarrow> (kuaddr_t \<times> mem) option" where
  "alloc_spare_simple_memory h sz m =
     (if \<not> isValid h then Some (0, m)
      else let lenth = mrt_align sz 4 + MEM_BLOCK_HEADER_SIZE
           in do { b \<leftarrow> find_spare m h lenth;
                   if isValid b then Some (take_spare b lenth m) else Some (0, m) })"

partial_function (option) find_base :: "mem \<Rightarrow> kuaddr_t \<Rightarrow> kuaddr_t \<Rightarrow> kuaddr_t option" where
  "find_base m b p =
     (if \<not> isValid b then Some b
      else if mb_base (blk m b) = p then Some b
      else find_base m (mb_next (blk m b)) p)"

definition check_employ_simple_memory :: "kuaddr_t \<Rightarrow> kuaddr_t \<Rightarrow> mem \<Rightarrow> kuaddr_t option" where
  "check_employ_simple_memory h p m =
     (let b = p - MEM_BLOCK_HEADER_SIZE
      in if \<not> isValid b \<or> \<not> IS_MEMORYPOOL_VALID m b then Some 0
         else do { start \<leftarrow> find_base m h p;
                   Some (if isValid start then b else 0) })"

definition free_employ_simple_memory :: "kuaddr_t \<Rightarrow> kuaddr_t \<Rightarrow> mem \<Rightarrow> mem option" where
  "free_employ_simple_memory h p m =
     (if \<not> isValid p then Some m
      else do {
        b \<leftarrow> check_employ_simple_memory h p m;
        if \<not> isValid b then Some m
        else let prev = mb_prev (blk m b); nxt = mb_next (blk m b);
                 m = set_remain b (mb_lenth (blk m b)) m;
                 (b, m) = (if isValid prev
                           then let m = set_lenth prev (mb_lenth (blk m prev) + mb_lenth (blk m b)) m;
                                    m = set_remain prev (mb_remain (blk m prev) + mb_remain (blk m b)) m;
                                    m = set_next prev (mb_next (blk m b)) m
                                in (prev, m)
                           else (b, m))
             in Some (if isValid nxt \<and> mb_lenth (blk m nxt) = mb_remain (blk m nxt)
                      then let m = set_next b (mb_next (blk m nxt)) m;
                               m = set_lenth b (mb_lenth (blk m b) + mb_lenth (blk m nxt)) m;
                               m = set_remain b (mb_remain (blk m nxt)) m
                           in m
                      else m) })"

section \<open>Reading back what was written\<close>

lemma st32_other:
  assumes "x \<notin> {a, a + 1, a + 2, a + 3}"
  shows "st32 a v m x = m x"
  using assms by (simp add: st32_def)

lemma ld32_st32_same [simp]: "ld32 (st32 a v m) a = v"
proof (rule bit_word_eqI)
  fix n assume "n < LENGTH(32)"
  then have n: "n < 32" by simp
  consider "n < 8" | "8 \<le> n" "n < 16" | "16 \<le> n" "n < 24" | "24 \<le> n" by linarith
  then show "bit (ld32 (st32 a v m) a) n = bit v n"
    using n by cases (simp_all add: ld32_def st32_def bit_or_iff bit_push_bit_iff bit_ucast_iff bit_drop_bit_eq less_diff_conv2)
qed

definition sep :: "kuaddr_t \<Rightarrow> kuaddr_t \<Rightarrow> bool" where
  "sep b c \<longleftrightarrow> 24 \<le> c - b \<and> 24 \<le> b - c"

lemma sep_neq:
  assumes "sep b c" and "i < 24" and "j < 24"
  shows "b + i \<noteq> c + j"
proof
  assume e: "b + i = c + j"
  have "c - b = i - j" "b - c = j - i" using e by (simp_all add: algebra_simps) 
  then have "24 \<le> i - j" "24 \<le> j - i" using assms(1) by (simp_all add: sep_def)
  with assms(2,3) show False
    by (cases "i \<le> j") (auto simp: word_le_nat_alt word_less_nat_alt unat_sub_if' split: if_splits)
qed

lemma ld32_st32_neq:
  assumes "\<And>k l. k \<in> {0, 1, 2, 3} \<Longrightarrow> l \<in> {0, 1, 2, 3} \<Longrightarrow> c + l \<noteq> a + k"
  shows "ld32 (st32 a v m) c = ld32 m c"
proof -
  have "st32 a v m (c + l) = m (c + l)" if "l \<in> {0, 1, 2, 3}" for l
    by (rule st32_other) (use assms [of 0 l] assms [of 1 l] assms [of 2 l] assms [of 3 l] that in simp)
  from this [of 0] this [of 1] this [of 2] this [of 3] show ?thesis by (simp add: ld32_def)
qed

lemma field_byte:
  fixes i k :: kuaddr_t
  assumes "i \<in> {0, 4, 8, 12, 16, 20}" and "k \<in> {0, 1, 2, 3}"
  shows "i + k < 24"
  using assms by auto

lemma ld32_st32_sep:
  assumes "sep b c" and "i \<in> {0, 4, 8, 12, 16, 20}" and "j \<in> {0, 4, 8, 12, 16, 20}"
  shows "ld32 (st32 (b + i) v m) (c + j) = ld32 m (c + j)"
proof (rule ld32_st32_neq)
  fix k l :: kuaddr_t assume "k \<in> {0, 1, 2, 3}" "l \<in> {0, 1, 2, 3}"
  then show "c + j + l \<noteq> b + i + k"
    using sep_neq [OF assms(1) field_byte field_byte, OF assms(2) _ assms(3), of k l] by (metis add.assoc)
qed

lemma ld32_st32_field:
  assumes "\<forall>k \<in> {0, 1, 2, 3}. \<forall>l \<in> {0, 1, 2, 3}. j + l \<noteq> i + k"
  shows "ld32 (st32 (b + i) v m) (b + j) = ld32 m (b + j)"
proof (rule ld32_st32_neq)
  fix k l :: kuaddr_t assume "k \<in> {0, 1, 2, 3}" "l \<in> {0, 1, 2, 3}"
  then have "j + l \<noteq> i + k" using assms by blast
  then show "b + j + l \<noteq> b + i + k" by (simp add: add.assoc)
qed

lemmas ld32_st32_field0 = ld32_st32_field [where i = 0, simplified] ld32_st32_field [where j = 0, simplified]

lemmas blk_writers = set_magic_def set_base_def set_lenth_def set_remain_def set_prev_def set_next_def

lemma blk_same [simp]:
  "blk (set_magic b v m) b = (blk m b)\<lparr>mb_magic := v\<rparr>"
  "blk (set_base b v m) b = (blk m b)\<lparr>mb_base := v\<rparr>"
  "blk (set_lenth b v m) b = (blk m b)\<lparr>mb_lenth := v\<rparr>"
  "blk (set_remain b v m) b = (blk m b)\<lparr>mb_remain := v\<rparr>"
  "blk (set_prev b v m) b = (blk m b)\<lparr>mb_prev := v\<rparr>"
  "blk (set_next b v m) b = (blk m b)\<lparr>mb_next := v\<rparr>"
  by (simp_all add: blk_def blk_writers ld32_st32_field ld32_st32_field0)

lemma blk_sep [simp]:
  assumes "sep b c"
  shows "blk (set_magic b v m) c = blk m c"
    and "blk (set_base b v m) c = blk m c"
    and "blk (set_lenth b v m) c = blk m c"
    and "blk (set_remain b v m) c = blk m c"
    and "blk (set_prev b v m) c = blk m c"
    and "blk (set_next b v m) c = blk m c"
  using ld32_st32_sep [OF assms, of 0] ld32_st32_sep [OF assms, of _ 0] ld32_st32_sep [OF assms, of 0 0] ld32_st32_sep [OF assms]
  by (simp_all add: blk_def blk_writers)

section \<open>Pools as lists of blocks\<close>

text \<open>
  The specification sees a pool as the list of its blocks: how long each is, how much of it is spare, and its back link.
  \<open>seg m a bs z\<close> says that the headers of the blocks \<open>bs\<close> lie in memory end to end from address \<open>a\<close> on,
  and that the last one links to \<open>z\<close>.
\<close>

record ablk =
  al :: nat
  ar :: nat
  ap :: kuaddr_t

definition hdr :: "mem \<Rightarrow> nat \<Rightarrow> ablk \<Rightarrow> nat \<Rightarrow> bool" where
  "hdr m a b nx \<longleftrightarrow> blk m (of_nat a) =
     \<lparr>mb_magic = MEMORY_POOL_MAGIC, mb_base = of_nat (a + 24), mb_lenth = of_nat (al b), mb_remain = of_nat (ar b),
      mb_prev = ap b, mb_next = of_nat nx\<rparr>"

fun seg :: "mem \<Rightarrow> nat \<Rightarrow> ablk list \<Rightarrow> nat \<Rightarrow> bool" where
  "seg m a [] z \<longleftrightarrow> True"
| "seg m a (b # bs) z \<longleftrightarrow> hdr m a b (if bs = [] then z else a + al b) \<and> seg m (a + al b) bs z"

definition total :: "ablk list \<Rightarrow> nat" where
  "total bs = sum_list (map al bs)"

definition blk_ok :: "ablk \<Rightarrow> bool" where
  "blk_ok b \<longleftrightarrow> 24 \<le> al b \<and> (ar b = al b \<or> ar b + 24 \<le> al b) \<and> 4 dvd al b - ar b"

definition POOL_LIMIT :: nat where "POOL_LIMIT = 2 ^ 32 - 4096"

definition pool_ok :: "mem \<Rightarrow> nat \<Rightarrow> ablk list \<Rightarrow> bool" where
  "pool_ok m a bs \<longleftrightarrow> bs \<noteq> [] \<and> seg m a bs 0 \<and> (\<forall>b \<in> set bs. blk_ok b) \<and> (\<forall>b \<in> set (butlast bs). 4 dvd al b) \<and>
     4 dvd a \<and> 0 < a \<and> a + total bs < POOL_LIMIT"

text \<open>Where a request of \<open>n\<close> bytes, header included, is served: by the first block with enough spare memory.  An idle
  block is used as it is, the spare part of another becomes a block of its own.\<close>

fun abs_alloc :: "nat \<Rightarrow> nat \<Rightarrow> ablk list \<Rightarrow> (nat \<times> ablk list) option" where
  "abs_alloc n a [] = None"
| "abs_alloc n a (b # bs) =
     (if n \<le> ar b
      then if ar b = al b then Some (a + 24, b\<lparr>ar := ar b - n\<rparr> # bs)
           else Some (a + (al b - ar b) + 24,
                      b\<lparr>al := al b - ar b, ar := 0\<rparr> # \<lparr>al = ar b, ar = ar b - n, ap = of_nat a\<rparr> # bs)
      else map_option (\<lambda>(p, bs). (p, b # bs)) (abs_alloc n (a + al b) bs))"

text \<open>The areas in use, each with its address and size.\<close>

fun live :: "nat \<Rightarrow> ablk list \<Rightarrow> (nat \<times> nat) list" where
  "live a [] = []"
| "live a (b # bs) = (if ar b = al b then [] else [(a + 24, al b - ar b - 24)]) @ live (a + al b) bs"

fun heads :: "nat \<Rightarrow> ablk list \<Rightarrow> nat list" where
  "heads a [] = []"
| "heads a (b # bs) = a # heads (a + al b) bs"

lemma total_simps [simp]: "total [] = 0" "total (b # bs) = al b + total bs" "total (xs @ ys) = total xs + total ys"
  by (simp_all add: total_def)

lemma seg_append [simp]:
  "seg m a (xs @ ys) z \<longleftrightarrow> seg m a xs (if ys = [] then z else a + total xs) \<and> seg m (a + total xs) ys z"
  by (induction xs arbitrary: a) (auto simp: add.assoc)

lemma heads_append [simp]: "heads a (xs @ ys) = heads a xs @ heads (a + total xs) ys"
  by (induction xs arbitrary: a) (auto simp: add.assoc)

lemma live_append [simp]: "live a (xs @ ys) = live a xs @ live (a + total xs) ys"
  by (induction xs arbitrary: a) (auto simp: add.assoc)

lemma seg_cong:
  assumes "\<And>h. h \<in> set (heads a bs) \<Longrightarrow> blk m' (of_nat h) = blk m (of_nat h)"
  shows "seg m' a bs z = seg m a bs z"
  using assms by (induction bs arbitrary: a) (simp_all add: hdr_def)

lemma heads_inside:
  assumes "h \<in> set (heads a bs)" and "\<forall>b \<in> set bs. blk_ok b"
  shows "a \<le> h \<and> h + 24 \<le> a + total bs"
  using assms by (induction bs arbitrary: a) (force simp: blk_ok_def)+

lemma unat_pool: "x < POOL_LIMIT \<Longrightarrow> unat (of_nat x :: kuaddr_t) = x"
  by (simp add: POOL_LIMIT_def unat_of_nat)

lemma isValid_of_nat: "0 < x \<Longrightarrow> x < POOL_LIMIT \<Longrightarrow> isValid (of_nat x)"
  by (simp add: isValid_def IS_ERR_def word_le_nat_alt unat_pool word_unat_eq_iff) (simp add: POOL_LIMIT_def)

lemma isValid_0 [simp]: "\<not> isValid 0"
  by (simp add: isValid_def)

lemma sep_of_nat:
  assumes "x + 24 \<le> y \<or> y + 24 \<le> x" and "x + 24 \<le> POOL_LIMIT" and "y + 24 \<le> POOL_LIMIT"
  shows "sep (of_nat x) (of_nat y)"
  using assms by (auto simp: sep_def word_le_nat_alt unat_sub_if' unat_pool) (auto simp: POOL_LIMIT_def)

lemma header_size [simp]: "MEM_BLOCK_HEADER_SIZE = 24"
  by (simp add: MEM_BLOCK_HEADER_SIZE_def mrt_align_def)

text \<open>Writing a header leaves every byte outside it alone.\<close>

lemma st32_field_far:
  assumes "24 \<le> x - b" and "i \<in> {0, 4, 8, 12, 16, 20}"
  shows "st32 (b + i) v m x = m x"
proof -
  have "x \<noteq> b + i + k" if "k \<in> {0, 1, 2, 3}" for k
    using field_byte [OF assms(2) that] assms(1) by (auto simp: add.assoc)
  from this [of 0] this [of 1] this [of 2] this [of 3] show ?thesis by (intro st32_other) simp
qed

lemma writers_far [simp]:
  assumes "24 \<le> x - b"
  shows "set_magic b v m x = m x" and "set_base b v m x = m x" and "set_lenth b v m x = m x"
    and "set_remain b v m x = m x" and "set_prev b v m x = m x" and "set_next b v m x = m x"
  using st32_field_far [OF assms, of 0] by (simp_all add: blk_writers st32_field_far [OF assms])

lemma far_of_nat:
  assumes "x < h \<or> h + 24 \<le> x" and "h + 24 \<le> POOL_LIMIT" and "x < POOL_LIMIT"
  shows "24 \<le> (of_nat x :: kuaddr_t) - of_nat h"
  using assms by (auto simp: word_le_nat_alt unat_sub_if' unat_pool) (auto simp: POOL_LIMIT_def)

section \<open>Allocating\<close>

lemma find_spare_skip:
  assumes "seg m a (xs @ ys) 0" and "\<forall>b \<in> set (xs @ ys). blk_ok b" and "a + total (xs @ ys) \<le> POOL_LIMIT" and "0 < a"
    and "\<forall>x \<in> set xs. ar x < n" and "n < 2 ^ 32"
  shows "find_spare m (of_nat a) (of_nat n) =
     (if ys = [] \<and> xs \<noteq> [] then Some 0 else find_spare m (of_nat (a + total xs)) (of_nat n))"
  using assms
proof (induction xs arbitrary: a)
  case (Cons b xs)
  have b: "hdr m a b (if xs @ ys = [] then 0 else a + al b)" "24 \<le> al b" "ar b \<le> al b" "ar b < n"
    using Cons.prems by (auto simp: blk_ok_def)
  have v: "isValid (of_nat a)" using Cons.prems b by (intro isValid_of_nat) auto
  have "\<not> (of_nat n :: kuint32_t) \<le> of_nat (ar b)"
    using b Cons.prems by (simp add: word_le_nat_alt unat_pool unat_of_nat)
  then have step: "find_spare m (of_nat a) (of_nat n) = find_spare m (if xs @ ys = [] then 0 else of_nat (a + al b)) (of_nat n)"
    by (subst find_spare.simps) (use v b(1) in \<open>simp add: hdr_def\<close>)
  show ?case
  proof (cases "xs @ ys = []")
    case True
    then show ?thesis using step by (simp add: find_spare.simps)
  next
    case False
    then show ?thesis using step Cons.IH [of "a + al b"] Cons.prems b by (auto simp: add.assoc)
  qed
qed simp

lemma find_spare_found:
  assumes "hdr m a b z" and "n \<le> ar b" and "ar b \<le> al b" and "24 \<le> al b" and "0 < a" and "a + al b \<le> POOL_LIMIT"
  shows "find_spare m (of_nat a) (of_nat n) = Some (of_nat a)"
proof -
  have v: "isValid (of_nat a)" using assms by (intro isValid_of_nat) auto
  have "ar b < POOL_LIMIT" "n < POOL_LIMIT" using assms by auto
  then have "(of_nat n :: kuint32_t) \<le> of_nat (ar b)" using assms(2) by (simp add: word_le_nat_alt unat_pool)
  then show ?thesis by (subst find_spare.simps) (use v assms(1) in \<open>simp add: hdr_def\<close>)
qed

lemma word_of_nat_neq:
  assumes "x \<noteq> y" and "x < POOL_LIMIT" and "y < POOL_LIMIT"
  shows "(of_nat x :: kuint32_t) \<noteq> of_nat y"
  using assms unat_pool by metis

lemma take_spare_idle:
  assumes "hdr m h b z" and "ar b = al b" and "n \<le> al b"
  shows "take_spare (of_nat h) (of_nat n) m = (of_nat (h + 24), set_remain (of_nat h) (of_nat (al b - n)) m)"
    and "hdr (set_remain (of_nat h) (of_nat (al b - n)) m) h (b\<lparr>ar := al b - n\<rparr>) z"
  using assms by (simp_all add: take_spare_def hdr_def of_nat_diff)

lemma take_spare_split:
  assumes "hdr m h b z" and "ar b \<noteq> al b" and "blk_ok b" and "n \<le> ar b" and "24 \<le> n" and "0 < h" and "h + al b \<le> POOL_LIMIT"
  defines "k \<equiv> h + (al b - ar b)"
  obtains m' where "take_spare (of_nat h) (of_nat n) m = (of_nat (k + 24), m')"
    and "hdr m' h (b\<lparr>al := al b - ar b, ar := 0\<rparr>) k"
    and "hdr m' k \<lparr>al = ar b, ar = ar b - n, ap = of_nat h\<rparr> z"
    and "\<And>c. sep (of_nat h) c \<Longrightarrow> sep (of_nat k) c \<Longrightarrow> blk m' c = blk m c"
    and "\<And>x. 24 \<le> x - of_nat h \<Longrightarrow> 24 \<le> x - of_nat k \<Longrightarrow> m' x = m x"
proof -
  have len: "24 \<le> al b" "ar b + 24 \<le> al b" "24 \<le> ar b" using assms by (auto simp: blk_ok_def)
  let ?h = "of_nat h :: kuaddr_t" and ?k = "of_nat k :: kuaddr_t"
  have neq: "(of_nat (al b) :: kuint32_t) \<noteq> of_nat (ar b)" using assms len by (intro word_of_nat_neq) auto
  have off: "(of_nat (al b) :: kuint32_t) - of_nat (ar b) = of_nat (al b - ar b)" using len by (simp add: of_nat_diff)
  have p: "(of_nat h + 24 + of_nat (al b - ar b) :: kuaddr_t) = of_nat k + 24" unfolding k_def by (simp only: of_nat_add ac_simps)
  have kb: "h + 24 \<le> k" "k + 24 \<le> POOL_LIMIT" "h + 24 \<le> POOL_LIMIT" using assms(7) len by (simp_all add: k_def)
  have s: "sep ?h ?k" "sep ?k ?h" by (rule sep_of_nat; use kb in simp)+
  let ?m1 = "set_magic ?k MEMORY_POOL_MAGIC (set_next ?k (of_nat z) (set_prev ?k ?h (set_remain ?k (of_nat (ar b - n))
      (set_lenth ?k (of_nat (ar b)) (set_base ?k (of_nat (k + 24)) m)))))"
  let ?m' = "set_next ?h ?k (set_remain ?h 0 (set_lenth ?h (of_nat (al b - ar b)) ?m1))"
  have "take_spare ?h (of_nat n) m = (of_nat (k + 24), ?m')"
    using assms(1) neq s assms(4) unfolding take_spare_def Let_def
    by (simp add: hdr_def off p of_nat_diff)
  moreover have "hdr ?m' h (b\<lparr>al := al b - ar b, ar := 0\<rparr>) k" using assms(1) s by (simp add: hdr_def)
  moreover have "hdr ?m' k \<lparr>al = ar b, ar = ar b - n, ap = of_nat h\<rparr> z" using s by (simp add: hdr_def)
  ultimately show thesis by (rule that) simp_all
qed

lemma abs_alloc_None: "abs_alloc n a bs = None \<longleftrightarrow> (\<forall>b \<in> set bs. ar b < n)"
  by (induction bs arbitrary: a) auto

lemma abs_alloc_Some:
  assumes "abs_alloc n a bs = Some (p, bs')"
  obtains xs b ys zs where "bs = xs @ b # ys" and "\<forall>x \<in> set xs. ar x < n" and "n \<le> ar b"
    and "abs_alloc n (a + total xs) [b] = Some (p, zs)" and "bs' = xs @ zs @ ys"
  using assms
proof (induction bs arbitrary: a bs' thesis)
  case (Cons c bs)
  show ?case
  proof (cases "n \<le> ar c")
    case True
    then have "\<exists>zs. abs_alloc n a [c] = Some (p, zs) \<and> bs' = zs @ bs" using Cons.prems(2) by (auto split: if_splits)
    then obtain zs where "abs_alloc n a [c] = Some (p, zs)" "bs' = zs @ bs" by blast
    then show ?thesis using True by (intro Cons.prems(1) [of "[]" c bs zs]) simp_all
  next
    case False
    then obtain bs'' where r: "abs_alloc n (a + al c) bs = Some (p, bs'')" "bs' = c # bs''" using Cons.prems(2) by auto
    from Cons.IH [OF _ r(1)] obtain xs b ys zs where "bs = xs @ b # ys" "\<forall>x \<in> set xs. ar x < n" "n \<le> ar b"
      "abs_alloc n (a + al c + total xs) [b] = Some (p, zs)" "bs'' = xs @ zs @ ys" by blast
    then show ?thesis using False r(2) by (intro Cons.prems(1) [of "c # xs" b ys zs]) (simp_all add: add.assoc)
  qed
qed simp

text \<open>Serving a request keeps the well-formedness of the list of blocks.\<close>

definition blks_ok :: "nat \<Rightarrow> ablk list \<Rightarrow> bool" where
  "blks_ok a bs \<longleftrightarrow> bs \<noteq> [] \<and> (\<forall>b \<in> set bs. blk_ok b) \<and> (\<forall>b \<in> set (butlast bs). 4 dvd al b) \<and>
     4 dvd a \<and> 0 < a \<and> a + total bs < POOL_LIMIT"

lemma pool_ok_iff: "pool_ok m a bs \<longleftrightarrow> seg m a bs 0 \<and> blks_ok a bs"
  by (auto simp: pool_ok_def blks_ok_def)

lemma abs_alloc_blk:
  assumes "abs_alloc n h [b] = Some (p, zs)" and "blk_ok b" and "24 \<le> n" and "4 dvd n"
  shows "total zs = al b" and "zs \<noteq> []" and "\<forall>z \<in> set zs. blk_ok z" and "\<forall>z \<in> set (butlast zs). 4 dvd al z"
    and "4 dvd al b \<Longrightarrow> 4 dvd al (last zs)" and "4 dvd h \<Longrightarrow> 4 dvd p" 
    and "set (live h zs) = insert (p, n - 24) (set (live h [b]))" and "length (live h zs) = Suc (length (live h [b]))"
proof -
  obtain u where u: "al b = ar b + u" using assms(2) le_Suc_ex by (fastforce simp: blk_ok_def)
  note f = assms(1) [unfolded u] assms(2) [unfolded blk_ok_def u]
  show "total zs = al b" "zs \<noteq> []" "\<forall>z \<in> set zs. blk_ok z" "\<forall>z \<in> set (butlast zs). 4 dvd al z"
    "set (live h zs) = insert (p, n - 24) (set (live h [b]))" "length (live h zs) = Suc (length (live h [b]))"
    using f assms(3,4) u by (auto simp: blk_ok_def split: if_splits)
  show "4 dvd al (last zs)" if "4 dvd al b" using that f assms(3,4) u by (auto simp: dvd_add_left_iff split: if_splits)
  show "4 dvd p" if "4 dvd h" using that f assms(3,4) u by (auto split: if_splits)
qed

lemma total_dvd: "\<forall>x \<in> set xs. 4 dvd al x \<Longrightarrow> 4 dvd total xs"
  by (induction xs) auto

lemma abs_alloc_ok:
  assumes "abs_alloc n a bs = Some (p, bs')" and "blks_ok a bs" and "24 \<le> n" and "4 dvd n"
  shows "blks_ok a bs'" and "total bs' = total bs" and "4 dvd p" and "set (live a bs') = insert (p, n - 24) (set (live a bs))"
    and "length (live a bs') = Suc (length (live a bs))"
proof -
  obtain xs b ys zs where s: "bs = xs @ b # ys" "abs_alloc n (a + total xs) [b] = Some (p, zs)" "bs' = xs @ zs @ ys"
    using abs_alloc_Some [OF assms(1)] by metis
  have ok: "\<forall>b \<in> set (xs @ [b] @ ys). blk_ok b" "\<forall>x \<in> set xs. 4 dvd al x" "ys \<noteq> [] \<Longrightarrow> 4 dvd al b"
    "\<forall>y \<in> set (butlast ys). 4 dvd al y" "4 dvd a" "0 < a" "a + total bs < POOL_LIMIT"
    using assms(2) s(1) by (auto simp: blks_ok_def butlast_append split: if_splits)
  note z = abs_alloc_blk [OF s(2) _ assms(3,4)]
  have b: "blk_ok b" using ok(1) by simp
  show t: "total bs' = total bs" using z(1) [OF b] s by simp
  have h: "4 dvd a + total xs" using ok(5) total_dvd [OF ok(2)] by simp
  then show "4 dvd p" using z(6) [OF b] by blast
  show "set (live a bs') = insert (p, n - 24) (set (live a bs))" "length (live a bs') = Suc (length (live a bs))"
    using z(1,7,8) [OF b] s(1,3) by auto
  have zs: "\<forall>z \<in> set zs. 4 dvd al z" if "ys \<noteq> []"
  proof -
    have "set zs = insert (last zs) (set (butlast zs))" using z(2) [OF b] append_butlast_last_id by (metis Un_insert_right list.simps(15) set_append sup_bot_right empty_set)
    then show ?thesis using z(4) [OF b] z(5) [OF b ok(3) [OF that]] by auto
  qed
  have "\<forall>b \<in> set (butlast bs'). 4 dvd al b" using s(3) zs z(4) [OF b] ok(2,4) z(2) [OF b] by (auto simp: butlast_append)
  then show "blks_ok a bs'" using t ok z(2,3) [OF b] s(3) by (auto simp: blks_ok_def)
qed

lemma live_inside:
  assumes "(q, l) \<in> set (live a bs)" and "\<forall>b \<in> set bs. blk_ok b"
  shows "a + 24 \<le> q \<and> q + l \<le> a + total bs"
  using assms by (induction bs arbitrary: a) (force simp: blk_ok_def split: if_splits)+

lemma live_disjoint:
  assumes "\<forall>b \<in> set bs. blk_ok b"
  shows "sorted_wrt (\<lambda>(p, l) (q, k). p + l + 24 \<le> q) (live a bs)"
  using assms
proof (induction bs arbitrary: a)
  case (Cons b bs)
  have "a + al b + 24 \<le> q" if "(q, k) \<in> set (live (a + al b) bs)" for q k
    using live_inside [OF that] Cons.prems by simp
  then show ?case using Cons by (fastforce simp: sorted_wrt_append blk_ok_def)
qed simp

lemma live_off_heads:
  assumes "(q, l) \<in> set (live a bs)" and "h \<in> set (heads a bs)" and "\<forall>b \<in> set bs. blk_ok b"
  shows "q + l \<le> h \<or> h + 24 \<le> q"
  using assms
proof (induction bs arbitrary: a)
  case (Cons b bs)
  have i: "h = a \<or> a + al b \<le> h \<and> h \<in> set (heads (a + al b) bs)"
    using Cons.prems heads_inside [of h "a + al b" bs] by auto
  have j: "(q, l) = (a + 24, al b - ar b - 24) \<and> ar b + 24 \<le> al b \<or> (q, l) \<in> set (live (a + al b) bs) \<and> a + al b + 24 \<le> q"
    using Cons.prems live_inside [of q l "a + al b" bs] by (auto simp: blk_ok_def split: if_splits)
  show ?case using i j Cons.IH [of "a + al b"] Cons.prems(3) by (auto simp: blk_ok_def)
qed simp

lemma seg_frame:
  assumes "seg m a bs z" and "\<forall>b \<in> set bs. blk_ok b" and "a + total bs \<le> POOL_LIMIT"
    and "\<And>c. sep (of_nat h) c \<Longrightarrow> sep (of_nat k) c \<Longrightarrow> blk m' c = blk m c"
    and "a + total bs \<le> h \<or> k + 24 \<le> a" and "h \<le> k" and "k + 24 \<le> POOL_LIMIT"
  shows "seg m' a bs z"
proof -
  have "blk m' (of_nat c) = blk m (of_nat c)" if "c \<in> set (heads a bs)" for c
    by (rule assms(4); rule sep_of_nat) (use heads_inside [OF that assms(2)] assms in auto)
  then show ?thesis using seg_cong assms(1) by blast
qed

lemma take_spare_refines:
  assumes "pool_ok m a (xs @ b # ys)" and "n \<le> ar b" and "24 \<le> n" and "abs_alloc n (a + total xs) [b] = Some (p, zs)"
  obtains m' where "take_spare (of_nat (a + total xs)) (of_nat n) m = (of_nat p, m')" and "seg m' a (xs @ zs @ ys) 0"
    and "\<And>x. x < POOL_LIMIT \<Longrightarrow> \<forall>h \<in> set (heads (a + total xs) zs). x < h \<or> h + 24 \<le> x \<Longrightarrow> m' (of_nat x) = m (of_nat x)"
proof -
  let ?h = "a + total xs" and ?z = "if ys = [] then 0 else a + total xs + al b"
  have ok: "blk_ok b" "\<forall>x \<in> set xs. blk_ok x" "\<forall>y \<in> set ys. blk_ok y" "0 < a" "a + (total xs + (al b + total ys)) \<le> POOL_LIMIT"
    and sg: "seg m a xs ?h" "hdr m ?h b ?z" "seg m (?h + al b) ys 0"
    using assms(1) by (auto simp: pool_ok_def)
  have len: "24 \<le> al b" "ar b \<le> al b" using ok(1) by (auto simp: blk_ok_def)
  show thesis
  proof (cases "ar b = al b")
    case True
    let ?m = "set_remain (of_nat ?h) (of_nat (al b - n)) m"
    have z: "zs = [b\<lparr>ar := ar b - n\<rparr>]" "p = ?h + 24" using assms(2,4) True by auto
    note t = take_spare_idle [OF sg(2) True, of n]
    have fr: "blk ?m c = blk m c" if "sep (of_nat ?h) c" for c using that by simp
    have "seg ?m a xs ?h" "seg ?m (?h + al b) ys 0"
      by (rule seg_frame [of m _ _ _ ?h ?h]; use ok sg fr len in simp)+
    then have "seg ?m a (xs @ zs @ ys) 0" using t(2) assms(2) True z(1) by (simp split: if_splits)
    moreover have "?m (of_nat x) = m (of_nat x)" if "x < POOL_LIMIT" "\<forall>h \<in> set (heads ?h zs). x < h \<or> h + 24 \<le> x" for x
      by (rule writers_far(4), rule far_of_nat) (use that z(1) ok(5) len in auto)
    ultimately show ?thesis using that [of ?m] t(1) assms(2) True z(2) by auto
  next
    case False
    define h where "h = a + total xs"
    define k where "k = h + (al b - ar b)"
    have b: "ar b + 24 \<le> al b" using ok(1) False by (auto simp: blk_ok_def)
    have z: "zs = [b\<lparr>al := al b - ar b, ar := 0\<rparr>, \<lparr>al = ar b, ar = ar b - n, ap = of_nat h\<rparr>]" "p = k + 24"
      using assms(2,4) False by (auto simp: h_def k_def)
    have lim: "h + al b \<le> POOL_LIMIT" "0 < h" using ok(4,5) by (auto simp: h_def)
    note sg = sg [folded h_def]
    obtain m' where t: "take_spare (of_nat h) (of_nat n) m = (of_nat (k + 24), m')"
      "hdr m' h (b\<lparr>al := al b - ar b, ar := 0\<rparr>) k" "hdr m' k \<lparr>al = ar b, ar = ar b - n, ap = of_nat h\<rparr> (if ys = [] then 0 else h + al b)"
      "\<And>c. sep (of_nat h) c \<Longrightarrow> sep (of_nat k) c \<Longrightarrow> blk m' c = blk m c"
      "\<And>x. 24 \<le> x - of_nat h \<Longrightarrow> 24 \<le> x - of_nat k \<Longrightarrow> m' x = m x"
      using take_spare_split [OF sg(2) False ok(1) assms(2,3) lim(2,1)] k_def by metis
    have k: "k + ar b = h + al b" "k + 24 \<le> h + al b" "h \<le> k" using b assms(2,3) by (auto simp: k_def)
    have fx: "seg m' a xs h"
      by (rule seg_frame [OF sg(1) ok(2), of h k]; (rule t(4))?) (use k lim in \<open>auto simp: h_def\<close>)
    have fy: "seg m' (h + al b) ys 0"
      by (rule seg_frame [OF sg(3) ok(3), of h k]; (rule t(4))?) (use k lim ok(5) in \<open>auto simp: h_def\<close>)
    have "h + (al b - ar b) = k" "h + al b - ar b = k" using b by (simp_all add: k_def)
    then have "seg m' a (xs @ zs @ ys) 0" using t(2,3) z(1) fx fy k(1) by (simp add: h_def [symmetric] split: if_splits)
    moreover have "m' (of_nat x) = m (of_nat x)" if "x < POOL_LIMIT" "\<forall>h \<in> set (heads ?h zs). x < h \<or> h + 24 \<le> x" for x
      by (rule t(5); rule far_of_nat) (use that z(1) k lim in \<open>auto simp: h_def [symmetric] k_def [symmetric]\<close>)
    ultimately show ?thesis using that [of m'] t(1) z(2) h_def by auto
  qed
qed

lemma sorted_wrt_irrefl_distinct:
  assumes "sorted_wrt R xs" and "\<And>x. \<not> R x x"
  shows "distinct xs"
  using assms(1) by (induction xs) (use assms(2) in auto)

lemma live_fresh:
  assumes "\<forall>b \<in> set bs'. blk_ok b" and "set (live a bs') = insert (p, n) (set (live a bs))"
    and "length (live a bs') = Suc (length (live a bs))" and "(q, l) \<in> set (live a bs)"
  shows "p + n + 24 \<le> q \<or> q + l + 24 \<le> p"
proof -
  have "(q, l) \<noteq> (p, n)"
  proof
    assume "(q, l) = (p, n)"
    then have "set (live a bs') = set (live a bs)" using assms(2,4) by auto
    moreover have "distinct (live a bs')"
      by (rule sorted_wrt_irrefl_distinct [OF live_disjoint [OF assms(1)]]) auto
    ultimately show False using assms(3) distinct_card [of "live a bs'"] card_length [of "live a bs"] by simp
  qed
  moreover have "(q, l) \<in> set (live a bs')" "(p, n) \<in> set (live a bs')" using assms(2,4) by auto
  ultimately obtain i j where ij: "i < length (live a bs')" "j < length (live a bs')" "i \<noteq> j" "live a bs' ! i = (q, l)" "live a bs' ! j = (p, n)"
    by (metis in_set_conv_nth)
  have "\<And>i j. i < j \<Longrightarrow> j < length (live a bs') \<Longrightarrow> (case live a bs' ! i of (p, l) \<Rightarrow> \<lambda>(q, k). p + l + 24 \<le> q) (live a bs' ! j)"
    using live_disjoint [OF assms(1), of a] by (simp add: sorted_wrt_iff_nth_less)
  from this [of i j] this [of j i] ij show ?thesis by (cases "i < j") auto
qed

text \<open>The number of bytes a request takes from the pool: rounded up to words, and a header.\<close>

definition request :: "kuint32_t \<Rightarrow> nat" where
  "request sz = (unat sz + 3) div 4 * 4 + 24"

lemma request_word:
  assumes "unat sz + 28 \<le> 2 ^ 32"
  shows "mrt_align sz 4 + MEM_BLOCK_HEADER_SIZE = of_nat (request sz)" and "request sz < 2 ^ 32" and "24 \<le> request sz" and "4 dvd request sz"
proof -
  have "unat (mrt_align sz (2 ^ 2)) = (unat sz + 2 ^ 2 - 1) div 2 ^ 2 * 2 ^ 2" by (rule unat_mrt_align) (use assms in simp_all)
  then have "unat (mrt_align sz 4) = (unat sz + 3) div 4 * 4" by simp
  then have "mrt_align sz 4 = of_nat ((unat sz + 3) div 4 * 4)" by (metis of_nat_unat ucast_id)
  then show "mrt_align sz 4 + MEM_BLOCK_HEADER_SIZE = of_nat (request sz)" by (simp add: request_def)
  show "request sz < 2 ^ 32" "24 \<le> request sz" "4 dvd request sz" using assms unfolding request_def by (linarith, simp_all)
qed

lemma alloc_refines:
  assumes "pool_ok m a bs" and "unat sz + 28 \<le> 2 ^ 32"
  shows "case abs_alloc (request sz) a bs of
       None \<Rightarrow> alloc_spare_simple_memory (of_nat a) sz m = Some (0, m)
     | Some (p, bs') \<Rightarrow> \<exists>m'. alloc_spare_simple_memory (of_nat a) sz m = Some (of_nat p, m') \<and> pool_ok m' a bs' \<and>
         (\<forall>x. x < POOL_LIMIT \<and> (\<forall>h \<in> set (heads a bs'). x < h \<or> h + 24 \<le> x) \<longrightarrow> m' (of_nat x) = m (of_nat x))"
proof -
  note n = request_word [OF assms(2)]
  have ok: "bs \<noteq> []" "seg m a bs 0" "\<forall>b \<in> set bs. blk_ok b" "0 < a" "a + total bs \<le> POOL_LIMIT"
    and bok: "blks_ok a bs" using assms(1) by (auto simp: pool_ok_def blks_ok_def)
  have "a < POOL_LIMIT" using ok by (cases bs) (auto simp: blk_ok_def)
  then have v: "isValid (of_nat a)" using ok(4) by (intro isValid_of_nat)
  show ?thesis
  proof (cases "abs_alloc (request sz) a bs")
    case None
    then have "find_spare m (of_nat a) (of_nat (request sz)) = Some 0"
      using find_spare_skip [of m a bs "[]"] ok n(2) by (auto simp: abs_alloc_None)
    then show ?thesis using None v n(1) by (simp add: alloc_spare_simple_memory_def)
  next
    case (Some r)
    then obtain p bs' where r: "abs_alloc (request sz) a bs = Some (p, bs')" by (cases r) auto
    obtain xs b ys zs where s: "bs = xs @ b # ys" "\<forall>x \<in> set xs. ar x < request sz" "request sz \<le> ar b"
      "abs_alloc (request sz) (a + total xs) [b] = Some (p, zs)" "bs' = xs @ zs @ ys"
      using abs_alloc_Some [OF r] by metis
    have b: "hdr m (a + total xs) b (if ys = [] then 0 else a + total xs + al b)" "24 \<le> al b" "ar b \<le> al b" "a + total xs + al b \<le> POOL_LIMIT"
      using ok s(1) by (auto simp: blk_ok_def)
    have f: "find_spare m (of_nat a) (of_nat (request sz)) = Some (of_nat (a + total xs))"
      using find_spare_skip [of m a xs "b # ys"] find_spare_found [OF b(1) s(3) b(3,2) _ b(4)] ok s(1,2) n(2) by simp
    have vb: "isValid (of_nat (a + total xs))" by (rule isValid_of_nat) (use ok(4) b(2,4) in auto)
    obtain m' where m': "take_spare (of_nat (a + total xs)) (of_nat (request sz)) m = (of_nat p, m')" "seg m' a (xs @ zs @ ys) 0"
      "\<And>x. x < POOL_LIMIT \<Longrightarrow> \<forall>h \<in> set (heads (a + total xs) zs). x < h \<or> h + 24 \<le> x \<Longrightarrow> m' (of_nat x) = m (of_nat x)"
      using take_spare_refines [OF assms(1) [unfolded s(1)] s(3) n(3) s(4)] by blast
    have "alloc_spare_simple_memory (of_nat a) sz m = Some (of_nat p, m')"
      using v f vb m'(1) n(1) by (simp only: alloc_spare_simple_memory_def) simp
    moreover have "pool_ok m' a bs'" using m'(2) abs_alloc_ok(1) [OF r bok n(3,4)] s(5) by (simp add: pool_ok_iff)
    ultimately show ?thesis using r m'(3) s(5) by auto
  qed
qed


section \<open>Freeing\<close>

lemma find_base_head:
  assumes "seg m a bs 0" and "\<forall>b \<in> set bs. blk_ok b" and "a + total bs \<le> POOL_LIMIT" and "0 < a" and "h \<in> set (heads a bs)"
  shows "\<exists>c. find_base m (of_nat a) (of_nat (h + 24)) = Some c \<and> isValid c"
  using assms
proof (induction bs arbitrary: a)
  case (Cons b bs)
  have b: "hdr m a b (if bs = [] then 0 else a + al b)" "24 \<le> al b" using Cons.prems by (auto simp: blk_ok_def)
  have v: "isValid (of_nat a)" using Cons.prems b by (intro isValid_of_nat) auto
  show ?case
  proof (cases "mb_base (blk m (of_nat a)) = of_nat (h + 24)")
    case True
    then show ?thesis by (subst find_base.simps) (use v in simp)
  next
    case False
    then have "h \<noteq> a" using b(1) by (auto simp: hdr_def)
    then have h: "h \<in> set (heads (a + al b) bs)" "bs \<noteq> []" using Cons.prems(5) by auto
    have "find_base m (of_nat a) (of_nat (h + 24)) = find_base m (of_nat (a + al b)) (of_nat (h + 24))"
      by (subst find_base.simps) (use v b(1) False h(2) in \<open>simp add: hdr_def\<close>)
    then show ?thesis using Cons.IH [of "a + al b"] Cons.prems h by simp
  qed
qed simp

lemma check_employ_head:
  assumes "seg m a bs 0" and "\<forall>b \<in> set bs. blk_ok b" and "a + total bs \<le> POOL_LIMIT" and "0 < a" and "h \<in> set (heads a bs)"
    and "hdr m h b z"
  shows "check_employ_simple_memory (of_nat a) (of_nat (h + 24)) m = Some (of_nat h)"
proof -
  have "isValid (of_nat h)" using heads_inside [OF assms(5,2)] assms(3,4) by (intro isValid_of_nat) auto
  then show ?thesis
    using find_base_head [OF assms(1-5)] assms(6)
    by (auto simp: check_employ_simple_memory_def IS_MEMORYPOOL_VALID_def hdr_def)
qed

definition settled :: "ablk list \<Rightarrow> bool" where
  "settled bs \<longleftrightarrow> (\<forall>b \<in> set (tl bs). ar b \<noteq> al b)"

text \<open>Freeing the first block of a pool makes it idle.\<close>

lemma free_first:
  assumes "pool_ok m a (b # bs)" and "ap b = 0" and "settled (b # bs)"
  obtains m' where "free_employ_simple_memory (of_nat a) (of_nat (a + 24)) m = Some m'" and "pool_ok m' a (b\<lparr>ar := al b\<rparr> # bs)"
    and "\<And>x. 24 \<le> x - of_nat a \<Longrightarrow> m' x = m x"
proof -
  have ok: "blks_ok a (b # bs)" "\<forall>b \<in> set (b # bs). blk_ok b" "0 < a" "a + (al b + total bs) < POOL_LIMIT" "24 \<le> al b"
    and sg: "hdr m a b (if bs = [] then 0 else a + al b)" "seg m (a + al b) bs 0"
    using assms(1) by (auto simp: pool_ok_iff blks_ok_def blk_ok_def)
  let ?m = "set_remain (of_nat a) (of_nat (al b)) m"
  have v: "isValid (of_nat a)" "isValid (of_nat (a + 24))" by (rule isValid_of_nat; use ok in linarith)+
  have c: "check_employ_simple_memory (of_nat a) (of_nat (a + 24)) m = Some (of_nat a)"
    by (rule check_employ_head [of m a "b # bs" a b "if bs = [] then 0 else a + al b"]) (use ok sg in simp_all)
  have fr: "blk ?m c = blk m c" if "sep (of_nat a) c" for c using that by simp
  have s: "seg ?m (a + al b) bs 0" by (rule seg_frame [OF sg(2), of a a]) (use ok fr in simp_all)
  have nx: "mb_lenth (blk ?m (of_nat (a + al b))) \<noteq> mb_remain (blk ?m (of_nat (a + al b)))" if ne: "bs \<noteq> []"
  proof -
    obtain y ys where y: "bs = y # ys" using ne by (cases bs) auto
    have "ar y \<noteq> al y" "al y < POOL_LIMIT" "ar y < POOL_LIMIT" using assms(3) ok y by (auto simp: settled_def blk_ok_def)
    then show ?thesis using s y word_of_nat_neq [of "al y" "ar y"] by (simp add: hdr_def)
  qed
  have "free_employ_simple_memory (of_nat a) (of_nat (a + 24)) m = Some ?m"
    using v c sg(1) assms(2) nx by (simp add: free_employ_simple_memory_def hdr_def)
  moreover have "hdr ?m a (b\<lparr>ar := al b\<rparr>) (if bs = [] then 0 else a + al b)" using sg(1) by (simp add: hdr_def)
  then have "pool_ok ?m a (b\<lparr>ar := al b\<rparr> # bs)" using s ok(1) by (auto simp: pool_ok_iff blks_ok_def blk_ok_def)
  ultimately show thesis by (rule that) simp
qed

text \<open>Freeing another block adds it to the one its back link names.\<close>

lemma free_merge:
  assumes "pool_ok m a (xs @ y # ws @ b # ys)" and "ap b = of_nat (a + total xs)" and "ws = [] \<or> ys = []"
    and "settled (xs @ y # ws @ b # ys)"
  defines "h \<equiv> a + total xs + al y + total ws"
  obtains m' where "free_employ_simple_memory (of_nat a) (of_nat (h + 24)) m = Some m'"
    and "seg m' a (xs @ y\<lparr>al := al y + al b, ar := ar y + al b\<rparr> # ys) 0"
    and "\<And>x. 24 \<le> x - of_nat (a + total xs) \<Longrightarrow> 24 \<le> x - of_nat h \<Longrightarrow> m' x = m x"
proof -
  define g where "g = a + total xs"
  define z where "z = (if ys = [] then 0 else h + al b)"
  have ok: "\<forall>b \<in> set (xs @ y # ws @ b # ys). blk_ok b" "0 < a" "a + total (xs @ y # ws @ b # ys) < POOL_LIMIT" "24 \<le> al y" "24 \<le> al b"
    and sg: "seg m a (xs @ y # ws @ b # ys) 0" "seg m a xs g" "hdr m g y (g + al y)" "hdr m h b z" "seg m (h + al b) ys 0"
    using assms(1) by (auto simp: pool_ok_def blk_ok_def g_def h_def z_def)
  have lim: "0 < g" "g + al y \<le> h" "h + al b + total ys < POOL_LIMIT" using ok(2,3) by (auto simp: g_def h_def)
  have v: "isValid (of_nat g)" "isValid (of_nat h)" "isValid (of_nat (h + 24))" by (rule isValid_of_nat; use ok lim in linarith)+
  have s: "sep (of_nat g) (of_nat h)" "sep (of_nat h) (of_nat g)" by (rule sep_of_nat; use ok lim in linarith)+
  have c: "check_employ_simple_memory (of_nat a) (of_nat (h + 24)) m = Some (of_nat h)"
    by (rule check_employ_head [OF sg(1) ok(1) _ ok(2) _ sg(4)]) (use ok(3) in \<open>simp_all add: h_def\<close>)
  let ?m = "set_next (of_nat g) (of_nat z) (set_remain (of_nat g) (of_nat (ar y + al b))
      (set_lenth (of_nat g) (of_nat (al y + al b)) (set_remain (of_nat h) (of_nat (al b)) m)))"
  have fr: "blk ?m c = blk m c" if "sep (of_nat g) c" "sep (of_nat h) c" for c using that by simp
  have fx: "seg ?m a xs g" by (rule seg_frame [OF sg(2), of g h]) (use ok lim fr in \<open>simp_all add: g_def\<close>)
  have fy: "seg ?m (h + al b) ys 0" by (rule seg_frame [OF sg(5), of g h]) (use ok lim fr in simp_all)
  have nx: "mb_lenth (blk ?m (of_nat (h + al b))) \<noteq> mb_remain (blk ?m (of_nat (h + al b)))" if ne: "ys \<noteq> []"
  proof -
    obtain u us where u: "ys = u # us" using ne by (cases ys) auto
    have "ar u \<noteq> al u" "al u < POOL_LIMIT" "ar u < POOL_LIMIT"
      using assms(4) ok lim u by (auto simp: settled_def blk_ok_def tl_append split: list.splits)
    then show ?thesis using fy u word_of_nat_neq [of "al u" "ar u"] by (simp add: hdr_def)
  qed
  have "free_employ_simple_memory (of_nat a) (of_nat (h + 24)) m = Some ?m"
    using v c sg(3,4) assms(2) nx s unfolding free_employ_simple_memory_def Let_def
    by (simp add: hdr_def g_def [symmetric]) (simp add: z_def)
  moreover have "hdr ?m g (y\<lparr>al := al y + al b, ar := ar y + al b\<rparr>) z" using sg(3) s by (simp add: hdr_def)
  moreover have "z = (if ys = [] then 0 else g + (al y + al b))" using assms(3) by (auto simp: z_def g_def h_def)
  moreover have "h + al b = g + (al y + al b) \<or> ys = []" using assms(3) by (auto simp: g_def h_def)
  then have "seg ?m (g + (al y + al b)) ys 0" using fy by (metis seg.simps(1))
  ultimately show thesis using fx by (intro that [of ?m]) (simp_all add: g_def [symmetric] split: if_splits)
qed

text \<open>A pool on which every block but the first is in use, and whose first block has no predecessor.\<close>

definition pool_rooted :: "ablk list \<Rightarrow> bool" where
  "pool_rooted bs \<longleftrightarrow> bs \<noteq> [] \<and> ap (hd bs) = 0 \<and> settled bs"

lemma abs_alloc_rooted:
  assumes "abs_alloc n a bs = Some (p, bs')" and "pool_rooted bs" and "\<forall>b \<in> set bs. blk_ok b" and "24 \<le> n"
  shows "pool_rooted bs'"
proof -
  obtain xs b ys zs where s: "bs = xs @ b # ys" "n \<le> ar b" "abs_alloc n (a + total xs) [b] = Some (p, zs)" "bs' = xs @ zs @ ys"
    using abs_alloc_Some [OF assms(1)] by metis
  have "24 \<le> al b" "ar b = al b \<or> ar b + 24 \<le> al b" using assms(3) s(1) by (auto simp: blk_ok_def)
  then show ?thesis using assms(2,4) s by (cases xs) (auto simp: pool_rooted_def settled_def split: if_splits)
qed

text \<open>Freeing what was just allocated, with the pool's headers as the allocation left them, restores the list of blocks.\<close>

lemma free_undoes_alloc:
  assumes "abs_alloc n a bs = Some (p, bs')" and "pool_ok m a bs'" and "pool_rooted bs" and "blks_ok a bs" and "24 \<le> n"
  obtains m' where "free_employ_simple_memory (of_nat a) (of_nat p) m = Some m'" and "pool_ok m' a bs"
    and "\<And>x. \<forall>h \<in> set (heads a bs'). 24 \<le> x - of_nat h \<Longrightarrow> m' x = m x"
proof -
  have oks: "\<forall>b \<in> set bs. blk_ok b" using assms(4) by (simp add: blks_ok_def)
  obtain xs b ys zs where s: "bs = xs @ b # ys" "n \<le> ar b" "abs_alloc n (a + total xs) [b] = Some (p, zs)" "bs' = xs @ zs @ ys"
    using abs_alloc_Some [OF assms(1)] by metis
  have st: "settled bs'" using abs_alloc_rooted [OF assms(1,3) oks assms(5)] by (simp add: pool_rooted_def)
  show thesis
  proof (cases "ar b = al b")
    case True
    then have x: "xs = []" using assms(3) s(1) by (cases xs) (auto simp: pool_rooted_def settled_def)
    then have z: "bs' = b\<lparr>ar := al b - n\<rparr> # ys" "p = a + 24" "ap b = 0" using s True assms(3) by (auto simp: pool_rooted_def)
    from free_first [of m a "b\<lparr>ar := al b - n\<rparr>" ys] obtain m' where
      "free_employ_simple_memory (of_nat a) (of_nat (a + 24)) m = Some m'" "pool_ok m' a (b\<lparr>ar := al b\<rparr> # ys)"
      "\<And>x. 24 \<le> x - of_nat a \<Longrightarrow> m' x = m x" using assms(2) st z by auto
    moreover have "b\<lparr>ar := al b\<rparr> # ys = bs" using s(1) x True by simp
    ultimately show ?thesis using that [of m'] z by auto
  next
    case False
    let ?b = "b\<lparr>al := al b - ar b, ar := 0\<rparr>" and ?n = "\<lparr>al = ar b, ar = ar b - n, ap = of_nat (a + total xs)\<rparr>"
    have le: "ar b + 24 \<le> al b" using oks s(1) False by (auto simp: blk_ok_def)
    have z: "bs' = xs @ ?b # [] @ ?n # ys" "p = a + total xs + al ?b + total [] + 24" using s False le by auto
    obtain m' where m': "free_employ_simple_memory (of_nat a) (of_nat p) m = Some m'"
      "seg m' a (xs @ ?b\<lparr>al := al ?b + al ?n, ar := ar ?b + al ?n\<rparr> # ys) 0"
      "\<And>x. 24 \<le> x - of_nat (a + total xs) \<Longrightarrow> 24 \<le> x - of_nat (a + total xs + al ?b + total []) \<Longrightarrow> m' x = m x"
      using free_merge [OF assms(2) [unfolded z(1)] _ _ st [unfolded z(1)]] z(2) by auto
    have "?b\<lparr>al := al ?b + al ?n, ar := ar ?b + al ?n\<rparr> = b" using le by simp
    then have "seg m' a bs 0" using m'(2) s(1) by metis
    then have "pool_ok m' a bs" using assms(4) by (simp add: pool_ok_iff)
    moreover have "m' x = m x" if "\<forall>h \<in> set (heads a bs'). 24 \<le> x - of_nat h" for x
      by (rule m'(3)) (use that z(1) in auto)
    ultimately show ?thesis using that [of m'] m'(1) by blast
  qed
qed

section \<open>Nested use\<close>

declare set_loop.simps [simp del]

lemma set_loop_apply: "set_loop a e d m x = (if a \<le> x \<and> x < e then d else m x)"
proof (induction a e d m rule: set_loop.induct)
  case (1 a e d m)
  show ?case
  proof (cases "a \<ge> e")
    case True
    then show ?thesis by (subst set_loop.simps) auto
  next
    case False
    then have "a + 1 \<le> x \<longleftrightarrow> a < x"
      using unat_Suc_less [of a e] by (simp add: word_le_nat_alt word_less_nat_alt not_le Suc_le_eq)
    moreover have "set_loop a e d m x = set_loop (a + 1) e d (m(a := d)) x" using False by (subst set_loop.simps) simp
    ultimately show ?thesis using False unfolding 1 [OF False] by (auto simp: not_le)
  qed
qed

lemma memory_set_outside:
  assumes "p + unat sz \<le> POOL_LIMIT" and "x < p \<or> p + unat sz \<le> x" and "x < POOL_LIMIT" and "p < POOL_LIMIT"
  shows "memory_set (of_nat p) d sz m (of_nat x) = m (of_nat x)"
proof -
  have "(of_nat p :: kuaddr_t) + sz = of_nat (p + unat sz)" by (metis of_nat_add of_nat_unat ucast_id)
  moreover have "unat (of_nat (p + unat sz) :: kuaddr_t) = p + unat sz" using assms(1) by (simp only: unat_of_nat) (simp add: POOL_LIMIT_def)
  ultimately show ?thesis using assms unat_pool [of p] unat_pool [of x]
    by (auto simp: memory_set_def set_loop_apply word_le_nat_alt word_less_nat_alt)
qed

lemma blk_cong:
  assumes "\<And>x. x - b < 24 \<Longrightarrow> m' x = m x"
  shows "blk m' b = blk m b"
  using assms [of b] by (simp add: blk_def ld32_def add.assoc assms)

lemma blk_cong_nat:
  assumes "\<And>x. h \<le> x \<Longrightarrow> x < h + 24 \<Longrightarrow> m' (of_nat x) = m (of_nat x)" and "h + 24 \<le> POOL_LIMIT"
  shows "blk m' (of_nat h) = blk m (of_nat h)"
proof (rule blk_cong)
  fix x :: kuaddr_t assume "x - of_nat h < 24"
  then have i: "unat (x - of_nat h) < 24" by (simp add: word_less_nat_alt)
  have "of_nat (h + unat (x - of_nat h)) = x" by (simp add: of_nat_unat)
  then show "m' x = m x" using assms(1) [of "h + unat (x - of_nat h)"] i by simp
qed

lemma pool_ok_fill:
  assumes "pool_ok m a bs" and "(p, l) \<in> set (live a bs)" and "\<And>x. x < POOL_LIMIT \<Longrightarrow> x < p \<or> p + l \<le> x \<Longrightarrow> m' (of_nat x) = m (of_nat x)"
  shows "pool_ok m' a bs"
proof -
  have ok: "\<forall>b \<in> set bs. blk_ok b" "a + total bs < POOL_LIMIT" using assms(1) by (auto simp: pool_ok_def)
  have "blk m' (of_nat h) = blk m (of_nat h)" if "h \<in> set (heads a bs)" for h
    by (rule blk_cong_nat) (use live_off_heads [OF assms(2) that ok(1)] heads_inside [OF that ok(1)] ok(2) assms(3) in auto)
  then show ?thesis using assms(1) seg_cong [of a bs m' m] by (simp add: pool_ok_def)
qed

text \<open>A client program that allocates an area, fills it, runs further such programs and frees the area.\<close>

datatype nest = Nest kuint32_t kuint8_t "nest list"

fun run_nest :: "kuaddr_t \<Rightarrow> nest \<Rightarrow> mem \<Rightarrow> mem option"
  and run_nests :: "kuaddr_t \<Rightarrow> nest list \<Rightarrow> mem \<Rightarrow> mem option" where
  "run_nest h (Nest sz d ns) m =
     do { (p, m) \<leftarrow> alloc_spare_simple_memory h sz m;
          m \<leftarrow> run_nests h ns (memory_set p d sz m);
          free_employ_simple_memory h p m }"
| "run_nests h [] m = Some m"
| "run_nests h (n # ns) m = do { m \<leftarrow> run_nest h n m; run_nests h ns m }"

fun nest_ok :: "nest \<Rightarrow> bool" where
  "nest_ok (Nest sz d ns) \<longleftrightarrow> unat sz + 28 \<le> 2 ^ 32 \<and> (\<forall>n \<in> set ns. nest_ok n)"

definition same_data :: "nat \<Rightarrow> ablk list \<Rightarrow> mem \<Rightarrow> mem \<Rightarrow> bool" where
  "same_data a bs m m' \<longleftrightarrow> (\<forall>(q, l) \<in> set (live a bs). \<forall>x. q \<le> x \<and> x < q + l \<longrightarrow> m' (of_nat x) = m (of_nat x))"

lemma same_data_trans:
  "same_data a bs m m' \<Longrightarrow> same_data a bs m' m'' \<Longrightarrow> same_data a bs m m''"
  by (fastforce simp: same_data_def)

lemma same_data_subset:
  "same_data a bs' m m' \<Longrightarrow> set (live a bs) \<subseteq> set (live a bs') \<Longrightarrow> same_data a bs m m'"
  by (fastforce simp: same_data_def)

lemma same_data_heads:
  assumes "\<forall>b \<in> set bs. blk_ok b" and "a + total bs < POOL_LIMIT"
    and "\<And>x. x < POOL_LIMIT \<Longrightarrow> \<forall>h \<in> set (heads a bs). x < h \<or> h + 24 \<le> x \<Longrightarrow> m' (of_nat x) = m (of_nat x)"
  shows "same_data a bs m m'"
  unfolding same_data_def
proof clarify
  fix q l x assume i: "(q, l) \<in> set (live a bs)" "q \<le> x" "x < q + l"
  have "\<forall>h \<in> set (heads a bs). x < h \<or> h + 24 \<le> x" using live_off_heads [OF i(1) _ assms(1)] i(2,3) by fastforce
  then show "m' (of_nat x) = m (of_nat x)" using live_inside [OF i(1) assms(1)] i assms(2,3) by auto
qed

text \<open>What an allocation gives its caller, before and after the area has been filled.\<close>

lemma alloc_fill:
  assumes "pool_ok m a bs" and "unat sz + 28 \<le> 2 ^ 32" and "abs_alloc (request sz) a bs = Some (p, bs')"
  obtains m1 where "alloc_spare_simple_memory (of_nat a) sz m = Some (of_nat p, m1)" and "pool_ok m1 a bs'" and "same_data a bs m m1"
    and "\<And>d. pool_ok (memory_set (of_nat p) d sz m1) a bs'" and "\<And>d. same_data a bs m (memory_set (of_nat p) d sz m1)"
    and "a + 24 \<le> p" and "p + unat sz \<le> a + total bs" and "blks_ok a bs'" and "set (live a bs) \<subseteq> set (live a bs')"
    and "total bs' = total bs"
proof -
  note n = request_word [OF assms(2)]
  have bok: "blks_ok a bs" "\<forall>b \<in> set bs. blk_ok b" using assms(1) by (auto simp: pool_ok_iff blks_ok_def)
  note a = abs_alloc_ok [OF assms(3) bok(1) n(3,4)]
  have ok': "\<forall>b \<in> set bs'. blk_ok b" "a + total bs' < POOL_LIMIT" using a(1) by (auto simp: blks_ok_def)
  have p: "(p, request sz - 24) \<in> set (live a bs')" and sub: "set (live a bs) \<subseteq> set (live a bs')" using a(4) by auto
  have pin: "p < POOL_LIMIT" "p + unat sz \<le> POOL_LIMIT" "unat sz \<le> request sz - 24" "a + 24 \<le> p" "p + unat sz \<le> a + total bs"
    using live_inside [OF p ok'(1)] ok'(2) a(2) by (auto simp: request_def)
  obtain m1 where m1: "alloc_spare_simple_memory (of_nat a) sz m = Some (of_nat p, m1)" "pool_ok m1 a bs'"
    "\<And>x. x < POOL_LIMIT \<Longrightarrow> \<forall>h \<in> set (heads a bs'). x < h \<or> h + 24 \<le> x \<Longrightarrow> m1 (of_nat x) = m (of_nat x)"
    using alloc_refines [OF assms(1,2)] assms(3) by auto
  have "same_data a bs' m m1" by (rule same_data_heads [OF ok']) (use m1(3) in blast)
  then have d1: "same_data a bs m m1" using sub by (rule same_data_subset)
  have out: "memory_set (of_nat p) d sz m1 (of_nat x) = m1 (of_nat x)" if "x < POOL_LIMIT" "x < p \<or> p + (request sz - 24) \<le> x" for d x
    by (rule memory_set_outside) (use that pin in auto)
  have "same_data a bs m1 (memory_set (of_nat p) d sz m1)" for d
    unfolding same_data_def
  proof clarify
    fix q l x assume i: "(q, l) \<in> set (live a bs)" "q \<le> x" "x < q + l"
    have "p + (request sz - 24) + 24 \<le> q \<or> q + l + 24 \<le> p" by (rule live_fresh [OF ok'(1) a(4,5) i(1)])
    moreover have "x < POOL_LIMIT" using live_inside [OF i(1) bok(2)] i(3) bok(1) by (simp add: blks_ok_def)
    ultimately show "memory_set (of_nat p) d sz m1 (of_nat x) = m1 (of_nat x)" using i by (intro out) auto
  qed
  then have d2: "same_data a bs m (memory_set (of_nat p) d sz m1)" for d using d1 same_data_trans by blast
  show thesis by (rule that [OF m1(1,2) d1 pool_ok_fill [OF m1(2) p out] d2 pin(4,5) a(1) sub a(2)])
qed

lemma free_keeps_data:
  assumes "abs_alloc n a bs = Some (p, bs')" and "pool_ok m a bs'" and "pool_rooted bs" and "blks_ok a bs" and "24 \<le> n"
    and "set (live a bs) \<subseteq> set (live a bs')"
  obtains m' where "free_employ_simple_memory (of_nat a) (of_nat p) m = Some m'" and "pool_ok m' a bs" and "same_data a bs m m'"
proof -
  have ok': "\<forall>b \<in> set bs'. blk_ok b" "a + total bs' < POOL_LIMIT" using assms(2) by (auto simp: pool_ok_def)
  obtain m' where m': "free_employ_simple_memory (of_nat a) (of_nat p) m = Some m'" "pool_ok m' a bs"
    "\<And>x. \<forall>h \<in> set (heads a bs'). 24 \<le> x - of_nat h \<Longrightarrow> m' x = m x"
    using free_undoes_alloc [OF assms(1-5)] by blast
  have "m' (of_nat x) = m (of_nat x)" if "x < POOL_LIMIT" "\<forall>h \<in> set (heads a bs'). x < h \<or> h + 24 \<le> x" for x
    by (rule m'(3)) (use that far_of_nat heads_inside [OF _ ok'(1)] ok'(2) in fastforce)
  then have "same_data a bs' m m'" by (intro same_data_heads [OF ok']) blast
  then show thesis using that [OF m'(1,2)] same_data_subset assms(6) by blast
qed

lemma run_nest_step:
  assumes "pool_ok m a bs" and "pool_rooted bs" and "unat sz + 28 \<le> 2 ^ 32"
    and body: "\<And>m bs. pool_ok m a bs \<Longrightarrow> pool_rooted bs \<Longrightarrow> \<exists>m'. body m = Some m' \<and> pool_ok m' a bs \<and> same_data a bs m m'"
  shows "\<exists>m'. do { (p, m) \<leftarrow> alloc_spare_simple_memory (of_nat a) sz m; m \<leftarrow> body (memory_set p d sz m);
      free_employ_simple_memory (of_nat a) p m } = Some m' \<and> pool_ok m' a bs \<and> same_data a bs m m'"
proof (cases "abs_alloc (request sz) a bs")
  case None
  then have "alloc_spare_simple_memory (of_nat a) sz m = Some (0, m)" using alloc_refines [OF assms(1,3)] by simp
  then show ?thesis using body [OF assms(1,2)] by (auto simp: memory_set_def free_employ_simple_memory_def)
next
  case (Some r)
  then obtain p bs' where r: "abs_alloc (request sz) a bs = Some (p, bs')" by (cases r) auto
  have n: "24 \<le> request sz" by (simp add: request_def)
  have bok: "blks_ok a bs" "\<forall>b \<in> set bs. blk_ok b" using assms(1) by (auto simp: pool_ok_iff blks_ok_def)
  obtain m1 where m1: "alloc_spare_simple_memory (of_nat a) sz m = Some (of_nat p, m1)"
    "pool_ok (memory_set (of_nat p) d sz m1) a bs'" "same_data a bs m (memory_set (of_nat p) d sz m1)" "set (live a bs) \<subseteq> set (live a bs')"
    using alloc_fill [OF assms(1,3) r] by metis
  obtain m3 where m3: "body (memory_set (of_nat p) d sz m1) = Some m3" "pool_ok m3 a bs'" "same_data a bs' (memory_set (of_nat p) d sz m1) m3"
    using body [OF m1(2) abs_alloc_rooted [OF r assms(2) bok(2) n]] by blast
  obtain m4 where m4: "free_employ_simple_memory (of_nat a) (of_nat p) m3 = Some m4" "pool_ok m4 a bs" "same_data a bs m3 m4"
    using free_keeps_data [OF r m3(2) assms(2) bok(1) n m1(4)] by blast
  have "same_data a bs m m4"
    by (rule same_data_trans [OF m1(3) same_data_trans [OF same_data_subset [OF m3(3) m1(4)] m4(3)]])
  then show ?thesis using m1(1) m3(1) m4(1,2) by simp
qed

definition restores :: "nat \<Rightarrow> (mem \<Rightarrow> mem option) \<Rightarrow> bool" where
  "restores a f \<longleftrightarrow> (\<forall>m bs. pool_ok m a bs \<longrightarrow> pool_rooted bs \<longrightarrow> (\<exists>m'. f m = Some m' \<and> pool_ok m' a bs \<and> same_data a bs m m'))"

lemma restores_list:
  assumes "\<And>n. n \<in> set ns \<Longrightarrow> restores a (run_nest (of_nat a) n)"
  shows "restores a (run_nests (of_nat a) ns)"
  using assms
proof (induction ns)
  case (Cons n ns)
  then have rest: "restores a (run_nests (of_nat a) ns)" by simp
  show ?case unfolding restores_def
  proof (intro allI impI)
    fix m bs assume ok: "pool_ok m a bs" "pool_rooted bs"
    obtain m1 where m1: "run_nest (of_nat a) n m = Some m1" "pool_ok m1 a bs" "same_data a bs m m1"
      using Cons.prems [of n] ok by (auto simp: restores_def)
    moreover obtain m2 where "run_nests (of_nat a) ns m1 = Some m2" "pool_ok m2 a bs" "same_data a bs m1 m2"
      using rest m1(2) ok(2) unfolding restores_def by blast
    ultimately show "\<exists>m'. run_nests (of_nat a) (n # ns) m = Some m' \<and> pool_ok m' a bs \<and> same_data a bs m m'"
      using same_data_trans by auto
  qed
qed (auto simp: restores_def same_data_def)

lemma restores_nest: "nest_ok n \<Longrightarrow> restores a (run_nest (of_nat a) n)"
proof (induction n)
  case (Nest sz d ns)
  have r: "restores a (run_nests (of_nat a) ns)" by (rule restores_list) (use Nest in auto)
  show ?case unfolding restores_def
  proof (intro allI impI)
    fix m bs assume ok: "pool_ok m a bs" "pool_rooted bs"
    show "\<exists>m'. run_nest (of_nat a) (Nest sz d ns) m = Some m' \<and> pool_ok m' a bs \<and> same_data a bs m m'"
      unfolding run_nest.simps
      by (rule run_nest_step [OF ok]) (use Nest.prems r in \<open>simp_all add: restores_def\<close>)
  qed
qed


section \<open>A fresh pool, and freeing out of order\<close>

lemma create_pool:
  assumes "isValid i" and "\<not> isValid (sprt_mem (mem_infos s i))" and "28 \<le> unat sz" and "0 < unat mem_addr"
    and "unat mem_addr + unat sz < POOL_LIMIT"
  defines "b \<equiv> (unat mem_addr + 3) div 4 * 4"
  defines "l \<equiv> unat mem_addr + unat sz - b"
  obtains s' where "memory_simple_block_create i mem_addr sz s = (ER_NORMAL, s')"
    and "pool_ok (ram_mem s') b [\<lparr>al = l, ar = l, ap = 0\<rparr>]" and "pool_rooted [\<lparr>al = l, ar = l, ap = 0\<rparr>]"
    and "mem_infos s' i = \<lparr>mi_base = of_nat b, mi_lenth = of_nat l, sprt_mem = of_nat b\<rparr>"
proof -
  have "unat (mrt_align mem_addr (2 ^ 2)) = (unat mem_addr + 2 ^ 2 - 1) div 2 ^ 2 * 2 ^ 2"
    by (rule unat_mrt_align) (use assms in \<open>simp_all add: POOL_LIMIT_def\<close>)
  then have "unat (mrt_align mem_addr 4) = b" by (simp add: b_def)
  then have b: "mrt_align mem_addr 4 = of_nat b" by (metis of_nat_unat ucast_id)
  have le: "unat mem_addr \<le> b" "b \<le> unat mem_addr + 3" unfolding b_def by linarith+
  have w: "mem_addr = of_nat (unat mem_addr)" "sz = of_nat (unat sz)" by (metis of_nat_unat ucast_id)+
  have "of_nat l = (of_nat (unat mem_addr) + of_nat (unat sz) - of_nat b :: kuint32_t)" using le assms(3) unfolding l_def by (simp add: of_nat_diff)
  then have l: "sz - (of_nat b - mem_addr) = of_nat l" using w by (simp add: algebra_simps)
  have n: "\<not> sz \<le> MEM_BLOCK_HEADER_SIZE" using assms(3) by (simp add: word_le_nat_alt)
  obtain s' where s': "memory_simple_block_create i mem_addr sz s = (ER_NORMAL, s')"
    "hdr (ram_mem s') b \<lparr>al = l, ar = l, ap = 0\<rparr> 0"
    "mem_infos s' i = \<lparr>mi_base = of_nat b, mi_lenth = of_nat l, sprt_mem = of_nat b\<rparr>"
    using assms(1,2) n by (simp add: memory_simple_block_create_def b l Let_def hdr_def)
  moreover have "4 dvd b" "0 < b" "24 \<le> l" "b + l < POOL_LIMIT" using assms(3-5) le by (simp_all add: b_def l_def)
  ultimately show thesis by (intro that) (simp_all add: pool_ok_def blk_ok_def pool_rooted_def settled_def)
qed

lemma alloc_step:
  assumes "pool_ok m a bs" and "unat sz + 28 \<le> 2 ^ 32" and "abs_alloc (request sz) a bs = Some (p, bs')"
  obtains m' where "alloc_spare_simple_memory (of_nat a) sz m = Some (of_nat p, m')" and "pool_ok m' a bs'"
  using alloc_refines [OF assms(1,2)] assms(3) by auto

text \<open>A pool of 4096 bytes at address 65536 to apply the theorems to.\<close>

definition demo_ram :: ram where
  "demo_ram = snd (memory_simple_block_create 16 65534 4098 \<lparr>ram_mem = (\<lambda>_. 0), mem_infos = (\<lambda>_. \<lparr>mi_base = 0, mi_lenth = 0, sprt_mem = 0\<rparr>)\<rparr>)"

lemma demo_ram_ok: "pool_ok (ram_mem demo_ram) 65536 [\<lparr>al = 4096, ar = 4096, ap = 0\<rparr>]" "pool_rooted [\<lparr>al = 4096, ar = 4096, ap = 0\<rparr>]"
proof -
  let ?s = "\<lparr>ram_mem = (\<lambda>_. 0), mem_infos = (\<lambda>_. \<lparr>mi_base = 0, mi_lenth = 0, sprt_mem = 0\<rparr>)\<rparr> :: ram"
  have v: "isValid 16" "\<not> isValid (sprt_mem (mem_infos ?s 16))" by (simp_all add: isValid_def IS_ERR_def)
  obtain s' where "memory_simple_block_create 16 65534 4098 ?s = (ER_NORMAL, s')"
    "pool_ok (ram_mem s') 65536 [\<lparr>al = 4096, ar = 4096, ap = 0\<rparr>]"
    by (rule create_pool [OF v, of 4098 65534]) (simp_all add: POOL_LIMIT_def)
  then show "pool_ok (ram_mem demo_ram) 65536 [\<lparr>al = 4096, ar = 4096, ap = 0\<rparr>]" by (simp add: demo_ram_def)
qed (simp add: pool_rooted_def settled_def)



text \<open>Freeing in another order than the opposite of allocating breaks the pool: a split does not correct the back link of
  the block behind it, so freeing that block joins it with the wrong one.  On any fresh pool of at least 160 bytes
  seven calls are enough for two areas in use at the same address.\<close>

lemma out_of_order_free_overlaps:
  assumes "pool_ok m a [\<lparr>al = l, ar = l, ap = 0\<rparr>]" and "160 \<le> l"
  shows "do { (p1, m) \<leftarrow> alloc_spare_simple_memory (of_nat a) 40 m;
              (p2, m) \<leftarrow> alloc_spare_simple_memory (of_nat a) 8 m;
              m \<leftarrow> free_employ_simple_memory (of_nat a) p1 m;
              (p3, m) \<leftarrow> alloc_spare_simple_memory (of_nat a) 8 m;
              (p4, m) \<leftarrow> alloc_spare_simple_memory (of_nat a) 8 m;
              m \<leftarrow> free_employ_simple_memory (of_nat a) p2 m;
              (p5, m) \<leftarrow> alloc_spare_simple_memory (of_nat a) 8 m;
              Some (p3, p4, p5) } =
     Some (of_nat (a + 24), of_nat (a + 56), of_nat (a + 56))"
proof -
  obtain k where l: "l = k + 160" using assms(2) le_Suc_ex by (metis add.commute)
  have fits: "unat (40 :: kuint32_t) + 28 \<le> 2 ^ 32" "unat (8 :: kuint32_t) + 28 \<le> 2 ^ 32" by simp_all
  let ?b = "\<lambda>l r p. \<lparr>al = l, ar = r, ap = p\<rparr>"
  have ok0: "blks_ok a [?b (k + 160) (k + 160) 0]" using assms(1) l by (simp add: pool_ok_iff)
  obtain m1 where m1: "alloc_spare_simple_memory (of_nat a) 40 m = Some (of_nat (a + 24), m1)" "pool_ok m1 a [?b (k + 160) (k + 96) 0]"
    by (rule alloc_step [OF assms(1) fits(1), of "a + 24" "[?b (k + 160) (k + 96) 0]"]) (simp_all add: l request_def)
  obtain m2 where m2: "alloc_spare_simple_memory (of_nat a) 8 m1 = Some (of_nat (a + 88), m2)"
    "pool_ok m2 a [?b 64 0 0, ?b (k + 96) (k + 64) (of_nat a)]"
    by (rule alloc_step [OF m1(2) fits(2), of "a + 88" "[?b 64 0 0, ?b (k + 96) (k + 64) (of_nat a)]"]) (simp_all add: request_def)
  obtain m3 where m3: "free_employ_simple_memory (of_nat a) (of_nat (a + 24)) m2 = Some m3"
    "pool_ok m3 a [?b 64 64 0, ?b (k + 96) (k + 64) (of_nat a)]"
    by (rule free_first [OF m2(2)]) (simp_all add: settled_def)
  obtain m4 where m4: "alloc_spare_simple_memory (of_nat a) 8 m3 = Some (of_nat (a + 24), m4)"
    "pool_ok m4 a [?b 64 32 0, ?b (k + 96) (k + 64) (of_nat a)]"
    by (rule alloc_step [OF m3(2) fits(2), of "a + 24" "[?b 64 32 0, ?b (k + 96) (k + 64) (of_nat a)]"]) (simp_all add: request_def)
  obtain m5 where m5: "alloc_spare_simple_memory (of_nat a) 8 m4 = Some (of_nat (a + 56), m5)"
    "pool_ok m5 a [?b 32 0 0, ?b 32 0 (of_nat a), ?b (k + 96) (k + 64) (of_nat a)]"
    by (rule alloc_step [OF m4(2) fits(2), of "a + 56" "[?b 32 0 0, ?b 32 0 (of_nat a), ?b (k + 96) (k + 64) (of_nat a)]"])
      (simp_all add: request_def)
  obtain m6 where m6: "free_employ_simple_memory (of_nat a) (of_nat (a + 88)) m5 = Some m6" "seg m6 a [?b (k + 128) (k + 96) 0] 0"
    by (rule free_merge [of m5 a "[]" "?b 32 0 0" "[?b 32 0 (of_nat a)]" "?b (k + 96) (k + 64) (of_nat a)" "[]"])
      (use m5(2) in \<open>simp_all add: settled_def add.commute\<close>)
  have ok6: "pool_ok m6 a [?b (k + 128) (k + 96) 0]" using m6(2) ok0 by (auto simp: pool_ok_iff blks_ok_def blk_ok_def)
  obtain m7 where m7: "alloc_spare_simple_memory (of_nat a) 8 m6 = Some (of_nat (a + 56), m7)"
    by (rule alloc_step [OF ok6 fits(2), of "a + 56" "[?b 32 0 0, ?b (k + 96) (k + 64) (of_nat a)]"]) (simp_all add: request_def)
  show ?thesis using m1(1) m2(1) m3(1) m4(1) m5(1) m6(1) m7 by simp
qed

lemma out_of_order_free_overlaps_witness:
  "\<exists>p. do { (p1, m) \<leftarrow> alloc_spare_simple_memory 65536 40 (ram_mem demo_ram);
             (p2, m) \<leftarrow> alloc_spare_simple_memory 65536 8 m;
             m \<leftarrow> free_employ_simple_memory 65536 p1 m;
             (p3, m) \<leftarrow> alloc_spare_simple_memory 65536 8 m;
             (p4, m) \<leftarrow> alloc_spare_simple_memory 65536 8 m;
             m \<leftarrow> free_employ_simple_memory 65536 p2 m;
             (p5, m) \<leftarrow> alloc_spare_simple_memory 65536 8 m;
             Some (p3, p4, p5) } = Some (65560, p, p)"
  using out_of_order_free_overlaps [OF demo_ram_ok(1)] by auto

end
