(* ===== verification/Mem_Pool.thy ===== *)
theory Mem_Pool
  imports Mem_Simple Locks
begin

text \<open>
  The clients of the allocator: the heap behind \<^verbatim>\<open>malloc\<close> (\<^verbatim>\<open>common/mempool/mem_malloc.c\<close>) and the
  kernel pool behind \<^verbatim>\<open>kmalloc\<close> (\<^verbatim>\<open>platform/mem/fwk_mempool.c\<close>).  The addresses of the
  linker symbols that bound the pools are parameters.
\<close>

section \<open>The heap\<close>

text \<open>\<open>sgrt_infoMalloc\<close> is the address of the structure that describes the heap.  \<^verbatim>\<open>_sbrk\<close> keeps the
  end of the used part of the heap in a static variable.\<close>

definition sgrt_infoMalloc :: kuaddr_t where "sgrt_infoMalloc = 0x80100000"

definition sbrk :: "kuaddr_t \<Rightarrow> kuaddr_t \<Rightarrow> kuint32_t \<Rightarrow> kuaddr_t \<Rightarrow> kuaddr_t \<times> kuaddr_t" where
  "sbrk heap_start heap_end incr ptr_heapHead =
     (let h = (if ptr_heapHead = 0 then heap_start else ptr_heapHead)
      in if h + incr \<le> heap_end \<and> h \<noteq> 0 then (h, h + incr) else (- 1, h))"

definition malloc_block_initial :: "kuaddr_t \<Rightarrow> kuaddr_t \<Rightarrow> 's ram_scheme \<Rightarrow> bool \<times> 's ram_scheme" where
  "malloc_block_initial heap_start heap_end s =
     (if isValid (sprt_mem (mem_infos s sgrt_infoMalloc)) then (False, s)
      else (True, snd (memory_simple_block_create sgrt_infoMalloc heap_start (heap_end - heap_start) s)))"

definition malloc_block_self_defines :: "kuaddr_t \<Rightarrow> kuint32_t \<Rightarrow> 's ram_scheme \<Rightarrow> bool \<times> 's ram_scheme" where
  "malloc_block_self_defines b sz s =
     (if isValid (sprt_mem (mem_infos s sgrt_infoMalloc)) then (False, s)
      else (True, snd (memory_simple_block_create sgrt_infoMalloc b sz s)))"

definition malloc_block_destroy :: "'s ram_scheme \<Rightarrow> 's ram_scheme" where
  "malloc_block_destroy s = memory_simple_block_destroy sgrt_infoMalloc s"

definition malloc :: "kuint32_t \<Rightarrow> 's ram_scheme \<Rightarrow> (kuaddr_t \<times> 's ram_scheme) option" where
  "malloc sz s =
     do { (p, m) \<leftarrow> alloc_spare_simple_memory (sprt_mem (mem_infos s sgrt_infoMalloc)) sz (ram_mem s);
          Some (p, s\<lparr>ram_mem := m\<rparr>) }"

definition free :: "kuaddr_t \<Rightarrow> 's ram_scheme \<Rightarrow> 's ram_scheme option" where
  "free p s =
     do { m \<leftarrow> free_employ_simple_memory (sprt_mem (mem_infos s sgrt_infoMalloc)) p (ram_mem s);
          Some (s\<lparr>ram_mem := m\<rparr>) }"

definition memset :: "kuaddr_t \<Rightarrow> kuint32_t \<Rightarrow> kuint32_t \<Rightarrow> 's ram_scheme \<Rightarrow> kuaddr_t \<times> 's ram_scheme" where
  "memset p c n s = (p, s\<lparr>ram_mem := memory_set p (ucast c) n (ram_mem s)\<rparr>)"

definition memcmp :: "kuaddr_t \<Rightarrow> kuaddr_t \<Rightarrow> kuint32_t \<Rightarrow> 's ram_scheme \<Rightarrow> int" where
  "memcmp p q n s = int (unat (memory_compare p q n (ram_mem s)))"

definition memcpy :: "kuaddr_t \<Rightarrow> kuaddr_t \<Rightarrow> kuint32_t \<Rightarrow> 's ram_scheme \<Rightarrow> kuaddr_t \<times> 's ram_scheme" where
  "memcpy d p n s = (let (r, m) = memory_copy d p n (ram_mem s) in (r, s\<lparr>ram_mem := m\<rparr>))"

section \<open>The kernel pool\<close>

definition NR_KMEM_ZERO :: nat where "NR_KMEM_ZERO = 1"
definition NR_KMEM_NORMAL :: nat where "NR_KMEM_NORMAL = 2"
definition NR_KMEM_WAIT :: nat where "NR_KMEM_WAIT = 4"
definition GFP_KERNEL :: nat where "GFP_KERNEL = NR_KMEM_WAIT OR NR_KMEM_NORMAL"
definition GFP_ATOMIC :: nat where "GFP_ATOMIC = 0 OR NR_KMEM_NORMAL"

definition sgrt_kernel_mem_info :: kuaddr_t where "sgrt_kernel_mem_info = 0x80200000"

text \<open>\<open>pool_wqh\<close> holds the threads in the wait queue of the pool; a call that has to wait is \<open>None\<close>.\<close>

record kpool = ram +
  pool_lock :: spin_lock
  pool_wqh :: "kuaddr_t list"
  pool_cpu :: cpu

definition pool_reset :: "kpool \<Rightarrow> kpool" where
  "pool_reset s = s\<lparr>pool_wqh := [], pool_lock := spin_lock_init (pool_lock s)\<rparr>"

definition fwk_mempool_initial :: "kuaddr_t \<Rightarrow> kuint32_t \<Rightarrow> kpool \<Rightarrow> bool \<times> kpool" where
  "fwk_mempool_initial pool_base pool_size s =
     (if isValid (sprt_mem (mem_infos s sgrt_kernel_mem_info)) then (False, s)
      else (True, pool_reset (snd (memory_simple_block_create sgrt_kernel_mem_info pool_base pool_size s))))"

definition memory_block_self_defines :: "kuaddr_t \<Rightarrow> kuint32_t \<Rightarrow> kpool \<Rightarrow> bool \<times> kpool" where
  "memory_block_self_defines b sz s =
     (if isValid (sprt_mem (mem_infos s sgrt_kernel_mem_info)) then (False, s)
      else (True, snd (memory_simple_block_create sgrt_kernel_mem_info b sz s)))"

definition memory_block_self_destroy :: "kpool \<Rightarrow> kpool" where
  "memory_block_self_destroy s = pool_reset (memory_simple_block_destroy sgrt_kernel_mem_info s)"

definition pool_acquire :: "kpool \<Rightarrow> kpool option" where
  "pool_acquire s =
     (case spin_lock_irqsave (pool_lock s) (pool_cpu s) of
        None \<Rightarrow> None
      | Some (l, c) \<Rightarrow> Some (s\<lparr>pool_lock := l, pool_cpu := c\<rparr>))"

definition pool_release :: "kpool \<Rightarrow> kpool" where
  "pool_release s = (let (l, c) = spin_unlock_irqrestore (pool_lock s) (pool_cpu s) in s\<lparr>pool_lock := l, pool_cpu := c\<rparr>)"

definition kmalloc :: "kuint32_t \<Rightarrow> nat \<Rightarrow> kpool \<Rightarrow> (kuaddr_t \<times> kpool) option" where
  "kmalloc sz flags s =
     (if flags AND NR_KMEM_NORMAL = 0 then Some (0, s)
      else if flags AND NR_KMEM_WAIT \<noteq> 0 \<and> spin_is_locked (pool_lock s) then None
      else do {
        s \<leftarrow> pool_acquire s;
        (p, m) \<leftarrow> alloc_spare_simple_memory (sprt_mem (mem_infos s sgrt_kernel_mem_info)) sz (ram_mem s);
        let s = s\<lparr>ram_mem := m\<rparr>;
        if \<not> isValid p then Some (0, pool_release s)
        else let s = (if flags AND NR_KMEM_ZERO \<noteq> 0 then s\<lparr>ram_mem := memory_reset p sz (ram_mem s)\<rparr> else s)
             in Some (p, pool_release s) })"

definition kcalloc :: "kuint32_t \<Rightarrow> kuint32_t \<Rightarrow> nat \<Rightarrow> kpool \<Rightarrow> (kuaddr_t \<times> kpool) option" where
  "kcalloc sz n flags s = kmalloc (sz * n) flags s"

definition kzalloc :: "kuint32_t \<Rightarrow> nat \<Rightarrow> kpool \<Rightarrow> (kuaddr_t \<times> kpool) option" where
  "kzalloc sz flags s = kmalloc sz (flags OR NR_KMEM_ZERO) s"

definition kfree :: "kuaddr_t \<Rightarrow> kpool \<Rightarrow> kpool option" where
  "kfree p s =
     (let i = mem_infos s sgrt_kernel_mem_info
      in if p < mi_base i then Some s
         else if p \<ge> mi_base i + mi_lenth i then Some s
         else do {
           s \<leftarrow> pool_acquire s;
           m \<leftarrow> free_employ_simple_memory (sprt_mem (mem_infos s sgrt_kernel_mem_info)) p (ram_mem s);
           Some (pool_release (s\<lparr>ram_mem := m\<rparr>)) })"

section \<open>Allocating and freeing under the lock\<close>

definition kpool_ok :: "nat \<Rightarrow> ablk list \<Rightarrow> kpool \<Rightarrow> bool" where
  "kpool_ok a bs s \<longleftrightarrow> pool_ok (ram_mem s) a bs \<and> \<not> spin_is_locked (pool_lock s) \<and>
     mem_infos s sgrt_kernel_mem_info = \<lparr>mi_base = of_nat a, mi_lenth = of_nat (total bs), sprt_mem = of_nat a\<rparr>"

lemma pool_lock_cycle:
  assumes "\<not> spin_is_locked (pool_lock s)"
  obtains s1 where "pool_acquire s = Some s1" and "ram_mem s1 = ram_mem s" and "mem_infos s1 = mem_infos s"
    and "\<And>m. ram_mem (pool_release (s1\<lparr>ram_mem := m\<rparr>)) = m" and "\<And>m. mem_infos (pool_release (s1\<lparr>ram_mem := m\<rparr>)) = mem_infos s"
    and "\<And>m. \<not> spin_is_locked (pool_lock (pool_release (s1\<lparr>ram_mem := m\<rparr>)))"
proof -
  obtain l c where l: "spin_lock_irqsave (pool_lock s) (pool_cpu s) = Some (l, c)" "counter (sgrt_atc l) = 1"
    using assms by (simp add: spin_lock_irqsave_def spin_lock_acquire_def spin_is_locked_def atomic_inc_def atomic_add_def)
  let ?s = "s\<lparr>pool_lock := l, pool_cpu := c\<rparr>"
  obtain l' c' where r: "spin_unlock_irqrestore l c = (l', c')" by fastforce
  have "counter (sgrt_atc l') = 0"
    using r l(2) by (auto simp: spin_unlock_irqrestore_def spin_unlock_def spin_is_locked_def atomic_dec_def atomic_sub_def Let_def)
  then show thesis
    using l(1) r by (intro that [of ?s]) (simp_all add: pool_acquire_def pool_release_def spin_is_locked_def)
qed

lemma kmalloc_refines:
  assumes "kpool_ok a bs s" and "unat sz + 28 \<le> 2 ^ 32" and "flags AND NR_KMEM_NORMAL \<noteq> 0"
  shows "case abs_alloc (request sz) a bs of
       None \<Rightarrow> \<exists>s'. kmalloc sz flags s = Some (0, s') \<and> ram_mem s' = ram_mem s \<and> kpool_ok a bs s'
     | Some (p, bs') \<Rightarrow> \<exists>s' m. alloc_spare_simple_memory (of_nat a) sz (ram_mem s) = Some (of_nat p, m) \<and>
         kmalloc sz flags s = Some (of_nat p, s') \<and> kpool_ok a bs' s' \<and>
         ram_mem s' = (if flags AND NR_KMEM_ZERO \<noteq> 0 then memory_reset (of_nat p) sz m else m)"
proof -
  have s: "pool_ok (ram_mem s) a bs" "\<not> spin_is_locked (pool_lock s)"
    "mem_infos s sgrt_kernel_mem_info = \<lparr>mi_base = of_nat a, mi_lenth = of_nat (total bs), sprt_mem = of_nat a\<rparr>"
    using assms(1) by (auto simp: kpool_ok_def)
  obtain s1 where s1: "pool_acquire s = Some s1" "ram_mem s1 = ram_mem s" "mem_infos s1 = mem_infos s"
    "\<And>m. ram_mem (pool_release (s1\<lparr>ram_mem := m\<rparr>)) = m" "\<And>m. mem_infos (pool_release (s1\<lparr>ram_mem := m\<rparr>)) = mem_infos s"
    "\<And>m. \<not> spin_is_locked (pool_lock (pool_release (s1\<lparr>ram_mem := m\<rparr>)))" using pool_lock_cycle [OF s(2)] by blast
  show ?thesis
  proof (cases "abs_alloc (request sz) a bs")
    case None
    then have "alloc_spare_simple_memory (of_nat a) sz (ram_mem s) = Some (0, ram_mem s)" using alloc_refines [OF s(1) assms(2)] by simp
    then have "kmalloc sz flags s = Some (0, pool_release (s1\<lparr>ram_mem := ram_mem s\<rparr>))"
      using assms(3) s s1(1-3) by (simp add: kmalloc_def)
    then show ?thesis using None s s1(4-6) by (simp add: kpool_ok_def)
  next
    case (Some r)
    then obtain p bs' where r: "abs_alloc (request sz) a bs = Some (p, bs')" by (cases r) auto
    obtain m where m: "alloc_spare_simple_memory (of_nat a) sz (ram_mem s) = Some (of_nat p, m)" "pool_ok m a bs'"
      "\<And>d. pool_ok (memory_set (of_nat p) d sz m) a bs'" "a + 24 \<le> p" "p + unat sz \<le> a + total bs" "total bs' = total bs"
      using alloc_fill [OF s(1) assms(2) r] by metis
    have v: "isValid (of_nat p)" by (rule isValid_of_nat) (use m(4,5) s(1) in \<open>auto simp: pool_ok_def\<close>)
    let ?m = "if flags AND NR_KMEM_ZERO \<noteq> 0 then memory_reset (of_nat p) sz m else m"
    have "kmalloc sz flags s = Some (of_nat p, pool_release (s1\<lparr>ram_mem := ?m\<rparr>))"
      using assms(3) s s1(1-3) m(1) v by (simp add: kmalloc_def Let_def)
    moreover have "pool_ok ?m a bs'" using m(2,3) by (simp add: memory_reset_def)
    ultimately show ?thesis using r m(1,6) s(3) s1(4-6) by (simp add: kpool_ok_def)
  qed
qed

lemma memory_set_inside:
  assumes "p + unat sz \<le> POOL_LIMIT" and "p \<le> x" and "x < p + unat sz" and "0 < p"
  shows "memory_set (of_nat p) d sz m (of_nat x) = d"
proof -
  have "(of_nat p :: kuaddr_t) + sz = of_nat (p + unat sz)" by (metis of_nat_add of_nat_unat ucast_id)
  moreover have "unat (of_nat (p + unat sz) :: kuaddr_t) = p + unat sz" using assms(1) by (simp only: unat_of_nat) (simp add: POOL_LIMIT_def)
  moreover have "(of_nat p :: kuaddr_t) \<noteq> 0" using unat_pool [of p] assms by (metis (no_types) add_lessD1 le_less_trans less_le_trans not_less_zero unat_0)
  ultimately show ?thesis using assms unat_pool [of p] unat_pool [of x]
    by (auto simp: memory_set_def set_loop_apply word_le_nat_alt word_less_nat_alt)
qed

lemma kfree_refines:
  assumes "kpool_ok a bs' s" and "abs_alloc n a bs = Some (p, bs')" and "pool_rooted bs" and "blks_ok a bs" and "24 \<le> n"
    and "set (live a bs) \<subseteq> set (live a bs')" and "a \<le> p" and "p < a + total bs" and "total bs' = total bs"
  obtains s' where "kfree (of_nat p) s = Some s'" and "kpool_ok a bs s'" and "same_data a bs (ram_mem s) (ram_mem s')"
proof -
  have s: "pool_ok (ram_mem s) a bs'" "\<not> spin_is_locked (pool_lock s)"
    "mem_infos s sgrt_kernel_mem_info = \<lparr>mi_base = of_nat a, mi_lenth = of_nat (total bs), sprt_mem = of_nat a\<rparr>"
    using assms(1,9) by (auto simp: kpool_ok_def)
  have "a + total bs < POOL_LIMIT" using assms(4) by (simp add: blks_ok_def)
  then have rng: "\<not> (of_nat p :: kuaddr_t) < of_nat a" "\<not> (of_nat p :: kuaddr_t) \<ge> of_nat (a + total bs)"
    using assms(7,8) by (simp_all only: word_le_nat_alt word_less_nat_alt unat_pool [of p] unat_pool [of a] unat_pool [of "a + total bs"])
  obtain s1 where s1: "pool_acquire s = Some s1" "ram_mem s1 = ram_mem s" "mem_infos s1 = mem_infos s"
    "\<And>m. ram_mem (pool_release (s1\<lparr>ram_mem := m\<rparr>)) = m" "\<And>m. mem_infos (pool_release (s1\<lparr>ram_mem := m\<rparr>)) = mem_infos s"
    "\<And>m. \<not> spin_is_locked (pool_lock (pool_release (s1\<lparr>ram_mem := m\<rparr>)))" using pool_lock_cycle [OF s(2)] by blast
  obtain m where m: "free_employ_simple_memory (of_nat a) (of_nat p) (ram_mem s) = Some m" "pool_ok m a bs" "same_data a bs (ram_mem s) m"
    using free_keeps_data [OF assms(2) s(1) assms(3-6)] by blast
  have "kfree (of_nat p) s = Some (pool_release (s1\<lparr>ram_mem := m\<rparr>))"
    using rng s(3) s1(1-3) m(1) by (simp add: kfree_def)
  then show thesis by (rule that) (use s(3) s1(4-6) m(2,3) in \<open>simp_all add: kpool_ok_def\<close>)
qed

text \<open>C13: When the kernel pool has room, \<^verbatim>\<open>kzalloc\<close> returns an area of the pool filled with zeros, without disturbing
  the areas in use; giving the area back with \<^verbatim>\<open>kfree\<close> restores the blocks of the pool, and the lock of the pool is
  free after each call.\<close>

theorem kzalloc_kfree_restores:
  assumes "kpool_ok a bs s" and "pool_rooted bs" and "0 < sz" and "unat sz + 28 \<le> 2 ^ 32" and "\<exists>b \<in> set bs. request sz \<le> ar b"
  shows "\<exists>p bs' s' s''. kzalloc sz GFP_KERNEL s = Some (of_nat p, s') \<and> kpool_ok a bs' s' \<and>
     a \<le> p \<and> p + unat sz \<le> a + total bs \<and> (\<forall>x. p \<le> x \<and> x < p + unat sz \<longrightarrow> ram_mem s' (of_nat x) = 0) \<and>
     same_data a bs (ram_mem s) (ram_mem s') \<and>
     kfree (of_nat p) s' = Some s'' \<and> kpool_ok a bs s'' \<and> same_data a bs (ram_mem s) (ram_mem s'')"
proof -
  have f: "(GFP_KERNEL OR NR_KMEM_ZERO) AND NR_KMEM_NORMAL \<noteq> 0" "(GFP_KERNEL OR NR_KMEM_ZERO) AND NR_KMEM_ZERO \<noteq> 0"
    by (simp_all add: GFP_KERNEL_def NR_KMEM_ZERO_def NR_KMEM_NORMAL_def NR_KMEM_WAIT_def)
  have ok: "pool_ok (ram_mem s) a bs" "blks_ok a bs" using assms(1) by (auto simp: kpool_ok_def pool_ok_iff)
  obtain p bs' where r: "abs_alloc (request sz) a bs = Some (p, bs')"
    using assms(5) abs_alloc_None [of "request sz" a bs] by (cases "abs_alloc (request sz) a bs") (auto simp: not_less)
  obtain m1 where m1: "alloc_spare_simple_memory (of_nat a) sz (ram_mem s) = Some (of_nat p, m1)"
    "\<And>d. same_data a bs (ram_mem s) (memory_set (of_nat p) d sz m1)" "a + 24 \<le> p" "p + unat sz \<le> a + total bs"
    "set (live a bs) \<subseteq> set (live a bs')" "total bs' = total bs"
    using alloc_fill [OF ok(1) assms(4) r] by metis
  obtain s' where s': "kzalloc sz GFP_KERNEL s = Some (of_nat p, s')" "kpool_ok a bs' s'" "ram_mem s' = memory_set (of_nat p) 0 sz m1"
    using kmalloc_refines [OF assms(1,4) f(1)] r m1(1) f(2) by (auto simp: kzalloc_def memory_reset_def)
  have pos: "0 < unat sz" using assms(3) by (simp add: word_less_nat_alt)
  have lim: "a + total bs < POOL_LIMIT" "0 < a" using ok(2) by (auto simp: blks_ok_def)
  have n: "24 \<le> request sz" by (simp add: request_def)
  obtain s'' where s'': "kfree (of_nat p) s' = Some s''" "kpool_ok a bs s''" "same_data a bs (ram_mem s') (ram_mem s'')"
    by (rule kfree_refines [OF s'(2) r assms(2) ok(2) n m1(5)]) (use m1(3,4,6) pos in simp_all)
  have "ram_mem s' (of_nat x) = 0" if "p \<le> x" "x < p + unat sz" for x
    unfolding s'(3) by (rule memory_set_inside) (use that m1(3,4) lim in auto)
  moreover have "same_data a bs (ram_mem s) (ram_mem s')" using m1(2) [of 0] s'(3) by simp
  moreover have "same_data a bs (ram_mem s) (ram_mem s'')" using calculation(2) s''(3) by (rule same_data_trans)
  moreover have "a \<le> p" using m1(3) by simp
  ultimately show ?thesis using s'(1,2) s''(1,2) m1(4) by blast
qed

definition demo_kpool :: kpool where
  "demo_kpool = snd (fwk_mempool_initial 65536 4096
     \<lparr>ram_mem = (\<lambda>_. 7), mem_infos = (\<lambda>_. \<lparr>mi_base = 0, mi_lenth = 0, sprt_mem = 0\<rparr>), pool_lock = SPIN_LOCK_INIT, pool_wqh = [],
      pool_cpu = \<lparr>cpsr = 0, g_sched_preempt_cnt = 0\<rparr>\<rparr>)"

lemma demo_kpool_ok: "kpool_ok 65536 [\<lparr>al = 4096, ar = 4096, ap = 0\<rparr>] demo_kpool"
proof -
  let ?s = "\<lparr>ram_mem = (\<lambda>_. 7), mem_infos = (\<lambda>_. \<lparr>mi_base = 0, mi_lenth = 0, sprt_mem = 0\<rparr>), pool_lock = SPIN_LOCK_INIT, pool_wqh = [],
      pool_cpu = \<lparr>cpsr = 0, g_sched_preempt_cnt = 0\<rparr>\<rparr> :: kpool"
  have v: "isValid sgrt_kernel_mem_info" "\<not> isValid (sprt_mem (mem_infos ?s sgrt_kernel_mem_info))"
    by (simp_all add: isValid_def IS_ERR_def sgrt_kernel_mem_info_def)
  obtain s' where "memory_simple_block_create sgrt_kernel_mem_info 65536 4096 ?s = (ER_NORMAL, s')"
    "pool_ok (ram_mem s') 65536 [\<lparr>al = 4096, ar = 4096, ap = 0\<rparr>]"
    "mem_infos s' sgrt_kernel_mem_info = \<lparr>mi_base = 65536, mi_lenth = 4096, sprt_mem = 65536\<rparr>"
    by (rule create_pool [OF v, of 4096 65536]) (simp_all add: POOL_LIMIT_def)
  then show ?thesis using v(2)
    by (simp add: demo_kpool_def fwk_mempool_initial_def pool_reset_def kpool_ok_def spin_is_locked_def spin_lock_init_def ATOMIC_SET_def)
qed

theorem kzalloc_kfree_restores_witness:
  "\<exists>p s'. kzalloc 100 GFP_KERNEL demo_kpool = Some (of_nat p, s') \<and> 65536 \<le> p \<and> p + 100 \<le> 69632 \<and>
     (\<forall>x. p \<le> x \<and> x < p + 100 \<longrightarrow> ram_mem s' (of_nat x) = 0)"
proof -
  have "pool_rooted [\<lparr>al = 4096, ar = 4096, ap = 0\<rparr>]" by (simp add: pool_rooted_def settled_def)
  moreover have "request 100 = 124" by (simp add: request_def)
  ultimately show ?thesis using kzalloc_kfree_restores [OF demo_kpool_ok, of 100] by auto
qed

text \<open>Sizes are computed modulo \<open>2 ^ 32\<close>: a request for almost the whole address space is served like a request for nothing.\<close>

lemma alloc_size_wraps:
  "alloc_spare_simple_memory h 0xFFFFFFFF m = alloc_spare_simple_memory h 0 m"
  "kcalloc 0x10000 0x10000 flags s = kmalloc 0 flags s"
proof -
  have e: "(4294967320 :: kuint32_t) = 24" "(4294967296 :: kuint32_t) = 0" by simp_all
  show "alloc_spare_simple_memory h 0xFFFFFFFF m = alloc_spare_simple_memory h 0 m"
    "kcalloc 0x10000 0x10000 flags s = kmalloc 0 flags s"
    by (simp_all add: alloc_spare_simple_memory_def mrt_align_def kcalloc_def e)
qed

end
