(* ===== verification/Io_Bitmap.thy ===== *)
theory Io_Bitmap
  imports Generic_Ops "HOL-Library.Monad_Syntax"
begin

text \<open>
  The bitmaps of \<^verbatim>\<open>common/generic/io_stream.c\<close>: an array of bytes whose bits are numbered from the lowest bit of the
  first byte on.  Positions are 32-bit numbers, as in the code, and results of type \<^verbatim>\<open>kint32_t\<close> are words
  compared with sign.
\<close>

section \<open>Operations\<close>

definition bit_set :: "kuint8_t list \<Rightarrow> kuint32_t \<Rightarrow> bool" where
  "bit_set bitmap index \<longleftrightarrow> bitmap ! unat (index div 8) AND push_bit (unat (index mod 8)) 1 \<noteq> 0"

definition put_bit :: "kuint32_t \<Rightarrow> bool \<Rightarrow> kuint8_t list \<Rightarrow> kuint8_t list" where
  "put_bit index val bitmap =
     (let area = unat (index div 8); msk = push_bit (unat (index mod 8)) 1
      in bitmap[area := if val then bitmap ! area OR msk else bitmap ! area AND NOT msk])"

lemma unat_next:
  fixes a :: kuint32_t
  assumes "\<not> e \<le> a"
  shows "unat (a + 1) = Suc (unat a)"
proof -
  have "unat a < unat e" using assms by (simp add: word_le_nat_alt)
  moreover have "unat e < 2 ^ 32" using unsigned_less [of e, where 'a = nat] by simp
  ultimately have "Suc (unat a) < 2 ^ 32" by simp
  then show ?thesis by (simp add: unat_word_ariths)
qed

function first_bit_loop :: "kuint8_t list \<Rightarrow> kuint32_t \<Rightarrow> kuint32_t \<Rightarrow> bool \<Rightarrow> kuint32_t" where
  "first_bit_loop bitmap index total_bits val =
     (if index \<ge> total_bits then index
      else if bit_set bitmap index = val then index
      else first_bit_loop bitmap (index + 1) total_bits val)"
  by auto
termination
  by (relation "measure (\<lambda>(bitmap, index, total_bits, val). unat total_bits - unat index)")
    (auto simp: unat_next word_le_nat_alt)

definition bitmap_find_first_bit :: "kuint8_t list \<Rightarrow> kuint32_t \<Rightarrow> kuint32_t \<Rightarrow> bool \<Rightarrow> kuint32_t" where
  "bitmap_find_first_bit bitmap start total_bits val =
     (let index = first_bit_loop bitmap start total_bits val in if index \<ge> total_bits then - 1 else index)"

definition bitmap_find_nr_bit :: "kuint8_t list \<Rightarrow> kuint32_t \<Rightarrow> kuint32_t \<Rightarrow> kuint32_t \<Rightarrow> bool \<Rightarrow> kuint32_t" where
  "bitmap_find_nr_bit bitmap start total_bits nr val =
     (let finish = start + nr
      in if finish \<ge> total_bits then - 1
         else let index = bitmap_find_first_bit bitmap start finish (\<not> val)
              in if index <s 0 then 0 else index)"

function set_bit_loop :: "kuint32_t \<Rightarrow> kuint32_t \<Rightarrow> bool \<Rightarrow> kuint8_t list \<Rightarrow> kuint8_t list" where
  "set_bit_loop index finish val bitmap =
     (if index \<ge> finish then bitmap else set_bit_loop (index + 1) finish val (put_bit index val bitmap))"
  by auto
termination
  by (relation "measure (\<lambda>(index, finish, val, bitmap). unat finish - unat index)") (auto simp: unat_next word_le_nat_alt)

definition bitmap_set_nr_bit :: "kuint32_t \<Rightarrow> kuint32_t \<Rightarrow> kuint32_t \<Rightarrow> bool \<Rightarrow> kuint8_t list \<Rightarrow> kuint8_t list" where
  "bitmap_set_nr_bit start total_bits nr val bitmap =
     (let finish = start + nr in if finish \<ge> total_bits then bitmap else set_bit_loop start finish val bitmap)"

definition bitmap_find_first_zero_bit :: "kuint8_t list \<Rightarrow> kuint32_t \<Rightarrow> kuint32_t \<Rightarrow> kuint32_t" where
  "bitmap_find_first_zero_bit bitmap start total_bits = bitmap_find_first_bit bitmap start total_bits False"

definition bitmap_find_first_valid_bit :: "kuint8_t list \<Rightarrow> kuint32_t \<Rightarrow> kuint32_t \<Rightarrow> kuint32_t" where
  "bitmap_find_first_valid_bit bitmap start total_bits = bitmap_find_first_bit bitmap start total_bits True"

definition bitmap_find_nr_zero_bit :: "kuint8_t list \<Rightarrow> kuint32_t \<Rightarrow> kuint32_t \<Rightarrow> kuint32_t \<Rightarrow> kuint32_t" where
  "bitmap_find_nr_zero_bit bitmap start total_bits nr = bitmap_find_nr_bit bitmap start total_bits nr False"

definition bitmap_find_nr_valid_bit :: "kuint8_t list \<Rightarrow> kuint32_t \<Rightarrow> kuint32_t \<Rightarrow> kuint32_t \<Rightarrow> kuint32_t" where
  "bitmap_find_nr_valid_bit bitmap start total_bits nr = bitmap_find_nr_bit bitmap start total_bits nr True"

definition bitmap_set_nr_bit_zero :: "kuint32_t \<Rightarrow> kuint32_t \<Rightarrow> kuint32_t \<Rightarrow> kuint8_t list \<Rightarrow> kuint8_t list" where
  "bitmap_set_nr_bit_zero start total_bits nr bitmap = bitmap_set_nr_bit start total_bits nr False bitmap"

definition bitmap_set_nr_bit_valid :: "kuint32_t \<Rightarrow> kuint32_t \<Rightarrow> kuint32_t \<Rightarrow> kuint8_t list \<Rightarrow> kuint8_t list" where
  "bitmap_set_nr_bit_valid start total_bits nr bitmap = bitmap_set_nr_bit start total_bits nr True bitmap"

declare first_bit_loop.simps [simp del] set_bit_loop.simps [simp del]

section \<open>What the searches find\<close>

text \<open>The bits of a bitmap as a predicate on numbers.\<close>

definition bits :: "kuint8_t list \<Rightarrow> nat \<Rightarrow> bool" where
  "bits bm i \<longleftrightarrow> bit (bm ! (i div 8)) (i mod 8)"

lemma bit_set_bits: "bit_set bm index = bits bm (unat index)"
proof -
  have "unat index mod 8 < 8" by simp
  moreover have "w AND push_bit k 1 \<noteq> 0 \<longleftrightarrow> bit w k" if "k < 8" for w :: kuint8_t and k
    using that by (metis and_exp_eq_0_iff_not_bit push_bit_eq_mult mult_1)
  ultimately show ?thesis by (simp add: bit_set_def bits_def unat_div unat_mod)
qed

lemma length_put_bit [simp]: "length (put_bit index val bm) = length bm"
  by (simp add: put_bit_def Let_def)

lemma bits_put_bit:
  assumes "unat index < 8 * length bm"
  shows "bits (put_bit index val bm) i = (if i = unat index then val else bits bm i)"
proof -
  have a: "unat index div 8 < length bm" "unat index mod 8 < 8" using assms by auto
  have "i = unat index \<longleftrightarrow> i div 8 = unat index div 8 \<and> i mod 8 = unat index mod 8" by (metis div_mult_mod_eq)
  moreover have "bit (w OR push_bit k 1) j = (j = k \<or> bit w j)" "bit (w AND NOT (push_bit k 1)) j = (j \<noteq> k \<and> bit w j)"
    if "k < 8" "j < 8" for w :: kuint8_t and k j
    using that by (auto simp: bit_simps)
  ultimately show ?thesis using a
    by (cases "i div 8 = unat index div 8") (auto simp: bits_def put_bit_def Let_def unat_div unat_mod)
qed

lemma first_bit_loop_spec:
  assumes "start \<le> tot"
  shows "let r = unat (first_bit_loop bm start tot val) in unat start \<le> r \<and> r \<le> unat tot \<and>
     (\<forall>i. unat start \<le> i \<and> i < r \<longrightarrow> bits bm i \<noteq> val) \<and> (r < unat tot \<longrightarrow> bits bm r = val)"
  using assms
proof (induction bm start tot val rule: first_bit_loop.induct)
  case (1 bm start tot val)
  show ?case
  proof (cases "start \<ge> tot \<or> bit_set bm start = val")
    case True
    then have "first_bit_loop bm start tot val = start" by (subst first_bit_loop.simps) auto
    then show ?thesis using True 1(2) by (auto simp: Let_def bit_set_bits word_le_nat_alt)
  next
    case False
    then have n: "unat (start + 1) = Suc (unat start)" by (intro unat_next [of tot]) auto
    have e: "first_bit_loop bm start tot val = first_bit_loop bm (start + 1) tot val"
      using False by (subst first_bit_loop.simps) auto
    have "start + 1 \<le> tot" using False n by (simp add: word_le_nat_alt)
    then have IH: "let r = unat (first_bit_loop bm (start + 1) tot val) in unat (start + 1) \<le> r \<and> r \<le> unat tot \<and>
       (\<forall>i. unat (start + 1) \<le> i \<and> i < r \<longrightarrow> bits bm i \<noteq> val) \<and> (r < unat tot \<longrightarrow> bits bm r = val)"
      using 1(1) False by blast
    have "bits bm i \<noteq> val" if "unat start \<le> i" "i < unat (first_bit_loop bm (start + 1) tot val)" for i
      using that IH n False by (cases "i = unat start") (auto simp: Let_def bit_set_bits)
    then show ?thesis using IH n unfolding e by (auto simp: Let_def)
  qed
qed

lemma nonneg_word:
  fixes r :: kuint32_t
  assumes "unat r < 2 ^ 31"
  shows "0 \<le>s r"
proof -
  have "int (unat r) < int (2 ^ 31)" using assms by (rule of_nat_less_iff [THEN iffD2])
  then have "uint r < 2 ^ 31" by simp
  then have "sint r = uint r" by (rule sint_small)
  then show ?thesis by (simp add: word_sle_eq)
qed

text \<open>The first bit with the given value, or -1.\<close>

lemma find_first_bit_cases:
  assumes "start \<le> tot" and "unat tot < 2 ^ 31"
  obtains (none) "bitmap_find_first_bit bm start tot val = - 1" "\<forall>i. unat start \<le> i \<and> i < unat tot \<longrightarrow> bits bm i \<noteq> val"
  | (some) r where "bitmap_find_first_bit bm start tot val = r" "start \<le> r" "r < tot" "bits bm (unat r) = val"
      "\<forall>i. unat start \<le> i \<and> i < unat r \<longrightarrow> bits bm i \<noteq> val" "0 \<le>s r"
proof -
  let ?r = "first_bit_loop bm start tot val"
  note s = first_bit_loop_spec [OF assms(1), of bm val, unfolded Let_def]
  show thesis
  proof (cases "?r \<ge> tot")
    case True
    then have "unat ?r = unat tot" using s by (simp add: word_le_nat_alt)
    then show ?thesis using s True by (intro none) (auto simp: bitmap_find_first_bit_def)
  next
    case False
    have "unat ?r < 2 ^ 31" using False assms(2) by (simp add: word_le_nat_alt)
    then have "0 \<le>s ?r" by (rule nonneg_word)
    then show ?thesis using s False by (intro some [of ?r]) (auto simp: bitmap_find_first_bit_def word_le_nat_alt word_less_nat_alt)
  qed
qed

lemma set_bit_loop_bits:
  assumes "unat finish \<le> 8 * length bm"
  shows "bits (set_bit_loop index finish val bm) i = (if unat index \<le> i \<and> i < unat finish then val else bits bm i)"
    and "length (set_bit_loop index finish val bm) = length bm"
  using assms
proof (induction index finish val bm rule: set_bit_loop.induct)
  case (1 index finish val bm)
  {
    case 1
    show ?case
    proof (cases "index \<ge> finish")
      case True
      then show ?thesis by (subst set_bit_loop.simps) (auto simp: word_le_nat_alt)
    next
      case False
      then have "unat index < 8 * length bm" "unat (index + 1) = Suc (unat index)"
        using 1 unat_next [of finish index] by (auto simp: word_le_nat_alt)
      moreover have "set_bit_loop index finish val bm = set_bit_loop (index + 1) finish val (put_bit index val bm)"
        using False by (subst set_bit_loop.simps) simp
      ultimately show ?thesis using False "1.IH"(1) [OF False] 1 by (auto simp: bits_put_bit word_le_nat_alt)
    qed
  next
    case 2
    then show ?case using "1.IH"(2) by (cases "index \<ge> finish") (subst set_bit_loop.simps, simp)+
  }
qed

end
