(* ===== verification/Irq.thy ===== *)
theory Irq
  imports Io_Bitmap Radix_Tree
begin

text \<open>
  The interrupt framework: descriptors and the numbers they are found under (\<^verbatim>\<open>platform/irq/fwk_irq_desc.c\<close>),
  interrupt domains with their map from hardware numbers (\<^verbatim>\<open>fwk_irq_domain.c\<close>), interrupt chips
  (\<^verbatim>\<open>fwk_irq_chip.c\<close>) and the actions drivers register (\<^verbatim>\<open>fwk_irq_types.c\<close>).
  Descriptors are found through the radix tree, used here through its map interface; free numbers
  through a bitmap.  Lists of actions and of domains are lists of addresses, memory comes from a list of addresses the
  pool will hand out, and \<open>None\<close> stands for a null dereference, an access outside a domain's map or a loop that never ends.
\<close>

section \<open>State\<close>

record irq_data =
  id_irq :: kuint32_t
  id_hwirq :: kuint32_t
  id_chip :: kuaddr_t
  id_domain :: kuaddr_t
  id_handler_data :: kuaddr_t
  id_chip_data :: kuaddr_t
  id_mask :: kuint32_t

record irq_desc =
  de_irq :: kuint32_t
  de_flags :: kuint32_t
  de_actions :: "kuaddr_t list"
  de_data :: irq_data

record irq_action =
  ac_name :: string
  ac_handler :: kuaddr_t
  ac_flags :: kuint32_t
  ac_args :: kuaddr_t

record irq_domain =
  dm_node :: kuaddr_t
  dm_name :: "string option"
  dm_ops :: kuaddr_t
  dm_host :: kuaddr_t
  dm_parent :: kuaddr_t
  dm_max :: kuint32_t
  dm_revmap :: "int list"

record irq_generic =
  manage_reg :: kuaddr_t
  status_reg :: kuaddr_t

record irq_sys =
  ir_descs :: "kuaddr_t \<Rightarrow> irq_desc"
  ir_actions :: "kuaddr_t \<Rightarrow> irq_action"
  ir_domains :: "kuaddr_t \<Rightarrow> irq_domain"
  sgrt_fwk_irq_domain :: "kuaddr_t list"
  sgrt_fwk_irq_radix_tree :: radix_tree
  g_fwk_allocated_irqs :: "kuint8_t list"
  ir_gens :: "kuaddr_t \<Rightarrow> irq_generic"
  ir_regs :: "kuaddr_t \<Rightarrow> kuint32_t"
  ir_pool :: "kuaddr_t list"
  ir_freed :: "kuaddr_t list"

text \<open>The functions behind a chip; drivers bring their own.\<close>

record irq_chip =
  ch_enable :: "(kuaddr_t \<Rightarrow> irq_sys \<Rightarrow> irq_sys) option"
  ch_disable :: "(kuaddr_t \<Rightarrow> irq_sys \<Rightarrow> irq_sys) option"
  ch_mask :: "(kuaddr_t \<Rightarrow> irq_sys \<Rightarrow> irq_sys) option"
  ch_unmask :: "(kuaddr_t \<Rightarrow> irq_sys \<Rightarrow> irq_sys) option"
  ch_ack :: "(kuaddr_t \<Rightarrow> irq_sys \<Rightarrow> bool) option"
  ch_is_enabled :: "(kuaddr_t \<Rightarrow> irq_sys \<Rightarrow> bool) option"
  ch_set_type :: "(kuaddr_t \<Rightarrow> kuint32_t \<Rightarrow> irq_sys \<Rightarrow> irq_sys) option"

definition FWK_IRQ_DESC_MAX :: kuint32_t where "FWK_IRQ_DESC_MAX = 1024"
definition FWK_IRQ_DESC_NAME_LENTH :: nat where "FWK_IRQ_DESC_NAME_LENTH = 16"
definition IRQ_TYPE_SENSE_MASK :: kuint32_t where "IRQ_TYPE_SENSE_MASK = (2 OR 1) OR (8 OR 4)"

text \<open>The offset of the radix link in a descriptor, and the address of the dummy chip.\<close>

definition SGRT_RADIX_OFFSET :: kuaddr_t where "SGRT_RADIX_OFFSET = 40"
definition sgrt_fwk_irq_dummy_chip :: kuaddr_t where "sgrt_fwk_irq_dummy_chip = 0x80300000"

definition ir_kzalloc :: "irq_sys \<Rightarrow> kuaddr_t \<times> irq_sys" where
  "ir_kzalloc s = (case ir_pool s of [] \<Rightarrow> (0, s) | a # as \<Rightarrow> (a, s\<lparr>ir_pool := as\<rparr>))"

definition ir_kfree :: "kuaddr_t \<Rightarrow> irq_sys \<Rightarrow> irq_sys" where
  "ir_kfree a s = s\<lparr>ir_freed := ir_freed s @ [a]\<rparr>"

definition upd_desc :: "kuaddr_t \<Rightarrow> (irq_desc \<Rightarrow> irq_desc) \<Rightarrow> irq_sys \<Rightarrow> irq_sys" where
  "upd_desc d f s = s\<lparr>ir_descs := (ir_descs s)(d := f (ir_descs s d))\<rparr>"

definition upd_data :: "kuaddr_t \<Rightarrow> (irq_data \<Rightarrow> irq_data) \<Rightarrow> irq_sys \<Rightarrow> irq_sys" where
  "upd_data d f s = upd_desc d (\<lambda>x. x\<lparr>de_data := f (de_data x)\<rparr>) s"

section \<open>Descriptors\<close>

definition zero_data :: irq_data where
  "zero_data = \<lparr>id_irq = 0, id_hwirq = 0, id_chip = 0, id_domain = 0, id_handler_data = 0, id_chip_data = 0, id_mask = 0\<rparr>"

definition fwk_allocate_irq_desc :: "irq_sys \<Rightarrow> kuaddr_t \<times> irq_sys" where
  "fwk_allocate_irq_desc s =
     (let (d, s) = ir_kzalloc s
      in if \<not> isValid d then (0, s)
         else (d, upd_desc d (\<lambda>_. \<lparr>de_irq = 0, de_flags = 0, de_actions = [], de_data = zero_data\<rparr>) s))"

text \<open>\<^verbatim>\<open>index\<close> and \<^verbatim>\<open>temp\<close> are unsigned, so the test \<^verbatim>\<open>index < 0\<close> never holds; the \<^verbatim>\<open>continue\<close> goes to
  the test of the loop.\<close>

partial_function (option) areas_loop :: "kuint8_t list \<Rightarrow> kuint32_t \<Rightarrow> kuint32_t \<Rightarrow> kuint32_t \<Rightarrow> kuint32_t option" where
  "areas_loop bitmap index total_bits nr_irqs =
     (if index + nr_irqs \<ge> total_bits then Some (word_of_int (- ER_MORE))
      else let index = bitmap_find_first_zero_bit bitmap index total_bits;
               temp = bitmap_find_nr_zero_bit bitmap index total_bits nr_irqs
           in if temp \<noteq> 0 then areas_loop bitmap (temp + 1) total_bits nr_irqs else Some index)"

definition fwk_irq_bitmap_find_areas :: "kuint8_t list \<Rightarrow> int \<Rightarrow> kuint32_t \<Rightarrow> kuint32_t \<Rightarrow> kuint32_t option" where
  "fwk_irq_bitmap_find_areas bitmap irq_base total_bits nr_irqs =
     areas_loop bitmap (if irq_base \<ge> 0 then word_of_int irq_base else 0) total_bits nr_irqs"

definition fwk_irq_to_desc :: "kuint32_t \<Rightarrow> irq_sys \<Rightarrow> kuaddr_t" where
  "fwk_irq_to_desc virq s =
     (let l = radix_tree_look_up (sgrt_fwk_irq_radix_tree s) virq in if l = 0 then 0 else l - SGRT_RADIX_OFFSET)"

text \<open>The data of a descriptor is a part of it, so a pointer to it is given by the descriptor: \<^verbatim>\<open>fwk_irq_get_data\<close> and
  \<^verbatim>\<open>fwk_irq_data_to_desc\<close> go forth and back.\<close>

definition fwk_irq_get_data :: "kuint32_t \<Rightarrow> irq_sys \<Rightarrow> kuaddr_t" where
  "fwk_irq_get_data virq s = (let d = fwk_irq_to_desc virq s in if d = 0 then 0 else d)"

definition fwk_irq_data_to_desc :: "kuaddr_t \<Rightarrow> kuaddr_t" where
  "fwk_irq_data_to_desc d = (if d = 0 then 0 else d)"

fun alloc_data_loop :: "kuaddr_t \<Rightarrow> kuint32_t \<Rightarrow> kuint32_t \<Rightarrow> nat list \<Rightarrow> irq_sys \<Rightarrow> (int \<times> irq_sys) option" where
  "alloc_data_loop dmn virq hwirq [] s = Some (sint virq, s)"
| "alloc_data_loop dmn virq hwirq (i # is) s =
     (let d = fwk_irq_get_data (virq + of_nat i) s
      in if \<not> isValid d then Some (- ER_NOTFOUND, s)
         else let s = upd_data d (\<lambda>x. x\<lparr>id_domain := dmn, id_irq := virq + of_nat i, id_hwirq := hwirq + of_nat i,
                                        id_chip := sgrt_fwk_irq_dummy_chip, id_mask := 0\<rparr>) s;
                  h = unat (hwirq + of_nat i)
              in if h < length (dm_revmap (ir_domains s dmn))
                 then alloc_data_loop dmn virq hwirq is
                        (s\<lparr>ir_domains := (ir_domains s)(dmn := (ir_domains s dmn)\<lparr>dm_revmap := (dm_revmap (ir_domains s dmn))[h := sint (virq + of_nat i)]\<rparr>)\<rparr>)
                 else None)"

definition irq_domain_alloc_irq_data :: "kuaddr_t \<Rightarrow> kuint32_t \<Rightarrow> kuint32_t \<Rightarrow> kuint32_t \<Rightarrow> irq_sys \<Rightarrow> (int \<times> irq_sys) option" where
  "irq_domain_alloc_irq_data dmn virq hwirq nr_irqs s = alloc_data_loop dmn virq hwirq [0..<unat nr_irqs] s"

fun alloc_descs_loop :: "kuint32_t \<Rightarrow> nat list \<Rightarrow> irq_sys \<Rightarrow> bool \<times> irq_sys" where
  "alloc_descs_loop virq [] s = (True, s)"
| "alloc_descs_loop virq (i # is) s =
     (let (d, s) = fwk_allocate_irq_desc s
      in if \<not> isValid d then (False, s)
         else let s = upd_desc d (\<lambda>x. x\<lparr>de_irq := virq + of_nat i\<rparr>) s
              in alloc_descs_loop virq is
                   (s\<lparr>sgrt_fwk_irq_radix_tree := radix_tree_add (virq + of_nat i) (d + SGRT_RADIX_OFFSET) (sgrt_fwk_irq_radix_tree s)\<rparr>))"

text \<open>\<^verbatim>\<open>virq\<close> is unsigned in the code, so the error codes of the search are not noticed.\<close>

definition fwk_irq_domain_alloc_descs :: "int \<Rightarrow> kuint32_t \<Rightarrow> irq_sys \<Rightarrow> (int \<times> irq_sys) option" where
  "fwk_irq_domain_alloc_descs irq_base nr_irqs s =
     do { virq \<leftarrow> fwk_irq_bitmap_find_areas (g_fwk_allocated_irqs s) irq_base FWK_IRQ_DESC_MAX nr_irqs;
          let (got, s) = alloc_descs_loop virq [0..<unat nr_irqs] s;
          if \<not> got then Some (- ER_NOMEM, s)
          else Some (sint virq,
                 s\<lparr>g_fwk_allocated_irqs := bitmap_set_nr_bit_valid virq FWK_IRQ_DESC_MAX nr_irqs (g_fwk_allocated_irqs s)\<rparr>) }"

definition fwk_irq_domain_alloc_irqs :: "kuaddr_t \<Rightarrow> int \<Rightarrow> kuint32_t \<Rightarrow> kuint32_t \<Rightarrow> irq_sys \<Rightarrow> (int \<times> irq_sys) option" where
  "fwk_irq_domain_alloc_irqs dmn irq_base hwirq nr_irqs s =
     do { (virq, s) \<leftarrow> fwk_irq_domain_alloc_descs irq_base nr_irqs s;
          if virq < 0 then Some (virq, s) else irq_domain_alloc_irq_data dmn (word_of_int virq) hwirq nr_irqs s }"

definition fwk_irq_domain_get_data :: "kuaddr_t \<Rightarrow> kuint32_t \<Rightarrow> irq_sys \<Rightarrow> kuaddr_t option" where
  "fwk_irq_domain_get_data dmn hwirq s =
     (if \<not> isValid dmn then Some 0
      else if unat hwirq \<ge> length (dm_revmap (ir_domains s dmn)) then None
      else let virq = dm_revmap (ir_domains s dmn) ! unat hwirq
           in if virq < 0 then Some 0
              else let d = fwk_irq_get_data (word_of_int virq) s; x = de_data (ir_descs s d)
                   in Some (if isValid d then if id_hwirq x = hwirq \<and> id_domain x = dmn then d else 0 else 0))"

definition fwk_irq_domain_find_map :: "kuaddr_t \<Rightarrow> kuint32_t \<Rightarrow> kuint32_t \<Rightarrow> irq_sys \<Rightarrow> (int \<times> irq_sys) option" where
  "fwk_irq_domain_find_map dmn hwirq type s =
     do { d \<leftarrow> fwk_irq_domain_get_data dmn hwirq s;
          if \<not> isValid d then Some (- ER_UNVALID, s)
          else let s = (if type = 0 then s
                        else let de = fwk_irq_data_to_desc d; t = type AND IRQ_TYPE_SENSE_MASK
                             in if de_flags (ir_descs s de) AND t = 0 then upd_desc de (\<lambda>x. x\<lparr>de_flags := de_flags x OR t\<rparr>) s else s)
               in Some (sint (id_irq (de_data (ir_descs s d))), s) }"

definition fwk_irq_desc_set_type :: "kuint32_t \<Rightarrow> kuint32_t \<Rightarrow> irq_sys \<Rightarrow> irq_sys" where
  "fwk_irq_desc_set_type virq type s =
     (let d = fwk_irq_to_desc virq s in if \<not> isValid d then s else upd_desc d (\<lambda>x. x\<lparr>de_flags := de_flags x OR type\<rparr>) s)"

section \<open>Actions\<close>

definition fwk_destroy_irq_action :: "kuint32_t \<Rightarrow> irq_sys \<Rightarrow> irq_sys" where
  "fwk_destroy_irq_action irq s =
     (let d = fwk_irq_to_desc irq s
      in if \<not> isValid d then s
         else (upd_desc d (\<lambda>x. x\<lparr>de_actions := []\<rparr>) s)\<lparr>ir_freed := ir_freed s @ de_actions (ir_descs s d)\<rparr>)"

definition fwk_irq_desc_free :: "kuint32_t \<Rightarrow> irq_sys \<Rightarrow> irq_sys option" where
  "fwk_irq_desc_free irq s =
     (let d = fwk_irq_to_desc irq s
      in if d = 0 then None
         else let i = id_irq (de_data (ir_descs s d));
                  s = s\<lparr>g_fwk_allocated_irqs := bitmap_set_nr_bit_zero i FWK_IRQ_DESC_MAX 1 (g_fwk_allocated_irqs s)\<rparr>;
                  s = fwk_destroy_irq_action i s;
                  s = s\<lparr>sgrt_fwk_irq_radix_tree := radix_tree_del i (sgrt_fwk_irq_radix_tree s)\<rparr>
              in Some (ir_kfree d s))"

fun free_irqs_loop :: "kuaddr_t \<Rightarrow> nat list \<Rightarrow> irq_sys \<Rightarrow> irq_sys option" where
  "free_irqs_loop dmn [] s = Some s"
| "free_irqs_loop dmn (idx # is) s =
     (let v = dm_revmap (ir_domains s dmn) ! idx
      in if v < 0 then free_irqs_loop dmn is s
         else do { s \<leftarrow> fwk_irq_desc_free (word_of_int v) s;
                   free_irqs_loop dmn is
                     (s\<lparr>ir_domains := (ir_domains s)(dmn := (ir_domains s dmn)\<lparr>dm_revmap := (dm_revmap (ir_domains s dmn))[idx := - 1]\<rparr>)\<rparr>) })"

definition fwk_irq_domain_free_irqs :: "kuaddr_t \<Rightarrow> irq_sys \<Rightarrow> irq_sys option" where
  "fwk_irq_domain_free_irqs dmn s = free_irqs_loop dmn [0..<unat (dm_max (ir_domains s dmn))] s"

text \<open>\<^verbatim>\<open>strncmp\<close> of the C library on the first 16 characters; without a name only the argument is compared.\<close>

definition fwk_find_irq_action :: "kuint32_t \<Rightarrow> string option \<Rightarrow> kuaddr_t \<Rightarrow> irq_sys \<Rightarrow> kuaddr_t" where
  "fwk_find_irq_action irq nm dev s =
     (let d = fwk_irq_to_desc irq s
      in if \<not> isValid d then 0
         else case find (\<lambda>a. (case nm of None \<Rightarrow> True
                             | Some n \<Rightarrow> take FWK_IRQ_DESC_NAME_LENTH (ac_name (ir_actions s a)) = take FWK_IRQ_DESC_NAME_LENTH n) \<and>
                            ac_args (ir_actions s a) = dev) (de_actions (ir_descs s d)) of
                None \<Rightarrow> 0 | Some a \<Rightarrow> a)"

section \<open>Chips\<close>

definition fwk_irq_chip_dummy :: "kuaddr_t \<Rightarrow> irq_sys \<Rightarrow> irq_sys" where
  "fwk_irq_chip_dummy d s = s"

definition gc_of :: "kuaddr_t \<Rightarrow> irq_sys \<Rightarrow> kuaddr_t" where
  "gc_of d s = id_handler_data (de_data (ir_descs s d))"

definition fwk_irq_chip_gc_mask :: "kuaddr_t \<Rightarrow> irq_sys \<Rightarrow> irq_sys" where
  "fwk_irq_chip_gc_mask d s =
     (if gc_of d s = 0 then s
      else let m = id_mask (de_data (ir_descs s d)); g = ir_gens s (gc_of d s);
               r = (ir_regs s)(manage_reg g := ir_regs s (manage_reg g) OR m);
               r = r(status_reg g := r (status_reg g) OR m)
           in s\<lparr>ir_regs := r\<rparr>)"

definition fwk_irq_chip_gc_unmask :: "kuaddr_t \<Rightarrow> irq_sys \<Rightarrow> irq_sys" where
  "fwk_irq_chip_gc_unmask d s =
     (if gc_of d s = 0 then s
      else let m = id_mask (de_data (ir_descs s d)); g = ir_gens s (gc_of d s)
           in s\<lparr>ir_regs := (ir_regs s)(manage_reg g := ir_regs s (manage_reg g) AND NOT m)\<rparr>)"

definition fwk_irq_chip_gc_ack :: "kuaddr_t \<Rightarrow> irq_sys \<Rightarrow> bool" where
  "fwk_irq_chip_gc_ack d s \<longleftrightarrow>
     gc_of d s \<noteq> 0 \<and> ir_regs s (status_reg (ir_gens s (gc_of d s))) AND id_mask (de_data (ir_descs s d)) \<noteq> 0"

definition fwk_irq_chip_gc_is_enabled :: "kuaddr_t \<Rightarrow> irq_sys \<Rightarrow> bool" where
  "fwk_irq_chip_gc_is_enabled d s \<longleftrightarrow>
     gc_of d s \<noteq> 0 \<and> ir_regs s (manage_reg (ir_gens s (gc_of d s))) AND id_mask (de_data (ir_descs s d)) \<noteq> 0"

definition dummy_chip :: irq_chip where
  "dummy_chip = \<lparr>ch_enable = Some fwk_irq_chip_dummy, ch_disable = Some fwk_irq_chip_dummy, ch_mask = Some fwk_irq_chip_dummy,
     ch_unmask = Some fwk_irq_chip_dummy, ch_ack = None, ch_is_enabled = None, ch_set_type = None\<rparr>"

definition generic_chip :: irq_chip where
  "generic_chip = \<lparr>ch_enable = Some (\<lambda>_ s. s), ch_disable = Some (\<lambda>_ s. s), ch_mask = Some fwk_irq_chip_gc_mask,
     ch_unmask = Some fwk_irq_chip_gc_unmask, ch_ack = Some fwk_irq_chip_gc_ack, ch_is_enabled = Some fwk_irq_chip_gc_is_enabled,
     ch_set_type = None\<rparr>"

definition fwk_irq_set_chip_data :: "kuaddr_t \<Rightarrow> kuaddr_t \<Rightarrow> irq_sys \<Rightarrow> irq_sys" where
  "fwk_irq_set_chip_data d data s = upd_data d (\<lambda>x. x\<lparr>id_chip_data := data\<rparr>) s"

definition fwk_irq_set_chip_handler :: "kuaddr_t \<Rightarrow> kuaddr_t \<Rightarrow> kuaddr_t \<Rightarrow> irq_sys \<Rightarrow> irq_sys" where
  "fwk_irq_set_chip_handler d chip data s = upd_data d (\<lambda>x. x\<lparr>id_chip := chip, id_handler_data := data\<rparr>) s"

text \<open>\<open>chip_of g\<close> is the address of the chip inside the generic structure \<open>g\<close>: behind the two registers.\<close>

definition chip_of :: "kuaddr_t \<Rightarrow> kuaddr_t" where "chip_of g = g + 8"

definition fwk_irq_get_generic_data :: "kuaddr_t \<Rightarrow> irq_sys \<Rightarrow> kuaddr_t" where
  "fwk_irq_get_generic_data d s = id_chip (de_data (ir_descs s d)) - 8"

fun setup_chip_loop :: "kuint32_t \<Rightarrow> kuaddr_t \<Rightarrow> kuaddr_t \<Rightarrow> nat list \<Rightarrow> irq_sys \<Rightarrow> irq_sys" where
  "setup_chip_loop irq_base g data [] s = s"
| "setup_chip_loop irq_base g data (i # is) s =
     (let d = fwk_irq_get_data (irq_base + of_nat i) s
      in setup_chip_loop irq_base g data is
           (if d = 0 then s
            else fwk_irq_set_chip_handler d (chip_of g) g
                   (fwk_irq_set_chip_data d data (upd_data d (\<lambda>x. x\<lparr>id_mask := push_bit i 1\<rparr>) s))))"

definition fwk_irq_setup_generic_chip :: "kuint32_t \<Rightarrow> kuint32_t \<Rightarrow> kuaddr_t \<Rightarrow> kuaddr_t \<Rightarrow> irq_sys \<Rightarrow> irq_sys" where
  "fwk_irq_setup_generic_chip irq_base irq_max g data s =
     setup_chip_loop irq_base g data (if irq_base \<le> irq_base + irq_max then [0..<unat irq_max] else []) s"

fun shutdown_chip_loop :: "kuint32_t \<Rightarrow> nat list \<Rightarrow> irq_sys \<Rightarrow> irq_sys" where
  "shutdown_chip_loop irq_base [] s = s"
| "shutdown_chip_loop irq_base (i # is) s =
     (let d = fwk_irq_get_data (irq_base + of_nat i) s
      in shutdown_chip_loop irq_base is
           (if d = 0 then s
            else fwk_irq_set_chip_handler d sgrt_fwk_irq_dummy_chip 0
                   (fwk_irq_set_chip_data d 0 (upd_data d (\<lambda>x. x\<lparr>id_mask := 0\<rparr>) s))))"

definition fwk_irq_shutdown_generic_chip :: "kuint32_t \<Rightarrow> kuint32_t \<Rightarrow> irq_sys \<Rightarrow> irq_sys" where
  "fwk_irq_shutdown_generic_chip irq_base irq_max s =
     shutdown_chip_loop irq_base (if irq_base \<le> irq_base + irq_max then [0..<unat irq_max] else []) s"

text \<open>Calling through a null function pointer is \<open>None\<close>; \<open>chips\<close> gives the functions behind the address of a chip.\<close>

definition fwk_enable_irq :: "(kuaddr_t \<Rightarrow> irq_chip) \<Rightarrow> kuint32_t \<Rightarrow> irq_sys \<Rightarrow> irq_sys" where
  "fwk_enable_irq chips irq s =
     (let d = fwk_irq_get_data irq s; c = chips (id_chip (de_data (ir_descs s d)))
      in if d = 0 then s
         else case ch_enable c of Some f \<Rightarrow> f d s
              | None \<Rightarrow> (case ch_mask c of Some f \<Rightarrow> f d s | None \<Rightarrow> s))"

definition fwk_disable_irq :: "(kuaddr_t \<Rightarrow> irq_chip) \<Rightarrow> kuint32_t \<Rightarrow> irq_sys \<Rightarrow> irq_sys option" where
  "fwk_disable_irq chips irq s =
     (let d = fwk_irq_get_data irq s; c = chips (id_chip (de_data (ir_descs s d)))
      in if d = 0 then Some s
         else case ch_disable c of Some f \<Rightarrow> Some (f d s)
              | None \<Rightarrow> (case ch_mask c of None \<Rightarrow> Some s
                        | Some _ \<Rightarrow> (case ch_unmask c of Some f \<Rightarrow> Some (f d s) | None \<Rightarrow> None)))"

definition fwk_irq_set_type :: "(kuaddr_t \<Rightarrow> irq_chip) \<Rightarrow> kuint32_t \<Rightarrow> kuint32_t \<Rightarrow> irq_sys \<Rightarrow> irq_sys" where
  "fwk_irq_set_type chips irq flags s =
     (let d = fwk_irq_get_data irq s; c = chips (id_chip (de_data (ir_descs s d)));
          type = flags AND IRQ_TYPE_SENSE_MASK;
          type = (if type = 0 then de_flags (ir_descs s (fwk_irq_data_to_desc d)) AND IRQ_TYPE_SENSE_MASK else type)
      in if d = 0 then s else case ch_set_type c of Some f \<Rightarrow> f d type s | None \<Rightarrow> s)"

definition fwk_irq_is_acked :: "(kuaddr_t \<Rightarrow> irq_chip) \<Rightarrow> kuint32_t \<Rightarrow> irq_sys \<Rightarrow> bool" where
  "fwk_irq_is_acked chips irq s =
     (let d = fwk_irq_get_data irq s; c = chips (id_chip (de_data (ir_descs s d)))
      in d \<noteq> 0 \<and> (case ch_ack c of Some f \<Rightarrow> f d s | None \<Rightarrow> False))"

definition fwk_irq_is_enabled :: "(kuaddr_t \<Rightarrow> irq_chip) \<Rightarrow> kuint32_t \<Rightarrow> irq_sys \<Rightarrow> bool" where
  "fwk_irq_is_enabled chips irq s =
     (let d = fwk_irq_get_data irq s; c = chips (id_chip (de_data (ir_descs s d)))
      in d \<noteq> 0 \<and> (case ch_is_enabled c of Some f \<Rightarrow> f d s | None \<Rightarrow> False))"

section \<open>Requesting interrupts\<close>

text \<open>The address of \<^verbatim>\<open>fwk_default_irq_isr\<close>, which does nothing.\<close>

definition fwk_default_irq_isr :: kuaddr_t where "fwk_default_irq_isr = 0x80400000"

definition fwk_request_irq ::
  "(kuaddr_t \<Rightarrow> irq_chip) \<Rightarrow> kuint32_t \<Rightarrow> kuaddr_t \<Rightarrow> kuint32_t \<Rightarrow> string option \<Rightarrow> kuaddr_t \<Rightarrow> irq_sys \<Rightarrow> int \<times> irq_sys" where
  "fwk_request_irq chips irq handler flags nm dev s =
     (case nm of
        None \<Rightarrow> (- ER_FAULT, s)
      | Some n \<Rightarrow>
          if dev = 0 then (- ER_FAULT, s)
          else if fwk_find_irq_action irq nm dev s \<noteq> 0 then (- ER_EXISTED, s)
          else if \<not> isValid (fwk_irq_to_desc irq s) then (- ER_NOMEM, s)
          else let d = fwk_irq_to_desc irq s; (a, s) = ir_kzalloc s
               in if \<not> isValid a then (- ER_NOMEM, s)
                  else if length n \<ge> FWK_IRQ_DESC_NAME_LENTH then (- ER_CHECKERR, ir_kfree a s)
                  else let s = s\<lparr>ir_actions := (ir_actions s)(a := \<lparr>ac_name = n,
                                   ac_handler = (if handler \<noteq> 0 then handler else fwk_default_irq_isr), ac_flags = flags, ac_args = dev\<rparr>)\<rparr>;
                           s = fwk_irq_set_type chips irq flags s;
                           s = upd_desc d (\<lambda>x. x\<lparr>de_actions := de_actions x @ [a]\<rparr>) s
                       in (ER_NORMAL, fwk_enable_irq chips irq s))"

definition fwk_free_irq :: "(kuaddr_t \<Rightarrow> irq_chip) \<Rightarrow> int \<Rightarrow> kuaddr_t \<Rightarrow> irq_sys \<Rightarrow> irq_sys option" where
  "fwk_free_irq chips irq dev s =
     (if irq < 0 \<or> dev = 0 then Some s
      else do {
        s \<leftarrow> fwk_disable_irq chips (word_of_int irq) s;
        let a = fwk_find_irq_action (word_of_int irq) None dev s;
        if \<not> isValid a then Some s
        else let d = fwk_irq_to_desc (word_of_int irq) s
             in Some (ir_kfree a (upd_desc d (\<lambda>x. x\<lparr>de_actions := remove1 a (de_actions x)\<rparr>) s)) })"

text \<open>The calls \<^verbatim>\<open>fwk_do_irq_handler\<close> makes, in order: handler and argument of every action.\<close>

definition action_calls :: "irq_sys \<Rightarrow> kuaddr_t list \<Rightarrow> (kuaddr_t \<times> kuaddr_t) list" where
  "action_calls s as = map (\<lambda>a. (ac_handler (ir_actions s a), ac_args (ir_actions s a))) (filter (\<lambda>a. ac_handler (ir_actions s a) \<noteq> 0) as)"

definition fwk_do_irq_handler :: "int \<Rightarrow> irq_sys \<Rightarrow> (kuaddr_t \<times> kuaddr_t) list" where
  "fwk_do_irq_handler softIrq s =
     (if softIrq < 0 then []
      else let d = fwk_irq_to_desc (word_of_int softIrq) s
           in if \<not> isValid d then []
              else action_calls s (de_actions (ir_descs s d)))"

section \<open>Domains\<close>

definition fwk_of_irq_host :: "kuaddr_t \<Rightarrow> irq_sys \<Rightarrow> kuaddr_t" where
  "fwk_of_irq_host node s =
     (case find (\<lambda>d. node = dm_node (ir_domains s d)) (sgrt_fwk_irq_domain s) of None \<Rightarrow> 0 | Some d \<Rightarrow> d)"

definition fwk_irq_find_mapping :: "kuaddr_t \<Rightarrow> kuint32_t \<Rightarrow> kuint32_t \<Rightarrow> irq_sys \<Rightarrow> (int \<times> irq_sys) option" where
  "fwk_irq_find_mapping dmn type hwirq s = fwk_irq_domain_find_map dmn hwirq type s"

text \<open>The functions of the controller's driver: translating the cells of an interrupt specifier, and preparing a new number.\<close>

record domain_ops =
  op_xlate :: "(kuaddr_t \<Rightarrow> kuaddr_t \<Rightarrow> kuint32_t list \<Rightarrow> int \<times> kuint32_t \<times> kuint32_t) option"
  op_alloc :: "(kuaddr_t \<Rightarrow> kuint32_t \<Rightarrow> irq_sys \<Rightarrow> irq_sys) option"

definition fwk_irq_create_of_mapping ::
  "(kuaddr_t \<Rightarrow> domain_ops) \<Rightarrow> (kuaddr_t \<times> kuint32_t list) option \<Rightarrow> irq_sys \<Rightarrow> (int \<times> irq_sys) option" where
  "fwk_irq_create_of_mapping ops irq s =
     (case irq of
        None \<Rightarrow> Some (- ER_NOMEM, s)
      | Some (node, args) \<Rightarrow>
          if \<not> isValid node then Some (- ER_NOMEM, s)
          else let dmn = fwk_of_irq_host node s
               in if \<not> isValid dmn then Some (- ER_NOTFOUND, s)
                  else case op_xlate (ops (dm_ops (ir_domains s dmn))) of
                         None \<Rightarrow> Some (- ER_NOTFOUND, s)
                       | Some xlate \<Rightarrow>
                           let (retval, hwirq, type) = xlate dmn node args
                           in if retval < 0 then Some (retval, s)
                              else do {
                                (virq, s) \<leftarrow> fwk_irq_find_mapping dmn type hwirq s;
                                if virq \<ge> 0 then Some (virq, s)
                                else do {
                                  (virq, s) \<leftarrow> fwk_irq_domain_alloc_irqs dmn (- 1) hwirq 1 s;
                                  if virq < 0 then Some (virq, s)
                                  else let s = (case op_alloc (ops (dm_ops (ir_domains s dmn))) of
                                                  Some f \<Rightarrow> f dmn (word_of_int virq) s | None \<Rightarrow> s)
                                       in Some (virq, fwk_irq_desc_set_type (word_of_int virq) type s) } })"

definition fwk_irq_domain_add_linear :: "kuaddr_t \<Rightarrow> kuint32_t \<Rightarrow> kuaddr_t \<Rightarrow> kuaddr_t \<Rightarrow> irq_sys \<Rightarrow> kuaddr_t \<times> irq_sys" where
  "fwk_irq_domain_add_linear node sz ops host s =
     (let (dmn, s) = ir_kzalloc s
      in if \<not> isValid dmn then (0, s)
         else (dmn, s\<lparr>ir_domains := (ir_domains s)(dmn := \<lparr>dm_node = node, dm_name = None, dm_ops = ops, dm_host = host,
                        dm_parent = 0, dm_max = sz, dm_revmap = replicate (unat sz) (- 1)\<rparr>),
                      sgrt_fwk_irq_domain := sgrt_fwk_irq_domain s @ [dmn]\<rparr>))"

definition fwk_irq_domain_add_hierarchy ::
  "(kuaddr_t \<Rightarrow> string) \<Rightarrow> kuaddr_t \<Rightarrow> kuaddr_t \<Rightarrow> kuint32_t \<Rightarrow> kuaddr_t \<Rightarrow> kuaddr_t \<Rightarrow> irq_sys \<Rightarrow> kuaddr_t \<times> irq_sys" where
  "fwk_irq_domain_add_hierarchy node_name parent node sz ops host s =
     (let (dmn, s) = fwk_irq_domain_add_linear node sz ops host s
      in if isValid dmn
         then (dmn, s\<lparr>ir_domains := (ir_domains s)(dmn := (ir_domains s dmn)\<lparr>dm_parent := parent, dm_name := Some (node_name node)\<rparr>)\<rparr>)
         else (dmn, s))"

text \<open>\<^verbatim>\<open>list_head_del_tail\<close> is given the link of the domain where it expects the head of a list: it unlinks the entry before the domain.
  Before the first domain that is the head itself, and no walk over the domains ends any more.\<close>

fun unlink_before :: "kuaddr_t \<Rightarrow> kuaddr_t list \<Rightarrow> kuaddr_t list option" where
  "unlink_before d [] = None"
| "unlink_before d [x] = None"
| "unlink_before d (x # y # ys) =
     (if x = d then None else if y = d then Some (y # ys) else do { zs \<leftarrow> unlink_before d (y # ys); Some (x # zs) })"

definition fwk_irq_domain_del_hierarchy :: "kuaddr_t \<Rightarrow> irq_sys \<Rightarrow> irq_sys option" where
  "fwk_irq_domain_del_hierarchy dmn s =
     (if dmn = 0 then Some s
      else do { s \<leftarrow> fwk_irq_domain_free_irqs dmn s;
                ds \<leftarrow> unlink_before dmn (sgrt_fwk_irq_domain s);
                Some (s\<lparr>sgrt_fwk_irq_domain := ds\<rparr>) })"

definition fwk_irq_get_domain_by_name :: "string \<Rightarrow> int \<Rightarrow> irq_sys \<Rightarrow> kuaddr_t" where
  "fwk_irq_get_domain_by_name nm hwirq s =
     (case find (\<lambda>d. dm_name (ir_domains s d) = Some nm \<and> word_of_int hwirq < dm_max (ir_domains s d)) (sgrt_fwk_irq_domain s) of
        None \<Rightarrow> 0 | Some d \<Rightarrow> d)"

definition fwk_irq_get_by_domain :: "kuaddr_t \<Rightarrow> int \<Rightarrow> irq_sys \<Rightarrow> int option" where
  "fwk_irq_get_by_domain dmn hwirq s =
     (if dmn = 0 then Some (- 1)
      else if 0 \<le> hwirq \<and> nat hwirq < length (dm_revmap (ir_domains s dmn)) then Some (dm_revmap (ir_domains s dmn) ! nat hwirq) else None)"

definition fwk_irq_get_by_domain_name :: "string \<Rightarrow> int \<Rightarrow> irq_sys \<Rightarrow> int option" where
  "fwk_irq_get_by_domain_name nm hwirq s = fwk_irq_get_by_domain (fwk_irq_get_domain_by_name nm hwirq s) hwirq s"

text \<open>Deleting a domain takes the domain before it off the list and leaves the deleted one on it.\<close>

lemma deleted_domain_stays:
  assumes "d \<notin> set xs" and "y \<noteq> d"
  shows "unlink_before d (xs @ y # d # ys) = Some (xs @ d # ys)"
  using assms(1)
proof (induction xs)
  case (Cons x xs)
  obtain z zs where z: "xs @ y # d # ys = z # zs" by (cases xs) auto
  have "z \<noteq> d" using z Cons.prems assms(2) by (cases xs) auto
  then show ?case using Cons z by auto
qed (simp add: assms(2))

section \<open>Finding free numbers\<close>

text \<open>The search returns the first start of enough free numbers.\<close>

lemma areas_loop_found:
  assumes "unat index \<le> v" and "v + unat nr < unat tot" and "\<forall>j. v \<le> j \<and> j < v + unat nr \<longrightarrow> \<not> bits bm j"
    and "\<And>k. unat index \<le> k \<Longrightarrow> k < v \<Longrightarrow> \<exists>j. k \<le> j \<and> j < k + unat nr \<and> bits bm j"
    and "0 < unat nr" and "unat tot < 2 ^ 31"
  shows "areas_loop bm index tot nr = Some (of_nat v)"
  using assms(1,4)
proof (induction "v - unat index" arbitrary: index rule: less_induct)
  case less
  have sum: "unat (index + nr) = unat index + unat nr" by (rule unat_add_small) (use less.prems(1) assms(2,6) in simp)
  have go: "\<not> index + nr \<ge> tot" using sum less.prems(1) assms(2) by (simp add: word_le_nat_alt)
  have le: "index \<le> tot" using less.prems(1) assms(2) by (simp add: word_le_nat_alt)
  obtain z where z: "bitmap_find_first_zero_bit bm index tot = z" "index \<le> z" "z < tot" "\<not> bits bm (unat z)"
    "\<forall>i. unat index \<le> i \<and> i < unat z \<longrightarrow> bits bm i"
  proof (cases rule: find_first_bit_cases [OF le assms(6), of bm False])
    case 1
    then show ?thesis using less.prems(1) assms(2,3,5) by auto
  next
    case (2 r)
    then show ?thesis using that [of r] by (simp add: bitmap_find_first_zero_bit_def)
  qed
  have zv: "unat z \<le> v" using z(5) less.prems(1) assms(3,5) by (meson linorder_not_le order_refl less_add_same_cancel1)
  have s2: "unat (z + nr) = unat z + unat nr" by (rule unat_add_small) (use zv assms(2,6) in simp)
  have go2: "\<not> z + nr \<ge> tot" using s2 zv assms(2) by (simp add: word_le_nat_alt)
  have le2: "z \<le> z + nr" using s2 by (simp add: word_le_nat_alt)
  have lim2: "unat (z + nr) < 2 ^ 31" using s2 zv assms(2,6) by simp
  show ?case
  proof (cases rule: find_first_bit_cases [OF le2 lim2, of bm True])
    case 1
    have "v = unat z" using 1(2) s2 zv less.prems(2) [of "unat z"] z(2) by (force simp: word_le_nat_alt)
    moreover have "bitmap_find_nr_zero_bit bm z tot nr = 0"
      using 1(1) go2 by (simp add: bitmap_find_nr_zero_bit_def bitmap_find_nr_bit_def)
    ultimately show ?thesis by (subst areas_loop.simps) (use go z(1) in simp)
  next
    case (2 t)
    have t: "unat z < unat t" using 2(2,4) z(4) by (metis word_le_nat_alt le_neq_implies_less)
    have "bitmap_find_nr_zero_bit bm z tot nr = t"
      using 2(1,6) go2 by (simp add: bitmap_find_nr_zero_bit_def bitmap_find_nr_bit_def word_sless_alt word_sle_eq)
    moreover have "t \<noteq> 0" using t by auto
    ultimately have step: "areas_loop bm index tot nr = areas_loop bm (t + 1) tot nr"
      by (subst areas_loop.simps) (use go z(1) in simp)
    have t1: "unat (t + 1) = Suc (unat t)" by (rule unat_next [of "z + nr"]) (use 2(3) in simp)
    have tb: "unat t < unat z + unat nr" using 2(3) s2 by (simp add: word_less_nat_alt)
    have tv: "unat t < v"
    proof (rule ccontr)
      assume "\<not> unat t < v"
      then have "\<not> bits bm (unat t)" using assms(3) tb zv by auto
      then show False using 2(4) by simp
    qed
    have "areas_loop bm (t + 1) tot nr = Some (of_nat v)"
    proof (rule less.hyps)
      show "v - unat (t + 1) < v - unat index" using t1 tv t z(2) by (simp add: word_le_nat_alt)
      show "unat (t + 1) \<le> v" using t1 tv by simp
      show "\<exists>j. k \<le> j \<and> j < k + unat nr \<and> bits bm j" if "unat (t + 1) \<le> k" "k < v" for k
        using that t1 t z(2) by (intro less.prems(2)) (simp_all add: word_le_nat_alt)
    qed
    then show ?thesis using step by simp
  qed
qed

lemma areas_loop_full:
  assumes "\<forall>i < 1023. bits bm i" and "\<not> bits bm 1023"
  shows "areas_loop bm 0 1024 1 = None"
proof -
  have lim: "0 \<le> (1024 :: kuint32_t)" "unat (1024 :: kuint32_t) < 2 ^ 31" by simp_all
  have lt: "\<not> (1024 :: kuint32_t) \<le> 1" by (simp add: word_le_nat_alt)
  have z: "bitmap_find_first_zero_bit bm 0 1024 = 1023"
  proof (cases rule: find_first_bit_cases [OF lim, of bm False])
    case 1
    then show ?thesis using assms(2) by auto
  next
    case (2 r)
    have "unat r = 1023"
    proof (rule ccontr)
      assume "unat r \<noteq> 1023"
      moreover have "unat r < 1024" using 2(3) by (simp add: word_less_nat_alt)
      ultimately show False using 2(4) assms(1) by auto
    qed
    then have "r = 1023" by (metis of_nat_unat ucast_id of_nat_numeral)
    then show ?thesis using 2(1) by (simp add: bitmap_find_first_zero_bit_def)
  qed
  have n: "bitmap_find_nr_zero_bit bm 1023 1024 1 = - 1"
    by (simp add: bitmap_find_nr_zero_bit_def bitmap_find_nr_bit_def)
  have "\<not> (b = bm \<and> i = 0 \<and> t = 1024 \<and> k = 1)" if "areas_loop b i t k = Some r" for b i t k r
  proof (rule areas_loop.raw_induct [where P = "\<lambda>b i t k r. \<not> (b = bm \<and> i = 0 \<and> t = 1024 \<and> k = 1)", OF _ that])
    fix loop and b :: "kuint8_t list" and i t k r :: kuint32_t
    assume IH: "\<And>b i t k r. loop b i t k = Some r \<Longrightarrow> \<not> (b = bm \<and> i = 0 \<and> t = 1024 \<and> k = 1)"
      and r: "(if i + k \<ge> t then Some (word_of_int (- ER_MORE))
           else let index = bitmap_find_first_zero_bit b i t; temp = bitmap_find_nr_zero_bit b index t k
                in if temp \<noteq> 0 then loop b (temp + 1) t k else Some index) = Some r"
    show "\<not> (b = bm \<and> i = 0 \<and> t = 1024 \<and> k = 1)"
    proof
      assume "b = bm \<and> i = 0 \<and> t = 1024 \<and> k = 1"
      then have e: "b = bm" "i = 0" "t = 1024" "k = 1" by auto
      have "loop bm 0 1024 1 = Some r" using r unfolding e by (simp add: z n lt)
      then show False using IH by blast
    qed
  qed
  from this [of bm 0 1024 1] show ?thesis by (cases "areas_loop bm 0 1024 1") simp_all
qed

section \<open>Allocating numbers\<close>

text \<open>The invariant: the radix tree holds exactly the numbers marked in the bitmap, each with a valid descriptor of its own.\<close>

definition irq_ok :: "irq_sys \<Rightarrow> bool" where
  "irq_ok s \<longleftrightarrow> radix_ok (sgrt_fwk_irq_radix_tree s) \<and> length (g_fwk_allocated_irqs s) = 128 \<and>
     (\<forall>k. radix_map (sgrt_fwk_irq_radix_tree s) k \<noteq> None \<longrightarrow>
        unat k < 1023 \<and> isValid (fwk_irq_to_desc k s) \<and> de_irq (ir_descs s (fwk_irq_to_desc k s)) = k) \<and>
     (\<forall>i < 1024. bits (g_fwk_allocated_irqs s) i \<longleftrightarrow> radix_map (sgrt_fwk_irq_radix_tree s) (of_nat i) \<noteq> None)"

definition new_desc :: "kuint32_t \<Rightarrow> irq_desc" where
  "new_desc k = \<lparr>de_irq = k, de_flags = 0, de_actions = [], de_data = zero_data\<rparr>"

lemma irq_to_desc_map:
  "fwk_irq_to_desc k s = (case radix_map (sgrt_fwk_irq_radix_tree s) k of None \<Rightarrow> 0 | Some l \<Rightarrow> l - SGRT_RADIX_OFFSET)"
  by (simp add: fwk_irq_to_desc_def radix_map_def Let_def)

lemma alloc_descs_fields:
  assumes "ir_pool s = ds @ ps" and "length ds = length is" and "\<forall>d \<in> set ds. isValid d" and "distinct ds"
  shows "\<exists>s'. alloc_descs_loop virq is s = (True, s') \<and> ir_pool s' = ps \<and>
     (\<forall>(i, d) \<in> set (zip is ds). ir_descs s' d = new_desc (virq + of_nat i)) \<and>
     (\<forall>d. d \<notin> set ds \<longrightarrow> ir_descs s' d = ir_descs s d) \<and>
     sgrt_fwk_irq_radix_tree s' = radix.add_all (map (\<lambda>(i, d). (virq + of_nat i, d + SGRT_RADIX_OFFSET)) (zip is ds)) (sgrt_fwk_irq_radix_tree s) \<and>
     g_fwk_allocated_irqs s' = g_fwk_allocated_irqs s \<and> ir_domains s' = ir_domains s"
  using assms
proof (induction "is" arbitrary: s ds)
  case Nil
  then show ?case by (simp add: radix.add_all_def)
next
  case (Cons i "is")
  obtain d ds' where ds: "ds = d # ds'" using Cons.prems(2) by (cases ds) auto
  have v: "isValid d" "ir_pool s = d # ds' @ ps" using Cons.prems ds by auto
  let ?s = "(upd_desc d (\<lambda>x. x\<lparr>de_irq := virq + of_nat i\<rparr>)
        (upd_desc d (\<lambda>_. \<lparr>de_irq = 0, de_flags = 0, de_actions = [], de_data = zero_data\<rparr>) (s\<lparr>ir_pool := ds' @ ps\<rparr>)))
      \<lparr>sgrt_fwk_irq_radix_tree := radix_tree_add (virq + of_nat i) (d + SGRT_RADIX_OFFSET) (sgrt_fwk_irq_radix_tree s)\<rparr>"
  have step: "alloc_descs_loop virq (i # is) s = alloc_descs_loop virq is ?s"
    using v by (simp add: fwk_allocate_irq_desc_def ir_kzalloc_def upd_desc_def Let_def)
  have f: "ir_pool ?s = ds' @ ps" "ir_descs ?s = (ir_descs s)(d := new_desc (virq + of_nat i))"
    "g_fwk_allocated_irqs ?s = g_fwk_allocated_irqs s" "ir_domains ?s = ir_domains s"
    by (simp_all add: upd_desc_def new_desc_def)
  have IH: "\<exists>s'. alloc_descs_loop virq is ?s = (True, s') \<and> ir_pool s' = ps \<and>
     (\<forall>(i, d) \<in> set (zip is ds'). ir_descs s' d = new_desc (virq + of_nat i)) \<and>
     (\<forall>d. d \<notin> set ds' \<longrightarrow> ir_descs s' d = ir_descs ?s d) \<and>
     sgrt_fwk_irq_radix_tree s' = radix.add_all (map (\<lambda>(i, d). (virq + of_nat i, d + SGRT_RADIX_OFFSET)) (zip is ds')) (sgrt_fwk_irq_radix_tree ?s) \<and>
     g_fwk_allocated_irqs s' = g_fwk_allocated_irqs ?s \<and> ir_domains s' = ir_domains ?s"
    by (rule Cons.IH) (use Cons.prems ds f(1) in auto)
  have "d \<notin> set ds'" using Cons.prems(4) ds by simp
  then show ?case using IH unfolding step f(2-4) by (force simp: ds radix.add_all_def)
qed

text \<open>What the second loop has done: \<open>D i\<close> is the descriptor of the \<open>i\<close>-th number and \<open>h i\<close> its place in the map of the domain.\<close>

definition assigned :: "kuaddr_t \<Rightarrow> kuint32_t \<Rightarrow> kuint32_t \<Rightarrow> (nat \<Rightarrow> kuaddr_t) \<Rightarrow> (nat \<Rightarrow> nat) \<Rightarrow> nat set \<Rightarrow> irq_sys \<Rightarrow> irq_sys \<Rightarrow> bool" where
  "assigned dmn virq hwirq D h I s s' \<longleftrightarrow>
     sgrt_fwk_irq_radix_tree s' = sgrt_fwk_irq_radix_tree s \<and> g_fwk_allocated_irqs s' = g_fwk_allocated_irqs s \<and>
     (\<forall>d. de_irq (ir_descs s' d) = de_irq (ir_descs s d)) \<and>
     (\<forall>i \<in> I. id_irq (de_data (ir_descs s' (D i))) = virq + of_nat i \<and> id_hwirq (de_data (ir_descs s' (D i))) = hwirq + of_nat i \<and>
        id_domain (de_data (ir_descs s' (D i))) = dmn) \<and>
     (\<forall>d. d \<notin> D ` I \<longrightarrow> ir_descs s' d = ir_descs s d) \<and>
     length (dm_revmap (ir_domains s' dmn)) = length (dm_revmap (ir_domains s dmn)) \<and>
     (\<forall>i \<in> I. dm_revmap (ir_domains s' dmn) ! h i = sint (virq + of_nat i)) \<and>
     (\<forall>j. j \<notin> h ` I \<longrightarrow> dm_revmap (ir_domains s' dmn) ! j = dm_revmap (ir_domains s dmn) ! j)"

lemma alloc_data_fields:
  assumes "distinct is" and "\<forall>i \<in> set is. fwk_irq_to_desc (virq + of_nat i) s = D i \<and> isValid (D i)" and "inj_on D (set is)"
    and "\<forall>i \<in> set is. h i = unat (hwirq + of_nat i) \<and> h i < length (dm_revmap (ir_domains s dmn))" and "inj_on h (set is)"
  shows "\<exists>s'. alloc_data_loop dmn virq hwirq is s = Some (sint virq, s') \<and> assigned dmn virq hwirq D h (set is) s s'"
  using assms
proof (induction "is" arbitrary: s)
  case Nil
  then show ?case by (simp add: assigned_def)
next
  case (Cons i "is")
  let ?f = "\<lambda>x. x\<lparr>id_domain := dmn, id_irq := virq + of_nat i, id_hwirq := hwirq + of_nat i, id_chip := sgrt_fwk_irq_dummy_chip, id_mask := 0\<rparr>"
  let ?s0 = "upd_data (D i) ?f s"
  let ?s = "?s0\<lparr>ir_domains := (ir_domains ?s0)(dmn := (ir_domains ?s0 dmn)\<lparr>dm_revmap := (dm_revmap (ir_domains ?s0 dmn))[h i := sint (virq + of_nat i)]\<rparr>)\<rparr>"
  have d: "fwk_irq_to_desc (virq + of_nat i) s = D i" "isValid (D i)" "h i = unat (hwirq + of_nat i)" "h i < length (dm_revmap (ir_domains s dmn))"
    using Cons.prems by auto
  have "D i \<noteq> 0" using d(2) by (auto simp: isValid_def)
  then have step: "alloc_data_loop dmn virq hwirq (i # is) s = alloc_data_loop dmn virq hwirq is ?s"
    using d by (simp add: fwk_irq_get_data_def Let_def upd_data_def upd_desc_def)
  have f: "sgrt_fwk_irq_radix_tree ?s = sgrt_fwk_irq_radix_tree s" "g_fwk_allocated_irqs ?s = g_fwk_allocated_irqs s"
    "ir_descs ?s = (ir_descs s)(D i := (ir_descs s (D i))\<lparr>de_data := ?f (de_data (ir_descs s (D i)))\<rparr>)"
    "dm_revmap (ir_domains ?s dmn) = (dm_revmap (ir_domains s dmn))[h i := sint (virq + of_nat i)]"
    by (simp_all add: upd_data_def upd_desc_def)
  have t: "fwk_irq_to_desc k ?s = fwk_irq_to_desc k s" for k by (simp add: fwk_irq_to_desc_def f(1))
  have "\<exists>s'. alloc_data_loop dmn virq hwirq is ?s = Some (sint virq, s') \<and> assigned dmn virq hwirq D h (set is) ?s s'"
    by (rule Cons.IH) (use Cons.prems f(4) t in \<open>auto simp: inj_on_def\<close>)
  then obtain s' where s': "alloc_data_loop dmn virq hwirq is ?s = Some (sint virq, s')" "assigned dmn virq hwirq D h (set is) ?s s'" by blast
  have ni: "D i \<notin> D ` set is" "h i \<notin> h ` set is" using Cons.prems by auto
  have "assigned dmn virq hwirq D h (set (i # is)) s s'"
    using s'(2) ni d(4) unfolding assigned_def f by (auto simp: nth_list_update)
  then show ?case using s'(1) step by auto
qed

text \<open>\<open>free_run bm n v\<close>: the first \<open>n\<close> numbers in a row that are free start at \<open>v\<close>.\<close>

definition free_run :: "kuint8_t list \<Rightarrow> nat \<Rightarrow> nat \<Rightarrow> bool" where
  "free_run bm n v \<longleftrightarrow> v + n < 1024 \<and> (\<forall>j. v \<le> j \<and> j < v + n \<longrightarrow> \<not> bits bm j) \<and>
     (\<forall>k < v. \<exists>j. k \<le> j \<and> j < k + n \<and> bits bm j)"

definition fresh_descs :: "kuaddr_t list \<Rightarrow> irq_sys \<Rightarrow> bool" where
  "fresh_descs ds s \<longleftrightarrow> distinct ds \<and> (\<forall>d \<in> set ds. isValid d \<and> (\<forall>k. fwk_irq_to_desc k s \<noteq> d))"

lemma isValid_link: "isValid d \<Longrightarrow> d + SGRT_RADIX_OFFSET \<noteq> 0"
proof
  assume v: "isValid d" and "d + SGRT_RADIX_OFFSET = 0"
  then have "d = - 40" by (simp add: SGRT_RADIX_OFFSET_def eq_neg_iff_add_eq_0)
  then show False using v by (simp add: isValid_def IS_ERR_def word_le_nat_alt)
qed

lemma word_offset:
  fixes k :: kuint32_t
  assumes "v \<le> unat k"
  shows "k = of_nat v + of_nat (unat k - v)"
  using assms by (metis le_add_diff_inverse of_nat_add of_nat_unat ucast_id)

lemma alloc_descs_refines:
  assumes ok: "irq_ok s" and run: "free_run (g_fwk_allocated_irqs s) (unat nr) v" and "0 < unat nr"
    and pool: "ir_pool s = ds @ ps" "length ds = unat nr" and fresh: "fresh_descs ds s"
    and room: "radix_room (unat nr) (sgrt_fwk_irq_radix_tree s)"
  shows "\<exists>s'. fwk_irq_domain_alloc_descs (- 1) nr s = Some (int v, s') \<and> irq_ok s' \<and> ir_domains s' = ir_domains s \<and>
     (\<forall>k. fwk_irq_to_desc k s' = (if v \<le> unat k \<and> unat k < v + unat nr then ds ! (unat k - v) else fwk_irq_to_desc k s))"
proof -
  let ?n = "unat nr" and ?t = "sgrt_fwk_irq_radix_tree s" and ?bm = "g_fwk_allocated_irqs s"
  let ?v = "of_nat v :: kuint32_t"
  have lim: "v + ?n < 1024" using run by (simp add: free_run_def)
  have uv: "unat ?v = v" using lim by (simp add: unat_of_nat)
  have ui: "unat (?v + of_nat i) = v + i" if "i < ?n" for i using lim that by (simp add: unat_of_nat flip: of_nat_add)
  have a: "fwk_irq_bitmap_find_areas ?bm (- 1) FWK_IRQ_DESC_MAX nr = Some ?v"
    unfolding fwk_irq_bitmap_find_areas_def FWK_IRQ_DESC_MAX_def
    using areas_loop_found [of 0 v nr 1024 ?bm] run assms(3) by (simp add: free_run_def)
  obtain s1 where s1: "alloc_descs_loop ?v [0..<?n] s = (True, s1)"
    "\<forall>(i, d) \<in> set (zip [0..<?n] ds). ir_descs s1 d = new_desc (?v + of_nat i)"
    "\<forall>d. d \<notin> set ds \<longrightarrow> ir_descs s1 d = ir_descs s d"
    "sgrt_fwk_irq_radix_tree s1 = radix.add_all (map (\<lambda>(i, d). (?v + of_nat i, d + SGRT_RADIX_OFFSET)) (zip [0..<?n] ds)) ?t"
    "g_fwk_allocated_irqs s1 = ?bm" "ir_domains s1 = ir_domains s"
    using alloc_descs_fields [of s ds ps "[0..<?n]" ?v] pool fresh by (auto simp: fresh_descs_def)
  let ?kvs = "map (\<lambda>(i, d). (?v + of_nat i, d + SGRT_RADIX_OFFSET)) (zip [0..<?n] ds)"
  have keys: "map fst ?kvs = map (\<lambda>i. ?v + of_nat i) [0..<?n]"
    using pool(2) by (simp add: list_eq_iff_nth_eq)
  have "inj_on (\<lambda>i. ?v + of_nat i) (set [0..<?n])"
  proof (rule inj_onI)
    fix i j assume "i \<in> set [0..<?n]" "j \<in> set [0..<?n]" and e: "?v + of_nat i = ?v + of_nat j"
    then have ij: "i < ?n" "j < ?n" by auto
    have "unat (?v + of_nat i) = v + i" "unat (?v + of_nat j) = v + j" by (rule ui [OF ij(1)], rule ui [OF ij(2)])
    then have "v + i = v + j" unfolding e by (rule trans [OF sym])
    then show "i = j" by simp
  qed
  then have dist: "distinct (map fst ?kvs)" unfolding keys by (simp add: distinct_map)
  have rok: "radix_ok ?t" using ok by (simp add: irq_ok_def)
  have key: "\<exists>i < ?n. k = ?v + of_nat i" if "k \<in> fst ` set ?kvs" for k
  proof -
    have "k \<in> set (map fst ?kvs)" using that by (simp only: set_map)
    then show ?thesis unfolding keys by auto
  qed
  have none: "radix_map ?t k = None" if kin: "k \<in> fst ` set ?kvs" for k
  proof -
    obtain i where i: "i < ?n" "k = ?v + of_nat i" using key [OF kin] by blast
    then have "\<not> bits ?bm (v + i)" using run by (simp add: free_run_def)
    moreover have "\<forall>i < 1024. bits ?bm i \<longleftrightarrow> radix_map ?t (of_nat i) \<noteq> None" using ok by (simp add: irq_ok_def)
    ultimately have "radix_map ?t (of_nat (v + i)) = None" using i(1) lim by auto
    then show ?thesis using i(2) by simp
  qed
  have V: "snd ` set ?kvs \<subseteq> UNIV - {0}"
    using fresh isValid_link by (auto simp: fresh_descs_def dest!: set_zip_rightD)
  have look: "radix_map (sgrt_fwk_irq_radix_tree s1) k = (case map_of ?kvs k of None \<Rightarrow> radix_map ?t k | Some l \<Rightarrow> Some l)" for k
    unfolding s1(4) by (rule radix.add_all_look_up [OF rok _ dist V none]) (use room pool(2) in simp_all)
  have mo: "map_of ?kvs k = (if v \<le> unat k \<and> unat k < v + ?n then Some (ds ! (unat k - v) + SGRT_RADIX_OFFSET) else None)" for k
  proof (cases "v \<le> unat k \<and> unat k < v + ?n")
    case True
    define i where "i = unat k - v"
    have i: "i < ?n" "k = ?v + of_nat i" using True word_offset [of v k] by (simp_all only: i_def) auto
    have "(k, ds ! i + SGRT_RADIX_OFFSET) \<in> set ?kvs" using i pool(2) by (force simp: set_zip)
    then show ?thesis using dist True by (simp add: i_def map_of_eq_Some_iff)
  next
    case False
    have "k \<notin> fst ` set ?kvs"
    proof
      assume "k \<in> fst ` set ?kvs"
      then obtain i where i: "i < ?n" "k = ?v + of_nat i" using key by blast
      then show False using False ui [OF i(1)] by simp
    qed
    then have "map_of ?kvs k = None" by (simp only: map_of_eq_None_iff not_False_eq_True)
    then show ?thesis using False by simp
  qed
  let ?s' = "s1\<lparr>g_fwk_allocated_irqs := bitmap_set_nr_bit_valid ?v FWK_IRQ_DESC_MAX nr ?bm\<rparr>"
  have td: "fwk_irq_to_desc k ?s' = (if v \<le> unat k \<and> unat k < v + ?n then ds ! (unat k - v) else fwk_irq_to_desc k s)" for k
    using look [of k] mo [of k] by (simp add: irq_to_desc_map)
  have sum: "unat (?v + nr) = v + ?n" using lim uv unat_add_small [of ?v nr] by simp
  have bm: "bits (g_fwk_allocated_irqs ?s') i = (v \<le> i \<and> i < v + ?n \<or> bits ?bm i)" "length (g_fwk_allocated_irqs ?s') = 128" for i
    using set_bit_loop_bits [of "?v + nr" ?bm ?v True] sum uv lim ok
    by (auto simp: bitmap_set_nr_bit_valid_def bitmap_set_nr_bit_def FWK_IRQ_DESC_MAX_def word_le_nat_alt irq_ok_def)
  have map': "radix_map (sgrt_fwk_irq_radix_tree ?s') k \<noteq> None \<longleftrightarrow> v \<le> unat k \<and> unat k < v + ?n \<or> radix_map ?t k \<noteq> None" for k
    using look [of k] mo [of k] by (cases "v \<le> unat k \<and> unat k < v + ?n") auto
  have desc: "unat k < 1023 \<and> isValid (fwk_irq_to_desc k ?s') \<and> de_irq (ir_descs ?s' (fwk_irq_to_desc k ?s')) = k"
    if kin: "radix_map (sgrt_fwk_irq_radix_tree ?s') k \<noteq> None" for k
  proof (cases "v \<le> unat k \<and> unat k < v + ?n")
    case True
    define i where "i = unat k - v"
    have i: "i < ?n" "k = ?v + of_nat i" using True word_offset [of v k] by (simp_all only: i_def) auto
    have "(i, ds ! i) \<in> set (zip [0..<?n] ds)" using i(1) pool(2) by (force simp: set_zip)
    then have "ir_descs s1 (ds ! i) = new_desc k" using s1(2) i(2) by auto
    moreover have "isValid (ds ! i)" using fresh i(1) pool(2) by (simp add: fresh_descs_def)
    ultimately show ?thesis using td [of k] True lim by (simp add: i_def new_desc_def)
  next
    case False
    then have old: "radix_map ?t k \<noteq> None" using kin map' by blast
    then have o: "unat k < 1023" "isValid (fwk_irq_to_desc k s)" "de_irq (ir_descs s (fwk_irq_to_desc k s)) = k"
      using ok by (auto simp: irq_ok_def)
    have "fwk_irq_to_desc k s \<notin> set ds" using fresh by (auto simp: fresh_descs_def)
    then show ?thesis using td [of k] False o s1(3) by auto
  qed
  have "irq_ok ?s'" unfolding irq_ok_def
  proof (intro conjI)
    show "radix_ok (sgrt_fwk_irq_radix_tree ?s')" using radix.add_all_ok [OF rok] s1(4) by simp
    show "length (g_fwk_allocated_irqs ?s') = 128" by (rule bm(2))
    show "\<forall>k. radix_map (sgrt_fwk_irq_radix_tree ?s') k \<noteq> None \<longrightarrow>
        unat k < 1023 \<and> isValid (fwk_irq_to_desc k ?s') \<and> de_irq (ir_descs ?s' (fwk_irq_to_desc k ?s')) = k" using desc by blast
    have "bits ?bm i \<longleftrightarrow> radix_map ?t (of_nat i) \<noteq> None" "unat (of_nat i :: kuint32_t) = i" if "i < 1024" for i
      using ok that by (auto simp: irq_ok_def unat_of_nat)
    then show "\<forall>i < 1024. bits (g_fwk_allocated_irqs ?s') i \<longleftrightarrow> radix_map (sgrt_fwk_irq_radix_tree ?s') (of_nat i) \<noteq> None"
      using bm(1) map' by simp
  qed
  moreover have "fwk_irq_domain_alloc_descs (- 1) nr s = Some (int v, ?s')"
    using a s1(1,5) lim by (simp add: fwk_irq_domain_alloc_descs_def sint_of_nat_small)
  ultimately show ?thesis using td s1(6) by (intro exI [of _ ?s']) simp
qed

lemma alloc_irqs_maps:
  assumes "irq_ok s" and "free_run (g_fwk_allocated_irqs s) (unat nr) v" and "0 < unat nr"
    and "ir_pool s = ds @ ps" and "length ds = unat nr" and "fresh_descs ds s" and "radix_room (unat nr) (sgrt_fwk_irq_radix_tree s)"
    and "isValid dmn" and "unat hwirq + unat nr \<le> length (dm_revmap (ir_domains s dmn))" and "length (dm_revmap (ir_domains s dmn)) = unat (dm_max (ir_domains s dmn))"
  shows "\<exists>s'. fwk_irq_domain_alloc_irqs dmn (- 1) hwirq nr s = Some (int v, s') \<and> irq_ok s' \<and>
     (\<forall>i < unat nr. fwk_irq_domain_find_map dmn (hwirq + of_nat i) 0 s' = Some (int (v + i), s')) \<and>
     (\<forall>k. unat k < v \<or> v + unat nr \<le> unat k \<longrightarrow> fwk_irq_to_desc k s' = fwk_irq_to_desc k s)"
proof -
  let ?n = "unat nr" and ?v = "of_nat v :: kuint32_t"
  have lim: "v + ?n < 1024" using assms(2) by (simp add: free_run_def)
  have ui: "unat (?v + of_nat i) = v + i" if "i < ?n" for i using lim that by (simp add: unat_of_nat flip: of_nat_add)
  have "unat (dm_max (ir_domains s dmn)) < 2 ^ 32" using unsigned_less [of "dm_max (ir_domains s dmn)", where 'a = nat] by simp
  then have hl: "unat hwirq + ?n < 2 ^ 32" using assms(3,9,10) by simp
  have uh: "unat (hwirq + of_nat i) = unat hwirq + i" if "i < ?n" for i
    using unat_add_small [of hwirq "of_nat i"] hl that lim by (simp add: unat_of_nat)
  obtain s1 where s1: "fwk_irq_domain_alloc_descs (- 1) nr s = Some (int v, s1)" "irq_ok s1" "ir_domains s1 = ir_domains s"
    "\<forall>k. fwk_irq_to_desc k s1 = (if v \<le> unat k \<and> unat k < v + ?n then ds ! (unat k - v) else fwk_irq_to_desc k s)"
    using alloc_descs_refines [OF assms(1-7)] by blast
  have d1: "fwk_irq_to_desc (?v + of_nat i) s1 = ds ! i" "isValid (ds ! i)" if "i < ?n" for i
    using s1(4) ui [OF that] that assms(5,6) by (auto simp: fresh_descs_def)
  have inj: "inj_on ((!) ds) (set [0..<?n])" using assms(5,6) by (auto simp: fresh_descs_def inj_on_def nth_eq_iff_index_eq)
  let ?h = "\<lambda>i. unat hwirq + i"
  obtain s2 where s2: "alloc_data_loop dmn ?v hwirq [0..<?n] s1 = Some (sint ?v, s2)"
    "assigned dmn ?v hwirq ((!) ds) ?h (set [0..<?n]) s1 s2"
    using alloc_data_fields [of "[0..<?n]" ?v s1 "(!) ds" ?h hwirq dmn] d1 inj uh assms(9) s1(3) by (auto simp: inj_on_def)
  have sv: "sint ?v = int v" by (rule sint_of_nat_small) (use lim in simp)
  have td: "fwk_irq_to_desc k s2 = fwk_irq_to_desc k s1" for k using s2(2) by (simp add: assigned_def fwk_irq_to_desc_def)
  have "irq_ok s2" using s1(2) s2(2) td by (simp add: irq_ok_def assigned_def)
  moreover have "fwk_irq_domain_alloc_irqs dmn (- 1) hwirq nr s = Some (int v, s2)"
    using s1(1) s2(1) sv by (simp add: fwk_irq_domain_alloc_irqs_def irq_domain_alloc_irq_data_def)
  moreover have "fwk_irq_domain_find_map dmn (hwirq + of_nat i) 0 s2 = Some (int (v + i), s2)" if i: "i < ?n" for i
  proof -
    have si: "sint (?v + of_nat i) = int (v + i)" using sint_of_nat_small [of "v + i"] i lim by simp
    have dd: "fwk_irq_to_desc (?v + of_nat i) s2 = ds ! i" "isValid (ds ! i)" "ds ! i \<noteq> 0" using d1 [OF i] td by (auto simp: isValid_def)
    have as: "id_irq (de_data (ir_descs s2 (ds ! i))) = ?v + of_nat i" "id_hwirq (de_data (ir_descs s2 (ds ! i))) = hwirq + of_nat i"
      "id_domain (de_data (ir_descs s2 (ds ! i))) = dmn" "dm_revmap (ir_domains s2 dmn) ! (unat hwirq + i) = int (v + i)"
      "length (dm_revmap (ir_domains s2 dmn)) = length (dm_revmap (ir_domains s dmn))"
      using s2(2) i si s1(3) by (auto simp: assigned_def)
    have "fwk_irq_domain_get_data dmn (hwirq + of_nat i) s2 = Some (ds ! i)"
      using assms(8,9) uh [OF i] as dd i by (simp add: fwk_irq_domain_get_data_def fwk_irq_get_data_def Let_def)
    then show ?thesis using dd as(1) si by (simp add: fwk_irq_domain_find_map_def)
  qed
  moreover have "fwk_irq_to_desc k s2 = fwk_irq_to_desc k s" if "unat k < v \<or> v + ?n \<le> unat k" for k
    using td s1(4) that by auto
  ultimately show ?thesis by blast
qed

text \<open>Allocating interrupt numbers for a domain, with memory and numbers available, returns the first of the lowest
  free numbers in a row; afterwards every hardware number of the range is mapped to its own new number, all other numbers keep
  their descriptors, and the tree of descriptors again holds exactly the numbers marked in the bitmap.\<close>

lemma irq_alloc_maps:
  assumes "irq_ok s" and "free_run (g_fwk_allocated_irqs s) (unat nr) v" and "0 < unat nr"
    and "ir_pool s = ds @ ps" and "length ds = unat nr" and "fresh_descs ds s" and "radix_room (unat nr) (sgrt_fwk_irq_radix_tree s)"
    and "isValid dmn" and "unat hwirq + unat nr \<le> length (dm_revmap (ir_domains s dmn))" and "length (dm_revmap (ir_domains s dmn)) = unat (dm_max (ir_domains s dmn))"
  shows "\<exists>s'. fwk_irq_domain_alloc_irqs dmn (- 1) hwirq nr s = Some (int v, s') \<and> irq_ok s' \<and>
     (\<forall>i < unat nr. fwk_irq_domain_find_map dmn (hwirq + of_nat i) 0 s' = Some (int (v + i), s')) \<and>
     (\<forall>k. unat k < v \<or> v + unat nr \<le> unat k \<longrightarrow> fwk_irq_to_desc k s' = fwk_irq_to_desc k s)"
  by (rule alloc_irqs_maps [OF assms])

text \<open>When every number but the last is in use, asking for one more never returns: the search gives up at the last
  number, starts again from zero and finds the same.\<close>

lemma irq_numbers_exhausted_hangs:
  assumes "\<forall>i < 1023. bits (g_fwk_allocated_irqs s) i" and "\<not> bits (g_fwk_allocated_irqs s) 1023"
  shows "fwk_irq_domain_alloc_irqs dmn (- 1) hwirq 1 s = None"
  using areas_loop_full [OF assms]
  by (simp add: fwk_irq_domain_alloc_irqs_def fwk_irq_domain_alloc_descs_def fwk_irq_bitmap_find_areas_def FWK_IRQ_DESC_MAX_def)

section \<open>Actions and chips\<close>

text \<open>The functions of a chip work on registers: they leave the descriptors, their actions and the tree alone; and
  a chip that cannot be disabled but masked can be unmasked.\<close>

definition keeps_irqs :: "(irq_sys \<Rightarrow> irq_sys) \<Rightarrow> bool" where
  "keeps_irqs f \<longleftrightarrow> (\<forall>s. ir_descs (f s) = ir_descs s \<and> ir_actions (f s) = ir_actions s \<and>
     sgrt_fwk_irq_radix_tree (f s) = sgrt_fwk_irq_radix_tree s \<and> ir_pool (f s) = ir_pool s)"

definition quiet :: "irq_chip \<Rightarrow> bool" where
  "quiet c \<longleftrightarrow> (\<forall>f \<in> set_option (ch_enable c) \<union> set_option (ch_disable c) \<union> set_option (ch_mask c) \<union> set_option (ch_unmask c).
     \<forall>d. keeps_irqs (f d)) \<and> (\<forall>f \<in> set_option (ch_set_type c). \<forall>d t. keeps_irqs (f d t)) \<and>
     (ch_disable c = None \<and> ch_mask c \<noteq> None \<longrightarrow> ch_unmask c \<noteq> None)"

lemma quiet_chips: "quiet dummy_chip" "quiet generic_chip"
  by (auto simp: quiet_def dummy_chip_def generic_chip_def keeps_irqs_def fwk_irq_chip_dummy_def fwk_irq_chip_gc_mask_def
      fwk_irq_chip_gc_unmask_def Let_def)

lemma quietD:
  assumes "quiet c"
  shows "ch_enable c = Some f \<Longrightarrow> keeps_irqs (f d)" and "ch_disable c = Some f \<Longrightarrow> keeps_irqs (f d)"
    and "ch_mask c = Some f \<Longrightarrow> keeps_irqs (f d)" and "ch_unmask c = Some f \<Longrightarrow> keeps_irqs (f d)"
    and "ch_set_type c = Some g \<Longrightarrow> keeps_irqs (g d t)"
  using assms by (simp_all add: quiet_def)

lemma quiet_enable: "\<forall>c. quiet (chips c) \<Longrightarrow> keeps_irqs (fwk_enable_irq chips irq)"
  using quietD(1,3) unfolding keeps_irqs_def fwk_enable_irq_def Let_def by (simp split: option.split) blast

lemma quiet_set_type: "\<forall>c. quiet (chips c) \<Longrightarrow> keeps_irqs (fwk_irq_set_type chips irq flags)"
  using quietD(5) unfolding keeps_irqs_def fwk_irq_set_type_def Let_def by (simp split: option.split) blast

lemma quiet_disable:
  assumes "\<forall>c. quiet (chips c)" and "fwk_disable_irq chips irq s = Some s'"
  shows "ir_descs s' = ir_descs s" and "ir_actions s' = ir_actions s" and "sgrt_fwk_irq_radix_tree s' = sgrt_fwk_irq_radix_tree s"
  using assms(2) quietD(2,4) [OF assms(1) [rule_format]] unfolding keeps_irqs_def fwk_disable_irq_def Let_def
  by (auto split: option.splits if_splits)

lemma quiet_disable_returns:
  assumes "\<forall>c. quiet (chips c)"
  obtains s' where "fwk_disable_irq chips irq s = Some s'"
proof -
  let ?c = "chips (id_chip (de_data (ir_descs s (fwk_irq_get_data irq s))))"
  have "ch_disable ?c = None \<and> ch_mask ?c \<noteq> None \<longrightarrow> ch_unmask ?c \<noteq> None" using assms by (simp add: quiet_def)
  then have "fwk_disable_irq chips irq s \<noteq> None" by (auto simp: fwk_disable_irq_def Let_def split: option.splits)
  then show thesis using that by blast
qed

lemma to_desc_cong: "sgrt_fwk_irq_radix_tree s' = sgrt_fwk_irq_radix_tree s \<Longrightarrow> fwk_irq_to_desc k s' = fwk_irq_to_desc k s"
  by (simp add: fwk_irq_to_desc_def)

lemma action_calls_cong:
  assumes "\<And>b. b \<in> set as \<Longrightarrow> ir_actions s' b = ir_actions s b"
  shows "action_calls s' as = action_calls s as"
  using assms by (induction "as") (auto simp: action_calls_def)

lemma request_irq_fields:
  assumes "\<forall>c. quiet (chips c)" and "fwk_irq_to_desc irq s = d" and "isValid d" and "dev \<noteq> 0" and "length n < 16"
    and "\<forall>b \<in> set (de_actions (ir_descs s d)). ac_args (ir_actions s b) \<noteq> dev" and "ir_pool s = a # ps" and "isValid a"
  shows "\<exists>s'. fwk_request_irq chips irq handler flags (Some n) dev s = (ER_NORMAL, s') \<and>
     sgrt_fwk_irq_radix_tree s' = sgrt_fwk_irq_radix_tree s \<and>
     ir_descs s' = (ir_descs s)(d := (ir_descs s d)\<lparr>de_actions := de_actions (ir_descs s d) @ [a]\<rparr>) \<and>
     ir_actions s' = (ir_actions s)(a := \<lparr>ac_name = n, ac_handler = (if handler \<noteq> 0 then handler else fwk_default_irq_isr), ac_flags = flags, ac_args = dev\<rparr>)"
proof -
  have f: "fwk_find_irq_action irq (Some n) dev s = 0"
    using assms(2,3,6) by (auto simp: fwk_find_irq_action_def find_Some_iff split: option.splits)
  let ?s1 = "s\<lparr>ir_pool := ps, ir_actions := (ir_actions s)(a := \<lparr>ac_name = n,
      ac_handler = (if handler \<noteq> 0 then handler else fwk_default_irq_isr), ac_flags = flags, ac_args = dev\<rparr>)\<rparr>"
  let ?s2 = "fwk_irq_set_type chips irq flags ?s1"
  let ?s3 = "upd_desc d (\<lambda>x. x\<lparr>de_actions := de_actions x @ [a]\<rparr>) ?s2"
  have k: "ir_descs ?s2 = ir_descs s" "ir_actions ?s2 = ir_actions ?s1" "sgrt_fwk_irq_radix_tree ?s2 = sgrt_fwk_irq_radix_tree s"
    using quiet_set_type [OF assms(1), of irq flags] by (simp_all add: keeps_irqs_def)
  have e: "ir_descs (fwk_enable_irq chips irq ?s3) = ir_descs ?s3" "ir_actions (fwk_enable_irq chips irq ?s3) = ir_actions ?s3"
    "sgrt_fwk_irq_radix_tree (fwk_enable_irq chips irq ?s3) = sgrt_fwk_irq_radix_tree ?s3"
    using quiet_enable [OF assms(1), of irq] by (simp_all add: keeps_irqs_def)
  have "fwk_request_irq chips irq handler flags (Some n) dev s = (ER_NORMAL, fwk_enable_irq chips irq ?s3)"
    using assms(2-5,7,8) f by (simp add: fwk_request_irq_def FWK_IRQ_DESC_NAME_LENTH_def ir_kzalloc_def Let_def)
  then show ?thesis using k e by (simp add: upd_desc_def)
qed

text \<open>C14: A driver that requests an interrupt is called when it occurs, after the drivers that requested it before; asking
  again is refused without effect, and after the driver has freed the interrupt the calls are those from before its request.
  The functions of the chips are assumed not to touch the framework's own data.\<close>

theorem request_irq_is_handled:
  assumes "\<forall>c. quiet (chips c)" and "fwk_irq_to_desc irq s = d" and "isValid d" and "0 \<le> sint irq" and "dev \<noteq> 0" and "handler \<noteq> 0"
    and "length n < 16" and "\<forall>b \<in> set (de_actions (ir_descs s d)). ac_args (ir_actions s b) \<noteq> dev"
    and "ir_pool s = a # ps" and "isValid a" and "a \<notin> set (de_actions (ir_descs s d))"
  shows "\<exists>s'. fwk_request_irq chips irq handler flags (Some n) dev s = (ER_NORMAL, s') \<and>
     fwk_do_irq_handler (sint irq) s' = fwk_do_irq_handler (sint irq) s @ [(handler, dev)] \<and>
     fwk_request_irq chips irq h' flags' (Some n) dev s' = (- ER_EXISTED, s') \<and>
     (\<exists>s''. fwk_free_irq chips (sint irq) dev s' = Some s'' \<and> fwk_do_irq_handler (sint irq) s'' = fwk_do_irq_handler (sint irq) s)"
proof -
  let ?xs = "de_actions (ir_descs s d)"
  have w: "(word_of_int (sint irq) :: kuint32_t) = irq" by simp
  have a0: "a \<noteq> 0" using assms(10) by (auto simp: isValid_def)
  obtain s' where s': "fwk_request_irq chips irq handler flags (Some n) dev s = (ER_NORMAL, s')"
    "sgrt_fwk_irq_radix_tree s' = sgrt_fwk_irq_radix_tree s"
    "ir_descs s' = (ir_descs s)(d := (ir_descs s d)\<lparr>de_actions := ?xs @ [a]\<rparr>)"
    "ir_actions s' = (ir_actions s)(a := \<lparr>ac_name = n, ac_handler = handler, ac_flags = flags, ac_args = dev\<rparr>)"
    using request_irq_fields [OF assms(1-3,5,7-10), where handler = handler and flags = flags] assms(6) by auto
  have td: "fwk_irq_to_desc irq s' = d" using to_desc_cong [OF s'(2)] assms(2) by simp
  have c1: "action_calls s' ?xs = action_calls s ?xs" by (rule action_calls_cong) (use assms(11) s'(4) in auto)
  have "action_calls s' (?xs @ [a]) = action_calls s ?xs @ [(handler, dev)]"
    using c1 s'(4) assms(6) by (simp add: action_calls_def)
  then have h1: "fwk_do_irq_handler (sint irq) s' = fwk_do_irq_handler (sint irq) s @ [(handler, dev)]"
    using assms(2-4) td s'(3) w by (simp add: fwk_do_irq_handler_def)
  have fs: "find (\<lambda>b. Q b \<and> ac_args (ir_actions s' b) = dev) (?xs @ [a]) = Some a" if "Q a" for Q
  proof -
    have "find (\<lambda>b. Q b \<and> ac_args (ir_actions s' b) = dev) ?xs = None"
      using assms(8,11) s'(4) by (auto simp: find_None_iff)
    then show ?thesis using that s'(4) by (simp add: find_append)
  qed
  have nm: "take FWK_IRQ_DESC_NAME_LENTH (ac_name (ir_actions s' a)) = take FWK_IRQ_DESC_NAME_LENTH n" using s'(4) by simp
  have ex: "fwk_find_irq_action irq (Some n) dev s' = a" "fwk_find_irq_action irq None dev s' = a"
    using td assms(3) s'(3) fs [of "\<lambda>b. take FWK_IRQ_DESC_NAME_LENTH (ac_name (ir_actions s' b)) = take FWK_IRQ_DESC_NAME_LENTH n", OF nm]
      fs [of "\<lambda>_. True"] by (simp_all add: fwk_find_irq_action_def)
  have again: "fwk_request_irq chips irq h' flags' (Some n) dev s' = (- ER_EXISTED, s')"
    using ex(1) a0 assms(5) by (simp add: fwk_request_irq_def)
  have "\<exists>s''. fwk_free_irq chips (sint irq) dev s' = Some s'' \<and> fwk_do_irq_handler (sint irq) s'' = fwk_do_irq_handler (sint irq) s"
  proof -
    obtain s1 where s1: "fwk_disable_irq chips irq s' = Some s1" using assms(1) by (rule quiet_disable_returns)
    have k: "ir_descs s1 = ir_descs s'" "ir_actions s1 = ir_actions s'" "sgrt_fwk_irq_radix_tree s1 = sgrt_fwk_irq_radix_tree s'"
      using quiet_disable [OF assms(1) s1] by auto
    have f1: "fwk_find_irq_action irq None dev s1 = a" "fwk_irq_to_desc irq s1 = d"
      using ex(2) k td to_desc_cong [OF k(3), of irq] assms(3) by (auto simp: fwk_find_irq_action_def)
    define s'' where "s'' = ir_kfree a (upd_desc d (\<lambda>x. x\<lparr>de_actions := remove1 a (de_actions x)\<rparr>) s1)"
    have free: "fwk_free_irq chips (sint irq) dev s' = Some s''"
      using assms(4,5,10) w s1 f1 by (simp add: fwk_free_irq_def s''_def)
    have "ir_descs s'' d = (ir_descs s d)\<lparr>de_actions := ?xs\<rparr>" "ir_actions s'' = ir_actions s'" "fwk_irq_to_desc irq s'' = d"
      using k s'(3) f1(2) assms(11) by (auto simp: s''_def ir_kfree_def upd_desc_def remove1_append fwk_irq_to_desc_def)
    moreover have "action_calls s'' ?xs = action_calls s' ?xs" by (rule action_calls_cong) (use calculation(2) in simp)
    ultimately show ?thesis using free assms(2-4) w c1 by (simp add: fwk_do_irq_handler_def)
  qed
  with s'(1) h1 again show ?thesis by blast
qed

section \<open>Instances\<close>

definition demo_irqs :: irq_sys where
  "demo_irqs = \<lparr>ir_descs = (\<lambda>_. new_desc 0), ir_actions = (\<lambda>_. \<lparr>ac_name = [], ac_handler = 0, ac_flags = 0, ac_args = 0\<rparr>),
     ir_domains = (\<lambda>_. \<lparr>dm_node = 64, dm_name = None, dm_ops = 0, dm_host = 0, dm_parent = 0, dm_max = 32, dm_revmap = replicate 32 (- 1)\<rparr>),
     sgrt_fwk_irq_domain = [4096], sgrt_fwk_irq_radix_tree = demo_radix,
     g_fwk_allocated_irqs = replicate 128 0, ir_gens = (\<lambda>_. \<lparr>manage_reg = 0, status_reg = 0\<rparr>), ir_regs = (\<lambda>_. 0),
     ir_pool = [65536, 69632], ir_freed = []\<rparr>"

lemma demo_irqs_sel [simp]:
  "ir_pool demo_irqs = [65536, 69632]" "g_fwk_allocated_irqs demo_irqs = replicate 128 0" "sgrt_fwk_irq_radix_tree demo_irqs = demo_radix"
  "length (dm_revmap (ir_domains demo_irqs dmn)) = 32" "dm_max (ir_domains demo_irqs dmn) = 32" "de_actions (ir_descs demo_irqs d) = []"
  by (simp_all add: demo_irqs_def new_desc_def)

lemma demo_irqs_ok: "irq_ok demo_irqs" "fwk_irq_to_desc k demo_irqs = 0"
proof -
  have n: "radix_map demo_radix k = None" for k using demo_radix_ok(3) by (simp add: radix_map_def)
  have "\<not> bits (replicate 128 0) i" if "i < 1024" for i
  proof -
    have "i div 8 < 128" using that by simp
    then show ?thesis by (simp only: bits_def nth_replicate) simp
  qed
  then show "irq_ok demo_irqs" using demo_radix_ok(1) n by (simp add: irq_ok_def)
  show "fwk_irq_to_desc k demo_irqs = 0" using n by (simp add: irq_to_desc_map)
qed

lemma irq_alloc_maps_witness:
  "\<exists>s'. fwk_irq_domain_alloc_irqs 4096 (- 1) 5 2 demo_irqs = Some (0, s') \<and> fwk_irq_domain_find_map 4096 6 0 s' = Some (1, s')"
proof -
  have r: "free_run (g_fwk_allocated_irqs demo_irqs) (unat (2 :: kuint32_t)) 0"
    by (simp add: free_run_def bits_def)
  have f: "fresh_descs [65536, 69632] demo_irqs" by (simp add: fresh_descs_def demo_irqs_ok(2) isValid_def IS_ERR_def)
  have m: "radix_room (unat (2 :: kuint32_t)) (sgrt_fwk_irq_radix_tree demo_irqs)" using demo_radix_ok(2) by simp
  obtain s' where s': "fwk_irq_domain_alloc_irqs 4096 (- 1) 5 2 demo_irqs = Some (int 0, s')"
    "\<forall>i < unat (2 :: kuint32_t). fwk_irq_domain_find_map 4096 (5 + of_nat i) 0 s' = Some (int (0 + i), s')"
    using irq_alloc_maps [OF demo_irqs_ok(1) r _ _ _ f m, of "[]" 4096 5] by (auto simp: isValid_def IS_ERR_def)
  from s'(2) [rule_format, of 1] s'(1) show ?thesis by simp
qed

lemma irq_numbers_exhausted_hangs_witness:
  "fwk_irq_domain_alloc_irqs 4096 (- 1) 5 1 (demo_irqs\<lparr>g_fwk_allocated_irqs := replicate 127 0xFF @ [0x7F]\<rparr>) = None"
proof (rule irq_numbers_exhausted_hangs)
  let ?bm = "replicate 127 0xFF @ [0x7F] :: kuint8_t list"
  have 1: "bit (0xFF :: kuint8_t) k" if "k < 8" for k
    using that by (auto simp: less_Suc_eq numeral_nat bit_simps)
  have 2: "bit (0x7F :: kuint8_t) k = (k < 7)" if "k < 8" for k
    using that by (auto simp: less_Suc_eq numeral_nat bit_simps)
  have "bits ?bm i" if "i < 1023" for i
  proof (cases "i div 8 < 127")
    case True
    then show ?thesis using 1 by (simp add: bits_def nth_append)
  next
    case False
    then have "i div 8 = 127" "i mod 8 < 7" using that by presburger+
    then show ?thesis using 2 [of "i mod 8"] by (simp add: bits_def nth_append)
  qed
  then show "\<forall>i < 1023. bits (g_fwk_allocated_irqs (demo_irqs\<lparr>g_fwk_allocated_irqs := ?bm\<rparr>)) i" by simp
  show "\<not> bits (g_fwk_allocated_irqs (demo_irqs\<lparr>g_fwk_allocated_irqs := ?bm\<rparr>)) 1023" using 2 [of 7] by (simp add: bits_def nth_append)
qed

theorem request_irq_is_handled_witness:
  "\<exists>s'. fwk_request_irq (\<lambda>_. generic_chip) 3 500 1 (Some ''uart'') 640
     (demo_irqs\<lparr>sgrt_fwk_irq_radix_tree := radix_tree_add 3 8232 demo_radix\<rparr>) = (ER_NORMAL, s') \<and>
     fwk_do_irq_handler 3 s' = [(500, 640)]"
proof -
  let ?s = "demo_irqs\<lparr>sgrt_fwk_irq_radix_tree := radix_tree_add 3 8232 demo_radix\<rparr>"
  have "radix_tree_look_up (radix_tree_add 3 8232 demo_radix) 3 = 8232"
    by (rule radix_tree_add_laws(4) [OF demo_radix_ok(1), of 1]) (use demo_radix_ok(2,3) in \<open>simp_all add: numeral_2_eq_2\<close>)
  then have d: "fwk_irq_to_desc 3 ?s = 8192" by (simp add: fwk_irq_to_desc_def SGRT_RADIX_OFFSET_def)
  have v: "isValid 8192" "isValid 65536" by (simp_all add: isValid_def IS_ERR_def)
  have s3: "sint (3 :: kuint32_t) = 3" by simp
  have q: "\<forall>c. quiet ((\<lambda>_. generic_chip) c)" using quiet_chips(2) by simp
  have e: "fwk_do_irq_handler 3 ?s = []" using d by (simp add: fwk_do_irq_handler_def action_calls_def)
  from request_irq_is_handled [OF q d v(1), of 640 500 "''uart''" 65536 "[69632]" 1 0 0] v(2) e show ?thesis by auto
qed

end
