(* ===== verification/Mailbox.thy ===== *)
theory Mailbox
  imports Api_String Locks
begin

text \<open>
  Mailboxes: \<^verbatim>\<open>kernel/mailbox.c\<close>.  Mailboxes and mails are structures in memory, the list of mailboxes and the queue of
  mails of each are lists of addresses, arrays of messages and buffers are lists at the address of the array.
  Memory comes from a list of addresses the pool will hand out; what it hands out keeps its old contents.
  \<open>mb_current\<close> is whether a thread is running, as the mutexes ask; \<open>None\<close> is a call that waits, or an access outside
  an array.
\<close>

section \<open>State\<close>

record mail_msg =
  mm_type :: kuint32_t
  mm_code :: kuint32_t
  mm_buffer :: kuaddr_t
  mm_size :: nat

definition NR_MAIL_NONE :: nat where "NR_MAIL_NONE = 0"
definition NR_MAIL_ALREADY_READ :: nat where "NR_MAIL_ALREADY_READ = 1"
definition NR_MAIL_ERROR :: nat where "NR_MAIL_ERROR = 4"

record mail =
  ml_src :: kuaddr_t
  ml_msg :: kuaddr_t
  ml_num :: nat
  ml_status :: nat
  ml_lock :: mutex_lock

definition MAILBOX_NAME_LEN :: nat where "MAILBOX_NAME_LEN = 32"

record mailbox =
  mb_name :: bytes
  mb_tid :: kuint32_t
  num_mails :: kuint32_t
  sgrt_mail :: "kuaddr_t list"
  mb_lock :: mutex_lock

record mail_sys =
  boxes :: "kuaddr_t \<Rightarrow> mailbox"
  sgrt_kernel_mailboxs :: "kuaddr_t list"
  mails :: "kuaddr_t \<Rightarrow> mail"
  msgs :: "kuaddr_t \<Rightarrow> mail_msg list"
  buffers :: "kuaddr_t \<Rightarrow> bytes"
  mb_pool :: "kuaddr_t list"
  mb_freed :: "kuaddr_t list"
  mb_current :: bool

definition mb_kmalloc :: "mail_sys \<Rightarrow> kuaddr_t \<times> mail_sys" where
  "mb_kmalloc s = (case mb_pool s of [] \<Rightarrow> (0, s) | a # as \<Rightarrow> (a, s\<lparr>mb_pool := as\<rparr>))"

definition mb_kfree :: "kuaddr_t \<Rightarrow> mail_sys \<Rightarrow> mail_sys" where
  "mb_kfree a s = s\<lparr>mb_freed := mb_freed s @ [a]\<rparr>"

definition upd_box :: "kuaddr_t \<Rightarrow> (mailbox \<Rightarrow> mailbox) \<Rightarrow> mail_sys \<Rightarrow> mail_sys" where
  "upd_box b f s = s\<lparr>boxes := (boxes s)(b := f (boxes s b))\<rparr>"

definition upd_mail :: "kuaddr_t \<Rightarrow> (mail \<Rightarrow> mail) \<Rightarrow> mail_sys \<Rightarrow> mail_sys" where
  "upd_mail m f s = s\<lparr>mails := (mails s)(m := f (mails s m))\<rparr>"

definition mail_lock :: "kuaddr_t \<Rightarrow> mail_sys \<Rightarrow> mail_sys option" where
  "mail_lock m s = map_option (\<lambda>l. upd_mail m (\<lambda>x. x\<lparr>ml_lock := l\<rparr>) s) (mutex_lock_try_once (mb_current s) (ml_lock (mails s m)))"

definition mail_unlock :: "kuaddr_t \<Rightarrow> mail_sys \<Rightarrow> mail_sys" where
  "mail_unlock m s = upd_mail m (\<lambda>x. x\<lparr>ml_lock := mutex_unlock (mb_current s) (ml_lock x)\<rparr>) s"

definition box_lock :: "kuaddr_t \<Rightarrow> mail_sys \<Rightarrow> mail_sys option" where
  "box_lock b s = map_option (\<lambda>l. upd_box b (\<lambda>x. x\<lparr>mb_lock := l\<rparr>) s) (mutex_lock_try_once (mb_current s) (mb_lock (boxes s b)))"

definition box_unlock :: "kuaddr_t \<Rightarrow> mail_sys \<Rightarrow> mail_sys" where
  "box_unlock b s = upd_box b (\<lambda>x. x\<lparr>mb_lock := mutex_unlock (mb_current s) (mb_lock x)\<rparr>) s"

section \<open>Mailboxes\<close>

definition mailbox_find :: "bytes option \<Rightarrow> mail_sys \<Rightarrow> kuaddr_t" where
  "mailbox_find nm s =
     (case nm of
        None \<Rightarrow> 0
      | Some n \<Rightarrow> if cstr n = [] then 0
                  else case find (\<lambda>b. cstr (mb_name (boxes s b)) = cstr n) (sgrt_kernel_mailboxs s) of None \<Rightarrow> 0 | Some b \<Rightarrow> b)"

text \<open>The loop remembers the last mailbox before the first one with a greater thread number; the new one is linked before it.\<close>

definition mailbox_insert :: "kuaddr_t \<Rightarrow> mail_sys \<Rightarrow> mail_sys" where
  "mailbox_insert b s =
     (let bs = sgrt_kernel_mailboxs s; ps = takeWhile (\<lambda>c. \<not> mb_tid (boxes s c) > mb_tid (boxes s b)) bs
      in if ps = [] then s\<lparr>sgrt_kernel_mailboxs := bs @ [b]\<rparr>
         else s\<lparr>sgrt_kernel_mailboxs := butlast ps @ [b, last ps] @ drop (length ps) bs\<rparr>)"

text \<open>\<open>temp\<close> and \<open>cnt\<close> are the uninitialised variables of the number printer behind \<^verbatim>\<open>sprintk\<close>.  The label is an array filled
  with zeros, so it has a terminator behind what is written to it.\<close>

definition default_label :: "(nat \<Rightarrow> kuint8_t) \<Rightarrow> nat \<Rightarrow> kuint32_t \<Rightarrow> bytes option" where
  "default_label temp cnt tid =
     do { (_, out) \<leftarrow> sprintk temp cnt (map (\<lambda>c. of_nat (of_char c)) ''mailbox-tid-%d'' @ [0]) [VaInt tid];
          Some (out @ replicate (MAILBOX_NAME_LEN - length out) 0) }"

definition mailbox_init :: "(nat \<Rightarrow> kuint8_t) \<Rightarrow> nat \<Rightarrow> kuaddr_t \<Rightarrow> kuint32_t \<Rightarrow> bytes option \<Rightarrow> mail_sys \<Rightarrow> (int \<times> mail_sys) option" where
  "mailbox_init temp cnt b tid nm s =
     do { label \<leftarrow> (case nm of
                      Some n \<Rightarrow> if cstr n \<noteq> [] then map_option snd (do_string_n_copy_safe (replicate MAILBOX_NAME_LEN 0) n MAILBOX_NAME_LEN)
                                else default_label temp cnt tid
                    | None \<Rightarrow> default_label temp cnt tid);
          if mailbox_find (Some label) s \<noteq> 0 then Some (- ER_EXISTED, s)
          else do {
            (_, name) \<leftarrow> do_string_n_copy_safe (mb_name (boxes s b)) label MAILBOX_NAME_LEN;
            let s = upd_box b (\<lambda>x. x\<lparr>num_mails := 0, mb_tid := tid, mb_name := name, sgrt_mail := [], mb_lock := mutex_init (mb_lock x)\<rparr>) s;
            Some (ER_NORMAL, mailbox_insert b s) } }"

definition mailbox_deinit :: "kuaddr_t \<Rightarrow> mail_sys \<Rightarrow> mail_sys" where
  "mailbox_deinit b s =
     (upd_box b (\<lambda>x. x\<lparr>mb_lock := mutex_init (mb_lock x)\<rparr>) s)\<lparr>sgrt_kernel_mailboxs := remove1 b (sgrt_kernel_mailboxs s)\<rparr>"

definition mailbox_create :: "(nat \<Rightarrow> kuint8_t) \<Rightarrow> nat \<Rightarrow> kuint32_t \<Rightarrow> bytes option \<Rightarrow> mail_sys \<Rightarrow> (kuaddr_t \<times> mail_sys) option" where
  "mailbox_create temp cnt tid nm s =
     (let (b, s) = mb_kmalloc s
      in if \<not> isValid b then Some (b, s)
         else do { (r, s) \<leftarrow> mailbox_init temp cnt b tid nm s;
                   if r \<noteq> 0 then Some (ERR_PTR (- ER_FAILD), mb_kfree b s) else Some (b, s) })"

definition mailbox_destroy :: "kuaddr_t \<Rightarrow> mail_sys \<Rightarrow> mail_sys" where
  "mailbox_destroy b s = (if b = 0 then s else mb_kfree b (mailbox_deinit b s))"

section \<open>Mails\<close>

definition mail_create :: "kuaddr_t \<Rightarrow> mail_sys \<Rightarrow> kuaddr_t \<times> mail_sys" where
  "mail_create b s =
     (let (m, s) = mb_kmalloc s
      in if \<not> isValid m then (m, s)
         else (m, upd_mail m (\<lambda>x. \<lparr>ml_src = b, ml_msg = 0, ml_num = 0, ml_status = 0,
                                   ml_lock = mutex_init \<lparr>mx_atc = \<lparr>counter = 0\<rparr>\<rparr>\<rparr>) s))"

text \<open>The source name of a mail points into the mailbox it was created for, whose address stands for it; comparing with
  a null name is an invalid access.  The mail leaves the queue it is in, whichever that is.\<close>

definition unlink_mail :: "kuaddr_t \<Rightarrow> mail_sys \<Rightarrow> mail_sys" where
  "unlink_mail m s = s\<lparr>boxes := (\<lambda>b. (boxes s b)\<lparr>sgrt_mail := remove1 m (sgrt_mail (boxes s b))\<rparr>)\<rparr>"

definition mail_destroy :: "kuaddr_t \<Rightarrow> kuaddr_t \<Rightarrow> mail_sys \<Rightarrow> mail_sys option" where
  "mail_destroy b m s =
     (if m = 0 then Some s
      else do { s \<leftarrow> mail_lock m s;
                let s = unlink_mail m s;
                if b \<noteq> 0 \<and> ml_src (mails s m) = 0 then None
                else if b \<noteq> 0 \<and> cstr (mb_name (boxes s b)) = cstr (mb_name (boxes s (ml_src (mails s m)))) then Some (mb_kfree m s)
                else Some (mail_unlock m s) })"

definition mail_send :: "bytes option \<Rightarrow> kuaddr_t \<Rightarrow> mail_sys \<Rightarrow> (int \<times> mail_sys) option" where
  "mail_send nm m s =
     (if m = 0 \<or> ml_msg (mails s m) = 0 then Some (- ER_NOMEM, s)
      else let b = mailbox_find nm s
           in if \<not> isValid b then Some (PTR_ERR b, s)
              else do { s \<leftarrow> mail_lock m s;
                        s \<leftarrow> box_lock b s;
                        let s = upd_box b (\<lambda>x. x\<lparr>sgrt_mail := sgrt_mail x @ [m], num_mails := num_mails x + 1\<rparr>) s;
                        let s = box_unlock b s;
                        let s = upd_mail m (\<lambda>x. x\<lparr>ml_status := NR_MAIL_NONE\<rparr>) s;
                        Some (ER_NORMAL, mail_unlock m s) })"

definition mail_recv_finish :: "kuaddr_t \<Rightarrow> mail_sys \<Rightarrow> mail_sys option" where
  "mail_recv_finish m s =
     (let x = mails s m; ms = msgs s (ml_msg x)
      in if ml_msg x \<noteq> 0 \<and> ml_num x > length ms then None
         else let s = (if ml_msg x \<noteq> 0
                       then upd_mail m (\<lambda>x. x\<lparr>ml_msg := 0, ml_num := 0\<rparr>)
                              (s\<lparr>mb_freed := mb_freed s @ filter (\<lambda>a. a \<noteq> 0) (map mm_buffer (take (ml_num x) ms)) @ [ml_msg x]\<rparr>)
                       else s)
              in Some (upd_mail m (\<lambda>x. x\<lparr>ml_src := 0, ml_status := NR_MAIL_ALREADY_READ, ml_lock := mutex_init (ml_lock x)\<rparr>) s))"

text \<open>Copying the messages: each buffer is allocated and filled, or left out when there is no memory for it.\<close>

fun copy_msgs :: "mail_msg list \<Rightarrow> mail_sys \<Rightarrow> mail_msg list \<times> mail_sys" where
  "copy_msgs [] s = ([], s)"
| "copy_msgs (x # xs) s =
     (let (a, s) = mb_kmalloc s;
          (y, s) = (if \<not> isValid a then (x\<lparr>mm_buffer := 0, mm_size := 0\<rparr>, s)
                    else (x\<lparr>mm_buffer := a\<rparr>, s\<lparr>buffers := (buffers s)(a := take (mm_size x) (buffers s (mm_buffer x)))\<rparr>));
          (ys, s) = copy_msgs xs s
      in (y # ys, s))"

definition mail_recv_take :: "kuaddr_t \<Rightarrow> kuaddr_t \<Rightarrow> kuaddr_t \<Rightarrow> mail_sys \<Rightarrow> (int \<times> mail_sys) option" where
  "mail_recv_take b m r s =
     (if ml_num (mails s r) = 0 \<or> ml_msg (mails s r) = 0
      then Some (- ER_EMPTY, upd_mail r (\<lambda>x. x\<lparr>ml_status := NR_MAIL_ERROR\<rparr>) s)
      else let (a, s) = mb_kmalloc s
           in if \<not> isValid a then Some (PTR_ERR a, s)
              else if ml_num (mails s r) > length (msgs s (ml_msg (mails s r))) then None
              else let n = ml_num (mails s r);
                       s = upd_mail m (\<lambda>x. x\<lparr>ml_num := n, ml_msg := a\<rparr>) s;
                       (ys, s) = copy_msgs (take n (msgs s (ml_msg (mails s r)))) s;
                       s = s\<lparr>msgs := (msgs s)(a := ys)\<rparr>
                   in Some (int n, upd_mail r (\<lambda>x. x\<lparr>ml_status := NR_MAIL_ALREADY_READ\<rparr>) s))"

definition mail_recv :: "kuaddr_t \<Rightarrow> kuaddr_t \<Rightarrow> kutime_t \<Rightarrow> mail_sys \<Rightarrow> (int \<times> mail_sys) option" where
  "mail_recv b m timeout s =
     (if b = 0 \<or> m = 0 then Some (- ER_NOMEM, s)
      else if sgrt_mail (boxes s b) = [] then if timeout = 0 then Some (- ER_EMPTY, s) else None
      else do {
        s \<leftarrow> box_lock b s;
        let r = hd (sgrt_mail (boxes s b));
        let s = box_unlock b s;
        s \<leftarrow> mail_lock r s;
        if r \<notin> set (sgrt_mail (boxes s b)) then Some (- ER_EMPTY, s)
        else do {
          s \<leftarrow> mail_recv_finish m s;
          let s = upd_mail m (\<lambda>x. x\<lparr>ml_status := NR_MAIL_NONE\<rparr>) s;
          (retval, s) \<leftarrow> mail_recv_take b m r s;
          let s = upd_box b (\<lambda>x. x\<lparr>num_mails := num_mails x - 1\<rparr>) s;
          let s = mail_unlock r s;
          s \<leftarrow> mail_destroy b r s;
          Some (retval, s) } })"

section \<open>Sending and receiving\<close>

lemma mutex_free_cycle:
  assumes "\<not> mutex_is_locked l"
  obtains l1 where "mutex_lock_try_once c l = Some l1" and "\<not> mutex_is_locked (mutex_unlock c l1)"
  using assms by (cases c) (auto simp: mutex_lock_try_once_def mutex_unlock_def mutex_is_locked_def atomic_inc_def atomic_add_def atomic_dec_def atomic_sub_def)

lemma copy_msgs_fields:
  assumes "mb_pool s = as @ ps" and "length as = length xs" and "\<forall>a \<in> set as. isValid a" and "distinct as" and "set as \<inter> mm_buffer ` set xs = {}"
  shows "\<exists>s'. copy_msgs xs s = (map2 (\<lambda>x a. x\<lparr>mm_buffer := a\<rparr>) xs as, s') \<and> mb_pool s' = ps \<and>
     (\<forall>(x, a) \<in> set (zip xs as). buffers s' a = take (mm_size x) (buffers s (mm_buffer x))) \<and>
     (\<forall>c. c \<notin> set as \<longrightarrow> buffers s' c = buffers s c) \<and> boxes s' = boxes s \<and> mails s' = mails s \<and> msgs s' = msgs s \<and>
     mb_current s' = mb_current s"
  using assms
proof (induction xs arbitrary: s "as")
  case Nil
  then show ?case by simp
next
  case (Cons x xs)
  obtain a as' where a: "as = a # as'" using Cons.prems(2) by (cases "as") auto
  let ?s = "s\<lparr>mb_pool := as' @ ps, buffers := (buffers s)(a := take (mm_size x) (buffers s (mm_buffer x)))\<rparr>"
  obtain s' where s': "copy_msgs xs ?s = (map2 (\<lambda>x a. x\<lparr>mm_buffer := a\<rparr>) xs as', s')" "mb_pool s' = ps"
     "\<forall>(x, a) \<in> set (zip xs as'). buffers s' a = take (mm_size x) (buffers ?s (mm_buffer x))"
     "\<forall>c. c \<notin> set as' \<longrightarrow> buffers s' c = buffers ?s c" "boxes s' = boxes s" "mails s' = mails s" "msgs s' = msgs s" "mb_current s' = mb_current s"
    using Cons.IH [of ?s as'] Cons.prems a by auto
  have v: "isValid a" "mb_pool s = a # as' @ ps" using Cons.prems a by auto
  then have "copy_msgs (x # xs) s = (map2 (\<lambda>x a. x\<lparr>mm_buffer := a\<rparr>) (x # xs) as, s')"
    using s'(1) a by (simp add: mb_kmalloc_def)
  moreover have "buffers s' a = take (mm_size x) (buffers s (mm_buffer x))" using s'(4) Cons.prems(4) a by simp
  moreover have "buffers s' c = take (mm_size y) (buffers s (mm_buffer y))" if "(y, c) \<in> set (zip xs as')" for y c
  proof -
    have "y \<in> set xs" using that by (rule set_zip_leftD)
    then have "mm_buffer y \<noteq> a" using Cons.prems(5) a by auto
    then show ?thesis using s'(3) that by auto
  qed
  ultimately show ?case using s' a by auto
qed

lemma mail_send_fields:
  assumes "r \<noteq> 0" and "ml_msg (mails s r) \<noteq> 0" and "mailbox_find nm s = b" and "isValid b"
    and "\<not> mutex_is_locked (ml_lock (mails s r))" and "\<not> mutex_is_locked (mb_lock (boxes s b))"
  obtains s' l k where "mail_send nm r s = Some (ER_NORMAL, s')" and "\<not> mutex_is_locked l" and "\<not> mutex_is_locked k"
    and "boxes s' = (boxes s)(b := (boxes s b)\<lparr>sgrt_mail := sgrt_mail (boxes s b) @ [r], num_mails := num_mails (boxes s b) + 1, mb_lock := k\<rparr>)"
    and "mails s' = (mails s)(r := (mails s r)\<lparr>ml_status := NR_MAIL_NONE, ml_lock := l\<rparr>)"
    and "msgs s' = msgs s" and "buffers s' = buffers s" and "mb_pool s' = mb_pool s" and "mb_current s' = mb_current s"
    and "sgrt_kernel_mailboxs s' = sgrt_kernel_mailboxs s"
proof -
  obtain l1 where l1: "mutex_lock_try_once (mb_current s) (ml_lock (mails s r)) = Some l1" "\<not> mutex_is_locked (mutex_unlock (mb_current s) l1)"
    using mutex_free_cycle [OF assms(5)] by blast
  obtain k1 where k1: "mutex_lock_try_once (mb_current s) (mb_lock (boxes s b)) = Some k1" "\<not> mutex_is_locked (mutex_unlock (mb_current s) k1)"
    using mutex_free_cycle [OF assms(6)] by blast
  let ?s1 = "upd_mail r (\<lambda>x. x\<lparr>ml_lock := l1\<rparr>) s"
  let ?s2 = "upd_box b (\<lambda>x. x\<lparr>mb_lock := k1\<rparr>) ?s1"
  let ?s3 = "box_unlock b (upd_box b (\<lambda>x. x\<lparr>sgrt_mail := sgrt_mail x @ [r], num_mails := num_mails x + 1\<rparr>) ?s2)"
  let ?s4 = "mail_unlock r (upd_mail r (\<lambda>x. x\<lparr>ml_status := NR_MAIL_NONE\<rparr>) ?s3)"
  have "mail_lock r s = Some ?s1" "box_lock b ?s1 = Some ?s2"
    using l1(1) k1(1) by (simp_all add: mail_lock_def box_lock_def upd_mail_def)
  then have "mail_send nm r s = Some (ER_NORMAL, ?s4)" using assms(1-4) by (simp add: mail_send_def)
  then show thesis
    by (rule that [OF _ l1(2) k1(2)])
      (simp_all add: mail_unlock_def box_unlock_def upd_mail_def upd_box_def)
qed

definition readable :: "kuaddr_t \<Rightarrow> mail_sys \<Rightarrow> bool" where
  "readable m s \<longleftrightarrow> ml_msg (mails s m) \<noteq> 0 \<longrightarrow> ml_num (mails s m) \<le> length (msgs s (ml_msg (mails s m)))"

text \<open>What a message says: its type, code and the bytes of its buffer.\<close>

definition content :: "mail_sys \<Rightarrow> mail_msg \<Rightarrow> kuint32_t \<times> kuint32_t \<times> bytes" where
  "content s x = (mm_type x, mm_code x, take (mm_size x) (buffers s (mm_buffer x)))"

definition contents :: "kuaddr_t \<Rightarrow> mail_sys \<Rightarrow> (kuint32_t \<times> kuint32_t \<times> bytes) list" where
  "contents m s = map (content s) (take (ml_num (mails s m)) (msgs s (ml_msg (mails s m))))"

lemma contents_cong:
  assumes "mails s' m = mails s m" and "msgs s' = msgs s" and "buffers s' = buffers s"
  shows "contents m s' = contents m s"
  using assms by (simp add: contents_def content_def)

lemma mail_recv_finish_fields:
  assumes "readable m s"
  obtains s' x where "mail_recv_finish m s = Some s'" and "mails s' = (mails s)(m := x)" and "boxes s' = boxes s" and "msgs s' = msgs s"
    and "buffers s' = buffers s" and "mb_pool s' = mb_pool s" and "mb_current s' = mb_current s"
  using assms by (cases "ml_msg (mails s m) = 0") (auto simp: mail_recv_finish_def readable_def upd_mail_def Let_def not_less)

lemma mail_destroy_fields:
  assumes "r \<noteq> 0" and "\<not> mutex_is_locked (ml_lock (mails s r))" and "ml_src (mails s r) \<noteq> 0"
  obtains s' x where "mail_destroy b r s = Some s'" and "\<And>b. sgrt_mail (boxes s' b) = remove1 r (sgrt_mail (boxes s b))" and "\<And>b. mb_lock (boxes s' b) = mb_lock (boxes s b)"
    and "mails s' = (mails s)(r := x)" and "msgs s' = msgs s" and "buffers s' = buffers s"
proof -
  obtain l where l: "mutex_lock_try_once (mb_current s) (ml_lock (mails s r)) = Some l" using mutex_free_cycle [OF assms(2)] by blast
  let ?s = "unlink_mail r (upd_mail r (\<lambda>x. x\<lparr>ml_lock := l\<rparr>) s)"
  let ?own = "b \<noteq> 0 \<and> cstr (mb_name (boxes ?s b)) = cstr (mb_name (boxes ?s (ml_src (mails ?s r))))"
  have "mail_destroy b r s = Some (if ?own then mb_kfree r ?s else mail_unlock r ?s)"
    using assms(1,3) l by (simp add: mail_destroy_def mail_lock_def) (simp add: unlink_mail_def upd_mail_def)
  then show thesis
    by (cases ?own) (auto intro!: that simp: unlink_mail_def upd_mail_def mb_kfree_def mail_unlock_def)
qed

lemma mail_recv_take_fields:
  assumes "r \<noteq> m" and "ml_msg (mails s r) \<noteq> 0" and "0 < ml_num (mails s r)" and "ml_num (mails s r) \<le> length (msgs s (ml_msg (mails s r)))"
    and "mb_pool s = a # as @ ps" and "length as = ml_num (mails s r)" and "\<forall>a \<in> set (a # as). isValid a" and "distinct as"
    and "set as \<inter> mm_buffer ` set (msgs s (ml_msg (mails s r))) = {}"
  obtains s' where "mail_recv_take b m r s = Some (int (ml_num (mails s r)), s')" and "contents m s' = contents r s" and "boxes s' = boxes s"
    and "ml_lock (mails s' r) = ml_lock (mails s r)" and "mb_current s' = mb_current s" and "ml_src (mails s' r) = ml_src (mails s r)"
    and "ml_msg (mails s' m) = a" and "ml_num (mails s' m) = ml_num (mails s r)"
proof -
  let ?n = "ml_num (mails s r)"
  let ?xs = "take ?n (msgs s (ml_msg (mails s r)))"
  let ?s1 = "upd_mail m (\<lambda>x. x\<lparr>ml_num := ?n, ml_msg := a\<rparr>) (s\<lparr>mb_pool := as @ ps\<rparr>)"
  have len: "length as = length ?xs" using assms(4,6) by simp
  have dis: "set as \<inter> mm_buffer ` set ?xs = {}" using assms(9) by (auto dest: in_set_takeD)
  have p1: "mb_pool ?s1 = as @ ps" by (simp add: upd_mail_def)
  obtain s2 where s2: "copy_msgs ?xs ?s1 = (map2 (\<lambda>x a. x\<lparr>mm_buffer := a\<rparr>) ?xs as, s2)"
    "\<forall>(x, a) \<in> set (zip ?xs as). buffers s2 a = take (mm_size x) (buffers ?s1 (mm_buffer x))"
    "boxes s2 = boxes ?s1" "mails s2 = mails ?s1" "msgs s2 = msgs ?s1" "mb_current s2 = mb_current ?s1"
    using copy_msgs_fields [OF p1 len _ assms(8) dis] assms(7) by auto
  let ?ys = "map2 (\<lambda>x a. x\<lparr>mm_buffer := a\<rparr>) ?xs as"
  let ?s' = "upd_mail r (\<lambda>x. x\<lparr>ml_status := NR_MAIL_ALREADY_READ\<rparr>) (s2\<lparr>msgs := (msgs s2)(a := ?ys)\<rparr>)"
  have take: "mail_recv_take b m r s = Some (int ?n, ?s')"
    using assms(1-5,7) s2(1) by (simp add: mail_recv_take_def mb_kmalloc_def upd_mail_def Let_def)
  have m': "ml_msg (mails ?s' m) = a" "ml_num (mails ?s' m) = ?n" "ml_lock (mails ?s' r) = ml_lock (mails s r)" "ml_src (mails ?s' r) = ml_src (mails s r)"
    using assms(1) s2(4) by (simp_all add: upd_mail_def)
  have "contents m ?s' = map (content ?s') ?ys"
    using m' len assms(4) by (simp add: contents_def) (simp add: upd_mail_def)
  also have "\<dots> = map (content s) ?xs"
  proof (rule nth_equalityI)
    fix i assume "i < length (map (content ?s') ?ys)"
    then have i: "i < length ?xs" "i < length as" using len by auto
    then have "zip ?xs as ! i = (?xs ! i, as ! i)" "i < length (zip ?xs as)" by simp_all
    then have "(?xs ! i, as ! i) \<in> set (zip ?xs as)" using nth_mem by metis
    then have "buffers s2 (as ! i) = take (mm_size (?xs ! i)) (buffers s (mm_buffer (?xs ! i)))" using s2(2) by (auto simp: upd_mail_def)
    then show "map (content ?s') ?ys ! i = map (content s) ?xs ! i" using i by (simp add: content_def upd_mail_def)
  qed (use len in simp)
  finally have "contents m ?s' = contents r s" by (simp add: contents_def)
  then show thesis using that [OF take _ _ m'(3) _ m'(4) m'(1,2)] s2(3,6) by (simp add: upd_mail_def)
qed

text \<open>A mail that can be delivered: it has messages, and there is memory for the copy.\<close>

definition deliverable :: "kuaddr_t \<Rightarrow> mail_sys \<Rightarrow> bool" where
  "deliverable r s \<longleftrightarrow> r \<noteq> 0 \<and> ml_msg (mails s r) \<noteq> 0 \<and> 0 < ml_num (mails s r) \<and>
     ml_num (mails s r) \<le> length (msgs s (ml_msg (mails s r))) \<and> \<not> mutex_is_locked (ml_lock (mails s r)) \<and> ml_src (mails s r) \<noteq> 0"

definition memory_for :: "kuaddr_t \<Rightarrow> mail_sys \<Rightarrow> bool" where
  "memory_for r s \<longleftrightarrow> (\<exists>a as ps. mb_pool s = a # as @ ps \<and> length as = ml_num (mails s r) \<and> (\<forall>a \<in> set (a # as). isValid a) \<and>
     distinct as \<and> set as \<inter> mm_buffer ` set (msgs s (ml_msg (mails s r))) = {})"

lemma mail_recv_delivers_head:
  assumes "sgrt_mail (boxes s b) = r # q" and "b \<noteq> 0" and "m \<noteq> 0" and "r \<noteq> m" and "deliverable r s" and "memory_for r s"
    and "readable m s" and "\<not> mutex_is_locked (mb_lock (boxes s b))"
  shows "\<exists>s'. mail_recv b m timeout s = Some (int (ml_num (mails s r)), s') \<and> sgrt_mail (boxes s' b) = q \<and>
     contents m s' = contents r s \<and> \<not> mutex_is_locked (mb_lock (boxes s' b))"
proof -
  have r: "r \<noteq> 0" "ml_msg (mails s r) \<noteq> 0" "0 < ml_num (mails s r)" "ml_num (mails s r) \<le> length (msgs s (ml_msg (mails s r)))"
    "\<not> mutex_is_locked (ml_lock (mails s r))" "ml_src (mails s r) \<noteq> 0" using assms(5) by (auto simp: deliverable_def)
  obtain a "as" ps where p: "mb_pool s = a # as @ ps" "length as = ml_num (mails s r)" "\<forall>a \<in> set (a # as). isValid a" "distinct as"
    "set as \<inter> mm_buffer ` set (msgs s (ml_msg (mails s r))) = {}" using assms(6) by (auto simp: memory_for_def)
  obtain k where k: "mutex_lock_try_once (mb_current s) (mb_lock (boxes s b)) = Some k" "\<not> mutex_is_locked (mutex_unlock (mb_current s) k)"
    using mutex_free_cycle [OF assms(8)] by blast
  obtain l where l: "mutex_lock_try_once (mb_current s) (ml_lock (mails s r)) = Some l" "\<not> mutex_is_locked (mutex_unlock (mb_current s) l)"
    using mutex_free_cycle [OF r(5)] by blast
  let ?s1 = "box_unlock b (upd_box b (\<lambda>x. x\<lparr>mb_lock := k\<rparr>) s)"
  let ?s2 = "upd_mail r (\<lambda>x. x\<lparr>ml_lock := l\<rparr>) ?s1"
  have s2: "sgrt_mail (boxes ?s2 b) = r # q" "\<not> mutex_is_locked (mb_lock (boxes ?s2 b))" "mails ?s2 = (mails s)(r := (mails s r)\<lparr>ml_lock := l\<rparr>)"
    "msgs ?s2 = msgs s" "buffers ?s2 = buffers s" "mb_pool ?s2 = mb_pool s" "mb_current ?s2 = mb_current s"
    using assms(1) k(2) by (simp_all add: box_unlock_def upd_box_def upd_mail_def)
  have "readable m ?s2" using assms(4,7) s2(3,4) by (simp add: readable_def)
  then obtain s3 x where s3: "mail_recv_finish m ?s2 = Some s3" "mails s3 = (mails ?s2)(m := x)" "boxes s3 = boxes ?s2" "msgs s3 = msgs ?s2"
    "buffers s3 = buffers ?s2" "mb_pool s3 = mb_pool ?s2" "mb_current s3 = mb_current ?s2" by (rule mail_recv_finish_fields)
  let ?s4 = "upd_mail m (\<lambda>x. x\<lparr>ml_status := NR_MAIL_NONE\<rparr>) s3"
  have r4: "mails ?s4 r = (mails s r)\<lparr>ml_lock := l\<rparr>" "msgs ?s4 = msgs s" "mb_pool ?s4 = mb_pool s" "buffers ?s4 = buffers s"
    using assms(4) s2 s3 by (simp_all add: upd_mail_def)
  obtain s5 where s5: "mail_recv_take b m r ?s4 = Some (int (ml_num (mails ?s4 r)), s5)" "contents m s5 = contents r ?s4" "boxes s5 = boxes ?s4"
    "ml_lock (mails s5 r) = ml_lock (mails ?s4 r)" "mb_current s5 = mb_current ?s4" "ml_src (mails s5 r) = ml_src (mails ?s4 r)"
    "ml_msg (mails s5 m) = a" "ml_num (mails s5 m) = ml_num (mails ?s4 r)"
    by (rule mail_recv_take_fields [of r m ?s4 a "as" ps]) (use assms(4) r p r4 in simp_all)
  have c4: "contents r ?s4 = contents r s" using r4 by (simp add: contents_def content_def)
  let ?s6 = "mail_unlock r (upd_box b (\<lambda>x. x\<lparr>num_mails := num_mails x - 1\<rparr>) s5)"
  have cur: "mb_current s5 = mb_current s" using s5(5) s3(7) s2(7) by (simp add: upd_mail_def)
  have free6: "\<not> mutex_is_locked (ml_lock (mails ?s6 r))"
    using l(2) s5(4) r4(1) cur by (simp add: mail_unlock_def upd_mail_def upd_box_def)
  have src6: "ml_src (mails ?s6 r) \<noteq> 0" using s5(6) r4(1) r(6) by (simp add: mail_unlock_def upd_mail_def upd_box_def)
  obtain s7 y where s7: "mail_destroy b r ?s6 = Some s7" "\<And>b. sgrt_mail (boxes s7 b) = remove1 r (sgrt_mail (boxes ?s6 b))"
    "\<And>b. mb_lock (boxes s7 b) = mb_lock (boxes ?s6 b)" "mails s7 = (mails ?s6)(r := y)" "msgs s7 = msgs ?s6" "buffers s7 = buffers ?s6"
    by (rule mail_destroy_fields [OF r(1) free6 src6, of b]) (rule that)
  have bl: "box_lock b s = Some (upd_box b (\<lambda>x. x\<lparr>mb_lock := k\<rparr>) s)" using k(1) by (simp add: box_lock_def)
  have q1: "sgrt_mail (boxes (upd_box b (\<lambda>x. x\<lparr>mb_lock := k\<rparr>) s) b) = r # q" "mb_current ?s1 = mb_current s" "ml_lock (mails ?s1 r) = ml_lock (mails s r)"
    using assms(1) by (simp_all add: upd_box_def box_unlock_def)
  have ml: "mail_lock r ?s1 = Some ?s2" using l(1) q1(2,3) by (simp add: mail_lock_def)
  have "mail_recv b m timeout s = Some (int (ml_num (mails s r)), s7)"
    using assms(1-3) bl ml q1(1) s2(1) s3(1) s5(1) s7(1) r4(1) by (simp add: mail_recv_def)
  moreover have "sgrt_mail (boxes s7 b) = q" "\<not> mutex_is_locked (mb_lock (boxes s7 b))"
    using s7(2,3) s5(3) s3(3) s2(1,2) by (simp_all add: mail_unlock_def upd_mail_def upd_box_def)
  moreover have "contents m s7 = contents r s"
  proof -
    have "mails s7 m = mails s5 m" "msgs s7 = msgs s5" "buffers s7 = buffers s5"
      using s7(4-6) assms(4) by (simp_all add: mail_unlock_def upd_mail_def upd_box_def)
    then have "contents m s7 = contents m s5" by (rule contents_cong)
    then show ?thesis using s5(2) c4 by simp
  qed
  ultimately show ?thesis by blast
qed


definition demo_mail :: "kuaddr_t \<Rightarrow> mail" where
  "demo_mail a = \<lparr>ml_src = 256, ml_msg = a, ml_num = (if a = 0 then 0 else 1), ml_status = 0, ml_lock = \<lparr>mx_atc = \<lparr>counter = 0\<rparr>\<rparr>\<rparr>"

text \<open>One mailbox named ``a'' in which the mail at 512 waits; the mail at 768 is to be sent, the one at 1024 receives.\<close>

definition demo_mail_sys :: mail_sys where
  "demo_mail_sys =
     \<lparr>boxes = (\<lambda>_. \<lparr>mb_name = [97, 0], mb_tid = 1, num_mails = 1, sgrt_mail = [512], mb_lock = \<lparr>mx_atc = \<lparr>counter = 0\<rparr>\<rparr>\<rparr>),
      sgrt_kernel_mailboxs = [256],
      mails = (\<lambda>_. demo_mail 0)(512 := demo_mail 2048, 768 := demo_mail 4096),
      msgs = (\<lambda>_. [\<lparr>mm_type = 7, mm_code = 8, mm_buffer = 8192, mm_size = 2\<rparr>]),
      buffers = (\<lambda>_. [1, 2, 3]), mb_pool = [16384, 32768], mb_freed = [], mb_current = True\<rparr>"


end
