(* ===== verification/Work_Queue.thy ===== *)
theory Work_Queue
  imports List_Head Generic_Ops "HOL-Library.Monad_Syntax" "HOL-Library.Multiset"
begin

text \<open>
  Deferred work: the queues of \<^verbatim>\<open>include/kernel/workqueue.h\<close> and the worker thread of \<^verbatim>\<open>kernel/kthread/kworker.c\<close>.
  A work item and its link have one address.  The functions behind the items are a parameter; they
  may queue further work.  \<open>None\<close> is a walk over a corrupted list that never ends, or a function that does not return.
\<close>

section \<open>Queues\<close>

record workqueue =
  wk_func :: kuaddr_t
  wk_data :: kuaddr_t

record work_sys =
  wq_heap :: "kuaddr_t list_heap"
  works :: "kuaddr_t \<Rightarrow> workqueue"

text \<open>The address of the queue of the worker thread.\<close>

definition sgrt_kworker_wqh :: kuaddr_t where "sgrt_kworker_wqh = 0x80500000"

definition INIT_WORK :: "kuaddr_t \<Rightarrow> kuaddr_t \<Rightarrow> work_sys \<Rightarrow> work_sys" where
  "INIT_WORK w f s = s\<lparr>works := (works s)(w := \<lparr>wk_func = f, wk_data = 0\<rparr>), wq_heap := init_list_head w (wq_heap s)\<rparr>"

definition queue_work :: "kuaddr_t \<Rightarrow> kuaddr_t \<Rightarrow> work_sys \<Rightarrow> work_sys option" where
  "queue_work q w s =
     (if q = 0 \<or> w = 0 then Some s
      else case list_head_for_each q w (wq_heap s) of
             None \<Rightarrow> None
           | Some r \<Rightarrow> Some (if r = 0 then s else s\<lparr>wq_heap := list_head_add_tail q w (wq_heap s)\<rparr>))"

definition detach_work :: "kuaddr_t \<Rightarrow> work_sys \<Rightarrow> work_sys" where
  "detach_work w s = (if w = 0 then s else s\<lparr>wq_heap := list_head_del w (wq_heap s)\<rparr>)"

definition detach_work_safe :: "kuaddr_t \<Rightarrow> kuaddr_t \<Rightarrow> work_sys \<Rightarrow> work_sys option" where
  "detach_work_safe q w s =
     (if q = 0 \<or> w = 0 then Some s
      else map_option (\<lambda>h. s\<lparr>wq_heap := h\<rparr>) (list_head_del_safe q w (wq_heap s)))"

definition is_workqueue_empty :: "kuaddr_t \<Rightarrow> work_sys \<Rightarrow> bool" where
  "is_workqueue_empty q s = mrt_list_head_empty (wq_heap s) q"

definition schedule_work :: "kuaddr_t \<Rightarrow> work_sys \<Rightarrow> work_sys option" where
  "schedule_work w s = queue_work sgrt_kworker_wqh w s"

section \<open>The worker thread\<close>

text \<open>The loop \<^verbatim>\<open>foreach_workqueue_safe\<close> of \<^verbatim>\<open>kworker_entry\<close>: \<open>run f w\<close> is the call of the function \<open>f\<close> with the item \<open>w\<close>.
  The next item is read before the call, the one after it when the item has been detached.  The result lists the items run.\<close>

partial_function (option) work_sweep ::
  "(kuaddr_t \<Rightarrow> kuaddr_t \<Rightarrow> work_sys \<Rightarrow> work_sys option) \<Rightarrow> kuaddr_t \<Rightarrow> kuaddr_t \<Rightarrow> work_sys \<Rightarrow> (kuaddr_t list \<times> work_sys) option" where
  "work_sweep run pos temp s =
     (if pos = sgrt_kworker_wqh then Some ([], s)
      else do {
        s \<leftarrow> (if wk_func (works s pos) \<noteq> 0 then run (wk_func (works s pos)) pos s else Some s);
        let s = detach_work pos s;
        (ws, s) \<leftarrow> work_sweep run temp (sprt_next (wq_heap s) temp) s;
        Some (pos # ws, s) })"

text \<open>One round of the endless loop: \<open>None\<close> inside when the thread goes to sleep because there is nothing to do.\<close>

definition kworker_round ::
  "(kuaddr_t \<Rightarrow> kuaddr_t \<Rightarrow> work_sys \<Rightarrow> work_sys option) \<Rightarrow> work_sys \<Rightarrow> (kuaddr_t list option \<times> work_sys) option" where
  "kworker_round run s =
     (if is_workqueue_empty sgrt_kworker_wqh s then Some (None, s)
      else let pos = sprt_next (wq_heap s) sgrt_kworker_wqh
           in do { (ws, s) \<leftarrow> work_sweep run pos (sprt_next (wq_heap s) pos) s; Some (Some ws, s) })"

section \<open>What a round does\<close>

definition queued :: "work_sys \<Rightarrow> kuaddr_t list \<Rightarrow> bool" where
  "queued s xs \<longleftrightarrow> dlist (wq_heap s) sgrt_kworker_wqh xs \<and> 0 \<notin> set xs"

text \<open>Queueing on lists: an item already in the list stays where it is.\<close>

definition enqueue :: "kuaddr_t list \<Rightarrow> kuaddr_t list \<Rightarrow> kuaddr_t list" where
  "enqueue ws xs = fold (\<lambda>w xs. if w \<in> set xs then xs else xs @ [w]) ws xs"

fun schedule_all :: "kuaddr_t list \<Rightarrow> work_sys \<Rightarrow> work_sys option" where
  "schedule_all [] s = Some s"
| "schedule_all (w # ws) s = Option.bind (schedule_work w s) (schedule_all ws)"

lemma schedule_all_single: "schedule_all [w] s = schedule_work w s"
  by (cases "schedule_work w s") simp_all

lemma queue_work_queued:
  assumes "queued s xs" and "w \<noteq> 0" and "w \<noteq> sgrt_kworker_wqh"
  obtains s' where "schedule_work w s = Some s'" and "queued s' (if w \<in> set xs then xs else xs @ [w])" and "works s' = works s"
proof -
  have d: "dlist (wq_heap s) sgrt_kworker_wqh xs" "0 \<notin> set xs" using assms(1) by (auto simp: queued_def)
  have q: "sgrt_kworker_wqh \<noteq> 0" by (simp add: sgrt_kworker_wqh_def)
  let ?s = "if w \<in> set xs then s else s\<lparr>wq_heap := list_head_add_tail sgrt_kworker_wqh w (wq_heap s)\<rparr>"
  have "schedule_work w s = Some ?s"
    using assms(2) q list_head_for_each_dlist [OF d(1), of w] by (simp add: schedule_work_def queue_work_def)
  moreover have "queued ?s (if w \<in> set xs then xs else xs @ [w])"
    using d assms(2,3) dlist_add_tail [OF d(1), of w] by (auto simp: queued_def)
  ultimately show thesis by (rule that) simp
qed

lemma schedule_all_queued:
  assumes "queued s xs" and "0 \<notin> set ws" and "sgrt_kworker_wqh \<notin> set ws"
  obtains s' where "schedule_all ws s = Some s'" and "queued s' (enqueue ws xs)" and "works s' = works s"
  using assms
proof (induction ws arbitrary: s xs thesis)
  case Nil
  then show ?case by (simp add: enqueue_def)
next
  case (Cons w ws)
  obtain s1 where s1: "schedule_work w s = Some s1" "queued s1 (if w \<in> set xs then xs else xs @ [w])" "works s1 = works s"
    using Cons.prems by (auto intro: queue_work_queued [of s xs w])
  obtain s2 where "schedule_all ws s1 = Some s2" "queued s2 (enqueue ws (if w \<in> set xs then xs else xs @ [w]))" "works s2 = works s1"
    using Cons.IH [OF _ s1(2)] Cons.prems by auto
  then show ?case using Cons.prems(1) s1 by (simp add: enqueue_def split: if_splits)
qed

lemma enqueue_prefix: "\<exists>zs. enqueue ws xs = xs @ zs \<and> set zs \<subseteq> set ws"
proof (induction ws arbitrary: xs)
  case (Cons w ws)
  obtain zs where z: "enqueue ws (if w \<in> set xs then xs else xs @ [w]) = (if w \<in> set xs then xs else xs @ [w]) @ zs" "set zs \<subseteq> set ws"
    using Cons.IH by blast
  have "enqueue (w # ws) xs = enqueue ws (if w \<in> set xs then xs else xs @ [w])" by (simp add: enqueue_def)
  then show ?case using z by (cases "w \<in> set xs") auto
qed (simp add: enqueue_def)

text \<open>A sweep on lists: \<open>req x\<close> are the items the function of \<open>x\<close> queues.  The item being run is still in the list while its
  function queues; what the last item queues is left for the next round.\<close>

inductive sweeps :: "(kuaddr_t \<Rightarrow> kuaddr_t list) \<Rightarrow> kuaddr_t list \<Rightarrow> kuaddr_t list \<Rightarrow> kuaddr_t list \<Rightarrow> bool" for req where
  sweeps_last: "sweeps req [x] [x] (tl (enqueue (req x) [x]))"
| sweeps_step: "sweeps req (tl (enqueue (req x) (x # y # ys))) done_ws rest \<Longrightarrow> sweeps req (x # y # ys) (x # done_ws) rest"

definition queues_only :: "(kuaddr_t \<Rightarrow> kuaddr_t \<Rightarrow> work_sys \<Rightarrow> work_sys option) \<Rightarrow> (kuaddr_t \<Rightarrow> kuaddr_t list) \<Rightarrow> work_sys \<Rightarrow> bool" where
  "queues_only run req s \<longleftrightarrow>
     (\<forall>x. 0 \<notin> set (req x) \<and> sgrt_kworker_wqh \<notin> set (req x) \<and> (wk_func (works s x) = 0 \<longrightarrow> req x = [])) \<and>
     (\<forall>x t. works t = works s \<longrightarrow> wk_func (works s x) \<noteq> 0 \<longrightarrow> run (wk_func (works s x)) x t = schedule_all (req x) t)"

lemma queues_only_cong: "works t = works s \<Longrightarrow> queues_only run req t = queues_only run req s"
  by (simp add: queues_only_def)

lemma run_item:
  assumes "queues_only run req s" and "queued s (x # xs)"
  obtains s1 where "(if wk_func (works s x) \<noteq> 0 then run (wk_func (works s x)) x s else Some s) = Some s1"
    and "works s1 = works s" and "queued s1 (enqueue (req x) (x # xs))"
    and "queued (detach_work x s1) (tl (enqueue (req x) (x # xs)))"
proof -
  have r: "0 \<notin> set (req x)" "sgrt_kworker_wqh \<notin> set (req x)" "wk_func (works s x) = 0 \<longrightarrow> req x = []"
    "wk_func (works s x) \<noteq> 0 \<longrightarrow> run (wk_func (works s x)) x s = schedule_all (req x) s"
    using assms(1) by (auto simp: queues_only_def)
  obtain s1 where s1: "schedule_all (req x) s = Some s1" "queued s1 (enqueue (req x) (x # xs))" "works s1 = works s"
    using assms(2) r(1,2) by (rule schedule_all_queued)
  obtain zs where z: "enqueue (req x) (x # xs) = x # xs @ zs" using enqueue_prefix [of "req x" "x # xs"] by auto
  have x: "x \<noteq> 0" using assms(2) by (auto simp: queued_def)
  have "queued (detach_work x s1) (xs @ zs)"
    using s1(2) z x dlist_del [of "wq_heap s1" sgrt_kworker_wqh "[]" x "xs @ zs"] by (simp add: queued_def detach_work_def)
  then show thesis using s1 r(3,4) z by (intro that) auto
qed

lemma work_sweep_refines:
  assumes "sweeps req xs done_ws rest" and "queued s xs" and "queues_only run req s"
  shows "\<exists>s'. work_sweep run (hd xs) (case tl xs of [] \<Rightarrow> sgrt_kworker_wqh | y # _ \<Rightarrow> y) s = Some (done_ws, s') \<and>
     queued s' rest \<and> works s' = works s"
  using assms
proof (induction arbitrary: s rule: sweeps.induct)
  case (sweeps_last x)
  obtain s1 where s1: "(if wk_func (works s x) \<noteq> 0 then run (wk_func (works s x)) x s else Some s) = Some s1" "works s1 = works s"
    "queued (detach_work x s1) (tl (enqueue (req x) [x]))" using run_item [OF sweeps_last(2,1)] by metis
  have x: "x \<noteq> sgrt_kworker_wqh" using sweeps_last(1) by (auto simp: queued_def dlist_def)
  have stop: "work_sweep run sgrt_kworker_wqh t s' = Some ([], s')" for t s' by (subst work_sweep.simps) simp
  have "work_sweep run x sgrt_kworker_wqh s = Some ([x], detach_work x s1)"
    by (subst work_sweep.simps) (simp only: x if_False s1(1) stop, simp add: stop)
  then show ?case using s1 by (simp add: detach_work_def)
next
  case (sweeps_step x y ys done_ws rest)
  let ?q = "enqueue (req x) (x # y # ys)"
  obtain s1 where s1: "(if wk_func (works s x) \<noteq> 0 then run (wk_func (works s x)) x s else Some s) = Some s1" "works s1 = works s"
    "queued (detach_work x s1) (tl ?q)" using run_item [OF sweeps_step(4,3)] by metis
  let ?s = "detach_work x s1"
  have w: "works ?s = works s" using s1(2) by (simp add: detach_work_def)
  obtain zs where z: "?q = x # y # ys @ zs" using enqueue_prefix [of "req x" "x # y # ys"] by auto
  have n: "sprt_next (wq_heap ?s) y = (case ys @ zs of [] \<Rightarrow> sgrt_kworker_wqh | v # _ \<Rightarrow> v)"
    using s1(3) z linked_next [of "wq_heap ?s" y "ys @ zs" sgrt_kworker_wqh] by (simp add: queued_def dlist_def)
  obtain s' where s': "work_sweep run y (sprt_next (wq_heap ?s) y) ?s = Some (done_ws, s')" "queued s' rest" "works s' = works ?s"
    using sweeps_step.IH [OF s1(3)] sweeps_step.prems(2) queues_only_cong [OF w] z n by auto
  have x: "x \<noteq> sgrt_kworker_wqh" using sweeps_step(3) by (auto simp: queued_def dlist_def)
  have "work_sweep run x y s = Some (x # done_ws, s')"
    by (subst work_sweep.simps) (simp only: x if_False s1(1), simp add: s'(1))
  then show ?case using s'(2,3) w by simp
qed

lemma kworker_round_refines:
  assumes "sweeps req xs done_ws rest" and "queued s xs" and "queues_only run req s"
  obtains s' where "kworker_round run s = Some (Some done_ws, s')" and "queued s' rest" and "works s' = works s"
proof -
  have ne: "xs \<noteq> []" using assms(1) by (auto elim: sweeps.cases)
  then obtain x ys where xs: "xs = x # ys" by (cases xs) auto
  have d: "dlist (wq_heap s) sgrt_kworker_wqh (x # ys)" using assms(2) by (simp add: queued_def xs)
  have "sprt_next (wq_heap s) sgrt_kworker_wqh = x" using d by (rule dlist_next)
  moreover have "sprt_next (wq_heap s) x = (case ys of [] \<Rightarrow> sgrt_kworker_wqh | y # _ \<Rightarrow> y)"
    using d linked_next [of "wq_heap s" x ys sgrt_kworker_wqh] by (simp add: dlist_def)
  moreover have "\<not> is_workqueue_empty sgrt_kworker_wqh s" using dlist_is_empty [OF d] by (simp add: is_workqueue_empty_def)
  ultimately show thesis using that work_sweep_refines [OF assms] by (auto simp: kworker_round_def xs)
qed

lemma sweeps_order: "sweeps req xs done_ws rest \<Longrightarrow> \<exists>ys. done_ws = xs @ ys \<and> set rest \<subseteq> set (req (last done_ws))"
proof (induction rule: sweeps.induct)
  case (sweeps_last x)
  then show ?case using enqueue_prefix [of "req x" "[x]"] by auto
next
  case (sweeps_step x y ys done_ws rest)
  then show ?case using enqueue_prefix [of "req x" "x # y # ys"] by auto
qed

text \<open>When no chain of requests goes in a circle every sweep comes to an end.\<close>

lemma sweeps_exist:
  fixes r :: "kuaddr_t \<Rightarrow> nat"
  assumes "\<And>x y. y \<in> set (req x) \<Longrightarrow> r y < r x" and "xs \<noteq> []"
  shows "\<exists>done_ws rest. sweeps req xs done_ws rest"
  using assms(2)
proof (induction "mset (map r xs)" arbitrary: xs rule: wf_induct_rule [OF wf_mult [OF wf_less_than]])
  case 1
  obtain x xs' where x: "xs = x # xs'" using 1 by (cases xs) auto
  show ?case
  proof (cases xs')
    case Nil
    then show ?thesis using x sweeps_last by blast
  next
    case (Cons y ys)
    obtain zs where z: "enqueue (req x) (x # y # ys) = x # y # ys @ zs" "set zs \<subseteq> set (req x)" using enqueue_prefix [of "req x" "x # y # ys"] by auto
    have "(mset (map r (y # ys)) + mset (map r zs), mset (map r (y # ys)) + {#r x#}) \<in> mult less_than"
      by (rule one_step_implies_mult) (use z(2) assms(1) in auto)
    then have "(mset (map r (y # ys @ zs)), mset (map r xs)) \<in> mult less_than" by (simp add: x Cons)
    then obtain done_ws rest where "sweeps req (y # ys @ zs) done_ws rest" using 1(1) by blast
    then show ?thesis using sweeps_step [of req x y ys] z(1) x Cons by auto
  qed
qed


text \<open>A request to run an item again while it is being run is lost: the item is still in the queue, so nothing is queued,
  and is detached afterwards.  If all functions queue their own item, one round empties the queue.\<close>

lemma requeue_while_running_lost:
  assumes "queued s xs" and "xs \<noteq> []" and "queues_only run (\<lambda>x. if x \<in> set xs then [x] else []) s"
  shows "\<exists>s'. kworker_round run s = Some (Some xs, s') \<and> is_workqueue_empty sgrt_kworker_wqh s'"
proof -
  have "sweeps (\<lambda>x. if x \<in> A then [x] else []) ys ys []" if "ys \<noteq> []" for A ys
    using that
  proof (induction ys)
    case (Cons x ys)
    let ?req = "\<lambda>x. if x \<in> A then [x] else []"
    have e: "enqueue (?req x) (x # zs) = x # zs" for zs by (simp add: enqueue_def)
    show ?case
    proof (cases ys)
      case Nil
      then show ?thesis using sweeps_last [of ?req x] e [of "[]"] by simp
    next
      case (Cons y zs)
      then show ?thesis using Cons.IH sweeps_step [of ?req x y zs] e [of "y # zs"] by simp
    qed
  qed simp
  then have "sweeps (\<lambda>x. if x \<in> set xs then [x] else []) xs xs []" using assms(2) by blast
  then obtain s' where "kworker_round run s = Some (Some xs, s')" "queued s' []" using assms(1,3) by (rule kworker_round_refines)
  then show ?thesis by (auto simp: queued_def is_workqueue_empty_def)
qed

section \<open>Instances\<close>

text \<open>Two items in the queue; the function at address 1 queues nothing, the one at 2 its own item.\<close>

definition demo_works :: "kuaddr_t \<Rightarrow> work_sys option" where
  "demo_works f = schedule_all [256, 512]
     (INIT_WORK 512 f (INIT_WORK 256 f \<lparr>wq_heap = init_list_head sgrt_kworker_wqh \<lparr>sprt_prev = id, sprt_next = id\<rparr>,
        works = (\<lambda>_. \<lparr>wk_func = 0, wk_data = 0\<rparr>)\<rparr>))"

definition demo_run :: "kuaddr_t \<Rightarrow> kuaddr_t \<Rightarrow> work_sys \<Rightarrow> work_sys option" where
  "demo_run f w s = (if f = 1 then Some s else schedule_work w s)"

lemma demo_works_queued:
  assumes "f \<noteq> 0"
  obtains s where "demo_works f = Some s" and "queued s [256, 512]" and "\<And>x. wk_func (works s x) = (if x = 256 \<or> x = 512 then f else 0)"
proof -
  let ?s = "INIT_WORK 512 f (INIT_WORK 256 f \<lparr>wq_heap = init_list_head sgrt_kworker_wqh \<lparr>sprt_prev = id, sprt_next = id\<rparr>,
        works = (\<lambda>_. \<lparr>wk_func = 0, wk_data = 0\<rparr>)\<rparr>)"
  have q: "queued ?s []"
    by (simp add: queued_def INIT_WORK_def mrt_list_head_empty_def init_list_head_def sgrt_kworker_wqh_def)
  obtain s where s: "schedule_all [256, 512] ?s = Some s" "queued s (enqueue [256, 512] [])" "works s = works ?s"
    by (rule schedule_all_queued [OF q, of "[256, 512]"]) (simp_all add: sgrt_kworker_wqh_def)
  show thesis
  proof (rule that)
    show "demo_works f = Some s" unfolding demo_works_def by (rule s(1))
    show "queued s [256, 512]" using s(2) by (simp add: enqueue_def)
    show "wk_func (works s x) = (if x = 256 \<or> x = 512 then f else 0)" for x using s(3) by (simp add: INIT_WORK_def)
  qed
qed


lemma requeue_while_running_lost_witness:
  "\<exists>s s'. demo_works 2 = Some s \<and> kworker_round demo_run s = Some (Some [256, 512], s') \<and> is_workqueue_empty sgrt_kworker_wqh s'"
proof -
  obtain s where s: "demo_works 2 = Some s" "queued s [256, 512]" "\<And>x. wk_func (works s x) = (if x = 256 \<or> x = 512 then 2 else 0)"
    by (rule demo_works_queued [of 2]) simp_all
  have "queues_only demo_run (\<lambda>x. if x \<in> set [256, 512] then [x] else []) s"
    using s(3) by (auto simp: queues_only_def demo_run_def sgrt_kworker_wqh_def schedule_all_single simp del: schedule_all.simps(2))
  then show ?thesis using requeue_while_running_lost [OF s(2)] s(1) by auto
qed

end
