(* ===== verification/Kobject.thy ===== *)
theory Kobject
  imports Api_String Locks "HOL-Library.Monad_Syntax" "HOL-Library.Sublist"
begin

text \<open>
  Kernel objects: the tree of named objects behind the file system of devices (\<^verbatim>\<open>platform/fwk_kobject.c\<close>,
  \<^verbatim>\<open>include/platform/fwk_kobj.h\<close>), the inodes of its nodes (\<^verbatim>\<open>platform/fwk_inode.c\<close>) and the directories
  made at start-up (\<^verbatim>\<open>drivers/base/sysfs.c\<close>).

  A set of objects, a directory, begins with its own object, so both have one address; the lists of members are lists of
  addresses.  Strings are byte lists at their address; memory comes from a list of addresses the pool will hand out.
  \<open>None\<close> is an access through a null pointer, a string without terminator, a conversion without argument, or waiting for a
  spin lock that nobody releases.
\<close>

section \<open>State\<close>

record fwk_kobject =
  ko_name :: kuaddr_t
  ko_ref :: atomic
  ko_parent :: kuaddr_t
  ko_kset :: kuaddr_t
  ko_inode :: kuaddr_t
  ko_is_dir :: bool
  ko_lock :: spin_lock

record kobj_inode =
  in_name :: kuaddr_t
  in_type :: nat
  in_dev :: int
  in_kobj :: kuaddr_t

text \<open>\<open>kb_temp\<close> and \<open>kb_cnt\<close> are what the number printer of the formatter finds in its uninitialised variables.\<close>

record kobj_sys =
  kobjs :: "kuaddr_t \<Rightarrow> fwk_kobject"
  ks_list :: "kuaddr_t \<Rightarrow> kuaddr_t list"
  kb_strs :: "kuaddr_t \<Rightarrow> bytes"
  kb_inodes :: "kuaddr_t \<Rightarrow> kobj_inode"
  kb_pool :: "kuaddr_t list"
  kb_freed :: "kuaddr_t list"
  kb_cpu :: cpu
  kb_temp :: "nat \<Rightarrow> kuint8_t"
  kb_cnt :: nat

definition sgrt_fwk_kset_root :: kuaddr_t where "sgrt_fwk_kset_root = 0x80600000"

definition kb_kmalloc :: "kobj_sys \<Rightarrow> kuaddr_t \<times> kobj_sys" where
  "kb_kmalloc s = (case kb_pool s of [] \<Rightarrow> (0, s) | a # as \<Rightarrow> (a, s\<lparr>kb_pool := as\<rparr>))"

definition kb_kfree :: "kuaddr_t \<Rightarrow> kobj_sys \<Rightarrow> kobj_sys" where
  "kb_kfree a s = s\<lparr>kb_freed := kb_freed s @ [a]\<rparr>"

definition upd_kobj :: "kuaddr_t \<Rightarrow> (fwk_kobject \<Rightarrow> fwk_kobject) \<Rightarrow> kobj_sys \<Rightarrow> kobj_sys" where
  "upd_kobj k f s = s\<lparr>kobjs := (kobjs s)(k := f (kobjs s k))\<rparr>"

definition zero_kobj :: fwk_kobject where
  "zero_kobj = \<lparr>ko_name = 0, ko_ref = \<lparr>counter = 0\<rparr>, ko_parent = 0, ko_kset = 0, ko_inode = 0, ko_is_dir = False, ko_lock = SPIN_LOCK_INIT\<rparr>"

definition ko_acquire :: "kuaddr_t \<Rightarrow> kobj_sys \<Rightarrow> kobj_sys option" where
  "ko_acquire k s =
     (case spin_lock_acquire (ko_lock (kobjs s k)) (kb_cpu s) of
        None \<Rightarrow> None
      | Some (l, c) \<Rightarrow> Some (upd_kobj k (\<lambda>x. x\<lparr>ko_lock := l\<rparr>) (s\<lparr>kb_cpu := c\<rparr>)))"

definition ko_release :: "kuaddr_t \<Rightarrow> kobj_sys \<Rightarrow> kobj_sys" where
  "ko_release k s =
     (let (l, c) = spin_unlock (ko_lock (kobjs s k)) (kb_cpu s)
      in upd_kobj k (\<lambda>x. x\<lparr>ko_lock := l\<rparr>) (s\<lparr>kb_cpu := c\<rparr>))"

definition mrt_fwk_kset_get :: "kuaddr_t \<Rightarrow> kobj_sys \<Rightarrow> kuaddr_t" where
  "mrt_fwk_kset_get k s = (if k \<noteq> 0 \<and> ko_is_dir (kobjs s k) then k else 0)"

section \<open>References\<close>

definition fwk_kref_init :: "atomic \<Rightarrow> atomic" where
  "fwk_kref_init r = ATOMIC_SET 0 r"

definition fwk_kref_get :: "atomic \<Rightarrow> atomic" where
  "fwk_kref_get r = atomic_inc r"

definition fwk_kref_put :: "atomic \<Rightarrow> atomic" where
  "fwk_kref_put r = (if counter r \<noteq> 0 then atomic_dec r else r)"

definition fwk_kref_is_zero :: "atomic \<Rightarrow> bool" where
  "fwk_kref_is_zero r = (counter r \<noteq> 0)"

definition fwk_kobject_get :: "kuaddr_t \<Rightarrow> kobj_sys \<Rightarrow> kuaddr_t \<times> kobj_sys" where
  "fwk_kobject_get k s = (k, upd_kobj k (\<lambda>x. x\<lparr>ko_ref := fwk_kref_get (ko_ref x)\<rparr>) s)"

definition fwk_kobject_put :: "kuaddr_t \<Rightarrow> kobj_sys \<Rightarrow> kobj_sys" where
  "fwk_kobject_put k s = upd_kobj k (\<lambda>x. x\<lparr>ko_ref := fwk_kref_put (ko_ref x)\<rparr>) s"

definition fwk_kobject_is_referrd :: "kuaddr_t \<Rightarrow> kobj_sys \<Rightarrow> bool" where
  "fwk_kobject_is_referrd k s = (\<not> fwk_kref_is_zero (ko_ref (kobjs s k)))"

section \<open>Inodes\<close>

definition INODE_TYPE_FILE :: nat where "INODE_TYPE_FILE = 0"
definition INODE_TYPE_DIR :: nat where "INODE_TYPE_DIR = 1"

text \<open>The file operations an inode gets for its type belong to the model of files.\<close>

definition fwk_mk_inode :: "kuaddr_t \<Rightarrow> int \<Rightarrow> kobj_sys \<Rightarrow> kuaddr_t \<times> kobj_sys" where
  "fwk_mk_inode k devNum s =
     (if k = 0 then (ERR_PTR (- ER_ERROR), s)
      else let (i, s) = kb_kmalloc s
           in if \<not> isValid i then (ERR_PTR (- ER_NOMEM), s)
              else (i, s\<lparr>kb_inodes := (kb_inodes s)(i := \<lparr>in_name = ko_name (kobjs s k),
                         in_type = (if ko_is_dir (kobjs s k) then INODE_TYPE_DIR else INODE_TYPE_FILE), in_dev = devNum, in_kobj = k\<rparr>)\<rparr>))"

definition fwk_rm_inode :: "kuaddr_t \<Rightarrow> kobj_sys \<Rightarrow> kobj_sys" where
  "fwk_rm_inode i s = (if i = 0 then s else kb_kfree i s)"

section \<open>Names\<close>

definition fwk_kobject_del_name :: "kuaddr_t \<Rightarrow> kobj_sys \<Rightarrow> kobj_sys" where
  "fwk_kobject_del_name k s =
     (let s = (if ko_name (kobjs s k) \<noteq> 0 then kb_kfree (ko_name (kobjs s k)) s else s) in upd_kobj k (\<lambda>x. x\<lparr>ko_name := 0\<rparr>) s)"

definition fwk_kobject_set_name_args :: "kuaddr_t \<Rightarrow> bytes option \<Rightarrow> va list \<Rightarrow> kobj_sys \<Rightarrow> (int \<times> kobj_sys) option" where
  "fwk_kobject_set_name_args k fmt args s =
     (case fmt of
        None \<Rightarrow> if ko_name (kobjs s k) \<noteq> 0 then Some (ER_NORMAL, s) else Some (- ER_NOMEM, s)
      | Some f \<Rightarrow>
          let (a, s') = kb_kmalloc s
          in case vasprintk (isValid a) (kb_temp s) (kb_cnt s) f args of
               None \<Rightarrow> None
             | Some None \<Rightarrow> Some (- ER_NOMEM, s')
             | Some (Some (_, text, _)) \<Rightarrow>
                 let s = s'\<lparr>kb_strs := (kb_strs s')(a := text)\<rparr>;
                     s = (if ko_name (kobjs s k) \<noteq> 0 then kb_kfree (ko_name (kobjs s k)) s else s)
                 in Some (ER_NORMAL, upd_kobj k (\<lambda>x. x\<lparr>ko_name := a\<rparr>) s))"

definition fwk_kobject_set_name :: "kuaddr_t \<Rightarrow> bytes option \<Rightarrow> va list \<Rightarrow> kobj_sys \<Rightarrow> (int \<times> kobj_sys) option" where
  "fwk_kobject_set_name k fmt args s = fwk_kobject_set_name_args k fmt args s"

definition fwk_kobject_rename :: "kuaddr_t \<Rightarrow> bytes option \<Rightarrow> va list \<Rightarrow> kobj_sys \<Rightarrow> (int \<times> kobj_sys) option" where
  "fwk_kobject_rename k fmt args s = fwk_kobject_set_name_args k fmt args s"

definition fwk_kobject_get_name :: "kuaddr_t \<Rightarrow> kobj_sys \<Rightarrow> kuaddr_t" where
  "fwk_kobject_get_name k s = ko_name (kobjs s k)"

section \<open>Members of a set\<close>

text \<open>The loop over the members: the error that ends it, or 0 at its end.\<close>

fun join_scan :: "kuaddr_t \<Rightarrow> kuaddr_t list \<Rightarrow> kobj_sys \<Rightarrow> int option" where
  "join_scan k [] s = Some 0"
| "join_scan k (e # es) s =
     (let n = ko_name (kobjs s k); m = ko_name (kobjs s e)
      in if m = 0 \<and> n = 0 then Some (- ER_EMPTY)
         else if m = 0 \<or> n = 0 then None
         else if cstr (kb_strs s n) = cstr (kb_strs s m) then Some (- ER_EXISTED)
         else join_scan k es s)"

definition fwk_kobject_join_to_kset :: "kuaddr_t \<Rightarrow> kobj_sys \<Rightarrow> (int \<times> kobj_sys) option" where
  "fwk_kobject_join_to_kset k s =
     (let q = ko_kset (kobjs s k)
      in if q = 0 then Some (- ER_FAULT, s)
         else do {
           s \<leftarrow> ko_acquire k s;
           r \<leftarrow> join_scan k (ks_list s q) s;
           if r \<noteq> 0 then Some (r, ko_release k s)
           else let p = (if ko_parent (kobjs s k) = 0 then q else ko_parent (kobjs s k));
                    s = s\<lparr>ks_list := (ks_list s)(q := ks_list s q @ [k])\<rparr>;
                    s = upd_kobj k (\<lambda>x. x\<lparr>ko_parent := p\<rparr>) s
                in Some (ER_NORMAL, ko_release k s) })"

definition fwk_kobject_detach_from_kset :: "kuaddr_t \<Rightarrow> kobj_sys \<Rightarrow> kobj_sys option" where
  "fwk_kobject_detach_from_kset k s =
     (let q = ko_kset (kobjs s k)
      in if q = 0 then Some s
         else do { s \<leftarrow> ko_acquire k s;
                   Some (ko_release k (s\<lparr>ks_list := (ks_list s)(q := remove1 k (ks_list s q))\<rparr>)) })"

definition fwk_kobject_build_inode :: "kuaddr_t \<Rightarrow> kobj_sys \<Rightarrow> (int \<times> kobj_sys) option" where
  "fwk_kobject_build_inode k s =
     do { (retval, s) \<leftarrow> fwk_kobject_join_to_kset k s;
          if retval \<noteq> 0 then Some (retval, s)
          else let (i, s) = fwk_mk_inode k (- 1) s
               in if \<not> isValid i then do { s \<leftarrow> fwk_kobject_detach_from_kset k s; Some (PTR_ERR i, s) }
                  else Some (ER_NORMAL, upd_kobj k (\<lambda>x. x\<lparr>ko_inode := i\<rparr>) s) }"

section \<open>Objects\<close>

definition fwk_kobject_init :: "kuaddr_t \<Rightarrow> kobj_sys \<Rightarrow> kobj_sys" where
  "fwk_kobject_init k s =
     upd_kobj k (\<lambda>x. x\<lparr>ko_ref := fwk_kref_init (ko_ref x), ko_lock := spin_lock_init (ko_lock x), ko_is_dir := False, ko_kset := 0\<rparr>) s"

definition fwk_kobject_create :: "kobj_sys \<Rightarrow> kuaddr_t \<times> kobj_sys" where
  "fwk_kobject_create s =
     (let (k, s) = kb_kmalloc s
      in if \<not> isValid k then (0, s) else (k, fwk_kobject_init k (upd_kobj k (\<lambda>_. zero_kobj) s)))"

definition fwk_kobject_add_vargs ::
  "kuaddr_t \<Rightarrow> kuaddr_t \<Rightarrow> bytes option \<Rightarrow> va list \<Rightarrow> kobj_sys \<Rightarrow> (int \<times> kobj_sys) option" where
  "fwk_kobject_add_vargs k par fmt args s =
     (if k = 0 then Some (- ER_NOMEM, s)
      else do {
        let s = upd_kobj k (\<lambda>x. x\<lparr>ko_parent := par\<rparr>) s;
        (_, s) \<leftarrow> fwk_kobject_set_name_args k fmt args s;
        let s = (if ko_kset (kobjs s k) = 0 then upd_kobj k (\<lambda>x. x\<lparr>ko_kset := sgrt_fwk_kset_root\<rparr>) s else s);
        (retval, s) \<leftarrow> fwk_kobject_build_inode k s;
        Some (retval, if retval \<noteq> 0 then fwk_kobject_del_name k s else s) })"

definition fwk_kobject_add ::
  "kuaddr_t \<Rightarrow> kuaddr_t \<Rightarrow> bytes option \<Rightarrow> va list \<Rightarrow> kobj_sys \<Rightarrow> (int \<times> kobj_sys) option" where
  "fwk_kobject_add k par fmt args s = fwk_kobject_add_vargs k par fmt args s"

definition fwk_kobject_del :: "kuaddr_t \<Rightarrow> kobj_sys \<Rightarrow> kobj_sys option" where
  "fwk_kobject_del k s =
     do { let s = fwk_rm_inode (ko_inode (kobjs s k)) s;
          let s = fwk_kobject_del_name k s;
          s \<leftarrow> fwk_kobject_detach_from_kset k s;
          Some (upd_kobj k (\<lambda>x. x\<lparr>ko_inode := 0\<rparr>) s) }"

definition fwk_kobject_destroy :: "kuaddr_t \<Rightarrow> kobj_sys \<Rightarrow> kobj_sys option" where
  "fwk_kobject_destroy k s = do { s \<leftarrow> fwk_kobject_del k s; Some (kb_kfree k s) }"

section \<open>Sets\<close>

definition fwk_kset_init :: "kuaddr_t \<Rightarrow> kobj_sys \<Rightarrow> kobj_sys" where
  "fwk_kset_init q s = fwk_kobject_init q (s\<lparr>ks_list := (ks_list s)(q := [])\<rparr>)"

text \<open>The format \<^verbatim>\<open>"%s"\<close>.\<close>

definition FMT_S :: bytes where "FMT_S = [37, 115, 0]"

definition fwk_kset_create :: "bytes \<Rightarrow> kuaddr_t \<Rightarrow> kobj_sys \<Rightarrow> (kuaddr_t \<times> kobj_sys) option" where
  "fwk_kset_create nm par s =
     (let (q, s) = kb_kmalloc s
      in if \<not> isValid q then Some (0, s)
         else do {
           (r, s) \<leftarrow> fwk_kobject_set_name q (Some FMT_S) [VaStr nm] (upd_kobj q (\<lambda>_. zero_kobj) (s\<lparr>ks_list := (ks_list s)(q := [])\<rparr>));
           if r \<noteq> 0 then Some (0, kb_kfree q s)
           else Some (q, upd_kobj q (\<lambda>x. x\<lparr>ko_parent := par, ko_kset := 0\<rparr>) s) })"

definition fwk_kset_register :: "kuaddr_t \<Rightarrow> kobj_sys \<Rightarrow> (int \<times> kobj_sys) option" where
  "fwk_kset_register q s =
     (let t = ko_kset (kobjs s q)
      in fwk_kobject_build_inode q
           (upd_kobj q (\<lambda>x. x\<lparr>ko_is_dir := True, ko_kset := (if t = 0 then sgrt_fwk_kset_root else t)\<rparr>) (fwk_kset_init q s)))"

definition fwk_kset_create_and_register :: "bytes \<Rightarrow> kuaddr_t \<Rightarrow> kobj_sys \<Rightarrow> (kuaddr_t \<times> kobj_sys) option" where
  "fwk_kset_create_and_register nm par s =
     do { (q, s) \<leftarrow> fwk_kset_create nm par s;
          if \<not> isValid q then Some (0, s)
          else do { (r, s) \<leftarrow> fwk_kset_register q s;
                    if r \<noteq> 0 then Some (0, kb_kfree q (fwk_kobject_del_name q s)) else Some (q, s) } }"

definition fwk_kset_unregister :: "kuaddr_t \<Rightarrow> kobj_sys \<Rightarrow> kobj_sys option" where
  "fwk_kset_unregister q s =
     (if ks_list s q \<noteq> [] then Some s else do { s \<leftarrow> fwk_kobject_del q s; Some (fwk_kset_init q s) })"

definition fwk_kset_kobject_remove :: "kuaddr_t \<Rightarrow> kobj_sys \<Rightarrow> kobj_sys option" where
  "fwk_kset_kobject_remove k s =
     (if \<not> ko_is_dir (kobjs s k) then fwk_kobject_destroy k s
      else let q = mrt_fwk_kset_get k s
           in if q = 0 then None else do { s \<leftarrow> fwk_kset_unregister q s; Some (kb_kfree q s) })"

definition fwk_kobject_root_init :: "kobj_sys \<Rightarrow> (int \<times> kobj_sys) option" where
  "fwk_kobject_root_init s =
     do { let q = sgrt_fwk_kset_root;
          (_, s) \<leftarrow> fwk_kobject_set_name q (Some [47, 0]) [] (fwk_kset_init q s);
          Some (ER_NORMAL, upd_kobj q (\<lambda>x. x\<lparr>ko_parent := 0, ko_kset := 0, ko_is_dir := True\<rparr>) s) }"

section \<open>Paths\<close>

text \<open>The walk over the members of a set for the first one of the right kind whose name agrees with the path on \<open>lenth\<close> characters.\<close>

definition path_scan :: "bool \<Rightarrow> bytes \<Rightarrow> nat \<Rightarrow> kuaddr_t \<Rightarrow> kobj_sys \<Rightarrow> kuaddr_t option" where
  "path_scan want_dir str lenth q s =
     find (\<lambda>k. ko_name (kobjs s k) \<noteq> 0 \<and> strncmp_eq str (kb_strs s (ko_name (kobjs s k))) lenth \<and> ko_is_dir (kobjs s k) = want_dir)
       (ks_list s q)"

lemma seek_char_shorter:
  "seek_char_in_string str ch = Some (Some rest) \<Longrightarrow> length rest \<le> length str"
  "seek_char_in_string str ch = Some (Some rest) \<Longrightarrow> hd str \<noteq> ch \<Longrightarrow> length rest < length str"
  by (induction str ch rule: seek_char_in_string.induct) (auto split: if_splits)

text \<open>One pass of \<^verbatim>\<open>fwk_find_kobject_by_path\<close> starts at the slash in front of a component, or at the component itself when the search
  does not start at the root.  \<open>str_end\<close> is the rest of the path.\<close>

function find_path_loop :: "bool \<Rightarrow> kuaddr_t \<Rightarrow> bytes \<Rightarrow> kobj_sys \<Rightarrow> (kuaddr_t \<times> kobj_sys) option" where
  "find_path_loop is_root q str_end s =
     (if str_end = [] then None
      else if hd str_end = 0 then Some (0, s)
      else let start = (if is_root then tl str_end else str_end)
           in if start = [] then None
              else if hd start = 0 then Some (q, s)
              else if hd start = 47 then Some (0, s)
              else case seek_char_in_string start 47 of
                     None \<Rightarrow> None
                   | Some None \<Rightarrow>
                       do { lenth \<leftarrow> get_string_lenth start;
                            s \<leftarrow> ko_acquire q s;
                            let r = path_scan False start lenth q s;
                            Some (case r of None \<Rightarrow> 0 | Some k \<Rightarrow> k, ko_release q s) }
                   | Some (Some str_end) \<Rightarrow>
                       do { s \<leftarrow> ko_acquire q s;
                            let r = path_scan True start (length start - length str_end) q s;
                            let s = ko_release q s;
                            (case r of None \<Rightarrow> Some (0, s) | Some k \<Rightarrow> find_path_loop True k str_end s) })"
  by auto
termination
proof (relation "measure (\<lambda>(_, _, str_end, _). length str_end)", goal_cases)
  case (2 is_root q str_end s start x rest)
  then have "length rest < length start" using seek_char_shorter(2) by auto
  then show ?case using 2 by (auto split: if_splits)
qed simp

definition fwk_find_kobject_by_path :: "kuaddr_t \<Rightarrow> bytes \<Rightarrow> kobj_sys \<Rightarrow> (kuaddr_t \<times> kobj_sys) option" where
  "fwk_find_kobject_by_path head nm s =
     (let q = (if head \<noteq> 0 then mrt_fwk_kset_get head s else sgrt_fwk_kset_root)
      in if q = 0 then Some (0, s)
         else if q = sgrt_fwk_kset_root \<and> nm = [] then None
         else if q = sgrt_fwk_kset_root \<and> hd nm \<noteq> 47 then Some (0, s)
         else if q = sgrt_fwk_kset_root \<and> tl nm = [] then None
         else if q = sgrt_fwk_kset_root \<and> hd (tl nm) = 0 then Some (q, s)
         else find_path_loop (q = sgrt_fwk_kset_root) q nm s)"

text \<open>\<^verbatim>\<open>__fwk_kobject_populate_dir\<close>: a component with a slash behind it becomes a directory, the last one an object, with the
  component as the format of its name.  The copy of the directory's name fills the whole new memory.\<close>

definition populate_dir_fail :: "kuaddr_t \<Rightarrow> kobj_sys \<Rightarrow> (kuaddr_t \<times> kobj_sys) option" where
  "populate_dir_fail q s = do { s \<leftarrow> fwk_kobject_del q s; Some (0, kb_kfree q s) }"

definition fwk_kobject_populate_dir :: "kuaddr_t \<Rightarrow> bytes \<Rightarrow> kobj_sys \<Rightarrow> (kuaddr_t \<times> kobj_sys) option" where
  "fwk_kobject_populate_dir par nm s =
     (let par = (if par = 0 then sgrt_fwk_kset_root else par)
      in case seek_char_in_string nm 47 of
           None \<Rightarrow> None
         | Some (Some new_name) \<Rightarrow>
             do { (q, s) \<leftarrow> fwk_kset_create nm par s;
                  if \<not> isValid q then Some (0, s)
                  else do {
                    let lenth = length nm - length new_name;
                    let s = fwk_kobject_del_name q s;
                    let (a, s) = kb_kmalloc s;
                    if \<not> isValid a then populate_dir_fail q s
                    else do {
                      (_, text) \<leftarrow> do_string_n_copy_safe (replicate (lenth + 1) 0) nm (lenth + 1);
                      let s = upd_kobj q (\<lambda>x. x\<lparr>ko_name := a\<rparr>) (s\<lparr>kb_strs := (kb_strs s)(a := text)\<rparr>);
                      let s = upd_kobj q (\<lambda>x. x\<lparr>ko_kset := mrt_fwk_kset_get par s\<rparr>) s;
                      if ko_kset (kobjs s q) = 0 then populate_dir_fail q s
                      else do { (r, s) \<leftarrow> fwk_kset_register q s;
                                if r \<noteq> 0 then populate_dir_fail q s else Some (q, s) } } } }
         | Some None \<Rightarrow>
             do { let (k, s) = fwk_kobject_create s;
                  if \<not> isValid k then Some (0, s)
                  else do {
                    let s = upd_kobj k (\<lambda>x. x\<lparr>ko_kset := mrt_fwk_kset_get par s\<rparr>) s;
                    if ko_kset (kobjs s k) = 0 then Some (0, kb_kfree k s)
                    else do { (r, s) \<leftarrow> fwk_kobject_add k par (Some nm) [] s;
                              if r \<noteq> 0 then Some (0, kb_kfree k s) else Some (k, s) } } })"

text \<open>One pass of \<^verbatim>\<open>fwk_kobject_populate\<close>; \<open>k\<close> is the object reached.\<close>

function populate_loop :: "bool \<Rightarrow> kuaddr_t \<Rightarrow> kuaddr_t \<Rightarrow> bytes \<Rightarrow> kobj_sys \<Rightarrow> (kuaddr_t \<times> kobj_sys) option" where
  "populate_loop is_root k q str_end s =
     (if str_end = [] then None
      else if hd str_end = 0 then Some (k, s)
      else let start = (if is_root then tl str_end else str_end)
           in if start = [] then None
              else if hd start = 0 then Some (k, s)
              else if hd start = 47 then Some (ERR_PTR (- ER_FAULT), s)
              else if q = 0 then None
              else case seek_char_in_string start 47 of
                     None \<Rightarrow> None
                   | Some None \<Rightarrow>
                       do { lenth \<leftarrow> get_string_lenth start;
                            s \<leftarrow> ko_acquire q s;
                            let r = path_scan False start lenth q s;
                            let s = ko_release q s;
                            if r \<noteq> None then Some (ERR_PTR (- ER_EXISTED), s)
                            else do { (k, s) \<leftarrow> fwk_kobject_populate_dir q start s;
                                      Some (if isValid k then k else ERR_PTR (- ER_ERROR), s) } }
                   | Some (Some str_end) \<Rightarrow>
                       do { s \<leftarrow> ko_acquire q s;
                            let r = path_scan True start (length start - length str_end) q s;
                            let s = ko_release q s;
                            (case r of
                               Some k \<Rightarrow> populate_loop True k (mrt_fwk_kset_get k s) str_end s
                             | None \<Rightarrow>
                                 do { (k, s) \<leftarrow> fwk_kobject_populate_dir q start s;
                                      if \<not> isValid k then Some (ERR_PTR (- ER_ERROR), s)
                                      else populate_loop True k (mrt_fwk_kset_get k s) str_end s }) })"
  by auto
termination
proof (relation "measure (\<lambda>(_, _, _, str_end, _). length str_end)", goal_cases)
  case (2 is_root k q str_end s start x rest)
  then have "length rest < length start" using seek_char_shorter(2) by auto
  then show ?case using 2 by (auto split: if_splits)
next
  case (3 is_root k q str_end s start x rest)
  then have "length rest < length start" using seek_char_shorter(2) by auto
  then show ?case using 3 by (auto split: if_splits)
qed simp

definition fwk_kobject_populate :: "kuaddr_t \<Rightarrow> bytes \<Rightarrow> kobj_sys \<Rightarrow> (kuaddr_t \<times> kobj_sys) option" where
  "fwk_kobject_populate head nm s =
     (let q = (if head \<noteq> 0 then mrt_fwk_kset_get head s else sgrt_fwk_kset_root)
      in if q = 0 then Some (ERR_PTR (- ER_NOMEM), s)
         else if q = sgrt_fwk_kset_root \<and> nm = [] then None
         else if q = sgrt_fwk_kset_root \<and> hd nm \<noteq> 47 then Some (ERR_PTR (- ER_FAULT), s)
         else if q = sgrt_fwk_kset_root \<and> tl nm = [] then None
         else if q = sgrt_fwk_kset_root \<and> hd (tl nm) = 0 then Some (ERR_PTR (- ER_FAULT), s)
         else populate_loop (q = sgrt_fwk_kset_root) head q nm s)"

definition kobj_inode_find :: "bytes option \<Rightarrow> kobj_sys \<Rightarrow> (kuaddr_t \<times> kobj_sys) option" where
  "kobj_inode_find nm s =
     (case nm of
        None \<Rightarrow> Some (0, s)
      | Some n \<Rightarrow>
          if n = [] then None
          else if hd n = 0 then Some (0, s)
          else do { (k, s) \<leftarrow> fwk_find_kobject_by_path 0 n s;
                    Some (if isValid k then ko_inode (kobjs s k) else ERR_PTR (- ER_NOTFOUND), s) })"

declare find_path_loop.simps [simp del] populate_loop.simps [simp del]

section \<open>The directories of the system\<close>

definition STDIN_NAME :: bytes where "STDIN_NAME = [115, 116, 100, 105, 110, 0]"
definition STDOUT_NAME :: bytes where "STDOUT_NAME = [115, 116, 100, 111, 117, 116, 0]"
definition STDERR_NAME :: bytes where "STDERR_NAME = [115, 116, 100, 101, 114, 114, 0]"

record stdio_objs =
  sprt_kobj_in :: kuaddr_t
  sprt_kobj_out :: kuaddr_t
  sprt_kobj_err :: kuaddr_t

text \<open>The tails of \<^verbatim>\<open>devfs_stdio_init\<close> that undo its work, from \<^verbatim>\<open>fail3\<close>, \<^verbatim>\<open>fail4\<close> and \<^verbatim>\<open>fail5\<close>.\<close>

definition stdio_fail3 :: "stdio_objs \<Rightarrow> kobj_sys \<Rightarrow> kobj_sys" where
  "stdio_fail3 ob s = kb_kfree (sprt_kobj_in ob) (kb_kfree (sprt_kobj_out ob) (kb_kfree (sprt_kobj_err ob) s))"

definition stdio_fail4 :: "stdio_objs \<Rightarrow> kobj_sys \<Rightarrow> kobj_sys option" where
  "stdio_fail4 ob s = map_option (stdio_fail3 ob) (fwk_kobject_del (sprt_kobj_in ob) s)"

definition stdio_fail5 :: "stdio_objs \<Rightarrow> kobj_sys \<Rightarrow> kobj_sys option" where
  "stdio_fail5 ob s = do { s \<leftarrow> fwk_kobject_del (sprt_kobj_out ob) s; stdio_fail4 ob s }"

definition devfs_stdio_init :: "kuaddr_t \<Rightarrow> kobj_sys \<Rightarrow> (int \<times> stdio_objs \<times> kobj_sys) option" where
  "devfs_stdio_init head s =
     (let (a, s) = fwk_kobject_create s
      in if \<not> isValid a then Some (- ER_NOMEM, \<lparr>sprt_kobj_in = a, sprt_kobj_out = 0, sprt_kobj_err = 0\<rparr>, s)
         else let (b, s) = fwk_kobject_create s
              in if \<not> isValid b then Some (PTR_ERR b, \<lparr>sprt_kobj_in = a, sprt_kobj_out = b, sprt_kobj_err = 0\<rparr>, kb_kfree a s)
                 else let (c, s) = fwk_kobject_create s; ob = \<lparr>sprt_kobj_in = a, sprt_kobj_out = b, sprt_kobj_err = c\<rparr>
                      in if \<not> isValid c then Some (PTR_ERR b, ob, kb_kfree a (kb_kfree b s))
                         else do {
                           let s = upd_kobj a (\<lambda>x. x\<lparr>ko_kset := head\<rparr>) s;
                           let s = upd_kobj b (\<lambda>x. x\<lparr>ko_kset := head\<rparr>) s;
                           let s = upd_kobj c (\<lambda>x. x\<lparr>ko_kset := head\<rparr>) s;
                           (r, s) \<leftarrow> fwk_kobject_add a head (Some STDIN_NAME) [] s;
                           if r \<noteq> 0 then Some (r, ob, stdio_fail3 ob s)
                           else do {
                             (r, s) \<leftarrow> fwk_kobject_add b head (Some STDOUT_NAME) [] s;
                             if r \<noteq> 0 then map_option (\<lambda>s. (r, ob, s)) (stdio_fail4 ob s)
                             else do {
                               (r, s) \<leftarrow> fwk_kobject_add c head (Some STDERR_NAME) [] s;
                               if r \<noteq> 0 then map_option (\<lambda>s. (r, ob, s)) (stdio_fail5 ob s)
                               else Some (ER_NORMAL, ob, s) } } })"

definition devfs_stdio_destroy :: "stdio_objs \<Rightarrow> kobj_sys \<Rightarrow> kobj_sys option" where
  "devfs_stdio_destroy ob s =
     do { s \<leftarrow> fwk_kobject_destroy (sprt_kobj_err ob) s;
          s \<leftarrow> fwk_kobject_destroy (sprt_kobj_out ob) s;
          fwk_kobject_destroy (sprt_kobj_in ob) s }"

definition sysfs_fail1 :: "kuaddr_t \<Rightarrow> kobj_sys \<Rightarrow> kobj_sys option" where
  "sysfs_fail1 sys s = do { s \<leftarrow> fwk_kset_unregister sys s; Some (kb_kfree sys s) }"

definition sysfs_fail2 :: "kuaddr_t \<Rightarrow> kuaddr_t \<Rightarrow> kobj_sys \<Rightarrow> kobj_sys option" where
  "sysfs_fail2 sys dev s = do { s \<leftarrow> fwk_kset_unregister dev s; sysfs_fail1 sys (kb_kfree dev s) }"

text \<open>\<open>retval\<close> is the uninitialised variable, \<open>fs_init\<close> the result of \<^verbatim>\<open>fwk_file_system_init\<close>.\<close>

definition sysfs_init :: "int \<Rightarrow> int \<Rightarrow> kobj_sys \<Rightarrow> (int \<times> kobj_sys) option" where
  "sysfs_init retval fs_init s =
     do { (r, s) \<leftarrow> fwk_kobject_root_init s;
          if r \<noteq> 0 then Some (- ER_FAILD, s)
          else do {
            (sys, s) \<leftarrow> fwk_kset_create_and_register [115, 121, 115, 0] 0 s;
            if \<not> isValid sys then Some (- ER_NOMEM, s)
            else do {
              (dev, s) \<leftarrow> fwk_kset_create_and_register [100, 101, 118, 0] 0 s;
              if \<not> isValid dev then map_option (Pair retval) (sysfs_fail1 sys s)
              else do {
                (retval, ob, s) \<leftarrow> devfs_stdio_init dev s;
                if retval \<noteq> 0 then map_option (Pair retval) (sysfs_fail2 sys dev s)
                else if fs_init \<noteq> 0
                then do { s \<leftarrow> devfs_stdio_destroy ob s; map_option (Pair retval) (sysfs_fail2 sys dev s) }
                else Some (ER_NORMAL, s) } } } }"

section \<open>Locks are free between calls\<close>

definition calm :: "kobj_sys \<Rightarrow> bool" where
  "calm s \<longleftrightarrow> (\<forall>k. \<not> spin_is_locked (ko_lock (kobjs s k))) \<and> g_sched_preempt_cnt (kb_cpu s) \<noteq> - 1"

lemma upd_kobj_sel [simp]:
  "kobjs (upd_kobj k f s) = (kobjs s)(k := f (kobjs s k))" "ks_list (upd_kobj k f s) = ks_list s" "kb_strs (upd_kobj k f s) = kb_strs s"
  "kb_inodes (upd_kobj k f s) = kb_inodes s" "kb_pool (upd_kobj k f s) = kb_pool s" "kb_freed (upd_kobj k f s) = kb_freed s"
  "kb_cpu (upd_kobj k f s) = kb_cpu s" "kb_temp (upd_kobj k f s) = kb_temp s" "kb_cnt (upd_kobj k f s) = kb_cnt s"
  by (simp_all add: upd_kobj_def)

definition held :: "kuaddr_t \<Rightarrow> kobj_sys \<Rightarrow> kobj_sys" where
  "held k s = upd_kobj k (\<lambda>x. x\<lparr>ko_lock := (ko_lock x)\<lparr>sgrt_atc := atomic_inc (sgrt_atc (ko_lock x))\<rparr>\<rparr>) (s\<lparr>kb_cpu := mrt_preempt_disable (kb_cpu s)\<rparr>)"

lemma ko_acquire_calm: "calm s \<Longrightarrow> ko_acquire k s = Some (held k s)"
  by (simp add: calm_def ko_acquire_def spin_lock_acquire_def held_def)

lemma ko_release_held:
  assumes "calm s" and "\<And>x. ko_lock (f x) = ko_lock x" and "\<And>x l. f (x\<lparr>ko_lock := l\<rparr>) = (f x)\<lparr>ko_lock := l\<rparr>"
  shows "ko_release k (upd_kobj k f (held k s)) = upd_kobj k f s"
proof -
  let ?l = "ko_lock (kobjs s k)"
  have l: "counter (sgrt_atc ?l) = 0" and p: "g_sched_preempt_cnt (kb_cpu s) + 1 \<noteq> 0"
    using assms(1) by (simp_all add: calm_def spin_is_locked_def eq_neg_iff_add_eq_0)
  have 1: "spin_unlock (?l\<lparr>sgrt_atc := atomic_inc (sgrt_atc ?l)\<rparr>) (mrt_preempt_disable (kb_cpu s)) = (?l, kb_cpu s)"
    using l p by (simp add: spin_unlock_def spin_is_locked_def atomic_inc_def atomic_add_def atomic_dec_def atomic_sub_def
        mrt_preempt_disable_def mrt_preempt_enable_def)
  have 2: "ko_lock (f ((kobjs s k)\<lparr>ko_lock := ?l\<lparr>sgrt_atc := atomic_inc (sgrt_atc ?l)\<rparr>\<rparr>)) = ?l\<lparr>sgrt_atc := atomic_inc (sgrt_atc ?l)\<rparr>"
    using assms(2,3) by simp
  have 3: "(f (kobjs s k))\<lparr>ko_lock := ?l\<rparr> = f (kobjs s k)" using assms(3) [where x = "kobjs s k" and l = ?l] by simp
  show ?thesis using 1 2 3 assms(3) by (simp add: ko_release_def held_def upd_kobj_def)
qed

lemma ko_release_held_id: "calm s \<Longrightarrow> ko_release k (held k s) = s"
  using ko_release_held [of s "\<lambda>x. x" k] by (simp add: upd_kobj_def)

lemma held_sel [simp]:
  "ks_list (held k s) = ks_list s" "kb_strs (held k s) = kb_strs s" "kb_pool (held k s) = kb_pool s"
  "ko_name (kobjs (held k s) j) = ko_name (kobjs s j)" "ko_is_dir (kobjs (held k s) j) = ko_is_dir (kobjs s j)"
  "ko_kset (kobjs (held k s) j) = ko_kset (kobjs s j)" "ko_parent (kobjs (held k s) j) = ko_parent (kobjs s j)"
  by (simp_all add: held_def)

lemma path_scan_held [simp]: "path_scan d str n q (held k s) = path_scan d str n q s"
  by (simp add: path_scan_def)

section \<open>Paths as lists of components\<close>

definition component :: "bytes \<Rightarrow> bool" where
  "component c \<longleftrightarrow> c \<noteq> [] \<and> 0 \<notin> set c \<and> 47 \<notin> set c"

definition path_of :: "bytes list \<Rightarrow> bytes \<Rightarrow> bytes" where
  "path_of ds f = concat (map (\<lambda>c. 47 # c) ds) @ 47 # f @ [0]"

text \<open>The first member of \<open>q\<close> of the right kind whose name begins with \<open>c\<close>, and a walk along directories.\<close>

definition child :: "kobj_sys \<Rightarrow> bool \<Rightarrow> kuaddr_t \<Rightarrow> bytes \<Rightarrow> kuaddr_t option" where
  "child s want_dir q c =
     find (\<lambda>k. ko_name (kobjs s k) \<noteq> 0 \<and> prefix c (cstr (kb_strs s (ko_name (kobjs s k)))) \<and> ko_is_dir (kobjs s k) = want_dir) (ks_list s q)"

lemma child_held [simp]: "child (held k s) w q c = child s w q c"
  by (simp add: child_def)

fun walk_dirs :: "kobj_sys \<Rightarrow> kuaddr_t \<Rightarrow> bytes list \<Rightarrow> kuaddr_t option" where
  "walk_dirs s q [] = Some q"
| "walk_dirs s q (d # ds) = Option.bind (child s True q d) (\<lambda>k. walk_dirs s k ds)"

definition resolve :: "kobj_sys \<Rightarrow> kuaddr_t \<Rightarrow> bytes list \<Rightarrow> bytes \<Rightarrow> kuaddr_t" where
  "resolve s q ds f = (case Option.bind (walk_dirs s q ds) (\<lambda>k. child s False k f) of None \<Rightarrow> 0 | Some k \<Rightarrow> k)"

lemma seek_component:
  "0 \<notin> set c \<Longrightarrow> 47 \<notin> set c \<Longrightarrow> seek_char_in_string (c @ 47 # r) 47 = Some (Some (47 # r))"
  "0 \<notin> set c \<Longrightarrow> 47 \<notin> set c \<Longrightarrow> seek_char_in_string (c @ 0 # r) 47 = Some None"
  by (induction c) auto

lemma cstr_append: "0 \<notin> set c \<Longrightarrow> cstr (c @ r) = c @ cstr r"
  by (simp add: cstr_def takeWhile_append)

lemma cstr_Cons [simp]: "cstr (0 # r) = []" "b \<noteq> 0 \<Longrightarrow> cstr (b # r) = b # cstr r"
  by (simp_all add: cstr_def)

lemma strncmp_prefix:
  assumes "0 \<notin> set c"
  shows "strncmp_eq (c @ r) b (length c) \<longleftrightarrow> prefix c (cstr b)"
proof -
  have "take (length c) (cstr (c @ r) @ [0]) = c" using assms by (simp add: cstr_append)
  moreover have "take (length c) (cstr b @ [0]) = c \<longleftrightarrow> prefix c (cstr b)"
  proof
    assume *: "take (length c) (cstr b @ [0]) = c"
    show "prefix c (cstr b)"
    proof (cases "length c \<le> length (cstr b)")
      case True
      then show ?thesis using * by (metis append_Nil2 diff_is_0_eq take_0 take_append take_is_prefix)
    next
      case False
      then have "c = cstr b @ [0]" using * by simp
      then have "0 \<in> set c" by simp
      then show ?thesis using assms by simp
    qed
  next
    assume "prefix c (cstr b)"
    then show "take (length c) (cstr b @ [0]) = c" by (auto simp: prefix_def)
  qed
  ultimately show ?thesis by (auto simp: strncmp_eq_def)
qed

lemma path_scan_child: "0 \<notin> set c \<Longrightarrow> path_scan w (c @ r) (length c) q s = child s w q c"
  by (simp add: path_scan_def child_def strncmp_prefix)

lemma find_path_loop_resolves:
  assumes "calm s" and "\<forall>d \<in> set ds. component d" and "component f"
  shows "find_path_loop True q (path_of ds f) s = Some (resolve s q ds f, s)"
  using assms(2)
proof (induction ds arbitrary: q)
  case Nil
  have f: "f \<noteq> []" "0 \<notin> set f" "47 \<notin> set f" using assms(3) by (auto simp: component_def)
  have h: "hd (f @ [0]) \<noteq> 0" "hd (f @ [0]) \<noteq> 47" using f by (cases f; auto)+
  have "find_path_loop True q (47 # f @ [0]) s = Some (resolve s q [] f, s)"
    using f h by (subst find_path_loop.simps)
      (simp add: seek_component get_string_lenth_terminated ko_acquire_calm [OF assms(1)] ko_release_held_id [OF assms(1)]
        path_scan_child resolve_def)
  then show ?case by (simp add: path_of_def)
next
  case (Cons d ds)
  have d: "d \<noteq> []" "0 \<notin> set d" "47 \<notin> set d" using Cons.prems by (auto simp: component_def)
  obtain r where r: "path_of ds f = 47 # r" by (cases ds) (auto simp: path_of_def)
  have p: "path_of (d # ds) f = 47 # d @ 47 # r" using r by (simp add: path_of_def)
  have h: "hd (d @ 47 # r) \<noteq> 0" "hd (d @ 47 # r) \<noteq> 47" using d by (cases d; auto)+
  have "find_path_loop True q (47 # d @ 47 # r) s =
     (case child s True q d of None \<Rightarrow> Some (0, s) | Some k \<Rightarrow> find_path_loop True k (47 # r) s)"
    using d h by (subst find_path_loop.simps)
      (simp add: seek_component ko_acquire_calm [OF assms(1)] ko_release_held_id [OF assms(1)] path_scan_child)
  then show ?case using Cons r p by (simp add: resolve_def split: option.split)
qed

section \<open>Adding an object\<close>

lemma join_scan_cases:
  assumes "ko_name (kobjs s k) \<noteq> 0" and "\<forall>e \<in> set es. ko_name (kobjs s e) \<noteq> 0"
  shows "join_scan k es s =
     Some (if \<exists>e \<in> set es. cstr (kb_strs s (ko_name (kobjs s e))) = cstr (kb_strs s (ko_name (kobjs s k))) then - ER_EXISTED else 0)"
  using assms(2) by (induction es) (use assms(1) in \<open>auto simp: Let_def\<close>)

text \<open>An object that is about to be added to \<open>q\<close> under the name \<open>n\<close>: it is in no set and has no name, the members of \<open>q\<close> have
  names, and the next two areas of the pool are memory nobody uses as a name.\<close>

definition addable :: "kuaddr_t \<Rightarrow> kuaddr_t \<Rightarrow> bytes \<Rightarrow> kuaddr_t \<Rightarrow> kuaddr_t \<Rightarrow> kobj_sys \<Rightarrow> bool" where
  "addable k q n a i s \<longleftrightarrow> calm s \<and> k \<noteq> 0 \<and> q \<noteq> 0 \<and> ko_kset (kobjs s k) = q \<and> ko_name (kobjs s k) = 0 \<and> \<not> ko_is_dir (kobjs s k) \<and>
     (\<forall>x. k \<notin> set (ks_list s x)) \<and> (\<forall>e \<in> set (ks_list s q). ko_name (kobjs s e) \<noteq> 0) \<and> (\<forall>e. ko_name (kobjs s e) \<noteq> a) \<and>
     literal n \<and> length n < 2 ^ 32 - 1 \<and> isValid a \<and> isValid i \<and> (\<exists>ps. kb_pool s = a # i # ps)"

definition named :: "kobj_sys \<Rightarrow> kuaddr_t \<Rightarrow> bytes \<Rightarrow> bool" where
  "named s q n \<longleftrightarrow> (\<exists>e \<in> set (ks_list s q). cstr (kb_strs s (ko_name (kobjs s e))) = n)"

lemma set_name_literal:
  assumes "addable k q n a i s" and "kobjs s' = (kobjs s)(k := (kobjs s k)\<lparr>ko_parent := par\<rparr>)" and "kb_pool s' = kb_pool s"
  shows "fwk_kobject_set_name_args k (Some (n @ [0])) [] s' =
     Some (ER_NORMAL, upd_kobj k (\<lambda>x. x\<lparr>ko_name := a\<rparr>) (s'\<lparr>kb_strs := (kb_strs s')(a := n @ [0]), kb_pool := tl (kb_pool s)\<rparr>))"
  using assms vasprintk_literal [of n "kb_temp s'" "kb_cnt s'" "[]"]
  by (auto simp: addable_def fwk_kobject_set_name_args_def kb_kmalloc_def Let_def)

lemma kobject_add_cases:
  assumes "addable k q n a i s" and "p \<noteq> 0"
  defines "s1 \<equiv> s\<lparr>kobjs := (kobjs s)(k := (kobjs s k)\<lparr>ko_parent := p, ko_name := a\<rparr>), kb_strs := (kb_strs s)(a := n @ [0]), kb_pool := tl (kb_pool s)\<rparr>"
  shows "fwk_kobject_add k p (Some (n @ [0])) [] s =
     (if named s q n then Some (- ER_EXISTED, fwk_kobject_del_name k s1)
      else Some (ER_NORMAL, s1\<lparr>ks_list := (ks_list s)(q := ks_list s q @ [k]), kb_pool := tl (tl (kb_pool s)),
             kb_inodes := (kb_inodes s)(i := \<lparr>in_name = a, in_type = INODE_TYPE_FILE, in_dev = - 1, in_kobj = k\<rparr>),
             kobjs := (kobjs s)(k := (kobjs s k)\<lparr>ko_parent := p, ko_name := a, ko_inode := i\<rparr>)\<rparr>))"
proof -
  note a = assms(1) [unfolded addable_def]
  have a0: "a \<noteq> 0" using a by (auto simp: isValid_def)
  have set: "fwk_kobject_set_name_args k (Some (n @ [0])) [] (upd_kobj k (\<lambda>x. x\<lparr>ko_parent := p\<rparr>) s) = Some (ER_NORMAL, s1)"
    using set_name_literal [OF assms(1), of "upd_kobj k (\<lambda>x. x\<lparr>ko_parent := p\<rparr>) s" p] by (simp add: s1_def upd_kobj_def)
  have calm1: "calm s1" using a by (auto simp: calm_def s1_def)
  have f1: "ko_kset (kobjs s1 k) = q" "ko_name (kobjs s1 k) = a" "ko_parent (kobjs s1 k) = p" "ks_list s1 = ks_list s" "kb_strs s1 a = n @ [0]"
    using a by (simp_all add: s1_def)
  let ?t = "s1\<lparr>ks_list := (ks_list s)(q := ks_list s q @ [k])\<rparr>"
  have "join_scan k (ks_list s q) (held k s1) = Some (if named s q n then - ER_EXISTED else 0)"
  proof -
    have m: "ko_name (kobjs s1 e) = ko_name (kobjs s e)" "kb_strs s1 (ko_name (kobjs s e)) = kb_strs s (ko_name (kobjs s e))"
      if "e \<in> set (ks_list s q)" for e using that a by (auto simp: s1_def)
    have "cstr (n @ [0]) = n" using a by (simp add: literal_def cstr_append)
    then show ?thesis
      using a0 f1 m a by (subst join_scan_cases) (auto simp: named_def)
  qed
  moreover have "upd_kobj k (\<lambda>x. x\<lparr>ko_parent := p\<rparr>) ((held k s1)\<lparr>ks_list := (ks_list s)(q := ks_list s q @ [k])\<rparr>) = held k ?t"
    by (cases s; cases "kobjs s k") (simp add: held_def upd_kobj_def s1_def)
  moreover have "ko_release k (held k ?t) = ?t" by (rule ko_release_held_id) (use calm1 in \<open>simp add: calm_def\<close>)
  ultimately have join: "fwk_kobject_join_to_kset k s1 = (if named s q n then Some (- ER_EXISTED, s1) else Some (ER_NORMAL, ?t))"
    using a assms(2) f1 ko_acquire_calm [OF calm1] ko_release_held_id [OF calm1]
    by (simp add: fwk_kobject_join_to_kset_def)
  show ?thesis
    using a assms(2) set f1 join
    by (auto simp: fwk_kobject_add_def fwk_kobject_add_vargs_def fwk_kobject_build_inode_def fwk_mk_inode_def kb_kmalloc_def s1_def upd_kobj_def)
qed

section \<open>Properties\<close>

lemma path_of_starts:
  assumes "\<forall>d \<in> set ds. component d" and "component f"
  obtains b r where "path_of ds f = 47 # b # r" and "b \<noteq> 0"
proof (cases ds)
  case Nil
  then show thesis using assms that by (cases f) (auto simp: component_def path_of_def)
next
  case (Cons d ds')
  then show thesis using assms that by (cases d) (auto simp: component_def path_of_def)
qed

lemma find_path_resolves:
  assumes "calm s" and "\<forall>d \<in> set ds. component d" and "component f"
  shows "fwk_find_kobject_by_path 0 (path_of ds f) s = Some (resolve s sgrt_fwk_kset_root ds f, s)"
proof -
  obtain b r where p: "path_of ds f = 47 # b # r" "b \<noteq> 0" using assms(2,3) by (rule path_of_starts)
  have "sgrt_fwk_kset_root \<noteq> 0" by (simp add: sgrt_fwk_kset_root_def)
  then show ?thesis using find_path_loop_resolves [OF assms, of sgrt_fwk_kset_root] p by (simp add: fwk_find_kobject_by_path_def)
qed

text \<open>Looking up a path finds exactly what a walk along its components finds, in any tree: from the root to the first
  directory whose name begins with the first component, and so on, to the first object that is no directory and whose name
  begins with the last component.  All locks are free again afterwards and nothing has changed.\<close>

lemma path_lookup_resolves:
  assumes "calm s" and "\<forall>d \<in> set ds. component d" and "component f"
  shows "fwk_find_kobject_by_path 0 (path_of ds f) s = Some (resolve s sgrt_fwk_kset_root ds f, s)"
  using assms by (rule find_path_resolves)

text \<open>What the tree looks like when only \<open>k\<close> has been put in or taken out.\<close>

definition same_tree :: "kuaddr_t \<Rightarrow> kobj_sys \<Rightarrow> kobj_sys \<Rightarrow> bool" where
  "same_tree k s t \<longleftrightarrow> (\<forall>e. e \<noteq> k \<longrightarrow> ko_name (kobjs t e) = ko_name (kobjs s e) \<and> ko_is_dir (kobjs t e) = ko_is_dir (kobjs s e) \<and>
     kb_strs t (ko_name (kobjs s e)) = kb_strs s (ko_name (kobjs s e)))"

lemma child_same_tree:
  assumes "same_tree k s t" and "ks_list t q = ks_list s q" and "k \<notin> set (ks_list s q)"
  shows "child t w q c = child s w q c"
proof -
  have "e \<noteq> k" if "e \<in> set (ks_list s q)" for e using that assms(3) by auto
  then show ?thesis unfolding child_def assms(2) by (intro find_cong_mem) (use assms(1) in \<open>auto simp: same_tree_def\<close>)
qed

lemma child_append:
  assumes "same_tree k s t" and "ks_list t q = ks_list s q @ [k]" and "k \<notin> set (ks_list s q)"
  shows "child t w q c = (case child s w q c of Some j \<Rightarrow> Some j | None \<Rightarrow>
     if ko_name (kobjs t k) \<noteq> 0 \<and> prefix c (cstr (kb_strs t (ko_name (kobjs t k)))) \<and> ko_is_dir (kobjs t k) = w then Some k else None)"
proof -
  let ?t = "t\<lparr>ks_list := ks_list s\<rparr>"
  have "child ?t w q c = child s w q c" by (rule child_same_tree [of k]) (use assms in \<open>auto simp: same_tree_def\<close>)
  then show ?thesis by (simp add: child_def assms(2) find_append split: option.split)
qed

lemma walk_dirs_cong: "(\<And>q c. child t True q c = child s True q c) \<Longrightarrow> walk_dirs t q ds = walk_dirs s q ds"
  by (induction ds arbitrary: q) (auto split: bind_splits)

lemma resolve_cong: "(\<And>w q c. child t w q c = child s w q c) \<Longrightarrow> resolve t q ds f = resolve s q ds f"
  using walk_dirs_cong [of t s] by (simp add: resolve_def)

lemma kobject_del_added:
  assumes "calm t" and "ko_kset (kobjs t k) = q" and "q \<noteq> 0" and "ks_list t q = xs @ [k]" and "k \<notin> set xs"
  obtains t' where "fwk_kobject_del k t = Some t'" and "calm t'" and "ks_list t' = (ks_list t)(q := xs)" and "same_tree k t t'"
proof -
  let ?t = "fwk_kobject_del_name k (fwk_rm_inode (ko_inode (kobjs t k)) t)"
  let ?u = "?t\<lparr>ks_list := (ks_list t)(q := xs)\<rparr>"
  have f: "kobjs ?t = (kobjs t)(k := (kobjs t k)\<lparr>ko_name := 0\<rparr>)" "ks_list ?t = ks_list t" "kb_cpu ?t = kb_cpu t" "kb_strs ?t = kb_strs t"
    by (simp_all add: fwk_kobject_del_name_def fwk_rm_inode_def kb_kfree_def Let_def)
  have c: "calm ?t" "calm ?u" using assms(1) f by (auto simp: calm_def)
  have h: "(held k ?t)\<lparr>ks_list := (ks_list t)(q := xs)\<rparr> = held k ?u" by (cases ?t) (simp add: held_def upd_kobj_def)
  have "remove1 k (xs @ [k]) = xs" using assms(5) by (simp add: remove1_append)
  then have "fwk_kobject_detach_from_kset k ?t = Some ?u"
    using assms(2-4) f ko_acquire_calm [OF c(1)] ko_release_held_id [OF c(2)] h by (simp add: fwk_kobject_detach_from_kset_def)
  then have "fwk_kobject_del k t = Some (upd_kobj k (\<lambda>x. x\<lparr>ko_inode := 0\<rparr>) ?u)" by (simp add: fwk_kobject_del_def)
  then show thesis
    by (rule that) (use assms(1) f in \<open>auto simp: calm_def same_tree_def\<close>)
qed

lemma kobject_add_found:
  assumes "addable k q n a i s" and "isValid k" and "p \<noteq> 0" and "component n" and "\<not> named s q n"
    and "walk_dirs s sgrt_fwk_kset_root ds = Some q" and "\<forall>d \<in> set ds. component d" and "child s False q n = None"
  shows "\<exists>t t'. fwk_kobject_add k p (Some (n @ [0])) [] s = Some (ER_NORMAL, t) \<and>
     fwk_find_kobject_by_path 0 (path_of ds n) t = Some (k, t) \<and> kobj_inode_find (Some (path_of ds n)) t = Some (i, t) \<and>
     (\<forall>ds' f. resolve s sgrt_fwk_kset_root ds' f \<noteq> 0 \<longrightarrow> resolve t sgrt_fwk_kset_root ds' f = resolve s sgrt_fwk_kset_root ds' f) \<and>
     fwk_kobject_del k t = Some t' \<and> calm t' \<and> (\<forall>ds' f. resolve t' sgrt_fwk_kset_root ds' f = resolve s sgrt_fwk_kset_root ds' f)"
proof -
  note a = assms(1) [unfolded addable_def]
  have a0: "a \<noteq> 0" using a by (auto simp: isValid_def)
  obtain t where t: "fwk_kobject_add k p (Some (n @ [0])) [] s = Some (ER_NORMAL, t)"
    "kobjs t = (kobjs s)(k := (kobjs s k)\<lparr>ko_parent := p, ko_name := a, ko_inode := i\<rparr>)"
    "ks_list t = (ks_list s)(q := ks_list s q @ [k])" "kb_strs t = (kb_strs s)(a := n @ [0])" "kb_cpu t = kb_cpu s"
    using kobject_add_cases [OF assms(1,3)] assms(5) by simp
  have calm: "calm t" using a t(2,5) by (auto simp: calm_def)
  have st: "same_tree k s t" using a t(2,4) by (auto simp: same_tree_def)
  have cn: "cstr (n @ [0]) = n" using a by (simp add: literal_def cstr_append)
  have dirs: "child t True x c = child s True x c" for x c
    using child_append [OF st, of q True c] child_same_tree [OF st, of x True c] a t(2,3) by (cases "x = q") (auto split: option.splits)
  have "child t False q n = Some k" using child_append [OF st, of q False n] a t(2-4) a0 assms(8) cn by simp
  then have r: "resolve t sgrt_fwk_kset_root ds n = k"
    using walk_dirs_cong [of t s, OF dirs] assms(6) by (simp add: resolve_def)
  then have find: "fwk_find_kobject_by_path 0 (path_of ds n) t = Some (k, t)" using find_path_resolves [OF calm assms(7,4)] by simp
  have files: "child t False x c = Some j" if "child s False x c = Some j" for x c j
    using that child_append [OF st, of q False c] child_same_tree [OF st, of x False c] a t(3) by (cases "x = q") (auto split: option.splits)
  have keep: "resolve t sgrt_fwk_kset_root ds' f = resolve s sgrt_fwk_kset_root ds' f" if "resolve s sgrt_fwk_kset_root ds' f \<noteq> 0" for ds' f
    using that walk_dirs_cong [of t s, OF dirs] files by (auto simp: resolve_def split: option.splits bind_splits)
  obtain b r' where p: "path_of ds n = 47 # b # r'" using assms(7,4) by (rule path_of_starts)
  have ino: "kobj_inode_find (Some (path_of ds n)) t = Some (i, t)" using find p assms(2) t(2) by (simp add: kobj_inode_find_def)
  obtain t' where t': "fwk_kobject_del k t = Some t'" "calm t'" "ks_list t' = (ks_list t)(q := ks_list s q)" "same_tree k t t'"
    by (rule kobject_del_added [OF calm, of k q "ks_list s q"]) (use a t(2,3) in simp_all)
  have st': "same_tree k s t'" using st t'(4) by (auto simp: same_tree_def)
  have l: "ks_list t' = ks_list s" using t'(3) t(3) by simp
  have "child t' w x c = child s w x c" for w x c by (rule child_same_tree [OF st']) (use a l in simp_all)
  then have "resolve t' sgrt_fwk_kset_root ds' f = resolve s sgrt_fwk_kset_root ds' f" for ds' f by (rule resolve_cong)
  then show ?thesis using t(1) find ino keep t'(1,2) by blast
qed


text \<open>A path is found although nothing of that name exists, when its last component is the beginning of the name of a file: only as
  many characters are compared as the path has.  Opening \<^verbatim>\<open>/dev/st\<close> opens the first of \<^verbatim>\<open>stdin\<close>, \<^verbatim>\<open>stdout\<close>, \<^verbatim>\<open>stderr\<close>.\<close>

lemma path_prefix_matches:
  assumes "calm s" and "\<forall>d \<in> set ds. component d" and "component f" and "walk_dirs s sgrt_fwk_kset_root ds = Some q"
    and "k \<in> set (ks_list s q)" and "\<not> ko_is_dir (kobjs s k)" and "ko_name (kobjs s k) \<noteq> 0"
    and "cstr (kb_strs s (ko_name (kobjs s k))) = f @ g" and "\<not> named s q f" and "\<forall>e \<in> set (ks_list s q). e \<noteq> 0"
  shows "\<exists>e. fwk_find_kobject_by_path 0 (path_of ds f) s = Some (e, s) \<and> e \<in> set (ks_list s q) \<and> e \<noteq> 0 \<and>
     cstr (kb_strs s (ko_name (kobjs s e))) \<noteq> f"
proof -
  have "child s False q f \<noteq> None" using assms(5-8) by (auto simp: child_def find_None_iff intro!: exI [of _ k])
  then obtain e where e: "child s False q f = Some e" by blast
  then have m: "e \<in> set (ks_list s q)" by (auto simp: child_def find_Some_iff)
  have "resolve s sgrt_fwk_kset_root ds f = e" using assms(4) e by (simp add: resolve_def)
  then show ?thesis using find_path_resolves [OF assms(1-3)] m assms(9,10) by (auto simp: named_def)
qed

section \<open>Instances\<close>

text \<open>A root with the directory \<^verbatim>\<open>dev\<close> at 4096; the object at 8192 is to be added to it.\<close>

definition demo_kobjs :: kobj_sys where
  "demo_kobjs = \<lparr>kobjs = (\<lambda>_. zero_kobj)(sgrt_fwk_kset_root := zero_kobj\<lparr>ko_name := 16, ko_is_dir := True\<rparr>,
       4096 := zero_kobj\<lparr>ko_name := 32, ko_is_dir := True, ko_kset := sgrt_fwk_kset_root\<rparr>, 8192 := zero_kobj\<lparr>ko_kset := 4096\<rparr>),
     ks_list = (\<lambda>_. [])(sgrt_fwk_kset_root := [4096]), kb_strs = (\<lambda>_. [0])(16 := [47, 0], 32 := [100, 101, 118, 0]),
     kb_inodes = (\<lambda>_. \<lparr>in_name = 0, in_type = 0, in_dev = 0, in_kobj = 0\<rparr>), kb_pool = [65536, 69632], kb_freed = [],
     kb_cpu = \<lparr>cpsr = 0, g_sched_preempt_cnt = 0\<rparr>, kb_temp = (\<lambda>_. 0), kb_cnt = 0\<rparr>"

lemma demo_kobjs_facts:
  "calm demo_kobjs" "addable 8192 4096 [116, 116, 121] 65536 69632 demo_kobjs" "walk_dirs demo_kobjs sgrt_fwk_kset_root [[100, 101, 118]] = Some 4096"
  "\<not> named demo_kobjs 4096 [116, 116, 121]" "child demo_kobjs False 4096 [116, 116, 121] = None" "component [100, 101, 118]" "component [116, 116, 121]"
proof -
  have r: "sgrt_fwk_kset_root = 0x80600000" by (simp add: sgrt_fwk_kset_root_def)
  show c: "calm demo_kobjs" by (simp add: calm_def demo_kobjs_def zero_kobj_def spin_is_locked_def SPIN_LOCK_INIT_def)
  show "addable 8192 4096 [116, 116, 121] 65536 69632 demo_kobjs"
    using c by (simp add: addable_def demo_kobjs_def zero_kobj_def r literal_def isValid_def IS_ERR_def)
  show "walk_dirs demo_kobjs sgrt_fwk_kset_root [[100, 101, 118]] = Some 4096"
    by (simp add: child_def demo_kobjs_def zero_kobj_def r cstr_def)
  show "\<not> named demo_kobjs 4096 [116, 116, 121]" "child demo_kobjs False 4096 [116, 116, 121] = None"
    by (simp_all add: named_def child_def demo_kobjs_def r)
  show "component [100, 101, 118]" "component [116, 116, 121]" by (simp_all add: component_def)
qed

lemma path_lookup_resolves_witness:
  "fwk_find_kobject_by_path 0 [47, 100, 101, 118, 47, 116, 116, 121, 0] demo_kobjs = Some (0, demo_kobjs)"
  using path_lookup_resolves [OF demo_kobjs_facts(1), of "[[100, 101, 118]]" "[116, 116, 121]"] demo_kobjs_facts(3,5-7)
  by (simp add: path_of_def resolve_def)


lemma path_prefix_matches_witness:
  "\<exists>e. fwk_find_kobject_by_path 0 [47, 100, 101, 118, 47, 115, 116, 0]
     (demo_kobjs\<lparr>ks_list := (ks_list demo_kobjs)(4096 := [8192]),
        kobjs := (kobjs demo_kobjs)(8192 := zero_kobj\<lparr>ko_name := 48\<rparr>), kb_strs := (kb_strs demo_kobjs)(48 := STDIN_NAME)\<rparr>) =
     Some (e, demo_kobjs\<lparr>ks_list := (ks_list demo_kobjs)(4096 := [8192]),
        kobjs := (kobjs demo_kobjs)(8192 := zero_kobj\<lparr>ko_name := 48\<rparr>), kb_strs := (kb_strs demo_kobjs)(48 := STDIN_NAME)\<rparr>) \<and> e \<noteq> 0"
proof -
  let ?s = "demo_kobjs\<lparr>ks_list := (ks_list demo_kobjs)(4096 := [8192]),
        kobjs := (kobjs demo_kobjs)(8192 := zero_kobj\<lparr>ko_name := 48\<rparr>), kb_strs := (kb_strs demo_kobjs)(48 := STDIN_NAME)\<rparr>"
  have r: "sgrt_fwk_kset_root = 0x80600000" by (simp add: sgrt_fwk_kset_root_def)
  have c: "calm ?s" using demo_kobjs_facts(1) by (simp add: calm_def zero_kobj_def spin_is_locked_def SPIN_LOCK_INIT_def)
  have w: "walk_dirs ?s sgrt_fwk_kset_root [[100, 101, 118]] = Some 4096"
    by (simp add: child_def demo_kobjs_def zero_kobj_def r cstr_def)
  have k: "cstr (kb_strs ?s (ko_name (kobjs ?s 8192))) = [115, 116] @ [100, 105, 110]" "\<not> named ?s 4096 [115, 116]"
    by (simp_all add: STDIN_NAME_def cstr_def named_def)
  show ?thesis
    using path_prefix_matches [OF c _ _ w _ _ _ k] demo_kobjs_facts(6) by (auto simp: component_def path_of_def zero_kobj_def)
qed

end
