(* ===== verification/Device_Tree.thy ===== *)
theory Device_Tree
  imports Api_String "HOL-Library.Monad_Syntax"
begin

text \<open>
  Reading the device tree: the properties of a node (\<^verbatim>\<open>platform/of/fwk_of_prop.c\<close>), the search for nodes
  (\<^verbatim>\<open>platform/of/fwk_of.c\<close>) and the resources of a device (\<^verbatim>\<open>platform/of/fwk_of_device.c\<close>).

  Nodes are structures at addresses, all of them linked by \<^verbatim>\<open>allnext\<close>; the properties of a node are a list.  The value of a
  property is the memory from its first byte on, which may go on behind the length the property has.
  The length of a property is signed in the source, and kept here as its bit pattern.
  \<open>None\<close> is a read outside of that memory, a null dereference, or a walk that never ends.
\<close>

section \<open>Nodes\<close>

record of_property =
  op_name :: bytes
  op_length :: kuint32_t
  op_value :: bytes

record device_node =
  dn_name :: bytes
  dn_type :: bytes
  dn_phandle :: kuint32_t
  dn_full_name :: bytes
  dn_props :: "of_property list"
  dn_parent :: kuaddr_t
  dn_child :: kuaddr_t
  dn_sibling :: kuaddr_t
  dn_allnext :: kuaddr_t

record of_sys =
  of_nodes :: "kuaddr_t \<Rightarrow> device_node"
  sprt_fwk_of_allNodes :: kuaddr_t

definition lit :: "string \<Rightarrow> bytes" where
  "lit s = map (\<lambda>c. of_nat (of_char c)) s @ [0]"

text \<open>
  Numbers in the tree have their high byte first and the processor loads the low byte first, so every load is followed by the
  instruction \<^verbatim>\<open>rev\<close> (\<^verbatim>\<open>rev16\<close> for halfwords), which reverses the bytes of a register.
\<close>

definition api_reverse_byte32 :: "kuint32_t \<Rightarrow> kuint32_t" where
  "api_reverse_byte32 v =
     push_bit 24 v OR push_bit 8 (v AND 0xFF00) OR (drop_bit 8 v AND 0xFF00) OR drop_bit 24 v"

definition api_reverse_byte16 :: "kuint16_t \<Rightarrow> kuint16_t" where
  "api_reverse_byte16 v = push_bit 8 v OR drop_bit 8 v"

definition load32 :: "bytes \<Rightarrow> nat \<Rightarrow> kuint32_t option" where
  "load32 b i =
     (if i + 4 \<le> length b
      then Some (ucast (b ! i) OR push_bit 8 (ucast (b ! (i + 1))) OR push_bit 16 (ucast (b ! (i + 2))) OR push_bit 24 (ucast (b ! (i + 3))))
      else None)"

definition load16 :: "bytes \<Rightarrow> nat \<Rightarrow> kuint16_t option" where
  "load16 b i = (if i + 2 \<le> length b then Some (ucast (b ! i) OR push_bit 8 (ucast (b ! (i + 1)))) else None)"

definition be32 :: "bytes \<Rightarrow> nat \<Rightarrow> kuint32_t option" where
  "be32 b i = map_option api_reverse_byte32 (load32 b i)"

definition be16 :: "bytes \<Rightarrow> nat \<Rightarrow> kuint16_t option" where
  "be16 b i = map_option api_reverse_byte16 (load16 b i)"

definition byte_at :: "bytes \<Rightarrow> nat \<Rightarrow> kuint8_t option" where
  "byte_at b i = (if i < length b then Some (b ! i) else None)"

section \<open>Properties\<close>

definition fwk_of_find_property :: "kuaddr_t \<Rightarrow> bytes \<Rightarrow> of_sys \<Rightarrow> of_property option" where
  "fwk_of_find_property node nm s =
     find (\<lambda>p. cstr nm = cstr (op_name p)) (if isValid node then dn_props (of_nodes s node) else [])"

definition fwk_of_get_property :: "kuaddr_t \<Rightarrow> bytes \<Rightarrow> of_sys \<Rightarrow> (bytes \<times> kuint32_t) option" where
  "fwk_of_get_property node nm s = map_option (\<lambda>p. (op_value p, op_length p)) (fwk_of_find_property node nm s)"

text \<open>The three array readers differ in the width of an element; each returns the code and the elements it stores.\<close>

definition fwk_of_property_read_u8_array_index ::
  "kuaddr_t \<Rightarrow> bytes \<Rightarrow> kuint32_t \<Rightarrow> kuint32_t \<Rightarrow> of_sys \<Rightarrow> (int \<times> kuint8_t list) option" where
  "fwk_of_property_read_u8_array_index node nm index sz s =
     (case fwk_of_find_property node nm s of
        None \<Rightarrow> Some (- ER_FAULT, [])
      | Some p \<Rightarrow>
          let lenth = op_length p
          in if index \<ge> lenth \<or> sz = 0 then Some (- ER_FAULT, [])
             else let sz = (if index + sz \<ge> lenth then lenth else index + sz)
                  in map_option (Pair ER_NORMAL) (those (map (byte_at (op_value p)) [unat index..<unat sz])))"

definition fwk_of_property_read_u16_array_index ::
  "kuaddr_t \<Rightarrow> bytes \<Rightarrow> kuint32_t \<Rightarrow> kuint32_t \<Rightarrow> of_sys \<Rightarrow> (int \<times> kuint16_t list) option" where
  "fwk_of_property_read_u16_array_index node nm index sz s =
     (case fwk_of_find_property node nm s of
        None \<Rightarrow> Some (- ER_FAULT, [])
      | Some p \<Rightarrow>
          let lenth = signed_drop_bit 1 (op_length p)
          in if index \<ge> lenth \<or> sz = 0 then Some (- ER_FAULT, [])
             else let sz = (if index + sz \<ge> lenth then lenth else index + sz)
                  in map_option (Pair ER_NORMAL) (those (map (\<lambda>i. be16 (op_value p) (2 * i)) [unat index..<unat sz])))"

definition fwk_of_property_read_u32_array_index ::
  "kuaddr_t \<Rightarrow> bytes \<Rightarrow> kuint32_t \<Rightarrow> kuint32_t \<Rightarrow> of_sys \<Rightarrow> (int \<times> kuint32_t list) option" where
  "fwk_of_property_read_u32_array_index node nm index sz s =
     (case fwk_of_find_property node nm s of
        None \<Rightarrow> Some (- ER_FAULT, [])
      | Some p \<Rightarrow>
          let lenth = signed_drop_bit 2 (op_length p)
          in if index \<ge> lenth \<or> sz = 0 then Some (- ER_FAULT, [])
             else let sz = (if index + sz \<ge> lenth then lenth else index + sz)
                  in map_option (Pair ER_NORMAL) (those (map (\<lambda>i. be32 (op_value p) (4 * i)) [unat index..<unat sz])))"

definition fwk_of_property_read_u32_index :: "kuaddr_t \<Rightarrow> bytes \<Rightarrow> kuint32_t \<Rightarrow> of_sys \<Rightarrow> (int \<times> kuint32_t list) option" where
  "fwk_of_property_read_u32_index node nm index s = fwk_of_property_read_u32_array_index node nm index 1 s"

definition fwk_of_property_read_u8_array :: "kuaddr_t \<Rightarrow> bytes \<Rightarrow> kuint32_t \<Rightarrow> of_sys \<Rightarrow> (int \<times> kuint8_t list) option" where
  "fwk_of_property_read_u8_array node nm sz s = fwk_of_property_read_u8_array_index node nm 0 sz s"

definition fwk_of_property_read_u16_array :: "kuaddr_t \<Rightarrow> bytes \<Rightarrow> kuint32_t \<Rightarrow> of_sys \<Rightarrow> (int \<times> kuint16_t list) option" where
  "fwk_of_property_read_u16_array node nm sz s = fwk_of_property_read_u16_array_index node nm 0 sz s"

definition fwk_of_property_read_u32_array :: "kuaddr_t \<Rightarrow> bytes \<Rightarrow> kuint32_t \<Rightarrow> of_sys \<Rightarrow> (int \<times> kuint32_t list) option" where
  "fwk_of_property_read_u32_array node nm sz s = fwk_of_property_read_u32_array_index node nm 0 sz s"

definition fwk_of_property_read_u8 :: "kuaddr_t \<Rightarrow> bytes \<Rightarrow> of_sys \<Rightarrow> (int \<times> kuint8_t list) option" where
  "fwk_of_property_read_u8 node nm s = fwk_of_property_read_u8_array_index node nm 0 1 s"

definition fwk_of_property_read_u16 :: "kuaddr_t \<Rightarrow> bytes \<Rightarrow> of_sys \<Rightarrow> (int \<times> kuint16_t list) option" where
  "fwk_of_property_read_u16 node nm s = fwk_of_property_read_u16_array_index node nm 0 1 s"

definition fwk_of_property_read_u32 :: "kuaddr_t \<Rightarrow> bytes \<Rightarrow> of_sys \<Rightarrow> (int \<times> kuint32_t list) option" where
  "fwk_of_property_read_u32 node nm s = fwk_of_property_read_u32_array_index node nm 0 1 s"

text \<open>A string is the memory from its first byte on.\<close>

definition fwk_of_property_read_string :: "kuaddr_t \<Rightarrow> bytes \<Rightarrow> of_sys \<Rightarrow> int \<times> bytes option" where
  "fwk_of_property_read_string node nm s =
     (case fwk_of_find_property node nm s of None \<Rightarrow> (- ER_FAULT, None) | Some p \<Rightarrow> (ER_NORMAL, Some (op_value p)))"

text \<open>The loop over the strings of a value; the first argument counts the passes left.\<close>

fun string_index_loop :: "nat \<Rightarrow> of_property \<Rightarrow> bytes option \<Rightarrow> nat \<Rightarrow> (bytes option \<times> nat) option" where
  "string_index_loop 0 p ptr_value iTotalLenth = Some (ptr_value, iTotalLenth)"
| "string_index_loop (Suc k) p ptr_value iTotalLenth =
     (if iTotalLenth < unat (op_length p)
      then case ptr_value of
             None \<Rightarrow> string_index_loop k p (Some (op_value p)) iTotalLenth
           | Some b \<Rightarrow> do { n \<leftarrow> get_string_lenth b; string_index_loop k p (Some (drop (n + 1) b)) (iTotalLenth + (n + 1)) }
      else Some (ptr_value, iTotalLenth))"

definition fwk_of_property_read_string_index :: "kuaddr_t \<Rightarrow> bytes \<Rightarrow> kuint32_t \<Rightarrow> of_sys \<Rightarrow> (int \<times> bytes option) option" where
  "fwk_of_property_read_string_index node nm index s =
     (case fwk_of_find_property node nm s of
        None \<Rightarrow> Some (- ER_FAULT, None)
      | Some p \<Rightarrow>
          do { (ptr_value, iTotalLenth) \<leftarrow> string_index_loop (unat index + 1) p None 0;
               Some (if iTotalLenth \<ge> unat (op_length p) then (- ER_MORE, None) else (ER_NORMAL, ptr_value)) })"

partial_function (option) compat_loop :: "kuaddr_t \<Rightarrow> bytes \<Rightarrow> kuint32_t \<Rightarrow> of_sys \<Rightarrow> bool option" where
  "compat_loop node cmpt index s =
     (case fwk_of_property_read_string_index node (lit ''compatible'') index s of
        None \<Rightarrow> None
      | Some (r, info) \<Rightarrow>
          if r \<noteq> 0 then Some False
          else case info of
                 None \<Rightarrow> None
               | Some b \<Rightarrow> if cstr b = cstr cmpt then Some True else compat_loop node cmpt (index + 1) s)"

definition fwk_of_device_is_compatible :: "kuaddr_t \<Rightarrow> bytes \<Rightarrow> of_sys \<Rightarrow> bool option" where
  "fwk_of_device_is_compatible node cmpt s = compat_loop node cmpt 0 s"

fun match_string_loop :: "nat \<Rightarrow> bytes \<Rightarrow> nat \<Rightarrow> nat \<Rightarrow> bytes \<Rightarrow> int option" where
  "match_string_loop 0 str left_over idx match_name = Some (- ER_CHECKERR)"
| "match_string_loop (Suc k) str left_over idx match_name =
     (if left_over = 0 then Some (- ER_CHECKERR)
      else do { n \<leftarrow> get_string_lenth str;
                if n + 1 > left_over then Some (- ER_MORE)
                else if cstr str = cstr match_name then Some (int idx)
                else match_string_loop k (drop (n + 1) str) (left_over - (n + 1)) (idx + 1) match_name })"

text \<open>\<open>left_over\<close> is \<^verbatim>\<open>end - str\<close>; each pass takes at least one byte, so its first value bounds the number of passes.\<close>

definition fwk_of_property_match_string :: "kuaddr_t \<Rightarrow> bytes \<Rightarrow> bytes \<Rightarrow> of_sys \<Rightarrow> int option" where
  "fwk_of_property_match_string node list_name match_name s =
     (case fwk_of_find_property node list_name s of
        None \<Rightarrow> Some (- ER_NOTFOUND)
      | Some p \<Rightarrow>
          if op_length p = 0 then Some (- ER_NOTFOUND)
          else match_string_loop (unat (op_length p)) (op_value p) (unat (op_length p)) 0 match_name)"

section \<open>Searching for nodes\<close>

text \<open>A walk over the nodes from \<open>a\<close> to the first one that passes the test; 0 at the end.\<close>

partial_function (option) walk_all :: "(kuaddr_t \<Rightarrow> bool option) \<Rightarrow> kuaddr_t \<Rightarrow> of_sys \<Rightarrow> kuaddr_t option" where
  "walk_all P a s =
     (if a = 0 then Some 0
      else case P a of
             None \<Rightarrow> None
           | Some b \<Rightarrow> if b then Some a else walk_all P (dn_allnext (of_nodes s a)) s)"

definition walk_head :: "kuaddr_t \<Rightarrow> of_sys \<Rightarrow> kuaddr_t" where
  "walk_head from s = (if isValid from then from else sprt_fwk_of_allNodes s)"

definition fwk_of_find_node_by_path :: "bytes \<Rightarrow> of_sys \<Rightarrow> kuaddr_t option" where
  "fwk_of_find_node_by_path path s = walk_all (\<lambda>a. Some (cstr path = cstr (dn_full_name (of_nodes s a)))) (sprt_fwk_of_allNodes s) s"

definition fwk_of_find_node_by_name :: "kuaddr_t \<Rightarrow> bytes \<Rightarrow> of_sys \<Rightarrow> kuaddr_t option" where
  "fwk_of_find_node_by_name from nm s = walk_all (\<lambda>a. Some (cstr nm = cstr (dn_name (of_nodes s a)))) (walk_head from s) s"

definition fwk_of_find_node_by_type :: "kuaddr_t \<Rightarrow> bytes \<Rightarrow> of_sys \<Rightarrow> kuaddr_t option" where
  "fwk_of_find_node_by_type from type s = walk_all (\<lambda>a. Some (cstr type = cstr (dn_type (of_nodes s a)))) (walk_head from s) s"

definition fwk_of_find_node_by_phandle :: "kuaddr_t \<Rightarrow> kuint32_t \<Rightarrow> of_sys \<Rightarrow> kuaddr_t option" where
  "fwk_of_find_node_by_phandle from phandle s = walk_all (\<lambda>a. Some (phandle = dn_phandle (of_nodes s a))) (walk_head from s) s"

definition fwk_of_find_compatible_node :: "kuaddr_t \<Rightarrow> bytes option \<Rightarrow> bytes \<Rightarrow> of_sys \<Rightarrow> kuaddr_t option" where
  "fwk_of_find_compatible_node from type cmpt s =
     walk_all (\<lambda>a. case type of
                     Some t \<Rightarrow> if cstr t \<noteq> cstr (dn_type (of_nodes s a)) then Some False else fwk_of_device_is_compatible a cmpt s
                   | None \<Rightarrow> fwk_of_device_is_compatible a cmpt s) (walk_head from s) s"

text \<open>A table of compatible strings; the entry that matches is given by its position.\<close>

fun match_entries :: "nat \<Rightarrow> bytes list \<Rightarrow> kuaddr_t \<Rightarrow> of_sys \<Rightarrow> nat option option" where
  "match_entries i [] node s = Some None"
| "match_entries i (c # cs) node s =
     (case fwk_of_device_is_compatible node c s of
        None \<Rightarrow> None
      | Some b \<Rightarrow> if b then Some (Some i) else match_entries (Suc i) cs node s)"

definition fwk_of_match_node :: "bytes list \<Rightarrow> kuaddr_t \<Rightarrow> of_sys \<Rightarrow> nat option option" where
  "fwk_of_match_node matches node s = match_entries 0 matches node s"

definition fwk_of_node_try_matches :: "kuaddr_t \<Rightarrow> bytes list \<Rightarrow> of_sys \<Rightarrow> (kuaddr_t \<times> nat option) option" where
  "fwk_of_node_try_matches node matches s =
     (if \<not> isValid node then Some (0, None)
      else map_option (\<lambda>m. (if m = None then 0 else node, m)) (match_entries 0 matches node s))"

partial_function (option) matching_loop :: "kuaddr_t \<Rightarrow> bytes list \<Rightarrow> of_sys \<Rightarrow> (kuaddr_t \<times> nat option) option" where
  "matching_loop node matches s =
     (if \<not> isValid node then Some (0, None)
      else case fwk_of_node_try_matches node matches s of
             None \<Rightarrow> None
           | Some (n, m) \<Rightarrow> if node = n then Some (node, m) else matching_loop (dn_allnext (of_nodes s node)) matches s)"

definition fwk_of_find_matching_node_and_match :: "kuaddr_t \<Rightarrow> bytes list \<Rightarrow> of_sys \<Rightarrow> (kuaddr_t \<times> nat option) option" where
  "fwk_of_find_matching_node_and_match from matches s = matching_loop (walk_head from s) matches s"

definition fwk_of_get_parent :: "kuaddr_t \<Rightarrow> of_sys \<Rightarrow> kuaddr_t" where
  "fwk_of_get_parent node s = (if isValid node then dn_parent (of_nodes s node) else 0)"

definition fwk_of_get_next_child :: "kuaddr_t \<Rightarrow> kuaddr_t \<Rightarrow> of_sys \<Rightarrow> kuaddr_t" where
  "fwk_of_get_next_child node prev s =
     (if \<not> isValid node then 0 else if prev \<noteq> 0 then dn_sibling (of_nodes s prev) else dn_child (of_nodes s node))"

partial_function (option) child_count_loop :: "kuaddr_t \<Rightarrow> kuaddr_t \<Rightarrow> kuint32_t \<Rightarrow> of_sys \<Rightarrow> kuint32_t option" where
  "child_count_loop node c num s =
     (if c = 0 then Some num else child_count_loop node (fwk_of_get_next_child node c s) (num + 1) s)"

definition fwk_of_get_child_count :: "kuaddr_t \<Rightarrow> of_sys \<Rightarrow> kuint32_t option" where
  "fwk_of_get_child_count node s = (if \<not> isValid node then Some 0 else child_count_loop node (fwk_of_get_next_child node 0 s) 0 s)"

definition fwk_of_device_is_avaliable :: "kuaddr_t \<Rightarrow> of_sys \<Rightarrow> bool" where
  "fwk_of_device_is_avaliable node s =
     (case fwk_of_get_property node (lit ''status'') s of
        None \<Rightarrow> True
      | Some (v, _) \<Rightarrow> if cstr v = cstr (lit ''ok'') \<or> cstr v = cstr (lit ''okay'') then True else False)"

section \<open>Cells and interrupts\<close>

text \<open>Both cell counts are looked for from the node up to the root.\<close>

partial_function (option) cells_loop :: "bytes \<Rightarrow> kuaddr_t \<Rightarrow> of_sys \<Rightarrow> kuint32_t option" where
  "cells_loop nm np s =
     (if \<not> isValid np then Some 0
      else case fwk_of_property_read_u32 np nm s of
             None \<Rightarrow> None
           | Some (r, vs) \<Rightarrow> if r = 0 then Some (vs ! 0) else cells_loop nm (dn_parent (of_nodes s np)) s)"

definition fwk_of_n_size_cells :: "kuaddr_t \<Rightarrow> of_sys \<Rightarrow> kuint32_t option" where
  "fwk_of_n_size_cells node s = cells_loop (lit ''#size-cells'') node s"

definition fwk_of_n_addr_cells :: "kuaddr_t \<Rightarrow> of_sys \<Rightarrow> kuint32_t option" where
  "fwk_of_n_addr_cells node s = cells_loop (lit ''#address-cells'') node s"

text \<open>
  One attempt to follow a reference to the interrupt controller: the node the name leads to and whether the search goes on from
  there at once.  A reference that leads nowhere leaves the null pointer behind.
\<close>

definition follow_handle :: "kuaddr_t \<Rightarrow> bytes \<Rightarrow> kuaddr_t \<Rightarrow> of_sys \<Rightarrow> (kuaddr_t \<times> bool) option" where
  "follow_handle root nm np s =
     (case fwk_of_property_read_u32 np nm s of
        None \<Rightarrow> None
      | Some (r, vs) \<Rightarrow>
          if r \<noteq> 0 then Some (np, False)
          else do { n \<leftarrow> fwk_of_find_node_by_phandle root (vs ! 0) s; Some (n, isValid n) })"

definition irq_parent_step :: "kuaddr_t \<Rightarrow> kuaddr_t \<Rightarrow> of_sys \<Rightarrow> kuaddr_t option" where
  "irq_parent_step root np s =
     do { (np, found) \<leftarrow> follow_handle root (lit ''interrupt-parent'') np s;
          if found then Some np
          else do {
            (np, found) \<leftarrow> follow_handle root (lit ''interrupt-extended'') np s;
            if found then Some np
            else if np = 0 then None else Some (dn_parent (of_nodes s np)) } }"

partial_function (option) irq_parent_loop :: "kuaddr_t \<Rightarrow> kuaddr_t \<Rightarrow> of_sys \<Rightarrow> kuaddr_t option" where
  "irq_parent_loop root np s =
     (if \<not> isValid np then Some np
      else case irq_parent_step root np s of
             None \<Rightarrow> None
           | Some np \<Rightarrow>
               if isValid np \<and> fwk_of_find_property np (lit ''#interrupt-cells'') s \<noteq> None then Some np
               else irq_parent_loop root np s)"

definition fwk_of_irq_parent :: "kuaddr_t \<Rightarrow> of_sys \<Rightarrow> kuaddr_t option" where
  "fwk_of_irq_parent node s = do { root \<leftarrow> fwk_of_find_node_by_path (lit ''/'') s; irq_parent_loop root node s }"

definition fwk_of_n_irq_cells :: "kuaddr_t \<Rightarrow> of_sys \<Rightarrow> kuint32_t option" where
  "fwk_of_n_irq_cells node s =
     do { np \<leftarrow> fwk_of_irq_parent node s;
          if \<not> isValid np then Some 0
          else do { (r, vs) \<leftarrow> fwk_of_property_read_u32 np (lit ''#interrupt-cells'') s;
                    Some (if r = 0 then vs ! 0 else 0) } }"

partial_function (option) irq_count_loop :: "kuaddr_t \<Rightarrow> kuint32_t \<Rightarrow> kuint32_t \<Rightarrow> of_sys \<Rightarrow> kuint32_t option" where
  "irq_count_loop node cells n s =
     (case fwk_of_property_read_u32_index node (lit ''interrupts'') (n * cells) s of
        None \<Rightarrow> None
      | Some (r, vs) \<Rightarrow> if r \<noteq> 0 then Some n else irq_count_loop node cells (n + 1) s)"

definition fwk_of_irq_count :: "kuaddr_t \<Rightarrow> of_sys \<Rightarrow> kuint32_t option" where
  "fwk_of_irq_count node s =
     do { cells \<leftarrow> fwk_of_n_irq_cells node s;
          if cells = 0 then Some 0 else irq_count_loop node cells 0 s }"

text \<open>Specifiers: the arguments that follow a reference.  The buffer for them has \<^verbatim>\<open>FWK_OF_MAX_PHANDLE_ARGS\<close> words.\<close>

definition FWK_OF_MAX_PHANDLE_ARGS :: nat where
  "FWK_OF_MAX_PHANDLE_ARGS = 16"

text \<open>
  The number of cells after a reference to \<open>np\<close>: an error code, or the count.
\<close>

definition specifier_cells :: "bytes option \<Rightarrow> kuint32_t \<Rightarrow> kuaddr_t \<Rightarrow> of_sys \<Rightarrow> (int + kuint32_t) option" where
  "specifier_cells cells_name cell_count np s =
     do { c \<leftarrow> (case cells_name of
                   None \<Rightarrow> Some (Inr cell_count)
                 | Some nm \<Rightarrow> do { (r, vs) \<leftarrow> fwk_of_property_read_u32 np nm s;
                                   Some (if r \<noteq> 0 then Inl (- ER_EMPTY) else Inr (vs ! 0)) });
          Some (case c of Inl e \<Rightarrow> Inl e | Inr cells \<Rightarrow> if cells = 0 then Inl (- ER_CHECKERR) else Inr cells) }"

text \<open>
  The loop over the value: \<open>pos\<close> and \<open>cnt\<close> are \<^verbatim>\<open>ptr_value\<close> and \<^verbatim>\<open>ptr_end\<close>, counted in words from the start of the value.
\<close>

function phandle_loop :: "bytes \<Rightarrow> bytes option \<Rightarrow> kuint32_t \<Rightarrow> nat \<Rightarrow> nat \<Rightarrow> nat \<Rightarrow> nat \<Rightarrow> of_sys \<Rightarrow>
    (int \<times> (kuaddr_t \<times> kuint32_t list) option) option" where
  "phandle_loop v cells_name cell_count pos cnt cur index s =
     (if pos < cnt
      then do {
        phandle \<leftarrow> be32 v (4 * pos);
        np \<leftarrow> fwk_of_find_node_by_phandle 0 phandle s;
        if np = 0 then Some (- ER_NOTFOUND, None)
        else do {
          c \<leftarrow> specifier_cells cells_name cell_count np s;
          case c of
            Inl e \<Rightarrow> Some (e, None)
          | Inr cells \<Rightarrow>
              if pos + 1 + unat cells > cnt then Some (- ER_MORE, None)
              else if cur = index
              then if unat cells > FWK_OF_MAX_PHANDLE_ARGS then None
                   else do { args \<leftarrow> those (map (\<lambda>i. be32 v (4 * i)) [pos + 1..<pos + 1 + unat cells]);
                             Some (ER_NORMAL, Some (np, args)) }
              else phandle_loop v cells_name cell_count (pos + 1 + unat cells) cnt (cur + 1) index s } }
      else Some (- ER_ERROR, None))"
  by pat_completeness auto
termination by (relation "measure (\<lambda>(v, cn, cc, pos, cnt, cur, index, s). cnt - pos)") auto

declare phandle_loop.simps [simp del]

definition fwk_of_parse_phandle_with_args ::
  "kuaddr_t \<Rightarrow> bytes \<Rightarrow> bytes option \<Rightarrow> kuint32_t \<Rightarrow> int \<Rightarrow> of_sys \<Rightarrow> (int \<times> (kuaddr_t \<times> kuint32_t list) option) option" where
  "fwk_of_parse_phandle_with_args node list_name cells_name cell_count index s =
     (if node = 0 \<or> index < 0 then Some (- ER_NODEV, None)
      else case fwk_of_get_property node list_name s of
             None \<Rightarrow> Some (- ER_NOTFOUND, None)
           | Some (v, sz) \<Rightarrow>
               if sz = 0 then Some (- ER_NOTFOUND, None)
               else phandle_loop v cells_name cell_count 0 (unat sz div 4) 0 (nat index) s)"

section \<open>Names\<close>

text \<open>The number at the end of an alias: every character that is no digit starts it again.\<close>

definition is_digit :: "kuint8_t \<Rightarrow> bool" where
  "is_digit ch \<longleftrightarrow> 48 \<le> ch \<and> ch \<le> 57"

definition alias_digit :: "kuint32_t \<Rightarrow> kuint8_t \<Rightarrow> kuint32_t" where
  "alias_digit n ch = (let n = push_bit 1 n + push_bit 3 n in if is_digit ch then n + (ucast ch - 48) else 0)"

definition fwk_of_get_alias_id :: "kuaddr_t \<Rightarrow> of_sys \<Rightarrow> int option" where
  "fwk_of_get_alias_id node s =
     do { al \<leftarrow> fwk_of_find_node_by_name 0 (lit ''aliases'') s;
          Some (if al = 0 then - 1
                else case find (\<lambda>p. cstr (dn_full_name (of_nodes s node)) = cstr (op_value p)) (dn_props (of_nodes s al)) of
                       None \<Rightarrow> - 1
                     | Some p \<Rightarrow>
                         let nm = cstr (op_name p)
                         in if nm = [] then - 1
                            else if \<not> is_digit (last nm) then - 1
                            else sint (foldl alias_digit 0 nm)) }"

text \<open>The compatible string after the comma, copied to a buffer of \<open>n\<close> bytes.\<close>

definition fwk_of_modalias_node :: "kuaddr_t \<Rightarrow> bytes \<Rightarrow> nat \<Rightarrow> of_sys \<Rightarrow> (int \<times> bytes) option" where
  "fwk_of_modalias_node node modalias n s =
     (case fwk_of_get_property node (lit ''compatible'') s of
        None \<Rightarrow> Some (- ER_CHECKERR, modalias)
      | Some (c, cplen) \<Rightarrow>
          do { l \<leftarrow> get_string_lenth c;
               if l > unat cplen then Some (- ER_CHECKERR, modalias)
               else do { p \<leftarrow> seek_char_in_string c 44;
                         (_, m) \<leftarrow> do_string_n_copy_safe modalias (case p of Some q \<Rightarrow> drop 1 q | None \<Rightarrow> c) n;
                         Some (ER_NORMAL, m) } })"

section \<open>Resources\<close>

definition NR_DEVICE_RESOURCE_MEM :: kuint32_t where
  "NR_DEVICE_RESOURCE_MEM = 0x200"

definition NR_DEVICE_RESOURCE_IRQ :: kuint32_t where
  "NR_DEVICE_RESOURCE_IRQ = 0x400"

record fwk_resources =
  rs_name :: bytes
  rs_start :: kuaddr_t
  rs_end :: kuaddr_t
  rs_type :: kuint32_t

text \<open>The name of the \<open>index\<close>-th resource in the list of names, or the name of the node.\<close>

definition resource_name :: "bytes \<Rightarrow> kuaddr_t \<Rightarrow> kuint32_t \<Rightarrow> of_sys \<Rightarrow> bytes option" where
  "resource_name nm node index s =
     do { (r, str) \<leftarrow> fwk_of_property_read_string_index node nm index s;
          if r \<noteq> 0 then Some (dn_full_name (of_nodes s node)) else str }"

definition fwk_of_address_to_resource :: "kuaddr_t \<Rightarrow> kuint32_t \<Rightarrow> fwk_resources \<Rightarrow> of_sys \<Rightarrow> (int \<times> fwk_resources) option" where
  "fwk_of_address_to_resource node index res s =
     do { cells_of_addr \<leftarrow> fwk_of_n_addr_cells node s;
          cells_of_size \<leftarrow> fwk_of_n_size_cells node s;
          if 1 < cells_of_addr \<or> 1 < cells_of_size then Some (- ER_UNVALID, res)
          else do {
            (r, address) \<leftarrow> fwk_of_property_read_u32_index node (lit ''reg'') (push_bit 1 index) s;
            if r \<noteq> 0 then Some (- ER_FAULT, res)
            else do {
              (r, sz) \<leftarrow> fwk_of_property_read_u32_index node (lit ''reg'') (push_bit 1 index + 1) s;
              if r \<noteq> 0 then Some (- ER_FAULT, res)
              else do {
                nm \<leftarrow> resource_name (lit ''reg-names'') node index s;
                Some (ER_NORMAL, res\<lparr>rs_name := nm, rs_start := address ! 0, rs_end := address ! 0 + sz ! 0 - 1,
                                     rs_type := rs_type res OR NR_DEVICE_RESOURCE_MEM\<rparr>) } } } }"

text \<open>The platform device's table of resources is the list of them; its length is \<^verbatim>\<open>num_resources\<close>.\<close>

fun pick_resource :: "kuint32_t \<Rightarrow> kuint32_t \<Rightarrow> kuint32_t \<Rightarrow> fwk_resources list \<Rightarrow> fwk_resources option" where
  "pick_resource type index cnt [] = None"
| "pick_resource type index cnt (r # rs) =
     (let cnt = cnt + (if type AND rs_type r \<noteq> 0 then 1 else 0)
      in if cnt > index then Some r else pick_resource type index cnt rs)"

definition fwk_platform_get_resources :: "fwk_resources list \<Rightarrow> kuint32_t \<Rightarrow> kuint32_t \<Rightarrow> fwk_resources option" where
  "fwk_platform_get_resources rs index type =
     (if unat index > length rs then None else pick_resource type index 0 rs)"

definition fwk_platform_get_address :: "fwk_resources list \<Rightarrow> kuint32_t \<Rightarrow> kuaddr_t" where
  "fwk_platform_get_address rs index =
     (case fwk_platform_get_resources rs index NR_DEVICE_RESOURCE_MEM of Some r \<Rightarrow> rs_start r | None \<Rightarrow> 0)"

definition fwk_platform_get_irq :: "fwk_resources list \<Rightarrow> kuint32_t \<Rightarrow> int" where
  "fwk_platform_get_irq rs index =
     (case fwk_platform_get_resources rs index NR_DEVICE_RESOURCE_IRQ of Some r \<Rightarrow> sint (rs_start r) | None \<Rightarrow> - 1)"

definition fwk_resource_size :: "fwk_resources option \<Rightarrow> kuint32_t" where
  "fwk_resource_size res = (case res of Some r \<Rightarrow> rs_end r - rs_start r + 1 | None \<Rightarrow> 0)"

definition fwk_address_map :: "fwk_resources option \<Rightarrow> kuaddr_t" where
  "fwk_address_map res = (case res of Some r \<Rightarrow> rs_start r | None \<Rightarrow> 0)"

text \<open>\<open>res\<close> is what the stack holds where the local structure is.\<close>

definition fwk_of_iomap :: "fwk_resources \<Rightarrow> kuaddr_t \<Rightarrow> kuint32_t \<Rightarrow> of_sys \<Rightarrow> kuaddr_t option" where
  "fwk_of_iomap res node index s =
     do { (r, res) \<leftarrow> fwk_of_address_to_resource node index res s;
          Some (if r \<noteq> 0 then 0 else fwk_address_map (Some res)) }"

section \<open>Walking the list of nodes\<close>

fun node_chain :: "of_sys \<Rightarrow> kuaddr_t \<Rightarrow> kuaddr_t list \<Rightarrow> bool" where
  "node_chain s a [] \<longleftrightarrow> a = 0"
| "node_chain s a (n # ns) \<longleftrightarrow> a = n \<and> isValid n \<and> node_chain s (dn_allnext (of_nodes s n)) ns"

lemma node_chain_nonnull: "node_chain s a ns \<Longrightarrow> n \<in> set ns \<Longrightarrow> n \<noteq> 0"
  by (induction ns arbitrary: a) (auto simp: isValid_def)

definition node_or_null :: "kuaddr_t option \<Rightarrow> kuaddr_t" where
  "node_or_null x = (case x of None \<Rightarrow> 0 | Some n \<Rightarrow> n)"

lemma node_or_null_simps [simp]: "node_or_null None = 0" "node_or_null (Some n) = n"
  by (simp_all add: node_or_null_def)

lemma walk_all_chain:
  assumes "node_chain s a ns" and "\<forall>n \<in> set ns. P n = Some (Q n)"
  shows "walk_all P a s = Some (node_or_null (find Q ns))"
  using assms
proof (induction ns arbitrary: a)
  case Nil
  then show ?case by (simp add: walk_all.simps)
next
  case (Cons n ns)
  then show ?case by (subst walk_all.simps) (simp add: isValid_def)
qed

lemma find_by_phandle_chain:
  assumes "node_chain s (sprt_fwk_of_allNodes s) ns"
  shows "fwk_of_find_node_by_phandle 0 h s = Some (node_or_null (find (\<lambda>n. h = dn_phandle (of_nodes s n)) ns))"
  unfolding fwk_of_find_node_by_phandle_def walk_head_def using walk_all_chain [OF assms] by (simp add: isValid_def)

lemma find_by_path_chain:
  assumes "node_chain s (sprt_fwk_of_allNodes s) ns"
  shows "fwk_of_find_node_by_path p s = Some (node_or_null (find (\<lambda>n. cstr p = cstr (dn_full_name (of_nodes s n))) ns))"
  unfolding fwk_of_find_node_by_path_def using walk_all_chain [OF assms] by simp

lemma find_by_name_chain:
  assumes "node_chain s (sprt_fwk_of_allNodes s) ns"
  shows "fwk_of_find_node_by_name 0 p s = Some (node_or_null (find (\<lambda>n. cstr p = cstr (dn_name (of_nodes s n))) ns))"
  unfolding fwk_of_find_node_by_name_def walk_head_def using walk_all_chain [OF assms] by (simp add: isValid_def)

section \<open>Numbers in a property\<close>

text \<open>The value a list of numbers is stored as, and properties that hold such a list.\<close>

definition be_bytes32 :: "kuint32_t \<Rightarrow> bytes" where
  "be_bytes32 v = [ucast (drop_bit 24 v), ucast (drop_bit 16 v), ucast (drop_bit 8 v), ucast v]"

definition holds_cells :: "of_property \<Rightarrow> kuint32_t list \<Rightarrow> bool" where
  "holds_cells p vs \<longleftrightarrow>
     (\<exists>rest. op_value p = concat (map be_bytes32 vs) @ rest) \<and> 4 * length vs < 2 ^ 31 \<and> op_length p = of_nat (4 * length vs)"

lemma mask_ff00: "(0xFF00 :: kuint32_t) = push_bit 8 (mask 8)"
  by (simp add: mask_eq_exp_minus_1 push_bit_eq_mult)

lemma bit_high32: "bit (v :: 32 word) n \<Longrightarrow> n < 32"
  using bit_imp_le_length by fastforce

lemma bit_high8: "bit (v :: 8 word) n \<Longrightarrow> n < 8"
  using bit_imp_le_length by fastforce

lemma bit_reverse32:
  "n < 32 \<Longrightarrow> bit (api_reverse_byte32 v) n \<longleftrightarrow>
     (if n < 8 then bit v (n + 24) else if n < 16 then bit v (n + 8) else if n < 24 then bit v (n - 8) else bit v (n - 24))"
  unfolding api_reverse_byte32_def mask_ff00 by (auto simp: bit_simps ac_simps dest: bit_high32)

lemma bit_load32:
  fixes a b c d :: kuint8_t
  assumes "n < 32"
  shows "bit (ucast a OR push_bit 8 (ucast b) OR push_bit 16 (ucast c) OR push_bit 24 (ucast d) :: kuint32_t) n \<longleftrightarrow>
     (if n < 8 then bit a n else if n < 16 then bit b (n - 8) else if n < 24 then bit c (n - 16) else bit d (n - 24))"
  using assms by (auto simp: bit_simps dest: bit_high8)

lemma reverse_load32:
  "api_reverse_byte32 (ucast (ucast (drop_bit 24 v) :: 8 word) OR push_bit 8 (ucast (ucast (drop_bit 16 v) :: 8 word))
      OR push_bit 16 (ucast (ucast (drop_bit 8 v) :: 8 word)) OR push_bit 24 (ucast (ucast v :: 8 word))) = v" (is "?l = _")
proof (rule bit_word_eqI)
  fix n :: nat assume n: "n < LENGTH(32)"
  consider "n < 8" | "8 \<le> n" "n < 16" | "16 \<le> n" "n < 24" | "24 \<le> n" "n < 32" using n by fastforce
  then show "bit ?l n \<longleftrightarrow> bit v n"
    by cases (simp_all add: bit_reverse32 bit_load32, auto simp: bit_simps)
qed

lemma be_bytes32_length [simp]: "length (be_bytes32 v) = 4"
  by (simp add: be_bytes32_def)

lemma be32_be_bytes32: "be32 (be_bytes32 v @ r) 0 = Some v"
  by (simp add: be32_def load32_def be_bytes32_def reverse_load32)

lemma be32_drop: "be32 (a @ b) (length a + i) = be32 b i"
  by (simp add: be32_def load32_def nth_append)

lemma be32_cells: "i < length vs \<Longrightarrow> be32 (concat (map be_bytes32 vs) @ r) (4 * i) = Some (vs ! i)"
proof (induction vs arbitrary: i)
  case (Cons v vs)
  show ?case
  proof (cases i)
    case 0
    then show ?thesis using be32_be_bytes32 [of v "concat (map be_bytes32 vs) @ r"] by simp
  next
    case (Suc j)
    then show ?thesis
      using Cons be32_drop [of "be_bytes32 v" "concat (map be_bytes32 vs) @ r" "4 * j"] by simp
  qed
qed simp

lemma those_Some: "(\<forall>x \<in> set xs. f x = Some (g x)) \<Longrightarrow> those (map f xs) = Some (map g xs)"
  by (induction xs) auto

lemma holds_cells_be32: "holds_cells p vs \<Longrightarrow> i < length vs \<Longrightarrow> be32 (op_value p) (4 * i) = Some (vs ! i)"
  by (auto simp: holds_cells_def be32_cells)

lemma holds_cells_length:
  assumes "holds_cells p vs"
  shows "unat (op_length p) = 4 * length vs" and "unat (signed_drop_bit 2 (op_length p)) = length vs"
proof -
  let ?n = "4 * length vs"
  have n: "?n < 2 ^ 31" "op_length p = of_nat ?n" using assms by (simp_all add: holds_cells_def)
  show u: "unat (op_length p) = ?n" unfolding n(2) using n(1) by (intro unat_of_nat_small) simp
  have "signed_drop_bit 2 (op_length p) = drop_bit 2 (op_length p)"
  proof (rule bit_word_eqI)
    fix k :: nat assume k: "k < LENGTH(32)"
    have "bit (unat (op_length p)) 31 \<longleftrightarrow> bit (op_length p) 31" by (simp add: bit_unsigned_iff)
    then have "\<not> bit (op_length p) 31" using u n(1) by (simp add: bit_iff_odd)
    moreover have "\<not> bit (op_length p) (2 + k)" if "30 \<le> k" using bit_high32 [of "op_length p" "2 + k"] that by auto
    ultimately show "bit (signed_drop_bit 2 (op_length p)) k \<longleftrightarrow> bit (drop_bit 2 (op_length p)) k"
      using k by (cases "30 \<le> k") (simp_all add: bit_signed_drop_bit_iff bit_drop_bit_eq)
  qed
  then show "unat (signed_drop_bit 2 (op_length p)) = length vs"
    using u by (simp add: drop_bit_eq_div unat_div)
qed

lemma read_u32_array_cells:
  assumes "fwk_of_find_property node nm s = Some p" and "holds_cells p vs" and "sz \<noteq> 0"
    and "unat index + unat sz < 2 ^ 32 \<or> length vs \<le> unat index"
  shows "fwk_of_property_read_u32_array_index node nm index sz s =
     Some (if unat index < length vs then (ER_NORMAL, take (unat sz) (drop (unat index) vs)) else (- ER_FAULT, []))"
proof (cases "unat index < length vs")
  case True
  let ?lenth = "signed_drop_bit 2 (op_length p)"
  let ?sz = "if index + sz \<ge> ?lenth then ?lenth else index + sz"
  note l = holds_cells_length [OF assms(2)]
  have u: "unat (index + sz) = unat index + unat sz" using assms(4) True by (intro unat_add_small) auto
  then have sz: "unat ?sz = min (unat index + unat sz) (length vs)"
    using l(2) by (auto simp: word_le_nat_alt)
  have "those (map (\<lambda>i. be32 (op_value p) (4 * i)) [unat index..<unat ?sz]) = Some (map ((!) vs) [unat index..<unat ?sz])"
    using holds_cells_be32 [OF assms(2)] sz by (intro those_Some) auto
  moreover have "map ((!) vs) [unat index..<unat ?sz] = take (unat sz) (drop (unat index) vs)"
    unfolding sz by (rule nth_equalityI) (auto simp: min_def split: if_splits)
  moreover have "\<not> index \<ge> ?lenth" using True l(2) by (simp add: word_le_nat_alt)
  ultimately show ?thesis
    using True assms(1,3) by (simp only: fwk_of_property_read_u32_array_index_def Let_def option.case) simp
next
  case False
  then have "index \<ge> signed_drop_bit 2 (op_length p)" using holds_cells_length(2) [OF assms(2)] by (simp add: word_le_nat_alt)
  then show ?thesis using False assms(1) by (simp add: fwk_of_property_read_u32_array_index_def Let_def)
qed

lemma read_u32_index_cells:
  assumes "fwk_of_find_property node nm s = Some p" and "holds_cells p vs"
  shows "fwk_of_property_read_u32_index node nm index s =
     Some (if unat index < length vs then (ER_NORMAL, [vs ! unat index]) else (- ER_FAULT, []))"
proof -
  have "unat index + unat (1 :: kuint32_t) < 2 ^ 32 \<or> length vs \<le> unat index"
    using assms(2) by (auto simp: holds_cells_def)
  then show ?thesis
    using read_u32_array_cells [OF assms, of 1 index]
    by (simp add: fwk_of_property_read_u32_index_def take_Suc_conv_app_nth hd_drop_conv_nth)
qed

lemma read_u32_cells:
  assumes "fwk_of_find_property node nm s = Some p" and "holds_cells p (v # vs)"
  shows "fwk_of_property_read_u32 node nm s = Some (ER_NORMAL, [v])"
  using read_u32_index_cells [OF assms, of 0]
  by (simp add: fwk_of_property_read_u32_def fwk_of_property_read_u32_index_def)

lemma read_u32_absent:
  "fwk_of_find_property node nm s = None \<Longrightarrow> fwk_of_property_read_u32 node nm s = Some (- ER_FAULT, [])"
  by (simp add: fwk_of_property_read_u32_def fwk_of_property_read_u32_array_index_def)

section \<open>Strings in a property\<close>

definition str_list :: "bytes list \<Rightarrow> bytes" where
  "str_list ws = concat (map (\<lambda>w. w @ [0]) ws)"

definition holds_strings :: "of_property \<Rightarrow> bytes list \<Rightarrow> bool" where
  "holds_strings p ws \<longleftrightarrow>
     (\<exists>rest. op_value p = str_list ws @ rest) \<and> (\<forall>w \<in> set ws. 0 \<notin> set w) \<and>
     length (str_list ws) < 2 ^ 32 \<and> op_length p = of_nat (length (str_list ws))"

lemma str_list_simps [simp]: "str_list [] = []" "str_list (w # ws) = w @ 0 # str_list ws"
  "str_list (vs @ ws) = str_list vs @ str_list ws"
  by (simp_all add: str_list_def)

lemma cstr_terminated: "0 \<notin> set w \<Longrightarrow> cstr (w @ 0 # r) = w"
  by (simp add: cstr_def takeWhile_append)

lemma holds_strings_length: "holds_strings p ws \<Longrightarrow> unat (op_length p) = length (str_list ws)"
  unfolding holds_strings_def using unat_of_nat_small by auto

lemma str_list_length_le: "length ws \<le> length (str_list ws)"
  by (induction ws) auto

lemma string_index_loop_strings:
  assumes "holds_strings p (us @ vs)" and "op_value p = str_list (us @ vs) @ rest"
  shows "string_index_loop k p (Some (str_list vs @ rest)) (length (str_list us)) =
     Some (Some (str_list (drop k vs) @ rest), length (str_list (us @ take k vs)))"
  using assms
proof (induction k arbitrary: us vs)
  case (Suc k)
  show ?case
  proof (cases vs)
    case Nil
    then show ?thesis using Suc.prems holds_strings_length [OF Suc.prems(1)] by simp
  next
    case (Cons w ws)
    have "0 \<notin> set w" using Suc.prems(1) Cons by (simp add: holds_strings_def)
    then have "get_string_lenth (w @ 0 # str_list ws @ rest) = Some (length w)" by (rule get_string_lenth_terminated)
    moreover have "string_index_loop k p (Some (str_list ws @ rest)) (length (str_list (us @ [w]))) =
        Some (Some (str_list (drop k ws) @ rest), length (str_list ((us @ [w]) @ take k ws)))"
      using Suc.prems Cons by (intro Suc.IH) simp_all
    ultimately show ?thesis using Suc.prems Cons holds_strings_length [OF Suc.prems(1)] by simp
  qed
qed simp

lemma read_string_index_strings:
  assumes "fwk_of_find_property node nm s = Some p" and "holds_strings p ws" and "op_value p = str_list ws @ rest"
  shows "fwk_of_property_read_string_index node nm index s =
     Some (if unat index < length ws then (ER_NORMAL, Some (str_list (drop (unat index) ws) @ rest)) else (- ER_MORE, None))"
proof -
  let ?i = "unat index"
  note l = holds_strings_length [OF assms(2)]
  have "string_index_loop (?i + 1) p None 0 = Some (if ws = [] then None else Some (str_list (drop ?i ws) @ rest), length (str_list (take ?i ws)))"
    using l assms string_index_loop_strings [of p "[]" ws rest ?i] by (cases ws) auto
  moreover have "length (str_list (take ?i ws)) < length (str_list ws) \<longleftrightarrow> ?i < length ws"
  proof -
    have "length (str_list ws) = length (str_list (take ?i ws)) + length (str_list (drop ?i ws))"
      by (metis append_take_drop_id length_append str_list_simps(3))
    then show ?thesis using str_list_length_le [of "drop ?i ws"] by (cases "?i < length ws") auto
  qed
  ultimately show ?thesis using assms(1) l by (auto simp: fwk_of_property_read_string_index_def)
qed

lemma compat_loop_strings:
  assumes "fwk_of_find_property node (lit ''compatible'') s = Some p" and "holds_strings p ws" and "unat index \<le> length ws"
  shows "compat_loop node c index s = Some (cstr c \<in> set (drop (unat index) ws))"
  using assms(3)
proof (induction "length ws - unat index" arbitrary: index)
  case 0
  obtain rest where v: "op_value p = str_list ws @ rest" using assms(2) by (auto simp: holds_strings_def)
  show ?case using 0 read_string_index_strings [OF assms(1,2) v, of index] by (subst compat_loop.simps) simp
next
  case (Suc k)
  then have i: "unat index < length ws" by simp
  obtain rest where v: "op_value p = str_list ws @ rest" using assms(2) by (auto simp: holds_strings_def)
  have "length ws < 2 ^ 32" using assms(2) str_list_length_le [of ws] by (simp add: holds_strings_def)
  then have u: "unat (index + 1) = Suc (unat index)" using i unat_add_small [of index 1] by simp
  have d: "drop (unat index) ws = ws ! unat index # drop (Suc (unat index)) ws" using i by (simp add: Cons_nth_drop_Suc)
  have "cstr (str_list (drop (unat index) ws) @ rest) = ws ! unat index"
    using assms(2) i by (simp add: d cstr_terminated holds_strings_def)
  moreover have "compat_loop node c (index + 1) s = Some (cstr c \<in> set (drop (Suc (unat index)) ws))"
    using Suc i u by (metis Suc_leI diff_Suc_Suc Suc_diff_le diff_Suc_1 Suc_diff_Suc old.nat.inject)
  ultimately show ?case
    using i read_string_index_strings [OF assms(1,2) v, of index] by (subst compat_loop.simps) (auto simp: d)
qed

lemma device_is_compatible_strings:
  assumes "fwk_of_find_property node (lit ''compatible'') s = Some p" and "holds_strings p ws"
  shows "fwk_of_device_is_compatible node c s = Some (cstr c \<in> set ws)"
  using compat_loop_strings [OF assms, of 0] by (simp add: fwk_of_device_is_compatible_def)

lemma device_is_compatible_absent:
  "fwk_of_find_property node (lit ''compatible'') s = None \<Longrightarrow> fwk_of_device_is_compatible node c s = Some False"
  unfolding fwk_of_device_is_compatible_def
  by (subst compat_loop.simps) (simp add: fwk_of_property_read_string_index_def)

text \<open>The strings a node is compatible with, given by a function \<open>cs\<close>.\<close>

definition compatibles :: "of_sys \<Rightarrow> (kuaddr_t \<Rightarrow> bytes list) \<Rightarrow> kuaddr_t \<Rightarrow> bool" where
  "compatibles s cs n \<longleftrightarrow>
     (case fwk_of_find_property n (lit ''compatible'') s of None \<Rightarrow> cs n = [] | Some p \<Rightarrow> holds_strings p (cs n))"

lemma device_is_compatible_iff:
  "compatibles s cs n \<Longrightarrow> fwk_of_device_is_compatible n c s = Some (cstr c \<in> set (cs n))"
  by (cases "fwk_of_find_property n (lit ''compatible'') s")
     (auto simp: compatibles_def device_is_compatible_absent device_is_compatible_strings)

lemma match_entries_find:
  assumes "compatibles s cs n"
  shows "match_entries i tab n s =
     Some (if \<exists>c \<in> set tab. cstr c \<in> set (cs n) then Some (i + length (takeWhile (\<lambda>c. cstr c \<notin> set (cs n)) tab)) else None)"
  by (induction tab arbitrary: i) (auto simp: device_is_compatible_iff [OF assms])

lemma match_string_loop_strings:
  assumes "\<forall>w \<in> set ws. 0 \<notin> set w" and "length (str_list ws) \<le> k"
  shows "match_string_loop k (str_list ws @ rest) (length (str_list ws)) i m =
     Some (if cstr m \<in> set ws then int (i + length (takeWhile (\<lambda>w. w \<noteq> cstr m) ws)) else - ER_CHECKERR)"
  using assms
proof (induction k arbitrary: ws i)
  case 0
  then show ?case using str_list_length_le [of ws] by simp
next
  case (Suc k)
  show ?case
  proof (cases ws)
    case (Cons w us)
    have w: "0 \<notin> set w" using Suc.prems Cons by simp
    have "match_string_loop k (str_list us @ rest) (length (str_list us)) (Suc i) m =
       Some (if cstr m \<in> set us then int (Suc i + length (takeWhile (\<lambda>w. w \<noteq> cstr m) us)) else - ER_CHECKERR)"
      using Suc.prems Cons by (intro Suc.IH) auto
    then show ?thesis
      using Cons get_string_lenth_terminated [OF w, of "str_list us @ rest"] cstr_terminated [OF w, of "str_list us @ rest"] by auto
  qed simp
qed

section \<open>Specifiers\<close>

text \<open>A value made of references, each followed by its arguments.\<close>

definition spec_cells :: "of_sys \<Rightarrow> (kuaddr_t \<times> kuint32_t list) list \<Rightarrow> kuint32_t list" where
  "spec_cells s sps = concat (map (\<lambda>(n, args). dn_phandle (of_nodes s n) # args) sps)"

definition spec_ok :: "bytes option \<Rightarrow> kuint32_t \<Rightarrow> of_sys \<Rightarrow> kuaddr_t \<times> kuint32_t list \<Rightarrow> bool" where
  "spec_ok cells_name cell_count s sp \<longleftrightarrow>
     (case sp of (n, args) \<Rightarrow>
        n \<noteq> 0 \<and> fwk_of_find_node_by_phandle 0 (dn_phandle (of_nodes s n)) s = Some n \<and> length args \<le> FWK_OF_MAX_PHANDLE_ARGS \<and>
        specifier_cells cells_name cell_count n s = Some (Inr (of_nat (length args))))"

lemma map_nth_segment: "map ((!) (a @ b @ c)) [length a..<length a + length b] = b"
  by (rule nth_equalityI) (simp_all add: nth_append)

lemma phandle_loop_specs:
  assumes "holds_cells p (us @ spec_cells s sps)" and "\<forall>sp \<in> set sps. spec_ok cn cc s sp" and "cur \<le> index"
  shows "phandle_loop (op_value p) cn cc (length us) (length us + length (spec_cells s sps)) cur index s =
     Some (if index - cur < length sps then (ER_NORMAL, Some (sps ! (index - cur))) else (- ER_ERROR, None))"
  using assms
proof (induction sps arbitrary: us cur)
  case Nil
  then show ?case by (simp add: spec_cells_def phandle_loop.simps)
next
  case (Cons sp sps)
  obtain n args where sp: "sp = (n, args)" by (cases sp)
  have c: "spec_cells s (sp # sps) = dn_phandle (of_nodes s n) # args @ spec_cells s sps" by (simp add: spec_cells_def sp)
  have ok: "n \<noteq> 0" "fwk_of_find_node_by_phandle 0 (dn_phandle (of_nodes s n)) s = Some n" "length args \<le> 16"
      "specifier_cells cn cc n s = Some (Inr (of_nat (length args)))"
    using Cons.prems(2) by (auto simp: spec_ok_def sp FWK_OF_MAX_PHANDLE_ARGS_def)
  have u: "unat (of_nat (length args) :: kuint32_t) = length args" using ok(3) by (intro unat_of_nat_small) simp
  have h: "holds_cells p (us @ dn_phandle (of_nodes s n) # args @ spec_cells s sps)" using Cons.prems(1) c by simp
  have ph: "be32 (op_value p) (4 * length us) = Some (dn_phandle (of_nodes s n))"
    using holds_cells_be32 [OF h, of "length us"] by simp
  have "those (map (\<lambda>i. be32 (op_value p) (4 * i)) [length us + 1..<length us + 1 + length args]) =
      Some (map ((!) (us @ dn_phandle (of_nodes s n) # args @ spec_cells s sps)) [length us + 1..<length us + 1 + length args])"
    by (intro those_Some ballI holds_cells_be32 [OF h]) auto
  also have "map ((!) (us @ dn_phandle (of_nodes s n) # args @ spec_cells s sps)) [length us + 1..<length us + 1 + length args] = args"
    using map_nth_segment [of "us @ [dn_phandle (of_nodes s n)]" args "spec_cells s sps"] by simp
  finally have rd: "those (map (\<lambda>i. be32 (op_value p) (4 * i)) [length us + 1..<length us + 1 + length args]) = Some args" .
  let ?us = "us @ dn_phandle (of_nodes s n) # args"
  have len: "length us + length (spec_cells s (sp # sps)) = length ?us + length (spec_cells s sps)" using c by simp
  have IH: "phandle_loop (op_value p) cn cc (length ?us) (length ?us + length (spec_cells s sps)) (cur + 1) index s =
      Some (if index - (cur + 1) < length sps then (ER_NORMAL, Some (sps ! (index - (cur + 1)))) else (- ER_ERROR, None))" if "cur < index"
    using Cons.prems h that by (intro Cons.IH) simp_all
  show ?case
  proof (cases "cur = index")
    case True
    then show ?thesis
      using ph ok u rd by (subst phandle_loop.simps) (simp add: c sp [symmetric] FWK_OF_MAX_PHANDLE_ARGS_def)
  next
    case False
    then have lt: "cur < index" using Cons.prems(3) by simp
    then obtain m where m: "index - cur = Suc m" "index - Suc cur = m" by (metis Suc_diff_Suc)
    then show ?thesis
      using ph ok u lt IH [OF lt] by (subst phandle_loop.simps) (simp add: c add.assoc)
  qed
qed

lemma specifier_cells_named:
  assumes "fwk_of_find_property n nm s = Some p" and "holds_cells p (v # vs)" and "v \<noteq> 0"
  shows "specifier_cells (Some nm) cc n s = Some (Inr v)"
  using assms by (simp add: specifier_cells_def read_u32_cells)

lemma parse_phandle_specs:
  assumes "node \<noteq> 0" and "fwk_of_find_property node nm s = Some p" and "holds_cells p (spec_cells s sps)" and "sps \<noteq> []"
    and "\<forall>sp \<in> set sps. spec_ok cn cc s sp" and "0 \<le> index"
  shows "fwk_of_parse_phandle_with_args node nm cn cc index s =
     Some (if nat index < length sps then (ER_NORMAL, Some (sps ! nat index)) else (- ER_ERROR, None))"
proof -
  have u: "unat (op_length p) = 4 * length (spec_cells s sps)" using holds_cells_length [OF assms(3)] by simp
  have "spec_cells s sps \<noteq> []" using assms(4) by (cases sps) (auto simp: spec_cells_def)
  then have "op_length p \<noteq> 0" using u by auto
  then show ?thesis
    using assms u phandle_loop_specs [of p "[]" s sps cn cc 0 "nat index"]
    by (simp add: fwk_of_parse_phandle_with_args_def fwk_of_get_property_def)
qed

section \<open>Climbing to the root\<close>

fun parent_chain :: "of_sys \<Rightarrow> kuaddr_t \<Rightarrow> kuaddr_t list \<Rightarrow> bool" where
  "parent_chain s a [] \<longleftrightarrow> \<not> isValid a"
| "parent_chain s a (n # ns) \<longleftrightarrow> a = n \<and> isValid n \<and> parent_chain s (dn_parent (of_nodes s n)) ns"

text \<open>The number a node gives to \<open>nm\<close>, where the property is absent or holds at least one number.\<close>

definition cell_of :: "of_sys \<Rightarrow> bytes \<Rightarrow> (kuaddr_t \<Rightarrow> kuint32_t option) \<Rightarrow> kuaddr_t \<Rightarrow> bool" where
  "cell_of s nm f n \<longleftrightarrow>
     (case fwk_of_find_property n nm s of
        None \<Rightarrow> f n = None
      | Some p \<Rightarrow> \<exists>v vs. holds_cells p (v # vs) \<and> f n = Some v)"

lemma cell_of_read:
  "cell_of s nm f n \<Longrightarrow> fwk_of_property_read_u32 n nm s =
     Some (case f n of None \<Rightarrow> (- ER_FAULT, []) | Some v \<Rightarrow> (ER_NORMAL, [v]))"
  by (auto simp: cell_of_def read_u32_absent read_u32_cells split: option.splits)

lemma cells_loop_chain:
  assumes "parent_chain s a ns" and "\<forall>n \<in> set ns. cell_of s nm f n"
  shows "cells_loop nm a s = Some (case List.map_filter f ns of [] \<Rightarrow> 0 | v # _ \<Rightarrow> v)"
  using assms
proof (induction ns arbitrary: a)
  case Nil
  then show ?case by (subst cells_loop.simps) (simp add: map_filter_def)
next
  case (Cons n ns)
  then show ?case
    by (subst cells_loop.simps) (auto simp: cell_of_read map_filter_def split: option.splits)
qed

section \<open>Aliases and resources\<close>

definition decimal :: "bytes \<Rightarrow> nat" where
  "decimal ds = foldl (\<lambda>n d. 10 * n + (unat d - 48)) 0 ds"

lemma alias_digit_of_nat: "is_digit d \<Longrightarrow> alias_digit (of_nat n) d = of_nat (10 * n + (unat d - 48))"
proof -
  assume d: "is_digit d"
  then have "48 \<le> unat d" by (simp add: is_digit_def word_le_nat_alt)
  moreover have "(ucast d :: kuint32_t) = of_nat (unat d)" by simp
  ultimately have "(ucast d :: kuint32_t) - 48 = of_nat (unat d - 48)" by (simp add: of_nat_diff)
  moreover have "push_bit 1 (of_nat n :: kuint32_t) + push_bit 3 (of_nat n) = of_nat (10 * n)"
    by (simp add: push_bit_eq_mult)
  ultimately show ?thesis using d by (simp add: alias_digit_def Let_def)
qed

lemma foldl_alias_digits:
  "\<forall>d \<in> set ds. is_digit d \<Longrightarrow> foldl alias_digit (of_nat n) ds = of_nat (foldl (\<lambda>n d. 10 * n + (unat d - 48)) n ds)"
  by (induction ds arbitrary: n) (simp_all add: alias_digit_of_nat del: of_nat_add of_nat_mult)

lemma foldl_alias_reset: "b = [] \<or> \<not> is_digit (last b) \<Longrightarrow> foldl alias_digit 0 b = 0"
  by (cases b rule: rev_cases) (simp_all add: alias_digit_def Let_def)

text \<open>An alias made of a stem and a number gives the number.\<close>

lemma get_alias_id_decimal:
  assumes "node_chain s (sprt_fwk_of_allNodes s) ns" and "find (\<lambda>n. cstr (lit ''aliases'') = cstr (dn_name (of_nodes s n))) ns = Some al"
    and "find (\<lambda>p. cstr (dn_full_name (of_nodes s node)) = cstr (op_value p)) (dn_props (of_nodes s al)) = Some p"
    and "cstr (op_name p) = b @ ds" and "b = [] \<or> \<not> is_digit (last b)" and "ds \<noteq> []" and "\<forall>d \<in> set ds. is_digit d"
    and "decimal ds < 2 ^ 31"
  shows "fwk_of_get_alias_id node s = Some (int (decimal ds))"
proof -
  have "al \<in> set ns" using assms(2) by (auto simp: find_Some_iff)
  then have "al \<noteq> 0" using node_chain_nonnull [OF assms(1)] by blast
  moreover have "foldl alias_digit 0 (b @ ds) = of_nat (decimal ds)"
    using foldl_alias_digits [OF assms(7), of 0] foldl_alias_reset [OF assms(5)] by (simp add: decimal_def)
  moreover have "sint (of_nat (decimal ds) :: kuint32_t) = int (decimal ds)"
    by (rule sint_of_nat_small [OF assms(8)])
  ultimately show ?thesis
    using assms find_by_name_chain [OF assms(1), of "lit ''aliases''"] by (simp add: fwk_of_get_alias_id_def)
qed

lemma pick_resource_filter:
  assumes "unat cnt + length rs < 2 ^ 32" and "cnt \<le> index"
  shows "pick_resource type index cnt rs =
     (let fs = filter (\<lambda>r. type AND rs_type r \<noteq> 0) rs; k = unat index - unat cnt in if k < length fs then Some (fs ! k) else None)"
  using assms
proof (induction rs arbitrary: cnt)
  case (Cons r rs)
  show ?case
  proof (cases "type AND rs_type r = 0")
    case True
    then show ?thesis using Cons by (simp add: not_less)
  next
    case False
    have u: "unat (cnt + 1) = unat cnt + 1" using Cons.prems(1) unat_add_small [of cnt 1] by simp
    show ?thesis
    proof (cases "cnt = index")
      case True
      then show ?thesis using False u by (simp add: word_less_nat_alt)
    next
      case nd: False
      have le: "unat cnt < unat index" using Cons.prems(2) nd by (metis order_less_le word_less_nat_alt)
      then have "pick_resource type index (cnt + 1) rs =
         (let fs = filter (\<lambda>r. type AND rs_type r \<noteq> 0) rs; k = unat index - unat (cnt + 1) in if k < length fs then Some (fs ! k) else None)"
        using Cons.prems(1) u by (intro Cons.IH) (simp_all add: word_le_nat_alt)
      moreover have "unat index - unat cnt = Suc (unat index - unat (cnt + 1))" using le u by simp
      moreover have "\<not> cnt + 1 > index" using le u by (simp add: word_less_nat_alt)
      ultimately show ?thesis using False by (simp add: Let_def)
    qed
  qed
qed simp

lemma get_resources_nth:
  assumes "length rs < 2 ^ 32"
  shows "fwk_platform_get_resources rs index type =
     (let fs = filter (\<lambda>r. type AND rs_type r \<noteq> 0) rs in if unat index < length fs then Some (fs ! unat index) else None)"
proof -
  have "length (filter (\<lambda>r. type AND rs_type r \<noteq> 0) rs) \<le> length rs" by (rule length_filter_le)
  then have "\<not> (length rs < unat index \<and> unat index < length (filter (\<lambda>r. type AND rs_type r \<noteq> 0) rs))" by linarith
  then show ?thesis
    using pick_resource_filter [of 0 rs index type] assms by (auto simp: fwk_platform_get_resources_def Let_def)
qed

section \<open>Properties\<close>

lemma find_compatible_chain:
  assumes "node_chain s (sprt_fwk_of_allNodes s) ns" and "\<forall>n \<in> set ns. compatibles s cs n"
  shows "fwk_of_find_compatible_node 0 type c s =
     Some (node_or_null (find (\<lambda>n. (\<forall>t. type = Some t \<longrightarrow> cstr t = cstr (dn_type (of_nodes s n))) \<and> cstr c \<in> set (cs n)) ns))"
  unfolding fwk_of_find_compatible_node_def walk_head_def
  using assms by (cases type) (simp_all add: isValid_def walk_all_chain device_is_compatible_iff)

text \<open>An example: the root, an interrupt controller and a serial port that refers to it.\<close>

definition of_prop :: "string \<Rightarrow> bytes \<Rightarrow> of_property" where
  "of_prop nm v = \<lparr>op_name = lit nm, op_length = of_nat (length v), op_value = v\<rparr>"

definition cells_prop :: "string \<Rightarrow> kuint32_t list \<Rightarrow> of_property" where
  "cells_prop nm vs = of_prop nm (concat (map be_bytes32 vs))"

definition demo_tree :: of_sys where
  "demo_tree = \<lparr>of_nodes =
     (\<lambda>_. \<lparr>dn_name = [0], dn_type = [0], dn_phandle = 0, dn_full_name = lit ''/'', dn_props = [], dn_parent = 0, dn_child = 0, dn_sibling = 0, dn_allnext = 0\<rparr>)
     (0x1000 := \<lparr>dn_name = lit '''', dn_type = [0], dn_phandle = 0, dn_full_name = lit ''/'', dn_props = [],
                 dn_parent = 0, dn_child = 0x2000, dn_sibling = 0, dn_allnext = 0x2000\<rparr>,
      0x2000 := \<lparr>dn_name = lit ''intc'', dn_type = [0], dn_phandle = 1, dn_full_name = lit ''/intc'', dn_props = [cells_prop ''#interrupt-cells'' [3]],
                 dn_parent = 0x1000, dn_child = 0, dn_sibling = 0x3000, dn_allnext = 0x3000\<rparr>,
      0x3000 := \<lparr>dn_name = lit ''uart'', dn_type = [0], dn_phandle = 0, dn_full_name = lit ''/uart'',
                 dn_props = [of_prop ''compatible'' (str_list [[117, 49], [117, 50]]), cells_prop ''interrupt-parent'' [1],
                             cells_prop ''interrupts'' [0, 26, 4], cells_prop ''links'' [1, 7, 8, 9]],
                 dn_parent = 0x1000, dn_child = 0, dn_sibling = 0, dn_allnext = 0\<rparr>),
     sprt_fwk_of_allNodes = 0x1000\<rparr>"

lemma cells_prop_holds: "4 * length vs < 2 ^ 31 \<Longrightarrow> holds_cells (cells_prop nm vs) vs"
proof -
  assume l: "4 * length vs < 2 ^ 31"
  have "length (concat (map be_bytes32 vs)) = 4 * length vs" by (induction vs) simp_all
  then show ?thesis using l by (simp add: holds_cells_def cells_prop_def of_prop_def)
qed

lemma str_prop_holds:
  "length (str_list ws) < 2 ^ 32 \<Longrightarrow> \<forall>w \<in> set ws. 0 \<notin> set w \<Longrightarrow> holds_strings (of_prop nm (str_list ws)) ws"
  by (simp add: holds_strings_def of_prop_def)

lemma of_prop_name [simp]: "op_name (of_prop nm v) = lit nm" "op_name (cells_prop nm vs) = lit nm"
  by (simp_all add: of_prop_def cells_prop_def)

lemma demo_tree_valid: "isValid 0x1000" "isValid 0x2000" "isValid 0x3000"
  by (simp_all add: isValid_def IS_ERR_def)

lemma demo_tree_chain: "node_chain demo_tree (sprt_fwk_of_allNodes demo_tree) [0x1000, 0x2000, 0x3000]"
  by (simp add: demo_tree_def demo_tree_valid)

lemma demo_tree_find:
  "fwk_of_find_property 0x3000 (lit ''interrupts'') demo_tree = Some (cells_prop ''interrupts'' [0, 26, 4])"
  "fwk_of_find_property 0x3000 (lit ''interrupt-parent'') demo_tree = Some (cells_prop ''interrupt-parent'' [1])"
  "fwk_of_find_property 0x3000 (lit ''links'') demo_tree = Some (cells_prop ''links'' [1, 7, 8, 9])"
  "fwk_of_find_property 0x3000 (lit ''compatible'') demo_tree = Some (of_prop ''compatible'' (str_list [[117, 49], [117, 50]]))"
  "fwk_of_find_property 0x2000 (lit ''#interrupt-cells'') demo_tree = Some (cells_prop ''#interrupt-cells'' [3])"
  "fwk_of_find_property 0x2000 (lit ''compatible'') demo_tree = None"
  "fwk_of_find_property 0x1000 (lit ''compatible'') demo_tree = None"
  by (simp_all add: fwk_of_find_property_def demo_tree_valid demo_tree_def lit_def cstr_def)

definition demo_compatibles :: "kuaddr_t \<Rightarrow> bytes list" where
  "demo_compatibles n = (if n = 0x3000 then [[117, 49], [117, 50]] else [])"

lemma demo_tree_compatibles:
  "compatibles demo_tree demo_compatibles 0x1000" "compatibles demo_tree demo_compatibles 0x2000" "compatibles demo_tree demo_compatibles 0x3000"
proof -
  have "holds_strings (of_prop ''compatible'' (str_list [[117, 49], [117, 50]])) [[117, 49], [117, 50]]"
    by (rule str_prop_holds) simp_all
  then show "compatibles demo_tree demo_compatibles 0x1000" "compatibles demo_tree demo_compatibles 0x2000" "compatibles demo_tree demo_compatibles 0x3000"
    by (simp_all add: compatibles_def demo_compatibles_def demo_tree_find)
qed

text \<open>Reading numbers from a property gives back what the property was made of: of a property that holds the numbers \<open>vs\<close>, with their high
  byte first, the array reader returns the \<open>sz\<close> numbers from \<open>index\<close> on, or those up to the end if there are fewer, and an error if
  \<open>index\<close> lies behind the end; it never reads behind the value.\<close>

lemma of_numbers_read_back:
  assumes "fwk_of_find_property node nm s = Some p" and "holds_cells p vs" and "sz \<noteq> 0"
    and "unat index + unat sz < 2 ^ 32 \<or> length vs \<le> unat index"
  shows "fwk_of_property_read_u32_array_index node nm index sz s =
     Some (if unat index < length vs then (ER_NORMAL, take (unat sz) (drop (unat index) vs)) else (- ER_FAULT, []))"
  by (rule read_u32_array_cells [OF assms])

lemma of_numbers_read_back_witness:
  "fwk_of_property_read_u32_array_index 0x3000 (lit ''interrupts'') 1 5 demo_tree = Some (ER_NORMAL, [26, 4])"
  using of_numbers_read_back [OF demo_tree_find(1) cells_prop_holds, of 5 1] by simp

text \<open>C29: The search for a compatible node returns the first node, in the order of the list of all nodes, that has the type asked for, if
  one is given, and among whose compatible strings the string asked for is; and null if there is none.  The search ends.\<close>

theorem compatible_search_first:
  assumes "node_chain s (sprt_fwk_of_allNodes s) ns" and "\<forall>n \<in> set ns. compatibles s cs n"
  shows "fwk_of_find_compatible_node 0 type c s =
     Some (node_or_null (find (\<lambda>n. (\<forall>t. type = Some t \<longrightarrow> cstr t = cstr (dn_type (of_nodes s n))) \<and> cstr c \<in> set (cs n)) ns))"
  by (rule find_compatible_chain [OF assms])

theorem compatible_search_first_witness: "fwk_of_find_compatible_node 0 None [117, 50, 0] demo_tree = Some 0x3000"
  using compatible_search_first [OF demo_tree_chain, of demo_compatibles None "[117, 50, 0]"] demo_tree_compatibles
  by (simp add: demo_compatibles_def cstr_def)

text \<open>A list of references with arguments is taken apart correctly: if a property holds the references to nodes, each followed by as
  many arguments as the node asks for, at most 16, then the parser returns the node and the arguments of the entry with the given
  index, and an error if there are fewer entries.\<close>

lemma phandle_args_picked:
  assumes "node \<noteq> 0" and "fwk_of_find_property node nm s = Some p" and "holds_cells p (spec_cells s sps)" and "sps \<noteq> []"
    and "\<forall>sp \<in> set sps. spec_ok cn cc s sp" and "0 \<le> index"
  shows "fwk_of_parse_phandle_with_args node nm cn cc index s =
     Some (if nat index < length sps then (ER_NORMAL, Some (sps ! nat index)) else (- ER_ERROR, None))"
  by (rule parse_phandle_specs [OF assms])

lemma phandle_args_picked_witness:
  "fwk_of_parse_phandle_with_args 0x3000 (lit ''links'') (Some (lit ''#interrupt-cells'')) 0 0 demo_tree =
     Some (ER_NORMAL, Some (0x2000, [7, 8, 9]))"
proof -
  let ?sps = "[(0x2000, [7, 8, 9])] :: (kuaddr_t \<times> kuint32_t list) list"
  have ph: "dn_phandle (of_nodes demo_tree 0x2000) = 1" "dn_phandle (of_nodes demo_tree 0x1000) = 0" by (simp_all add: demo_tree_def)
  have h: "holds_cells (cells_prop ''links'' [1, 7, 8, 9]) (spec_cells demo_tree ?sps)"
    using cells_prop_holds [of "[1, 7, 8, 9]"] by (simp add: spec_cells_def ph)
  have "specifier_cells (Some (lit ''#interrupt-cells'')) 0 0x2000 demo_tree = Some (Inr 3)"
    using specifier_cells_named [OF demo_tree_find(5) cells_prop_holds] by simp
  then have "\<forall>sp \<in> set ?sps. spec_ok (Some (lit ''#interrupt-cells'')) 0 demo_tree sp"
    by (simp add: spec_ok_def FWK_OF_MAX_PHANDLE_ARGS_def find_by_phandle_chain [OF demo_tree_chain] ph)
  from phandle_args_picked [OF _ demo_tree_find(3) h _ this, of 0] show ?thesis by simp
qed

end
