(* ===== verification/Of_Irq.thy ===== *)
theory Of_Irq
  imports Device_Tree Irq
begin

text \<open>
  Interrupts of the device tree: from the specifier in a node's property to the number the kernel uses for the interrupt
  (\<^verbatim>\<open>platform/irq/fwk_irq_domain.c\<close>, \<^verbatim>\<open>fwk_irq_desc.c\<close>, \<^verbatim>\<open>platform/of/fwk_of_device.c\<close>).  The tree does not change; the state is that of the
  interrupt framework.
\<close>

section \<open>Operations\<close>

text \<open>The cells at the given positions, or \<open>None\<close> when one of them cannot be read.\<close>

fun irq_cells_loop :: "kuaddr_t \<Rightarrow> kuint32_t list \<Rightarrow> of_sys \<Rightarrow> kuint32_t list option option" where
  "irq_cells_loop node [] t = Some (Some [])"
| "irq_cells_loop node (i # ids) t =
     do { (r, vs) \<leftarrow> fwk_of_property_read_u32_index node (lit ''interrupts'') i t;
          if r < 0 then Some None
          else do { args \<leftarrow> irq_cells_loop node ids t; Some (map_option ((#) (vs ! 0)) args) } }"

definition fwk_of_irq_parse_one :: "kuaddr_t \<Rightarrow> kuint32_t \<Rightarrow> of_sys \<Rightarrow> (int \<times> (kuaddr_t \<times> kuint32_t list) option) option" where
  "fwk_of_irq_parse_one node index t =
     (if \<not> isValid node then Some (- ER_NULLPTR, None)
      else let value = fwk_of_get_property node (lit ''interrupts'') t;
               lenth = (case value of None \<Rightarrow> 0 | Some (_, l) \<Rightarrow> l) div 4
           in do {
             cells \<leftarrow> fwk_of_n_irq_cells node t;
             if cells = 0 \<or> unat cells \<ge> FWK_OF_MAX_PHANDLE_ARGS then Some (- ER_FAULT, None)
             else if value = None \<or> (index + 1) * cells > lenth then Some (- ER_FAULT, None)
             else do {
               args \<leftarrow> irq_cells_loop node (map (\<lambda>i. index * cells + of_nat i) [0..<unat cells]) t;
               case args of
                 None \<Rightarrow> Some (- ER_FAULT, None)
               | Some as \<Rightarrow> do {
                   par \<leftarrow> fwk_of_irq_parent node t;
                   Some (if \<not> isValid par then (- ER_FAULT, None) else (ER_NORMAL, Some (par, as))) } } })"

definition fwk_irq_of_parse_and_map ::
  "(kuaddr_t \<Rightarrow> domain_ops) \<Rightarrow> of_sys \<Rightarrow> kuaddr_t \<Rightarrow> kuint32_t \<Rightarrow> irq_sys \<Rightarrow> (int \<times> irq_sys) option" where
  "fwk_irq_of_parse_and_map ops t node index s =
     do { (retval, irq) \<leftarrow> fwk_of_irq_parse_one node index t;
          if retval < 0 then Some (- ER_FAILD, s) else fwk_irq_create_of_mapping ops irq s }"

definition fwk_of_irq_get ::
  "(kuaddr_t \<Rightarrow> domain_ops) \<Rightarrow> of_sys \<Rightarrow> kuaddr_t \<Rightarrow> kuint32_t \<Rightarrow> irq_sys \<Rightarrow> (int \<times> irq_sys) option" where
  "fwk_of_irq_get ops t node index s = fwk_irq_of_parse_and_map ops t node index s"

text \<open>The resources from \<open>res\<close> on are filled one by one; the list has the length \<^verbatim>\<open>nr_irqs\<close>.\<close>

fun irq_table_loop ::
  "(kuaddr_t \<Rightarrow> domain_ops) \<Rightarrow> of_sys \<Rightarrow> kuaddr_t \<Rightarrow> kuint32_t \<Rightarrow> fwk_resources list \<Rightarrow> irq_sys \<Rightarrow> (int \<times> fwk_resources list \<times> irq_sys) option" where
  "irq_table_loop ops t node index [] s = Some (ER_NORMAL, [], s)"
| "irq_table_loop ops t node index (r # rs) s =
     do { (virq, s) \<leftarrow> fwk_irq_of_parse_and_map ops t node index s;
          if virq < 0 then Some (- ER_FAILD, r # rs, s)
          else do {
            nm \<leftarrow> resource_name (lit ''interrupt-names'') node index t;
            (e, rs, s) \<leftarrow> irq_table_loop ops t node (index + 1) rs s;
            Some (e, r\<lparr>rs_name := nm, rs_start := word_of_int virq, rs_end := word_of_int virq,
                       rs_type := rs_type r OR NR_DEVICE_RESOURCE_IRQ\<rparr> # rs, s) } }"

definition fwk_of_irq_to_resource_table ::
  "(kuaddr_t \<Rightarrow> domain_ops) \<Rightarrow> of_sys \<Rightarrow> kuaddr_t \<Rightarrow> fwk_resources list \<Rightarrow> irq_sys \<Rightarrow> (int \<times> fwk_resources list \<times> irq_sys) option" where
  "fwk_of_irq_to_resource_table ops t node res s = irq_table_loop ops t node 0 res s"

section \<open>Parsing a specifier\<close>

text \<open>\<open>irq_source t node np c vs\<close>: the interrupt controller of \<open>node\<close> is \<open>np\<close>, which asks for \<open>c\<close> cells, and the node has the cells \<open>vs\<close>.\<close>

definition irq_source :: "of_sys \<Rightarrow> kuaddr_t \<Rightarrow> kuaddr_t \<Rightarrow> nat \<Rightarrow> kuint32_t list \<Rightarrow> bool" where
  "irq_source t node np c vs \<longleftrightarrow>
     isValid node \<and> isValid np \<and> fwk_of_irq_parent node t = Some np \<and> 0 < c \<and> c < FWK_OF_MAX_PHANDLE_ARGS \<and>
     (\<exists>q cs. fwk_of_find_property np (lit ''#interrupt-cells'') t = Some q \<and> holds_cells q (of_nat c # cs)) \<and>
     (\<exists>p. fwk_of_find_property node (lit ''interrupts'') t = Some p \<and> holds_cells p vs)"

lemma irq_source_cells: "irq_source t node np c vs \<Longrightarrow> fwk_of_n_irq_cells node t = Some (of_nat c)"
  by (auto simp: irq_source_def fwk_of_n_irq_cells_def read_u32_cells)

text \<open>A node that names its controller directly.\<close>

lemma irq_parent_direct:
  assumes "isValid node" and "fwk_of_find_node_by_path (lit ''/'') t = Some root"
    and "fwk_of_find_property node (lit ''interrupt-parent'') t = Some p" and "holds_cells p (h # hs)"
    and "fwk_of_find_node_by_phandle root h t = Some np" and "isValid np" and "fwk_of_find_property np (lit ''#interrupt-cells'') t \<noteq> None"
  shows "fwk_of_irq_parent node t = Some np"
proof -
  have "irq_parent_step root node t = Some np"
    using assms by (simp add: irq_parent_step_def follow_handle_def read_u32_cells)
  then show ?thesis using assms by (simp add: fwk_of_irq_parent_def irq_parent_loop.simps)
qed

lemma irq_cells_loop_read:
  assumes "fwk_of_find_property node (lit ''interrupts'') t = Some p" and "holds_cells p vs" and "\<forall>i \<in> set ids. unat i < length vs"
  shows "irq_cells_loop node ids t = Some (Some (map (\<lambda>i. vs ! unat i) ids))"
  using assms(3) by (induction ids) (simp_all add: read_u32_index_cells [OF assms(1,2)])

lemma irq_parse_one_group:
  assumes "irq_source t node np c vs" and "(unat index + 1) * c \<le> length vs"
  shows "fwk_of_irq_parse_one node index t = Some (ER_NORMAL, Some (np, take c (drop (unat index * c) vs)))"
proof -
  have c: "0 < c" "c < 16" using assms(1) by (simp_all add: irq_source_def FWK_OF_MAX_PHANDLE_ARGS_def)
  obtain p where p: "fwk_of_find_property node (lit ''interrupts'') t = Some p" "holds_cells p vs"
    using assms(1) by (auto simp: irq_source_def)
  have lv: "4 * length vs < 2 ^ 31" using p(2) by (simp add: holds_cells_def)
  have uc: "unat (of_nat c :: kuint32_t) = c" using c by (intro unat_of_nat_small) simp
  have "unat index + 1 \<le> (unat index + 1) * c" using mult_le_mono2 [of 1 c "unat index + 1"] c(1) by simp
  then have i: "unat index + 1 < 2 ^ 31" using assms(2) lv by linarith
  have ui: "unat (index + 1) = unat index + 1" using i unat_add_small [of index 1] by simp
  have um: "unat ((index + 1) * of_nat c) = (unat index + 1) * c"
    using assms(2) lv ui uc unat_mult_small [of "index + 1" "of_nat c"] by simp
  have "unat index * c + c \<le> length vs" using assms(2) by simp
  then have uj: "unat (index * of_nat c + of_nat i) = unat index * c + i" if "i < c" for i
  proof -
    have "unat (index * of_nat c :: kuint32_t) = unat index * c"
      using assms(2) lv uc unat_mult_small [of index "of_nat c"] by simp
    moreover have "unat (of_nat i :: kuint32_t) = i" using that c by (intro unat_of_nat_small) simp
    ultimately show ?thesis using that assms(2) lv unat_add_small [of "index * of_nat c" "of_nat i"] by simp
  qed
  have "irq_cells_loop node (map (\<lambda>i. index * of_nat c + of_nat i) [0..<c]) t =
      Some (Some (map (\<lambda>i. vs ! unat i) (map (\<lambda>i. index * of_nat c + of_nat i) [0..<c])))"
    using assms(2) uj by (intro irq_cells_loop_read [OF p]) auto
  then have "irq_cells_loop node (map (\<lambda>i. index * of_nat c + of_nat i) [0..<c]) t =
      Some (Some (map (\<lambda>i. vs ! (unat index * c + i)) [0..<c]))"
    using uj by (simp add: comp_def cong: map_cong)
  moreover have "map (\<lambda>i. vs ! (unat index * c + i)) [0..<c] = take c (drop (unat index * c) vs)"
    using assms(2) by (intro nth_equalityI) auto
  moreover have "\<not> (index + 1) * of_nat c > op_length p div 4"
    using um assms(2) holds_cells_length(1) [OF p(2)] by (simp add: word_less_nat_alt unat_div)
  moreover have "(of_nat c :: kuint32_t) \<noteq> 0" using uc c(1) by (metis not_less_zero unat_0)
  ultimately show ?thesis
    using assms(1) p(1) uc c irq_source_cells [OF assms(1)]
    by (simp add: fwk_of_irq_parse_one_def irq_source_def fwk_of_get_property_def FWK_OF_MAX_PHANDLE_ARGS_def Let_def)
qed

section \<open>Mapping an interrupt\<close>

text \<open>Allocating numbers changes neither the domains there are nor the controllers they belong to.\<close>

definition same_domains :: "irq_sys \<Rightarrow> irq_sys \<Rightarrow> bool" where
  "same_domains s s' \<longleftrightarrow> sgrt_fwk_irq_domain s' = sgrt_fwk_irq_domain s \<and>
     (\<forall>d. dm_node (ir_domains s' d) = dm_node (ir_domains s d) \<and> dm_ops (ir_domains s' d) = dm_ops (ir_domains s d))"

lemma same_domains_trans: "same_domains s s1 \<Longrightarrow> same_domains s1 s2 \<Longrightarrow> same_domains s s2"
  by (simp add: same_domains_def)

lemma same_domains_host: "same_domains s s' \<Longrightarrow> fwk_of_irq_host n s' = fwk_of_irq_host n s"
  by (simp add: same_domains_def fwk_of_irq_host_def)

lemma same_domains_upd [simp]: "same_domains s (upd_desc d f s)"
  by (simp add: same_domains_def upd_desc_def)

lemma same_domains_set_type: "same_domains s (fwk_irq_desc_set_type v ty s)"
  by (simp add: fwk_irq_desc_set_type_def Let_def) (simp add: same_domains_def)

lemma alloc_descs_loop_domains: "alloc_descs_loop virq is s = (b, s') \<Longrightarrow> same_domains s s'"
proof (induction "is" arbitrary: s)
  case Nil
  then show ?case by (simp add: same_domains_def)
next
  case (Cons i "is")
  obtain d s1 where a: "fwk_allocate_irq_desc s = (d, s1)" by (cases "fwk_allocate_irq_desc s")
  have s1: "same_domains s s1"
    using a by (auto simp: fwk_allocate_irq_desc_def ir_kzalloc_def same_domains_def upd_desc_def Let_def split: list.splits if_splits)
  show ?case
  proof (cases "isValid d")
    case True
    let ?s2 = "(upd_desc d (\<lambda>x. x\<lparr>de_irq := virq + of_nat i\<rparr>) s1)\<lparr>sgrt_fwk_irq_radix_tree := radix_tree_add (virq + of_nat i) (d + SGRT_RADIX_OFFSET) (sgrt_fwk_irq_radix_tree s1)\<rparr>"
    have "alloc_descs_loop virq is ?s2 = (b, s')" using Cons.prems a True by (simp add: Let_def upd_desc_def)
    from Cons.IH [OF this] have "same_domains ?s2 s'" .
    then show ?thesis using s1 by (simp add: same_domains_def upd_desc_def)
  next
    case False
    then show ?thesis using Cons.prems a s1 by simp
  qed
qed

lemma alloc_data_loop_domains: "alloc_data_loop dmn virq hwirq is s = Some (r, s') \<Longrightarrow> same_domains s s'"
proof (induction "is" arbitrary: s)
  case Nil
  then show ?case by (simp add: same_domains_def)
next
  case (Cons i "is")
  then show ?case
    by (auto simp: Let_def same_domains_def upd_data_def upd_desc_def split: if_splits dest!: Cons.IH)
qed

lemma alloc_irqs_domains: "fwk_irq_domain_alloc_irqs dmn b hwirq nr s = Some (v, s') \<Longrightarrow> same_domains s s'"
proof -
  assume "fwk_irq_domain_alloc_irqs dmn b hwirq nr s = Some (v, s')"
  then obtain w s1 where a: "fwk_irq_domain_alloc_descs b nr s = Some (w, s1)"
      "(if w < 0 then Some (w, s1) else irq_domain_alloc_irq_data dmn (word_of_int w) hwirq nr s1) = Some (v, s')"
    by (auto simp: fwk_irq_domain_alloc_irqs_def bind_Some_iff)
  obtain x got s2 where x: "alloc_descs_loop x [0..<unat nr] s = (got, s2)" "s1 = s2 \<or> (\<exists>bm. s1 = s2\<lparr>g_fwk_allocated_irqs := bm\<rparr>)"
    using a(1) by (auto simp: fwk_irq_domain_alloc_descs_def bind_Some_iff Let_def split: if_splits prod.splits)
      (metis prod.collapse)
  have "same_domains s s1" using alloc_descs_loop_domains [OF x(1)] x(2) by (auto simp: same_domains_def)
  moreover have "same_domains s1 s'"
    using a(2) alloc_data_loop_domains by (auto simp: irq_domain_alloc_irq_data_def same_domains_def split: if_splits)
  ultimately show ?thesis by (rule same_domains_trans)
qed

text \<open>
  What a change of the state must leave alone for the mapping to stay: the tree, the maps of the domains and the identity in every
  descriptor.
\<close>

definition same_mapping :: "irq_sys \<Rightarrow> irq_sys \<Rightarrow> bool" where
  "same_mapping s s' \<longleftrightarrow> sgrt_fwk_irq_radix_tree s' = sgrt_fwk_irq_radix_tree s \<and> ir_domains s' = ir_domains s \<and>
     sgrt_fwk_irq_domain s' = sgrt_fwk_irq_domain s \<and>
     (\<forall>d. id_irq (de_data (ir_descs s' d)) = id_irq (de_data (ir_descs s d)) \<and>
          id_hwirq (de_data (ir_descs s' d)) = id_hwirq (de_data (ir_descs s d)) \<and> id_domain (de_data (ir_descs s' d)) = id_domain (de_data (ir_descs s d)))"

lemma same_mapping_trans: "same_mapping s s1 \<Longrightarrow> same_mapping s1 s2 \<Longrightarrow> same_mapping s s2"
  by (simp add: same_mapping_def)

lemma same_mapping_domains: "same_mapping s s' \<Longrightarrow> same_domains s s'"
  by (simp add: same_mapping_def same_domains_def)

lemma same_mapping_set_type: "same_mapping s (fwk_irq_desc_set_type v ty s)"
  by (simp add: fwk_irq_desc_set_type_def same_mapping_def upd_desc_def Let_def)

lemma find_map_same:
  assumes "fwk_irq_domain_find_map dmn hwirq 0 s = Some (v, s)" and "same_mapping s s'" and "0 \<le> v"
  shows "\<exists>s''. fwk_irq_domain_find_map dmn hwirq ty s' = Some (v, s'')"
proof -
  have td: "fwk_irq_to_desc k s' = fwk_irq_to_desc k s" for k using assms(2) by (simp add: same_mapping_def fwk_irq_to_desc_def)
  have "fwk_irq_domain_get_data dmn hwirq s' = fwk_irq_domain_get_data dmn hwirq s"
    using assms(2) td by (simp add: fwk_irq_domain_get_data_def fwk_irq_get_data_def Let_def same_mapping_def)
  moreover obtain d where "fwk_irq_domain_get_data dmn hwirq s = Some d" "isValid d" "v = sint (id_irq (de_data (ir_descs s d)))"
    using assms(1,3) by (auto simp: fwk_irq_domain_find_map_def bind_Some_iff split: if_splits)
  ultimately show ?thesis
    using assms(2) by (auto simp: fwk_irq_domain_find_map_def Let_def upd_desc_def same_mapping_def)
qed

lemma create_of_mapping_new:
  assumes "isValid np" and "fwk_of_irq_host np s = dmn" and "isValid dmn"
    and "op_xlate (ops (dm_ops (ir_domains s dmn))) = Some xlate" and "xlate dmn np args = (r, hwirq, type)" and "0 \<le> r"
    and "\<forall>c f d v s. op_alloc (ops c) = Some f \<longrightarrow> same_mapping s (f d v s)"
    and "unat hwirq < length (dm_revmap (ir_domains s dmn))" and "dm_revmap (ir_domains s dmn) ! unat hwirq < 0"
    and "fwk_irq_domain_alloc_irqs dmn (- 1) hwirq 1 s = Some (int v, s1)" and "fwk_irq_domain_find_map dmn hwirq 0 s1 = Some (int v, s1)"
  shows "\<exists>s'. fwk_irq_create_of_mapping ops (Some (np, args)) s = Some (int v, s') \<and> same_mapping s1 s'"
proof -
  have nm: "fwk_irq_find_mapping dmn type hwirq s = Some (- ER_UNVALID, s)"
    using assms(3,8,9) by (simp add: fwk_irq_find_mapping_def fwk_irq_domain_find_map_def fwk_irq_domain_get_data_def isValid_def Let_def)
  let ?s2 = "case op_alloc (ops (dm_ops (ir_domains s1 dmn))) of Some f \<Rightarrow> f dmn (word_of_int (int v)) s1 | None \<Rightarrow> s1"
  have "same_mapping s1 ?s2" using assms(7) by (auto simp: same_mapping_def split: option.splits)
  then have "same_mapping s1 (fwk_irq_desc_set_type (word_of_int (int v)) type ?s2)"
    using same_mapping_set_type same_mapping_trans by blast
  moreover have "fwk_irq_create_of_mapping ops (Some (np, args)) s = Some (int v, fwk_irq_desc_set_type (word_of_int (int v)) type ?s2)"
    using assms(1-6,10) nm by (simp add: fwk_irq_create_of_mapping_def Let_def)
  ultimately show ?thesis by blast
qed

lemma create_of_mapping_known:
  assumes "isValid np" and "fwk_of_irq_host np s = dmn" and "isValid dmn"
    and "op_xlate (ops (dm_ops (ir_domains s dmn))) = Some xlate" and "xlate dmn np args = (r, hwirq, type)" and "0 \<le> r"
    and "fwk_irq_domain_find_map dmn hwirq type s = Some (int v, s')"
  shows "fwk_irq_create_of_mapping ops (Some (np, args)) s = Some (int v, s')"
  using assms by (simp add: fwk_irq_create_of_mapping_def fwk_irq_find_mapping_def Let_def)

text \<open>C30: An interrupt described in the device tree gets a number of its own, once: for a node whose interrupt controller has a
  domain, the first request for the \<open>index\<close>-th interrupt translates exactly the \<open>index\<close>-th group of cells, takes the lowest free
  number and enters it for the hardware number in the domain; asking again returns the same number.\<close>

theorem tree_interrupt_mapped_once:
  assumes "irq_source t node np c vs" and "(unat index + 1) * c \<le> length vs"
    and "fwk_of_irq_host np s = dmn" and "isValid dmn" and "op_xlate (ops (dm_ops (ir_domains s dmn))) = Some xlate"
    and "xlate dmn np (take c (drop (unat index * c) vs)) = (r, hwirq, type)" and "0 \<le> r"
    and "\<forall>c f d v s. op_alloc (ops c) = Some f \<longrightarrow> same_mapping s (f d v s)"
    and "irq_ok s" and "free_run (g_fwk_allocated_irqs s) 1 v" and "ir_pool s = d # ps" and "fresh_descs [d] s"
    and "radix_room 1 (sgrt_fwk_irq_radix_tree s)" and "unat hwirq < length (dm_revmap (ir_domains s dmn))"
    and "length (dm_revmap (ir_domains s dmn)) = unat (dm_max (ir_domains s dmn))" and "dm_revmap (ir_domains s dmn) ! unat hwirq < 0"
  shows "\<exists>s' s''. fwk_irq_of_parse_and_map ops t node index s = Some (int v, s') \<and>
     (\<exists>s1. fwk_irq_domain_find_map dmn hwirq type s' = Some (int v, s1)) \<and>
     fwk_irq_of_parse_and_map ops t node index s' = Some (int v, s'')"
proof -
  have np: "isValid np" using assms(1) by (simp add: irq_source_def)
  note ps = irq_parse_one_group [OF assms(1,2)]
  obtain s1 where s1: "fwk_irq_domain_alloc_irqs dmn (- 1) hwirq 1 s = Some (int v, s1)"
      "fwk_irq_domain_find_map dmn hwirq 0 s1 = Some (int v, s1)"
    using alloc_irqs_maps [of s 1 v "[d]" ps dmn hwirq] assms by auto
  obtain s' where s': "fwk_irq_create_of_mapping ops (Some (np, take c (drop (unat index * c) vs))) s = Some (int v, s')" "same_mapping s1 s'"
    using create_of_mapping_new [OF np assms(3-8) assms(14,16) s1] by blast
  obtain s'' where s'': "fwk_irq_domain_find_map dmn hwirq type s' = Some (int v, s'')" using find_map_same [OF s1(2) s'(2)] by auto
  have "same_domains s s'" using alloc_irqs_domains [OF s1(1)] same_mapping_domains [OF s'(2)] by (rule same_domains_trans)
  then have "fwk_of_irq_host np s' = dmn" "op_xlate (ops (dm_ops (ir_domains s' dmn))) = Some xlate"
    using assms(3,5) same_domains_host by (auto simp: same_domains_def)
  note known = create_of_mapping_known [where xlate = xlate and ops = ops, OF np this(1) assms(4) this(2) assms(6,7) s'']
  show ?thesis using ps s'(1) s'' known by (auto simp: fwk_irq_of_parse_and_map_def)
qed

definition demo_of_irqs :: irq_sys where
  "demo_of_irqs = demo_irqs\<lparr>ir_domains := (\<lambda>_. \<lparr>dm_node = 0x2000, dm_name = None, dm_ops = 0, dm_host = 0, dm_parent = 0, dm_max = 32, dm_revmap = replicate 32 (- 1)\<rparr>)\<rparr>"

text \<open>A controller whose second cell is the hardware number and whose third is the type.\<close>

definition demo_ops :: "kuaddr_t \<Rightarrow> domain_ops" where
  "demo_ops _ = \<lparr>op_xlate = Some (\<lambda>_ _ args. (0, args ! 1, args ! 2)), op_alloc = None\<rparr>"

lemma demo_irq_source: "irq_source demo_tree 0x3000 0x2000 3 [0, 26, 4]"
proof -
  have "fwk_of_find_node_by_path (lit ''/'') demo_tree = Some 0x1000"
    by (simp add: find_by_path_chain [OF demo_tree_chain]) (simp add: demo_tree_def lit_def cstr_def)
  moreover have "fwk_of_find_node_by_phandle 0x1000 1 demo_tree = fwk_of_find_node_by_phandle 0 1 demo_tree"
    by (simp add: fwk_of_find_node_by_phandle_def walk_head_def demo_tree_valid) (simp add: isValid_def demo_tree_def)
  then have "fwk_of_find_node_by_phandle 0x1000 1 demo_tree = Some 0x2000"
    by (simp add: find_by_phandle_chain [OF demo_tree_chain]) (simp add: demo_tree_def)
  ultimately have "fwk_of_irq_parent 0x3000 demo_tree = Some 0x2000"
    using irq_parent_direct [OF demo_tree_valid(3) _ demo_tree_find(2) cells_prop_holds] demo_tree_valid(2) demo_tree_find(5) by simp
  moreover have "holds_cells (cells_prop ''#interrupt-cells'' [3]) [3]" "holds_cells (cells_prop ''interrupts'' [0, 26, 4]) [0, 26, 4]"
    by (rule cells_prop_holds; simp)+
  ultimately show ?thesis
    using demo_tree_valid demo_tree_find by (auto simp: irq_source_def FWK_OF_MAX_PHANDLE_ARGS_def)
qed

theorem tree_interrupt_mapped_once_witness:
  "\<exists>s' s''. fwk_irq_of_parse_and_map demo_ops demo_tree 0x3000 0 demo_of_irqs = Some (0, s') \<and>
     fwk_irq_of_parse_and_map demo_ops demo_tree 0x3000 0 s' = Some (0, s'')"
proof -
  have f: "sgrt_fwk_irq_radix_tree demo_of_irqs = demo_radix" "g_fwk_allocated_irqs demo_of_irqs = replicate 128 0" "ir_pool demo_of_irqs = [65536, 69632]"
    "ir_descs demo_of_irqs = ir_descs demo_irqs" "length (dm_revmap (ir_domains demo_of_irqs x)) = 32" "dm_max (ir_domains demo_of_irqs x) = 32"
    "dm_revmap (ir_domains demo_of_irqs x) ! 26 = - 1" for x
    by (simp_all add: demo_of_irqs_def)
  have td: "fwk_irq_to_desc k demo_of_irqs = 0" for k
    using demo_irqs_ok(2) [of k] f(1) demo_irqs_sel(3) by (simp only: fwk_irq_to_desc_def)
  have ok: "irq_ok demo_of_irqs" using demo_irqs_ok(1) f td demo_irqs_ok(2) by (simp add: irq_ok_def)
  have h: "fwk_of_irq_host 0x2000 demo_of_irqs = 4096" by (simp add: fwk_of_irq_host_def demo_of_irqs_def demo_irqs_def)
  have r: "free_run (g_fwk_allocated_irqs demo_of_irqs) 1 0" by (simp add: f free_run_def bits_def)
  have fr: "fresh_descs [65536] demo_of_irqs" by (simp add: fresh_descs_def td isValid_def IS_ERR_def)
  have m: "radix_room 1 (sgrt_fwk_irq_radix_tree demo_of_irqs)" by (simp add: f radix_room_def demo_radix_def)
  show ?thesis
    using tree_interrupt_mapped_once [where ops = demo_ops and r = 0 and hwirq = 26 and type = 4 and index = 0,
        OF demo_irq_source _ h _ _ _ _ _ ok r f(3) fr m] f
    by (force simp: demo_ops_def isValid_def IS_ERR_def)
qed

end
