(* ===== verification/Gpio.thy ===== *)
theory Gpio
  imports Device_Tree
begin

text \<open>
  General purpose pins (\<^verbatim>\<open>platform/gpio/fwk_gpiochip.c\<close>, \<^verbatim>\<open>fwk_gpiodesc.c\<close>): the list of pin controllers, the descriptor of
  each pin, and the way from a property of the device tree to a pin, its direction and its level.

  Controllers and descriptors are structures at addresses, the descriptors of a controller an array of structures of 12 bytes.  A
  controller's function pointers are addresses; what the functions of drivers do is the parameter \<open>co\<close>, and they work on an
  environment of their own.  \<open>None\<close> is an access outside an array or a walk over the device tree that does not end.
\<close>

section \<open>State\<close>

record gpio_desc =
  gd_chip :: kuaddr_t
  gd_flags :: kuint32_t
  gd_label :: "bytes option"

record gpio_chip =
  gc_name :: "bytes option"
  gc_dev :: kuaddr_t
  gc_base :: int
  gc_ngpios :: kuint32_t
  gc_desc :: kuaddr_t
  gc_pin_ranges :: "kuaddr_t list"
  gc_request :: kuaddr_t
  gc_free :: kuaddr_t
  gc_get_direction :: kuaddr_t
  gc_direction_input :: kuaddr_t
  gc_direction_output :: kuaddr_t
  gc_get :: kuaddr_t
  gc_set :: kuaddr_t
  gc_to_irq :: kuaddr_t
  gc_n_cells :: kuint32_t
  gc_of_xlate :: kuaddr_t

text \<open>Of the devices around the controllers only the node and the name are used.\<close>

record 'e gpio_sys =
  gp_chip :: "kuaddr_t \<Rightarrow> gpio_chip"
  gp_desc :: "kuaddr_t \<Rightarrow> gpio_desc"
  sgrt_fwk_gpiochip_list :: "kuaddr_t list"
  gp_dev_node :: "kuaddr_t \<Rightarrow> kuaddr_t"
  gp_dev_name :: "kuaddr_t \<Rightarrow> bytes option"
  gp_tree :: of_sys
  gp_pool :: "kuaddr_t list"
  gp_freed :: "kuaddr_t list"
  gp_env :: 'e

record 'e gpio_code =
  co_request :: "kuaddr_t \<Rightarrow> kuaddr_t \<Rightarrow> kuint32_t \<Rightarrow> 'e gpio_sys \<Rightarrow> int \<times> 'e gpio_sys"
  co_free :: "kuaddr_t \<Rightarrow> kuaddr_t \<Rightarrow> kuint32_t \<Rightarrow> 'e gpio_sys \<Rightarrow> 'e gpio_sys"
  co_get_direction :: "kuaddr_t \<Rightarrow> kuaddr_t \<Rightarrow> kuint32_t \<Rightarrow> 'e gpio_sys \<Rightarrow> int"
  co_direction_input :: "kuaddr_t \<Rightarrow> kuaddr_t \<Rightarrow> kuint32_t \<Rightarrow> 'e gpio_sys \<Rightarrow> int \<times> 'e gpio_sys"
  co_direction_output :: "kuaddr_t \<Rightarrow> kuaddr_t \<Rightarrow> kuint32_t \<Rightarrow> int \<Rightarrow> 'e gpio_sys \<Rightarrow> int \<times> 'e gpio_sys"
  co_get :: "kuaddr_t \<Rightarrow> kuaddr_t \<Rightarrow> kuint32_t \<Rightarrow> 'e gpio_sys \<Rightarrow> int"
  co_set :: "kuaddr_t \<Rightarrow> kuaddr_t \<Rightarrow> kuint32_t \<Rightarrow> int \<Rightarrow> 'e gpio_sys \<Rightarrow> 'e gpio_sys"
  co_to_irq :: "kuaddr_t \<Rightarrow> kuaddr_t \<Rightarrow> kuint32_t \<Rightarrow> 'e gpio_sys \<Rightarrow> (int \<times> 'e gpio_sys) option"
  co_of_xlate :: "kuaddr_t \<Rightarrow> kuaddr_t \<Rightarrow> (kuaddr_t \<times> kuint32_t list) \<Rightarrow> kuint32_t \<Rightarrow> 'e gpio_sys \<Rightarrow> (int \<times> kuint32_t) option"

abbreviation (input) NR_FWK_GPIODESC_REQUESTED :: nat where "NR_FWK_GPIODESC_REQUESTED \<equiv> 0"
abbreviation (input) NR_FWK_GPIODESC_IS_OUT :: nat where "NR_FWK_GPIODESC_IS_OUT \<equiv> 1"
abbreviation (input) NR_FWK_GPIODESC_ACTIVE_LOW :: nat where "NR_FWK_GPIODESC_ACTIVE_LOW \<equiv> 4"
abbreviation (input) NR_FWK_GPIODESC_OPEN_DRAIN :: nat where "NR_FWK_GPIODESC_OPEN_DRAIN \<equiv> 5"
abbreviation (input) NR_FWK_GPIODESC_OPEN_SOURCE :: nat where "NR_FWK_GPIODESC_OPEN_SOURCE \<equiv> 6"
abbreviation (input) NR_FWK_GPIODESC_USED_AS_IRQ :: nat where "NR_FWK_GPIODESC_USED_AS_IRQ \<equiv> 7"

abbreviation (input) GPIO_ACTIVE_LOW :: kuint32_t where "GPIO_ACTIVE_LOW \<equiv> 1"
abbreviation (input) GPIO_OPEN_DRAIN :: kuint32_t where "GPIO_OPEN_DRAIN \<equiv> 2"
abbreviation (input) GPIO_OPEN_SOURCE :: kuint32_t where "GPIO_OPEN_SOURCE \<equiv> 4"

abbreviation (input) NR_FWK_GPIO_BIT_SET :: kuint32_t where "NR_FWK_GPIO_BIT_SET \<equiv> 1"
abbreviation (input) NR_FWK_GPIO_BIT_OUT :: kuint32_t where "NR_FWK_GPIO_BIT_OUT \<equiv> 2"
abbreviation (input) NR_FWK_GPIO_BIT_VAL :: kuint32_t where "NR_FWK_GPIO_BIT_VAL \<equiv> 4"
abbreviation (input) FWK_GPIO_DIR_IN :: kuint32_t where "FWK_GPIO_DIR_IN \<equiv> 1"
abbreviation (input) FWK_GPIO_DIR_OUT :: kuint32_t where "FWK_GPIO_DIR_OUT \<equiv> 3"

text \<open>The addresses of the framework's own functions, and the size of a descriptor.\<close>

definition fwk_gpiochip_request_p :: kuaddr_t where "fwk_gpiochip_request_p = 0x80500000"
definition fwk_gpiochip_free_p :: kuaddr_t where "fwk_gpiochip_free_p = 0x80500040"
definition fwk_gpiochip_of_xlate_p :: kuaddr_t where "fwk_gpiochip_of_xlate_p = 0x80500080"
definition GPIO_DESC_SIZE :: kuaddr_t where "GPIO_DESC_SIZE = 12"

section \<open>Flags of a descriptor\<close>

definition upd_gd :: "kuaddr_t \<Rightarrow> (gpio_desc \<Rightarrow> gpio_desc) \<Rightarrow> 'e gpio_sys \<Rightarrow> 'e gpio_sys" where
  "upd_gd d f s = s\<lparr>gp_desc := (gp_desc s)(d := f (gp_desc s d))\<rparr>"

definition upd_gc :: "kuaddr_t \<Rightarrow> (gpio_chip \<Rightarrow> gpio_chip) \<Rightarrow> 'e gpio_sys \<Rightarrow> 'e gpio_sys" where
  "upd_gc c f s = s\<lparr>gp_chip := (gp_chip s)(c := f (gp_chip s c))\<rparr>"

definition fwk_gpio_desc_set_flags :: "kuaddr_t \<Rightarrow> nat \<Rightarrow> 'e gpio_sys \<Rightarrow> 'e gpio_sys" where
  "fwk_gpio_desc_set_flags d flag s = upd_gd d (\<lambda>x. x\<lparr>gd_flags := gd_flags x OR push_bit flag 1\<rparr>) s"

definition fwk_gpio_desc_check_flags :: "kuaddr_t \<Rightarrow> nat \<Rightarrow> 'e gpio_sys \<Rightarrow> bool" where
  "fwk_gpio_desc_check_flags d flag s \<longleftrightarrow> gd_flags (gp_desc s d) AND push_bit flag 1 \<noteq> 0"

definition fwk_gpio_desc_clr_flags :: "kuaddr_t \<Rightarrow> nat \<Rightarrow> 'e gpio_sys \<Rightarrow> 'e gpio_sys" where
  "fwk_gpio_desc_clr_flags d flag s = upd_gd d (\<lambda>x. x\<lparr>gd_flags := gd_flags x AND NOT (push_bit flag 1)\<rparr>) s"

definition fwk_gpiodesc_to_hwgpio :: "kuaddr_t \<Rightarrow> kuaddr_t \<Rightarrow> 'e gpio_sys \<Rightarrow> kuint32_t" where
  "fwk_gpiodesc_to_hwgpio c d s = (d - gc_desc (gp_chip s c)) div GPIO_DESC_SIZE"

definition fwk_gpiochip_get_desc :: "kuaddr_t \<Rightarrow> kuint32_t \<Rightarrow> 'e gpio_sys \<Rightarrow> kuaddr_t" where
  "fwk_gpiochip_get_desc c offset s =
     (if offset < gc_ngpios (gp_chip s c) then gc_desc (gp_chip s c) + GPIO_DESC_SIZE * offset else 0)"

section \<open>Controllers\<close>

definition fwk_gpiochip_request :: "kuaddr_t \<Rightarrow> kuint32_t \<Rightarrow> 'e gpio_sys \<Rightarrow> int \<times> 'e gpio_sys" where
  "fwk_gpiochip_request c offset s =
     (if c = 0 \<or> offset \<ge> gc_ngpios (gp_chip s c) then (- ER_NODEV, s)
      else let d = fwk_gpiochip_get_desc c offset s
           in if \<not> isValid d then (- ER_NODEV, s)
              else if fwk_gpio_desc_check_flags d NR_FWK_GPIODESC_REQUESTED s then (- ER_USED, s)
              else (sint offset, fwk_gpio_desc_set_flags d NR_FWK_GPIODESC_REQUESTED s))"

definition fwk_gpiochip_free :: "kuaddr_t \<Rightarrow> kuint32_t \<Rightarrow> 'e gpio_sys \<Rightarrow> 'e gpio_sys" where
  "fwk_gpiochip_free c offset s =
     (if c = 0 \<or> offset \<ge> gc_ngpios (gp_chip s c) then s
      else let d = fwk_gpiochip_get_desc c offset s
           in if \<not> isValid d then s else upd_gd d (\<lambda>x. x\<lparr>gd_flags := 0\<rparr>) s)"

text \<open>The reference to a pin: its node and its arguments.  The result is the pin and the flags, which stay what \<open>flags\<close> holds when there is
  one argument.\<close>

definition fwk_gpiochip_of_xlate ::
  "kuaddr_t \<Rightarrow> (kuaddr_t \<times> kuint32_t list) \<Rightarrow> kuint32_t \<Rightarrow> 'e gpio_sys \<Rightarrow> (int \<times> kuint32_t) option" where
  "fwk_gpiochip_of_xlate c sp flags s =
     (let node = fst sp; args = snd sp; args_count = length args
      in if c = 0 \<or> node = 0 then Some (- ER_NODEV, flags)
         else if gp_dev_node s (gc_dev (gp_chip s c)) \<noteq> node \<or> unat (gc_n_cells (gp_chip s c)) \<noteq> args_count
         then Some (- ER_CHECKERR, flags)
         else if args_count = 0 then None
         else let base = (if args_count = 3 then 1 else 0);
                  flags = (if args_count > 1 then args ! (base + 1) else flags)
              in Some (sint (args ! base), flags))"

definition fwk_gpiochip_init :: "kuaddr_t \<Rightarrow> kuaddr_t \<Rightarrow> kuint32_t \<Rightarrow> kuint32_t \<Rightarrow> 'e gpio_sys \<Rightarrow> int \<times> 'e gpio_sys" where
  "fwk_gpiochip_init c dev base sz s =
     (if c = 0 \<or> dev = 0 then (- ER_NODEV, s)
      else (ER_NORMAL,
            upd_gc c (\<lambda>x. x\<lparr>gc_dev := dev, gc_name := gp_dev_name s dev, gc_base := sint base, gc_ngpios := push_bit 3 sz,
              gc_request := (if gc_request x = 0 then fwk_gpiochip_request_p else gc_request x),
              gc_free := (if gc_free x = 0 then fwk_gpiochip_free_p else gc_free x),
              gc_of_xlate := (if gc_of_xlate x = 0 then fwk_gpiochip_of_xlate_p else gc_of_xlate x),
              gc_pin_ranges := []\<rparr>) s))"

text \<open>The new array is cleared, then each descriptor gets its controller and counts as an output.\<close>

fun init_descs :: "kuaddr_t \<Rightarrow> kuaddr_t \<Rightarrow> nat list \<Rightarrow> 'e gpio_sys \<Rightarrow> 'e gpio_sys" where
  "init_descs c a [] s = s"
| "init_descs c a (i # is) s =
     (let d = a + GPIO_DESC_SIZE * of_nat i
      in init_descs c a is
           (fwk_gpio_desc_set_flags d NR_FWK_GPIODESC_IS_OUT (upd_gd d (\<lambda>_. \<lparr>gd_chip = c, gd_flags = 0, gd_label = None\<rparr>) s)))"

definition fwk_gpiochip_add :: "kuaddr_t \<Rightarrow> 'e gpio_sys \<Rightarrow> int \<times> 'e gpio_sys" where
  "fwk_gpiochip_add c s =
     (if c = 0 then (- ER_NODEV, s)
      else let (a, s) = (case gp_pool s of [] \<Rightarrow> (0, s) | a # as \<Rightarrow> (a, s\<lparr>gp_pool := as\<rparr>))
           in if \<not> isValid a then (- ER_NOMEM, s)
              else let s = init_descs c a [0..<unat (gc_ngpios (gp_chip s c))] s;
                       s = upd_gc c (\<lambda>x. x\<lparr>gc_desc := a\<rparr>) s
                   in (ER_NORMAL, s\<lparr>sgrt_fwk_gpiochip_list := sgrt_fwk_gpiochip_list s @ [c]\<rparr>))"

definition fwk_gpiochip_del :: "kuaddr_t \<Rightarrow> 'e gpio_sys \<Rightarrow> 'e gpio_sys" where
  "fwk_gpiochip_del c s =
     (if c = 0 then s
      else let a = gc_desc (gp_chip s c);
               s = (if a \<noteq> 0 then s\<lparr>gp_freed := gp_freed s @ [a]\<rparr> else s);
               s = upd_gc c (\<lambda>x. x\<lparr>gc_desc := 0\<rparr>) s
           in s\<lparr>sgrt_fwk_gpiochip_list := remove1 c (sgrt_fwk_gpiochip_list s)\<rparr>)"

text \<open>Calls through the function pointers the framework may have set itself.\<close>

definition call_request :: "'e gpio_code \<Rightarrow> kuaddr_t \<Rightarrow> kuaddr_t \<Rightarrow> kuint32_t \<Rightarrow> 'e gpio_sys \<Rightarrow> int \<times> 'e gpio_sys" where
  "call_request co p = (if p = fwk_gpiochip_request_p then fwk_gpiochip_request else co_request co p)"

definition call_free :: "'e gpio_code \<Rightarrow> kuaddr_t \<Rightarrow> kuaddr_t \<Rightarrow> kuint32_t \<Rightarrow> 'e gpio_sys \<Rightarrow> 'e gpio_sys" where
  "call_free co p = (if p = fwk_gpiochip_free_p then fwk_gpiochip_free else co_free co p)"

definition call_of_xlate ::
  "'e gpio_code \<Rightarrow> kuaddr_t \<Rightarrow> kuaddr_t \<Rightarrow> (kuaddr_t \<times> kuint32_t list) \<Rightarrow> kuint32_t \<Rightarrow> 'e gpio_sys \<Rightarrow> (int \<times> kuint32_t) option" where
  "call_of_xlate co p = (if p = fwk_gpiochip_of_xlate_p then fwk_gpiochip_of_xlate else co_of_xlate co p)"

text \<open>\<open>flags\<close> is the local variable of that name, not initialised.  The result is the descriptor with the node, pin and flags of the
  reference.\<close>

record gpio_node_prop =
  np_par :: kuaddr_t
  np_gpio :: int
  np_flags :: kuint32_t

fun find_chip_loop ::
  "'e gpio_code \<Rightarrow> kuaddr_t list \<Rightarrow> (kuaddr_t \<times> kuint32_t list) \<Rightarrow> kuint32_t \<Rightarrow> 'e gpio_sys \<Rightarrow> (kuaddr_t \<times> gpio_node_prop) option option" where
  "find_chip_loop co [] sp flags s = Some None"
| "find_chip_loop co (c # cs) sp flags s =
     do { (gpio, flags) \<leftarrow> call_of_xlate co (gc_of_xlate (gp_chip s c)) c sp flags s;
          if gpio < 0 then find_chip_loop co cs sp flags s
          else Some (Some (fwk_gpiochip_get_desc c (word_of_int gpio) s, \<lparr>np_par = fst sp, np_gpio = gpio, np_flags = flags\<rparr>)) }"

definition fwk_gpiochip_and_desc_find ::
  "'e gpio_code \<Rightarrow> (kuaddr_t \<times> kuint32_t list) \<Rightarrow> kuint32_t \<Rightarrow> 'e gpio_sys \<Rightarrow> (kuaddr_t \<times> gpio_node_prop) option option" where
  "fwk_gpiochip_and_desc_find co sp flags s = find_chip_loop co (sgrt_fwk_gpiochip_list s) sp flags s"

section \<open>Directions and levels\<close>

definition fwk_gpio_get_direction :: "'e gpio_code \<Rightarrow> kuaddr_t \<Rightarrow> 'e gpio_sys \<Rightarrow> int \<times> 'e gpio_sys" where
  "fwk_gpio_get_direction co d s =
     (let c = gd_chip (gp_desc s d); offset = fwk_gpiodesc_to_hwgpio c d s; p = gc_get_direction (gp_chip s c)
      in if p \<noteq> 0
         then let dir = word_of_int (co_get_direction co p c offset s)
              in (sint (dir AND NR_FWK_GPIO_BIT_OUT),
                  if dir AND NR_FWK_GPIO_BIT_OUT \<noteq> 0 then fwk_gpio_desc_set_flags d NR_FWK_GPIODESC_IS_OUT s
                  else fwk_gpio_desc_clr_flags d NR_FWK_GPIODESC_IS_OUT s)
         else (- ER_IOERR, s))"

definition fwk_gpio_dir_is_input :: "'e gpio_code \<Rightarrow> kuaddr_t \<Rightarrow> 'e gpio_sys \<Rightarrow> bool \<times> 'e gpio_sys" where
  "fwk_gpio_dir_is_input co d s =
     (let (retval, s) = fwk_gpio_get_direction co d s
      in (if retval < 0 then False else word_of_int retval AND NR_FWK_GPIO_BIT_OUT = 0, s))"

definition fwk_gpio_set_direction :: "'e gpio_code \<Rightarrow> kuaddr_t \<Rightarrow> kuint32_t \<Rightarrow> int \<Rightarrow> 'e gpio_sys \<Rightarrow> 'e gpio_sys" where
  "fwk_gpio_set_direction co d dir val s =
     (let c = gd_chip (gp_desc s d); offset = fwk_gpiodesc_to_hwgpio c d s; out = gc_direction_output (gp_chip s c);
          inp = gc_direction_input (gp_chip s c)
      in if dir AND NR_FWK_GPIO_BIT_OUT \<noteq> 0 \<and> out \<noteq> 0
         then let (r, s) = co_direction_output co out c offset val s
              in if r = 0 then fwk_gpio_desc_set_flags d NR_FWK_GPIODESC_IS_OUT s else s
         else if inp \<noteq> 0
         then let (r, s) = co_direction_input co inp c offset s
              in if r = 0 then fwk_gpio_desc_clr_flags d NR_FWK_GPIODESC_IS_OUT s else s
         else s)"

definition fwk_gpio_set_direction_input :: "'e gpio_code \<Rightarrow> kuaddr_t \<Rightarrow> 'e gpio_sys \<Rightarrow> 'e gpio_sys" where
  "fwk_gpio_set_direction_input co d s = fwk_gpio_set_direction co d FWK_GPIO_DIR_IN 0 s"

definition fwk_gpio_set_direction_output :: "'e gpio_code \<Rightarrow> kuaddr_t \<Rightarrow> int \<Rightarrow> 'e gpio_sys \<Rightarrow> 'e gpio_sys" where
  "fwk_gpio_set_direction_output co d val s =
     (if val \<noteq> 0 \<and> fwk_gpio_desc_check_flags d NR_FWK_GPIODESC_OPEN_DRAIN s then fwk_gpio_set_direction_input co d s
      else if val = 0 \<and> fwk_gpio_desc_check_flags d NR_FWK_GPIODESC_OPEN_SOURCE s then fwk_gpio_set_direction_input co d s
      else let val = (if fwk_gpio_desc_check_flags d NR_FWK_GPIODESC_ACTIVE_LOW s then (if val = 0 then 1 else 0) else val)
           in fwk_gpio_set_direction co d FWK_GPIO_DIR_OUT val s)"

definition fwk_gpio_set_value :: "'e gpio_code \<Rightarrow> kuaddr_t \<Rightarrow> kuint32_t \<Rightarrow> 'e gpio_sys \<Rightarrow> 'e gpio_sys" where
  "fwk_gpio_set_value co d val s =
     (let c = gd_chip (gp_desc s d); offset = fwk_gpiodesc_to_hwgpio c d s; p = gc_set (gp_chip s c)
      in if \<not> fwk_gpio_desc_check_flags d NR_FWK_GPIODESC_IS_OUT s then s
         else let val = (if fwk_gpio_desc_check_flags d NR_FWK_GPIODESC_ACTIVE_LOW s then (if val = 0 then 1 else 0) else val)
              in if p \<noteq> 0 then co_set co p c offset (sint val) s else s)"

text \<open>\<^verbatim>\<open>value\<close> and \<^verbatim>\<open>irq\<close> are unsigned in the next two functions: a negative result of the driver is not seen as one.\<close>

definition fwk_gpio_get_value :: "'e gpio_code \<Rightarrow> kuaddr_t \<Rightarrow> 'e gpio_sys \<Rightarrow> int" where
  "fwk_gpio_get_value co d s =
     (let c = gd_chip (gp_desc s d); offset = fwk_gpiodesc_to_hwgpio c d s; p = gc_get (gp_chip s c)
      in if p \<noteq> 0
         then let val = (word_of_int (co_get co p c offset s) :: kuint32_t);
                  val = (if fwk_gpio_desc_check_flags d NR_FWK_GPIODESC_ACTIVE_LOW s then (if val = 0 then 1 else 0) else val)
              in sint val
         else - ER_IOERR)"

definition fwk_gpio_desc_to_irq :: "'e gpio_code \<Rightarrow> kuaddr_t \<Rightarrow> 'e gpio_sys \<Rightarrow> (int \<times> 'e gpio_sys) option" where
  "fwk_gpio_desc_to_irq co d s =
     (let c = gd_chip (gp_desc s d); offset = fwk_gpiodesc_to_hwgpio c d s; p = gc_to_irq (gp_chip s c)
      in if p \<noteq> 0
         then do { (irq, s) \<leftarrow> co_to_irq co p c offset s;
                   Some (irq, fwk_gpio_desc_set_flags d NR_FWK_GPIODESC_USED_AS_IRQ s) }
         else Some (- ER_IOERR, s))"

section \<open>Requesting and releasing\<close>

definition fwk_gpio_request :: "'e gpio_code \<Rightarrow> kuaddr_t \<Rightarrow> bytes option \<Rightarrow> 'e gpio_sys \<Rightarrow> int \<times> 'e gpio_sys" where
  "fwk_gpio_request co d label s =
     (let c = gd_chip (gp_desc s d); gpio = fwk_gpiodesc_to_hwgpio c d s; p = gc_request (gp_chip s c);
          (r, s) = (if p \<noteq> 0 then call_request co p c gpio s else (0, s))
      in if r < 0 then (r, s)
         else let s = upd_gd d (\<lambda>x. x\<lparr>gd_label := label\<rparr>) s;
                  (r, s) = fwk_gpio_get_direction co d s
              in if r < 0 then (r, s) else (ER_NORMAL, s))"

definition fwk_gpio_free :: "'e gpio_code \<Rightarrow> kuaddr_t \<Rightarrow> 'e gpio_sys \<Rightarrow> 'e gpio_sys" where
  "fwk_gpio_free co d s =
     (let c = gd_chip (gp_desc s d); gpio = fwk_gpiodesc_to_hwgpio c d s; p = gc_free (gp_chip s c);
          s = (if p \<noteq> 0 then call_free co p c gpio s else s)
      in fwk_gpio_desc_set_flags d NR_FWK_GPIODESC_IS_OUT (upd_gd d (\<lambda>x. x\<lparr>gd_label := None\<rparr>) s))"

definition fwk_gpio_is_requested :: "kuaddr_t \<Rightarrow> 'e gpio_sys \<Rightarrow> bool" where
  "fwk_gpio_is_requested d s = fwk_gpio_desc_check_flags d NR_FWK_GPIODESC_REQUESTED s"

text \<open>The descriptor is null when the property has no such reference; \<open>junk\<close> is the value of the uninitialised variable.\<close>

definition fwk_of_get_named_gpiodesc_flags ::
  "'e gpio_code \<Rightarrow> kuaddr_t \<Rightarrow> bytes \<Rightarrow> int \<Rightarrow> kuint32_t \<Rightarrow> 'e gpio_sys \<Rightarrow> (kuaddr_t \<times> kuint32_t option \<times> 'e gpio_sys) option" where
  "fwk_of_get_named_gpiodesc_flags co node list_name index junk s =
     do { (r, spec) \<leftarrow> fwk_of_parse_phandle_with_args node list_name (Some (lit ''#gpio-cells'')) 0 index (gp_tree s);
          case spec of
            None \<Rightarrow> Some (0, None, s)
          | Some sp \<Rightarrow>
              do { found \<leftarrow> fwk_gpiochip_and_desc_find co sp junk s;
                   Some (case found of
                           None \<Rightarrow> (0, None, s)
                         | Some (d, np) \<Rightarrow>
                             if \<not> isValid d then (d, None, s)
                             else let fl = np_flags np;
                                      s = (if fl AND GPIO_ACTIVE_LOW \<noteq> 0 then fwk_gpio_desc_set_flags d NR_FWK_GPIODESC_ACTIVE_LOW s else s);
                                      s = (if fl AND GPIO_OPEN_DRAIN \<noteq> 0 then fwk_gpio_desc_set_flags d NR_FWK_GPIODESC_OPEN_DRAIN s else s);
                                      s = (if fl AND GPIO_OPEN_SOURCE \<noteq> 0 then fwk_gpio_desc_set_flags d NR_FWK_GPIODESC_OPEN_SOURCE s else s)
                                  in (d, Some fl, s)) } }"

definition fwk_of_get_named_gpio_flags ::
  "'e gpio_code \<Rightarrow> kuaddr_t \<Rightarrow> bytes \<Rightarrow> int \<Rightarrow> kuint32_t \<Rightarrow> 'e gpio_sys \<Rightarrow> (int \<times> kuint32_t option \<times> 'e gpio_sys) option" where
  "fwk_of_get_named_gpio_flags co node list_name index junk s =
     do { (d, fl, s) \<leftarrow> fwk_of_get_named_gpiodesc_flags co node list_name index junk s;
          Some (if \<not> isValid d then (- ER_NOTFOUND, fl, s)
                else (sint (fwk_gpiodesc_to_hwgpio (gd_chip (gp_desc s d)) d s), fl, s)) }"

text \<open>The name of the property is printed into an array of 16 bytes; \<open>temp\<close> and \<open>cnt\<close> are the uninitialised variables of the printer.\<close>

definition fwk_gpio_desc_get ::
  "'e gpio_code \<Rightarrow> (nat \<Rightarrow> kuint8_t) \<Rightarrow> nat \<Rightarrow> kuint32_t \<Rightarrow> kuaddr_t \<Rightarrow> bytes option \<Rightarrow> kuint32_t \<Rightarrow> 'e gpio_sys \<Rightarrow>
     (kuaddr_t \<times> 'e gpio_sys) option" where
  "fwk_gpio_desc_get co temp cnt junk dev con_id flags s =
     (case con_id of
        None \<Rightarrow> Some (0, s)
      | Some con \<Rightarrow>
          if dev = 0 then Some (0, s)
          else do {
            (_, list_name) \<leftarrow> sprintk temp cnt (lit ''%s-gpios'') [VaStr con];
            if length list_name > 16 then None
            else do {
              (d, _, s) \<leftarrow> fwk_of_get_named_gpiodesc_flags co (gp_dev_node s dev) list_name 0 junk s;
              if \<not> isValid d then Some (0, s)
              else let (r, s) = fwk_gpio_request co d con_id s
                   in if r \<noteq> 0 then Some (0, s)
                      else if flags AND NR_FWK_GPIO_BIT_SET = 0 then Some (d, s)
                      else if flags AND NR_FWK_GPIO_BIT_OUT \<noteq> 0
                      then Some (d, fwk_gpio_set_direction_output co d (sint (flags AND NR_FWK_GPIO_BIT_VAL)) s)
                      else Some (d, fwk_gpio_set_direction_input co d s) } })"

definition fwk_gpio_desc_put :: "'e gpio_code \<Rightarrow> kuaddr_t \<Rightarrow> 'e gpio_sys \<Rightarrow> 'e gpio_sys" where
  "fwk_gpio_desc_put co d s =
     fwk_gpio_desc_set_flags d NR_FWK_GPIODESC_ACTIVE_LOW (fwk_gpio_set_direction_output co d 0 (fwk_gpio_free co d s))"


section \<open>Flags as bits\<close>

lemma check_flags_bit: "fwk_gpio_desc_check_flags d k s \<longleftrightarrow> bit (gd_flags (gp_desc s d)) k"
  by (simp add: fwk_gpio_desc_check_flags_def push_bit_eq_mult and_exp_eq_0_iff_not_bit)

lemma bit_or_flag: "k < 32 \<Longrightarrow> bit (set_bit k w :: kuint32_t) i \<longleftrightarrow> bit w i \<or> i = k"
  by (auto simp: bit_set_bit_iff possible_bit_word)

lemma bit_unset_flag: "bit (unset_bit k w :: kuint32_t) i \<longleftrightarrow> bit w i \<and> i \<noteq> k"
  by (auto simp: bit_unset_bit_iff)

lemma gd_set_flags:
  "gp_desc (fwk_gpio_desc_set_flags d k s) = (gp_desc s)(d := (gp_desc s d)\<lparr>gd_flags := set_bit k (gd_flags (gp_desc s d))\<rparr>)"
  "gp_chip (fwk_gpio_desc_set_flags d k s) = gp_chip s" "gp_env (fwk_gpio_desc_set_flags d k s) = gp_env s"
  by (simp_all add: fwk_gpio_desc_set_flags_def upd_gd_def set_bit_eq_or)

lemma gd_clr_flags:
  "gp_desc (fwk_gpio_desc_clr_flags d k s) = (gp_desc s)(d := (gp_desc s d)\<lparr>gd_flags := unset_bit k (gd_flags (gp_desc s d))\<rparr>)"
  "gp_chip (fwk_gpio_desc_clr_flags d k s) = gp_chip s" "gp_env (fwk_gpio_desc_clr_flags d k s) = gp_env s"
  by (simp_all add: fwk_gpio_desc_clr_flags_def upd_gd_def unset_bit_eq_and_not)

lemma gd_upd:
  "gp_desc (upd_gd d f s) = (gp_desc s)(d := f (gp_desc s d))" "gp_chip (upd_gd d f s) = gp_chip s" "gp_env (upd_gd d f s) = gp_env s"
  by (simp_all add: upd_gd_def)

lemmas gd_simps = gd_set_flags gd_clr_flags gd_upd

lemma flag_of_set: "k < 32 \<Longrightarrow> bit (gd_flags (gp_desc (fwk_gpio_desc_set_flags d k s) x)) i \<longleftrightarrow> bit (gd_flags (gp_desc s x)) i \<or> x = d \<and> i = k"
  by (auto simp: gd_simps bit_or_flag)

lemma flag_of_clr: "k < 32 \<Longrightarrow> bit (gd_flags (gp_desc (fwk_gpio_desc_clr_flags d k s) x)) i \<longleftrightarrow> bit (gd_flags (gp_desc s x)) i \<and> \<not> (x = d \<and> i = k)"
  by (auto simp: gd_simps bit_unset_flag)

section \<open>Pins\<close>

text \<open>Descriptor \<open>d\<close> is that of pin \<open>off\<close> of controller \<open>c\<close>, which uses the framework's own request and release.\<close>

definition pin :: "'e gpio_sys \<Rightarrow> kuaddr_t \<Rightarrow> kuaddr_t \<Rightarrow> kuint32_t \<Rightarrow> bool" where
  "pin s d c off \<longleftrightarrow> c \<noteq> 0 \<and> off < gc_ngpios (gp_chip s c) \<and> d = gc_desc (gp_chip s c) + GPIO_DESC_SIZE * off \<and> isValid d \<and>
     12 * unat off < 2 ^ 31 \<and> gd_chip (gp_desc s d) = c \<and>
     gc_request (gp_chip s c) = fwk_gpiochip_request_p \<and> gc_free (gp_chip s c) = fwk_gpiochip_free_p"

definition requested :: "'e gpio_sys \<Rightarrow> kuaddr_t \<Rightarrow> bool" where
  "requested s d \<longleftrightarrow> bit (gd_flags (gp_desc s d)) NR_FWK_GPIODESC_REQUESTED"

definition owner :: "'e gpio_sys \<Rightarrow> kuaddr_t \<Rightarrow> bytes option option" where
  "owner s d = (if requested s d then Some (gd_label (gp_desc s d)) else None)"

definition is_out :: "'e gpio_sys \<Rightarrow> kuaddr_t \<Rightarrow> bool" where
  "is_out s d \<longleftrightarrow> bit (gd_flags (gp_desc s d)) NR_FWK_GPIODESC_IS_OUT"

definition active_low :: "'e gpio_sys \<Rightarrow> kuaddr_t \<Rightarrow> bool" where
  "active_low s d \<longleftrightarrow> bit (gd_flags (gp_desc s d)) NR_FWK_GPIODESC_ACTIVE_LOW"

lemmas flag_views = requested_def is_out_def active_low_def

lemma to_hwgpio_pin:
  assumes "pin s d c off"
  shows "fwk_gpiodesc_to_hwgpio c d s = off"
proof -
  have l: "12 * unat off < 2 ^ 31" and d: "d - gc_desc (gp_chip s c) = 12 * off" using assms by (simp_all add: pin_def GPIO_DESC_SIZE_def)
  have "unat (12 * off) = 12 * unat off" using l by (subst unat_mult_small) simp_all
  then have "unat ((12 * off) div 12) = unat off" by (simp add: unat_div_distrib)
  then have "(12 * off) div 12 = off" by (rule unsigned_word_eqI)
  then show ?thesis by (simp add: fwk_gpiodesc_to_hwgpio_def d GPIO_DESC_SIZE_def)
qed

lemma pin_get_desc: "pin s d c off \<Longrightarrow> fwk_gpiochip_get_desc c off s = d"
  by (simp add: pin_def fwk_gpiochip_get_desc_def)

lemma pin_unique: "pin s d c off \<Longrightarrow> pin s d c' off' \<Longrightarrow> c' = c \<and> off' = off"
  using to_hwgpio_pin [of s d c off] to_hwgpio_pin [of s d c' off'] by (auto simp: pin_def)

lemma pin_chip: "pin s d c off \<Longrightarrow> gd_chip (gp_desc s d) = c"
  unfolding pin_def by blast

lemma pin_facts:
  assumes "pin s d c off"
  shows "c \<noteq> 0" "\<not> gc_ngpios (gp_chip s c) \<le> off" "isValid d" "gc_request (gp_chip s c) = fwk_gpiochip_request_p"
    "gc_free (gp_chip s c) = fwk_gpiochip_free_p" "gd_chip (gp_desc s d) = c"
  using assms unfolding pin_def by (blast, simp add: not_le, blast+)

lemma pin_sint: "pin s d c off \<Longrightarrow> 0 \<le> sint off"
proof -
  assume "pin s d c off"
  then have "unat off < 2 ^ 31" by (simp add: pin_def)
  then show ?thesis using sint_of_nat_small [of "unat off"] by simp
qed

lemma pin_cong:
  "gp_chip s' = gp_chip s \<Longrightarrow> (\<And>x. gd_chip (gp_desc s' x) = gd_chip (gp_desc s x)) \<Longrightarrow> pin s' d c off = pin s d c off"
  by (simp add: pin_def)

lemma request_pin:
  assumes "pin s d c off"
  shows "call_request co (gc_request (gp_chip s c)) c off s =
     (if requested s d then (- ER_USED, s) else (sint off, fwk_gpio_desc_set_flags d NR_FWK_GPIODESC_REQUESTED s))"
  using assms by (simp add: call_request_def fwk_gpiochip_request_def pin_get_desc pin_facts check_flags_bit requested_def Let_def)

lemma free_pin:
  assumes "pin s d c off"
  shows "call_free co (gc_free (gp_chip s c)) c off s = upd_gd d (\<lambda>x. x\<lparr>gd_flags := 0\<rparr>) s"
  using assms by (simp add: call_free_def fwk_gpiochip_free_def pin_get_desc pin_facts Let_def)


section \<open>From the device tree to a pin\<close>

text \<open>The controllers translate references themselves: the first one whose node and number of cells fit takes it.\<close>

definition spec_pin :: "kuint32_t list \<Rightarrow> int" where
  "spec_pin args = sint (args ! (if length args = 3 then 1 else 0))"

definition spec_flags :: "kuint32_t list \<Rightarrow> kuint32_t" where
  "spec_flags args = args ! (if length args = 3 then 2 else 1)"

definition takes_spec :: "'e gpio_sys \<Rightarrow> kuaddr_t \<times> kuint32_t list \<Rightarrow> kuaddr_t \<Rightarrow> bool" where
  "takes_spec s sp c \<longleftrightarrow> gp_dev_node s (gc_dev (gp_chip s c)) = fst sp \<and> unat (gc_n_cells (gp_chip s c)) = length (snd sp)"

lemma xlate_spec:
  assumes "c \<noteq> 0" and "fst sp \<noteq> 0" and "2 \<le> length (snd sp)"
  shows "fwk_gpiochip_of_xlate c sp flags s = Some (if takes_spec s sp c then (spec_pin (snd sp), spec_flags (snd sp)) else (- ER_CHECKERR, flags))"
proof -
  have "snd sp \<noteq> []" using assms(3) by auto
  then show ?thesis using assms by (auto simp: fwk_gpiochip_of_xlate_def takes_spec_def spec_pin_def spec_flags_def Let_def numeral_2_eq_2)
qed

lemma find_chip_spec:
  assumes "\<forall>c \<in> set cs. c \<noteq> 0 \<and> gc_of_xlate (gp_chip s c) = fwk_gpiochip_of_xlate_p" and "fst sp \<noteq> 0" and "2 \<le> length (snd sp)"
    and "0 \<le> spec_pin (snd sp)"
  shows "find_chip_loop co cs sp flags s = Some (case find (takes_spec s sp) cs of None \<Rightarrow> None
     | Some c \<Rightarrow> Some (fwk_gpiochip_get_desc c (word_of_int (spec_pin (snd sp))) s,
                       \<lparr>np_par = fst sp, np_gpio = spec_pin (snd sp), np_flags = spec_flags (snd sp)\<rparr>))"
  using assms(1) by (induction cs arbitrary: flags) (use assms(2-) in \<open>simp_all add: call_of_xlate_def xlate_spec\<close>)

text \<open>The flags of a reference as flags of the descriptor.\<close>

definition apply_dt_flags :: "kuint32_t \<Rightarrow> kuint32_t \<Rightarrow> kuint32_t" where
  "apply_dt_flags fl w = w OR (if bit fl 0 then 16 else 0) OR (if bit fl 1 then 32 else 0) OR (if bit fl 2 then 64 else 0)"

lemma dt_flag_bits: "(fl :: kuint32_t) AND 1 = 0 \<longleftrightarrow> \<not> bit fl 0" "fl AND 2 = 0 \<longleftrightarrow> \<not> bit fl 1" "fl AND 4 = 0 \<longleftrightarrow> \<not> bit fl 2"
  using and_exp_eq_0_iff_not_bit [of fl 0] and_exp_eq_0_iff_not_bit [of fl 1] and_exp_eq_0_iff_not_bit [of fl 2] by simp_all

lemma named_gpiodesc_found:
  assumes nm: "node \<noteq> 0" "fwk_of_find_property node nm (gp_tree s) = Some p" "holds_cells p (spec_cells (gp_tree s) sps)"
      "\<forall>sp \<in> set sps. spec_ok (Some (lit ''#gpio-cells'')) 0 (gp_tree s) sp"
    and ix: "0 \<le> index" "nat index < length sps" "sps ! nat index = (np, args)" "np \<noteq> 0" "2 \<le> length args" "0 \<le> spec_pin args"
    and cs: "\<forall>c \<in> set (sgrt_fwk_gpiochip_list s). c \<noteq> 0 \<and> gc_of_xlate (gp_chip s c) = fwk_gpiochip_of_xlate_p"
    and c: "find (takes_spec s (np, args)) (sgrt_fwk_gpiochip_list s) = Some c"
    and d: "fwk_gpiochip_get_desc c (word_of_int (spec_pin args)) s = d" "isValid d"
  shows "fwk_of_get_named_gpiodesc_flags co node nm index junk s =
     Some (d, Some (spec_flags args), upd_gd d (\<lambda>x. x\<lparr>gd_flags := apply_dt_flags (spec_flags args) (gd_flags x)\<rparr>) s)"
proof -
  have "sps \<noteq> []" using ix(2) by auto
  then have "fwk_of_parse_phandle_with_args node nm (Some (lit ''#gpio-cells'')) 0 index (gp_tree s) = Some (ER_NORMAL, Some (np, args))"
    using parse_phandle_specs [OF nm(1,2,3) _ nm(4) ix(1)] ix by simp
  moreover have "fwk_gpiochip_and_desc_find co (np, args) junk s = Some (Some (d, \<lparr>np_par = np, np_gpio = spec_pin args, np_flags = spec_flags args\<rparr>))"
    using find_chip_spec [OF cs, of "(np, args)" co junk] ix c d by (simp add: fwk_gpiochip_and_desc_find_def)
  ultimately show ?thesis using d
    by (simp add: fwk_of_get_named_gpiodesc_flags_def Let_def dt_flag_bits apply_dt_flags_def fwk_gpio_desc_set_flags_def upd_gd_def or.assoc)
qed

section \<open>The contract of the drivers\<close>

text \<open>
  What a driver promises for its controllers: \<open>live m e c\<close> says that it serves controller \<open>c\<close>, given the controllers \<open>m\<close> and its
  own state \<open>e\<close>.  \<open>out\<close> and \<open>high\<close> are the direction and the level the hardware has for a pin.  The driver changes nothing but
  its own state, and there only what concerns the pin it is called for.
\<close>

type_synonym 'e hw_live = "(kuaddr_t \<Rightarrow> gpio_chip) \<Rightarrow> 'e \<Rightarrow> kuaddr_t \<Rightarrow> bool"
type_synonym 'e hw_view = "'e \<Rightarrow> kuaddr_t \<Rightarrow> kuint32_t \<Rightarrow> bool"

definition moves :: "'e hw_live \<Rightarrow> 'e hw_view \<Rightarrow> (kuaddr_t \<Rightarrow> gpio_chip) \<Rightarrow> kuaddr_t \<Rightarrow> kuint32_t \<Rightarrow> (bool \<Rightarrow> bool) \<Rightarrow> 'e \<Rightarrow> 'e \<Rightarrow> bool" where
  "moves live view m c off f e e' \<longleftrightarrow>
     (\<forall>c'. live m e' c' = live m e c' \<and>
           (live m e c' \<longrightarrow> (\<forall>off'. view e' c' off' = (if c' = c \<and> off' = off then f (view e c' off') else view e c' off'))))"

lemma moves_trans:
  "moves live view m c off f e e1 \<Longrightarrow> moves live view m c off g e1 e2 \<Longrightarrow> moves live view m c off (\<lambda>b. g (f b)) e e2"
  unfolding moves_def by auto

text \<open>A descriptor of a pin a driver serves; and that what is remembered of the direction of every requested pin is what the hardware has.\<close>

definition served :: "'e hw_live \<Rightarrow> 'e gpio_sys \<Rightarrow> kuaddr_t \<Rightarrow> kuaddr_t \<Rightarrow> kuint32_t \<Rightarrow> bool" where
  "served live s d c off \<longleftrightarrow> pin s d c off \<and> live (gp_chip s) (gp_env s) c"

definition synced :: "'e hw_live \<Rightarrow> 'e hw_view \<Rightarrow> 'e gpio_sys \<Rightarrow> bool" where
  "synced live out s \<longleftrightarrow> (\<forall>d c off. served live s d c off \<longrightarrow> requested s d \<longrightarrow> is_out s d = out (gp_env s) c off)"

text \<open>The shape of every operation: nothing of the framework changes but the flags and the label of one descriptor, and the driver's
  state moves for that pin alone.\<close>

definition touches :: "'e hw_live \<Rightarrow> 'e hw_view \<Rightarrow> 'e hw_view \<Rightarrow> kuaddr_t \<Rightarrow> kuaddr_t \<Rightarrow> kuint32_t \<Rightarrow>
    (bool \<Rightarrow> bool) \<Rightarrow> (bool \<Rightarrow> bool) \<Rightarrow> 'e gpio_sys \<Rightarrow> 'e gpio_sys \<Rightarrow> bool" where
  "touches live out high d c off f h s s' \<longleftrightarrow> gp_chip s' = gp_chip s \<and> gd_chip (gp_desc s' d) = gd_chip (gp_desc s d) \<and>
     (\<forall>x. x \<noteq> d \<longrightarrow> gp_desc s' x = gp_desc s x) \<and>
     moves live out (gp_chip s) c off f (gp_env s) (gp_env s') \<and> moves live high (gp_chip s) c off h (gp_env s) (gp_env s')"

lemma served_facts:
  assumes "served live s d c off"
  shows "off < gc_ngpios (gp_chip s c)" "live (gp_chip s) (gp_env s) c" "pin s d c off" "gd_chip (gp_desc s d) = c"
    "fwk_gpiodesc_to_hwgpio c d s = off" "isValid d"
  using assms pin_facts [of s d c off] to_hwgpio_pin [of s d c off] by (simp_all add: served_def not_le)

lemma touches_pin:
  assumes "touches live out high d c off f h s s'"
  shows "pin s' x c' off' = pin s x c' off'"
proof (rule pin_cong)
  show "gp_chip s' = gp_chip s" using assms by (simp add: touches_def)
  show "gd_chip (gp_desc s' y) = gd_chip (gp_desc s y)" for y using assms by (cases "y = d") (simp_all add: touches_def)
qed

lemma touches_live: "touches live out high d c off f h s s' \<Longrightarrow> live (gp_chip s') (gp_env s') c' = live (gp_chip s) (gp_env s) c'"
  by (simp add: touches_def moves_def)

lemma touches_served: "touches live out high d c off f h s s' \<Longrightarrow> served live s' x c' off' = served live s x c' off'"
  by (simp add: served_def touches_pin touches_live)

lemma touches_out:
  "touches live out high d c off f h s s' \<Longrightarrow> live (gp_chip s) (gp_env s) c' \<Longrightarrow>
     out (gp_env s') c' off' = (if c' = c \<and> off' = off then f (out (gp_env s) c' off') else out (gp_env s) c' off')"
  by (simp add: touches_def moves_def)

lemma touches_high:
  "touches live out high d c off f h s s' \<Longrightarrow> live (gp_chip s) (gp_env s) c' \<Longrightarrow>
     high (gp_env s') c' off' = (if c' = c \<and> off' = off then h (high (gp_env s) c' off') else high (gp_env s) c' off')"
  by (simp add: touches_def moves_def)

lemma touches_flags: "gp_chip s' = gp_chip s \<Longrightarrow> gp_env s' = gp_env s \<Longrightarrow> gd_chip (gp_desc s' d) = gd_chip (gp_desc s d) \<Longrightarrow>
    (\<And>x. x \<noteq> d \<Longrightarrow> gp_desc s' x = gp_desc s x) \<Longrightarrow> touches live out high d c off id id s s'"
  by (simp add: touches_def moves_def)

lemma touches_then_flags:
  "touches live out high d c off f h s s1 \<Longrightarrow> gp_chip s' = gp_chip s1 \<Longrightarrow> gp_env s' = gp_env s1 \<Longrightarrow> gd_chip (gp_desc s' d) = gd_chip (gp_desc s1 d) \<Longrightarrow>
    (\<And>x. x \<noteq> d \<Longrightarrow> gp_desc s' x = gp_desc s1 x) \<Longrightarrow> touches live out high d c off f h s s'"
  by (simp add: touches_def)

text \<open>An operation keeps what is remembered true if it does so for the one pin.\<close>

lemma touches_synced:
  assumes t: "touches live out high d c off f h s s'" and sv: "served live s d c off" and sy: "synced live out s"
    and d: "requested s' d \<Longrightarrow> is_out s' d = out (gp_env s') c off"
  shows "synced live out s'"
  unfolding synced_def
proof (intro allI impI)
  fix x c' off' assume sv': "served live s' x c' off'" and rq: "requested s' x"
  have sx: "served live s x c' off'" using sv' touches_served [OF t] by blast
  show "is_out s' x = out (gp_env s') c' off'"
  proof (cases "x = d")
    case True
    then have "c' = c" "off' = off" using pin_unique [of s d c off c' off'] sv sx by (simp_all add: served_def)
    then show ?thesis using d rq True by simp
  next
    case False
    have e: "gp_desc s' x = gp_desc s x" using t False by (simp add: touches_def)
    have "\<not> (c' = c \<and> off' = off)" using False sv sx by (auto simp: served_def pin_def)
    then have "out (gp_env s') c' off' = out (gp_env s) c' off'" using touches_out [OF t] served_facts(2) [OF sx] by auto
    moreover have "is_out s' x = is_out s x" "requested s x" using e rq by (simp_all add: flag_views)
    ultimately show ?thesis using sy sx by (auto simp: synced_def)
  qed
qed

text \<open>Sequences of the operations a user of pins can call, with the results the calls return.\<close>

datatype gpio_op =
    Op_request (op_pin: kuaddr_t) "bytes option"
  | Op_free (op_pin: kuaddr_t)
  | Op_put (op_pin: kuaddr_t)
  | Op_input (op_pin: kuaddr_t)
  | Op_output (op_pin: kuaddr_t) int
  | Op_set (op_pin: kuaddr_t) kuint32_t
  | Op_get_direction (op_pin: kuaddr_t)

fun gpio_op_step :: "'e gpio_code \<Rightarrow> gpio_op \<Rightarrow> 'e gpio_sys \<Rightarrow> int \<times> 'e gpio_sys" where
  "gpio_op_step co (Op_request d l) s = fwk_gpio_request co d l s"
| "gpio_op_step co (Op_free d) s = (0, fwk_gpio_free co d s)"
| "gpio_op_step co (Op_put d) s = (0, fwk_gpio_desc_put co d s)"
| "gpio_op_step co (Op_input d) s = (0, fwk_gpio_set_direction_input co d s)"
| "gpio_op_step co (Op_output d v) s = (0, fwk_gpio_set_direction_output co d v s)"
| "gpio_op_step co (Op_set d v) s = (0, fwk_gpio_set_value co d v s)"
| "gpio_op_step co (Op_get_direction d) s = (0, snd (fwk_gpio_get_direction co d s))"

fun gpio_run :: "'e gpio_code \<Rightarrow> gpio_op list \<Rightarrow> 'e gpio_sys \<Rightarrow> int list \<times> 'e gpio_sys" where
  "gpio_run co [] s = ([], s)"
| "gpio_run co (op # ops) s = (let (r, s) = gpio_op_step co op s; (rs, s) = gpio_run co ops s in (r # rs, s))"

text \<open>The levels passed in are not negative as signed numbers, as the drivers ask for.\<close>

fun op_level_ok :: "gpio_op \<Rightarrow> bool" where
  "op_level_ok (Op_output d v) = (0 \<le> v)"
| "op_level_ok (Op_set d v) = (0 \<le> sint v)"
| "op_level_ok _ = True"

definition op_ok :: "'e hw_live \<Rightarrow> 'e gpio_sys \<Rightarrow> gpio_op \<Rightarrow> bool" where
  "op_ok live s op \<longleftrightarrow> (\<exists>c off. served live s (op_pin op) c off) \<and> op_level_ok op"

text \<open>The specification of ownership: a pin has at most one owner, named by its label.\<close>

fun spec_own :: "gpio_op \<Rightarrow> (kuaddr_t \<Rightarrow> bytes option option) \<Rightarrow> int \<times> (kuaddr_t \<Rightarrow> bytes option option)" where
  "spec_own (Op_request d l) w = (if w d = None then (ER_NORMAL, w(d := Some l)) else (- ER_USED, w))"
| "spec_own (Op_free d) w = (0, w(d := None))"
| "spec_own (Op_put d) w = (0, w(d := None))"
| "spec_own _ w = (0, w)"

fun spec_own_run :: "gpio_op list \<Rightarrow> (kuaddr_t \<Rightarrow> bytes option option) \<Rightarrow> int list \<times> (kuaddr_t \<Rightarrow> bytes option option)" where
  "spec_own_run [] w = ([], w)"
| "spec_own_run (op # ops) w = (let (r, w) = spec_own op w; (rs, w) = spec_own_run ops w in (r # rs, w))"

lemma touches_owner:
  assumes "touches live out high d c off f h s s'"
  shows "owner s' = (owner s)(d := owner s' d)"
  using assms by (auto simp: owner_def requested_def touches_def)

lemma owner_desc: "owner s d = (if bit (gd_flags (gp_desc s d)) 0 then Some (gd_label (gp_desc s d)) else None)"
  by (simp add: owner_def requested_def)

text \<open>What a step has to achieve.\<close>

definition step_ok :: "'e hw_live \<Rightarrow> 'e hw_view \<Rightarrow> 'e hw_view \<Rightarrow> 'e gpio_sys \<Rightarrow> gpio_op \<Rightarrow> int \<times> 'e gpio_sys \<Rightarrow> bool" where
  "step_ok live out high s op r \<longleftrightarrow>
     (\<exists>c off f h. served live s (op_pin op) c off \<and> touches live out high (op_pin op) c off f h s (snd r) \<and>
        (synced live out s \<longrightarrow> requested (snd r) (op_pin op) \<longrightarrow> is_out (snd r) (op_pin op) = out (gp_env (snd r)) c off)) \<and>
     fst r = fst (spec_own op (owner s)) \<and> owner (snd r) (op_pin op) = snd (spec_own op (owner s)) (op_pin op)"

lemma step_okI:
  "op_pin op = d \<Longrightarrow> served live s d c off \<Longrightarrow> touches live out high d c off f h s s' \<Longrightarrow> snd r = s' \<Longrightarrow>
     (synced live out s \<Longrightarrow> requested s' d \<Longrightarrow> is_out s' d = out (gp_env s') c off) \<Longrightarrow>
     fst r = fst (spec_own op (owner s)) \<Longrightarrow> owner s' d = snd (spec_own op (owner s)) d \<Longrightarrow> step_ok live out high s op r"
  unfolding step_ok_def by blast

lemma spec_own_frame: "x \<noteq> op_pin op \<Longrightarrow> snd (spec_own op w) x = w x"
  by (cases op) auto

lemma step_owner: "step_ok live out high s op r \<Longrightarrow> spec_own op (owner s) = (fst r, owner (snd r))"
proof -
  assume st: "step_ok live out high s op r"
  then obtain c off f h where "touches live out high (op_pin op) c off f h s (snd r)" by (auto simp: step_ok_def)
  then have "owner (snd r) x = snd (spec_own op (owner s)) x" for x
    using st touches_owner [of live out high "op_pin op" c off f h s "snd r"] spec_own_frame [of x op "owner s"]
    by (cases "x = op_pin op") (auto simp: step_ok_def fun_eq_iff)
  then show ?thesis using st by (simp add: step_ok_def prod_eq_iff fun_eq_iff)
qed

lemma step_synced: "step_ok live out high s op r \<Longrightarrow> synced live out s \<Longrightarrow> synced live out (snd r)"
  unfolding step_ok_def by (blast intro: touches_synced)

lemma step_op_ok: "step_ok live out high s op r \<Longrightarrow> op_ok live (snd r) op' = op_ok live s op'"
proof -
  assume "step_ok live out high s op r"
  then obtain c off f h where "touches live out high (op_pin op) c off f h s (snd r)" unfolding step_ok_def by blast
  then show ?thesis by (simp add: op_ok_def touches_served)
qed

locale gpio_hw =
  fixes co :: "'e gpio_code"
    and live :: "'e hw_live"
    and out :: "'e hw_view"
    and high :: "'e hw_view"
  assumes hw_pointers: "live m e c \<Longrightarrow> gc_get_direction (m c) \<noteq> 0 \<and> gc_direction_output (m c) \<noteq> 0 \<and> gc_direction_input (m c) \<noteq> 0 \<and>
       gc_get (m c) \<noteq> 0 \<and> gc_set (m c) \<noteq> 0"
    and hw_direction: "live (gp_chip s) (gp_env s) c \<Longrightarrow> off < gc_ngpios (gp_chip s c) \<Longrightarrow>
       (word_of_int (co_get_direction co (gc_get_direction (gp_chip s c)) c off s) :: kuint32_t) AND 2 = (if out (gp_env s) c off then 2 else 0)"
    and hw_input: "live (gp_chip s) (gp_env s) c \<Longrightarrow> off < gc_ngpios (gp_chip s c) \<Longrightarrow>
       \<exists>e. co_direction_input co (gc_direction_input (gp_chip s c)) c off s = (0, s\<lparr>gp_env := e\<rparr>) \<and>
           moves live out (gp_chip s) c off (\<lambda>_. False) (gp_env s) e \<and> moves live high (gp_chip s) c off id (gp_env s) e"
    and hw_output: "live (gp_chip s) (gp_env s) c \<Longrightarrow> off < gc_ngpios (gp_chip s c) \<Longrightarrow> 0 \<le> v \<Longrightarrow>
       \<exists>e. co_direction_output co (gc_direction_output (gp_chip s c)) c off v s = (0, s\<lparr>gp_env := e\<rparr>) \<and>
           moves live out (gp_chip s) c off (\<lambda>_. True) (gp_env s) e \<and> moves live high (gp_chip s) c off (\<lambda>_. v \<noteq> 0) (gp_env s) e"
    and hw_set: "live (gp_chip s) (gp_env s) c \<Longrightarrow> off < gc_ngpios (gp_chip s c) \<Longrightarrow> 0 \<le> v \<Longrightarrow>
       \<exists>e. co_set co (gc_set (gp_chip s c)) c off v s = s\<lparr>gp_env := e\<rparr> \<and>
           moves live out (gp_chip s) c off id (gp_env s) e \<and> moves live high (gp_chip s) c off (\<lambda>_. v \<noteq> 0) (gp_env s) e"
    and hw_get: "live (gp_chip s) (gp_env s) c \<Longrightarrow> off < gc_ngpios (gp_chip s c) \<Longrightarrow> out (gp_env s) c off \<Longrightarrow>
       co_get co (gc_get (gp_chip s c)) c off s = (if high (gp_env s) c off then 1 else 0)"
begin

lemma set_direction_out:
  assumes sv: "served live s d c off" and v: "0 \<le> v"
  shows "touches live out high d c off (\<lambda>_. True) (\<lambda>_. v \<noteq> 0) s (fwk_gpio_set_direction co d FWK_GPIO_DIR_OUT v s) \<and>
     gp_desc (fwk_gpio_set_direction co d FWK_GPIO_DIR_OUT v s) d = (gp_desc s d)\<lparr>gd_flags := set_bit NR_FWK_GPIODESC_IS_OUT (gd_flags (gp_desc s d))\<rparr>"
proof -
  note f = served_facts [OF sv]
  obtain e where e: "co_direction_output co (gc_direction_output (gp_chip s c)) c off v s = (0, s\<lparr>gp_env := e\<rparr>)"
    and m: "moves live out (gp_chip s) c off (\<lambda>_. True) (gp_env s) e" "moves live high (gp_chip s) c off (\<lambda>_. v \<noteq> 0) (gp_env s) e"
    using hw_output [OF f(2, 1) v] by blast
  have "fwk_gpio_set_direction co d FWK_GPIO_DIR_OUT v s = fwk_gpio_desc_set_flags d NR_FWK_GPIODESC_IS_OUT (s\<lparr>gp_env := e\<rparr>)"
    using hw_pointers [OF f(2)] e f by (simp add: fwk_gpio_set_direction_def Let_def)
  then show ?thesis using m by (simp add: touches_def gd_simps)
qed

lemma set_direction_in:
  assumes sv: "served live s d c off"
  shows "touches live out high d c off (\<lambda>_. False) id s (fwk_gpio_set_direction_input co d s) \<and>
     gp_desc (fwk_gpio_set_direction_input co d s) d = (gp_desc s d)\<lparr>gd_flags := unset_bit NR_FWK_GPIODESC_IS_OUT (gd_flags (gp_desc s d))\<rparr>"
proof -
  note f = served_facts [OF sv]
  obtain e where e: "co_direction_input co (gc_direction_input (gp_chip s c)) c off s = (0, s\<lparr>gp_env := e\<rparr>)"
    and m: "moves live out (gp_chip s) c off (\<lambda>_. False) (gp_env s) e" "moves live high (gp_chip s) c off id (gp_env s) e"
    using hw_input [OF f(2, 1)] by blast
  have "fwk_gpio_set_direction_input co d s = fwk_gpio_desc_clr_flags d NR_FWK_GPIODESC_IS_OUT (s\<lparr>gp_env := e\<rparr>)"
    using hw_pointers [OF f(2)] e f by (simp add: fwk_gpio_set_direction_input_def fwk_gpio_set_direction_def Let_def)
  then show ?thesis using m by (simp add: touches_def gd_simps)
qed

lemma get_direction_served:
  assumes sv: "served live s d c off"
  shows "fwk_gpio_get_direction co d s =
     (if out (gp_env s) c off then (2, fwk_gpio_desc_set_flags d NR_FWK_GPIODESC_IS_OUT s) else (0, fwk_gpio_desc_clr_flags d NR_FWK_GPIODESC_IS_OUT s))"
  using served_facts [OF sv] hw_pointers hw_direction by (simp add: fwk_gpio_get_direction_def Let_def)

text \<open>What each operation does with the pin and its descriptor.\<close>

lemma request_served:
  assumes sv: "served live s d c off"
  shows "fwk_gpio_request co d l s =
     (if requested s d then (- ER_USED, s)
      else (ER_NORMAL, snd (fwk_gpio_get_direction co d (upd_gd d (\<lambda>x. x\<lparr>gd_label := l\<rparr>) (fwk_gpio_desc_set_flags d NR_FWK_GPIODESC_REQUESTED s)))))"
proof -
  note f = served_facts [OF sv]
  let ?s = "upd_gd d (\<lambda>x. x\<lparr>gd_label := l\<rparr>) (fwk_gpio_desc_set_flags d NR_FWK_GPIODESC_REQUESTED s)"
  have p: "pin ?s d c off" using f(3) by (subst pin_cong [of _ s]) (simp_all add: gd_simps)
  then have "served live ?s d c off" using f(2) by (simp add: served_def gd_simps)
  then have "\<not> fst (fwk_gpio_get_direction co d ?s) < 0" by (simp add: get_direction_served)
  then show ?thesis
    using request_pin [OF f(3), of co] pin_facts [OF f(3)] pin_sint [OF f(3)] f
    by (auto simp: fwk_gpio_request_def Let_def fwk_gpiochip_request_p_def split: prod.splits)
qed

lemma request_touches:
  assumes sv: "served live s d c off" and "\<not> requested s d"
  shows "touches live out high d c off id id s (snd (fwk_gpio_request co d l s)) \<and>
     owner (snd (fwk_gpio_request co d l s)) d = Some l \<and> is_out (snd (fwk_gpio_request co d l s)) d = out (gp_env s) c off"
proof -
  note f = served_facts [OF sv]
  let ?s = "upd_gd d (\<lambda>x. x\<lparr>gd_label := l\<rparr>) (fwk_gpio_desc_set_flags d NR_FWK_GPIODESC_REQUESTED s)"
  have p: "pin ?s d c off" using f(3) by (subst pin_cong [of _ s]) (simp_all add: gd_simps)
  then have sv': "served live ?s d c off" using f(2) by (simp add: served_def gd_simps)
  have t: "touches live out high d c off id id s (snd (fwk_gpio_get_direction co d ?s))"
    using get_direction_served [OF sv'] by (intro touches_flags) (simp_all add: gd_simps)
  have "owner (snd (fwk_gpio_get_direction co d ?s)) d = Some l"
    using get_direction_served [OF sv'] by (simp add: owner_desc gd_simps bit_or_flag bit_unset_flag)
  moreover have "is_out (snd (fwk_gpio_get_direction co d ?s)) d = out (gp_env s) c off"
    using get_direction_served [OF sv'] by (simp add: is_out_def gd_simps bit_or_flag bit_unset_flag)
  ultimately show ?thesis using t request_served [OF sv, of l] assms(2) by simp
qed

lemma free_served:
  assumes sv: "served live s d c off"
  shows "touches live out high d c off id id s (fwk_gpio_free co d s) \<and>
     gp_desc (fwk_gpio_free co d s) d = (gp_desc s d)\<lparr>gd_flags := set_bit NR_FWK_GPIODESC_IS_OUT 0, gd_label := None\<rparr>"
proof -
  note f = served_facts [OF sv]
  have e: "fwk_gpio_free co d s =
      fwk_gpio_desc_set_flags d NR_FWK_GPIODESC_IS_OUT (upd_gd d (\<lambda>x. x\<lparr>gd_label := None\<rparr>) (upd_gd d (\<lambda>x. x\<lparr>gd_flags := 0\<rparr>) s))"
    using free_pin [OF f(3), of co] pin_facts [OF f(3)] f by (simp add: fwk_gpio_free_def Let_def fwk_gpiochip_free_p_def)
  have "touches live out high d c off id id s (fwk_gpio_free co d s)" unfolding e by (intro touches_flags) (simp_all add: gd_simps)
  moreover have "gp_desc (fwk_gpio_free co d s) d = (gp_desc s d)\<lparr>gd_flags := set_bit NR_FWK_GPIODESC_IS_OUT 0, gd_label := None\<rparr>"
    unfolding e by (simp add: gd_simps)
  ultimately show ?thesis by simp
qed

lemma output_served:
  assumes sv: "served live s d c off" and v: "0 \<le> v"
  defines "s' \<equiv> fwk_gpio_set_direction_output co d v s"
  shows "(\<exists>f h. touches live out high d c off f h s s') \<and> gd_label (gp_desc s' d) = gd_label (gp_desc s d) \<and>
     (\<forall>i. i \<noteq> NR_FWK_GPIODESC_IS_OUT \<longrightarrow> bit (gd_flags (gp_desc s' d)) i = bit (gd_flags (gp_desc s d)) i) \<and> is_out s' d = out (gp_env s') c off"
proof -
  note li = served_facts(2) [OF sv]
  note a = set_direction_in [OF sv]
  have i: ?thesis if "s' = fwk_gpio_set_direction_input co d s"
    using touches_out [OF conjunct1 [OF a] li] a unfolding that by (auto simp: is_out_def bit_unset_flag)
  have o: ?thesis if "s' = fwk_gpio_set_direction co d FWK_GPIO_DIR_OUT w s" and "0 \<le> w" for w
    using touches_out [OF conjunct1 [OF set_direction_out [OF sv that(2)]] li] set_direction_out [OF sv that(2)]
    unfolding that(1) by (auto simp: is_out_def bit_or_flag)
  show ?thesis using i o [of v] o [of 0] o [of 1] v unfolding s'_def fwk_gpio_set_direction_output_def
    by (auto simp: Let_def split: if_splits)
qed

lemma set_value_served:
  assumes sv: "served live s d c off" and v: "0 \<le> sint v"
  shows "(if is_out s d then touches live out high d c off id (\<lambda>_. (v \<noteq> 0) \<noteq> active_low s d) s (fwk_gpio_set_value co d v s) \<and>
            gp_desc (fwk_gpio_set_value co d v s) = gp_desc s
          else fwk_gpio_set_value co d v s = s)"
proof -
  note f = served_facts [OF sv]
  let ?w = "sint (if active_low s d then (if v = 0 then 1 else 0) else v)"
  have w: "0 \<le> ?w" "(?w \<noteq> 0) = ((v \<noteq> 0) \<noteq> active_low s d)" using v by (auto simp: signed_eq_0_iff)
  obtain e where e: "co_set co (gc_set (gp_chip s c)) c off ?w s = s\<lparr>gp_env := e\<rparr>"
    and m: "moves live out (gp_chip s) c off id (gp_env s) e" "moves live high (gp_chip s) c off (\<lambda>_. ?w \<noteq> 0) (gp_env s) e"
    using hw_set [OF f(2, 1) w(1)] by blast
  have "fwk_gpio_set_value co d v s = (if is_out s d then s\<lparr>gp_env := e\<rparr> else s)"
    using e f hw_pointers [OF f(2)] by (simp add: fwk_gpio_set_value_def Let_def check_flags_bit flag_views)
  then show ?thesis using m w(2) by (simp add: touches_def)
qed

lemma put_served:
  assumes sv: "served live s d c off"
  shows "(\<exists>f h. touches live out high d c off f h s (fwk_gpio_desc_put co d s)) \<and> owner (fwk_gpio_desc_put co d s) d = None \<and>
     out (gp_env (fwk_gpio_desc_put co d s)) c off \<and> \<not> high (gp_env (fwk_gpio_desc_put co d s)) c off"
proof -
  let ?s1 = "fwk_gpio_free co d s"
  let ?s2 = "fwk_gpio_set_direction co d FWK_GPIO_DIR_OUT 0 ?s1"
  have f: "touches live out high d c off id id s ?s1" and fd: "gp_desc ?s1 d = (gp_desc s d)\<lparr>gd_flags := set_bit NR_FWK_GPIODESC_IS_OUT 0, gd_label := None\<rparr>"
    using free_served [OF sv] by simp_all
  have sv1: "served live ?s1 d c off" using sv touches_served [OF f] by simp
  have t: "touches live out high d c off (\<lambda>_. True) (\<lambda>_. False) ?s1 ?s2"
    and td: "gp_desc ?s2 d = (gp_desc ?s1 d)\<lparr>gd_flags := set_bit NR_FWK_GPIODESC_IS_OUT (gd_flags (gp_desc ?s1 d))\<rparr>"
    using set_direction_out [OF sv1, of 0] by simp_all
  have e: "fwk_gpio_desc_put co d s = fwk_gpio_desc_set_flags d NR_FWK_GPIODESC_ACTIVE_LOW ?s2"
    by (simp add: fwk_gpio_desc_put_def fwk_gpio_set_direction_output_def check_flags_bit fd bit_or_flag)
  have "touches live out high d c off (\<lambda>_. True) (\<lambda>_. False) s ?s2" using f t by (simp add: touches_def moves_def)
  then have "touches live out high d c off (\<lambda>_. True) (\<lambda>_. False) s (fwk_gpio_desc_put co d s)"
    by (rule touches_then_flags) (simp_all add: e gd_simps)
  moreover have "owner (fwk_gpio_desc_put co d s) d = None" by (simp add: e owner_desc gd_simps td fd bit_or_flag)
  ultimately show ?thesis using touches_out touches_high served_facts(2) [OF sv] by metis
qed

lemma get_value_served:
  assumes sv: "served live s d c off" and o: "out (gp_env s) c off"
  shows "fwk_gpio_get_value co d s = (if high (gp_env s) c off \<noteq> active_low s d then 1 else 0)"
  using served_facts [OF sv] hw_pointers [OF served_facts(2) [OF sv]] hw_get [OF served_facts(2, 1) [OF sv] o]
  by (simp add: fwk_gpio_get_value_def Let_def check_flags_bit active_low_def)

lemma value_roundtrip:
  assumes sv: "served live s d c off" and sy: "synced live out s" and rq: "requested s d" and v: "0 \<le> sint v"
  shows "is_out s d \<Longrightarrow> fwk_gpio_get_value co d (fwk_gpio_set_value co d v s) = (if v = 0 then 0 else 1)"
    and "is_out s d \<Longrightarrow> high (gp_env (fwk_gpio_set_value co d v s)) c off = ((v \<noteq> 0) \<noteq> active_low s d)"
    and "\<not> is_out s d \<Longrightarrow> fwk_gpio_set_value co d v s = s"
proof -
  let ?s = "fwk_gpio_set_value co d v s"
  note st = set_value_served [OF sv v]
  show "\<not> is_out s d \<Longrightarrow> ?s = s" using st by simp
  assume o: "is_out s d"
  then have t: "touches live out high d c off id (\<lambda>_. (v \<noteq> 0) \<noteq> active_low s d) s ?s" and g: "gp_desc ?s = gp_desc s" using st by auto
  show h: "high (gp_env ?s) c off = ((v \<noteq> 0) \<noteq> active_low s d)" using touches_high [OF t] served_facts(2) [OF sv] by simp
  have "out (gp_env ?s) c off" using touches_out [OF t] served_facts(2) [OF sv] sy sv rq o by (simp add: synced_def)
  moreover have "served live ?s d c off" using sv touches_served [OF t] by simp
  ultimately show "fwk_gpio_get_value co d ?s = (if v = 0 then 0 else 1)" using get_value_served h g by (auto simp: active_low_def)
qed

text \<open>Every step moves the one pin alone, keeps what is remembered of its direction true and implements the specification of ownership.\<close>

lemma touches_same: "touches live out high d c off id id s s"
  by (rule touches_flags) simp_all

lemma request_ok:
  assumes sv: "served live s d c off"
  shows "step_ok live out high s (Op_request d l) (gpio_op_step co (Op_request d l) s)"
proof (cases "requested s d")
  case True
  show ?thesis
    by (rule step_okI [OF _ sv touches_same]) (use sv True in \<open>simp_all add: request_served owner_def synced_def\<close>)
next
  case False
  note q = request_touches [OF sv False, of l]
  show ?thesis
    by (rule step_okI [OF _ sv conjunct1 [OF q]])
      (use sv False q touches_out [OF conjunct1 [OF q] served_facts(2) [OF sv]] in \<open>simp_all add: request_served owner_def synced_def\<close>)
qed

lemma free_ok:
  assumes sv: "served live s d c off"
  shows "step_ok live out high s (Op_free d) (gpio_op_step co (Op_free d) s)"
  by (rule step_okI [OF _ sv conjunct1 [OF free_served [OF sv]]])
    (use sv free_served [OF sv] in \<open>simp_all add: owner_def requested_def bit_or_flag\<close>)

lemma put_ok:
  assumes sv: "served live s d c off"
  shows "step_ok live out high s (Op_put d) (gpio_op_step co (Op_put d) s)"
proof -
  obtain f h where t: "touches live out high d c off f h s (fwk_gpio_desc_put co d s)" using put_served [OF sv] by blast
  have "\<not> requested (fwk_gpio_desc_put co d s) d" using put_served [OF sv] by (simp add: owner_def split: if_splits)
  then show ?thesis by (intro step_okI [OF _ sv t]) (use sv in \<open>simp_all add: owner_def\<close>)
qed

lemma input_ok:
  assumes sv: "served live s d c off"
  shows "step_ok live out high s (Op_input d) (gpio_op_step co (Op_input d) s)"
proof -
  note q = set_direction_in [OF sv]
  show ?thesis
    by (rule step_okI [OF _ sv conjunct1 [OF q]])
      (use sv q touches_out [OF conjunct1 [OF q] served_facts(2) [OF sv]] in \<open>simp_all add: owner_desc is_out_def bit_unset_flag\<close>)
qed

lemma output_ok:
  assumes sv: "served live s d c off" and v: "0 \<le> v"
  shows "step_ok live out high s (Op_output d v) (gpio_op_step co (Op_output d v) s)"
proof -
  note q = output_served [OF sv v]
  from q obtain f h where t: "touches live out high d c off f h s (fwk_gpio_set_direction_output co d v s)" by blast
  have "bit (gd_flags (gp_desc (fwk_gpio_set_direction_output co d v s) d)) 0 = bit (gd_flags (gp_desc s d)) 0" using q by simp
  then show ?thesis by (intro step_okI [OF _ sv t]) (use sv q in \<open>simp_all add: owner_desc\<close>)
qed

lemma set_ok:
  assumes sv: "served live s d c off" and v: "0 \<le> sint v"
  shows "step_ok live out high s (Op_set d v) (gpio_op_step co (Op_set d v) s)"
proof -
  let ?s = "fwk_gpio_set_value co d v s"
  obtain h where t: "touches live out high d c off id h s ?s" and g: "gp_desc ?s = gp_desc s"
    using set_value_served [OF sv v] touches_same [of d c off s] by (auto split: if_splits)
  show ?thesis
    by (rule step_okI [OF _ sv t])
      (use sv g touches_out [OF t served_facts(2) [OF sv]] in \<open>simp_all add: owner_desc flag_views synced_def\<close>)
qed

lemma get_direction_ok:
  assumes sv: "served live s d c off"
  shows "step_ok live out high s (Op_get_direction d) (gpio_op_step co (Op_get_direction d) s)"
proof -
  let ?s = "snd (fwk_gpio_get_direction co d s)"
  note g = get_direction_served [OF sv]
  have t: "touches live out high d c off id id s ?s" using g by (intro touches_flags) (simp_all add: gd_simps)
  have "owner ?s d = owner s d" "is_out ?s d = out (gp_env s) c off"
    using g by (simp_all add: owner_desc is_out_def gd_simps bit_or_flag bit_unset_flag)
  then show ?thesis
    by (intro step_okI [OF _ sv t]) (use sv touches_out [OF t served_facts(2) [OF sv]] in simp_all)
qed

lemma step_spec: "op_ok live s op \<Longrightarrow> step_ok live out high s op (gpio_op_step co op s)"
  unfolding op_ok_def
  by (cases op) (auto intro: request_ok free_ok put_ok input_ok output_ok set_ok get_direction_ok simp del: gpio_op_step.simps)

lemma run_spec:
  "list_all (op_ok live s) ops \<Longrightarrow>
     spec_own_run ops (owner s) = (fst (gpio_run co ops s), owner (snd (gpio_run co ops s))) \<and>
     (synced live out s \<longrightarrow> synced live out (snd (gpio_run co ops s)))"
proof (induction ops arbitrary: s)
  case (Cons op ops)
  let ?r = "gpio_op_step co op s"
  have st: "step_ok live out high s op ?r" using Cons.prems by (auto intro: step_spec)
  have ops: "list_all (op_ok live (snd ?r)) ops" using Cons.prems step_op_ok [OF st] by (simp add: list_all_iff)
  show ?case using Cons.IH [OF ops] step_owner [OF st] step_synced [OF st] by (simp add: Let_def split_beta)
qed simp

text \<open>A released pin counts as active low, whatever it is: the mark is set after the flags were cleared, and requesting keeps it.\<close>

lemma put_leaves_active_low:
  assumes sv: "served live s d c off"
  shows "active_low (snd (fwk_gpio_request co d l (fwk_gpio_desc_put co d s))) d"
proof -
  let ?s = "fwk_gpio_desc_put co d s"
  obtain f h where t: "touches live out high d c off f h s ?s" and o: "owner ?s d = None" using put_served [OF sv] by blast
  have sv': "served live ?s d c off" using sv touches_served [OF t] by simp
  have "active_low ?s d" by (simp add: fwk_gpio_desc_put_def active_low_def flag_of_set)
  moreover have "active_low (snd (fwk_gpio_get_direction co d s')) d = active_low s' d" if "served live s' d c off" for s'
    using get_direction_served [OF that] by (simp add: active_low_def gd_simps bit_or_flag bit_unset_flag)
  moreover have "served live (upd_gd d (\<lambda>x. x\<lparr>gd_label := l\<rparr>) (fwk_gpio_desc_set_flags d NR_FWK_GPIODESC_REQUESTED ?s)) d c off"
    using sv' by (simp add: served_def gd_simps) (subst pin_cong [of _ ?s], simp_all add: gd_simps)
  moreover have "\<not> requested ?s d" using o by (simp add: owner_def split: if_splits)
  ultimately show ?thesis using request_served [OF sv', of l] by (simp add: active_low_def gd_simps bit_or_flag)
qed

end

end
