(* ===== verification/Imx_Gpio.thy ===== *)
theory Imx_Gpio
  imports Gpio Of_Irq
begin

text \<open>
  The driver of the i.MX pin controllers (\<^verbatim>\<open>drivers/gpio/imx-gpiochip.c\<close>): the functions it gives the framework of pins, and its
  second role as an interrupt controller behind the main one.

  The driver's state is the interrupt framework, whose registers hold the controllers' registers too, the ports at their addresses and
  what the framework of devices keeps for it.  A port holds the pin controller at offset 16.
\<close>

section \<open>State\<close>

record imx_gpio_port =
  pt_base :: kuaddr_t
  pt_id :: int
  pt_irq_high :: int
  pt_irq_low :: int
  pt_irqdomain :: kuaddr_t
  pt_irq_base :: int
  pt_irqgc :: kuaddr_t

text \<open>\<open>im_pdev_id\<close> and \<open>im_res\<close> are the number and the resources of a platform device, \<open>im_drvdata\<close> is what its driver stored with it.\<close>

record imx_env =
  im_port :: "kuaddr_t \<Rightarrow> imx_gpio_port"
  im_irq :: irq_sys
  sgrt_imx_gpio_ports_list :: "kuaddr_t list"
  im_private :: "kuaddr_t \<Rightarrow> kuaddr_t"
  im_drvdata :: "kuaddr_t \<Rightarrow> kuaddr_t"
  im_pdev_id :: "kuaddr_t \<Rightarrow> int"
  im_res :: "kuaddr_t \<Rightarrow> fwk_resources list"

type_synonym imx_sys = "imx_env gpio_sys"

definition SGRT_GPIOCHIP_OFFSET :: kuaddr_t where "SGRT_GPIOCHIP_OFFSET = 16"

abbreviation (input) port_of :: "kuaddr_t \<Rightarrow> kuaddr_t" where "port_of c \<equiv> c - SGRT_GPIOCHIP_OFFSET"
abbreviation (input) chip_at :: "kuaddr_t \<Rightarrow> kuaddr_t" where "chip_at p \<equiv> p + SGRT_GPIOCHIP_OFFSET"

text \<open>The registers of a controller at \<open>base\<close>.\<close>

abbreviation (input) reg_DR :: "kuaddr_t \<Rightarrow> kuaddr_t" where "reg_DR base \<equiv> base"
abbreviation (input) reg_GDIR :: "kuaddr_t \<Rightarrow> kuaddr_t" where "reg_GDIR base \<equiv> base + 4"
abbreviation (input) reg_ICR1 :: "kuaddr_t \<Rightarrow> kuaddr_t" where "reg_ICR1 base \<equiv> base + 12"
abbreviation (input) reg_ICR2 :: "kuaddr_t \<Rightarrow> kuaddr_t" where "reg_ICR2 base \<equiv> base + 16"
abbreviation (input) reg_IMR :: "kuaddr_t \<Rightarrow> kuaddr_t" where "reg_IMR base \<equiv> base + 20"
abbreviation (input) reg_ISR :: "kuaddr_t \<Rightarrow> kuaddr_t" where "reg_ISR base \<equiv> base + 24"
abbreviation (input) reg_EDGE_SEL :: "kuaddr_t \<Rightarrow> kuaddr_t" where "reg_EDGE_SEL base \<equiv> base + 28"

definition env_regs :: "imx_env \<Rightarrow> kuaddr_t \<Rightarrow> kuint32_t" where
  "env_regs e = ir_regs (im_irq e)"

definition upd_irq :: "(irq_sys \<Rightarrow> irq_sys) \<Rightarrow> imx_sys \<Rightarrow> imx_sys" where
  "upd_irq f s = s\<lparr>gp_env := (gp_env s)\<lparr>im_irq := f (im_irq (gp_env s))\<rparr>\<rparr>"

definition upd_port :: "kuaddr_t \<Rightarrow> (imx_gpio_port \<Rightarrow> imx_gpio_port) \<Rightarrow> imx_sys \<Rightarrow> imx_sys" where
  "upd_port p f s = s\<lparr>gp_env := (gp_env s)\<lparr>im_port := (im_port (gp_env s))(p := f (im_port (gp_env s) p))\<rparr>\<rparr>"

definition mrt_writel :: "kuint32_t \<Rightarrow> kuaddr_t \<Rightarrow> imx_sys \<Rightarrow> imx_sys" where
  "mrt_writel v a s = upd_irq (\<lambda>i. i\<lparr>ir_regs := (ir_regs i)(a := v)\<rparr>) s"

definition mrt_getbitl :: "kuint32_t \<Rightarrow> kuaddr_t \<Rightarrow> imx_sys \<Rightarrow> kuint32_t" where
  "mrt_getbitl m a s = env_regs (gp_env s) a AND m"

definition mrt_setbitl :: "kuint32_t \<Rightarrow> kuaddr_t \<Rightarrow> imx_sys \<Rightarrow> imx_sys" where
  "mrt_setbitl m a s = mrt_writel (env_regs (gp_env s) a OR m) a s"

definition mrt_clrbitl :: "kuint32_t \<Rightarrow> kuaddr_t \<Rightarrow> imx_sys \<Rightarrow> imx_sys" where
  "mrt_clrbitl m a s = mrt_writel (env_regs (gp_env s) a AND NOT m) a s"

definition pbase :: "kuaddr_t \<Rightarrow> imx_sys \<Rightarrow> kuaddr_t" where
  "pbase p s = pt_base (im_port (gp_env s) p)"

section \<open>The functions of the controller\<close>

definition imx_gpiochip_driver_to_irq :: "kuaddr_t \<Rightarrow> kuint32_t \<Rightarrow> imx_sys \<Rightarrow> (int \<times> imx_sys) option" where
  "imx_gpiochip_driver_to_irq c offset s =
     (if c = 0 \<or> offset \<ge> gc_ngpios (gp_chip s c) then Some (- ER_NODEV, s)
      else do { (r, i) \<leftarrow> fwk_irq_domain_find_map (pt_irqdomain (im_port (gp_env s) (port_of c))) offset 0 (im_irq (gp_env s));
                Some (r, upd_irq (\<lambda>_. i) s) })"

definition imx_gpiochip_driver_get_direction :: "kuaddr_t \<Rightarrow> kuint32_t \<Rightarrow> imx_sys \<Rightarrow> int" where
  "imx_gpiochip_driver_get_direction c offset s =
     (if c = 0 \<or> offset \<ge> gc_ngpios (gp_chip s c) then - ER_NODEV
      else let base = pbase (port_of c) s
           in if base = 0 then - ER_NODEV
              else if mrt_getbitl (push_bit (unat offset) 1) (reg_GDIR base) s \<noteq> 0 then uint FWK_GPIO_DIR_OUT else uint FWK_GPIO_DIR_IN)"

definition imx_gpiochip_driver_direction_input :: "kuaddr_t \<Rightarrow> kuint32_t \<Rightarrow> imx_sys \<Rightarrow> int \<times> imx_sys" where
  "imx_gpiochip_driver_direction_input c offset s =
     (if c = 0 \<or> offset \<ge> gc_ngpios (gp_chip s c) then (- ER_NODEV, s)
      else let base = pbase (port_of c) s
           in if base = 0 then (- ER_NODEV, s)
              else (ER_NORMAL, mrt_clrbitl (push_bit (unat offset) 1) (reg_GDIR base) s))"

definition imx_gpiochip_driver_get :: "kuaddr_t \<Rightarrow> kuint32_t \<Rightarrow> imx_sys \<Rightarrow> int" where
  "imx_gpiochip_driver_get c offset s =
     (if c = 0 \<or> offset \<ge> gc_ngpios (gp_chip s c) then - ER_NODEV
      else let base = pbase (port_of c) s
           in if base = 0 then - ER_NODEV
              else if mrt_getbitl (push_bit (unat offset) 1) (reg_DR base) s \<noteq> 0 then 1 else 0)"

definition imx_gpiochip_driver_set :: "kuaddr_t \<Rightarrow> kuint32_t \<Rightarrow> int \<Rightarrow> imx_sys \<Rightarrow> imx_sys" where
  "imx_gpiochip_driver_set c offset val s =
     (if c = 0 \<or> offset \<ge> gc_ngpios (gp_chip s c) \<or> val < 0 then s
      else let base = pbase (port_of c) s
           in if base = 0 then s
              else if val \<noteq> 0 then mrt_setbitl (push_bit (unat offset) 1) (reg_DR base) s
              else mrt_clrbitl (push_bit (unat offset) 1) (reg_DR base) s)"

text \<open>The addresses of the functions.  \<open>co\<close> is the code of the other drivers.\<close>

definition imx_get_direction_p :: kuaddr_t where "imx_get_direction_p = 0x80600000"
definition imx_direction_input_p :: kuaddr_t where "imx_direction_input_p = 0x80600040"
definition imx_direction_output_p :: kuaddr_t where "imx_direction_output_p = 0x80600080"
definition imx_get_p :: kuaddr_t where "imx_get_p = 0x806000C0"
definition imx_set_p :: kuaddr_t where "imx_set_p = 0x80600100"
definition imx_to_irq_p :: kuaddr_t where "imx_to_irq_p = 0x80600140"

definition call_set :: "imx_env gpio_code \<Rightarrow> kuaddr_t \<Rightarrow> kuaddr_t \<Rightarrow> kuint32_t \<Rightarrow> int \<Rightarrow> imx_sys \<Rightarrow> imx_sys" where
  "call_set co p = (if p = imx_set_p then imx_gpiochip_driver_set else co_set co p)"

definition imx_gpiochip_driver_direction_output ::
  "imx_env gpio_code \<Rightarrow> kuaddr_t \<Rightarrow> kuint32_t \<Rightarrow> int \<Rightarrow> imx_sys \<Rightarrow> int \<times> imx_sys" where
  "imx_gpiochip_driver_direction_output co c offset val s =
     (if c = 0 \<or> offset \<ge> gc_ngpios (gp_chip s c) then (- ER_NODEV, s)
      else let base = pbase (port_of c) s
           in if base = 0 then (- ER_NODEV, s)
              else let s = mrt_setbitl (push_bit (unat offset) 1) (reg_GDIR base) s;
                       p = gc_set (gp_chip s c)
                   in (ER_NORMAL, if p \<noteq> 0 then call_set co p c offset val s else s))"

definition imx_code :: "imx_env gpio_code \<Rightarrow> imx_env gpio_code" where
  "imx_code co = co\<lparr>
     co_get_direction := (\<lambda>p. if p = imx_get_direction_p then imx_gpiochip_driver_get_direction else co_get_direction co p),
     co_direction_input := (\<lambda>p. if p = imx_direction_input_p then imx_gpiochip_driver_direction_input else co_direction_input co p),
     co_direction_output := (\<lambda>p. if p = imx_direction_output_p then imx_gpiochip_driver_direction_output co else co_direction_output co p),
     co_get := (\<lambda>p. if p = imx_get_p then imx_gpiochip_driver_get else co_get co p),
     co_set := call_set co,
     co_to_irq := (\<lambda>p. if p = imx_to_irq_p then imx_gpiochip_driver_to_irq else co_to_irq co p)\<rparr>"


section \<open>Interrupts of the pins\<close>

abbreviation (input) IRQ_TYPE_EDGE_RISING :: kuint32_t where "IRQ_TYPE_EDGE_RISING \<equiv> 1"
abbreviation (input) IRQ_TYPE_EDGE_FALLING :: kuint32_t where "IRQ_TYPE_EDGE_FALLING \<equiv> 2"
abbreviation (input) IRQ_TYPE_EDGE_BOTH :: kuint32_t where "IRQ_TYPE_EDGE_BOTH \<equiv> 3"
abbreviation (input) IRQ_TYPE_LEVEL_HIGH :: kuint32_t where "IRQ_TYPE_LEVEL_HIGH \<equiv> 4"
abbreviation (input) IRQ_TYPE_LEVEL_LOW :: kuint32_t where "IRQ_TYPE_LEVEL_LOW \<equiv> 8"

abbreviation (input) HAL_IMX_ICR_LOW_LEVEL :: kuint32_t where "HAL_IMX_ICR_LOW_LEVEL \<equiv> 0"
abbreviation (input) HAL_IMX_ICR_HIGH_LEVEL :: kuint32_t where "HAL_IMX_ICR_HIGH_LEVEL \<equiv> 1"
abbreviation (input) HAL_IMX_ICR_RISING_EDGE :: kuint32_t where "HAL_IMX_ICR_RISING_EDGE \<equiv> 2"
abbreviation (input) HAL_IMX_ICR_FALLING_EDGE :: kuint32_t where "HAL_IMX_ICR_FALLING_EDGE \<equiv> 3"
abbreviation (input) HAL_IMX_ICR_MASK :: kuint32_t where "HAL_IMX_ICR_MASK \<equiv> 3"

text \<open>The code of a trigger: \<open>None\<close> for a type the driver refuses.\<close>

definition icr_code :: "kuint32_t \<Rightarrow> bool \<Rightarrow> kuint32_t option" where
  "icr_code type low =
     (if type = IRQ_TYPE_EDGE_RISING then Some (if low then HAL_IMX_ICR_FALLING_EDGE else HAL_IMX_ICR_RISING_EDGE)
      else if type = IRQ_TYPE_EDGE_FALLING then Some (if low then HAL_IMX_ICR_RISING_EDGE else HAL_IMX_ICR_FALLING_EDGE)
      else if type = IRQ_TYPE_EDGE_BOTH then Some (HAL_IMX_ICR_MASK + 1)
      else if type = IRQ_TYPE_LEVEL_LOW then Some (if low then HAL_IMX_ICR_HIGH_LEVEL else HAL_IMX_ICR_LOW_LEVEL)
      else if type = IRQ_TYPE_LEVEL_HIGH then Some (if low then HAL_IMX_ICR_LOW_LEVEL else HAL_IMX_ICR_HIGH_LEVEL)
      else None)"

text \<open>\<open>d\<close> is the descriptor of the interrupt; the port is found through the generic chip, where the driver stored it.\<close>

definition imx_gpiochip_driver_irq_set_type :: "kuaddr_t \<Rightarrow> kuint32_t \<Rightarrow> imx_sys \<Rightarrow> int \<times> imx_sys" where
  "imx_gpiochip_driver_irq_set_type d type s =
     (let offset = id_hwirq (de_data (ir_descs (im_irq (gp_env s)) d));
          p = im_private (gp_env s) (fwk_irq_get_generic_data d (im_irq (gp_env s)));
          base = pbase p s;
          g = fwk_gpiochip_get_desc (chip_at p) offset s
      in if g = 0 then (- ER_NODEV, s)
         else case icr_code type (fwk_gpio_desc_check_flags g NR_FWK_GPIODESC_ACTIVE_LOW s) of
                None \<Rightarrow> (- ER_UNVALID, s)
              | Some bitmask \<Rightarrow>
                  let s = mrt_clrbitl (push_bit (unat offset) 1) (reg_EDGE_SEL base) s;
                      is_clear = bitmask > HAL_IMX_ICR_MASK;
                      s = (if is_clear then mrt_setbitl (push_bit (unat offset) 1) (reg_EDGE_SEL base) s else s);
                      (sh, icr) = (if offset \<ge> 16 then (push_bit 1 (offset - 16), reg_ICR2 base) else (push_bit 1 offset, reg_ICR1 base));
                      s = mrt_clrbitl (push_bit (unat sh) HAL_IMX_ICR_MASK) icr s;
                      s = (if \<not> is_clear then mrt_setbitl (push_bit (unat sh) bitmask) icr s else s)
                  in (ER_NORMAL, s))"

definition imx_gpiochip_irq_domain_xlate :: "kuaddr_t \<Rightarrow> kuaddr_t \<Rightarrow> kuint32_t list \<Rightarrow> irq_sys \<Rightarrow> int \<times> (kuint32_t \<times> kuint32_t) option" where
  "imx_gpiochip_irq_domain_xlate dmn intc intspec s =
     (if dm_node (ir_domains s dmn) \<noteq> intc then (- ER_UNVALID, None)
      else if length intspec \<noteq> 2 then (- ER_UNVALID, None)
      else if intspec ! 0 \<ge> 32 then (- ER_UNVALID, None)
      else (ER_NORMAL, Some (intspec ! 0, intspec ! 1)))"

text \<open>
  The handler: for every pin whose interrupt is pending and enabled the actions of the pin's interrupt are called, then the pending bit
  is written back.  What writing does is up to the status register, given by \<open>wr\<close>: the old value and the value written make the new one.
\<close>

fun isr_loop :: "(kuint32_t \<Rightarrow> kuint32_t \<Rightarrow> kuint32_t) \<Rightarrow> kuaddr_t \<Rightarrow> nat list \<Rightarrow> imx_sys \<Rightarrow> ((kuaddr_t \<times> kuaddr_t) list \<times> imx_sys) option" where
  "isr_loop wr p [] s = Some ([], s)"
| "isr_loop wr p (idx # is) s =
     (let base = pbase p s; m = push_bit idx 1
      in if mrt_getbitl m (reg_IMR base) s = 0 \<or> mrt_getbitl m (reg_ISR base) s = 0 then isr_loop wr p is s
         else do {
           irq \<leftarrow> fwk_irq_get_by_domain (pt_irqdomain (im_port (gp_env s) p)) (int idx) (im_irq (gp_env s));
           let calls = fwk_do_irq_handler irq (im_irq (gp_env s));
           let v = env_regs (gp_env s) (reg_ISR base);
           (more, s) \<leftarrow> isr_loop wr p is (mrt_writel (wr v (v OR m)) (reg_ISR base) s);
           Some (calls @ more, s) })"

definition imx_gpiochip_driver_isr :: "(kuint32_t \<Rightarrow> kuint32_t \<Rightarrow> kuint32_t) \<Rightarrow> kuaddr_t \<Rightarrow> imx_sys \<Rightarrow> ((kuaddr_t \<times> kuaddr_t) list \<times> imx_sys) option" where
  "imx_gpiochip_driver_isr wr p s = isr_loop wr p [0..<32] s"

section \<open>Probing and removing\<close>

definition imx_isr_p :: kuaddr_t where "imx_isr_p = 0x80600180"
definition sgrt_imx_gpiochip_hierarchy_ops :: kuaddr_t where "sgrt_imx_gpiochip_hierarchy_ops = 0x80600200"

definition imx_gpiochip_driver_probe_intc :: "(kuaddr_t \<Rightarrow> string) \<Rightarrow> kuaddr_t \<Rightarrow> imx_sys \<Rightarrow> (int \<times> imx_sys) option" where
  "imx_gpiochip_driver_probe_intc node_name pdev s =
     (let node = gp_dev_node s pdev; p = im_drvdata (gp_env s) pdev; base = pbase p s
      in if fwk_of_find_property node (lit ''interrupt-controller'') (gp_tree s) = None then Some (- ER_NSUPPORT, s)
         else do {
           par \<leftarrow> fwk_of_irq_parent node (gp_tree s);
           if \<not> isValid par then Some (- ER_NOTFOUND, s)
           else let intc = fwk_of_irq_host par (im_irq (gp_env s))
                in if \<not> isValid intc then Some (- ER_NOTFOUND, s)
                   else let (dmn, i) = fwk_irq_domain_add_hierarchy node_name intc node 32 sgrt_imx_gpiochip_hierarchy_ops 0 (im_irq (gp_env s));
                            s = upd_irq (\<lambda>_. i) s
                        in if \<not> isValid dmn then Some (- ER_FAILD, s)
                           else do {
                             (virq, i) \<leftarrow> fwk_irq_domain_alloc_irqs dmn (sint (push_bit 5 (word_of_int (pt_id (im_port (gp_env s) p)) :: kuint32_t))) 0 32 (im_irq (gp_env s));
                             let s = upd_irq (\<lambda>_. i) s;
                             if virq < 0
                             then do { i \<leftarrow> fwk_irq_domain_del_hierarchy dmn (im_irq (gp_env s));
                                       Some (- ER_ERROR, upd_irq (\<lambda>_. ir_kfree dmn i) s) }
                             else let s = upd_port p (\<lambda>x. x\<lparr>pt_irq_base := virq, pt_irqdomain := dmn\<rparr>) s;
                                      (gc, i) = ir_kzalloc (im_irq (gp_env s));
                                      s = upd_irq (\<lambda>_. i) s
                                  in if \<not> isValid gc
                                     then do { i \<leftarrow> fwk_irq_domain_free_irqs dmn (im_irq (gp_env s));
                                               let s = upd_port p (\<lambda>x. x\<lparr>pt_irqdomain := 0\<rparr>) s;
                                               i \<leftarrow> fwk_irq_domain_del_hierarchy dmn i;
                                               Some (- ER_ERROR, upd_irq (\<lambda>_. ir_kfree dmn i) s) }
                                     else let s = upd_irq (\<lambda>i. i\<lparr>ir_gens := (ir_gens i)(gc := \<lparr>manage_reg = reg_IMR base, status_reg = reg_ISR base\<rparr>)\<rparr>) s;
                                              s = s\<lparr>gp_env := (gp_env s)\<lparr>im_private := (im_private (gp_env s))(gc := p)\<rparr>\<rparr>;
                                              s = upd_irq (fwk_irq_setup_generic_chip (word_of_int virq) 32 gc 0) s
                                          in Some (ER_NORMAL, upd_port p (\<lambda>x. x\<lparr>pt_irqgc := gc\<rparr>) s) } })"

definition imx_gpiochip_driver_remove_intc :: "kuaddr_t \<Rightarrow> imx_sys \<Rightarrow> imx_sys option" where
  "imx_gpiochip_driver_remove_intc pdev s =
     (let p = im_drvdata (gp_env s) pdev; x = im_port (gp_env s) p; dmn = pt_irqdomain x;
          s = upd_port p (\<lambda>x. x\<lparr>pt_irqdomain := 0\<rparr>) s;
          s = upd_irq (fwk_irq_shutdown_generic_chip (word_of_int (pt_irq_base x)) 32) s;
          s = upd_irq (ir_kfree (pt_irqgc x)) s;
          s = upd_port p (\<lambda>x. x\<lparr>pt_irqgc := 0\<rparr>) s
      in do { i \<leftarrow> fwk_irq_domain_free_irqs dmn (im_irq (gp_env s));
              i \<leftarrow> fwk_irq_domain_del_hierarchy dmn i;
              Some (upd_irq (\<lambda>_. ir_kfree dmn i) s) })"

definition imx_gpiochip_driver_probe_gc :: "kuaddr_t \<Rightarrow> imx_sys \<Rightarrow> (int \<times> imx_sys) option" where
  "imx_gpiochip_driver_probe_gc pdev s =
     (let node = gp_dev_node s pdev; p = im_drvdata (gp_env s) pdev; c = chip_at p
      in if fwk_of_find_property node (lit ''gpio-controller'') (gp_tree s) = None then Some (- ER_NSUPPORT, s)
         else do {
           (r, vs) \<leftarrow> fwk_of_property_read_u32 node (lit ''#gpio-cells'') (gp_tree s);
           if r \<noteq> 0 then Some (- ER_NSUPPORT, s)
           else let base = push_bit 5 (word_of_int (pt_id (im_port (gp_env s) p)));
                    (r, s) = fwk_gpiochip_init c pdev base (drop_bit 3 32) s
                in if r \<noteq> 0 then Some (- ER_FAILD, s)
                   else Some (fwk_gpiochip_add c
                          (upd_gc c (\<lambda>x. x\<lparr>gc_n_cells := vs ! 0, gc_to_irq := imx_to_irq_p, gc_get_direction := imx_get_direction_p,
                             gc_direction_input := imx_direction_input_p, gc_direction_output := imx_direction_output_p,
                             gc_get := imx_get_p, gc_set := imx_set_p\<rparr>) s)) })"

text \<open>The tails of the error exits, from \<^verbatim>\<open>fail4\<close> and from \<^verbatim>\<open>fail3\<close>.\<close>

definition set_drvdata :: "kuaddr_t \<Rightarrow> kuaddr_t \<Rightarrow> imx_sys \<Rightarrow> imx_sys" where
  "set_drvdata pdev v s = s\<lparr>gp_env := (gp_env s)\<lparr>im_drvdata := (im_drvdata (gp_env s))(pdev := v)\<rparr>\<rparr>"

definition gp_kfree :: "kuaddr_t \<Rightarrow> imx_sys \<Rightarrow> imx_sys" where
  "gp_kfree a s = s\<lparr>gp_freed := gp_freed s @ [a]\<rparr>"

definition drop_irq :: "(kuaddr_t \<Rightarrow> irq_chip) \<Rightarrow> int \<Rightarrow> kuaddr_t \<Rightarrow> imx_sys \<Rightarrow> imx_sys option" where
  "drop_irq chips irq p s =
     (if irq \<ge> 0 then do { i \<leftarrow> fwk_free_irq chips irq p (im_irq (gp_env s)); Some (upd_irq (\<lambda>_. i) s) } else Some s)"

definition probe_fail3 :: "(kuaddr_t \<Rightarrow> irq_chip) \<Rightarrow> kuaddr_t \<Rightarrow> imx_sys \<Rightarrow> (int \<times> imx_sys) option" where
  "probe_fail3 chips p s =
     do { s \<leftarrow> drop_irq chips (pt_irq_low (im_port (gp_env s) p)) p s; Some (- ER_ERROR, gp_kfree p s) }"

definition probe_fail4 :: "(kuaddr_t \<Rightarrow> irq_chip) \<Rightarrow> kuaddr_t \<Rightarrow> kuaddr_t \<Rightarrow> imx_sys \<Rightarrow> (int \<times> imx_sys) option" where
  "probe_fail4 chips pdev p s =
     do { s \<leftarrow> drop_irq chips (pt_irq_high (im_port (gp_env s) p)) p (set_drvdata pdev 0 s); probe_fail3 chips p s }"

definition take_irq :: "(kuaddr_t \<Rightarrow> irq_chip) \<Rightarrow> int \<Rightarrow> string \<Rightarrow> kuaddr_t \<Rightarrow> imx_sys \<Rightarrow> bool \<times> imx_sys" where
  "take_irq chips irq nm p s =
     (if irq \<ge> 0
      then let (r, i) = fwk_request_irq chips (word_of_int irq) imx_isr_p 0 (Some nm) p (im_irq (gp_env s)) in (r = 0, upd_irq (\<lambda>_. i) s)
      else (True, s))"

text \<open>\<open>res\<close> is what the stack holds where the resource is read to, and \<open>wr\<close> again the writing of the status register.\<close>

definition imx_gpiochip_driver_probe ::
  "(kuaddr_t \<Rightarrow> irq_chip) \<Rightarrow> (kuint32_t \<Rightarrow> kuint32_t \<Rightarrow> kuint32_t) \<Rightarrow> (kuaddr_t \<Rightarrow> string) \<Rightarrow> fwk_resources \<Rightarrow> kuaddr_t \<Rightarrow> imx_sys \<Rightarrow> (int \<times> imx_sys) option" where
  "imx_gpiochip_driver_probe chips wr node_name res pdev s =
     (let node = gp_dev_node s pdev; (p, s) = (case gp_pool s of [] \<Rightarrow> (0, s) | a # as \<Rightarrow> (a, s\<lparr>gp_pool := as\<rparr>))
      in if \<not> isValid p then Some (- ER_NOMEM, s)
         else do {
           let s = upd_port p (\<lambda>_. \<lparr>pt_base = 0, pt_id = 0, pt_irq_high = 0, pt_irq_low = 0, pt_irqdomain = 0, pt_irq_base = 0, pt_irqgc = 0\<rparr>) s;
           let s = upd_gc (chip_at p) (\<lambda>_. \<lparr>gc_name = None, gc_dev = 0, gc_base = 0, gc_ngpios = 0, gc_desc = 0, gc_pin_ranges = [],
                      gc_request = 0, gc_free = 0, gc_get_direction = 0, gc_direction_input = 0, gc_direction_output = 0, gc_get = 0,
                      gc_set = 0, gc_to_irq = 0, gc_n_cells = 0, gc_of_xlate = 0\<rparr>) s;
           num \<leftarrow> (if im_pdev_id (gp_env s) pdev < 0 then fwk_of_get_alias_id node (gp_tree s) else Some (im_pdev_id (gp_env s) pdev));
           let s = upd_port p (\<lambda>x. x\<lparr>pt_id := num\<rparr>) s;
           if num < 0 then Some (- ER_ERROR, gp_kfree p s)
           else do {
             base \<leftarrow> fwk_of_iomap res node 0 (gp_tree s);
             let s = upd_port p (\<lambda>x. x\<lparr>pt_base := base\<rparr>) s;
             if \<not> isValid base then Some (- ER_ERROR, gp_kfree p s)
             else let rs = im_res (gp_env s) pdev; low = fwk_platform_get_irq rs 0; high = fwk_platform_get_irq rs 1;
                      s = upd_port p (\<lambda>x. x\<lparr>pt_irq_low := low, pt_irq_high := high\<rparr>) s;
                      (ok, s) = take_irq chips low ''imx-gpio-low'' p s
                  in if \<not> ok then Some (- ER_ERROR, gp_kfree p s)
                     else let (ok, s) = take_irq chips high ''imx-gpio-high'' p s
                          in if \<not> ok then probe_fail3 chips p s
                             else do {
                               let s = mrt_writel (wr (env_regs (gp_env s) (reg_ISR base)) (- 1)) (reg_ISR base) s;
                               let s = mrt_writel 0 (reg_IMR base) s;
                               let s = set_drvdata pdev p s;
                               (r, s) \<leftarrow> imx_gpiochip_driver_probe_intc node_name pdev s;
                               if r \<noteq> 0 then probe_fail4 chips pdev p s
                               else do {
                                 (r, s) \<leftarrow> imx_gpiochip_driver_probe_gc pdev s;
                                 if r \<noteq> 0
                                 then do { s \<leftarrow> imx_gpiochip_driver_remove_intc pdev s; probe_fail4 chips pdev p s }
                                 else Some (ER_NORMAL, s\<lparr>gp_env := (gp_env s)\<lparr>sgrt_imx_gpio_ports_list := sgrt_imx_gpio_ports_list (gp_env s) @ [p]\<rparr>\<rparr>) } } } })"

definition imx_gpiochip_driver_remove :: "(kuaddr_t \<Rightarrow> irq_chip) \<Rightarrow> kuaddr_t \<Rightarrow> imx_sys \<Rightarrow> (int \<times> imx_sys) option" where
  "imx_gpiochip_driver_remove chips pdev s =
     (let p = im_drvdata (gp_env s) pdev
      in do { s \<leftarrow> imx_gpiochip_driver_remove_intc pdev s;
              let s = set_drvdata pdev 0 s;
              s \<leftarrow> drop_irq chips (pt_irq_high (im_port (gp_env s) p)) p s;
              s \<leftarrow> drop_irq chips (pt_irq_low (im_port (gp_env s) p)) p s;
              let s = s\<lparr>gp_env := (gp_env s)\<lparr>sgrt_imx_gpio_ports_list := remove1 p (sgrt_imx_gpio_ports_list (gp_env s))\<rparr>\<rparr>;
              Some (ER_NORMAL, gp_kfree p s) })"


section \<open>The driver keeps the contract of the pin framework\<close>

text \<open>A controller of this driver: its port is on the driver's list, it has the driver's functions and 32 pins, and the register blocks
  of the ports, of 32 bytes each, do not overlap.\<close>

definition imx_chip :: "gpio_chip \<Rightarrow> bool" where
  "imx_chip x \<longleftrightarrow> gc_get_direction x = imx_get_direction_p \<and> gc_direction_input x = imx_direction_input_p \<and>
     gc_direction_output x = imx_direction_output_p \<and> gc_get x = imx_get_p \<and> gc_set x = imx_set_p \<and> gc_ngpios x = 32"

definition port_base :: "imx_env \<Rightarrow> kuaddr_t \<Rightarrow> kuaddr_t" where
  "port_base e p = pt_base (im_port e p)"

definition imx_live :: "imx_env hw_live" where
  "imx_live m e c \<longleftrightarrow> c \<noteq> 0 \<and> port_of c \<in> set (sgrt_imx_gpio_ports_list e) \<and> imx_chip (m c) \<and>
     inj_on (port_base e) (set (sgrt_imx_gpio_ports_list e)) \<and>
     (\<forall>p \<in> set (sgrt_imx_gpio_ports_list e). port_base e p \<noteq> 0 \<and> 32 dvd unat (port_base e p))"

definition imx_out :: "imx_env hw_view" where
  "imx_out e c off = bit (env_regs e (reg_GDIR (port_base e (port_of c)))) (unat off)"

definition imx_high :: "imx_env hw_view" where
  "imx_high e c off = bit (env_regs e (reg_DR (port_base e (port_of c)))) (unat off)"

lemma unat_block: "32 dvd unat a \<Longrightarrow> unat i < 32 \<Longrightarrow> unat (a + i) = unat a + unat (i :: kuaddr_t)"
proof -
  assume d: "32 dvd unat a" and i: "unat i < 32"
  from d obtain k where k: "unat a = 32 * k" by (rule dvdE)
  have "unat a < 2 ^ 32" using unsigned_less [of a] by simp
  then have "k < 2 ^ 27" using k by simp
  then have "unat a + unat i < 2 ^ 32" using k i by simp
  then show ?thesis by (rule unat_add_small)
qed

lemma block_disjoint:
  fixes a b :: kuaddr_t
  assumes "32 dvd unat a" "32 dvd unat b" "a \<noteq> b" "unat i < 32" "unat j < 32"
  shows "a + i \<noteq> b + j"
proof
  assume "a + i = b + j"
  then have e: "unat a + unat i = unat b + unat j" using unat_block [OF assms(1, 4)] unat_block [OF assms(2, 5)] by simp
  from assms(1) obtain k where k: "unat a = 32 * k" by (rule dvdE)
  moreover from assms(2) obtain l where l: "unat b = 32 * l" by (rule dvdE)
  moreover from k l have "k = l" using e assms(4, 5) by arith
  ultimately have "unat a = unat b" by simp
  then show False using assms(3) by (simp add: unsigned_word_eqI)
qed

lemma env_writel:
  "gp_env (mrt_writel v a s) = (gp_env s)\<lparr>im_irq := (im_irq (gp_env s))\<lparr>ir_regs := (env_regs (gp_env s))(a := v)\<rparr>\<rparr>"
  "mrt_writel v a s = s\<lparr>gp_env := gp_env (mrt_writel v a s)\<rparr>"
  by (simp_all add: mrt_writel_def upd_irq_def env_regs_def)

lemma imx_frame:
  "gp_chip (mrt_writel v a s) = gp_chip s" "gp_desc (mrt_writel v a s) = gp_desc s"
  "port_base (gp_env (mrt_writel v a s)) = port_base (gp_env s)" "imx_live m (gp_env (mrt_writel v a s)) = imx_live m (gp_env s)"
  "env_regs (gp_env (mrt_writel v a s)) = (env_regs (gp_env s))(a := v)" "im_port (gp_env (mrt_writel v a s)) = im_port (gp_env s)"
  by (simp_all add: mrt_writel_def upd_irq_def port_base_def [abs_def] imx_live_def env_regs_def fun_eq_iff)

lemma pbase_eq: "pbase p s = port_base (gp_env s) p"
  by (simp add: pbase_def port_base_def)

lemma getbit_iff: "mrt_getbitl (2 ^ k) a s = 0 \<longleftrightarrow> \<not> bit (env_regs (gp_env s) a) k"
  by (simp add: mrt_getbitl_def and_exp_eq_0_iff_not_bit)

lemma setbit_eq: "mrt_setbitl (2 ^ k) a s = mrt_writel (set_bit k (env_regs (gp_env s) a)) a s"
  by (simp add: mrt_setbitl_def set_bit_eq_or)

lemma clrbit_eq: "mrt_clrbitl (2 ^ k) a s = mrt_writel (unset_bit k (env_regs (gp_env s) a)) a s"
  by (simp add: mrt_clrbitl_def unset_bit_eq_and_not)


lemma live_facts:
  assumes "imx_live (gp_chip s) (gp_env s) c" and "off < gc_ngpios (gp_chip s c)"
  shows "c \<noteq> 0" "\<not> gc_ngpios (gp_chip s c) \<le> off" "pbase (port_of c) s \<noteq> 0" "unat off < 32" "gc_set (gp_chip s c) = imx_set_p"
  using assms by (simp_all add: imx_live_def imx_chip_def pbase_eq not_le word_less_nat_alt)

text \<open>Changing bit \<open>off\<close> of the register at offset \<open>i\<close> of a live controller changes that bit and nothing else of all live controllers.\<close>

lemma reg_bit_moves:
  assumes li: "imx_live m (gp_env s) c" and o: "unat off < 32" and i: "unat i < 32" "unat j < 32"
    and b: "\<And>k. bit w k = (if k = unat off then f (bit (env_regs (gp_env s) (port_base (gp_env s) (port_of c) + i)) k)
                            else bit (env_regs (gp_env s) (port_base (gp_env s) (port_of c) + i)) k)"
  shows "moves imx_live (\<lambda>e c off. bit (env_regs e (port_base e (port_of c) + j)) (unat off)) m c off (if j = i then f else id)
     (gp_env s) (gp_env (mrt_writel w (port_base (gp_env s) (port_of c) + i) s))"
  unfolding moves_def
proof (intro allI conjI impI)
  let ?B = "\<lambda>c. port_base (gp_env s) (port_of c)" and ?e = "gp_env (mrt_writel w (port_base (gp_env s) (port_of c) + i) s)"
  fix c' off' assume l': "imx_live m (gp_env s) c'"
  have sep: "?B c' + j \<noteq> ?B c + i" if "c' \<noteq> c \<or> j \<noteq> i"
  proof (cases "c' = c")
    case False
    then have "?B c' \<noteq> ?B c"
      using li l' inj_on_eq_iff [of "port_base (gp_env s)" "set (sgrt_imx_gpio_ports_list (gp_env s))" "port_of c'" "port_of c"]
      by (simp add: imx_live_def)
    moreover have "32 dvd unat (?B c)" "32 dvd unat (?B c')" using li l' by (simp_all add: imx_live_def)
    ultimately show ?thesis using block_disjoint i by blast
  qed (use that in auto)
  have inj: "unat off' = unat off \<longleftrightarrow> off' = off" by (auto simp: unsigned_word_eqI)
  show "bit (env_regs ?e (port_base ?e (port_of c') + j)) (unat off') =
     (if c' = c \<and> off' = off then (if j = i then f else id) (bit (env_regs (gp_env s) (?B c' + j)) (unat off'))
      else bit (env_regs (gp_env s) (?B c' + j)) (unat off'))"
    using sep b inj by (cases "c' = c \<and> j = i") (auto simp: imx_frame)
qed (simp add: imx_frame)

lemma imx_out_reg: "imx_out = (\<lambda>e c off. bit (env_regs e (port_base e (port_of c) + 4)) (unat off))"
  and imx_high_reg: "imx_high = (\<lambda>e c off. bit (env_regs e (port_base e (port_of c) + 0)) (unat off))"
  by (simp_all add: imx_out_def [abs_def] imx_high_def [abs_def])

lemma moves_out:
  assumes "imx_live m (gp_env s) c" "unat off < 32" "\<And>k. bit w k = (if k = unat off then v else bit (env_regs (gp_env s) (reg_GDIR (port_base (gp_env s) (port_of c)))) k)"
  shows "moves imx_live imx_out m c off (\<lambda>_. v) (gp_env s) (gp_env (mrt_writel w (reg_GDIR (port_base (gp_env s) (port_of c))) s))"
    and "moves imx_live imx_high m c off id (gp_env s) (gp_env (mrt_writel w (reg_GDIR (port_base (gp_env s) (port_of c))) s))"
  using reg_bit_moves [OF assms(1, 2), of 4 4 w "\<lambda>_. v"] reg_bit_moves [OF assms(1, 2), of 4 0 w "\<lambda>_. v"] assms(3)
  unfolding imx_out_reg imx_high_reg by simp_all

lemma moves_high:
  assumes "imx_live m (gp_env s) c" "unat off < 32" "\<And>k. bit w k = (if k = unat off then v else bit (env_regs (gp_env s) (reg_DR (port_base (gp_env s) (port_of c)))) k)"
  shows "moves imx_live imx_high m c off (\<lambda>_. v) (gp_env s) (gp_env (mrt_writel w (reg_DR (port_base (gp_env s) (port_of c))) s))"
    and "moves imx_live imx_out m c off id (gp_env s) (gp_env (mrt_writel w (reg_DR (port_base (gp_env s) (port_of c))) s))"
  using reg_bit_moves [OF assms(1, 2), of 0 0 w "\<lambda>_. v"] reg_bit_moves [OF assms(1, 2), of 0 4 w "\<lambda>_. v"] assms(3)
  unfolding imx_out_reg imx_high_reg by simp_all

lemma set_moves:
  assumes li: "imx_live (gp_chip s) (gp_env s) c" and off: "off < gc_ngpios (gp_chip s c)" and v: "0 \<le> v"
  shows "\<exists>e. imx_gpiochip_driver_set c off v s = s\<lparr>gp_env := e\<rparr> \<and> moves imx_live imx_out (gp_chip s) c off id (gp_env s) e \<and>
     moves imx_live imx_high (gp_chip s) c off (\<lambda>_. v \<noteq> 0) (gp_env s) e"
proof -
  note f = live_facts [OF li off]
  let ?a = "port_base (gp_env s) (port_of c)"
  let ?w = "(if v \<noteq> 0 then set_bit else unset_bit) (unat off) (env_regs (gp_env s) ?a)"
  have "imx_gpiochip_driver_set c off v s = mrt_writel ?w ?a s"
    using f v by (simp add: imx_gpiochip_driver_set_def Let_def setbit_eq clrbit_eq pbase_eq)
  moreover have "bit ?w k = (if k = unat off then v \<noteq> 0 else bit (env_regs (gp_env s) ?a) k)" for k
    using f(4) by (simp add: bit_or_flag bit_unset_flag)
  ultimately show ?thesis
    using moves_high [OF li f(4), of ?w "v \<noteq> 0"] env_writel(2) [of ?w ?a s] by (intro exI [of _ "gp_env (mrt_writel ?w ?a s)"]) simp
qed


lemma output_moves:
  assumes li: "imx_live (gp_chip s) (gp_env s) c" and off: "off < gc_ngpios (gp_chip s c)" and v: "0 \<le> v"
  shows "\<exists>e. imx_gpiochip_driver_direction_output co c off v s = (0, s\<lparr>gp_env := e\<rparr>) \<and>
     moves imx_live imx_out (gp_chip s) c off (\<lambda>_. True) (gp_env s) e \<and> moves imx_live imx_high (gp_chip s) c off (\<lambda>_. v \<noteq> 0) (gp_env s) e"
proof -
  note f = live_facts [OF li off]
  let ?a = "reg_GDIR (port_base (gp_env s) (port_of c))"
  let ?w = "set_bit (unat off) (env_regs (gp_env s) ?a)"
  let ?s = "mrt_writel ?w ?a s"
  have m1: "moves imx_live imx_out (gp_chip s) c off (\<lambda>_. True) (gp_env s) (gp_env ?s)" "moves imx_live imx_high (gp_chip s) c off id (gp_env s) (gp_env ?s)"
    using moves_out [OF li f(4), of ?w True] f(4) by (simp_all add: bit_or_flag)
  have "imx_live (gp_chip ?s) (gp_env ?s) c" "off < gc_ngpios (gp_chip ?s c)" using li off by (simp_all add: imx_frame)
  from set_moves [OF this v] obtain e where e: "imx_gpiochip_driver_set c off v ?s = ?s\<lparr>gp_env := e\<rparr>"
    and m2: "moves imx_live imx_out (gp_chip s) c off id (gp_env ?s) e" "moves imx_live imx_high (gp_chip s) c off (\<lambda>_. v \<noteq> 0) (gp_env ?s) e"
    by (auto simp: imx_frame)
  have "?s\<lparr>gp_env := e\<rparr> = s\<lparr>gp_env := e\<rparr>" by (subst env_writel(2)) simp
  then have "imx_gpiochip_driver_direction_output co c off v s = (0, s\<lparr>gp_env := e\<rparr>)"
    using f e by (simp add: imx_gpiochip_driver_direction_output_def Let_def setbit_eq pbase_eq call_set_def imx_frame imx_set_p_def)
  moreover have "moves imx_live imx_out (gp_chip s) c off (\<lambda>_. True) (gp_env s) e" "moves imx_live imx_high (gp_chip s) c off (\<lambda>_. v \<noteq> 0) (gp_env s) e"
    using moves_trans [OF m1(1) m2(1)] moves_trans [OF m1(2) m2(2)] by simp_all
  ultimately show ?thesis by blast
qed

lemma input_moves:
  assumes li: "imx_live (gp_chip s) (gp_env s) c" and off: "off < gc_ngpios (gp_chip s c)"
  shows "\<exists>e. imx_gpiochip_driver_direction_input c off s = (0, s\<lparr>gp_env := e\<rparr>) \<and>
     moves imx_live imx_out (gp_chip s) c off (\<lambda>_. False) (gp_env s) e \<and> moves imx_live imx_high (gp_chip s) c off id (gp_env s) e"
proof -
  note f = live_facts [OF li off]
  let ?a = "reg_GDIR (port_base (gp_env s) (port_of c))"
  let ?w = "unset_bit (unat off) (env_regs (gp_env s) ?a)"
  have "imx_gpiochip_driver_direction_input c off s = (0, mrt_writel ?w ?a s)"
    using f by (simp add: imx_gpiochip_driver_direction_input_def Let_def clrbit_eq pbase_eq)
  moreover have "bit ?w k = (if k = unat off then False else bit (env_regs (gp_env s) ?a) k)" for k by (simp add: bit_unset_flag)
  ultimately show ?thesis
    using moves_out [OF li f(4), of ?w False] env_writel(2) [of ?w ?a s] by (intro exI [of _ "gp_env (mrt_writel ?w ?a s)"]) simp
qed

interpretation imx: gpio_hw "imx_code co" imx_live imx_out imx_high for co
proof unfold_locales
  fix m e c assume "imx_live m e c"
  then show "gc_get_direction (m c) \<noteq> 0 \<and> gc_direction_output (m c) \<noteq> 0 \<and> gc_direction_input (m c) \<noteq> 0 \<and> gc_get (m c) \<noteq> 0 \<and> gc_set (m c) \<noteq> 0"
    by (simp add: imx_live_def imx_chip_def imx_get_direction_p_def imx_direction_output_p_def imx_direction_input_p_def imx_get_p_def imx_set_p_def)
next
  fix s :: imx_sys and c off and v :: int assume li: "imx_live (gp_chip s) (gp_env s) c" and off: "off < gc_ngpios (gp_chip s c)"
  note f = live_facts [OF li off]
  have p: "gc_get_direction (gp_chip s c) = imx_get_direction_p" "gc_direction_input (gp_chip s c) = imx_direction_input_p"
    "gc_direction_output (gp_chip s c) = imx_direction_output_p" "gc_get (gp_chip s c) = imx_get_p"
    using li by (simp_all add: imx_live_def imx_chip_def)
  show "(word_of_int (co_get_direction (imx_code co) (gc_get_direction (gp_chip s c)) c off s) :: kuint32_t) AND 2 = (if imx_out (gp_env s) c off then 2 else 0)"
    using f p by (simp add: imx_code_def imx_gpiochip_driver_get_direction_def Let_def pbase_eq getbit_iff imx_out_def)
  show "\<exists>e. co_direction_input (imx_code co) (gc_direction_input (gp_chip s c)) c off s = (0, s\<lparr>gp_env := e\<rparr>) \<and>
      moves imx_live imx_out (gp_chip s) c off (\<lambda>_. False) (gp_env s) e \<and> moves imx_live imx_high (gp_chip s) c off id (gp_env s) e"
    using input_moves [OF li off] p by (simp add: imx_code_def)
  show "co_get (imx_code co) (gc_get (gp_chip s c)) c off s = (if imx_high (gp_env s) c off then 1 else 0)"
    using f p by (simp add: imx_code_def imx_gpiochip_driver_get_def Let_def pbase_eq getbit_iff imx_high_def)
  assume v: "0 \<le> v"
  show "\<exists>e. co_direction_output (imx_code co) (gc_direction_output (gp_chip s c)) c off v s = (0, s\<lparr>gp_env := e\<rparr>) \<and>
      moves imx_live imx_out (gp_chip s) c off (\<lambda>_. True) (gp_env s) e \<and> moves imx_live imx_high (gp_chip s) c off (\<lambda>_. v \<noteq> 0) (gp_env s) e"
    using output_moves [OF li off v] p by (simp add: imx_code_def)
  show "\<exists>e. co_set (imx_code co) (gc_set (gp_chip s c)) c off v s = s\<lparr>gp_env := e\<rparr> \<and>
      moves imx_live imx_out (gp_chip s) c off id (gp_env s) e \<and> moves imx_live imx_high (gp_chip s) c off (\<lambda>_. v \<noteq> 0) (gp_env s) e"
    using set_moves [OF li off v] f by (simp add: imx_code_def call_set_def)
qed


section \<open>Triggers\<close>

text \<open>The two bits that configure the trigger of pin \<open>k\<close>.\<close>

definition icr_field :: "(kuaddr_t \<Rightarrow> kuint32_t) \<Rightarrow> kuaddr_t \<Rightarrow> nat \<Rightarrow> kuint32_t" where
  "icr_field regs base k = drop_bit (2 * (k mod 16)) (regs (if k < 16 then reg_ICR1 base else reg_ICR2 base)) AND 3"

lemma bit_3: "bit (3 :: int) j \<longleftrightarrow> j < 2"
proof -
  have m: "Bit_Operations.mask 2 = (3 :: int)" by (simp add: mask_eq_exp_minus_1)
  show ?thesis using bit_mask_iff [where 'a = int, of 2 j] unfolding m by simp
qed

lemma small_code: "bit (c :: kuint32_t) j \<Longrightarrow> c \<le> 3 \<Longrightarrow> j < 2"
proof -
  assume b: "bit c j" and "c \<le> 3"
  then have "unat c < 2 ^ 2" by (simp add: word_le_nat_alt)
  then have t: "take_bit 2 (unat c) = unat c" by (rule take_bit_nat_eq_self)
  have "bit (unat c) j" using b by (simp add: bit_unsigned_iff)
  then show "j < 2" by (subst (asm) t [symmetric]) (simp add: bit_take_bit_iff)
qed

text \<open>Replacing the two bits at position \<open>2 * n\<close> of a register by \<open>c\<close>.\<close>

lemma field_replaced:
  assumes "n < 16" and "m < 16" and "c \<le> 3"
  shows "drop_bit (2 * m) ((w AND NOT (push_bit (2 * n) 3)) OR push_bit (2 * n) c :: kuint32_t) AND 3 =
     (if m = n then c else drop_bit (2 * m) w AND 3)"
proof (rule bit_word_eqI)
  fix j assume "j < LENGTH(32)"
  show "bit (drop_bit (2 * m) ((w AND NOT (push_bit (2 * n) 3)) OR push_bit (2 * n) c) AND 3) j =
     bit (if m = n then c else drop_bit (2 * m) w AND 3) j"
  proof (cases "j < 2")
    case True
    then have l: "2 * m + j < 32" using assms(2) by linarith
    have "2 * n \<le> 2 * m + j \<and> 2 * m + j - 2 * n < 2 \<longleftrightarrow> m = n" using True by linarith
    moreover have "bit c (2 * m + j - 2 * n) \<Longrightarrow> 2 * m + j - 2 * n < 2" using small_code assms(3) by blast
    ultimately show ?thesis using True l small_code [OF _ assms(3), of j] by (auto simp: bit_simps bit_3)
  next
    case False
    then show ?thesis using small_code [OF _ assms(3), of j] by (auto simp: bit_simps bit_3)
  qed
qed


lemma unat_double: "unat (w :: kuint32_t) < 32 \<Longrightarrow> unat (push_bit 1 w) = 2 * unat w"
  by (simp add: push_bit_eq_mult unat_word_ariths)

definition icr_shift :: "kuint32_t \<Rightarrow> nat" where
  "icr_shift off = 2 * (unat off mod 16)"

lemma icr_shift_cases:
  assumes "unat off < 32"
  shows "off \<ge> 16 \<Longrightarrow> unat (push_bit 1 (off - 16)) = icr_shift off" "\<not> off \<ge> 16 \<Longrightarrow> unat (push_bit 1 off) = icr_shift off"
proof -
  assume h: "off \<ge> 16"
  then have "unat (off - 16) = unat off - 16" using unat_sub [of 16 off] by simp
  moreover have "16 \<le> unat off" using h by (simp add: word_le_nat_alt)
  ultimately have "unat (off - 16) = unat off mod 16" using assms by (simp add: mod_if)
  then show "unat (push_bit 1 (off - 16)) = icr_shift off" using unat_double [of "off - 16"] assms by (simp add: icr_shift_def)
next
  assume "\<not> off \<ge> 16"
  then have "unat off < 16" by (simp add: not_le word_less_nat_alt)
  then show "unat (push_bit 1 off) = icr_shift off" using unat_double [of off] by (simp add: icr_shift_def)
qed

lemma writel_regs: "env_regs (gp_env (mrt_writel v a s)) = (env_regs (gp_env s))(a := v)"
  by (rule imx_frame(5))

text \<open>The registers the trigger of pin \<open>off\<close> leaves.\<close>

definition trigger_regs :: "kuaddr_t \<Rightarrow> kuint32_t \<Rightarrow> kuint32_t \<Rightarrow> (kuaddr_t \<Rightarrow> kuint32_t) \<Rightarrow> kuaddr_t \<Rightarrow> kuint32_t" where
  "trigger_regs base off code regs =
     (let icr = (if off \<ge> 16 then reg_ICR2 base else reg_ICR1 base)
      in regs(reg_EDGE_SEL base := (if code > 3 then set_bit else unset_bit) (unat off) (regs (reg_EDGE_SEL base)),
              icr := regs icr AND NOT (push_bit (icr_shift off) 3) OR push_bit (icr_shift off) (if code > 3 then 0 else code)))"

lemma andnot_or: "(w AND NOT m) OR m = w OR (m :: kuint32_t)"
  by (rule bit_word_eqI) (auto simp: bit_simps)

lemma pin_position: "(u :: nat) < 32 \<Longrightarrow> k < 32 \<Longrightarrow> k = u \<longleftrightarrow> (k < 16 \<longleftrightarrow> u < 16) \<and> k mod 16 = u mod 16"
proof -
  assume u: "u < 32" and k: "k < 32"
  have "x mod 16 = (if x < 16 then x else x - 16)" if "x < 32" for x :: nat using that by (cases "x < 16") (simp_all add: le_mod_geq)
  then show ?thesis using u k by auto
qed

lemma set_type_regs:
  assumes d: "id_hwirq (de_data (ir_descs (im_irq (gp_env s)) d)) = off" and p: "im_private (gp_env s) (fwk_irq_get_generic_data d (im_irq (gp_env s))) = p"
    and off: "unat off < 32" and g: "fwk_gpiochip_get_desc (chip_at p) off s = g" "g \<noteq> 0" and c: "icr_code type (active_low s g) = Some code"
  shows "\<exists>s'. imx_gpiochip_driver_irq_set_type d type s = (ER_NORMAL, s') \<and> s' = s\<lparr>gp_env := gp_env s'\<rparr> \<and>
     env_regs (gp_env s') = trigger_regs (pbase p s) off code (env_regs (gp_env s))"
proof -
  let ?b = "pbase p s"
  have c': "icr_code type (fwk_gpio_desc_check_flags g NR_FWK_GPIODESC_ACTIVE_LOW s) = Some code" using c by (simp add: check_flags_bit active_low_def)
  define s1 where "s1 = mrt_writel ((if code > 3 then set_bit else unset_bit) (unat off) (env_regs (gp_env s) (reg_EDGE_SEL ?b))) (reg_EDGE_SEL ?b) s"
  define icr where "icr = (if off \<ge> 16 then reg_ICR2 ?b else reg_ICR1 ?b)"
  define s2 where "s2 = mrt_writel (env_regs (gp_env s) icr AND NOT (push_bit (icr_shift off) 3) OR push_bit (icr_shift off) (if code > 3 then 0 else code)) icr s1"
  have twice: "mrt_writel v a (mrt_writel w a t) = mrt_writel v a t" for v w a t by (simp add: mrt_writel_def upd_irq_def)
  have e1: "env_regs (gp_env s1) icr = env_regs (gp_env s) icr" by (simp add: s1_def writel_regs icr_def)
  have "imx_gpiochip_driver_irq_set_type d type s = (ER_NORMAL, s2)"
    using d p g c' icr_shift_cases [OF off] e1
    by (simp add: imx_gpiochip_driver_irq_set_type_def Let_def writel_regs twice andnot_or s1_def s2_def icr_def mrt_setbitl_def mrt_clrbitl_def
        set_bit_eq_or unset_bit_eq_and_not)
  moreover have "s2 = s\<lparr>gp_env := gp_env s2\<rparr>" by (simp add: s2_def s1_def mrt_writel_def upd_irq_def)
  moreover have "env_regs (gp_env s2) = trigger_regs ?b off code (env_regs (gp_env s))"
    by (simp add: s2_def s1_def writel_regs trigger_regs_def icr_def Let_def fun_eq_iff)
  ultimately show ?thesis by blast
qed

lemma trigger_fields:
  assumes off: "unat off < 32" and k: "k < 32"
  shows "icr_field (trigger_regs base off code regs) base k = (if k = unat off then if code > 3 then 0 else code else icr_field regs base k)"
    and "bit (trigger_regs base off code regs (reg_EDGE_SEL base)) k = (if k = unat off then code > 3 else bit (regs (reg_EDGE_SEL base)) k)"
proof -
  let ?c = "if code > 3 then 0 else code"
  have f: "drop_bit (2 * (k mod 16)) ((w AND NOT (push_bit (icr_shift off) 3)) OR push_bit (icr_shift off) ?c) AND 3 =
      (if k mod 16 = unat off mod 16 then ?c else drop_bit (2 * (k mod 16)) w AND 3)" for w
    using field_replaced [of "unat off mod 16" "k mod 16" ?c w] by (simp add: icr_shift_def not_less)
  note pos = pin_position [OF off k]
  have "off \<ge> 16 \<longleftrightarrow> \<not> unat off < 16" by (simp add: word_le_nat_alt not_less)
  then show "icr_field (trigger_regs base off code regs) base k = (if k = unat off then ?c else icr_field regs base k)"
    using f unfolding pos by (cases "k < 16"; cases "unat off < 16") (simp_all add: icr_field_def trigger_regs_def Let_def)
  show "bit (trigger_regs base off code regs (reg_EDGE_SEL base)) k = (if k = unat off then code > 3 else bit (regs (reg_EDGE_SEL base)) k)"
    using off by (auto simp: trigger_regs_def Let_def bit_or_flag bit_unset_flag)
qed


section \<open>The handler\<close>

text \<open>The status register clears the bits that are written as one.  Setting one bit by reading, changing and writing back therefore clears
  every pending bit: of all pending pins only the first is handled.\<close>

lemma isr_nothing:
  assumes "\<And>k. k \<in> set is \<Longrightarrow> \<not> (bit (env_regs (gp_env s) (reg_IMR (pbase p s))) k \<and> bit (env_regs (gp_env s) (reg_ISR (pbase p s))) k)"
  shows "isr_loop wr p is s = Some ([], s)"
  using assms by (induction "is") (auto simp: Let_def getbit_iff)

lemma isr_handles_first_only:
  assumes k: "find (\<lambda>k. bit (env_regs (gp_env s) (reg_IMR (pbase p s))) k \<and> bit (env_regs (gp_env s) (reg_ISR (pbase p s))) k) is = Some k"
    and irq: "fwk_irq_get_by_domain (pt_irqdomain (im_port (gp_env s) p)) (int k) (im_irq (gp_env s)) = Some irq"
  shows "isr_loop (\<lambda>old v. old AND NOT v) p is s = Some (fwk_do_irq_handler irq (im_irq (gp_env s)), mrt_writel 0 (reg_ISR (pbase p s)) s)"
  using k
proof (induction "is")
  case (Cons j js)
  let ?I = "env_regs (gp_env s) (reg_ISR (pbase p s))"
  show ?case
  proof (cases "bit (env_regs (gp_env s) (reg_IMR (pbase p s))) j \<and> bit ?I j")
    case True
    then have j: "j = k" using Cons.prems by simp
    have z: "?I AND NOT (?I OR push_bit k 1) = 0" by (rule bit_word_eqI) (auto simp: bit_simps)
    have "isr_loop (\<lambda>old v. old AND NOT v) p js (mrt_writel 0 (reg_ISR (pbase p s)) s) = Some ([], mrt_writel 0 (reg_ISR (pbase p s)) s)"
      by (rule isr_nothing) (simp add: imx_frame pbase_eq)
    then show ?thesis using True irq z by (simp add: j Let_def getbit_iff)
  next
    case False
    then show ?thesis using Cons by (auto simp: Let_def getbit_iff)
  qed
qed simp

text \<open>Removing the driver frees a port, but the pin controller inside it stays on the list of the pin framework.\<close>

lemma upd_keeps_chips:
  "sgrt_fwk_gpiochip_list (upd_irq f s) = sgrt_fwk_gpiochip_list s" "sgrt_fwk_gpiochip_list (upd_port p g s) = sgrt_fwk_gpiochip_list s"
  "sgrt_fwk_gpiochip_list (set_drvdata pdev v s) = sgrt_fwk_gpiochip_list s" "gp_freed (upd_irq f s) = gp_freed s"
  by (simp_all add: upd_irq_def upd_port_def set_drvdata_def)

lemma drop_irq_keeps_chips: "drop_irq chips irq p s = Some s' \<Longrightarrow> sgrt_fwk_gpiochip_list s' = sgrt_fwk_gpiochip_list s"
  by (auto simp: drop_irq_def upd_keeps_chips bind_Some_iff split: if_splits)

lemma removed_port_stays_listed:
  assumes "imx_gpiochip_driver_remove chips pdev s = Some (r, s')"
  shows "sgrt_fwk_gpiochip_list s' = sgrt_fwk_gpiochip_list s" and "im_drvdata (gp_env s) pdev \<in> set (gp_freed s')"
proof -
  let ?p = "im_drvdata (gp_env s) pdev"
  obtain s1 s2 s3 where 1: "imx_gpiochip_driver_remove_intc pdev s = Some s1"
    and 2: "drop_irq chips (pt_irq_high (im_port (gp_env (set_drvdata pdev 0 s1)) ?p)) ?p (set_drvdata pdev 0 s1) = Some s2"
    and 3: "drop_irq chips (pt_irq_low (im_port (gp_env s2) ?p)) ?p s2 = Some s3"
    and s': "sgrt_fwk_gpiochip_list s' = sgrt_fwk_gpiochip_list s3" "gp_freed s' = gp_freed s3 @ [?p]"
    using assms by (auto simp: imx_gpiochip_driver_remove_def Let_def bind_Some_iff gp_kfree_def)
  have "sgrt_fwk_gpiochip_list s1 = sgrt_fwk_gpiochip_list s"
    using 1 by (auto simp: imx_gpiochip_driver_remove_intc_def Let_def bind_Some_iff upd_keeps_chips)
  then show "sgrt_fwk_gpiochip_list s' = sgrt_fwk_gpiochip_list s"
    using drop_irq_keeps_chips [OF 2] drop_irq_keeps_chips [OF 3] s' by (simp add: upd_keeps_chips)
  show "?p \<in> set (gp_freed s')" using s' by simp
qed

section \<open>Properties\<close>

definition demo_gpio :: imx_sys where
  "demo_gpio = \<lparr>gp_chip = (\<lambda>_. \<lparr>gc_name = None, gc_dev = 0x8000, gc_base = 0, gc_ngpios = 32, gc_desc = 0xA000, gc_pin_ranges = [],
       gc_request = fwk_gpiochip_request_p, gc_free = fwk_gpiochip_free_p, gc_get_direction = imx_get_direction_p,
       gc_direction_input = imx_direction_input_p, gc_direction_output = imx_direction_output_p, gc_get = imx_get_p, gc_set = imx_set_p,
       gc_to_irq = imx_to_irq_p, gc_n_cells = 2, gc_of_xlate = fwk_gpiochip_of_xlate_p\<rparr>),
     gp_desc = (\<lambda>_. \<lparr>gd_chip = 0x9010, gd_flags = 2, gd_label = None\<rparr>), sgrt_fwk_gpiochip_list = [0x9010], gp_dev_node = (\<lambda>_. 0),
     gp_dev_name = (\<lambda>_. None), gp_tree = demo_tree, gp_pool = [], gp_freed = [],
     gp_env = \<lparr>im_port = (\<lambda>_. \<lparr>pt_base = 0x209C000, pt_id = 0, pt_irq_high = 0, pt_irq_low = 0, pt_irqdomain = 0, pt_irq_base = 0, pt_irqgc = 0\<rparr>),
       im_irq = demo_of_irqs\<lparr>ir_descs := (\<lambda>_. \<lparr>de_irq = 40, de_flags = 0, de_actions = [], de_data = zero_data\<lparr>id_hwirq := 17\<rparr>\<rparr>), ir_regs := (\<lambda>_. 0)\<rparr>,
       sgrt_imx_gpio_ports_list = [0x9000], im_private = (\<lambda>_. 0x9000), im_drvdata = (\<lambda>_. 0), im_pdev_id = (\<lambda>_. - 1), im_res = (\<lambda>_. [])\<rparr>\<rparr>"

lemma demo_gpio_served: "served imx_live demo_gpio 0xA024 0x9010 3"
  by (simp add: served_def pin_def demo_gpio_def imx_live_def imx_chip_def SGRT_GPIOCHIP_OFFSET_def GPIO_DESC_SIZE_def isValid_def IS_ERR_def
      port_base_def)

lemma demo_gpio_synced: "synced imx_live imx_out demo_gpio"
  by (simp add: synced_def requested_def demo_gpio_def)

text \<open>C34: Pins have one owner at a time.  For every sequence of requests, releases and uses of pins the i.MX driver serves, the code and the
  specification of ownership go together: a request succeeds exactly if the pin has no owner and makes the caller its owner under its
  label, a request for an owned pin fails with \<open>ER_USED\<close> and changes nothing, releasing a pin takes its owner away, and no other
  operation and no operation on another pin changes who owns it.\<close>

theorem gpio_ownership_refined:
  assumes "list_all (op_ok imx_live s) ops"
  shows "(fst (gpio_run (imx_code co) ops s), owner (snd (gpio_run (imx_code co) ops s))) = spec_own_run ops (owner s)"
  using imx.run_spec [OF assms, of co] by simp

theorem gpio_ownership_refined_witness:
  "\<forall>co. fst (gpio_run (imx_code co) [Op_request 0xA024 (Some [65, 0]), Op_request 0xA024 (Some [66, 0]), Op_output 0xA024 1, Op_put 0xA024,
       Op_request 0xA024 (Some [66, 0])] demo_gpio) = [0, - 14, 0, 0, 0]"
proof
  fix co :: "imx_env gpio_code"
  let ?ops = "[Op_request 0xA024 (Some [65, 0]), Op_request 0xA024 (Some [66, 0]), Op_output 0xA024 1, Op_put 0xA024, Op_request 0xA024 (Some [66, 0])]"
  have "list_all (op_ok imx_live demo_gpio) ?ops" using demo_gpio_served by (auto simp: op_ok_def)
  from gpio_ownership_refined [OF this, of co] show "fst (gpio_run (imx_code co) ?ops demo_gpio) = [0, - 14, 0, 0, 0]"
    by (simp add: owner_desc demo_gpio_def prod_eq_iff)
qed

text \<open>C35: The direction the framework remembers for a requested pin is the one the hardware has.  If that holds for all pins of the i.MX
  controllers, it holds after every sequence of requests, releases and uses of pins: requesting a pin reads the direction back, and every
  change of the direction is recorded, also the changes open-drain and open-source pins make instead of driving a level.\<close>

theorem gpio_direction_synced:
  assumes "list_all (op_ok imx_live s) ops" and "synced imx_live imx_out s"
  shows "synced imx_live imx_out (snd (gpio_run (imx_code co) ops s))"
  using imx.run_spec [OF assms(1), of co] assms(2) by simp

theorem gpio_direction_synced_witness:
  "\<forall>co. synced imx_live imx_out (snd (gpio_run (imx_code co) [Op_request 0xA024 None, Op_output 0xA024 1, Op_input 0xA024] demo_gpio))"
proof
  fix co :: "imx_env gpio_code"
  have "list_all (op_ok imx_live demo_gpio) [Op_request 0xA024 None, Op_output 0xA024 1, Op_input 0xA024]"
    using demo_gpio_served by (auto simp: op_ok_def)
  from gpio_direction_synced [OF this demo_gpio_synced, of co]
  show "synced imx_live imx_out (snd (gpio_run (imx_code co) [Op_request 0xA024 None, Op_output 0xA024 1, Op_input 0xA024] demo_gpio))" .
qed

text \<open>C36: Levels of pins are logical levels.  On a requested output of an i.MX controller, the value read after a value was set is the one that
  was set, whether the pin is active high or active low; the data register has the value itself on an active high pin and its opposite on an
  active low one; and setting a value on an input changes nothing.\<close>

theorem gpio_level_roundtrip:
  assumes "served imx_live s d c off" and "synced imx_live imx_out s" and "requested s d" and "0 \<le> sint v"
  shows "if is_out s d
     then fwk_gpio_get_value (imx_code co) d (fwk_gpio_set_value (imx_code co) d v s) = (if v = 0 then 0 else 1) \<and>
          imx_high (gp_env (fwk_gpio_set_value (imx_code co) d v s)) c off = ((v \<noteq> 0) \<noteq> active_low s d)
     else fwk_gpio_set_value (imx_code co) d v s = s"
  using imx.value_roundtrip [OF assms] by simp

theorem gpio_level_roundtrip_witness:
  "\<forall>co. fwk_gpio_get_value (imx_code co) 0xA024 (fwk_gpio_set_value (imx_code co) 0xA024 1
     (upd_gd 0xA024 (\<lambda>x. x\<lparr>gd_flags := 19\<rparr>) (mrt_writel 8 0x209C004 demo_gpio))) = 1"
proof
  fix co :: "imx_env gpio_code"
  let ?t = "mrt_writel 8 0x209C004 demo_gpio"
  let ?s = "upd_gd 0xA024 (\<lambda>x. x\<lparr>gd_flags := 19\<rparr>) ?t"
  have p: "pin ?s d c off = pin demo_gpio d c off" for d c off by (rule pin_cong) (simp_all add: gd_upd imx_frame)
  have "imx_live (gp_chip ?s) (gp_env ?s) = imx_live (gp_chip demo_gpio) (gp_env demo_gpio)" by (simp add: gd_upd imx_frame)
  then have s: "served imx_live ?s d c off = served imx_live demo_gpio d c off" for d c off by (simp add: served_def p)
  have "requested ?s d \<Longrightarrow> d = 0xA024" for d by (simp add: requested_def gd_upd imx_frame demo_gpio_def split: if_splits)
  moreover have "imx_out (gp_env ?s) 0x9010 3" by (simp add: imx_out_def gd_upd imx_frame) (simp add: port_base_def demo_gpio_def)
  moreover have "served imx_live demo_gpio 0xA024 c off \<Longrightarrow> c = 0x9010 \<and> off = 3" for c off
    using pin_unique [of demo_gpio "0xA024" "0x9010" 3] demo_gpio_served by (auto simp: served_def)
  moreover have o: "is_out ?s 0xA024" "requested ?s 0xA024" by (simp_all add: flag_views gd_upd)
  ultimately have "synced imx_live imx_out ?s" unfolding synced_def s by blast
  from gpio_level_roundtrip [OF _ this, of "0xA024" "0x9010" 3 1 co] show "fwk_gpio_get_value (imx_code co) 0xA024 (fwk_gpio_set_value (imx_code co) 0xA024 1 ?s) = 1"
    using demo_gpio_served o s by simp
qed

text \<open>Programming the trigger of a pin's interrupt.  The driver writes into the two bits of the pin the code of the edge or level asked for,
  with edges and levels exchanged on an active low pin, or sets the pin's bit of the register for both edges; the configuration of the other
  31 pins, the pin's data and direction and the state of the pin framework stay as they are.\<close>

lemma gpio_trigger_programmed:
  assumes "id_hwirq (de_data (ir_descs (im_irq (gp_env s)) d)) = off" and "im_private (gp_env s) (fwk_irq_get_generic_data d (im_irq (gp_env s))) = p"
    and "unat off < 32" and "fwk_gpiochip_get_desc (chip_at p) off s = g" and "g \<noteq> 0" and "icr_code type (active_low s g) = Some code"
  shows "\<exists>s'. imx_gpiochip_driver_irq_set_type d type s = (ER_NORMAL, s') \<and> s' = s\<lparr>gp_env := gp_env s'\<rparr> \<and>
     (\<forall>k < 32. icr_field (env_regs (gp_env s')) (pbase p s) k =
          (if k = unat off then if code > 3 then 0 else code else icr_field (env_regs (gp_env s)) (pbase p s) k) \<and>
        bit (env_regs (gp_env s') (reg_EDGE_SEL (pbase p s))) k = (if k = unat off then code > 3 else bit (env_regs (gp_env s) (reg_EDGE_SEL (pbase p s))) k)) \<and>
     (\<forall>a. a \<notin> {reg_EDGE_SEL (pbase p s), reg_ICR1 (pbase p s), reg_ICR2 (pbase p s)} \<longrightarrow> env_regs (gp_env s') a = env_regs (gp_env s) a)"
proof -
  obtain s' where s': "imx_gpiochip_driver_irq_set_type d type s = (ER_NORMAL, s')" "s' = s\<lparr>gp_env := gp_env s'\<rparr>"
    and r: "env_regs (gp_env s') = trigger_regs (pbase p s) off code (env_regs (gp_env s))"
    using set_type_regs [OF assms] by blast
  have "env_regs (gp_env s') a = env_regs (gp_env s) a" if "a \<notin> {reg_EDGE_SEL (pbase p s), reg_ICR1 (pbase p s), reg_ICR2 (pbase p s)}" for a
    using that by (auto simp: r trigger_regs_def Let_def)
  then show ?thesis using s' trigger_fields [OF assms(3), of _ "pbase p s" code "env_regs (gp_env s)"] r by (intro exI [of _ s']) simp
qed

lemma gpio_trigger_programmed_witness:
  "\<exists>s'. imx_gpiochip_driver_irq_set_type 0x7000 1 demo_gpio = (ER_NORMAL, s') \<and> icr_field (env_regs (gp_env s')) 0x209C000 17 = 2"
proof -
  have "pbase 0x9000 demo_gpio = 0x209C000" by (simp add: pbase_def demo_gpio_def)
  then show ?thesis
    using gpio_trigger_programmed [of demo_gpio "0x7000" 17 "0x9000" "0xA0CC" 1 2]
    by (force simp: demo_gpio_def zero_data_def fwk_gpiochip_get_desc_def GPIO_DESC_SIZE_def icr_code_def active_low_def pbase_def)
qed

end
