(* ===== verification/Platform_Bus.thy ===== *)
theory Platform_Bus
  imports Of_Irq Kobject
begin

text \<open>
  Buses, devices and drivers (\<^verbatim>\<open>platform/bus_type/fwk_platform.c\<close>, \<^verbatim>\<open>fwk_platdev.c\<close>, \<^verbatim>\<open>fwk_platdrv.c\<close>): adding a device or a driver
  to a bus matches it with what is there and probes the pairs that fit.

  Devices and drivers are structures at addresses; a device and the structure around it (a platform device, an I2C client)
  share their record, and so do drivers.  The links of a bus are lists of addresses.  The functions of drivers and of the pin
  controllers are parameters: they work on an environment of their own, the hardware and the drivers' data.
  \<open>None\<close> is a null dereference or a walk over the device tree that does not end.
\<close>

section \<open>State\<close>

record fwk_device =
  dv_init_name :: "bytes option"
  dv_bus :: kuaddr_t
  dv_type :: kuaddr_t
  dv_driver :: kuaddr_t
  dv_node :: kuaddr_t
  dv_name :: bytes
  dv_override :: "bytes option"
  dv_irq :: int

text \<open>A table of identifiers that is absent is \<open>None\<close>; a platform driver without one has an empty table.\<close>

record fwk_driver =
  dd_name :: bytes
  dd_matches :: int
  dd_of_match :: "bytes list"
  dd_bus :: kuaddr_t
  dd_ids :: "bytes list option"

record 'e bus_sys =
  bs_dev :: "kuaddr_t \<Rightarrow> fwk_device"
  bs_drv :: "kuaddr_t \<Rightarrow> fwk_driver"
  bs_devices :: "kuaddr_t \<Rightarrow> kuaddr_t list"
  bs_drivers :: "kuaddr_t \<Rightarrow> kuaddr_t list"
  bs_priv :: "kuaddr_t \<Rightarrow> bool"
  sgrt_fwk_devices :: "kuaddr_t list"
  bs_tree :: of_sys
  bs_kobj :: kobj_sys
  bs_irq :: irq_sys
  bs_env :: 'e

record 'e drv_ops =
  dp_probe :: "(kuaddr_t \<Rightarrow> 'e \<Rightarrow> int \<times> 'e) option"
  dp_remove :: "(kuaddr_t \<Rightarrow> 'e \<Rightarrow> int \<times> 'e) option"

record 'e pin_ops =
  pin_bind :: "kuaddr_t \<Rightarrow> 'e \<Rightarrow> int \<times> 'e"
  pin_unbind :: "kuaddr_t \<Rightarrow> 'e \<Rightarrow> 'e"

record 'e fwk_bus_type =
  bt_match :: "(kuaddr_t \<Rightarrow> kuaddr_t \<Rightarrow> 'e bus_sys \<Rightarrow> int option) option"
  bt_probe :: "(kuaddr_t \<Rightarrow> 'e bus_sys \<Rightarrow> (int \<times> 'e bus_sys) option) option"
  bt_remove :: "(kuaddr_t \<Rightarrow> 'e bus_sys \<Rightarrow> (int \<times> 'e bus_sys) option) option"

definition upd_dev :: "kuaddr_t \<Rightarrow> (fwk_device \<Rightarrow> fwk_device) \<Rightarrow> 'e bus_sys \<Rightarrow> 'e bus_sys" where
  "upd_dev d f s = s\<lparr>bs_dev := (bs_dev s)(d := f (bs_dev s d))\<rparr>"

definition upd_drv :: "kuaddr_t \<Rightarrow> (fwk_driver \<Rightarrow> fwk_driver) \<Rightarrow> 'e bus_sys \<Rightarrow> 'e bus_sys" where
  "upd_drv d f s = s\<lparr>bs_drv := (bs_drv s)(d := f (bs_drv s d))\<rparr>"

text \<open>The kernel object inside a device, and the name of a device; the null pointer is \<open>None\<close>.\<close>

definition SGRT_KOBJ_OFFSET :: kuaddr_t where "SGRT_KOBJ_OFFSET = 36"

definition fwk_dev_get_name :: "kuaddr_t \<Rightarrow> 'e bus_sys \<Rightarrow> bytes option" where
  "fwk_dev_get_name d s =
     (case dv_init_name (bs_dev s d) of
        Some n \<Rightarrow> Some n
      | None \<Rightarrow> let n = fwk_kobject_get_name (d + SGRT_KOBJ_OFFSET) (bs_kobj s) in if n = 0 then None else Some (kb_strs (bs_kobj s) n))"

definition fwk_dev_set_name :: "kuaddr_t \<Rightarrow> bytes option \<Rightarrow> va list \<Rightarrow> 'e bus_sys \<Rightarrow> 'e bus_sys option" where
  "fwk_dev_set_name d fmt args s =
     do { (_, k) \<leftarrow> fwk_kobject_set_name_args (d + SGRT_KOBJ_OFFSET) fmt args (bs_kobj s); Some (s\<lparr>bs_kobj := k\<rparr>) }"

definition fwk_dev_del_name :: "kuaddr_t \<Rightarrow> 'e bus_sys \<Rightarrow> 'e bus_sys" where
  "fwk_dev_del_name d s = s\<lparr>bs_kobj := fwk_kobject_del_name (d + SGRT_KOBJ_OFFSET) (bs_kobj s)\<rparr>"

section \<open>Matching and probing\<close>

definition fwk_device_driver_probe ::
  "'e pin_ops \<Rightarrow> (kuaddr_t \<Rightarrow> 'e fwk_bus_type) \<Rightarrow> kuaddr_t \<Rightarrow> 'e bus_sys \<Rightarrow> (int \<times> 'e bus_sys) option" where
  "fwk_device_driver_probe pins bt dev s =
     (let b = bt (dv_bus (bs_dev s dev)); s = s\<lparr>bs_env := snd (pin_bind pins dev (bs_env s))\<rparr>
      in case bt_probe b of
           None \<Rightarrow> Some (- ER_NSUPPORT, s)
         | Some probe \<Rightarrow>
             do { (retval, s) \<leftarrow> probe dev s;
                  Some (if retval \<noteq> 0 then (retval, s\<lparr>bs_env := pin_unbind pins dev (bs_env s)\<rparr>) else (ER_NORMAL, s)) })"

definition fwk_device_driver_remove :: "(kuaddr_t \<Rightarrow> 'e fwk_bus_type) \<Rightarrow> kuaddr_t \<Rightarrow> 'e bus_sys \<Rightarrow> (int \<times> 'e bus_sys) option" where
  "fwk_device_driver_remove bt dev s =
     (case bt_remove (bt (dv_bus (bs_dev s dev))) of None \<Rightarrow> Some (- ER_NSUPPORT, s) | Some remv \<Rightarrow> remv dev s)"

definition fwk_device_driver_match ::
  "'e pin_ops \<Rightarrow> (kuaddr_t \<Rightarrow> 'e fwk_bus_type) \<Rightarrow> kuaddr_t \<Rightarrow> kuaddr_t \<Rightarrow> kuaddr_t \<Rightarrow> 'e bus_sys \<Rightarrow> (int \<times> 'e bus_sys) option" where
  "fwk_device_driver_match pins bt dev bus drv s =
     (case bt_match (bt bus) of
        None \<Rightarrow> None
      | Some match \<Rightarrow>
          do { retval \<leftarrow> match dev drv s;
               if retval < 0 then Some (- ER_NOTFOUND, s)
               else fwk_device_driver_probe pins bt dev (upd_dev dev (\<lambda>x. x\<lparr>dv_driver := drv\<rparr>) s) })"

section \<open>Devices\<close>

fun find_device_loop :: "kuaddr_t \<Rightarrow> kuaddr_t list \<Rightarrow> 'e bus_sys \<Rightarrow> int option" where
  "find_device_loop dev [] s = Some (- ER_NOTFOUND)"
| "find_device_loop dev (l # ls) s =
     (if l = dev then Some ER_NORMAL
      else do { a \<leftarrow> fwk_dev_get_name l s; b \<leftarrow> fwk_dev_get_name dev s;
                if cstr a = cstr b then Some ER_NORMAL else find_device_loop dev ls s })"

definition fwk_device_find :: "kuaddr_t \<Rightarrow> 'e bus_sys \<Rightarrow> int option" where
  "fwk_device_find dev s = find_device_loop dev (sgrt_fwk_devices s) s"

fun attach_drivers ::
  "'e pin_ops \<Rightarrow> (kuaddr_t \<Rightarrow> 'e fwk_bus_type) \<Rightarrow> kuaddr_t \<Rightarrow> kuaddr_t \<Rightarrow> kuaddr_t list \<Rightarrow> 'e bus_sys \<Rightarrow> (int \<times> 'e bus_sys) option" where
  "attach_drivers pins bt dev bus [] s = Some (- ER_PERMIT, s)"
| "attach_drivers pins bt dev bus (d # ds) s =
     do { (retval, s) \<leftarrow> fwk_device_driver_match pins bt dev bus d s;
          if retval = 0 \<or> retval = - ER_PERMIT then Some (ER_NORMAL, s) else attach_drivers pins bt dev bus ds s }"

definition fwk_device_attach ::
  "'e pin_ops \<Rightarrow> (kuaddr_t \<Rightarrow> 'e fwk_bus_type) \<Rightarrow> kuaddr_t \<Rightarrow> kuaddr_t \<Rightarrow> 'e bus_sys \<Rightarrow> (int \<times> 'e bus_sys) option" where
  "fwk_device_attach pins bt dev bus s =
     (if dv_driver (bs_dev s dev) \<noteq> 0 then Some (ER_NORMAL, s)
      else if bt_match (bt bus) = None then Some (- ER_NSUPPORT, s)
      else attach_drivers pins bt dev bus (bs_drivers s bus) s)"

definition fwk_device_detach :: "(kuaddr_t \<Rightarrow> 'e fwk_bus_type) \<Rightarrow> kuaddr_t \<Rightarrow> 'e bus_sys \<Rightarrow> (int \<times> 'e bus_sys) option" where
  "fwk_device_detach bt dev s =
     (let drv = dv_driver (bs_dev s dev)
      in if drv = 0 then Some (ER_NORMAL, s)
         else do { (_, s) \<leftarrow> fwk_device_driver_remove bt dev s;
                   Some (ER_NORMAL, upd_drv drv (\<lambda>x. x\<lparr>dd_matches := dd_matches x - 1\<rparr>) (upd_dev dev (\<lambda>x. x\<lparr>dv_driver := 0\<rparr>) s)) })"

definition fwk_device_to_bus ::
  "'e pin_ops \<Rightarrow> (kuaddr_t \<Rightarrow> 'e fwk_bus_type) \<Rightarrow> kuaddr_t \<Rightarrow> kuaddr_t \<Rightarrow> 'e bus_sys \<Rightarrow> (int \<times> 'e bus_sys) option" where
  "fwk_device_to_bus pins bt dev bus s =
     do { let s = s\<lparr>bs_devices := (bs_devices s)(bus := bs_devices s bus @ [dev])\<rparr>;
          (retval, s) \<leftarrow> fwk_device_attach pins bt dev bus s;
          Some (if retval = 0 \<or> retval = - ER_PERMIT then ER_NORMAL else retval, s) }"

definition fwk_bus_del_device :: "(kuaddr_t \<Rightarrow> 'e fwk_bus_type) \<Rightarrow> kuaddr_t \<Rightarrow> kuaddr_t \<Rightarrow> 'e bus_sys \<Rightarrow> (int \<times> 'e bus_sys) option" where
  "fwk_bus_del_device bt dev bus s =
     do { (_, s) \<leftarrow> fwk_device_detach bt dev s;
          Some (ER_NORMAL, s\<lparr>bs_devices := (bs_devices s)(bus := remove1 dev (bs_devices s bus))\<rparr>) }"

definition fwk_device_add ::
  "'e pin_ops \<Rightarrow> (kuaddr_t \<Rightarrow> 'e fwk_bus_type) \<Rightarrow> kuaddr_t \<Rightarrow> 'e bus_sys \<Rightarrow> (int \<times> 'e bus_sys) option" where
  "fwk_device_add pins bt dev s =
     (let bus = dv_bus (bs_dev s dev)
      in do {
        r \<leftarrow> fwk_device_find dev s;
        if r = 0 then Some (- ER_EXISTED, s)
        else if bus = 0 then Some (ER_NORMAL, s\<lparr>sgrt_fwk_devices := sgrt_fwk_devices s @ [dev]\<rparr>)
        else if \<not> bs_priv s bus then Some (- ER_ERROR, s)
        else do {
          (retval, s) \<leftarrow> fwk_device_to_bus pins bt dev bus (upd_dev dev (\<lambda>x. x\<lparr>dv_driver := 0\<rparr>) s);
          if retval \<noteq> 0 then Some (retval, s)
          else Some (ER_NORMAL, s\<lparr>sgrt_fwk_devices := sgrt_fwk_devices s @ [dev]\<rparr>) } })"

text \<open>The link of a device that is in no list points to itself, so that taking it out changes nothing.\<close>

definition fwk_device_del :: "(kuaddr_t \<Rightarrow> 'e fwk_bus_type) \<Rightarrow> kuaddr_t \<Rightarrow> 'e bus_sys \<Rightarrow> (int \<times> 'e bus_sys) option" where
  "fwk_device_del bt dev s =
     (let bus = dv_bus (bs_dev s dev)
      in do {
        r \<leftarrow> fwk_device_find dev s;
        if r \<noteq> 0 then Some (- ER_NOTFOUND, s)
        else if bus \<noteq> 0 \<and> \<not> bs_priv s bus then Some (- ER_ERROR, s)
        else do {
          (retval, s) \<leftarrow> (if bus \<noteq> 0 then fwk_bus_del_device bt dev bus s else Some (ER_NORMAL, s));
          if retval \<noteq> 0 then Some (retval, s)
          else let s = fwk_dev_del_name dev s in Some (ER_NORMAL, s\<lparr>sgrt_fwk_devices := remove1 dev (sgrt_fwk_devices s)\<rparr>) } })"

section \<open>Drivers\<close>

text \<open>The loop over the devices of the bus carries the number of matches and the last result.\<close>

fun attach_devices ::
  "'e pin_ops \<Rightarrow> (kuaddr_t \<Rightarrow> 'e fwk_bus_type) \<Rightarrow> kuaddr_t \<Rightarrow> kuaddr_t \<Rightarrow> kuaddr_t list \<Rightarrow> int \<Rightarrow> int \<Rightarrow> 'e bus_sys \<Rightarrow>
    (int \<times> int \<times> 'e bus_sys) option" where
  "attach_devices pins bt drv bus [] matches retval s = Some (matches, retval, s)"
| "attach_devices pins bt drv bus (d # ds) matches retval s =
     (if dv_driver (bs_dev s d) \<noteq> 0 then attach_devices pins bt drv bus ds matches retval s
      else do { (retval, s) \<leftarrow> fwk_device_driver_match pins bt d bus drv s;
                attach_devices pins bt drv bus ds (if retval = 0 \<or> retval = - ER_PERMIT then matches + 1 else matches) retval s })"

definition fwk_driver_attach ::
  "'e pin_ops \<Rightarrow> (kuaddr_t \<Rightarrow> 'e fwk_bus_type) \<Rightarrow> kuaddr_t \<Rightarrow> kuaddr_t \<Rightarrow> 'e bus_sys \<Rightarrow> (int \<times> 'e bus_sys) option" where
  "fwk_driver_attach pins bt drv bus s =
     (if bt_match (bt bus) = None then Some (- ER_ERROR, s)
      else do { (matches, retval, s) \<leftarrow> attach_devices pins bt drv bus (bs_devices s bus) 0 0 s;
                let s = upd_drv drv (\<lambda>x. x\<lparr>dd_matches := dd_matches x + matches\<rparr>) s;
                Some (if retval = - ER_NOTFOUND \<or> matches \<noteq> 0 then matches else retval, s) })"

fun detach_devices :: "(kuaddr_t \<Rightarrow> 'e fwk_bus_type) \<Rightarrow> kuaddr_t \<Rightarrow> kuaddr_t list \<Rightarrow> 'e bus_sys \<Rightarrow> 'e bus_sys option" where
  "detach_devices bt drv [] s = Some s"
| "detach_devices bt drv (d # ds) s =
     (if dv_driver (bs_dev s d) \<noteq> drv then detach_devices bt drv ds s
      else do { (_, s) \<leftarrow> fwk_device_driver_remove bt d s;
                detach_devices bt drv ds (upd_drv drv (\<lambda>x. x\<lparr>dd_matches := dd_matches x - 1\<rparr>) (upd_dev d (\<lambda>x. x\<lparr>dv_driver := 0\<rparr>) s)) })"

definition fwk_driver_detach :: "(kuaddr_t \<Rightarrow> 'e fwk_bus_type) \<Rightarrow> kuaddr_t \<Rightarrow> kuaddr_t \<Rightarrow> 'e bus_sys \<Rightarrow> (int \<times> 'e bus_sys) option" where
  "fwk_driver_detach bt drv bus s = map_option (Pair ER_NORMAL) (detach_devices bt drv (bs_devices s bus) s)"

definition fwk_driver_find :: "kuaddr_t \<Rightarrow> kuaddr_t \<Rightarrow> 'e bus_sys \<Rightarrow> int" where
  "fwk_driver_find drv bus s =
     (if \<exists>d \<in> set (bs_drivers s bus). cstr (dd_name (bs_drv s d)) = cstr (dd_name (bs_drv s drv)) then ER_NORMAL else - ER_ERROR)"

definition fwk_driver_to_bus ::
  "'e pin_ops \<Rightarrow> (kuaddr_t \<Rightarrow> 'e fwk_bus_type) \<Rightarrow> kuaddr_t \<Rightarrow> kuaddr_t \<Rightarrow> 'e bus_sys \<Rightarrow> (int \<times> 'e bus_sys) option" where
  "fwk_driver_to_bus pins bt drv bus s =
     fwk_driver_attach pins bt drv bus (s\<lparr>bs_drivers := (bs_drivers s)(bus := bs_drivers s bus @ [drv])\<rparr>)"

definition fwk_bus_del_driver :: "(kuaddr_t \<Rightarrow> 'e fwk_bus_type) \<Rightarrow> kuaddr_t \<Rightarrow> kuaddr_t \<Rightarrow> 'e bus_sys \<Rightarrow> (int \<times> 'e bus_sys) option" where
  "fwk_bus_del_driver bt drv bus s =
     do { (retval, s) \<leftarrow> fwk_driver_detach bt drv bus s;
          Some (retval, s\<lparr>bs_drivers := (bs_drivers s)(bus := remove1 drv (bs_drivers s bus))\<rparr>) }"

definition fwk_driver_register ::
  "'e pin_ops \<Rightarrow> (kuaddr_t \<Rightarrow> 'e fwk_bus_type) \<Rightarrow> kuaddr_t \<Rightarrow> 'e bus_sys \<Rightarrow> (int \<times> 'e bus_sys) option" where
  "fwk_driver_register pins bt drv s =
     (let bus = dd_bus (bs_drv s drv)
      in if bus = 0 then Some (- ER_ERROR, s)
         else if \<not> bs_priv s bus then Some (- ER_ERROR, s)
         else if fwk_driver_find drv bus s = 0 then Some (- ER_ERROR, s)
         else fwk_driver_to_bus pins bt drv bus (upd_drv drv (\<lambda>x. x\<lparr>dd_matches := 0\<rparr>) s))"

definition fwk_driver_unregister :: "(kuaddr_t \<Rightarrow> 'e fwk_bus_type) \<Rightarrow> kuaddr_t \<Rightarrow> 'e bus_sys \<Rightarrow> (int \<times> 'e bus_sys) option" where
  "fwk_driver_unregister bt drv s =
     (let bus = dd_bus (bs_drv s drv)
      in if bus = 0 then Some (- ER_ERROR, s)
         else if \<not> bs_priv s bus then Some (- ER_ERROR, s)
         else if fwk_driver_find drv bus s < 0 then Some (- ER_ERROR, s)
         else fwk_bus_del_driver bt drv bus s)"

section \<open>The platform bus\<close>

definition sgrt_fwk_platform_bus_type :: kuaddr_t where "sgrt_fwk_platform_bus_type = 0x80500000"

definition sgrt_fwk_platform_dev_type :: kuaddr_t where "sgrt_fwk_platform_dev_type = 0x80500100"

definition fwk_platform_match :: "kuaddr_t \<Rightarrow> kuaddr_t \<Rightarrow> 'e bus_sys \<Rightarrow> int option" where
  "fwk_platform_match dev drv s =
     (let x = bs_dev s dev; y = bs_drv s drv
      in case dv_override x of
           Some n \<Rightarrow> Some (if cstr n = cstr (dd_name y) then ER_NORMAL else - ER_FAILD)
         | None \<Rightarrow>
             do { (np, _) \<leftarrow> fwk_of_node_try_matches (dv_node x) (dd_of_match y) (bs_tree s);
                  Some (if isValid np \<and> dv_node x = np then ER_NORMAL
                        else if \<exists>i \<in> set (case dd_ids y of None \<Rightarrow> [] | Some ids \<Rightarrow> ids). cstr (dv_name x) = cstr i then ER_NORMAL
                        else if cstr (dv_name x) = cstr (dd_name y) then ER_NORMAL
                        else - ER_NOTFOUND) })"

definition fwk_platform_probe :: "(kuaddr_t \<Rightarrow> 'e drv_ops) \<Rightarrow> kuaddr_t \<Rightarrow> 'e bus_sys \<Rightarrow> (int \<times> 'e bus_sys) option" where
  "fwk_platform_probe drvs dev s =
     (let drv = dv_driver (bs_dev s dev)
      in if drv = 0 then Some (- ER_NOTFOUND, s)
         else case dp_probe (drvs drv) of
                None \<Rightarrow> Some (- ER_PERMIT, s)
              | Some f \<Rightarrow> let (r, e) = f dev (bs_env s) in Some (if r < 0 then - ER_PERMIT else ER_NORMAL, s\<lparr>bs_env := e\<rparr>))"

definition fwk_platform_remove :: "(kuaddr_t \<Rightarrow> 'e drv_ops) \<Rightarrow> kuaddr_t \<Rightarrow> 'e bus_sys \<Rightarrow> (int \<times> 'e bus_sys) option" where
  "fwk_platform_remove drvs dev s =
     (let drv = dv_driver (bs_dev s dev)
      in if drv = 0 then Some (- ER_NOTFOUND, s)
         else case dp_remove (drvs drv) of
                None \<Rightarrow> Some (- ER_PERMIT, s)
              | Some f \<Rightarrow> let (r, e) = f dev (bs_env s) in Some (if r < 0 then - ER_PERMIT else ER_NORMAL, s\<lparr>bs_env := e\<rparr>))"

definition platform_bus :: "(kuaddr_t \<Rightarrow> 'e drv_ops) \<Rightarrow> 'e fwk_bus_type" where
  "platform_bus drvs = \<lparr>bt_match = Some fwk_platform_match, bt_probe = Some (fwk_platform_probe drvs), bt_remove = Some (fwk_platform_remove drvs)\<rparr>"

definition fwk_register_platdevice ::
  "'e pin_ops \<Rightarrow> (kuaddr_t \<Rightarrow> 'e fwk_bus_type) \<Rightarrow> kuaddr_t \<Rightarrow> 'e bus_sys \<Rightarrow> (int \<times> 'e bus_sys) option" where
  "fwk_register_platdevice pins bt dev s =
     fwk_device_add pins bt dev (upd_dev dev (\<lambda>x. x\<lparr>dv_bus := sgrt_fwk_platform_bus_type, dv_type := sgrt_fwk_platform_dev_type\<rparr>) s)"

definition fwk_unregister_platdevice :: "(kuaddr_t \<Rightarrow> 'e fwk_bus_type) \<Rightarrow> kuaddr_t \<Rightarrow> 'e bus_sys \<Rightarrow> (int \<times> 'e bus_sys) option" where
  "fwk_unregister_platdevice bt dev s = fwk_device_del bt dev s"

definition fwk_register_platdriver ::
  "'e pin_ops \<Rightarrow> (kuaddr_t \<Rightarrow> 'e fwk_bus_type) \<Rightarrow> kuaddr_t \<Rightarrow> 'e bus_sys \<Rightarrow> (int \<times> 'e bus_sys) option" where
  "fwk_register_platdriver pins bt drv s =
     fwk_driver_register pins bt drv (upd_drv drv (\<lambda>x. x\<lparr>dd_bus := sgrt_fwk_platform_bus_type\<rparr>) s)"

definition fwk_unregister_platdriver :: "(kuaddr_t \<Rightarrow> 'e fwk_bus_type) \<Rightarrow> kuaddr_t \<Rightarrow> 'e bus_sys \<Rightarrow> (int \<times> 'e bus_sys) option" where
  "fwk_unregister_platdriver bt drv s = fwk_driver_unregister bt drv s"

section \<open>What an operation leaves alone\<close>

text \<open>The part of the state that decides which driver fits which device.\<close>

definition same_static :: "'e bus_sys \<Rightarrow> 'e bus_sys \<Rightarrow> bool" where
  "same_static s s' \<longleftrightarrow> bs_tree s' = bs_tree s \<and>
     (\<forall>d. dv_init_name (bs_dev s' d) = dv_init_name (bs_dev s d) \<and> dv_bus (bs_dev s' d) = dv_bus (bs_dev s d) \<and>
          dv_type (bs_dev s' d) = dv_type (bs_dev s d) \<and> dv_node (bs_dev s' d) = dv_node (bs_dev s d) \<and>
          dv_name (bs_dev s' d) = dv_name (bs_dev s d) \<and> dv_override (bs_dev s' d) = dv_override (bs_dev s d)) \<and>
     (\<forall>v. dd_name (bs_drv s' v) = dd_name (bs_drv s v) \<and> dd_of_match (bs_drv s' v) = dd_of_match (bs_drv s v) \<and>
          dd_bus (bs_drv s' v) = dd_bus (bs_drv s v) \<and> dd_ids (bs_drv s' v) = dd_ids (bs_drv s v))"

text \<open>The bindings are \<open>B\<close> and the counters of the drivers \<open>M\<close> afterwards; lists and names are as before.\<close>

definition frame :: "(kuaddr_t \<Rightarrow> kuaddr_t) \<Rightarrow> (kuaddr_t \<Rightarrow> int) \<Rightarrow> 'e bus_sys \<Rightarrow> 'e bus_sys \<Rightarrow> bool" where
  "frame B M s s' \<longleftrightarrow> same_static s s' \<and> bs_devices s' = bs_devices s \<and> bs_drivers s' = bs_drivers s \<and> bs_priv s' = bs_priv s \<and>
     sgrt_fwk_devices s' = sgrt_fwk_devices s \<and> bs_kobj s' = bs_kobj s \<and>
     (\<forall>d. dv_driver (bs_dev s' d) = B d) \<and> (\<forall>v. dd_matches (bs_drv s' v) = M v)"

abbreviation binding :: "'e bus_sys \<Rightarrow> kuaddr_t \<Rightarrow> kuaddr_t" where "binding s \<equiv> \<lambda>d. dv_driver (bs_dev s d)"
abbreviation counts :: "'e bus_sys \<Rightarrow> kuaddr_t \<Rightarrow> int" where "counts s \<equiv> \<lambda>v. dd_matches (bs_drv s v)"

lemma same_static_refl [simp]: "same_static s s"
  by (simp add: same_static_def)

lemma same_static_trans: "same_static s s1 \<Longrightarrow> same_static s1 s2 \<Longrightarrow> same_static s s2"
  by (simp add: same_static_def)

lemma frame_refl [simp]: "frame (binding s) (counts s) s s"
  by (simp add: frame_def)

lemma frame_trans: "frame B M s s1 \<Longrightarrow> frame B' M' s1 s2 \<Longrightarrow> frame B' M' s s2"
  using same_static_trans by (auto simp: frame_def)

lemma frame_env: "frame (binding s) (counts s) s (s\<lparr>bs_env := e\<rparr>)"
  by (simp add: frame_def same_static_def)

lemma frame_bind: "frame ((binding s)(d := v)) (counts s) s (upd_dev d (\<lambda>x. x\<lparr>dv_driver := v\<rparr>) s)"
  by (simp add: frame_def same_static_def upd_dev_def)

lemma frame_count: "frame (binding s) ((counts s)(v := f (dd_matches (bs_drv s v)))) s (upd_drv v (\<lambda>x. x\<lparr>dd_matches := f (dd_matches x)\<rparr>) s)"
  by (simp add: frame_def same_static_def upd_drv_def)

lemma frame_static: "frame B M s s' \<Longrightarrow> same_static s s'"
  by (simp add: frame_def)

lemma frame_binding: "frame B M s s' \<Longrightarrow> binding s' = B" "frame B M s s' \<Longrightarrow> counts s' = M"
  by (auto simp: frame_def)

section \<open>The contract of a bus\<close>

text \<open>
  What the operations above rely on: the match function reads only names, tables and the tree; probing and removing keep to the device
  and its environment, and probing ends with success or \<^verbatim>\<open>-ER_PERMIT\<close>.  \<open>live\<close> says that the functions return.
\<close>

locale bus_contract =
  fixes mt :: "kuaddr_t \<Rightarrow> kuaddr_t \<Rightarrow> 'e bus_sys \<Rightarrow> int option"
    and pr :: "kuaddr_t \<Rightarrow> 'e bus_sys \<Rightarrow> (int \<times> 'e bus_sys) option"
    and rm :: "kuaddr_t \<Rightarrow> 'e bus_sys \<Rightarrow> (int \<times> 'e bus_sys) option"
    and live :: "'e bus_sys \<Rightarrow> bool"
  assumes match_static: "same_static s s' \<Longrightarrow> mt d v s' = mt d v s"
    and live_static: "same_static s s' \<Longrightarrow> live s \<Longrightarrow> live s'"
    and match_live: "live s \<Longrightarrow> mt d v s \<noteq> None"
    and probe_live: "live s \<Longrightarrow> dv_driver (bs_dev s d) \<noteq> 0 \<Longrightarrow>
          \<exists>r s'. pr d s = Some (r, s') \<and> (r = 0 \<or> r = - ER_PERMIT) \<and> frame (binding s) (counts s) s s'"
    and remove_live: "live s \<Longrightarrow> \<exists>r s'. rm d s = Some (r, s') \<and> frame (binding s) (counts s) s s'"
begin

definition fits :: "'e bus_sys \<Rightarrow> kuaddr_t \<Rightarrow> kuaddr_t \<Rightarrow> bool" where
  "fits s d v \<longleftrightarrow> (\<exists>r. mt d v s = Some r \<and> 0 \<le> r)"

lemma fits_static: "same_static s s' \<Longrightarrow> fits s' = fits s"
  by (auto simp: fits_def match_static fun_eq_iff)

lemma probe_frame:
  assumes "live s" and "dv_driver (bs_dev s d) \<noteq> 0" and "bt_probe (bt (dv_bus (bs_dev s d))) = Some pr"
  shows "\<exists>r s'. fwk_device_driver_probe pins bt d s = Some (r, s') \<and> (r = 0 \<or> r = - ER_PERMIT) \<and> frame (binding s) (counts s) s s'"
proof -
  let ?s = "s\<lparr>bs_env := snd (pin_bind pins d (bs_env s))\<rparr>"
  have f: "frame (binding s) (counts s) s ?s" by (rule frame_env)
  obtain r s1 where p: "pr d ?s = Some (r, s1)" "r = 0 \<or> r = - ER_PERMIT" "frame (binding ?s) (counts ?s) ?s s1"
    using probe_live [OF live_static [OF frame_static [OF f] assms(1)], of d] assms(2) by auto
  have g: "frame (binding s) (counts s) s s1" using frame_trans [OF f p(3)] by simp
  have "frame (binding s) (counts s) s (s1\<lparr>bs_env := e\<rparr>)" for e
    using frame_trans [OF g frame_env] frame_binding [OF g] by simp
  then show ?thesis using p(1,2) g assms(3) by (auto simp: fwk_device_driver_probe_def)
qed

lemma match_frame:
  assumes "live s" and "v \<noteq> 0" and "bt_probe (bt (dv_bus (bs_dev s d))) = Some pr" and "bt_match (bt bus) = Some mt"
  shows "\<exists>r s'. fwk_device_driver_match pins bt d bus v s = Some (r, s') \<and>
     (if fits s d v then (r = 0 \<or> r = - ER_PERMIT) \<and> frame ((binding s)(d := v)) (counts s) s s' else r = - ER_NOTFOUND \<and> s' = s)"
proof (cases "fits s d v")
  case True
  let ?s = "upd_dev d (\<lambda>x. x\<lparr>dv_driver := v\<rparr>) s"
  note f = frame_bind [of s d v]
  have "bt_probe (bt (dv_bus (bs_dev ?s d))) = Some pr" using assms(3) by (simp add: upd_dev_def)
  moreover have "dv_driver (bs_dev ?s d) \<noteq> 0" using assms(2) by (simp add: upd_dev_def)
  ultimately obtain r s' where p: "fwk_device_driver_probe pins bt d ?s = Some (r, s')" "r = 0 \<or> r = - ER_PERMIT"
      "frame (binding ?s) (counts ?s) ?s s'"
    using probe_frame [OF live_static [OF frame_static [OF f] assms(1)]] by blast
  have "frame ((binding s)(d := v)) (counts s) s s'" using frame_trans [OF f p(3)] frame_binding [OF f] by simp
  moreover have "fwk_device_driver_match pins bt d bus v s = Some (r, s')"
    using True p(1) assms(4) by (auto simp: fits_def fwk_device_driver_match_def)
  ultimately show ?thesis using p(2) True by auto
next
  case False
  obtain r where "mt d v s = Some r" using match_live [OF assms(1)] by blast
  then show ?thesis using False assms(4) by (auto simp: fits_def fwk_device_driver_match_def)
qed

end

context bus_contract
begin

lemma attach_drivers_first:
  assumes "live s" and "0 \<notin> set vs" and "bt_probe (bt (dv_bus (bs_dev s d))) = Some pr" and "bt_match (bt bus) = Some mt"
  shows "\<exists>r s'. attach_drivers pins bt d bus vs s = Some (r, s') \<and>
     (case find (fits s d) vs of
        None \<Rightarrow> r = - ER_PERMIT \<and> s' = s
      | Some v \<Rightarrow> r = 0 \<and> frame ((binding s)(d := v)) (counts s) s s')"
  using assms
proof (induction vs)
  case (Cons v vs)
  then obtain r s' where m: "fwk_device_driver_match pins bt d bus v s = Some (r, s')"
    "if fits s d v then (r = 0 \<or> r = - ER_PERMIT) \<and> frame ((binding s)(d := v)) (counts s) s s' else r = - ER_NOTFOUND \<and> s' = s"
    using match_frame [of s v bt d bus pins] by auto
  show ?case
  proof (cases "fits s d v")
    case True
    then show ?thesis using m by auto
  next
    case False
    then show ?thesis using m Cons by auto
  qed
qed simp

lemma attach_devices_all:
  assumes "live s" and "v \<noteq> 0" and "\<forall>d \<in> set ds. bt_probe (bt (dv_bus (bs_dev s d))) = Some pr" and "bt_match (bt bus) = Some mt"
    and "distinct ds"
  shows "\<exists>m r s'. attach_devices pins bt v bus ds m0 r0 s = Some (m, r, s') \<and>
     m = m0 + int (length (filter (\<lambda>d. binding s d = 0 \<and> fits s d v) ds)) \<and> (m = m0 \<longrightarrow> r = r0 \<or> r = - ER_NOTFOUND) \<and>
     frame (\<lambda>d. if d \<in> set ds \<and> binding s d = 0 \<and> fits s d v then v else binding s d) (counts s) s s'"
  using assms
proof (induction ds arbitrary: s m0 r0)
  case (Cons d ds)
  show ?case
  proof (cases "binding s d = 0")
    case False
    then have step: "attach_devices pins bt v bus (d # ds) m0 r0 s = attach_devices pins bt v bus ds m0 r0 s" by simp
    obtain m r s' where s': "attach_devices pins bt v bus ds m0 r0 s = Some (m, r, s')"
      "m = m0 + int (length (filter (\<lambda>d. binding s d = 0 \<and> fits s d v) ds))" "m = m0 \<longrightarrow> r = r0 \<or> r = - ER_NOTFOUND"
      "frame (\<lambda>d. if d \<in> set ds \<and> binding s d = 0 \<and> fits s d v then v else binding s d) (counts s) s s'"
      using Cons.IH [of s m0 r0] Cons.prems by auto
    have "(\<lambda>x. if x \<in> set (d # ds) \<and> binding s x = 0 \<and> fits s x v then v else binding s x) =
        (\<lambda>x. if x \<in> set ds \<and> binding s x = 0 \<and> fits s x v then v else binding s x)" using False by auto
    then show ?thesis unfolding step using s' False by auto
  next
    case True
    obtain r1 s1 where m: "fwk_device_driver_match pins bt d bus v s = Some (r1, s1)"
      "if fits s d v then (r1 = 0 \<or> r1 = - ER_PERMIT) \<and> frame ((binding s)(d := v)) (counts s) s s1 else r1 = - ER_NOTFOUND \<and> s1 = s"
      using match_frame [of s v bt d bus pins] Cons.prems by auto
    let ?B = "if fits s d v then (binding s)(d := v) else binding s"
    have f: "frame ?B (counts s) s s1" using m(2) by (auto split: if_splits)
    note st = frame_static [OF f]
    have b: "binding s1 = ?B" "counts s1 = counts s" using frame_binding [OF f] by auto
    let ?m = "if fits s d v then m0 + 1 else m0"
    have pr1: "\<forall>d \<in> set ds. bt_probe (bt (dv_bus (bs_dev s1 d))) = Some pr" using Cons.prems(3) st by (simp add: same_static_def)
    obtain m' r s' where s': "attach_devices pins bt v bus ds ?m r1 s1 = Some (m', r, s')"
      "m' = ?m + int (length (filter (\<lambda>d. binding s1 d = 0 \<and> fits s1 d v) ds))" "m' = ?m \<longrightarrow> r = r1 \<or> r = - ER_NOTFOUND"
      "frame (\<lambda>d. if d \<in> set ds \<and> binding s1 d = 0 \<and> fits s1 d v then v else binding s1 d) (counts s1) s1 s'"
      using Cons.IH [of s1 ?m r1] Cons.prems pr1 live_static [OF st Cons.prems(1)] by auto
    have b1: "binding s1 x = (if fits s d v \<and> x = d then v else binding s x)" for x using b(1) by (auto simp: fun_eq_iff split: if_splits)
    have "filter (\<lambda>x. binding s1 x = 0 \<and> fits s1 x v) ds = filter (\<lambda>x. binding s x = 0 \<and> fits s x v) ds"
      using Cons.prems(5) by (intro filter_cong) (auto simp: fits_static [OF st] b1)
    then have m'': "m' = m0 + int (length (filter (\<lambda>d. binding s d = 0 \<and> fits s d v) (d # ds)))" using s'(2) True by auto
    have e: "(\<lambda>x. if x \<in> set ds \<and> binding s1 x = 0 \<and> fits s1 x v then v else binding s1 x) =
        (\<lambda>x. if x \<in> set (d # ds) \<and> binding s x = 0 \<and> fits s x v then v else binding s x)"
      unfolding fits_static [OF st] using Cons.prems(2,5) True by (auto simp: fun_eq_iff b1)
    have g: "frame (\<lambda>x. if x \<in> set (d # ds) \<and> binding s x = 0 \<and> fits s x v then v else binding s x) (counts s) s s'"
      using frame_trans [OF f s'(4)] unfolding e b(2) .
    have "attach_devices pins bt v bus (d # ds) m0 r0 s = Some (m', r, s')" using True m s'(1) by (auto split: if_splits)
    moreover have "m' = m0 \<longrightarrow> r = r0 \<or> r = - ER_NOTFOUND" using s'(2,3) m(2) by (auto split: if_splits)
    ultimately show ?thesis using m'' g by blast
  qed
qed simp

lemma detach_devices_all:
  assumes "live s" and "v \<noteq> 0" and "\<forall>d \<in> set ds. bt_remove (bt (dv_bus (bs_dev s d))) = Some rm" and "distinct ds"
  shows "\<exists>s'. detach_devices bt v ds s = Some s' \<and>
     frame (\<lambda>d. if d \<in> set ds \<and> binding s d = v then 0 else binding s d)
           ((counts s)(v := counts s v - int (length (filter (\<lambda>d. binding s d = v) ds)))) s s'"
  using assms
proof (induction ds arbitrary: s)
  case (Cons d ds)
  show ?case
  proof (cases "binding s d = v")
    case False
    then have "(\<lambda>x. if x \<in> set (d # ds) \<and> binding s x = v then 0 else binding s x) = (\<lambda>x. if x \<in> set ds \<and> binding s x = v then 0 else binding s x)"
      by auto
    then show ?thesis using False Cons.IH [of s] Cons.prems by simp
  next
    case True
    obtain r s1 where r: "rm d s = Some (r, s1)" "frame (binding s) (counts s) s s1" using remove_live [OF Cons.prems(1)] by blast
    let ?s2 = "upd_dev d (\<lambda>x. x\<lparr>dv_driver := 0\<rparr>) s1"
    define s3 where "s3 = upd_drv v (\<lambda>x. x\<lparr>dd_matches := dd_matches x - 1\<rparr>) ?s2"
    have b1: "binding s1 = binding s" "counts s1 = counts s" using frame_binding [OF r(2)] by auto
    have f2: "frame ((binding s)(d := 0)) (counts s) s ?s2" using frame_trans [OF r(2) frame_bind [of s1 d 0]] unfolding b1 .
    note b2 = frame_binding [OF f2]
    have f: "frame ((binding s)(d := 0)) ((counts s)(v := counts s v - 1)) s s3"
      unfolding s3_def using frame_trans [OF f2 frame_count [of ?s2 v "\<lambda>n. n - 1"]] unfolding b2 by (simp add: b2(2) [unfolded fun_eq_iff])
    note st = frame_static [OF f] and b = frame_binding [OF f]
    have bx: "binding s3 x = (if x = d then 0 else binding s x)" for x using b(1) by (simp add: fun_eq_iff)
    have cx: "counts s3 x = (if x = v then counts s v - 1 else counts s x)" for x using b(2) by (simp add: fun_eq_iff)
    have rm3: "\<forall>d \<in> set ds. bt_remove (bt (dv_bus (bs_dev s3 d))) = Some rm" using Cons.prems(3) st by (simp add: same_static_def)
    have "distinct ds" using Cons.prems(4) by simp
    from Cons.IH [OF live_static [OF st Cons.prems(1)] Cons.prems(2) rm3 this]
    obtain s' where s': "detach_devices bt v ds s3 = Some s'"
      "frame (\<lambda>d. if d \<in> set ds \<and> binding s3 d = v then 0 else binding s3 d)
           ((counts s3)(v := counts s3 v - int (length (filter (\<lambda>d. binding s3 d = v) ds)))) s3 s'" by blast
    have "filter (\<lambda>x. binding s3 x = v) ds = filter (\<lambda>x. binding s x = v) ds"
      using Cons.prems(2,4) by (intro filter_cong) (auto simp: bx)
    then have c: "(counts s3)(v := counts s3 v - int (length (filter (\<lambda>d. binding s3 d = v) ds))) =
        (counts s)(v := counts s v - int (length (filter (\<lambda>d. binding s d = v) (d # ds))))"
      using True by (auto simp: fun_eq_iff cx)
    have e: "(\<lambda>x. if x \<in> set ds \<and> binding s3 x = v then 0 else binding s3 x) = (\<lambda>x. if x \<in> set (d # ds) \<and> binding s x = v then 0 else binding s x)"
      using Cons.prems(2) True by (auto simp: fun_eq_iff bx)
    have "detach_devices bt v (d # ds) s = Some s'"
      using True r(1) s'(1) Cons.prems(3) by (simp add: fwk_device_driver_remove_def s3_def)
    then show ?thesis using frame_trans [OF f s'(2)] unfolding c e by blast
  qed
qed (simp add: frame_def)

end

section \<open>The specification of a bus\<close>

text \<open>
  A bus is the list of its devices, the list of its drivers in the order of their registration, and the driver each device is
  bound to, 0 for none.  \<open>F d v\<close> says that the driver \<open>v\<close> fits the device \<open>d\<close>.
\<close>

record bus_abs =
  ba_devs :: "kuaddr_t list"
  ba_drvs :: "kuaddr_t list"
  ba_bind :: "kuaddr_t \<Rightarrow> kuaddr_t"

definition spec_add :: "(kuaddr_t \<Rightarrow> kuaddr_t \<Rightarrow> bool) \<Rightarrow> kuaddr_t \<Rightarrow> bus_abs \<Rightarrow> bus_abs" where
  "spec_add F d a = a\<lparr>ba_devs := ba_devs a @ [d], ba_bind := (ba_bind a)(d := node_or_null (find (F d) (ba_drvs a)))\<rparr>"

definition spec_del :: "kuaddr_t \<Rightarrow> bus_abs \<Rightarrow> bus_abs" where
  "spec_del d a = a\<lparr>ba_devs := remove1 d (ba_devs a), ba_bind := (ba_bind a)(d := 0)\<rparr>"

definition spec_register :: "(kuaddr_t \<Rightarrow> kuaddr_t \<Rightarrow> bool) \<Rightarrow> kuaddr_t \<Rightarrow> bus_abs \<Rightarrow> bus_abs" where
  "spec_register F v a = a\<lparr>ba_drvs := ba_drvs a @ [v],
     ba_bind := (\<lambda>d. if d \<in> set (ba_devs a) \<and> ba_bind a d = 0 \<and> F d v then v else ba_bind a d)\<rparr>"

definition spec_unregister :: "kuaddr_t \<Rightarrow> bus_abs \<Rightarrow> bus_abs" where
  "spec_unregister v a = a\<lparr>ba_drvs := remove1 v (ba_drvs a),
     ba_bind := (\<lambda>d. if d \<in> set (ba_devs a) \<and> ba_bind a d = v then 0 else ba_bind a d)\<rparr>"

text \<open>Every bound device is bound to a registered driver that fits it; and no device is left alone that a registered driver fits.\<close>

definition bus_wf :: "(kuaddr_t \<Rightarrow> kuaddr_t \<Rightarrow> bool) \<Rightarrow> bus_abs \<Rightarrow> bool" where
  "bus_wf F a \<longleftrightarrow> distinct (ba_devs a) \<and> distinct (ba_drvs a) \<and> 0 \<notin> set (ba_drvs a) \<and>
     (\<forall>d \<in> set (ba_devs a). ba_bind a d \<noteq> 0 \<longrightarrow> ba_bind a d \<in> set (ba_drvs a) \<and> F d (ba_bind a d))"

definition bus_complete :: "(kuaddr_t \<Rightarrow> kuaddr_t \<Rightarrow> bool) \<Rightarrow> bus_abs \<Rightarrow> bool" where
  "bus_complete F a \<longleftrightarrow> (\<forall>d \<in> set (ba_devs a). ba_bind a d = 0 \<longrightarrow> (\<forall>v \<in> set (ba_drvs a). \<not> F d v))"

lemma node_or_null_find:
  assumes "0 \<notin> set vs"
  shows "node_or_null (find P vs) = 0 \<longleftrightarrow> (\<forall>v \<in> set vs. \<not> P v)"
    and "node_or_null (find P vs) \<noteq> 0 \<Longrightarrow> node_or_null (find P vs) \<in> set vs \<and> P (node_or_null (find P vs))"
  using assms by (induction vs) (auto split: if_splits)

lemma spec_add_ok: "bus_wf F a \<Longrightarrow> d \<notin> set (ba_devs a) \<Longrightarrow> bus_wf F (spec_add F d a)"
  "bus_wf F a \<Longrightarrow> bus_complete F a \<Longrightarrow> d \<notin> set (ba_devs a) \<Longrightarrow> bus_complete F (spec_add F d a)"
  using node_or_null_find [of "ba_drvs a" "F d"] by (auto simp: bus_wf_def bus_complete_def spec_add_def)

lemma spec_del_ok: "bus_wf F a \<Longrightarrow> bus_wf F (spec_del d a)" "bus_wf F a \<Longrightarrow> bus_complete F a \<Longrightarrow> bus_complete F (spec_del d a)"
  by (auto simp: bus_wf_def bus_complete_def spec_del_def dest: notin_set_remove1)

lemma spec_register_ok:
  "bus_wf F a \<Longrightarrow> v \<noteq> 0 \<Longrightarrow> v \<notin> set (ba_drvs a) \<Longrightarrow> bus_wf F (spec_register F v a)"
  "bus_wf F a \<Longrightarrow> bus_complete F a \<Longrightarrow> v \<noteq> 0 \<Longrightarrow> bus_complete F (spec_register F v a)"
  by (auto simp: bus_wf_def bus_complete_def spec_register_def)

lemma spec_unregister_ok: "bus_wf F a \<Longrightarrow> bus_wf F (spec_unregister v a)"
  by (auto simp: bus_wf_def spec_unregister_def)

definition bus_view :: "kuaddr_t \<Rightarrow> 'e bus_sys \<Rightarrow> bus_abs" where
  "bus_view b s = \<lparr>ba_devs = bs_devices s b, ba_drvs = bs_drivers s b, ba_bind = binding s\<rparr>"

lemma bus_view_sel [simp]: "ba_devs (bus_view b s) = bs_devices s b" "ba_drvs (bus_view b s) = bs_drivers s b" "ba_bind (bus_view b s) = binding s"
  by (simp_all add: bus_view_def)

section \<open>The operations implement the specification\<close>

context bus_contract
begin

definition serves :: "(kuaddr_t \<Rightarrow> 'e fwk_bus_type) \<Rightarrow> kuaddr_t \<Rightarrow> bool" where
  "serves bt b \<longleftrightarrow> bt b = \<lparr>bt_match = Some mt, bt_probe = Some pr, bt_remove = Some rm\<rparr>"

lemma add_refines:
  assumes "serves bt b" and "live s" and "dv_bus (bs_dev s d) = b" and "b \<noteq> 0" and "bs_priv s b" and "0 \<notin> set (bs_drivers s b)"
    and "fwk_device_find d s = Some r" and "r \<noteq> 0"
  shows "\<exists>s'. fwk_device_add pins bt d s = Some (ER_NORMAL, s') \<and> bus_view b s' = spec_add (fits s) d (bus_view b s) \<and>
     same_static s s' \<and> sgrt_fwk_devices s' = sgrt_fwk_devices s @ [d] \<and> bs_kobj s' = bs_kobj s \<and> bs_priv s' = bs_priv s \<and> counts s' = counts s"
proof -
  define s1 where "s1 = (upd_dev d (\<lambda>x. x\<lparr>dv_driver := 0\<rparr>) s)\<lparr>bs_devices := (bs_devices s)(b := bs_devices s b @ [d])\<rparr>"
  have st: "same_static s s1" and f1: "binding s1 = (binding s)(d := 0)" "bs_devices s1 b = bs_devices s b @ [d]" "bs_drivers s1 = bs_drivers s"
      "sgrt_fwk_devices s1 = sgrt_fwk_devices s" "bs_priv s1 = bs_priv s" "bs_kobj s1 = bs_kobj s" "counts s1 = counts s"
    by (auto simp: s1_def same_static_def upd_dev_def)
  have p: "bt_probe (bt (dv_bus (bs_dev s1 d))) = Some pr" "bt_match (bt b) = Some mt" "0 \<notin> set (bs_drivers s1 b)"
    using st assms(1,3,6) f1 by (simp_all add: same_static_def serves_def)
  obtain q s' where a: "attach_drivers pins bt d b (bs_drivers s1 b) s1 = Some (q, s')"
      "case find (fits s1 d) (bs_drivers s1 b) of None \<Rightarrow> q = - ER_PERMIT \<and> s' = s1
       | Some v \<Rightarrow> q = 0 \<and> frame ((binding s1)(d := v)) (counts s1) s1 s'"
    using attach_drivers_first [OF live_static [OF st assms(2)] p(3,1,2)] by blast
  have z: "dv_driver (bs_dev s1 d) = 0" using f1(1) by (simp add: fun_eq_iff)
  have f: "frame ((binding s)(d := node_or_null (find (fits s d) (bs_drivers s b)))) (counts s1) s1 s'"
  proof (cases "find (fits s1 d) (bs_drivers s1 b)")
    case None
    then have "s' = s1" using a(2) by simp
    moreover have "(binding s)(d := node_or_null (find (fits s d) (bs_drivers s b))) = binding s1"
      using None f1 fits_static [OF st] by simp
    ultimately show ?thesis by simp
  next
    case (Some v)
    then have "frame ((binding s1)(d := v)) (counts s1) s1 s'" using a(2) by simp
    then show ?thesis using Some unfolding f1 fits_static [OF st] by simp
  qed
  have q: "q = 0 \<or> q = - ER_PERMIT" using a(2) by (auto split: option.splits)
  have "fwk_device_to_bus pins bt d b (upd_dev d (\<lambda>x. x\<lparr>dv_driver := 0\<rparr>) s) = Some (ER_NORMAL, s')"
    using a(1) q z p(2) by (auto simp: fwk_device_to_bus_def fwk_device_attach_def s1_def upd_dev_def)
  then have "fwk_device_add pins bt d s = Some (ER_NORMAL, s'\<lparr>sgrt_fwk_devices := sgrt_fwk_devices s' @ [d]\<rparr>)"
    using assms(3-5,7,8) by (simp add: fwk_device_add_def)
  moreover have "same_static s s'" using same_static_trans [OF st frame_static [OF f]] .
  moreover have "bus_view b s' = spec_add (fits s) d (bus_view b s)"
    using f f1 frame_binding [OF f] by (simp add: bus_view_def spec_add_def frame_def)
  moreover have "counts s' = counts s" using frame_binding(2) [OF f] f1(7) by simp
  ultimately show ?thesis using f f1 by (auto simp: bus_view_def frame_def same_static_def)
qed

lemma register_refines:
  assumes "serves bt b" and "live s" and "dd_bus (bs_drv s v) = b" and "b \<noteq> 0" and "bs_priv s b" and "v \<noteq> 0" and "distinct (bs_devices s b)"
    and "\<forall>d \<in> set (bs_devices s b). dv_bus (bs_dev s d) = b" and "fwk_driver_find v b s \<noteq> 0"
  shows "\<exists>s' n. fwk_driver_register pins bt v s = Some (int n, s') \<and> bus_view b s' = spec_register (fits s) v (bus_view b s) \<and>
     n = length (filter (\<lambda>d. binding s d = 0 \<and> fits s d v) (bs_devices s b)) \<and> counts s' v = int n \<and>
     same_static s s' \<and> sgrt_fwk_devices s' = sgrt_fwk_devices s \<and> bs_kobj s' = bs_kobj s \<and> bs_priv s' = bs_priv s"
proof -
  define s1 where "s1 = (upd_drv v (\<lambda>x. x\<lparr>dd_matches := 0\<rparr>) s)\<lparr>bs_drivers := (bs_drivers s)(b := bs_drivers s b @ [v])\<rparr>"
  have st: "same_static s s1" and f1: "binding s1 = binding s" "bs_devices s1 = bs_devices s" "bs_drivers s1 b = bs_drivers s b @ [v]" "counts s1 v = 0"
      "sgrt_fwk_devices s1 = sgrt_fwk_devices s" "bs_priv s1 = bs_priv s" "bs_kobj s1 = bs_kobj s"
    by (auto simp: s1_def same_static_def upd_drv_def)
  have p: "\<forall>d \<in> set (bs_devices s1 b). bt_probe (bt (dv_bus (bs_dev s1 d))) = Some pr" "bt_match (bt b) = Some mt" "distinct (bs_devices s1 b)"
    using st assms(1,7,8) f1 by (simp_all add: same_static_def serves_def)
  obtain m r s2 where a: "attach_devices pins bt v b (bs_devices s1 b) 0 0 s1 = Some (m, r, s2)"
      "m = int (length (filter (\<lambda>d. binding s1 d = 0 \<and> fits s1 d v) (bs_devices s1 b)))" "m = 0 \<longrightarrow> r = 0 \<or> r = - ER_NOTFOUND"
      "frame (\<lambda>d. if d \<in> set (bs_devices s1 b) \<and> binding s1 d = 0 \<and> fits s1 d v then v else binding s1 d) (counts s1) s1 s2"
    using attach_devices_all [OF live_static [OF st assms(2)] assms(6) p, of pins 0 0] by auto
  define s3 where "s3 = upd_drv v (\<lambda>x. x\<lparr>dd_matches := dd_matches x + m\<rparr>) s2"
  have f: "frame (binding s2) ((counts s2)(v := counts s2 v + m)) s2 s3"
    unfolding s3_def using frame_count [of s2 v "\<lambda>n. n + m"] by simp
  have g: "frame (binding s2) ((counts s2)(v := counts s2 v + m)) s1 s3" using frame_trans [OF a(4) f] .
  have "counts s3 v = m" using frame_binding(2) [OF g] frame_binding(2) [OF a(4)] f1(4) by (simp add: fun_eq_iff)
  moreover have "bus_view b s3 = spec_register (fits s) v (bus_view b s)"
    using g f1(2,3) frame_binding(1) [OF a(4)] fits_static [OF st] frame_binding(1) [OF g] fun_cong [OF f1(1)]
    by (simp add: bus_view_def spec_register_def frame_def cong: if_cong)
  moreover have "fwk_driver_register pins bt v s = Some (m, s3)"
    using a(1,3) assms(3-5,9) p(2) unfolding s3_def s1_def
    by (auto simp: fwk_driver_register_def fwk_driver_to_bus_def fwk_driver_attach_def upd_drv_def Let_def)
  moreover have "m = int (length (filter (\<lambda>d. binding s d = 0 \<and> fits s d v) (bs_devices s b)))"
    using a(2) f1 fits_static [OF st] by (simp add: fun_eq_iff)
  moreover have "same_static s s3" using same_static_trans [OF st frame_static [OF g]] .
  ultimately show ?thesis using g f1 by (auto simp: frame_def)
qed

end

context bus_contract
begin

lemma detach_frame:
  assumes "live s" and "bt_remove (bt (dv_bus (bs_dev s d))) = Some rm"
  shows "\<exists>s'. fwk_device_detach bt d s = Some (ER_NORMAL, s') \<and>
     frame ((binding s)(d := 0)) (if binding s d = 0 then counts s else (counts s)(binding s d := counts s (binding s d) - 1)) s s'"
proof (cases "binding s d = 0")
  case True
  then have "(binding s)(d := 0) = binding s" by (simp add: fun_eq_iff)
  then have "frame ((binding s)(d := 0)) (counts s) s s" by simp
  then show ?thesis using True by (auto simp: fwk_device_detach_def)
next
  case False
  obtain r s1 where r: "rm d s = Some (r, s1)" "frame (binding s) (counts s) s s1" using remove_live [OF assms(1)] by blast
  let ?s2 = "upd_dev d (\<lambda>x. x\<lparr>dv_driver := 0\<rparr>) s1"
  let ?s3 = "upd_drv (binding s d) (\<lambda>x. x\<lparr>dd_matches := dd_matches x - 1\<rparr>) ?s2"
  have f2: "frame ((binding s)(d := 0)) (counts s) s ?s2"
    using frame_trans [OF r(2) frame_bind [of s1 d 0]] unfolding frame_binding [OF r(2)] .
  have "frame (binding ?s2) ((counts ?s2)(binding s d := counts ?s2 (binding s d) - 1)) ?s2 ?s3"
    using frame_count [of ?s2 "binding s d" "\<lambda>n. n - 1"] by simp
  from frame_trans [OF f2 this] have "frame ((binding s)(d := 0)) ((counts s)(binding s d := counts s (binding s d) - 1)) s ?s3"
    unfolding frame_binding(1) [OF f2] using fun_cong [OF frame_binding(2) [OF f2]] by simp
  moreover have "fwk_device_detach bt d s = Some (ER_NORMAL, ?s3)"
    using False r(1) assms(2) by (simp add: fwk_device_detach_def fwk_device_driver_remove_def)
  ultimately show ?thesis using False by auto
qed

lemma del_refines:
  assumes "serves bt b" and "live s" and "dv_bus (bs_dev s d) = b" and "b \<noteq> 0" and "bs_priv s b" and "fwk_device_find d s = Some 0"
  shows "\<exists>s'. fwk_device_del bt d s = Some (ER_NORMAL, s') \<and> bus_view b s' = spec_del d (bus_view b s) \<and>
     same_static s s' \<and> sgrt_fwk_devices s' = remove1 d (sgrt_fwk_devices s) \<and> bs_priv s' = bs_priv s \<and>
     counts s' = (if binding s d = 0 then counts s else (counts s)(binding s d := counts s (binding s d) - 1))"
proof -
  let ?M = "if binding s d = 0 then counts s else (counts s)(binding s d := counts s (binding s d) - 1)"
  have "bt_remove (bt (dv_bus (bs_dev s d))) = Some rm" using assms(1,3) by (simp add: serves_def)
  then obtain s1 where d: "fwk_device_detach bt d s = Some (ER_NORMAL, s1)" "frame ((binding s)(d := 0)) ?M s s1"
    using detach_frame [OF assms(2)] by blast
  let ?s' = "(fwk_dev_del_name d (s1\<lparr>bs_devices := (bs_devices s1)(b := remove1 d (bs_devices s1 b))\<rparr>))\<lparr>sgrt_fwk_devices := remove1 d (sgrt_fwk_devices s1)\<rparr>"
  have "fwk_device_del bt d s = Some (ER_NORMAL, ?s')"
    using d(1) assms(3-6) by (simp add: fwk_device_del_def fwk_bus_del_device_def fwk_dev_del_name_def)
  moreover have "bus_view b ?s' = spec_del d (bus_view b s)"
    using d(2) frame_binding(1) [OF d(2)] by (simp add: bus_view_def spec_del_def frame_def fwk_dev_del_name_def)
  moreover have "counts ?s' = ?M" using frame_binding(2) [OF d(2)] by (simp add: fwk_dev_del_name_def)
  moreover have "same_static s ?s'" "sgrt_fwk_devices ?s' = remove1 d (sgrt_fwk_devices s)" "bs_priv ?s' = bs_priv s"
    using d(2) by (auto simp: frame_def same_static_def fwk_dev_del_name_def)
  ultimately show ?thesis by blast
qed

lemma unregister_refines:
  assumes "serves bt b" and "live s" and "dd_bus (bs_drv s v) = b" and "b \<noteq> 0" and "bs_priv s b" and "v \<noteq> 0" and "distinct (bs_devices s b)"
    and "\<forall>d \<in> set (bs_devices s b). dv_bus (bs_dev s d) = b" and "fwk_driver_find v b s = 0"
  shows "\<exists>s'. fwk_driver_unregister bt v s = Some (ER_NORMAL, s') \<and> bus_view b s' = spec_unregister v (bus_view b s) \<and>
     same_static s s' \<and> sgrt_fwk_devices s' = sgrt_fwk_devices s \<and> bs_priv s' = bs_priv s"
proof -
  have "\<forall>d \<in> set (bs_devices s b). bt_remove (bt (dv_bus (bs_dev s d))) = Some rm" using assms(1,8) by (simp add: serves_def)
  then obtain s1 where d: "detach_devices bt v (bs_devices s b) s = Some s1"
      "frame (\<lambda>d. if d \<in> set (bs_devices s b) \<and> binding s d = v then 0 else binding s d)
        ((counts s)(v := counts s v - int (length (filter (\<lambda>d. binding s d = v) (bs_devices s b))))) s s1"
    using detach_devices_all [OF assms(2,6) _ assms(7)] by blast
  let ?s' = "s1\<lparr>bs_drivers := (bs_drivers s1)(b := remove1 v (bs_drivers s1 b))\<rparr>"
  have "fwk_driver_unregister bt v s = Some (ER_NORMAL, ?s')"
    using d(1) assms(3-5,9) by (simp add: fwk_driver_unregister_def fwk_bus_del_driver_def fwk_driver_detach_def)
  moreover have "bus_view b ?s' = spec_unregister v (bus_view b s)"
    using d(2) frame_binding(1) [OF d(2)] by (simp add: bus_view_def spec_unregister_def frame_def cong: if_cong)
  ultimately show ?thesis using d(2) by (auto simp: frame_def same_static_def)
qed

definition bus_inv :: "kuaddr_t \<Rightarrow> 'e bus_sys \<Rightarrow> bool" where
  "bus_inv b s \<longleftrightarrow> live s \<and> b \<noteq> 0 \<and> bs_priv s b \<and> bus_wf (fits s) (bus_view b s) \<and>
     (\<forall>d \<in> set (bs_devices s b). dv_bus (bs_dev s d) = b) \<and> set (bs_devices s b) \<subseteq> set (sgrt_fwk_devices s)"

lemma bus_invI:
  assumes "bus_inv b s" and "same_static s s'" and "bs_priv s' = bs_priv s" and "bus_wf (fits s) (bus_view b s')"
    and "\<forall>d \<in> set (bs_devices s' b). dv_bus (bs_dev s d) = b" and "set (bs_devices s' b) \<subseteq> set (sgrt_fwk_devices s')"
  shows "bus_inv b s'"
  using assms live_static [OF assms(2)] fits_static [OF assms(2)] by (simp add: bus_inv_def same_static_def)

lemma find_device_loop_mem: "d \<in> set ls \<Longrightarrow> find_device_loop d ls s = Some r \<Longrightarrow> r = 0"
  by (induction ls) (auto simp: bind_Some_iff split: if_splits)

lemma add_inv:
  assumes "serves bt b" and "bus_inv b s" and "dv_bus (bs_dev s d) = b" and "fwk_device_add pins bt d s = Some (r, s')"
  shows "bus_inv b s'"
proof -
  obtain q where q: "fwk_device_find d s = Some q" using assms(4) by (auto simp: fwk_device_add_def bind_Some_iff Let_def)
  show ?thesis
  proof (cases "q = 0")
    case True
    then show ?thesis using assms(2,4) q by (simp add: fwk_device_add_def)
  next
    case False
    have i: "live s" "b \<noteq> 0" "bs_priv s b" "0 \<notin> set (bs_drivers s b)" "set (bs_devices s b) \<subseteq> set (sgrt_fwk_devices s)"
      using assms(2) by (simp_all add: bus_inv_def bus_wf_def)
    have n: "d \<notin> set (bs_devices s b)" using False q i(5) find_device_loop_mem [of d "sgrt_fwk_devices s"] by (auto simp: fwk_device_find_def)
    have s': "bus_view b s' = spec_add (fits s) d (bus_view b s)" "same_static s s'" "sgrt_fwk_devices s' = sgrt_fwk_devices s @ [d]" "bs_priv s' = bs_priv s"
      using add_refines [OF assms(1) i(1) assms(3) i(2-4) q False, of pins] assms(4) by auto
    have dv: "bs_devices s' b = bs_devices s b @ [d]" using arg_cong [OF s'(1), of ba_devs] by (simp add: spec_add_def)
    have "bus_wf (fits s) (bus_view b s')" unfolding s'(1) using assms(2) n by (intro spec_add_ok) (simp_all add: bus_inv_def)
    then show ?thesis
      using assms(2,3) s'(2-4) dv by (intro bus_invI [OF assms(2)]) (auto simp: bus_inv_def)
  qed
qed

lemma del_inv:
  assumes "serves bt b" and "bus_inv b s" and "dv_bus (bs_dev s d) = b" and "fwk_device_del bt d s = Some (r, s')"
  shows "bus_inv b s'"
proof -
  obtain q where q: "fwk_device_find d s = Some q" using assms(4) by (auto simp: fwk_device_del_def bind_Some_iff Let_def)
  show ?thesis
  proof (cases "q = 0")
    case False
    then show ?thesis using assms(2,4) q by (simp add: fwk_device_del_def)
  next
    case True
    have i: "live s" "b \<noteq> 0" "bs_priv s b" "distinct (bs_devices s b)" using assms(2) by (simp_all add: bus_inv_def bus_wf_def)
    have s': "bus_view b s' = spec_del d (bus_view b s)" "same_static s s'" "sgrt_fwk_devices s' = remove1 d (sgrt_fwk_devices s)" "bs_priv s' = bs_priv s"
      using del_refines [OF assms(1) i(1) assms(3) i(2,3)] q True assms(4) by auto
    have dv: "bs_devices s' b = remove1 d (bs_devices s b)" using arg_cong [OF s'(1), of ba_devs] by (simp add: spec_del_def)
    have "bus_wf (fits s) (bus_view b s')" unfolding s'(1) using assms(2) by (intro spec_del_ok) (simp add: bus_inv_def)
    moreover have "set (remove1 d (bs_devices s b)) \<subseteq> set (remove1 d (sgrt_fwk_devices s))"
      using assms(2) i(4) in_set_remove1 [of _ d "sgrt_fwk_devices s"] by (fastforce simp: bus_inv_def)
    ultimately show ?thesis
      using assms(2) s'(2-4) dv by (intro bus_invI [OF assms(2)]) (auto simp: bus_inv_def dest: notin_set_remove1)
  qed
qed

lemma register_inv:
  assumes "serves bt b" and "bus_inv b s" and "dd_bus (bs_drv s v) = b" and "v \<noteq> 0" and "fwk_driver_register pins bt v s = Some (r, s')"
  shows "bus_inv b s'"
proof (cases "fwk_driver_find v b s = 0")
  case True
  then show ?thesis using assms(2,3,5) by (auto simp: fwk_driver_register_def split: if_splits)
next
  case False
  have i: "live s" "b \<noteq> 0" "bs_priv s b" "distinct (bs_devices s b)" "\<forall>d \<in> set (bs_devices s b). dv_bus (bs_dev s d) = b"
    using assms(2) by (simp_all add: bus_inv_def bus_wf_def)
  have n: "v \<notin> set (bs_drivers s b)" using False by (auto simp: fwk_driver_find_def split: if_splits)
  have s': "bus_view b s' = spec_register (fits s) v (bus_view b s)" "same_static s s'" "sgrt_fwk_devices s' = sgrt_fwk_devices s" "bs_priv s' = bs_priv s"
    using register_refines [OF assms(1) i(1) assms(3) i(2,3) assms(4) i(4,5) False, of pins] assms(5) by auto
  have dv: "bs_devices s' b = bs_devices s b" using arg_cong [OF s'(1), of ba_devs] by (simp add: spec_register_def)
  have "bus_wf (fits s) (bus_view b s')" unfolding s'(1) using assms(2,4) n by (intro spec_register_ok) (simp_all add: bus_inv_def)
  then show ?thesis using assms(2) s'(2-4) dv i(5) by (intro bus_invI [OF assms(2)]) (auto simp: bus_inv_def)
qed

lemma unregister_inv:
  assumes "serves bt b" and "bus_inv b s" and "dd_bus (bs_drv s v) = b" and "v \<noteq> 0" and "fwk_driver_unregister bt v s = Some (r, s')"
  shows "bus_inv b s'"
proof (cases "fwk_driver_find v b s = 0")
  case False
  then have "fwk_driver_find v b s < 0" by (simp add: fwk_driver_find_def split: if_splits)
  then show ?thesis using assms(2,3,5) by (auto simp: fwk_driver_unregister_def bus_inv_def)
next
  case True
  have i: "live s" "b \<noteq> 0" "bs_priv s b" "distinct (bs_devices s b)" "\<forall>d \<in> set (bs_devices s b). dv_bus (bs_dev s d) = b"
    using assms(2) by (simp_all add: bus_inv_def bus_wf_def)
  have s': "bus_view b s' = spec_unregister v (bus_view b s)" "same_static s s'" "sgrt_fwk_devices s' = sgrt_fwk_devices s" "bs_priv s' = bs_priv s"
    using unregister_refines [OF assms(1) i(1) assms(3) i(2,3) assms(4) i(4,5) True] assms(5) by auto
  have dv: "bs_devices s' b = bs_devices s b" using arg_cong [OF s'(1), of ba_devs] by (simp add: spec_unregister_def)
  have "bus_wf (fits s) (bus_view b s')" unfolding s'(1) using assms(2) by (intro spec_unregister_ok) (simp add: bus_inv_def)
  then show ?thesis using assms(2) s'(2-4) dv i(5) by (intro bus_invI [OF assms(2)]) (auto simp: bus_inv_def)
qed

end

section \<open>The platform bus keeps the contract\<close>

definition plat_live :: "'e bus_sys \<Rightarrow> bool" where
  "plat_live s \<longleftrightarrow> (\<forall>d v. fwk_platform_match d v s \<noteq> None)"

definition plat_fits :: "'e bus_sys \<Rightarrow> kuaddr_t \<Rightarrow> kuaddr_t \<Rightarrow> bool" where
  "plat_fits s d v \<longleftrightarrow> (\<exists>r. fwk_platform_match d v s = Some r \<and> 0 \<le> r)"

lemma platform_match_static: "same_static s s' \<Longrightarrow> fwk_platform_match d v s' = fwk_platform_match d v s"
  by (cases "dv_override (bs_dev s d)") (auto simp: same_static_def fwk_platform_match_def Let_def)

lemma platform_call_frame:
  "\<exists>r s'. fwk_platform_remove drvs d s = Some (r, s') \<and> frame (binding s) (counts s) s s'"
  "dv_driver (bs_dev s d) \<noteq> 0 \<Longrightarrow>
     \<exists>r s'. fwk_platform_probe drvs d s = Some (r, s') \<and> (r = 0 \<or> r = - ER_PERMIT) \<and> frame (binding s) (counts s) s s'"
  using frame_env [of s] frame_refl [of s]
  by (auto simp: fwk_platform_remove_def fwk_platform_probe_def Let_def split: option.splits prod.splits)

interpretation plat: bus_contract fwk_platform_match "fwk_platform_probe drvs" "fwk_platform_remove drvs" plat_live for drvs
proof
  show "fwk_platform_match d v s' = fwk_platform_match d v s" if "same_static s s'" for s s' :: "'a bus_sys" and d v
    by (rule platform_match_static [OF that])
  show "plat_live s'" if "same_static s s'" and "plat_live s" for s s' :: "'a bus_sys"
    using that platform_match_static [OF that(1)] by (simp add: plat_live_def)
  show "fwk_platform_match d v s \<noteq> None" if "plat_live s" for s :: "'a bus_sys" and d v using that by (simp add: plat_live_def)
qed (use platform_call_frame in blast)+

lemma plat_fits_eq: "plat.fits = plat_fits"
  by (simp add: fun_eq_iff plat.fits_def plat_fits_def)

lemma plat_serves: "bt b = platform_bus drvs \<Longrightarrow> plat.serves drvs bt b"
  by (simp add: plat.serves_def platform_bus_def)

text \<open>The match function returns if the compatible strings of the nodes in question are well-formed.\<close>

lemma plat_liveI:
  assumes "\<forall>d. isValid (dv_node (bs_dev s d)) \<longrightarrow> compatibles (bs_tree s) cs (dv_node (bs_dev s d))"
  shows "plat_live s"
  using assms by (auto simp: plat_live_def fwk_platform_match_def fwk_of_node_try_matches_def match_entries_find Let_def split: option.splits)

section \<open>Properties\<close>

text \<open>C31: Adding a device to the platform bus succeeds when no device of that name is known; the device becomes the last one of the bus and is
  bound to the first registered driver that fits it, whether the probe of that driver succeeds or not, or to none if no driver
  fits; every other binding stays, and a bus on which no fitting pair was left apart is such a bus again.\<close>

theorem device_add_binds_first:
  assumes "bt b = platform_bus drvs" and "plat_live s" and "dv_bus (bs_dev s d) = b" and "b \<noteq> 0" and "bs_priv s b"
    and "bus_wf (plat_fits s) (bus_view b s)" and "bus_complete (plat_fits s) (bus_view b s)" and "d \<notin> set (bs_devices s b)"
    and "fwk_device_find d s = Some r" and "r \<noteq> 0"
  shows "\<exists>s'. fwk_device_add pins bt d s = Some (ER_NORMAL, s') \<and> bus_view b s' = spec_add (plat_fits s) d (bus_view b s) \<and>
     bus_wf (plat_fits s') (bus_view b s') \<and> bus_complete (plat_fits s') (bus_view b s')"
proof -
  have "0 \<notin> set (bs_drivers s b)" using assms(6) by (simp add: bus_wf_def)
  from plat.add_refines [OF plat_serves [where bt = bt and b = b, OF assms(1)] assms(2-5) this assms(9,10), of pins]
  obtain s' where s': "fwk_device_add pins bt d s = Some (ER_NORMAL, s')" "bus_view b s' = spec_add (plat_fits s) d (bus_view b s)" "same_static s s'"
    unfolding plat_fits_eq by blast
  have "plat_fits s' = plat_fits s" using plat.fits_static [OF s'(3)] unfolding plat_fits_eq .
  then show ?thesis using s' spec_add_ok [of "plat_fits s" "bus_view b s" d] assms(6-8) by simp
qed

text \<open>C32: Registering a driver on the platform bus binds to it exactly the devices of the bus that have no driver yet and that it fits, and
  returns their number, which is also the driver's count; bound devices keep their drivers, and no fitting pair is left apart.\<close>

theorem driver_register_binds_all:
  assumes "bt b = platform_bus drvs" and "plat_live s" and "dd_bus (bs_drv s v) = b" and "b \<noteq> 0" and "bs_priv s b" and "v \<noteq> 0"
    and "bus_wf (plat_fits s) (bus_view b s)" and "bus_complete (plat_fits s) (bus_view b s)"
    and "\<forall>d \<in> set (bs_devices s b). dv_bus (bs_dev s d) = b" and "fwk_driver_find v b s \<noteq> 0"
  shows "\<exists>s' n. fwk_driver_register pins bt v s = Some (int n, s') \<and> bus_view b s' = spec_register (plat_fits s) v (bus_view b s) \<and>
     n = length (filter (\<lambda>d. binding s d = 0 \<and> plat_fits s d v) (bs_devices s b)) \<and> dd_matches (bs_drv s' v) = int n \<and>
     bus_wf (plat_fits s') (bus_view b s') \<and> bus_complete (plat_fits s') (bus_view b s')"
proof -
  have d: "distinct (bs_devices s b)" using assms(7) by (simp add: bus_wf_def)
  have n: "v \<notin> set (bs_drivers s b)" using assms(10) by (auto simp: fwk_driver_find_def split: if_splits)
  from plat.register_refines [OF plat_serves [where bt = bt and b = b, OF assms(1)] assms(2-6) d assms(9,10), of pins]
  obtain s' k where s': "fwk_driver_register pins bt v s = Some (int k, s')" "bus_view b s' = spec_register (plat_fits s) v (bus_view b s)" "same_static s s'"
    "k = length (filter (\<lambda>d. binding s d = 0 \<and> plat_fits s d v) (bs_devices s b))" "dd_matches (bs_drv s' v) = int k"
    unfolding plat_fits_eq by blast
  have "plat_fits s' = plat_fits s" using plat.fits_static [OF s'(3)] unfolding plat_fits_eq .
  then show ?thesis using s' spec_register_ok [of "plat_fits s" "bus_view b s" v] assms(6-8) n by simp
qed

text \<open>Any sequence of calls for devices and drivers of one bus, whatever the results.\<close>

inductive bus_step :: "'e pin_ops \<Rightarrow> (kuaddr_t \<Rightarrow> 'e fwk_bus_type) \<Rightarrow> kuaddr_t \<Rightarrow> 'e bus_sys \<Rightarrow> 'e bus_sys \<Rightarrow> bool"
  for pins bt b where
  step_add: "dv_bus (bs_dev s d) = b \<Longrightarrow> fwk_device_add pins bt d s = Some (r, s') \<Longrightarrow> bus_step pins bt b s s'"
| step_del: "dv_bus (bs_dev s d) = b \<Longrightarrow> fwk_device_del bt d s = Some (r, s') \<Longrightarrow> bus_step pins bt b s s'"
| step_register: "dd_bus (bs_drv s v) = b \<Longrightarrow> v \<noteq> 0 \<Longrightarrow> fwk_driver_register pins bt v s = Some (r, s') \<Longrightarrow> bus_step pins bt b s s'"
| step_unregister: "dd_bus (bs_drv s v) = b \<Longrightarrow> v \<noteq> 0 \<Longrightarrow> fwk_driver_unregister bt v s = Some (r, s') \<Longrightarrow> bus_step pins bt b s s'"

inductive_cases bus_stepE: "bus_step pins bt b s s'"

lemma bus_step_inv: "bt b = platform_bus drvs \<Longrightarrow> plat.bus_inv b s \<Longrightarrow> bus_step pins bt b s s' \<Longrightarrow> plat.bus_inv b s'"
  by (erule bus_stepE) (blast intro: plat.add_inv plat.del_inv plat.register_inv plat.unregister_inv plat_serves)+

lemma bus_steps_inv:
  assumes "bt b = platform_bus drvs" and "(bus_step pins bt b)\<^sup>*\<^sup>* s s'" and "plat.bus_inv b s"
  shows "plat.bus_inv b s'"
  using assms(2,3) by (induction rule: rtranclp_induct) (auto intro: bus_step_inv [where drvs = drvs and bt = bt and b = b, OF assms(1)])


text \<open>A device that finds its driver already registered is not counted, but its removal is: a driver whose count was 0 ends with \<open>- 1\<close>.\<close>

lemma removed_device_miscounted:
  assumes "bt b = platform_bus drvs" and "plat_live s" and "dv_bus (bs_dev s d) = b" and "b \<noteq> 0" and "bs_priv s b" and "0 \<notin> set (bs_drivers s b)"
    and "fwk_device_find d s = Some r" and "r \<noteq> 0" and "find (plat_fits s d) (bs_drivers s b) = Some v" and "dd_matches (bs_drv s v) = 0"
    and "\<forall>l \<in> set (sgrt_fwk_devices s). \<exists>x y. fwk_dev_get_name l s = Some x \<and> fwk_dev_get_name d s = Some y \<and> cstr x \<noteq> cstr y"
  shows "\<exists>s' s''. fwk_device_add pins bt d s = Some (ER_NORMAL, s') \<and> fwk_device_del bt d s' = Some (ER_NORMAL, s'') \<and>
     dd_matches (bs_drv s'' v) = - 1"
proof -
  note srv = plat_serves [where bt = bt and b = b, OF assms(1)]
  from plat.add_refines [OF srv assms(2-8), of pins] obtain s' where s': "fwk_device_add pins bt d s = Some (ER_NORMAL, s')"
    "bus_view b s' = spec_add (plat_fits s) d (bus_view b s)" "same_static s s'" "sgrt_fwk_devices s' = sgrt_fwk_devices s @ [d]" "bs_priv s' = bs_priv s"
    "counts s' = counts s" "bs_kobj s' = bs_kobj s"
    unfolding plat_fits_eq by blast
  have "binding s' d = v" using assms(9) fun_cong [OF arg_cong [OF s'(2), of ba_bind], of d] by (simp add: spec_add_def)
  moreover have "v \<noteq> 0" using assms(6,9) by (metis find_Some_iff nth_mem)
  ultimately have v: "v \<noteq> 0" "binding s' d = v" by simp_all
  have nm: "fwk_dev_get_name l s' = fwk_dev_get_name l s" for l using s'(3,7) by (simp add: fwk_dev_get_name_def same_static_def Let_def split: option.split)
  have "find_device_loop d (ls @ [d]) s' = Some 0" if "set ls \<subseteq> set (sgrt_fwk_devices s)" for ls
    using that by (induction ls) (use assms(11) nm in \<open>fastforce+\<close>)
  then have f: "fwk_device_find d s' = Some 0" using s'(4) by (simp add: fwk_device_find_def)
  have st: "plat_live s'" "dv_bus (bs_dev s' d) = b" "bs_priv s' b"
    using plat.live_static [OF s'(3) assms(2)] s'(3,5) assms(3,5) by (simp_all add: same_static_def)
  from plat.del_refines [OF srv st(1,2) assms(4) st(3) f] obtain s'' where "fwk_device_del bt d s' = Some (ER_NORMAL, s'')"
    "counts s'' = (counts s')(v := counts s' v - 1)" using v by auto
  moreover have "counts s' v = 0" using fun_cong [OF s'(6), of v] assms(10) by simp
  ultimately show ?thesis using s'(1) by (auto simp: fun_eq_iff)
qed

section \<open>An example\<close>

definition demo_drvs :: "kuaddr_t \<Rightarrow> nat drv_ops" where
  "demo_drvs _ = \<lparr>dp_probe = Some (\<lambda>_ n. (0, n + 1)), dp_remove = None\<rparr>"

definition demo_pins :: "nat pin_ops" where
  "demo_pins = \<lparr>pin_bind = (\<lambda>_ n. (0, n)), pin_unbind = (\<lambda>_ n. n)\<rparr>"

text \<open>The serial port of the example tree, and a driver for it.\<close>

definition demo_bus :: "kuaddr_t list \<Rightarrow> kuaddr_t list \<Rightarrow> nat bus_sys" where
  "demo_bus ds vs = \<lparr>
     bs_dev = (\<lambda>_. \<lparr>dv_init_name = Some [117, 0], dv_bus = 64, dv_type = 0, dv_driver = 0, dv_node = 0x3000, dv_name = [117, 0], dv_override = None, dv_irq = 0\<rparr>),
     bs_drv = (\<lambda>_. \<lparr>dd_name = [118, 0], dd_matches = 0, dd_of_match = [[117, 50, 0]], dd_bus = 64, dd_ids = None\<rparr>),
     bs_devices = (\<lambda>_. ds), bs_drivers = (\<lambda>_. vs), bs_priv = (\<lambda>_. True), sgrt_fwk_devices = ds, bs_tree = demo_tree,
     bs_kobj = demo_kobjs, bs_irq = demo_of_irqs, bs_env = 0\<rparr>"

lemma demo_bus_sel [simp]:
  "bs_devices (demo_bus ds vs) b = ds" "bs_drivers (demo_bus ds vs) b = vs" "bs_priv (demo_bus ds vs) b" "sgrt_fwk_devices (demo_bus ds vs) = ds"
  "dv_bus (bs_dev (demo_bus ds vs) d) = 64" "dd_bus (bs_drv (demo_bus ds vs) v) = 64" "dv_driver (bs_dev (demo_bus ds vs) d) = 0"
  "dv_node (bs_dev (demo_bus ds vs) d) = 0x3000" "bs_tree (demo_bus ds vs) = demo_tree"
  by (simp_all add: demo_bus_def)

lemma demo_bus_live: "plat_live (demo_bus ds vs)"
  using demo_tree_compatibles by (intro plat_liveI) auto

lemma demo_bus_fits: "plat_fits (demo_bus ds vs) d v"
  using match_entries_find [OF demo_tree_compatibles(3), of 0 "[[117, 50, 0]]"]
  by (simp add: plat_fits_def fwk_platform_match_def fwk_of_node_try_matches_def demo_tree_valid demo_bus_def demo_compatibles_def cstr_def)

theorem device_add_binds_first_witness:
  "\<exists>s'. fwk_device_add demo_pins (\<lambda>_. platform_bus demo_drvs) 0x9000 (demo_bus [] [0xA000, 0xB000]) = Some (ER_NORMAL, s') \<and>
     dv_driver (bs_dev s' 0x9000) = 0xA000"
proof -
  let ?s = "demo_bus [] [0xA000, 0xB000]"
  obtain s' where s': "fwk_device_add demo_pins (\<lambda>_. platform_bus demo_drvs) 0x9000 ?s = Some (ER_NORMAL, s')"
      "bus_view 64 s' = spec_add (plat_fits ?s) 0x9000 (bus_view 64 ?s)"
    using device_add_binds_first [where bt = "\<lambda>_. platform_bus demo_drvs" and b = 64 and s = ?s and d = "0x9000" and r = "- 13" and pins = demo_pins, OF refl demo_bus_live]
    by (auto simp: bus_wf_def bus_complete_def fwk_device_find_def)
  show ?thesis using s'(1) fun_cong [OF arg_cong [OF s'(2), of ba_bind], of "0x9000"] by (simp add: spec_add_def demo_bus_fits)
qed

theorem driver_register_binds_all_witness:
  "\<exists>s'. fwk_driver_register demo_pins (\<lambda>_. platform_bus demo_drvs) 0xA000 (demo_bus [0x9000, 0x9100] []) = Some (2, s') \<and>
     dv_driver (bs_dev s' 0x9100) = 0xA000"
proof -
  let ?s = "demo_bus [0x9000, 0x9100] []"
  obtain s' n where s': "fwk_driver_register demo_pins (\<lambda>_. platform_bus demo_drvs) 0xA000 ?s = Some (int n, s')"
      "bus_view 64 s' = spec_register (plat_fits ?s) 0xA000 (bus_view 64 ?s)" "n = 2"
    using driver_register_binds_all [where bt = "\<lambda>_. platform_bus demo_drvs" and b = 64 and s = ?s and v = "0xA000" and pins = demo_pins, OF refl demo_bus_live]
    by (auto simp: bus_wf_def bus_complete_def fwk_driver_find_def demo_bus_fits)
  show ?thesis using s'(1,3) fun_cong [OF arg_cong [OF s'(2), of ba_bind], of "0x9100"] by (simp add: spec_register_def demo_bus_fits)
qed


end
