(* ===== verification/I2c.thy ===== *)
theory I2c
  imports Platform_Bus
begin

text \<open>
  The I2C bus (\<^verbatim>\<open>platform/i2c/fwk_i2c.c\<close>): its match, probe and remove functions, which the bus core calls like those of the platform bus, and the
  adapters, which make clients from their nodes in the device tree.

  A client or an adapter shares its address with the device in it; the name of a client and its interrupt are kept with the device.  The functions
  of the drivers and of the adapters are parameters.  \<open>None\<close> is a null dereference, an access outside a string, or an operation of the
  interrupt framework or a walk over the tree that does not end.
\<close>

section \<open>State\<close>

record i2c_client =
  cl_flags :: kuint16_t
  cl_addr :: kuint16_t
  cl_adapter :: kuaddr_t
  cl_parent :: kuaddr_t

record i2c_adapter =
  ap_id :: kuint32_t
  ap_algo :: kuaddr_t
  ap_timeout :: int
  ap_nr :: int
  ap_name :: bytes
  ap_clients :: "kuaddr_t list"

record i2c_board_info =
  bi_type :: bytes
  bi_flags :: kuint16_t
  bi_addr :: kuint16_t
  bi_node :: kuaddr_t
  bi_irq :: int

record 'e i2c_sys =
  ic_bus :: "'e bus_sys"
  ic_client :: "kuaddr_t \<Rightarrow> i2c_client"
  ic_adap :: "kuaddr_t \<Rightarrow> i2c_adapter"
  ic_pool :: "kuaddr_t list"
  ic_freed :: "kuaddr_t list"

record 'e i2c_ops =
  ip_probe :: "(kuaddr_t \<Rightarrow> nat option \<Rightarrow> 'e \<Rightarrow> int \<times> 'e) option"
  ip_remove :: "(kuaddr_t \<Rightarrow> 'e \<Rightarrow> int \<times> 'e) option"

text \<open>The transfer function of an adapter works on messages, given by their address.\<close>

record 'e i2c_algo =
  al_xfer :: "(kuaddr_t \<Rightarrow> kuaddr_t \<Rightarrow> int \<Rightarrow> 'e \<Rightarrow> int \<times> 'e) option"

definition sgrt_fwk_i2c_bus_type :: kuaddr_t where "sgrt_fwk_i2c_bus_type = 0x80510000"
definition sgrt_fwk_i2c_adapter_type :: kuaddr_t where "sgrt_fwk_i2c_adapter_type = 0x80510100"
definition sgrt_fwk_i2c_client_type :: kuaddr_t where "sgrt_fwk_i2c_client_type = 0x80510200"

definition FWK_I2C_NAME_SIZE :: nat where "FWK_I2C_NAME_SIZE = 32"
definition FWK_I2C_M_TEN :: kuint16_t where "FWK_I2C_M_TEN = 0x10"
definition I2C_TIMEOUT :: int where "I2C_TIMEOUT = 100"

section \<open>The functions of the bus\<close>

text \<open>The table of names ends with an empty name; the result is the position of the first name that is equal.\<close>

fun match_id_loop :: "nat \<Rightarrow> bytes list \<Rightarrow> bytes \<Rightarrow> nat option" where
  "match_id_loop i [] nm = None"
| "match_id_loop i (n # ns) nm = (if cstr n = [] then None else if cstr nm = cstr n then Some i else match_id_loop (i + 1) ns nm)"

definition fwk_i2c_match_id :: "bytes list \<Rightarrow> bytes \<Rightarrow> nat option" where
  "fwk_i2c_match_id tab nm = match_id_loop 0 tab nm"

definition fwk_i2c_device_match :: "kuaddr_t \<Rightarrow> kuaddr_t \<Rightarrow> 'e bus_sys \<Rightarrow> int option" where
  "fwk_i2c_device_match dev drv s =
     (let x = bs_dev s dev; y = bs_drv s drv
      in if dv_type x \<noteq> sgrt_fwk_i2c_client_type then Some (- ER_CHECKERR)
         else do { (np, _) \<leftarrow> fwk_of_node_try_matches (dv_node x) (dd_of_match y) (bs_tree s);
                   Some (if isValid np \<and> dv_node x = np then ER_NORMAL
                         else case dd_ids y of
                                Some tab \<Rightarrow> if fwk_i2c_match_id tab (dv_name x) \<noteq> None then ER_NORMAL else - ER_NOTFOUND
                              | None \<Rightarrow> - ER_NOTFOUND) })"

definition fwk_i2c_device_probe ::
  "(kuaddr_t \<Rightarrow> domain_ops) \<Rightarrow> (kuaddr_t \<Rightarrow> 'e i2c_ops) \<Rightarrow> kuaddr_t \<Rightarrow> 'e bus_sys \<Rightarrow> (int \<times> 'e bus_sys) option" where
  "fwk_i2c_device_probe ops drvs dev s =
     (let drv = dv_driver (bs_dev s dev)
      in if drv = 0 then Some (- ER_FAULT, s)
         else case dd_ids (bs_drv s drv) of
                None \<Rightarrow> None
              | Some tab \<Rightarrow>
                  do { let idt = fwk_i2c_match_id tab (dv_name (bs_dev s dev));
                       s \<leftarrow> (if dv_irq (bs_dev s dev) = 0
                             then do { (irq, i) \<leftarrow> fwk_of_irq_get ops (bs_tree s) (dv_node (bs_dev s dev)) 0 (bs_irq s);
                                       Some (upd_dev dev (\<lambda>x. x\<lparr>dv_irq := if irq < 0 then - 1 else irq\<rparr>) (s\<lparr>bs_irq := i\<rparr>)) }
                             else Some s);
                       Some (case ip_probe (drvs drv) of
                               None \<Rightarrow> (ER_NORMAL, s)
                             | Some f \<Rightarrow> let (r, e) = f dev idt (bs_env s) in (if r \<noteq> 0 then - ER_PERMIT else ER_NORMAL, s\<lparr>bs_env := e\<rparr>)) })"

definition fwk_i2c_device_remove :: "(kuaddr_t \<Rightarrow> 'e i2c_ops) \<Rightarrow> kuaddr_t \<Rightarrow> 'e bus_sys \<Rightarrow> (int \<times> 'e bus_sys) option" where
  "fwk_i2c_device_remove drvs dev s =
     (let drv = dv_driver (bs_dev s dev)
      in if drv = 0 then Some (- ER_FAULT, s)
         else case ip_remove (drvs drv) of
                None \<Rightarrow> Some (- ER_PERMIT, s)
              | Some f \<Rightarrow> let (r, e) = f dev (bs_env s) in Some (if r < 0 then - ER_PERMIT else ER_NORMAL, s\<lparr>bs_env := e\<rparr>))"

definition i2c_bus :: "(kuaddr_t \<Rightarrow> domain_ops) \<Rightarrow> (kuaddr_t \<Rightarrow> 'e i2c_ops) \<Rightarrow> 'e fwk_bus_type" where
  "i2c_bus ops drvs = \<lparr>bt_match = Some fwk_i2c_device_match, bt_probe = Some (fwk_i2c_device_probe ops drvs), bt_remove = Some (fwk_i2c_device_remove drvs)\<rparr>"

section \<open>Clients and drivers\<close>

definition upd_client :: "kuaddr_t \<Rightarrow> (i2c_client \<Rightarrow> i2c_client) \<Rightarrow> 'e i2c_sys \<Rightarrow> 'e i2c_sys" where
  "upd_client c f s = s\<lparr>ic_client := (ic_client s)(c := f (ic_client s c))\<rparr>"

definition upd_adap :: "kuaddr_t \<Rightarrow> (i2c_adapter \<Rightarrow> i2c_adapter) \<Rightarrow> 'e i2c_sys \<Rightarrow> 'e i2c_sys" where
  "upd_adap a f s = s\<lparr>ic_adap := (ic_adap s)(a := f (ic_adap s a))\<rparr>"

definition ic_kfree :: "kuaddr_t \<Rightarrow> 'e i2c_sys \<Rightarrow> 'e i2c_sys" where
  "ic_kfree a s = s\<lparr>ic_freed := ic_freed s @ [a]\<rparr>"

definition fwk_register_i2c_device ::
  "'e pin_ops \<Rightarrow> (kuaddr_t \<Rightarrow> 'e fwk_bus_type) \<Rightarrow> kuaddr_t \<Rightarrow> 'e bus_sys \<Rightarrow> (int \<times> 'e bus_sys) option" where
  "fwk_register_i2c_device pins bt c s = fwk_device_add pins bt c (upd_dev c (\<lambda>x. x\<lparr>dv_bus := sgrt_fwk_i2c_bus_type\<rparr>) s)"

definition fwk_unregister_i2c_device :: "(kuaddr_t \<Rightarrow> 'e fwk_bus_type) \<Rightarrow> kuaddr_t \<Rightarrow> 'e bus_sys \<Rightarrow> (int \<times> 'e bus_sys) option" where
  "fwk_unregister_i2c_device bt c s = fwk_device_del bt c s"

definition fwk_i2c_register_driver ::
  "'e pin_ops \<Rightarrow> (kuaddr_t \<Rightarrow> 'e fwk_bus_type) \<Rightarrow> kuaddr_t \<Rightarrow> 'e bus_sys \<Rightarrow> (int \<times> 'e bus_sys) option" where
  "fwk_i2c_register_driver pins bt v s = fwk_driver_register pins bt v (upd_drv v (\<lambda>x. x\<lparr>dd_bus := sgrt_fwk_i2c_bus_type\<rparr>) s)"

definition fwk_i2c_unregister_driver :: "(kuaddr_t \<Rightarrow> 'e fwk_bus_type) \<Rightarrow> kuaddr_t \<Rightarrow> 'e bus_sys \<Rightarrow> (int \<times> 'e bus_sys) option" where
  "fwk_i2c_unregister_driver bt v s = fwk_driver_unregister bt v s"

text \<open>The addresses a client may have: ten bits, or seven bits and not 0.\<close>

definition i2c_addr_ok :: "kuint16_t \<Rightarrow> kuint16_t \<Rightarrow> bool" where
  "i2c_addr_ok flags addr \<longleftrightarrow> (if flags AND FWK_I2C_M_TEN \<noteq> 0 then \<not> addr > 0x3ff else \<not> (addr = 0 \<or> addr > 0x7f))"

text \<open>The client as the allocation and the assignments before the check of its address leave it.\<close>

definition new_client_dev :: "bytes \<Rightarrow> i2c_board_info \<Rightarrow> fwk_device" where
  "new_client_dev nm info = \<lparr>dv_init_name = None, dv_bus = sgrt_fwk_i2c_bus_type, dv_type = sgrt_fwk_i2c_client_type, dv_driver = 0,
     dv_node = bi_node info, dv_name = nm, dv_override = None, dv_irq = bi_irq info\<rparr>"

definition i2c_prepare :: "kuaddr_t \<Rightarrow> i2c_board_info \<Rightarrow> int \<Rightarrow> 'e bus_sys \<Rightarrow> 'e bus_sys option" where
  "i2c_prepare c info nr b =
     do { (_, nm) \<leftarrow> do_string_n_copy_safe (replicate FWK_I2C_NAME_SIZE 0) (bi_type info) FWK_I2C_NAME_SIZE;
          let b = upd_dev c (\<lambda>_. new_client_dev nm info) b;
          let b = b\<lparr>bs_kobj := upd_kobj (c + SGRT_KOBJ_OFFSET) (\<lambda>x. x\<lparr>ko_name := 0\<rparr>) (bs_kobj b)\<rparr>;
          fwk_dev_set_name c (Some (lit ''%d-%d''))
            [VaInt (word_of_int nr), VaInt (ucast (bi_addr info) OR (if bi_flags info AND FWK_I2C_M_TEN \<noteq> 0 then 0xa000 else 0))] b }"

definition fwk_i2c_new_device ::
  "'e pin_ops \<Rightarrow> (kuaddr_t \<Rightarrow> 'e fwk_bus_type) \<Rightarrow> kuaddr_t \<Rightarrow> i2c_board_info \<Rightarrow> 'e i2c_sys \<Rightarrow> (kuaddr_t \<times> 'e i2c_sys) option" where
  "fwk_i2c_new_device pins bt ad info s =
     (let (c, s) = (case ic_pool s of [] \<Rightarrow> (0, s) | a # as \<Rightarrow> (a, s\<lparr>ic_pool := as\<rparr>))
      in if \<not> isValid c then Some (0, s)
         else do {
           let s = upd_client c (\<lambda>_. \<lparr>cl_flags = bi_flags info, cl_addr = bi_addr info, cl_adapter = ad, cl_parent = ad\<rparr>) s;
           b \<leftarrow> i2c_prepare c info (ap_nr (ic_adap s ad)) (ic_bus s);
           if \<not> i2c_addr_ok (bi_flags info) (bi_addr info) then Some (0, ic_kfree c (s\<lparr>ic_bus := fwk_dev_del_name c b\<rparr>))
           else do {
             (retval, b) \<leftarrow> fwk_device_add pins bt c b;
             if retval \<noteq> 0 then Some (0, ic_kfree c (s\<lparr>ic_bus := fwk_dev_del_name c b\<rparr>))
             else Some (c, upd_adap ad (\<lambda>x. x\<lparr>ap_clients := ap_clients x @ [c]\<rparr>) (s\<lparr>ic_bus := b\<rparr>)) } })"

definition fwk_i2c_unregister_device :: "(kuaddr_t \<Rightarrow> 'e fwk_bus_type) \<Rightarrow> kuaddr_t \<Rightarrow> 'e i2c_sys \<Rightarrow> 'e i2c_sys option" where
  "fwk_i2c_unregister_device bt c s =
     do { let ad = cl_adapter (ic_client s c);
          let s = upd_adap ad (\<lambda>x. x\<lparr>ap_clients := remove1 c (ap_clients x)\<rparr>) s;
          (_, b) \<leftarrow> fwk_device_del bt c (ic_bus s);
          Some (s\<lparr>ic_bus := b\<rparr>) }"

section \<open>Adapters\<close>

text \<open>The result, a client or an error pointer, is not used by the caller.\<close>

definition fwk_of_i2c_register_device ::
  "'e pin_ops \<Rightarrow> (kuaddr_t \<Rightarrow> 'e fwk_bus_type) \<Rightarrow> kuaddr_t \<Rightarrow> kuaddr_t \<Rightarrow> 'e i2c_sys \<Rightarrow> (kuaddr_t \<times> 'e i2c_sys) option" where
  "fwk_of_i2c_register_device pins bt ad node s =
     do { (r, type) \<leftarrow> fwk_of_modalias_node node (replicate FWK_I2C_NAME_SIZE 0) FWK_I2C_NAME_SIZE (bs_tree (ic_bus s));
          if r \<noteq> 0 then Some (ERR_PTR (- ER_NOTFOUND), s)
          else do {
            (r, vs) \<leftarrow> fwk_of_property_read_u32 node (lit ''reg'') (bs_tree (ic_bus s));
            if r \<noteq> 0 then Some (ERR_PTR (- ER_NOTFOUND), s)
            else let reg = (case vs of [] \<Rightarrow> 0 | v # _ \<Rightarrow> v)
                 in if reg = 0 then Some (ERR_PTR (- ER_EMPTY), s)
                    else fwk_i2c_new_device pins bt ad
                           \<lparr>bi_type = type, bi_flags = 0, bi_addr = ucast reg, bi_node = node, bi_irq = 0\<rparr> s } }"

partial_function (option) i2c_children ::
  "'e pin_ops \<Rightarrow> (kuaddr_t \<Rightarrow> 'e fwk_bus_type) \<Rightarrow> kuaddr_t \<Rightarrow> kuaddr_t \<Rightarrow> kuaddr_t \<Rightarrow> 'e i2c_sys \<Rightarrow> 'e i2c_sys option" where
  "i2c_children pins bt ad parent np s =
     (if np = 0 then Some s
      else Option.bind (if fwk_of_device_is_avaliable np (bs_tree (ic_bus s)) then map_option snd (fwk_of_i2c_register_device pins bt ad np s) else Some s)
             (\<lambda>s. i2c_children pins bt ad parent (fwk_of_get_next_child parent np (bs_tree (ic_bus s))) s))"

definition fwk_of_i2c_register_devices ::
  "'e pin_ops \<Rightarrow> (kuaddr_t \<Rightarrow> 'e fwk_bus_type) \<Rightarrow> kuaddr_t \<Rightarrow> 'e i2c_sys \<Rightarrow> 'e i2c_sys option" where
  "fwk_of_i2c_register_devices pins bt ad s =
     (let node = dv_node (bs_dev (ic_bus s) ad)
      in if node = 0 then Some s
         else i2c_children pins bt ad node (fwk_of_get_next_child node 0 (bs_tree (ic_bus s))) s)"

definition fwk_i2c_register_adapter ::
  "'e pin_ops \<Rightarrow> (kuaddr_t \<Rightarrow> 'e fwk_bus_type) \<Rightarrow> kuaddr_t \<Rightarrow> 'e i2c_sys \<Rightarrow> (int \<times> 'e i2c_sys) option" where
  "fwk_i2c_register_adapter pins bt ad s =
     (if ap_algo (ic_adap s ad) = 0 \<or> cstr (ap_name (ic_adap s ad)) = [] then Some (- ER_FAULT, s)
      else do {
        let s = upd_adap ad (\<lambda>x. x\<lparr>ap_timeout := if ap_timeout x = 0 then I2C_TIMEOUT else ap_timeout x, ap_clients := []\<rparr>) s;
        b \<leftarrow> fwk_dev_set_name ad (Some (lit ''i2c-%d'')) [VaInt (word_of_int (ap_nr (ic_adap s ad)))] (ic_bus s);
        let b = upd_dev ad (\<lambda>x. x\<lparr>dv_bus := sgrt_fwk_i2c_bus_type, dv_type := sgrt_fwk_i2c_adapter_type\<rparr>) b;
        (retval, b) \<leftarrow> fwk_device_add pins bt ad b;
        if retval \<noteq> 0 then Some (retval, s\<lparr>ic_bus := fwk_dev_del_name ad b\<rparr>)
        else do { s \<leftarrow> fwk_of_i2c_register_devices pins bt ad (s\<lparr>ic_bus := b\<rparr>); Some (ER_NORMAL, s) } })"

text \<open>\<^verbatim>\<open>id\<close> is unsigned: the test \<^verbatim>\<open>id < 0\<close> never holds, and the number of the alias is not asked for.\<close>

definition fwk_i2c_add_adapter ::
  "'e pin_ops \<Rightarrow> (kuaddr_t \<Rightarrow> 'e fwk_bus_type) \<Rightarrow> kuaddr_t \<Rightarrow> 'e i2c_sys \<Rightarrow> (int \<times> 'e i2c_sys) option" where
  "fwk_i2c_add_adapter pins bt ad s =
     fwk_i2c_register_adapter pins bt ad (upd_adap ad (\<lambda>x. x\<lparr>ap_nr := sint (ap_id x)\<rparr>) s)"

fun del_clients :: "(kuaddr_t \<Rightarrow> 'e fwk_bus_type) \<Rightarrow> kuaddr_t list \<Rightarrow> 'e i2c_sys \<Rightarrow> 'e i2c_sys option" where
  "del_clients bt [] s = Some s"
| "del_clients bt (c # cs) s = do { s \<leftarrow> fwk_i2c_unregister_device bt c s; del_clients bt cs (ic_kfree c s) }"

definition fwk_i2c_del_adapter :: "(kuaddr_t \<Rightarrow> 'e fwk_bus_type) \<Rightarrow> kuaddr_t \<Rightarrow> 'e i2c_sys \<Rightarrow> 'e i2c_sys option" where
  "fwk_i2c_del_adapter bt ad s =
     do { s \<leftarrow> del_clients bt (ap_clients (ic_adap s ad)) s;
          (_, b) \<leftarrow> fwk_device_del bt ad (ic_bus s);
          Some (s\<lparr>ic_bus := b\<rparr>) }"

definition fwk_i2c_transfer :: "(kuaddr_t \<Rightarrow> 'e i2c_algo) \<Rightarrow> kuaddr_t \<Rightarrow> kuaddr_t \<Rightarrow> int \<Rightarrow> 'e i2c_sys \<Rightarrow> int \<times> 'e i2c_sys" where
  "fwk_i2c_transfer algos c msgs num s =
     (let ad = cl_adapter (ic_client s c)
      in case al_xfer (algos (ap_algo (ic_adap s ad))) of
           None \<Rightarrow> (- ER_NSUPPORT, s)
         | Some f \<Rightarrow> let (r, e) = f ad msgs num (bs_env (ic_bus s)) in (r, s\<lparr>ic_bus := (ic_bus s)\<lparr>bs_env := e\<rparr>\<rparr>))"

section \<open>The I2C bus keeps the contract of a bus\<close>

text \<open>The functions return: matching ends, every driver has a table of names, which probing reads without a test, and looking for the
  interrupt of a node returns whatever the state of the interrupt framework is, for example because the node has none.\<close>

definition i2c_live :: "(kuaddr_t \<Rightarrow> domain_ops) \<Rightarrow> 'e bus_sys \<Rightarrow> bool" where
  "i2c_live ops s \<longleftrightarrow> (\<forall>d v. fwk_i2c_device_match d v s \<noteq> None) \<and> (\<forall>v. dd_ids (bs_drv s v) \<noteq> None) \<and>
     (\<forall>d i. fwk_of_irq_get ops (bs_tree s) (dv_node (bs_dev s d)) 0 i \<noteq> None)"

definition i2c_fits :: "'e bus_sys \<Rightarrow> kuaddr_t \<Rightarrow> kuaddr_t \<Rightarrow> bool" where
  "i2c_fits s d v \<longleftrightarrow> (\<exists>r. fwk_i2c_device_match d v s = Some r \<and> 0 \<le> r)"

lemma i2c_match_static: "same_static s s' \<Longrightarrow> fwk_i2c_device_match d v s' = fwk_i2c_device_match d v s"
  by (simp add: same_static_def fwk_i2c_device_match_def Let_def cong: if_cong option.case_cong)

lemma i2c_live_static: "same_static s s' \<Longrightarrow> i2c_live ops s \<Longrightarrow> i2c_live ops s'"
  using i2c_match_static [of s s'] by (simp add: i2c_live_def same_static_def)

lemma i2c_irq_frame: "frame (binding s) (counts s) s (upd_dev d (\<lambda>x. x\<lparr>dv_irq := v\<rparr>) (s\<lparr>bs_irq := i\<rparr>))"
  by (simp add: frame_def same_static_def upd_dev_def)

lemma i2c_probe_frame:
  assumes li: "i2c_live ops s" and d: "dv_driver (bs_dev s d) \<noteq> 0"
  shows "\<exists>r s'. fwk_i2c_device_probe ops drvs d s = Some (r, s') \<and> (r = 0 \<or> r = - ER_PERMIT) \<and> frame (binding s) (counts s) s s'"
proof -
  have "dd_ids (bs_drv s (dv_driver (bs_dev s d))) \<noteq> None" using li unfolding i2c_live_def by blast
  then obtain tab where tab: "dd_ids (bs_drv s (dv_driver (bs_dev s d))) = Some tab" by auto
  have "fwk_of_irq_get ops (bs_tree s) (dv_node (bs_dev s d)) 0 (bs_irq s) \<noteq> None" using li unfolding i2c_live_def by blast
  then obtain irq i where irq: "fwk_of_irq_get ops (bs_tree s) (dv_node (bs_dev s d)) 0 (bs_irq s) = Some (irq, i)" by auto
  define s1 where "s1 = (if dv_irq (bs_dev s d) = 0 then upd_dev d (\<lambda>x. x\<lparr>dv_irq := if irq < 0 then - 1 else irq\<rparr>) (s\<lparr>bs_irq := i\<rparr>) else s)"
  have f: "frame (binding s) (counts s) s s1" by (simp add: s1_def i2c_irq_frame)
  then have "frame (binding s) (counts s) s (s1\<lparr>bs_env := e\<rparr>)" for e using frame_trans [OF f frame_env [of s1 e]] frame_binding [OF f] by simp
  moreover have "fwk_i2c_device_probe ops drvs d s = Some (case ip_probe (drvs (dv_driver (bs_dev s d))) of
      None \<Rightarrow> (ER_NORMAL, s1)
    | Some g \<Rightarrow> let (r, e) = g d (fwk_i2c_match_id tab (dv_name (bs_dev s d))) (bs_env s1) in (if r \<noteq> 0 then - ER_PERMIT else ER_NORMAL, s1\<lparr>bs_env := e\<rparr>))"
    using d tab irq
    by (cases "dv_irq (bs_dev s d) = 0"; cases "ip_probe (drvs (dv_driver (bs_dev s d)))") (simp_all add: fwk_i2c_device_probe_def s1_def Let_def)
  ultimately show ?thesis using f by (auto simp: Let_def split: option.splits prod.splits)
qed

lemma i2c_remove_frame: "\<exists>r s'. fwk_i2c_device_remove drvs d s = Some (r, s') \<and> frame (binding s) (counts s) s s'"
  using frame_env [of s] frame_refl [of s] by (auto simp: fwk_i2c_device_remove_def Let_def split: option.splits prod.splits)

interpretation i2c: bus_contract fwk_i2c_device_match "fwk_i2c_device_probe ops drvs" "fwk_i2c_device_remove drvs" "i2c_live ops" for ops drvs
proof
  show "fwk_i2c_device_match d v s' = fwk_i2c_device_match d v s" if "same_static s s'" for s s' :: "'a bus_sys" and d v
    by (rule i2c_match_static [OF that])
  show "i2c_live ops s'" if "same_static s s'" and "i2c_live ops s" for s s' :: "'a bus_sys" by (rule i2c_live_static [OF that])
  show "fwk_i2c_device_match d v s \<noteq> None" if "i2c_live ops s" for s :: "'a bus_sys" and d v using that by (simp add: i2c_live_def)
qed (use i2c_probe_frame i2c_remove_frame in blast)+

lemma i2c_fits_eq: "i2c.fits = i2c_fits"
  by (simp add: fun_eq_iff i2c.fits_def i2c_fits_def)

lemma i2c_serves: "bt b = i2c_bus ops drvs \<Longrightarrow> i2c.serves ops drvs bt b"
  by (simp add: i2c.serves_def i2c_bus_def)


section \<open>New clients\<close>

text \<open>The name of a client, two numbers and a hyphen, can always be printed.\<close>

lemma client_name_printed: "\<exists>st. do_fmt_convert False False temp cnt (lit ''%d-%d'') [VaInt x, VaInt y] (2 ^ 32 - 1) = Some st"
proof -
  obtain t n where x: "convert_number_to_string (ucast x) = Some (t, n)" using convert_number_parse [of "ucast x"] by auto
  obtain u m where y: "convert_number_to_string (ucast y) = Some (u, m)" using convert_number_parse [of "ucast y"] by auto
  show ?thesis
    by (simp add: do_fmt_convert_def lit_def fmt_step_def fmt_item_def fetches_one_def x y split: option.splits sum.splits)
qed


lemma set_client_name: "\<exists>k. fwk_dev_set_name d (Some (lit ''%d-%d'')) [VaInt x, VaInt y] b = Some (b\<lparr>bs_kobj := k\<rparr>)"
proof -
  obtain st where st: "do_fmt_convert False False (kb_temp (bs_kobj b)) (kb_cnt (bs_kobj b)) (lit ''%d-%d'') [VaInt x, VaInt y] (2 ^ 32 - 1) = Some st"
    using client_name_printed by blast
  obtain tx lv where "lv_vasprintk True False (kb_temp (bs_kobj b)) (kb_cnt (bs_kobj b)) (lit ''%d-%d'') [VaInt x, VaInt y] =
      Some (Some (ft_len st + 1, tx @ [0], lv))" "lv_vasprintk False False (kb_temp (bs_kobj b)) (kb_cnt (bs_kobj b)) (lit ''%d-%d'') [VaInt x, VaInt y] = Some None"
    using lv_vasprintk_exact [OF st, of False] by auto
  then have "vasprintk g (kb_temp (bs_kobj b)) (kb_cnt (bs_kobj b)) (lit ''%d-%d'') [VaInt x, VaInt y] \<noteq> None" for g
    by (cases g) (simp_all add: vasprintk_def)
  moreover obtain a k where a: "kb_kmalloc (bs_kobj b) = (a, k)" by (cases "kb_kmalloc (bs_kobj b)")
  ultimately obtain v where "vasprintk (isValid a) (kb_temp (bs_kobj b)) (kb_cnt (bs_kobj b)) (lit ''%d-%d'') [VaInt x, VaInt y] = Some v" by blast
  then show ?thesis using a by (cases v) (auto simp: fwk_dev_set_name_def fwk_kobject_set_name_args_def Let_def)
qed

text \<open>Preparing a client always succeeds when the type is a string, and touches nothing but the client's device and names.\<close>

lemma string_split: "get_string_lenth b = Some l \<Longrightarrow> \<exists>t r. b = t @ 0 # r \<and> 0 \<notin> set t"
proof (induction b arbitrary: l)
  case (Cons c b)
  show ?case
  proof (cases "c = 0")
    case True
    then show ?thesis by (intro exI [of _ "[]"] exI [of _ b]) simp
  next
    case False
    then obtain t r where "b = t @ 0 # r" "0 \<notin> set t" using Cons by fastforce
    then show ?thesis using False by (intro exI [of _ "c # t"] exI [of _ r]) simp
  qed
qed simp

lemma prepare_returns:
  assumes "get_string_lenth (bi_type info) = Some l"
  shows "\<exists>nm k. i2c_prepare c info nr b = Some ((upd_dev c (\<lambda>_. new_client_dev nm info) b)\<lparr>bs_kobj := k\<rparr>)"
proof -
  obtain m nm where "do_string_n_copy_safe (replicate FWK_I2C_NAME_SIZE 0) (bi_type info) FWK_I2C_NAME_SIZE = Some (m, nm)"
  proof -
    obtain t r where t: "bi_type info = t @ 0 # r" "0 \<notin> set t" using string_split [OF assms] by blast
    show thesis
      using that n_copy_safe_loop_spec [OF t(2), of "[]" 0 FWK_I2C_NAME_SIZE "replicate FWK_I2C_NAME_SIZE 0" r] assms
      by (simp add: do_string_n_copy_safe_def t(1))
  qed
  moreover obtain k where "fwk_dev_set_name c (Some (lit ''%d-%d''))
      [VaInt (word_of_int nr), VaInt (ucast (bi_addr info) OR (if bi_flags info AND FWK_I2C_M_TEN \<noteq> 0 then 0xa000 else 0))]
      ((upd_dev c (\<lambda>_. new_client_dev nm info) b)\<lparr>bs_kobj := upd_kobj (c + SGRT_KOBJ_OFFSET) (\<lambda>x. x\<lparr>ko_name := 0\<rparr>) (bs_kobj b)\<rparr>) =
      Some ((upd_dev c (\<lambda>_. new_client_dev nm info) b)\<lparr>bs_kobj := k\<rparr>)"
    using set_client_name [of c "word_of_int nr" "ucast (bi_addr info) OR (if bi_flags info AND FWK_I2C_M_TEN \<noteq> 0 then 0xa000 else 0)"
      "(upd_dev c (\<lambda>_. new_client_dev nm info) b)\<lparr>bs_kobj := upd_kobj (c + SGRT_KOBJ_OFFSET) (\<lambda>x. x\<lparr>ko_name := 0\<rparr>) (bs_kobj b)\<rparr>"]
    by auto
  ultimately show ?thesis by (intro exI [of _ nm] exI [of _ k]) (simp add: i2c_prepare_def Let_def upd_dev_def)
qed


lemma new_device_cases:
  fixes s :: "'e i2c_sys"
  assumes p: "ic_pool s = c # as" "isValid c" and pr: "i2c_prepare c info (ap_nr (ic_adap s ad)) (ic_bus s) = Some b"
    and bt: "bt sgrt_fwk_i2c_bus_type = i2c_bus ops drvs" and li: "i2c_live ops b" "bs_priv b sgrt_fwk_i2c_bus_type" "0 \<notin> set (bs_drivers b sgrt_fwk_i2c_bus_type)"
    and f: "fwk_device_find c b = Some r" and db: "dv_bus (bs_dev b c) = sgrt_fwk_i2c_bus_type"
  shows "if i2c_addr_ok (bi_flags info) (bi_addr info) \<and> r \<noteq> 0
     then \<exists>s'. fwk_i2c_new_device pins bt ad info s = Some (c, s') \<and>
            bus_view sgrt_fwk_i2c_bus_type (ic_bus s') = spec_add (i2c_fits b) c (bus_view sgrt_fwk_i2c_bus_type b) \<and>
            ap_clients (ic_adap s' ad) = ap_clients (ic_adap s ad) @ [c] \<and> cl_addr (ic_client s' c) = bi_addr info \<and> ic_freed s' = ic_freed s
     else \<exists>s'. fwk_i2c_new_device pins bt ad info s = Some (0, s') \<and>
            bus_view sgrt_fwk_i2c_bus_type (ic_bus s') = bus_view sgrt_fwk_i2c_bus_type b \<and> ic_adap s' = ic_adap s \<and>
            ic_freed s' = ic_freed s @ [c] \<and> ko_name (kobjs (bs_kobj (ic_bus s')) (c + SGRT_KOBJ_OFFSET)) = 0"
proof -
  let ?s = "upd_client c (\<lambda>_. \<lparr>cl_flags = bi_flags info, cl_addr = bi_addr info, cl_adapter = ad, cl_parent = ad\<rparr>) (s\<lparr>ic_pool := as\<rparr>)"
  have pr': "i2c_prepare c info (ap_nr (ic_adap ?s ad)) (ic_bus ?s) = Some b" using pr by (simp add: upd_client_def)
  have del: "bus_view q (fwk_dev_del_name c b) = bus_view q b" "ko_name (kobjs (bs_kobj (fwk_dev_del_name c b)) (c + SGRT_KOBJ_OFFSET)) = 0" for q
    by (simp_all add: fwk_dev_del_name_def bus_view_def fwk_kobject_del_name_def Let_def upd_kobj_def kb_kfree_def)
  have nz: "sgrt_fwk_i2c_bus_type \<noteq> 0" by (simp add: sgrt_fwk_i2c_bus_type_def)
  show ?thesis
  proof (cases "i2c_addr_ok (bi_flags info) (bi_addr info) \<and> r \<noteq> 0")
    case True
    from i2c.add_refines [OF i2c_serves [where bt = bt, OF bt] li(1) db nz li(2,3) f conjunct2 [OF True], of pins]
    obtain b' where "fwk_device_add pins bt c b = Some (ER_NORMAL, b')" "bus_view sgrt_fwk_i2c_bus_type b' = spec_add (i2c_fits b) c (bus_view sgrt_fwk_i2c_bus_type b)"
      unfolding i2c_fits_eq by blast
    then show ?thesis using True p pr' by (simp add: fwk_i2c_new_device_def upd_adap_def) (simp add: upd_client_def)
  next
    case False
    have "fwk_device_add pins bt c b = Some (- ER_EXISTED, b)" if "r = 0" using f that by (simp add: fwk_device_add_def Let_def)
    then show ?thesis using False p pr' del
      by (cases "i2c_addr_ok (bi_flags info) (bi_addr info)") (simp_all add: fwk_i2c_new_device_def ic_kfree_def, simp_all add: upd_client_def)
  qed
qed


text \<open>What holds of the bindings of the platform bus holds of those of the I2C bus.\<close>

lemma i2c_bus_step_inv: "bt b = i2c_bus ops drvs \<Longrightarrow> i2c.bus_inv ops b s \<Longrightarrow> bus_step pins bt b s s' \<Longrightarrow> i2c.bus_inv ops b s'"
  by (erule bus_stepE) (blast intro: i2c.add_inv i2c.del_inv i2c.register_inv i2c.unregister_inv i2c_serves)+

lemma i2c_bus_wellformed:
  assumes "bt b = i2c_bus ops drvs" and "b \<noteq> 0" and "bs_priv s b" and "bs_devices s b = []" and "bs_drivers s b = []" and "i2c_live ops s"
    and "(bus_step pins bt b)\<^sup>*\<^sup>* s s'"
  shows "bus_wf (i2c_fits s') (bus_view b s') \<and> set (bs_devices s' b) \<subseteq> set (sgrt_fwk_devices s')"
proof -
  have "i2c.bus_inv ops b s" using assms(2-6) by (simp add: i2c.bus_inv_def bus_wf_def)
  with assms(7) have "i2c.bus_inv ops b s'"
    by (induction rule: rtranclp_induct) (auto intro: i2c_bus_step_inv [where drvs = drvs and bt = bt and b = b, OF assms(1)])
  then show ?thesis by (simp add: i2c.bus_inv_def i2c_fits_eq)
qed

section \<open>Properties\<close>


definition demo_i2c :: "nat i2c_sys" where
  "demo_i2c = \<lparr>ic_bus = (demo_bus [] [0x700])\<lparr>
       bs_dev := (\<lambda>_. \<lparr>dv_init_name = Some [117, 0], dv_bus = 0, dv_type = 0, dv_driver = 0, dv_node = 0, dv_name = [0], dv_override = None, dv_irq = 0\<rparr>),
       bs_drv := (\<lambda>_. \<lparr>dd_name = [118, 0], dd_matches = 0, dd_of_match = [], dd_bus = sgrt_fwk_i2c_bus_type, dd_ids = Some [[116, 0]]\<rparr>)\<rparr>,
     ic_client = (\<lambda>_. \<lparr>cl_flags = 0, cl_addr = 0, cl_adapter = 0, cl_parent = 0\<rparr>),
     ic_adap = (\<lambda>_. \<lparr>ap_id = 0, ap_algo = 4, ap_timeout = 0, ap_nr = 0, ap_name = [97, 0], ap_clients = []\<rparr>),
     ic_pool = [0x5000], ic_freed = []\<rparr>"

definition demo_i2c_drvs :: "kuaddr_t \<Rightarrow> nat i2c_ops" where
  "demo_i2c_drvs _ = \<lparr>ip_probe = Some (\<lambda>_ _ n. (0, n + 1)), ip_remove = None\<rparr>"

definition demo_info :: i2c_board_info where
  "demo_info = \<lparr>bi_type = [116, 0], bi_flags = 0, bi_addr = 0x48, bi_node = 0, bi_irq = 0\<rparr>"


end
