(* ===== verification/Unflatten.thy ===== *)
theory Unflatten
  imports Device_Tree Mem_Simple "HOL-Library.Multiset"
begin

text \<open>
  Building the device tree from the flattened blob the boot loader leaves in memory (\<^verbatim>\<open>platform/of/fwk_of.c\<close>).

  A pointer into the blob is its distance from the start of the blob, a word, so that it wraps as the pointer does.
  The blob is walked twice: first with no list to link nodes into, to count the memory that the nodes need, with temporary nodes
  from the heap; then with the nodes laid out one after the other in one block.  Every node is a structure at an address;
  the fields that its properties fill are collected while they are read and stored when the node is complete.
  The guard word behind the block is left out: the code compares it at the very end, and returns either way.
  \<open>None\<close> is a read outside of the blob or a walk that never ends.
\<close>

section \<open>State\<close>

text \<open>
  \<^verbatim>\<open>allNext\<close>, the place the next node is linked into: null in the first walk, then the head of the list or
  the field of the node before.
\<close>

datatype next_ref = Next_Null | Next_Head | Next_Of kuaddr_t

text \<open>
  \<open>of_last\<close> is the field \<^verbatim>\<open>sprt_next\<close> of the nodes, their latest child while the tree is built.  \<open>fdt_mem\<close> is the memory
  from an address on, \<open>fdt_pool\<close> the addresses the heap hands out next, and \<open>fdt_freed\<close> those it got back.
\<close>

record fdt_sys = of_sys +
  of_last :: "kuaddr_t \<Rightarrow> kuaddr_t"
  ptr_fdt_memBuffer :: kuaddr_t
  fdt_mem :: "kuaddr_t \<Rightarrow> bytes"
  fdt_pool :: "kuaddr_t list"
  fdt_freed :: "kuaddr_t list"

definition FDT_MAGIC_VERIFY :: kuint32_t where "FDT_MAGIC_VERIFY = 0xd00dfeed"
definition FDT_NODE_START :: kuint32_t where "FDT_NODE_START = 1"
definition FDT_NODE_END :: kuint32_t where "FDT_NODE_END = 2"
definition FDT_NODE_PROP :: kuint32_t where "FDT_NODE_PROP = 3"
definition FDT_NODE_NOP :: kuint32_t where "FDT_NODE_NOP = 4"
definition FDT_ALL_NODE_END :: kuint32_t where "FDT_ALL_NODE_END = 9"

lemmas fdt_tags = FDT_NODE_START_def FDT_NODE_END_def FDT_NODE_PROP_def FDT_NODE_NOP_def FDT_ALL_NODE_END_def

text \<open>The sizes of the two structures on the 32-bit target, the offset of \<^verbatim>\<open>allnext\<close>, and their alignment.\<close>

definition NODE_SIZE :: kuint32_t where "NODE_SIZE = 52"
definition NODE_ALLNEXT :: kuint32_t where "NODE_ALLNEXT = 40"
definition PROP_SIZE :: kuint32_t where "PROP_SIZE = 16"
definition WORD_ALIGN :: kuint32_t where "WORD_ALIGN = 4"

definition fdt_word :: "bytes \<Rightarrow> kuint32_t \<Rightarrow> kuint32_t option" where
  "fdt_word blob mv = be32 blob (unat mv)"

definition FDT_PTR_MOVE_BYTE :: "kuaddr_t \<Rightarrow> kuint32_t \<Rightarrow> kuint32_t \<Rightarrow> kuint32_t" where
  "FDT_PTR_MOVE_BYTE bs mv len = mrt_align (bs + (mv + len)) 4 - bs"

definition next_valid :: "next_ref \<Rightarrow> bool" where
  "next_valid nxt = (case nxt of Next_Null \<Rightarrow> False | Next_Head \<Rightarrow> True | Next_Of n \<Rightarrow> isValid (n + NODE_ALLNEXT))"

definition upd_node :: "kuaddr_t \<Rightarrow> (device_node \<Rightarrow> device_node) \<Rightarrow> fdt_sys \<Rightarrow> fdt_sys" where
  "upd_node a f s = s\<lparr>of_nodes := (of_nodes s)(a := f (of_nodes s a))\<rparr>"

definition set_allnext :: "next_ref \<Rightarrow> kuaddr_t \<Rightarrow> fdt_sys \<Rightarrow> fdt_sys" where
  "set_allnext nxt a s =
     (case nxt of Next_Null \<Rightarrow> s | Next_Head \<Rightarrow> s\<lparr>sprt_fwk_of_allNodes := a\<rparr> | Next_Of n \<Rightarrow> upd_node n (\<lambda>d. d\<lparr>dn_allnext := a\<rparr>) s)"

section \<open>Memory\<close>

definition zero_node :: device_node where
  "zero_node = \<lparr>dn_name = [], dn_type = [], dn_phandle = 0, dn_full_name = [], dn_props = [], dn_parent = 0, dn_child = 0,
     dn_sibling = 0, dn_allnext = 0\<rparr>"

definition in_block :: "kuaddr_t \<Rightarrow> kuint32_t \<Rightarrow> kuaddr_t \<Rightarrow> bool" where
  "in_block a sz x \<longleftrightarrow> unat a \<le> unat x \<and> unat x < unat a + unat sz"

definition fdt_kzalloc :: "kuint32_t \<Rightarrow> fdt_sys \<Rightarrow> kuaddr_t \<times> fdt_sys" where
  "fdt_kzalloc sz s =
     (case fdt_pool s of
        [] \<Rightarrow> (0, s)
      | a # as \<Rightarrow>
          if a = 0 then (0, s\<lparr>fdt_pool := as\<rparr>)
          else (a, s\<lparr>fdt_pool := as, of_nodes := (\<lambda>x. if in_block a sz x then zero_node else of_nodes s x),
                     of_last := (\<lambda>x. if in_block a sz x then 0 else of_last s x)\<rparr>))"

definition fdt_kfree :: "kuaddr_t \<Rightarrow> fdt_sys \<Rightarrow> fdt_sys" where
  "fdt_kfree a s = s\<lparr>fdt_freed := a # fdt_freed s\<rparr>"

definition fwk_fdt_memory_calculate :: "kuaddr_t \<Rightarrow> kuint32_t \<Rightarrow> kuint32_t \<Rightarrow> kuaddr_t \<times> kuaddr_t" where
  "fwk_fdt_memory_calculate mem sz algn = (let res = mrt_align mem algn in (res, res + sz))"

definition fwk_fdt_memory_alloc :: "kuint32_t \<Rightarrow> kuint32_t \<Rightarrow> fdt_sys \<Rightarrow> kuaddr_t \<times> fdt_sys" where
  "fwk_fdt_memory_alloc sz algn s = fdt_kzalloc (mrt_align (0 + sz) algn) s"

section \<open>Properties\<close>

text \<open>What the properties fill of a node; both strings are null pointers in zeroed memory.\<close>

record of_fill =
  fl_name :: "bytes option"
  fl_type :: "bytes option"
  fl_phandle :: kuint32_t
  fl_props :: "of_property list"

text \<open>
  One property: the address of its structure (0 when there is none), the property, and the pointers, the flag and the fields
  as it leaves them.
\<close>

definition fwk_fdt_populate_properties :: "bytes \<Rightarrow> kuaddr_t \<Rightarrow> kuint32_t \<Rightarrow> kuaddr_t \<Rightarrow> next_ref \<Rightarrow> bool \<Rightarrow> of_fill \<Rightarrow>
    (kuaddr_t \<times> of_property \<times> kuint32_t \<times> kuaddr_t \<times> bool \<times> of_fill) option" where
  "fwk_fdt_populate_properties blob bs mv mem nxt has_name f =
     do { tag \<leftarrow> fdt_word blob mv;
          if tag \<noteq> FDT_NODE_PROP then Some (0, \<lparr>op_name = [], op_length = 0, op_value = []\<rparr>, mv, mem, has_name, f)
          else do {
            let mv = mv + 4;
            iPropLenth \<leftarrow> fdt_word blob mv;
            let mv = mv + 4;
            iPropOffset \<leftarrow> fdt_word blob mv;
            let mv = mv + 4;
            version \<leftarrow> fdt_word blob 20;
            let mv = (if version < 0x10 then mrt_align (bs + mv) (if iPropLenth \<ge> 8 then 8 else 4) - bs else mv);
            let ptr_value = drop (unat mv) blob;
            strings \<leftarrow> fdt_word blob 12;
            let ptr_name = drop (unat (strings + iPropOffset)) blob;
            _ \<leftarrow> get_string_lenth ptr_name;
            let has_name = (if cstr (lit ''name'') = cstr ptr_name then True else has_name);
            let (sprt_prop, mem) = fwk_fdt_memory_calculate mem PROP_SIZE WORD_ALIGN;
            let p = \<lparr>op_name = ptr_name, op_length = iPropLenth, op_value = ptr_value\<rparr>;
            f \<leftarrow> (if \<not> next_valid nxt then Some f
                   else if cstr (lit ''name'') = cstr (op_name p) then Some (f\<lparr>fl_name := Some (op_value p)\<rparr>)
                   else if cstr (lit ''device_type'') = cstr (op_name p) then Some (f\<lparr>fl_type := Some (op_value p)\<rparr>)
                   else if cstr (lit ''phandle'') = cstr (op_name p)
                   then do { h \<leftarrow> be32 (op_value p) 0; Some (f\<lparr>fl_phandle := h\<rparr>) }
                   else Some f);
            let mv = FDT_PTR_MOVE_BYTE bs mv iPropLenth;
            _ \<leftarrow> fdt_word blob mv;
            Some (sprt_prop, p, mv, mem, has_name, f) } }"

text \<open>The value of the new property lies behind its structure.\<close>

definition fwk_fdt_add_string_properties ::
  "kuaddr_t \<Rightarrow> bytes \<Rightarrow> bytes \<Rightarrow> nat \<Rightarrow> next_ref \<Rightarrow> of_fill \<Rightarrow> kuaddr_t \<times> of_property \<times> kuaddr_t \<times> of_fill" where
  "fwk_fdt_add_string_properties mem nm val sz nxt f =
     (let (sprt_prop, mem) = fwk_fdt_memory_calculate mem (PROP_SIZE + of_nat sz) WORD_ALIGN;
          p = \<lparr>op_name = nm, op_length = of_nat sz, op_value = take (sz - 1) val @ [0]\<rparr>;
          f = (if \<not> next_valid nxt then f
               else if cstr (lit ''name'') = cstr nm then f\<lparr>fl_name := Some (op_value p)\<rparr>
               else if cstr (lit ''device_type'') = cstr nm then f\<lparr>fl_type := Some (op_value p)\<rparr>
               else f)
      in (sprt_prop, p, mem, f))"

section \<open>One node\<close>

partial_function (option) populate_props_loop :: "bytes \<Rightarrow> kuaddr_t \<Rightarrow> kuint32_t \<Rightarrow> kuaddr_t \<Rightarrow> next_ref \<Rightarrow> bool \<Rightarrow> of_fill \<Rightarrow>
    (kuint32_t \<times> kuaddr_t \<times> bool \<times> of_fill) option" where
  "populate_props_loop blob bs mv mem nxt has_name f =
     (case fdt_word blob mv of
        None \<Rightarrow> None
      | Some tag \<Rightarrow>
          if tag = FDT_NODE_NOP then populate_props_loop blob bs (mv + 4) mem nxt has_name f
          else case fwk_fdt_populate_properties blob bs mv mem nxt has_name f of
                 None \<Rightarrow> None
               | Some (sprt_prop, p, mv, mem, has_name, f) \<Rightarrow>
                   if \<not> isValid sprt_prop then Some (mv, mem, has_name, f)
                   else populate_props_loop blob bs mv mem nxt has_name
                          (if next_valid nxt then f\<lparr>fl_props := fl_props f @ [p]\<rparr> else f))"

text \<open>The scan of the full name: the positions of its end, of the character after the last slash and of the last at sign.\<close>

fun name_scan :: "bytes \<Rightarrow> nat \<Rightarrow> nat \<Rightarrow> nat option \<Rightarrow> (nat \<times> nat \<times> nat option) option" where
  "name_scan [] ptr_1 ptr_2 ptr_3 = None"
| "name_scan (c # cs) ptr_1 ptr_2 ptr_3 =
     (if c = 0 then Some (ptr_1, ptr_2, ptr_3)
      else name_scan cs (ptr_1 + 1) (if c = 47 then ptr_1 + 1 else ptr_2) (if c = 64 then Some ptr_1 else ptr_3))"

definition name_end :: "nat \<Rightarrow> nat \<Rightarrow> nat option \<Rightarrow> nat" where
  "name_end ptr_1 ptr_2 ptr_3 = (case ptr_3 of None \<Rightarrow> ptr_1 | Some q \<Rightarrow> if q < ptr_2 then ptr_1 else q)"

definition populate_name :: "bytes \<Rightarrow> kuaddr_t \<Rightarrow> next_ref \<Rightarrow> of_fill \<Rightarrow> (kuaddr_t \<times> of_fill) option" where
  "populate_name full mem nxt f =
     do { (ptr_1, ptr_2, ptr_3) \<leftarrow> name_scan full 0 0 None;
          let ptr_3 = name_end ptr_1 ptr_2 ptr_3;
          let (sprt_prop, p, mem, f) = fwk_fdt_add_string_properties mem (lit ''name'') (drop ptr_2 full) (ptr_3 + 1 - ptr_2) nxt f;
          Some (mem, if isValid sprt_prop \<and> next_valid nxt then f\<lparr>fl_props := fl_props f @ [p]\<rparr> else f) }"

text \<open>The properties of a node, and the name it gets when none of them is called so.\<close>

definition populate_fill :: "bytes \<Rightarrow> kuaddr_t \<Rightarrow> bytes \<Rightarrow> kuint32_t \<Rightarrow> kuaddr_t \<Rightarrow> next_ref \<Rightarrow> (kuint32_t \<times> kuaddr_t \<times> of_fill) option" where
  "populate_fill blob bs full mv mem nxt =
     do { (mv, mem, has_name, f) \<leftarrow> populate_props_loop blob bs mv mem nxt False
            \<lparr>fl_name = None, fl_type = None, fl_phandle = - 1, fl_props = []\<rparr>;
          (mem, f) \<leftarrow> (if has_name then Some (mem, f) else populate_name full mem nxt f);
          Some (mv, mem, f) }"

text \<open>
  The name in the blob: its length with the terminator, the memory for the full name, and whether the full name is put together
  from the parent's.  The name of the root is overwritten in the blob.
\<close>

definition populate_path :: "kuaddr_t \<Rightarrow> fdt_sys \<Rightarrow> kuint32_t \<Rightarrow> kuaddr_t \<Rightarrow> (fdt_sys \<times> nat \<times> nat \<times> bool) option" where
  "populate_path bs s mv par =
     (let blob = fdt_mem s bs
      in do { n \<leftarrow> get_string_lenth (drop (unat mv) blob);
              if blob ! unat mv = 47 then Some (s, n + 1, n + 1, False)
              else if \<not> isValid par
              then Some (s\<lparr>fdt_mem := (fdt_mem s)(bs := blob[unat mv := 0])\<rparr>, 1, 2, True)
              else do { l \<leftarrow> get_string_lenth (dn_full_name (of_nodes s par)); Some (s, n + 1, n + 1 + 1 + l, True) } })"

definition populate_full_name :: "fdt_sys \<Rightarrow> kuaddr_t \<Rightarrow> bool \<Rightarrow> bytes \<Rightarrow> nat \<Rightarrow> bytes" where
  "populate_full_name s par new_format path ipathLenth =
     (if new_format
      then (if isValid par \<and> isValid (dn_parent (of_nodes s par)) then cstr (dn_full_name (of_nodes s par)) else []) @ [47]
      else []) @ take ipathLenth path"

text \<open>The parent's pointer to its first child, or the pointer of the child before to its sibling.\<close>

definition link_child :: "kuaddr_t \<Rightarrow> kuaddr_t \<Rightarrow> fdt_sys \<Rightarrow> fdt_sys" where
  "link_child par a s =
     (let s = (if \<not> isValid (of_last s par) then upd_node par (\<lambda>d. d\<lparr>dn_child := a\<rparr>) s
               else upd_node (of_last s par) (\<lambda>d. d\<lparr>dn_sibling := a\<rparr>) s)
      in s\<lparr>of_last := (of_last s)(par := a)\<rparr>)"

text \<open>The address of the node (0 when there is none), the state, the pointers and the place for the next node.\<close>

definition fwk_fdt_populate_node :: "kuaddr_t \<Rightarrow> fdt_sys \<Rightarrow> kuint32_t \<Rightarrow> kuaddr_t \<Rightarrow> kuaddr_t \<Rightarrow> next_ref \<Rightarrow>
    (kuaddr_t \<times> fdt_sys \<times> kuint32_t \<times> kuaddr_t \<times> next_ref) option" where
  "fwk_fdt_populate_node bs s mv mem par nxt =
     do { tag \<leftarrow> fdt_word (fdt_mem s bs) mv;
          if tag \<noteq> FDT_NODE_START then Some (0, s, mv, mem, nxt)
          else do {
            (s, ipathLenth, iLenthNeed, new_format) \<leftarrow> populate_path bs s (mv + 4) par;
            let (node, mem') = fwk_fdt_memory_calculate mem (NODE_SIZE + of_nat iLenthNeed) WORD_ALIGN;
            let (node, s, nxt') = (if next_valid nxt then (node, set_allnext nxt node s, Next_Of node)
                                   else let (node, s) = fdt_kzalloc (NODE_SIZE + of_nat iLenthNeed) s in (node, s, nxt));
            if \<not> next_valid nxt \<and> \<not> isValid node then Some (0, s, mv, mem, nxt)
            else do {
              let blob = fdt_mem s bs;
              let full = populate_full_name s par new_format (drop (unat (mv + 4)) blob) ipathLenth;
              let s = upd_node node (\<lambda>d. d\<lparr>dn_full_name := full, dn_parent := par, dn_phandle := - 1\<rparr>) s;
              let s = (if isValid par \<and> next_valid nxt' then link_child par node s else s);
              (mv, mem, f) \<leftarrow> populate_fill blob bs full (FDT_PTR_MOVE_BYTE bs (mv + 4) (of_nat ipathLenth)) mem' nxt';
              let s = (if next_valid nxt'
                       then upd_node node (\<lambda>d. d\<lparr>dn_name := (case fl_name f of None \<Rightarrow> lit ''<null>'' | Some b \<Rightarrow> b),
                                                dn_type := (case fl_type f of None \<Rightarrow> lit ''<null>'' | Some b \<Rightarrow> b),
                                                dn_phandle := fl_phandle f, dn_props := fl_props f\<rparr>) s
                       else s);
              Some (node, s, mv, mem, nxt') } } }"

section \<open>All nodes\<close>

text \<open>The end of a node: back to its parent, and in the first walk the temporary node is released.\<close>

definition node_end :: "kuaddr_t \<Rightarrow> next_ref \<Rightarrow> fdt_sys \<Rightarrow> kuaddr_t \<times> fdt_sys" where
  "node_end lst nxt s =
     (if isValid lst
      then (dn_parent (of_nodes s lst), if \<not> next_valid nxt then fdt_kfree lst s else s)
      else (lst, s))"

partial_function (option) free_nodes :: "kuaddr_t \<Rightarrow> fdt_sys \<Rightarrow> fdt_sys option" where
  "free_nodes lst s = (if isValid lst then free_nodes (dn_parent (of_nodes s lst)) (fdt_kfree lst s) else Some s)"

partial_function (option) unflatten_loop :: "kuaddr_t \<Rightarrow> fdt_sys \<Rightarrow> kuint32_t \<Rightarrow> kuaddr_t \<Rightarrow> kuaddr_t \<Rightarrow> next_ref \<Rightarrow>
    (kuaddr_t \<times> fdt_sys) option" where
  "unflatten_loop bs s mv mem lst nxt =
     (case fdt_word (fdt_mem s bs) mv of
        None \<Rightarrow> None
      | Some tag \<Rightarrow>
          if tag = FDT_NODE_NOP then unflatten_loop bs s (mv + 4) mem lst nxt
          else if tag = FDT_NODE_END
          then unflatten_loop bs (snd (node_end lst nxt s)) (mv + 4) mem (fst (node_end lst nxt s)) nxt
          else if tag = FDT_ALL_NODE_END then Some (mem, s)
          else case fwk_fdt_populate_node bs s mv mem lst nxt of
                 None \<Rightarrow> None
               | Some (node, s, mv, mem, nxt) \<Rightarrow>
                   if \<not> isValid node \<and> \<not> next_valid nxt then map_option (Pair 0) (free_nodes lst s)
                   else unflatten_loop bs s mv mem node nxt)"

definition fwk_unflatten_dt_nodes :: "kuaddr_t \<Rightarrow> kuaddr_t \<Rightarrow> kuint32_t \<Rightarrow> next_ref \<Rightarrow> fdt_sys \<Rightarrow> (kuaddr_t \<times> fdt_sys) option" where
  "fwk_unflatten_dt_nodes bs mem start nxt s =
     (if \<not> isValid bs then Some (mem, s)
      else do { tag \<leftarrow> fdt_word (fdt_mem s bs) start;
                if tag \<noteq> FDT_NODE_START then Some (mem, s) else unflatten_loop bs s start mem 0 nxt })"

definition unflatten_device_tree_blob :: "kuaddr_t \<Rightarrow> fdt_sys \<Rightarrow> fdt_sys option" where
  "unflatten_device_tree_blob bs s =
     (if \<not> isValid bs then Some s
      else do {
        magic \<leftarrow> fdt_word (fdt_mem s bs) 0;
        if magic \<noteq> FDT_MAGIC_VERIFY then Some s
        else do {
          start \<leftarrow> fdt_word (fdt_mem s bs) 8;
          (sz, s) \<leftarrow> fwk_unflatten_dt_nodes bs 0 start Next_Null s;
          let sz = mrt_align sz 4;
          if sz = 0 then Some s
          else let (dt_mem, s) = fwk_fdt_memory_alloc (sz + 4) WORD_ALIGN s
               in if \<not> isValid dt_mem then Some s
                  else do {
                    start \<leftarrow> fdt_word (fdt_mem s bs) 8;
                    (_, s) \<leftarrow> fwk_unflatten_dt_nodes bs dt_mem start Next_Head s;
                    Some s } } })"

definition fwk_unflatten_device_tree :: "fdt_sys \<Rightarrow> fdt_sys option" where
  "fwk_unflatten_device_tree s = unflatten_device_tree_blob (ptr_fdt_memBuffer s) s"

definition fwk_early_init_dt_verify :: "kuaddr_t \<Rightarrow> fdt_sys \<Rightarrow> bool option" where
  "fwk_early_init_dt_verify ptr_dt s = map_option (\<lambda>magic. FDT_MAGIC_VERIFY = magic) (fdt_word (fdt_mem s ptr_dt) 0)"

definition fwk_early_init_dt_params :: "kuaddr_t \<Rightarrow> fdt_sys \<Rightarrow> fdt_sys" where
  "fwk_early_init_dt_params ptr_dt s =
     (let s = (if \<not> isValid (ptr_fdt_memBuffer s) then s\<lparr>ptr_fdt_memBuffer := ptr_dt\<rparr> else s)
      in s\<lparr>sprt_fwk_of_allNodes := 0\<rparr>)"

definition setup_machine_fdt :: "kuaddr_t \<Rightarrow> fdt_sys \<Rightarrow> fdt_sys option" where
  "setup_machine_fdt ptr s =
     (if \<not> isValid ptr then Some s
      else do { ok \<leftarrow> fwk_early_init_dt_verify ptr s;
                if \<not> ok then Some s else fwk_unflatten_device_tree (fwk_early_init_dt_params ptr s) })"

definition destroy_machine_fdt :: "fdt_sys \<Rightarrow> fdt_sys" where
  "destroy_machine_fdt s =
     (if isValid (sprt_fwk_of_allNodes s) then (fdt_kfree (sprt_fwk_of_allNodes s) s)\<lparr>sprt_fwk_of_allNodes := 0\<rparr> else s)"

text \<open>
  The address of the blob is kept from the first set-up: a second one checks the blob it is given and then builds the first one again.
\<close>

lemma second_setup_old_blob:
  assumes "isValid bs" "fwk_early_init_dt_verify bs s = Some True" "isValid (ptr_fdt_memBuffer s)"
  shows "setup_machine_fdt bs s = unflatten_device_tree_blob (ptr_fdt_memBuffer s) (s\<lparr>sprt_fwk_of_allNodes := 0\<rparr>)"
  using assms by (simp add: setup_machine_fdt_def fwk_early_init_dt_params_def fwk_unflatten_device_tree_def)

section \<open>Flattened trees\<close>

text \<open>
  A tree as a device tree source describes it, with the names of properties given by their offsets in the block of strings,
  and the structure block a compiler writes for it.
\<close>

datatype fdt_tree = Fdt_Node (ft_name: bytes) (ft_props: "(kuint32_t \<times> bytes) list") (ft_children: "fdt_tree list")

definition up4 :: "nat \<Rightarrow> nat" where
  "up4 n = (n + 3) div 4 * 4"

definition pad4 :: "bytes \<Rightarrow> bytes" where
  "pad4 b = b @ replicate (up4 (length b) - length b) 0"

definition flat_prop :: "kuint32_t \<times> bytes \<Rightarrow> bytes" where
  "flat_prop p = be_bytes32 FDT_NODE_PROP @ be_bytes32 (of_nat (length (snd p))) @ be_bytes32 (fst p) @ pad4 (snd p)"

fun flat_tree :: "fdt_tree \<Rightarrow> bytes" where
  "flat_tree (Fdt_Node nm ps cs) =
     be_bytes32 FDT_NODE_START @ pad4 (nm @ [0]) @ concat (map flat_prop ps) @ concat (map flat_tree cs) @ be_bytes32 FDT_NODE_END"
section \<open>Positions in the blob\<close>

definition at_blob :: "bytes \<Rightarrow> nat \<Rightarrow> bytes \<Rightarrow> bool" where
  "at_blob blob k x \<longleftrightarrow> k + length x \<le> length blob \<and> take (length x) (drop k blob) = x"

definition fdt_ok :: "kuaddr_t \<Rightarrow> bytes \<Rightarrow> kuint32_t \<Rightarrow> bool" where
  "fdt_ok bs blob ss \<longleftrightarrow> unat bs mod 4 = 0 \<and> unat bs + length blob + 3 < 2 ^ 32 \<and> fdt_word blob 12 = Some ss \<and>
     (case fdt_word blob 20 of None \<Rightarrow> False | Some v \<Rightarrow> 0x10 \<le> v)"

lemma at_blob_append: "at_blob blob k (x @ y) \<longleftrightarrow> at_blob blob k x \<and> at_blob blob (k + length x) y"
  by (auto simp: at_blob_def take_add add.commute add.assoc)

lemma at_blob_drop: "at_blob blob k x \<Longrightarrow> \<exists>r. drop k blob = x @ r"
  unfolding at_blob_def by (metis append_take_drop_id)

lemma at_blob_le: "at_blob blob k x \<Longrightarrow> k + length x \<le> length blob"
  by (simp add: at_blob_def)

lemma fdt_word_at:
  assumes "at_blob blob k (be_bytes32 v)" and "length blob < 2 ^ 32"
  shows "fdt_word blob (of_nat k) = Some v"
proof -
  obtain r where r: "drop k blob = be_bytes32 v @ r" using at_blob_drop [OF assms(1)] by blast
  have k: "k + 4 \<le> length blob" using assms(1) by (simp add: at_blob_def)
  then have "unat (of_nat k :: kuint32_t) = k" using assms(2) by (intro unat_of_nat_small) simp
  moreover have "be32 blob k = be32 (drop k blob) 0"
    using be32_drop [of "take k blob" "drop k blob" 0] k by simp
  ultimately show ?thesis using r be32_be_bytes32 by (simp add: fdt_word_def)
qed

lemma up4_mod [simp]: "up4 n mod 4 = 0"
  by (simp add: up4_def)

lemma up4_ge: "n \<le> up4 n"
  unfolding up4_def by presburger

lemma up4_pos: "0 < n \<Longrightarrow> 0 < up4 n"
  using up4_ge [of n] by linarith

lemma up4_add: "k mod 4 = 0 \<Longrightarrow> up4 (k + n) = k + up4 n"
  unfolding up4_def by presburger

lemma up4_mono: "m \<le> n \<Longrightarrow> up4 m \<le> up4 n"
  unfolding up4_def by (simp add: div_le_mono)

lemma up4_id: "n mod 4 = 0 \<Longrightarrow> up4 n = n"
  unfolding up4_def by presburger

lemma length_pad4 [simp]: "length (pad4 b) = up4 (length b)"
  by (simp add: pad4_def up4_ge)

lemma unat_align4:
  assumes "n + 3 < 2 ^ 32"
  shows "mrt_align (of_nat n) 4 = of_nat (up4 n)"
proof -
  have "n + 3 < (2 :: nat) ^ 32" by (fact assms)
  then have "unat (mrt_align (of_nat n) 4) = up4 n"
    using unat_mrt_align [of 2 "of_nat n"] unat_of_nat_small [of n] by (simp add: up4_def)
  then show ?thesis by (metis of_nat_unat ucast_id)
qed

lemma move_byte:
  assumes "fdt_ok bs blob ss" and "k mod 4 = 0" and "k + up4 n \<le> length blob"
  shows "FDT_PTR_MOVE_BYTE bs (of_nat k) (of_nat n) = of_nat (k + up4 n)"
proof -
  have b: "unat bs mod 4 = 0" "unat bs + length blob + 3 < 2 ^ 32" using assms(1) by (simp_all add: fdt_ok_def)
  have "n \<le> up4 n" by (rule up4_ge)
  then have "unat bs + k + n + 3 < 2 ^ 32" using assms(3) b(2) by linarith
  then have "mrt_align (of_nat (unat bs + k + n)) 4 = of_nat (up4 (unat bs + k + n))" by (rule unat_align4)
  moreover have "up4 (unat bs + k + n) = unat bs + (k + up4 n)"
    using up4_add [of "unat bs + k" n] b(1) assms(2) by presburger
  moreover have "bs + (of_nat k + of_nat n) = of_nat (unat bs + k + n)" by (simp add: add.assoc)
  moreover have "of_nat (unat bs + (k + up4 n)) - bs = of_nat (k + up4 n)" by simp
  ultimately show ?thesis unfolding FDT_PTR_MOVE_BYTE_def by metis
qed

lemma calculate_at:
  "m + 3 < 2 ^ 32 \<Longrightarrow> fwk_fdt_memory_calculate (of_nat m) (of_nat sz) WORD_ALIGN = (of_nat (up4 m), of_nat (up4 m + sz))"
  by (simp add: fwk_fdt_memory_calculate_def WORD_ALIGN_def unat_align4 Let_def)

section \<open>Reading the properties of a node\<close>

definition prop_name :: "bytes \<Rightarrow> kuint32_t \<Rightarrow> kuint32_t \<times> bytes \<Rightarrow> bytes" where
  "prop_name blob ss p = drop (unat (ss + fst p)) blob"

definition prop_called :: "bytes \<Rightarrow> kuint32_t \<Rightarrow> string \<Rightarrow> kuint32_t \<times> bytes \<Rightarrow> bool" where
  "prop_called blob ss nm p \<longleftrightarrow> cstr (lit nm) = cstr (prop_name blob ss p)"

definition props_ok :: "bytes \<Rightarrow> kuint32_t \<Rightarrow> (kuint32_t \<times> bytes) list \<Rightarrow> bool" where
  "props_ok blob ss ps \<longleftrightarrow> (\<forall>p \<in> set ps. get_string_lenth (prop_name blob ss p) \<noteq> None)"

text \<open>The structures for properties that start at position \<open>k\<close>, and the memory behind them.\<close>

definition blob_prop :: "bytes \<Rightarrow> kuint32_t \<Rightarrow> nat \<Rightarrow> kuint32_t \<times> bytes \<Rightarrow> of_property" where
  "blob_prop blob ss k p =
     \<lparr>op_name = prop_name blob ss p, op_length = of_nat (length (snd p)), op_value = drop (k + 12) blob\<rparr>"

fun blob_props :: "bytes \<Rightarrow> kuint32_t \<Rightarrow> nat \<Rightarrow> (kuint32_t \<times> bytes) list \<Rightarrow> of_property list" where
  "blob_props blob ss k [] = []"
| "blob_props blob ss k (p # ps) =
     blob_prop blob ss k p # blob_props blob ss (k + 12 + up4 (length (snd p))) ps"

fun lay_props :: "nat \<Rightarrow> nat \<Rightarrow> nat" where
  "lay_props m 0 = m"
| "lay_props m (Suc n) = lay_props (up4 m + 16) n"

definition fill_prop :: "of_fill \<Rightarrow> of_property \<Rightarrow> of_fill" where
  "fill_prop f p =
     (let f = (if cstr (lit ''name'') = cstr (op_name p) then f\<lparr>fl_name := Some (op_value p)\<rparr>
               else if cstr (lit ''device_type'') = cstr (op_name p) then f\<lparr>fl_type := Some (op_value p)\<rparr>
               else if cstr (lit ''phandle'') = cstr (op_name p)
               then (case be32 (op_value p) 0 of None \<Rightarrow> f | Some h \<Rightarrow> f\<lparr>fl_phandle := h\<rparr>)
               else f)
      in f\<lparr>fl_props := fl_props f @ [p]\<rparr>)"

lemma lay_props_ge: "m \<le> lay_props m n"
proof (induction n arbitrary: m)
  case (Suc n)
  have "m \<le> up4 m + 16" using up4_ge [of m] by linarith
  then show ?case using Suc [of "up4 m + 16"] by simp
qed simp

lemma be32_some: "4 \<le> length b \<Longrightarrow> \<exists>h. be32 b 0 = Some h"
  by (simp add: be32_def load32_def)

lemma length_flat_prop [simp]: "length (flat_prop p) = 12 + up4 (length (snd p))"
  by (simp add: flat_prop_def)

lemma populate_prop:
  assumes ok: "fdt_ok bs blob ss" and b: "at_blob blob k (flat_prop p @ be_bytes32 tag)" and k: "k mod 4 = 0"
    and nm: "get_string_lenth (prop_name blob ss p) \<noteq> None" and m: "m + 3 < 2 ^ 32"
  shows "\<exists>f'. fwk_fdt_populate_properties blob bs (of_nat k) (of_nat m) nxt has_name f =
           Some (of_nat (up4 m), blob_prop blob ss k p, of_nat (k + 12 + up4 (length (snd p))), of_nat (up4 m + 16),
                 has_name \<or> prop_called blob ss ''name'' p, f') \<and>
         (if next_valid nxt then f'\<lparr>fl_props := fl_props f' @ [blob_prop blob ss k p]\<rparr> else f') =
         (if next_valid nxt then fill_prop f (blob_prop blob ss k p) else f)"
proof -
  let ?n = "length (snd p)"
  have l: "length blob < 2 ^ 32" using ok by (simp add: fdt_ok_def)
  have parts: "at_blob blob k (be_bytes32 FDT_NODE_PROP)" "at_blob blob (k + 4) (be_bytes32 (of_nat ?n))"
      "at_blob blob (k + 8) (be_bytes32 (fst p))" "at_blob blob (k + 12 + up4 ?n) (be_bytes32 tag)"
    using b by (simp_all add: flat_prop_def at_blob_append add.assoc)
  have w: "fdt_word blob (of_nat k) = Some FDT_NODE_PROP" "fdt_word blob (of_nat k + 4) = Some (of_nat ?n)"
      "fdt_word blob (of_nat k + 8) = Some (fst p)" "fdt_word blob (of_nat (k + 12 + up4 ?n)) = Some tag"
    using parts [THEN fdt_word_at [OF _ l]] by (simp_all add: add.commute)
  have e: "k + 12 + up4 ?n + 4 \<le> length blob" using at_blob_le [OF parts(4)] by simp
  have u: "unat (of_nat k + 12 :: kuint32_t) = k + 12"
    using unat_of_nat_small [of "k + 12"] e l by (simp add: add.commute)
  have mv: "FDT_PTR_MOVE_BYTE bs (of_nat k + 12) (of_nat ?n) = of_nat (k + 12 + up4 ?n)"
    using move_byte [OF ok, of "k + 12" ?n] k e by (simp add: add.commute mod_add_eq [symmetric])
  obtain h where h: "be32 (drop (k + 12) blob) 0 = Some h" using be32_some [of "drop (k + 12) blob"] e by fastforce
  obtain v where v: "fdt_word blob 20 = Some v" "\<not> v < 0x10" "fdt_word blob 12 = Some ss"
    using ok by (auto simp: fdt_ok_def split: option.splits)
  obtain n where n: "get_string_lenth (drop (unat (ss + fst p)) blob) = Some n" using nm by (auto simp: prop_name_def)
  have c: "fwk_fdt_memory_calculate (of_nat m) PROP_SIZE WORD_ALIGN = (of_nat (up4 m), of_nat (up4 m + 16))"
    using calculate_at [OF m, of 16] by (simp add: PROP_SIZE_def)
  show ?thesis
    using w u mv h v n c
    by (auto simp: fwk_fdt_populate_properties_def fill_prop_def blob_prop_def prop_called_def prop_name_def Let_def add.assoc)
qed

lemma props_split: "concat (map flat_prop (p # ps)) @ x = flat_prop p @ (concat (map flat_prop ps) @ x)"
  by simp

lemma props_head: "\<exists>tag y. concat (map flat_prop ps) @ be_bytes32 t = be_bytes32 tag @ y \<and> (tag = FDT_NODE_PROP \<or> tag = t)"
proof (cases ps)
  case (Cons p qs)
  then show ?thesis by (auto simp: flat_prop_def)
qed auto

lemma populate_props:
  assumes ok: "fdt_ok bs blob ss" and b: "at_blob blob k (concat (map flat_prop ps) @ be_bytes32 tag)"
    and k: "k mod 4 = 0" and nm: "props_ok blob ss ps" and t: "tag \<noteq> FDT_NODE_PROP" "tag \<noteq> FDT_NODE_NOP"
    and m: "0 < m" "lay_props m (length ps) < POOL_LIMIT"
  shows "populate_props_loop blob bs (of_nat k) (of_nat m) nxt has_name f =
     Some (of_nat (k + length (concat (map flat_prop ps))), of_nat (lay_props m (length ps)),
           has_name \<or> (\<exists>p \<in> set ps. prop_called blob ss ''name'' p),
           if next_valid nxt then foldl fill_prop f (blob_props blob ss k ps) else f)"
  using b k nm m
proof (induction ps arbitrary: k m has_name f)
  case Nil
  have l: "length blob < 2 ^ 32" using ok by (simp add: fdt_ok_def)
  then have w: "fdt_word blob (of_nat k) = Some tag" using Nil.prems(1) by (intro fdt_word_at) simp_all
  then have "fwk_fdt_populate_properties blob bs (of_nat k) (of_nat m) nxt has_name f =
      Some (0, \<lparr>op_name = [], op_length = 0, op_value = []\<rparr>, of_nat k, of_nat m, has_name, f)"
    using t(1) by (simp add: fwk_fdt_populate_properties_def)
  then show ?case using w t(2) by (subst populate_props_loop.simps) simp
next
  case (Cons p ps)
  let ?k = "k + 12 + up4 (length (snd p))" and ?p = "blob_prop blob ss k p"
  have l: "length blob < 2 ^ 32" using ok by (simp add: fdt_ok_def)
  obtain tg y where y: "concat (map flat_prop ps) @ be_bytes32 tag = be_bytes32 tg @ y" using props_head by metis
  have at: "at_blob blob k (flat_prop p)" "at_blob blob ?k (concat (map flat_prop ps) @ be_bytes32 tag)"
    using Cons.prems(1) unfolding props_split at_blob_append by (simp_all add: add.assoc)
  then have at1: "at_blob blob k (flat_prop p @ be_bytes32 tg)" unfolding y at_blob_append by (simp add: add.assoc)
  have w: "fdt_word blob (of_nat k) = Some FDT_NODE_PROP"
    using at(1) by (intro fdt_word_at [OF _ l]) (simp add: flat_prop_def at_blob_append)
  have "m \<le> up4 m" by (rule up4_ge)
  moreover have "up4 m + 16 < POOL_LIMIT" using Cons.prems(5) lay_props_ge [of "up4 m + 16" "length ps"] by simp
  ultimately have m: "up4 m + 16 < POOL_LIMIT" "m < POOL_LIMIT" "m \<le> up4 m" by linarith+
  then have v: "isValid (of_nat (up4 m))" using Cons.prems(4) by (intro isValid_of_nat) (simp_all add: up4_pos)
  have m3: "m + 3 < 2 ^ 32" using m(2) by (simp add: POOL_LIMIT_def)
  have nm: "get_string_lenth (prop_name blob ss p) \<noteq> None" "props_ok blob ss ps" using Cons.prems(3) by (simp_all add: props_ok_def)
  obtain f' where f': "fwk_fdt_populate_properties blob bs (of_nat k) (of_nat m) nxt has_name f =
           Some (of_nat (up4 m), ?p, of_nat ?k, of_nat (up4 m + 16), has_name \<or> prop_called blob ss ''name'' p, f')"
      "(if next_valid nxt then f'\<lparr>fl_props := fl_props f' @ [?p]\<rparr> else f') = (if next_valid nxt then fill_prop f ?p else f)"
    using populate_prop [OF ok at1 Cons.prems(2) nm(1) m3, of nxt has_name f] by blast
  have "populate_props_loop blob bs (of_nat k) (of_nat m) nxt has_name f =
      populate_props_loop blob bs (of_nat ?k) (of_nat (up4 m + 16)) nxt (has_name \<or> prop_called blob ss ''name'' p)
        (if next_valid nxt then fill_prop f ?p else f)"
    using w v f'(1) unfolding f'(2) [symmetric]
    by (subst populate_props_loop.simps) (simp add: fdt_tags del: of_nat_add blob_props.simps)
  moreover have "?k mod 4 = 0" using Cons.prems(2) up4_mod [of "length (snd p)"] by presburger
  ultimately show ?case
    using Cons.IH [OF at(2) _ nm(2), of "up4 m + 16" "has_name \<or> prop_called blob ss ''name'' p" "if next_valid nxt then fill_prop f ?p else f"] Cons.prems(5)
    by (simp add: add.assoc disj_assoc)
qed

section \<open>The name of a node\<close>

text \<open>The name without the unit address: everything before the last at sign.\<close>

fun unit_name :: "bytes \<Rightarrow> bytes" where
  "unit_name [] = []"
| "unit_name (c # cs) = (if 64 \<in> set cs then c # unit_name cs else if c = 64 then [] else c # cs)"

lemma take_unit_name: "take (length (unit_name nm)) (nm @ r) = unit_name nm"
  by (induction nm) auto

lemma unit_name_id: "64 \<notin> set nm \<Longrightarrow> unit_name nm = nm"
  by (induction nm) auto

lemma name_scan_prefix:
  "0 \<notin> set xs \<Longrightarrow> \<exists>p p'. name_scan (xs @ ys) i p2 p3 = name_scan ys (i + length xs) p p' \<and>
     (p' = p3 \<or> (\<exists>q < i + length xs. p' = Some q))"
proof (induction xs arbitrary: i p2 p3)
  case (Cons c xs)
  obtain p p' where p: "name_scan (xs @ ys) (i + 1) (if c = 47 then i + 1 else p2) (if c = 64 then Some i else p3) =
      name_scan ys (i + 1 + length xs) p p'"
    "p' = (if c = 64 then Some i else p3) \<or> (\<exists>q < i + 1 + length xs. p' = Some q)"
    using Cons.IH [of "i + 1" "if c = 47 then i + 1 else p2" "if c = 64 then Some i else p3"] Cons.prems by auto
  then show ?case using Cons.prems by (intro exI [of _ p] exI [of _ p']) (auto split: if_splits)
qed auto

lemma name_scan_last:
  "0 \<notin> set nm \<Longrightarrow> 47 \<notin> set nm \<Longrightarrow>
   name_scan (nm @ [0]) i p2 p3 = Some (i + length nm, p2, if 64 \<in> set nm then Some (i + length (unit_name nm)) else p3)"
  by (induction nm arbitrary: i p3) (auto simp: unit_name_id)

lemma populate_name_at:
  assumes "0 \<notin> set pre" "0 \<notin> set nm" "47 \<notin> set nm" and m: "0 < m" "up4 m < POOL_LIMIT"
  shows "populate_name (pre @ 47 # nm @ [0]) (of_nat m) nxt f =
     Some (of_nat (up4 m + 17 + length (unit_name nm)),
           if next_valid nxt
           then f\<lparr>fl_name := Some (unit_name nm @ [0]),
                  fl_props := fl_props f @ [\<lparr>op_name = lit ''name'', op_length = of_nat (length (unit_name nm) + 1),
                                             op_value = unit_name nm @ [0]\<rparr>]\<rparr>
           else f)"
proof -
  let ?u = "length (unit_name nm)" and ?i = "length pre + 1"
  obtain p p' where p: "name_scan (pre @ 47 # nm @ [0]) 0 0 None = name_scan (47 # nm @ [0]) (length pre) p p'"
      "p' = None \<or> (\<exists>q < length pre. p' = Some q)"
    using name_scan_prefix [OF assms(1), of "47 # nm @ [0]" 0 0 None] by auto
  obtain p3 where p3: "name_scan (pre @ 47 # nm @ [0]) 0 0 None = Some (?i + length nm, ?i, p3)"
      "name_end (?i + length nm) ?i p3 = ?i + ?u"
    using p name_scan_last [OF assms(2,3), of ?i] by (cases "64 \<in> set nm") (auto simp: name_end_def unit_name_id)
  have "m \<le> up4 m" by (rule up4_ge)
  then have "m + 3 < 2 ^ 32" using m(2) by (simp add: POOL_LIMIT_def)
  then have "fwk_fdt_memory_calculate (of_nat m) (PROP_SIZE + of_nat (?u + 1)) WORD_ALIGN = (of_nat (up4 m), of_nat (up4 m + 17 + ?u))"
    using calculate_at [of m "16 + (?u + 1)"] by (simp add: PROP_SIZE_def POOL_LIMIT_def add.assoc)
  moreover have "isValid (of_nat (up4 m))"
    using m up4_ge [of m] by (intro isValid_of_nat) linarith+
  ultimately show ?thesis
    using take_unit_name [of nm "[0]"] p3 by (simp add: populate_name_def fwk_fdt_add_string_properties_def Let_def)
qed

section \<open>One node of a tree\<close>

definition node_named :: "bytes \<Rightarrow> kuint32_t \<Rightarrow> (kuint32_t \<times> bytes) list \<Rightarrow> bool" where
  "node_named blob ss ps \<longleftrightarrow> (\<exists>p \<in> set ps. prop_called blob ss ''name'' p)"

definition lay_fill :: "bytes \<Rightarrow> kuint32_t \<Rightarrow> bytes \<Rightarrow> (kuint32_t \<times> bytes) list \<Rightarrow> nat \<Rightarrow> nat" where
  "lay_fill blob ss nm ps m =
     (let m1 = lay_props m (length ps) in if node_named blob ss ps then m1 else up4 m1 + 17 + length (unit_name nm))"

definition empty_fill :: of_fill where
  "empty_fill = \<lparr>fl_name = None, fl_type = None, fl_phandle = - 1, fl_props = []\<rparr>"

definition node_fill :: "bytes \<Rightarrow> kuint32_t \<Rightarrow> nat \<Rightarrow> bytes \<Rightarrow> (kuint32_t \<times> bytes) list \<Rightarrow> of_fill" where
  "node_fill blob ss k nm ps =
     (let f = foldl fill_prop empty_fill (blob_props blob ss k ps)
      in if node_named blob ss ps then f
         else f\<lparr>fl_name := Some (unit_name nm @ [0]),
                fl_props := fl_props f @ [\<lparr>op_name = lit ''name'', op_length = of_nat (length (unit_name nm) + 1),
                                           op_value = unit_name nm @ [0]\<rparr>]\<rparr>)"

lemma lay_fill_ge: "lay_props m (length ps) \<le> lay_fill blob ss nm ps m"
  using up4_ge [of "lay_props m (length ps)"] by (simp add: lay_fill_def Let_def)

lemma populate_fill_at:
  assumes ok: "fdt_ok bs blob ss" and b: "at_blob blob k (concat (map flat_prop ps) @ be_bytes32 tag)"
    and k: "k mod 4 = 0" and ps: "props_ok blob ss ps" and t: "tag \<noteq> FDT_NODE_PROP" "tag \<noteq> FDT_NODE_NOP"
    and nm: "0 \<notin> set pre" "0 \<notin> set nm" "47 \<notin> set nm"
    and m: "0 < m" "lay_fill blob ss nm ps m < POOL_LIMIT"
  shows "populate_fill blob bs (pre @ 47 # nm @ [0]) (of_nat k) (of_nat m) nxt =
     Some (of_nat (k + length (concat (map flat_prop ps))), of_nat (lay_fill blob ss nm ps m),
           if next_valid nxt then node_fill blob ss k nm ps else empty_fill)"
proof -
  have l: "lay_props m (length ps) < POOL_LIMIT" using lay_fill_ge [of m ps blob ss nm] m(2) by linarith
  have p: "0 < lay_props m (length ps)" using m(1) lay_props_ge [of m "length ps"] by linarith
  have u: "\<not> node_named blob ss ps \<Longrightarrow> up4 (lay_props m (length ps)) < POOL_LIMIT"
    using m(2) by (simp add: lay_fill_def)
  note loop = populate_props [OF ok b k ps t m(1) l, of nxt False empty_fill]
  show ?thesis
  proof (cases "node_named blob ss ps")
    case True
    then show ?thesis using loop
      by (simp add: populate_fill_def node_fill_def lay_fill_def empty_fill_def [symmetric] node_named_def)
  next
    case False
    note nm' = populate_name_at [OF nm p u [OF False], of nxt]
    show ?thesis using False loop nm'
      by (simp add: populate_fill_def node_fill_def lay_fill_def empty_fill_def [symmetric] node_named_def Let_def)
  qed
qed

text \<open>
  The path a node's name is appended to: none for the root, empty for its children, and the parent's path below.
  \<open>path_need\<close> is the memory the code reserves for the full name.
\<close>

definition name_ok :: "bytes option \<Rightarrow> bytes \<Rightarrow> bool" where
  "name_ok pre nm \<longleftrightarrow> 0 \<notin> set nm \<and> 47 \<notin> set nm \<and> (case pre of None \<Rightarrow> nm = [] | Some q \<Rightarrow> 0 \<notin> set q)"

definition pre_path :: "bytes option \<Rightarrow> bytes" where
  "pre_path pre = (case pre of None \<Rightarrow> [] | Some q \<Rightarrow> q)"

definition full_path :: "bytes option \<Rightarrow> bytes \<Rightarrow> bytes" where
  "full_path pre nm = pre_path pre @ 47 # nm"

definition child_pre :: "bytes option \<Rightarrow> bytes \<Rightarrow> bytes option" where
  "child_pre pre nm = (case pre of None \<Rightarrow> Some [] | Some q \<Rightarrow> Some (q @ 47 # nm))"

definition path_need :: "bytes option \<Rightarrow> bytes \<Rightarrow> nat" where
  "path_need pre nm = (case pre of None \<Rightarrow> 2 | Some q \<Rightarrow> length nm + 2 + max 1 (length q))"

definition par_ok :: "(kuaddr_t \<Rightarrow> device_node) \<Rightarrow> kuaddr_t \<Rightarrow> bytes option \<Rightarrow> bool" where
  "par_ok ns par pre \<longleftrightarrow>
     (case pre of
        None \<Rightarrow> par = 0
      | Some q \<Rightarrow> isValid par \<and>
          (if q = [] then dn_full_name (ns par) = [47, 0] \<and> dn_parent (ns par) = 0
           else 0 \<notin> set q \<and> dn_full_name (ns par) = q @ [0] \<and> isValid (dn_parent (ns par))))"

lemma par_ok_cong:
  "dn_full_name (ms par) = dn_full_name (ns par) \<Longrightarrow> dn_parent (ms par) = dn_parent (ns par) \<Longrightarrow> par_ok ms par pre = par_ok ns par pre"
  by (simp add: par_ok_def cong: option.case_cong)

lemma populate_path_at:
  assumes b: "at_blob (fdt_mem s bs) k (nm @ [0])" and l: "length (fdt_mem s bs) < 2 ^ 32"
    and p: "par_ok (of_nodes s) par pre" and nm: "name_ok pre nm"
  shows "populate_path bs s (of_nat k) par = Some (s, length nm + 1, path_need pre nm, True)"
proof -
  let ?b = "fdt_mem s bs"
  obtain r where r: "drop k ?b = nm @ 0 # r" using at_blob_drop [OF b] by auto
  have k: "k < length ?b" using b by (simp add: at_blob_def)
  then have u: "unat (of_nat k :: kuint32_t) = k" using l by (intro unat_of_nat_small) simp
  have n: "get_string_lenth (drop k ?b) = Some (length nm)"
    using nm unfolding r name_ok_def by (intro get_string_lenth_terminated) simp
  have c: "?b ! k = hd (nm @ [0])" using hd_drop_conv_nth [OF k] r by (cases nm) simp_all
  then have s: "?b ! k \<noteq> 47" using nm by (cases nm) (auto simp: name_ok_def)
  show ?thesis
  proof (cases pre)
    case None
    then have "?b[k := 0] = ?b" using c nm list_update_id [of ?b k] by (simp add: name_ok_def)
    then show ?thesis using None n s u p nm by (simp add: populate_path_def Let_def par_ok_def path_need_def name_ok_def)
  next
    case (Some q)
    have "get_string_lenth (dn_full_name (of_nodes s par)) = Some (max 1 (length q))"
      using p Some get_string_lenth_terminated [of q "[]"] by (auto simp: par_ok_def max_def Suc_le_eq split: if_splits)
    then show ?thesis using Some n s u p by (simp add: populate_path_def Let_def par_ok_def path_need_def)
  qed
qed

lemma populate_full_name_at:
  assumes r: "drop k blob = nm @ 0 # r" and p: "par_ok (of_nodes s) par pre"
  shows "populate_full_name s par True (drop k blob) (length nm + 1) = full_path pre nm @ [0]"
proof -
  have "isValid par \<and> isValid (dn_parent (of_nodes s par)) \<Longrightarrow> cstr (dn_full_name (of_nodes s par)) = pre_path pre"
    using p cstr_terminated [of "pre_path pre" "[]"] by (auto simp: par_ok_def pre_path_def split: option.splits if_splits)
  moreover have "\<not> (isValid par \<and> isValid (dn_parent (of_nodes s par))) \<Longrightarrow> pre_path pre = []"
    using p by (auto simp: par_ok_def pre_path_def split: option.splits if_splits)
  ultimately show ?thesis using r by (simp add: populate_full_name_def full_path_def)
qed

lemma par_ok_child:
  assumes "name_ok pre nm" "par_ok ns par pre" "isValid a" "dn_full_name (ms a) = full_path pre nm @ [0]" "dn_parent (ms a) = par"
  shows "par_ok ms a (child_pre pre nm)"
  using assms by (auto simp: par_ok_def child_pre_def full_path_def pre_path_def name_ok_def split: option.splits if_splits)

definition lay_node :: "bytes \<Rightarrow> kuint32_t \<Rightarrow> bytes option \<Rightarrow> bytes \<Rightarrow> (kuint32_t \<times> bytes) list \<Rightarrow> nat \<Rightarrow> nat" where
  "lay_node blob ss pre nm ps m = lay_fill blob ss nm ps (up4 m + 52 + path_need pre nm)"

definition node_head :: "bytes \<Rightarrow> (kuint32_t \<times> bytes) list \<Rightarrow> bytes" where
  "node_head nm ps = be_bytes32 FDT_NODE_START @ pad4 (nm @ [0]) @ concat (map flat_prop ps)"

definition node_ok :: "kuaddr_t \<Rightarrow> bytes \<Rightarrow> kuint32_t \<Rightarrow> nat \<Rightarrow> bytes option \<Rightarrow> bytes \<Rightarrow> (kuint32_t \<times> bytes) list \<Rightarrow> kuint32_t \<Rightarrow> bool" where
  "node_ok bs blob ss k pre nm ps tag \<longleftrightarrow> fdt_ok bs blob ss \<and> at_blob blob k (node_head nm ps @ be_bytes32 tag) \<and> k mod 4 = 0 \<and>
     props_ok blob ss ps \<and> tag \<noteq> FDT_NODE_PROP \<and> tag \<noteq> FDT_NODE_NOP \<and> name_ok pre nm"

text \<open>The common part of both walks: the tag, the path, the move behind the name and the properties.\<close>

lemma node_parts:
  assumes "node_ok bs blob ss k pre nm ps tag" and "lay_node blob ss pre nm ps m < POOL_LIMIT"
  shows "fdt_word blob (of_nat k) = Some FDT_NODE_START"
    and "\<exists>r. drop (k + 4) blob = nm @ 0 # r" and "at_blob blob (k + 4) (nm @ [0])" and "unat (of_nat (k + 4) :: kuint32_t) = k + 4"
    and "FDT_PTR_MOVE_BYTE bs (of_nat (k + 4)) (of_nat (length nm + 1)) = of_nat (k + 4 + up4 (length nm + 1))"
    and "fwk_fdt_memory_calculate (of_nat m) (NODE_SIZE + of_nat (path_need pre nm)) WORD_ALIGN =
           (of_nat (up4 m), of_nat (up4 m + 52 + path_need pre nm))"
    and "populate_fill blob bs (full_path pre nm @ [0]) (of_nat (k + 4 + up4 (length nm + 1))) (of_nat (up4 m + 52 + path_need pre nm)) nxt =
           Some (of_nat (k + length (node_head nm ps)), of_nat (lay_node blob ss pre nm ps m),
                 if next_valid nxt then node_fill blob ss (k + 4 + up4 (length nm + 1)) nm ps else empty_fill)"
    and "up4 m + 52 + path_need pre nm < POOL_LIMIT"
proof -
  let ?k = "k + 4 + up4 (length nm + 1)" and ?m = "up4 m + 52 + path_need pre nm"
  note n = assms(1) [unfolded node_ok_def]
  have l: "length blob < 2 ^ 32" using n by (simp add: fdt_ok_def)
  have at: "at_blob blob k (be_bytes32 FDT_NODE_START)" "at_blob blob (k + 4) (nm @ [0])"
      "at_blob blob ?k (concat (map flat_prop ps) @ be_bytes32 tag)"
  proof -
    have "at_blob blob k (be_bytes32 FDT_NODE_START)" and p: "at_blob blob (k + 4) (pad4 (nm @ [0]))"
        and "at_blob blob ?k (concat (map flat_prop ps) @ be_bytes32 tag)"
      using n by (simp_all add: node_head_def at_blob_append add.assoc)
    moreover have "at_blob blob (k + 4) (nm @ [0])" using p unfolding pad4_def by (simp only: at_blob_append [of _ _ "nm @ [0]"])
    ultimately show "at_blob blob k (be_bytes32 FDT_NODE_START)" "at_blob blob (k + 4) (nm @ [0])"
      "at_blob blob ?k (concat (map flat_prop ps) @ be_bytes32 tag)" by blast+
  qed
  show "fdt_word blob (of_nat k) = Some FDT_NODE_START" using at(1) l by (rule fdt_word_at)
  show "\<exists>r. drop (k + 4) blob = nm @ 0 # r" using at_blob_drop [OF at(2)] by simp
  show "at_blob blob (k + 4) (nm @ [0])" by (fact at(2))
  have le: "k + 4 \<le> length blob" "?k \<le> length blob" using at_blob_le [OF at(3)] by simp_all
  then show "unat (of_nat (k + 4) :: kuint32_t) = k + 4" using l by (intro unat_of_nat_small) simp
  have "k mod 4 = 0" using n by simp
  then have k4: "(k + 4) mod 4 = 0" "?k mod 4 = 0" using up4_mod [of "length nm + 1"] by (presburger, presburger)
  show "FDT_PTR_MOVE_BYTE bs (of_nat (k + 4)) (of_nat (length nm + 1)) = of_nat ?k"
    using move_byte [of bs blob ss "k + 4" "length nm + 1"] n k4(1) le(2) by blast
  have "?m \<le> lay_node blob ss pre nm ps m"
    unfolding lay_node_def using lay_props_ge lay_fill_ge by (rule le_trans)
  then show m: "?m < POOL_LIMIT" using assms(2) by simp
  have "m \<le> up4 m" by (rule up4_ge)
  then have "m + 3 < 2 ^ 32" using m by (simp add: POOL_LIMIT_def)
  then show "fwk_fdt_memory_calculate (of_nat m) (NODE_SIZE + of_nat (path_need pre nm)) WORD_ALIGN = (of_nat (up4 m), of_nat ?m)"
    using calculate_at [of m "52 + path_need pre nm"] by (simp add: NODE_SIZE_def add.assoc)
  have "0 \<notin> set (pre_path pre)" "0 \<notin> set nm" "47 \<notin> set nm"
    using n by (auto simp: name_ok_def pre_path_def split: option.splits)
  then have "populate_fill blob bs (pre_path pre @ 47 # nm @ [0]) (of_nat ?k) (of_nat ?m) nxt =
     Some (of_nat (?k + length (concat (map flat_prop ps))), of_nat (lay_fill blob ss nm ps ?m),
           if next_valid nxt then node_fill blob ss ?k nm ps else empty_fill)"
    using n at(3) k4(2) assms(2) unfolding lay_node_def by (intro populate_fill_at [where tag = tag]) simp_all
  moreover have "?k + length (concat (map flat_prop ps)) = k + length (node_head nm ps)" by (simp add: node_head_def)
  ultimately show "populate_fill blob bs (full_path pre nm @ [0]) (of_nat ?k) (of_nat ?m) nxt =
           Some (of_nat (k + length (node_head nm ps)), of_nat (lay_node blob ss pre nm ps m),
                 if next_valid nxt then node_fill blob ss ?k nm ps else empty_fill)"
    by (simp only: full_path_def lay_node_def append.assoc append_Cons)
qed

text \<open>A node of the first walk lies in a new block of the heap.\<close>

definition temp_node :: "kuaddr_t \<Rightarrow> kuint32_t \<Rightarrow> bytes \<Rightarrow> kuaddr_t \<Rightarrow> fdt_sys \<Rightarrow> fdt_sys" where
  "temp_node a sz full par s = upd_node a (\<lambda>d. d\<lparr>dn_full_name := full, dn_parent := par, dn_phandle := - 1\<rparr>) (snd (fdt_kzalloc sz s))"

lemma populate_node_count:
  assumes n: "node_ok bs (fdt_mem s bs) ss k pre nm ps tag" and m: "lay_node (fdt_mem s bs) ss pre nm ps m < POOL_LIMIT"
    and p: "par_ok (of_nodes s) par pre" and pool: "fdt_pool s = a # as" "isValid a"
    and fresh: "\<not> in_block a (of_nat (52 + path_need pre nm)) par"
  shows "fwk_fdt_populate_node bs s (of_nat k) (of_nat m) par Next_Null =
     Some (a, temp_node a (of_nat (52 + path_need pre nm)) (full_path pre nm @ [0]) par s,
           of_nat (k + length (node_head nm ps)), of_nat (lay_node (fdt_mem s bs) ss pre nm ps m), Next_Null)"
proof -
  let ?b = "fdt_mem s bs" and ?sz = "of_nat (52 + path_need pre nm) :: kuint32_t"
  define s1 where "s1 = snd (fdt_kzalloc ?sz s)"
  have a0: "a \<noteq> 0" using pool(2) by (simp add: isValid_def)
  then have kz: "fdt_kzalloc ?sz s = (a, s1)" and s1: "fdt_mem s1 = fdt_mem s" "of_nodes s1 par = of_nodes s par"
    using pool fresh by (simp_all add: s1_def fdt_kzalloc_def)
  have sz: "NODE_SIZE + of_nat (path_need pre nm) = ?sz" by (simp add: NODE_SIZE_def)
  note q = node_parts [OF n m]
  have l: "length ?b < 2 ^ 32" using n by (simp add: node_ok_def fdt_ok_def)
  have path: "populate_path bs s (of_nat (k + 4)) par = Some (s, length nm + 1, path_need pre nm, True)"
    using populate_path_at [OF q(3) l p] n by (simp add: node_ok_def)
  obtain r where r: "drop (k + 4) ?b = nm @ 0 # r" using q(2) by blast
  have "par_ok (of_nodes s1) par pre" using p unfolding par_ok_def s1(2) .
  then have full: "populate_full_name s1 par True (drop (k + 4) ?b) (length nm + 1) = full_path pre nm @ [0]"
    by (rule populate_full_name_at [OF r])
  have mv: "of_nat k + 4 = (of_nat (k + 4) :: kuint32_t)" by simp
  have nv: "\<not> next_valid Next_Null" by (simp add: next_valid_def)
  show ?thesis
    unfolding fwk_fdt_populate_node_def mv
    using q(1) path q(6) kz [folded sz] pool(2) nv s1(1) full q(4,5) q(7) [of Next_Null]
    by (simp del: of_nat_add add: Let_def temp_node_def s1_def [symmetric])
qed

text \<open>A node of the second walk: it is linked into the list and to its parent, and filled.\<close>

definition store_fill :: "of_fill \<Rightarrow> device_node \<Rightarrow> device_node" where
  "store_fill f d = d\<lparr>dn_name := (case fl_name f of None \<Rightarrow> lit ''<null>'' | Some b \<Rightarrow> b),
                      dn_type := (case fl_type f of None \<Rightarrow> lit ''<null>'' | Some b \<Rightarrow> b),
                      dn_phandle := fl_phandle f, dn_props := fl_props f\<rparr>"

definition add_node :: "kuaddr_t \<Rightarrow> bytes \<Rightarrow> kuaddr_t \<Rightarrow> of_fill \<Rightarrow> next_ref \<Rightarrow> fdt_sys \<Rightarrow> fdt_sys" where
  "add_node a full par f nxt s =
     (let s = upd_node a (\<lambda>d. d\<lparr>dn_full_name := full, dn_parent := par, dn_phandle := - 1\<rparr>) (set_allnext nxt a s);
          s = (if isValid par then link_child par a s else s)
      in upd_node a (store_fill f) s)"

lemma set_allnext_fields [simp]:
  "fdt_mem (set_allnext nxt a s) = fdt_mem s" "dn_full_name (of_nodes (set_allnext nxt a s) x) = dn_full_name (of_nodes s x)"
  "dn_parent (of_nodes (set_allnext nxt a s) x) = dn_parent (of_nodes s x)"
  by (cases nxt; simp add: set_allnext_def upd_node_def)+

lemma upd_node_fields [simp]:
  "fdt_mem (upd_node a f s) = fdt_mem s" "of_last (upd_node a f s) = of_last s" "fdt_pool (upd_node a f s) = fdt_pool s"
  "fdt_freed (upd_node a f s) = fdt_freed s" "ptr_fdt_memBuffer (upd_node a f s) = ptr_fdt_memBuffer s"
  "sprt_fwk_of_allNodes (upd_node a f s) = sprt_fwk_of_allNodes s"
  "of_nodes (upd_node a f s) x = (if x = a then f (of_nodes s a) else of_nodes s x)"
  by (simp_all add: upd_node_def)

lemma populate_node_build:
  assumes n: "node_ok bs (fdt_mem s bs) ss k pre nm ps tag" and m: "lay_node (fdt_mem s bs) ss pre nm ps m < POOL_LIMIT"
    and p: "par_ok (of_nodes s) par pre" and nxt: "next_valid nxt"
  shows "fwk_fdt_populate_node bs s (of_nat k) (of_nat m) par nxt =
     Some (of_nat (up4 m), add_node (of_nat (up4 m)) (full_path pre nm @ [0]) par
             (node_fill (fdt_mem s bs) ss (k + 4 + up4 (length nm + 1)) nm ps) nxt s,
           of_nat (k + length (node_head nm ps)), of_nat (lay_node (fdt_mem s bs) ss pre nm ps m), Next_Of (of_nat (up4 m)))"
proof -
  let ?b = "fdt_mem s bs" and ?a = "of_nat (up4 m) :: kuaddr_t"
  note q = node_parts [OF n m]
  have l: "length ?b < 2 ^ 32" using n by (simp add: node_ok_def fdt_ok_def)
  have path: "populate_path bs s (of_nat (k + 4)) par = Some (s, length nm + 1, path_need pre nm, True)"
    using populate_path_at [OF q(3) l p] n by (simp add: node_ok_def)
  obtain r where r: "drop (k + 4) ?b = nm @ 0 # r" using q(2) by blast
  have "par_ok (of_nodes (set_allnext nxt ?a s)) par pre" using p par_ok_cong [of "of_nodes (set_allnext nxt ?a s)" par "of_nodes s" pre] by simp
  then have full: "populate_full_name (set_allnext nxt ?a s) par True (drop (k + 4) ?b) (length nm + 1) = full_path pre nm @ [0]"
    by (rule populate_full_name_at [OF r])
  have mv: "of_nat k + 4 = (of_nat (k + 4) :: kuint32_t)" by simp
  have "?a + NODE_ALLNEXT = of_nat (up4 m + 40)" by (simp add: NODE_ALLNEXT_def)
  moreover have "isValid (of_nat (up4 m + 40))" using q(8) by (intro isValid_of_nat) simp_all
  ultimately have nv: "next_valid (Next_Of ?a)" by (simp add: next_valid_def)
  show ?thesis
    unfolding fwk_fdt_populate_node_def mv store_fill_def
    using q(1) path q(6) nxt nv full q(4,5) q(7) [of "Next_Of ?a"]
    by (simp del: of_nat_add upd_node_fields(7) add: Let_def add_node_def store_fill_def [abs_def])
qed

section \<open>Trees\<close>

fun lay_tree :: "bytes \<Rightarrow> kuint32_t \<Rightarrow> bytes option \<Rightarrow> fdt_tree \<Rightarrow> nat \<Rightarrow> nat"
  and lay_forest :: "bytes \<Rightarrow> kuint32_t \<Rightarrow> bytes option \<Rightarrow> fdt_tree list \<Rightarrow> nat \<Rightarrow> nat" where
  "lay_tree blob ss pre (Fdt_Node nm ps cs) m = lay_forest blob ss (child_pre pre nm) cs (lay_node blob ss pre nm ps m)"
| "lay_forest blob ss pre [] m = m"
| "lay_forest blob ss pre (t # ts) m = lay_forest blob ss pre ts (lay_tree blob ss pre t m)"

fun tree_ok :: "bytes \<Rightarrow> kuint32_t \<Rightarrow> bytes option \<Rightarrow> fdt_tree \<Rightarrow> bool"
  and forest_ok :: "bytes \<Rightarrow> kuint32_t \<Rightarrow> bytes option \<Rightarrow> fdt_tree list \<Rightarrow> bool" where
  "tree_ok blob ss pre (Fdt_Node nm ps cs) \<longleftrightarrow> props_ok blob ss ps \<and> name_ok pre nm \<and> forest_ok blob ss (child_pre pre nm) cs"
| "forest_ok blob ss pre [] \<longleftrightarrow> True"
| "forest_ok blob ss pre (t # ts) \<longleftrightarrow> tree_ok blob ss pre t \<and> forest_ok blob ss pre ts"

text \<open>
  The heap gives every temporary node a block that holds none of the nodes still in use; what is left of the supply.
\<close>

fun fresh_tree :: "kuaddr_t list \<Rightarrow> bytes option \<Rightarrow> fdt_tree \<Rightarrow> kuaddr_t list \<Rightarrow> kuaddr_t list option"
  and fresh_forest :: "kuaddr_t list \<Rightarrow> bytes option \<Rightarrow> fdt_tree list \<Rightarrow> kuaddr_t list \<Rightarrow> kuaddr_t list option" where
  "fresh_tree used pre (Fdt_Node nm ps cs) pool =
     (case pool of
        [] \<Rightarrow> None
      | a # as \<Rightarrow>
          if isValid a \<and> (\<forall>x \<in> set used. \<not> in_block a (of_nat (52 + path_need pre nm)) x)
          then fresh_forest (a # used) (child_pre pre nm) cs as else None)"
| "fresh_forest used pre [] pool = Some pool"
| "fresh_forest used pre (t # ts) pool = do { pool \<leftarrow> fresh_tree used pre t pool; fresh_forest used pre ts pool }"

lemma lay_node_gt: "up4 m + 52 < lay_node blob ss pre nm ps m"
proof -
  have "up4 m + 52 < up4 m + 52 + path_need pre nm" by (simp add: path_need_def split: option.splits)
  also have "\<dots> \<le> lay_node blob ss pre nm ps m" unfolding lay_node_def using lay_props_ge lay_fill_ge by (rule le_trans)
  finally show ?thesis .
qed

lemma lay_tree_ge:
  shows "m \<le> lay_tree blob ss pre t m" and "m \<le> lay_forest blob ss pre ts m"
proof (induction blob ss pre t m and blob ss pre ts m rule: lay_tree_lay_forest.induct)
  case (1 blob ss pre nm ps cs m)
  have "m \<le> up4 m" by (rule up4_ge)
  then show ?case using 1 lay_node_gt [of m blob ss pre nm ps] by simp
qed simp_all

lemma mod4_add: "a mod 4 = 0 \<Longrightarrow> b mod 4 = 0 \<Longrightarrow> (a + b) mod 4 = (0 :: nat)"
  by presburger

lemma concat_mod4: "(\<And>x. x \<in> set xs \<Longrightarrow> length (f x) mod 4 = 0) \<Longrightarrow> length (concat (map f xs)) mod 4 = 0"
  by (induction xs) (simp_all add: mod4_add)

lemma length_node_head: "length (node_head nm ps) mod 4 = 0"
proof -
  have "length (flat_prop p) mod 4 = 0" for p by (simp add: mod4_add)
  then have "length (concat (map flat_prop ps)) mod 4 = 0" by (intro concat_mod4)
  then show ?thesis by (simp add: node_head_def mod4_add)
qed

lemma length_flat_tree: "length (flat_tree t) mod 4 = 0"
proof (induction t)
  case (Fdt_Node nm ps cs)
  then have "length (concat (map flat_tree cs)) mod 4 = 0" by (intro concat_mod4)
  moreover have "length (flat_tree (Fdt_Node nm ps cs)) = length (node_head nm ps) + (length (concat (map flat_tree cs)) + 4)"
    by (simp add: node_head_def)
  moreover have "(length (node_head nm ps) + (length (concat (map flat_tree cs)) + 4)) mod 4 = 0"
    using calculation(1) length_node_head [of nm ps] by (simp add: mod4_add del: length_concat)
  ultimately show ?case by presburger
qed

lemma flat_node_split: "flat_tree (Fdt_Node nm ps cs) = node_head nm ps @ concat (map flat_tree cs) @ be_bytes32 FDT_NODE_END"
  by (simp add: node_head_def)

lemma forest_head:
  "\<exists>tag y. concat (map flat_tree cs) @ be_bytes32 FDT_NODE_END = be_bytes32 tag @ y \<and> (tag = FDT_NODE_START \<or> tag = FDT_NODE_END)"
proof (cases cs)
  case (Cons t ts)
  then show ?thesis by (cases t) auto
qed auto

lemma tree_parts:
  assumes "fdt_ok bs blob ss" "at_blob blob k (flat_tree (Fdt_Node nm ps cs))" "k mod 4 = 0" "tree_ok blob ss pre (Fdt_Node nm ps cs)"
  shows "\<exists>tag. node_ok bs blob ss k pre nm ps tag"
    and "at_blob blob (k + length (node_head nm ps)) (concat (map flat_tree cs))"
    and "fdt_word blob (of_nat (k + length (node_head nm ps) + length (concat (map flat_tree cs)))) = Some FDT_NODE_END"
    and "(k + length (node_head nm ps)) mod 4 = 0"
proof -
  have l: "length blob < 2 ^ 32" using assms(1) by (simp add: fdt_ok_def)
  have at: "at_blob blob k (node_head nm ps)" "at_blob blob (k + length (node_head nm ps)) (concat (map flat_tree cs) @ be_bytes32 FDT_NODE_END)"
    using assms(2) unfolding flat_node_split at_blob_append by blast+
  obtain tag y where tag: "concat (map flat_tree cs) @ be_bytes32 FDT_NODE_END = be_bytes32 tag @ y" "tag = FDT_NODE_START \<or> tag = FDT_NODE_END"
    using forest_head by blast
  then have "at_blob blob k (node_head nm ps @ be_bytes32 tag)" using at by (simp add: at_blob_append)
  then show "\<exists>tag. node_ok bs blob ss k pre nm ps tag" using assms tag(2) by (auto simp: node_ok_def fdt_tags)
  show "at_blob blob (k + length (node_head nm ps)) (concat (map flat_tree cs))" using at(2) by (simp add: at_blob_append)
  have "at_blob blob (k + length (node_head nm ps) + length (concat (map flat_tree cs))) (be_bytes32 FDT_NODE_END)"
    using at(2) unfolding at_blob_append by blast
  then show "fdt_word blob (of_nat (k + length (node_head nm ps) + length (concat (map flat_tree cs)))) = Some FDT_NODE_END"
    using l by (rule fdt_word_at)
  show "(k + length (node_head nm ps)) mod 4 = 0" using assms(3) length_node_head [of nm ps] by presburger
qed

lemma loop_node:
  assumes "fdt_word (fdt_mem s bs) mv = Some FDT_NODE_START"
    and "fwk_fdt_populate_node bs s mv mem lst nxt = Some (node, s', mv', mem', nxt')" and "isValid node"
  shows "unflatten_loop bs s mv mem lst nxt = unflatten_loop bs s' mv' mem' node nxt'"
  using assms by (subst unflatten_loop.simps) (simp add: fdt_tags)

lemma loop_end:
  assumes "fdt_word (fdt_mem s bs) mv = Some FDT_NODE_END" and "node_end lst nxt s = (lst', s')"
  shows "unflatten_loop bs s mv mem lst nxt = unflatten_loop bs s' (mv + 4) mem lst' nxt"
  using assms by (subst unflatten_loop.simps) (simp add: fdt_tags)

section \<open>Counting the memory\<close>

definition counted :: "kuaddr_t list \<Rightarrow> fdt_sys \<Rightarrow> fdt_sys \<Rightarrow> bool" where
  "counted used s s' \<longleftrightarrow> fdt_mem s' = fdt_mem s \<and> ptr_fdt_memBuffer s' = ptr_fdt_memBuffer s \<and>
     sprt_fwk_of_allNodes s' = sprt_fwk_of_allNodes s \<and> (\<forall>x \<in> set used. of_nodes s' x = of_nodes s x) \<and>
     (\<exists>fs. fdt_freed s' = fs @ fdt_freed s \<and> mset fs + mset (fdt_pool s') = mset (fdt_pool s))"

lemma counted_refl [simp]: "counted used s s"
  by (simp add: counted_def)

lemma counted_trans: "counted used s s' \<Longrightarrow> counted used s' s'' \<Longrightarrow> counted used s s''"
  unfolding counted_def by (auto simp: ac_simps)

lemma temp_node_fields:
  fixes full par
  assumes "fdt_pool s = a # as" and "isValid a" and "sz \<noteq> 0"
  defines "s' \<equiv> temp_node a sz full par s"
  shows "fdt_mem s' = fdt_mem s" "ptr_fdt_memBuffer s' = ptr_fdt_memBuffer s" "sprt_fwk_of_allNodes s' = sprt_fwk_of_allNodes s"
    "fdt_freed s' = fdt_freed s" "fdt_pool s' = as" "\<not> in_block a sz x \<Longrightarrow> of_nodes s' x = of_nodes s x"
    "dn_full_name (of_nodes s' a) = full" "dn_parent (of_nodes s' a) = par"
proof -
  have "in_block a sz a" using assms(3) by (simp add: in_block_def unat_gt_0)
  moreover have "a \<noteq> 0" using assms(2) by (simp add: isValid_def)
  ultimately show "fdt_mem s' = fdt_mem s" "ptr_fdt_memBuffer s' = ptr_fdt_memBuffer s" "sprt_fwk_of_allNodes s' = sprt_fwk_of_allNodes s"
    "fdt_freed s' = fdt_freed s" "fdt_pool s' = as" "\<not> in_block a sz x \<Longrightarrow> of_nodes s' x = of_nodes s x"
    "dn_full_name (of_nodes s' a) = full" "dn_parent (of_nodes s' a) = par"
    using assms(1) by (auto simp: s'_def temp_node_def fdt_kzalloc_def)
qed

text \<open>The first walk inside of a node: the node is temporary, and in use until its end.\<close>

definition entered :: "kuaddr_t \<Rightarrow> kuaddr_t list \<Rightarrow> kuaddr_t \<Rightarrow> fdt_sys \<Rightarrow> fdt_sys \<Rightarrow> bool" where
  "entered a used par s s1 \<longleftrightarrow> fdt_mem s1 = fdt_mem s \<and> ptr_fdt_memBuffer s1 = ptr_fdt_memBuffer s \<and>
     sprt_fwk_of_allNodes s1 = sprt_fwk_of_allNodes s \<and> fdt_freed s1 = fdt_freed s \<and> fdt_pool s = a # fdt_pool s1 \<and> isValid a \<and>
     (\<forall>x \<in> set used. of_nodes s1 x = of_nodes s x) \<and> dn_parent (of_nodes s1 a) = par"

lemma count_node:
  assumes ok: "fdt_ok bs (fdt_mem s bs) ss" "blob = fdt_mem s bs" "at_blob blob k (flat_tree (Fdt_Node nm ps cs))" "k mod 4 = 0"
      "tree_ok blob ss pre (Fdt_Node nm ps cs)" and par: "par_ok (of_nodes s) par pre" "par \<in> set (0 # used)"
    and pool: "fdt_pool s = a # as" "isValid a" "\<forall>x \<in> set used. \<not> in_block a (of_nat (52 + path_need pre nm)) x"
    and lay: "lay_node blob ss pre nm ps m < POOL_LIMIT"
  shows "\<exists>s1. unflatten_loop bs s (of_nat k) (of_nat m) par Next_Null =
        unflatten_loop bs s1 (of_nat (k + length (node_head nm ps))) (of_nat (lay_node blob ss pre nm ps m)) a Next_Null \<and>
      entered a used par s s1 \<and> par_ok (of_nodes s1) a (child_pre pre nm)"
proof -
  let ?sz = "of_nat (52 + path_need pre nm) :: kuint32_t"
  obtain tag where n: "node_ok bs blob ss k pre nm ps tag" using tree_parts(1) [OF ok(1) [folded ok(2)] ok(3,4,5)] by blast
  have a0: "a \<noteq> 0" using pool(2) by (simp add: isValid_def)
  then have "\<not> in_block a ?sz 0" by (simp add: in_block_def unat_eq_0)
  then have npar: "\<not> in_block a ?sz par" using par(2) pool(3) by auto
  define s1 where "s1 = temp_node a ?sz (full_path pre nm @ [0]) par s"
  have need: "52 + path_need pre nm < 2 ^ 32" using node_parts(8) [OF n lay] by (simp add: POOL_LIMIT_def)
  have "?sz \<noteq> 0" using unat_of_nat_small [OF need] by (metis add_is_0 unat_0 zero_neq_numeral)
  note f = temp_node_fields [OF pool(1,2) this, where full = "full_path pre nm @ [0]" and par = par, folded s1_def]
  have pop: "fwk_fdt_populate_node bs s (of_nat k) (of_nat m) par Next_Null =
      Some (a, s1, of_nat (k + length (node_head nm ps)), of_nat (lay_node blob ss pre nm ps m), Next_Null)"
    using populate_node_count [OF _ _ par(1) pool(1,2) npar] n lay unfolding ok(2) s1_def by blast
  have "par_ok (of_nodes s1) a (child_pre pre nm)"
    using n f(7,8) pool(2) by (intro par_ok_child [where ms = "of_nodes s1", OF _ par(1)]) (simp_all add: node_ok_def)
  moreover have "entered a used par s s1" using f pool by (simp add: entered_def)
  moreover have "unflatten_loop bs s (of_nat k) (of_nat m) par Next_Null =
      unflatten_loop bs s1 (of_nat (k + length (node_head nm ps))) (of_nat (lay_node blob ss pre nm ps m)) a Next_Null"
    using loop_node [OF _ pop pool(2)] node_parts(1) [OF n lay] ok(2) by simp
  ultimately show ?thesis by blast
qed

lemma counted_leave:
  assumes e: "entered a used par s s1" and c: "counted (a # used) s1 s2"
  shows "counted used s (fdt_kfree a s2)" "node_end a Next_Null s2 = (par, fdt_kfree a s2)" "free_nodes a s2 = free_nodes par (fdt_kfree a s2)"
proof -
  obtain fs where fs: "fdt_freed s2 = fs @ fdt_freed s1" "mset fs + mset (fdt_pool s2) = mset (fdt_pool s1)"
    using c by (auto simp: counted_def)
  have "fdt_freed (fdt_kfree a s2) = (a # fs) @ fdt_freed s \<and> mset (a # fs) + mset (fdt_pool (fdt_kfree a s2)) = mset (fdt_pool s)"
    using fs e by (simp add: fdt_kfree_def entered_def)
  then show "counted used s (fdt_kfree a s2)" using c e unfolding counted_def entered_def by (auto simp: fdt_kfree_def)
  have "dn_parent (of_nodes s2 a) = par" "isValid a" using c e by (simp_all add: counted_def entered_def)
  then show "node_end a Next_Null s2 = (par, fdt_kfree a s2)" "free_nodes a s2 = free_nodes par (fdt_kfree a s2)"
    by (simp_all add: node_end_def next_valid_def free_nodes.simps [of a])
qed

text \<open>
  The first walk over a tree comes out behind it with the memory that the layout gives, all temporary nodes released.
\<close>

lemma count_tree:
  shows "fdt_ok bs (fdt_mem s bs) ss \<Longrightarrow> blob = fdt_mem s bs \<Longrightarrow> at_blob blob k (flat_tree t) \<Longrightarrow> k mod 4 = 0 \<Longrightarrow>
      tree_ok blob ss pre t \<Longrightarrow> par_ok (of_nodes s) par pre \<Longrightarrow> par \<in> set (0 # used) \<Longrightarrow>
      fresh_tree used pre t (fdt_pool s) = Some as \<Longrightarrow> lay_tree blob ss pre t m < POOL_LIMIT \<Longrightarrow>
      \<exists>s'. unflatten_loop bs s (of_nat k) (of_nat m) par Next_Null =
             unflatten_loop bs s' (of_nat (k + length (flat_tree t))) (of_nat (lay_tree blob ss pre t m)) par Next_Null \<and>
           counted used s s' \<and> fdt_pool s' = as"
    and "fdt_ok bs (fdt_mem s bs) ss \<Longrightarrow> blob = fdt_mem s bs \<Longrightarrow> at_blob blob k (concat (map flat_tree ts)) \<Longrightarrow> k mod 4 = 0 \<Longrightarrow>
      forest_ok blob ss pre ts \<Longrightarrow> par_ok (of_nodes s) par pre \<Longrightarrow> par \<in> set used \<Longrightarrow>
      fresh_forest used pre ts (fdt_pool s) = Some as \<Longrightarrow> lay_forest blob ss pre ts m < POOL_LIMIT \<Longrightarrow>
      \<exists>s'. unflatten_loop bs s (of_nat k) (of_nat m) par Next_Null =
             unflatten_loop bs s' (of_nat (k + length (concat (map flat_tree ts)))) (of_nat (lay_forest blob ss pre ts m)) par Next_Null \<and>
           counted used s s' \<and> fdt_pool s' = as"
proof (induction blob ss pre t m and blob ss pre ts m arbitrary: s k par used as and s k par used as rule: lay_tree_lay_forest.induct)
  case (1 blob ss pre nm ps cs m)
  let ?k = "k + length (node_head nm ps)" and ?m = "lay_node blob ss pre nm ps m"
  obtain a as' where pool: "fdt_pool s = a # as'" "isValid a" "\<forall>x \<in> set used. \<not> in_block a (of_nat (52 + path_need pre nm)) x"
      "fresh_forest (a # used) (child_pre pre nm) cs as' = Some as"
    using "1.prems"(8) by (auto split: list.splits if_splits)
  note tp = tree_parts [OF "1.prems"(1) [folded "1.prems"(2)] "1.prems"(3,4,5)]
  have lay: "?m < POOL_LIMIT" using "1.prems"(9) lay_tree_ge(2) [of ?m blob ss "child_pre pre nm" cs] by simp
  obtain s1 where s1: "unflatten_loop bs s (of_nat k) (of_nat m) par Next_Null = unflatten_loop bs s1 (of_nat ?k) (of_nat ?m) a Next_Null"
      "entered a used par s s1" "par_ok (of_nodes s1) a (child_pre pre nm)"
    using count_node [OF "1.prems"(1-7) pool(1-3) lay] by blast
  have f: "fdt_mem s1 = fdt_mem s" "fdt_pool s1 = as'" using s1(2) pool(1) by (simp_all add: entered_def)
  obtain s2 where s2: "unflatten_loop bs s1 (of_nat ?k) (of_nat ?m) a Next_Null =
       unflatten_loop bs s2 (of_nat (?k + length (concat (map flat_tree cs)))) (of_nat (lay_tree blob ss pre (Fdt_Node nm ps cs) m)) a Next_Null"
      "counted (a # used) s1 s2" "fdt_pool s2 = as"
    using "1.IH" [of s1 ?k a "a # used" as] "1.prems"(1,2,5,9) f tp(2,4) s1(3) pool(4) by auto
  note lv = counted_leave [OF s1(2) s2(2)]
  have "fdt_mem s2 bs = blob" using s2(2) f(1) "1.prems"(2) by (simp add: counted_def)
  then have "unflatten_loop bs s2 (of_nat (?k + length (concat (map flat_tree cs)))) (of_nat (lay_tree blob ss pre (Fdt_Node nm ps cs) m)) a Next_Null =
      unflatten_loop bs (fdt_kfree a s2) (of_nat (k + length (flat_tree (Fdt_Node nm ps cs)))) (of_nat (lay_tree blob ss pre (Fdt_Node nm ps cs) m)) par Next_Null"
    using loop_end [OF _ lv(2)] tp(3) unfolding flat_node_split by (simp add: add.assoc)
  moreover have "fdt_pool (fdt_kfree a s2) = as" using s2(3) by (simp add: fdt_kfree_def)
  ultimately show ?case using s1(1) s2(1) lv(1) by metis
next
  case (2 blob ss pre m)
  then show ?case by (intro exI [of _ s]) simp
next
  case (3 blob ss pre t ts m)
  let ?m = "lay_tree blob ss pre t m" and ?k = "k + length (flat_tree t)"
  obtain as' where as': "fresh_tree used pre t (fdt_pool s) = Some as'" "fresh_forest used pre ts as' = Some as"
    using "3.prems"(8) by (auto simp: bind_Some_iff)
  have at: "at_blob blob k (flat_tree t)" "at_blob blob ?k (concat (map flat_tree ts))"
    using "3.prems"(3) by (simp_all add: at_blob_append)
  have k: "?k mod 4 = 0" using "3.prems"(4) length_flat_tree [of t] by presburger
  have lay: "?m < POOL_LIMIT" using "3.prems"(9) lay_tree_ge(2) [of ?m blob ss pre ts] by simp
  obtain s1 where s1: "unflatten_loop bs s (of_nat k) (of_nat m) par Next_Null = unflatten_loop bs s1 (of_nat ?k) (of_nat ?m) par Next_Null"
      "counted used s s1" "fdt_pool s1 = as'"
    using "3.IH"(1) [of s k par used as'] "3.prems" at(1) as'(1) lay by auto
  have c: "fdt_mem s1 = fdt_mem s" "of_nodes s1 par = of_nodes s par" using s1(2) "3.prems"(7) by (simp_all add: counted_def)
  have p1: "par_ok (of_nodes s1) par pre" using "3.prems"(6) par_ok_cong [of "of_nodes s1" par "of_nodes s" pre] c(2) by simp
  obtain s2 where s2: "unflatten_loop bs s1 (of_nat ?k) (of_nat ?m) par Next_Null =
      unflatten_loop bs s2 (of_nat (?k + length (concat (map flat_tree ts)))) (of_nat (lay_forest blob ss pre ts ?m)) par Next_Null"
      "counted used s1 s2" "fdt_pool s2 = as"
    using "3.IH"(2) [of s1 ?k par used as] "3.prems" at(2) as'(2) s1(3) c(1) p1 k by auto
  then show ?case using s1(1,2) counted_trans [OF s1(2) s2(2)] by (intro exI [of _ s2]) (simp add: add.assoc)
qed

text \<open>
  The heap runs out within a tree.  The nodes that the first walk still holds are then released from the innermost outwards.
\<close>

fun short_tree :: "kuaddr_t list \<Rightarrow> bytes option \<Rightarrow> fdt_tree \<Rightarrow> kuaddr_t list \<Rightarrow> bool"
  and short_forest :: "kuaddr_t list \<Rightarrow> bytes option \<Rightarrow> fdt_tree list \<Rightarrow> kuaddr_t list \<Rightarrow> bool" where
  "short_tree used pre (Fdt_Node nm ps cs) pool \<longleftrightarrow>
     (case pool of
        [] \<Rightarrow> True
      | a # as \<Rightarrow>
          isValid a \<and> (\<forall>x \<in> set used. \<not> in_block a (of_nat (52 + path_need pre nm)) x) \<and>
          short_forest (a # used) (child_pre pre nm) cs as)"
| "short_forest used pre [] pool \<longleftrightarrow> False"
| "short_forest used pre (t # ts) pool \<longleftrightarrow> short_tree used pre t pool \<or>
     (case fresh_tree used pre t pool of None \<Rightarrow> False | Some pool \<Rightarrow> short_forest used pre ts pool)"

lemma populate_node_nomem:
  assumes n: "node_ok bs (fdt_mem s bs) ss k pre nm ps tag" and m: "lay_node (fdt_mem s bs) ss pre nm ps m < POOL_LIMIT"
    and p: "par_ok (of_nodes s) par pre" and pool: "fdt_pool s = []"
  shows "fwk_fdt_populate_node bs s (of_nat k) (of_nat m) par Next_Null = Some (0, s, of_nat k, of_nat m, Next_Null)"
proof -
  note q = node_parts [OF n m]
  have l: "length (fdt_mem s bs) < 2 ^ 32" using n by (simp add: node_ok_def fdt_ok_def)
  have path: "populate_path bs s (of_nat (k + 4)) par = Some (s, length nm + 1, path_need pre nm, True)"
    using populate_path_at [OF q(3) l p] n by (simp add: node_ok_def)
  have mv: "of_nat k + 4 = (of_nat (k + 4) :: kuint32_t)" by simp
  show ?thesis
    unfolding fwk_fdt_populate_node_def mv
    using q(1) path q(6) pool by (simp del: of_nat_add add: Let_def next_valid_def fdt_kzalloc_def isValid_def)
qed

lemma loop_nomem:
  assumes "fdt_word (fdt_mem s bs) mv = Some FDT_NODE_START"
    and "fwk_fdt_populate_node bs s mv mem lst Next_Null = Some (0, s, mv, mem, Next_Null)"
  shows "unflatten_loop bs s mv mem lst Next_Null = map_option (Pair 0) (free_nodes lst s)"
  using assms by (subst unflatten_loop.simps) (simp add: fdt_tags next_valid_def isValid_def)


lemma count_short:
  shows "fdt_ok bs (fdt_mem s bs) ss \<Longrightarrow> blob = fdt_mem s bs \<Longrightarrow> at_blob blob k (flat_tree t) \<Longrightarrow> k mod 4 = 0 \<Longrightarrow>
      tree_ok blob ss pre t \<Longrightarrow> par_ok (of_nodes s) par pre \<Longrightarrow> par \<in> set (0 # used) \<Longrightarrow>
      short_tree used pre t (fdt_pool s) \<Longrightarrow> lay_tree blob ss pre t m < POOL_LIMIT \<Longrightarrow>
      \<exists>s'. unflatten_loop bs s (of_nat k) (of_nat m) par Next_Null = map_option (Pair 0) (free_nodes par s') \<and>
           counted used s s' \<and> fdt_pool s' = []"
    and "fdt_ok bs (fdt_mem s bs) ss \<Longrightarrow> blob = fdt_mem s bs \<Longrightarrow> at_blob blob k (concat (map flat_tree ts)) \<Longrightarrow> k mod 4 = 0 \<Longrightarrow>
      forest_ok blob ss pre ts \<Longrightarrow> par_ok (of_nodes s) par pre \<Longrightarrow> par \<in> set used \<Longrightarrow>
      short_forest used pre ts (fdt_pool s) \<Longrightarrow> lay_forest blob ss pre ts m < POOL_LIMIT \<Longrightarrow>
      \<exists>s'. unflatten_loop bs s (of_nat k) (of_nat m) par Next_Null = map_option (Pair 0) (free_nodes par s') \<and>
           counted used s s' \<and> fdt_pool s' = []"
proof (induction blob ss pre t m and blob ss pre ts m arbitrary: s k par used and s k par used rule: lay_tree_lay_forest.induct)
  case (1 blob ss pre nm ps cs m)
  let ?k = "k + length (node_head nm ps)" and ?m = "lay_node blob ss pre nm ps m"
  note tp = tree_parts [OF "1.prems"(1) [folded "1.prems"(2)] "1.prems"(3,4,5)]
  have lay: "?m < POOL_LIMIT" using "1.prems"(9) lay_tree_ge(2) [of ?m blob ss "child_pre pre nm" cs] by simp
  show ?case
  proof (cases "fdt_pool s")
    case Nil
    obtain tag where n: "node_ok bs blob ss k pre nm ps tag" using tp(1) by blast
    have "fwk_fdt_populate_node bs s (of_nat k) (of_nat m) par Next_Null = Some (0, s, of_nat k, of_nat m, Next_Null)"
      using populate_node_nomem [OF _ _ "1.prems"(6) Nil] n lay unfolding "1.prems"(2) by blast
    then show ?thesis
      using loop_nomem node_parts(1) [OF n lay] "1.prems"(2) Nil by (intro exI [of _ s]) simp
  next
    case (Cons a as)
    then have pool: "fdt_pool s = a # as" "isValid a" "\<forall>x \<in> set used. \<not> in_block a (of_nat (52 + path_need pre nm)) x"
        "short_forest (a # used) (child_pre pre nm) cs as"
      using "1.prems"(8) by simp_all
    obtain s1 where s1: "unflatten_loop bs s (of_nat k) (of_nat m) par Next_Null = unflatten_loop bs s1 (of_nat ?k) (of_nat ?m) a Next_Null"
        "entered a used par s s1" "par_ok (of_nodes s1) a (child_pre pre nm)"
      using count_node [OF "1.prems"(1-7) pool(1-3) lay] by blast
    have f: "fdt_mem s1 = fdt_mem s" "fdt_pool s1 = as" using s1(2) pool(1) by (simp_all add: entered_def)
    obtain s2 where s2: "unflatten_loop bs s1 (of_nat ?k) (of_nat ?m) a Next_Null = map_option (Pair 0) (free_nodes a s2)"
        "counted (a # used) s1 s2" "fdt_pool s2 = []"
      using "1.IH" [of s1 ?k a "a # used"] "1.prems"(1,2,5,9) f tp(2,4) s1(3) pool(4) by auto
    note lv = counted_leave [OF s1(2) s2(2)]
    have "fdt_pool (fdt_kfree a s2) = []" using s2(3) by (simp add: fdt_kfree_def)
    then show ?thesis using s1(1) s2(1) lv(1,3) by metis
  qed
next
  case (2 blob ss pre m)
  then show ?case by simp
next
  case (3 blob ss pre t ts m)
  let ?m = "lay_tree blob ss pre t m" and ?k = "k + length (flat_tree t)"
  have at: "at_blob blob k (flat_tree t)" "at_blob blob ?k (concat (map flat_tree ts))"
    using "3.prems"(3) by (simp_all add: at_blob_append)
  have k: "?k mod 4 = 0" using "3.prems"(4) length_flat_tree [of t] by (rule mod4_add)
  have lay: "?m < POOL_LIMIT" using "3.prems"(9) lay_tree_ge(2) [of ?m blob ss pre ts] by simp
  show ?case
  proof (cases "short_tree used pre t (fdt_pool s)")
    case True
    then show ?thesis using "3.IH"(1) [of s k par used] "3.prems" at(1) lay by simp
  next
    case False
    then obtain as' where as': "fresh_tree used pre t (fdt_pool s) = Some as'" "short_forest used pre ts as'"
      using "3.prems"(8) by (auto split: option.splits)
    obtain s1 where s1: "unflatten_loop bs s (of_nat k) (of_nat m) par Next_Null = unflatten_loop bs s1 (of_nat ?k) (of_nat ?m) par Next_Null"
        "counted used s s1" "fdt_pool s1 = as'"
      using count_tree(1) [of bs s ss blob k t pre par used as' m] "3.prems" at(1) as'(1) lay by auto
    have c: "fdt_mem s1 = fdt_mem s" "of_nodes s1 par = of_nodes s par" using s1(2) "3.prems"(7) by (simp_all add: counted_def)
    have p1: "par_ok (of_nodes s1) par pre" using "3.prems"(6) par_ok_cong [of "of_nodes s1" par "of_nodes s" pre] c(2) by simp
    obtain s2 where "unflatten_loop bs s1 (of_nat ?k) (of_nat ?m) par Next_Null = map_option (Pair 0) (free_nodes par s2)"
        "counted used s1 s2" "fdt_pool s2 = []"
      using "3.IH"(2) [of s1 ?k par used] "3.prems" at(2) as'(2) s1(3) c(1) p1 k by auto
    then show ?thesis using s1(1) counted_trans [OF s1(2)] by metis
  qed
qed

end
