(* ===== verification/Unflatten_Build.thy ===== *)
theory Unflatten_Build
  imports Unflatten
begin

text \<open>
  The second walk over the blob: what a node holds, the tree in memory, and the correctness of
  \<^verbatim>\<open>setup_machine_fdt\<close> (\<^verbatim>\<open>platform/of/fwk_of.c\<close>) against the tree the blob was written for.
\<close>

section \<open>What a node holds\<close>

definition prop_is :: "bytes \<Rightarrow> kuint32_t \<Rightarrow> kuint32_t \<times> bytes \<Rightarrow> of_property \<Rightarrow> bool" where
  "prop_is blob ss p q \<longleftrightarrow> op_name q = prop_name blob ss p \<and> op_length q = of_nat (length (snd p)) \<and>
     take (length (snd p)) (op_value q) = snd p"

text \<open>The value of the last property of a name.\<close>

definition last_value :: "bytes \<Rightarrow> kuint32_t \<Rightarrow> string \<Rightarrow> (kuint32_t \<times> bytes) list \<Rightarrow> bytes option" where
  "last_value blob ss nm ps = map_option snd (find (prop_called blob ss nm) (rev ps))"

definition starts_with :: "bytes \<Rightarrow> bytes \<Rightarrow> bool" where
  "starts_with v b \<longleftrightarrow> take (length v) b = v"

definition fills :: "bytes \<Rightarrow> kuint32_t \<Rightarrow> (kuint32_t \<times> bytes) list \<Rightarrow> of_fill \<Rightarrow> bool" where
  "fills blob ss ps f \<longleftrightarrow> list_all2 (prop_is blob ss) ps (fl_props f) \<and>
     rel_option starts_with (last_value blob ss ''name'' ps) (fl_name f) \<and>
     rel_option starts_with (last_value blob ss ''device_type'' ps) (fl_type f) \<and>
     (case last_value blob ss ''phandle'' ps of
        None \<Rightarrow> fl_phandle f = - 1
      | Some v \<Rightarrow> 4 \<le> length v \<longrightarrow> be32 v 0 = Some (fl_phandle f))"

lemma lit_distinct:
  "cstr (lit ''name'') \<noteq> cstr (lit ''device_type'')" "cstr (lit ''name'') \<noteq> cstr (lit ''phandle'')"
  "cstr (lit ''device_type'') \<noteq> cstr (lit ''phandle'')"
  by (simp_all add: lit_def cstr_def)

lemma last_value_snoc: "last_value blob ss nm (ps @ [p]) = (if prop_called blob ss nm p then Some (snd p) else last_value blob ss nm ps)"
  by (simp add: last_value_def)

lemma last_value_none: "last_value blob ss nm ps = None \<longleftrightarrow> \<not> (\<exists>p \<in> set ps. prop_called blob ss nm p)"
  by (auto simp: last_value_def find_None_iff)

lemma be32_prefix: "4 \<le> length v \<Longrightarrow> starts_with v b \<Longrightarrow> be32 b 0 = be32 v 0"
proof -
  assume v: "4 \<le> length v" and b: "starts_with v b"
  then obtain r where "b = v @ r" unfolding starts_with_def by (metis append_take_drop_id)
  then show ?thesis using v by (auto simp: be32_def load32_def nth_append)
qed

lemma blob_props_snoc:
  "blob_props blob ss k (ps @ [p]) = blob_props blob ss k ps @ [blob_prop blob ss (k + length (concat (map flat_prop ps))) p]"
  by (induction ps arbitrary: k) (simp_all add: add.assoc)

lemma fill_prop_step:
  assumes f: "fills blob ss ps f" and q: "prop_is blob ss p q"
  shows "fills blob ss (ps @ [p]) (fill_prop f q)"
proof -
  have nm: "cstr (op_name q) = cstr (prop_name blob ss p)" and v: "starts_with (snd p) (op_value q)"
    using q by (simp_all add: prop_is_def starts_with_def)
  have l: "list_all2 (prop_is blob ss) (ps @ [p]) (fl_props f @ [q])"
    using f q by (intro list_all2_appendI) (simp_all add: fills_def)
  note d = lit_distinct
  consider (name) "prop_called blob ss ''name'' p" | (type) "prop_called blob ss ''device_type'' p" | (phandle) "prop_called blob ss ''phandle'' p"
    | (other) "\<not> prop_called blob ss ''name'' p" "\<not> prop_called blob ss ''device_type'' p" "\<not> prop_called blob ss ''phandle'' p" by blast
  then show ?thesis
  proof cases
    case phandle
    have "4 \<le> length (snd p) \<Longrightarrow> be32 (snd p) 0 = Some (fl_phandle (fill_prop f q))"
      using be32_prefix [OF _ v] be32_some [of "snd p"] phandle nm d by (auto simp: fill_prop_def prop_called_def)
    moreover have "fl_name (fill_prop f q) = fl_name f" "fl_type (fill_prop f q) = fl_type f" "fl_props (fill_prop f q) = fl_props f @ [q]"
      using phandle nm d by (auto simp: fill_prop_def prop_called_def split: option.splits)
    ultimately show ?thesis using f l phandle d
      by (simp add: fills_def last_value_snoc prop_called_def)
  qed (use f l nm v d in \<open>simp_all add: fills_def fill_prop_def last_value_snoc prop_called_def Let_def cong: option.case_cong\<close>)
qed

lemma fill_props:
  assumes "at_blob blob k (concat (map flat_prop ps))"
  shows "fills blob ss ps (foldl fill_prop empty_fill (blob_props blob ss k ps))"
  using assms
proof (induction ps rule: rev_induct)
  case Nil
  then show ?case by (simp add: fills_def empty_fill_def last_value_def)
next
  case (snoc p ps)
  let ?k = "k + length (concat (map flat_prop ps))" and ?f = "foldl fill_prop empty_fill (blob_props blob ss k ps)"
  let ?q = "blob_prop blob ss ?k p"
  have at: "at_blob blob k (concat (map flat_prop ps))" "at_blob blob ?k (flat_prop p)" using snoc.prems by (simp_all add: at_blob_append)
  then have f: "fills blob ss ps ?f" using snoc.IH by blast
  have "at_blob blob (?k + 12) (pad4 (snd p))" using at(2) by (simp add: flat_prop_def at_blob_append add.assoc)
  then have "at_blob blob (?k + 12) (snd p)" by (simp add: pad4_def at_blob_append)
  then have q: "prop_is blob ss p ?q" by (simp add: at_blob_def prop_is_def blob_prop_def)
  show ?case unfolding blob_props_snoc foldl_append foldl.simps by (rule fill_prop_step [OF f q])
qed

text \<open>
  A node of the tree in memory: its full name, its properties in order, followed by a name when none of them is one, and what
  the three special properties say.
\<close>

definition node_is :: "bytes \<Rightarrow> kuint32_t \<Rightarrow> bytes option \<Rightarrow> bytes \<Rightarrow> (kuint32_t \<times> bytes) list \<Rightarrow> device_node \<Rightarrow> bool" where
  "node_is blob ss pre nm ps d \<longleftrightarrow> dn_full_name d = full_path pre nm @ [0] \<and>
     (\<exists>qs. list_all2 (prop_is blob ss) ps qs \<and>
        dn_props d = qs @ (if node_named blob ss ps then []
                           else [\<lparr>op_name = lit ''name'', op_length = of_nat (length (unit_name nm) + 1), op_value = unit_name nm @ [0]\<rparr>])) \<and>
     (case last_value blob ss ''name'' ps of None \<Rightarrow> dn_name d = unit_name nm @ [0] | Some v \<Rightarrow> starts_with v (dn_name d)) \<and>
     (case last_value blob ss ''device_type'' ps of None \<Rightarrow> dn_type d = lit ''<null>'' | Some v \<Rightarrow> starts_with v (dn_type d)) \<and>
     (case last_value blob ss ''phandle'' ps of
        None \<Rightarrow> dn_phandle d = - 1
      | Some v \<Rightarrow> 4 \<le> length v \<longrightarrow> be32 v 0 = Some (dn_phandle d))"

lemma node_fill_is:
  assumes "at_blob blob k (concat (map flat_prop ps))" and full: "dn_full_name d = full_path pre nm @ [0]"
  shows "node_is blob ss pre nm ps (store_fill (node_fill blob ss k nm ps) d)"
proof -
  let ?f = "foldl fill_prop empty_fill (blob_props blob ss k ps)"
  have f: "fills blob ss ps ?f" by (rule fill_props [OF assms(1)])
  have n: "node_named blob ss ps \<longleftrightarrow> last_value blob ss ''name'' ps \<noteq> None" by (simp add: node_named_def last_value_none)
  have ph: "fl_phandle (node_fill blob ss k nm ps) = fl_phandle ?f" and ty: "fl_type (node_fill blob ss k nm ps) = fl_type ?f"
    by (simp_all add: node_fill_def Let_def)
  have t: "rel_option starts_with (last_value blob ss ''device_type'' ps) (fl_type ?f)" using f by (simp add: fills_def)
  have nm: "rel_option starts_with (last_value blob ss ''name'' ps) (fl_name ?f)" using f by (simp add: fills_def)
  show ?thesis unfolding node_is_def store_fill_def
  proof (intro conjI)
    show "\<exists>qs. list_all2 (prop_is blob ss) ps qs \<and>
        dn_props (d\<lparr>dn_name := case fl_name (node_fill blob ss k nm ps) of None \<Rightarrow> lit ''<null>'' | Some b \<Rightarrow> b,
            dn_type := case fl_type (node_fill blob ss k nm ps) of None \<Rightarrow> lit ''<null>'' | Some b \<Rightarrow> b,
            dn_phandle := fl_phandle (node_fill blob ss k nm ps), dn_props := fl_props (node_fill blob ss k nm ps)\<rparr>) =
          qs @ (if node_named blob ss ps then []
                else [\<lparr>op_name = lit ''name'', op_length = of_nat (length (unit_name nm) + 1), op_value = unit_name nm @ [0]\<rparr>])"
      using f by (intro exI [of _ "fl_props ?f"]) (simp add: fills_def node_fill_def Let_def)
  qed (use f n nm t full in \<open>auto simp: ph ty fills_def node_fill_def option_rel_Some1 Let_def split: option.splits\<close>)
qed

fun tree_at :: "bytes \<Rightarrow> kuint32_t \<Rightarrow> (kuaddr_t \<Rightarrow> device_node) \<Rightarrow> kuaddr_t \<Rightarrow> bytes option \<Rightarrow> kuaddr_t \<Rightarrow> fdt_tree \<Rightarrow> bool"
  and forest_at :: "bytes \<Rightarrow> kuint32_t \<Rightarrow> (kuaddr_t \<Rightarrow> device_node) \<Rightarrow> kuaddr_t \<Rightarrow> bytes option \<Rightarrow> kuaddr_t \<Rightarrow> fdt_tree list \<Rightarrow> bool" where
  "tree_at blob ss ns par pre a (Fdt_Node nm ps cs) \<longleftrightarrow> isValid a \<and> dn_parent (ns a) = par \<and> node_is blob ss pre nm ps (ns a) \<and>
     forest_at blob ss ns a (child_pre pre nm) (dn_child (ns a)) cs"
| "forest_at blob ss ns par pre a [] \<longleftrightarrow> a = 0"
| "forest_at blob ss ns par pre a (t # ts) \<longleftrightarrow> tree_at blob ss ns par pre a t \<and> forest_at blob ss ns par pre (dn_sibling (ns a)) ts"

text \<open>The nodes of a tree in memory, parents before their children.\<close>

fun tree_addrs :: "(kuaddr_t \<Rightarrow> device_node) \<Rightarrow> kuaddr_t \<Rightarrow> fdt_tree \<Rightarrow> kuaddr_t list"
  and forest_addrs :: "(kuaddr_t \<Rightarrow> device_node) \<Rightarrow> kuaddr_t \<Rightarrow> fdt_tree list \<Rightarrow> kuaddr_t list" where
  "tree_addrs ns a (Fdt_Node nm ps cs) = a # forest_addrs ns (dn_child (ns a)) cs"
| "forest_addrs ns a [] = []"
| "forest_addrs ns a (t # ts) = tree_addrs ns a t @ forest_addrs ns (dn_sibling (ns a)) ts"

text \<open>
  Later nodes change the links of earlier ones, and neither the tree below a node nor its addresses depend on its own sibling or on
  the list of all nodes.
\<close>

definition kin :: "device_node \<Rightarrow> device_node \<Rightarrow> bool" where
  "kin d e \<longleftrightarrow> (\<exists>n b. e = d\<lparr>dn_allnext := n, dn_sibling := b\<rparr>)"

lemma kin_fields:
  assumes "kin d e"
  shows "dn_parent e = dn_parent d" "dn_child e = dn_child d" "node_is blob ss pre nm ps e = node_is blob ss pre nm ps d"
  using assms by (auto simp: kin_def node_is_def cong: option.case_cong)

lemma tree_at_frame:
  shows "kin (ns a) (ms a) \<Longrightarrow> \<forall>x \<in> set (tl (tree_addrs ns a t)). kin (ns x) (ms x) \<and> dn_sibling (ms x) = dn_sibling (ns x) \<Longrightarrow>
      tree_addrs ms a t = tree_addrs ns a t \<and> (tree_at blob ss ns par pre a t \<longrightarrow> tree_at blob ss ms par pre a t)"
    and "\<forall>x \<in> set (forest_addrs ns a ts). kin (ns x) (ms x) \<and> dn_sibling (ms x) = dn_sibling (ns x) \<Longrightarrow>
      forest_addrs ms a ts = forest_addrs ns a ts \<and> (forest_at blob ss ns par pre a ts \<longrightarrow> forest_at blob ss ms par pre a ts)"
proof (induction blob ss ns par pre a t and blob ss ns par pre a ts rule: tree_at_forest_at.induct)
  case (1 blob ss ns par pre a nm ps cs)
  then show ?case by (simp add: kin_fields)
next
  case (2 blob ss ns par pre a)
  then show ?case by simp
next
  case (3 blob ss ns par pre a t ts)
  obtain as where as: "tree_addrs ns a t = a # as" by (cases t) simp
  then have "kin (ns a) (ms a)" "dn_sibling (ms a) = dn_sibling (ns a)" using "3.prems" by simp_all
  then show ?case using "3.IH" "3.prems" as by auto
qed

section \<open>Building the tree\<close>

text \<open>The links the first node of a new part of the tree gets from the nodes before it.\<close>

definition joined :: "kuaddr_t \<Rightarrow> next_ref \<Rightarrow> kuaddr_t \<Rightarrow> fdt_sys \<Rightarrow> fdt_sys" where
  "joined par nxt a s = (let s = set_allnext nxt a s in if isValid par then link_child par a s else s)"

definition region :: "nat \<Rightarrow> nat \<Rightarrow> kuaddr_t \<Rightarrow> bool" where
  "region m M x \<longleftrightarrow> m \<le> unat x \<and> unat x < M"

definition ready :: "nat \<Rightarrow> nat \<Rightarrow> kuaddr_t \<Rightarrow> next_ref \<Rightarrow> fdt_sys \<Rightarrow> bool" where
  "ready m M par nxt s \<longleftrightarrow> 0 < m \<and> (\<forall>x. region m M x \<longrightarrow> of_nodes s x = zero_node \<and> of_last s x = 0) \<and>
     unat par < m \<and> (isValid par \<longrightarrow> unat (of_last s par) < m) \<and> next_valid nxt \<and>
     (case nxt of Next_Of n \<Rightarrow> unat n < m | _ \<Rightarrow> True)"

definition grown :: "nat \<Rightarrow> nat \<Rightarrow> kuaddr_t \<Rightarrow> next_ref \<Rightarrow> fdt_sys \<Rightarrow> fdt_sys \<Rightarrow> next_ref \<Rightarrow> kuaddr_t list \<Rightarrow> bool" where
  "grown m M par nxt s s' nxt' A \<longleftrightarrow> fdt_mem s' = fdt_mem s \<and> ptr_fdt_memBuffer s' = ptr_fdt_memBuffer s \<and> fdt_pool s' = fdt_pool s \<and>
     fdt_freed s' = fdt_freed s \<and> A \<noteq> [] \<and> distinct A \<and> (\<forall>x \<in> set A. region m M x) \<and>
     successively (\<lambda>x y. dn_allnext (of_nodes s' x) = y) A \<and> dn_allnext (of_nodes s' (last A)) = 0 \<and>
     nxt' = Next_Of (last A) \<and> next_valid (Next_Of (last A)) \<and> sprt_fwk_of_allNodes s' = sprt_fwk_of_allNodes (joined par nxt (hd A) s) \<and>
     (\<forall>x. \<not> region m M x \<longrightarrow> of_nodes s' x = of_nodes (joined par nxt (hd A) s) x) \<and>
     (\<forall>x. \<not> region m M x \<longrightarrow> x \<noteq> par \<longrightarrow> of_last s' x = of_last s x)"

lemma joined_nodes:
  "of_nodes (joined par nxt a s) x =
     (let d = (if nxt = Next_Of x then (of_nodes s x)\<lparr>dn_allnext := a\<rparr> else of_nodes s x)
      in if isValid par \<and> \<not> isValid (of_last s par) \<and> x = par then d\<lparr>dn_child := a\<rparr>
         else if isValid par \<and> isValid (of_last s par) \<and> x = of_last s par then d\<lparr>dn_sibling := a\<rparr> else d)"
  "of_last (joined par nxt a s) x = (if isValid par \<and> x = par then a else of_last s x)"
  "sprt_fwk_of_allNodes (joined par nxt a s) = (if nxt = Next_Head then a else sprt_fwk_of_allNodes s)"
  by (cases nxt; simp add: joined_def set_allnext_def link_child_def Let_def)+

lemma add_node_joined:
  assumes "x \<noteq> a"
  shows "of_nodes (add_node a full par f nxt s) x = of_nodes (joined par nxt a s) x"
  using assms by (cases nxt; simp add: add_node_def joined_def set_allnext_def link_child_def Let_def)

lemma add_node_fields:
  "of_last (add_node a full par f nxt s) x = of_last (joined par nxt a s) x"
  "sprt_fwk_of_allNodes (add_node a full par f nxt s) = sprt_fwk_of_allNodes (joined par nxt a s)"
  "fdt_mem (add_node a full par f nxt s) = fdt_mem s" "fdt_pool (add_node a full par f nxt s) = fdt_pool s"
  "fdt_freed (add_node a full par f nxt s) = fdt_freed s" "ptr_fdt_memBuffer (add_node a full par f nxt s) = ptr_fdt_memBuffer s"
  by (cases nxt; simp add: add_node_def joined_def set_allnext_def link_child_def Let_def)+

lemma add_node_self:
  assumes "nxt \<noteq> Next_Of a" "par \<noteq> a" "of_last s par \<noteq> a"
  shows "of_nodes (add_node a full par f nxt s) a =
     store_fill f ((of_nodes s a)\<lparr>dn_full_name := full, dn_parent := par, dn_phandle := - 1\<rparr>)"
  using assms by (cases nxt; simp add: add_node_def set_allnext_def link_child_def Let_def)

lemma region_mono: "region m M x \<Longrightarrow> m' \<le> m \<Longrightarrow> M \<le> M' \<Longrightarrow> region m' M' x"
  by (simp add: region_def)

lemma grownD:
  assumes "grown m M par nxt s s' nxt' A"
  shows "A \<noteq> []" "distinct A" "\<forall>x \<in> set A. region m M x" "nxt' = Next_Of (last A)" "next_valid nxt'"
    "\<And>x. \<not> region m M x \<Longrightarrow> of_nodes s' x = of_nodes (joined par nxt (hd A) s) x"
    "\<And>x. \<not> region m M x \<Longrightarrow> x \<noteq> par \<Longrightarrow> of_last s' x = of_last s x"
    "region m M (hd A)" "region m M (last A)" "fdt_mem s' = fdt_mem s"
  using assms by (simp_all add: grown_def)

lemma readyD:
  assumes "ready m M par nxt s"
  shows "0 < m" "unat par < m" "isValid par \<Longrightarrow> unat (of_last s par) < m" "next_valid nxt"
    "\<And>n. nxt = Next_Of n \<Longrightarrow> unat n < m" "\<And>x. region m M x \<Longrightarrow> of_nodes s x = zero_node \<and> of_last s x = 0"
  using assms by (simp_all add: ready_def)

lemma joined_outside:
  assumes "ready m M par nxt s" and "region m M x"
  shows "x \<noteq> par" "isValid par \<Longrightarrow> x \<noteq> of_last s par" "nxt \<noteq> Next_Of x" "of_nodes (joined par nxt a s) x = of_nodes s x"
proof -
  note r = readyD [OF assms(1)]
  have x: "m \<le> unat x" using assms(2) by (simp add: region_def)
  show "x \<noteq> par" using r(2) x by auto
  moreover show "isValid par \<Longrightarrow> x \<noteq> of_last s par" using r(3) x by auto
  moreover show "nxt \<noteq> Next_Of x" using r(5) x by auto
  ultimately show "of_nodes (joined par nxt a s) x = of_nodes s x" by (auto simp: joined_nodes Let_def)
qed

lemma ready_grown:
  assumes r: "ready m M par nxt s" and g: "grown m M1 par nxt s s' nxt' A" and l: "isValid par \<Longrightarrow> of_last s' par = hd A"
    and m: "m \<le> M1" "M1 \<le> M"
  shows "ready M1 M par nxt' s'"
proof -
  have z: "of_nodes s' x = zero_node \<and> of_last s' x = 0" if "region M1 M x" for x
  proof -
    have x: "region m M x" "\<not> region m M1 x" using that m by (auto simp: region_def)
    show ?thesis using grownD(6,7) [OF g x(2)] joined_outside [OF r x(1)] readyD(6) [OF r x(1)] by simp
  qed
  have "unat (hd A) < M1" "unat (last A) < M1" using grownD(8,9) [OF g] by (simp_all add: region_def)
  then show ?thesis
    using z readyD(1,2) [OF r] grownD(4,5) [OF g] l m by (simp add: ready_def)
qed

lemma grown_trans:
  assumes r: "ready m M par nxt s" and g: "grown m M1 par nxt s s1 nxt1 A" and h: "grown M1 M par nxt1 s1 s2 nxt2 B"
    and par: "isValid par" "of_last s1 par = hd A" and m: "m \<le> M1" "M1 \<le> M" "M \<le> POOL_LIMIT"
  shows "grown m M par nxt s s2 nxt2 (A @ B)"
    and "\<forall>x \<in> set A. kin (of_nodes s1 x) (of_nodes s2 x) \<and> (x \<noteq> hd A \<longrightarrow> dn_sibling (of_nodes s2 x) = dn_sibling (of_nodes s1 x))"
    and "dn_sibling (of_nodes s2 (hd A)) = hd B"
proof -
  have A: "A \<noteq> []" "B \<noteq> []" "hd A \<in> set A" "last A \<in> set A" using g h by (auto simp: grown_def)
  have rA: "region m M1 (hd A)" "region m M1 (last A)" using g A by (auto simp: grown_def)
  have v: "isValid (hd A)"
    using isValid_of_nat [of "unat (hd A)"] rA(1) r m(2,3) by (simp add: region_def ready_def)
  have nx: "nxt1 = Next_Of (last A)" using g by (simp add: grown_def)
  have eq: "of_nodes s2 x = (let d = (if x = last A then (of_nodes s1 x)\<lparr>dn_allnext := hd B\<rparr> else of_nodes s1 x)
      in if x = hd A then d\<lparr>dn_sibling := hd B\<rparr> else d)" if "\<not> region M1 M x" for x
    using h that par v nx by (auto simp: grown_def joined_nodes Let_def)
  have inA: "\<not> region M1 M x" if "x \<in> set A" for x using grownD(3) [OF g] that by (auto simp: region_def)
  show "\<forall>x \<in> set A. kin (of_nodes s1 x) (of_nodes s2 x) \<and> (x \<noteq> hd A \<longrightarrow> dn_sibling (of_nodes s2 x) = dn_sibling (of_nodes s1 x))"
  proof
    fix x assume "x \<in> set A"
    then have e: "of_nodes s2 x = (let d = (if x = last A then (of_nodes s1 x)\<lparr>dn_allnext := hd B\<rparr> else of_nodes s1 x)
      in if x = hd A then d\<lparr>dn_sibling := hd B\<rparr> else d)" using eq inA by blast
    have "of_nodes s2 x = (of_nodes s1 x)\<lparr>dn_allnext := dn_allnext (of_nodes s2 x), dn_sibling := dn_sibling (of_nodes s2 x)\<rparr>"
      unfolding e by (simp add: Let_def)
    then have "kin (of_nodes s1 x) (of_nodes s2 x)" unfolding kin_def by blast
    then show "kin (of_nodes s1 x) (of_nodes s2 x) \<and> (x \<noteq> hd A \<longrightarrow> dn_sibling (of_nodes s2 x) = dn_sibling (of_nodes s1 x))"
      using e by (simp add: Let_def)
  qed
  show "dn_sibling (of_nodes s2 (hd A)) = hd B" using eq [OF inA [OF A(3)]] by (simp add: Let_def)
  have al: "dn_allnext (of_nodes s2 x) = (if x = last A then hd B else dn_allnext (of_nodes s1 x))" if "x \<in> set A" for x
    using eq [OF inA [OF that]] by (simp add: Let_def)
  have dA: "distinct A" using g by (simp add: grown_def)
  have sA: "successively (\<lambda>x y. dn_allnext (of_nodes s2 x) = y) A"
  proof -
    have "successively (\<lambda>x y. dn_allnext (of_nodes s1 x) = y) A" using g by (simp add: grown_def)
    then show ?thesis using al dA
    proof (induction A)
      case (Cons x xs)
      then show ?case by (cases xs) (auto split: if_splits)
    qed simp
  qed
  have out: "of_nodes s2 x = of_nodes (joined par nxt (hd A) s) x \<and> (x \<noteq> par \<longrightarrow> of_last s2 x = of_last s x)" if "\<not> region m M x" for x
  proof -
    have x: "\<not> region m M1 x" "\<not> region M1 M x" "x \<notin> set A" using that grownD(3) [OF g] m by (auto simp: region_def)
    then have "of_nodes s2 x = of_nodes s1 x" using eq [OF x(2)] A(3,4) by (auto simp: Let_def)
    then show ?thesis using g h x by (simp add: grown_def)
  qed
  have d: "distinct (A @ B)" using grownD(2,3) [OF g] grownD(2,3) [OF h] by (fastforce simp: region_def)
  have reg: "\<forall>x \<in> set (A @ B). region m M x"
    using grownD(3) [OF g] grownD(3) [OF h] m by (fastforce simp: region_def)
  have head: "sprt_fwk_of_allNodes s2 = sprt_fwk_of_allNodes (joined par nxt (hd A) s)"
    using g h nx by (simp add: grown_def joined_nodes)
  show "grown m M par nxt s s2 nxt2 (A @ B)"
    unfolding grown_def using g h A d reg sA al [OF A(4)] out head by (simp add: grown_def successively_append_iff)
qed

lemma ready_mono: "ready m M par nxt s \<Longrightarrow> M' \<le> M \<Longrightarrow> ready m M' par nxt s"
  by (auto simp: ready_def region_def)

lemma grown_node:
  assumes r: "ready m M par nxt s" and M: "M1 \<le> M" "up4 m + 52 < M1" "M1 < POOL_LIMIT"
    and a_def: "a = of_nat (up4 m)" and s1: "s1 = add_node a full par f nxt s"
  shows "grown m M1 par nxt s s1 (Next_Of a) [a]" "isValid a" "ready M1 M a (Next_Of a) s1" "of_last s1 a = 0"
    "isValid par \<Longrightarrow> of_last s1 par = a"
    "of_nodes s1 a = store_fill f (zero_node\<lparr>dn_full_name := full, dn_parent := par, dn_phandle := - 1\<rparr>)"
proof -
  have "m \<le> up4 m" by (rule up4_ge)
  have u: "unat a = up4 m" unfolding a_def using M by (intro unat_pool) linarith
  then have reg: "region m M1 a" "region m M a" using \<open>m \<le> up4 m\<close> M by (simp_all add: region_def)
  show v: "isValid a" unfolding a_def using readyD(1) [OF r] M by (intro isValid_of_nat) (simp_all add: up4_pos)
  have "isValid (of_nat (up4 m + 40))" using M by (intro isValid_of_nat) simp_all
  then have nv: "next_valid (Next_Of a)" by (simp add: next_valid_def NODE_ALLNEXT_def a_def)
  note j = joined_outside [OF r reg(2)]
  note z = readyD(6) [OF r reg(2)]
  show l: "of_last s1 a = 0" "isValid par \<Longrightarrow> of_last s1 par = a" using j(1) z by (simp_all add: s1 add_node_fields joined_nodes)
  have lp: "isValid par \<Longrightarrow> of_last s par \<noteq> a" using j(2) by auto
  show self: "of_nodes s1 a = store_fill f (zero_node\<lparr>dn_full_name := full, dn_parent := par, dn_phandle := - 1\<rparr>)"
  proof (cases "isValid par")
    case True
    then show ?thesis using add_node_self [of nxt a par s full f] j z lp by (simp add: s1)
  next
    case False
    then show ?thesis using z j(3) by (cases nxt; simp add: s1 add_node_def set_allnext_def Let_def)
  qed
  have "x \<noteq> a" if "\<not> region m M1 x" for x using reg(1) that by auto
  then show g: "grown m M1 par nxt s s1 (Next_Of a) [a]"
    using reg(1) nv unfolding grown_def
    by (auto simp: self store_fill_def zero_node_def) (auto simp: s1 add_node_fields add_node_joined joined_nodes)
  have "ready M1 M par (Next_Of a) s1" using l \<open>m \<le> up4 m\<close> M by (intro ready_grown [OF r g]) simp_all
  then show "ready M1 M a (Next_Of a) s1" using u l(1) M by (simp add: ready_def)
qed

lemma grown_children:
  assumes g: "grown m M1 par nxt s s1 (Next_Of a) [a]" and h: "grown M1 M a (Next_Of a) s1 s2 nxt2 B"
    and a: "isValid a" "of_last s1 a = 0" and m: "m \<le> M1" "M1 \<le> M"
  shows "grown m M par nxt s s2 nxt2 (a # B)" "of_nodes s2 a = (of_nodes s1 a)\<lparr>dn_allnext := hd B, dn_child := hd B\<rparr>"
    "isValid par \<Longrightarrow> unat par < m \<Longrightarrow> of_last s2 par = of_last s1 par"
proof -
  have ra: "region m M1 a" using grownD(3) [OF g] by simp
  then have na: "\<not> region M1 M a" by (simp add: region_def)
  then have "of_nodes s2 a = of_nodes (joined a (Next_Of a) (hd B) s1) a" by (rule grownD(6) [OF h])
  then show e: "of_nodes s2 a = (of_nodes s1 a)\<lparr>dn_allnext := hd B, dn_child := hd B\<rparr>"
    using a by (simp add: joined_nodes Let_def isValid_def)
  have out: "of_nodes s2 x = of_nodes s1 x \<and> of_last s2 x = of_last s1 x" if "\<not> region M1 M x" "x \<noteq> a" for x
    using grownD(6,7) [OF h that(1)] that(2) a by (simp add: joined_nodes Let_def isValid_def)
  show "isValid par \<Longrightarrow> unat par < m \<Longrightarrow> of_last s2 par = of_last s1 par"
    using out [of par] ra m by (cases "par = a") (auto simp: region_def)
  have reg: "\<forall>x \<in> set (a # B). region m M x" using ra grownD(3) [OF h] m by (fastforce simp: region_def)
  have d: "distinct (a # B)" using na grownD(2,3) [OF h] by auto
  have o1: "of_nodes s2 x = of_nodes (joined par nxt a s) x \<and> (x \<noteq> par \<longrightarrow> of_last s2 x = of_last s x)" if "\<not> region m M x" for x
  proof -
    have x: "\<not> region m M1 x" "\<not> region M1 M x" using that m by (auto simp: region_def)
    moreover have "x \<noteq> a" using x(1) ra by auto
    ultimately show ?thesis using out [OF x(2)] grownD(6,7) [OF g x(1)] by simp
  qed
  have head: "sprt_fwk_of_allNodes s2 = sprt_fwk_of_allNodes (joined par nxt a s)"
    using g h by (simp add: grown_def joined_nodes)
  show "grown m M par nxt s s2 nxt2 (a # B)"
    unfolding grown_def using g h d reg e o1 head by (simp add: grown_def successively_Cons)
qed

lemma hd_tree_addrs [simp]: "hd (tree_addrs ns a t) = a" "tree_addrs ns a t \<noteq> []"
  by (cases t; simp)+

text \<open>
  The second walk over a tree comes out behind it with the tree in memory, its nodes linked in order behind those before.
\<close>

lemma build_tree:
  shows "fdt_ok bs blob ss \<Longrightarrow> blob = fdt_mem s bs \<Longrightarrow> at_blob blob k (flat_tree t) \<Longrightarrow> k mod 4 = 0 \<Longrightarrow> tree_ok blob ss pre t \<Longrightarrow>
      par_ok (of_nodes s) par pre \<Longrightarrow> ready m (lay_tree blob ss pre t m) par nxt s \<Longrightarrow> lay_tree blob ss pre t m < POOL_LIMIT \<Longrightarrow>
      \<exists>s' nxt'. unflatten_loop bs s (of_nat k) (of_nat m) par nxt =
             unflatten_loop bs s' (of_nat (k + length (flat_tree t))) (of_nat (lay_tree blob ss pre t m)) par nxt' \<and>
           grown m (lay_tree blob ss pre t m) par nxt s s' nxt' (tree_addrs (of_nodes s') (of_nat (up4 m)) t) \<and>
           tree_at blob ss (of_nodes s') par pre (of_nat (up4 m)) t \<and> dn_sibling (of_nodes s' (of_nat (up4 m))) = 0 \<and>
           (isValid par \<longrightarrow> of_last s' par = of_nat (up4 m))"
    and "fdt_ok bs blob ss \<Longrightarrow> blob = fdt_mem s bs \<Longrightarrow> at_blob blob k (concat (map flat_tree ts)) \<Longrightarrow> k mod 4 = 0 \<Longrightarrow> forest_ok blob ss pre ts \<Longrightarrow>
      par_ok (of_nodes s) par pre \<Longrightarrow> isValid par \<Longrightarrow> ready m (lay_forest blob ss pre ts m) par nxt s \<Longrightarrow>
      lay_forest blob ss pre ts m < POOL_LIMIT \<Longrightarrow> ts \<noteq> [] \<Longrightarrow>
      \<exists>s' nxt'. unflatten_loop bs s (of_nat k) (of_nat m) par nxt =
             unflatten_loop bs s' (of_nat (k + length (concat (map flat_tree ts)))) (of_nat (lay_forest blob ss pre ts m)) par nxt' \<and>
           grown m (lay_forest blob ss pre ts m) par nxt s s' nxt' (forest_addrs (of_nodes s') (of_nat (up4 m)) ts) \<and>
           forest_at blob ss (of_nodes s') par pre (of_nat (up4 m)) ts"
proof (induction blob ss pre t m and blob ss pre ts m arbitrary: s k par nxt and s k par nxt rule: lay_tree_lay_forest.induct)
  case (1 blob ss pre nm ps cs m)
  let ?k = "k + length (node_head nm ps)" and ?m = "lay_node blob ss pre nm ps m" and ?M = "lay_tree blob ss pre (Fdt_Node nm ps cs) m"
  define a :: kuaddr_t where "a = of_nat (up4 m)"
  define f where "f = node_fill blob ss (k + 4 + up4 (length nm + 1)) nm ps"
  define s1 where "s1 = add_node (of_nat (up4 m)) (full_path pre nm @ [0]) par f nxt s"
  note tp = tree_parts [OF "1.prems"(1,3,4,5)]
  obtain tag where n: "node_ok bs blob ss k pre nm ps tag" using tp(1) by blast
  have le: "?m \<le> ?M" using lay_tree_ge(2) [of ?m blob ss "child_pre pre nm" cs] by simp
  then have lay: "?m < POOL_LIMIT" using "1.prems"(8) by linarith
  have s1: "s1 = add_node a (full_path pre nm @ [0]) par f nxt s" by (simp add: s1_def a_def)
  note gn = grown_node [OF "1.prems"(7) le lay_node_gt lay a_def s1]
  have pop: "fwk_fdt_populate_node bs s (of_nat k) (of_nat m) par nxt = Some (a, s1, of_nat ?k, of_nat ?m, Next_Of a)"
    using populate_node_build [of bs s ss k pre nm ps tag m par nxt] n lay "1.prems"(6) readyD(4) [OF "1.prems"(7)]
    unfolding "1.prems"(2) s1_def f_def a_def by blast
  have step: "unflatten_loop bs s (of_nat k) (of_nat m) par nxt = unflatten_loop bs s1 (of_nat ?k) (of_nat ?m) a (Next_Of a)"
    using loop_node [OF _ pop gn(2)] node_parts(1) [OF n lay] "1.prems"(2) by simp
  have mem1: "fdt_mem s1 = fdt_mem s" using grownD(10) [OF gn(1)] .
  have fp: "dn_full_name (of_nodes s1 a) = full_path pre nm @ [0]" "dn_parent (of_nodes s1 a) = par"
      "dn_child (of_nodes s1 a) = 0" "dn_sibling (of_nodes s1 a) = 0"
    by (simp_all add: gn(6) store_fill_def zero_node_def)
  have p1: "par_ok (of_nodes s1) a (child_pre pre nm)"
    using n fp gn(2) by (intro par_ok_child [where ms = "of_nodes s1", OF _ "1.prems"(6)]) (simp_all add: node_ok_def)
  have atp: "at_blob blob (k + 4 + up4 (length nm + 1)) (concat (map flat_prop ps))"
    using n by (simp add: node_ok_def node_head_def at_blob_append add.assoc)
  have is1: "node_is blob ss pre nm ps (of_nodes s1 a)"
    unfolding gn(6) f_def by (rule node_fill_is [OF atp]) simp
  obtain s2 nxt2 where s2: "unflatten_loop bs s1 (of_nat ?k) (of_nat ?m) a (Next_Of a) =
        unflatten_loop bs s2 (of_nat (?k + length (concat (map flat_tree cs)))) (of_nat ?M) a nxt2"
      "grown m ?M par nxt s s2 nxt2 (tree_addrs (of_nodes s2) a (Fdt_Node nm ps cs))"
      "tree_at blob ss (of_nodes s2) par pre a (Fdt_Node nm ps cs)" "dn_sibling (of_nodes s2 a) = 0" "dn_parent (of_nodes s2 a) = par"
      "isValid par \<longrightarrow> of_last s2 par = a"
  proof (cases "cs = []")
    case True
    then show ?thesis using gn fp is1 that [of s1 "Next_Of a"] by simp
  next
    case False
    have "\<exists>s2 nxt2. unflatten_loop bs s1 (of_nat ?k) (of_nat ?m) a (Next_Of a) =
        unflatten_loop bs s2 (of_nat (?k + length (concat (map flat_tree cs)))) (of_nat ?M) a nxt2 \<and>
        grown ?m ?M a (Next_Of a) s1 s2 nxt2 (forest_addrs (of_nodes s2) (of_nat (up4 ?m)) cs) \<and>
        forest_at blob ss (of_nodes s2) a (child_pre pre nm) (of_nat (up4 ?m)) cs"
      using "1.IH" [of s1 ?k a "Next_Of a"] "1.prems"(1,2,5,8) mem1 tp(2,4) p1 gn(2,3) False by simp
    then obtain s2 nxt2 where c: "unflatten_loop bs s1 (of_nat ?k) (of_nat ?m) a (Next_Of a) =
        unflatten_loop bs s2 (of_nat (?k + length (concat (map flat_tree cs)))) (of_nat ?M) a nxt2"
        "grown ?m ?M a (Next_Of a) s1 s2 nxt2 (forest_addrs (of_nodes s2) (of_nat (up4 ?m)) cs)"
        "forest_at blob ss (of_nodes s2) a (child_pre pre nm) (of_nat (up4 ?m)) cs" by blast
    have b: "hd (forest_addrs (of_nodes s2) (of_nat (up4 ?m)) cs) = of_nat (up4 ?m)" using False by (cases cs) simp_all
    have mm: "m \<le> ?m" using up4_ge [of m] lay_node_gt [of m blob ss pre nm ps] by linarith
    note gc = grown_children [OF gn(1) c(2) gn(2,4) mm le, unfolded b]
    have "node_is blob ss pre nm ps (of_nodes s2 a)" using is1 unfolding gc(2) by (simp add: node_is_def cong: option.case_cong)
    then show ?thesis
      using that [OF c(1)] c(3) gc gn(2,5) fp readyD(2) [OF "1.prems"(7)] by simp
  qed
  have ne: "node_end a nxt2 s2 = (par, s2)"
    using gn(2) s2(5) grownD(5) [OF s2(2)] grownD(4) [OF s2(2)] by (simp add: node_end_def)
  have "fdt_mem s2 bs = blob" using grownD(10) [OF s2(2)] "1.prems"(2) by simp
  then have "unflatten_loop bs s2 (of_nat (?k + length (concat (map flat_tree cs)))) (of_nat ?M) a nxt2 =
      unflatten_loop bs s2 (of_nat (k + length (flat_tree (Fdt_Node nm ps cs)))) (of_nat ?M) par nxt2"
    using loop_end [OF _ ne] tp(3) unfolding flat_node_split by (simp add: add.assoc)
  then show ?case using step s2 unfolding a_def by metis
next
  case (2 blob ss pre m)
  then show ?case by simp
next
  case (3 blob ss pre t ts m)
  let ?m = "lay_tree blob ss pre t m" and ?k = "k + length (flat_tree t)" and ?M = "lay_forest blob ss pre (t # ts) m"
  define a :: kuaddr_t where "a = of_nat (up4 m)"
  have at: "at_blob blob k (flat_tree t)" "at_blob blob ?k (concat (map flat_tree ts))"
    using "3.prems"(3) by (simp_all add: at_blob_append)
  have k: "?k mod 4 = 0" using "3.prems"(4) length_flat_tree [of t] by (rule mod4_add)
  have le: "m \<le> ?m" "?m \<le> ?M" using lay_tree_ge by simp_all
  have lay: "?m < POOL_LIMIT" using "3.prems"(9) le(2) by linarith
  have "\<exists>s1 nxt1. unflatten_loop bs s (of_nat k) (of_nat m) par nxt = unflatten_loop bs s1 (of_nat ?k) (of_nat ?m) par nxt1 \<and>
      grown m ?m par nxt s s1 nxt1 (tree_addrs (of_nodes s1) a t) \<and> tree_at blob ss (of_nodes s1) par pre a t \<and>
      dn_sibling (of_nodes s1 a) = 0 \<and> (isValid par \<longrightarrow> of_last s1 par = a)"
    using "3.IH"(1) [of s k par nxt] "3.prems"(1,2,4-6) at(1) ready_mono [OF "3.prems"(8) le(2)] lay unfolding a_def by simp
  then obtain s1 nxt1 where t: "unflatten_loop bs s (of_nat k) (of_nat m) par nxt = unflatten_loop bs s1 (of_nat ?k) (of_nat ?m) par nxt1"
      "grown m ?m par nxt s s1 nxt1 (tree_addrs (of_nodes s1) a t)" "tree_at blob ss (of_nodes s1) par pre a t"
      "dn_sibling (of_nodes s1 a) = 0" "of_last s1 par = a" using "3.prems"(7) by blast
  show ?case
  proof (cases "ts = []")
    case True
    then show ?thesis using t unfolding a_def by (intro exI [of _ s1] exI [of _ nxt1]) simp
  next
    case False
    let ?b = "of_nat (up4 ?m) :: kuaddr_t"
    have r: "ready ?m ?M par nxt1 s1" using t(5) by (intro ready_grown [OF "3.prems"(8) t(2) _ le]) simp
    have mem: "fdt_mem s1 = fdt_mem s" using grownD(10) [OF t(2)] .
    have "unat par < m" by (rule readyD(2) [OF "3.prems"(8)])
    then have "of_nodes s1 par = of_nodes (joined par nxt a s) par"
      using grownD(6) [OF t(2), of par] by (simp add: region_def)
    then have "par_ok (of_nodes s1) par pre"
      using "3.prems"(6) par_ok_cong [of "of_nodes s1" par "of_nodes s" pre] by (simp add: joined_nodes Let_def)
    then have "\<exists>s2 nxt2. unflatten_loop bs s1 (of_nat ?k) (of_nat ?m) par nxt1 =
        unflatten_loop bs s2 (of_nat (?k + length (concat (map flat_tree ts)))) (of_nat ?M) par nxt2 \<and>
        grown ?m ?M par nxt1 s1 s2 nxt2 (forest_addrs (of_nodes s2) ?b ts) \<and> forest_at blob ss (of_nodes s2) par pre ?b ts"
      using "3.IH"(2) [of s1 ?k par nxt1] "3.prems"(1,2,5,7,9) mem at(2) k r False by simp
    then obtain s2 nxt2 where u: "unflatten_loop bs s1 (of_nat ?k) (of_nat ?m) par nxt1 =
        unflatten_loop bs s2 (of_nat (?k + length (concat (map flat_tree ts)))) (of_nat ?M) par nxt2"
        "grown ?m ?M par nxt1 s1 s2 nxt2 (forest_addrs (of_nodes s2) ?b ts)" "forest_at blob ss (of_nodes s2) par pre ?b ts" by blast
    have b: "hd (forest_addrs (of_nodes s2) ?b ts) = ?b" using False by (cases ts) simp_all
    have "of_last s1 par = hd (tree_addrs (of_nodes s1) a t)" using t(5) by simp
    note gt = grown_trans [OF "3.prems"(8) t(2) u(2) "3.prems"(7) this le less_imp_le [OF "3.prems"(9)], unfolded b hd_tree_addrs]
    have "kin (of_nodes s1 a) (of_nodes s2 a)" using gt(2) by (cases t) simp
    moreover have "\<forall>x \<in> set (tl (tree_addrs (of_nodes s1) a t)). kin (of_nodes s1 x) (of_nodes s2 x) \<and> dn_sibling (of_nodes s2 x) = dn_sibling (of_nodes s1 x)"
      using gt(2) grownD(2) [OF t(2)] by (cases t) auto
    ultimately have fr: "tree_addrs (of_nodes s2) a t = tree_addrs (of_nodes s1) a t" "tree_at blob ss (of_nodes s2) par pre a t"
      using tree_at_frame(1) [of "of_nodes s1" a "of_nodes s2" t blob ss par pre] t(3) by blast+
    have "forest_addrs (of_nodes s2) a (t # ts) = tree_addrs (of_nodes s1) a t @ forest_addrs (of_nodes s2) ?b ts"
      using gt(3) fr(1) by simp
    moreover have "forest_at blob ss (of_nodes s2) par pre a (t # ts)" using fr(2) gt(3) u(3) by simp
    ultimately show ?thesis
      using t(1) u(1) gt(1) unfolding a_def by (intro exI [of _ s2] exI [of _ nxt2]) (simp add: add.assoc)
  qed
qed

section \<open>The whole blob\<close>

text \<open>A blob at \<open>bs\<close> written for the tree \<open>t\<close>, with its structure block at \<open>so\<close> and its strings at \<open>ss\<close>.\<close>

definition holds_tree :: "kuaddr_t \<Rightarrow> bytes \<Rightarrow> kuint32_t \<Rightarrow> nat \<Rightarrow> fdt_tree \<Rightarrow> bool" where
  "holds_tree bs blob ss so t \<longleftrightarrow> isValid bs \<and> fdt_ok bs blob ss \<and> fdt_word blob 0 = Some FDT_MAGIC_VERIFY \<and>
     fdt_word blob 8 = Some (of_nat so) \<and> so mod 4 = 0 \<and> at_blob blob so (flat_tree t @ be_bytes32 FDT_ALL_NODE_END) \<and>
     tree_ok blob ss None t"

lemma lay_props_shift: "d mod 4 = 0 \<Longrightarrow> lay_props (d + m) n = d + lay_props m n"
  by (induction n arbitrary: m) (simp_all add: up4_add add.assoc)

lemma lay_node_shift: "d mod 4 = 0 \<Longrightarrow> lay_node blob ss pre nm ps (d + m) = d + lay_node blob ss pre nm ps m"
  by (simp add: lay_node_def lay_fill_def up4_add lay_props_shift add.assoc Let_def)

lemma lay_tree_shift:
  shows "d mod 4 = 0 \<Longrightarrow> lay_tree blob ss pre t (d + m) = d + lay_tree blob ss pre t m"
    and "d mod 4 = 0 \<Longrightarrow> lay_forest blob ss pre ts (d + m) = d + lay_forest blob ss pre ts m"
  by (induction blob ss pre t m and blob ss pre ts m rule: lay_tree_lay_forest.induct) (simp_all add: lay_node_shift)

lemma lay_tree_pos: "52 < lay_tree blob ss pre t m"
proof (cases t)
  case (Fdt_Node nm ps cs)
  then show ?thesis
    using lay_node_gt [of m blob ss pre nm ps] lay_tree_ge(2) [of "lay_node blob ss pre nm ps m" blob ss "child_pre pre nm" cs] by simp
qed

lemma tree_starts: "\<exists>y. flat_tree t = be_bytes32 FDT_NODE_START @ y"
  by (cases t) simp

lemma loop_stop: "fdt_word (fdt_mem s bs) mv = Some FDT_ALL_NODE_END \<Longrightarrow> unflatten_loop bs s mv mem lst nxt = Some (mem, s)"
  by (subst unflatten_loop.simps) (simp add: fdt_tags)

lemma holds_treeD:
  assumes "holds_tree bs blob ss so t"
  shows "isValid bs" "fdt_ok bs blob ss" "fdt_word blob 0 = Some FDT_MAGIC_VERIFY" "fdt_word blob 8 = Some (of_nat so)" "so mod 4 = 0"
    "at_blob blob so (flat_tree t)" "tree_ok blob ss None t" "fdt_word blob (of_nat so) = Some FDT_NODE_START"
    "fdt_word blob (of_nat (so + length (flat_tree t))) = Some FDT_ALL_NODE_END"
proof -
  show h: "isValid bs" "fdt_ok bs blob ss" "fdt_word blob 0 = Some FDT_MAGIC_VERIFY" "fdt_word blob 8 = Some (of_nat so)" "so mod 4 = 0"
    "at_blob blob so (flat_tree t)" "tree_ok blob ss None t"
    using assms by (simp_all add: holds_tree_def at_blob_append)
  have l: "length blob < 2 ^ 32" using h(2) by (simp add: fdt_ok_def)
  obtain y where "flat_tree t = be_bytes32 FDT_NODE_START @ y" using tree_starts by blast
  then have "at_blob blob so (be_bytes32 FDT_NODE_START)" using h(6) by (simp add: at_blob_append)
  then show "fdt_word blob (of_nat so) = Some FDT_NODE_START" using l by (rule fdt_word_at)
  have "at_blob blob (so + length (flat_tree t)) (be_bytes32 FDT_ALL_NODE_END)"
    using assms by (simp add: holds_tree_def at_blob_append)
  then show "fdt_word blob (of_nat (so + length (flat_tree t))) = Some FDT_ALL_NODE_END" using l by (rule fdt_word_at)
qed

lemma par_ok_root: "par_ok ns 0 None"
  by (simp add: par_ok_def)

text \<open>The first walk returns the memory for the tree, or fails with nothing left in use.\<close>

lemma first_walk:
  assumes h: "holds_tree bs (fdt_mem s bs) ss so t" and lay: "lay_tree (fdt_mem s bs) ss None t 0 < POOL_LIMIT"
  shows "fresh_tree [] None t (fdt_pool s) = Some as \<Longrightarrow>
      \<exists>s'. fwk_unflatten_dt_nodes bs 0 (of_nat so) Next_Null s = Some (of_nat (lay_tree (fdt_mem s bs) ss None t 0), s') \<and>
           counted [] s s' \<and> fdt_pool s' = as"
    and "short_tree [] None t (fdt_pool s) \<Longrightarrow>
      \<exists>s'. fwk_unflatten_dt_nodes bs 0 (of_nat so) Next_Null s = Some (0, s') \<and> counted [] s s' \<and> fdt_pool s' = []"
proof -
  note d = holds_treeD [OF h]
  have u: "fwk_unflatten_dt_nodes bs 0 (of_nat so) Next_Null s = unflatten_loop bs s (of_nat so) (of_nat 0) 0 Next_Null"
    using d(1,8) by (simp add: fwk_unflatten_dt_nodes_def)
  show "\<exists>s'. fwk_unflatten_dt_nodes bs 0 (of_nat so) Next_Null s = Some (of_nat (lay_tree (fdt_mem s bs) ss None t 0), s') \<and>
           counted [] s s' \<and> fdt_pool s' = as" if f: "fresh_tree [] None t (fdt_pool s) = Some as"
  proof -
    obtain s' where s': "unflatten_loop bs s (of_nat so) (of_nat 0) 0 Next_Null = unflatten_loop bs s' (of_nat (so + length (flat_tree t)))
          (of_nat (lay_tree (fdt_mem s bs) ss None t 0)) 0 Next_Null" "counted [] s s'" "fdt_pool s' = as"
      using count_tree(1) [OF d(2) refl d(6,5,7) par_ok_root _ f lay] by auto
    have "fdt_mem s' = fdt_mem s" using s'(2) by (simp add: counted_def)
    then show ?thesis using s' u loop_stop [of s' bs] d(9) by auto
  qed
  show "\<exists>s'. fwk_unflatten_dt_nodes bs 0 (of_nat so) Next_Null s = Some (0, s') \<and> counted [] s s' \<and> fdt_pool s' = []"
    if f: "short_tree [] None t (fdt_pool s)"
  proof -
    obtain s' where "unflatten_loop bs s (of_nat so) (of_nat 0) 0 Next_Null = map_option (Pair 0) (free_nodes 0 s')" "counted [] s s'" "fdt_pool s' = []"
      using count_short(1) [OF d(2) refl d(6,5,7) par_ok_root _ f lay] by auto
    then show ?thesis using u by (auto simp: free_nodes.simps [of 0] isValid_def)
  qed
qed

text \<open>The second walk, into a zeroed block.\<close>

lemma second_walk:
  assumes h: "holds_tree bs (fdt_mem s bs) ss so t"
    and dt: "unat dt mod 4 = 0" "0 < unat dt" and lay: "unat dt + lay_tree (fdt_mem s bs) ss None t 0 < POOL_LIMIT"
    and z: "\<forall>x. region (unat dt) (unat dt + lay_tree (fdt_mem s bs) ss None t 0) x \<longrightarrow> of_nodes s x = zero_node \<and> of_last s x = 0"
  shows "\<exists>s' mem nxt. fwk_unflatten_dt_nodes bs dt (of_nat so) Next_Head s = Some (mem, s') \<and>
      grown (unat dt) (unat dt + lay_tree (fdt_mem s bs) ss None t 0) 0 Next_Head s s' nxt (tree_addrs (of_nodes s') dt t) \<and>
      tree_at (fdt_mem s bs) ss (of_nodes s') 0 None dt t"
proof -
  note d = holds_treeD [OF h]
  let ?b = "fdt_mem s bs" and ?m = "unat dt"
  have e: "lay_tree ?b ss None t ?m = ?m + lay_tree ?b ss None t 0" using lay_tree_shift(1) [OF dt(1), of ?b ss None t 0] by simp
  have r: "ready ?m (lay_tree ?b ss None t ?m) 0 Next_Head s"
    using z dt(2) unfolding e by (simp add: ready_def next_valid_def isValid_def)
  have u: "fwk_unflatten_dt_nodes bs dt (of_nat so) Next_Head s = unflatten_loop bs s (of_nat so) (of_nat ?m) 0 Next_Head"
    using d(1,8) by (simp add: fwk_unflatten_dt_nodes_def)
  have a: "of_nat (up4 ?m) = dt" using dt(1) by (simp add: up4_id)
  obtain s' nxt where s': "unflatten_loop bs s (of_nat so) (of_nat ?m) 0 Next_Head =
        unflatten_loop bs s' (of_nat (so + length (flat_tree t))) (of_nat (lay_tree ?b ss None t ?m)) 0 nxt"
      "grown ?m (lay_tree ?b ss None t ?m) 0 Next_Head s s' nxt (tree_addrs (of_nodes s') dt t)" "tree_at ?b ss (of_nodes s') 0 None dt t"
    using build_tree(1) [OF d(2) refl d(6,5,7) par_ok_root r] lay unfolding e [symmetric] a by blast
  have "fdt_mem s' = fdt_mem s" by (rule grownD(10) [OF s'(2)])
  then show ?thesis using s' u loop_stop [of s' bs] d(9) unfolding e by auto
qed

section \<open>Setting up the machine\<close>

text \<open>The block for the nodes: room for the tree and for the guard word, zeroed.\<close>

lemma block_alloc:
  assumes n: "n + 16 < 2 ^ 32" and pool: "fdt_pool s = dt # as" "dt \<noteq> 0" and sz: "sz = mrt_align (of_nat n) 4"
  shows "\<exists>s'. fwk_fdt_memory_alloc (sz + 4) WORD_ALIGN s = (dt, s') \<and> fdt_mem s' = fdt_mem s \<and> fdt_pool s' = as \<and>
      fdt_freed s' = fdt_freed s \<and> sprt_fwk_of_allNodes s' = sprt_fwk_of_allNodes s \<and>
      (\<forall>x. region (unat dt) (unat dt + n) x \<longrightarrow> of_nodes s' x = zero_node \<and> of_last s' x = 0)"
proof -
  have "sz + 4 = of_nat (up4 n + 4)" using unat_align4 [of n] n sz by simp
  moreover have up: "up4 n \<le> n + 3" unfolding up4_def by presburger
  moreover have "up4 n + 4 + 3 < 2 ^ 32" using up n by linarith
  ultimately have "mrt_align (0 + (sz + 4)) WORD_ALIGN = of_nat (up4 (up4 n + 4))"
    using unat_align4 [of "up4 n + 4"] by (simp add: WORD_ALIGN_def)
  moreover have "up4 (up4 n + 4) = up4 n + 4" by (intro up4_id mod4_add) simp_all
  moreover have "unat (of_nat (up4 n + 4) :: kuint32_t) = up4 n + 4" using up n by (intro unat_of_nat_small) linarith
  moreover have "n \<le> up4 n" by (rule up4_ge)
  ultimately show ?thesis
    using pool by (auto simp: fwk_fdt_memory_alloc_def fdt_kzalloc_def in_block_def region_def)
qed

lemma chain_of_list:
  assumes "A \<noteq> []" "successively (\<lambda>x y. dn_allnext (of_nodes s x) = y) A" "dn_allnext (of_nodes s (last A)) = 0" "\<forall>x \<in> set A. isValid x"
  shows "node_chain (of_sys.truncate s) (hd A) A"
  using assms
proof (induction A)
  case (Cons x xs)
  then show ?case by (cases xs) (simp_all add: of_sys.defs)
qed simp

lemma region_valid: "region m M x \<Longrightarrow> 0 < m \<Longrightarrow> M \<le> POOL_LIMIT \<Longrightarrow> isValid x"
  using isValid_of_nat [of "unat x"] by (simp add: region_def)

lemma setup_fields:
  assumes "ptr_fdt_memBuffer s = 0" and h: "holds_tree bs (fdt_mem s bs) ss so t"
  defines "s0 \<equiv> s\<lparr>ptr_fdt_memBuffer := bs, sprt_fwk_of_allNodes := 0\<rparr>"
  shows "setup_machine_fdt bs s =
     do { (sz, s) \<leftarrow> fwk_unflatten_dt_nodes bs 0 (of_nat so) Next_Null s0;
          let sz = mrt_align sz 4;
          if sz = 0 then Some s
          else let (dt_mem, s) = fwk_fdt_memory_alloc (sz + 4) WORD_ALIGN s
               in if \<not> isValid dt_mem then Some s
                  else do {
                    start \<leftarrow> fdt_word (fdt_mem s bs) 8;
                    (_, s) \<leftarrow> fwk_unflatten_dt_nodes bs dt_mem start Next_Head s;
                    Some s } }"
proof -
  note d = holds_treeD [OF h]
  have "fwk_early_init_dt_params bs s = s0" using assms(1) by (simp add: fwk_early_init_dt_params_def s0_def isValid_def)
  then show ?thesis
    using d(1,3,4)
    by (simp add: setup_machine_fdt_def fwk_early_init_dt_verify_def fwk_unflatten_device_tree_def unflatten_device_tree_blob_def s0_def)
qed

lemma setup_builds:
  assumes p: "ptr_fdt_memBuffer s = 0" and h: "holds_tree bs (fdt_mem s bs) ss so t"
    and f: "fresh_tree [] None t (fdt_pool s) = Some (dt # as)" and dt: "isValid dt" "unat dt mod 4 = 0"
    and lay: "unat dt + lay_tree (fdt_mem s bs) ss None t 0 < POOL_LIMIT"
  shows "\<exists>s'. setup_machine_fdt bs s = Some s' \<and> sprt_fwk_of_allNodes s' = dt \<and> tree_at (fdt_mem s bs) ss (of_nodes s') 0 None dt t \<and>
      node_chain (of_sys.truncate s') dt (tree_addrs (of_nodes s') dt t) \<and> distinct (tree_addrs (of_nodes s') dt t) \<and>
      (\<forall>a \<in> set (tree_addrs (of_nodes s') dt t). region (unat dt) (unat dt + lay_tree (fdt_mem s bs) ss None t 0) a) \<and>
      fdt_pool s' = as \<and> mset (fdt_freed s') + mset (dt # as) = mset (fdt_freed s) + mset (fdt_pool s)"
proof -
  let ?b = "fdt_mem s bs" and ?n = "lay_tree (fdt_mem s bs) ss None t 0" and ?s0 = "s\<lparr>ptr_fdt_memBuffer := bs, sprt_fwk_of_allNodes := 0\<rparr>"
  obtain s1 where s1: "fwk_unflatten_dt_nodes bs 0 (of_nat so) Next_Null ?s0 = Some (of_nat ?n, s1)" "counted [] ?s0 s1" "fdt_pool s1 = dt # as"
    using first_walk(1) [of bs ?s0 ss so t "dt # as"] h f lay by auto
  have m1: "fdt_mem s1 = fdt_mem s" "sprt_fwk_of_allNodes s1 = 0" using s1(2) by (simp_all add: counted_def)
  have n: "?n + 16 < 2 ^ 32" "?n + 3 < 2 ^ 32" "0 < ?n" using lay lay_tree_pos [of ?b ss None t 0] by (simp_all add: POOL_LIMIT_def)
  have sz: "mrt_align (of_nat ?n) 4 \<noteq> 0"
  proof -
    have "up4 ?n \<le> ?n + 3" unfolding up4_def by presburger
    then have "unat (of_nat (up4 ?n) :: kuint32_t) = up4 ?n" using n(2) by (intro unat_of_nat_small) linarith
    then show ?thesis using unat_align4 [OF n(2)] up4_pos [OF n(3)] by (metis less_irrefl unat_0)
  qed
  have d0: "dt \<noteq> 0" "0 < unat dt" using dt(1) by (simp_all add: isValid_def unat_gt_0)
  obtain s2 where s2: "fwk_fdt_memory_alloc (mrt_align (of_nat ?n) 4 + 4) WORD_ALIGN s1 = (dt, s2)" "fdt_mem s2 = fdt_mem s1" "fdt_pool s2 = as"
      "fdt_freed s2 = fdt_freed s1" "sprt_fwk_of_allNodes s2 = sprt_fwk_of_allNodes s1"
      "\<forall>x. region (unat dt) (unat dt + ?n) x \<longrightarrow> of_nodes s2 x = zero_node \<and> of_last s2 x = 0"
    using block_alloc [OF n(1) s1(3) d0(1) refl] by blast
  obtain s' mem nxt where s': "fwk_unflatten_dt_nodes bs dt (of_nat so) Next_Head s2 = Some (mem, s')"
      "grown (unat dt) (unat dt + ?n) 0 Next_Head s2 s' nxt (tree_addrs (of_nodes s') dt t)" "tree_at ?b ss (of_nodes s') 0 None dt t"
    using second_walk [of bs s2 ss so t dt] h dt(2) d0(2) lay s2(6) unfolding s2(2) m1(1) by blast
  have "setup_machine_fdt bs s = Some s'"
    using setup_fields [OF p h] s1(1) sz s2(1,2) m1(1) dt(1) holds_treeD(4) [OF h] s'(1) by (simp add: Let_def)
  moreover have hd: "sprt_fwk_of_allNodes s' = dt" using s'(2) by (simp add: grown_def joined_nodes)
  moreover have "node_chain (of_sys.truncate s') dt (tree_addrs (of_nodes s') dt t)"
    using chain_of_list [of "tree_addrs (of_nodes s') dt t" s'] s'(2) d0(2) lay region_valid by (fastforce simp: grown_def)
  moreover obtain fs where fs: "fdt_freed s1 = fs @ fdt_freed s" "mset fs + mset (dt # as) = mset (fdt_pool s)"
    using s1(2,3) by (auto simp: counted_def)
  moreover have "fdt_freed s' = fdt_freed s1" "fdt_pool s' = as" using s'(2) s2(3,4) by (simp_all add: grown_def)
  moreover have "mset (fdt_freed s1) + mset (dt # as) = mset (fdt_freed s) + mset (fdt_pool s)"
    unfolding fs(1) fs(2) [symmetric] by simp
  ultimately show ?thesis using s'(3) grownD(2,3) [OF s'(2)] by metis
qed

lemma setup_short:
  assumes p: "ptr_fdt_memBuffer s = 0" and h: "holds_tree bs (fdt_mem s bs) ss so t"
    and f: "short_tree [] None t (fdt_pool s) \<or> fresh_tree [] None t (fdt_pool s) = Some []"
    and lay: "lay_tree (fdt_mem s bs) ss None t 0 < POOL_LIMIT"
  shows "\<exists>s'. setup_machine_fdt bs s = Some s' \<and> sprt_fwk_of_allNodes s' = 0 \<and> fdt_pool s' = [] \<and>
      mset (fdt_freed s') = mset (fdt_freed s) + mset (fdt_pool s)"
proof -
  let ?s0 = "s\<lparr>ptr_fdt_memBuffer := bs, sprt_fwk_of_allNodes := 0\<rparr>"
  obtain sz s1 where s1: "fwk_unflatten_dt_nodes bs 0 (of_nat so) Next_Null ?s0 = Some (sz, s1)" "counted [] ?s0 s1" "fdt_pool s1 = []"
    using first_walk [of bs ?s0 ss so t] h f lay by auto
  have "setup_machine_fdt bs s = Some s1"
    using setup_fields [OF p h] s1(1,3)
    by (cases "mrt_align sz 4 = 0") (simp_all add: Let_def fwk_fdt_memory_alloc_def fdt_kzalloc_def isValid_def)
  then show ?thesis using s1(2,3) by (auto simp: counted_def ac_simps)
qed

section \<open>Paths\<close>

fun tree_paths :: "bytes option \<Rightarrow> fdt_tree \<Rightarrow> bytes list"
  and forest_paths :: "bytes option \<Rightarrow> fdt_tree list \<Rightarrow> bytes list" where
  "tree_paths pre (Fdt_Node nm ps cs) = full_path pre nm # forest_paths (child_pre pre nm) cs"
| "forest_paths pre [] = []"
| "forest_paths pre (t # ts) = tree_paths pre t @ forest_paths pre ts"

lemma tree_at_paths:
  shows "tree_at blob ss ns par pre a t \<Longrightarrow> tree_ok blob ss pre t \<Longrightarrow>
      map (\<lambda>x. cstr (dn_full_name (ns x))) (tree_addrs ns a t) = tree_paths pre t"
    and "forest_at blob ss ns par pre a ts \<Longrightarrow> forest_ok blob ss pre ts \<Longrightarrow>
      map (\<lambda>x. cstr (dn_full_name (ns x))) (forest_addrs ns a ts) = forest_paths pre ts"
proof (induction blob ss ns par pre a t and blob ss ns par pre a ts rule: tree_at_forest_at.induct)
  case (1 blob ss ns par pre a nm ps cs)
  have "0 \<notin> set (full_path pre nm)"
    using "1.prems"(2) by (auto simp: name_ok_def full_path_def pre_path_def split: option.splits)
  then have "cstr (full_path pre nm @ [0]) = full_path pre nm" using cstr_terminated [of "full_path pre nm" "[]"] by simp
  then show ?case using 1 by (simp add: node_is_def)
qed simp_all

lemma find_zip: "length xs = length ys \<Longrightarrow> map f ys = xs \<Longrightarrow> find (\<lambda>y. p = f y) ys = map_of (zip xs ys) p"
  by (induction xs ys rule: list_induct2) auto

lemma setup_paths:
  assumes t: "tree_at blob ss (of_nodes s) 0 None dt t" "tree_ok blob ss None t"
    and c: "sprt_fwk_of_allNodes s = dt" "node_chain (of_sys.truncate s) dt (tree_addrs (of_nodes s) dt t)" and p: "0 \<notin> set p"
  shows "fwk_of_find_node_by_path (p @ [0]) (of_sys.truncate s) =
     Some (node_or_null (map_of (zip (tree_paths None t) (tree_addrs (of_nodes s) dt t)) p))"
proof -
  let ?A = "tree_addrs (of_nodes s) dt t"
  have m: "map (\<lambda>x. cstr (dn_full_name (of_nodes s x))) ?A = tree_paths None t" by (rule tree_at_paths(1) [OF t])
  then have l: "length (tree_paths None t) = length ?A" by (metis length_map)
  have "cstr (p @ [0]) = p" using cstr_terminated [OF p, of "[]"] by simp
  then show ?thesis
    using find_by_path_chain [of "of_sys.truncate s" ?A "p @ [0]"] c find_zip [OF l m, of p] by (simp add: of_sys.defs)
qed

section \<open>Properties\<close>

text \<open>C26: The tree the boot loader left in memory is rebuilt.  For a blob written for a tree, with a heap whose temporary blocks
  do not overlap nodes still in use, the set-up returns; the list of nodes starts at the block allocated for them, contains every node of the tree
  exactly once, parents before children, inside of the counted memory; every node has the full name, properties, name, type, phandle,
  parent, children and siblings the tree gives it; and all temporary nodes are released.\<close>

theorem unflatten_builds_tree:
  assumes "ptr_fdt_memBuffer s = 0" and "holds_tree bs (fdt_mem s bs) ss so t"
    and "fresh_tree [] None t (fdt_pool s) = Some (dt # as)" and "isValid dt" and "unat dt mod 4 = 0"
    and "unat dt + lay_tree (fdt_mem s bs) ss None t 0 < POOL_LIMIT"
  shows "\<exists>s'. setup_machine_fdt bs s = Some s' \<and> sprt_fwk_of_allNodes s' = dt \<and> tree_at (fdt_mem s bs) ss (of_nodes s') 0 None dt t \<and>
      node_chain (of_sys.truncate s') dt (tree_addrs (of_nodes s') dt t) \<and> distinct (tree_addrs (of_nodes s') dt t) \<and>
      (\<forall>a \<in> set (tree_addrs (of_nodes s') dt t). region (unat dt) (unat dt + lay_tree (fdt_mem s bs) ss None t 0) a) \<and>
      fdt_pool s' = as \<and> mset (fdt_freed s') + mset (dt # as) = mset (fdt_freed s) + mset (fdt_pool s)"
  using assms by (rule setup_builds)

text \<open>C27: After the set-up every path leads to its node: the search by path returns the node of the tree with that path, the first one when
  a path occurs twice, and the null pointer for a path that is not in the tree.\<close>

theorem unflatten_paths_found:
  assumes "ptr_fdt_memBuffer s = 0" and "holds_tree bs (fdt_mem s bs) ss so t"
    and "fresh_tree [] None t (fdt_pool s) = Some (dt # as)" and "isValid dt" and "unat dt mod 4 = 0"
    and "unat dt + lay_tree (fdt_mem s bs) ss None t 0 < POOL_LIMIT" and "0 \<notin> set p"
  shows "\<exists>s'. setup_machine_fdt bs s = Some s' \<and> length (tree_paths None t) = length (tree_addrs (of_nodes s') dt t) \<and>
      fwk_of_find_node_by_path (p @ [0]) (of_sys.truncate s') =
        Some (node_or_null (map_of (zip (tree_paths None t) (tree_addrs (of_nodes s') dt t)) p))"
proof -
  have ok: "tree_ok (fdt_mem s bs) ss None t" using assms(2) by (simp add: holds_tree_def)
  obtain s' where s': "setup_machine_fdt bs s = Some s'" "sprt_fwk_of_allNodes s' = dt" "tree_at (fdt_mem s bs) ss (of_nodes s') 0 None dt t"
      "node_chain (of_sys.truncate s') dt (tree_addrs (of_nodes s') dt t)"
    using setup_builds [OF assms(1-6)] by blast
  have "length (tree_paths None t) = length (tree_addrs (of_nodes s') dt t)"
    using tree_at_paths(1) [OF s'(3) ok] by (metis length_map)
  then show ?thesis using s'(1) setup_paths [OF s'(3) ok s'(2,4) assms(7)] by blast
qed

text \<open>C28: When the heap runs out, within the temporary nodes or at the block for the tree, the set-up still returns, the list of nodes is empty,
  and everything that was allocated is released.\<close>

theorem unflatten_out_of_memory:
  assumes "ptr_fdt_memBuffer s = 0" and "holds_tree bs (fdt_mem s bs) ss so t"
    and "short_tree [] None t (fdt_pool s) \<or> fresh_tree [] None t (fdt_pool s) = Some []"
    and "lay_tree (fdt_mem s bs) ss None t 0 < POOL_LIMIT"
  shows "\<exists>s'. setup_machine_fdt bs s = Some s' \<and> sprt_fwk_of_allNodes s' = 0 \<and> fdt_pool s' = [] \<and>
      mset (fdt_freed s') = mset (fdt_freed s) + mset (fdt_pool s)"
  using assms by (rule setup_short)

section \<open>Witnesses\<close>

definition ex_tree :: fdt_tree where
  "ex_tree = Fdt_Node [] [] [Fdt_Node [117, 64, 49] [(0, [0, 0, 0, 7])] []]"

definition ex_header :: "kuint32_t list" where
  "ex_header = [FDT_MAGIC_VERIFY, 0, 40, 84, 0, 17, 16, 0, 0, 0]"

definition ex_blob :: bytes where
  "ex_blob = concat (map be_bytes32 ex_header) @ (flat_tree ex_tree @ be_bytes32 FDT_ALL_NODE_END) @ lit ''phandle''"

definition ex_fdt :: "kuaddr_t list \<Rightarrow> fdt_sys" where
  "ex_fdt pool = \<lparr>of_nodes = (\<lambda>_. zero_node), sprt_fwk_of_allNodes = 0, of_last = (\<lambda>_. 0), ptr_fdt_memBuffer = 0,
     fdt_mem = (\<lambda>_. ex_blob), fdt_pool = pool, fdt_freed = []\<rparr>"

lemma ex_lengths: "length (flat_tree ex_tree) = 40" "length (concat (map be_bytes32 ex_header)) = 40"
  by (simp_all add: ex_tree_def ex_header_def flat_prop_def up4_def)

lemma ex_word: "i < 10 \<Longrightarrow> be32 ex_blob (4 * i) = Some (ex_header ! i)"
  unfolding ex_blob_def by (rule be32_cells) (simp add: ex_header_def)

lemma ex_strings: "drop 84 ex_blob = lit ''phandle''"
  by (simp add: ex_blob_def ex_lengths)

lemma ex_at: "at_blob ex_blob 40 (flat_tree ex_tree @ be_bytes32 FDT_ALL_NODE_END)"
  by (simp add: at_blob_def ex_blob_def ex_lengths)

lemma ex_ok: "tree_ok ex_blob 84 None ex_tree"
  by (simp add: ex_tree_def props_ok_def prop_name_def ex_strings name_ok_def child_pre_def) (simp add: lit_def)

lemma ex_holds: "holds_tree 0x83000000 ex_blob 84 40 ex_tree"
  using ex_word [of 0] ex_word [of 2] ex_word [of 3] ex_word [of 5]
  by (simp add: holds_tree_def ex_at ex_ok fdt_ok_def fdt_word_def ex_header_def isValid_def IS_ERR_def)
    (simp add: ex_blob_def ex_lengths lit_def)

lemma ex_fresh: "fresh_tree [] None ex_tree [0x1000, 0x1100, 0x2000] = Some [0x2000]"
  by (simp add: ex_tree_def isValid_def IS_ERR_def in_block_def path_need_def child_pre_def)

lemma ex_short: "short_tree [] None ex_tree [0x1000]"
  by (simp add: ex_tree_def isValid_def IS_ERR_def)

lemma ex_lay: "lay_tree ex_blob 84 None ex_tree 0 = 170"
  by (simp add: ex_tree_def lay_node_def lay_fill_def node_named_def prop_called_def prop_name_def ex_strings path_need_def child_pre_def up4_def Let_def)
     (simp add: lit_def cstr_def)

lemma ex_fdt_fields [simp]: "ptr_fdt_memBuffer (ex_fdt pool) = 0" "fdt_mem (ex_fdt pool) bs = ex_blob" "fdt_pool (ex_fdt pool) = pool"
    "fdt_freed (ex_fdt pool) = []"
  by (simp_all add: ex_fdt_def)

lemma ex_dt: "isValid (0x2000 :: kuaddr_t)"
  by (simp add: isValid_def IS_ERR_def)

theorem unflatten_builds_tree_witness:
  "\<exists>s'. setup_machine_fdt 0x83000000 (ex_fdt [0x1000, 0x1100, 0x2000]) = Some s' \<and> sprt_fwk_of_allNodes s' = 0x2000 \<and>
     tree_at ex_blob 84 (of_nodes s') 0 None 0x2000 ex_tree \<and> mset (fdt_freed s') = mset [0x1000, 0x1100]"
  using unflatten_builds_tree [of "ex_fdt [0x1000, 0x1100, 0x2000]" "0x83000000" 84 40 ex_tree "0x2000" "[]"]
  by (auto simp: ex_holds ex_fresh ex_lay ex_dt POOL_LIMIT_def)

theorem unflatten_paths_found_witness:
  "\<exists>s'. setup_machine_fdt 0x83000000 (ex_fdt [0x1000, 0x1100, 0x2000]) = Some s' \<and>
     fwk_of_find_node_by_path (lit ''/'') (of_sys.truncate s') = Some 0x2000"
  using unflatten_paths_found [of "ex_fdt [0x1000, 0x1100, 0x2000]" "0x83000000" 84 40 ex_tree "0x2000" "[]" "[47]"]
  by (auto simp: ex_holds ex_fresh ex_lay ex_dt POOL_LIMIT_def) (simp add: ex_tree_def full_path_def pre_path_def lit_def)

theorem unflatten_out_of_memory_witness:
  "\<exists>s'. setup_machine_fdt 0x83000000 (ex_fdt [0x1000]) = Some s' \<and> sprt_fwk_of_allNodes s' = 0 \<and> mset (fdt_freed s') = mset [0x1000]"
  using unflatten_out_of_memory [of "ex_fdt [0x1000]" "0x83000000" 84 40 ex_tree]
  by (auto simp: ex_holds ex_short ex_lay POOL_LIMIT_def)

end
