(* ===== verification/Of_Platform.thy ===== *)
theory Of_Platform
  imports Platform_Bus
begin

text \<open>
  Devices with a file (\<^verbatim>\<open>fwk_device_initial\<close>, \<^verbatim>\<open>fwk_device_create\<close>, \<^verbatim>\<open>fwk_device_destroy\<close> of \<^verbatim>\<open>platform/bus_type/fwk_platform.c\<close>), and the platform devices that
  the nodes of the device tree become at start-up (\<^verbatim>\<open>platform/of/fwk_of_device.c\<close>).

  A platform device and the device inside of it share their address.  The flags and the private data of the nodes are kept apart from the tree.
  \<open>None\<close> is a null dereference, or a walk that does not end.
\<close>

section \<open>Devices with a file\<close>

definition zero_device :: fwk_device where
  "zero_device = \<lparr>dv_init_name = None, dv_bus = 0, dv_type = 0, dv_driver = 0, dv_node = 0, dv_name = [], dv_override = None, dv_irq = 0\<rparr>"

definition bs_kzalloc :: "'e bus_sys \<Rightarrow> kuaddr_t \<times> 'e bus_sys" where
  "bs_kzalloc s = (let (a, k) = kb_kmalloc (bs_kobj s) in (a, s\<lparr>bs_kobj := k\<rparr>))"

definition bs_kfree :: "kuaddr_t \<Rightarrow> 'e bus_sys \<Rightarrow> 'e bus_sys" where
  "bs_kfree a s = s\<lparr>bs_kobj := kb_kfree a (bs_kobj s)\<rparr>"

definition new_device :: "kuaddr_t \<Rightarrow> 'e bus_sys \<Rightarrow> 'e bus_sys" where
  "new_device d s = (upd_dev d (\<lambda>_. zero_device) s)\<lparr>bs_kobj := upd_kobj (d + SGRT_KOBJ_OFFSET) (\<lambda>_. zero_kobj) (bs_kobj s)\<rparr>"

definition fwk_device_initial :: "kuaddr_t \<Rightarrow> 'e bus_sys \<Rightarrow> (int \<times> 'e bus_sys) option" where
  "fwk_device_initial d s =
     (let c = d + SGRT_KOBJ_OFFSET
      in do {
        (q, k) \<leftarrow> fwk_find_kobject_by_path 0 (lit ''/sys/'') (fwk_kobject_init c (bs_kobj s));
        if \<not> isValid q then Some (PTR_ERR q, s\<lparr>bs_kobj := k\<rparr>)
        else let st = mrt_fwk_kset_get q k; s = s\<lparr>bs_kobj := upd_kobj c (\<lambda>x. x\<lparr>ko_kset := st\<rparr>) k\<rparr>
             in if \<not> isValid st then Some (PTR_ERR st, s) else Some (ER_NORMAL, s) })"

text \<open>The file operations the inode gets for the type of the device belong to the model of files.\<close>

definition set_inode_dev :: "kuaddr_t \<Rightarrow> int \<Rightarrow> kobj_sys \<Rightarrow> kobj_sys" where
  "set_inode_dev k devNum s =
     (let i = ko_inode (kobjs s k)
      in if in_type (kb_inodes s i) = INODE_TYPE_FILE then s\<lparr>kb_inodes := (kb_inodes s)(i := (kb_inodes s i)\<lparr>in_dev := devNum\<rparr>)\<rparr> else s)"

definition device_create_fail1 :: "kuaddr_t \<Rightarrow> 'e bus_sys \<Rightarrow> kuaddr_t \<times> 'e bus_sys" where
  "device_create_fail1 nm s = (ERR_PTR (- ER_FAILD), bs_kfree nm s)"

definition device_create_fail2 :: "kuaddr_t \<Rightarrow> kuaddr_t \<Rightarrow> 'e bus_sys \<Rightarrow> (kuaddr_t \<times> 'e bus_sys) option" where
  "device_create_fail2 ko nm s =
     do { k \<leftarrow> fwk_kset_kobject_remove ko (bs_kobj s); Some (device_create_fail1 nm (s\<lparr>bs_kobj := k\<rparr>)) }"

definition fwk_device_create ::
  "'e pin_ops \<Rightarrow> (kuaddr_t \<Rightarrow> 'e fwk_bus_type) \<Rightarrow> int \<Rightarrow> bytes option \<Rightarrow> va list \<Rightarrow> 'e bus_sys \<Rightarrow> (kuaddr_t \<times> 'e bus_sys) option" where
  "fwk_device_create pins bt devNum fmt args s =
     (case fmt of
        None \<Rightarrow> Some (ERR_PTR (- ER_ERROR), s)
      | Some f \<Rightarrow>
          do { (par, k) \<leftarrow> fwk_find_kobject_by_path 0 (lit ''/dev/'') (bs_kobj s);
               let s = s\<lparr>bs_kobj := k\<rparr>;
               if \<not> isValid par then Some (ERR_PTR (- ER_NOTFOUND), s)
               else do {
                 let (nm, s) = bs_kzalloc s;
                 r \<leftarrow> vasprintk (isValid nm) (kb_temp (bs_kobj s)) (kb_cnt (bs_kobj s)) f args;
                 (case r of
                    None \<Rightarrow> Some (ERR_PTR (- ER_NOMEM), s)
                  | Some (_, txt, _) \<Rightarrow>
                      do { (ko, k) \<leftarrow> fwk_kobject_populate par txt (bs_kobj s);
                           let s = s\<lparr>bs_kobj := k\<rparr>;
                           if \<not> isValid ko then Some (device_create_fail1 nm s)
                           else do {
                             let s = s\<lparr>bs_kobj := set_inode_dev ko devNum (bs_kobj s)\<rparr>;
                             let (d, s) = bs_kzalloc s;
                             if \<not> isValid d then device_create_fail2 ko nm s
                             else do {
                               (e, s) \<leftarrow> fwk_device_initial d (new_device d s);
                               if e \<noteq> 0 then device_create_fail2 ko nm (bs_kfree d s)
                               else do {
                                 s \<leftarrow> fwk_dev_set_name d (Some FMT_S) [VaStr txt] s;
                                 (e, s) \<leftarrow> fwk_device_add pins bt d s;
                                 if e \<noteq> 0 then device_create_fail2 ko nm (bs_kfree d (fwk_dev_del_name d s))
                                 else Some (d, bs_kfree nm s) } } } }) } })"

definition fwk_device_destroy :: "(kuaddr_t \<Rightarrow> 'e fwk_bus_type) \<Rightarrow> kuaddr_t \<Rightarrow> 'e bus_sys \<Rightarrow> (int \<times> 'e bus_sys) option" where
  "fwk_device_destroy bt d s =
     (if d = 0 then Some (- ER_NOMEM, s)
      else do {
        (par, k) \<leftarrow> fwk_find_kobject_by_path 0 (lit ''/dev/'') (bs_kobj s);
        let s = s\<lparr>bs_kobj := k\<rparr>;
        if \<not> isValid par then Some (- ER_NOTFOUND, s)
        else do {
          nm \<leftarrow> fwk_dev_get_name d s;
          (ko, k) \<leftarrow> fwk_find_kobject_by_path par nm (bs_kobj s);
          let s = s\<lparr>bs_kobj := k\<rparr>;
          if \<not> isValid ko then Some (- ER_NOTFOUND, s)
          else do {
            (_, s) \<leftarrow> fwk_device_del bt d s;
            k \<leftarrow> fwk_kset_kobject_remove ko (bs_kobj s);
            Some (ER_NORMAL, s\<lparr>bs_kobj := k\<rparr>) } } })"

section \<open>Platform devices from the tree\<close>

record platdev =
  pd_id :: int
  pd_resources :: kuaddr_t
  pd_num :: kuint32_t

record 'e plat_sys =
  ps_bus :: "'e bus_sys"
  ps_flags :: "kuaddr_t \<Rightarrow> kuint32_t"
  ps_data :: "kuaddr_t \<Rightarrow> kuaddr_t"
  ps_dev :: "kuaddr_t \<Rightarrow> platdev"
  ps_tab :: "kuaddr_t \<Rightarrow> fwk_resources list"

definition NR_OfNodePopulated :: kuint32_t where "NR_OfNodePopulated = 1"
definition NR_OfNodePopulatedBus :: kuint32_t where "NR_OfNodePopulatedBus = 2"

definition fwk_of_node_set_flag :: "kuaddr_t \<Rightarrow> kuint32_t \<Rightarrow> 'e plat_sys \<Rightarrow> 'e plat_sys" where
  "fwk_of_node_set_flag node flags s = s\<lparr>ps_flags := (ps_flags s)(node := ps_flags s node OR flags)\<rparr>"

definition fwk_of_node_check_flag :: "kuaddr_t \<Rightarrow> kuint32_t \<Rightarrow> 'e plat_sys \<Rightarrow> bool" where
  "fwk_of_node_check_flag node flags s \<longleftrightarrow> ps_flags s node AND flags = flags"

definition ps_kfree :: "kuaddr_t \<Rightarrow> 'e plat_sys \<Rightarrow> 'e plat_sys" where
  "ps_kfree a s = s\<lparr>ps_bus := bs_kfree a (ps_bus s)\<rparr>"

definition fwk_of_register_platdevice ::
  "'e pin_ops \<Rightarrow> (kuaddr_t \<Rightarrow> 'e fwk_bus_type) \<Rightarrow> kuaddr_t \<Rightarrow> kuaddr_t \<Rightarrow> 'e plat_sys \<Rightarrow> (int \<times> 'e plat_sys) option" where
  "fwk_of_register_platdevice pins bt node d s =
     (if \<not> isValid d then Some (- ER_FAULT, s)
      else do {
        (e, b) \<leftarrow> fwk_device_initial d (ps_bus s);
        if e \<noteq> 0 then Some (- ER_FAILD, s\<lparr>ps_bus := b\<rparr>)
        else do {
          i \<leftarrow> fwk_of_get_alias_id node (bs_tree b);
          let full = dn_full_name (of_nodes (bs_tree b) node);
          let b = upd_dev d (\<lambda>x. x\<lparr>dv_name := full, dv_init_name := Some full, dv_node := node, dv_bus := sgrt_fwk_platform_bus_type\<rparr>) b;
          (e, b) \<leftarrow> fwk_device_add pins bt d b;
          Some (e, s\<lparr>ps_bus := b, ps_dev := (ps_dev s)(d := (ps_dev s d)\<lparr>pd_id := i\<rparr>)\<rparr>) } })"

definition fwk_of_unregister_platdevice ::
  "(kuaddr_t \<Rightarrow> 'e fwk_bus_type) \<Rightarrow> kuaddr_t \<Rightarrow> 'e plat_sys \<Rightarrow> 'e plat_sys option" where
  "fwk_of_unregister_platdevice bt node s =
     (let d = ps_data s node
      in if \<not> isValid d then Some s
         else do {
           (_, b) \<leftarrow> fwk_device_del bt d (ps_bus s);
           let s = s\<lparr>ps_bus := b\<rparr>;
           let s = (if isValid (pd_resources (ps_dev s d)) then ps_kfree (pd_resources (ps_dev s d)) s else s);
           Some ((ps_kfree d s)\<lparr>ps_data := (ps_data s)(node := 0)\<rparr>) })"

text \<open>The number of memory resources: the first index that cannot be read.  \<open>res\<close> is the structure on the stack they are read into.\<close>

partial_function (option) count_resources :: "kuaddr_t \<Rightarrow> of_sys \<Rightarrow> fwk_resources \<Rightarrow> kuint32_t \<Rightarrow> kuint32_t option" where
  "count_resources node t res n =
     (case fwk_of_address_to_resource node n res t of
        None \<Rightarrow> None
      | Some (r, res) \<Rightarrow> if r \<noteq> 0 then Some n else count_resources node t res (n + 1))"

definition zero_resource :: fwk_resources where
  "zero_resource = \<lparr>rs_name = [], rs_start = 0, rs_end = 0, rs_type = 0\<rparr>"

text \<open>The table of a node; the memory resources first.  An interrupt that cannot be mapped ends the table of interrupts without an error.\<close>

definition fill_resources ::
  "(kuaddr_t \<Rightarrow> domain_ops) \<Rightarrow> kuaddr_t \<Rightarrow> kuint32_t \<Rightarrow> kuint32_t \<Rightarrow> of_sys \<Rightarrow> irq_sys \<Rightarrow> (fwk_resources list \<times> irq_sys) option" where
  "fill_resources ops node num_res num_irq t q =
     do { ms \<leftarrow> those (map (\<lambda>i. map_option snd (fwk_of_address_to_resource node (of_nat i) zero_resource t)) [0..<unat num_res]);
          (_, is, q) \<leftarrow> fwk_of_irq_to_resource_table ops t node (replicate (unat num_irq) zero_resource) q;
          Some (ms @ is, q) }"

definition alloc_resources ::
  "(kuaddr_t \<Rightarrow> domain_ops) \<Rightarrow> fwk_resources \<Rightarrow> kuaddr_t \<Rightarrow> kuaddr_t \<Rightarrow> 'e plat_sys \<Rightarrow> 'e plat_sys option" where
  "alloc_resources ops res node d s =
     do { let t = bs_tree (ps_bus s);
          num_res \<leftarrow> count_resources node t res 0;
          num_irq \<leftarrow> fwk_of_irq_count node t;
          if num_res + num_irq = 0 then Some s
          else do {
            let (a, b) = bs_kzalloc (ps_bus s);
            let s = s\<lparr>ps_bus := b, ps_dev := (ps_dev s)(d := (ps_dev s d)\<lparr>pd_num := num_res + num_irq, pd_resources := a\<rparr>)\<rparr>;
            if a = 0 then None
            else do { (rs, q) \<leftarrow> fill_resources ops node num_res num_irq t (bs_irq b);
                      Some (s\<lparr>ps_bus := b\<lparr>bs_irq := q\<rparr>, ps_tab := (ps_tab s)(a := rs)\<rparr>) } } }"

definition fwk_of_platform_device_create_pdata ::
  "'e pin_ops \<Rightarrow> (kuaddr_t \<Rightarrow> 'e fwk_bus_type) \<Rightarrow> (kuaddr_t \<Rightarrow> domain_ops) \<Rightarrow> fwk_resources \<Rightarrow> kuaddr_t \<Rightarrow> 'e plat_sys \<Rightarrow> (kuaddr_t \<times> 'e plat_sys) option" where
  "fwk_of_platform_device_create_pdata pins bt ops res node s =
     (if \<not> isValid node then Some (0, s)
      else if \<not> fwk_of_device_is_avaliable node (bs_tree (ps_bus s)) \<or> fwk_of_node_check_flag node NR_OfNodePopulated s then Some (0, s)
      else let (d, b) = bs_kzalloc (ps_bus s)
           in if \<not> isValid d then Some (0, s\<lparr>ps_bus := b\<rparr>)
              else do {
                let s = s\<lparr>ps_bus := new_device d b, ps_dev := (ps_dev s)(d := \<lparr>pd_id = 0, pd_resources = 0, pd_num = 0\<rparr>)\<rparr>;
                s \<leftarrow> alloc_resources ops res node d s;
                (e, s) \<leftarrow> fwk_of_register_platdevice pins bt node d s;
                if e \<noteq> 0
                then let s = (if isValid (pd_resources (ps_dev s d)) then ps_kfree (pd_resources (ps_dev s d)) s else s)
                     in Some (0, ps_kfree d s)
                else Some (d, fwk_of_node_set_flag node NR_OfNodePopulated (s\<lparr>ps_data := (ps_data s)(node := d)\<rparr>)) })"

text \<open>
  \<^verbatim>\<open>fwk_of_platform_bus_create\<close> up to the loop over the children: the code it returns with, or nothing when it goes on to the loop.
\<close>

definition bus_create_head ::
  "'e pin_ops \<Rightarrow> (kuaddr_t \<Rightarrow> 'e fwk_bus_type) \<Rightarrow> (kuaddr_t \<Rightarrow> domain_ops) \<Rightarrow> fwk_resources \<Rightarrow> bytes list \<Rightarrow> bool \<Rightarrow> kuaddr_t \<Rightarrow> 'e plat_sys \<Rightarrow>
    (int option \<times> 'e plat_sys) option" where
  "bus_create_head pins bt ops res matches strict node s =
     (if strict \<and> fwk_of_get_property node (lit ''compatible'') (bs_tree (ps_bus s)) = None then Some (Some (- ER_FAULT), s)
      else if fwk_of_node_check_flag node NR_OfNodePopulatedBus s then Some (Some (- ER_FAULT), s)
      else do {
        (d, s) \<leftarrow> fwk_of_platform_device_create_pdata pins bt ops res node s;
        if \<not> isValid d then Some (Some (- ER_NOMEM), s)
        else do { m \<leftarrow> fwk_of_match_node matches node (bs_tree (ps_bus s));
                  Some (if m = None then Some ER_NORMAL else None, s) } })"

text \<open>The loop over the siblings from \<open>a\<close> on, with the loop over the children of each inside; \<open>r\<close> is the latest result.\<close>

partial_function (option) bus_create_loop ::
  "'e pin_ops \<Rightarrow> (kuaddr_t \<Rightarrow> 'e fwk_bus_type) \<Rightarrow> (kuaddr_t \<Rightarrow> domain_ops) \<Rightarrow> fwk_resources \<Rightarrow> bytes list \<Rightarrow> bool \<Rightarrow> kuaddr_t \<Rightarrow> int \<Rightarrow> 'e plat_sys \<Rightarrow>
    (int \<times> 'e plat_sys) option" where
  "bus_create_loop pins bt ops res matches strict a r s =
     (if a = 0 then Some (r, s)
      else Option.bind (bus_create_head pins bt ops res matches strict a s) (\<lambda>p.
        case fst p of
          Some e \<Rightarrow> bus_create_loop pins bt ops res matches strict (dn_sibling (of_nodes (bs_tree (ps_bus (snd p))) a)) e (snd p)
        | None \<Rightarrow>
            Option.bind (bus_create_loop pins bt ops res matches strict (dn_child (of_nodes (bs_tree (ps_bus (snd p))) a)) 0 (snd p)) (\<lambda>q.
              bus_create_loop pins bt ops res matches strict (dn_sibling (of_nodes (bs_tree (ps_bus (snd q))) a)) ER_NORMAL
                (fwk_of_node_set_flag a NR_OfNodePopulatedBus (snd q)))))"

definition fwk_of_platform_bus_create ::
  "'e pin_ops \<Rightarrow> (kuaddr_t \<Rightarrow> 'e fwk_bus_type) \<Rightarrow> (kuaddr_t \<Rightarrow> domain_ops) \<Rightarrow> fwk_resources \<Rightarrow> bytes list \<Rightarrow> bool \<Rightarrow> kuaddr_t \<Rightarrow> 'e plat_sys \<Rightarrow>
    (int \<times> 'e plat_sys) option" where
  "fwk_of_platform_bus_create pins bt ops res matches strict node s =
     do { (e, s) \<leftarrow> bus_create_head pins bt ops res matches strict node s;
          (case e of
             Some e \<Rightarrow> Some (e, s)
           | None \<Rightarrow> do { (_, s) \<leftarrow> bus_create_loop pins bt ops res matches strict (dn_child (of_nodes (bs_tree (ps_bus s)) node)) 0 s;
                          Some (ER_NORMAL, fwk_of_node_set_flag node NR_OfNodePopulatedBus s) }) }"

definition fwk_of_platform_populate ::
  "'e pin_ops \<Rightarrow> (kuaddr_t \<Rightarrow> 'e fwk_bus_type) \<Rightarrow> (kuaddr_t \<Rightarrow> domain_ops) \<Rightarrow> fwk_resources \<Rightarrow> kuaddr_t \<Rightarrow> bytes list \<Rightarrow> 'e plat_sys \<Rightarrow>
    (int \<times> 'e plat_sys) option" where
  "fwk_of_platform_populate pins bt ops res node matches s =
     do { sprt_head \<leftarrow> (if isValid node then Some node else fwk_of_find_node_by_path (lit ''/'') (bs_tree (ps_bus s)));
          if \<not> isValid sprt_head then Some (- ER_NOMEM, s)
          else bus_create_loop pins bt ops res matches True (dn_child (of_nodes (bs_tree (ps_bus s)) sprt_head)) (- ER_ERROR) s }"

definition sgrt_fwk_of_default_bus_match_table :: "bytes list" where
  "sgrt_fwk_of_default_bus_match_table = [lit ''simple-bus'', lit ''simple-mfd'', lit ''isa'']"

definition fwk_of_platform_default_populate ::
  "'e pin_ops \<Rightarrow> (kuaddr_t \<Rightarrow> 'e fwk_bus_type) \<Rightarrow> (kuaddr_t \<Rightarrow> domain_ops) \<Rightarrow> fwk_resources \<Rightarrow> kuaddr_t \<Rightarrow> 'e plat_sys \<Rightarrow> (int \<times> 'e plat_sys) option" where
  "fwk_of_platform_default_populate pins bt ops res node s =
     fwk_of_platform_populate pins bt ops res node sgrt_fwk_of_default_bus_match_table s"

definition fwk_of_platform_populate_init ::
  "'e pin_ops \<Rightarrow> (kuaddr_t \<Rightarrow> 'e fwk_bus_type) \<Rightarrow> (kuaddr_t \<Rightarrow> domain_ops) \<Rightarrow> fwk_resources \<Rightarrow> 'e plat_sys \<Rightarrow> (int \<times> 'e plat_sys) option" where
  "fwk_of_platform_populate_init pins bt ops res s = fwk_of_platform_default_populate pins bt ops res 0 s"

end
