(* ===== verification/Of_Populate.thy ===== *)
theory Of_Populate
  imports Of_Platform
begin

text \<open>
  What the population of the platform bus from the device tree (\<open>Of_Platform\<close>) does: which nodes become devices, in which order they come to
  the bus, and how they are bound there.
\<close>

section \<open>One device\<close>

text \<open>The directory of devices is there, and no lock is held.\<close>

definition sys_dir :: "kuaddr_t \<Rightarrow> kobj_sys \<Rightarrow> bool" where
  "sys_dir q k \<longleftrightarrow> calm k \<and> child k True sgrt_fwk_kset_root [115, 121, 115] = Some q \<and> isValid q"

lemma sys_path: "sys_dir q k \<Longrightarrow> fwk_find_kobject_by_path 0 (lit ''/sys/'') k = Some (q, k)"
proof -
  assume a: "sys_dir q k"
  have p: "path_scan True [115, 121, 115, 47, 0] (Suc (Suc (Suc 0))) r k = child k True r [115, 121, 115]" for r
    using path_scan_child [of "[115, 121, 115]" True "[47, 0]" r k] by simp
  have e: "find_path_loop True q [47, 0] k = Some (q, k)" by (subst find_path_loop.simps) simp
  have l: "find_path_loop True sgrt_fwk_kset_root [47, 115, 121, 115, 47, 0] k = Some (q, k)"
    using a p e by (subst find_path_loop.simps) (simp add: sys_dir_def ko_acquire_calm ko_release_held_id)
  have "lit ''/sys/'' = [47, 115, 121, 115, 47, 0]" by (simp add: lit_def)
  then show ?thesis using l by (simp add: fwk_find_kobject_by_path_def sgrt_fwk_kset_root_def)
qed

lemma sys_dir_is_dir: "sys_dir q k \<Longrightarrow> ko_is_dir (kobjs k q) \<and> q \<in> set (ks_list k sgrt_fwk_kset_root) \<and> q \<noteq> 0"
  by (auto simp: sys_dir_def child_def find_Some_iff isValid_def)

lemma sys_dir_other:
  assumes "sys_dir q k" and "c \<notin> set (ks_list k sgrt_fwk_kset_root)" and "\<not> spin_is_locked (ko_lock (f (kobjs k c)))"
  shows "sys_dir q (upd_kobj c f k)"
proof -
  have "child (upd_kobj c f k) True sgrt_fwk_kset_root [115, 121, 115] = child k True sgrt_fwk_kset_root [115, 121, 115]"
    unfolding child_def using assms(2) by (intro find_cong) auto
  then show ?thesis using assms by (auto simp: sys_dir_def calm_def)
qed

lemma sys_dir_pool [simp]: "sys_dir q (k\<lparr>kb_pool := ps\<rparr>) = sys_dir q k"
  by (simp add: sys_dir_def calm_def child_def)

text \<open>Memory for new devices: valid addresses, apart from each other, from the known devices and from the objects below the root.\<close>

definition room :: "kuaddr_t \<Rightarrow> 'e bus_sys \<Rightarrow> bool" where
  "room q s \<longleftrightarrow> sys_dir q (bs_kobj s) \<and> distinct (kb_pool (bs_kobj s)) \<and>
     (\<forall>a \<in> set (kb_pool (bs_kobj s)). isValid a \<and> a + SGRT_KOBJ_OFFSET \<notin> set (ks_list (bs_kobj s) sgrt_fwk_kset_root) \<and> a \<notin> set (sgrt_fwk_devices s))"

definition init_kobj :: "kuaddr_t \<Rightarrow> fwk_kobject \<Rightarrow> fwk_kobject" where
  "init_kobj q x = x\<lparr>ko_ref := fwk_kref_init (ko_ref x), ko_lock := spin_lock_init (ko_lock x), ko_is_dir := False, ko_kset := q\<rparr>"

lemma device_initial_ok:
  assumes "sys_dir q (bs_kobj s)" and "d + SGRT_KOBJ_OFFSET \<notin> set (ks_list (bs_kobj s) sgrt_fwk_kset_root)"
  shows "fwk_device_initial d s = Some (ER_NORMAL, s\<lparr>bs_kobj := upd_kobj (d + SGRT_KOBJ_OFFSET) (init_kobj q) (bs_kobj s)\<rparr>)"
    and "sys_dir q (upd_kobj (d + SGRT_KOBJ_OFFSET) (init_kobj q) (bs_kobj s))"
proof -
  let ?c = "d + SGRT_KOBJ_OFFSET" and ?k = "bs_kobj s"
  have i: "sys_dir q (fwk_kobject_init ?c ?k)" unfolding fwk_kobject_init_def
    by (rule sys_dir_other [OF assms]) (simp add: spin_lock_init_def spin_is_locked_def ATOMIC_SET_def)
  have g: "mrt_fwk_kset_get q (fwk_kobject_init ?c ?k) = q" using sys_dir_is_dir [OF i] by (simp add: mrt_fwk_kset_get_def)
  have u: "upd_kobj ?c (\<lambda>x. x\<lparr>ko_kset := q\<rparr>) (fwk_kobject_init ?c ?k) = upd_kobj ?c (init_kobj q) ?k"
    by (simp add: fwk_kobject_init_def upd_kobj_def init_kobj_def)
  have v: "isValid q" using assms(1) by (simp add: sys_dir_def)
  show "fwk_device_initial d s = Some (ER_NORMAL, s\<lparr>bs_kobj := upd_kobj ?c (init_kobj q) ?k\<rparr>)"
    using v g u by (simp add: fwk_device_initial_def sys_path [OF i])
  show "sys_dir q (upd_kobj ?c (init_kobj q) ?k)"
    by (rule sys_dir_other [OF assms]) (simp add: init_kobj_def spin_lock_init_def spin_is_locked_def ATOMIC_SET_def)
qed

lemma find_device_absent:
  assumes "d \<notin> set ls" and "\<forall>l \<in> set (d # ls). dv_init_name (bs_dev s l) \<noteq> None"
    and "\<forall>l \<in> set ls. cstr (the (dv_init_name (bs_dev s l))) \<noteq> cstr (the (dv_init_name (bs_dev s d)))"
  shows "find_device_loop d ls s = Some (- ER_NOTFOUND)"
  using assms by (induction ls) (auto simp: fwk_dev_get_name_def)

text \<open>Neither the match nor the probe of the platform bus touches the interrupts.\<close>

lemma platform_add_irq:
  assumes "bt b = platform_bus drvs" and "dv_bus (bs_dev s d) = b" and "fwk_device_add pins bt d s = Some (r, s')"
  shows "bs_irq s' = bs_irq s"
proof -
  have probe: "bs_irq s2 = bs_irq s1" if "fwk_device_driver_probe pins bt d s1 = Some (r, s2)" "dv_bus (bs_dev s1 d) = b" for r s1 s2
    using that assms(1) by (auto simp: fwk_device_driver_probe_def platform_bus_def fwk_platform_probe_def Let_def
        split: option.splits prod.splits if_splits)
  have mtch: "bs_irq s2 = bs_irq s1 \<and> dv_bus (bs_dev s2 d) = b"
    if "fwk_device_driver_match pins bt d b v s1 = Some (r, s2)" "dv_bus (bs_dev s1 d) = b" for r s1 s2 v
    using that assms(1) probe [of "upd_dev d (\<lambda>x. x\<lparr>dv_driver := v\<rparr>) s1"]
    by (auto simp: fwk_device_driver_match_def bind_Some_iff fwk_device_driver_probe_def platform_bus_def fwk_platform_probe_def Let_def upd_dev_def
        split: option.splits prod.splits if_splits)
  have att: "attach_drivers pins bt d b vs s1 = Some (r, s2) \<Longrightarrow> dv_bus (bs_dev s1 d) = b \<Longrightarrow> bs_irq s2 = bs_irq s1" for vs r s1 s2
  proof (induction vs arbitrary: s1)
    case (Cons v vs)
    then obtain e s3 where "fwk_device_driver_match pins bt d b v s1 = Some (e, s3)"
      "if e = 0 \<or> e = - ER_PERMIT then s2 = s3 else attach_drivers pins bt d b vs s3 = Some (r, s2)"
      by (auto simp: bind_Some_iff split: if_splits)
    then show ?case using mtch [of v s1 e s3] Cons by (auto split: if_splits)
  qed simp
  show ?thesis
    using assms(2,3) att by (fastforce simp: fwk_device_add_def fwk_device_to_bus_def fwk_device_attach_def bind_Some_iff Let_def upd_dev_def
        split: if_splits prod.splits)
qed

section \<open>Reading the resources of a node\<close>

text \<open>The reads from the tree return, and so does the mapping of the interrupts, which keeps \<open>I\<close>.\<close>

definition readable :: "(kuaddr_t \<Rightarrow> domain_ops) \<Rightarrow> (irq_sys \<Rightarrow> bool) \<Rightarrow> fwk_resources \<Rightarrow> of_sys \<Rightarrow> kuaddr_t \<Rightarrow> bool" where
  "readable ops I res t n \<longleftrightarrow> fwk_of_get_alias_id n t \<noteq> None \<and>
     (\<exists>m i. count_resources n t res 0 = Some m \<and> fwk_of_irq_count n t = Some i \<and>
        (\<forall>q. I q \<longrightarrow> (\<exists>rs q'. fill_resources ops n m i t q = Some (rs, q') \<and> I q')))"

lemma alloc_resources_ok:
  assumes "readable ops I res (bs_tree (ps_bus s)) n" and "I (bs_irq (ps_bus s))" and "kb_pool (bs_kobj (ps_bus s)) = a # ps" and "a \<noteq> 0"
  shows "\<exists>us q x tb. alloc_resources ops res n d s =
       Some (s\<lparr>ps_bus := (ps_bus s)\<lparr>bs_kobj := (bs_kobj (ps_bus s))\<lparr>kb_pool := us\<rparr>, bs_irq := q\<rparr>, ps_dev := (ps_dev s)(d := x), ps_tab := tb\<rparr>) \<and>
     (us = a # ps \<or> us = ps) \<and> I q"
proof -
  obtain m i where r: "count_resources n (bs_tree (ps_bus s)) res 0 = Some m" "fwk_of_irq_count n (bs_tree (ps_bus s)) = Some i"
    "\<forall>q. I q \<longrightarrow> (\<exists>rs q'. fill_resources ops n m i (bs_tree (ps_bus s)) q = Some (rs, q') \<and> I q')" using assms(1) by (auto simp: readable_def)
  show ?thesis
  proof (cases "m + i = 0")
    case True
    then have "alloc_resources ops res n d s = Some s" using r by (simp add: alloc_resources_def)
    moreover have "s = s\<lparr>ps_bus := (ps_bus s)\<lparr>bs_kobj := (bs_kobj (ps_bus s))\<lparr>kb_pool := a # ps\<rparr>, bs_irq := bs_irq (ps_bus s)\<rparr>,
        ps_dev := (ps_dev s)(d := ps_dev s d), ps_tab := ps_tab s\<rparr>" using assms(3) [symmetric] by simp
    ultimately show ?thesis using assms(2) by metis
  next
    case False
    obtain rs q where "fill_resources ops n m i (bs_tree (ps_bus s)) (bs_irq (ps_bus s)) = Some (rs, q)" "I q" using r(3) assms(2) by blast
    moreover from this(1) have "alloc_resources ops res n d s =
       Some (s\<lparr>ps_bus := (ps_bus s)\<lparr>bs_kobj := (bs_kobj (ps_bus s))\<lparr>kb_pool := ps\<rparr>, bs_irq := q\<rparr>,
         ps_dev := (ps_dev s)(d := (ps_dev s d)\<lparr>pd_num := m + i, pd_resources := a\<rparr>), ps_tab := (ps_tab s)(a := rs)\<rparr>)"
      using r False assms(3,4) by (simp add: alloc_resources_def bs_kzalloc_def kb_kmalloc_def)
    ultimately show ?thesis by blast
  qed
qed

section \<open>What populating keeps\<close>

definition pop_inv :: "(irq_sys \<Rightarrow> bool) \<Rightarrow> (kuaddr_t \<Rightarrow> bytes list) \<Rightarrow> kuaddr_t \<Rightarrow> 'e bus_sys \<Rightarrow> bool" where
  "pop_inv I cs q s \<longleftrightarrow> room q s \<and> I (bs_irq s) \<and> bs_priv s sgrt_fwk_platform_bus_type \<and> 0 \<notin> set (bs_drivers s sgrt_fwk_platform_bus_type) \<and>
     (\<forall>d. isValid (dv_node (bs_dev s d)) \<longrightarrow> compatibles (bs_tree s) cs (dv_node (bs_dev s d))) \<and>
     (\<forall>d \<in> set (sgrt_fwk_devices s). dv_init_name (bs_dev s d) \<noteq> None)"

text \<open>The parts of a device and of a driver that no other device's arrival changes.\<close>

definition dev_static :: "'e bus_sys \<Rightarrow> 'e bus_sys \<Rightarrow> kuaddr_t \<Rightarrow> bool" where
  "dev_static s s' d \<longleftrightarrow> dv_init_name (bs_dev s' d) = dv_init_name (bs_dev s d) \<and> dv_bus (bs_dev s' d) = dv_bus (bs_dev s d) \<and>
     dv_type (bs_dev s' d) = dv_type (bs_dev s d) \<and> dv_node (bs_dev s' d) = dv_node (bs_dev s d) \<and>
     dv_name (bs_dev s' d) = dv_name (bs_dev s d) \<and> dv_override (bs_dev s' d) = dv_override (bs_dev s d)"

definition drv_static :: "'e bus_sys \<Rightarrow> 'e bus_sys \<Rightarrow> bool" where
  "drv_static s s' \<longleftrightarrow> bs_tree s' = bs_tree s \<and>
     (\<forall>v. dd_name (bs_drv s' v) = dd_name (bs_drv s v) \<and> dd_of_match (bs_drv s' v) = dd_of_match (bs_drv s v) \<and>
          dd_bus (bs_drv s' v) = dd_bus (bs_drv s v) \<and> dd_ids (bs_drv s' v) = dd_ids (bs_drv s v))"

lemma same_static_split: "same_static s s' \<longleftrightarrow> drv_static s s' \<and> (\<forall>d. dev_static s s' d)"
  by (auto simp: same_static_def drv_static_def dev_static_def)

lemma static_fits: "drv_static s s' \<Longrightarrow> dev_static s s' d \<Longrightarrow> plat_fits s' d = plat_fits s d"
  by (cases "dv_override (bs_dev s d)")
     (auto simp: fun_eq_iff plat_fits_def fwk_platform_match_def Let_def drv_static_def dev_static_def)

text \<open>The devices \<open>ds\<close> came to the bus, one after the other, out of the memory at the head of the pool.\<close>

definition grew :: "kuaddr_t list \<Rightarrow> 'e bus_sys \<Rightarrow> 'e bus_sys \<Rightarrow> bool" where
  "grew ds s s' \<longleftrightarrow> drv_static s s' \<and> (\<forall>d. d \<notin> set ds \<longrightarrow> dev_static s s' d) \<and> sgrt_fwk_devices s' = sgrt_fwk_devices s @ ds \<and>
     (\<exists>zs. kb_pool (bs_kobj s) = zs @ kb_pool (bs_kobj s') \<and> set ds \<subseteq> set zs \<and> length zs \<le> 2 * length ds) \<and>
     bus_view sgrt_fwk_platform_bus_type s' = foldl (\<lambda>a d. spec_add (plat_fits s') d a) (bus_view sgrt_fwk_platform_bus_type s) ds"

lemma foldl_spec_cong: "(\<And>d. d \<in> set ds \<Longrightarrow> F d = G d) \<Longrightarrow> foldl (\<lambda>a d. spec_add F d a) a ds = foldl (\<lambda>a d. spec_add G d a) a ds"
  by (rule foldl_cong) (auto simp: spec_add_def)

lemma grew_trans:
  assumes "grew ds s s1" and "grew es s1 s2" and "distinct (kb_pool (bs_kobj s))"
  shows "grew (ds @ es) s s2" and "\<forall>d \<in> set ds. dev_static s1 s2 d"
proof -
  obtain zs ys where z: "kb_pool (bs_kobj s) = zs @ kb_pool (bs_kobj s1)" "set ds \<subseteq> set zs" "length zs \<le> 2 * length ds"
    "kb_pool (bs_kobj s1) = ys @ kb_pool (bs_kobj s2)" "set es \<subseteq> set ys" "length ys \<le> 2 * length es"
    using assms(1,2) by (auto simp: grew_def)
  have "set ds \<inter> set es = {}" using z assms(3) by auto
  then show st: "\<forall>d \<in> set ds. dev_static s1 s2 d" using assms(2) by (auto simp: grew_def)
  have f: "plat_fits s2 d = plat_fits s1 d" if "d \<in> set ds" for d
    using static_fits [of s1 s2 d] assms(2) st that by (auto simp: grew_def)
  have "bus_view sgrt_fwk_platform_bus_type s2 = foldl (\<lambda>a d. spec_add (plat_fits s2) d a) (bus_view sgrt_fwk_platform_bus_type s) (ds @ es)"
    using assms(1,2) foldl_spec_cong [of ds "plat_fits s2" "plat_fits s1"] f by (simp add: grew_def)
  moreover have "kb_pool (bs_kobj s) = (zs @ ys) @ kb_pool (bs_kobj s2)" "set (ds @ es) \<subseteq> set (zs @ ys)" "length (zs @ ys) \<le> 2 * length (ds @ es)"
    using z by auto
  moreover have "drv_static s s2" using assms(1,2) by (simp add: grew_def drv_static_def)
  moreover have "d \<notin> set (ds @ es) \<Longrightarrow> dev_static s s2 d" for d using assms(1,2) by (simp add: grew_def dev_static_def)
  ultimately show "grew (ds @ es) s s2" using assms(1,2) unfolding grew_def by (metis append_assoc)
qed

section \<open>One node\<close>

text \<open>The nodes \<open>ns\<close> became devices, in this order; each keeps its device as its data.\<close>

definition converted :: "kuaddr_t list \<Rightarrow> 'e plat_sys \<Rightarrow> 'e plat_sys \<Rightarrow> bool" where
  "converted ns s s' \<longleftrightarrow> grew (map (ps_data s') ns) (ps_bus s) (ps_bus s') \<and>
     (\<forall>n \<in> set ns. dv_node (bs_dev (ps_bus s') (ps_data s' n)) = n \<and>
        dv_init_name (bs_dev (ps_bus s') (ps_data s' n)) = Some (dn_full_name (of_nodes (bs_tree (ps_bus s)) n)) \<and>
        fwk_of_node_check_flag n NR_OfNodePopulated s') \<and>
     (\<forall>n. n \<notin> set ns \<longrightarrow> ps_data s' n = ps_data s n \<and> ps_flags s' n = ps_flags s n)"

lemma converted_tree: "converted ns s s' \<Longrightarrow> bs_tree (ps_bus s') = bs_tree (ps_bus s)"
  by (simp add: converted_def grew_def drv_static_def)

lemma converted_refl [simp]: "converted [] s s"
  by (simp add: converted_def grew_def drv_static_def dev_static_def)

lemma converted_trans:
  assumes "converted ns s s1" and "converted ms s1 s2" and "distinct (ns @ ms)" and "distinct (kb_pool (bs_kobj (ps_bus s)))"
  shows "converted (ns @ ms) s s2"
proof -
  have d: "ps_data s2 n = ps_data s1 n" "ps_flags s2 n = ps_flags s1 n" if "n \<in> set ns" for n using assms(2,3) that by (auto simp: converted_def)
  then have e: "map (ps_data s2) ns = map (ps_data s1) ns" by simp
  have g: "grew (map (ps_data s1) ns) (ps_bus s) (ps_bus s1)" "grew (map (ps_data s2) ms) (ps_bus s1) (ps_bus s2)"
    using assms(1,2) by (simp_all add: converted_def)
  have st: "dev_static (ps_bus s1) (ps_bus s2) (ps_data s1 n)" if "n \<in> set ns" for n using grew_trans(2) [OF g assms(4)] that by simp
  have "grew (map (ps_data s2) (ns @ ms)) (ps_bus s) (ps_bus s2)" using grew_trans(1) [OF g assms(4)] unfolding map_append e .
  moreover have "dv_node (bs_dev (ps_bus s2) (ps_data s2 n)) = n \<and>
      dv_init_name (bs_dev (ps_bus s2) (ps_data s2 n)) = Some (dn_full_name (of_nodes (bs_tree (ps_bus s)) n)) \<and>
      fwk_of_node_check_flag n NR_OfNodePopulated s2" if "n \<in> set (ns @ ms)" for n
  proof (cases "n \<in> set ns")
    case True
    then show ?thesis using assms(1) d [OF True] st [OF True] by (simp add: converted_def dev_static_def fwk_of_node_check_flag_def)
  next
    case False
    then show ?thesis using assms(2) that converted_tree [OF assms(1)] by (auto simp: converted_def)
  qed
  ultimately show ?thesis using assms(1,2) by (simp add: converted_def)
qed

text \<open>The bus as it is when the device of a node is handed to it.\<close>

definition staged :: "kuaddr_t \<Rightarrow> kuaddr_t \<Rightarrow> kuaddr_t \<Rightarrow> kuaddr_t list \<Rightarrow> irq_sys \<Rightarrow> 'e bus_sys \<Rightarrow> 'e bus_sys" where
  "staged q n d us iq s = s\<lparr>bs_dev := (bs_dev s)(d := zero_device\<lparr>dv_name := dn_full_name (of_nodes (bs_tree s) n),
       dv_init_name := Some (dn_full_name (of_nodes (bs_tree s) n)), dv_node := n, dv_bus := sgrt_fwk_platform_bus_type\<rparr>),
     bs_kobj := upd_kobj (d + SGRT_KOBJ_OFFSET) (\<lambda>_. init_kobj q zero_kobj) ((bs_kobj s)\<lparr>kb_pool := us\<rparr>), bs_irq := iq\<rparr>"

lemma staged_add:
  assumes "bt sgrt_fwk_platform_bus_type = platform_bus drvs" and "pop_inv I cs q s" and "kb_pool (bs_kobj s) = d # a # ps" and "us = a # ps \<or> us = ps"
    and "I iq" and "compatibles (bs_tree s) cs n"
    and "\<forall>l \<in> set (sgrt_fwk_devices s). cstr (the (dv_init_name (bs_dev s l))) \<noteq> cstr (dn_full_name (of_nodes (bs_tree s) n))"
  shows "\<exists>s'. fwk_device_add pins bt d (staged q n d us iq s) = Some (ER_NORMAL, s') \<and> pop_inv I cs q s' \<and> grew [d] s s' \<and>
     dv_node (bs_dev s' d) = n \<and> dv_init_name (bs_dev s' d) = Some (dn_full_name (of_nodes (bs_tree s) n))"
proof -
  let ?s = "staged q n d us iq s" and ?b = sgrt_fwk_platform_bus_type and ?c = "d + SGRT_KOBJ_OFFSET"
  note i = assms(2) [unfolded pop_inv_def room_def]
  have d: "d \<notin> set (sgrt_fwk_devices s)" "isValid d" "?c \<notin> set (ks_list (bs_kobj s) sgrt_fwk_kset_root)" using i assms(3) by auto
  have lv: "plat_live ?s" by (rule plat_liveI [where cs = cs]) (use i assms(6) in \<open>auto simp: staged_def\<close>)
  have nm: "fwk_device_find d ?s = Some (- ER_NOTFOUND)" unfolding fwk_device_find_def
    by (rule find_device_absent) (use d i assms(7) in \<open>auto simp: staged_def\<close>)
  have pr: "dv_bus (bs_dev ?s d) = ?b" "?b \<noteq> 0" "bs_priv ?s ?b" "0 \<notin> set (bs_drivers ?s ?b)" "- ER_NOTFOUND \<noteq> (0 :: int)"
    using i by (simp_all add: staged_def sgrt_fwk_platform_bus_type_def)
  obtain s' where s': "fwk_device_add pins bt d ?s = Some (ER_NORMAL, s')" "bus_view ?b s' = spec_add (plat_fits ?s) d (bus_view ?b ?s)"
     "same_static ?s s'" "sgrt_fwk_devices s' = sgrt_fwk_devices s @ [d]" "bs_kobj s' = bs_kobj ?s" "bs_priv s' = bs_priv s"
    using plat.add_refines [OF plat_serves [where bt = bt and b = ?b, OF assms(1)] lv pr(1-4) nm pr(5), of pins] unfolding plat_fits_eq
    by (auto simp: staged_def)
  note st = s'(3) [unfolded same_static_split]
  have irq: "bs_irq s' = iq" using platform_add_irq [where bt = bt and b = ?b, OF assms(1) pr(1) s'(1)] by (simp add: staged_def)
  have f: "plat_fits s' = plat_fits ?s" using static_fits [of ?s s'] st by (auto simp: fun_eq_iff)
  have t: "bs_tree s' = bs_tree s" "drv_static s s'" using st by (simp_all add: drv_static_def staged_def)
  have dv: "dev_static s s' x" if "x \<noteq> d" for x using spec [OF conjunct2 [OF st], of x] that by (simp add: dev_static_def staged_def)
  have nd: "dv_node (bs_dev s' d) = n" "dv_init_name (bs_dev s' d) = Some (dn_full_name (of_nodes (bs_tree s) n))"
    using spec [OF conjunct2 [OF st], of d] by (simp_all add: dev_static_def staged_def)
  have bv: "bus_view ?b s' = spec_add (plat_fits s') d (bus_view ?b s)" using s'(2) unfolding f
    by (simp add: bus_view_def spec_add_def) (simp add: staged_def fun_eq_iff)
  have "drv_static ?s s'" using st by simp
  have pool: "kb_pool (bs_kobj s') = us" "ks_list (bs_kobj s') = ks_list (bs_kobj s)" using s'(5) by (simp_all add: staged_def)
  have sys: "sys_dir q (bs_kobj s')" unfolding s'(5) staged_def
    using i d(3) by (simp, intro sys_dir_other) (simp_all add: init_kobj_def spin_lock_init_def spin_is_locked_def ATOMIC_SET_def)
  have "room q s'" using sys pool assms(3,4) i s'(4) by (auto simp: room_def)
  moreover have "bs_drivers s' ?b = bs_drivers s ?b" using arg_cong [OF bv, of ba_drvs] by (simp add: spec_add_def)
  moreover have "compatibles (bs_tree s') cs (dv_node (bs_dev s' x))" if "isValid (dv_node (bs_dev s' x))" for x
    using that nd(1) dv [of x] i assms(6) t(1) by (cases "x = d") (auto simp: dev_static_def)
  moreover have "dv_init_name (bs_dev s' x) \<noteq> None" if "x \<in> set (sgrt_fwk_devices s')" for x
    using that nd(2) dv [of x] i s'(4) by (cases "x = d") (auto simp: dev_static_def)
  ultimately have "pop_inv I cs q s'" using i irq assms(5) s'(6) by (simp add: pop_inv_def)
  moreover have "\<exists>zs. kb_pool (bs_kobj s) = zs @ us \<and> d \<in> set zs \<and> length zs \<le> 2"
    using assms(3,4) by (auto intro: exI [of _ "[d]"] exI [of _ "[d, a]"])
  then have "grew [d] s s'" using t dv s'(4) pool bv by (simp add: grew_def)
  ultimately show ?thesis using s'(1) nd by blast
qed

lemma create_pdata_ok:
  assumes "bt sgrt_fwk_platform_bus_type = platform_bus drvs" and "pop_inv I cs q (ps_bus s)" and "kb_pool (bs_kobj (ps_bus s)) = d # a # ps"
    and "isValid n" and "fwk_of_device_is_avaliable n (bs_tree (ps_bus s))" and "\<not> fwk_of_node_check_flag n NR_OfNodePopulated s"
    and "readable ops I res (bs_tree (ps_bus s)) n" and "compatibles (bs_tree (ps_bus s)) cs n"
    and "\<forall>l \<in> set (sgrt_fwk_devices (ps_bus s)). cstr (the (dv_init_name (bs_dev (ps_bus s) l))) \<noteq> cstr (dn_full_name (of_nodes (bs_tree (ps_bus s)) n))"
  shows "\<exists>s'. fwk_of_platform_device_create_pdata pins bt ops res n s = Some (d, s') \<and> converted [n] s s' \<and> pop_inv I cs q (ps_bus s') \<and>
     ps_flags s' = (ps_flags s)(n := ps_flags s n OR NR_OfNodePopulated)"
proof -
  let ?b = "ps_bus s"
  note i = assms(2) [unfolded pop_inv_def room_def]
  have v: "isValid d" "isValid a" "a \<noteq> 0" using i assms(3) by (auto simp: isValid_def)
  have c: "d + SGRT_KOBJ_OFFSET \<notin> set (ks_list (bs_kobj ?b) sgrt_fwk_kset_root)" using i assms(3) by auto
  define s1 where "s1 = s\<lparr>ps_bus := new_device d (?b\<lparr>bs_kobj := (bs_kobj ?b)\<lparr>kb_pool := a # ps\<rparr>\<rparr>),
    ps_dev := (ps_dev s)(d := \<lparr>pd_id = 0, pd_resources = 0, pd_num = 0\<rparr>)\<rparr>"
  have z: "bs_kzalloc ?b = (d, ?b\<lparr>bs_kobj := (bs_kobj ?b)\<lparr>kb_pool := a # ps\<rparr>\<rparr>)" using assms(3) by (simp add: bs_kzalloc_def kb_kmalloc_def)
  have p1: "kb_pool (bs_kobj (ps_bus s1)) = a # ps" "bs_tree (ps_bus s1) = bs_tree ?b" "bs_irq (ps_bus s1) = bs_irq ?b"
    by (simp_all add: s1_def new_device_def upd_dev_def)
  obtain us iq x tb where al: "alloc_resources ops res n d s1 =
       Some (s1\<lparr>ps_bus := (ps_bus s1)\<lparr>bs_kobj := (bs_kobj (ps_bus s1))\<lparr>kb_pool := us\<rparr>, bs_irq := iq\<rparr>, ps_dev := (ps_dev s1)(d := x), ps_tab := tb\<rparr>)"
     "us = a # ps \<or> us = ps" "I iq"
    using alloc_resources_ok [where I = I and s = s1 and n = n and ops = ops and res = res and a = a and ps = ps and d = d] assms(7) i p1 v by auto
  define s2 where "s2 = s1\<lparr>ps_bus := (ps_bus s1)\<lparr>bs_kobj := (bs_kobj (ps_bus s1))\<lparr>kb_pool := us\<rparr>, bs_irq := iq\<rparr>, ps_dev := (ps_dev s1)(d := x), ps_tab := tb\<rparr>"
  have sys: "sys_dir q (bs_kobj (ps_bus s2))" unfolding s2_def s1_def new_device_def upd_dev_def
    using i c by (simp, intro sys_dir_other) (simp_all add: zero_kobj_def spin_is_locked_def SPIN_LOCK_INIT_def)
  have c2: "d + SGRT_KOBJ_OFFSET \<notin> set (ks_list (bs_kobj (ps_bus s2)) sgrt_fwk_kset_root)"
    using c by (simp add: s2_def s1_def new_device_def upd_dev_def)
  obtain j where j: "fwk_of_get_alias_id n (bs_tree ?b) = Some j" using assms(7) by (auto simp: readable_def)
  have sg: "upd_dev d (\<lambda>x. x\<lparr>dv_name := dn_full_name (of_nodes (bs_tree ?b) n), dv_init_name := Some (dn_full_name (of_nodes (bs_tree ?b) n)),
      dv_node := n, dv_bus := sgrt_fwk_platform_bus_type\<rparr>)
      ((ps_bus s2)\<lparr>bs_kobj := upd_kobj (d + SGRT_KOBJ_OFFSET) (init_kobj q) (bs_kobj (ps_bus s2))\<rparr>) = staged q n d us iq ?b"
    by (simp add: staged_def s2_def s1_def new_device_def upd_dev_def upd_kobj_def)
  have t2: "bs_tree (ps_bus s2) = bs_tree ?b" by (simp add: s2_def p1)
  obtain b' where b': "fwk_device_add pins bt d (staged q n d us iq ?b) = Some (ER_NORMAL, b')" "pop_inv I cs q b'" "grew [d] ?b b'"
     "dv_node (bs_dev b' d) = n" "dv_init_name (bs_dev b' d) = Some (dn_full_name (of_nodes (bs_tree ?b) n))"
    using staged_add [where bt = bt, OF assms(1-3) al(2,3) assms(8,9)] by blast
  define s3 where "s3 = s2\<lparr>ps_bus := b', ps_dev := (ps_dev s2)(d := (ps_dev s2 d)\<lparr>pd_id := j\<rparr>)\<rparr>"
  have rg: "fwk_of_register_platdevice pins bt n d s2 = Some (ER_NORMAL, s3)"
    using v(1) j b'(1) by (simp add: fwk_of_register_platdevice_def device_initial_ok(1) [OF sys c2] t2 sg s3_def)
  define s4 where "s4 = fwk_of_node_set_flag n NR_OfNodePopulated (s3\<lparr>ps_data := (ps_data s3)(n := d)\<rparr>)"
  have "fwk_of_platform_device_create_pdata pins bt ops res n s = Some (d, s4)"
    using assms(4-6) v(1) z al(1) rg by (simp add: fwk_of_platform_device_create_pdata_def s4_def s1_def [symmetric] s2_def [symmetric])
  moreover have f: "ps_flags s4 = (ps_flags s)(n := ps_flags s n OR NR_OfNodePopulated)" "ps_data s4 = (ps_data s)(n := d)" "ps_bus s4 = b'"
    by (simp_all add: s4_def s3_def s2_def s1_def fwk_of_node_set_flag_def)
  moreover have "converted [n] s s4"
    using b' f by (auto simp: converted_def fwk_of_node_check_flag_def NR_OfNodePopulated_def bit_eq_iff bit_simps)
  ultimately show ?thesis using b'(2) by auto
qed

section \<open>The nodes to convert\<close>

text \<open>The tree below a node, read off the links between the nodes.\<close>

datatype otree = ONode kuaddr_t "otree list"

fun linked :: "of_sys \<Rightarrow> kuaddr_t \<Rightarrow> otree list \<Rightarrow> bool" where
  "linked t a [] \<longleftrightarrow> a = 0"
| "linked t a (ONode n us # ts) \<longleftrightarrow> a = n \<and> isValid n \<and> linked t (dn_child (of_nodes t n)) us \<and> linked t (dn_sibling (of_nodes t n)) ts"

fun onodes :: "otree list \<Rightarrow> kuaddr_t list" where
  "onodes [] = []"
| "onodes (ONode n us # ts) = n # onodes us @ onodes ts"

text \<open>A node is converted if it says what it is compatible with and is not switched off; the nodes below it follow if it is a bus that \<open>M\<close> lists.\<close>

definition has_compatible :: "of_sys \<Rightarrow> kuaddr_t \<Rightarrow> bool" where
  "has_compatible t n \<longleftrightarrow> fwk_of_get_property n (lit ''compatible'') t \<noteq> None"

fun to_convert :: "of_sys \<Rightarrow> (kuaddr_t \<Rightarrow> bytes list) \<Rightarrow> bytes list \<Rightarrow> otree list \<Rightarrow> kuaddr_t list" where
  "to_convert t cs M [] = []"
| "to_convert t cs M (ONode n us # ts) =
     (if has_compatible t n \<and> fwk_of_device_is_avaliable n t
      then n # (if \<exists>c \<in> set M. cstr c \<in> set (cs n) then to_convert t cs M us else []) else []) @ to_convert t cs M ts"

definition node_result :: "of_sys \<Rightarrow> otree \<Rightarrow> int" where
  "node_result t x = (case x of ONode n _ \<Rightarrow>
     if \<not> has_compatible t n then - ER_FAULT else if \<not> fwk_of_device_is_avaliable n t then - ER_NOMEM else ER_NORMAL)"

lemma to_convert_sub: "set (to_convert t cs M ts) \<subseteq> set (onodes ts)"
  by (induction t cs M ts rule: to_convert.induct) auto

lemma to_convert_distinct: "distinct (onodes ts) \<Longrightarrow> distinct (to_convert t cs M ts)"
  by (induction t cs M ts rule: to_convert.induct) (use to_convert_sub in \<open>fastforce+\<close>)

text \<open>Everything conversion of the nodes \<open>ns\<close> needs.\<close>

definition can_convert ::
  "(kuaddr_t \<Rightarrow> domain_ops) \<Rightarrow> (irq_sys \<Rightarrow> bool) \<Rightarrow> (kuaddr_t \<Rightarrow> bytes list) \<Rightarrow> fwk_resources \<Rightarrow> kuaddr_t \<Rightarrow> kuaddr_t list \<Rightarrow> 'e bus_sys \<Rightarrow> bool" where
  "can_convert ops I cs res q ns s \<longleftrightarrow> pop_inv I cs q s \<and> 2 * length ns \<le> length (kb_pool (bs_kobj s)) \<and>
     (\<forall>n \<in> set ns. readable ops I res (bs_tree s) n \<and> compatibles (bs_tree s) cs n) \<and>
     distinct (map (\<lambda>n. cstr (dn_full_name (of_nodes (bs_tree s) n))) ns) \<and>
     (\<forall>n \<in> set ns. \<forall>l \<in> set (sgrt_fwk_devices s). cstr (the (dv_init_name (bs_dev s l))) \<noteq> cstr (dn_full_name (of_nodes (bs_tree s) n)))"

lemma can_convert_part: "can_convert ops I cs res q (ns @ ms) s \<Longrightarrow> can_convert ops I cs res q ns s"
  by (auto simp: can_convert_def)

lemma can_convert_rest:
  assumes "can_convert ops I cs res q (ns @ ms) (ps_bus s)" and "converted ns s s'" and "pop_inv I cs q (ps_bus s')"
  shows "can_convert ops I cs res q ms (ps_bus s')"
proof -
  note t = converted_tree [OF assms(2)]
  have g: "grew (map (ps_data s') ns) (ps_bus s) (ps_bus s')" using assms(2) by (simp add: converted_def)
  have "cstr (the (dv_init_name (bs_dev (ps_bus s') l))) \<noteq> cstr (dn_full_name (of_nodes (bs_tree (ps_bus s')) n))"
    if n: "n \<in> set ms" and l: "l \<in> set (sgrt_fwk_devices (ps_bus s'))" for n l
  proof (cases "l \<in> set (map (ps_data s') ns)")
    case True
    then obtain m where m: "m \<in> set ns" "l = ps_data s' m" by auto
    have "dv_init_name (bs_dev (ps_bus s') l) = Some (dn_full_name (of_nodes (bs_tree (ps_bus s)) m))" using assms(2) m by (auto simp: converted_def)
    moreover have "cstr (dn_full_name (of_nodes (bs_tree (ps_bus s)) m)) \<noteq> cstr (dn_full_name (of_nodes (bs_tree (ps_bus s)) n))"
      using assms(1) m(1) n by (auto simp: can_convert_def)
    ultimately show ?thesis using t by simp
  next
    case False
    then have "l \<in> set (sgrt_fwk_devices (ps_bus s))" "dev_static (ps_bus s) (ps_bus s') l" using g l by (auto simp: grew_def)
    then show ?thesis using assms(1) n t by (auto simp: can_convert_def dev_static_def)
  qed
  moreover have "2 * length ms \<le> length (kb_pool (bs_kobj (ps_bus s')))" using assms(1) g by (auto simp: can_convert_def grew_def)
  ultimately show ?thesis using assms(1,3) t by (simp add: can_convert_def)
qed

lemma can_convert_pool: "can_convert ops I cs res q ns s \<Longrightarrow> distinct (kb_pool (bs_kobj s))"
  by (simp add: can_convert_def pop_inv_def room_def)

text \<open>The flag of a bus that has been walked is no change to what has been converted.\<close>

lemma or_keeps: "x AND g = g \<Longrightarrow> (x OR f) AND g = g" for x :: kuint32_t
  by (auto simp: bit_eq_iff bit_simps)

lemma flag_stays: "fwk_of_node_check_flag m g s \<Longrightarrow> fwk_of_node_check_flag m g (fwk_of_node_set_flag n f s)"
  using or_keeps [of "ps_flags s n" g f] by (cases "m = n") (simp_all add: fwk_of_node_set_flag_def fwk_of_node_check_flag_def)

lemma set_flag_sel [simp]:
  "ps_bus (fwk_of_node_set_flag n f s) = ps_bus s" "ps_data (fwk_of_node_set_flag n f s) = ps_data s"
  "m \<noteq> n \<Longrightarrow> ps_flags (fwk_of_node_set_flag n f s) m = ps_flags s m"
  by (simp_all add: fwk_of_node_set_flag_def)

lemma converted_bus_flag: "converted ns s s' \<Longrightarrow> n \<in> set ns \<Longrightarrow> converted ns s (fwk_of_node_set_flag n f s')"
  by (auto simp: converted_def flag_stays) (metis set_flag_sel(3))

section \<open>The walk\<close>

lemma head_skips:
  "\<not> has_compatible (bs_tree (ps_bus s)) n \<Longrightarrow> bus_create_head pins bt ops res M True n s = Some (Some (- ER_FAULT), s)"
  "has_compatible (bs_tree (ps_bus s)) n \<Longrightarrow> ps_flags s n = 0 \<Longrightarrow> isValid n \<Longrightarrow> \<not> fwk_of_device_is_avaliable n (bs_tree (ps_bus s)) \<Longrightarrow>
     bus_create_head pins bt ops res M True n s = Some (Some (- ER_NOMEM), s)"
  by (simp_all add: bus_create_head_def has_compatible_def fwk_of_node_check_flag_def NR_OfNodePopulatedBus_def fwk_of_platform_device_create_pdata_def isValid_def)

lemma head_converts:
  assumes "bt sgrt_fwk_platform_bus_type = platform_bus drvs" and "can_convert ops I cs res q (n # ns) (ps_bus s)" and "isValid n" and "ps_flags s n = 0"
    and "has_compatible (bs_tree (ps_bus s)) n" and "fwk_of_device_is_avaliable n (bs_tree (ps_bus s))"
  shows "\<exists>s'. bus_create_head pins bt ops res M True n s = Some (if \<exists>c \<in> set M. cstr c \<in> set (cs n) then None else Some ER_NORMAL, s') \<and>
     converted [n] s s' \<and> can_convert ops I cs res q ns (ps_bus s')"
proof -
  note c = assms(2) [unfolded can_convert_def]
  obtain d a ps where p: "kb_pool (bs_kobj (ps_bus s)) = d # a # ps"
    using c by (cases "kb_pool (bs_kobj (ps_bus s))"; cases "tl (kb_pool (bs_kobj (ps_bus s)))") auto
  have fl: "\<not> fwk_of_node_check_flag n NR_OfNodePopulated s" "\<not> fwk_of_node_check_flag n NR_OfNodePopulatedBus s"
    using assms(4) by (simp_all add: fwk_of_node_check_flag_def NR_OfNodePopulated_def NR_OfNodePopulatedBus_def)
  have "isValid d" using c p by (simp add: pop_inv_def room_def)
  moreover obtain s' where s': "fwk_of_platform_device_create_pdata pins bt ops res n s = Some (d, s')" "converted [n] s s'" "pop_inv I cs q (ps_bus s')"
    using create_pdata_ok [where bt = bt and s = s and ops = ops and I = I and res = res and n = n and pins = pins and cs = cs and q = q, OF assms(1) _ p assms(3,6) fl(1)] c by auto
  moreover have "fwk_of_match_node M n (bs_tree (ps_bus s')) = Some (if \<exists>c \<in> set M. cstr c \<in> set (cs n) then
      Some (length (takeWhile (\<lambda>c. cstr c \<notin> set (cs n)) M)) else None)"
    using match_entries_find [of "bs_tree (ps_bus s)" cs n 0 M] c converted_tree [OF s'(2)] by (simp add: fwk_of_match_node_def)
  ultimately have "bus_create_head pins bt ops res M True n s = Some (if \<exists>c \<in> set M. cstr c \<in> set (cs n) then None else Some ER_NORMAL, s')"
    using assms(5) fl(2) by (auto simp: bus_create_head_def has_compatible_def)
  moreover have "can_convert ops I cs res q ns (ps_bus s')" using can_convert_rest [of ops I cs res q "[n]" ns s s'] assms(2) s'(2,3) by simp
  ultimately show ?thesis using s'(2) by blast
qed

lemma loop_converts:
  assumes "bt sgrt_fwk_platform_bus_type = platform_bus drvs"
  shows "linked t a ts \<Longrightarrow> bs_tree (ps_bus s) = t \<Longrightarrow> distinct (onodes ts) \<Longrightarrow> \<forall>n \<in> set (onodes ts). ps_flags s n = 0 \<Longrightarrow>
    can_convert ops I cs res q (to_convert t cs M ts @ ms) (ps_bus s) \<Longrightarrow>
    \<exists>s'. bus_create_loop pins bt ops res M True a r s = Some (foldl (\<lambda>_. node_result t) r ts, s') \<and> converted (to_convert t cs M ts) s s' \<and>
      can_convert ops I cs res q ms (ps_bus s')"
proof (induction t cs M ts arbitrary: a r s ms rule: to_convert.induct)
  case (1 t cs M)
  then show ?case by (subst bus_create_loop.simps) auto
next
  case (2 t cs M n us ts)
  let ?w = "to_convert t cs M ts" and ?m = "\<exists>c \<in> set M. cstr c \<in> set (cs n)"
  have l: "a = n" "isValid n" "n \<noteq> 0" "linked t (dn_child (of_nodes t n)) us" "linked t (dn_sibling (of_nodes t n)) ts" using 2(3) by (auto simp: isValid_def)
  have ds: "n \<notin> set (onodes us)" "n \<notin> set (onodes ts)" "distinct (onodes us)" "distinct (onodes ts)" "set (onodes us) \<inter> set (onodes ts) = {}"
    "ps_flags s n = 0" "\<forall>n \<in> set (onodes ts). ps_flags s n = 0" "\<forall>n \<in> set (onodes us). ps_flags s n = 0" using 2(5,6) by auto
  have go: "\<exists>s'. bus_create_loop pins bt ops res M True (dn_sibling (of_nodes t n)) e s1 = Some (foldl (\<lambda>_. node_result t) e ts, s') \<and>
      converted (ns @ ?w) s s' \<and> can_convert ops I cs res q ms (ps_bus s')"
    if "converted ns s s1" "can_convert ops I cs res q (?w @ ms) (ps_bus s1)" "set ns \<subseteq> insert n (set (onodes us))" "distinct ns" for e s1 ns
  proof -
    note c1 = that(2)
    have 1: "bs_tree (ps_bus s1) = t" using converted_tree [OF that(1)] 2(4) by simp
    have dj: "set ns \<inter> set (onodes ts) = {}" using that(3) ds by auto
    have 3: "\<forall>n \<in> set (onodes ts). ps_flags s1 n = 0" using that(1) dj ds(7) by (auto simp: converted_def)
    obtain s' where s': "bus_create_loop pins bt ops res M True (dn_sibling (of_nodes t n)) e s1 = Some (foldl (\<lambda>_. node_result t) e ts, s')"
      "converted ?w s1 s'" "can_convert ops I cs res q ms (ps_bus s')" using 2(2) [OF l(5) 1 ds(4) 3 c1] by blast
    have "distinct (ns @ ?w)" using that(4) dj to_convert_sub [of t cs M ts] to_convert_distinct [OF ds(4)] by auto
    from converted_trans [OF that(1) s'(2) this can_convert_pool [OF 2(7)]] show ?thesis using s' by blast
  qed
  show ?case
  proof (cases "has_compatible t n \<and> fwk_of_device_is_avaliable n t")
    case False
    then have "bus_create_head pins bt ops res M True n s = Some (Some (node_result t (ONode n us)), s)"
      using head_skips [of s n] l(2) ds(6) 2(4) by (auto simp: node_result_def)
    moreover have "can_convert ops I cs res q (?w @ ms) (ps_bus s)" using 2(7) False by auto
    from go [OF converted_refl this] obtain s' where "bus_create_loop pins bt ops res M True (dn_sibling (of_nodes t n)) (node_result t (ONode n us)) s =
        Some (foldl (\<lambda>_. node_result t) (node_result t (ONode n us)) ts, s')" "converted ?w s s'" "can_convert ops I cs res q ms (ps_bus s')" by auto
    ultimately show ?thesis using False l(1,3) 2(4) by (subst bus_create_loop.simps) auto
  next
    case True
    let ?k = "if ?m then to_convert t cs M us else []"
    have w: "to_convert t cs M (ONode n us # ts) = (n # ?k) @ ?w" using True by simp
    have nr: "node_result t (ONode n us) = ER_NORMAL" using True by (simp add: node_result_def)
    obtain s1 where s1: "bus_create_head pins bt ops res M True n s = Some (if ?m then None else Some ER_NORMAL, s1)" "converted [n] s s1"
       "can_convert ops I cs res q (?k @ ?w @ ms) (ps_bus s1)"
      using head_converts [where bt = bt and n = n and ns = "?k @ ?w @ ms" and s = s and cs = cs and M = M and pins = pins and ops = ops and I = I and res = res and q = q,
          OF assms _ l(2) ds(6)] 2(7) True 2(4) w by auto
    have t1: "bs_tree (ps_bus s1) = t" using converted_tree [OF s1(2)] 2(4) by simp
    show ?thesis
    proof (cases ?m)
      case False
      then have "can_convert ops I cs res q (?w @ ms) (ps_bus s1)" using s1(3) by simp
      from go [OF s1(2) this, of ER_NORMAL] obtain s' where s': "bus_create_loop pins bt ops res M True (dn_sibling (of_nodes t n)) ER_NORMAL s1 =
         Some (foldl (\<lambda>_. node_result t) ER_NORMAL ts, s')" "converted ([n] @ ?w) s s'" "can_convert ops I cs res q ms (ps_bus s')" by auto
      show ?thesis unfolding w using s' s1(1) False l(1,3) t1 nr by (subst bus_create_loop.simps) auto
    next
      case True
      have f1: "\<forall>m \<in> set (onodes us). ps_flags s1 m = 0" using s1(2) ds(1,8) by (auto simp: converted_def)
      have c1: "can_convert ops I cs res q (to_convert t cs M us @ ?w @ ms) (ps_bus s1)" using s1(3) True by simp
      obtain x s2 where s2: "bus_create_loop pins bt ops res M True (dn_child (of_nodes t n)) 0 s1 = Some (x, s2)"
          "converted (to_convert t cs M us) s1 s2" "can_convert ops I cs res q (?w @ ms) (ps_bus s2)"
        using 2(1) [OF _ True l(4) t1 ds(3) f1 c1] \<open>has_compatible t n \<and> fwk_of_device_is_avaliable n t\<close> by blast
      have d2: "distinct ([n] @ to_convert t cs M us)" using ds(1,3) to_convert_sub [of t cs M us] to_convert_distinct [OF ds(3)] by auto
      let ?s2 = "fwk_of_node_set_flag n NR_OfNodePopulatedBus s2"
      have c2: "converted (n # to_convert t cs M us) s ?s2"
        using converted_bus_flag [OF converted_trans [OF s1(2) s2(2) d2 can_convert_pool [OF 2(7)]], of n] by simp
      have "can_convert ops I cs res q (?w @ ms) (ps_bus ?s2)" using s2(3) by simp
      from go [OF c2 this, of ER_NORMAL] to_convert_sub [of t cs M us] d2 obtain s' where
        s': "bus_create_loop pins bt ops res M True (dn_sibling (of_nodes t n)) ER_NORMAL ?s2 = Some (foldl (\<lambda>_. node_result t) ER_NORMAL ts, s')"
         "converted ((n # to_convert t cs M us) @ ?w) s s'" "can_convert ops I cs res q ms (ps_bus s')" by auto
      have t2: "bs_tree (ps_bus s2) = t" using converted_tree [OF s2(2)] t1 by simp
      show ?thesis unfolding w using s' s1(1) s2(1) True l(1,3) t1 t2 nr by (subst bus_create_loop.simps) auto
    qed
  qed
qed

lemma loop_again:
  assumes "linked t a ts" and "bs_tree (ps_bus s) = t"
    and "\<forall>n us. ONode n us \<in> set ts \<and> has_compatible t n \<and> fwk_of_device_is_avaliable n t \<longrightarrow> fwk_of_node_check_flag n NR_OfNodePopulated s"
  shows "\<exists>r'. bus_create_loop pins bt ops res M True a r s = Some (r', s)"
  using assms
proof (induction ts arbitrary: a r)
  case Nil
  then show ?case by (subst bus_create_loop.simps) simp
next
  case (Cons x ts)
  obtain n us where x: "x = ONode n us" by (cases x)
  have l: "a = n" "isValid n" "n \<noteq> 0" "linked t (dn_sibling (of_nodes t n)) ts" using Cons.prems(1) x by (auto simp: isValid_def)
  obtain e where "bus_create_head pins bt ops res M True n s = Some (Some e, s)"
  proof (cases "has_compatible t n")
    case False
    then show ?thesis using head_skips(1) that Cons.prems(2) by blast
  next
    case True
    have "fwk_of_platform_device_create_pdata pins bt ops res n s = Some (0, s)"
      using True Cons.prems(2,3) x l(2) by (auto simp: fwk_of_platform_device_create_pdata_def)
    then show ?thesis using True that Cons.prems(2) by (cases "fwk_of_node_check_flag n NR_OfNodePopulatedBus s") (auto simp: bus_create_head_def has_compatible_def isValid_def)
  qed
  moreover obtain r' where "bus_create_loop pins bt ops res M True (dn_sibling (of_nodes t n)) e s = Some (r', s)"
    using Cons.IH [OF l(4) Cons.prems(2), of e] Cons.prems(3) by auto
  ultimately show ?case using l(1,3) Cons.prems(2) by (subst bus_create_loop.simps) auto
qed

lemma to_convert_top: "ONode n us \<in> set ts \<Longrightarrow> has_compatible t n \<Longrightarrow> fwk_of_device_is_avaliable n t \<Longrightarrow> n \<in> set (to_convert t cs M ts)"
  by (induction t cs M ts rule: to_convert.induct) auto

section \<open>Properties\<close>

text \<open>C37: At start-up every node of the device tree that says what it is compatible with, is not switched off and lies below the root through
  bus nodes only becomes a platform device, in the order of the tree, and no other node does; the devices come to the platform bus in that order, each bound
  to the first driver that fits it, under the full names of their nodes.  The walk ends, its result is that of the last node below
  the root, and a second walk changes nothing.\<close>

theorem populate_converts:
  assumes "bt sgrt_fwk_platform_bus_type = platform_bus drvs"
    and "fwk_of_find_node_by_path (lit ''/'') (bs_tree (ps_bus s)) = Some rt" and "isValid rt"
    and "linked (bs_tree (ps_bus s)) (dn_child (of_nodes (bs_tree (ps_bus s)) rt)) ts" and "distinct (onodes ts)"
    and "\<forall>n \<in> set (onodes ts). ps_flags s n = 0"
    and "can_convert ops I cs res q (to_convert (bs_tree (ps_bus s)) cs sgrt_fwk_of_default_bus_match_table ts) (ps_bus s)"
  shows "\<exists>s'. fwk_of_platform_populate_init pins bt ops res s = Some (foldl (\<lambda>_. node_result (bs_tree (ps_bus s))) (- ER_ERROR) ts, s') \<and>
     converted (to_convert (bs_tree (ps_bus s)) cs sgrt_fwk_of_default_bus_match_table ts) s s' \<and>
     (\<exists>r. fwk_of_platform_populate_init pins bt ops res s' = Some (r, s'))"
proof -
  let ?t = "bs_tree (ps_bus s)" and ?M = sgrt_fwk_of_default_bus_match_table
  have nv: "\<not> isValid 0" by (simp add: isValid_def)
  have "can_convert ops I cs res q (to_convert ?t cs ?M ts @ []) (ps_bus s)" using assms(7) by simp
  from loop_converts [where bt = bt, OF assms(1,4) refl assms(5,6) this] obtain s' where
    s': "bus_create_loop pins bt ops res ?M True (dn_child (of_nodes ?t rt)) (- ER_ERROR) s = Some (foldl (\<lambda>_. node_result ?t) (- ER_ERROR) ts, s')"
      "converted (to_convert ?t cs ?M ts) s s'" by blast
  have fl: "\<forall>n us. ONode n us \<in> set ts \<and> has_compatible ?t n \<and> fwk_of_device_is_avaliable n ?t \<longrightarrow> fwk_of_node_check_flag n NR_OfNodePopulated s'"
    using s'(2) to_convert_top [of _ _ ts ?t cs ?M] by (auto simp: converted_def)
  obtain r where "bus_create_loop pins bt ops res ?M True (dn_child (of_nodes ?t rt)) (- ER_ERROR) s' = Some (r, s')"
    using loop_again [OF assms(4) converted_tree [OF s'(2)] fl] by blast
  then show ?thesis
    using s' assms(2,3) nv converted_tree [OF s'(2)]
    by (auto simp: fwk_of_platform_populate_init_def fwk_of_platform_default_populate_def fwk_of_platform_populate_def)
qed

text \<open>The flag of a converted node outlives its device: the node cannot be converted again.\<close>

lemma unregistered_stays_out:
  assumes "isValid n" and "fwk_of_node_check_flag n NR_OfNodePopulated s" and "fwk_of_unregister_platdevice bt n s = Some s'"
  shows "fwk_of_platform_device_create_pdata pins bt ops res n s' = Some (0, s')"
proof -
  have "ps_flags s' = ps_flags s"
    using assms(3) by (auto simp: fwk_of_unregister_platdevice_def bind_Some_iff ps_kfree_def Let_def split: if_splits)
  then show ?thesis using assms(1,2) by (simp add: fwk_of_platform_device_create_pdata_def fwk_of_node_check_flag_def)
qed

section \<open>An example\<close>

text \<open>A root with a bus, a serial port on it, and the memory, which is no device.\<close>

definition pop_node :: "string \<Rightarrow> of_property list \<Rightarrow> kuaddr_t \<Rightarrow> kuaddr_t \<Rightarrow> kuaddr_t \<Rightarrow> kuaddr_t \<Rightarrow> device_node" where
  "pop_node nm ps par ch sib nxt = \<lparr>dn_name = lit nm, dn_type = [0], dn_phandle = 0, dn_full_name = lit nm, dn_props = ps,
     dn_parent = par, dn_child = ch, dn_sibling = sib, dn_allnext = nxt\<rparr>"

definition pop_tree :: of_sys where
  "pop_tree = \<lparr>of_nodes = (\<lambda>_. pop_node ''/'' [] 0 0x2000 0 0x2000)
     (0x2000 := pop_node ''/soc'' [of_prop ''compatible'' (lit ''simple-bus'')] 0x1000 0x3000 0x4000 0x3000,
      0x3000 := pop_node ''/soc/uart'' [of_prop ''compatible'' (lit ''u1'')] 0x2000 0 0 0x4000,
      0x4000 := pop_node ''/memory'' [] 0x1000 0 0 0),
     sprt_fwk_of_allNodes = 0x1000\<rparr>"

definition pop_kobjs :: kobj_sys where
  "pop_kobjs = demo_kobjs\<lparr>kb_pool := [0x10000, 0x11000, 0x12000, 0x13000], kb_strs := (kb_strs demo_kobjs)(32 := lit ''sys'')\<rparr>"

definition pop_sys :: "kuaddr_t list \<Rightarrow> nat plat_sys" where
  "pop_sys vs = \<lparr>ps_bus = (demo_bus [] vs)\<lparr>bs_dev := (\<lambda>_. zero_device), bs_tree := pop_tree, bs_kobj := pop_kobjs,
       bs_drv := (\<lambda>_. \<lparr>dd_name = lit ''u'', dd_matches = 0, dd_of_match = [lit ''u1''], dd_bus = sgrt_fwk_platform_bus_type, dd_ids = None\<rparr>)\<rparr>,
     ps_flags = (\<lambda>_. 0), ps_data = (\<lambda>_. 0), ps_dev = (\<lambda>_. \<lparr>pd_id = 0, pd_resources = 0, pd_num = 0\<rparr>), ps_tab = (\<lambda>_. [])\<rparr>"

definition pop_compat :: "kuaddr_t \<Rightarrow> bytes list" where
  "pop_compat n = (if n = 0x2000 then [cstr (lit ''simple-bus'')] else if n = 0x3000 then [cstr (lit ''u1'')] else [])"

lemma pop_valid: "isValid 0x1000" "isValid 0x2000" "isValid 0x3000" "isValid 0x4000" "\<not> isValid 0"
  by (simp_all add: isValid_def IS_ERR_def)

lemma pop_props:
  "n \<in> {0x1000, 0x2000, 0x3000} \<Longrightarrow> nm \<in> {''#address-cells'', ''#size-cells'', ''reg'', ''interrupt-parent'', ''interrupt-extended'', ''#interrupt-cells'', ''status''} \<Longrightarrow>
     fwk_of_find_property n (lit nm) pop_tree = None"
  by (auto simp: fwk_of_find_property_def pop_tree_def pop_node_def lit_def cstr_def)

lemma pop_read:
  assumes "n \<in> {0x1000, 0x2000, 0x3000}" and "nm \<in> {''#address-cells'', ''#size-cells'', ''reg'', ''interrupt-parent'', ''interrupt-extended'', ''#interrupt-cells'', ''status''}"
  shows "fwk_of_property_read_u32 n (lit nm) pop_tree = Some (- ER_FAULT, [])"
  using pop_props [OF assms] by (simp add: fwk_of_property_read_u32_def fwk_of_property_read_u32_array_index_def)

lemma pop_chain: "node_chain pop_tree (sprt_fwk_of_allNodes pop_tree) [0x1000, 0x2000, 0x3000, 0x4000]"
  by (simp add: pop_tree_def pop_node_def pop_valid)

lemma pop_root: "fwk_of_find_node_by_path (lit ''/'') pop_tree = Some 0x1000"
  unfolding find_by_path_chain [OF pop_chain] by (simp add: pop_tree_def pop_node_def)

lemma pop_parent [simp]:
  "dn_parent (of_nodes pop_tree 0x1000) = 0" "dn_parent (of_nodes pop_tree 0x2000) = 0x1000" "dn_parent (of_nodes pop_tree 0x3000) = 0x2000"
  by (simp_all add: pop_tree_def pop_node_def)

lemma pop_cells: "nm \<in> {''#address-cells'', ''#size-cells''} \<Longrightarrow> n \<in> {0x1000, 0x2000, 0x3000} \<Longrightarrow> cells_loop (lit nm) n pop_tree = Some 0"
proof -
  assume a: "nm \<in> {''#address-cells'', ''#size-cells''}" "n \<in> {0x1000, 0x2000, 0x3000}"
  have r: "fwk_of_property_read_u32 m (lit nm) pop_tree = Some (- ER_FAULT, [])" if "m \<in> {0x1000, 0x2000, 0x3000}" for m
    by (rule pop_read [OF that]) (use a(1) in auto)
  have 0: "cells_loop (lit nm) 0 pop_tree = Some 0" by (subst cells_loop.simps) (simp add: pop_valid)
  have 1: "cells_loop (lit nm) 0x1000 pop_tree = Some 0" by (subst cells_loop.simps) (simp add: pop_valid r 0)
  have 2: "cells_loop (lit nm) 0x2000 pop_tree = Some 0" by (subst cells_loop.simps) (simp add: pop_valid r 1)
  have 3: "cells_loop (lit nm) 0x3000 pop_tree = Some 0" by (subst cells_loop.simps) (simp add: pop_valid r 2)
  show ?thesis using a(2) 1 2 3 by auto
qed

lemma pop_irqs: "n \<in> {0x1000, 0x2000, 0x3000} \<Longrightarrow> fwk_of_irq_count n pop_tree = Some 0"
proof -
  assume a: "n \<in> {0x1000, 0x2000, 0x3000}"
  have f: "follow_handle 0x1000 (lit nm) m pop_tree = Some (m, False)" if "m \<in> {0x1000, 0x2000, 0x3000}" "nm \<in> {''interrupt-parent'', ''interrupt-extended''}" for m nm
  proof -
    have "fwk_of_property_read_u32 m (lit nm) pop_tree = Some (- ER_FAULT, [])" by (rule pop_read [OF that(1)]) (use that(2) in auto)
    then show ?thesis by (simp add: follow_handle_def)
  qed
  have st: "irq_parent_step 0x1000 m pop_tree = Some (dn_parent (of_nodes pop_tree m))" if "m \<in> {0x1000, 0x2000, 0x3000}" for m
    using f [OF that, of "''interrupt-parent''"] f [OF that, of "''interrupt-extended''"] that by (auto simp: irq_parent_step_def)
  have 0: "irq_parent_loop 0x1000 0 pop_tree = Some 0" by (subst irq_parent_loop.simps) (simp add: pop_valid)
  have 1: "irq_parent_loop 0x1000 0x1000 pop_tree = Some 0" by (subst irq_parent_loop.simps) (use 0 in \<open>simp add: pop_valid st\<close>)
  have 2: "irq_parent_loop 0x1000 0x2000 pop_tree = Some 0" by (subst irq_parent_loop.simps) (simp add: pop_valid st 1 pop_props)
  have 3: "irq_parent_loop 0x1000 0x3000 pop_tree = Some 0" by (subst irq_parent_loop.simps) (simp add: pop_valid st 2 pop_props)
  show ?thesis using a 1 2 3 by (auto simp: fwk_of_irq_count_def fwk_of_n_irq_cells_def fwk_of_irq_parent_def pop_root pop_valid)
qed

lemma pop_readable: "n \<in> {0x1000, 0x2000, 0x3000} \<Longrightarrow> readable ops (\<lambda>_. True) res pop_tree n"
proof -
  assume a: "n \<in> {0x1000, 0x2000, 0x3000}"
  have "fwk_of_address_to_resource n 0 res pop_tree = Some (- ER_FAULT, res)"
    using pop_props [OF a, of "''reg''"] pop_cells [OF _ a]
    by (simp add: fwk_of_address_to_resource_def fwk_of_n_addr_cells_def fwk_of_n_size_cells_def fwk_of_property_read_u32_index_def
        fwk_of_property_read_u32_array_index_def)
  then have "count_resources n pop_tree res 0 = Some 0" by (subst count_resources.simps) simp
  moreover have "fwk_of_get_alias_id n pop_tree \<noteq> None" by (simp add: fwk_of_get_alias_id_def find_by_name_chain [OF pop_chain])
  ultimately show ?thesis using pop_irqs [OF a] by (simp add: readable_def fill_resources_def fwk_of_irq_to_resource_table_def)
qed

lemma pop_compatibles: "n \<in> {0x1000, 0x2000, 0x3000} \<Longrightarrow> compatibles pop_tree pop_compat n"
proof -
  assume a: "n \<in> {0x1000, 0x2000, 0x3000}"
  have h: "holds_strings (of_prop ''compatible'' (lit ''simple-bus'')) [cstr (lit ''simple-bus'')]" "holds_strings (of_prop ''compatible'' (lit ''u1'')) [cstr (lit ''u1'')]"
    by (simp_all add: holds_strings_def of_prop_def lit_def cstr_def)
  have f: "fwk_of_find_property 0x1000 (lit ''compatible'') pop_tree = None"
    "fwk_of_find_property 0x2000 (lit ''compatible'') pop_tree = Some (of_prop ''compatible'' (lit ''simple-bus''))"
    "fwk_of_find_property 0x3000 (lit ''compatible'') pop_tree = Some (of_prop ''compatible'' (lit ''u1''))"
    by (simp_all add: fwk_of_find_property_def pop_tree_def pop_node_def pop_valid)
  show ?thesis using a h f by (auto simp: compatibles_def pop_compat_def)
qed

lemma pop_wanted:
  "to_convert pop_tree pop_compat sgrt_fwk_of_default_bus_match_table [ONode 0x2000 [ONode 0x3000 []], ONode 0x4000 []] = [0x2000, 0x3000]"
proof -
  have c: "has_compatible pop_tree 0x2000" "has_compatible pop_tree 0x3000" "\<not> has_compatible pop_tree 0x4000"
    by (simp_all add: has_compatible_def fwk_of_get_property_def fwk_of_find_property_def pop_tree_def pop_node_def pop_valid)
  have a: "fwk_of_device_is_avaliable 0x2000 pop_tree" "fwk_of_device_is_avaliable 0x3000 pop_tree"
    using pop_props [of "0x2000" "''status''"] pop_props [of "0x3000" "''status''"] by (simp_all add: fwk_of_device_is_avaliable_def fwk_of_get_property_def)
  show ?thesis using c a by (simp add: pop_compat_def sgrt_fwk_of_default_bus_match_table_def)
qed

lemma pop_can_convert: "can_convert ops (\<lambda>_. True) pop_compat res 4096 [0x2000, 0x3000] (ps_bus (pop_sys [0xA000]))"
proof -
  have r: "sgrt_fwk_kset_root = 0x80600000" by (simp add: sgrt_fwk_kset_root_def)
  have c: "calm pop_kobjs" using demo_kobjs_facts(1) by (simp add: calm_def pop_kobjs_def)
  have k: "child pop_kobjs True sgrt_fwk_kset_root [115, 121, 115] = Some 4096"
    by (simp add: child_def pop_kobjs_def demo_kobjs_def zero_kobj_def r cstr_def lit_def)
  have "sys_dir 4096 pop_kobjs" using c k by (simp add: sys_dir_def isValid_def IS_ERR_def)
  moreover have "kb_pool pop_kobjs = [0x10000, 0x11000, 0x12000, 0x13000]" "ks_list pop_kobjs sgrt_fwk_kset_root = [4096]"
    by (simp_all add: pop_kobjs_def demo_kobjs_def r)
  ultimately have "room 4096 (ps_bus (pop_sys [0xA000]))"
    by (simp add: room_def pop_sys_def SGRT_KOBJ_OFFSET_def isValid_def IS_ERR_def)
  then have "pop_inv (\<lambda>_. True) pop_compat 4096 (ps_bus (pop_sys [0xA000]))"
    by (simp add: pop_inv_def pop_sys_def zero_device_def pop_valid)
  moreover have "cstr (dn_full_name (of_nodes pop_tree 0x2000)) \<noteq> cstr (dn_full_name (of_nodes pop_tree 0x3000))"
    by (simp add: pop_tree_def pop_node_def lit_def cstr_def)
  ultimately show ?thesis
    using pop_readable pop_compatibles by (simp add: can_convert_def) (simp add: pop_sys_def pop_kobjs_def)
qed

theorem populate_converts_witness:
  "\<exists>s'. fwk_of_platform_populate_init demo_pins (\<lambda>_. platform_bus demo_drvs) demo_ops zero_resource (pop_sys [0xA000]) = Some (- ER_FAULT, s') \<and>
     bs_devices (ps_bus s') sgrt_fwk_platform_bus_type = [ps_data s' 0x2000, ps_data s' 0x3000] \<and>
     dv_node (bs_dev (ps_bus s') (ps_data s' 0x3000)) = 0x3000"
proof -
  let ?s = "pop_sys [0xA000]" and ?ts = "[ONode 0x2000 [ONode 0x3000 []], ONode 0x4000 []]"
  have t: "bs_tree (ps_bus ?s) = pop_tree" "ps_flags ?s = (\<lambda>_. 0)" "bs_devices (ps_bus ?s) sgrt_fwk_platform_bus_type = []" by (simp_all add: pop_sys_def)
  have l: "linked pop_tree (dn_child (of_nodes pop_tree 0x1000)) ?ts" by (simp add: pop_tree_def pop_node_def pop_valid)
  have r: "node_result pop_tree (ONode 0x4000 []) = - ER_FAULT"
    by (simp add: node_result_def has_compatible_def fwk_of_get_property_def fwk_of_find_property_def pop_tree_def pop_node_def)
  obtain s' where s': "fwk_of_platform_populate_init demo_pins (\<lambda>_. platform_bus demo_drvs) demo_ops zero_resource ?s = Some (- ER_FAULT, s')"
      "converted [0x2000, 0x3000] ?s s'"
    using populate_converts [where bt = "\<lambda>_. platform_bus demo_drvs" and s = ?s and ts = ?ts and cs = pop_compat and q = 4096 and I = "\<lambda>_. True"
        and rt = "0x1000" and ops = demo_ops and res = zero_resource and pins = demo_pins, unfolded t pop_wanted, OF refl pop_root pop_valid(1) l _ _ pop_can_convert] r
    by auto
  have "ba_devs (bus_view sgrt_fwk_platform_bus_type (ps_bus s')) = [ps_data s' 0x2000, ps_data s' 0x3000]"
    using s'(2) t(3) by (simp add: converted_def grew_def spec_add_def)
  then show ?thesis using s' by (auto simp: converted_def)
qed

end
