(* ===== verification/Trie.thy ===== *)
theory Trie
  imports Api_String Keyed_Store "HOL-Library.Monad_Syntax"
begin

text \<open>
  The trie of \<^verbatim>\<open>common/generic/trie_tree.c\<close>, \<^verbatim>\<open>include/common/trie_tree.h\<close>: a map from names to links.

  A node is a link (0 is null) and an array of branches, which is made when the first branch is needed; the parent pointer is the position in the
  tree.  The allocator is a list that says whether each of the next allocations succeeds.  \<open>None\<close> is an access outside of an array of branches
  or behind the end of a name.
\<close>

section \<open>The tree\<close>

datatype trie_node = TNode (tn_link: kuaddr_t) (tn_branches: "trie_node option list option")

record trie_tree =
  tt_get :: "kuint8_t \<Rightarrow> int"
  tt_size :: nat
  tt_node :: trie_node
  tt_alloc :: "bool list"

text \<open>The characters are signed.\<close>

definition get_trie_node_branch :: "kuint8_t \<Rightarrow> int" where
  "get_trie_node_branch ch = (if ch = 0 then - 1 else if sint ch < 32 \<or> 126 < sint ch then - 2 else sint ch - 32)"

definition trie_alloc :: "bool list \<Rightarrow> bool \<times> bool list" where
  "trie_alloc al = (case al of [] \<Rightarrow> (False, []) | a # as \<Rightarrow> (a, as))"

definition create_trie_branch :: "nat \<Rightarrow> bool list \<Rightarrow> trie_node option list option \<times> bool list" where
  "create_trie_branch sz al = (let (got, al) = trie_alloc al in (if got then Some (replicate sz None) else None, al))"

definition allocate_trie_node :: "bool list \<Rightarrow> trie_node option \<times> bool list" where
  "allocate_trie_node al = (let (got, al) = trie_alloc al in (if got then Some (TNode 0 None) else None, al))"

definition branch_of :: "trie_node option list \<Rightarrow> int \<Rightarrow> trie_node option option" where
  "branch_of bs offset = (if offset < 0 \<or> int (length bs) \<le> offset then None else Some (bs ! nat offset))"

section \<open>Searching\<close>

text \<open>The walk over the tree: an error, a node, or the null pointer.\<close>

fun find_trie_loop :: "(kuint8_t \<Rightarrow> int) \<Rightarrow> trie_node \<Rightarrow> bytes \<Rightarrow> (int + trie_node option) option" where
  "find_trie_loop get n [] = None"
| "find_trie_loop get n (ch # str) =
     (let offset = get ch
      in if offset = - 1 then Some (Inr (Some n))
         else if offset = - 2 then Some (Inl (- ER_FAULT))
         else case tn_branches n of
                None \<Rightarrow> Some (Inr None)
              | Some bs \<Rightarrow>
                  (case branch_of bs offset of
                     None \<Rightarrow> None
                   | Some None \<Rightarrow> Some (Inr None)
                   | Some (Some c) \<Rightarrow> find_trie_loop get c str))"

definition find_trie_node :: "trie_tree \<Rightarrow> bytes \<Rightarrow> (int + trie_node option) option" where
  "find_trie_node t nm =
     do { r \<leftarrow> find_trie_loop (tt_get t) (tt_node t) nm;
          Some (case r of
                  Inr (Some n) \<Rightarrow> Inr (if tn_link n \<noteq> 0 then Some n else None)
                | r \<Rightarrow> r) }"

definition trie_tree_look_up :: "trie_tree \<Rightarrow> bytes \<Rightarrow> kuaddr_t option" where
  "trie_tree_look_up t nm =
     do { r \<leftarrow> find_trie_node t nm; Some (case r of Inr (Some n) \<Rightarrow> tn_link n | _ \<Rightarrow> 0) }"

section \<open>Adding\<close>

text \<open>The loop below a node: the changed node and the remaining allocations.  A failed allocation ends the call and leaves what was made so far.\<close>

fun trie_add_loop :: "(kuint8_t \<Rightarrow> int) \<Rightarrow> nat \<Rightarrow> kuaddr_t \<Rightarrow> trie_node \<Rightarrow> bytes \<Rightarrow> bool list \<Rightarrow> (trie_node \<times> bool list) option" where
  "trie_add_loop get sz link n [] al = Some (TNode link (tn_branches n), al)"
| "trie_add_loop get sz link n (ch # str) al =
     (let offset = get ch; (br, al) = (if tn_branches n \<noteq> None then (tn_branches n, al) else create_trie_branch sz al)
      in case br of
           None \<Rightarrow> Some (n, al)
         | Some bs \<Rightarrow>
             (case branch_of bs offset of
                None \<Rightarrow> None
              | Some b \<Rightarrow>
                  let (b, al) = (if b \<noteq> None then (b, al) else allocate_trie_node al)
                  in case b of
                       None \<Rightarrow> Some (TNode (tn_link n) (Some bs), al)
                     | Some c \<Rightarrow> do { (c, al) \<leftarrow> trie_add_loop get sz link c str al;
                                      Some (TNode (tn_link n) (Some (bs[nat offset := Some c])), al) }))"

definition trie_node_add :: "bytes \<Rightarrow> kuaddr_t \<Rightarrow> trie_tree \<Rightarrow> trie_tree option" where
  "trie_node_add nm link t =
     do { lenth \<leftarrow> get_string_lenth nm;
          if link = 0 then Some t
          else do {
            r \<leftarrow> find_trie_node t nm;
            if r \<noteq> Inr None then Some t
            else do { (n, al) \<leftarrow> trie_add_loop (tt_get t) (tt_size t) link (tt_node t) (take lenth nm) (tt_alloc t);
                      Some (t\<lparr>tt_node := n, tt_alloc := al\<rparr>) } } }"

section \<open>Deleting\<close>

text \<open>What \<^verbatim>\<open>__del_trie_node\<close> makes of a node whose branch \<open>i\<close> has been freed: the node without it, without any branches when it was the last
  one, or nothing when it has no link either and is freed too.\<close>

definition del_trie_node :: "kuaddr_t \<Rightarrow> trie_node option list \<Rightarrow> nat \<Rightarrow> trie_node option" where
  "del_trie_node l bs i =
     (let bs = bs[i := None]
      in if \<exists>b \<in> set bs. b \<noteq> None then Some (TNode l (Some bs)) else if l \<noteq> 0 then Some (TNode l None) else None)"

text \<open>\<open>Some None\<close>: there is nothing to delete; otherwise what stands in the place of the node afterwards.\<close>

fun trie_del_loop :: "(kuint8_t \<Rightarrow> int) \<Rightarrow> trie_node \<Rightarrow> bytes \<Rightarrow> trie_node option option option" where
  "trie_del_loop get n [] =
     Some (if tn_link n = 0 then None else Some (if tn_branches n \<noteq> None then Some (TNode 0 (tn_branches n)) else None))"
| "trie_del_loop get n (ch # str) =
     (case tn_branches n of
        None \<Rightarrow> Some None
      | Some bs \<Rightarrow>
          let offset = get ch
          in if offset = - 2 then Some None
             else case branch_of bs offset of
                    None \<Rightarrow> None
                  | Some None \<Rightarrow> Some None
                  | Some (Some c) \<Rightarrow>
                      do { r \<leftarrow> trie_del_loop get c str;
                           Some (case r of
                                   None \<Rightarrow> None
                                 | Some None \<Rightarrow> Some (del_trie_node (tn_link n) bs (nat offset))
                                 | Some (Some c) \<Rightarrow> Some (Some (TNode (tn_link n) (Some (bs[nat offset := Some c]))))) })"

definition trie_node_del :: "bytes \<Rightarrow> trie_tree \<Rightarrow> trie_tree option" where
  "trie_node_del nm t =
     do { lenth \<leftarrow> get_string_lenth nm;
          if lenth = 0 then Some t
          else do { r \<leftarrow> trie_del_loop (tt_get t) (tt_node t) (take lenth nm);
                    Some (case r of
                            None \<Rightarrow> t
                          | Some None \<Rightarrow> t\<lparr>tt_node := TNode 0 None\<rparr>
                          | Some (Some n) \<Rightarrow> t\<lparr>tt_node := n\<rparr>) } }"

section \<open>Names as paths\<close>

definition plain :: "kuint8_t \<Rightarrow> bool" where
  "plain ch \<longleftrightarrow> 32 \<le> sint ch \<and> sint ch \<le> 126"

definition slot :: "kuint8_t \<Rightarrow> nat" where
  "slot ch = nat (sint ch - 32)"

lemma plain_facts:
  assumes "plain ch"
  shows "get_trie_node_branch ch = int (slot ch)" and "slot ch < 95" and "ch \<noteq> 0"
  using assms by (auto simp: plain_def slot_def get_trie_node_branch_def)

lemma slot_inj: "plain a \<Longrightarrow> plain b \<Longrightarrow> slot a = slot b \<longleftrightarrow> a = b"
  by (auto simp: plain_def slot_def nat_eq_iff2) (metis signed_word_eqI)

inductive trie_wf :: "trie_node \<Rightarrow> bool" where
  "(\<And>bs. b = Some bs \<Longrightarrow> length bs = 95) \<Longrightarrow> (\<And>bs c. b = Some bs \<Longrightarrow> Some c \<in> set bs \<Longrightarrow> trie_wf c) \<Longrightarrow> trie_wf (TNode l b)"

inductive_simps trie_wf_node: "trie_wf (TNode l b)"

definition slots :: "trie_node \<Rightarrow> trie_node option list" where
  "slots n = (case tn_branches n of None \<Rightarrow> replicate 95 None | Some bs \<Rightarrow> bs)"

fun trie_link :: "trie_node \<Rightarrow> bytes \<Rightarrow> kuaddr_t" where
  "trie_link n [] = tn_link n"
| "trie_link n (c # cs) = (case slots n ! slot c of None \<Rightarrow> 0 | Some m \<Rightarrow> trie_link m cs)"

lemma trie_wf_slots:
  assumes "trie_wf n"
  shows "length (slots n) = 95" and "i < 95 \<Longrightarrow> slots n ! i = Some c \<Longrightarrow> trie_wf c"
  using assms by (cases n; auto simp: trie_wf_node slots_def in_set_conv_nth split: option.splits)+

lemma trie_wf_with: "trie_wf n \<Longrightarrow> (\<And>c. b = Some c \<Longrightarrow> trie_wf c) \<Longrightarrow> trie_wf (TNode l (Some ((slots n)[i := b])))"
  by (cases n) (auto simp: trie_wf_node slots_def dest!: set_update_subset_insert [THEN subsetD] split: option.splits)

lemma trie_wf_relink: "trie_wf n \<Longrightarrow> trie_wf (TNode l (tn_branches n))"
  by (cases n) (simp add: trie_wf_node)

lemma trie_wf_empty [simp]: "trie_wf (TNode l None)" "slots (TNode l None) = replicate 95 None" "slots (TNode l (Some bs)) = bs"
  by (simp_all add: trie_wf_node slots_def)

lemma trie_link_empty [simp]: "\<forall>c \<in> set cs. plain c \<Longrightarrow> cs \<noteq> [] \<Longrightarrow> trie_link (TNode l None) cs = 0"
  by (cases cs) (auto simp: plain_facts(2))

lemma branch_of_slot: "trie_wf n \<Longrightarrow> plain c \<Longrightarrow> branch_of (slots n) (int (slot c)) = Some (slots n ! slot c)"
  using trie_wf_slots(1) [of n] plain_facts(2) [of c] by (simp add: branch_of_def)

lemma find_loop_link:
  assumes "trie_wf n" and "\<forall>c \<in> set cs. plain c"
  shows "\<exists>r. find_trie_loop get_trie_node_branch n (cs @ [0]) = Some (Inr r) \<and> (case r of None \<Rightarrow> 0 | Some m \<Rightarrow> tn_link m) = trie_link n cs"
  using assms
proof (induction cs arbitrary: n)
  case Nil
  then show ?case by (simp add: get_trie_node_branch_def)
next
  case (Cons c cs)
  have c: "plain c" using Cons.prems by simp
  note b = branch_of_slot [OF Cons.prems(1) c] and g = plain_facts [OF c]
  show ?case
  proof (cases "tn_branches n")
    case None
    then show ?thesis using g by (simp add: slots_def)
  next
    case (Some bs)
    then have s: "slots n = bs" by (simp add: slots_def)
    show ?thesis
    proof (cases "bs ! slot c")
      case None
      then show ?thesis using Some g b s by simp
    next
      case m: (Some m)
      then have "trie_wf m" using trie_wf_slots(2) [OF Cons.prems(1) g(2)] s by simp
      from Cons.IH [OF this] Cons.prems(2) show ?thesis using Some g b s m by simp
    qed
  qed
qed

section \<open>Adding and deleting on paths\<close>

lemma trie_alloc_drop: "trie_alloc al = (take 1 al = [True], drop 1 al)"
  by (cases al) (auto simp: trie_alloc_def)

lemma enough_first: "take (Suc k) al = replicate (Suc k) True \<Longrightarrow> take 1 al = [True] \<and> take k (drop 1 al) = replicate k True"
  by (cases al) auto

lemma enough_less: "take k al = replicate k True \<Longrightarrow> j \<le> k \<Longrightarrow> take j al = replicate j True"
  by (metis min.absorb1 take_replicate take_take)

text \<open>One pass of the loop: the array and the branch are there or are made.\<close>

lemma add_loop_step:
  assumes "trie_wf n" and "plain c"
  shows "\<exists>k \<le> 2.
     (trie_add_loop get_trie_node_branch 95 v n (c # cs) al = Some (TNode (tn_link n) (Some (slots n)), drop k al) \<or>
      trie_add_loop get_trie_node_branch 95 v n (c # cs) al = Some (n, drop k al)) \<and> take 2 al \<noteq> [True, True] \<or>
     trie_add_loop get_trie_node_branch 95 v n (c # cs) al =
       do { (m, al) \<leftarrow> trie_add_loop get_trie_node_branch 95 v (case slots n ! slot c of None \<Rightarrow> TNode 0 None | Some m \<Rightarrow> m) cs (drop k al);
            Some (TNode (tn_link n) (Some ((slots n)[slot c := Some m])), al) }"
proof -
  note g = plain_facts [OF assms(2)] and b = branch_of_slot [OF assms]
  have two: "take 2 al = [True, True] \<Longrightarrow> take 1 al = [True] \<and> take 1 (drop 1 al) = [True]" by (cases al; cases "tl al") auto
  have one: "take 2 al = [True, True] \<Longrightarrow> take 1 al = [True]" using two by simp
  show ?thesis
  proof (cases "tn_branches n")
    case None
    then have s: "slots n = replicate 95 None" "slots n ! slot c = None" using g(2) by (simp_all add: slots_def)
    have br: "branch_of (replicate 95 None) (int (slot c)) = Some None" using b s by simp
    show ?thesis
    proof (cases "take 1 al = [True] \<and> take 1 (drop 1 al) = [True]")
      case True
      then show ?thesis
        using None g br s(1) by (intro exI [of _ 2]) (simp add: create_trie_branch_def allocate_trie_node_def trie_alloc_drop numeral_2_eq_2)
    next
      case False
      then show ?thesis
        using None g br s(1) two by (intro exI [of _ "if take 1 al = [True] then 2 else 1"]) (auto simp: create_trie_branch_def allocate_trie_node_def trie_alloc_drop numeral_2_eq_2)
    qed
  next
    case (Some bs)
    then have s: "slots n = bs" by (simp add: slots_def)
    show ?thesis
    proof (cases "bs ! slot c")
      case None
      show ?thesis
      proof (cases "take 1 al = [True]")
        case True
        then show ?thesis using Some None g(1) b s by (intro exI [of _ 1]) (simp add: allocate_trie_node_def trie_alloc_drop)
      next
        case False
        then show ?thesis using Some None g(1) b s one by (intro exI [of _ 1]) (auto simp: allocate_trie_node_def trie_alloc_drop)
      qed
    next
      case m: (Some m)
      then show ?thesis using Some g(1) b s by (intro exI [of _ 0]) simp
    qed
  qed
qed

text \<open>The result of an addition: the node stays well-formed, other names are undisturbed, at most two pieces of memory are taken for each character,
  and with that much memory the name is found.\<close>

lemma trie_link_slots: "trie_link (TNode l (Some (slots n))) ds = (if ds = [] then l else trie_link n ds)"
  by (cases ds) simp_all

lemma add_loop_link:
  assumes "trie_wf n" and "\<forall>c \<in> set cs. plain c"
  shows "\<exists>m k. trie_add_loop get_trie_node_branch 95 v n cs al = Some (m, drop k al) \<and> k \<le> 2 * length cs \<and> trie_wf m \<and>
     (\<forall>ds. (\<forall>c \<in> set ds. plain c) \<and> ds \<noteq> cs \<longrightarrow> trie_link m ds = trie_link n ds) \<and>
     (take (2 * length cs) al = replicate (2 * length cs) True \<longrightarrow> trie_link m cs = v)"
  using assms
proof (induction cs arbitrary: n al)
  case Nil
  have "trie_link (TNode v (tn_branches n)) ds = trie_link n ds" if "ds \<noteq> []" for ds using that by (cases ds) (simp_all add: slots_def)
  then show ?case using trie_wf_relink [OF Nil.prems(1)] by (auto intro!: exI [of _ 0])
next
  case (Cons c cs)
  have c: "plain c" using Cons.prems by simp
  note g = plain_facts [OF c] and w = trie_wf_slots [OF Cons.prems(1)]
  have few: "take (2 * length (c # cs)) al \<noteq> replicate (2 * length (c # cs)) True" if "take 2 al \<noteq> [True, True]"
    using that enough_less [of "2 * length (c # cs)" al 2] by (auto simp: numeral_2_eq_2)
  have wf0: "trie_wf (TNode (tn_link n) (Some (slots n)))" using trie_wf_with [OF Cons.prems(1), of "slots n ! 0" "tn_link n" 0] w(2) [of 0] by simp
  obtain k where k: "k \<le> 2" "(trie_add_loop get_trie_node_branch 95 v n (c # cs) al = Some (TNode (tn_link n) (Some (slots n)), drop k al) \<or>
      trie_add_loop get_trie_node_branch 95 v n (c # cs) al = Some (n, drop k al)) \<and> take 2 al \<noteq> [True, True] \<or>
     trie_add_loop get_trie_node_branch 95 v n (c # cs) al =
       do { (m, al) \<leftarrow> trie_add_loop get_trie_node_branch 95 v (case slots n ! slot c of None \<Rightarrow> TNode 0 None | Some m \<Rightarrow> m) cs (drop k al);
            Some (TNode (tn_link n) (Some ((slots n)[slot c := Some m])), al) }"
    using add_loop_step [OF Cons.prems(1) c] by blast
  from k(2) show ?case
  proof (elim disjE conjE)
    assume "trie_add_loop get_trie_node_branch 95 v n (c # cs) al = Some (TNode (tn_link n) (Some (slots n)), drop k al)" "take 2 al \<noteq> [True, True]"
    then show ?thesis using k(1) wf0 few trie_link_slots [of "tn_link n" n] by (intro exI [of _ "TNode (tn_link n) (Some (slots n))"] exI [of _ k]) auto
  next
    assume "trie_add_loop get_trie_node_branch 95 v n (c # cs) al = Some (n, drop k al)" "take 2 al \<noteq> [True, True]"
    then show ?thesis using k(1) Cons.prems(1) few by (intro exI [of _ n] exI [of _ k]) auto
  next
    let ?m0 = "case slots n ! slot c of None \<Rightarrow> TNode 0 None | Some m \<Rightarrow> m"
    assume r: "trie_add_loop get_trie_node_branch 95 v n (c # cs) al =
       do { (m, al) \<leftarrow> trie_add_loop get_trie_node_branch 95 v ?m0 cs (drop k al); Some (TNode (tn_link n) (Some ((slots n)[slot c := Some m])), al) }"
    have w0: "trie_wf ?m0" using w(2) [OF g(2)] by (auto split: option.split)
    have l0: "trie_link ?m0 ds = (case slots n ! slot c of None \<Rightarrow> 0 | Some m \<Rightarrow> trie_link m ds)" if "\<forall>c \<in> set ds. plain c" for ds
      using that by (cases "ds = []") (auto split: option.split)
    obtain m j where m: "trie_add_loop get_trie_node_branch 95 v ?m0 cs (drop k al) = Some (m, drop j (drop k al))" "j \<le> 2 * length cs" "trie_wf m"
       "\<forall>ds. (\<forall>c \<in> set ds. plain c) \<and> ds \<noteq> cs \<longrightarrow> trie_link m ds = trie_link ?m0 ds"
       "take (2 * length cs) (drop k al) = replicate (2 * length cs) True \<longrightarrow> trie_link m cs = v"
      using Cons.IH [OF w0, of "drop k al"] Cons.prems(2) by auto
    let ?n = "TNode (tn_link n) (Some ((slots n)[slot c := Some m]))"
    have "trie_wf ?n" using m(3) by (intro trie_wf_with [OF Cons.prems(1)]) simp
    moreover have "trie_link ?n ds = trie_link n ds" if "\<forall>c \<in> set ds. plain c" "ds \<noteq> c # cs" for ds
      using that m(4) l0 g(2) w(1) slot_inj [OF c] by (cases ds) (auto simp: nth_list_update)
    moreover have "trie_link ?n (c # cs) = v" if "take (2 * length (c # cs)) al = replicate (2 * length (c # cs)) True"
    proof -
      have "take (k + 2 * length cs) al = replicate (k + 2 * length cs) True" by (rule enough_less [OF that]) (use k(1) in simp)
      then have "take (2 * length cs) (drop k al) = replicate (2 * length cs) True" by (simp add: take_drop add.commute drop_replicate)
      then show ?thesis using m(5) g(2) w(1) by simp
    qed
    ultimately show ?thesis using r m(1,2) k(1) by (intro exI [of _ ?n] exI [of _ "j + k"]) auto
  qed
qed

text \<open>\<open>trie_kept r\<close> is the node that stands where a freed one was.\<close>

definition trie_kept :: "trie_node option \<Rightarrow> trie_node" where
  "trie_kept r = (case r of None \<Rightarrow> TNode 0 None | Some n \<Rightarrow> n)"

lemma trie_link_kept: "\<forall>c \<in> set ds. plain c \<Longrightarrow> (case r of None \<Rightarrow> 0 | Some m \<Rightarrow> trie_link m ds) = trie_link (trie_kept r) ds"
  by (cases "ds = []") (auto simp: trie_kept_def split: option.split)

text \<open>Taking away a branch that was freed changes no link.\<close>

lemma del_trie_node_link:
  assumes "trie_wf n" and "i < 95" and "tn_branches n = Some bs"
  shows "trie_wf (trie_kept (del_trie_node (tn_link n) bs i))"
    and "\<forall>c \<in> set ds. plain c \<Longrightarrow> trie_link (trie_kept (del_trie_node (tn_link n) bs i)) ds = trie_link (TNode (tn_link n) (Some (bs[i := None]))) ds"
proof -
  have s: "slots n = bs" using assms(3) by (simp add: slots_def)
  have w: "trie_wf (TNode (tn_link n) (Some (bs[i := None])))" using trie_wf_with [OF assms(1), of None "tn_link n" i] s by simp
  show "trie_wf (trie_kept (del_trie_node (tn_link n) bs i))" using w by (simp add: del_trie_node_def trie_kept_def Let_def)
  show "trie_link (trie_kept (del_trie_node (tn_link n) bs i)) ds = trie_link (TNode (tn_link n) (Some (bs[i := None]))) ds" if p: "\<forall>c \<in> set ds. plain c"
  proof (cases "\<exists>b \<in> set (bs[i := None]). b \<noteq> None")
    case True
    then show ?thesis by (simp add: del_trie_node_def trie_kept_def)
  next
    case False
    have e: "bs[i := None] ! j = None" if "j < 95" for j using False trie_wf_slots(1) [OF assms(1)] s that by (metis length_list_update nth_mem)
    show ?thesis
    proof (cases ds)
      case Nil
      then show ?thesis using False by (auto simp: del_trie_node_def trie_kept_def Let_def)
    next
      case (Cons c cs)
      then have "slot c < 95" using p plain_facts(2) by simp
      then show ?thesis using False e Cons by (auto simp: del_trie_node_def trie_kept_def Let_def)
    qed
  qed
qed

lemma del_loop_link:
  assumes "trie_wf n" and "\<forall>c \<in> set cs. plain c"
  shows "\<exists>r. trie_del_loop get_trie_node_branch n cs = Some r \<and>
     (case r of
        None \<Rightarrow> trie_link n cs = 0
      | Some m \<Rightarrow> trie_wf (trie_kept m) \<and>
          (\<forall>ds. (\<forall>c \<in> set ds. plain c) \<longrightarrow> trie_link (trie_kept m) ds = (if ds = cs then 0 else trie_link n ds)))"
  using assms
proof (induction cs arbitrary: n)
  case Nil
  have "trie_link (TNode 0 (tn_branches n)) ds = (if ds = [] then 0 else trie_link n ds)" for ds by (cases ds) (simp_all add: slots_def)
  then show ?case using trie_wf_relink [OF Nil.prems(1), of 0] by (auto simp: trie_kept_def) (metis trie_link_empty)
next
  case (Cons c cs)
  have c: "plain c" using Cons.prems by simp
  note b = branch_of_slot [OF Cons.prems(1) c] and g = plain_facts [OF c] and w = trie_wf_slots [OF Cons.prems(1)]
  show ?case
  proof (cases "tn_branches n")
    case None
    then show ?thesis using g by (simp add: slots_def)
  next
    case (Some bs)
    then have s: "slots n = bs" by (simp add: slots_def)
    show ?thesis
    proof (cases "bs ! slot c")
      case None
      then show ?thesis using Some g b s by simp
    next
      case m: (Some m)
      then have wm: "trie_wf m" using w(2) [OF g(2)] s by simp
      obtain r where r: "trie_del_loop get_trie_node_branch m cs = Some r" "case r of None \<Rightarrow> trie_link m cs = 0
        | Some x \<Rightarrow> trie_wf (trie_kept x) \<and> (\<forall>ds. (\<forall>c \<in> set ds. plain c) \<longrightarrow> trie_link (trie_kept x) ds = (if ds = cs then 0 else trie_link m ds))"
        using Cons.IH [OF wm] Cons.prems(2) by auto
      show ?thesis
      proof (cases r)
        case None
        then show ?thesis using r Some m g b s by simp
      next
        case x: (Some x)
        let ?n = "TNode (tn_link n) (Some (bs[slot c := x]))"
        have n: "trie_wf ?n" using trie_wf_with [OF Cons.prems(1), of x "tn_link n" "slot c"] r(2) x s by (simp add: trie_kept_def split: option.splits)
        have l: "trie_link ?n ds = (if ds = c # cs then 0 else trie_link n ds)" if p: "\<forall>c \<in> set ds. plain c" for ds
        proof (cases ds)
          case (Cons d es)
          then have "trie_link ?n ds = (if slot d = slot c then trie_link (trie_kept x) es else case bs ! slot d of None \<Rightarrow> 0 | Some m \<Rightarrow> trie_link m es)"
            using p g(2) w(1) s by (simp add: trie_link_kept)
          then show ?thesis using Cons p r(2) x m s slot_inj [OF _ c, of d] by auto
        qed simp
        have "trie_del_loop get_trie_node_branch n (c # cs) = Some (Some (case x of None \<Rightarrow> del_trie_node (tn_link n) bs (slot c) | Some _ \<Rightarrow> Some ?n))"
          using r(1) x Some m g b s by (simp split: option.split)
        then show ?thesis
          using n l del_trie_node_link [OF Cons.prems(1) g(2) Some] by (cases x) (simp_all add: trie_kept_def)
      qed
    qed
  qed
qed

section \<open>The trie as a store\<close>

definition trie_ok :: "trie_tree \<Rightarrow> bool" where
  "trie_ok t \<longleftrightarrow> tt_get t = get_trie_node_branch \<and> tt_size t = 95 \<and> trie_wf (tt_node t)"

text \<open>Names of printable characters; the empty name can be bound but not deleted.\<close>

definition is_name :: "bytes \<Rightarrow> bool" where
  "is_name cs \<longleftrightarrow> cs \<noteq> [] \<and> (\<forall>c \<in> set cs. plain c)"

lemma name_lenth: "is_name cs \<Longrightarrow> get_string_lenth (cs @ [0]) = Some (length cs)"
  by (rule get_string_lenth_terminated) (auto simp: is_name_def plain_def)

lemma find_node_link:
  assumes "trie_ok t" and "is_name cs"
  shows "\<exists>r. find_trie_node t (cs @ [0]) = Some (Inr r) \<and> (r = None \<longleftrightarrow> trie_link (tt_node t) cs = 0) \<and> trie_tree_look_up t (cs @ [0]) = Some (trie_link (tt_node t) cs)"
proof -
  obtain r where "find_trie_loop get_trie_node_branch (tt_node t) (cs @ [0]) = Some (Inr r)" "(case r of None \<Rightarrow> 0 | Some m \<Rightarrow> tn_link m) = trie_link (tt_node t) cs"
    using find_loop_link [of "tt_node t" cs] assms by (auto simp: trie_ok_def is_name_def)
  then show ?thesis using assms(1) by (cases r) (auto simp: trie_ok_def find_trie_node_def trie_tree_look_up_def)
qed

lemma add_node_link:
  assumes "trie_ok t" and "is_name cs"
  shows "\<exists>t' k. trie_node_add (cs @ [0]) v t = Some t' \<and> trie_ok t' \<and> tt_alloc t' = drop k (tt_alloc t) \<and> k \<le> 2 * length cs \<and>
     (\<forall>ds. is_name ds \<and> ds \<noteq> cs \<longrightarrow> trie_link (tt_node t') ds = trie_link (tt_node t) ds) \<and>
     (if trie_link (tt_node t) cs \<noteq> 0 \<or> v = 0 then t' = t
      else take (2 * length cs) (tt_alloc t) = replicate (2 * length cs) True \<longrightarrow> trie_link (tt_node t') cs = v)"
proof -
  obtain r where r: "find_trie_node t (cs @ [0]) = Some (Inr r)" "r = None \<longleftrightarrow> trie_link (tt_node t) cs = 0" using find_node_link [OF assms] by blast
  show ?thesis
  proof (cases "trie_link (tt_node t) cs \<noteq> 0 \<or> v = 0")
    case True
    then have "trie_node_add (cs @ [0]) v t = Some t" using r name_lenth [OF assms(2)] by (auto simp: trie_node_add_def)
    then show ?thesis using True assms(1) by (intro exI [of _ t] exI [of _ 0]) auto
  next
    case False
    obtain m k where m: "trie_add_loop get_trie_node_branch 95 v (tt_node t) cs (tt_alloc t) = Some (m, drop k (tt_alloc t))" "k \<le> 2 * length cs" "trie_wf m"
       "\<forall>ds. (\<forall>c \<in> set ds. plain c) \<and> ds \<noteq> cs \<longrightarrow> trie_link m ds = trie_link (tt_node t) ds"
       "take (2 * length cs) (tt_alloc t) = replicate (2 * length cs) True \<longrightarrow> trie_link m cs = v"
      using add_loop_link [of "tt_node t" cs v "tt_alloc t"] assms by (auto simp: trie_ok_def is_name_def)
    have "trie_node_add (cs @ [0]) v t = Some (t\<lparr>tt_node := m, tt_alloc := drop k (tt_alloc t)\<rparr>)"
      using False r m(1) name_lenth [OF assms(2)] assms(1) by (simp add: trie_node_add_def trie_ok_def)
    then show ?thesis using False m assms(1) by (intro exI [of _ "t\<lparr>tt_node := m, tt_alloc := drop k (tt_alloc t)\<rparr>"] exI [of _ k]) (auto simp: trie_ok_def is_name_def)
  qed
qed

lemma del_node_link:
  assumes "trie_ok t" and "is_name cs"
  shows "\<exists>t'. trie_node_del (cs @ [0]) t = Some t' \<and> trie_ok t' \<and> tt_alloc t' = tt_alloc t \<and>
     (\<forall>ds. is_name ds \<longrightarrow> trie_link (tt_node t') ds = (if ds = cs then 0 else trie_link (tt_node t) ds))"
proof -
  obtain r where r: "trie_del_loop get_trie_node_branch (tt_node t) cs = Some r" "case r of None \<Rightarrow> trie_link (tt_node t) cs = 0
      | Some m \<Rightarrow> trie_wf (trie_kept m) \<and> (\<forall>ds. (\<forall>c \<in> set ds. plain c) \<longrightarrow> trie_link (trie_kept m) ds = (if ds = cs then 0 else trie_link (tt_node t) ds))"
    using del_loop_link [of "tt_node t" cs] assms by (auto simp: trie_ok_def is_name_def)
  have e: "trie_node_del (cs @ [0]) t = Some (case r of None \<Rightarrow> t | Some m \<Rightarrow> t\<lparr>tt_node := trie_kept m\<rparr>)"
    using r(1) name_lenth [OF assms(2)] assms by (simp add: trie_node_del_def trie_ok_def is_name_def trie_kept_def split: option.split)
  show ?thesis using e r(2) assms by (cases r) (auto simp: trie_ok_def is_name_def)
qed

text \<open>The operations on names, with nothing happening for what is no name; \<open>L\<close> is the longest name.\<close>

definition trie_map :: "trie_tree \<Rightarrow> bytes \<Rightarrow> kuaddr_t option" where
  "trie_map t cs = (if is_name cs then case trie_tree_look_up t (cs @ [0]) of None \<Rightarrow> None | Some l \<Rightarrow> if l = 0 then None else Some l else None)"

definition trie_insert :: "bytes \<Rightarrow> kuaddr_t \<Rightarrow> trie_tree \<Rightarrow> trie_tree" where
  "trie_insert cs v t = (if is_name cs then the (trie_node_add (cs @ [0]) v t) else t)"

definition trie_remove :: "bytes \<Rightarrow> trie_tree \<Rightarrow> trie_tree" where
  "trie_remove cs t = (if is_name cs then the (trie_node_del (cs @ [0]) t) else t)"

definition trie_room :: "nat \<Rightarrow> nat \<Rightarrow> trie_tree \<Rightarrow> bool" where
  "trie_room L n t \<longleftrightarrow> take (2 * L * n) (tt_alloc t) = replicate (2 * L * n) True"

lemma trie_map_link: "trie_ok t \<Longrightarrow> trie_map t cs = (if is_name cs \<and> trie_link (tt_node t) cs \<noteq> 0 then Some (trie_link (tt_node t) cs) else None)"
  using find_node_link [of t cs] by (auto simp: trie_map_def)

interpretation trie: keyed_store "{cs. is_name cs \<and> length cs \<le> L}" "UNIV - {0}" trie_ok "trie_room L" trie_map trie_insert trie_remove for L
proof unfold_locales
  fix t :: trie_tree and k k' :: bytes and v w :: kuaddr_t and n
  assume ok: "trie_ok t"
  note add = add_node_link [OF ok, of k v] and del = del_node_link [OF ok, of k]
  show ok1: "trie_ok (trie_insert k v t)" using add ok by (cases "is_name k") (auto simp: trie_insert_def)
  show ok2: "trie_ok (trie_remove k t)" using del ok by (cases "is_name k") (auto simp: trie_remove_def)
  show "k' \<noteq> k \<Longrightarrow> trie_map (trie_insert k v t) k' = trie_map t k'"
    using add by (cases "is_name k") (auto simp: trie_map_link ok trie_insert_def)
  show "trie_map t k = Some w \<Longrightarrow> trie_insert k v t = t"
    using add by (auto simp: trie_map_link [OF ok] trie_insert_def split: if_splits)
  show "trie_map (trie_remove k t) k' = (if k' = k then None else trie_map t k')"
    using del by (cases "is_name k") (auto simp: trie_map_link ok trie_remove_def)
  assume k: "k \<in> {cs. is_name cs \<and> length cs \<le> L}" and r: "trie_room L (Suc n) t"
  have l: "2 * length k + 2 * L * n \<le> 2 * L * Suc n" using k by simp
  show "trie_map t k = None \<Longrightarrow> v \<in> UNIV - {0} \<Longrightarrow> trie_map (trie_insert k v t) k = Some v"
    using add k enough_less [OF r [unfolded trie_room_def], of "2 * length k"] l
    by (auto simp: trie_map_link ok trie_insert_def split: if_splits)
  obtain j where j: "j \<le> 2 * length k" "tt_alloc (trie_insert k v t) = drop j (tt_alloc t)" using add k by (auto simp: trie_insert_def)
  have "take (j + 2 * L * n) (tt_alloc t) = replicate (j + 2 * L * n) True" by (rule enough_less [OF r [unfolded trie_room_def]]) (use j(1) l in simp)
  then show "trie_room L n (trie_insert k v t)" using j(2) by (simp add: trie_room_def take_drop add.commute drop_replicate)
qed

section \<open>Properties\<close>

text \<open>C17: The trie is a map from names of printable characters to links that keeps the first binding: both calls return; adding leaves every other name alone
  and changes nothing for a bound name; with memory for two pieces a character a fresh name is found afterwards under its link; deleting unbinds exactly
  the name; running out of memory disturbs no other name.\<close>

theorem trie_is_map:
  assumes "trie_ok t" and "is_name cs" and "v \<noteq> 0"
  shows "\<exists>t1 t2. trie_node_add (cs @ [0]) v t = Some t1 \<and> trie_node_del (cs @ [0]) t = Some t2 \<and> trie_ok t1 \<and> trie_ok t2 \<and>
     (\<forall>ds. is_name ds \<and> ds \<noteq> cs \<longrightarrow> trie_tree_look_up t1 (ds @ [0]) = trie_tree_look_up t (ds @ [0])) \<and>
     (trie_tree_look_up t (cs @ [0]) \<noteq> Some 0 \<longrightarrow> t1 = t) \<and>
     (trie_tree_look_up t (cs @ [0]) = Some 0 \<and> take (2 * length cs) (tt_alloc t) = replicate (2 * length cs) True \<longrightarrow>
        trie_tree_look_up t1 (cs @ [0]) = Some v) \<and>
     (\<forall>ds. is_name ds \<longrightarrow> trie_tree_look_up t2 (ds @ [0]) = (if ds = cs then Some 0 else trie_tree_look_up t (ds @ [0])))"
proof -
  obtain t1 where t1: "trie_node_add (cs @ [0]) v t = Some t1" "trie_ok t1"
     "\<forall>ds. is_name ds \<and> ds \<noteq> cs \<longrightarrow> trie_link (tt_node t1) ds = trie_link (tt_node t) ds"
     "if trie_link (tt_node t) cs \<noteq> 0 \<or> v = 0 then t1 = t
      else take (2 * length cs) (tt_alloc t) = replicate (2 * length cs) True \<longrightarrow> trie_link (tt_node t1) cs = v"
    using add_node_link [OF assms(1,2)] by blast
  obtain t2 where t2: "trie_node_del (cs @ [0]) t = Some t2" "trie_ok t2"
     "\<forall>ds. is_name ds \<longrightarrow> trie_link (tt_node t2) ds = (if ds = cs then 0 else trie_link (tt_node t) ds)"
    using del_node_link [OF assms(1,2)] by blast
  have lk: "trie_tree_look_up x (ds @ [0]) = Some (trie_link (tt_node x) ds)" if "trie_ok x" "is_name ds" for x ds using find_node_link [OF that] by blast
  show ?thesis using t1 t2 assms by (intro exI [of _ t1] exI [of _ t2]) (auto simp: lk split: if_splits)
qed

definition empty_trie :: trie_tree where
  "empty_trie = \<lparr>tt_get = get_trie_node_branch, tt_size = 95, tt_node = TNode 0 None, tt_alloc = replicate 8 True\<rparr>"

lemma empty_trie_ok: "trie_ok empty_trie" "is_name cs \<Longrightarrow> trie_tree_look_up empty_trie (cs @ [0]) = Some 0"
  using find_node_link [of empty_trie cs] by (auto simp: trie_ok_def empty_trie_def is_name_def)

theorem trie_is_map_witness:
  "\<exists>t. trie_node_add [117, 49, 0] 64 empty_trie = Some t \<and> trie_tree_look_up t [117, 49, 0] = Some 64 \<and> trie_tree_look_up t [117, 0] = Some 0"
proof -
  have n: "is_name [117, 49]" "is_name [117]" by (simp_all add: is_name_def plain_def)
  have e: "trie_tree_look_up empty_trie [117, 49, 0] = Some 0" "trie_tree_look_up empty_trie [117, 0] = Some 0"
    using empty_trie_ok(2) [OF n(1)] empty_trie_ok(2) [OF n(2)] by simp_all
  have "take (2 * length [117 :: kuint8_t, 49]) (tt_alloc empty_trie) = replicate (2 * length [117 :: kuint8_t, 49]) True" by (simp add: empty_trie_def)
  then show ?thesis using trie_is_map [OF empty_trie_ok(1) n(1), of 64] n(2) e by auto
qed

text \<open>Adding a sequence of fresh names makes every one of them found.\<close>

lemma trie_add_all:
  assumes "trie_ok t" and "trie_room L (length kvs) t" and "distinct (map fst kvs)"
    and "\<forall>(cs, v) \<in> set kvs. is_name cs \<and> length cs \<le> L \<and> v \<noteq> 0 \<and> trie_map t cs = None"
  shows "trie_map (fold (\<lambda>(cs, v). trie_insert cs v) kvs t) cs = (case map_of kvs cs of None \<Rightarrow> trie_map t cs | Some v \<Rightarrow> Some v)"
proof -
  have "snd ` set kvs \<subseteq> UNIV - {0}" "\<And>k. k \<in> fst ` set kvs \<Longrightarrow> trie_map t k = None" "fst ` set kvs \<subseteq> {cs. is_name cs \<and> length cs \<le> L}" using assms(4) by auto
  from trie.add_all_look_up [OF assms(1-3) this] show ?thesis by (simp add: trie.add_all_def)
qed

text \<open>A character that is not printable is only noticed where the tree already has a node for it: adding the name of such a character
  behind a fresh one writes in front of the array of branches.\<close>

lemma trie_bad_name_escapes: "trie_node_add [97, 1, 0] 64 empty_trie = None"
proof -
  have g: "get_trie_node_branch 97 = 65" "get_trie_node_branch 1 = - 2" by (simp_all add: get_trie_node_branch_def)
  have l: "get_string_lenth [97, 1, 0] = Some (length [97 :: kuint8_t, 1])" using get_string_lenth_terminated [of "[97, 1]" "[]"] by simp
  have a: "replicate 8 True = True # True # True # True # replicate 4 True" by (simp add: numeral_eq_Suc)
  show ?thesis using g l by (simp add: trie_node_add_def find_trie_node_def empty_trie_def a create_trie_branch_def allocate_trie_node_def trie_alloc_def branch_of_def)
qed

end
