(* ===== verification/Clk.thy ===== *)
theory Clk
  imports Platform_Bus
begin

text \<open>
  Clocks (\<^verbatim>\<open>platform/clk/fwk_clk.c\<close>, \<^verbatim>\<open>fwk_clk_gate.c\<close>, \<^verbatim>\<open>fwk_clk_provider.c\<close>): the clocks of the hardware, the handles devices get for them
  through the device tree, and the calls that switch them.

  Structures are at addresses; the list of handles of a core and the list of providers are lists of addresses.  A gate begins with its
  hardware structure, so both have one address.  The functions of drivers are parameters.  Fields that nothing reads (rates, counters,
  parents) are left out.  \<open>None\<close> is an access through a null pointer or a walk over the device tree that does not end.
\<close>

section \<open>State\<close>

record fwk_clk =
  cl_dev_id :: "bytes option"
  cl_con_id :: "bytes option"
  cl_max_rate :: kuint32_t
  cl_core :: kuaddr_t
  cl_flags :: kuint8_t

record clk_core =
  cc_name :: "bytes option"
  cc_ops :: kuaddr_t
  cc_hw :: kuaddr_t
  cc_parent_names :: kuaddr_t

record clk_init_data =
  ci_name :: "bytes option"
  ci_ops :: kuaddr_t
  ci_parent_names :: "bytes option list"

record clk_hw =
  hw_core :: kuaddr_t
  hw_clk :: kuaddr_t
  hw_init :: clk_init_data

record clk_gate =
  gt_reg :: kuaddr_t
  gt_bit_idx :: kuint8_t
  gt_flags :: kuint8_t

record clk_one_cell =
  oc_clks :: kuaddr_t
  oc_size :: kuint32_t

record clk_provider =
  pv_node :: kuaddr_t
  pv_get :: kuaddr_t
  pv_data :: kuaddr_t

record 'e clk_sys =
  ck_clk :: "kuaddr_t \<Rightarrow> fwk_clk"
  ck_core :: "kuaddr_t \<Rightarrow> clk_core"
  ck_hw :: "kuaddr_t \<Rightarrow> clk_hw"
  ck_gate :: "kuaddr_t \<Rightarrow> clk_gate"
  ck_clks :: "kuaddr_t \<Rightarrow> kuaddr_t list"
  ck_names :: "kuaddr_t \<Rightarrow> bytes option list"
  ck_cell :: "kuaddr_t \<Rightarrow> clk_one_cell"
  ck_prov :: "kuaddr_t \<Rightarrow> clk_provider"
  sgrt_fwk_clk_providers :: "kuaddr_t list"
  ck_pool :: "kuaddr_t list"
  ck_freed :: "kuaddr_t list"
  ck_env :: 'e

record 'e clk_ops =
  co_prepare :: "(kuaddr_t \<Rightarrow> 'e clk_sys \<Rightarrow> int \<times> 'e clk_sys) option"
  co_unprepare :: "(kuaddr_t \<Rightarrow> 'e clk_sys \<Rightarrow> 'e clk_sys) option"
  co_enable :: "(kuaddr_t \<Rightarrow> 'e clk_sys \<Rightarrow> int \<times> 'e clk_sys) option"
  co_disable :: "(kuaddr_t \<Rightarrow> 'e clk_sys \<Rightarrow> 'e clk_sys) option"
  co_is_enabled :: "(kuaddr_t \<Rightarrow> 'e clk_sys \<Rightarrow> int) option"

type_synonym phandle_args = "kuaddr_t \<times> kuint32_t list"

definition NR_FWK_CLK_IS_DYNAMIC :: kuint8_t where "NR_FWK_CLK_IS_DYNAMIC = 1"

definition ck_kzalloc :: "'e clk_sys \<Rightarrow> kuaddr_t \<times> 'e clk_sys" where
  "ck_kzalloc s = (case ck_pool s of [] \<Rightarrow> (0, s) | a # as \<Rightarrow> (a, s\<lparr>ck_pool := as\<rparr>))"

definition ck_kfree :: "kuaddr_t \<Rightarrow> 'e clk_sys \<Rightarrow> 'e clk_sys" where
  "ck_kfree a s = s\<lparr>ck_freed := ck_freed s @ [a]\<rparr>"

definition upd_clk :: "kuaddr_t \<Rightarrow> (fwk_clk \<Rightarrow> fwk_clk) \<Rightarrow> 'e clk_sys \<Rightarrow> 'e clk_sys" where
  "upd_clk c f s = s\<lparr>ck_clk := (ck_clk s)(c := f (ck_clk s c))\<rparr>"

definition upd_hw :: "kuaddr_t \<Rightarrow> (clk_hw \<Rightarrow> clk_hw) \<Rightarrow> 'e clk_sys \<Rightarrow> 'e clk_sys" where
  "upd_hw h f s = s\<lparr>ck_hw := (ck_hw s)(h := f (ck_hw s h))\<rparr>"

definition zero_clk :: fwk_clk where
  "zero_clk = \<lparr>cl_dev_id = None, cl_con_id = None, cl_max_rate = 0, cl_core = 0, cl_flags = 0\<rparr>"

section \<open>Handles\<close>

definition fwk_clk_to_hw :: "kuaddr_t \<Rightarrow> 'e clk_sys \<Rightarrow> kuaddr_t option" where
  "fwk_clk_to_hw c s = (if c = 0 then Some 0 else if cl_core (ck_clk s c) = 0 then None else Some (cc_hw (ck_core s (cl_core (ck_clk s c)))))"

definition fwk_clk_config :: "kuaddr_t \<Rightarrow> kuaddr_t \<Rightarrow> bytes option \<Rightarrow> bytes option \<Rightarrow> 'e clk_sys \<Rightarrow> (kuaddr_t \<times> 'e clk_sys) option" where
  "fwk_clk_config c h dev_id con_id s =
     (if h = 0 \<or> c = 0 then Some (0, s)
      else let core = hw_core (ck_hw s h)
           in if core = 0 then None
              else let s = upd_clk c (\<lambda>x. x\<lparr>cl_dev_id := dev_id, cl_con_id := con_id, cl_max_rate := NOT 0, cl_core := core,
                                            cl_flags := cl_flags x AND NOT NR_FWK_CLK_IS_DYNAMIC\<rparr>) s
                   in Some (c, s\<lparr>ck_clks := (ck_clks s)(core := ck_clks s core @ [c])\<rparr>))"

definition fwk_create_clk :: "kuaddr_t \<Rightarrow> bytes option \<Rightarrow> bytes option \<Rightarrow> 'e clk_sys \<Rightarrow> (kuaddr_t \<times> 'e clk_sys) option" where
  "fwk_create_clk h dev_id con_id s =
     (if h = 0 then Some (0, s)
      else let (c, s) = ck_kzalloc s
           in if \<not> isValid c then Some (0, s)
              else do { (r, s) \<leftarrow> fwk_clk_config c h dev_id con_id (upd_clk c (\<lambda>_. zero_clk) s);
                        Some (c, if r \<noteq> 0 then upd_clk c (\<lambda>x. x\<lparr>cl_flags := cl_flags x OR NR_FWK_CLK_IS_DYNAMIC\<rparr>) s else s) })"

definition fwk_init_clk :: "kuaddr_t \<Rightarrow> kuaddr_t \<Rightarrow> int" where
  "fwk_init_clk dev c = ER_NORMAL"

definition fwk_free_clk :: "kuaddr_t \<Rightarrow> 'e clk_sys \<Rightarrow> 'e clk_sys" where
  "fwk_free_clk c s =
     (if c = 0 then s
      else let core = cl_core (ck_clk s c); s = s\<lparr>ck_clks := (ck_clks s)(core := remove1 c (ck_clks s core))\<rparr>
           in if cl_flags (ck_clk s c) AND NR_FWK_CLK_IS_DYNAMIC \<noteq> 0 then ck_kfree c s else s)"

section \<open>Registration\<close>

text \<open>The copy of the names of the parents up to the first null pointer, and whether there was one.\<close>

definition copy_parents :: "bytes option list \<Rightarrow> bytes option list \<times> bool" where
  "copy_parents ps = (takeWhile (\<lambda>p. p \<noteq> None) ps, None \<in> set ps)"

definition clk_register_fail1 :: "kuaddr_t \<Rightarrow> 'e clk_sys \<Rightarrow> kuaddr_t \<times> 'e clk_sys" where
  "clk_register_fail1 core s = (0, ck_kfree core s)"

definition clk_register_fail2 :: "kuaddr_t \<Rightarrow> 'e clk_sys \<Rightarrow> kuaddr_t \<times> 'e clk_sys" where
  "clk_register_fail2 core s = clk_register_fail1 core (ck_kfree (cc_parent_names (ck_core s core)) s)"

definition clk_register_fail3 :: "kuaddr_t \<Rightarrow> kuaddr_t \<Rightarrow> 'e clk_sys \<Rightarrow> kuaddr_t \<times> 'e clk_sys" where
  "clk_register_fail3 core h s = clk_register_fail2 core (upd_hw h (\<lambda>x. x\<lparr>hw_clk := 0\<rparr>) (fwk_free_clk (hw_clk (ck_hw s h)) s))"

definition fwk_clk_register :: "kuaddr_t \<Rightarrow> kuaddr_t \<Rightarrow> 'e clk_sys \<Rightarrow> (kuaddr_t \<times> 'e clk_sys) option" where
  "fwk_clk_register dev h s =
     (let ini = hw_init (ck_hw s h); (core, s) = ck_kzalloc s
      in if \<not> isValid core then Some (0, s)
         else let s = s\<lparr>ck_core := (ck_core s)(core := \<lparr>cc_name = ci_name ini, cc_ops = ci_ops ini, cc_hw = h, cc_parent_names = 0\<rparr>),
                        ck_clks := (ck_clks s)(core := [])\<rparr>;
                  s = upd_hw h (\<lambda>x. x\<lparr>hw_core := core\<rparr>) s;
                  (a, s) = ck_kzalloc s;
                  s = s\<lparr>ck_core := (ck_core s)(core := (ck_core s core)\<lparr>cc_parent_names := a\<rparr>)\<rparr>
              in if \<not> isValid a then Some (clk_register_fail1 core s)
                 else let (ps, bad) = copy_parents (ci_parent_names ini); s = s\<lparr>ck_names := (ck_names s)(a := ps)\<rparr>
                      in if bad then Some (clk_register_fail2 core s)
                         else do {
                           (bad, s) \<leftarrow> (if hw_clk (ck_hw s h) = 0
                                  then do { (c, s) \<leftarrow> fwk_create_clk h None None s; Some (\<not> isValid c, upd_hw h (\<lambda>x. x\<lparr>hw_clk := c\<rparr>) s) }
                                  else do { (_, s) \<leftarrow> fwk_clk_config (hw_clk (ck_hw s h)) h None None s; Some (False, s) });
                           if bad then Some (clk_register_fail2 core s)
                           else if fwk_init_clk dev (hw_clk (ck_hw s h)) \<noteq> 0 then Some (clk_register_fail3 core h s)
                           else Some (hw_clk (ck_hw s h), s) })"

definition fwk_clk_unregister :: "kuaddr_t \<Rightarrow> 'e clk_sys \<Rightarrow> 'e clk_sys option" where
  "fwk_clk_unregister c s =
     do { h \<leftarrow> fwk_clk_to_hw c s;
          let core = hw_core (ck_hw s h);
          if h = 0 \<or> core = 0 then None
          else let s = foldl (\<lambda>s x. fwk_free_clk x s) s (ck_clks s core);
                   a = cc_parent_names (ck_core s core);
                   s = (if a \<noteq> 0 then ck_kfree a s else s)
               in Some (upd_hw h (\<lambda>x. x\<lparr>hw_core := 0\<rparr>) (ck_kfree core s)) }"

section \<open>Gates\<close>

definition fwk_clk_gate_register ::
  "kuaddr_t \<Rightarrow> kuaddr_t \<Rightarrow> bytes option \<Rightarrow> bytes option \<Rightarrow> kuaddr_t \<Rightarrow> kuint8_t \<Rightarrow> 'e clk_sys \<Rightarrow> (kuaddr_t \<times> 'e clk_sys) option" where
  "fwk_clk_gate_register c ops nm par reg shft s =
     (let (g, s) = ck_kzalloc s
      in if \<not> isValid g then Some (0, s)
         else do {
           let s = s\<lparr>ck_gate := (ck_gate s)(g := \<lparr>gt_reg = reg, gt_bit_idx = shft, gt_flags = 0\<rparr>),
                     ck_hw := (ck_hw s)(g := \<lparr>hw_core = 0, hw_clk = c, hw_init = \<lparr>ci_name = nm, ci_ops = ops, ci_parent_names = [par]\<rparr>\<rparr>)\<rparr>;
           (rc, s) \<leftarrow> fwk_clk_register 0 g s;
           Some (rc, if \<not> isValid rc then ck_kfree g s else s) })"

definition fwk_clk_gate_unregister :: "kuaddr_t \<Rightarrow> 'e clk_sys \<Rightarrow> 'e clk_sys option" where
  "fwk_clk_gate_unregister c s =
     do { g \<leftarrow> fwk_clk_to_hw c s; s \<leftarrow> fwk_clk_unregister c s; Some (ck_kfree g s) }"

section \<open>Providers\<close>

definition CLK_SIZE :: kuint32_t where "CLK_SIZE = 32"

definition fwk_of_clk_src_onecell_get :: "phandle_args \<Rightarrow> kuaddr_t \<Rightarrow> 'e clk_sys \<Rightarrow> kuaddr_t" where
  "fwk_of_clk_src_onecell_get args data s =
     (if data = 0 then 0
      else let clks = oc_clks (ck_cell s data) in if clks \<noteq> 0 then clks + CLK_SIZE * snd args ! 0 else 0)"

definition fwk_clk_add_provider :: "kuaddr_t \<Rightarrow> kuaddr_t \<Rightarrow> kuaddr_t \<Rightarrow> 'e clk_sys \<Rightarrow> int \<times> 'e clk_sys" where
  "fwk_clk_add_provider node get data s =
     (if node = 0 \<or> get = 0 then (- ER_NODEV, s)
      else let (p, s) = ck_kzalloc s
           in if \<not> isValid p then (- ER_NOMEM, s)
              else (ER_NORMAL, s\<lparr>ck_prov := (ck_prov s)(p := \<lparr>pv_node = node, pv_get = get, pv_data = data\<rparr>),
                                  sgrt_fwk_clk_providers := sgrt_fwk_clk_providers s @ [p]\<rparr>))"

text \<open>The walk goes on behind a provider it has just freed, over the links that are still there.\<close>

definition fwk_clk_del_provider :: "kuaddr_t \<Rightarrow> 'e clk_sys \<Rightarrow> 'e clk_sys" where
  "fwk_clk_del_provider node s =
     (if node = 0 then s
      else foldl (\<lambda>s p. if pv_node (ck_prov s p) = node
                         then ck_kfree p (s\<lparr>sgrt_fwk_clk_providers := remove1 p (sgrt_fwk_clk_providers s)\<rparr>) else s)
             s (sgrt_fwk_clk_providers s))"

text \<open>\<open>gets\<close> are the functions of the providers, by their address.\<close>

definition fwk_clk_provider_look_up :: "(kuaddr_t \<Rightarrow> phandle_args \<Rightarrow> kuaddr_t \<Rightarrow> 'e clk_sys \<Rightarrow> kuaddr_t) \<Rightarrow> phandle_args \<Rightarrow> 'e clk_sys \<Rightarrow> kuaddr_t" where
  "fwk_clk_provider_look_up gets args s =
     (case find (\<lambda>p. pv_node (ck_prov s p) = fst args) (sgrt_fwk_clk_providers s) of
        None \<Rightarrow> 0
      | Some p \<Rightarrow> gets (pv_get (ck_prov s p)) args (pv_data (ck_prov s p)) s)"

section \<open>Clocks of devices\<close>

definition fwk_clk_get ::
  "(kuaddr_t \<Rightarrow> phandle_args \<Rightarrow> kuaddr_t \<Rightarrow> 'e clk_sys \<Rightarrow> kuaddr_t) \<Rightarrow> kuaddr_t \<Rightarrow> bytes option \<Rightarrow> 'f bus_sys \<Rightarrow> 'e clk_sys \<Rightarrow>
    (kuaddr_t \<times> 'e clk_sys) option" where
  "fwk_clk_get gets dev nm b s =
     do { let node = dv_node (bs_dev b dev);
          index \<leftarrow> (case nm of None \<Rightarrow> Some 0 | Some n \<Rightarrow> fwk_of_property_match_string node (lit ''clock-names'') n (bs_tree b));
          if index < 0 then Some (0, s)
          else do {
            (r, args) \<leftarrow> fwk_of_parse_phandle_with_args node (lit ''clocks'') (Some (lit ''#clock-cells'')) 0 index (bs_tree b);
            (case args of
               None \<Rightarrow> Some (0, s)
             | Some args \<Rightarrow>
                 if r \<noteq> 0 then Some (0, s)
                 else let c = fwk_clk_provider_look_up gets args s
                      in if \<not> isValid c then Some (0, s)
                         else do { h \<leftarrow> fwk_clk_to_hw c s; fwk_create_clk h (fwk_dev_get_name dev b) nm s }) } }"

definition fwk_clk_put :: "kuaddr_t \<Rightarrow> 'e clk_sys \<Rightarrow> 'e clk_sys" where
  "fwk_clk_put c s = fwk_free_clk c s"

section \<open>Switching\<close>

text \<open>The operations behind a handle: \<open>None\<close> without a core.\<close>

definition clk_ops_of :: "kuaddr_t \<Rightarrow> 'e clk_sys \<Rightarrow> kuaddr_t option" where
  "clk_ops_of c s = (if c = 0 \<or> cl_core (ck_clk s c) = 0 then None else Some (cc_ops (ck_core s (cl_core (ck_clk s c)))))"

definition clk_call ::
  "(kuaddr_t \<Rightarrow> 'e clk_ops) \<Rightarrow> ('e clk_ops \<Rightarrow> (kuaddr_t \<Rightarrow> 'e clk_sys \<Rightarrow> 'e clk_sys) option) \<Rightarrow> kuaddr_t \<Rightarrow> 'e clk_sys \<Rightarrow> 'e clk_sys option" where
  "clk_call ops f c s =
     do { oa \<leftarrow> clk_ops_of c s;
          if oa = 0 then Some s
          else case f (ops oa) of None \<Rightarrow> Some s | Some g \<Rightarrow> do { h \<leftarrow> fwk_clk_to_hw c s; Some (g h s) } }"

definition fwk_clk_enable :: "(kuaddr_t \<Rightarrow> 'e clk_ops) \<Rightarrow> kuaddr_t \<Rightarrow> 'e clk_sys \<Rightarrow> 'e clk_sys option" where
  "fwk_clk_enable ops c s = clk_call ops (\<lambda>p. map_option (\<lambda>f h s. snd (f h s)) (co_enable p)) c s"

definition fwk_clk_disable :: "(kuaddr_t \<Rightarrow> 'e clk_ops) \<Rightarrow> kuaddr_t \<Rightarrow> 'e clk_sys \<Rightarrow> 'e clk_sys option" where
  "fwk_clk_disable ops c s = clk_call ops co_disable c s"

definition fwk_clk_prepare :: "(kuaddr_t \<Rightarrow> 'e clk_ops) \<Rightarrow> kuaddr_t \<Rightarrow> 'e clk_sys \<Rightarrow> 'e clk_sys option" where
  "fwk_clk_prepare ops c s = clk_call ops (\<lambda>p. map_option (\<lambda>f h s. snd (f h s)) (co_prepare p)) c s"

definition fwk_clk_unprepare :: "(kuaddr_t \<Rightarrow> 'e clk_ops) \<Rightarrow> kuaddr_t \<Rightarrow> 'e clk_sys \<Rightarrow> 'e clk_sys option" where
  "fwk_clk_unprepare ops c s = clk_call ops co_unprepare c s"

definition fwk_clk_is_enabled :: "(kuaddr_t \<Rightarrow> 'e clk_ops) \<Rightarrow> kuaddr_t \<Rightarrow> 'e clk_sys \<Rightarrow> bool option" where
  "fwk_clk_is_enabled ops c s =
     do { oa \<leftarrow> clk_ops_of c s;
          if oa = 0 then Some False
          else case co_is_enabled (ops oa) of
                 None \<Rightarrow> Some False
               | Some f \<Rightarrow> do { h \<leftarrow> fwk_clk_to_hw c s; Some (f h s = 0) } }"

definition fwk_clk_prepare_enable :: "(kuaddr_t \<Rightarrow> 'e clk_ops) \<Rightarrow> kuaddr_t \<Rightarrow> 'e clk_sys \<Rightarrow> 'e clk_sys option" where
  "fwk_clk_prepare_enable ops c s = do { s \<leftarrow> fwk_clk_prepare ops c s; fwk_clk_enable ops c s }"

definition fwk_clk_disable_unprepare :: "(kuaddr_t \<Rightarrow> 'e clk_ops) \<Rightarrow> kuaddr_t \<Rightarrow> 'e clk_sys \<Rightarrow> 'e clk_sys option" where
  "fwk_clk_disable_unprepare ops c s = do { s \<leftarrow> fwk_clk_disable ops c s; fwk_clk_unprepare ops c s }"

section \<open>What registration does\<close>

lemma ck_kzalloc_Cons [simp]: "ck_pool s = a # ps \<Longrightarrow> ck_kzalloc s = (a, s\<lparr>ck_pool := ps\<rparr>)" "ck_pool s = [] \<Longrightarrow> ck_kzalloc s = (0, s)"
  by (simp_all add: ck_kzalloc_def)

text \<open>The state after a gate \<open>g\<close> with the core \<open>k\<close> and the array of names \<open>a\<close> has been registered for the clock \<open>c\<close>.\<close>

definition gate_added ::
  "kuaddr_t \<Rightarrow> kuaddr_t \<Rightarrow> kuaddr_t \<Rightarrow> kuaddr_t \<Rightarrow> kuint8_t \<Rightarrow> kuaddr_t \<Rightarrow> bytes option \<Rightarrow> bytes option \<Rightarrow> kuaddr_t \<Rightarrow> kuint8_t \<Rightarrow> kuaddr_t list \<Rightarrow>
    'e clk_sys \<Rightarrow> 'e clk_sys" where
  "gate_added g k a c fl ops nm par reg shft ps s = s\<lparr>
     ck_clk := (ck_clk s)(c := \<lparr>cl_dev_id = None, cl_con_id = None, cl_max_rate = NOT 0, cl_core = k, cl_flags = fl\<rparr>),
     ck_core := (ck_core s)(k := \<lparr>cc_name = nm, cc_ops = ops, cc_hw = g, cc_parent_names = a\<rparr>),
     ck_hw := (ck_hw s)(g := \<lparr>hw_core = k, hw_clk = c, hw_init = \<lparr>ci_name = nm, ci_ops = ops, ci_parent_names = [par]\<rparr>\<rparr>),
     ck_gate := (ck_gate s)(g := \<lparr>gt_reg = reg, gt_bit_idx = shft, gt_flags = 0\<rparr>),
     ck_clks := (ck_clks s)(k := [c]), ck_names := (ck_names s)(a := [par]), ck_pool := ps\<rparr>"

lemma valid_nonzero: "isValid a \<Longrightarrow> a \<noteq> 0"
  by (simp add: isValid_def)

lemma not_valid_0 [simp]: "\<not> isValid 0"
  by (simp add: isValid_def)

lemma gate_register_static:
  assumes "ck_pool s = g # k # a # ps" and "isValid g" and "isValid k" and "isValid a" and "isValid c" and "par = Some pn"
  shows "fwk_clk_gate_register c ops nm par reg shft s =
     Some (c, gate_added g k a c (cl_flags (ck_clk s c) AND NOT NR_FWK_CLK_IS_DYNAMIC) ops nm par reg shft ps s)"
  using assms valid_nonzero [OF assms(2)] valid_nonzero [OF assms(3)] valid_nonzero [OF assms(5)]
  by (cases "ck_clk s c") (simp add: Let_def fwk_clk_gate_register_def fwk_clk_register_def upd_hw_def upd_clk_def copy_parents_def fwk_clk_config_def fwk_init_clk_def gate_added_def)

lemma gate_register_dynamic:
  assumes "ck_pool s = g # k # a # c # ps" and "isValid g" and "isValid k" and "isValid a" and "isValid c" and "par = Some pn"
  shows "fwk_clk_gate_register 0 ops nm par reg shft s = Some (c, gate_added g k a c NR_FWK_CLK_IS_DYNAMIC ops nm par reg shft ps s)"
  using assms valid_nonzero [OF assms(2)] valid_nonzero [OF assms(3)] valid_nonzero [OF assms(5)]
  by (cases "ck_clk s c") (simp add: Let_def fwk_clk_gate_register_def fwk_clk_register_def upd_hw_def upd_clk_def copy_parents_def fwk_clk_config_def fwk_init_clk_def gate_added_def
      fwk_create_clk_def zero_clk_def)

text \<open>What a failed registration gives back: everything it took, the last piece first; handles and the other cores' lists are untouched.\<close>

definition gave_back :: "kuaddr_t list \<Rightarrow> 'e clk_sys \<Rightarrow> 'e clk_sys \<Rightarrow> bool" where
  "gave_back zs s s' \<longleftrightarrow> ck_pool s = zs @ ck_pool s' \<and> ck_freed s' = ck_freed s @ rev zs \<and> ck_clk s' = ck_clk s \<and>
     (\<forall>k. k \<notin> set zs \<longrightarrow> ck_clks s' k = ck_clks s k) \<and> ck_prov s' = ck_prov s \<and> sgrt_fwk_clk_providers s' = sgrt_fwk_clk_providers s \<and> ck_env s' = ck_env s"

lemma gate_register_fails:
  assumes "\<forall>a \<in> set (ck_pool s). isValid a" and "length (ck_pool s) < (if c = 0 then 4 else 3) \<or> par = None" and "c = 0 \<or> isValid c"
  shows "\<exists>s' zs. fwk_clk_gate_register c ops nm par reg shft s = Some (0, s') \<and> gave_back zs s s'"
proof -
  note defs = Let_def fwk_clk_gate_register_def fwk_clk_register_def upd_hw_def upd_clk_def copy_parents_def fwk_create_clk_def clk_register_fail1_def clk_register_fail2_def
    ck_kfree_def gave_back_def
  consider "ck_pool s = []" | g where "ck_pool s = [g]" | g k where "ck_pool s = [g, k]" | g k a ps where "ck_pool s = g # k # a # ps" "ps = [] \<or> par = None"
    | g k a ps where "ck_pool s = g # k # a # ps" "ps \<noteq> []" "par \<noteq> None"
    by (metis list.exhaust)
  then show ?thesis
  proof cases
    case 1
    then show ?thesis by (simp add: defs)
  next
    case 2
    then show ?thesis using assms(1) by (simp add: defs)
  next
    case 3
    then show ?thesis using assms(1) by (simp add: defs)
  next
    case 4
    then have e: "par = None \<or> c = 0 \<and> ps = []" using assms(2) by (auto split: if_splits)
    have v: "isValid g" "isValid k" "isValid a" "g \<noteq> 0" "k \<noteq> 0" using assms(1) 4(1) by (auto simp: isValid_def)
    show ?thesis
    proof (cases "par = None")
      case True
      then show ?thesis using v 4 by (simp add: defs)
    next
      case False
      then obtain pn where "par = Some pn" by blast
      then show ?thesis using v 4 e by (simp add: defs)
    qed
  next
    case 5
    then show ?thesis using assms(2) by (cases ps) (auto split: if_splits)
  qed
qed

text \<open>A handle, its core and the hardware behind it belong together.\<close>

definition clk_wired :: "kuaddr_t \<Rightarrow> kuaddr_t \<Rightarrow> kuaddr_t \<Rightarrow> 'e clk_sys \<Rightarrow> bool" where
  "clk_wired c h k s \<longleftrightarrow> c \<noteq> 0 \<and> cl_core (ck_clk s c) = k \<and> k \<noteq> 0 \<and> cc_hw (ck_core s k) = h \<and> h \<noteq> 0 \<and> hw_core (ck_hw s h) = k"

lemma gate_added_wired:
  "c \<noteq> 0 \<Longrightarrow> k \<noteq> 0 \<Longrightarrow> g \<noteq> 0 \<Longrightarrow> clk_wired c g k (gate_added g k a c fl ops nm par reg shft ps s)"
  by (simp add: clk_wired_def gate_added_def)

lemma gate_added_sel [simp]:
  "cc_ops (ck_core (gate_added g k a c fl ops nm par reg shft ps s) k) = ops" "ck_clks (gate_added g k a c fl ops nm par reg shft ps s) k = [c]"
  "gt_reg (ck_gate (gate_added g k a c fl ops nm par reg shft ps s) g) = reg" "gt_bit_idx (ck_gate (gate_added g k a c fl ops nm par reg shft ps s) g) = shft"
  "ck_freed (gate_added g k a c fl ops nm par reg shft ps s) = ck_freed s" "ck_pool (gate_added g k a c fl ops nm par reg shft ps s) = ps"
  by (simp_all add: gate_added_def)

lemma gate_added_unregister:
  assumes "c \<noteq> 0" and "k \<noteq> 0" and "g \<noteq> 0" and "a \<noteq> 0" and "s' = gate_added g k a c fl ops nm par reg shft ps s"
  shows "\<exists>s''. fwk_clk_gate_unregister c s' = Some s'' \<and> ck_clks s'' k = [] \<and>
     ck_freed s'' = ck_freed s @ (if fl AND NR_FWK_CLK_IS_DYNAMIC \<noteq> 0 then [c] else []) @ [a, k, g]"
  using assms by (simp add: fwk_clk_gate_unregister_def fwk_clk_unregister_def fwk_clk_to_hw_def gate_added_def fwk_free_clk_def ck_kfree_def upd_hw_def Let_def)

text \<open>C40: Registering a clock gate is all or nothing.  With memory and a parent it returns the clock it was given, or a new one, wired through its core to a
  gate with the register and the position asked for, and unregistering it gives back everything the registration took; without, it returns
  the null pointer, everything it took is given back at once, and no handle, provider or register has changed.\<close>

theorem gate_register_all_or_nothing:
  assumes "\<forall>a \<in> set (ck_pool s). isValid a" and "c = 0 \<or> isValid c"
  shows "\<exists>r s' zs. fwk_clk_gate_register c ops nm par reg shft s = Some (r, s') \<and> ck_pool s = zs @ ck_pool s' \<and>
     (if (if c = 0 then 4 else 3) \<le> length (ck_pool s) \<and> par \<noteq> None
      then \<exists>g k s''. isValid r \<and> (c \<noteq> 0 \<longrightarrow> r = c) \<and> clk_wired r g k s' \<and> cc_ops (ck_core s' k) = ops \<and> ck_clks s' k = [r] \<and>
             gt_reg (ck_gate s' g) = reg \<and> gt_bit_idx (ck_gate s' g) = shft \<and> ck_freed s' = ck_freed s \<and>
             fwk_clk_gate_unregister r s' = Some s'' \<and> ck_freed s'' = ck_freed s @ rev zs
      else r = 0 \<and> gave_back zs s s')"
proof (cases "(if c = 0 then 4 else 3) \<le> length (ck_pool s) \<and> par \<noteq> None")
  case False
  then show ?thesis using gate_register_fails [OF assms(1) _ assms(2), of par ops nm reg shft] by (auto simp: gave_back_def)
next
  case True
  then obtain pn where pn: "par = Some pn" by blast
  show ?thesis
  proof (cases "c = 0")
    case c: True
    obtain g k a d ps where p: "ck_pool s = g # k # a # d # ps" using True c by (auto simp: numeral_eq_Suc Suc_le_length_iff)
    have v: "isValid g" "isValid k" "isValid a" "isValid d" using assms(1) p by auto
    let ?s = "gate_added g k a d NR_FWK_CLK_IS_DYNAMIC ops nm par reg shft ps s"
    have n: "d \<noteq> 0" "k \<noteq> 0" "g \<noteq> 0" "a \<noteq> 0" using v by (auto simp: isValid_def)
    obtain s'' where "fwk_clk_gate_unregister d ?s = Some s''" "ck_freed s'' = ck_freed s @ rev [g, k, a, d]"
      using gate_added_unregister [OF n refl, of NR_FWK_CLK_IS_DYNAMIC ops nm par reg shft ps s] by (auto simp: NR_FWK_CLK_IS_DYNAMIC_def)
    then show ?thesis
      using True c p v(4) gate_register_dynamic [OF p v pn] gate_added_wired [OF n(1-3)]
      by (intro exI [of _ d] exI [of _ ?s] exI [of _ "[g, k, a, d]"], simp, intro exI [of _ g] exI [of _ k]) simp
  next
    case c: False
    obtain g k a ps where p: "ck_pool s = g # k # a # ps" using True c by (auto simp: numeral_eq_Suc Suc_le_length_iff)
    have v: "isValid g" "isValid k" "isValid a" "isValid c" using assms p c by auto
    let ?f = "cl_flags (ck_clk s c) AND NOT NR_FWK_CLK_IS_DYNAMIC"
    let ?s = "gate_added g k a c ?f ops nm par reg shft ps s"
    have n: "c \<noteq> 0" "k \<noteq> 0" "g \<noteq> 0" "a \<noteq> 0" using v by (auto simp: isValid_def)
    have f: "?f AND NR_FWK_CLK_IS_DYNAMIC = 0" by (simp add: and.assoc)
    obtain s'' where "fwk_clk_gate_unregister c ?s = Some s''" "ck_freed s'' = ck_freed s @ rev [g, k, a]"
      using gate_added_unregister [OF n refl, of ?f ops nm par reg shft ps s] f by auto
    then show ?thesis
      using True c p v(4) gate_register_static [OF p v pn] gate_added_wired [OF n(1-3)]
      by (intro exI [of _ c] exI [of _ ?s] exI [of _ "[g, k, a]"], simp, intro exI [of _ g] exI [of _ k]) simp
  qed
qed

text \<open>A system without clocks and with two pieces of memory: not enough for a gate.\<close>

definition demo_clks :: "nat clk_sys" where
  "demo_clks = \<lparr>ck_clk = (\<lambda>_. zero_clk), ck_core = (\<lambda>_. \<lparr>cc_name = None, cc_ops = 0, cc_hw = 0, cc_parent_names = 0\<rparr>),
     ck_hw = (\<lambda>_. \<lparr>hw_core = 0, hw_clk = 0, hw_init = \<lparr>ci_name = None, ci_ops = 0, ci_parent_names = []\<rparr>\<rparr>),
     ck_gate = (\<lambda>_. \<lparr>gt_reg = 0, gt_bit_idx = 0, gt_flags = 0\<rparr>), ck_clks = (\<lambda>_. []), ck_names = (\<lambda>_. []), ck_cell = (\<lambda>_. \<lparr>oc_clks = 0, oc_size = 0\<rparr>),
     ck_prov = (\<lambda>_. \<lparr>pv_node = 0, pv_get = 0, pv_data = 0\<rparr>), sgrt_fwk_clk_providers = [], ck_pool = [0x5000, 0x5100], ck_freed = [], ck_env = 0\<rparr>"

theorem gate_register_all_or_nothing_witness:
  "(\<exists>s'. fwk_clk_gate_register 0x6000 1 None (Some [97, 0]) 0x7000 3 (demo_clks\<lparr>ck_pool := [0x5000, 0x5100, 0x5200]\<rparr>) = Some (0x6000, s')) \<and>
   (\<exists>s' zs. fwk_clk_gate_register 0x6000 1 None (Some [97, 0]) 0x7000 3 demo_clks = Some (0, s') \<and> gave_back zs demo_clks s')"
proof -
  have v: "isValid 0x5000" "isValid 0x5100" "isValid 0x5200" "isValid 0x6000" by (simp_all add: isValid_def IS_ERR_def)
  let ?s = "demo_clks\<lparr>ck_pool := [0x5000, 0x5100, 0x5200]\<rparr>"
  have p: "ck_pool demo_clks = [0x5000, 0x5100]" by (simp add: demo_clks_def)
  show ?thesis
    using gate_register_all_or_nothing [of demo_clks "0x6000" 1 None "Some [97, 0]" "0x7000" 3] gate_register_all_or_nothing [of ?s "0x6000" 1 None "Some [97, 0]" "0x7000" 3]
      v p by auto
qed

section \<open>Handles of devices\<close>

lemma clk_get_ok:
  assumes "case nm of None \<Rightarrow> i = 0 | Some n \<Rightarrow> fwk_of_property_match_string (dv_node (bs_dev b dev)) (lit ''clock-names'') n (bs_tree b) = Some i" and "0 \<le> i"
    and "fwk_of_parse_phandle_with_args (dv_node (bs_dev b dev)) (lit ''clocks'') (Some (lit ''#clock-cells'')) 0 i (bs_tree b) = Some (ER_NORMAL, Some args)"
    and "fwk_clk_provider_look_up gets args s = c" and "isValid c" and "clk_wired c h k s" and "ck_pool s = a # ps" and "isValid a"
  shows "fwk_clk_get gets dev nm b s = Some (a, s\<lparr>ck_pool := ps,
     ck_clk := (ck_clk s)(a := \<lparr>cl_dev_id = fwk_dev_get_name dev b, cl_con_id = nm, cl_max_rate = NOT 0, cl_core = k, cl_flags = NR_FWK_CLK_IS_DYNAMIC\<rparr>),
     ck_clks := (ck_clks s)(k := ck_clks s k @ [a])\<rparr>)"
proof -
  have a0: "a \<noteq> 0" using assms(8) by (simp add: isValid_def)
  have "fwk_create_clk h (fwk_dev_get_name dev b) nm s = Some (a, s\<lparr>ck_pool := ps,
     ck_clk := (ck_clk s)(a := \<lparr>cl_dev_id = fwk_dev_get_name dev b, cl_con_id = nm, cl_max_rate = NOT 0, cl_core = k, cl_flags = NR_FWK_CLK_IS_DYNAMIC\<rparr>),
     ck_clks := (ck_clks s)(k := ck_clks s k @ [a])\<rparr>)"
    using assms(6-8) a0 by (simp add: fwk_create_clk_def fwk_clk_config_def upd_clk_def clk_wired_def Let_def zero_clk_def)
  then show ?thesis
    using assms(1-6) by (cases nm) (simp_all add: fwk_clk_get_def fwk_clk_to_hw_def clk_wired_def)
qed

lemma clk_put_ok:
  assumes "c \<noteq> 0" and "cl_core (ck_clk s c) = k" and "ck_clks s k = cs @ [c]" and "c \<notin> set cs" and "cl_flags (ck_clk s c) = NR_FWK_CLK_IS_DYNAMIC"
  shows "fwk_clk_put c s = s\<lparr>ck_clks := (ck_clks s)(k := cs), ck_freed := ck_freed s @ [c]\<rparr>"
  using assms by (simp add: fwk_clk_put_def fwk_free_clk_def ck_kfree_def NR_FWK_CLK_IS_DYNAMIC_def Let_def remove1_append)

section \<open>The contract of a clock driver\<close>

text \<open>
  What the framework relies on in a driver: switching changes the environment and nothing else, to \<open>on h s\<close> and \<open>off h s\<close>, after which the clock
  runs, if the gate is \<open>usable\<close>, and does not run; preparing and unpreparing are absent.
\<close>

locale clk_driver =
  fixes dops :: "'e clk_ops"
    and on off :: "kuaddr_t \<Rightarrow> 'e clk_sys \<Rightarrow> 'e"
    and running usable :: "kuaddr_t \<Rightarrow> 'e clk_sys \<Rightarrow> bool"
  assumes prepares: "co_prepare dops = None" "co_unprepare dops = None"
    and enables: "\<exists>f. co_enable dops = Some f \<and> (\<forall>h s. snd (f h s) = s\<lparr>ck_env := on h s\<rparr>)"
    and disables: "\<exists>f. co_disable dops = Some f \<and> (\<forall>h s. f h s = s\<lparr>ck_env := off h s\<rparr>)"
    and reads: "\<exists>f. co_is_enabled dops = Some f \<and> (\<forall>h s. running h s \<longleftrightarrow> f h s \<noteq> 0)"
    and on_runs: "usable h s \<Longrightarrow> running h (s\<lparr>ck_env := on h s\<rparr>)"
    and off_stops: "\<not> running h (s\<lparr>ck_env := off h s\<rparr>)"
begin

definition drives :: "(kuaddr_t \<Rightarrow> 'e clk_ops) \<Rightarrow> kuaddr_t \<Rightarrow> kuaddr_t \<Rightarrow> 'e clk_sys \<Rightarrow> bool" where
  "drives ops c h s \<longleftrightarrow> (\<exists>k. clk_wired c h k s \<and> cc_ops (ck_core s k) \<noteq> 0 \<and> ops (cc_ops (ck_core s k)) = dops)"

lemma drives_env [simp]: "drives ops c h (s\<lparr>ck_env := e\<rparr>) = drives ops c h s"
  by (simp add: drives_def clk_wired_def)

lemma enable_switches: "drives ops c h s \<Longrightarrow> fwk_clk_prepare_enable ops c s = Some (s\<lparr>ck_env := on h s\<rparr>)"
  using prepares enables
  by (auto simp: drives_def clk_wired_def fwk_clk_prepare_enable_def fwk_clk_prepare_def fwk_clk_enable_def clk_call_def clk_ops_of_def fwk_clk_to_hw_def)

lemma disable_switches: "drives ops c h s \<Longrightarrow> fwk_clk_disable_unprepare ops c s = Some (s\<lparr>ck_env := off h s\<rparr>)"
  using prepares disables
  by (auto simp: drives_def clk_wired_def fwk_clk_disable_unprepare_def fwk_clk_unprepare_def fwk_clk_disable_def clk_call_def clk_ops_of_def fwk_clk_to_hw_def)

text \<open>The query answers the opposite.\<close>

lemma is_enabled_inverted: "drives ops c h s \<Longrightarrow> fwk_clk_is_enabled ops c s = Some (\<not> running h s)"
  using reads by (auto simp: drives_def clk_wired_def fwk_clk_is_enabled_def clk_ops_of_def fwk_clk_to_hw_def)

lemma switch_cycle:
  assumes "drives ops c h s" and "usable h s"
  shows "\<exists>s1 s2. fwk_clk_prepare_enable ops c s = Some s1 \<and> running h s1 \<and> fwk_clk_is_enabled ops c s1 = Some False \<and>
     fwk_clk_disable_unprepare ops c s1 = Some s2 \<and> \<not> running h s2 \<and> fwk_clk_is_enabled ops c s2 = Some True"
  using assms on_runs off_stops [of h "s\<lparr>ck_env := on h s\<rparr>"] by (simp add: enable_switches disable_switches is_enabled_inverted)

end

end
