(* ===== verification/Imx_Clk.thy ===== *)
theory Imx_Clk
  imports Clk
begin

text \<open>
  The clock gates of the i.MX6UL (\<^verbatim>\<open>drivers/clk/imx-clks.c\<close>): the functions that switch a gate, and the table of gates that is registered with the
  clock framework at start-up.  Registers are memory words, the environment of the clock framework.
\<close>

section \<open>Gates in registers\<close>

type_synonym imx_clk_sys = "(kuaddr_t \<Rightarrow> kuint32_t) clk_sys"

definition IMX6UL_CCM_CCGR_MASK :: kuint32_t where "IMX6UL_CCM_CCGR_MASK = 3"

definition IMX6UL_CCM_CCGR_BIT :: "nat \<Rightarrow> kuint32_t" where
  "IMX6UL_CCM_CCGR_BIT off = push_bit (off * 2) IMX6UL_CCM_CCGR_MASK"

definition gate_mask :: "kuaddr_t \<Rightarrow> imx_clk_sys \<Rightarrow> kuint32_t" where
  "gate_mask h s = IMX6UL_CCM_CCGR_BIT (unat (gt_bit_idx (ck_gate s h)))"

definition imx_clks_gate_enable :: "kuaddr_t \<Rightarrow> imx_clk_sys \<Rightarrow> int \<times> imx_clk_sys" where
  "imx_clks_gate_enable h s =
     (let reg = gt_reg (ck_gate s h) in (ER_NORMAL, s\<lparr>ck_env := (ck_env s)(reg := ck_env s reg OR gate_mask h s)\<rparr>))"

definition imx_clks_gate_disable :: "kuaddr_t \<Rightarrow> imx_clk_sys \<Rightarrow> imx_clk_sys" where
  "imx_clks_gate_disable h s =
     (let reg = gt_reg (ck_gate s h) in s\<lparr>ck_env := (ck_env s)(reg := ck_env s reg AND NOT (gate_mask h s))\<rparr>)"

definition imx_clks_gate_is_enabled :: "kuaddr_t \<Rightarrow> imx_clk_sys \<Rightarrow> int" where
  "imx_clks_gate_is_enabled h s = (if ck_env s (gt_reg (ck_gate s h)) AND gate_mask h s \<noteq> 0 then 1 else 0)"

definition sgrt_imx_clks_gate_oprts :: "(kuaddr_t \<Rightarrow> kuint32_t) clk_ops" where
  "sgrt_imx_clks_gate_oprts = \<lparr>co_prepare = None, co_unprepare = None, co_enable = Some imx_clks_gate_enable,
     co_disable = Some imx_clks_gate_disable, co_is_enabled = Some imx_clks_gate_is_enabled\<rparr>"

section \<open>Start-up\<close>

text \<open>Where the linker puts the objects of the driver.\<close>

definition IMX_CLKS_DATA :: kuaddr_t where "IMX_CLKS_DATA = 0x80700000"
definition IMX_CLK_CELL :: kuaddr_t where "IMX_CLK_CELL = 0x80710000"
definition IMX_GATE_OPS :: kuaddr_t where "IMX_GATE_OPS = 0x80720000"
definition ONECELL_GET :: kuaddr_t where "ONECELL_GET = 0x80730000"

definition IMX6UL_CLK_END :: nat where "IMX6UL_CLK_END = 236"

definition clk_at :: "kuint32_t \<Rightarrow> kuaddr_t" where
  "clk_at n = IMX_CLKS_DATA + CLK_SIZE * n"

record imx_gate_fix =
  gf_cell :: clk_one_cell
  gf_ops :: kuaddr_t
  gf_reg :: kuaddr_t

definition imx_clk_init_data :: "kuaddr_t \<Rightarrow> kuaddr_t \<Rightarrow> imx_gate_fix \<Rightarrow> imx_gate_fix" where
  "imx_clk_init_data ops reg d =
     (let d = d\<lparr>gf_cell := \<lparr>oc_clks = IMX_CLKS_DATA, oc_size = of_nat IMX6UL_CLK_END\<rparr>\<rparr>;
          d = (if ops \<noteq> 0 then d\<lparr>gf_ops := ops\<rparr> else d)
      in if reg \<noteq> 0 then d\<lparr>gf_reg := reg\<rparr> else d)"

definition imx_clk_gate :: "kuaddr_t \<Rightarrow> string \<Rightarrow> kuint8_t \<Rightarrow> string \<Rightarrow> imx_gate_fix \<Rightarrow> imx_clk_sys \<Rightarrow> (kuaddr_t \<times> imx_clk_sys) option" where
  "imx_clk_gate c nm shft par d s = fwk_clk_gate_register c (gf_ops d) (Some (lit nm)) (Some (lit par)) (gf_reg d) shft s"

definition imx_clk_init_gate :: "kuint32_t \<Rightarrow> string \<Rightarrow> kuint8_t \<Rightarrow> string \<Rightarrow> imx_gate_fix \<Rightarrow> imx_clk_sys \<Rightarrow> (int \<times> imx_clk_sys) option" where
  "imx_clk_init_gate num nm shft par d s =
     (if num > oc_size (gf_cell d) then Some (- ER_FAULT, s)
      else do { (c, s) \<leftarrow> imx_clk_gate (oc_clks (gf_cell d) + CLK_SIZE * num) nm shft par d s;
                Some (if isValid c then 0 else - ER_NOMEM, s) })"

text \<open>The gates: the number of the gating register, the number of the clock, its name, the position in the register and the name of the parent.\<close>

type_synonym gate_entry = "nat \<times> kuint32_t \<times> string \<times> kuint8_t \<times> string"

definition imx_gates :: "gate_entry list" where
  "imx_gates = [
   (0, 125, ''aips_tz1'', 0, ''ahb''),
   (0, 126, ''aips_tz2'', 1, ''ahb''),
   (0, 128, ''apbh_dma'', 2, ''bch_podf''),
   (0, 129, ''asrc_ipg'', 3, ''ahb''),
   (0, 130, ''asrc_mem'', 4, ''ahb''),
   (0, 230, ''dcp'', 5, ''ahb''),
   (0, 144, ''enet'', 6, ''ipg''),
   (0, 145, ''enet_ahb'', 6, ''ahb''),
   (0, 148, ''can1_ipg'', 7, ''ipg''),
   (0, 149, ''can1_serial'', 8, ''can_podf''),
   (0, 150, ''can2_ipg'', 9, ''ipg''),
   (0, 151, ''can2_serial'', 10, ''can_podf''),
   (0, 154, ''gpt_bus'', 12, ''perclk''),
   (0, 155, ''gpt_serial'', 13, ''perclk''),
   (0, 191, ''uart2_ipg'', 14, ''ipg''),
   (0, 192, ''uart2_serial'', 14, ''uart_podf''),
   (1, 139, ''ecspi1'', 0, ''ecspi_podf''),
   (1, 140, ''ecspi2'', 1, ''ecspi_podf''),
   (1, 141, ''ecspi3'', 2, ''ecspi_podf''),
   (1, 142, ''ecspi4'', 3, ''ecspi_podf''),
   (1, 124, ''adc2'', 4, ''ipg''),
   (1, 193, ''uart3_ipg'', 5, ''ipg''),
   (1, 194, ''uart3_serial'', 5, ''uart_podf''),
   (1, 146, ''epit1'', 6, ''perclk''),
   (1, 147, ''epit2'', 7, ''perclk''),
   (1, 123, ''adc1'', 8, ''ipg''),
   (1, 152, ''gpt1_bus'', 10, ''perclk''),
   (1, 153, ''gpt1_serial'', 11, ''perclk''),
   (1, 195, ''uart4_ipg'', 12, ''ipg''),
   (1, 196, ''uart4_serail'', 12, ''uart_podf''),
   (2, 138, ''csi'', 1, ''csi_podf''),
   (2, 156, ''i2c1'', 3, ''perclk''),
   (2, 157, ''i2c2'', 4, ''perclk''),
   (2, 158, ''i2c3'', 5, ''perclk''),
   (2, 165, ''ocotp'', 6, ''ipg''),
   (2, 160, ''iomuxc'', 7, ''lcdif_podf''),
   (2, 161, ''lcdif_apb'', 14, ''axi''),
   (2, 175, ''pxp'', 15, ''axi''),
   (3, 197, ''uart5_ipg'', 1, ''ipg''),
   (3, 198, ''uart5_serial'', 1, ''uart_podf''),
   (3, 234, ''epdc_aclk'', 2, ''axi''),
   (3, 235, ''epdc_pix'', 2, ''epdc_podf''),
   (3, 199, ''uart6_ipg'', 3, ''ipg''),
   (3, 200, ''uart6_serial'', 3, ''uart_podf''),
   (3, 162, ''lcdif_pix'', 5, ''lcdif_podf''),
   (3, 176, ''qspi1'', 7, ''qspi1_podf''),
   (3, 208, ''wdog1'', 8, ''ipg''),
   (3, 163, ''mmdc_p0_fast'', 12, ''mmdc_podf''),
   (3, 164, ''mmdc_p0_ipg'', 13, ''ipg''),
   (3, 212, ''axi'', 14, ''axi_podf''),
   (4, 220, ''per_bch'', 6, ''bch_podf''),
   (4, 167, ''pwm1'', 8, ''perclk''),
   (4, 168, ''pwm2'', 9, ''perclk''),
   (4, 169, ''pwm3'', 10, ''perclk''),
   (4, 170, ''pwm4'', 11, ''perclk''),
   (4, 131, ''gpmi_bch_apb'', 12, ''bch_podf''),
   (4, 132, ''gpmi_bch'', 13, ''gpmi_podf''),
   (4, 133, ''gpmi_io'', 14, ''enfc_podf''),
   (4, 134, ''gpmi_apb'', 15, ''bch_podf''),
   (5, 177, ''rom'', 0, ''ahb''),
   (5, 184, ''sdma'', 3, ''ahb''),
   (5, 209, ''wdog2'', 5, ''ipg''),
   (5, 187, ''spba'', 6, ''ipg''),
   (5, 188, ''spdif'', 7, ''spdif_podf''),
   (5, 213, ''spdif_gclk'', 7, ''ipg''),
   (5, 182, ''sai3'', 11, ''sai3_podf''),
   (5, 183, ''sai3_ipg'', 11, ''ipg''),
   (5, 189, ''uart1_ipg'', 12, ''ipg''),
   (5, 190, ''uart1_serial'', 12, ''uart_podf''),
   (5, 201, ''uart7_ipg'', 13, ''ipg''),
   (5, 202, ''uart7_serial'', 13, ''uart_podf''),
   (5, 178, ''sai1'', 14, ''sai1_podf''),
   (5, 179, ''sai1_ipg'', 14, ''ipg''),
   (5, 180, ''sai2'', 15, ''sai2_podf''),
   (5, 181, ''sai2_ipg'', 15, ''ipg''),
   (6, 205, ''usboh3'', 0, ''ipg''),
   (6, 206, ''usdhc1'', 1, ''usdhc1_podf''),
   (6, 207, ''usdhc2'', 2, ''usdhc2_podf''),
   (6, 143, ''eim'', 5, ''eim_slow_podf''),
   (6, 174, ''pwm8'', 8, ''perclk''),
   (6, 203, ''uart8_ipg'', 7, ''ipg''),
   (6, 204, ''uart8_serial'', 7, ''uart_podf''),
   (6, 127, ''aips_tz3'', 9, ''ahb''),
   (6, 210, ''wdog3'', 10, ''ipg''),
   (6, 159, ''i2c4'', 12, ''perclk''),
   (6, 171, ''pwm5'', 13, ''perclk''),
   (6, 172, ''pwm6'', 14, ''perclk''),
   (6, 173, ''pwm7'', 15, ''perclk'')]"

definition CCGR :: "kuaddr_t \<Rightarrow> nat \<Rightarrow> kuaddr_t" where
  "CCGR ccm r = ccm + 0x68 + 4 * of_nat r"

text \<open>The calls of the table one after the other; the codes are joined by the bitwise or of 32-bit numbers.\<close>

fun init_gates :: "kuaddr_t \<Rightarrow> imx_gate_fix \<Rightarrow> gate_entry list \<Rightarrow> kuint32_t \<Rightarrow> imx_clk_sys \<Rightarrow> (kuint32_t \<times> imx_clk_sys) option" where
  "init_gates ccm d [] ret s = Some (ret, s)"
| "init_gates ccm d ((r, num, nm, shft, par) # es) ret s =
     do { let d = imx_clk_init_data 0 (CCGR ccm r) d;
          (e, s) \<leftarrow> imx_clk_init_gate num nm shft par d s;
          init_gates ccm d es (ret OR word_of_int e) s }"

definition imx_clks_driver_of_init :: "kuaddr_t \<Rightarrow> kuaddr_t \<Rightarrow> imx_gate_fix \<Rightarrow> imx_clk_sys \<Rightarrow> (int \<times> imx_clk_sys) option" where
  "imx_clks_driver_of_init ccm npccm d s =
     do { let d = imx_clk_init_data 0 0 d;
          let s = s\<lparr>ck_clk := (\<lambda>a. if \<exists>i < IMX6UL_CLK_END. a = clk_at (of_nat i) then zero_clk else ck_clk s a), ck_cell := (ck_cell s)(IMX_CLK_CELL := gf_cell d)\<rparr>;
          (ret, s) \<leftarrow> init_gates ccm (imx_clk_init_data IMX_GATE_OPS 0 d) imx_gates 0 s;
          Some (if ret \<noteq> 0 then (- ER_NOMEM, s) else fwk_clk_add_provider npccm ONECELL_GET IMX_CLK_CELL s) }"

text \<open>The functions behind the addresses.\<close>

definition imx_ops :: "kuaddr_t \<Rightarrow> (kuaddr_t \<Rightarrow> kuint32_t) clk_ops" where
  "imx_ops a = (if a = IMX_GATE_OPS then sgrt_imx_clks_gate_oprts else \<lparr>co_prepare = None, co_unprepare = None, co_enable = None, co_disable = None, co_is_enabled = None\<rparr>)"

definition imx_gets :: "kuaddr_t \<Rightarrow> phandle_args \<Rightarrow> kuaddr_t \<Rightarrow> imx_clk_sys \<Rightarrow> kuaddr_t" where
  "imx_gets a = (if a = ONECELL_GET then fwk_of_clk_src_onecell_get else (\<lambda>_ _ _. 0))"

section \<open>The driver keeps the contract\<close>

definition imx_on :: "kuaddr_t \<Rightarrow> imx_clk_sys \<Rightarrow> kuaddr_t \<Rightarrow> kuint32_t" where
  "imx_on h s = (ck_env s)(gt_reg (ck_gate s h) := ck_env s (gt_reg (ck_gate s h)) OR gate_mask h s)"

definition imx_off :: "kuaddr_t \<Rightarrow> imx_clk_sys \<Rightarrow> kuaddr_t \<Rightarrow> kuint32_t" where
  "imx_off h s = (ck_env s)(gt_reg (ck_gate s h) := ck_env s (gt_reg (ck_gate s h)) AND NOT (gate_mask h s))"

definition imx_running :: "kuaddr_t \<Rightarrow> imx_clk_sys \<Rightarrow> bool" where
  "imx_running h s \<longleftrightarrow> ck_env s (gt_reg (ck_gate s h)) AND gate_mask h s \<noteq> 0"

definition imx_usable :: "kuaddr_t \<Rightarrow> imx_clk_sys \<Rightarrow> bool" where
  "imx_usable h s \<longleftrightarrow> gt_bit_idx (ck_gate s h) < 16"

text \<open>A gate of a position above 15 has no bits; the table has none.\<close>

lemma ccgr_bit: "off < 16 \<Longrightarrow> IMX6UL_CCM_CCGR_BIT off \<noteq> 0"
proof
  assume a: "off < 16" "IMX6UL_CCM_CCGR_BIT off = 0"
  have "bit (IMX6UL_CCM_CCGR_BIT off) (off * 2)" using a(1) by (simp add: IMX6UL_CCM_CCGR_BIT_def IMX6UL_CCM_CCGR_MASK_def bit_simps)
  then show False using a(2) by simp
qed

interpretation imx_gate: clk_driver sgrt_imx_clks_gate_oprts imx_on imx_off imx_running imx_usable
proof
  fix h and s :: imx_clk_sys
  show "co_prepare sgrt_imx_clks_gate_oprts = None" "co_unprepare sgrt_imx_clks_gate_oprts = None" by (simp_all add: sgrt_imx_clks_gate_oprts_def)
  show "\<exists>f. co_enable sgrt_imx_clks_gate_oprts = Some f \<and> (\<forall>h s. snd (f h s) = s\<lparr>ck_env := imx_on h s\<rparr>)"
    by (simp add: sgrt_imx_clks_gate_oprts_def imx_clks_gate_enable_def imx_on_def Let_def)
  show "\<exists>f. co_disable sgrt_imx_clks_gate_oprts = Some f \<and> (\<forall>h s. f h s = s\<lparr>ck_env := imx_off h s\<rparr>)"
    by (simp add: sgrt_imx_clks_gate_oprts_def imx_clks_gate_disable_def imx_off_def Let_def)
  show "\<exists>f. co_is_enabled sgrt_imx_clks_gate_oprts = Some f \<and> (\<forall>h s. imx_running h s \<longleftrightarrow> f h s \<noteq> 0)"
    by (simp add: sgrt_imx_clks_gate_oprts_def imx_clks_gate_is_enabled_def imx_running_def)
  have e: "gate_mask h (s\<lparr>ck_env := x\<rparr>) = gate_mask h s" for x by (simp add: gate_mask_def)
  have "gate_mask h s \<noteq> 0" if "imx_usable h s" using ccgr_bit that by (simp add: imx_usable_def gate_mask_def word_less_nat_alt)
  moreover have "(x OR y) AND y = y" for x y :: kuint32_t by (simp add: bit_eq_iff bit_simps)
  ultimately show "imx_usable h s \<Longrightarrow> imx_running h (s\<lparr>ck_env := imx_on h s\<rparr>)" by (simp add: imx_running_def imx_on_def e)
  show "\<not> imx_running h (s\<lparr>ck_env := imx_off h s\<rparr>)" by (simp add: imx_running_def imx_off_def e and.assoc)
qed

section \<open>The table of gates\<close>

definition entry_num :: "gate_entry \<Rightarrow> kuint32_t" where "entry_num e = fst (snd e)"
definition entry_reg :: "kuaddr_t \<Rightarrow> gate_entry \<Rightarrow> kuaddr_t" where "entry_reg ccm e = CCGR ccm (fst e)"
definition entry_pos :: "gate_entry \<Rightarrow> kuint8_t" where "entry_pos e = fst (snd (snd (snd e)))"

lemma imx_gates_ok: "distinct (map entry_num imx_gates)" "\<forall>e \<in> set imx_gates. entry_num e < 236 \<and> entry_pos e < 16 \<and> fst e < 7" "length imx_gates = 88"
  by (simp_all add: imx_gates_def entry_num_def entry_pos_def)

lemma clk_at_inj: "m < 236 \<Longrightarrow> n < 236 \<Longrightarrow> clk_at m = clk_at n \<longleftrightarrow> m = n"
proof -
  assume a: "m < 236" "n < 236"
  have b: "unat m < 236" "unat n < 236" using a by (simp_all add: word_less_nat_alt)
  then have u: "unat (CLK_SIZE * m) = 32 * unat m" "unat (CLK_SIZE * n) = 32 * unat n"
    by (simp_all add: CLK_SIZE_def unat_word_ariths)
  have "clk_at m = clk_at n \<longleftrightarrow> CLK_SIZE * m = CLK_SIZE * n" by (simp add: clk_at_def)
  also have "\<dots> \<longleftrightarrow> unat (CLK_SIZE * m) = unat (CLK_SIZE * n)" by (rule word_unat_eq_iff)
  also have "\<dots> \<longleftrightarrow> unat m = unat n" by (simp add: u)
  finally show ?thesis by (simp add: word_unat_eq_iff)
qed

lemma clk_at_valid: "n < 236 \<Longrightarrow> isValid (clk_at n)"
proof -
  assume "n < 236"
  then have b: "unat n < 236" by (simp add: word_less_nat_alt)
  then have "unat (clk_at n) = 0x80700000 + 32 * unat n" by (simp add: clk_at_def IMX_CLKS_DATA_def CLK_SIZE_def unat_word_ariths)
  then show ?thesis using b by (auto simp: isValid_def IS_ERR_def word_le_nat_alt)
qed

text \<open>The gate of an entry is registered.\<close>

definition gate_at :: "kuaddr_t \<Rightarrow> gate_entry \<Rightarrow> kuaddr_t \<Rightarrow> kuaddr_t \<Rightarrow> imx_clk_sys \<Rightarrow> bool" where
  "gate_at ccm e g k s \<longleftrightarrow> clk_wired (clk_at (entry_num e)) g k s \<and> cc_ops (ck_core s k) = IMX_GATE_OPS \<and>
     gt_reg (ck_gate s g) = entry_reg ccm e \<and> gt_bit_idx (ck_gate s g) = entry_pos e \<and> g \<notin> set (ck_pool s) \<and> k \<notin> set (ck_pool s) \<and>
     set (ck_clks s k) \<inter> set (ck_pool s) = {}"

definition fix_ok :: "imx_gate_fix \<Rightarrow> bool" where
  "fix_ok d \<longleftrightarrow> gf_cell d = \<lparr>oc_clks = IMX_CLKS_DATA, oc_size = of_nat IMX6UL_CLK_END\<rparr> \<and> gf_ops d = IMX_GATE_OPS"

definition same_rest :: "imx_clk_sys \<Rightarrow> imx_clk_sys \<Rightarrow> bool" where
  "same_rest s s' \<longleftrightarrow> ck_cell s' = ck_cell s \<and> ck_prov s' = ck_prov s \<and> sgrt_fwk_clk_providers s' = sgrt_fwk_clk_providers s \<and> ck_env s' = ck_env s"

definition pool_good :: "imx_clk_sys \<Rightarrow> bool" where
  "pool_good s \<longleftrightarrow> distinct (ck_pool s) \<and> (\<forall>a \<in> set (ck_pool s). isValid a \<and> (\<forall>n < 236. a \<noteq> clk_at n))"

lemma init_data_ok: "fix_ok d \<Longrightarrow> fix_ok (imx_clk_init_data 0 reg d) \<and> (reg \<noteq> 0 \<longrightarrow> gf_reg (imx_clk_init_data 0 reg d) = reg)"
  by (simp add: fix_ok_def imx_clk_init_data_def Let_def)

lemma gate_added_keeps:
  assumes "gate_at ccm e g' k' s" and "ck_pool s = g # k # a # ps" and "c \<noteq> clk_at (entry_num e)" and "c \<notin> set ps"
  shows "gate_at ccm e g' k' (gate_added g k a c fl ops nm par reg shft ps s)"
  using assms by (auto simp: gate_at_def clk_wired_def gate_added_def)

lemma init_gate_ok:
  assumes "ck_pool s = g # k # a # ps" and "pool_good s" and "fix_ok d" and "entry_num e < 236" and "gf_reg d = entry_reg ccm e" and "e = (r, num, nm, shft, par)"
  shows "\<exists>s'. imx_clk_init_gate num nm shft par d s = Some (0, s') \<and> ck_pool s' = ps \<and> gate_at ccm e g k s' \<and> same_rest s s' \<and> pool_good s' \<and>
     (\<forall>e' g' k'. gate_at ccm e' g' k' s \<and> entry_num e' < 236 \<and> entry_num e' \<noteq> entry_num e \<longrightarrow> gate_at ccm e' g' k' s')"
proof -
  have n: "num < 236" "entry_num e = num" "entry_pos e = shft" using assms(4,6) by (simp_all add: entry_num_def entry_pos_def)
  have v: "isValid g" "isValid k" "isValid a" "isValid (clk_at num)" using assms(1,2) clk_at_valid [OF n(1)] by (auto simp: pool_good_def)
  have dj: "clk_at num \<notin> set (ck_pool s)" using assms(2) n(1) by (auto simp: pool_good_def)
  let ?f = "cl_flags (ck_clk s (clk_at num)) AND NOT NR_FWK_CLK_IS_DYNAMIC"
  let ?s = "gate_added g k a (clk_at num) ?f (gf_ops d) (Some (lit nm)) (Some (lit par)) (gf_reg d) shft ps s"
  have "fwk_clk_gate_register (clk_at num) (gf_ops d) (Some (lit nm)) (Some (lit par)) (gf_reg d) shft s = Some (clk_at num, ?s)"
    by (rule gate_register_static [OF assms(1) v refl])
  moreover have "oc_clks (gf_cell d) + CLK_SIZE * num = clk_at num" "\<not> num > oc_size (gf_cell d)"
    using assms(3) n(1) by (simp_all add: fix_ok_def clk_at_def IMX6UL_CLK_END_def not_less)
  ultimately have r: "imx_clk_init_gate num nm shft par d s = Some (0, ?s)" using v(4) by (simp add: imx_clk_init_gate_def imx_clk_gate_def)
  have nz: "clk_at num \<noteq> 0" "k \<noteq> 0" "g \<noteq> 0" using v by (auto simp: isValid_def)
  have "gate_at ccm e g k ?s" using gate_added_wired [OF nz] n assms dj by (auto simp: gate_at_def fix_ok_def pool_good_def)
  moreover have "pool_good ?s" "same_rest s ?s" using assms(1,2) by (auto simp: pool_good_def same_rest_def gate_added_def)
  moreover have "gate_at ccm e' g' k' ?s" if "gate_at ccm e' g' k' s" "entry_num e' < 236" "entry_num e' \<noteq> entry_num e" for e' g' k'
    using gate_added_keeps [OF that(1) assms(1)] clk_at_inj [OF n(1) that(2)] that(3) n(2) dj assms(1) by auto
  ultimately show ?thesis using r by (intro exI [of _ ?s]) simp
qed

lemma init_gates_ok:
  assumes "pool_good s" and "3 * length es \<le> length (ck_pool s)" and "fix_ok d" and "distinct (map entry_num (E @ es))" and "\<forall>e \<in> set (E @ es). entry_num e < 236"
    and "\<forall>e \<in> set es. entry_reg ccm e \<noteq> 0" and "\<forall>e \<in> set E. \<exists>g k. gate_at ccm e g k s"
  shows "\<exists>s'. init_gates ccm d es 0 s = Some (0, s') \<and> (\<forall>e \<in> set (E @ es). \<exists>g k. gate_at ccm e g k s') \<and> ck_pool s' = drop (3 * length es) (ck_pool s) \<and>
     same_rest s s' \<and> pool_good s'"
  using assms
proof (induction es arbitrary: E s d)
  case Nil
  then show ?case by (simp add: same_rest_def)
next
  case (Cons e es)
  obtain r num nm shft par where e: "e = (r, num, nm, shft, par)" by (cases e)
  have "3 \<le> length (ck_pool s)" using Cons.prems(2) by simp
  then obtain g k a ps where p: "ck_pool s = g # k # a # ps" by (auto simp: numeral_eq_Suc Suc_le_length_iff)
  let ?d = "imx_clk_init_data 0 (CCGR ccm r) d"
  have d: "fix_ok ?d" "gf_reg ?d = entry_reg ccm e" using init_data_ok [OF Cons.prems(3), of "CCGR ccm r"] Cons.prems(6) e by (simp_all add: entry_reg_def)
  obtain s1 where s1: "imx_clk_init_gate num nm shft par ?d s = Some (0, s1)" "ck_pool s1 = ps" "gate_at ccm e g k s1" "same_rest s s1" "pool_good s1"
     "\<forall>e' g' k'. gate_at ccm e' g' k' s \<and> entry_num e' < 236 \<and> entry_num e' \<noteq> entry_num e \<longrightarrow> gate_at ccm e' g' k' s1"
    using init_gate_ok [OF p Cons.prems(1) d(1) _ d(2) e] Cons.prems(5) by auto
  have E: "\<forall>x \<in> set (E @ [e]). \<exists>g k. gate_at ccm x g k s1"
  proof
    fix x assume x: "x \<in> set (E @ [e])"
    show "\<exists>g k. gate_at ccm x g k s1"
    proof (cases "x = e")
      case True
      then show ?thesis using s1(3) by blast
    next
      case False
      then have m: "x \<in> set E" using x by simp
      then have "entry_num x \<noteq> entry_num e" "entry_num x < 236" using Cons.prems(4,5) by (auto simp: image_iff)
      then show ?thesis using s1(6) Cons.prems(7) m by blast
    qed
  qed
  have "\<exists>s'. init_gates ccm ?d es 0 s1 = Some (0, s') \<and> (\<forall>e \<in> set ((E @ [e]) @ es). \<exists>g k. gate_at ccm e g k s') \<and> ck_pool s' = drop (3 * length es) (ck_pool s1) \<and>
     same_rest s1 s' \<and> pool_good s'"
    by (rule Cons.IH) (use Cons.prems s1 d E p in auto)
  then obtain s' where s': "init_gates ccm ?d es 0 s1 = Some (0, s')" "\<forall>e \<in> set ((E @ [e]) @ es). \<exists>g k. gate_at ccm e g k s'"
      "ck_pool s' = drop (3 * length es) (ck_pool s1)" "same_rest s1 s'" "pool_good s'" by blast
  have "init_gates ccm d (e # es) 0 s = Some (0, s')" using s1(1) s'(1) e by simp
  moreover have "ck_pool s' = drop (3 * length (e # es)) (ck_pool s)" using s'(3) s1(2) p by (simp add: numeral_eq_Suc)
  moreover have "same_rest s s'" using s1(4) s'(4) by (simp add: same_rest_def)
  ultimately show ?case using s'(2,5) by auto
qed

section \<open>After start-up\<close>

text \<open>What start-up leaves: every gate of the table is registered, and one more provider, which answers for the node of the clock controller.\<close>

lemma of_init_ok:
  assumes "pool_good s" and "265 \<le> length (ck_pool s)" and "\<forall>r < 7. CCGR ccm r \<noteq> 0" and "npccm \<noteq> 0"
  shows "\<exists>s' p. imx_clks_driver_of_init ccm npccm d s = Some (ER_NORMAL, s') \<and> (\<forall>e \<in> set imx_gates. \<exists>g k. gate_at ccm e g k s') \<and>
     ck_pool s' = drop 265 (ck_pool s) \<and> pool_good s' \<and> ck_env s' = ck_env s \<and> p \<in> set (ck_pool s) \<and>
     sgrt_fwk_clk_providers s' = sgrt_fwk_clk_providers s @ [p] \<and> ck_prov s' = (ck_prov s)(p := \<lparr>pv_node = npccm, pv_get = ONECELL_GET, pv_data = IMX_CLK_CELL\<rparr>) \<and>
     oc_clks (ck_cell s' IMX_CLK_CELL) = IMX_CLKS_DATA"
proof -
  let ?d = "imx_clk_init_data 0 0 d"
  let ?d' = "imx_clk_init_data IMX_GATE_OPS 0 ?d"
  let ?s = "s\<lparr>ck_clk := (\<lambda>a. if \<exists>i < IMX6UL_CLK_END. a = clk_at (of_nat i) then zero_clk else ck_clk s a), ck_cell := (ck_cell s)(IMX_CLK_CELL := gf_cell ?d)\<rparr>"
  have d: "fix_ok ?d'" "oc_clks (gf_cell ?d) = IMX_CLKS_DATA" by (simp_all add: fix_ok_def imx_clk_init_data_def IMX_GATE_OPS_def Let_def)
  have "\<exists>s'. init_gates ccm ?d' imx_gates 0 ?s = Some (0, s') \<and> (\<forall>e \<in> set ([] @ imx_gates). \<exists>g k. gate_at ccm e g k s') \<and>
      ck_pool s' = drop (3 * length imx_gates) (ck_pool ?s) \<and> same_rest ?s s' \<and> pool_good s'"
    by (rule init_gates_ok) (use assms d imx_gates_ok in \<open>auto simp: pool_good_def entry_reg_def\<close>)
  then obtain s1 where s1: "init_gates ccm ?d' imx_gates 0 ?s = Some (0, s1)" "\<forall>e \<in> set imx_gates. \<exists>g k. gate_at ccm e g k s1"
      "ck_pool s1 = drop 264 (ck_pool s)" "same_rest ?s s1" "pool_good s1" using imx_gates_ok(3) by auto
  have "ck_pool s1 \<noteq> []" using s1(3) assms(2) by simp
  then obtain p ps where p: "ck_pool s1 = p # ps" by (auto simp: neq_Nil_conv)
  have v: "isValid p" "p \<in> set (ck_pool s)" using s1(5) p s1(3) set_drop_subset [of 264 "ck_pool s"] by (auto simp: pool_good_def)
  let ?r = "s1\<lparr>ck_pool := ps, ck_prov := (ck_prov s1)(p := \<lparr>pv_node = npccm, pv_get = ONECELL_GET, pv_data = IMX_CLK_CELL\<rparr>),
              sgrt_fwk_clk_providers := sgrt_fwk_clk_providers s1 @ [p]\<rparr>"
  have "imx_clks_driver_of_init ccm npccm d s = Some (ER_NORMAL, ?r)"
    using s1(1) p v assms(4) by (simp add: imx_clks_driver_of_init_def fwk_clk_add_provider_def ONECELL_GET_def Let_def)
  moreover have "\<forall>e \<in> set imx_gates. \<exists>g k. gate_at ccm e g k ?r" using s1(2) p by (fastforce simp: gate_at_def clk_wired_def)
  moreover have "ps = drop 265 (ck_pool s)" using arg_cong [OF s1(3), of "drop 1"] p by simp
  ultimately show ?thesis using s1(4,5) v p d(2) by (intro exI [of _ ?r] exI [of _ p]) (auto simp: same_rest_def pool_good_def)
qed

text \<open>A handle for a gate switches the bits of that gate.\<close>

lemma gate_handle_switches:
  assumes "gate_at ccm e g k s" and "ck_pool s = c # ps" and "pool_good s" and "entry_pos e < 16"
    and "s1 = s\<lparr>ck_pool := ps, ck_clk := (ck_clk s)(c := \<lparr>cl_dev_id = di, cl_con_id = ci, cl_max_rate = NOT 0, cl_core = k, cl_flags = NR_FWK_CLK_IS_DYNAMIC\<rparr>),
     ck_clks := (ck_clks s)(k := ck_clks s k @ [c])\<rparr>"
  shows "imx_gate.drives imx_ops c g s1" "imx_usable g s1"
    "imx_on g s1 = (ck_env s)(entry_reg ccm e := ck_env s (entry_reg ccm e) OR IMX6UL_CCM_CCGR_BIT (unat (entry_pos e)))"
    "imx_off g s1 = (ck_env s)(entry_reg ccm e := ck_env s (entry_reg ccm e) AND NOT (IMX6UL_CCM_CCGR_BIT (unat (entry_pos e))))"
  using assms by (auto simp: imx_gate.drives_def gate_at_def clk_wired_def pool_good_def isValid_def imx_ops_def IMX_GATE_OPS_def imx_usable_def imx_on_def imx_off_def gate_mask_def)

text \<open>C39: A device that names a clock of the controller in the device tree gets a handle for it after start-up, and the handle switches that clock and nothing
  else: start-up touches no gating register; enabling sets the two bits of the clock's gate in its gating register, disabling clears
  them, and no other bit of any register changes; giving the handle back returns its memory.\<close>

theorem imx_clock_switched:
  assumes "pool_good s" and "266 \<le> length (ck_pool s)" and "\<forall>r < 7. CCGR ccm r \<noteq> 0" and "npccm \<noteq> 0"
    and "\<forall>p \<in> set (sgrt_fwk_clk_providers s). pv_node (ck_prov s p) \<noteq> npccm \<and> p \<notin> set (ck_pool s)"
    and "case nm of None \<Rightarrow> i = 0 | Some n \<Rightarrow> fwk_of_property_match_string (dv_node (bs_dev b dev)) (lit ''clock-names'') n (bs_tree b) = Some i" and "0 \<le> i"
    and "fwk_of_parse_phandle_with_args (dv_node (bs_dev b dev)) (lit ''clocks'') (Some (lit ''#clock-cells'')) 0 i (bs_tree b) = Some (ER_NORMAL, Some (npccm, num # rest))"
    and "(r, num, cname, pos, par) \<in> set imx_gates"
  shows "\<exists>s0 c s1 s2 s3. imx_clks_driver_of_init ccm npccm d s = Some (ER_NORMAL, s0) \<and> ck_env s0 = ck_env s \<and>
     fwk_clk_get imx_gets dev nm b s0 = Some (c, s1) \<and> isValid c \<and> ck_env s1 = ck_env s \<and>
     fwk_clk_prepare_enable imx_ops c s1 = Some s2 \<and>
     ck_env s2 = (ck_env s)(CCGR ccm r := ck_env s (CCGR ccm r) OR IMX6UL_CCM_CCGR_BIT (unat pos)) \<and>
     fwk_clk_disable_unprepare imx_ops c s1 = Some s3 \<and>
     ck_env s3 = (ck_env s)(CCGR ccm r := ck_env s (CCGR ccm r) AND NOT (IMX6UL_CCM_CCGR_BIT (unat pos))) \<and>
     ck_clks (fwk_clk_put c s1) = ck_clks s0 \<and> ck_freed (fwk_clk_put c s1) = ck_freed s0 @ [c]"
proof -
  let ?e = "(r, num, cname, pos, par) :: gate_entry"
  have e: "entry_num ?e = num" "entry_pos ?e = pos" "entry_reg ccm ?e = CCGR ccm r" by (simp_all add: entry_num_def entry_pos_def entry_reg_def)
  have n: "num < 236" "pos < 16" using imx_gates_ok(2) assms(9) e by auto
  obtain s0 p where s0: "imx_clks_driver_of_init ccm npccm d s = Some (ER_NORMAL, s0)" "\<forall>e \<in> set imx_gates. \<exists>g k. gate_at ccm e g k s0"
      "ck_pool s0 = drop 265 (ck_pool s)" "pool_good s0" "ck_env s0 = ck_env s" "p \<in> set (ck_pool s)" "sgrt_fwk_clk_providers s0 = sgrt_fwk_clk_providers s @ [p]"
      "ck_prov s0 = (ck_prov s)(p := \<lparr>pv_node = npccm, pv_get = ONECELL_GET, pv_data = IMX_CLK_CELL\<rparr>)" "oc_clks (ck_cell s0 IMX_CLK_CELL) = IMX_CLKS_DATA"
    using of_init_ok [OF assms(1) _ assms(3,4), of d] assms(2) by auto
  obtain g k where g: "gate_at ccm ?e g k s0" using s0(2) assms(9) by blast
  have "ck_pool s0 \<noteq> []" using s0(3) assms(2) by simp
  then obtain c ps where c: "ck_pool s0 = c # ps" by (auto simp: neq_Nil_conv)
  have cv: "isValid c" "c \<noteq> 0" using s0(4) c by (auto simp: pool_good_def isValid_def)
  have "find (\<lambda>q. pv_node (ck_prov s0 q) = npccm) (sgrt_fwk_clk_providers s0) = Some p"
  proof -
    have "find (\<lambda>q. pv_node (ck_prov s0 q) = npccm) (sgrt_fwk_clk_providers s) = None" using assms(5) s0(6) by (auto simp: s0(8) find_None_iff)
    then show ?thesis by (simp add: s0(7,8) find_append)
  qed
  then have l: "fwk_clk_provider_look_up imx_gets (npccm, num # rest) s0 = clk_at num"
    using s0(8,9) by (simp add: fwk_clk_provider_look_up_def imx_gets_def fwk_of_clk_src_onecell_get_def clk_at_def IMX_CLKS_DATA_def IMX_CLK_CELL_def)
  have w: "clk_wired (clk_at num) g k s0" using g e by (simp add: gate_at_def)
  let ?s1 = "s0\<lparr>ck_pool := ps, ck_clk := (ck_clk s0)(c := \<lparr>cl_dev_id = fwk_dev_get_name dev b, cl_con_id = nm, cl_max_rate = NOT 0, cl_core = k, cl_flags = NR_FWK_CLK_IS_DYNAMIC\<rparr>),
     ck_clks := (ck_clks s0)(k := ck_clks s0 k @ [c])\<rparr>"
  have get: "fwk_clk_get imx_gets dev nm b s0 = Some (c, ?s1)" by (rule clk_get_ok [OF assms(6,7,8) l clk_at_valid [OF n(1)] w c cv(1)])
  note sw = gate_handle_switches [OF g c s0(4) _ refl, unfolded e, OF n(2), where di = "fwk_dev_get_name dev b" and ci = nm]
  have "c \<notin> set (ck_clks s0 k)" using g c by (auto simp: gate_at_def)
  then have "fwk_clk_put c ?s1 = ?s1\<lparr>ck_clks := (ck_clks ?s1)(k := ck_clks s0 k), ck_freed := ck_freed ?s1 @ [c]\<rparr>"
    by (intro clk_put_ok) (use cv in simp_all)
  then show ?thesis using s0(1,5) get cv imx_gate.enable_switches [OF sw(1)] imx_gate.disable_switches [OF sw(1)] sw(3,4) by simp
qed

section \<open>An example\<close>

text \<open>A tree with the clock controller and a serial port that names clock 189, an empty clock system with 266 pieces of memory.\<close>

definition clk_tree :: of_sys where
  "clk_tree = \<lparr>of_nodes =
     (\<lambda>_. \<lparr>dn_name = [0], dn_type = [0], dn_phandle = 0, dn_full_name = lit ''/'', dn_props = [], dn_parent = 0, dn_child = 0, dn_sibling = 0, dn_allnext = 0\<rparr>)
     (0x1000 := \<lparr>dn_name = lit '''', dn_type = [0], dn_phandle = 0, dn_full_name = lit ''/'', dn_props = [],
                 dn_parent = 0, dn_child = 0x2000, dn_sibling = 0, dn_allnext = 0x2000\<rparr>,
      0x2000 := \<lparr>dn_name = lit ''ccm'', dn_type = [0], dn_phandle = 1, dn_full_name = lit ''/ccm'', dn_props = [cells_prop ''#clock-cells'' [1]],
                 dn_parent = 0x1000, dn_child = 0, dn_sibling = 0x3000, dn_allnext = 0x3000\<rparr>,
      0x3000 := \<lparr>dn_name = lit ''uart'', dn_type = [0], dn_phandle = 0, dn_full_name = lit ''/uart'', dn_props = [cells_prop ''clocks'' [1, 189]],
                 dn_parent = 0x1000, dn_child = 0, dn_sibling = 0, dn_allnext = 0\<rparr>),
     sprt_fwk_of_allNodes = 0x1000\<rparr>"

definition clk_bus :: "nat bus_sys" where
  "clk_bus = (demo_bus [] [])\<lparr>bs_tree := clk_tree\<rparr>"

definition clk_demo_pool :: "kuaddr_t list" where
  "clk_demo_pool = map (\<lambda>i. 0x90000000 + of_nat (32 * i)) [0..<266]"

definition clk_demo :: imx_clk_sys where
  "clk_demo = \<lparr>ck_clk = (\<lambda>_. zero_clk), ck_core = (\<lambda>_. \<lparr>cc_name = None, cc_ops = 0, cc_hw = 0, cc_parent_names = 0\<rparr>),
     ck_hw = (\<lambda>_. \<lparr>hw_core = 0, hw_clk = 0, hw_init = \<lparr>ci_name = None, ci_ops = 0, ci_parent_names = []\<rparr>\<rparr>),
     ck_gate = (\<lambda>_. \<lparr>gt_reg = 0, gt_bit_idx = 0, gt_flags = 0\<rparr>), ck_clks = (\<lambda>_. []), ck_names = (\<lambda>_. []), ck_cell = (\<lambda>_. \<lparr>oc_clks = 0, oc_size = 0\<rparr>),
     ck_prov = (\<lambda>_. \<lparr>pv_node = 0, pv_get = 0, pv_data = 0\<rparr>), sgrt_fwk_clk_providers = [], ck_pool = clk_demo_pool, ck_freed = [], ck_env = (\<lambda>_. 5)\<rparr>"

lemma clk_demo_addr: "i < 266 \<Longrightarrow> unat (0x90000000 + of_nat (32 * i) :: kuaddr_t) = 0x90000000 + 32 * i"
  by (simp add: unat_word_ariths unat_of_nat take_bit_eq_mod del: of_nat_mult)

lemma clk_demo_good: "pool_good clk_demo"
proof -
  have inj: "inj_on (\<lambda>i. 0x90000000 + of_nat (32 * i) :: kuaddr_t) {0..<266}"
  proof (rule inj_onI)
    fix i j assume "i \<in> {0..<266 :: nat}" "j \<in> {0..<266 :: nat}" "0x90000000 + of_nat (32 * i) = (0x90000000 + of_nat (32 * j) :: kuaddr_t)"
    then show "i = j" using clk_demo_addr [of i] clk_demo_addr [of j] by simp
  qed
  have "isValid a \<and> (\<forall>n < 236. a \<noteq> clk_at n)" if ap: "a \<in> set clk_demo_pool" for a
  proof -
    obtain i where i: "i < 266" "a = 0x90000000 + of_nat (32 * i)" using ap unfolding clk_demo_pool_def by fastforce
    have u: "unat a = 0x90000000 + 32 * i" using clk_demo_addr [OF i(1)] i(2) by simp
    have "a \<noteq> clk_at n" if "n < 236" for n
    proof -
      have "unat n < 236" using that by (simp add: word_less_nat_alt)
      then have "unat (clk_at n) < 0x90000000" by (simp add: clk_at_def IMX_CLKS_DATA_def CLK_SIZE_def unat_word_ariths)
      then show ?thesis using u by auto
    qed
    then show ?thesis using u i(1) by (auto simp: isValid_def IS_ERR_def word_le_nat_alt)
  qed
  then show ?thesis using inj by (auto simp: pool_good_def clk_demo_def clk_demo_pool_def distinct_map)
qed

lemma clk_tree_parse:
  "fwk_of_parse_phandle_with_args 0x3000 (lit ''clocks'') (Some (lit ''#clock-cells'')) 0 0 clk_tree = Some (ER_NORMAL, Some (0x2000, [189]))"
proof -
  let ?sps = "[(0x2000, [189])] :: (kuaddr_t \<times> kuint32_t list) list"
  have ch: "node_chain clk_tree (sprt_fwk_of_allNodes clk_tree) [0x1000, 0x2000, 0x3000]" by (simp add: clk_tree_def demo_tree_valid)
  have f: "fwk_of_find_property 0x3000 (lit ''clocks'') clk_tree = Some (cells_prop ''clocks'' [1, 189])"
    "fwk_of_find_property 0x2000 (lit ''#clock-cells'') clk_tree = Some (cells_prop ''#clock-cells'' [1])"
    by (simp_all add: fwk_of_find_property_def demo_tree_valid clk_tree_def lit_def cstr_def)
  have ph: "dn_phandle (of_nodes clk_tree 0x2000) = 1" "dn_phandle (of_nodes clk_tree 0x1000) = 0" by (simp_all add: clk_tree_def)
  have h: "holds_cells (cells_prop ''clocks'' [1, 189]) (spec_cells clk_tree ?sps)"
    using cells_prop_holds [of "[1, 189]"] by (simp add: spec_cells_def ph)
  have "specifier_cells (Some (lit ''#clock-cells'')) 0 0x2000 clk_tree = Some (Inr 1)"
    using specifier_cells_named [OF f(2) cells_prop_holds] by simp
  then have "\<forall>sp \<in> set ?sps. spec_ok (Some (lit ''#clock-cells'')) 0 clk_tree sp"
    by (simp add: spec_ok_def FWK_OF_MAX_PHANDLE_ARGS_def find_by_phandle_chain [OF ch] ph)
  from parse_phandle_specs [OF _ f(1) h _ this, of 0] show ?thesis by simp
qed

theorem imx_clock_switched_witness:
  "\<exists>s0 c s1 s2. imx_clks_driver_of_init 0x20C4000 0x2000 \<lparr>gf_cell = \<lparr>oc_clks = 0, oc_size = 0\<rparr>, gf_ops = 0, gf_reg = 0\<rparr> clk_demo = Some (ER_NORMAL, s0) \<and>
     fwk_clk_get imx_gets 0x9000 None clk_bus s0 = Some (c, s1) \<and> fwk_clk_prepare_enable imx_ops c s1 = Some s2 \<and>
     ck_env s2 = (\<lambda>_. 5)(0x20C407C := 0x3000005)"
proof -
  have m: "(5, 189, ''uart1_ipg'', 12, ''ipg'') \<in> set imx_gates" by (simp add: imx_gates_def)
  have "\<forall>r < 7. CCGR 0x20C4000 r \<noteq> 0" by (auto simp: word_unat_eq_iff CCGR_def unat_word_ariths unat_of_nat take_bit_eq_mod)
  moreover have "266 \<le> length (ck_pool clk_demo)" by (simp add: clk_demo_def clk_demo_pool_def)
  moreover have "dv_node (bs_dev clk_bus 0x9000) = 0x3000" "bs_tree clk_bus = clk_tree" by (simp_all add: clk_bus_def)
  moreover have "sgrt_fwk_clk_providers clk_demo = []" "ck_env clk_demo = (\<lambda>_. 5)" by (simp_all add: clk_demo_def)
  moreover have "CCGR 0x20C4000 5 = 0x20C407C" "5 OR IMX6UL_CCM_CCGR_BIT (unat (12 :: kuint8_t)) = 0x3000005"
    by (simp_all add: CCGR_def IMX6UL_CCM_CCGR_BIT_def IMX6UL_CCM_CCGR_MASK_def push_bit_eq_mult)
  ultimately show ?thesis
    using imx_clock_switched [OF clk_demo_good, where ccm = "0x20C4000" and npccm = "0x2000" and nm = None and i = 0 and b = clk_bus and dev = "0x9000" and num = 189 and rest = "[]"
        and r = 5 and cname = "''uart1_ipg''" and pos = 12 and par = "''ipg''" and d = "\<lparr>gf_cell = \<lparr>oc_clks = 0, oc_size = 0\<rparr>, gf_ops = 0, gf_reg = 0\<rparr>"] clk_tree_parse m by fastforce
qed

end
