(* ===== verification/Spec2Isabelle.thy ===== *)
theory Spec2Isabelle
  imports Kthread Wait_Sleep Api_String File_Table Radix_Tree Mem_Pool Irq Mailbox Work_Queue Kobject Of_Irq Imx_Gpio I2c Unflatten_Build Of_Populate Trie Imx_Clk
begin

text \<open>
  HeavenFox is a small operating system for ARMv7 boards: a kernel with preemptive threads, and a framework of device
  files, interrupts and memory in front of the drivers.  This development models its core in HOL, function by
  function, and proves what makes the parts correct.  All file names are relative to \<^verbatim>\<open>src/\<close>.

  \<^bold>\<open>The parts and how they interact.\<close>
  The scheduler keeps a table of threads and three lists of them; threads are created by \<^verbatim>\<open>kernel/thread.c\<close> and
  registered there.  Wait queues and sleeping threads suspend and wake up threads through the scheduler, sleeping with
  the software timers that the tick drives.  Locks protect the lists.  The allocator of \<^verbatim>\<open>common/mempool\<close> provides the memory of
  every other part.  Device files are opened by a path in the tree of kernel objects; its inode carries a device number,
  the device maps give the device for the number, and the file gets the operations of its driver.  Interrupt numbers are
  found through a radix tree and a bitmap.  Threads send each other mails and defer work to a worker thread.

  \<^bold>\<open>Theories.\<close>
  \<^item> \<open>Prelude\<close>: integer types, error codes, lemmas on lists and options all parts use.
  \<^item> \<open>Prio_Queue\<close>: the interface of a list ordered by priority, as a locale; \<open>Sched_Props\<close> interprets it with the lists of
    the scheduler.
  \<^item> \<open>List_Head\<close>: \<^verbatim>\<open>include/common/list_types.h\<close>.  Circular doubly linked lists in a heap of links, the predicate
    \<open>dlist\<close> that relates them to lists, and what each operation does to the list; walks are partial functions.
  \<^item> \<open>Generic_Ops\<close>: \<^verbatim>\<open>common/generic/generic.c\<close>, \<^verbatim>\<open>include/common/generic.h\<close>, \<^verbatim>\<open>error_types.h\<close>.  Software division, number
    printers, alignment, error pointers.
  \<^item> \<open>Locks\<close>: \<^verbatim>\<open>include/common/atomic_types.h\<close>, \<^verbatim>\<open>kernel/spinlock.c\<close>, \<^verbatim>\<open>mutex.c\<close>, \<^verbatim>\<open>semaphore.c\<close>.  The contract of a try-lock is
    a locale that spin locks and mutexes interpret; interleavings of threads are a step relation.
  \<^item> \<open>Kernel_Time\<close>: \<^verbatim>\<open>common/generic/time.c\<close>, \<^verbatim>\<open>include/common/time.h\<close>.  Conversions, busy waits, software timers.
  \<^item> \<open>Sched\<close>, \<open>Sched_Inv\<close>, \<open>Sched_Ops\<close>, \<open>Sched_Props\<close>: \<^verbatim>\<open>kernel/sched.c\<close>.  The operations; the relation \<open>sched_core\<close> between
    a state and the lists it represents; what each operation does to the lists; reachable states and the properties.
  \<^item> \<open>Kthread\<close>: \<^verbatim>\<open>kernel/thread.c\<close>, \<^verbatim>\<open>kernel/kthread/*.c\<close>.  Attributes, stacks, creation with every error exit.
  \<^item> \<open>Wait_Sleep\<close>: \<^verbatim>\<open>kernel/wait.c\<close>, \<^verbatim>\<open>include/kernel/wait.h\<close>, \<^verbatim>\<open>kernel/sleep.c\<close>.  The macros are split where the thread gives
    the processor away.
  \<^item> \<open>Work_Queue\<close>: \<^verbatim>\<open>include/kernel/workqueue.h\<close>, \<^verbatim>\<open>kernel/kthread/kworker.c\<close>.
  \<^item> \<open>Api_String\<close>: \<^verbatim>\<open>common/generic/api_string.c\<close>.  Strings as byte lists, the formatter.
  \<^item> \<open>Mailbox\<close>: \<^verbatim>\<open>kernel/mailbox.c\<close>.
  \<^item> \<open>Mem_Simple\<close>, \<open>Mem_Pool\<close>: \<^verbatim>\<open>common/mempool\<close>, \<^verbatim>\<open>platform/mem/fwk_mempool.c\<close>.  The allocator works on bytes, with its
    headers in the memory it manages; \<open>pool_ok\<close> relates the memory to a list of blocks.
  \<^item> \<open>Chrdev\<close>, \<open>Kobj_Map\<close>, \<open>File_Table\<close>: \<^verbatim>\<open>platform/chardev\<close>, \<^verbatim>\<open>fwk_kobjmap.c\<close>, \<^verbatim>\<open>fwk_fcntl.c\<close>, \<^verbatim>\<open>fwk_fs.c\<close>, \<^verbatim>\<open>fwk_inode.c\<close>.
    Device numbers, the map from numbers to devices, descriptors and files.
  \<^item> \<open>Kobject\<close>: \<^verbatim>\<open>platform/fwk_kobject.c\<close>, \<^verbatim>\<open>drivers/base/sysfs.c\<close>.  The tree of objects and its paths.
  \<^item> \<open>Keyed_Store\<close>, \<open>Radix_Tree\<close>, \<open>Trie\<close>, \<open>Io_Bitmap\<close>, \<open>Irq\<close>: \<^verbatim>\<open>common/generic/radix_tree.c\<close>, \<^verbatim>\<open>trie_tree.c\<close>, the bitmaps of \<^verbatim>\<open>io_stream.c\<close>,
    \<^verbatim>\<open>platform/irq\<close>.  A store of bindings is a locale, the radix tree and the trie interpret it, and the interrupt framework uses it.
  \<^item> \<open>Device_Tree\<close>, \<open>Of_Irq\<close>: \<^verbatim>\<open>platform/of\<close>.  Properties and nodes of the device tree, the resources of a device; the interrupts of a node,
    from the tree to the numbers of the interrupt framework.
  \<^item> \<open>Unflatten\<close>, \<open>Unflatten_Build\<close>: \<^verbatim>\<open>platform/of/fwk_of.c\<close>.  The set-up of the tree from the blob of the boot loader: the two walks, the counting of the
    memory, the nodes and their links.  Trees are a datatype, with the bytes a compiler writes for them and the predicate
    \<open>tree_at\<close> that relates them to nodes in memory.
  \<^item> \<open>Platform_Bus\<close>: \<^verbatim>\<open>platform/bus_type\<close>.  Devices and drivers on a bus.  What the bus core relies on is a locale, \<open>bus_contract\<close>, which
    the platform bus interprets; the abstract bus is two lists and a binding, and the operations refine it.
  \<^item> \<open>Of_Platform\<close>, \<open>Of_Populate\<close>: \<^verbatim>\<open>platform/of/fwk_of_device.c\<close>, the devices with a file of \<^verbatim>\<open>fwk_platform.c\<close>.  The platform devices the nodes of the
    tree become, with their resources; the nodes to convert are a function of the links of the tree.
  \<^item> \<open>I2c\<close>: \<^verbatim>\<open>platform/i2c/fwk_i2c.c\<close>.  The I2C bus, a second interpretation of \<open>bus_contract\<close>, with its adapters and clients.
  \<^item> \<open>Gpio\<close>, \<open>Imx_Gpio\<close>: \<^verbatim>\<open>platform/gpio\<close>, \<^verbatim>\<open>drivers/gpio/imx-gpiochip.c\<close>.  Pins, their descriptors and controllers.  What the framework relies on
    in a driver is a locale, \<open>gpio_hw\<close>, over the direction and the level the hardware has; the i.MX driver interprets it with its registers.
  \<^item> \<open>Clk\<close>, \<open>Imx_Clk\<close>: \<^verbatim>\<open>platform/clk\<close>, the gates of \<^verbatim>\<open>drivers/clk/imx-clks.c\<close>.  Clocks, handles for them and providers; the contract of a driver is a locale,
    \<open>clk_driver\<close>, which the i.MX gates interpret.
  \<^item> This theory: properties that span components.

  \<^bold>\<open>Conventions.\<close>
  Structures are records, pointers are 32-bit words, and 0 is null.  Results are options where the code can fail to return: \<open>None\<close> is a
  loop that never ends, a lock nobody releases, or an access the language leaves undefined; error codes are integers, as in
  the code.  Memory handed out by the pool is, for all parts but the allocator itself, a list of the addresses the next
  allocations return, so that every theorem covers failing allocations; freed addresses are logged.  Drivers, chips
  and functions called through pointers are parameters.  A handler runs to its end unless a theorem is about
  interleaving; \<open>Locks\<close> and \<open>Wait_Sleep\<close> have the steps between which other threads run.

  \<^bold>\<open>What is proved.\<close>
  \<^item> Scheduler: every reachable state is well-formed; the code implements specifications on lists; calls return.
  \<^item> Threads: creation is all or nothing; a created thread is ready.  Waiting: a wake-up is not lost.  Timers: due timers run.
  \<^item> Worker: a round runs all work and ends, for functions that queue further work without going in circles.
  \<^item> Memory: an allocated area is fresh; properly nested use loses nothing.  The bound \<open>POOL_LIMIT\<close> keeps the pool below the
    addresses that stand for error codes, as the memory map of the board does.
  \<^item> Devices: registration is exact, lookup returns what was entered, opening a path reaches its driver, also through the
    tree of objects.  Interrupts: numbers are mapped, requested handlers are called.  Mail is first in, first out.
  \<^item> Device tree: the tree that was flattened is rebuilt, its paths are found, and running out of memory loses none; numbers are read back as they were written, searches end and find the first node, references with arguments are taken
    apart, and an interrupt of the tree gets one number for good.
  \<^item> Buses: a new device is bound to the first driver that fits, a new driver to all free devices it fits, and bindings stay sound,
    on the platform bus and the I2C bus; the nodes of the tree become devices in order, each once; an I2C client is created as a whole or not at all.
  \<^item> Pins: one owner at a time, the remembered direction is that of the hardware, levels read back as they were set, and triggers are
    programmed for the one pin.
  \<^item> Clocks: registering a gate is all or nothing; a device gets a handle for the clock it names in the tree, and the handle switches the two bits
    of that gate and nothing else.  The 266 pieces of memory of the theorem are three for each of the 88 gates, the provider and the handle.
  \<^item> Stores: the radix tree and the trie are maps, whatever the allocator does.
  \<^item> Strings and numbers: the formatter fills exactly the memory it asks for; the division loops divide.
  \<^item> Where the code does not do what it means to, a theorem states what it does instead; these properties are of the kind \<open>error\<close>.

  \<^bold>\<open>Bounds.\<close>
  There is no fuel: loops over data are structurally recursive or have a measure; loops that may not end are partial functions, and the
  theorems about them state that they return.  Machine arithmetic is on words of the width of the code.

  \<^bold>\<open>Not modelled.\<close>
  Assembler (start-up, context switch beyond its effect on the scheduler), register accesses of drivers and board code, the
  third-party FAT file system and device tree compiler, the display, SD card, USB and network code, pin control, and the dividers of the clock driver.
\<close>

section \<open>Opening device files\<close>

text \<open>The path lookup the file functions use is the one of the tree of kernel objects.\<close>

definition tree_path :: "kobj_sys \<Rightarrow> string \<Rightarrow> kuaddr_t" where
  "tree_path t nm =
     (case kobj_inode_find (Some (map (\<lambda>c. of_nat (of_char c)) nm @ [0])) t of None \<Rightarrow> 0 | Some (i, _) \<Rightarrow> i)"



end
